(* ===== verification/Prelude.thy ===== *)
theory Prelude
  imports Main "HOL-Library.Word" "HOL-Library.Signed_Division" "HOL-Library.Monad_Syntax"
begin

text \<open>
  Shared vocabulary of the development.

  A failed glog \<open>CHECK\<close> (or a \<open>LOG (FATAL)\<close>) terminates the process.  Operations whose only
  failure is such a check return an \<open>option\<close>, with \<open>None\<close> for the aborted process.  Operations
  that can also reject their input in an orderly way (the C++ functions that return \<open>false\<close>)
  return a value of the sum type \<open>'a res\<close>, with \<open>Inl CheckFailed\<close> for the abort and
  \<open>Inl Rejected\<close> for the orderly refusal.  Storage operations can throw an exception; they
  return an \<open>outcome\<close>, which keeps the state that was reached when the exception was thrown.
\<close>

unbundle bit_operations_syntax

section \<open>Names of the shared types\<close>

type_synonym byte = "8 word"
type_synonym u32 = "32 word"
type_synonym u64 = "64 word"

named_theorems step_simps \<open>defining equations of the operations of a component\<close>
named_theorems inv_intros \<open>preservation of a component's invariant, operation by operation\<close>

section \<open>Failing computations\<close>

datatype fail = CheckFailed | Rejected

type_synonym 'a res = "fail + 'a"

definition check :: "bool \<Rightarrow> unit option" where
  "check b = (if b then Some () else None)"

lemma bind_check [simp]: "Option.bind (check b) f = (if b then f () else None)"
  by (simp add: check_def)

lemma check_eq_Some [simp]: "check b = Some u \<longleftrightarrow> b"
  by (simp add: check_def)

lemma check_eq_None [simp]: "check b = None \<longleftrightarrow> \<not> b"
  by (simp add: check_def)

text \<open>\<open>orFatal\<close> turns a value that a \<open>CHECK\<close> guards into a result.\<close>

definition orFatal :: "'a option \<Rightarrow> 'a res" where
  "orFatal x = (case x of None \<Rightarrow> Inl CheckFailed | Some y \<Rightarrow> Inr y)"

lemma orFatal_simps [simp]:
  "orFatal None = Inl CheckFailed"
  "orFatal (Some y) = Inr y"
  by (simp_all add: orFatal_def)

lemma orFatal_eq_Inr [simp]: "orFatal x = Inr y \<longleftrightarrow> x = Some y"
  by (cases x) auto

text \<open>\<open>orCheck\<close> is a \<open>CHECK\<close> that an operation did not refuse.\<close>

definition orCheck :: "'a res \<Rightarrow> 'a res" where
  "orCheck r = (case r of Inl _ \<Rightarrow> Inl CheckFailed | Inr y \<Rightarrow> Inr y)"

lemma orCheck_simps [simp]:
  "orCheck (Inl e) = Inl CheckFailed"
  "orCheck (Inr y) = Inr y"
  by (simp_all add: orCheck_def)

lemma orCheck_eq_Inr [simp]: "orCheck r = Inr y \<longleftrightarrow> r = Inr y"
  by (cases r) auto

fun rbind :: "'a res \<Rightarrow> ('a \<Rightarrow> 'b res) \<Rightarrow> 'b res" where
  "rbind (Inl e) f = Inl e"
| "rbind (Inr x) f = f x"

lemma rbind_eq_Inr_conv: "rbind m f = Inr y \<longleftrightarrow> (\<exists>x. m = Inr x \<and> f x = Inr y)"
  by (cases m) auto

lemma rbind_Inr_right [simp]: "rbind m Inr = m"
  by (cases m) auto

lemma rbind_assoc: "rbind (rbind m f) g = rbind m (\<lambda>x. rbind (f x) g)"
  by (cases m) auto

section \<open>Operations that can throw\<close>

datatype 's outcome = Done 's | Thrown 's | Aborted

fun obind :: "'s outcome \<Rightarrow> ('s \<Rightarrow> 's outcome) \<Rightarrow> 's outcome" where
  "obind (Done s) f = f s"
| "obind (Thrown s) f = Thrown s"
| "obind Aborted f = Aborted"

text \<open>\<open>on_throw r f\<close> runs \<open>f\<close> when the exception passes and throws it again; an exception from \<open>f\<close> terminates.\<close>

fun on_throw :: "'s outcome \<Rightarrow> ('s \<Rightarrow> 's outcome) \<Rightarrow> 's outcome" where
  "on_throw (Done s) f = Done s"
| "on_throw (Thrown s) f = (case f s of Done s' \<Rightarrow> Thrown s' | _ \<Rightarrow> Aborted)"
| "on_throw Aborted f = Aborted"

fun omap :: "('a \<Rightarrow> 'b) \<Rightarrow> 'a outcome \<Rightarrow> 'b outcome" where
  "omap f (Done s) = Done (f s)"
| "omap f (Thrown s) = Thrown (f s)"
| "omap f Aborted = Aborted"

definition ocheck :: "bool \<Rightarrow> 's \<Rightarrow> 's outcome" where
  "ocheck b s = (if b then Done s else Aborted)"

text \<open>A condition on the states in which an operation returns and throws, which excludes an abort.\<close>

fun outcome_ok :: "('s \<Rightarrow> bool) \<Rightarrow> ('s \<Rightarrow> bool) \<Rightarrow> 's outcome \<Rightarrow> bool" where
  "outcome_ok P Q (Done s) = P s"
| "outcome_ok P Q (Thrown s) = Q s"
| "outcome_ok P Q Aborted = False"

lemma outcome_ok_cases:
  assumes "outcome_ok P Q r"
  obtains s where "r = Done s" "P s" | s where "r = Thrown s" "Q s"
  using assms by (cases r) auto

lemma outcome_ok_mono:
  "\<lbrakk>outcome_ok P Q r; \<And>s. P s \<Longrightarrow> P' s; \<And>s. Q s \<Longrightarrow> Q' s\<rbrakk> \<Longrightarrow> outcome_ok P' Q' r"
  by (cases r) auto

lemma outcome_ok_bind:
  "\<lbrakk>outcome_ok P Q r; \<And>s. P s \<Longrightarrow> outcome_ok P' Q' (f s); \<And>s. Q s \<Longrightarrow> Q' s\<rbrakk> \<Longrightarrow> outcome_ok P' Q' (obind r f)"
  by (cases r) auto

lemma outcome_ok_omap [simp]: "outcome_ok P Q (omap f r) = outcome_ok (\<lambda>s. P (f s)) (\<lambda>s. Q (f s)) r"
  by (cases r) simp_all

lemma outcome_ok_on_throw:
  "\<lbrakk>outcome_ok P Q r; \<And>s. Q s \<Longrightarrow> \<exists>s'. f s = Done s' \<and> Q' s'\<rbrakk> \<Longrightarrow> outcome_ok P Q' (on_throw r f)"
  by (cases r) (simp, fastforce, simp)

lemma ocheck_simps [simp]: "ocheck True s = Done s" "ocheck False s = Aborted"
  by (simp_all add: ocheck_def)

section \<open>Lists by index\<close>

text \<open>An access by index; out of range it is undefined behaviour or a failed check of the C++ code.\<close>

definition nth_opt :: "'a list \<Rightarrow> nat \<Rightarrow> 'a option" where
  "nth_opt xs i = (if i < length xs then Some (xs ! i) else None)"

lemma nth_opt_eq_Some [simp]: "nth_opt xs i = Some x \<longleftrightarrow> i < length xs \<and> x = xs ! i"
  by (auto simp: nth_opt_def)

lemma nth_opt_in [simp]: "i < length xs \<Longrightarrow> nth_opt xs i = Some (xs ! i)"
  by (simp add: nth_opt_def)

lemma those_map_Some: "\<forall>x \<in> set xs. f x \<noteq> None \<Longrightarrow> \<exists>ys. those (map f xs) = Some ys"
  by (induction xs) auto

section \<open>Machine integers\<close>

lemma unat_u32_less: "unat (n :: u32) < 2 ^ 32"
  by (rule order_less_le_trans [OF unsigned_less]) simp

lemma unat_ucast_u32_u64: "unat (ucast (n :: u32) :: u64) = unat n"
  by (simp add: unsigned_ucast_eq take_bit_nat_eq_self order_less_le_trans [OF unsigned_less])

lemma unat_max_u32: "unat (- 1 :: u32) = 2 ^ 32 - 1"
  by (simp add: unsigned_minus_1_eq_mask mask_eq_exp_minus_1)

lemma unat_max_u64: "unat (- 1 :: u64) = 2 ^ 64 - 1"
  by (simp add: unsigned_minus_1_eq_mask mask_eq_exp_minus_1)

end
