(* ===== verification/Uint256.thy ===== *)
theory Uint256
  imports Prelude "HOL-Library.List_Lexorder"
begin

text \<open>
  The 256-bit hash values of \<open>spacexpanseutil/uint256.cpp\<close>: 32 bytes, stored big-endian, compared
  lexicographically, with the hex form that the daemons print and parse.  The round trip of the hex
  form is proved in both directions, up to the case of the digits.
\<close>

section \<open>The type\<close>

datatype uint256 = U256 (data: "byte list")

definition NUM_BYTES :: nat where
  "NUM_BYTES = 32"

text \<open>A value of the C++ type has exactly \<open>NUM_BYTES\<close> bytes.\<close>

definition uint256_wf :: "uint256 \<Rightarrow> bool" where
  "uint256_wf u \<longleftrightarrow> length (data u) = NUM_BYTES"

definition uint256_lt :: "uint256 \<Rightarrow> uint256 \<Rightarrow> bool" where
  "uint256_lt a b = (data a < data b)"

instantiation uint256 :: linorder
begin

definition less_eq_uint256 :: "uint256 \<Rightarrow> uint256 \<Rightarrow> bool" where
  "less_eq_uint256 a b \<longleftrightarrow> data a \<le> data b"

definition less_uint256 :: "uint256 \<Rightarrow> uint256 \<Rightarrow> bool" where
  "less_uint256 a b = uint256_lt a b"

instance
  by standard (auto simp: less_eq_uint256_def less_uint256_def uint256_lt_def uint256.expand)

end

section \<open>Operations\<close>

definition DIGITS :: string where
  "DIGITS = ''0123456789abcdef''"

definition ToHex :: "uint256 \<Rightarrow> string" where
  "ToHex u = concat (map (\<lambda>val. [DIGITS ! unat (drop_bit 4 val), DIGITS ! unat (val mod 0x10)]) (data u))"

text \<open>The parsed digit, or \<open>None\<close> when the C++ function returns false.\<close>

definition ParseHexDigit :: "char \<Rightarrow> byte option" where
  "ParseHexDigit digit =
    (let d = (of_char digit :: nat) in
     if of_char CHR ''0'' \<le> d \<and> d \<le> of_char CHR ''9'' then Some (of_nat (d - of_char CHR ''0''))
     else if of_char CHR ''a'' \<le> d \<and> d \<le> of_char CHR ''f'' then Some (0xA + of_nat (d - of_char CHR ''a''))
     else if of_char CHR ''A'' \<le> d \<and> d \<le> of_char CHR ''F'' then Some (0xA + of_nat (d - of_char CHR ''A''))
     else None)"

fun FromHex_loop :: "string \<Rightarrow> byte list option" where
  "FromHex_loop (a # b # hex) = do {
     hi \<leftarrow> ParseHexDigit a;
     lo \<leftarrow> ParseHexDigit b;
     rest \<leftarrow> FromHex_loop hex;
     Some (or (push_bit 4 hi) lo # rest)
   }"
| "FromHex_loop _ = Some []"

text \<open>\<open>FromHex\<close> returns whether the text is valid, and the object, unchanged when it is not.\<close>

definition FromHex :: "string \<Rightarrow> uint256 \<Rightarrow> bool \<times> uint256" where
  "FromHex hex u =
    (if length hex \<noteq> NUM_BYTES * 2 then (False, u)
     else case FromHex_loop hex of None \<Rightarrow> (False, u) | Some newData \<Rightarrow> (True, U256 newData))"

definition FromBlob :: "byte list \<Rightarrow> uint256" where
  "FromBlob blob = U256 (take NUM_BYTES blob)"

definition GetBinaryString :: "uint256 \<Rightarrow> byte list" where
  "GetBinaryString u = data u"

definition IsNull :: "uint256 \<Rightarrow> bool" where
  "IsNull u \<longleftrightarrow> list_all (\<lambda>val. val = 0) (data u)"

definition SetNull :: uint256 where
  "SetNull = U256 (replicate NUM_BYTES 0)"

section \<open>Facts\<close>

lemma SetNull_wf [simp]: "uint256_wf SetNull" "IsNull SetNull"
  by (simp_all add: uint256_wf_def SetNull_def IsNull_def list_all_iff)

lemma IsNull_iff: "uint256_wf u \<Longrightarrow> IsNull u \<longleftrightarrow> u = SetNull"
  by (cases u) (auto simp: IsNull_def SetNull_def uint256_wf_def list_all_iff intro!: replicate_eqI)

lemma FromBlob_GetBinaryString: "uint256_wf u \<Longrightarrow> FromBlob (GetBinaryString u) = u"
  by (simp add: FromBlob_def GetBinaryString_def uint256_wf_def)

lemma length_ToHex: "length (ToHex u) = 2 * length (data u)"
  unfolding ToHex_def by (induction "data u" arbitrary: u rule: list.induct) (auto simp: length_concat comp_def sum_list_triv)

lemma ParseHexDigit_DIGITS:
  assumes "n < 16"
  shows "ParseHexDigit (DIGITS ! n) = Some (of_nat n)"
proof -
  have "\<forall>n \<in> set [0..<16]. ParseHexDigit (DIGITS ! n) = Some (of_nat n)"
    by (simp add: ParseHexDigit_def DIGITS_def upt_rec)
  with assms show ?thesis by simp
qed

lemma nibbles:
  "ParseHexDigit (DIGITS ! unat (drop_bit 4 (b :: byte))) = Some (drop_bit 4 b)"
  "ParseHexDigit (DIGITS ! unat (b mod 0x10)) = Some (b mod 0x10)"
  "or (push_bit 4 (drop_bit 4 b)) (b mod 0x10) = b"
proof -
  have "unat (drop_bit 4 b) < 16" "unat (b mod 16) < 16"
    using unsigned_less [of b, where ?'a = nat] by (auto simp: drop_bit_eq_div unat_div unat_mod)
  then show "ParseHexDigit (DIGITS ! unat (drop_bit 4 b)) = Some (drop_bit 4 b)"
    "ParseHexDigit (DIGITS ! unat (b mod 0x10)) = Some (b mod 0x10)"
    by (simp_all add: ParseHexDigit_DIGITS)
  have "b mod 16 = take_bit 4 b"
    by (simp add: take_bit_eq_mod)
  then show "or (push_bit 4 (drop_bit 4 b)) (b mod 0x10) = b"
    by (auto simp: bit_eq_iff bit_or_iff bit_push_bit_iff bit_drop_bit_eq bit_take_bit_iff)
qed

lemma FromHex_loop_ToHex: "FromHex_loop (ToHex (U256 bs)) = Some bs"
  by (induction bs) (simp_all add: ToHex_def nibbles)

text \<open>The lower-case form of a hex digit; other characters stay.\<close>

definition hex_lower :: "char \<Rightarrow> char" where
  "hex_lower c = (case ParseHexDigit c of None \<Rightarrow> c | Some d \<Rightarrow> DIGITS ! unat d)"

lemma ParseHexDigit_less:
  assumes "ParseHexDigit c = Some d"
  shows "unat d < 16"
proof -
  have "\<exists>k < 16. d = of_nat k"
    using assms unfolding ParseHexDigit_def Let_def
    by (auto split: if_splits intro: exI [of _ "of_char c - 48"] exI [of _ "of_char c - 87"]
        exI [of _ "of_char c - 55"])
  then obtain k where k: "k < 16" "d = of_nat k" by blast
  then have "unat d = k"
    by (simp add: unat_of_nat)
  with k(1) show ?thesis by simp
qed

lemma nibbles_or:
  assumes "unat (hi :: byte) < 16" and "unat (lo :: byte) < 16"
  shows "drop_bit 4 (or (push_bit 4 hi) lo) = hi" and "or (push_bit 4 hi) lo mod 0x10 = lo"
proof -
  have small: "\<not> bit w i" if "unat w < 16" "4 \<le> i" for w :: byte and i
  proof -
    have "unat (take_bit 4 w) = unat w"
      using that(1) by (simp add: take_bit_eq_mod unat_mod)
    then have "w = take_bit 4 w"
      by (metis word_unat_eq_iff)
    with that(2) show ?thesis
      by (metis bit_take_bit_iff not_le)
  qed
  have less: "bit hi i \<Longrightarrow> i < 4" "bit lo i \<Longrightarrow> i < 4" for i
    using small [OF assms(1)] small [OF assms(2)] by (meson not_less)+
  show "drop_bit 4 (or (push_bit 4 hi) lo) = hi"
    using small [OF assms(1)] small [OF assms(2)]
    by (auto simp: bit_eq_iff bit_or_iff bit_push_bit_iff bit_drop_bit_eq dest: less)
  have "or (push_bit 4 hi) lo mod 0x10 = take_bit 4 (or (push_bit 4 hi) lo)"
    by (simp add: take_bit_eq_mod)
  then show "or (push_bit 4 hi) lo mod 0x10 = lo"
    using small [OF assms(1)] small [OF assms(2)]
    by (auto simp: bit_eq_iff bit_or_iff bit_push_bit_iff bit_take_bit_iff dest: less)
qed

lemma FromHex_loop_Some:
  "even (length hex) \<Longrightarrow> FromHex_loop hex = Some bs \<Longrightarrow>
     length hex = 2 * length bs \<and> ToHex (U256 bs) = map hex_lower hex"
proof (induction hex arbitrary: bs rule: FromHex_loop.induct)
  case (1 a b hex)
  then obtain hi lo rest where p: "ParseHexDigit a = Some hi" "ParseHexDigit b = Some lo"
    and r: "FromHex_loop hex = Some rest" "bs = or (push_bit 4 hi) lo # rest"
    by (auto split: bind_splits)
  with 1 have "length hex = 2 * length rest \<and> ToHex (U256 rest) = map hex_lower hex"
    by auto
  then show ?case
    using p r nibbles_or [OF ParseHexDigit_less ParseHexDigit_less, OF p]
    by (simp add: ToHex_def hex_lower_def)
qed (simp_all add: ToHex_def)

lemma FromHex_loop_None:
  "even (length hex) \<Longrightarrow> FromHex_loop hex = None \<longleftrightarrow> (\<exists>c \<in> set hex. ParseHexDigit c = None)"
  by (induction hex rule: FromHex_loop.induct) (auto split: bind_splits)

section \<open>Round trip\<close>

text \<open>
  The hex form of a hash parses back to that hash, whatever the object held before.
\<close>

lemma hex_roundtrip:
  assumes "uint256_wf u"
  shows "FromHex (ToHex u) v = (True, u)"
  using assms by (cases u) (simp add: FromHex_def FromHex_loop_ToHex length_ToHex uint256_wf_def)

text \<open>
  \<open>FromHex\<close> accepts exactly the strings of 64 hex digits; a value it accepts is well-formed and
  prints as the lower-case form of the text, and a text it rejects leaves the object as it was.
\<close>

lemma FromHex_spec:
  "if length hex = 64 \<and> set hex \<subseteq> {c. ParseHexDigit c \<noteq> None}
   then \<exists>u. FromHex hex v = (True, u) \<and> uint256_wf u \<and> ToHex u = map hex_lower hex
   else FromHex hex v = (False, v)"
proof (cases "length hex = 64")
  case True
  show ?thesis
  proof (cases "FromHex_loop hex")
    case None
    then show ?thesis
      using True FromHex_loop_None [of hex] by (auto simp: FromHex_def NUM_BYTES_def)
  next
    case (Some bs)
    then show ?thesis
      using True FromHex_loop_None [of hex] FromHex_loop_Some [of hex bs]
      by (auto simp: FromHex_def NUM_BYTES_def uint256_wf_def)
  qed
qed (simp add: FromHex_def NUM_BYTES_def)

end
