(* ===== verification/Messages.thy ===== *)
theory Messages
  imports Uint256
begin

text \<open>
  The protocol-buffer messages of \<open>sidechannel/proto\<close>: a message is a record with an option for every
  optional field and a list for every repeated one.  \<open>get_or\<close> is the accessor of an optional field,
  which returns the default of the type when the field is not set.
\<close>

definition get_or :: "'a \<Rightarrow> 'a option \<Rightarrow> 'a" where
  "get_or d x = (case x of None \<Rightarrow> d | Some y \<Rightarrow> y)"

lemma get_or_simps [simp]: "get_or d None = d" "get_or d (Some y) = y"
  by (simp_all add: get_or_def)

record ChannelParticipant =
  participant_name :: "string option"
  participant_address :: "string option"

record ChannelMetadata =
  participants :: "ChannelParticipant list"
  reinit :: "byte list option"
  custom :: "byte list option"

definition participants_size :: "ChannelMetadata \<Rightarrow> nat" where
  "participants_size m = length (participants m)"

record SignedData =
  sd_data :: "byte list option"
  signatures :: "byte list list"
  for_testing_version :: "string option"

definition default_SignedData :: SignedData where
  "default_SignedData = \<lparr>sd_data = None, signatures = [], for_testing_version = None\<rparr>"

record StateTransition =
  tr_move :: "byte list option"
  new_state :: "SignedData option"

record StateProof =
  initial_state :: "SignedData option"
  transitions :: "StateTransition list"

text \<open>The accessors \<open>new_state ()\<close> and \<open>initial_state ()\<close>, and \<open>data ()\<close> of a signed message.\<close>

definition get_data :: "SignedData \<Rightarrow> byte list" where
  "get_data sd = get_or [] (sd_data sd)"

definition get_new_state :: "StateTransition \<Rightarrow> SignedData" where
  "get_new_state t = get_or default_SignedData (new_state t)"

definition get_initial_state :: "StateProof \<Rightarrow> SignedData" where
  "get_initial_state p = get_or default_SignedData (initial_state p)"

text \<open>\<open>ParsedBoardState::NO_TURN\<close>: the turn of no player.\<close>

definition NO_TURN :: int where
  "NO_TURN = - 1"

end
