(* ===== verification/StateProofs.thy ===== *)
theory StateProofs
  imports Messages
begin

text \<open>
  Signatures and state proofs of \<open>sidechannel\<close> (\<open>boardrules.hpp\<close>, \<open>protoversion.cpp\<close>,
  \<open>signatures.cpp\<close>, \<open>stateproof.cpp\<close>).

  The board rules of a game are a record of the virtual functions of \<open>BoardRules\<close> and
  \<open>ParsedBoardState\<close>; a parsed state is a value of the type \<open>'p\<close>.  \<open>ParseState\<close> returns \<open>Inl Rejected\<close>
  where the C++ function returns a null pointer.  What is no code of the repository is a field of the
  environment: signature recovery (\<open>verifier\<close>), SHA-256, base64 and the reflection test for unknown
  fields of a message.
\<close>

section \<open>Interfaces\<close>

datatype ChannelProtoVersion = ORIGINAL

record 'p BoardRules =
  ParseState :: "uint256 \<Rightarrow> ChannelMetadata \<Rightarrow> byte list \<Rightarrow> 'p res"
  GetProtoVersion :: "ChannelMetadata \<Rightarrow> ChannelProtoVersion"
  pEquals :: "'p \<Rightarrow> byte list \<Rightarrow> bool"
  pWhoseTurn :: "'p \<Rightarrow> int option"
  pTurnCount :: "'p \<Rightarrow> u32 option"
  pApplyMove :: "'p \<Rightarrow> byte list \<Rightarrow> byte list res"

record 'p ChannelEnv =
  rules :: "'p BoardRules"
  verifier :: "string \<Rightarrow> byte list \<Rightarrow> string"
  gameId :: string
  env_sha :: "byte list \<Rightarrow> uint256"
  EncodeBase64 :: "byte list \<Rightarrow> string"
  HasAnyUnknownFields :: "StateProof \<Rightarrow> bool"

record SignatureSigner =
  GetAddress :: string
  SignMessage :: "string \<Rightarrow> byte list"

section \<open>Versions of messages\<close>

definition CheckProtoVersion_SignedData :: "ChannelProtoVersion \<Rightarrow> SignedData \<Rightarrow> bool" where
  "CheckProtoVersion_SignedData version msg =
    (case version of ORIGINAL \<Rightarrow> for_testing_version msg = None)"

definition CheckProtoVersion :: "ChannelProtoVersion \<Rightarrow> StateProof \<Rightarrow> bool" where
  "CheckProtoVersion version msg =
    (if \<not> CheckProtoVersion_SignedData version (get_initial_state msg) then False
     else list_all (\<lambda>t. CheckProtoVersion_SignedData version (get_new_state t)) (transitions msg))"

definition CheckVersionedProto :: "'p ChannelEnv \<Rightarrow> ChannelMetadata \<Rightarrow> StateProof \<Rightarrow> bool" where
  "CheckVersionedProto env meta msg =
    (if HasAnyUnknownFields env msg then False
     else if \<not> CheckProtoVersion (GetProtoVersion (rules env) meta) msg then False
     else True)"

section \<open>Signatures\<close>

definition topic_char :: "char \<Rightarrow> bool" where
  "topic_char t = (let c = (of_char t :: nat) in
     (of_char CHR ''0'' \<le> c \<and> c \<le> of_char CHR ''9'')
     \<or> (of_char CHR ''A'' \<le> c \<and> c \<le> of_char CHR ''Z'')
     \<or> (of_char CHR ''a'' \<le> c \<and> c \<le> of_char CHR ''z''))"

definition GetChannelSignatureMessage ::
  "'p ChannelEnv \<Rightarrow> uint256 \<Rightarrow> ChannelMetadata \<Rightarrow> string \<Rightarrow> byte list \<Rightarrow> string option" where
  "GetChannelSignatureMessage env channelId meta topic d = do {
     check (list_all topic_char topic);
     let nl = [CHR 0x0A];
     Some (''Game-Channel Signature'' @ nl
       @ ''Game ID: '' @ gameId env @ nl
       @ ''Channel: '' @ ToHex channelId @ nl
       @ ''Reinit: '' @ EncodeBase64 env (get_or [] (reinit meta)) @ nl
       @ ''Topic: '' @ topic @ nl
       @ ''Data Hash: '' @ ToHex (env_sha env d))
   }"

definition get_address :: "ChannelParticipant \<Rightarrow> string" where
  "get_address p = get_or [] (participant_address p)"

text \<open>The indices of the participants that signed the data.\<close>

definition VerifyParticipantSignatures ::
  "'p ChannelEnv \<Rightarrow> uint256 \<Rightarrow> ChannelMetadata \<Rightarrow> string \<Rightarrow> SignedData \<Rightarrow> int set option" where
  "VerifyParticipantSignatures env channelId meta topic sd = do {
     msg \<leftarrow> GetChannelSignatureMessage env channelId meta topic (get_data sd);
     let addresses = set (map (verifier env msg) (signatures sd));
     Some (set (map int (filter (\<lambda>i. get_address (participants meta ! i) \<in> addresses)
       [0..<participants_size meta])))
   }"

definition SignDataForParticipant ::
  "'p ChannelEnv \<Rightarrow> SignatureSigner \<Rightarrow> uint256 \<Rightarrow> ChannelMetadata \<Rightarrow> string \<Rightarrow> int \<Rightarrow> SignedData
     \<Rightarrow> SignedData res" where
  "SignDataForParticipant env signer channelId meta topic index sd =
    (if \<not> (0 \<le> index \<and> index < int (participants_size meta)) then Inl CheckFailed
     else if get_address (participants meta ! nat index) \<noteq> GetAddress signer then Inl Rejected
     else rbind (orFatal (GetChannelSignatureMessage env channelId meta topic (get_data sd))) (\<lambda>msg.
       Inr (sd\<lparr>signatures := signatures sd @ [SignMessage signer msg]\<rparr>)))"

section \<open>State transitions and proofs\<close>

definition ExtraVerifyStateTransition ::
  "'p ChannelEnv \<Rightarrow> uint256 \<Rightarrow> ChannelMetadata \<Rightarrow> 'p \<Rightarrow> StateTransition \<Rightarrow> (int set \<times> 'p) res" where
  "ExtraVerifyStateTransition env channelId meta oldState transition =
    rbind (orFatal (pWhoseTurn (rules env) oldState)) (\<lambda>turn.
    if turn = NO_TURN then Inl Rejected
    else
      rbind (pApplyMove (rules env) oldState (get_or [] (tr_move transition))) (\<lambda>newState.
      rbind (orCheck (ParseState (rules env) channelId meta newState)) (\<lambda>parsedNew.
      if \<not> pEquals (rules env) parsedNew (get_data (get_new_state transition)) then Inl Rejected
      else
        rbind (orFatal (VerifyParticipantSignatures env channelId meta ''state''
                 (get_new_state transition))) (\<lambda>sigs.
        if turn \<notin> sigs then Inl Rejected
        else Inr (sigs, parsedNew)))))"

definition VerifyStateTransition ::
  "'p ChannelEnv \<Rightarrow> uint256 \<Rightarrow> ChannelMetadata \<Rightarrow> byte list \<Rightarrow> StateTransition \<Rightarrow> unit res" where
  "VerifyStateTransition env channelId meta oldState transition =
    rbind (ParseState (rules env) channelId meta oldState) (\<lambda>parsedOld.
    rbind (ExtraVerifyStateTransition env channelId meta parsedOld transition) (\<lambda>_. Inr ()))"

fun VerifyStateProof_loop ::
  "'p ChannelEnv \<Rightarrow> uint256 \<Rightarrow> ChannelMetadata \<Rightarrow> 'p \<Rightarrow> int set \<Rightarrow> byte list \<Rightarrow> StateTransition list
     \<Rightarrow> (int set \<times> byte list) res" where
  "VerifyStateProof_loop env channelId meta parsed sigs endState [] = Inr (sigs, endState)"
| "VerifyStateProof_loop env channelId meta parsed sigs endState (t # ts) =
    rbind (ExtraVerifyStateTransition env channelId meta parsed t) (\<lambda>(newSigs, parsedNew).
    VerifyStateProof_loop env channelId meta parsedNew (sigs \<union> newSigs) (get_data (get_new_state t)) ts)"

text \<open>\<open>VerifyStateProof\<close> returns the proven end state.\<close>

definition VerifyStateProof ::
  "'p ChannelEnv \<Rightarrow> uint256 \<Rightarrow> ChannelMetadata \<Rightarrow> byte list \<Rightarrow> StateProof \<Rightarrow> byte list res" where
  "VerifyStateProof env channelId meta reinitState proof =
    rbind (orFatal (VerifyParticipantSignatures env channelId meta ''state'' (get_initial_state proof))) (\<lambda>sigs.
    rbind (ParseState (rules env) channelId meta (get_data (get_initial_state proof))) (\<lambda>parsed.
    let foundOnChain = pEquals (rules env) parsed reinitState in
    rbind (VerifyStateProof_loop env channelId meta parsed sigs
             (get_data (get_initial_state proof)) (transitions proof)) (\<lambda>(sigs, endState).
    if foundOnChain then Inr endState
    else if \<not> list_all (\<lambda>i. int i \<in> sigs) [0..<participants_size meta] then Inl Rejected
    else Inr endState)))"

definition UnverifiedProofEndState :: "StateProof \<Rightarrow> byte list" where
  "UnverifiedProofEndState proof =
    (if transitions proof = [] then get_data (get_initial_state proof)
     else get_data (get_new_state (last (transitions proof))))"

text \<open>
  The search for the shortest sufficient end of the list of transitions: \<open>rev_before\<close> holds the
  transitions up to and including \<open>begin\<close> in reverse order, \<open>behind\<close> those after it.
\<close>

fun ExtendStateProof_loop ::
  "'p ChannelEnv \<Rightarrow> uint256 \<Rightarrow> ChannelMetadata \<Rightarrow> int set \<Rightarrow> StateTransition list \<Rightarrow> StateTransition list
     \<Rightarrow> StateTransition list option" where
  "ExtendStateProof_loop env channelId meta sigs [] behind = Some behind"
| "ExtendStateProof_loop env channelId meta sigs (t # rev_before) behind = do {
     newSigs \<leftarrow> VerifyParticipantSignatures env channelId meta ''state'' (get_new_state t);
     let sigs = sigs \<union> newSigs;
     check (card sigs \<le> participants_size meta);
     if card sigs = participants_size meta \<or> rev_before = [] then Some (t # behind)
     else ExtendStateProof_loop env channelId meta sigs rev_before (t # behind)
   }"

definition proof_of :: "StateTransition list \<Rightarrow> StateProof" where
  "proof_of ts = (case ts of
     [] \<Rightarrow> \<lparr>initial_state = None, transitions = []\<rparr>
   | t # ts \<Rightarrow> \<lparr>initial_state = Some (get_new_state t), transitions = ts\<rparr>)"

definition all_transitions :: "StateProof \<Rightarrow> StateTransition list" where
  "all_transitions proof =
     \<lparr>tr_move = None, new_state = Some (get_initial_state proof)\<rparr> # transitions proof"

definition ExtendStateProof ::
  "'p ChannelEnv \<Rightarrow> SignatureSigner \<Rightarrow> uint256 \<Rightarrow> ChannelMetadata \<Rightarrow> StateProof \<Rightarrow> byte list
     \<Rightarrow> StateProof res" where
  "ExtendStateProof env signer channelId meta oldProof mv =
    rbind (orCheck (ParseState (rules env) channelId meta (UnverifiedProofEndState oldProof))) (\<lambda>parsedOld.
    rbind (orFatal (pWhoseTurn (rules env) parsedOld)) (\<lambda>turn.
    if turn = NO_TURN then Inl Rejected
    else
      rbind (pApplyMove (rules env) parsedOld mv) (\<lambda>newState.
      rbind (SignDataForParticipant env signer channelId meta ''state'' turn
               (default_SignedData\<lparr>sd_data := Some newState\<rparr>)) (\<lambda>ns.
      let trans = \<lparr>tr_move = Some mv, new_state = Some ns\<rparr>;
          ts = all_transitions oldProof @ [trans]
      in rbind (orFatal (ExtendStateProof_loop env channelId meta {} (rev ts) [])) (\<lambda>ts'.
         Inr (proof_of ts'))))))"

section \<open>What the checks accept\<close>

definition signers :: "'p ChannelEnv \<Rightarrow> uint256 \<Rightarrow> ChannelMetadata \<Rightarrow> SignedData \<Rightarrow> int set" where
  "signers env channelId meta sd =
    {int i | i. i < participants_size meta \<and>
       get_address (participants meta ! i) \<in>
         verifier env (the (GetChannelSignatureMessage env channelId meta ''state'' (get_data sd))) ` set (signatures sd)}"

lemma state_message: "\<exists>msg. GetChannelSignatureMessage env channelId meta ''state'' d = Some msg"
  by (simp add: GetChannelSignatureMessage_def topic_char_def)

lemma VerifyParticipantSignatures_state:
  "VerifyParticipantSignatures env channelId meta ''state'' sd = Some (signers env channelId meta sd)"
  using state_message [of env channelId meta "get_data sd"]
  by (auto simp: VerifyParticipantSignatures_def signers_def)

lemma signers_range: "signers env channelId meta sd \<subseteq> int ` {..<participants_size meta}"
  by (auto simp: signers_def)

text \<open>
  One transition: the player whose turn it is made the move, the claimed new state is the result of
  the move, and that player signed it.
\<close>

definition signed_step ::
  "'p ChannelEnv \<Rightarrow> uint256 \<Rightarrow> ChannelMetadata \<Rightarrow> 'p \<Rightarrow> StateTransition \<Rightarrow> 'p \<Rightarrow> bool" where
  "signed_step env channelId meta p t p' \<longleftrightarrow>
    (\<exists>turn s. pWhoseTurn (rules env) p = Some turn \<and> turn \<noteq> NO_TURN
       \<and> pApplyMove (rules env) p (get_or [] (tr_move t)) = Inr s
       \<and> ParseState (rules env) channelId meta s = Inr p'
       \<and> pEquals (rules env) p' (get_data (get_new_state t))
       \<and> turn \<in> signers env channelId meta (get_new_state t))"

fun signed_run :: "'p ChannelEnv \<Rightarrow> uint256 \<Rightarrow> ChannelMetadata \<Rightarrow> 'p \<Rightarrow> StateTransition list \<Rightarrow> 'p \<Rightarrow> bool" where
  "signed_run env channelId meta p [] q \<longleftrightarrow> p = q"
| "signed_run env channelId meta p (t # ts) q \<longleftrightarrow>
    (\<exists>p'. signed_step env channelId meta p t p' \<and> signed_run env channelId meta p' ts q)"

lemma ExtraVerify_eq:
  "ExtraVerifyStateTransition env channelId meta p t = Inr (S, p') \<longleftrightarrow>
     signed_step env channelId meta p t p' \<and> S = signers env channelId meta (get_new_state t)"
  by (auto simp: ExtraVerifyStateTransition_def signed_step_def VerifyParticipantSignatures_state
      rbind_eq_Inr_conv split: if_splits)

definition run_signers :: "'p ChannelEnv \<Rightarrow> uint256 \<Rightarrow> ChannelMetadata \<Rightarrow> StateTransition list \<Rightarrow> int set" where
  "run_signers env channelId meta ts = (\<Union>t \<in> set ts. signers env channelId meta (get_new_state t))"

definition run_end :: "byte list \<Rightarrow> StateTransition list \<Rightarrow> byte list" where
  "run_end e ts = (if ts = [] then e else get_data (get_new_state (last ts)))"

lemma loop_eq:
  "VerifyStateProof_loop env channelId meta p S e ts = Inr (S', e') \<longleftrightarrow>
     (\<exists>q. signed_run env channelId meta p ts q) \<and> S' = S \<union> run_signers env channelId meta ts \<and> e' = run_end e ts"
proof (induction ts arbitrary: p S e)
  case (Cons t ts)
  have end_eq: "run_end (get_data (get_new_state t)) ts = run_end e (t # ts)"
    by (simp add: run_end_def)
  have "VerifyStateProof_loop env channelId meta p S e (t # ts) = Inr (S', e') \<longleftrightarrow>
    (\<exists>p'. signed_step env channelId meta p t p' \<and>
       VerifyStateProof_loop env channelId meta p' (S \<union> signers env channelId meta (get_new_state t))
         (get_data (get_new_state t)) ts = Inr (S', e'))"
    by (auto simp: rbind_eq_Inr_conv ExtraVerify_eq)
  then show ?case
    unfolding Cons.IH end_eq by (auto simp: run_signers_def)
qed (auto simp: run_signers_def run_end_def)

text \<open>A proof starts in the reinitialisation state, or all participants signed one of its states.\<close>

definition agreed :: "'p ChannelEnv \<Rightarrow> uint256 \<Rightarrow> ChannelMetadata \<Rightarrow> byte list \<Rightarrow> 'p \<Rightarrow> StateProof \<Rightarrow> bool" where
  "agreed env channelId meta reinitState p pf \<longleftrightarrow>
     pEquals (rules env) p reinitState
     \<or> int ` {..<participants_size meta} \<subseteq>
         signers env channelId meta (get_initial_state pf) \<union> run_signers env channelId meta (transitions pf)"

lemma VerifyStateProof_iff:
  "VerifyStateProof env channelId meta reinitState pf = Inr s \<longleftrightarrow>
    s = UnverifiedProofEndState pf \<and>
    (\<exists>p q. ParseState (rules env) channelId meta (get_data (get_initial_state pf)) = Inr p
       \<and> signed_run env channelId meta p (transitions pf) q
       \<and> agreed env channelId meta reinitState p pf)"
proof -
  have end_eq: "UnverifiedProofEndState pf = run_end (get_data (get_initial_state pf)) (transitions pf)"
    by (simp add: UnverifiedProofEndState_def run_end_def)
  have all: "list_all (\<lambda>i. int i \<in> S) [0..<n] \<longleftrightarrow> int ` {..<n} \<subseteq> S" for S n
    by (auto simp: list_all_iff image_subset_iff)
  show ?thesis
  proof (cases "ParseState (rules env) channelId meta (get_data (get_initial_state pf))")
    case (Inr p)
    then show ?thesis
      unfolding end_eq VerifyStateProof_def VerifyParticipantSignatures_state all agreed_def
      by (cases "pEquals (rules env) p reinitState")
        (auto simp: rbind_eq_Inr_conv loop_eq split: if_splits)
  qed (simp add: VerifyStateProof_def VerifyParticipantSignatures_state)
qed

lemma signed_run_append:
  "signed_run env i m p (xs @ ys) q \<longleftrightarrow> (\<exists>r. signed_run env i m p xs r \<and> signed_run env i m r ys q)"
  by (induction xs arbitrary: p) auto

lemma run_signers_append:
  "run_signers env i m (xs @ ys) = run_signers env i m xs \<union> run_signers env i m ys"
  by (simp add: run_signers_def)

lemma run_signers_simps [simp]:
  "run_signers env i m [] = {}"
  "run_signers env i m (t # ts) = signers env i m (get_new_state t) \<union> run_signers env i m ts"
  by (simp_all add: run_signers_def)

lemma all_signed:
  assumes "S \<subseteq> int ` {..<n}"
  shows "card S \<le> n" and "card S = n \<longleftrightarrow> int ` {..<n} \<subseteq> S"
proof -
  have c: "card (int ` {..<n}) = n" "finite (int ` {..<n})"
    by (simp_all add: card_image)
  show "card S \<le> n"
    using card_mono [OF c(2) assms] c(1) by simp
  show "card S = n \<longleftrightarrow> int ` {..<n} \<subseteq> S"
  proof
    assume "int ` {..<n} \<subseteq> S"
    with assms have "S = int ` {..<n}" by blast
    with c(1) show "card S = n" by simp
  qed (use card_subset_eq [OF c(2) assms] c(1) in simp)
qed

text \<open>The search for a sufficient end of the list of transitions.\<close>

lemma ExtendStateProof_loop_spec:
  assumes "rb \<noteq> []" and "S \<subseteq> int ` {..<participants_size m}"
  shows "\<exists>pre mid. rev rb = pre @ mid \<and> mid \<noteq> [] \<and> ExtendStateProof_loop env i m S rb behind = Some (mid @ behind)
    \<and> (pre = [] \<or> int ` {..<participants_size m} \<subseteq> S \<union> run_signers env i m mid)"
  using assms
proof (induction rb arbitrary: S behind)
  case (Cons t rb)
  let ?S = "S \<union> signers env i m (get_new_state t)"
  have S: "?S \<subseteq> int ` {..<participants_size m}"
    using Cons.prems(2) signers_range by blast
  show ?case
  proof (cases "card ?S = participants_size m \<or> rb = []")
    case True
    then have "ExtendStateProof_loop env i m S (t # rb) behind = Some ([t] @ behind)"
      using all_signed(1) [OF S] by (simp add: VerifyParticipantSignatures_state Let_def)
    moreover have "rev (t # rb) = rev rb @ [t]" by simp
    moreover have "rev rb = [] \<or> int ` {..<participants_size m} \<subseteq> S \<union> run_signers env i m [t]"
      using True all_signed(2) [OF S] by auto
    ultimately show ?thesis by blast
  next
    case False
    then have eq: "ExtendStateProof_loop env i m S (t # rb) behind =
        ExtendStateProof_loop env i m ?S rb (t # behind)"
      using all_signed(1) [OF S] by (simp add: VerifyParticipantSignatures_state Let_def)
    obtain pre mid where "rev rb = pre @ mid" "mid \<noteq> []"
      "ExtendStateProof_loop env i m ?S rb (t # behind) = Some (mid @ t # behind)"
      "pre = [] \<or> int ` {..<participants_size m} \<subseteq> ?S \<union> run_signers env i m mid"
      using Cons.IH [OF _ S] False by blast
    then show ?thesis
      unfolding eq by (intro exI [of _ pre] exI [of _ "mid @ [t]"]) (auto simp: run_signers_append)
  qed
qed simp

lemma extend_search:
  assumes "xs \<noteq> []"
  shows "\<exists>pre mid. xs = pre @ mid \<and> mid \<noteq> [] \<and> ExtendStateProof_loop env i m {} (rev xs) [] = Some mid
    \<and> (pre = [] \<or> int ` {..<participants_size m} \<subseteq> run_signers env i m mid)"
  using ExtendStateProof_loop_spec [of "rev xs" "{}" m env i "[]"] assms by simp

section \<open>The laws of board rules\<close>

text \<open>
  What the channel code relies on: for the states that occur in games (\<open>good\<close>), the turn is determined
  and a player's index or \<open>NO_TURN\<close>, moves do not abort the process, the result of a move parses to such
  a state again, the turn count exists, and the comparison with an encoded state is the equality of the
  parsed states.
\<close>

locale board_rules =
  fixes br :: "'p BoardRules"
    and good :: "uint256 \<Rightarrow> ChannelMetadata \<Rightarrow> 'p \<Rightarrow> bool"
  assumes turn_defined: "good i m p \<Longrightarrow>
      \<exists>t. pWhoseTurn br p = Some t \<and> (t = NO_TURN \<or> 0 \<le> t \<and> t < int (participants_size m))"
    and move_no_abort: "good i m p \<Longrightarrow> pWhoseTurn br p = Some t \<Longrightarrow> t \<noteq> NO_TURN \<Longrightarrow>
      pApplyMove br p mv \<noteq> Inl CheckFailed"
    and move_parses: "good i m p \<Longrightarrow> pApplyMove br p mv = Inr s \<Longrightarrow>
      \<exists>p'. ParseState br i m s = Inr p' \<and> good i m p'"
    and count_defined: "good i m p \<Longrightarrow> \<exists>c. pTurnCount br p = Some c"
    and equals_iff: "good i m p \<Longrightarrow> pEquals br p s \<longleftrightarrow> ParseState br i m s = Inr p"
begin

lemma signed_step_good:
  assumes "good i m p" and "rules env = br" and "signed_step env i m p t p'"
  shows "good i m p' \<and> ParseState br i m (get_data (get_new_state t)) = Inr p'"
proof -
  from assms(2,3) obtain mv s where "pApplyMove br p mv = Inr s" and p': "ParseState br i m s = Inr p'"
    and eq: "pEquals br p' (get_data (get_new_state t))"
    by (auto simp: signed_step_def)
  with move_parses [OF assms(1)] have g: "good i m p'" by fastforce
  with eq show ?thesis by (simp add: equals_iff [OF g])
qed

lemma signed_run_good:
  assumes "good i m p" and "rules env = br" and "signed_run env i m p ts q"
  shows "good i m q \<and> (ParseState br i m e = Inr p \<longrightarrow> ParseState br i m (run_end e ts) = Inr q)"
  using assms(1,3)
proof (induction ts arbitrary: p e)
  case (Cons t ts)
  then obtain p' where p': "signed_step env i m p t p'" and run: "signed_run env i m p' ts q"
    by auto
  have g: "good i m p'" "ParseState br i m (get_data (get_new_state t)) = Inr p'"
    using signed_step_good [OF Cons.prems(1) assms(2) p'] by auto
  have "run_end (get_data (get_new_state t)) ts = run_end e (t # ts)"
    by (simp add: run_end_def)
  then show ?case
    using Cons.IH [OF g(1) run, of "get_data (get_new_state t)"] g(2) by simp
qed (simp add: run_end_def)

text \<open>A proof that starts in a good state is checked without aborting.\<close>

lemma transition_no_abort:
  assumes "good i m p" and "rules env = br"
  shows "ExtraVerifyStateTransition env i m p t \<noteq> Inl CheckFailed"
proof -
  obtain turn where turn: "pWhoseTurn br p = Some turn"
    using turn_defined [OF assms(1)] by blast
  show ?thesis
  proof (cases "turn = NO_TURN")
    case False
    show ?thesis
    proof (cases "pApplyMove br p (get_or [] (tr_move t))")
      case (Inl e)
      with move_no_abort [OF assms(1) turn False] have "e = Rejected"
        by (cases e) auto
      with Inl turn assms(2) False show ?thesis
        by (simp add: ExtraVerifyStateTransition_def)
    next
      case (Inr s)
      then obtain p' where "ParseState br i m s = Inr p'"
        using move_parses [OF assms(1)] by blast
      with Inr turn assms(2) False show ?thesis
        by (simp add: ExtraVerifyStateTransition_def VerifyParticipantSignatures_state)
    qed
  qed (simp add: ExtraVerifyStateTransition_def turn assms(2))
qed

lemma loop_no_abort:
  assumes "good i m p" and "rules env = br"
  shows "VerifyStateProof_loop env i m p S e ts \<noteq> Inl CheckFailed"
  using assms(1)
proof (induction ts arbitrary: p S e)
  case (Cons t ts)
  show ?case
  proof (cases "ExtraVerifyStateTransition env i m p t")
    case (Inl f)
    then show ?thesis
      using transition_no_abort [OF Cons.prems assms(2), of t] by simp
  next
    case (Inr r)
    then obtain S' p' where r: "r = (S', p')" by (cases r)
    with Inr have "good i m p'"
      using signed_step_good [OF Cons.prems assms(2)] by (auto simp: ExtraVerify_eq)
    with Cons.IH Inr r show ?thesis by simp
  qed
qed simp

lemma proof_no_abort:
  assumes "ParseState br i m (get_data (get_initial_state pf)) = Inr p" and "good i m p" and "rules env = br"
  shows "VerifyStateProof env i m reinitState pf \<noteq> Inl CheckFailed"
proof (cases "VerifyStateProof_loop env i m p (signers env i m (get_initial_state pf))
    (get_data (get_initial_state pf)) (transitions pf)")
  case (Inl f)
  then show ?thesis
    using loop_no_abort [OF assms(2,3)] assms
    by (auto simp: VerifyStateProof_def VerifyParticipantSignatures_state Let_def)
next
  case (Inr r)
  with assms show ?thesis
    by (auto simp: VerifyStateProof_def VerifyParticipantSignatures_state Let_def split: prod.split)
qed

text \<open>
  Extending a valid proof that starts in a good state by a valid move of the signer gives a valid proof
  of the state after the move.
\<close>

lemma extend_valid:
  assumes parse: "ParseState br i m (get_data (get_initial_state pf)) = Inr p" and "good i m p"
    and br: "rules env = br" and old: "VerifyStateProof env i m reinitState pf = Inr e"
    and q: "ParseState br i m e = Inr q" and t: "pWhoseTurn br q = Some t" "t \<noteq> NO_TURN"
    and mv: "pApplyMove br q mv = Inr s"
    and addr: "get_address (participants m ! nat t) = GetAddress signer"
    and sign: "\<And>msg. verifier env msg (SignMessage signer msg) = GetAddress signer"
  shows "\<exists>pf' p'. ExtendStateProof env signer i m pf mv = Inr pf' \<and> VerifyStateProof env i m reinitState pf' = Inr s
    \<and> ParseState br i m (get_data (get_initial_state pf')) = Inr p' \<and> good i m p'
    \<and> (CheckProtoVersion v pf \<longrightarrow> CheckProtoVersion v pf')"
proof -
  from old obtain q' where e: "e = UnverifiedProofEndState pf" and run: "signed_run env i m p (transitions pf) q'"
    and agreed: "agreed env i m reinitState p pf"
    using parse br by (auto simp: VerifyStateProof_iff)
  have "e = run_end (get_data (get_initial_state pf)) (transitions pf)"
    by (simp add: e UnverifiedProofEndState_def run_end_def)
  with signed_run_good [OF assms(2) br run] parse q have "q' = q" and "good i m q"
    by auto
  note run = run [unfolded \<open>q' = q\<close>]
  have range: "0 \<le> t" "t < int (participants_size m)"
    using turn_defined [OF \<open>good i m q\<close>] t by auto
  obtain msg where msg: "GetChannelSignatureMessage env i m ''state'' s = Some msg"
    using state_message [of env i m s] by blast
  let ?ns = "default_SignedData\<lparr>sd_data := Some s, signatures := [SignMessage signer msg]\<rparr>"
  let ?tr = "\<lparr>tr_move = Some mv, new_state = Some ?ns\<rparr>"
  have ns: "SignDataForParticipant env signer i m ''state'' t (default_SignedData\<lparr>sd_data := Some s\<rparr>) = Inr ?ns"
    using range addr msg by (simp add: SignDataForParticipant_def get_data_def default_SignedData_def)
  have d: "get_data (get_new_state ?tr) = s"
    by (simp add: get_new_state_def get_data_def)
  obtain q2 where q2: "ParseState br i m s = Inr q2" "good i m q2"
    using move_parses [OF \<open>good i m q\<close> mv] by blast
  have "t \<in> signers env i m ?ns"
    using range addr sign msg by (auto simp: signers_def get_data_def default_SignedData_def intro!: exI [of _ "nat t"])
  then have step: "signed_step env i m q ?tr q2"
    using t mv q2 br d equals_iff [OF q2(2)] by (auto simp: signed_step_def get_new_state_def)
  let ?all = "all_transitions pf @ [?tr]"
  obtain pre mid where split: "?all = pre @ mid" "mid \<noteq> []"
    and loop: "ExtendStateProof_loop env i m {} (rev ?all) [] = Some mid"
    and full: "pre = [] \<or> int ` {..<participants_size m} \<subseteq> run_signers env i m mid"
    using extend_search [of ?all env i m] by blast
  obtain t0 rest where mid: "mid = t0 # rest" using split(2) by (cases mid) auto
  have ext: "ExtendStateProof env signer i m pf mv = Inr (proof_of mid)"
    using q t mv ns loop by (simp add: ExtendStateProof_def br flip: e)
  have last: "get_data (get_new_state (last mid)) = s"
    using split d by (metis last_appendR last_snoc)
  then have "UnverifiedProofEndState (proof_of mid) = s"
    by (auto simp: mid proof_of_def UnverifiedProofEndState_def get_initial_state_def split: if_splits)
  moreover have all_run: "signed_run env i m p (transitions pf @ [?tr]) q2"
    using run step by (auto simp: signed_run_append)
  have "\<exists>p0. ParseState br i m (get_data (get_new_state t0)) = Inr p0 \<and> good i m p0 \<and> signed_run env i m p0 rest q2
      \<and> (pre = [] \<longrightarrow> p0 = p)"
  proof (cases pre)
    case Nil
    then have "get_new_state t0 = get_initial_state pf" "rest = transitions pf @ [?tr]"
      using split mid by (auto simp: all_transitions_def get_new_state_def)
    with parse all_run Nil assms(2) show ?thesis by auto
  next
    case (Cons u pre')
    then have "transitions pf @ [?tr] = pre' @ t0 # rest"
      using split mid by (auto simp: all_transitions_def)
    with all_run obtain r p0 where r: "signed_run env i m p pre' r" "signed_step env i m r t0 p0"
      and "signed_run env i m p0 rest q2"
      by (auto simp: signed_run_append)
    moreover have "good i m r"
      using signed_run_good [OF assms(2) br r(1)] by simp
    ultimately show ?thesis
      using signed_step_good [OF _ br r(2)] Cons by auto
  qed
  then obtain p0 where p0: "ParseState br i m (get_data (get_new_state t0)) = Inr p0"
    "signed_run env i m p0 rest q2" "pre = [] \<longrightarrow> p0 = p" "good i m p0" by blast
  have "agreed env i m reinitState p0 (proof_of mid)"
  proof (cases pre)
    case Nil
    then have "get_new_state t0 = get_initial_state pf" "rest = transitions pf @ [?tr]"
      using split mid by (auto simp: all_transitions_def get_new_state_def)
    with agreed p0(3) Nil show ?thesis
      by (auto simp: agreed_def mid proof_of_def get_initial_state_def run_signers_append)
  next
    case Cons
    with full show ?thesis by (simp add: agreed_def mid proof_of_def get_initial_state_def)
  qed
  ultimately have "VerifyStateProof env i m reinitState (proof_of mid) = Inr s"
    using p0 br by (auto simp: VerifyStateProof_iff mid proof_of_def get_initial_state_def)
  moreover have "CheckProtoVersion v (proof_of mid)" if "CheckProtoVersion v pf"
  proof -
    have "\<forall>u \<in> set ?all. CheckProtoVersion_SignedData v (get_new_state u)"
      using that by (cases v) (auto simp: CheckProtoVersion_def CheckProtoVersion_SignedData_def all_transitions_def
          list_all_iff get_new_state_def default_SignedData_def split: if_splits)
    then have "\<forall>u \<in> set mid. CheckProtoVersion_SignedData v (get_new_state u)"
      using split(1) by simp
    then show ?thesis
      by (simp add: mid proof_of_def CheckProtoVersion_def list_all_iff get_initial_state_def)
  qed
  moreover have "ParseState br i m (get_data (get_initial_state (proof_of mid))) = Inr p0"
    using p0(1) by (simp add: mid proof_of_def get_initial_state_def)
  ultimately show ?thesis using ext p0(4) by blast
qed

end

end
