(* ===== verification/RollingState.thy ===== *)
theory RollingState
  imports StateProofs "HOL-Library.AList"
begin

text \<open>
  The off-chain view of a channel (\<open>sidechannel/rollingstate.cpp\<close>): for every reinitialisation of the
  channel the best known state with its proof, and a bounded queue of updates for reinitialisations
  that are not known yet.  The maps of the C++ code are association lists with distinct keys.
\<close>

section \<open>The queue of updates\<close>

record StateUpdateQueue =
  maxSize :: nat
  size :: nat
  updates :: "(byte list \<times> StateProof list) list"

fun drop_others :: "byte list \<Rightarrow> nat \<Rightarrow> (byte list \<times> StateProof list) list
    \<Rightarrow> (nat \<times> (byte list \<times> StateProof list) list) option" where
  "drop_others re sz [] = Some (sz, [])"
| "drop_others re sz ((k, q) # ms) =
    (if k = re then do {
       (sz, ms) \<leftarrow> drop_others re sz ms;
       Some (sz, (k, q) # ms) }
     else do {
       check (sz \<ge> length q);
       drop_others re (sz - length q) ms })"

definition Insert_make_room :: "byte list \<Rightarrow> StateUpdateQueue \<Rightarrow> StateUpdateQueue option" where
  "Insert_make_room re sq =
    (if size sq = maxSize sq then do {
       (sz, ms) \<leftarrow> drop_others re (size sq) (updates sq);
       Some (sq\<lparr>size := sz, updates := ms\<rparr>) }
     else Some sq)"

definition Insert_drop_oldest :: "byte list \<Rightarrow> StateUpdateQueue \<Rightarrow> StateUpdateQueue option" where
  "Insert_drop_oldest re sq =
    (if size sq = maxSize sq then
       (case updates sq of
          [(k, q)] \<Rightarrow> do {
            check (k = re);
            check (length q = size sq);
            check (q \<noteq> []);
            Some (sq\<lparr>size := size sq - 1, updates := [(k, tl q)]\<rparr>) }
        | _ \<Rightarrow> None)
     else Some sq)"

definition Insert :: "byte list \<Rightarrow> StateProof \<Rightarrow> StateUpdateQueue \<Rightarrow> StateUpdateQueue option" where
  "Insert re upd sq = do {
     sq \<leftarrow> Insert_make_room re sq;
     sq \<leftarrow> Insert_drop_oldest re sq;
     check (size sq < maxSize sq);
     let old = (case map_of (updates sq) re of None \<Rightarrow> [] | Some q \<Rightarrow> q);
     Some (sq\<lparr>size := size sq + 1, updates := AList.update re (old @ [upd]) (updates sq)\<rparr>)
   }"

definition ExtractQueue :: "byte list \<Rightarrow> StateUpdateQueue \<Rightarrow> (StateProof list \<times> StateUpdateQueue) option" where
  "ExtractQueue re sq = (case map_of (updates sq) re of
     None \<Rightarrow> Some ([], sq)
   | Some res \<Rightarrow> do {
       check (size sq \<ge> length res);
       Some (res, sq\<lparr>size := size sq - length res, updates := AList.delete re (updates sq)\<rparr>) })"

section \<open>The rolling state\<close>

definition STATE_UPDATE_QUEUE_SIZE :: nat where
  "STATE_UPDATE_QUEUE_SIZE = 100"

record 'p ReinitData =
  rd_meta :: ChannelMetadata
  reinitState :: "byte list"
  onChainTurn :: u32
  rd_proof :: StateProof
  latestState :: 'p

record 'p RollingState =
  reinits :: "(byte list \<times> 'p ReinitData) list"
  unknownReinitMoves :: StateUpdateQueue
  reinitId :: "byte list"

definition new_RollingState :: "'p RollingState" where
  "new_RollingState =
    \<lparr>reinits = [], unknownReinitMoves = \<lparr>maxSize = STATE_UPDATE_QUEUE_SIZE, size = 0, updates = []\<rparr>, reinitId = []\<rparr>"

definition current_entry :: "'p RollingState \<Rightarrow> 'p ReinitData option" where
  "current_entry rs = do { check (reinits rs \<noteq> []); map_of (reinits rs) (reinitId rs) }"

definition rs_GetLatestState :: "'p RollingState \<Rightarrow> 'p option" where
  "rs_GetLatestState rs = map_option latestState (current_entry rs)"

definition rs_GetStateProof :: "'p RollingState \<Rightarrow> StateProof option" where
  "rs_GetStateProof rs = map_option rd_proof (current_entry rs)"

definition GetOnChainTurnCount :: "'p RollingState \<Rightarrow> u32 option" where
  "GetOnChainTurnCount rs = map_option onChainTurn (current_entry rs)"

definition GetReinitId :: "'p RollingState \<Rightarrow> byte list option" where
  "GetReinitId rs = do { check (reinits rs \<noteq> []); Some (reinitId rs) }"

definition rs_GetMetadata :: "'p RollingState \<Rightarrow> ChannelMetadata option" where
  "rs_GetMetadata rs = map_option rd_meta (current_entry rs)"

definition set_entry :: "byte list \<Rightarrow> 'p ReinitData \<Rightarrow> 'p RollingState \<Rightarrow> 'p RollingState" where
  "set_entry re e rs = rs\<lparr>reinits := AList.update re e (reinits rs)\<rparr>"

text \<open>The result tells whether the current state changed.\<close>

definition UpdateWithMove ::
  "'p ChannelEnv \<Rightarrow> uint256 \<Rightarrow> byte list \<Rightarrow> StateProof \<Rightarrow> 'p RollingState \<Rightarrow> (bool \<times> 'p RollingState) option" where
  "UpdateWithMove env channelId updReinit pf rs = (case map_of (reinits rs) updReinit of
     None \<Rightarrow> do {
       q \<leftarrow> Insert updReinit pf (unknownReinitMoves rs);
       Some (False, rs\<lparr>unknownReinitMoves := q\<rparr>) }
   | Some entry \<Rightarrow>
     if \<not> CheckVersionedProto env (rd_meta entry) pf then Some (False, rs)
     else (case VerifyStateProof env channelId (rd_meta entry) (reinitState entry) pf of
        Inl CheckFailed \<Rightarrow> None
      | Inl Rejected \<Rightarrow> Some (False, rs)
      | Inr provenState \<Rightarrow>
        (case ParseState (rules env) channelId (rd_meta entry) provenState of
           Inl _ \<Rightarrow> None
         | Inr parsed \<Rightarrow> do {
             parsedCnt \<leftarrow> pTurnCount (rules env) parsed;
             currentCnt \<leftarrow> pTurnCount (rules env) (latestState entry);
             if currentCnt \<ge> parsedCnt then Some (False, rs)
             else Some (updReinit = reinitId rs,
               set_entry updReinit (entry\<lparr>rd_proof := pf, latestState := parsed\<rparr>) rs) })))"

fun apply_updates ::
  "'p ChannelEnv \<Rightarrow> uint256 \<Rightarrow> byte list \<Rightarrow> StateProof list \<Rightarrow> 'p RollingState \<Rightarrow> 'p RollingState option" where
  "apply_updates env channelId re [] rs = Some rs"
| "apply_updates env channelId re (sp # sps) rs = do {
     (_, rs) \<leftarrow> UpdateWithMove env channelId re sp rs;
     apply_updates env channelId re sps rs
   }"

definition UpdateOnChain ::
  "'p ChannelEnv \<Rightarrow> uint256 \<Rightarrow> ChannelMetadata \<Rightarrow> byte list \<Rightarrow> StateProof \<Rightarrow> 'p RollingState
     \<Rightarrow> (bool \<times> 'p RollingState) option" where
  "UpdateOnChain env channelId meta rstate pf rs = do {
     check (CheckVersionedProto env meta pf);
     (case VerifyStateProof env channelId meta rstate pf of
        Inl _ \<Rightarrow> None
      | Inr provenState \<Rightarrow> do {
          let reinitChange = (reinitId rs \<noteq> get_or [] (reinit meta));
          let rs = rs\<lparr>reinitId := get_or [] (reinit meta)\<rparr>;
          (case map_of (reinits rs) (reinitId rs) of
             None \<Rightarrow>
               (case ParseState (rules env) channelId meta provenState of
                  Inl _ \<Rightarrow> None
                | Inr parsed \<Rightarrow> do {
                    cnt \<leftarrow> pTurnCount (rules env) parsed;
                    let rs = set_entry (reinitId rs)
                      \<lparr>rd_meta = meta, reinitState = rstate, onChainTurn = cnt, rd_proof = pf,
                       latestState = parsed\<rparr> rs;
                    (updateQueue, q) \<leftarrow> ExtractQueue (reinitId rs) (unknownReinitMoves rs);
                    rs \<leftarrow> apply_updates env channelId (reinitId rs) updateQueue (rs\<lparr>unknownReinitMoves := q\<rparr>);
                    Some (True, rs) })
           | Some entry \<Rightarrow> do {
               check (meta = rd_meta entry);
               check (rstate = reinitState entry);
               (case ParseState (rules env) channelId (rd_meta entry) provenState of
                  Inl _ \<Rightarrow> None
                | Inr parsed \<Rightarrow> do {
                    parsedCnt \<leftarrow> pTurnCount (rules env) parsed;
                    let entry = (if parsedCnt > onChainTurn entry
                                 then entry\<lparr>onChainTurn := parsedCnt\<rparr> else entry);
                    currentCnt \<leftarrow> pTurnCount (rules env) (latestState entry);
                    if currentCnt \<ge> parsedCnt then Some (reinitChange, set_entry (reinitId rs) entry rs)
                    else Some (True,
                      set_entry (reinitId rs) (entry\<lparr>rd_proof := pf, latestState := parsed\<rparr>) rs) }) }) })
   }"

section \<open>The queue keeps its bound\<close>

definition queue_total :: "(byte list \<times> StateProof list) list \<Rightarrow> nat" where
  "queue_total ms = sum_list (map (length \<circ> snd) ms)"

definition queue_inv :: "StateUpdateQueue \<Rightarrow> bool" where
  "queue_inv sq \<longleftrightarrow> distinct (map fst (updates sq)) \<and> size sq = queue_total (updates sq)
     \<and> size sq \<le> maxSize sq \<and> 0 < maxSize sq"

lemma queue_total_simps [simp]: "queue_total [] = 0" "queue_total ((k, q) # ms) = length q + queue_total ms"
  by (simp_all add: queue_total_def)

lemma drop_others_eq:
  "queue_total ms \<le> sz \<Longrightarrow> drop_others re sz ms =
     Some (sz - queue_total (filter (\<lambda>m. fst m \<noteq> re) ms), filter (\<lambda>m. fst m = re) ms)"
  by (induction re sz ms rule: drop_others.induct) auto

lemma filter_key:
  "distinct (map fst ms) \<Longrightarrow>
     filter (\<lambda>m. fst m = k) ms = (case map_of ms k of None \<Rightarrow> [] | Some q \<Rightarrow> [(k, q)])"
proof (induction ms)
  case (Cons m ms)
  have "fst m \<notin> fst ` set ms \<Longrightarrow> filter (\<lambda>m'. fst m' = fst m) ms = []"
    by (simp add: filter_empty_conv) (metis imageI)
  with Cons show ?case
    by (cases m) (auto split: option.splits)
qed simp

lemma queue_total_filter: "queue_total (filter P ms) + queue_total (filter (\<lambda>m. \<not> P m) ms) = queue_total ms"
  by (induction ms) auto

lemma queue_total_update:
  "distinct (map fst ms) \<Longrightarrow> queue_total (AList.update k q ms) + (case map_of ms k of None \<Rightarrow> 0 | Some q' \<Rightarrow> length q')
     = queue_total ms + length q"
proof (induction ms)
  case (Cons m ms)
  then show ?case by (cases m) (auto simp: dom_map_of_conv_image_fst split: option.splits)
qed simp

lemma queue_total_delete:
  "queue_total (AList.delete k ms) = queue_total (filter (\<lambda>m. fst m \<noteq> k) ms)"
  by (simp add: AList.delete_eq split_def eq_commute)

lemma queue_total_lookup:
  assumes "distinct (map fst ms)"
  shows "queue_total (filter (\<lambda>m. fst m \<noteq> k) ms) + (case map_of ms k of None \<Rightarrow> 0 | Some q \<Rightarrow> length q) = queue_total ms"
  using queue_total_filter [of "\<lambda>m. fst m = k" ms] filter_key [OF assms, of k]
  by (auto split: option.splits)

definition lookup :: "byte list \<Rightarrow> StateUpdateQueue \<Rightarrow> StateProof list" where
  "lookup re sq = (case map_of (updates sq) re of None \<Rightarrow> [] | Some q \<Rightarrow> q)"

text \<open>
  Making room at capacity: other reinitialisations go first, and when there are none, the oldest update
  of the same one.
\<close>

definition kept :: "byte list \<Rightarrow> StateUpdateQueue \<Rightarrow> StateProof list" where
  "kept re sq = (if size sq = maxSize sq \<and> length (lookup re sq) = maxSize sq then tl (lookup re sq) else lookup re sq)"

lemma make_room_inv:
  assumes "queue_inv sq"
  shows "\<exists>sq'. Insert_make_room re sq = Some sq' \<and> queue_inv sq' \<and> maxSize sq' = maxSize sq
    \<and> lookup re sq' = lookup re sq
    \<and> (if size sq = maxSize sq then updates sq' = filter (\<lambda>m. fst m = re) (updates sq) else sq' = sq)"
proof (cases "size sq = maxSize sq")
  case True
  let ?ms = "updates sq"
  have inv: "distinct (map fst ?ms)" "size sq = queue_total ?ms" "0 < maxSize sq"
    using assms by (auto simp: queue_inv_def)
  let ?f = "filter (\<lambda>m. fst m = re) ?ms"
  let ?sq = "sq\<lparr>size := size sq - queue_total (filter (\<lambda>m. fst m \<noteq> re) ?ms), updates := ?f\<rparr>"
  have "Insert_make_room re sq = Some ?sq"
    using True inv(2) by (simp add: Insert_make_room_def drop_others_eq)
  moreover have "distinct (map fst ?f)"
    using inv(1) by (rule distinct_map_filter)
  then have "queue_inv ?sq"
    using inv True queue_total_filter [of "\<lambda>m. fst m = re" ?ms] by (simp add: queue_inv_def)
  moreover have "lookup re ?sq = lookup re sq"
    using filter_key [OF inv(1), of re] by (simp add: lookup_def split: option.split)
  ultimately show ?thesis using True by auto
qed (use assms in \<open>simp add: Insert_make_room_def\<close>)

lemma drop_oldest_inv:
  assumes "queue_inv sq" and "size sq = maxSize sq \<Longrightarrow> set (map fst (updates sq)) \<subseteq> {re}"
  shows "\<exists>sq'. Insert_drop_oldest re sq = Some sq' \<and> queue_inv sq' \<and> maxSize sq' = maxSize sq
    \<and> size sq' < maxSize sq'
    \<and> (if size sq = maxSize sq then lookup re sq' = tl (lookup re sq) \<and> length (lookup re sq) = maxSize sq
       else sq' = sq)"
proof (cases "size sq = maxSize sq")
  case True
  have inv: "distinct (map fst (updates sq))" "size sq = queue_total (updates sq)" "0 < maxSize sq"
    using assms by (auto simp: queue_inv_def)
  then have "updates sq \<noteq> []" using True by auto
  then obtain k q ms where ms: "updates sq = (k, q) # ms"
    by (cases "updates sq") auto
  with assms(2) True inv(1) have "k = re" "ms = []"
    by (auto simp: image_subset_iff) (metis all_not_in_conv fst_conv imageI set_empty surj_pair)
  moreover from this have "length q = size sq" "q \<noteq> []"
    using ms inv True by auto
  ultimately show ?thesis
    using True ms inv(3) by (simp add: Insert_drop_oldest_def queue_inv_def lookup_def)
qed (use assms in \<open>auto simp: Insert_drop_oldest_def queue_inv_def\<close>)

lemma Insert_spec:
  assumes "queue_inv sq"
  shows "\<exists>sq'. Insert re upd sq = Some sq' \<and> queue_inv sq' \<and> maxSize sq' = maxSize sq
    \<and> lookup re sq' = kept re sq @ [upd]
    \<and> (size sq < maxSize sq \<longrightarrow> (\<forall>k. k \<noteq> re \<longrightarrow> map_of (updates sq') k = map_of (updates sq) k))"
proof -
  obtain sq1 where 1: "Insert_make_room re sq = Some sq1" "queue_inv sq1" "maxSize sq1 = maxSize sq"
    "lookup re sq1 = lookup re sq"
    "if size sq = maxSize sq then updates sq1 = filter (\<lambda>m. fst m = re) (updates sq) else sq1 = sq"
    using make_room_inv [OF assms] by blast
  have full1: "set (map fst (updates sq1)) \<subseteq> {re}" if "size sq1 = maxSize sq1"
    using 1(3,5) that by (auto split: if_splits)
  obtain sq2 where 2: "Insert_drop_oldest re sq1 = Some sq2" "queue_inv sq2" "maxSize sq2 = maxSize sq1"
    "size sq2 < maxSize sq2"
    "if size sq1 = maxSize sq1 then lookup re sq2 = tl (lookup re sq1) \<and> length (lookup re sq1) = maxSize sq1
     else sq2 = sq1"
    using drop_oldest_inv [OF 1(2) full1] by blast
  have lk: "lookup re sq2 = kept re sq"
  proof (cases "size sq1 = maxSize sq1")
    case True
    moreover from this 1(3,5) have "size sq = maxSize sq"
      by (auto split: if_splits)
    ultimately show ?thesis
      using 1(3,4) 2(5) by (simp add: kept_def)
  next
    case False
    then have "lookup re sq2 = lookup re sq" using 1(4) 2(5) by simp
    moreover have "length (lookup re sq) \<noteq> maxSize sq"
    proof
      assume l: "length (lookup re sq) = maxSize sq"
      have "length (lookup re sq1) \<le> queue_total (updates sq1)"
        using queue_total_lookup [of "updates sq1" re] 1(2)
        by (cases "map_of (updates sq1) re") (simp_all add: lookup_def queue_inv_def)
      with l 1(2-4) False show False by (auto simp: queue_inv_def)
    qed
    ultimately show ?thesis by (simp add: kept_def)
  qed
  let ?sq = "sq2\<lparr>size := size sq2 + 1, updates := AList.update re (lookup re sq2 @ [upd]) (updates sq2)\<rparr>"
  have "Insert re upd sq = Some ?sq"
    using 1(1) 2(1,4) by (simp add: Insert_def lookup_def Let_def)
  moreover have "queue_inv ?sq"
    using 2(2,4) queue_total_update [of "updates sq2" re "lookup re sq2 @ [upd]"]
    by (cases "map_of (updates sq2) re") (simp_all add: queue_inv_def lookup_def distinct_update)
  moreover have "size sq < maxSize sq \<Longrightarrow> sq2 = sq"
    using 1(5) 2(5) by (auto split: if_splits)
  ultimately show ?thesis
    using 1(3) 2(3) lk
    by (intro exI [of _ ?sq]) (auto simp: lookup_def update_conv')
qed

lemma ExtractQueue_spec:
  assumes "queue_inv sq"
  shows "\<exists>sq'. ExtractQueue re sq = Some (lookup re sq, sq') \<and> queue_inv sq' \<and> maxSize sq' = maxSize sq
    \<and> map_of (updates sq') = (map_of (updates sq))(re := None)"
proof (cases "map_of (updates sq) re")
  case None
  then show ?thesis
    using assms by (auto simp: ExtractQueue_def lookup_def)
next
  case (Some q)
  have "queue_total (filter (\<lambda>m. fst m \<noteq> re) (updates sq)) + length q = queue_total (updates sq)"
    using queue_total_lookup [of "updates sq" re] assms Some by (simp add: queue_inv_def)
  then show ?thesis
    using assms Some
    by (auto simp: ExtractQueue_def lookup_def queue_inv_def queue_total_delete distinct_delete delete_conv')
qed

section \<open>The rolling state keeps valid proofs and the freshest states\<close>

definition entry_ok :: "'p ChannelEnv \<Rightarrow> uint256 \<Rightarrow> 'p ReinitData \<Rightarrow> bool" where
  "entry_ok env i e \<longleftrightarrow>
    (\<exists>s. VerifyStateProof env i (rd_meta e) (reinitState e) (rd_proof e) = Inr s
       \<and> ParseState (rules env) i (rd_meta e) s = Inr (latestState e))"

definition rs_inv :: "'p ChannelEnv \<Rightarrow> uint256 \<Rightarrow> 'p RollingState \<Rightarrow> bool" where
  "rs_inv env i rs \<longleftrightarrow> queue_inv (unknownReinitMoves rs)
     \<and> maxSize (unknownReinitMoves rs) = STATE_UPDATE_QUEUE_SIZE
     \<and> (\<forall>re e. map_of (reinits rs) re = Some e \<longrightarrow> entry_ok env i e)"

definition turn_of :: "'p ChannelEnv \<Rightarrow> 'p RollingState \<Rightarrow> byte list \<Rightarrow> u32 option" where
  "turn_of env rs re = Option.bind (map_of (reinits rs) re) (\<lambda>e. pTurnCount (rules env) (latestState e))"

text \<open>No reinitialisation falls back to an earlier turn.\<close>

definition not_older :: "'p ChannelEnv \<Rightarrow> 'p RollingState \<Rightarrow> 'p RollingState \<Rightarrow> bool" where
  "not_older env rs rs' \<longleftrightarrow>
    (\<forall>re c. turn_of env rs re = Some c \<longrightarrow> (\<exists>c'. turn_of env rs' re = Some c' \<and> c \<le> c'))"

lemma not_older_refl: "not_older env rs rs"
  by (auto simp: not_older_def)

lemma not_older_trans: "not_older env rs rs' \<Longrightarrow> not_older env rs' rs'' \<Longrightarrow> not_older env rs rs''"
  unfolding not_older_def by (meson order_trans)

lemma map_of_set_entry: "map_of (reinits (set_entry re e rs)) = (map_of (reinits rs))(re \<mapsto> e)"
  by (simp add: set_entry_def update_conv')

lemma set_entry_simps [simp]:
  "unknownReinitMoves (set_entry re e rs) = unknownReinitMoves rs"
  "reinitId (set_entry re e rs) = reinitId rs"
  by (simp_all add: set_entry_def)

lemma rs_inv_set_entry: "rs_inv env i rs \<Longrightarrow> entry_ok env i e \<Longrightarrow> rs_inv env i (set_entry re e rs)"
  by (auto simp: rs_inv_def map_of_set_entry)

lemma turn_of_set_entry:
  "turn_of env (set_entry re e rs) re' =
     (if re' = re then pTurnCount (rules env) (latestState e) else turn_of env rs re')"
  by (simp add: turn_of_def map_of_set_entry)

lemma UpdateWithMove_cases:
  assumes "UpdateWithMove env i re pf rs = Some (changed, rs')"
  shows "(\<exists>q. map_of (reinits rs) re = None \<and> Insert re pf (unknownReinitMoves rs) = Some q
            \<and> \<not> changed \<and> rs' = rs\<lparr>unknownReinitMoves := q\<rparr>)
    \<or> \<not> changed \<and> rs' = rs
    \<or> (\<exists>e p s old new. map_of (reinits rs) re = Some e
        \<and> VerifyStateProof env i (rd_meta e) (reinitState e) pf = Inr s
        \<and> ParseState (rules env) i (rd_meta e) s = Inr p
        \<and> pTurnCount (rules env) (latestState e) = Some old \<and> pTurnCount (rules env) p = Some new \<and> old < new
        \<and> changed = (re = reinitId rs) \<and> rs' = set_entry re (e\<lparr>rd_proof := pf, latestState := p\<rparr>) rs)"
  using assms
  by (auto simp: UpdateWithMove_def not_le split: option.splits if_splits sum.splits fail.splits bind_splits)

lemma UpdateWithMove_inv:
  assumes "UpdateWithMove env i re pf rs = Some (changed, rs')" and "rs_inv env i rs"
  shows "rs_inv env i rs' \<and> not_older env rs rs' \<and> reinitId rs' = reinitId rs
    \<and> (changed \<longrightarrow> (\<exists>old new. turn_of env rs (reinitId rs) = Some old
          \<and> turn_of env rs' (reinitId rs) = Some new \<and> old < new))"
  using UpdateWithMove_cases [OF assms(1)]
proof (elim disjE exE conjE)
  fix q
  assume "Insert re pf (unknownReinitMoves rs) = Some q" "\<not> changed" "rs' = rs\<lparr>unknownReinitMoves := q\<rparr>"
  then show ?thesis
    using assms(2) Insert_spec [of "unknownReinitMoves rs" re pf]
    by (auto simp: rs_inv_def not_older_def turn_of_def)
next
  fix e p s old new
  assume e: "map_of (reinits rs) re = Some e" and v: "VerifyStateProof env i (rd_meta e) (reinitState e) pf = Inr s"
    "ParseState (rules env) i (rd_meta e) s = Inr p"
    and turns: "pTurnCount (rules env) (latestState e) = Some old" "pTurnCount (rules env) p = Some new" "old < new"
    and c: "changed = (re = reinitId rs)" and rs': "rs' = set_entry re (e\<lparr>rd_proof := pf, latestState := p\<rparr>) rs"
  have "entry_ok env i (e\<lparr>rd_proof := pf, latestState := p\<rparr>)"
    using v by (auto simp: entry_ok_def)
  then have "rs_inv env i rs'"
    unfolding rs' by (intro rs_inv_set_entry assms(2))
  moreover have "turn_of env rs re = Some old"
    using e turns by (simp add: turn_of_def)
  then have "not_older env rs rs'"
    using turns by (auto simp: not_older_def rs' turn_of_set_entry)
  ultimately show ?thesis
    using c \<open>turn_of env rs re = Some old\<close> turns by (auto simp: rs' turn_of_set_entry)
qed (use assms(2) in \<open>auto simp: not_older_refl\<close>)

lemma apply_updates_inv:
  "apply_updates env i re sps rs = Some rs' \<Longrightarrow> rs_inv env i rs \<Longrightarrow>
     rs_inv env i rs' \<and> not_older env rs rs' \<and> reinitId rs' = reinitId rs"
proof (induction sps arbitrary: rs)
  case (Cons sp sps)
  then obtain c rs1 where "UpdateWithMove env i re sp rs = Some (c, rs1)" "apply_updates env i re sps rs1 = Some rs'"
    by (auto split: bind_splits)
  with Cons UpdateWithMove_inv [of env i re sp rs c rs1] show ?case
    using not_older_trans by fastforce
qed (simp add: not_older_refl)

lemma UpdateOnChain_cases:
  assumes "UpdateOnChain env i meta rstate pf rs = Some (changed, rs')"
  defines "re \<equiv> get_or [] (reinit meta)"
  shows "\<exists>s p cnt. VerifyStateProof env i meta rstate pf = Inr s \<and> ParseState (rules env) i meta s = Inr p
    \<and> pTurnCount (rules env) p = Some cnt
    \<and> ((\<exists>ups q. map_of (reinits rs) re = None \<and> changed
          \<and> ExtractQueue re (unknownReinitMoves rs) = Some (ups, q)
          \<and> apply_updates env i re ups
              ((set_entry re \<lparr>rd_meta = meta, reinitState = rstate, onChainTurn = cnt, rd_proof = pf,
                  latestState = p\<rparr> (rs\<lparr>reinitId := re\<rparr>))\<lparr>unknownReinitMoves := q\<rparr>) = Some rs')
      \<or> (\<exists>e old oct. map_of (reinits rs) re = Some e \<and> rd_meta e = meta \<and> reinitState e = rstate
          \<and> pTurnCount (rules env) (latestState e) = Some old
          \<and> oct = max cnt (onChainTurn e)
          \<and> (cnt \<le> old \<and> changed = (reinitId rs \<noteq> re)
               \<and> rs' = set_entry re (e\<lparr>onChainTurn := oct\<rparr>) (rs\<lparr>reinitId := re\<rparr>)
             \<or> old < cnt \<and> changed
               \<and> rs' = set_entry re (e\<lparr>onChainTurn := oct, rd_proof := pf, latestState := p\<rparr>) (rs\<lparr>reinitId := re\<rparr>))))"
proof -
  have m: "(if cnt > onChainTurn e then e\<lparr>onChainTurn := cnt\<rparr> else e) = e\<lparr>onChainTurn := max cnt (onChainTurn e)\<rparr>"
    for e :: "'a ReinitData" and cnt
    by (cases e) (auto simp: max_def)
  from assms(1) obtain s p cnt where base: "VerifyStateProof env i meta rstate pf = Inr s"
    "ParseState (rules env) i meta s = Inr p" "pTurnCount (rules env) p = Some cnt"
    by (auto simp: UpdateOnChain_def Let_def split: if_splits sum.splits option.splits bind_splits)
  show ?thesis
  proof (cases "map_of (reinits rs) re")
    case None
    with assms(1) base show ?thesis
      by (auto simp: UpdateOnChain_def Let_def re_def [symmetric] split: if_splits bind_splits)
  next
    case (Some e)
    with assms(1) base show ?thesis
      by (auto simp: UpdateOnChain_def Let_def re_def [symmetric] m not_le split: if_splits bind_splits)
  qed
qed

lemma rs_inv_frame:
  "rs_inv env i (rs\<lparr>reinitId := r\<rparr>) = rs_inv env i rs"
  by (auto simp: rs_inv_def)

lemma turn_of_frame [simp]:
  "turn_of env (rs\<lparr>reinitId := r\<rparr>) = turn_of env rs"
  "turn_of env (rs\<lparr>unknownReinitMoves := q\<rparr>) = turn_of env rs"
  by (auto simp: turn_of_def fun_eq_iff)

lemma UpdateOnChain_inv:
  assumes "UpdateOnChain env i meta rstate pf rs = Some (changed, rs')" and "rs_inv env i rs"
  shows "rs_inv env i rs' \<and> not_older env rs rs' \<and> reinitId rs' = get_or [] (reinit meta)"
proof -
  let ?re = "get_or [] (reinit meta)"
  obtain s p cnt where base: "VerifyStateProof env i meta rstate pf = Inr s"
    "ParseState (rules env) i meta s = Inr p" "pTurnCount (rules env) p = Some cnt"
    and cs: "(\<exists>ups q. map_of (reinits rs) ?re = None \<and> changed
          \<and> ExtractQueue ?re (unknownReinitMoves rs) = Some (ups, q)
          \<and> apply_updates env i ?re ups
              ((set_entry ?re \<lparr>rd_meta = meta, reinitState = rstate, onChainTurn = cnt, rd_proof = pf,
                  latestState = p\<rparr> (rs\<lparr>reinitId := ?re\<rparr>))\<lparr>unknownReinitMoves := q\<rparr>) = Some rs')
      \<or> (\<exists>e old oct. map_of (reinits rs) ?re = Some e \<and> rd_meta e = meta \<and> reinitState e = rstate
          \<and> pTurnCount (rules env) (latestState e) = Some old
          \<and> oct = max cnt (onChainTurn e)
          \<and> (cnt \<le> old \<and> changed = (reinitId rs \<noteq> ?re)
               \<and> rs' = set_entry ?re (e\<lparr>onChainTurn := oct\<rparr>) (rs\<lparr>reinitId := ?re\<rparr>)
             \<or> old < cnt \<and> changed
               \<and> rs' = set_entry ?re (e\<lparr>onChainTurn := oct, rd_proof := pf, latestState := p\<rparr>) (rs\<lparr>reinitId := ?re\<rparr>)))"
    using UpdateOnChain_cases [OF assms(1)] by blast
  from cs show ?thesis
  proof (elim disjE exE conjE)
    fix ups q
    assume new: "map_of (reinits rs) ?re = None" and q: "ExtractQueue ?re (unknownReinitMoves rs) = Some (ups, q)"
    let ?rs = "(set_entry ?re \<lparr>rd_meta = meta, reinitState = rstate, onChainTurn = cnt, rd_proof = pf,
        latestState = p\<rparr> (rs\<lparr>reinitId := ?re\<rparr>))\<lparr>unknownReinitMoves := q\<rparr>"
    assume a: "apply_updates env i ?re ups ?rs = Some rs'"
    have "queue_inv q" "maxSize q = STATE_UPDATE_QUEUE_SIZE"
      using ExtractQueue_spec [of "unknownReinitMoves rs" ?re] q assms(2) by (auto simp: rs_inv_def)
    moreover have "rs_inv env i (set_entry ?re \<lparr>rd_meta = meta, reinitState = rstate, onChainTurn = cnt,
        rd_proof = pf, latestState = p\<rparr> (rs\<lparr>reinitId := ?re\<rparr>))"
      using base assms(2) by (intro rs_inv_set_entry) (auto simp: rs_inv_frame entry_ok_def)
    ultimately have "rs_inv env i ?rs"
      by (auto simp: rs_inv_def)
    moreover have "not_older env rs ?rs"
      using new by (auto simp: not_older_def turn_of_set_entry) (simp add: turn_of_def)
    ultimately show ?thesis
      using apply_updates_inv [OF a] not_older_trans by auto
  next
    fix e old oct
    assume e: "map_of (reinits rs) ?re = Some e"
      and rs': "rs' = set_entry ?re (e\<lparr>onChainTurn := oct\<rparr>) (rs\<lparr>reinitId := ?re\<rparr>)"
    have "entry_ok env i (e\<lparr>onChainTurn := oct\<rparr>)"
      using e assms(2) by (auto simp: rs_inv_def entry_ok_def)
    then have "rs_inv env i rs'"
      unfolding rs' using assms(2) by (intro rs_inv_set_entry) (simp_all add: rs_inv_frame)
    moreover have "not_older env rs rs'"
      using e by (auto simp: not_older_def rs' turn_of_set_entry) (simp add: turn_of_def)
    ultimately show ?thesis by (simp add: rs')
  next
    fix e old oct
    assume e: "map_of (reinits rs) ?re = Some e" and m: "rd_meta e = meta" "reinitState e = rstate"
      and old: "pTurnCount (rules env) (latestState e) = Some old" "old < cnt"
      and rs': "rs' = set_entry ?re (e\<lparr>onChainTurn := oct, rd_proof := pf, latestState := p\<rparr>) (rs\<lparr>reinitId := ?re\<rparr>)"
    have "entry_ok env i (e\<lparr>onChainTurn := oct, rd_proof := pf, latestState := p\<rparr>)"
      using base m by (auto simp: entry_ok_def)
    then have "rs_inv env i rs'"
      unfolding rs' using assms(2) by (intro rs_inv_set_entry) (simp_all add: rs_inv_frame)
    moreover have "not_older env rs rs'"
      using e old base by (auto simp: not_older_def rs' turn_of_set_entry) (simp add: turn_of_def)
    ultimately show ?thesis by (simp add: rs')
  qed
qed

section \<open>Sequences of updates\<close>

inductive rs_step :: "'p ChannelEnv \<Rightarrow> uint256 \<Rightarrow> 'p RollingState \<Rightarrow> 'p RollingState \<Rightarrow> bool"
  for env i where
  on_chain: "UpdateOnChain env i meta rstate pf rs = Some (c, rs') \<Longrightarrow> rs_step env i rs rs'"
| off_chain: "UpdateWithMove env i re pf rs = Some (c, rs') \<Longrightarrow> rs_step env i rs rs'"

lemma new_RollingState_inv: "rs_inv env i new_RollingState"
  by (simp add: rs_inv_def new_RollingState_def queue_inv_def STATE_UPDATE_QUEUE_SIZE_def)

lemma rs_step_inv:
  assumes "rs_step env i rs rs'" and "rs_inv env i rs"
  shows "rs_inv env i rs' \<and> not_older env rs rs'"
  using assms by cases (auto dest: UpdateOnChain_inv UpdateWithMove_inv)

lemma rs_steps_inv:
  assumes "(rs_step env i)\<^sup>*\<^sup>* rs rs'" and "rs_inv env i rs"
  shows "rs_inv env i rs' \<and> not_older env rs rs'"
  using assms
proof induction
  case base
  then show ?case by (simp add: not_older_refl)
next
  case (step rs1 rs2)
  then show ?case
    using rs_step_inv [of env i rs1 rs2] not_older_trans by blast
qed

text \<open>
  Inserting into the queue of updates never fails one of its checks and keeps the total number of
  queued updates within the bound; the new update is the last of its reinitialisation, after those kept
  of before, and as long as the queue is not full nothing else changes.
\<close>

lemma update_queue_insert:
  assumes "queue_inv sq"
  shows "\<exists>sq'. Insert re upd sq = Some sq' \<and> queue_inv sq' \<and> size sq' \<le> maxSize sq
    \<and> lookup re sq' = kept re sq @ [upd]
    \<and> (size sq = maxSize sq \<or> map_of (updates sq') |` (- {re}) = map_of (updates sq) |` (- {re}))"
proof -
  obtain sq' where sq': "Insert re upd sq = Some sq'" "queue_inv sq'" "maxSize sq' = maxSize sq"
    "lookup re sq' = kept re sq @ [upd]"
    "size sq < maxSize sq \<longrightarrow> (\<forall>k. k \<noteq> re \<longrightarrow> map_of (updates sq') k = map_of (updates sq) k)"
    using Insert_spec [OF assms] by blast
  have "size sq' \<le> maxSize sq"
    using sq'(2,3) by (simp add: queue_inv_def)
  moreover have "size sq = maxSize sq \<or> map_of (updates sq') |` (- {re}) = map_of (updates sq) |` (- {re})"
  proof (cases "size sq = maxSize sq")
    case False
    with assms have "size sq < maxSize sq" by (auto simp: queue_inv_def)
    with sq'(5) show ?thesis by (auto simp: restrict_map_def fun_eq_iff)
  qed simp
  ultimately show ?thesis using sq' by blast
qed

text \<open>
  C17: after any sequence of on-chain and off-chain updates of a new rolling state, every known
  reinitialisation has a valid state proof of the state it stores, the queue holds at most 100 updates,
  and no further updates take a reinitialisation back to a state with a smaller turn count.
\<close>

theorem rolling_state_fresh:
  assumes "(rs_step env i)\<^sup>*\<^sup>* new_RollingState rs" and "(rs_step env i)\<^sup>*\<^sup>* rs rs'"
  shows "rs_inv env i rs' \<and> not_older env rs rs' \<and> size (unknownReinitMoves rs) \<le> 100"
  using rs_steps_inv [OF assms(1) new_RollingState_inv] rs_steps_inv [OF assms(2)]
  by (auto simp: rs_inv_def queue_inv_def STATE_UPDATE_QUEUE_SIZE_def)

definition null_env :: "unit ChannelEnv" where
  "null_env =
    \<lparr>rules = \<lparr>ParseState = (\<lambda>i m s. Inl Rejected), GetProtoVersion = (\<lambda>m. ORIGINAL), pEquals = (\<lambda>p s. False),
       pWhoseTurn = (\<lambda>p. None), pTurnCount = (\<lambda>p. None), pApplyMove = (\<lambda>p mv. Inl Rejected)\<rparr>,
     verifier = (\<lambda>msg sig. []), gameId = [], env_sha = (\<lambda>x. SetNull), EncodeBase64 = (\<lambda>x. []),
     HasAnyUnknownFields = (\<lambda>pf. True)\<rparr>"

theorem rolling_state_fresh_witness:
  "\<exists>rs. (rs_step null_env SetNull)\<^sup>*\<^sup>* new_RollingState rs \<and> rs \<noteq> new_RollingState \<and> rs_inv null_env SetNull rs
    \<and> not_older null_env new_RollingState rs
    \<and> size (unknownReinitMoves (new_RollingState :: unit RollingState)) \<le> 100"
proof -
  let ?pf = "\<lparr>initial_state = None, transitions = []\<rparr>"
  obtain q where q: "Insert [] ?pf (unknownReinitMoves (new_RollingState :: unit RollingState)) = Some q"
    and "lookup [] q \<noteq> []"
    using Insert_spec [of "unknownReinitMoves (new_RollingState :: unit RollingState)" "[]" ?pf]
      new_RollingState_inv [of null_env SetNull] by (auto simp: rs_inv_def)
  let ?rs = "new_RollingState\<lparr>unknownReinitMoves := q\<rparr>"
  have "UpdateWithMove null_env SetNull [] ?pf new_RollingState = Some (False, ?rs)"
    using q by (simp add: UpdateWithMove_def new_RollingState_def)
  then have *: "(rs_step null_env SetNull)\<^sup>*\<^sup>* new_RollingState ?rs"
    by (intro r_into_rtranclp off_chain)
  have "?rs \<noteq> new_RollingState"
    using \<open>lookup [] q \<noteq> []\<close> by (auto simp: new_RollingState_def lookup_def)
  with * rolling_state_fresh [OF rtranclp.rtrancl_refl *] show ?thesis by blast
qed

end
