(* ===== verification/Tables.thy ===== *)
theory Tables
  imports Prelude
begin

text \<open>
  Ordered tables: a \<open>std::map\<close>, the members of a JSON object and an SQLite table with a primary key
  are all kept as a list of entries that is strictly sorted by key.  Lookup is \<open>map_of\<close>; an
  \<open>INSERT OR REPLACE\<close> (or \<open>operator[]\<close> with an assignment) is \<open>member_set\<close>, a \<open>DELETE\<close> is
  \<open>member_del\<close>, and a \<open>SELECT\<close> with \<open>ORDER BY\<close> on the key filters the list.
\<close>

text \<open>Insertion into the sorted list of members (\<open>operator[]\<close> followed by an assignment).\<close>

fun member_set :: "'k :: linorder \<Rightarrow> 'a \<Rightarrow> ('k \<times> 'a) list \<Rightarrow> ('k \<times> 'a) list" where
  "member_set k v [] = [(k, v)]"
| "member_set k v ((k', v') # ms) =
    (if k = k' then (k, v) # ms
     else if k < k' then (k, v) # (k', v') # ms
     else (k', v') # member_set k v ms)"

lemma map_of_member_set: "sorted (map fst ms) \<Longrightarrow> map_of (member_set k v ms) = (map_of ms)(k \<mapsto> v)"
proof (induction ms rule: member_set.induct)
  case (2 k v k' v' ms)
  then show ?case
    by (auto simp: fun_eq_iff)
qed auto

lemma keys_member_set: "set (map fst (member_set k v ms)) = insert k (set (map fst ms))"
  by (induction k v ms rule: member_set.induct) auto

lemma sorted_member_set:
  "sorted_wrt (<) (map fst ms) \<Longrightarrow> sorted_wrt (<) (map fst (member_set k v ms))"
proof (induction k v ms rule: member_set.induct)
  case (2 k v k' v' ms)
  have head: "\<forall>x \<in> set (map fst ms). k' < x" and tail: "sorted_wrt (<) (map fst ms)"
    using "2.prems" by simp_all
  consider "k = k'" | "k < k'" | "k' < k" by (rule linorder_less_linear [of k k', THEN disjE]) auto
  then show ?case
  proof cases
    case 3
    then have "\<forall>x \<in> set (map fst (member_set k v ms)). k' < x"
      using head by (simp only: keys_member_set) simp
    moreover have ne: "k \<noteq> k'" "\<not> k < k'" using 3 by auto
    moreover have "sorted_wrt (<) (map fst (member_set k v ms))"
      using "2.IH" [OF ne tail] .
    ultimately show ?thesis by simp
  qed (use head tail in \<open>auto intro: less_trans\<close>)
qed simp

lemma set_member_set_subset: "set (member_set k v ms) \<subseteq> insert (k, v) (set ms)"
  by (induction k v ms rule: member_set.induct) auto

definition member_del :: "'k \<Rightarrow> ('k \<times> 'a) list \<Rightarrow> ('k \<times> 'a) list" where
  "member_del k ms = filter (\<lambda>e. fst e \<noteq> k) ms"

definition tbl_ok :: "('k :: linorder \<times> 'a) list \<Rightarrow> bool" where
  "tbl_ok ms = sorted_wrt (<) (map fst ms)"

lemma tbl_ok_Nil [simp]: "tbl_ok []"
  by (simp add: tbl_ok_def)

lemma tbl_ok_sorted: "tbl_ok ms \<Longrightarrow> sorted (map fst ms)"
  by (simp add: tbl_ok_def strict_sorted_iff)

lemma tbl_ok_distinct: "tbl_ok ms \<Longrightarrow> distinct (map fst ms)"
  by (simp add: tbl_ok_def strict_sorted_iff)

lemma tbl_ok_member_set [simp]: "tbl_ok ms \<Longrightarrow> tbl_ok (member_set k v ms)"
  by (simp add: tbl_ok_def sorted_member_set)

lemma tbl_ok_filter: "tbl_ok ms \<Longrightarrow> tbl_ok (filter P ms)"
  by (induction ms) (auto simp: tbl_ok_def)

lemma tbl_ok_member_del [simp]: "tbl_ok ms \<Longrightarrow> tbl_ok (member_del k ms)"
  by (simp add: member_del_def tbl_ok_filter)

lemma lookup_member_set [simp]: "tbl_ok ms \<Longrightarrow> map_of (member_set k v ms) = (map_of ms)(k \<mapsto> v)"
  by (simp add: map_of_member_set tbl_ok_sorted)

lemma lookup_member_del [simp]: "map_of (member_del k ms) = (map_of ms)(k := None)"
  by (induction ms) (auto simp: member_del_def fun_eq_iff)

text \<open>A \<open>SELECT\<close> for one value of the primary key gives at most one row.\<close>

lemma select_key:
  "tbl_ok ms \<Longrightarrow> filter (\<lambda>e. fst e = k) ms =
    (case map_of ms k of None \<Rightarrow> [] | Some v \<Rightarrow> [(k, v)])"
proof (induction ms)
  case (Cons e ms)
  then have "tbl_ok ms" and "\<forall>x \<in> set ms. fst x \<noteq> fst e"
    by (auto simp: tbl_ok_def)
  then show ?case
    using Cons.IH by (cases e) (auto simp: filter_empty_conv)
qed simp

lemma tbl_ok_lookup: "tbl_ok ms \<Longrightarrow> (k, v) \<in> set ms \<longleftrightarrow> map_of ms k = Some v"
  by (simp add: tbl_ok_distinct)

text \<open>An \<open>UPDATE\<close> of the rows with one key.\<close>

definition member_upd :: "'k \<Rightarrow> ('a \<Rightarrow> 'a) \<Rightarrow> ('k \<times> 'a) list \<Rightarrow> ('k \<times> 'a) list" where
  "member_upd k f ms = map (\<lambda>r. if fst r = k then (fst r, f (snd r)) else r) ms"

lemma keys_member_upd [simp]: "map fst (member_upd k f ms) = map fst ms"
  by (simp add: member_upd_def)

lemma tbl_ok_member_upd [simp]: "tbl_ok (member_upd k f ms) = tbl_ok ms"
  by (simp add: tbl_ok_def)

lemma lookup_member_upd: "map_of (member_upd k f ms) = (map_of ms)(k := map_option f (map_of ms k))"
  by (induction ms) (auto simp: member_upd_def fun_eq_iff)

lemma member_upd_None [simp]: "map_of (member_upd k f ms) x = None \<longleftrightarrow> map_of ms x = None"
  by (simp add: lookup_member_upd)

text \<open>The rows of a table that satisfy a condition on the value, and the other rows.\<close>

lemma tbl_ok_mem: "\<lbrakk>tbl_ok ms; x \<in> set ms\<rbrakk> \<Longrightarrow> map_of ms (fst x) = Some (snd x)"
  using tbl_ok_lookup [of ms "fst x" "snd x"] by simp

lemma map_of_filter:
  "tbl_ok ms \<Longrightarrow> map_of (filter (\<lambda>x. P (snd x)) ms) k
    = (case map_of ms k of None \<Rightarrow> None | Some v \<Rightarrow> if P v then Some v else None)"
proof (induction ms)
  case (Cons e ms)
  then have t: "tbl_ok ms" and "\<forall>x \<in> set ms. fst x \<noteq> fst e"
    by (auto simp: tbl_ok_def)
  then have "map_of ms (fst e) = None" by (auto simp: map_of_eq_None_iff)
  with Cons.IH [OF t] show ?case by (cases e) (auto split: option.split)
qed simp

lemma map_of_filter_part:
  assumes "tbl_ok ms"
  shows "map_of ms |` (- fst ` set (filter (\<lambda>x. P (snd x)) ms)) = map_of (filter (\<lambda>x. \<not> P (snd x)) ms)"
proof
  fix k
  have "k \<in> fst ` set (filter (\<lambda>x. P (snd x)) ms) \<longleftrightarrow> (\<exists>v. map_of ms k = Some v \<and> P v)"
    using tbl_ok_lookup [OF assms, of k] by (force simp: image_iff)
  then show "(map_of ms |` (- fst ` set (filter (\<lambda>x. P (snd x)) ms))) k = map_of (filter (\<lambda>x. \<not> P (snd x)) ms) k"
    using map_of_filter [OF assms, of "\<lambda>v. \<not> P v" k] by (auto simp: restrict_map_def split: option.split)
qed

end
