(* ===== verification/Json.thy ===== *)
theory Json
  imports Tables "HOL-Library.List_Lexorder" "HOL-Library.Char_ord"
begin

text \<open>
  JSON values as the sources use them through JsonCpp.  A number keeps the type tag that JsonCpp
  gives it (\<open>intValue\<close>, \<open>uintValue\<close> or \<open>realValue\<close>); a real number is its IEEE bit pattern, since no
  modelled operation computes with it.  An object is kept as \<open>std::map\<close> keeps it, sorted by key.
\<close>

datatype json =
    JNull
  | JBool bool
  | JInt int
  | JUInt int
  | JReal u64
  | JString string
  | JArray "json list"
  | JObject "(string \<times> json) list"

text \<open>Setting a member of a value: a null value becomes an object first.\<close>

definition json_set :: "string \<Rightarrow> json \<Rightarrow> json \<Rightarrow> json option" where
  "json_set k v j = (case j of
     JNull \<Rightarrow> Some (JObject [(k, v)])
   | JObject ms \<Rightarrow> Some (JObject (member_set k v ms))
   | _ \<Rightarrow> None)"

lemma json_set_simps [simp]:
  "json_set k v JNull = Some (JObject [(k, v)])"
  "json_set k v (JObject ms) = Some (JObject (member_set k v ms))"
  by (simp_all add: json_set_def)

text \<open>\<open>isObject\<close>, \<open>isMember\<close> and the lookup of a member (null when it is missing).\<close>

definition isObject :: "json \<Rightarrow> bool" where
  "isObject j = (case j of JObject _ \<Rightarrow> True | _ \<Rightarrow> False)"

definition member :: "json \<Rightarrow> string \<Rightarrow> json" where
  "member j k = (case j of
     JObject ms \<Rightarrow> (case map_of ms k of None \<Rightarrow> JNull | Some v \<Rightarrow> v)
   | _ \<Rightarrow> JNull)"

text \<open>
  \<open>operator[]\<close> with a key on a constant value: null and objects have members, any other value makes
  JsonCpp throw.
\<close>

definition json_at :: "json \<Rightarrow> string \<Rightarrow> json option" where
  "json_at j k = (case j of
     JNull \<Rightarrow> Some JNull
   | JObject _ \<Rightarrow> Some (member j k)
   | _ \<Rightarrow> None)"

text \<open>The values that a range-based loop visits.\<close>

definition json_elems :: "json \<Rightarrow> json list" where
  "json_elems j = (case j of JArray xs \<Rightarrow> xs | JObject ms \<Rightarrow> map snd ms | _ \<Rightarrow> [])"

text \<open>
  The value of \<open>asUInt\<close> where \<open>isUInt\<close> holds: integers in the range of \<open>unsigned\<close>, and real numbers that
  are integral and in that range.  A real number is decoded from its IEEE bits.
\<close>

definition real_as_uint :: "u64 \<Rightarrow> nat option" where
  "real_as_uint b =
    (let e = unat (drop_bit 52 b AND 0x7FF); m = unat (b AND mask 52); full = 2 ^ 52 + m in
     if e = 0 \<and> m = 0 then Some 0
     else if bit b 63 \<or> e < 1023 \<or> e > 1023 + 31 then None
     else if full mod 2 ^ (52 - (e - 1023)) = 0 then Some (full div 2 ^ (52 - (e - 1023)))
     else None)"

definition asUInt :: "json \<Rightarrow> nat option" where
  "asUInt j = (case j of
     JInt n \<Rightarrow> (if 0 \<le> n \<and> n < 2 ^ 32 then Some (nat n) else None)
   | JUInt n \<Rightarrow> (if 0 \<le> n \<and> n < 2 ^ 32 then Some (nat n) else None)
   | JReal b \<Rightarrow> real_as_uint b
   | _ \<Rightarrow> None)"

definition isString :: "json \<Rightarrow> bool" where
  "isString j = (case j of JString _ \<Rightarrow> True | _ \<Rightarrow> False)"

text \<open>
  \<open>asString\<close> of a string or of null.  JsonCpp throws on arrays and objects; it also prints booleans
  and numbers, which is not modelled (\<open>None\<close> there too).
\<close>

definition asString :: "json \<Rightarrow> string option" where
  "asString j = (case j of JString s \<Rightarrow> Some s | JNull \<Rightarrow> Some [] | _ \<Rightarrow> None)"

definition isMember :: "json \<Rightarrow> string \<Rightarrow> bool" where
  "isMember j k = (case j of JObject ms \<Rightarrow> map_of ms k \<noteq> None | _ \<Rightarrow> False)"

definition json_size :: "json \<Rightarrow> nat" where
  "json_size j = (case j of JArray xs \<Rightarrow> length xs | JObject ms \<Rightarrow> length ms | _ \<Rightarrow> 0)"

text \<open>An object that is built by assignments to its members, in this order.\<close>

definition assign_members :: "(string \<times> json) list \<Rightarrow> (string \<times> json) list \<Rightarrow> (string \<times> json) list" where
  "assign_members kvs ms = fold (\<lambda>kv. member_set (fst kv) (snd kv)) kvs ms"

definition json_obj :: "(string \<times> json) list \<Rightarrow> json" where
  "json_obj kvs = JObject (assign_members kvs [])"

lemma assign_members_ok:
  "tbl_ok ms \<Longrightarrow> tbl_ok (assign_members kvs ms)
    \<and> map_of (assign_members kvs ms) k = (case map_of (rev kvs) k of None \<Rightarrow> map_of ms k | Some v \<Rightarrow> Some v)"
proof (induction kvs arbitrary: ms)
  case (Cons kv kvs)
  have "assign_members (kv # kvs) ms = assign_members kvs (member_set (fst kv) (snd kv) ms)"
    by (simp add: assign_members_def)
  with Cons.IH [of "member_set (fst kv) (snd kv) ms"] Cons.prems show ?case
    by (cases kv) (auto simp: map_add_def split: option.split)
qed (simp add: assign_members_def)

lemma member_json_obj: "member (json_obj kvs) k = (case map_of (rev kvs) k of None \<Rightarrow> JNull | Some v \<Rightarrow> v)"
  using assign_members_ok [OF tbl_ok_Nil, of kvs k] by (auto simp: member_def json_obj_def split: option.splits)

lemma map_of_json_obj: "json_obj kvs = JObject ms \<Longrightarrow> map_of ms k = map_of (rev kvs) k"
  using assign_members_ok [OF tbl_ok_Nil, of kvs k] by (auto simp: json_obj_def split: option.splits)

lemma isMember_json_obj: "isMember (json_obj kvs) k \<longleftrightarrow> k \<in> fst ` set kvs"
proof -
  have "isMember (json_obj kvs) k \<longleftrightarrow> map_of (rev kvs) k \<noteq> None"
    using assign_members_ok [OF tbl_ok_Nil, of kvs k] by (auto simp: isMember_def json_obj_def split: option.splits)
  also have "\<dots> \<longleftrightarrow> k \<in> fst ` set kvs"
    by (simp add: map_of_eq_None_iff)
  finally show ?thesis .
qed

text \<open>\<open>IsIntegerValue\<close> of \<open>spacexpanseutil/jsonutils.cpp\<close>.\<close>

definition IsIntegerValue :: "json \<Rightarrow> bool" where
  "IsIntegerValue val = (case val of JInt _ \<Rightarrow> True | JUInt _ \<Rightarrow> True | _ \<Rightarrow> False)"

end
