(* ===== verification/Base64.thy ===== *)
theory Base64
  imports Prelude
begin

text \<open>
  Base64 (\<open>spacexpanseutil/base64.cpp\<close>).  \<open>EVP_EncodeBlock\<close> and \<open>EVP_DecodeBlock\<close> of OpenSSL are the
  parameters \<open>evp_enc\<close> and \<open>evp_dec\<close> (\<open>None\<close> for the result -1); their documented behaviour on
  base64 text is the reference encoding below.
\<close>

section \<open>The code\<close>

definition EncodeBase64 :: "(byte list \<Rightarrow> string) \<Rightarrow> byte list \<Rightarrow> string option" where
  "EncodeBase64 evp_enc dat = do {
     let bufSize = 3 + 2 * length dat;
     let encoded = evp_enc dat;
     check (length encoded + 1 \<le> bufSize);
     Some (filter (\<lambda>c. c \<noteq> CHR 0x0A) encoded)
   }"

text \<open>The loop that counts the padding; \<open>None\<close> when there is padding in the middle.\<close>

fun count_padding :: "string \<Rightarrow> nat \<Rightarrow> nat option" where
  "count_padding [] padding = Some padding"
| "count_padding (c # cs) padding =
    (if c \<noteq> CHR ''='' then (if padding > 0 then None else count_padding cs padding)
     else count_padding cs (Suc padding))"

definition DecodeBase64 :: "(string \<Rightarrow> byte list option) \<Rightarrow> string \<Rightarrow> byte list res" where
  "DecodeBase64 evp_dec encoded =
    (if length encoded mod 4 \<noteq> 0 then Inl Rejected
     else case count_padding encoded 0 of
       None \<Rightarrow> Inl Rejected
     | Some padding \<Rightarrow>
        if padding \<ge> 4 then Inl Rejected
        else
          let outputSize = length encoded div 4 * 3 in
          case evp_dec encoded of
            None \<Rightarrow> Inl Rejected
          | Some dat \<Rightarrow>
             if length dat \<noteq> outputSize then Inl CheckFailed
             else if length dat = 0 then (if padding \<noteq> 0 then Inl CheckFailed else Inr dat)
             else if \<not> padding < length dat then Inl CheckFailed
             else Inr (take (length dat - padding) dat))"

section \<open>The reference encoding\<close>

definition b64_alphabet :: string where
  "b64_alphabet = ''ABCDEFGHIJKLMNOPQRSTUVWXYZabcdefghijklmnopqrstuvwxyz0123456789+/''"

definition b64_char :: "nat \<Rightarrow> char" where
  "b64_char k = b64_alphabet ! (k mod 64)"

text \<open>The value of a character, where the padding counts as zero bits.\<close>

definition b64_value :: "char \<Rightarrow> nat option" where
  "b64_value c = (if c = CHR ''='' then Some 0 else map_of (zip b64_alphabet [0..<64]) c)"

definition b64_group :: "nat \<Rightarrow> nat \<Rightarrow> nat \<Rightarrow> string" where
  "b64_group a b c = (let v = a * 65536 + b * 256 + c in
     [b64_char (v div 262144), b64_char (v div 4096), b64_char (v div 64), b64_char v])"

fun b64_encode :: "byte list \<Rightarrow> string" where
  "b64_encode [] = []"
| "b64_encode [a] = take 2 (b64_group (unat a) 0 0) @ ''==''"
| "b64_encode [a, b] = take 3 (b64_group (unat a) (unat b) 0) @ ''=''"
| "b64_encode (a # b # c # ds) = b64_group (unat a) (unat b) (unat c) @ b64_encode ds"

definition b64_bytes :: "nat \<Rightarrow> byte list" where
  "b64_bytes v = [of_nat (v div 65536), of_nat (v div 256), of_nat v]"

fun b64_decode :: "string \<Rightarrow> byte list option" where
  "b64_decode [] = Some []"
| "b64_decode (w # x # y # z # cs) = do {
     a \<leftarrow> b64_value w;
     b \<leftarrow> b64_value x;
     c \<leftarrow> b64_value y;
     d \<leftarrow> b64_value z;
     rest \<leftarrow> b64_decode cs;
     Some (b64_bytes (a * 262144 + b * 4096 + c * 64 + d) @ rest)
   }"
| "b64_decode _ = None"

definition b64_text :: "string \<Rightarrow> bool" where
  "b64_text s = (length s mod 4 = 0 \<and> list_all (\<lambda>c. b64_value c \<noteq> None) s)"

text \<open>What OpenSSL documents of the two functions.\<close>

definition evp_ok :: "(byte list \<Rightarrow> string) \<Rightarrow> (string \<Rightarrow> byte list option) \<Rightarrow> bool" where
  "evp_ok evp_enc evp_dec \<longleftrightarrow>
    (\<forall>d. evp_enc d = b64_encode d) \<and> (\<forall>s. b64_text s \<longrightarrow> evp_dec s = b64_decode s)"

section \<open>Facts\<close>

lemma b64_alphabet_facts:
  "list_all (\<lambda>k. b64_value (b64_alphabet ! k) = Some k \<and> b64_alphabet ! k \<noteq> CHR ''=''
      \<and> b64_alphabet ! k \<noteq> CHR 0x0A) [0..<64]"
  by code_simp

lemma b64_char:
  "b64_value (b64_char k) = Some (k mod 64)" "b64_char k \<noteq> CHR ''=''" "b64_char k \<noteq> CHR 0x0A"
  using b64_alphabet_facts by (auto simp: b64_char_def list_all_iff)

lemma b64_pad [simp]: "b64_value CHR ''='' = Some 0"
  by (simp add: b64_value_def)

lemma unat_byte: "unat (a :: byte) < 256"
  by (rule order_less_le_trans [OF unsigned_less]) simp

lemma group_value:
  assumes "v < 16777216"
  shows "v div 262144 mod 64 * 262144 + v div 4096 mod 64 * 4096 + v div 64 mod 64 * 64 + v mod 64 = (v :: nat)"
proof -
  define q1 q2 q3 where "q1 = v div 64" and "q2 = q1 div 64" and "q3 = q2 div 64"
  have eq: "v div 4096 = q2" "v div 262144 = q3"
    by (simp_all add: q1_def q2_def q3_def div_mult2_eq [symmetric])
  have "v = 64 * q1 + v mod 64" "q1 = 64 * q2 + q1 mod 64" "q2 = 64 * q3 + q2 mod 64"
    by (simp_all add: q1_def q2_def q3_def)
  moreover have "q3 < 64" using assms eq(2) by (simp add: div_less_iff_less_mult flip: eq(2))
  ultimately show ?thesis unfolding eq by (simp add: q1_def [symmetric])
qed

lemma of_nat_byte: "unat a = n mod 256 \<Longrightarrow> (of_nat n :: byte) = a"
  by (rule word_unat_eq_iff [THEN iffD2]) (simp add: unsigned_of_nat take_bit_eq_mod)

lemma b64_bytes_eq: "b64_bytes (unat a * 65536 + unat b * 256 + unat c) = [a, b, c]"
proof -
  let ?v = "unat a * 65536 + unat b * 256 + unat c"
  have l: "unat a < 256" "unat b < 256" "unat c < 256" by (rule unat_byte)+
  have "?v div 65536 = unat a" using l by simp
  moreover have "?v div 256 mod 256 = unat b"
  proof -
    have "?v div 256 = unat a * 256 + unat b" using l(3) by simp
    then show ?thesis using l(2) by simp
  qed
  moreover have "?v mod 256 = unat c"
  proof -
    have "?v = (unat a * 256 + unat b) * 256 + unat c" by (simp add: algebra_simps)
    then show ?thesis using l(3) by (simp only: mod_mult_self3 mod_less)
  qed
  ultimately show ?thesis
    unfolding b64_bytes_def using l by (simp only: of_nat_byte mod_less)
qed

lemma decode_group:
  assumes "b64_decode s = Some rest"
  shows "b64_decode (b64_group (unat a) (unat b) (unat c) @ s) = Some (a # b # c # rest)"
proof -
  let ?v = "unat a * 65536 + unat b * 256 + unat c"
  have v: "?v < 16777216" using unat_byte [of a] unat_byte [of b] unat_byte [of c] by linarith
  show ?thesis
    using assms by (simp add: b64_group_def Let_def b64_char group_value [OF v] b64_bytes_eq)
qed

text \<open>The number of padding characters.\<close>

definition pad :: "'a list \<Rightarrow> nat" where
  "pad d = (3 - length d mod 3) mod 3"

lemma pad_Cons3: "pad (a # b # c # d) = pad d"
  by (simp add: pad_def)

lemma group_parts:
  obtains w x y z where "b64_group a b c = [w, x, y, z]"
    "b64_value y = Some ((a * 65536 + b * 256 + c) div 64 mod 64)"
    "b64_value z = Some ((a * 65536 + b * 256 + c) mod 64)"
  by (rule that [OF b64_group_def [unfolded Let_def]]) (rule b64_char)+

text \<open>Decoding depends on the values of the characters only.\<close>

lemma decode_values:
  "\<lbrakk>b64_value y = b64_value y'; b64_value z = b64_value z'\<rbrakk>
    \<Longrightarrow> b64_decode [w, x, y, z] = b64_decode [w, x, y', z']"
  by simp

lemma decode_encode: "b64_decode (b64_encode d) = Some (d @ replicate (pad d) 0)"
proof (induction d rule: b64_encode.induct)
  case (2 a)
  obtain w x y z where g: "b64_group (unat a) (unat (0 :: byte)) (unat (0 :: byte)) = [w, x, y, z]"
      and v: "b64_value y = Some ((unat a * 65536 + unat (0 :: byte) * 256 + unat (0 :: byte)) div 64 mod 64)"
        "b64_value z = Some ((unat a * 65536 + unat (0 :: byte) * 256 + unat (0 :: byte)) mod 64)"
    by (rule group_parts)
  have "b64_value y = Some 0" "b64_value z = Some 0"
    using v by (simp_all add: mod_eq_0_iff_dvd)
  then have "b64_decode [w, x, CHR ''='', CHR ''=''] = b64_decode [w, x, y, z]"
    by (intro decode_values) simp_all
  also have "\<dots> = Some [a, 0, 0]"
    using decode_group [of "[]" "[]" a 0 0] by (simp only: g append_Nil2) simp
  finally show ?case using g by (simp add: pad_def del: b64_decode.simps) (simp add: numeral_2_eq_2)
next
  case (3 a b)
  obtain w x y z where g: "b64_group (unat a) (unat b) (unat (0 :: byte)) = [w, x, y, z]"
      and v: "b64_value z = Some ((unat a * 65536 + unat b * 256 + unat (0 :: byte)) mod 64)"
    by (rule group_parts)
  have eq: "unat a * 65536 + unat b * 256 + unat (0 :: byte) = (unat a * 1024 + unat b * 4) * 64" by simp
  have "b64_value z = Some 0"
    unfolding v eq mod_mult_self2_is_0 ..
  then have "b64_decode [w, x, y, CHR ''=''] = b64_decode [w, x, y, z]"
    by (intro decode_values) simp_all
  also have "\<dots> = Some [a, b, 0]"
    using decode_group [of "[]" "[]" a b 0] by (simp only: g append_Nil2) simp
  finally show ?case using g by (simp add: pad_def del: b64_decode.simps)
next
  case (4 a b c ds)
  then show ?case using decode_group by (simp add: pad_Cons3)
qed (simp add: pad_def)

lemma groups_Cons3: "(length (a # b # c # ds) + 2) div 3 = Suc ((length ds + 2) div 3)"
  by simp

lemma length_encode: "length (b64_encode d) = 4 * ((length d + 2) div 3)"
proof (induction d rule: b64_encode.induct)
  case (4 a b c ds)
  then show ?case unfolding groups_Cons3 by (simp add: b64_group_def Let_def)
qed (simp_all add: b64_group_def Let_def)

lemma length_pad: "length (d :: byte list) + pad d = (length d + 2) div 3 * 3"
proof (induction d rule: b64_encode.induct)
  case (4 a b c ds)
  then show ?case unfolding groups_Cons3 pad_Cons3 by simp
qed (simp_all add: pad_def)

lemma encode_chars:
  "c \<in> set (b64_encode d) \<Longrightarrow> b64_value c \<noteq> None \<and> c \<noteq> CHR 0x0A"
  by (induction d rule: b64_encode.induct) (auto simp: b64_group_def Let_def b64_char)

lemma padding_encode: "count_padding (b64_encode d) 0 = Some (pad d)"
  by (induction d rule: b64_encode.induct)
    (simp_all add: b64_group_def Let_def b64_char pad_Cons3, simp_all add: pad_def)

lemma encode_text: "b64_text (b64_encode d)"
  using encode_chars by (auto simp: b64_text_def length_encode list_all_iff)

lemma pad_less: "pad d < 3"
  by (simp add: pad_def)

lemma EncodeBase64_eq:
  assumes "evp_ok evp_enc evp_dec"
  shows "EncodeBase64 evp_enc d = Some (b64_encode d)"
proof -
  have "4 * ((length d + 2) div 3) + 1 \<le> 3 + 2 * length d"
    by presburger
  moreover have "filter (\<lambda>c. c \<noteq> CHR 0x0A) (b64_encode d) = b64_encode d"
    using encode_chars by (auto simp: filter_id_conv)
  ultimately show ?thesis
    using assms by (simp add: EncodeBase64_def evp_ok_def length_encode)
qed

lemma DecodeBase64_encode:
  assumes "evp_ok evp_enc evp_dec"
  shows "DecodeBase64 evp_dec (b64_encode d) = Inr d"
proof -
  have dec: "evp_dec (b64_encode d) = Some (d @ replicate (pad d) 0)"
    using assms encode_text decode_encode by (simp add: evp_ok_def)
  note len = length_pad [of d]
  show ?thesis
  proof (cases "d = []")
    case True
    then show ?thesis using dec by (simp add: DecodeBase64_def pad_def)
  next
    case False
    then have "pad d < length d + pad d" by simp
    then show ?thesis
      using pad_less [of d] len dec
      by (simp add: DecodeBase64_def padding_encode length_encode)
  qed
qed

text \<open>Decoding aborts only on a single group with three padding characters.\<close>

lemma count_padding_bound: "count_padding s p = Some q \<Longrightarrow> q \<le> length s + p"
  by (induction s p rule: count_padding.induct) (auto split: if_splits)

lemma DecodeBase64_no_abort:
  assumes "\<And>out. evp_dec s = Some out \<Longrightarrow> length out = length s div 4 * 3"
    and "\<not> (length s = 4 \<and> count_padding s 0 = Some 3)"
  shows "DecodeBase64 evp_dec s \<noteq> Inl CheckFailed"
proof (cases "length s = 0 \<or> length s = 4")
  case True
  then show ?thesis
    using assms by (auto simp: DecodeBase64_def Let_def split: option.split)
next
  case False
  have "length s mod 4 \<noteq> 0 \<or> 3 < length s div 4 * 3"
    using False by presburger
  then show ?thesis
    using assms(1) by (cases "evp_dec s") (auto simp: DecodeBase64_def Let_def split: option.split)
qed

section \<open>Properties\<close>

text \<open>
  Base64 encoding never fails its buffer check, and decoding the encoded text gives the data back,
  for all data and all lengths, if OpenSSL encodes and decodes base64 text as documented.
\<close>

lemma base64_roundtrip:
  assumes "evp_ok evp_enc evp_dec"
  shows "\<exists>s. EncodeBase64 evp_enc d = Some s \<and> DecodeBase64 evp_dec s = Inr d"
  using EncodeBase64_eq [OF assms] DecodeBase64_encode [OF assms] by blast

lemma evp_ok_reference: "evp_ok b64_encode b64_decode"
  by (simp add: evp_ok_def)

text \<open>
  The text \<open>A===\<close> passes all tests of \<open>DecodeBase64\<close> that reject malformed input and then fails
  its final check, so that decoding it aborts the process; it is the only kind of text that does:
  a single group of four characters, three of them padding.
\<close>

lemma base64_three_pads_abort:
  assumes "evp_ok evp_enc evp_dec"
  shows "DecodeBase64 evp_dec ''A==='' = Inl CheckFailed"
proof -
  have "b64_text ''A===''" by code_simp
  then have "evp_dec ''A==='' = b64_decode ''A===''" using assms by (simp add: evp_ok_def)
  also have "b64_value CHR ''A'' = Some 0" by code_simp
  then have "b64_decode ''A==='' = Some [0, 0, 0]" by (simp add: b64_bytes_def)
  finally show ?thesis by (simp add: DecodeBase64_def)
qed

lemma base64_three_pads_instance:
  "evp_ok b64_encode b64_decode \<and> DecodeBase64 b64_decode ''A==='' = Inl CheckFailed"
  using base64_three_pads_abort [OF evp_ok_reference] evp_ok_reference by blast

end
