(* ===== verification/Broadcast.thy ===== *)
theory Broadcast
  imports RollingState Json Base64
begin

text \<open>
  What a channel daemon sends: moves to the blockchain (\<open>sidechannel/movesender.cpp\<close> and the transaction
  sender of \<open>sidechannel/rpcwallet.cpp\<close>) and states to the other participants
  (\<open>sidechannel/broadcast.cpp\<close>, \<open>sidechannel/rpcbroadcast.cpp\<close>).

  The wallet and the RPC servers are parameters over a state of their own; the writer of JsonCpp and the
  serialisation of messages are parameters too.  \<open>None\<close> is a failed check; an exception that the code
  catches is a value.
\<close>

section \<open>Moves to the blockchain\<close>

text \<open>The virtual functions of \<open>TransactionSender\<close>; no transaction ID stands for an exception.\<close>

record 't TransactionSender =
  SendRawMove :: "string \<Rightarrow> string \<Rightarrow> 't \<Rightarrow> (uint256 option \<times> 't) option"
  tx_IsPending :: "uint256 \<Rightarrow> 't \<Rightarrow> bool option"

record 't SenderEnv =
  tx :: "'t TransactionSender"
  writeString :: "json \<Rightarrow> string"

record 't MoveSender =
  ms_channelId :: uint256
  ms_playerName :: string
  ms_gameId :: string
  ms_sender :: 't

definition SendMove :: "'t SenderEnv \<Rightarrow> json \<Rightarrow> 't MoveSender \<Rightarrow> (uint256 \<times> 't MoveSender) option" where
  "SendMove E mv ms = do {
     let fullValue = json_obj [(''g'', json_obj [(ms_gameId ms, mv)])];
     let strValue = writeString E fullValue;
     (sent, t) \<leftarrow> SendRawMove (tx E) (ms_playerName ms) strValue (ms_sender ms);
     Some (case sent of None \<Rightarrow> SetNull | Some txid \<Rightarrow> txid, ms\<lparr>ms_sender := t\<rparr>)
   }"

definition ms_IsPending :: "'t SenderEnv \<Rightarrow> uint256 \<Rightarrow> 't MoveSender \<Rightarrow> bool option" where
  "ms_IsPending E txid ms = tx_IsPending (tx E) txid (ms_sender ms)"

text \<open>
  The transaction sender over the wallet RPC: \<open>name_update\<close> returns the transaction ID in hexadecimal
  form, or throws; \<open>getrawmempool\<close> returns an array.
\<close>

record 'w WalletRpc =
  name_update :: "string \<Rightarrow> string \<Rightarrow> 'w \<Rightarrow> string option \<times> 'w"
  w_getrawmempool :: "'w \<Rightarrow> json option"

definition RpcTransactionSender_SendRawMove ::
    "'w WalletRpc \<Rightarrow> string \<Rightarrow> string \<Rightarrow> 'w \<Rightarrow> (uint256 option \<times> 'w) option" where
  "RpcTransactionSender_SendRawMove W name val w = (
     let fullName = ''p/'' @ name; (res, w) = name_update W fullName val w in
     case res of
       None \<Rightarrow> Some (None, w)
     | Some txidHex \<Rightarrow> do {
         let (ok, txid) = FromHex txidHex SetNull;
         check ok;
         Some (Some txid, w) })"

fun mempool_has :: "string \<Rightarrow> json list \<Rightarrow> bool option" where
  "mempool_has txidHex [] = Some False"
| "mempool_has txidHex (t # ts) = do {
     s \<leftarrow> asString t;
     if s = txidHex then Some True else mempool_has txidHex ts }"

definition RpcTransactionSender_IsPending :: "'w WalletRpc \<Rightarrow> uint256 \<Rightarrow> 'w \<Rightarrow> bool option" where
  "RpcTransactionSender_IsPending W txid w = do {
     let txidHex = ToHex txid;
     mempool \<leftarrow> w_getrawmempool W w;
     mempool_has txidHex (json_elems mempool)
   }"

definition RpcTransactionSender :: "'w WalletRpc \<Rightarrow> 'w TransactionSender" where
  "RpcTransactionSender W =
    \<lparr>SendRawMove = RpcTransactionSender_SendRawMove W, tx_IsPending = RpcTransactionSender_IsPending W\<rparr>"

section \<open>States to the other participants\<close>

record BroadcastMessage =
  bm_reinit :: "byte list option"
  bm_proof :: "StateProof option"

record BroadcastCodec =
  ser_broadcast :: "BroadcastMessage \<Rightarrow> byte list option"
  parse_broadcast :: "byte list \<Rightarrow> BroadcastMessage option"

text \<open>The messages that were given to the transport are kept, in order.\<close>

record OffChainBroadcast =
  bc_id :: uint256
  bc_participants :: "string set"
  bc_sent :: "byte list list"

definition MAX_MESSAGE_SIZE :: nat where
  "MAX_MESSAGE_SIZE = 1024 * 1024"

definition SetParticipants :: "ChannelMetadata \<Rightarrow> OffChainBroadcast \<Rightarrow> OffChainBroadcast" where
  "SetParticipants meta bc =
     bc\<lparr>bc_participants := set (map (\<lambda>p. get_or [] (participant_name p)) (participants meta))\<rparr>"

definition SendNewState ::
    "BroadcastCodec \<Rightarrow> byte list \<Rightarrow> StateProof \<Rightarrow> OffChainBroadcast \<Rightarrow> OffChainBroadcast option" where
  "SendNewState C re pf bc = do {
     let pb = \<lparr>bm_reinit = Some re, bm_proof = Some pf\<rparr>;
     msg \<leftarrow> ser_broadcast C pb;
     Some (bc\<lparr>bc_sent := bc_sent bc @ [msg]\<rparr>)
   }"

definition get_proof :: "BroadcastMessage \<Rightarrow> StateProof" where
  "get_proof pb = get_or \<lparr>initial_state = None, transitions = []\<rparr> (bm_proof pb)"

text \<open>
  \<open>ProcessIncoming\<close> of a message: the update that the channel manager is asked to process, if there is
  one.
\<close>

definition ProcessIncoming_decode :: "BroadcastCodec \<Rightarrow> byte list \<Rightarrow> (byte list \<times> StateProof) option" where
  "ProcessIncoming_decode C msg =
    (if length msg > MAX_MESSAGE_SIZE then None
     else case parse_broadcast C msg of
       None \<Rightarrow> None
     | Some pb \<Rightarrow> Some (get_or [] (bm_reinit pb), get_proof pb))"

section \<open>Broadcasts through an RPC server\<close>

record RpcBroadcast =
  rb_base :: OffChainBroadcast
  rb_seq :: nat

definition UpdateSequence :: "json \<Rightarrow> RpcBroadcast \<Rightarrow> RpcBroadcast option" where
  "UpdateSequence resp rb = do {
     check (isObject resp);
     seq \<leftarrow> asUInt (member resp ''seq'');
     Some (rb\<lparr>rb_seq := seq\<rparr>)
   }"

text \<open>The arguments of the \<open>send\<close> call of \<open>SendMessage\<close>.\<close>

definition RpcBroadcast_SendMessage ::
    "(byte list \<Rightarrow> string) \<Rightarrow> byte list \<Rightarrow> RpcBroadcast \<Rightarrow> (string \<times> string) option" where
  "RpcBroadcast_SendMessage enc msg rb = do {
     encoded \<leftarrow> Base64.EncodeBase64 enc msg;
     Some (ToHex (bc_id (rb_base rb)), encoded)
   }"

fun decode_messages :: "(string \<Rightarrow> byte list option) \<Rightarrow> json list \<Rightarrow> byte list list option" where
  "decode_messages dec [] = Some []"
| "decode_messages dec (m # ms) = do {
     check (isString m);
     s \<leftarrow> asString m;
     (case DecodeBase64 dec s of
        Inl CheckFailed \<Rightarrow> None
      | Inl Rejected \<Rightarrow> decode_messages dec ms
      | Inr decoded \<Rightarrow> do { rest \<leftarrow> decode_messages dec ms; Some (decoded # rest) }) }"

text \<open>\<open>GetMessages\<close>, given the response of the \<open>receive\<close> call.\<close>

definition GetMessages ::
    "(string \<Rightarrow> byte list option) \<Rightarrow> json \<Rightarrow> RpcBroadcast \<Rightarrow> (byte list list \<times> RpcBroadcast) option" where
  "GetMessages dec res rb = do {
     check (isObject res);
     rb \<leftarrow> UpdateSequence res rb;
     (case member res ''messages'' of
        JArray msgs \<Rightarrow> do { messages \<leftarrow> decode_messages dec msgs; Some (messages, rb) }
      | _ \<Rightarrow> None)
   }"

section \<open>What arrives is what was sent\<close>

text \<open>The documented behaviour of protocol buffers: a serialised message parses back.\<close>

definition broadcast_codec_ok :: "BroadcastCodec \<Rightarrow> bool" where
  "broadcast_codec_ok C \<longleftrightarrow>
    (\<forall>pb. \<exists>msg. ser_broadcast C pb = Some msg \<and> parse_broadcast C msg = Some pb)"

lemma SendNewState_decodes:
  assumes "broadcast_codec_ok C"
  obtains msg where "SendNewState C re pf bc = Some (bc\<lparr>bc_sent := bc_sent bc @ [msg]\<rparr>)"
    "length msg \<le> MAX_MESSAGE_SIZE \<Longrightarrow> ProcessIncoming_decode C msg = Some (re, pf)"
proof -
  obtain msg where "ser_broadcast C \<lparr>bm_reinit = Some re, bm_proof = Some pf\<rparr> = Some msg"
    "parse_broadcast C msg = Some \<lparr>bm_reinit = Some re, bm_proof = Some pf\<rparr>"
    using assms by (auto simp: broadcast_codec_ok_def)
  then show thesis
    using that [of msg] by (simp add: SendNewState_def ProcessIncoming_decode_def get_proof_def)
qed

lemma decode_sent_messages:
  assumes "evp_ok enc dec"
  shows "\<exists>encs. those (map (\<lambda>m. map_option snd (RpcBroadcast_SendMessage enc m rb)) msgs) = Some encs
    \<and> decode_messages dec (map JString encs) = Some msgs"
proof (induction msgs)
  case (Cons m msgs)
  then obtain encs where IH: "those (map (\<lambda>m. map_option snd (RpcBroadcast_SendMessage enc m rb)) msgs) = Some encs"
    "decode_messages dec (map JString encs) = Some msgs" by blast
  have enc: "Base64.EncodeBase64 enc m = Some (b64_encode m)"
    using assms by (rule EncodeBase64_eq)
  moreover have "DecodeBase64 dec (b64_encode m) = Inr m"
    using assms by (rule DecodeBase64_encode)
  ultimately show ?case
    using IH by (simp add: RpcBroadcast_SendMessage_def isString_def asString_def)
qed simp

text \<open>
  Messages that are sent through the RPC server arrive: the server stores the encoded texts of the
  \<open>send\<close> calls and returns them to a \<open>receive\<close> call, and the receiver decodes exactly the messages that
  were sent, in order, and takes over the sequence number of the response.
\<close>

lemma rpc_broadcast_roundtrip:
  assumes "evp_ok enc dec" and "0 \<le> n" and "n < 2 ^ 32"
  shows "\<exists>encs. those (map (\<lambda>m. map_option snd (RpcBroadcast_SendMessage enc m rb)) msgs) = Some encs
    \<and> GetMessages dec (json_obj [(''messages'', JArray (map JString encs)), (''seq'', JUInt n)]) rb'
        = Some (msgs, rb'\<lparr>rb_seq := nat n\<rparr>)"
proof -
  obtain encs where "those (map (\<lambda>m. map_option snd (RpcBroadcast_SendMessage enc m rb)) msgs) = Some encs"
    "decode_messages dec (map JString encs) = Some msgs"
    using decode_sent_messages [OF assms(1)] by blast
  moreover have "isObject (json_obj kvs)" for kvs
    by (simp add: json_obj_def isObject_def)
  ultimately show ?thesis
    using assms(2,3) by (simp add: GetMessages_def UpdateSequence_def member_json_obj asUInt_def)
qed

end
