(* ===== verification/Coord.thy ===== *)
theory Coord
  imports Prelude
begin

text \<open>
  Coordinates of the ships board (\<open>src/ships/coord.hpp\<close>, \<open>src/ships/coord.cpp\<close>): directions,
  the \<open>Coord\<close> class with its linearised index, and the step in a direction.  C++ integer
  division and remainder truncate towards zero, which is \<open>sdiv\<close> and \<open>smod\<close> here; the
  row and column of every coordinate the program builds stay within a few units of the 32-bit
  range of an index divided by eight, so no step overflows.
\<close>

section \<open>Definitions\<close>

datatype Direction = LEFT | RIGHT | UP | DOWN

fun neg_dir :: "Direction \<Rightarrow> Direction" where
  "neg_dir LEFT = RIGHT"
| "neg_dir RIGHT = LEFT"
| "neg_dir UP = DOWN"
| "neg_dir DOWN = UP"

record coord =
  row :: int
  column :: int

definition SIDE :: int where
  "SIDE = 8"

definition CELLS :: int where
  "CELLS = SIDE ^ 2"

definition coord_of_index :: "int \<Rightarrow> coord" where
  "coord_of_index ind = \<lparr>row = ind sdiv SIDE, column = ind smod SIDE\<rparr>"

definition IsOnBoard :: "coord \<Rightarrow> bool" where
  "IsOnBoard c =
     (if row c < 0 \<or> row c \<ge> SIDE then False
      else if column c < 0 \<or> column c \<ge> SIDE then False
      else True)"

definition GetIndex :: "coord \<Rightarrow> int option" where
  "GetIndex c = do {
     check (IsOnBoard c);
     let res = row c * SIDE + column c;
     check (res \<ge> 0);
     check (res < CELLS);
     Some res
   }"

fun coord_plus :: "coord \<Rightarrow> Direction \<Rightarrow> coord" where
  "coord_plus c LEFT = \<lparr>row = row c, column = column c - 1\<rparr>"
| "coord_plus c RIGHT = \<lparr>row = row c, column = column c + 1\<rparr>"
| "coord_plus c UP = \<lparr>row = row c - 1, column = column c\<rparr>"
| "coord_plus c DOWN = \<lparr>row = row c + 1, column = column c\<rparr>"

definition coord_minus :: "coord \<Rightarrow> Direction \<Rightarrow> coord" where
  "coord_minus c d = coord_plus c (neg_dir d)"

definition coord_eq :: "coord \<Rightarrow> coord \<Rightarrow> bool" where
  "coord_eq a b \<longleftrightarrow> row a = row b \<and> column a = column b"

section \<open>Facts about single coordinates\<close>

lemma CELLS_64 [simp]: "CELLS = 64"
  by (simp add: CELLS_def SIDE_def)

lemma coord_eq_iff [simp]: "coord_eq a b \<longleftrightarrow> a = b"
  by (cases a; cases b) (simp add: coord_eq_def)

lemma IsOnBoard_iff: "IsOnBoard c \<longleftrightarrow> 0 \<le> row c \<and> row c < 8 \<and> 0 \<le> column c \<and> column c < 8"
  by (auto simp: IsOnBoard_def SIDE_def)

lemma GetIndex_on_board: "IsOnBoard c \<Longrightarrow> GetIndex c = Some (row c * 8 + column c)"
  by (auto simp: GetIndex_def IsOnBoard_iff SIDE_def)

lemma GetIndex_off_board: "\<not> IsOnBoard c \<Longrightarrow> GetIndex c = None"
  by (simp add: GetIndex_def)

lemma GetIndex_eq_Some:
  "GetIndex c = Some i \<longleftrightarrow> IsOnBoard c \<and> i = row c * 8 + column c"
  by (cases "IsOnBoard c") (auto simp: GetIndex_on_board GetIndex_off_board)

lemma neg_dir_neg_dir [simp]: "neg_dir (neg_dir d) = d"
  by (cases d) simp_all

lemma coord_plus_neg [simp]: "coord_plus (coord_plus c d) (neg_dir d) = c"
  by (cases d) simp_all

lemma coord_minus_plus [simp]: "coord_minus (coord_plus c d) d = c"
  by (simp add: coord_minus_def)

lemma coord_plus_minus [simp]: "coord_plus (coord_minus c d) d = c"
  using coord_plus_neg [of c "neg_dir d"] by (simp add: coord_minus_def)

lemma coord_of_index_nonneg:
  "0 \<le> i \<Longrightarrow> coord_of_index i = \<lparr>row = i div 8, column = i mod 8\<rparr>"
  by (auto simp: coord_of_index_def SIDE_def signed_divide_int_def signed_modulo_int_def sgn_if)

lemma coord_of_index_neg:
  assumes "i < 0"
  shows "\<not> IsOnBoard (coord_of_index i)"
proof -
  have "i sdiv 8 * 8 + i smod 8 = i"
    by (rule sdiv_mult_smod_eq)
  with assms have "i sdiv 8 < 0 \<or> i smod 8 < 0"
    by auto
  then show ?thesis
    by (auto simp: IsOnBoard_iff coord_of_index_def SIDE_def)
qed

lemma coord_of_index_on_board: "IsOnBoard (coord_of_index i) \<longleftrightarrow> 0 \<le> i \<and> i < 64"
proof (cases "i < 0")
  case True
  then show ?thesis by (simp add: coord_of_index_neg)
next
  case False
  then show ?thesis
    by (auto simp: coord_of_index_nonneg IsOnBoard_iff)
qed

section \<open>Index and coordinate are inverse to each other\<close>

lemma GetIndex_of_index: "0 \<le> i \<Longrightarrow> i < 64 \<Longrightarrow> GetIndex (coord_of_index i) = Some i"
  by (simp add: GetIndex_eq_Some coord_of_index_on_board) (simp add: coord_of_index_nonneg)

lemma coord_of_GetIndex:
  assumes "GetIndex c = Some i"
  shows "0 \<le> i \<and> i < 64 \<and> coord_of_index i = c"
proof -
  from assms have b: "IsOnBoard c" and i: "i = row c * 8 + column c"
    by (simp_all add: GetIndex_eq_Some)
  from b have r: "0 \<le> i" "i < 64" "i div 8 = row c" "i mod 8 = column c"
    unfolding i IsOnBoard_iff by auto
  then show ?thesis
    by (simp add: coord_of_index_nonneg)
qed

end
