(* ===== verification/Grid.thy ===== *)
theory Grid
  imports Coord "HOL-Library.AList"
begin

text \<open>
  The bit vector of the ships board (\<open>src/ships/grid.hpp\<close>, \<open>src/ships/grid.cpp\<close>): reading and
  setting cells, the text form, counting, the byte form that is hashed, and the two verification
  routines for revealed positions.  A \<open>Grid\<close> has the single member \<open>uint64_t bits\<close>, so a grid is
  a \<open>64 word\<close> here.
\<close>

section \<open>Definitions\<close>

record AvailableShipType =
  ship_size :: nat
  ship_number :: nat

definition AVAILABLE_SHIPS :: "AvailableShipType list" where
  "AVAILABLE_SHIPS =
     [\<lparr>ship_size = 2, ship_number = 4\<rparr>,
      \<lparr>ship_size = 3, ship_number = 2\<rparr>,
      \<lparr>ship_size = 4, ship_number = 1\<rparr>]"

definition Get :: "u64 \<Rightarrow> coord \<Rightarrow> bool option" where
  "Get bits c = do { i \<leftarrow> GetIndex c; Some (drop_bit (nat i) bits mod 2 > 0) }"

definition Set :: "u64 \<Rightarrow> coord \<Rightarrow> u64 option" where
  "Set bits c = do {
     i \<leftarrow> GetIndex c;
     let mask = push_bit (nat i) 1;
     check (bits AND mask = 0);
     Some (bits OR mask)
   }"

definition ToString_row :: "u64 \<Rightarrow> int \<Rightarrow> string option" where
  "ToString_row bits r = do {
     cs \<leftarrow> those (map (\<lambda>c. map_option (\<lambda>b. if b then CHR ''x'' else CHR ''.'')
              (Get bits \<lparr>row = r, column = c\<rparr>)) [0..SIDE - 1]);
     Some (cs @ [CHR 0x0A])
   }"

definition ToString :: "u64 \<Rightarrow> string option" where
  "ToString bits = do {
     rows \<leftarrow> those (map (ToString_row bits) [0..SIDE - 1]);
     Some (concat rows)
   }"

fun FromString_loop :: "string \<Rightarrow> int \<Rightarrow> u64 \<Rightarrow> (bool \<times> u64) option" where
  "FromString_loop [] nxt bits =
     (if nxt < CELLS then Some (False, bits)
      else do { check (nxt = CELLS); Some (True, bits) })"
| "FromString_loop (c # str) nxt bits =
     (if c = CHR '' '' \<or> c = CHR 0x0A then FromString_loop str nxt bits
      else if nxt \<ge> CELLS then Some (False, bits)
      else if c = CHR ''.'' then FromString_loop str (nxt + 1) bits
      else if c = CHR ''x'' then do {
        bits' \<leftarrow> Set bits (coord_of_index nxt);
        FromString_loop str (nxt + 1) bits' }
      else Some (False, bits))"

definition FromString :: "string \<Rightarrow> (bool \<times> u64) option" where
  "FromString str = FromString_loop str 0 0"

function CountOnes_loop :: "u64 \<Rightarrow> int \<Rightarrow> int" where
  "CountOnes_loop remaining res =
     (if remaining > 0
      then CountOnes_loop (drop_bit 1 remaining) (res + uint (remaining mod 2))
      else res)"
  by pat_completeness auto
termination
proof (relation "measure (\<lambda>(remaining, res). unat remaining)")
  show "wf (measure (\<lambda>(remaining, res). unat remaining))" by simp
next
  fix remaining :: u64 and res :: int
  assume "remaining > 0"
  then show "((drop_bit 1 remaining, res + uint (remaining mod 2)), remaining, res)
      \<in> measure (\<lambda>(remaining, res). unat remaining)"
    by (simp add: drop_bit_eq_div word_less_nat_alt unat_div)
qed

declare CountOnes_loop.simps [simp del]

definition CountOnes :: "u64 \<Rightarrow> int" where
  "CountOnes bits = CountOnes_loop bits 0"

fun Blob_loop :: "nat \<Rightarrow> u64 \<Rightarrow> byte list \<times> u64" where
  "Blob_loop 0 remaining = ([], remaining)"
| "Blob_loop (Suc n) remaining =
     (let (bs, rest) = Blob_loop n (drop_bit 8 remaining)
      in (ucast (remaining AND 0xFF) # bs, rest))"

definition Blob :: "u64 \<Rightarrow> byte list option" where
  "Blob bits = do {
     let (res, remaining) = Blob_loop 8 bits;
     check (remaining = 0);
     Some res
   }"

definition TotalShipCells :: int where
  "TotalShipCells =
     foldl (\<lambda>res t. res + int (ship_size t * ship_number t)) 0 AVAILABLE_SHIPS"

definition VerifyPositionForAnswers :: "u64 \<Rightarrow> u64 \<Rightarrow> u64 \<Rightarrow> bool option" where
  "VerifyPositionForAnswers position targeted hits = do {
     check (hits AND targeted = hits);
     Some (position AND targeted = hits)
   }"

definition HasShip :: "u64 \<Rightarrow> coord \<Rightarrow> bool option" where
  "HasShip g c = (if \<not> IsOnBoard c then Some False else Get g c)"

text \<open>The C++ \<open>||\<close> on \<open>HasShip\<close> calls: later operands are only evaluated when needed.\<close>

fun any_ship :: "u64 \<Rightarrow> coord list \<Rightarrow> bool option" where
  "any_ship g [] = Some False"
| "any_ship g (c # cs) = do { b \<leftarrow> HasShip g c; if b then Some True else any_ship g cs }"

text \<open>Distance to the edge of the board, the measure of the walk along a ship.\<close>

fun edge_distance :: "coord \<Rightarrow> Direction \<Rightarrow> nat" where
  "edge_distance c LEFT = nat (column c + 1)"
| "edge_distance c RIGHT = nat (8 - column c)"
| "edge_distance c UP = nat (row c + 1)"
| "edge_distance c DOWN = nat (8 - row c)"

lemma edge_distance_decreases:
  "IsOnBoard c \<Longrightarrow> edge_distance (coord_plus c d) d < edge_distance c d"
  by (cases d) (auto simp: IsOnBoard_iff)

lemma HasShip_on_board: "HasShip g c = Some True \<Longrightarrow> IsOnBoard c"
  by (simp add: HasShip_def split: if_splits)

function CheckShip_loop ::
  "u64 \<Rightarrow> coord \<Rightarrow> Direction \<Rightarrow> Direction \<Rightarrow> nat \<Rightarrow> (coord \<times> nat) res" where
  "CheckShip_loop g c dir otherDir sz =
     (case HasShip g c of
        None \<Rightarrow> Inl CheckFailed
      | Some False \<Rightarrow> Inr (c, sz)
      | Some True \<Rightarrow>
          (case any_ship g [coord_minus c otherDir, coord_plus c otherDir] of
             None \<Rightarrow> Inl CheckFailed
           | Some True \<Rightarrow> Inl Rejected
           | Some False \<Rightarrow> CheckShip_loop g (coord_plus c dir) dir otherDir (sz + 1)))"
  by pat_completeness auto
termination
  by (relation "measure (\<lambda>(g, c, dir, otherDir, sz). edge_distance c dir)")
    (auto dest!: HasShip_on_board intro: edge_distance_decreases)

declare CheckShip_loop.simps [simp del]

definition CheckShip :: "u64 \<Rightarrow> coord \<Rightarrow> Direction \<Rightarrow> Direction \<Rightarrow> nat res" where
  "CheckShip g c dir otherDir =
     rbind (orFatal (HasShip g c)) (\<lambda>present.
     if \<not> present then Inl CheckFailed
     else rbind (orFatal (any_ship g [coord_minus c dir,
                  coord_minus (coord_minus c dir) otherDir,
                  coord_plus (coord_minus c dir) otherDir])) (\<lambda>head.
     if head then Inl Rejected
     else rbind (CheckShip_loop g c dir otherDir 0) (\<lambda>(c', sz).
     rbind (orFatal (any_ship g [coord_minus c' otherDir, coord_plus c' otherDir])) (\<lambda>tail.
     if tail then Inl Rejected else Inr sz))))"

type_synonym found_ships = "(nat \<times> nat) list"

definition count_ship :: "nat \<Rightarrow> found_ships \<Rightarrow> found_ships" where
  "count_ship sz found =
     AList.update sz ((case map_of found sz of None \<Rightarrow> 0 | Some n \<Rightarrow> n) + 1) found"

text \<open>One iteration of the scan over the cells, then the scan.\<close>

definition VerifyCell :: "u64 \<Rightarrow> int \<Rightarrow> found_ships \<Rightarrow> found_ships res" where
  "VerifyCell position i found =
     (let c = coord_of_index i in
      rbind (orFatal (Get position c)) (\<lambda>present.
      if \<not> present then Inr found
      else rbind (orFatal (any_ship position [coord_plus c UP, coord_plus c LEFT])) (\<lambda>earlier.
      if earlier then Inr found
      else rbind (orFatal (HasShip position (coord_plus c DOWN))) (\<lambda>vertical.
      let (dir, otherDir) = (if vertical then (DOWN, RIGHT) else (RIGHT, DOWN)) in
      rbind (CheckShip position c dir otherDir) (\<lambda>sz. Inr (count_ship sz found))))))"

fun VerifyCells :: "u64 \<Rightarrow> int list \<Rightarrow> found_ships \<Rightarrow> found_ships res" where
  "VerifyCells position [] found = Inr found"
| "VerifyCells position (i # is) found =
     rbind (VerifyCell position i found) (VerifyCells position is)"

fun VerifyTypes :: "AvailableShipType list \<Rightarrow> nat \<Rightarrow> found_ships \<Rightarrow> bool" where
  "VerifyTypes [] availableTypes found = (availableTypes = length found)"
| "VerifyTypes (t # ts) availableTypes found =
     (case map_of found (ship_size t) of
        None \<Rightarrow> False
      | Some n \<Rightarrow>
          if n \<noteq> ship_number t then False
          else VerifyTypes ts (availableTypes + 1) found)"

definition VerifyPositionOfShips :: "u64 \<Rightarrow> bool option" where
  "VerifyPositionOfShips position =
     (case VerifyCells position [0..CELLS - 1] [] of
        Inl CheckFailed \<Rightarrow> None
      | Inl Rejected \<Rightarrow> Some False
      | Inr found \<Rightarrow> Some (VerifyTypes AVAILABLE_SHIPS 0 found))"

section \<open>Cells and bits\<close>

definition ship_at :: "u64 \<Rightarrow> coord \<Rightarrow> bool" where
  "ship_at g c \<longleftrightarrow> IsOnBoard c \<and> bit g (nat (row c * 8 + column c))"

lemma drop_bit_mod_2: "drop_bit n (w :: u64) mod 2 > 0 \<longleftrightarrow> bit w n"
  by (cases "odd (drop_bit n w)") (simp_all only: mod_2_eq_odd bit_iff_odd_drop_bit, simp_all)

lemma Get_on_board: "IsOnBoard c \<Longrightarrow> Get g c = Some (ship_at g c)"
  by (simp add: Get_def GetIndex_on_board ship_at_def drop_bit_mod_2)

lemma Get_off_board: "\<not> IsOnBoard c \<Longrightarrow> Get g c = None"
  by (simp add: Get_def GetIndex_off_board)

lemma ship_at_index: "0 \<le> i \<Longrightarrow> i < 64 \<Longrightarrow> ship_at g (coord_of_index i) \<longleftrightarrow> bit g (nat i)"
  by (simp add: ship_at_def coord_of_index_on_board) (simp add: coord_of_index_nonneg)

lemma HasShip_eq [simp]: "HasShip g c = Some (ship_at g c)"
  by (cases "IsOnBoard c") (simp_all add: HasShip_def Get_on_board ship_at_def)

lemma any_ship_eq [simp]: "any_ship g cs = Some (\<exists>c \<in> set cs. ship_at g c)"
  by (induction cs) auto

lemma ship_at_on_board: "ship_at g c \<Longrightarrow> IsOnBoard c"
  by (simp add: ship_at_def)

lemma bit_or_mask:
  "n < 64 \<Longrightarrow> bit ((w :: u64) OR 2 ^ n) k \<longleftrightarrow> bit w k \<or> k = n"
  by (auto simp: bit_simps dest: bit_imp_le_length)

lemma Set_eq_Some:
  "Set g c = Some g' \<longleftrightarrow>
     IsOnBoard c \<and> \<not> ship_at g c \<and> g' = g OR 2 ^ nat (row c * 8 + column c)"
proof (cases "IsOnBoard c")
  case True
  then have "nat (row c * 8 + column c) < 64"
    by (auto simp: IsOnBoard_iff)
  with True show ?thesis
    by (auto simp: Set_def GetIndex_on_board and_exp_eq_0_iff_not_bit ship_at_def Let_def
        split: if_splits)
next
  case False
  then show ?thesis by (simp add: Set_def GetIndex_off_board)
qed

lemma Set_index:
  assumes "0 \<le> i" and "i < 64" and "\<not> bit g (nat i)"
  shows "Set g (coord_of_index i) = Some (g OR 2 ^ nat i)"
proof -
  have "IsOnBoard (coord_of_index i)" and "\<not> ship_at g (coord_of_index i)"
    using assms by (simp_all add: coord_of_index_on_board ship_at_index)
  moreover have "row (coord_of_index i) * 8 + column (coord_of_index i) = i"
    using assms(1) by (simp add: coord_of_index_nonneg)
  ultimately show ?thesis
    by (simp add: Set_eq_Some)
qed

lemma ship_at_coords_eq:
  "IsOnBoard c \<Longrightarrow> IsOnBoard d \<Longrightarrow>
   nat (row c * 8 + column c) = nat (row d * 8 + column d) \<longleftrightarrow> c = d"
proof
  assume "IsOnBoard c" "IsOnBoard d"
    and "nat (row c * 8 + column c) = nat (row d * 8 + column d)"
  moreover from this have "0 \<le> row c * 8 + column c" "0 \<le> row d * 8 + column d"
    by (simp_all add: IsOnBoard_iff)
  ultimately have "GetIndex c = GetIndex d"
    by (simp add: GetIndex_on_board)
  then show "c = d"
    using coord_of_GetIndex [OF GetIndex_on_board, OF \<open>IsOnBoard c\<close>]
      coord_of_GetIndex [OF GetIndex_on_board, OF \<open>IsOnBoard d\<close>]
    by (metis GetIndex_on_board \<open>IsOnBoard c\<close> \<open>IsOnBoard d\<close> option.inject)
qed simp

lemma ship_at_Set: "Set g c = Some g' \<Longrightarrow> ship_at g' d \<longleftrightarrow> ship_at g d \<or> d = c"
proof -
  assume "Set g c = Some g'"
  then have c: "IsOnBoard c" and g': "g' = g OR 2 ^ nat (row c * 8 + column c)"
    by (simp_all add: Set_eq_Some)
  moreover have "nat (row c * 8 + column c) < 64"
    using c by (auto simp: IsOnBoard_iff)
  ultimately show ?thesis
    by (auto simp: ship_at_def bit_or_mask ship_at_coords_eq)
qed

section \<open>Counting the cells\<close>

lemma finite_bits [simp]: "finite {i. bit (w :: u64) i}"
  by (rule finite_subset [of _ "{..<64}"]) (auto dest: bit_imp_le_length)

lemma bits_drop_bit_1:
  "{i. bit (w :: u64) i} = (if odd w then {0} else {}) \<union> Suc ` {i. bit (drop_bit 1 w) i}"
proof -
  have "i \<in> (if odd w then {0} else {}) \<union> Suc ` {i. bit (drop_bit 1 w) i} \<longleftrightarrow> bit w i" for i
    by (cases i) (auto simp: bit_0 bit_simps)
  then show ?thesis by blast
qed

lemma card_bits_drop_bit_1:
  "card {i. bit (w :: u64) i} = of_bool (odd w) + card {i. bit (drop_bit 1 w) i}"
  by (subst bits_drop_bit_1) (auto simp: card_image card_insert_if)

lemma CountOnes_loop_eq: "CountOnes_loop w r = r + int (card {i. bit w i})"
proof (induction w r rule: CountOnes_loop.induct)
  case (1 w r)
  show ?case
  proof (cases "w > 0")
    case True
    have "uint (w mod 2) = of_bool (odd w)"
      by (simp add: mod_2_eq_odd)
    with True "1.IH" show ?thesis
      by (simp add: CountOnes_loop.simps [of w r] card_bits_drop_bit_1 [of w])
  next
    case False
    then have "w = 0"
      by (simp add: word_gt_0)
    then show ?thesis
      by (simp add: CountOnes_loop.simps [of 0 r])
  qed
qed

lemma CountOnes_eq_card: "CountOnes g = int (card {i. bit g i})"
  by (simp add: CountOnes_def CountOnes_loop_eq)

definition cells :: "u64 \<Rightarrow> coord set" where
  "cells g = {c. ship_at g c}"

lemma cells_eq_image: "cells g = (\<lambda>i. coord_of_index (int i)) ` {i. bit g i}"
proof (intro set_eqI iffI)
  fix c
  assume "c \<in> cells g"
  then have b: "IsOnBoard c" and t: "bit g (nat (row c * 8 + column c))"
    by (auto simp: cells_def ship_at_def)
  have "coord_of_index (row c * 8 + column c) = c" and "0 \<le> row c * 8 + column c"
    using coord_of_GetIndex [OF GetIndex_on_board [OF b]] by auto
  with t show "c \<in> (\<lambda>i. coord_of_index (int i)) ` {i. bit g i}"
    by (intro image_eqI [of _ _ "nat (row c * 8 + column c)"]) auto
next
  fix c
  assume "c \<in> (\<lambda>i. coord_of_index (int i)) ` {i. bit g i}"
  then obtain i where "c = coord_of_index (int i)" and "bit g i"
    by auto
  moreover from this have "i < 64"
    by (auto dest: bit_imp_le_length)
  ultimately show "c \<in> cells g"
    by (simp add: cells_def ship_at_index)
qed

lemma inj_on_coord_of_index: "inj_on (\<lambda>i. coord_of_index (int i)) {i. bit (g :: u64) i}"
proof (rule inj_onI)
  fix i j
  assume "i \<in> {i. bit g i}" "j \<in> {i. bit g i}"
    and eq: "coord_of_index (int i) = coord_of_index (int j)"
  then have "i < 64" "j < 64"
    by (auto dest: bit_imp_le_length)
  then have "GetIndex (coord_of_index (int i)) = Some (int i)"
    and "GetIndex (coord_of_index (int j)) = Some (int j)"
    by (simp_all add: GetIndex_of_index)
  with eq show "i = j" by (metis of_nat_eq_iff option.inject)
qed

lemma finite_cells [simp]: "finite (cells g)"
  by (simp add: cells_eq_image)

lemma CountOnes_eq_card_cells: "CountOnes g = int (card (cells g))"
  by (simp add: CountOnes_eq_card cells_eq_image card_image inj_on_coord_of_index)

section \<open>The byte form\<close>

lemma Blob_loop_eq:
  "Blob_loop n w =
     (map (\<lambda>k. ucast (drop_bit (8 * k) w AND 0xFF)) [0..<n], drop_bit (8 * n) w)"
proof (induction n arbitrary: w)
  case 0
  then show ?case by simp
next
  case (Suc n)
  have "map (\<lambda>k. ucast (drop_bit (8 * k) w AND 0xFF)) [0..<Suc n] =
      (ucast (w AND 0xFF) :: byte) #
        map (\<lambda>k. ucast (drop_bit (8 * k) (drop_bit 8 w) AND 0xFF)) [0..<n]"
    by (simp only: upt_conv_Cons map_Suc_upt [symmetric] zero_less_Suc list.map map_map)
      (simp add: add.commute)
  then show ?case
    by (simp add: Suc.IH add.commute)
qed

lemma Blob_eq: "Blob g = Some (map (\<lambda>k. ucast (drop_bit (8 * k) g AND 0xFF)) [0..<8])"
proof -
  have "drop_bit 64 g = 0"
    by (rule bit_eqI) (auto simp: bit_simps dest: bit_imp_le_length)
  then show ?thesis
    by (simp add: Blob_def Blob_loop_eq)
qed

lemma bit_Blob_byte:
  "j < 8 \<Longrightarrow> bit (ucast (drop_bit (8 * k) (g :: u64) AND 0xFF) :: byte) j \<longleftrightarrow> bit g (8 * k + j)"
proof -
  assume j: "j < 8"
  have m: "mask 8 = (0xFF :: u64)"
    by (simp add: mask_eq_exp_minus_1)
  have "bit (mask 8 :: u64) j"
    unfolding bit_mask_iff using j by simp
  then have "bit (0xFF :: u64) j"
    by (simp only: m)
  with j show ?thesis
    by (auto simp: bit_simps)
qed

section \<open>The text form\<close>

definition cell_chars :: "string \<Rightarrow> string" where
  "cell_chars str = filter (\<lambda>c. \<not> (c = CHR '' '' \<or> c = CHR 0x0A)) str"

definition cell_char :: "bool \<Rightarrow> char" where
  "cell_char b = (if b then CHR ''x'' else CHR ''.'')"

definition text_ok :: "string \<Rightarrow> nat \<Rightarrow> bool" where
  "text_ok fs n \<longleftrightarrow> set fs \<subseteq> {CHR ''.'', CHR ''x''} \<and> n + length fs = 64"

definition text_bits :: "string \<Rightarrow> nat \<Rightarrow> u64 \<Rightarrow> u64 \<Rightarrow> bool" where
  "text_bits fs n b b' \<longleftrightarrow>
     (\<forall>i. bit b' i \<longleftrightarrow> (if i < n then bit b i else i < 64 \<and> fs ! (i - n) = CHR ''x''))"

lemma cell_chars_simps [simp]:
  "cell_chars [] = []"
  "cell_chars (xs @ ys) = cell_chars xs @ cell_chars ys"
  "cell_chars [CHR 0x0A] = []"
  by (simp_all add: cell_chars_def filter_concat [symmetric] comp_def)

lemma cell_chars_concat [simp]: "cell_chars (concat xss) = concat (map cell_chars xss)"
  by (induction xss) simp_all

lemma cell_chars_Cons:
  "cell_chars (c # str) =
     (if c = CHR '' '' \<or> c = CHR 0x0A then cell_chars str else c # cell_chars str)"
  by (simp add: cell_chars_def)

lemma cell_chars_map [simp]: "cell_chars (map (\<lambda>x. cell_char (f x)) xs) = map (\<lambda>x. cell_char (f x)) xs"
  by (induction xs) (simp_all add: cell_chars_Cons cell_char_def)

lemma ToString_eq:
  "ToString g = Some (concat (map (\<lambda>r. map (\<lambda>c. cell_char (ship_at g \<lparr>row = r, column = c\<rparr>))
      [0..7] @ [CHR 0x0A]) [0..7]))"
  by (simp add: ToString_def ToString_row_def SIDE_def Get_on_board IsOnBoard_iff cell_char_def
      upto_rec1)

lemma cells_by_row:
  "concat (map (\<lambda>r. map (\<lambda>c. ship_at g \<lparr>row = r, column = c\<rparr>) [0..7]) [0..7]) =
   map (\<lambda>i. bit g i) [0..<64]"
  by (simp add: ship_at_def IsOnBoard_iff upto_rec1 upt_rec [of 0] upt_rec [of "Suc 0"]
      numeral_2_eq_2 [symmetric])

lemma cell_chars_ToString:
  "map_option cell_chars (ToString g) = Some (map (\<lambda>i. cell_char (bit g i)) [0..<64])"
proof -
  have "concat (map (\<lambda>r. map (\<lambda>c. cell_char (ship_at g \<lparr>row = r, column = c\<rparr>)) [0..7]) [0..7])
      = map cell_char (map (\<lambda>i. bit g i) [0..<64])"
    unfolding cells_by_row [symmetric] by (simp add: map_concat comp_def)
  then show ?thesis
    by (simp add: ToString_eq comp_def)
qed

lemma FromString_loop_spec:
  assumes "n \<le> 64" and "\<And>i. n \<le> i \<Longrightarrow> \<not> bit b i"
  shows "\<exists>b'. FromString_loop str (int n) b = Some (text_ok (cell_chars str) n, b')
     \<and> (text_ok (cell_chars str) n \<longrightarrow> text_bits (cell_chars str) n b b')"
  using assms
proof (induction str arbitrary: n b)
  case Nil
  then show ?case
    by (auto simp: text_ok_def text_bits_def dest: bit_imp_le_length)
next
  case (Cons c str)
  consider (ws) "c = CHR '' '' \<or> c = CHR 0x0A"
    | (full) "\<not> (c = CHR '' '' \<or> c = CHR 0x0A)" "n \<ge> 64"
    | (dot) "c = CHR ''.''" "n < 64"
    | (x) "c = CHR ''x''" "n < 64"
    | (bad) "c \<notin> {CHR '' '', CHR 0x0A, CHR ''.'', CHR ''x''}" "n < 64"
    by fastforce
  then show ?case
  proof cases
    case ws
    with Cons.IH [OF Cons.prems] show ?thesis by (simp add: cell_chars_Cons)
  next
    case full
    then show ?thesis by (auto simp: cell_chars_Cons text_ok_def)
  next
    case dot
    obtain b' where "FromString_loop str (int (Suc n)) b = Some (text_ok (cell_chars str) (Suc n), b')"
      and "text_ok (cell_chars str) (Suc n) \<longrightarrow> text_bits (cell_chars str) (Suc n) b b'"
      using Cons.IH [of "Suc n" b] Cons.prems dot by auto
    then show ?thesis
      using dot Cons.prems
      by (auto simp: cell_chars_Cons text_ok_def text_bits_def nth_Cons' less_Suc_eq add.commute)
  next
    case x
    let ?b = "b OR 2 ^ n"
    have s: "Set b (coord_of_index (int n)) = Some ?b"
      using Set_index [of "int n" b] x Cons.prems by simp
    have bits: "bit ?b i \<longleftrightarrow> bit b i \<or> i = n" for i
      using x by (simp add: bit_or_mask)
    obtain b' where "FromString_loop str (int (Suc n)) ?b = Some (text_ok (cell_chars str) (Suc n), b')"
      and "text_ok (cell_chars str) (Suc n) \<longrightarrow> text_bits (cell_chars str) (Suc n) ?b b'"
      using Cons.IH [of "Suc n" ?b] Cons.prems x by (auto simp: bits)
    then show ?thesis
      using x s
      by (auto simp: cell_chars_Cons text_ok_def text_bits_def nth_Cons' less_Suc_eq bits add.commute)
  next
    case bad
    then show ?thesis by (auto simp: cell_chars_Cons text_ok_def)
  qed
qed

lemma FromString_spec:
  "\<exists>b. FromString str = Some (text_ok (cell_chars str) 0, b) \<and>
     (text_ok (cell_chars str) 0 \<longrightarrow> (\<forall>i. bit b i \<longleftrightarrow> i < 64 \<and> cell_chars str ! i = CHR ''x''))"
  using FromString_loop_spec [of 0 0 str] by (simp add: FromString_def text_bits_def)

section \<open>Round trip and language of the text form\<close>

text \<open>
  The text form of a grid is always produced, and parsing it gives the grid back.
\<close>

lemma grid_text_roundtrip:
  "\<exists>str. ToString g = Some str \<and> FromString str = Some (True, g)"
proof -
  obtain str where str: "ToString g = Some str"
    by (simp add: ToString_eq)
  then have cs: "cell_chars str = map (\<lambda>i. cell_char (bit g i)) [0..<64]"
    using cell_chars_ToString [of g] by simp
  then have ok: "text_ok (cell_chars str) 0"
    by (auto simp: text_ok_def cell_char_def)
  obtain b where b: "FromString str = Some (text_ok (cell_chars str) 0, b)"
    and "text_ok (cell_chars str) 0 \<longrightarrow> (\<forall>i. bit b i \<longleftrightarrow> i < 64 \<and> cell_chars str ! i = CHR ''x'')"
    using FromString_spec [of str] by blast
  with ok have bits: "bit b i \<longleftrightarrow> i < 64 \<and> cell_chars str ! i = CHR ''x''" for i
    by blast
  have nth: "i < 64 \<Longrightarrow> cell_chars str ! i = cell_char (bit g i)" for i
    unfolding cs by (subst nth_map) (simp_all del: upt_rec_numeral)
  have "bit b i \<longleftrightarrow> bit g i" for i
  proof (cases "i < 64")
    case True
    then show ?thesis by (simp only: bits nth) (simp add: cell_char_def)
  next
    case False
    then show ?thesis by (auto simp: bits dest: bit_imp_le_length)
  qed
  then have "b = g"
    by (simp add: bit_eq_iff)
  with str b ok show ?thesis by simp
qed

text \<open>
  \<open>Grid::FromString\<close> never fails a check, and it accepts exactly the strings that consist of
  blanks, line feeds, dots and crosses with 64 dots and crosses in all.
\<close>

lemma FromString_accepts:
  "\<exists>b. FromString str = Some
     (length (filter (\<lambda>c. c \<noteq> CHR '' '' \<and> c \<noteq> CHR 0x0A) str) = 64
       \<and> set str \<subseteq> {CHR '' '', CHR 0x0A, CHR ''.'', CHR ''x''}, b)"
proof -
  have "text_ok (cell_chars str) 0 \<longleftrightarrow>
      length (filter (\<lambda>c. c \<noteq> CHR '' '' \<and> c \<noteq> CHR 0x0A) str) = 64
       \<and> set str \<subseteq> {CHR '' '', CHR 0x0A, CHR ''.'', CHR ''x''}"
    by (auto simp: text_ok_def cell_chars_def)
  then show ?thesis
    using FromString_spec [of str] by auto
qed

end
