(* ===== verification/Fleet.thy ===== *)
theory Fleet
  imports Grid
begin

text \<open>
  The specification of \<open>VerifyPositionOfShips\<close> (\<open>ships/grid.cpp\<close>): the scan of the C++ code over the
  64 cells, with its walk along every ship, accepts a grid exactly when its cells are the union of a
  fleet of straight ships that do not touch each other, not even diagonally, and that have the sizes
  of \<open>AVAILABLE_SHIPS\<close>.  The definitions of this theory are that specification.
\<close>

section \<open>Straight runs of cells\<close>

definition shift :: "coord \<Rightarrow> Direction \<Rightarrow> int \<Rightarrow> coord" where
  "shift c d k = (case d of
     LEFT \<Rightarrow> \<lparr>row = row c, column = column c - k\<rparr>
   | RIGHT \<Rightarrow> \<lparr>row = row c, column = column c + k\<rparr>
   | UP \<Rightarrow> \<lparr>row = row c - k, column = column c\<rparr>
   | DOWN \<Rightarrow> \<lparr>row = row c + k, column = column c\<rparr>)"

lemma shift_0 [simp]: "shift c d 0 = c"
  by (simp add: shift_def split: Direction.split)

lemma shift_plus: "coord_plus (shift c d k) d = shift c d (k + 1)"
  by (cases d) (simp_all add: shift_def)

lemma shift_minus: "coord_minus (shift c d k) d = shift c d (k - 1)"
  by (cases d) (simp_all add: shift_def coord_minus_def)

lemma shift_shift: "shift (shift c d j) d k = shift c d (j + k)"
  by (cases d) (simp_all add: shift_def)

lemma coord_plus_shift: "coord_plus c d = shift c d 1"
  by (cases d) (simp_all add: shift_def)

lemma coord_minus_shift: "coord_minus c d = shift c d (-1)"
  by (cases d) (simp_all add: shift_def coord_minus_def)

lemma shift_inj [simp]: "shift c d j = shift c d k \<longleftrightarrow> j = k"
  by (cases d) (simp_all add: shift_def)

text \<open>A ship of \<open>n\<close> cells starting in \<open>c\<close> with no other cell of a ship next to it.\<close>

definition isolated :: "u64 \<Rightarrow> coord \<Rightarrow> Direction \<Rightarrow> Direction \<Rightarrow> nat \<Rightarrow> bool" where
  "isolated g c d od n \<longleftrightarrow> 0 < n \<and> (\<forall>k. -1 \<le> k \<and> k \<le> int n \<longrightarrow>
     \<not> ship_at g (coord_minus (shift c d k) od) \<and> \<not> ship_at g (coord_plus (shift c d k) od) \<and>
     (ship_at g (shift c d k) \<longleftrightarrow> 0 \<le> k \<and> k < int n))"

lemma CheckShip_loop_eq:
  "CheckShip_loop g c d od sz =
     (if ship_at g c
      then if ship_at g (coord_minus c od) \<or> ship_at g (coord_plus c od) then Inl Rejected
           else CheckShip_loop g (coord_plus c d) d od (sz + 1)
      else Inr (c, sz))"
  by (subst CheckShip_loop.simps) (simp split: bool.split)

lemma CheckShip_loop_not_fatal: "CheckShip_loop g c d od sz \<noteq> Inl CheckFailed"
proof (induction g c d od sz rule: CheckShip_loop.induct)
  case (1 g c d od sz)
  from "1" [of True False] show ?case
    by (subst CheckShip_loop_eq) auto
qed

lemma CheckShip_loop_Inr:
  "CheckShip_loop g c d od sz = Inr (c', sz') \<longleftrightarrow>
     (\<exists>n. sz' = sz + n \<and> c' = shift c d (int n) \<and> \<not> ship_at g c' \<and>
        (\<forall>k. 0 \<le> k \<and> k < int n \<longrightarrow> ship_at g (shift c d k) \<and>
           \<not> ship_at g (coord_minus (shift c d k) od) \<and> \<not> ship_at g (coord_plus (shift c d k) od)))"
  (is "?L g c d od sz \<longleftrightarrow> (\<exists>n. ?R g c d od sz n)")
proof (induction g c d od sz rule: CheckShip_loop.induct)
  case (1 g c d od sz)
  show ?case
  proof (cases "ship_at g c \<and> \<not> ship_at g (coord_minus c od) \<and> \<not> ship_at g (coord_plus c od)")
    case True
    then have "?L g c d od sz \<longleftrightarrow> ?L g (coord_plus c d) d od (sz + 1)"
      by (subst CheckShip_loop_eq) simp
    also have "\<dots> \<longleftrightarrow> (\<exists>n. ?R g (coord_plus c d) d od (sz + 1) n)"
      using True "1" [of True False] by simp
    also have "\<dots> \<longleftrightarrow> (\<exists>n. ?R g c d od sz (Suc n))"
    proof (intro ex_cong1)
      fix n
      have all: "(\<forall>k. 0 \<le> k \<and> k < int (Suc n) \<longrightarrow> P k) \<longleftrightarrow>
          P 0 \<and> (\<forall>k. 0 \<le> k \<and> k < int n \<longrightarrow> P (1 + k))" for P :: "int \<Rightarrow> bool"
      proof (intro iffI conjI allI impI)
        fix k
        assume "P 0 \<and> (\<forall>k. 0 \<le> k \<and> k < int n \<longrightarrow> P (1 + k))" and k: "0 \<le> k \<and> k < int (Suc n)"
        then show "P k"
          by (cases "k = 0") (auto dest: spec [of _ "k - 1"])
      qed auto
      show "?R g (coord_plus c d) d od (sz + 1) n \<longleftrightarrow> ?R g c d od sz (Suc n)"
        unfolding all using True by (simp add: coord_plus_shift [of c] shift_shift)
    qed
    also have "\<dots> \<longleftrightarrow> (\<exists>n. ?R g c d od sz n)"
    proof
      assume "\<exists>n. ?R g c d od sz n"
      then obtain n where n: "?R g c d od sz n" by blast
      with True have "n \<noteq> 0" by auto
      then obtain m where "n = Suc m" by (cases n) auto
      with n show "\<exists>n. ?R g c d od sz (Suc n)" by blast
    qed blast
    finally show ?thesis .
  next
    case False
    have "n = 0" if "?R g c d od sz n" for n
      using that False by (cases n) (auto dest: spec [of _ 0])
    moreover have "?L g c d od sz \<longleftrightarrow> ?R g c d od sz 0"
      using False by (subst CheckShip_loop_eq) auto
    ultimately show ?thesis by blast
  qed
qed

lemma CheckShip_eq:
  "CheckShip g c d od = Inr n \<longleftrightarrow> isolated g c d od n"
proof
  assume "CheckShip g c d od = Inr n"
  then obtain c' where "ship_at g c" and h: "\<not> ship_at g (coord_minus c d)"
     "\<not> ship_at g (coord_minus (coord_minus c d) od)" "\<not> ship_at g (coord_plus (coord_minus c d) od)"
    and l: "CheckShip_loop g c d od 0 = Inr (c', n)"
    and t: "\<not> ship_at g (coord_minus c' od)" "\<not> ship_at g (coord_plus c' od)"
    by (auto simp: CheckShip_def rbind_eq_Inr_conv split: if_splits)
  moreover from l have c': "c' = shift c d (int n)" "\<not> ship_at g c'"
    and "\<forall>k. 0 \<le> k \<and> k < int n \<longrightarrow> ship_at g (shift c d k) \<and>
           \<not> ship_at g (coord_minus (shift c d k) od) \<and> \<not> ship_at g (coord_plus (shift c d k) od)"
    by (auto simp: CheckShip_loop_Inr)
  moreover have "n \<noteq> 0"
    using c' \<open>ship_at g c\<close> by (cases n) auto
  moreover have "k = -1 \<or> k = int n \<or> 0 \<le> k \<and> k < int n" if "-1 \<le> k \<and> k \<le> int n" for k
    using that by linarith
  ultimately show "isolated g c d od n"
    unfolding isolated_def coord_minus_shift [of c d]
    by (metis neq0_conv not_less int_one_le_iff_zero_less neg_less_0_iff_less of_nat_0_less_iff
        order.refl zero_less_one)
next
  assume i: "isolated g c d od n"
  then have "CheckShip_loop g c d od 0 = Inr (shift c d (int n), n)"
    by (auto simp: CheckShip_loop_Inr isolated_def)
  moreover from i have "ship_at g c" and "\<not> ship_at g (coord_minus c d)"
     "\<not> ship_at g (coord_minus (coord_minus c d) od)" "\<not> ship_at g (coord_plus (coord_minus c d) od)"
    by (auto simp: isolated_def coord_minus_shift [of c d] dest: spec [of _ 0] spec [of _ "-1"])
  moreover from i have "\<not> ship_at g (coord_minus (shift c d (int n)) od)"
    "\<not> ship_at g (coord_plus (shift c d (int n)) od)"
    by (auto simp: isolated_def dest: spec [of _ "int n"])
  ultimately show "CheckShip g c d od = Inr n"
    by (simp add: CheckShip_def)
qed

lemma CheckShip_not_fatal: "ship_at g c \<Longrightarrow> CheckShip g c d od \<noteq> Inl CheckFailed"
  using CheckShip_loop_not_fatal [of g c d od 0]
  by (cases "CheckShip_loop g c d od 0") (auto simp: CheckShip_def split: if_splits)


section \<open>The scan over the cells\<close>

definition head :: "u64 \<Rightarrow> coord \<Rightarrow> bool" where
  "head g c \<longleftrightarrow> ship_at g c \<and> \<not> ship_at g (coord_plus c UP) \<and> \<not> ship_at g (coord_plus c LEFT)"

definition head_dir :: "u64 \<Rightarrow> coord \<Rightarrow> Direction" where
  "head_dir g c = (if ship_at g (coord_plus c DOWN) then DOWN else RIGHT)"

definition other_dir :: "Direction \<Rightarrow> Direction" where
  "other_dir d = (if d = DOWN then RIGHT else DOWN)"

definition ship_ok :: "u64 \<Rightarrow> coord \<Rightarrow> nat \<Rightarrow> bool" where
  "ship_ok g c n \<longleftrightarrow> isolated g c (head_dir g c) (other_dir (head_dir g c)) n"

definition head_len :: "u64 \<Rightarrow> coord \<Rightarrow> nat" where
  "head_len g c = (case CheckShip g c (head_dir g c) (other_dir (head_dir g c)) of
     Inl _ \<Rightarrow> 0 | Inr n \<Rightarrow> n)"

lemma ship_ok_head_len: "ship_ok g c n \<Longrightarrow> head_len g c = n"
  by (simp add: ship_ok_def head_len_def CheckShip_eq [symmetric])

lemma VerifyCell_eq:
  assumes "0 \<le> i" and "i < 64"
  shows "VerifyCell g i found =
    (let c = coord_of_index i in
     if head g c
     then if \<exists>n. ship_ok g c n then Inr (count_ship (head_len g c) found) else Inl Rejected
     else Inr found)"
proof -
  let ?c = "coord_of_index i"
  have "IsOnBoard ?c"
    using assms by (simp add: coord_of_index_on_board)
  then have get: "Get g ?c = Some (ship_at g ?c)"
    by (simp add: Get_on_board)
  show ?thesis
  proof (cases "head g ?c")
    case True
    then have ship: "ship_at g ?c"
      by (simp add: head_def)
    have eq: "VerifyCell g i found =
        rbind (CheckShip g ?c (head_dir g ?c) (other_dir (head_dir g ?c)))
          (\<lambda>sz. Inr (count_ship sz found))"
      using True by (simp add: VerifyCell_def Let_def get head_def head_dir_def other_dir_def)
    show ?thesis
    proof (cases "CheckShip g ?c (head_dir g ?c) (other_dir (head_dir g ?c))")
      case (Inl e)
      then have "e = Rejected"
        using CheckShip_not_fatal [OF ship] by (cases e) auto
      moreover from Inl have "\<not> (\<exists>n. ship_ok g ?c n)"
        by (auto simp: ship_ok_def CheckShip_eq [symmetric])
      ultimately show ?thesis
        using True Inl by (simp add: eq Let_def)
    next
      case (Inr n)
      then have "ship_ok g ?c n"
        by (simp add: ship_ok_def CheckShip_eq [symmetric])
      moreover from this have "head_len g ?c = n"
        by (rule ship_ok_head_len)
      ultimately show ?thesis
        using True Inr by (auto simp: eq Let_def)
    qed
  next
    case False
    then show ?thesis
      by (auto simp: VerifyCell_def Let_def get head_def)
  qed
qed

definition heads :: "u64 \<Rightarrow> int list \<Rightarrow> coord list" where
  "heads g is = filter (head g) (map coord_of_index is)"

lemma heads_simps [simp]:
  "heads g [] = []"
  "heads g (i # is) = (if head g (coord_of_index i) then [coord_of_index i] else []) @ heads g is"
  by (simp_all add: heads_def)

lemma VerifyCells_eq:
  assumes "\<forall>i \<in> set is. 0 \<le> i \<and> i < 64"
  shows "VerifyCells g is found =
    (if \<forall>c \<in> set (heads g is). \<exists>n. ship_ok g c n
     then Inr (fold count_ship (map (head_len g) (heads g is)) found)
     else Inl Rejected)"
  using assms by (induction "is" arbitrary: found) (auto simp: VerifyCell_eq Let_def)

lemma map_of_count_ship:
  "map_of (count_ship n found) k =
     (if k = n then Some (Suc (case map_of found n of None \<Rightarrow> 0 | Some m \<Rightarrow> m)) else map_of found k)"
  by (simp add: count_ship_def update_conv')

lemma map_of_fold_count_ship:
  "map_of (fold count_ship ns found) k =
     (if k \<in> set ns then Some (count_list ns k + (case map_of found k of None \<Rightarrow> 0 | Some m \<Rightarrow> m))
      else map_of found k)"
  by (induction ns arbitrary: found) (auto simp: map_of_count_ship)

lemma distinct_fold_count_ship:
  "distinct (map fst found) \<Longrightarrow> distinct (map fst (fold count_ship ns found))"
  by (induction ns arbitrary: found) (auto simp: count_ship_def distinct_update)

lemma length_found:
  "distinct (map fst found) \<Longrightarrow> length found = card (dom (map_of found))"
  by (metis distinct_card dom_map_of_conv_image_fst length_map set_map)

lemma VerifyTypes_eq:
  "VerifyTypes AVAILABLE_SHIPS 0 (fold count_ship ns []) \<longleftrightarrow>
     set ns \<subseteq> {2, 3, 4} \<and> count_list ns 2 = 4 \<and> count_list ns 3 = 2 \<and> count_list ns 4 = 1"
proof -
  let ?f = "fold count_ship ns []"
  have len: "length ?f = card (set ns)"
    using length_found [OF distinct_fold_count_ship, of "[]" ns]
    by (simp add: map_of_fold_count_ship dom_def)
  have eq3: "{2, 3, 4} \<subseteq> set ns \<and> card (set ns) = 3 \<longleftrightarrow> set ns = {2, 3, 4}"
  proof
    assume "{2, 3, 4} \<subseteq> set ns \<and> card (set ns) = 3"
    then have "{2, 3, 4} = set ns"
      by (intro card_subset_eq) simp_all
    then show "set ns = {2, 3, 4}" ..
  qed simp
  have "VerifyTypes AVAILABLE_SHIPS 0 ?f \<longleftrightarrow>
      {2, 3, 4} \<subseteq> set ns \<and> count_list ns 2 = 4 \<and> count_list ns 3 = 2 \<and> count_list ns 4 = 1
        \<and> card (set ns) = 3"
    by (auto simp: AVAILABLE_SHIPS_def map_of_fold_count_ship len)
  also have "\<dots> \<longleftrightarrow> set ns = {2, 3, 4} \<and> count_list ns 2 = 4 \<and> count_list ns 3 = 2 \<and> count_list ns 4 = 1"
    using eq3 by blast
  also have "\<dots> \<longleftrightarrow> set ns \<subseteq> {2, 3, 4} \<and> count_list ns 2 = 4 \<and> count_list ns 3 = 2 \<and> count_list ns 4 = 1"
  proof -
    have "{2, 3, 4} \<subseteq> set ns"
      if "count_list ns 2 = 4" "count_list ns 3 = 2" "count_list ns 4 = 1"
      using that count_notin [of _ ns] by fastforce
    then show ?thesis by blast
  qed
  finally show ?thesis .
qed

section \<open>Fleets\<close>

type_synonym ship = "coord \<times> Direction \<times> nat"

definition body :: "ship \<Rightarrow> coord set" where
  "body s = (case s of (c, d, n) \<Rightarrow> (\<lambda>k. shift c d (int k)) ` {..<n})"

definition touch :: "coord \<Rightarrow> coord \<Rightarrow> bool" where
  "touch a b \<longleftrightarrow> \<bar>row a - row b\<bar> \<le> 1 \<and> \<bar>column a - column b\<bar> \<le> 1"

definition apart :: "ship set \<Rightarrow> bool" where
  "apart F \<longleftrightarrow> (\<forall>s \<in> F. \<forall>t \<in> F. s \<noteq> t \<longrightarrow> (\<forall>a \<in> body s. \<forall>b \<in> body t. \<not> touch a b))"

definition straight :: "ship \<Rightarrow> bool" where
  "straight s = (case s of (c, d, n) \<Rightarrow> (d = RIGHT \<or> d = DOWN) \<and> 2 \<le> n)"

definition ship_len :: "ship \<Rightarrow> nat" where
  "ship_len s = (case s of (c, d, n) \<Rightarrow> n)"

definition found_fleet :: "u64 \<Rightarrow> ship set" where
  "found_fleet g = {(c, head_dir g c, n) | c n. head g c \<and> ship_ok g c n}"

definition all_ok :: "u64 \<Rightarrow> bool" where
  "all_ok g \<longleftrightarrow> (\<forall>c. head g c \<longrightarrow> (\<exists>n. ship_ok g c n))"

lemma mem_body: "b \<in> body (c, d, n) \<longleftrightarrow> (\<exists>k. 0 \<le> k \<and> k < int n \<and> b = shift c d k)"
  unfolding body_def by (auto simp: image_iff) (metis nat_0_le zless_nat_conj nat_less_iff lessThan_iff)

text \<open>A cell of a ship that touches a cell of an isolated ship belongs to that ship.\<close>

lemma touching_steps:
  assumes "d = RIGHT \<or> d = DOWN" and "touch (shift c d k) b"
  obtains j where "\<bar>j - k\<bar> \<le> 1"
    and "b = shift c d j \<or> b = coord_minus (shift c d j) (other_dir d)
      \<or> b = coord_plus (shift c d j) (other_dir d)"
proof -
  let ?j = "if d = RIGHT then column b - column c else row b - row c"
  have "\<bar>?j - k\<bar> \<le> 1"
    using assms by (auto simp: touch_def shift_def)
  moreover have "b = shift c d ?j \<or> b = coord_minus (shift c d ?j) (other_dir d)
      \<or> b = coord_plus (shift c d ?j) (other_dir d)"
    using assms by (cases b) (auto simp: touch_def shift_def other_dir_def coord_minus_def)
  ultimately show ?thesis by (rule that)
qed

lemma isolated_touch:
  assumes iso: "isolated g c d (other_dir d) n" and d: "d = RIGHT \<or> d = DOWN"
    and a: "a \<in> body (c, d, n)" and b: "ship_at g b" and t: "touch a b"
  shows "b \<in> body (c, d, n)"
proof -
  from a obtain k where k: "0 \<le> k" "k < int n" "a = shift c d k"
    by (auto simp: mem_body)
  from d t [unfolded k] obtain j where j: "\<bar>j - k\<bar> \<le> 1"
    and cases: "b = shift c d j \<or> b = coord_minus (shift c d j) (other_dir d)
      \<or> b = coord_plus (shift c d j) (other_dir d)"
    by (rule touching_steps)
  from j k have "-1 \<le> j \<and> j \<le> int n" by linarith
  with iso have "\<not> ship_at g (coord_minus (shift c d j) (other_dir d))"
    "\<not> ship_at g (coord_plus (shift c d j) (other_dir d))"
    and "ship_at g (shift c d j) \<longleftrightarrow> 0 \<le> j \<and> j < int n"
    by (auto simp: isolated_def)
  with cases b show ?thesis
    by (auto simp: mem_body)
qed

lemma head_dir_cases: "head_dir g c = RIGHT \<or> head_dir g c = DOWN"
  by (simp add: head_dir_def)

lemma head_in_body: "ship_ok g c n \<Longrightarrow> c \<in> body (c, head_dir g c, n)"
  by (auto simp: mem_body ship_ok_def isolated_def intro!: exI [of _ 0])

text \<open>Every cell of a ship lies in the run of some head.\<close>

lemma cell_in_found:
  assumes "all_ok g" and "ship_at g b"
  shows "\<exists>s \<in> found_fleet g. b \<in> body s"
  using assms(2)
proof (induction "nat (row b + column b)" arbitrary: b rule: less_induct)
  case less
  note ship = less.prems
  have pos: "0 \<le> row b" "0 \<le> column b"
    using ship_at_on_board [OF ship] by (simp_all add: IsOnBoard_iff)
  show ?case
  proof (cases "head g b")
    case True
    then obtain n where "ship_ok g b n"
      using assms(1) by (auto simp: all_ok_def)
    with True show ?thesis
      by (auto simp: found_fleet_def intro!: exI [of _ b] dest: head_in_body)
  next
    case False
    then obtain e where e: "e = UP \<or> e = LEFT" and p: "ship_at g (coord_plus b e)"
      using ship unfolding head_def by blast
    have "nat (row (coord_plus b e) + column (coord_plus b e)) < nat (row b + column b)"
      using e ship_at_on_board [OF p] pos by (auto simp: IsOnBoard_iff)
    then obtain c n where c: "head g c" "ship_ok g c n"
      and "coord_plus b e \<in> body (c, head_dir g c, n)"
      using less.hyps [OF _ p] by (auto simp: found_fleet_def)
    moreover have "touch (coord_plus b e) b"
      using e by (auto simp: touch_def)
    ultimately have "b \<in> body (c, head_dir g c, n)"
      using isolated_touch [OF _ head_dir_cases _ ship] by (auto simp: ship_ok_def)
    with c show ?thesis by (auto simp: found_fleet_def)
  qed
qed

lemma found_body_ship: "s \<in> found_fleet g \<Longrightarrow> b \<in> body s \<Longrightarrow> ship_at g b"
  by (auto simp: found_fleet_def mem_body ship_ok_def isolated_def)

lemma cells_found: "all_ok g \<Longrightarrow> cells g = \<Union> (body ` found_fleet g)"
  using cell_in_found [of g] found_body_ship [of _ g] by (auto simp: cells_def)

text \<open>Two runs with a common cell have the same head.\<close>

lemma pred_ship:
  assumes "ship_ok g c n" and "0 < k" and "k < int n"
  shows "ship_at g (coord_minus (shift c (head_dir g c) k) (head_dir g c))"
  using assms unfolding shift_minus ship_ok_def isolated_def by auto

lemma common_cell_same_head:
  assumes c: "head g c" "ship_ok g c n" and c': "head g c'" "ship_ok g c' n'"
    and k: "0 \<le> k" "k < int n" and k': "0 \<le> k'" "k' < int n'"
    and eq: "shift c (head_dir g c) k = shift c' (head_dir g c') k'"
  shows "c = c'"
  using k k' eq
proof (induction "nat k" arbitrary: k k')
  case 0
  then have "c = shift c' (head_dir g c') k'" by simp
  moreover have "k' = 0"
  proof (rule ccontr)
    assume "k' \<noteq> 0"
    then have "ship_at g (coord_minus c (head_dir g c'))"
      using pred_ship [OF c'(2), of k'] 0 by simp
    with c(1) show False
      using head_dir_cases [of g c'] by (auto simp: head_def coord_minus_def)
  qed
  ultimately show ?case by simp
next
  case (Suc m)
  let ?b = "shift c (head_dir g c) k"
  have k0: "0 < k" using Suc.hyps(2) by simp
  have p: "ship_at g (coord_minus ?b (head_dir g c))"
    using pred_ship [OF c(2) k0] Suc.prems by simp
  have k'0: "0 < k'"
  proof (rule ccontr)
    assume "\<not> 0 < k'"
    with Suc.prems have "?b = c'" by simp
    with p c'(1) show False
      using head_dir_cases [of g c] by (auto simp: head_def coord_minus_def)
  qed
  have p': "ship_at g (coord_minus ?b (head_dir g c'))"
    using pred_ship [OF c'(2) k'0] Suc.prems by simp
  have same: "head_dir g c = head_dir g c'"
  proof (rule ccontr)
    assume "head_dir g c \<noteq> head_dir g c'"
    then have "head_dir g c' = other_dir (head_dir g c)"
      using head_dir_cases [of g c] head_dir_cases [of g c'] by (auto simp: other_dir_def)
    moreover have "\<not> ship_at g (coord_minus ?b (other_dir (head_dir g c)))"
      using c(2) Suc.prems(1,2) by (simp add: ship_ok_def isolated_def)
    ultimately show False
      using p' by simp
  qed
  have "shift c (head_dir g c) (k - 1) = shift c' (head_dir g c') (k' - 1)"
    using Suc.prems same by (simp flip: shift_minus)
  then show ?case
    using Suc.hyps(1) [of "k - 1" "k' - 1"] Suc.hyps(2) Suc.prems k0 k'0 by simp
qed

lemma ship_ok_unique: "ship_ok g c n \<Longrightarrow> ship_ok g c n' \<Longrightarrow> n = n'"
  using ship_ok_head_len by blast

lemma found_apart: "apart (found_fleet g)"
  unfolding apart_def
proof (intro ballI impI notI)
  fix s t a b
  assume s: "s \<in> found_fleet g" and t: "t \<in> found_fleet g" and "s \<noteq> t"
    and a: "a \<in> body s" and b: "b \<in> body t" and "touch a b"
  from s obtain c n where c: "s = (c, head_dir g c, n)" "head g c" "ship_ok g c n"
    by (auto simp: found_fleet_def)
  from t obtain c' n' where c': "t = (c', head_dir g c', n')" "head g c'" "ship_ok g c' n'"
    by (auto simp: found_fleet_def)
  have "b \<in> body s"
    using isolated_touch [OF _ head_dir_cases a [unfolded c] found_body_ship [OF t b] \<open>touch a b\<close>] c
    by (simp add: ship_ok_def)
  with b c c' have "c = c'"
    by (auto simp: mem_body dest: common_cell_same_head)
  with c c' \<open>s \<noteq> t\<close> show False
    using ship_ok_unique by auto
qed

text \<open>A fleet of straight ships that do not touch each other is what the scan finds.\<close>

lemma fleet_own_cells:
  assumes "apart F" and "cells g = \<Union> (body ` F)" and "s \<in> F"
    and "a \<in> body s" and "ship_at g b" and "touch a b"
  shows "b \<in> body s"
proof -
  have "b \<in> \<Union> (body ` F)"
    using assms(5) unfolding assms(2) [symmetric] by (simp add: cells_def)
  then obtain t where "t \<in> F" "b \<in> body t"
    by blast
  moreover have "s = t"
  proof (rule ccontr)
    assume "s \<noteq> t"
    with assms(1) \<open>s \<in> F\<close> \<open>t \<in> F\<close> have "\<forall>a \<in> body s. \<forall>b \<in> body t. \<not> touch a b"
      by (simp add: apart_def)
    with \<open>a \<in> body s\<close> \<open>b \<in> body t\<close> \<open>touch a b\<close> show False by simp
  qed
  ultimately show ?thesis by simp
qed

lemma fleet_isolated:
  assumes F: "apart F" "cells g = \<Union> (body ` F)" and s: "(c, d, n) \<in> F" and d: "straight (c, d, n)"
  shows "isolated g c d (other_dir d) n"
  unfolding isolated_def
proof (intro conjI allI impI)
  have dn: "d = RIGHT \<or> d = DOWN" "2 \<le> n"
    using d by (auto simp: straight_def)
  show "0 < n" using dn by simp
  fix k :: int
  assume k: "-1 \<le> k \<and> k \<le> int n"
  let ?j = "max 0 (min k (int n - 1))"
  let ?a = "shift c d ?j"
  have a: "?a \<in> body (c, d, n)"
    using dn by (auto simp: mem_body)
  have j: "\<bar>k - ?j\<bar> \<le> 1" using k dn by auto
  have own: "b \<in> body (c, d, n)" if "ship_at g b" "touch ?a b" for b
    using fleet_own_cells [OF F s a that] .
  have t: "touch ?a (coord_minus (shift c d k) (other_dir d))"
    "touch ?a (coord_plus (shift c d k) (other_dir d))" "touch ?a (shift c d k)"
    using dn(1) j by (auto simp: touch_def shift_def other_dir_def coord_minus_def)
  show "\<not> ship_at g (coord_minus (shift c d k) (other_dir d))"
    using own [OF _ t(1)] dn(1) by (auto simp: mem_body shift_def other_dir_def coord_minus_def)
  show "\<not> ship_at g (coord_plus (shift c d k) (other_dir d))"
    using own [OF _ t(2)] dn(1) by (auto simp: mem_body shift_def other_dir_def)
  show "ship_at g (shift c d k) \<longleftrightarrow> 0 \<le> k \<and> k < int n"
  proof
    assume "ship_at g (shift c d k)"
    from own [OF this t(3)] show "0 \<le> k \<and> k < int n" by (auto simp: mem_body)
  next
    assume "0 \<le> k \<and> k < int n"
    then have "shift c d k \<in> body (c, d, n)" by (auto simp: mem_body)
    with F(2) s show "ship_at g (shift c d k)" by (auto simp: cells_def)
  qed
qed

lemma isolated_head:
  assumes "isolated g c d (other_dir d) n" and "straight (c, d, n)"
  shows "head g c \<and> head_dir g c = d"
proof -
  have "\<not> ship_at g (coord_minus c d)" "\<not> ship_at g (coord_minus c (other_dir d))"
    "\<not> ship_at g (coord_plus c (other_dir d))" "ship_at g c" "ship_at g (coord_plus c d)"
    using assms by (auto simp: isolated_def straight_def coord_minus_shift [of c d]
        coord_plus_shift [of c d] dest: spec [of _ 0] spec [of _ "-1"] spec [of _ 1])
  moreover have "d = RIGHT \<or> d = DOWN"
    using assms(2) by (auto simp: straight_def)
  ultimately show ?thesis
    by (auto simp: head_def head_dir_def other_dir_def coord_minus_def)
qed

lemma head_is_start:
  assumes F: "cells g = \<Union> (body ` F)" "\<forall>s \<in> F. straight s" and h: "head g h"
  shows "\<exists>d n. (h, d, n) \<in> F"
proof -
  have "h \<in> \<Union> (body ` F)"
    using h F(1) by (auto simp: cells_def head_def)
  then obtain c d n where s: "(c, d, n) \<in> F" and "h \<in> body (c, d, n)"
    by auto
  then obtain k where k: "0 \<le> k" "k < int n" "h = shift c d k"
    by (auto simp: mem_body)
  have "k = 0"
  proof (rule ccontr)
    assume "k \<noteq> 0"
    then have "shift c d (k - 1) \<in> body (c, d, n)"
      using k by (auto simp: mem_body)
    then have "ship_at g (coord_minus h d)"
      using F(1) s unfolding k(3) shift_minus by (auto simp: cells_def)
    moreover have "d = RIGHT \<or> d = DOWN"
      using F(2) s by (auto simp: straight_def)
    ultimately show False
      using h by (auto simp: head_def coord_minus_def)
  qed
  with k s show ?thesis by auto
qed

lemma fleet_found:
  assumes F: "apart F" "cells g = \<Union> (body ` F)" "\<forall>s \<in> F. straight s"
  shows "all_ok g \<and> found_fleet g = F"
proof -
  have ok: "head g c \<and> head_dir g c = d \<and> ship_ok g c n" if "(c, d, n) \<in> F" for c d n
  proof -
    have st: "straight (c, d, n)" using F(3) that by blast
    have iso: "isolated g c d (other_dir d) n"
      by (rule fleet_isolated [OF F(1,2) that st])
    from isolated_head [OF iso st] iso show ?thesis
      by (simp add: ship_ok_def)
  qed
  have "all_ok g"
    unfolding all_ok_def using head_is_start [OF F(2,3)] ok by blast
  moreover have "F \<subseteq> found_fleet g"
    using ok by (auto simp: found_fleet_def)
  moreover have "found_fleet g \<subseteq> F"
  proof
    fix s
    assume "s \<in> found_fleet g"
    then obtain c n where s: "s = (c, head_dir g c, n)" "head g c" "ship_ok g c n"
      by (auto simp: found_fleet_def)
    obtain d m where m: "(c, d, m) \<in> F"
      using head_is_start [OF F(2,3) s(2)] by blast
    with ok [OF m] s show "s \<in> F"
      using ship_ok_unique by blast
  qed
  ultimately show ?thesis by blast
qed

section \<open>Counting the ships of the scan\<close>

lemma heads_all:
  "set (heads g [0..63]) = {c. head g c}" "distinct (heads g [0..63])"
proof -
  have "c \<in> coord_of_index ` set [0..63]" if "head g c" for c
  proof -
    have "IsOnBoard c"
      using that ship_at_on_board by (auto simp: head_def)
    from coord_of_GetIndex [OF GetIndex_on_board [OF this]] show ?thesis
      by (intro image_eqI [of _ _ "row c * 8 + column c"]) auto
  qed
  then show "set (heads g [0..63]) = {c. head g c}"
    unfolding heads_def by auto
  have "inj_on coord_of_index (set [0..63])"
    by (rule inj_on_inverseI [where g = "\<lambda>c. the (GetIndex c)"]) (simp add: GetIndex_of_index)
  then show "distinct (heads g [0..63])"
    unfolding heads_def by (intro distinct_filter) (simp add: distinct_map)
qed

lemma count_list_map_filter:
  "distinct xs \<Longrightarrow> count_list (map f xs) n = card {x \<in> set xs. f x = n}"
proof (induction xs)
  case (Cons x xs)
  have "{y \<in> set (x # xs). f y = n} = (if f x = n then {x} else {}) \<union> {y \<in> set xs. f y = n}"
    by auto
  with Cons show ?case by auto
qed simp

lemma count_found:
  assumes "all_ok g"
  shows "count_list (map (head_len g) (heads g [0..63])) n = card {s \<in> found_fleet g. ship_len s = n}"
proof -
  have "{s \<in> found_fleet g. ship_len s = n} = (\<lambda>c. (c, head_dir g c, n)) ` {c. head g c \<and> head_len g c = n}"
    using assms ship_ok_head_len by (fastforce simp: found_fleet_def ship_len_def all_ok_def)
  moreover have "inj_on (\<lambda>c. (c, head_dir g c, n)) {c. head g c \<and> head_len g c = n}"
    by (auto intro: inj_onI)
  ultimately show ?thesis
    using heads_all [of g] by (simp add: count_list_map_filter card_image)
qed

lemma lens_found:
  assumes "all_ok g"
  shows "set (map (head_len g) (heads g [0..63])) = ship_len ` found_fleet g"
proof -
  have "ship_len ` found_fleet g = head_len g ` {c. head g c}"
    using assms ship_ok_head_len
    by (fastforce simp: found_fleet_def ship_len_def all_ok_def image_iff)
  then show ?thesis
    using heads_all(1) [of g] by simp
qed

definition complement :: "ship set \<Rightarrow> bool" where
  "complement F \<longleftrightarrow> ship_len ` F \<subseteq> {2, 3, 4} \<and> card {s \<in> F. ship_len s = 2} = 4
     \<and> card {s \<in> F. ship_len s = 3} = 2 \<and> card {s \<in> F. ship_len s = 4} = 1"

lemma VerifyPositionOfShips_eq:
  "VerifyPositionOfShips g = Some (all_ok g \<and> complement (found_fleet g))"
proof -
  have range: "\<forall>i \<in> set [0..63 :: int]. 0 \<le> i \<and> i < 64" by auto
  have heads: "(\<forall>c \<in> set (heads g [0..63]). \<exists>n. ship_ok g c n) \<longleftrightarrow> all_ok g"
    by (simp add: heads_all all_ok_def)
  show ?thesis
    unfolding VerifyPositionOfShips_def
    by (simp add: VerifyCells_eq [OF range] heads VerifyTypes_eq complement_def count_found
        lens_found [simplified])
qed

lemma found_straight:
  assumes "complement (found_fleet g)" and s: "s \<in> found_fleet g"
  shows "straight s"
proof -
  have "ship_len s \<in> {2, 3, 4}"
    using assms unfolding complement_def by blast
  moreover obtain c n where "s = (c, head_dir g c, n)"
    using s by (auto simp: found_fleet_def)
  ultimately show ?thesis
    using head_dir_cases [of g c] by (auto simp: straight_def ship_len_def)
qed

lemma card_body: "card (body s) = ship_len s"
proof -
  obtain c d n where s: "s = (c, d, n)" by (cases s) auto
  have "inj_on (\<lambda>k. shift c d (int k)) {..<n}"
    by (rule inj_onI) simp
  then show ?thesis
    by (simp add: s body_def ship_len_def card_image)
qed

lemma complement_finite:
  assumes "complement F"
  shows "finite F"
proof -
  have "F = {s \<in> F. ship_len s = 2} \<union> {s \<in> F. ship_len s = 3} \<union> {s \<in> F. ship_len s = 4}"
    using assms by (auto simp: complement_def)
  moreover have "finite \<dots>"
    using assms by (simp add: complement_def card_ge_0_finite)
  ultimately show ?thesis by simp
qed

lemma apart_disjoint:
  assumes "apart F" and "s \<in> F" and "t \<in> F" and "s \<noteq> t"
  shows "body s \<inter> body t = {}"
  using assms unfolding apart_def by (fastforce simp: touch_def)

lemma sum_complement:
  assumes "complement F"
  shows "(\<Sum>s \<in> F. ship_len s) = 18"
proof -
  let ?S = "\<lambda>n. {s \<in> F. ship_len s = n}"
  have split: "F = ?S 2 \<union> ?S 3 \<union> ?S 4"
    using assms by (auto simp: complement_def)
  have fin: "finite (?S n)" for n
    using complement_finite [OF assms] by simp
  have part: "(\<Sum>s \<in> ?S n. ship_len s) = card (?S n) * n" for n
    by simp
  have "(\<Sum>s \<in> ?S 2 \<union> ?S 3 \<union> ?S 4. ship_len s)
      = (\<Sum>s \<in> ?S 2. ship_len s) + (\<Sum>s \<in> ?S 3. ship_len s) + (\<Sum>s \<in> ?S 4. ship_len s)"
    using fin by (subst sum.union_disjoint, auto)+
  also have "\<dots> = 18"
    using assms unfolding part by (simp add: complement_def)
  finally show ?thesis
    using split by simp
qed

section \<open>What the check accepts\<close>

text \<open>
  C16: \<open>VerifyPositionOfShips\<close> never fails one of its checks, and it accepts a grid exactly when the
  grid is the union of a fleet: straight horizontal or vertical ships, no two of which touch (not even
  diagonally), four of size two, two of size three and one of size four.
\<close>

theorem VerifyPositionOfShips_correct:
  "VerifyPositionOfShips g = Some
     (\<exists>F. complement F \<and> apart F \<and> F \<subseteq> Collect straight \<and> cells g = \<Union> (body ` F))"
proof -
  have "all_ok g \<and> complement (found_fleet g) \<longleftrightarrow>
    (\<exists>F. complement F \<and> apart F \<and> F \<subseteq> Collect straight \<and> cells g = \<Union> (body ` F))"
    (is "?L \<longleftrightarrow> (\<exists>F. ?R F)")
  proof
    assume ?L
    then have "?R (found_fleet g)"
      using found_apart [of g] found_straight [of g] cells_found [of g] by auto
    then show "\<exists>F. ?R F" by blast
  next
    assume "\<exists>F. ?R F"
    then obtain F where F: "complement F" "apart F" "F \<subseteq> Collect straight" "cells g = \<Union> (body ` F)"
      by blast
    then have "all_ok g \<and> found_fleet g = F"
      by (intro fleet_found) auto
    with F(1) show ?L by simp
  qed
  then show ?thesis
    by (simp add: VerifyPositionOfShips_eq)
qed

lemma position_ones:
  assumes "VerifyPositionOfShips g = Some True"
  shows "CountOnes g = TotalShipCells"
proof -
  let ?F = "found_fleet g"
  from assms have ok: "all_ok g" "complement ?F"
    by (simp_all add: VerifyPositionOfShips_eq)
  have fin: "finite (body s)" for s
    by (auto simp: body_def split: prod.split)
  have "card (cells g) = (\<Sum>s \<in> ?F. card (body s))"
    unfolding cells_found [OF ok(1)]
    using complement_finite [OF ok(2)] fin apart_disjoint [OF found_apart] by (intro card_UN_disjoint) auto
  also have "\<dots> = 18"
    using sum_complement [OF ok(2)] by (simp add: card_body)
  finally show ?thesis
    by (simp add: CountOnes_eq_card_cells TotalShipCells_def AVAILABLE_SHIPS_def)
qed

text \<open>
  a grid that \<open>VerifyPositionOfShips\<close> accepts has exactly the number of ship cells that
  \<open>TotalShipCells\<close> computes, so that hitting that many cells means that all ships are sunk.
\<close>

lemma valid_position_ones:
  assumes "VerifyPositionOfShips g = Some True"
  shows "CountOnes g = TotalShipCells"
  by (rule position_ones [OF assms])

end
