(* ===== verification/Rng.thy ===== *)
theory Rng
  imports Uint256 "HOL-Library.Multiset"
begin

text \<open>
  The deterministic random numbers of \<open>spacexpanseutil/random.cpp\<close> and \<open>random.tpp\<close>.  The instance
  hands out the bytes of its seed one by one and then replaces the seed by its hash.  SHA-256 is
  OpenSSL code: it is the parameter \<open>sha\<close>, of which the theorems use only that a hash has 32 bytes
  and, where a draw has to succeed, that it is not the null value.

  An operation returns \<open>None\<close> where the process aborts on a failed \<open>CHECK\<close>; the rejection loop of
  \<open>NextInt\<close> also has the value \<open>None\<close> where it never returns.
\<close>

section \<open>State and operations\<close>

record Random =
  seed :: uint256
  nextIndex :: nat

definition Seed :: "uint256 \<Rightarrow> Random" where
  "Seed s = \<lparr>seed = s, nextIndex = 0\<rparr>"

definition BranchOff :: "(byte list \<Rightarrow> uint256) \<Rightarrow> Random \<Rightarrow> byte list \<Rightarrow> Random option" where
  "BranchOff sha rnd key = do {
     check (\<not> IsNull (seed rnd));
     check (nextIndex rnd < NUM_BYTES);
     let nextIndexByte = [of_nat (nextIndex rnd)];
     Some (Seed (sha (GetBinaryString (seed rnd) @ nextIndexByte @ key)))
   }"

definition Next_uchar :: "(byte list \<Rightarrow> uint256) \<Rightarrow> Random \<Rightarrow> (byte \<times> Random) option" where
  "Next_uchar sha rnd = do {
     check (\<not> IsNull (seed rnd));
     check (nextIndex rnd < NUM_BYTES);
     let res = data (seed rnd) ! nextIndex rnd;
     let rnd = rnd\<lparr>nextIndex := nextIndex rnd + 1\<rparr>;
     if nextIndex rnd = NUM_BYTES
     then Some (res, \<lparr>seed = sha (GetBinaryString (seed rnd)), nextIndex = 0\<rparr>)
     else Some (res, rnd)
   }"

definition Next_bool :: "(byte list \<Rightarrow> uint256) \<Rightarrow> Random \<Rightarrow> (bool \<times> Random) option" where
  "Next_bool sha rnd = do {
     (b, rnd) \<leftarrow> Next_uchar sha rnd;
     Some (and b 1 \<noteq> 0, rnd)
   }"

definition CombineHalfInts ::
  "(Random \<Rightarrow> ('h::len word \<times> Random) option) \<Rightarrow> nat \<Rightarrow> Random \<Rightarrow> ('t::len word \<times> Random) option" where
  "CombineHalfInts next halfBits rnd = do {
     (hi, rnd) \<leftarrow> next rnd;
     let res = push_bit halfBits (ucast hi);
     (lo, rnd) \<leftarrow> next rnd;
     Some (or res (ucast lo), rnd)
   }"

definition Next_u16 :: "(byte list \<Rightarrow> uint256) \<Rightarrow> Random \<Rightarrow> (16 word \<times> Random) option" where
  "Next_u16 sha = CombineHalfInts (Next_uchar sha) 8"

definition Next_u32 :: "(byte list \<Rightarrow> uint256) \<Rightarrow> Random \<Rightarrow> (u32 \<times> Random) option" where
  "Next_u32 sha = CombineHalfInts (Next_u16 sha) 16"

definition Next_u64 :: "(byte list \<Rightarrow> uint256) \<Rightarrow> Random \<Rightarrow> (u64 \<times> Random) option" where
  "Next_u64 sha = CombineHalfInts (Next_u32 sha) 32"

partial_function (option) NextInt_loop ::
  "(byte list \<Rightarrow> uint256) \<Rightarrow> u32 \<Rightarrow> u64 \<Rightarrow> Random \<Rightarrow> (u32 \<times> Random) option" where
  "NextInt_loop sha n m rnd = Option.bind (Next_u64 sha rnd) (\<lambda>p.
     if fst p < m then Some (ucast (fst p mod ucast n), snd p) else NextInt_loop sha n m (snd p))"

declare NextInt_loop.simps [code]

definition reroll_factor :: "u32 \<Rightarrow> u64" where
  "reroll_factor n = - 1 div ucast n"

definition reroll_bound :: "u32 \<Rightarrow> u64" where
  "reroll_bound n = reroll_factor n * ucast n"

definition NextInt :: "(byte list \<Rightarrow> uint256) \<Rightarrow> u32 \<Rightarrow> Random \<Rightarrow> (u32 \<times> Random) option" where
  "NextInt sha n rnd = do {
     check (0 < n);
     NextInt_loop sha n (reroll_bound n) rnd
   }"

definition ProbabilityRoll :: "(byte list \<Rightarrow> uint256) \<Rightarrow> u32 \<Rightarrow> u32 \<Rightarrow> Random \<Rightarrow> (bool \<times> Random) option" where
  "ProbabilityRoll sha numer denom rnd = do {
     (val, rnd) \<leftarrow> NextInt sha denom rnd;
     Some (val < numer, rnd)
   }"

text \<open>The walk over the weights; \<open>None\<close> is the \<open>LOG (FATAL)\<close> after the loop.\<close>

fun select_roll :: "u32 \<Rightarrow> u32 list \<Rightarrow> nat \<Rightarrow> nat option" where
  "select_roll roll [] i = None"
| "select_roll roll (w # ws) i = (if roll < w then Some i else select_roll (roll - w) ws (i + 1))"

definition totalWeights :: "u32 list \<Rightarrow> u64" where
  "totalWeights weights = foldl (\<lambda>t w. t + ucast w) 0 weights"

definition SelectByWeight :: "(byte list \<Rightarrow> uint256) \<Rightarrow> u32 list \<Rightarrow> Random \<Rightarrow> (nat \<times> Random) option" where
  "SelectByWeight sha weights rnd = do {
     check (totalWeights weights \<le> ucast (- 1 :: u32));
     (roll, rnd) \<leftarrow> NextInt sha (ucast (totalWeights weights)) rnd;
     i \<leftarrow> select_roll roll weights 0;
     Some (i, rnd)
   }"

text \<open>
  \<open>ShuffleN\<close> works on the suffix of the range from its position \<open>pos\<close>; \<open>swap\<close> exchanges two of its elements.
\<close>

definition swap_at :: "nat \<Rightarrow> nat \<Rightarrow> 'a list \<Rightarrow> 'a list" where
  "swap_at i j xs = xs[i := xs ! j, j := xs ! i]"

fun ShuffleN :: "(byte list \<Rightarrow> uint256) \<Rightarrow> nat \<Rightarrow> nat \<Rightarrow> 'a list \<Rightarrow> Random \<Rightarrow> ('a list \<times> Random) option" where
  "ShuffleN sha pos 0 xs rnd = Some (xs, rnd)"
| "ShuffleN sha pos (Suc n) xs rnd =
    (if length xs \<le> pos + 1 then Some (xs, rnd)
     else do {
       (k, rnd) \<leftarrow> NextInt sha (of_nat (length xs - pos)) rnd;
       let mid = pos + unat k;
       let xs = (if mid \<noteq> pos then swap_at pos mid xs else xs);
       ShuffleN sha (pos + 1) n xs rnd
     })"

definition Shuffle :: "(byte list \<Rightarrow> uint256) \<Rightarrow> 'a list \<Rightarrow> Random \<Rightarrow> ('a list \<times> Random) option" where
  "Shuffle sha xs rnd = ShuffleN sha 0 (length xs) xs rnd"

section \<open>The byte stream\<close>

definition Random_wf :: "Random \<Rightarrow> bool" where
  "Random_wf rnd \<longleftrightarrow> uint256_wf (seed rnd) \<and> nextIndex rnd < NUM_BYTES"

lemma Seed_wf [simp]: "Random_wf (Seed s) \<longleftrightarrow> uint256_wf s"
  by (simp add: Random_wf_def Seed_def NUM_BYTES_def)

text \<open>The seeds that follow each other, and the bytes they hold.\<close>

definition chain :: "(byte list \<Rightarrow> uint256) \<Rightarrow> uint256 \<Rightarrow> nat \<Rightarrow> uint256" where
  "chain sha s k = ((\<lambda>u. sha (GetBinaryString u)) ^^ k) s"

definition stream_byte :: "(byte list \<Rightarrow> uint256) \<Rightarrow> uint256 \<Rightarrow> nat \<Rightarrow> byte" where
  "stream_byte sha s i = data (chain sha s (i div NUM_BYTES)) ! (i mod NUM_BYTES)"

fun draw_bytes :: "(byte list \<Rightarrow> uint256) \<Rightarrow> nat \<Rightarrow> Random \<Rightarrow> (byte list \<times> Random) option" where
  "draw_bytes sha 0 rnd = Some ([], rnd)"
| "draw_bytes sha (Suc n) rnd = do {
     (bs, rnd) \<leftarrow> draw_bytes sha n rnd;
     (b, rnd) \<leftarrow> Next_uchar sha rnd;
     Some (bs @ [b], rnd)
   }"

lemma chain_Suc: "chain sha s (Suc k) = sha (GetBinaryString (chain sha s k))"
  by (simp add: chain_def)

lemma draw_bytes_stream:
  assumes "\<And>k. \<not> IsNull (chain sha s k)"
  shows "draw_bytes sha n (Seed s) =
    Some (map (stream_byte sha s) [0..<n], \<lparr>seed = chain sha s (n div NUM_BYTES), nextIndex = n mod NUM_BYTES\<rparr>)"
proof (induction n)
  case 0
  show ?case by (simp add: Seed_def chain_def)
next
  case (Suc n)
  have "Suc n div 32 = (if Suc (n mod 32) = 32 then Suc (n div 32) else n div 32)"
    "Suc n mod 32 = (if Suc (n mod 32) = 32 then 0 else Suc (n mod 32))"
    by (simp_all add: div_Suc mod_Suc)
  with Suc show ?case
    using assms by (simp add: Next_uchar_def Let_def NUM_BYTES_def stream_byte_def chain_Suc)
qed

lemma Next_uchar_wf [inv_intros]:
  assumes "Next_uchar sha rnd = Some (b, rnd')" and "Random_wf rnd" and "\<And>x. uint256_wf (sha x)"
  shows "Random_wf rnd'"
  using assms by (auto simp: Next_uchar_def Random_wf_def Let_def split: if_splits)

section \<open>Bounded integers\<close>

fun draws :: "(byte list \<Rightarrow> uint256) \<Rightarrow> nat \<Rightarrow> Random \<Rightarrow> (u64 list \<times> Random) option" where
  "draws sha 0 rnd = Some ([], rnd)"
| "draws sha (Suc n) rnd = do {
     (x, rnd) \<leftarrow> Next_u64 sha rnd;
     (xs, rnd) \<leftarrow> draws sha n rnd;
     Some (x # xs, rnd)
   }"

definition first_below ::
  "(byte list \<Rightarrow> uint256) \<Rightarrow> u64 \<Rightarrow> Random \<Rightarrow> u64 list \<Rightarrow> u64 \<Rightarrow> Random \<Rightarrow> bool" where
  "first_below sha m rnd xs x rnd' \<longleftrightarrow>
     draws sha (Suc (length xs)) rnd = Some (xs @ [x], rnd') \<and> set xs \<subseteq> {y. m \<le> y} \<and> x < m"

lemma first_below_Nil: "first_below sha m rnd [] x rnd' \<longleftrightarrow> Next_u64 sha rnd = Some (x, rnd') \<and> x < m"
  by (auto simp: first_below_def split: bind_splits)

lemma first_below_Cons:
  "first_below sha m rnd (y # xs) x rnd' \<longleftrightarrow>
     (\<exists>rnd1. Next_u64 sha rnd = Some (y, rnd1) \<and> m \<le> y \<and> first_below sha m rnd1 xs x rnd')"
  unfolding first_below_def by (auto simp del: draws.simps(2) simp: draws.simps(2) [of sha "Suc (length xs)"]
      split: bind_splits)

lemma NextInt_loop_Some:
  "NextInt_loop sha n m rnd = Some res \<Longrightarrow>
     \<exists>xs x. first_below sha m rnd xs x (snd res) \<and> fst res = ucast (x mod ucast n)"
proof (induction rule: NextInt_loop.raw_induct [rotated 1, consumes 1])
  case (1 loop sha n m rnd res)
  from "1"(2) obtain x rnd1 where x: "Next_u64 sha rnd = Some (x, rnd1)"
    and r: "(if x < m then Some (ucast (x mod ucast n), rnd1) else loop sha n m rnd1) = Some res"
    by (auto split: bind_splits simp del: fst_conv snd_conv) (metis fst_conv snd_conv)
  show ?case
  proof (cases "x < m")
    case True
    with x r show ?thesis
      by (intro exI [of _ "[]"] exI [of _ x]) (auto simp: first_below_Nil)
  next
    case False
    with r "1"(1) [of sha n m rnd1 res] obtain xs y
      where "first_below sha m rnd1 xs y (snd res)" "fst res = ucast (y mod ucast n)"
      by auto
    with x False show ?thesis
      by (intro exI [of _ "x # xs"] exI [of _ y]) (auto simp: first_below_Cons)
  qed
qed

lemma NextInt_loop_returns:
  "first_below sha m rnd xs x rnd' \<Longrightarrow>
     NextInt_loop sha n m rnd = Some (ucast (x mod ucast n), rnd')"
proof (induction xs arbitrary: rnd)
  case Nil
  then show ?case
    by (subst NextInt_loop.simps) (simp add: first_below_Nil)
next
  case (Cons y xs)
  then show ?case
    by (subst NextInt_loop.simps) (auto simp: first_below_Cons)
qed

text \<open>
  C34: \<open>NextInt\<close> returns exactly when its stream of 64-bit numbers reaches one below the rejection
  bound, and then its result is the remainder of the first such number, all numbers before it being
  consumed.
\<close>

theorem NextInt_correct:
  "NextInt sha n rnd = Some (r, rnd') \<longleftrightarrow>
     0 < n \<and> (\<exists>xs x. draws sha (Suc (length xs)) rnd = Some (xs @ [x], rnd')
       \<and> set xs \<subseteq> {y. reroll_bound n \<le> y} \<and> x < reroll_bound n \<and> r = ucast (x mod ucast n))"
proof -
  have "NextInt_loop sha n (reroll_bound n) rnd = Some (r, rnd') \<longleftrightarrow>
      (\<exists>xs x. first_below sha (reroll_bound n) rnd xs x rnd' \<and> r = ucast (x mod ucast n))"
    using NextInt_loop_Some [of sha n "reroll_bound n" rnd "(r, rnd')"]
    by (auto simp: NextInt_loop_returns)
  then show ?thesis
    unfolding first_below_def by (simp add: NextInt_def del: draws.simps)
qed

text \<open>
  The rejection makes the remainders equally likely: every value below \<open>n\<close> is the remainder of
  the same number of accepted 64-bit numbers, and fewer than \<open>n + 1\<close> of the \<open>2 ^ 64\<close> numbers are
  rejected.
\<close>

lemma card_residues:
  fixes F N R :: nat
  assumes "R < N"
  shows "card {k. k < F * N \<and> k mod N = R} = F"
proof -
  have "{k. k < F * N \<and> k mod N = R} = (\<lambda>q. q * N + R) ` {..<F}" (is "?A = ?B")
  proof
    show "?A \<subseteq> ?B"
    proof
      fix k
      assume "k \<in> ?A"
      then have "k = (k div N) * N + R" "k div N < F"
        by (auto simp: less_mult_imp_div_less)
      then show "k \<in> ?B" by blast
    qed
    have "q * N + R < F * N" if "q < F" for q
    proof -
      have "q * N + R < Suc q * N" using assms by simp
      also have "\<dots> \<le> F * N" using that by (intro mult_right_mono) auto
      finally show ?thesis .
    qed
    then show "?B \<subseteq> ?A" using assms by auto
  qed
  moreover have "inj_on (\<lambda>q. q * N + R) {..<F}"
    using assms by (auto intro: inj_onI)
  ultimately show ?thesis by (simp add: card_image)
qed

lemma reroll_nat:
  assumes "0 < n"
  shows "unat (reroll_factor n) = (2 ^ 64 - 1) div unat n"
    and "unat (reroll_bound n) = ((2 ^ 64 - 1) div unat n) * unat n"
    and "unat (ucast n :: u64) = unat n"
proof -
  show n: "unat (ucast n :: u64) = unat n"
    by (rule unat_ucast_u32_u64)
  show f: "unat (reroll_factor n) = (2 ^ 64 - 1) div unat n"
    by (simp add: reroll_factor_def unat_div n unat_max_u64)
  have "((2 ^ 64 - 1) div unat n) * unat n < 2 ^ 64"
    by (rule le_less_trans [OF div_times_less_eq_dividend]) simp
  then show "unat (reroll_bound n) = ((2 ^ 64 - 1) div unat n) * unat n"
    by (simp add: reroll_bound_def unat_word_ariths f n)
qed

lemma remainder_u32:
  assumes "0 < (n :: u32)"
  shows "(ucast (x mod ucast n :: u64) :: u32) = r \<longleftrightarrow> unat x mod unat n = unat r"
proof -
  have "unat x mod unat n < unat n"
    using assms by (simp add: word_less_nat_alt)
  also have "\<dots> < 2 ^ 32"
    by (rule unat_u32_less)
  finally have "unat (ucast (x mod ucast n :: u64) :: u32) = unat x mod unat n"
    using unat_ucast_u32_u64 [of n] by (subst unsigned_ucast_eq) (simp add: unat_mod take_bit_nat_eq_self)
  then show ?thesis
    by (metis word_unat_eq_iff)
qed

lemma NextInt_uniform:
  assumes "r < n"
  shows "card {x. x < reroll_bound n \<and> ucast (x mod ucast n) = r} = unat (reroll_factor n)
    \<and> card {x. reroll_bound n \<le> x} \<le> unat n"
proof
  have n: "0 < n" and rn: "unat r < unat n"
    using assms by (auto simp: word_less_nat_alt)
  let ?F = "(2 ^ 64 - 1) div unat n" and ?N = "unat n"
  have bound: "?F * ?N < 2 ^ 64"
    by (rule le_less_trans [OF div_times_less_eq_dividend]) simp
  have set_eq: "{x :: u64. P (unat x)} = of_nat ` {k. k < 2 ^ 64 \<and> P k}" for P
  proof safe
    fix x :: u64
    assume "P (unat x)"
    then show "x \<in> of_nat ` {k. k < 2 ^ 64 \<and> P k}"
      using unsigned_less [of x, where ?'a = nat] by (intro image_eqI [of _ _ "unat x"]) auto
  qed (auto simp: unat_of_nat)
  have inj: "inj_on (of_nat :: nat \<Rightarrow> u64) {k. k < 2 ^ 64 \<and> P k}" for P
    by (rule inj_on_inverseI [where g = unat]) (simp add: unat_of_nat)
  have card: "card {x :: u64. P (unat x)} = card {k. k < 2 ^ 64 \<and> P k}" for P
    unfolding set_eq by (rule card_image [OF inj])
  have "{k. k < 2 ^ 64 \<and> k < ?F * ?N \<and> k mod ?N = unat r} = {k. k < ?F * ?N \<and> k mod ?N = unat r}"
    using bound by auto
  then show "card {x. x < reroll_bound n \<and> ucast (x mod ucast n) = r} = unat (reroll_factor n)"
    using card [of "\<lambda>k. k < ?F * ?N \<and> k mod ?N = unat r"] card_residues [OF rn, of ?F]
    by (simp add: word_less_nat_alt reroll_nat [OF n] remainder_u32 [OF n])
  have "{k. k < 2 ^ 64 \<and> ?F * ?N \<le> k} = {?F * ?N ..< 2 ^ 64}" by auto
  moreover have "2 ^ 64 - ?F * ?N \<le> ?N"
    using minus_mod_eq_div_mult [of "2 ^ 64 - 1" ?N] mod_less_divisor [of ?N "2 ^ 64 - 1"] rn by linarith
  ultimately show "card {x. reroll_bound n \<le> x} \<le> unat n"
    using card [of "\<lambda>k. ?F * ?N \<le> k"] by (simp add: word_le_nat_alt reroll_nat [OF n])
qed

lemma NextInt_less:
  assumes "NextInt sha n rnd = Some (r, rnd')"
  shows "r < n"
proof -
  from assms obtain x where "r = ucast (x mod ucast n :: u64)" and n: "0 < n"
    using NextInt_loop_Some [of sha n "reroll_bound n" rnd "(r, rnd')"]
    by (auto simp: NextInt_def split: if_splits)
  then have "unat r = unat x mod unat n"
    using remainder_u32 [OF n, of x r] by simp
  with n show ?thesis
    by (simp add: word_less_nat_alt)
qed

section \<open>Weighted choice\<close>

definition weight_sum :: "u32 list \<Rightarrow> nat" where
  "weight_sum ws = sum_list (map unat ws)"

lemma weight_sum_simps [simp]:
  "weight_sum [] = 0" "weight_sum (w # ws) = unat w + weight_sum ws"
  by (simp_all add: weight_sum_def)

lemma select_roll_spec:
  "unat roll < weight_sum ws \<Longrightarrow>
     \<exists>j < length ws. select_roll roll ws i = Some (i + j)
       \<and> weight_sum (take j ws) \<le> unat roll \<and> unat roll < weight_sum (take (Suc j) ws)"
proof (induction ws arbitrary: roll i)
  case (Cons w ws)
  show ?case
  proof (cases "roll < w")
    case True
    then show ?thesis by (auto simp: word_less_nat_alt intro!: exI [of _ 0])
  next
    case False
    then have sub: "unat (roll - w) = unat roll - unat w" and le: "unat w \<le> unat roll"
      by (simp_all add: unat_sub word_le_nat_alt not_less)
    with Cons.prems have "unat (roll - w) < weight_sum ws" by simp
    from Cons.IH [OF this, of "i + 1"] obtain j where "j < length ws"
      "select_roll (roll - w) ws (i + 1) = Some (i + 1 + j)"
      "weight_sum (take j ws) \<le> unat (roll - w)" "unat (roll - w) < weight_sum (take (Suc j) ws)"
      by blast
    with False sub le show ?thesis
      by (intro exI [of _ "Suc j"]) auto
  qed
qed simp

lemma unat_totalWeights_foldl:
  assumes "unat t + weight_sum ws < 2 ^ 64"
  shows "unat (foldl (\<lambda>t w. t + ucast w) (t :: u64) ws) = unat t + weight_sum ws"
  using assms
proof (induction ws arbitrary: t)
  case (Cons w ws)
  have w: "unat (ucast w :: u64) = unat w"
    by (rule unat_ucast_u32_u64)
  with Cons.prems have "unat (t + ucast w) = unat t + unat w"
    by (simp add: unat_word_ariths)
  with Cons show ?case by simp
qed simp

text \<open>
  when the weights fit into 32 bits and are not all zero, \<open>SelectByWeight\<close> returns whenever its
  roll does, never reaches its fatal error, and returns the option whose range of the roll (of the size
  of its weight, so never an option of weight zero) contains the roll.
\<close>

lemma SelectByWeight_correct:
  assumes "0 < weight_sum ws" and "weight_sum ws < 2 ^ 32"
    and roll: "NextInt sha (of_nat (weight_sum ws)) rnd = Some (roll, rnd')"
  shows "\<exists>j < length ws. SelectByWeight sha ws rnd = Some (j, rnd')
    \<and> weight_sum (take j ws) \<le> unat roll \<and> unat roll < weight_sum (take j ws) + unat (ws ! j)"
proof -
  have t: "unat (totalWeights ws) = weight_sum ws"
    using unat_totalWeights_foldl [of 0 ws] assms(2) by (simp add: totalWeights_def)
  have u: "(ucast (totalWeights ws) :: u32) = of_nat (weight_sum ws)"
    unfolding t [symmetric] by simp
  have "totalWeights ws \<le> ucast (- 1 :: u32)"
    using assms(2) t unat_ucast_u32_u64 [of "- 1"] by (simp add: word_le_nat_alt unat_max_u32)
  moreover have "unat roll < weight_sum ws"
    using NextInt_less [OF roll] assms(2) by (simp add: word_less_nat_alt unat_of_nat)
  then obtain j where j: "j < length ws" "select_roll roll ws 0 = Some j"
    "weight_sum (take j ws) \<le> unat roll" "unat roll < weight_sum (take (Suc j) ws)"
    using select_roll_spec [of roll ws 0] by auto
  moreover have "weight_sum (take (Suc j) ws) = weight_sum (take j ws) + unat (ws ! j)"
    using j(1) by (simp add: take_Suc_conv_app_nth weight_sum_def)
  ultimately show ?thesis
    using roll by (intro exI [of _ j]) (simp add: SelectByWeight_def u)
qed

section \<open>Shuffling\<close>

lemma swap_at_length [simp]: "length (swap_at i j xs) = length xs"
  by (simp add: swap_at_def)

lemma mset_swap_at: "i < length xs \<Longrightarrow> j < length xs \<Longrightarrow> mset (swap_at i j xs) = mset xs"
  by (simp add: swap_at_def mset_swap)

lemma take_swap_at: "k \<le> i \<Longrightarrow> k \<le> j \<Longrightarrow> take k (swap_at i j xs) = take k xs"
  by (simp add: swap_at_def)

text \<open>
  A shuffle that returns has permuted the range, and it has left the elements before its start
  where they were.
\<close>

lemma ShuffleN_permutes:
  "ShuffleN sha pos n xs rnd = Some (ys, rnd') \<Longrightarrow> length xs < 2 ^ 32 \<Longrightarrow>
     mset ys = mset xs \<and> take pos ys = take pos xs"
proof (induction sha pos n xs rnd rule: ShuffleN.induct)
  case (2 sha pos n xs rnd)
  show ?case
  proof (cases "length xs \<le> pos + 1")
    case False
    with "2.prems" obtain k rnd1
      where k: "NextInt sha (of_nat (length xs - pos)) rnd = Some (k, rnd1)"
        and s: "ShuffleN sha (pos + 1) n
          (if pos + unat k \<noteq> pos then swap_at pos (pos + unat k) xs else xs) rnd1 = Some (ys, rnd')"
      by (auto simp: Let_def split: bind_splits)
    let ?xs = "if pos + unat k \<noteq> pos then swap_at pos (pos + unat k) xs else xs"
    have "unat k < length xs - pos"
      using NextInt_less [OF k] "2.prems"(2) by (simp add: word_less_nat_alt unat_of_nat)
    then have xs: "mset ?xs = mset xs" "take pos ?xs = take pos xs" "length ?xs = length xs"
      using False by (auto simp: mset_swap_at take_swap_at)
    have "mset ys = mset ?xs \<and> take (pos + 1) ys = take (pos + 1) ?xs"
      using "2.IH" [OF False k refl refl refl s] xs(3) "2.prems"(2) by simp
    then show ?thesis
      using xs by (metis take_take le_add1 min.absorb1)
  qed (use "2.prems" in simp)
qed simp

end
