(* ===== verification/Board.thy ===== *)
theory Board
  imports Fleet Rng Messages Json
begin

text \<open>
  The board rules of the ships game (\<open>ships/board.cpp\<close>, \<open>ships/board.hpp\<close>): the board state, its
  phase, validity and turn count, and the five moves.  SHA-256 is the parameter \<open>sha\<close>.

  Operations that only abort on a failed \<open>CHECK\<close> return an option; the moves return a result whose
  \<open>Inl Rejected\<close> is the \<open>false\<close> of the C++ code.  The state that a rejected move leaves behind is
  discarded by every caller and is not kept.
\<close>

section \<open>Messages\<close>

record KnownShips =
  guessed :: "u64 option"
  hits :: "u64 option"

record BoardState =
  turn :: "u32 option"
  position_hashes :: "byte list list"
  seed_hash_0 :: "byte list option"
  seed_1 :: "byte list option"
  known_ships :: "KnownShips list"
  current_shot :: "u32 option"
  positions :: "u64 list"
  winner :: "u32 option"

record PositionCommitmentMove =
  position_hash :: "byte list option"
  seed_hash :: "byte list option"
  pc_seed :: "byte list option"

record SeedRevealMove =
  sr_seed :: "byte list option"

record ShotMove =
  location :: "u32 option"

datatype ReplyType = REPLY_INVALID | HIT | MISS

record ReplyMove =
  reply :: "ReplyType option"

record PositionRevealMove =
  position :: "u64 option"
  salt :: "byte list option"

datatype BoardMove =
    kPositionCommitment PositionCommitmentMove
  | kSeedReveal SeedRevealMove
  | kShot ShotMove
  | kReply ReplyMove
  | kPositionReveal PositionRevealMove
  | MOVE_NOT_SET

datatype Phase =
    INVALID | FIRST_COMMITMENT | SECOND_COMMITMENT | FIRST_REVEAL_SEED
  | SHOOT | ANSWER | SECOND_REVEAL_POSITION | FINISHED

record ShipsBoardState =
  GetMetadata :: ChannelMetadata
  GetState :: BoardState

section \<open>Phase, validity, turns\<close>

definition CheckHashValue :: "uint256 \<Rightarrow> byte list \<Rightarrow> bool" where
  "CheckHashValue actual expected =
     (if length expected \<noteq> NUM_BYTES then False else GetBinaryString actual = expected)"

definition GetPhase :: "BoardState \<Rightarrow> Phase" where
  "GetPhase pb =
    (if winner pb \<noteq> None then FINISHED
     else if length (position_hashes pb) = 0 then FIRST_COMMITMENT
     else if length (position_hashes pb) = 1 then SECOND_COMMITMENT
     else if length (position_hashes pb) \<noteq> 2 then INVALID
     else if length (known_ships pb) = 0 then FIRST_REVEAL_SEED
     else if length (known_ships pb) \<noteq> 2 then INVALID
     else if length (positions pb) = 2 then SECOND_REVEAL_POSITION
     else if length (positions pb) \<noteq> 0 then INVALID
     else if current_shot pb \<noteq> None then ANSWER
     else SHOOT)"

definition IsValid_turn :: "Phase \<Rightarrow> BoardState \<Rightarrow> int \<Rightarrow> bool option" where
  "IsValid_turn phase pb t = (case phase of
     FIRST_COMMITMENT \<Rightarrow> Some (t = 0)
   | FIRST_REVEAL_SEED \<Rightarrow> Some (t = 0)
   | SECOND_COMMITMENT \<Rightarrow> Some (t = 1)
   | SHOOT \<Rightarrow> Some True
   | ANSWER \<Rightarrow> Some True
   | SECOND_REVEAL_POSITION \<Rightarrow> do {
       check (length (positions pb) = 2);
       let otherTurn = 1 - t;
       mine \<leftarrow> nth_opt (positions pb) (nat t);
       other \<leftarrow> nth_opt (positions pb) (nat otherTurn);
       Some (\<not> (mine \<noteq> 0 \<or> other = 0))
     }
   | _ \<Rightarrow> None)"

definition IsValid :: "ShipsBoardState \<Rightarrow> bool option" where
  "IsValid s =
    (if participants_size (GetMetadata s) = 1 then Some True
     else do {
       check (participants_size (GetMetadata s) = 2);
       let pb = GetState s;
       let phase = GetPhase pb;
       if phase = INVALID then Some False
       else if turn pb = None \<or> phase = FINISHED
         then Some (turn pb = None \<and> phase = FINISHED)
       else do {
         let t = sint (get_or 0 (turn pb));
         if t < 0 \<or> t > 1 then Some False
         else IsValid_turn phase pb t
       }
     })"

definition WhoseTurn :: "ShipsBoardState \<Rightarrow> int option" where
  "WhoseTurn s =
    (if participants_size (GetMetadata s) = 1 then Some NO_TURN
     else case turn (GetState s) of
       None \<Rightarrow> Some NO_TURN
     | Some t \<Rightarrow> do {
         let res = sint t;
         check (res \<ge> 0);
         check (res \<le> 1);
         Some res
       })"

definition count_shots :: "KnownShips list \<Rightarrow> u32" where
  "count_shots ks = foldl (\<lambda>shots known. shots + of_int (CountOnes (get_or 0 (guessed known)))) 0 ks"

definition count_positions :: "u64 list \<Rightarrow> u32 \<Rightarrow> u32" where
  "count_positions ps cnt = foldl (\<lambda>cnt p. if (ucast p :: u32) \<noteq> 0 then cnt + 1 else cnt) cnt ps"

definition TurnCount :: "ShipsBoardState \<Rightarrow> u32 option" where
  "TurnCount s =
    (if participants_size (GetMetadata s) = 1 then Some 0
     else
       let pb = GetState s;
           shots = count_shots (known_ships pb);
           ended = (let cnt = 4 + 2 * shots;
                        cnt = (if current_shot pb \<noteq> None then cnt - 1 else cnt)
                    in Some (count_positions (positions pb) cnt))
       in case GetPhase pb of
         FIRST_COMMITMENT \<Rightarrow> Some 1
       | SECOND_COMMITMENT \<Rightarrow> Some 2
       | FIRST_REVEAL_SEED \<Rightarrow> Some 3
       | SHOOT \<Rightarrow> Some (4 + 2 * shots)
       | ANSWER \<Rightarrow> Some (4 + 2 * shots - 1)
       | SECOND_REVEAL_POSITION \<Rightarrow> ended
       | FINISHED \<Rightarrow> ended
       | INVALID \<Rightarrow> None)"

section \<open>Moves\<close>

definition ApplyPositionCommitment ::
  "PositionCommitmentMove \<Rightarrow> Phase \<Rightarrow> BoardState \<Rightarrow> BoardState res" where
  "ApplyPositionCommitment mv phase newState =
    (if length (get_or [] (position_hash mv)) \<noteq> NUM_BYTES then Inl Rejected
     else if phase = FIRST_COMMITMENT then
       (if length (get_or [] (seed_hash mv)) \<noteq> NUM_BYTES then Inl Rejected
        else if pc_seed mv \<noteq> None then Inl Rejected
        else
          let newState = newState\<lparr>turn := Some 1\<rparr>;
              newState = newState\<lparr>position_hashes :=
                position_hashes newState @ [get_or [] (position_hash mv)]\<rparr>
          in if length (position_hashes newState) \<noteq> 1 then Inl CheckFailed
             else Inr (newState\<lparr>seed_hash_0 := Some (get_or [] (seed_hash mv))\<rparr>))
     else if phase = SECOND_COMMITMENT then
       (if seed_hash mv \<noteq> None then Inl Rejected
        else if length (get_or [] (pc_seed mv)) > NUM_BYTES then Inl Rejected
        else
          let newState = newState\<lparr>turn := Some 0\<rparr>;
              newState = newState\<lparr>position_hashes :=
                position_hashes newState @ [get_or [] (position_hash mv)]\<rparr>
          in if length (position_hashes newState) \<noteq> 2 then Inl CheckFailed
             else Inr (newState\<lparr>seed_1 := Some (get_or [] (pc_seed mv))\<rparr>))
     else Inl Rejected)"

definition ApplySeedReveal ::
  "(byte list \<Rightarrow> uint256) \<Rightarrow> SeedRevealMove \<Rightarrow> Phase \<Rightarrow> BoardState \<Rightarrow> BoardState res" where
  "ApplySeedReveal sha mv phase newState =
    (let s = get_or [] (sr_seed mv) in
     if phase \<noteq> FIRST_REVEAL_SEED then Inl Rejected
     else if length s > NUM_BYTES then Inl Rejected
     else if \<not> CheckHashValue (sha s) (get_or [] (seed_hash_0 newState)) then Inl Rejected
     else rbind (orFatal (Next_bool sha (Seed (sha (s @ get_or [] (seed_1 newState)))))) (\<lambda>(b, rnd).
       let newState = newState\<lparr>turn := Some (if b then 1 else 0)\<rparr>;
           newState = newState\<lparr>seed_hash_0 := None, seed_1 := None\<rparr>
       in Inr (newState\<lparr>known_ships := known_ships newState
            @ replicate 2 \<lparr>guessed = Some 0, hits = Some 0\<rparr>\<rparr>)))"

definition ApplyShot :: "ShotMove \<Rightarrow> Phase \<Rightarrow> BoardState \<Rightarrow> BoardState res" where
  "ApplyShot mv phase newState =
    (if phase \<noteq> SHOOT then Inl Rejected
     else case location mv of
       None \<Rightarrow> Inl Rejected
     | Some loc \<Rightarrow>
       let target = coord_of_index (sint loc) in
       if \<not> IsOnBoard target then Inl Rejected
       else
         let otherPlayer = sint (1 - get_or 0 (turn newState)) in
         if \<not> (0 \<le> otherPlayer \<and> otherPlayer \<le> 1) then Inl CheckFailed
         else
           rbind (orFatal (nth_opt (known_ships newState) (nat otherPlayer))) (\<lambda>ks.
           rbind (orFatal (Get (get_or 0 (guessed ks)) target)) (\<lambda>already.
           if already then Inl Rejected
           else
             rbind (orFatal (Set (get_or 0 (guessed ks)) target)) (\<lambda>bits.
             rbind (orFatal (GetIndex target)) (\<lambda>ind.
             Inr (newState\<lparr>turn := Some (of_int otherPlayer),
                           current_shot := Some (of_int ind),
                           known_ships := (known_ships newState)
                             [nat otherPlayer := ks\<lparr>guessed := Some bits\<rparr>]\<rparr>))))))"

definition ApplyReply :: "ReplyMove \<Rightarrow> Phase \<Rightarrow> BoardState \<Rightarrow> BoardState res" where
  "ApplyReply mv phase newState =
    (if phase \<noteq> ANSWER then Inl Rejected
     else case reply mv of
       None \<Rightarrow> Inl Rejected
     | Some r \<Rightarrow>
       (case current_shot newState of
          None \<Rightarrow> Inl CheckFailed
        | Some shot \<Rightarrow>
          let target = coord_of_index (sint shot) in
          if \<not> IsOnBoard target then Inl Rejected
          else
            let newState = newState\<lparr>current_shot := None\<rparr>;
                t = get_or 0 (turn newState)
            in case r of
              HIT \<Rightarrow>
                rbind (orFatal (nth_opt (known_ships newState) (unat t))) (\<lambda>ks.
                rbind (orFatal (Get (get_or 0 (hits ks)) target)) (\<lambda>known.
                if known then Inl Rejected
                else
                  rbind (orFatal (Set (get_or 0 (hits ks)) target)) (\<lambda>bits.
                  Inr (newState\<lparr>known_ships := (known_ships newState)[unat t := ks\<lparr>hits := Some bits\<rparr>],
                                turn := Some (1 - t)\<rparr>))))
            | MISS \<Rightarrow> Inr newState
            | REPLY_INVALID \<Rightarrow> Inl Rejected))"

text \<open>
  The position reveal in the order of the C++ code: recording the position, checking it against the
  ships and the answers, the winner of a first reveal, the winner of a second one, and the end.
\<close>

definition record_position :: "u64 \<Rightarrow> u32 \<Rightarrow> BoardState \<Rightarrow> BoardState option" where
  "record_position g t newState = do {
     let newState = (if length (positions newState) = 0
                     then newState\<lparr>positions := [0, 0]\<rparr> else newState);
     check (length (positions newState) = 2);
     old \<leftarrow> nth_opt (positions newState) (unat t);
     check (old = 0);
     Some (newState\<lparr>positions := (positions newState)[unat t := g],
                    position_hashes := (position_hashes newState)[unat t := []]\<rparr>)
   }"

definition check_position :: "u64 \<Rightarrow> u32 \<Rightarrow> int \<Rightarrow> BoardState \<Rightarrow> BoardState res" where
  "check_position g t otherPlayer newState =
    rbind (orFatal (VerifyPositionOfShips g)) (\<lambda>ok.
    if \<not> ok then Inr (newState\<lparr>winner := Some (of_int otherPlayer)\<rparr>)
    else
      rbind (orFatal (nth_opt (known_ships newState) (unat t))) (\<lambda>known.
      let kh = get_or 0 (hits known); kg = get_or 0 (guessed known) in
      if kh AND NOT kg \<noteq> 0 then Inl Rejected
      else
        rbind (orFatal (VerifyPositionForAnswers g kg kh)) (\<lambda>ok.
        if \<not> ok then Inr (newState\<lparr>winner := Some (of_int otherPlayer)\<rparr>) else Inr newState)))"

definition first_reveal_winner :: "Phase \<Rightarrow> u32 \<Rightarrow> int \<Rightarrow> BoardState \<Rightarrow> BoardState res" where
  "first_reveal_winner phase t otherPlayer newState =
    (if winner newState = None \<and> phase \<noteq> SECOND_REVEAL_POSITION then
       rbind (orFatal (nth_opt (known_ships newState) (nat otherPlayer))) (\<lambda>ks.
       if CountOnes (get_or 0 (hits ks)) \<ge> TotalShipCells
       then Inr (newState\<lparr>winner := Some t\<rparr>) else Inr newState)
     else Inr newState)"

definition second_reveal_winner :: "Phase \<Rightarrow> u32 \<Rightarrow> BoardState \<Rightarrow> BoardState" where
  "second_reveal_winner phase t newState =
    (if winner newState = None \<and> phase = SECOND_REVEAL_POSITION
     then newState\<lparr>winner := Some t\<rparr> else newState)"

definition finish_reveal :: "Phase \<Rightarrow> int \<Rightarrow> BoardState \<Rightarrow> BoardState res" where
  "finish_reveal phase otherPlayer newState =
    (if winner newState \<noteq> None
     then Inr (newState\<lparr>turn := None, position_hashes := map (\<lambda>_. []) (position_hashes newState)\<rparr>)
     else if phase = SECOND_REVEAL_POSITION then Inl CheckFailed
     else Inr (newState\<lparr>turn := Some (of_int otherPlayer)\<rparr>))"

definition ApplyPositionReveal ::
  "(byte list \<Rightarrow> uint256) \<Rightarrow> PositionRevealMove \<Rightarrow> Phase \<Rightarrow> BoardState \<Rightarrow> BoardState res" where
  "ApplyPositionReveal sha mv phase newState =
    (if \<not> (phase = SHOOT \<or> phase = ANSWER \<or> phase = SECOND_REVEAL_POSITION) then Inl Rejected
     else case position mv of
       None \<Rightarrow> Inl Rejected
     | Some g \<Rightarrow>
       if length (get_or [] (salt mv)) > NUM_BYTES then Inl Rejected
       else
         let t = get_or 0 (turn newState) in
         rbind (orFatal (Blob g)) (\<lambda>blob.
         rbind (orFatal (nth_opt (position_hashes newState) (unat t))) (\<lambda>ph.
         if \<not> CheckHashValue (sha (blob @ get_or [] (salt mv))) ph then Inl Rejected
         else
           rbind (orFatal (record_position g t newState)) (\<lambda>newState.
           let otherPlayer = sint (1 - t) in
           if \<not> (0 \<le> otherPlayer \<and> otherPlayer \<le> 1) then Inl CheckFailed
           else
             rbind (check_position g t otherPlayer newState) (\<lambda>newState.
             rbind (first_reveal_winner phase t otherPlayer newState) (\<lambda>newState.
             finish_reveal phase otherPlayer (second_reveal_winner phase t newState)))))))"

definition ApplyMoveProto ::
  "(byte list \<Rightarrow> uint256) \<Rightarrow> ShipsBoardState \<Rightarrow> BoardMove \<Rightarrow> BoardState res" where
  "ApplyMoveProto sha s mv =
    (let newState = GetState s in
     rbind (orFatal (WhoseTurn s)) (\<lambda>t.
     if t = NO_TURN then Inl CheckFailed
     else
       let phase = GetPhase (GetState s) in
       case mv of
         kPositionCommitment m \<Rightarrow> ApplyPositionCommitment m phase newState
       | kSeedReveal m \<Rightarrow> ApplySeedReveal sha m phase newState
       | kShot m \<Rightarrow> ApplyShot m phase newState
       | kReply m \<Rightarrow> ApplyReply m phase newState
       | kPositionReveal m \<Rightarrow> ApplyPositionReveal sha m phase newState
       | MOVE_NOT_SET \<Rightarrow> Inl Rejected))"

definition InitialBoardState :: BoardState where
  "InitialBoardState =
    \<lparr>turn = Some 0, position_hashes = [], seed_hash_0 = None, seed_1 = None, known_ships = [],
     current_shot = None, positions = [], winner = None\<rparr>"

section \<open>The JSON form\<close>

definition phase_string :: "Phase \<Rightarrow> string option" where
  "phase_string phase = (case phase of
     FIRST_COMMITMENT \<Rightarrow> Some ''first commitment''
   | SECOND_COMMITMENT \<Rightarrow> Some ''second commitment''
   | FIRST_REVEAL_SEED \<Rightarrow> Some ''first reveal seed''
   | SHOOT \<Rightarrow> Some ''shoot''
   | ANSWER \<Rightarrow> Some ''answer''
   | SECOND_REVEAL_POSITION \<Rightarrow> Some ''second reveal position''
   | FINISHED \<Rightarrow> Some ''finished''
   | INVALID \<Rightarrow> None)"

definition position_json :: "u64 \<Rightarrow> json option" where
  "position_json p = (if p = 0 then Some JNull else map_option JString (ToString p))"

definition guess_char :: "u64 \<Rightarrow> u64 \<Rightarrow> coord \<Rightarrow> char option" where
  "guess_char g h cell = do {
     isHit \<leftarrow> Get h cell;
     isGuessed \<leftarrow> Get g cell;
     if isHit then do { check isGuessed; Some CHR ''x'' }
     else if isGuessed then Some CHR ''m''
     else Some CHR ''.''
   }"

definition guesses_json :: "KnownShips \<Rightarrow> json option" where
  "guesses_json ks = do {
     rows \<leftarrow> those (map (\<lambda>r. do {
       cs \<leftarrow> those (map (\<lambda>c. guess_char (get_or 0 (guessed ks)) (get_or 0 (hits ks))
                \<lparr>row = r, column = c\<rparr>) [0..SIDE - 1]);
       Some (cs @ [CHR 0x0A]) }) [0..SIDE - 1]);
     Some (JString (concat rows))
   }"

definition ToJson :: "ShipsBoardState \<Rightarrow> json option" where
  "ToJson s =
    (let base = JNull; pb = GetState s in
     if participants_size (GetMetadata s) = 1
     then json_set ''phase'' (JString ''single participant'') base
     else do {
       ph \<leftarrow> phase_string (GetPhase pb);
       j \<leftarrow> json_set ''phase'' (JString ph) base;
       j \<leftarrow> (case winner pb of None \<Rightarrow> Some j | Some w \<Rightarrow> json_set ''winner'' (JUInt (uint w)) j);
       j \<leftarrow> (if length (positions pb) > 0 then do {
               check (length (positions pb) = 2);
               ps \<leftarrow> those (map position_json (positions pb));
               json_set ''ships'' (JArray ps) j }
             else Some j);
       if length (known_ships pb) > 0 then do {
         check (length (known_ships pb) = 2);
         ks \<leftarrow> those (map guesses_json (known_ships pb));
         json_set ''guesses'' (JArray ks) j }
       else Some j
     })"

end
