(* ===== verification/BoardInv.thy ===== *)
theory BoardInv
  imports Board
begin

text \<open>
  Correctness of the ships board rules: the well-formedness of the states that occur in a game, that
  every accepted move keeps it and no move aborts, the turn count, the end of every game and the
  outcome of revealing a position.
\<close>

section \<open>Well-formed states\<close>

text \<open>The hits against a player are among the guesses against him.\<close>

definition bits_ok :: "KnownShips \<Rightarrow> bool" where
  "bits_ok ks \<longleftrightarrow> get_or 0 (hits ks) AND NOT (get_or 0 (guessed ks)) = 0"

text \<open>The shot that waits for its answer is a guess against the player who answers, and no hit yet.\<close>

definition pending_ok :: "BoardState \<Rightarrow> bool" where
  "pending_ok pb \<longleftrightarrow> (case current_shot pb of
     None \<Rightarrow> False
   | Some k \<Rightarrow> unat k < 64
      \<and> bit (get_or 0 (guessed (known_ships pb ! unat (get_or 0 (turn pb))))) (unat k)
      \<and> \<not> bit (get_or 0 (hits (known_ships pb ! unat (get_or 0 (turn pb))))) (unat k))"

definition turn_set :: "BoardState \<Rightarrow> bool" where
  "turn_set pb \<longleftrightarrow> turn pb = Some 0 \<or> turn pb = Some 1"

definition before_play :: "BoardState \<Rightarrow> bool" where
  "before_play pb \<longleftrightarrow> known_ships pb = [] \<and> positions pb = [] \<and> current_shot pb = None"

definition board_wf :: "BoardState \<Rightarrow> bool" where
  "board_wf pb \<longleftrightarrow> (case GetPhase pb of
     FIRST_COMMITMENT \<Rightarrow> turn pb = Some 0 \<and> before_play pb
   | SECOND_COMMITMENT \<Rightarrow> turn pb = Some 1 \<and> before_play pb
   | FIRST_REVEAL_SEED \<Rightarrow> turn pb = Some 0 \<and> before_play pb
   | SHOOT \<Rightarrow> turn_set pb \<and> list_all bits_ok (known_ships pb)
   | ANSWER \<Rightarrow> turn_set pb \<and> list_all bits_ok (known_ships pb) \<and> pending_ok pb
   | SECOND_REVEAL_POSITION \<Rightarrow> turn_set pb \<and> list_all bits_ok (known_ships pb)
       \<and> positions pb ! unat (get_or 0 (turn pb)) = 0
       \<and> positions pb ! (1 - unat (get_or 0 (turn pb))) \<noteq> 0
   | FINISHED \<Rightarrow> turn pb = None \<and> length (position_hashes pb) = 2
       \<and> length (known_ships pb) = 2 \<and> length (positions pb) = 2
       \<and> list_all bits_ok (known_ships pb) \<and> get_or 0 (winner pb) \<le> 1
   | INVALID \<Rightarrow> False)"

text \<open>What a phase says about the fields.\<close>

lemma phase_conv:
  "GetPhase pb = FINISHED \<longleftrightarrow> winner pb \<noteq> None"
  "GetPhase pb = FIRST_COMMITMENT \<longleftrightarrow> winner pb = None \<and> position_hashes pb = []"
  "GetPhase pb = SECOND_COMMITMENT \<longleftrightarrow> winner pb = None \<and> length (position_hashes pb) = 1"
  "GetPhase pb = FIRST_REVEAL_SEED \<longleftrightarrow> winner pb = None \<and> length (position_hashes pb) = 2 \<and> known_ships pb = []"
  "GetPhase pb = SECOND_REVEAL_POSITION \<longleftrightarrow>
     winner pb = None \<and> length (position_hashes pb) = 2 \<and> length (known_ships pb) = 2 \<and> length (positions pb) = 2"
  "GetPhase pb = ANSWER \<longleftrightarrow>
     winner pb = None \<and> length (position_hashes pb) = 2 \<and> length (known_ships pb) = 2 \<and> positions pb = []
       \<and> current_shot pb \<noteq> None"
  "GetPhase pb = SHOOT \<longleftrightarrow>
     winner pb = None \<and> length (position_hashes pb) = 2 \<and> length (known_ships pb) = 2 \<and> positions pb = []
       \<and> current_shot pb = None"
  by (auto simp: GetPhase_def)

lemma list_2E:
  assumes "length xs = 2"
  obtains a b where "xs = [a, b]"
  using assms by (auto simp: length_Suc_conv numeral_2_eq_2)

text \<open>The two players; the other one, and the C++ computation of his index.\<close>

lemma other_player [simp]:
  "sint (1 - (0 :: u32)) = 1" "sint (1 - (1 :: u32)) = 0"
  by simp_all

lemma turn_set_cases:
  assumes "turn_set pb"
  obtains "turn pb = Some 0" | "turn pb = Some 1"
  using assms by (auto simp: turn_set_def)

section \<open>Queries\<close>

definition two_players :: "ShipsBoardState \<Rightarrow> bool" where
  "two_players s \<longleftrightarrow> participants_size (GetMetadata s) = 2"

lemma IsValid_wf:
  assumes "two_players s" and "board_wf (GetState s)"
  shows "IsValid s = Some True"
proof -
  let ?pb = "GetState s"
  have p: "participants_size (GetMetadata s) = 2" "participants_size (GetMetadata s) \<noteq> 1"
    using assms(1) by (simp_all add: two_players_def)
  show ?thesis
  proof (cases "GetPhase ?pb")
    case SECOND_REVEAL_POSITION
    then have "length (positions ?pb) = 2" by (simp add: phase_conv)
    then obtain a b where ab: "positions ?pb = [a, b]" by (rule list_2E)
    from SECOND_REVEAL_POSITION assms(2) show ?thesis
      by (auto simp: IsValid_def p board_wf_def IsValid_turn_def ab turn_set_def)
  qed (use assms(2) in \<open>auto simp: IsValid_def p board_wf_def IsValid_turn_def turn_set_def\<close>)
qed

lemma WhoseTurn_wf:
  assumes "two_players s" and "board_wf (GetState s)"
  shows "WhoseTurn s = Some (if GetPhase (GetState s) = FINISHED then NO_TURN
                             else sint (get_or 0 (turn (GetState s))))"
  using assms
  by (cases "GetPhase (GetState s)")
    (auto simp: WhoseTurn_def two_players_def board_wf_def turn_set_def)

lemma turn_set_wf:
  "board_wf pb \<Longrightarrow> GetPhase pb \<noteq> FINISHED \<Longrightarrow> turn_set pb"
  by (cases "GetPhase pb") (auto simp: board_wf_def turn_set_def)

section \<open>Moves keep the states well-formed\<close>

lemma before_play_wf:
  "board_wf pb \<Longrightarrow> GetPhase pb = FIRST_COMMITMENT \<or> GetPhase pb = SECOND_COMMITMENT
     \<or> GetPhase pb = FIRST_REVEAL_SEED \<Longrightarrow> before_play pb"
  by (auto simp: board_wf_def)

lemma commitment_effect:
  assumes "board_wf pb" and "ApplyPositionCommitment m (GetPhase pb) pb = Inr pb'"
  shows "before_play pb' \<and>
    (GetPhase pb = FIRST_COMMITMENT \<and> GetPhase pb' = SECOND_COMMITMENT \<and> turn pb' = Some 1
     \<or> GetPhase pb = SECOND_COMMITMENT \<and> GetPhase pb' = FIRST_REVEAL_SEED \<and> turn pb' = Some 0)"
proof -
  have "GetPhase pb = FIRST_COMMITMENT \<or> GetPhase pb = SECOND_COMMITMENT"
    using assms(2) by (auto simp: ApplyPositionCommitment_def split: if_splits)
  moreover from this before_play_wf [OF assms(1)] have "before_play pb" by blast
  ultimately show ?thesis
    using assms(2)
    by (auto simp: ApplyPositionCommitment_def Let_def phase_conv before_play_def split: if_splits)
qed

lemma commitment_wf:
  assumes "board_wf pb"
  shows "ApplyPositionCommitment m (GetPhase pb) pb \<noteq> Inl CheckFailed"
    and "ApplyPositionCommitment m (GetPhase pb) pb = Inr pb' \<Longrightarrow> board_wf pb'"
proof -
  have "GetPhase pb = FIRST_COMMITMENT \<Longrightarrow> position_hashes pb = []"
    "GetPhase pb = SECOND_COMMITMENT \<Longrightarrow> length (position_hashes pb) = 1"
    by (simp_all add: phase_conv)
  then show "ApplyPositionCommitment m (GetPhase pb) pb \<noteq> Inl CheckFailed"
    by (auto simp: ApplyPositionCommitment_def Let_def)
  show "ApplyPositionCommitment m (GetPhase pb) pb = Inr pb' \<Longrightarrow> board_wf pb'"
    by (drule commitment_effect [OF assms]) (auto simp: board_wf_def)
qed

text \<open>The hash function, as far as the moves rely on it: 32 bytes, and never the null value.\<close>

definition sha_ok :: "(byte list \<Rightarrow> uint256) \<Rightarrow> bool" where
  "sha_ok sha \<longleftrightarrow> (\<forall>x. uint256_wf (sha x) \<and> \<not> IsNull (sha x))"

lemma Next_bool_Seed:
  assumes "sha_ok sha"
  obtains b rnd where "Next_bool sha (Seed (sha x)) = Some (b, rnd)"
  using assms by (auto simp: Next_bool_def Next_uchar_def Seed_def sha_ok_def NUM_BYTES_def Let_def
      split: bind_splits if_splits)

lemma seed_reveal_effect:
  assumes "board_wf pb" and "ApplySeedReveal sha m (GetPhase pb) pb = Inr pb'"
  shows "GetPhase pb = FIRST_REVEAL_SEED \<and> GetPhase pb' = SHOOT \<and> turn_set pb'
    \<and> known_ships pb' = replicate 2 \<lparr>guessed = Some 0, hits = Some 0\<rparr>"
proof -
  have ph: "GetPhase pb = FIRST_REVEAL_SEED"
    using assms(2) by (simp add: ApplySeedReveal_def Let_def split: if_splits)
  with before_play_wf [OF assms(1)] have "before_play pb" by blast
  with ph assms(2) show ?thesis
    by (auto simp: ApplySeedReveal_def Let_def phase_conv before_play_def turn_set_def
        rbind_eq_Inr_conv split: if_splits)
qed

lemma seed_reveal_wf:
  assumes "board_wf pb" and "sha_ok sha"
  shows "ApplySeedReveal sha m (GetPhase pb) pb \<noteq> Inl CheckFailed"
    and "ApplySeedReveal sha m (GetPhase pb) pb = Inr pb' \<Longrightarrow> board_wf pb'"
proof -
  obtain b rnd where
    n: "Next_bool sha (Seed (sha (get_or [] (sr_seed m) @ get_or [] (seed_1 pb)))) = Some (b, rnd)"
    using Next_bool_Seed [OF assms(2)] .
  then show "ApplySeedReveal sha m (GetPhase pb) pb \<noteq> Inl CheckFailed"
    by (simp add: ApplySeedReveal_def Let_def)
  show "ApplySeedReveal sha m (GetPhase pb) pb = Inr pb' \<Longrightarrow> board_wf pb'"
    by (drule seed_reveal_effect [OF assms(1)]) (simp add: board_wf_def bits_ok_def numeral_2_eq_2)
qed

subsection \<open>Shots\<close>

lemma small_u32:
  fixes w :: u32
  shows "0 \<le> sint w \<and> sint w < 64 \<longleftrightarrow> unat w < 64"
    and "unat w < 64 \<Longrightarrow> sint w = uint w"
    and "unat w < 64 \<Longrightarrow> uint w < 64"
proof -
  show less: "unat w < 64 \<Longrightarrow> uint w < 64"
    by (metis uint_nat of_nat_less_numeral_iff)
  show eq: "sint w = uint w" if "unat w < 64"
  proof -
    have "(uint w + 2 ^ 31) mod 2 ^ 32 = uint w + 2 ^ 31"
      using less [OF that] by (intro mod_pos_pos_trivial) simp_all
    then have "sint (word_of_int (uint w) :: u32) = uint w"
      by (simp only: int_word_sint) simp
    then show ?thesis by simp
  qed
  have "unat w < 64" if "0 \<le> sint w" "sint w < 64"
  proof -
    have "sint w mod 2 ^ 32 = sint w"
      using that by (intro mod_pos_pos_trivial) simp_all
    then have "uint (word_of_int (sint w) :: u32) = sint w"
      by (simp only: uint_word_of_int) simp
    then have "uint w < 64" using that by simp
    then show ?thesis by (metis uint_nat of_nat_less_numeral_iff)
  qed
  with eq less show "0 \<le> sint w \<and> sint w < 64 \<longleftrightarrow> unat w < 64" by auto
qed

lemma target_on_board: "IsOnBoard (coord_of_index (sint (w :: u32))) \<longleftrightarrow> unat w < 64"
  by (simp add: coord_of_index_on_board small_u32)

lemma target_ops:
  assumes "unat (w :: u32) < 64"
  shows "Get g (coord_of_index (sint w)) = Some (bit g (unat w))"
    and "GetIndex (coord_of_index (sint w)) = Some (uint w)"
    and "\<not> bit g (unat w) \<Longrightarrow> Set g (coord_of_index (sint w)) = Some (g OR 2 ^ unat w)"
  using assms small_u32(2,3) [OF assms] Set_index [of "uint w" g]
  by (simp_all add: small_u32 Get_on_board coord_of_index_on_board ship_at_index GetIndex_of_index)

lemma word_and_not_eq_0: "(h :: u64) AND NOT g = 0 \<longleftrightarrow> (\<forall>i. bit h i \<longrightarrow> bit g i)"
proof
  assume eq: "h AND NOT g = 0"
  show "\<forall>i. bit h i \<longrightarrow> bit g i"
  proof (intro allI impI)
    fix i
    assume "bit h i"
    moreover have "\<not> bit (h AND NOT g) i" by (simp add: eq)
    ultimately show "bit g i"
      by (auto simp: bit_and_iff bit_not_iff dest: bit_imp_le_length)
  qed
qed (auto intro!: bit_word_eqI simp: bit_and_iff bit_not_iff)

lemma bits_ok_iff: "bits_ok ks \<longleftrightarrow> (\<forall>i. bit (get_or 0 (hits ks)) i \<longrightarrow> bit (get_or 0 (guessed ks)) i)"
  by (simp add: bits_ok_def word_and_not_eq_0)

text \<open>The state after a shot of the player \<open>t\<close> at the cell \<open>loc\<close> of the player \<open>ot\<close>.\<close>

definition after_shot :: "u32 \<Rightarrow> u32 \<Rightarrow> BoardState \<Rightarrow> BoardState" where
  "after_shot ot loc pb =
    (let ks = known_ships pb ! unat ot in
     pb\<lparr>turn := Some ot, current_shot := Some loc,
        known_ships := (known_ships pb)[unat ot := ks\<lparr>guessed := Some (get_or 0 (guessed ks) OR 2 ^ unat loc)\<rparr>]\<rparr>)"

lemma ApplyShot_eq:
  assumes "board_wf pb" and "turn pb = Some t"
  shows "ApplyShot m (GetPhase pb) pb =
    (case location m of
       None \<Rightarrow> Inl Rejected
     | Some loc \<Rightarrow>
       if GetPhase pb = SHOOT \<and> unat loc < 64
          \<and> \<not> bit (get_or 0 (guessed (known_ships pb ! unat (1 - t)))) (unat loc)
       then Inr (after_shot (1 - t) loc pb)
       else Inl Rejected)"
proof (cases "GetPhase pb = SHOOT")
  case True
  then have l: "length (known_ships pb) = 2" and t: "t = 0 \<or> t = 1"
    using assms turn_set_wf [OF assms(1)] True phase_conv(7) [of pb] by (auto simp: turn_set_def)
  show ?thesis
  proof (cases "location m")
    case (Some loc)
    show ?thesis
      using t True Some l assms(2)
      by (auto simp: ApplyShot_def Let_def target_on_board target_ops after_shot_def )
  qed (simp add: ApplyShot_def)
qed (simp add: ApplyShot_def split: option.split)

lemma shot_wf:
  assumes "board_wf pb" and "GetPhase pb = SHOOT" and "turn pb = Some t" and "unat loc < 64"
    and "\<not> bit (get_or 0 (guessed (known_ships pb ! unat (1 - t)))) (unat loc)"
  shows "board_wf (after_shot (1 - t) loc pb)"
proof -
  have l: "length (known_ships pb) = 2" and t: "t = 0 \<or> t = 1" and b: "list_all bits_ok (known_ships pb)"
    using assms turn_set_wf [OF assms(1)] phase_conv(7) [of pb] by (auto simp: turn_set_def board_wf_def)
  from l obtain k0 k1 where ks: "known_ships pb = [k0, k1]" by (rule list_2E)
  let ?pb = "after_shot (1 - t) loc pb"
  have "GetPhase ?pb = ANSWER"
    using assms(2) by (simp add: phase_conv after_shot_def Let_def)
  moreover have "turn_set ?pb"
    using t by (auto simp: turn_set_def after_shot_def Let_def)
  moreover have "list_all bits_ok (known_ships ?pb)"
    using t b by (auto simp: after_shot_def Let_def ks bits_ok_iff bit_or_iff)
  moreover have "\<not> bit (get_or 0 (hits (known_ships pb ! unat (1 - t)))) (unat loc)"
    using t b assms(5) by (auto simp: ks bits_ok_iff)
  then have "pending_ok ?pb"
    using t assms(4) by (auto simp: pending_ok_def after_shot_def Let_def ks bit_or_mask)
  ultimately show ?thesis by (simp add: board_wf_def)
qed

subsection \<open>Replies\<close>

definition after_hit :: "u32 \<Rightarrow> u32 \<Rightarrow> BoardState \<Rightarrow> BoardState" where
  "after_hit t shot pb =
    (let ks = known_ships pb ! unat t in
     pb\<lparr>current_shot := None, turn := Some (1 - t),
        known_ships := (known_ships pb)[unat t := ks\<lparr>hits := Some (get_or 0 (hits ks) OR 2 ^ unat shot)\<rparr>]\<rparr>)"

lemma ANSWER_wf:
  assumes "board_wf pb" and "GetPhase pb = ANSWER"
  obtains t shot k0 k1 where "turn pb = Some t" "t = 0 \<or> t = 1" "current_shot pb = Some shot" "unat shot < 64"
    "known_ships pb = [k0, k1]" "bits_ok k0" "bits_ok k1"
    "bit (get_or 0 (guessed (known_ships pb ! unat t))) (unat shot)"
    "\<not> bit (get_or 0 (hits (known_ships pb ! unat t))) (unat shot)"
proof -
  from assms have "length (known_ships pb) = 2" by (simp add: phase_conv)
  then obtain k0 k1 where "known_ships pb = [k0, k1]" by (rule list_2E)
  with that assms show ?thesis
    by (auto simp: board_wf_def pending_ok_def turn_set_def split: option.splits)
qed

lemma ApplyReply_eq:
  assumes "board_wf pb" and "GetPhase pb = ANSWER" and "turn pb = Some t" and "current_shot pb = Some shot"
  shows "ApplyReply m ANSWER pb =
    (case reply m of
       Some HIT \<Rightarrow> Inr (after_hit t shot pb)
     | Some MISS \<Rightarrow> Inr (pb\<lparr>current_shot := None\<rparr>)
     | _ \<Rightarrow> Inl Rejected)"
proof -
  from assms have "t = 0 \<or> t = 1" "unat shot < 64" "length (known_ships pb) = 2"
    "\<not> bit (get_or 0 (hits (known_ships pb ! unat t))) (unat shot)"
    by (auto elim: ANSWER_wf)
  with assms show ?thesis
    by (auto simp: ApplyReply_def Let_def target_on_board target_ops after_hit_def
        split: option.split ReplyType.split)
qed

lemma reply_wf:
  assumes "board_wf pb"
  shows "ApplyReply m (GetPhase pb) pb \<noteq> Inl CheckFailed"
    and "ApplyReply m (GetPhase pb) pb = Inr pb' \<Longrightarrow> board_wf pb'"
proof -
  have "ApplyReply m (GetPhase pb) pb = Inl Rejected" if "GetPhase pb \<noteq> ANSWER"
    using that by (simp add: ApplyReply_def)
  moreover have "ApplyReply m (GetPhase pb) pb \<noteq> Inl CheckFailed
      \<and> (ApplyReply m (GetPhase pb) pb = Inr pb' \<longrightarrow> board_wf pb')" if ph: "GetPhase pb = ANSWER"
  proof -
    obtain t shot k0 k1 where a: "turn pb = Some t" "t = 0 \<or> t = 1" "current_shot pb = Some shot" "unat shot < 64"
      and k: "known_ships pb = [k0, k1]" "bits_ok k0" "bits_ok k1"
      and g: "bit (get_or 0 (guessed (known_ships pb ! unat t))) (unat shot)"
        "\<not> bit (get_or 0 (hits (known_ships pb ! unat t))) (unat shot)"
      by (rule ANSWER_wf [OF assms ph])
    have "board_wf (after_hit t shot pb)"
    proof -
      have "GetPhase (after_hit t shot pb) = SHOOT"
        using ph by (simp add: phase_conv after_hit_def Let_def)
      moreover have "list_all bits_ok (known_ships (after_hit t shot pb))"
        using a k g by (auto simp: after_hit_def Let_def bits_ok_iff bit_or_mask)
      ultimately show ?thesis
        using a by (auto simp: board_wf_def turn_set_def after_hit_def Let_def)
    qed
    moreover have "board_wf (pb\<lparr>current_shot := None\<rparr>)"
    proof -
      have "GetPhase (pb\<lparr>current_shot := None\<rparr>) = SHOOT"
        using ph by (simp add: phase_conv)
      then show ?thesis
        using a k by (auto simp: board_wf_def turn_set_def)
    qed
    ultimately show ?thesis
      using ApplyReply_eq [OF assms ph a(1,3)] ph
      by (auto split: option.splits ReplyType.splits)
  qed
  ultimately show "ApplyReply m (GetPhase pb) pb \<noteq> Inl CheckFailed"
    "ApplyReply m (GetPhase pb) pb = Inr pb' \<Longrightarrow> board_wf pb'"
    by (cases "GetPhase pb = ANSWER"; simp)+
qed

subsection \<open>Revealing a position\<close>

definition reveal_phase :: "Phase \<Rightarrow> bool" where
  "reveal_phase ph \<longleftrightarrow> ph = SHOOT \<or> ph = ANSWER \<or> ph = SECOND_REVEAL_POSITION"

text \<open>
  The verdict: a player whose position is no legal fleet or contradicts his answers loses; otherwise he
  wins if he is the second to reveal or has hit all ship cells of the other player.
\<close>

definition reveal_verdict :: "Phase \<Rightarrow> u64 \<Rightarrow> u32 \<Rightarrow> BoardState \<Rightarrow> u32 option" where
  "reveal_verdict phase g t pb =
    (let mine = known_ships pb ! unat t; theirs = known_ships pb ! unat (1 - t) in
     if VerifyPositionOfShips g \<noteq> Some True \<or> g AND get_or 0 (guessed mine) \<noteq> get_or 0 (hits mine)
     then Some (1 - t)
     else if phase = SECOND_REVEAL_POSITION \<or> CountOnes (get_or 0 (hits theirs)) \<ge> TotalShipCells
     then Some t
     else None)"

definition after_reveal :: "u64 \<Rightarrow> u32 \<Rightarrow> u32 option \<Rightarrow> BoardState \<Rightarrow> BoardState" where
  "after_reveal g t v pb =
    (let pb' = pb\<lparr>positions := (if positions pb = [] then [0, 0] else positions pb)[unat t := g]\<rparr> in
     case v of
       None \<Rightarrow> pb'\<lparr>turn := Some (1 - t), position_hashes := (position_hashes pb)[unat t := []]\<rparr>
     | Some w \<Rightarrow> pb'\<lparr>winner := Some w, turn := None, position_hashes := map (\<lambda>_. []) (position_hashes pb)\<rparr>)"

lemma REVEAL_wf:
  assumes "board_wf pb" and "reveal_phase (GetPhase pb)"
  obtains t k0 k1 h0 h1 where "turn pb = Some t" "t = 0 \<or> t = 1" "known_ships pb = [k0, k1]" "bits_ok k0" "bits_ok k1"
    "position_hashes pb = [h0, h1]" "winner pb = None"
    "positions pb = [] \<and> GetPhase pb \<noteq> SECOND_REVEAL_POSITION
     \<or> (\<exists>p0 p1. positions pb = [p0, p1] \<and> GetPhase pb = SECOND_REVEAL_POSITION \<and> [p0, p1] ! unat t = 0
          \<and> [p0, p1] ! (1 - unat t) \<noteq> 0)"
proof -
  from assms have l: "length (known_ships pb) = 2" "length (position_hashes pb) = 2" "winner pb = None"
    using phase_conv(5-7) [of pb] by (auto simp: reveal_phase_def)
  from l(1) obtain k0 k1 where k: "known_ships pb = [k0, k1]" by (rule list_2E)
  from l(2) obtain h0 h1 where h: "position_hashes pb = [h0, h1]" by (rule list_2E)
  have nf: "GetPhase pb \<noteq> FINISHED"
    using assms(2) by (auto simp: reveal_phase_def)
  obtain t where t: "turn pb = Some t" "t = 0 \<or> t = 1"
    using turn_set_wf [OF assms(1) nf] by (auto simp: turn_set_def)
  have b: "bits_ok k0" "bits_ok k1"
    using assms k by (auto simp: board_wf_def reveal_phase_def)
  have p: "positions pb = [] \<and> GetPhase pb \<noteq> SECOND_REVEAL_POSITION
     \<or> (\<exists>p0 p1. positions pb = [p0, p1] \<and> GetPhase pb = SECOND_REVEAL_POSITION \<and> [p0, p1] ! unat t = 0
          \<and> [p0, p1] ! (1 - unat t) \<noteq> 0)"
  proof (cases "GetPhase pb = SECOND_REVEAL_POSITION")
    case True
    then have "length (positions pb) = 2" by (simp add: phase_conv)
    then obtain p0 p1 where "positions pb = [p0, p1]" by (rule list_2E)
    with True assms t show ?thesis by (simp add: board_wf_def)
  next
    case False
    then show ?thesis
      using assms(2) phase_conv(6,7) [of pb] by (auto simp: reveal_phase_def)
  qed
  from that [OF t k b h l(3) p] show ?thesis .
qed

lemma VerifyPositionForAnswers_ok:
  "bits_ok ks \<Longrightarrow> VerifyPositionForAnswers g (get_or 0 (guessed ks)) (get_or 0 (hits ks)) =
     Some (g AND get_or 0 (guessed ks) = get_or 0 (hits ks))"
  by (auto simp: VerifyPositionForAnswers_def bits_ok_iff bit_eq_iff bit_and_iff)

lemma check_position_eq:
  assumes "unat t < length (known_ships pb)" and "bits_ok (known_ships pb ! unat t)"
  shows "check_position g t ot pb =
    Inr (if VerifyPositionOfShips g \<noteq> Some True
            \<or> g AND get_or 0 (guessed (known_ships pb ! unat t)) \<noteq> get_or 0 (hits (known_ships pb ! unat t))
         then pb\<lparr>winner := Some (of_int ot)\<rparr> else pb)"
  using assms by (cases "all_ok g \<and> complement (found_fleet g)")
    (simp_all add: check_position_def VerifyPositionOfShips_eq VerifyPositionForAnswers_ok Let_def bits_ok_def)

lemma ApplyPositionReveal_eq:
  assumes "board_wf pb" and "turn pb = Some t"
  shows "ApplyPositionReveal sha m (GetPhase pb) pb =
    (case position m of
       None \<Rightarrow> Inl Rejected
     | Some g \<Rightarrow>
       if reveal_phase (GetPhase pb) \<and> length (get_or [] (salt m)) \<le> NUM_BYTES
          \<and> CheckHashValue (sha (the (Blob g) @ get_or [] (salt m))) (position_hashes pb ! unat t)
       then Inr (after_reveal g t (reveal_verdict (GetPhase pb) g t pb) pb)
       else Inl Rejected)"
proof (cases "reveal_phase (GetPhase pb) \<and> position m \<noteq> None")
  case True
  then obtain g where g: "position m = Some g" by auto
  obtain t' k0 k1 h0 h1 where r: "turn pb = Some t'" "t' = 0 \<or> t' = 1" "known_ships pb = [k0, k1]" "bits_ok k0" "bits_ok k1"
    "position_hashes pb = [h0, h1]" "winner pb = None"
    "positions pb = [] \<and> GetPhase pb \<noteq> SECOND_REVEAL_POSITION
     \<or> (\<exists>p0 p1. positions pb = [p0, p1] \<and> GetPhase pb = SECOND_REVEAL_POSITION \<and> [p0, p1] ! unat t' = 0
          \<and> [p0, p1] ! (1 - unat t') \<noteq> 0)"
    by (rule REVEAL_wf [OF assms(1)]) (use True in auto)
  with assms(2) have t: "t' = t" by simp
  let ?ps = "(if positions pb = [] then [0, 0] else positions pb)[unat t := g]"
  let ?pb = "pb\<lparr>positions := ?ps, position_hashes := (position_hashes pb)[unat t := []]\<rparr>"
  have rec: "record_position g t pb = Some ?pb"
    using r by (auto simp: record_position_def Let_def t)
  have ot: "0 \<le> sint (1 - t)" "sint (1 - t) \<le> 1" "nat (sint (1 - t)) = unat (1 - t)"
    "unat (1 - t) < length (known_ships pb)" "of_int (sint (1 - t)) = 1 - t"
    using r t by auto
  obtain blob where blob: "Blob g = Some blob"
    by (simp add: Blob_eq)
  have chk: "check_position g t (sint (1 - t)) ?pb =
    Inr (if VerifyPositionOfShips g \<noteq> Some True
            \<or> g AND get_or 0 (guessed (known_ships pb ! unat t)) \<noteq> get_or 0 (hits (known_ships pb ! unat t))
         then ?pb\<lparr>winner := Some (1 - t)\<rparr> else ?pb)"
    by (subst check_position_eq) (use r t in auto)
  have ph: "GetPhase pb = SHOOT \<or> GetPhase pb = ANSWER \<or> GetPhase pb = SECOND_REVEAL_POSITION"
    using True by (simp add: reveal_phase_def)
  have h: "unat t < length (position_hashes pb)"
    using r t by auto
  have clr: "map (\<lambda>_. []) (xs[i := y]) = map (\<lambda>_. []) xs" for xs :: "byte list list" and i y
    by (simp add: map_replicate_const)
  have "rbind (check_position g t (sint (1 - t)) ?pb) (\<lambda>newState.
        rbind (first_reveal_winner (GetPhase pb) t (sint (1 - t)) newState) (\<lambda>newState.
        finish_reveal (GetPhase pb) (sint (1 - t)) (second_reveal_winner (GetPhase pb) t newState))) =
      Inr (after_reveal g t (reveal_verdict (GetPhase pb) g t pb) pb)"
    using ot(3-5) r(7)
    by (simp add: chk Let_def first_reveal_winner_def second_reveal_winner_def finish_reveal_def
        reveal_verdict_def after_reveal_def clr)
  then show ?thesis
    using True g ph blob h ot(1,2)
    by (simp add: ApplyPositionReveal_def assms(2) rec Let_def)
next
  case False
  then show ?thesis
    by (auto simp: ApplyPositionReveal_def reveal_phase_def split: option.split)
qed

lemma after_reveal_phase:
  assumes "length (position_hashes pb) = 2" and "length (known_ships pb) = 2" and "winner pb = None"
    and "length (positions pb) = 0 \<or> length (positions pb) = 2"
  shows "GetPhase (after_reveal g t v pb) = (if v = None then SECOND_REVEAL_POSITION else FINISHED)"
  using assms by (auto simp: after_reveal_def Let_def phase_conv simp del: list_update.simps split: option.split)

lemma CountOnes_0: "CountOnes 0 = 0"
  unfolding CountOnes_def by (subst CountOnes_loop.simps) simp

lemma reveal_wf:
  assumes "board_wf pb" and "reveal_phase (GetPhase pb)" and "turn pb = Some t"
  shows "board_wf (after_reveal g t (reveal_verdict (GetPhase pb) g t pb) pb)"
proof -
  obtain t' k0 k1 h0 h1 where r: "turn pb = Some t'" "t' = 0 \<or> t' = 1" "known_ships pb = [k0, k1]" "bits_ok k0" "bits_ok k1"
    "position_hashes pb = [h0, h1]" "winner pb = None"
    "positions pb = [] \<and> GetPhase pb \<noteq> SECOND_REVEAL_POSITION
     \<or> (\<exists>p0 p1. positions pb = [p0, p1] \<and> GetPhase pb = SECOND_REVEAL_POSITION \<and> [p0, p1] ! unat t' = 0
          \<and> [p0, p1] ! (1 - unat t') \<noteq> 0)"
    by (rule REVEAL_wf [OF assms(1,2)])
  let ?v = "reveal_verdict (GetPhase pb) g t pb"
  let ?pb = "after_reveal g t ?v pb"
  have ph: "GetPhase ?pb = (if ?v = None then SECOND_REVEAL_POSITION else FINISHED)"
    using r by (intro after_reveal_phase) auto
  have b: "known_ships ?pb = [k0, k1]"
    using r by (simp add: after_reveal_def Let_def split: option.split)
  show ?thesis
  proof (cases ?v)
    case None
    then have "VerifyPositionOfShips g = Some True" and "GetPhase pb \<noteq> SECOND_REVEAL_POSITION"
      by (auto simp: reveal_verdict_def Let_def split: if_splits)
    moreover from this have "g \<noteq> 0"
      using position_ones [of g] CountOnes_0 by (auto simp: TotalShipCells_def AVAILABLE_SHIPS_def)
    ultimately show ?thesis
      using r None ph b assms(3) by (auto simp: board_wf_def after_reveal_def Let_def turn_set_def)
  next
    case (Some w)
    have "w \<le> 1"
      using Some r(1,2) assms(3) by (auto simp: reveal_verdict_def Let_def split: if_splits)
    then show ?thesis
      using Some r ph b by (auto simp: board_wf_def after_reveal_def Let_def)
  qed
qed

section \<open>All moves\<close>

text \<open>A move of a well-formed state in terms of the effects above.\<close>

lemma shot_move_wf:
  assumes "board_wf pb" and "turn pb = Some t"
  shows "ApplyShot m (GetPhase pb) pb \<noteq> Inl CheckFailed"
    and "ApplyShot m (GetPhase pb) pb = Inr pb' \<Longrightarrow> board_wf pb'"
  using shot_wf [OF assms(1) _ assms(2)]
  by (auto simp: ApplyShot_eq [OF assms] split: option.splits if_splits)

lemma reveal_move_wf:
  assumes "board_wf pb" and "turn pb = Some t"
  shows "ApplyPositionReveal sha m (GetPhase pb) pb \<noteq> Inl CheckFailed"
    and "ApplyPositionReveal sha m (GetPhase pb) pb = Inr pb' \<Longrightarrow> board_wf pb'"
  using reveal_wf [OF assms(1) _ assms(2)]
  by (auto simp: ApplyPositionReveal_eq [OF assms] split: option.splits if_splits)

lemma ApplyMoveProto_eq:
  assumes "two_players s" and "board_wf (GetState s)" and "GetPhase (GetState s) \<noteq> FINISHED"
  shows "ApplyMoveProto sha s mv = (let pb = GetState s; phase = GetPhase pb in
    case mv of
      kPositionCommitment m \<Rightarrow> ApplyPositionCommitment m phase pb
    | kSeedReveal m \<Rightarrow> ApplySeedReveal sha m phase pb
    | kShot m \<Rightarrow> ApplyShot m phase pb
    | kReply m \<Rightarrow> ApplyReply m phase pb
    | kPositionReveal m \<Rightarrow> ApplyPositionReveal sha m phase pb
    | MOVE_NOT_SET \<Rightarrow> Inl Rejected)"
  using WhoseTurn_wf [OF assms(1,2)] turn_set_wf [OF assms(2,3)] assms(3)
  by (auto simp: ApplyMoveProto_def Let_def turn_set_def NO_TURN_def)

lemma ApplyMoveProto_wf:
  assumes "two_players s" and "board_wf (GetState s)" and "GetPhase (GetState s) \<noteq> FINISHED" and "sha_ok sha"
  shows "ApplyMoveProto sha s mv \<noteq> Inl CheckFailed"
    and "ApplyMoveProto sha s mv = Inr pb' \<Longrightarrow> board_wf pb'"
proof -
  obtain t where t: "turn (GetState s) = Some t"
    using turn_set_wf [OF assms(2,3)] by (auto simp: turn_set_def)
  note wf = commitment_wf [OF assms(2)] seed_reveal_wf [OF assms(2,4)] shot_move_wf [OF assms(2) t]
    reply_wf [OF assms(2)] reveal_move_wf [OF assms(2) t]
  show "ApplyMoveProto sha s mv \<noteq> Inl CheckFailed"
    using wf by (cases mv) (simp_all add: ApplyMoveProto_eq [OF assms(1-3)] Let_def)
  show "ApplyMoveProto sha s mv = Inr pb' \<Longrightarrow> board_wf pb'"
    using wf by (cases mv) (simp_all add: ApplyMoveProto_eq [OF assms(1-3)] Let_def)
qed

section \<open>The turn count\<close>

definition shots_made :: "BoardState \<Rightarrow> nat" where
  "shots_made pb = sum_list (map (\<lambda>ks. nat (CountOnes (get_or 0 (guessed ks)))) (known_ships pb))"

definition revealed :: "BoardState \<Rightarrow> nat" where
  "revealed pb = length (filter (\<lambda>p. (ucast p :: u32) \<noteq> 0) (positions pb))"

definition turn_number :: "BoardState \<Rightarrow> nat" where
  "turn_number pb = (case GetPhase pb of
     FIRST_COMMITMENT \<Rightarrow> 1
   | SECOND_COMMITMENT \<Rightarrow> 2
   | FIRST_REVEAL_SEED \<Rightarrow> 3
   | SHOOT \<Rightarrow> 4 + 2 * shots_made pb
   | ANSWER \<Rightarrow> 3 + 2 * shots_made pb
   | _ \<Rightarrow> (if current_shot pb = None then 4 else 3) + 2 * shots_made pb + revealed pb)"

lemma count_shots_eq: "count_shots ks = of_nat (sum_list (map (\<lambda>ks. nat (CountOnes (get_or 0 (guessed ks)))) ks))"
proof -
  have "foldl (\<lambda>shots known. shots + of_int (CountOnes (get_or 0 (guessed known)))) (a :: u32) ks
      = a + of_nat (sum_list (map (\<lambda>ks. nat (CountOnes (get_or 0 (guessed ks)))) ks))" for a
    by (induction ks arbitrary: a) (auto simp: CountOnes_eq_card algebra_simps)
  then show ?thesis by (simp add: count_shots_def)
qed

lemma count_positions_eq: "count_positions ps cnt = cnt + of_nat (length (filter (\<lambda>p. (ucast p :: u32) \<noteq> 0) ps))"
  unfolding count_positions_def by (induction ps arbitrary: cnt) auto

lemma TurnCount_eq:
  assumes "two_players s" and "board_wf (GetState s)"
  shows "TurnCount s = Some (of_nat (turn_number (GetState s)))"
  using assms
  by (cases "GetPhase (GetState s)")
    (auto simp: TurnCount_def two_players_def Let_def count_shots_eq count_positions_eq turn_number_def
      shots_made_def revealed_def board_wf_def)

lemma CountOnes_bounds: "0 \<le> CountOnes g \<and> CountOnes g \<le> 64"
proof -
  have "card {i. bit g i} \<le> card {..<64 :: nat}"
    by (intro card_mono) (auto dest: bit_imp_le_length)
  then show ?thesis by (simp add: CountOnes_eq_card)
qed

lemma CountOnes_or:
  assumes "k < 64" and "\<not> bit g k"
  shows "CountOnes (g OR 2 ^ k) = CountOnes g + 1"
proof -
  have "{i. bit (g OR 2 ^ k) i} = insert k {i. bit g i}"
    using assms(1) by (auto simp: bit_or_mask)
  with assms(2) show ?thesis by (simp add: CountOnes_eq_card)
qed

lemma shots_made_le:
  assumes "length (known_ships pb) \<le> 2"
  shows "shots_made pb \<le> 128"
proof -
  have "sum_list (map (\<lambda>ks. nat (CountOnes (get_or 0 (guessed ks)))) ks) \<le> 64 * length ks" for ks
  proof (induction ks)
    case (Cons k ks)
    moreover have "nat (CountOnes (get_or 0 (guessed k))) \<le> 64"
      using CountOnes_bounds [of "get_or 0 (guessed k)"] by linarith
    ultimately show ?case by simp
  qed simp
  from this [of "known_ships pb"] show ?thesis
    using assms by (simp add: shots_made_def)
qed

lemma wf_sizes:
  assumes "board_wf pb"
  shows "length (known_ships pb) \<in> {0, 2}" "length (positions pb) \<in> {0, 2}"
    "list_all bits_ok (known_ships pb)"
proof -
  have "length (known_ships pb) \<in> {0, 2} \<and> length (positions pb) \<in> {0, 2}
      \<and> list_all bits_ok (known_ships pb)"
  proof (cases "GetPhase pb")
    case SECOND_REVEAL_POSITION
    with assms phase_conv(5) [of pb] show ?thesis by (simp add: board_wf_def)
  next
    case ANSWER
    with assms phase_conv(6) [of pb] show ?thesis by (simp add: board_wf_def)
  next
    case SHOOT
    with assms phase_conv(7) [of pb] show ?thesis by (simp add: board_wf_def)
  qed (use assms in \<open>simp_all add: board_wf_def before_play_def\<close>)
  then show "length (known_ships pb) \<in> {0, 2}" "length (positions pb) \<in> {0, 2}"
    "list_all bits_ok (known_ships pb)" by blast+
qed

lemma turn_number_le:
  assumes "board_wf pb"
  shows "turn_number pb \<le> 262"
proof -
  have "revealed pb \<le> length (positions pb)"
    by (simp add: revealed_def)
  then show ?thesis
    using shots_made_le [of pb] wf_sizes [OF assms] by (auto simp: turn_number_def split: Phase.split)
qed

text \<open>The turn number after each kind of move.\<close>

lemma turn_number_commitment:
  assumes "board_wf pb" and "ApplyPositionCommitment m (GetPhase pb) pb = Inr pb'"
  shows "turn_number pb' = turn_number pb + 1"
  using commitment_effect [OF assms] by (auto simp: turn_number_def)

lemma turn_number_seed:
  assumes "board_wf pb" and "ApplySeedReveal sha m (GetPhase pb) pb = Inr pb'"
  shows "turn_number pb' = turn_number pb + 1"
  using seed_reveal_effect [OF assms]
  by (auto simp: turn_number_def shots_made_def numeral_2_eq_2 CountOnes_0)

lemma turn_number_shot:
  assumes "board_wf pb" and "GetPhase pb = SHOOT" and "turn pb = Some t" and "unat loc < 64"
    and "\<not> bit (get_or 0 (guessed (known_ships pb ! unat (1 - t)))) (unat loc)"
  shows "turn_number (after_shot (1 - t) loc pb) = turn_number pb + 1"
proof -
  have l: "length (known_ships pb) = 2" and t: "t = 0 \<or> t = 1"
    using assms turn_set_wf [OF assms(1)] phase_conv(7) [of pb] by (auto simp: turn_set_def)
  from l obtain k0 k1 where ks: "known_ships pb = [k0, k1]" by (rule list_2E)
  have "GetPhase (after_shot (1 - t) loc pb) = ANSWER"
    using assms(2) by (simp add: phase_conv after_shot_def Let_def)
  moreover have "shots_made (after_shot (1 - t) loc pb) = shots_made pb + 1"
    using t assms(4,5) CountOnes_bounds
    by (auto simp: shots_made_def after_shot_def Let_def ks CountOnes_or nat_add_distrib)
  ultimately show ?thesis
    using assms(2) by (simp add: turn_number_def)
qed

lemma turn_number_reply:
  assumes "board_wf pb" and "GetPhase pb = ANSWER" and "ApplyReply m ANSWER pb = Inr pb'"
  shows "turn_number pb' = turn_number pb + 1"
proof -
  obtain t shot k0 k1 where a: "turn pb = Some t" "t = 0 \<or> t = 1" "current_shot pb = Some shot" "unat shot < 64"
    and k: "known_ships pb = [k0, k1]" "bits_ok k0" "bits_ok k1"
    and g: "bit (get_or 0 (guessed (known_ships pb ! unat t))) (unat shot)"
      "\<not> bit (get_or 0 (hits (known_ships pb ! unat t))) (unat shot)"
    by (rule ANSWER_wf [OF assms(1,2)])
  have "pb' = after_hit t shot pb \<or> pb' = pb\<lparr>current_shot := None\<rparr>"
    using assms(3) ApplyReply_eq [OF assms(1,2) a(1,3)] by (auto split: option.splits ReplyType.splits)
  then have "GetPhase pb' = SHOOT \<and> shots_made pb' = shots_made pb"
    using assms(2) a(2) k(1) by (auto simp: phase_conv shots_made_def after_hit_def Let_def)
  with assms(2) show ?thesis by (simp add: turn_number_def)
qed

lemma turn_number_reveal:
  assumes "board_wf pb" and "reveal_phase (GetPhase pb)" and "turn pb = Some t"
  shows "turn_number (after_reveal g t v pb) = turn_number pb + (if (ucast g :: u32) = 0 then 0 else 1)"
proof -
  obtain t' k0 k1 h0 h1 where r: "turn pb = Some t'" "t' = 0 \<or> t' = 1" "known_ships pb = [k0, k1]" "bits_ok k0" "bits_ok k1"
    "position_hashes pb = [h0, h1]" "winner pb = None"
    "positions pb = [] \<and> GetPhase pb \<noteq> SECOND_REVEAL_POSITION
     \<or> (\<exists>p0 p1. positions pb = [p0, p1] \<and> GetPhase pb = SECOND_REVEAL_POSITION \<and> [p0, p1] ! unat t' = 0
          \<and> [p0, p1] ! (1 - unat t') \<noteq> 0)"
    by (rule REVEAL_wf [OF assms(1,2)])
  have ph: "GetPhase (after_reveal g t v pb) = (if v = None then SECOND_REVEAL_POSITION else FINISHED)" for v
    using r by (intro after_reveal_phase) auto
  have s: "shots_made (after_reveal g t v pb) = shots_made pb"
    "current_shot (after_reveal g t v pb) = current_shot pb" for v
    by (simp_all add: shots_made_def after_reveal_def Let_def split: option.split)
  have rev: "revealed (after_reveal g t v pb) = revealed pb + (if (ucast g :: u32) = 0 then 0 else 1)" for v
    using r assms(3) by (auto simp: revealed_def after_reveal_def Let_def split: option.split)
  have "positions pb = [] \<Longrightarrow> revealed pb = 0" by (simp add: revealed_def)
  moreover have "GetPhase pb = SHOOT \<longrightarrow> current_shot pb = None \<and> positions pb = []"
    "GetPhase pb = ANSWER \<longrightarrow> current_shot pb \<noteq> None \<and> positions pb = []"
    using phase_conv [of pb] by auto
  ultimately show ?thesis
    using assms(2) by (auto simp: turn_number_def ph s rev reveal_phase_def)
qed

section \<open>The JSON form\<close>

lemma guesses_json_ok:
  assumes "bits_ok ks"
  shows "guesses_json ks \<noteq> None"
proof -
  have cell: "guess_char (get_or 0 (guessed ks)) (get_or 0 (hits ks)) \<lparr>row = r, column = c\<rparr> \<noteq> None"
    if "r \<in> set [0..SIDE - 1]" "c \<in> set [0..SIDE - 1]" for r c
  proof -
    have "IsOnBoard \<lparr>row = r, column = c\<rparr>"
      using that by (auto simp: IsOnBoard_iff SIDE_def)
    then show ?thesis
      using assms by (auto simp: guess_char_def Get_on_board ship_at_def bits_ok_iff)
  qed
  have row: "\<exists>cs. those (map (\<lambda>c. guess_char (get_or 0 (guessed ks)) (get_or 0 (hits ks))
      \<lparr>row = r, column = c\<rparr>) [0..SIDE - 1]) = Some cs" if "r \<in> set [0..SIDE - 1]" for r
    using cell [OF that] by (intro those_map_Some) blast
  have "\<exists>rows. those (map (\<lambda>r. do {
       cs \<leftarrow> those (map (\<lambda>c. guess_char (get_or 0 (guessed ks)) (get_or 0 (hits ks))
                \<lparr>row = r, column = c\<rparr>) [0..SIDE - 1]);
       Some (cs @ [CHR 0x0A]) }) [0..SIDE - 1]) = Some rows"
  proof (intro those_map_Some ballI)
    fix r
    assume "r \<in> set [0..SIDE - 1]"
    from row [OF this] show "do {
       cs \<leftarrow> those (map (\<lambda>c. guess_char (get_or 0 (guessed ks)) (get_or 0 (hits ks))
                \<lparr>row = r, column = c\<rparr>) [0..SIDE - 1]);
       Some (cs @ [CHR 0x0A]) } \<noteq> None" by auto
  qed
  then show ?thesis
    by (auto simp: guesses_json_def)
qed

lemma ToJson_wf:
  assumes "two_players s" and "board_wf (GetState s)"
  shows "ToJson s \<noteq> None"
proof -
  let ?pb = "GetState s"
  obtain ph where ph: "phase_string (GetPhase ?pb) = Some ph"
    using assms(2) by (cases "GetPhase ?pb") (auto simp: phase_string_def board_wf_def)
  have "position_json p \<noteq> None" for p
    by (simp add: position_json_def ToString_eq)
  then obtain ps where ps: "those (map position_json (positions ?pb)) = Some ps"
    using those_map_Some [of "positions ?pb" position_json] by blast
  obtain ks where ks: "those (map guesses_json (known_ships ?pb)) = Some ks"
    using those_map_Some [of "known_ships ?pb" guesses_json] guesses_json_ok wf_sizes(3) [OF assms(2)]
    by (auto simp: list_all_iff)
  have lp: "length (positions ?pb) = 0 \<or> length (positions ?pb) = 2"
    and lk: "length (known_ships ?pb) = 0 \<or> length (known_ships ?pb) = 2"
    using wf_sizes [OF assms(2)] by auto
  have np: "participants_size (GetMetadata s) \<noteq> 1"
    using assms(1) by (simp add: two_players_def)
  have obj: "\<exists>ms. json_set k v (JObject ms') = Some (JObject ms)" for k v ms'
    by simp
  show ?thesis
    using lp lk np by (auto simp: ToJson_def ph ps ks Let_def split: option.split)
qed

section \<open>Games\<close>

text \<open>One accepted move in a channel of two players.\<close>

inductive ships_step :: "(byte list \<Rightarrow> uint256) \<Rightarrow> ChannelMetadata \<Rightarrow> BoardState \<Rightarrow> BoardState \<Rightarrow> bool"
  for sha meta where
  move: "ApplyMoveProto sha \<lparr>GetMetadata = meta, GetState = pb\<rparr> mv = Inr pb' \<Longrightarrow> ships_step sha meta pb pb'"

inductive_cases ships_stepE: "ships_step sha meta pb pb'"

definition rank :: "BoardState \<Rightarrow> nat" where
  "rank pb = (case GetPhase pb of
     SECOND_REVEAL_POSITION \<Rightarrow> 261 | FINISHED \<Rightarrow> 262 | _ \<Rightarrow> turn_number pb)"

lemma finished_no_move:
  assumes "two_players s" and "board_wf (GetState s)" and "GetPhase (GetState s) = FINISHED"
  shows "ApplyMoveProto sha s mv = Inl CheckFailed"
  using WhoseTurn_wf [OF assms(1,2)] assms(3) by (simp add: ApplyMoveProto_def)

text \<open>The effects of an accepted move of a well-formed state.\<close>

definition low_bits_zero :: "BoardMove \<Rightarrow> bool" where
  "low_bits_zero mv = (case mv of
     kPositionReveal m \<Rightarrow> (ucast (get_or 0 (position m)) :: u32) = 0
   | _ \<Rightarrow> False)"

lemma turn_number_step:
  assumes "two_players s" and "board_wf (GetState s)" and "ApplyMoveProto sha s mv = Inr pb'"
  shows "turn_number pb' = turn_number (GetState s) + (if low_bits_zero mv then 0 else 1)"
proof -
  let ?pb = "GetState s"
  have nf: "GetPhase ?pb \<noteq> FINISHED"
    using finished_no_move [OF assms(1,2)] assms(3) by auto
  obtain t where t: "turn ?pb = Some t"
    using turn_set_wf [OF assms(2) nf] by (auto simp: turn_set_def)
  note eq = assms(3) [unfolded ApplyMoveProto_eq [OF assms(1,2) nf] Let_def]
  show ?thesis
  proof (cases mv)
    case (kPositionCommitment m)
    with eq turn_number_commitment [OF assms(2)] show ?thesis by (simp add: low_bits_zero_def)
  next
    case (kSeedReveal m)
    with eq turn_number_seed [OF assms(2)] show ?thesis by (simp add: low_bits_zero_def)
  next
    case (kShot m)
    with eq turn_number_shot [OF assms(2) _ t] show ?thesis
      by (auto simp: low_bits_zero_def ApplyShot_eq [OF assms(2) t] split: option.splits if_splits)
  next
    case (kReply m)
    moreover from this eq have "GetPhase ?pb = ANSWER"
      by (auto simp: ApplyReply_def split: if_splits)
    ultimately show ?thesis
      using eq turn_number_reply [OF assms(2)] by (simp add: low_bits_zero_def)
  next
    case (kPositionReveal m)
    with eq turn_number_reveal [OF assms(2) _ t] show ?thesis
      by (auto simp: low_bits_zero_def ApplyPositionReveal_eq [OF assms(2) t] split: option.splits if_splits)
  next
    case MOVE_NOT_SET
    with eq show ?thesis by simp
  qed
qed

lemma rank_le: "board_wf pb \<Longrightarrow> rank pb \<le> 262"
  using turn_number_le [of pb] by (auto simp: rank_def split: Phase.split)

lemma turn_number_playing:
  assumes "board_wf pb" and "GetPhase pb \<noteq> SECOND_REVEAL_POSITION" and "GetPhase pb \<noteq> FINISHED"
  shows "turn_number pb \<le> 260"
  using assms(2,3) shots_made_le [of pb] wf_sizes(1) [OF assms(1)] assms(1)
  by (cases "GetPhase pb") (auto simp: turn_number_def board_wf_def)

lemma rank_step:
  assumes "two_players s" and "board_wf (GetState s)" and "ApplyMoveProto sha s mv = Inr pb'"
  shows "rank (GetState s) < rank pb'"
proof -
  let ?pb = "GetState s"
  have nf: "GetPhase ?pb \<noteq> FINISHED"
    using finished_no_move [OF assms(1,2)] assms(3) by auto
  obtain t where t: "turn ?pb = Some t"
    using turn_set_wf [OF assms(2) nf] by (auto simp: turn_set_def)
  note eq = assms(3) [unfolded ApplyMoveProto_eq [OF assms(1,2) nf] Let_def]
  show ?thesis
  proof (cases "\<exists>m. mv = kPositionReveal m")
    case True
    then obtain g v where r: "reveal_phase (GetPhase ?pb)" and pb': "pb' = after_reveal g t v ?pb"
      and v: "v = reveal_verdict (GetPhase ?pb) g t ?pb"
      using eq by (auto simp: ApplyPositionReveal_eq [OF assms(2) t] split: option.splits if_splits)
    have "GetPhase pb' = (if v = None then SECOND_REVEAL_POSITION else FINISHED)"
      unfolding pb' using r phase_conv(5-7) [of ?pb] by (intro after_reveal_phase) (auto simp: reveal_phase_def)
    moreover have "v = None \<Longrightarrow> GetPhase ?pb \<noteq> SECOND_REVEAL_POSITION"
      using v by (auto simp: reveal_verdict_def Let_def split: if_splits)
    moreover have "turn_number ?pb \<le> 260" if "GetPhase ?pb = SHOOT \<or> GetPhase ?pb = ANSWER"
      using that turn_number_playing [OF assms(2)] by auto
    ultimately show ?thesis
      using r by (auto simp: rank_def reveal_phase_def)
  next
    case False
    then have "\<not> low_bits_zero mv"
      by (auto simp: low_bits_zero_def split: BoardMove.splits)
    then have "turn_number pb' = turn_number ?pb + 1"
      using turn_number_step [OF assms(1-3)] by simp
    moreover have "GetPhase ?pb \<noteq> SECOND_REVEAL_POSITION"
      using False eq by (cases mv) (auto simp: ApplyPositionCommitment_def ApplySeedReveal_def ApplyShot_def
          ApplyReply_def Let_def split: if_splits)
    ultimately show ?thesis
      using nf turn_number_playing [OF assms(2)]
      by (auto simp: rank_def split: Phase.split)
  qed
qed

text \<open>What holds in every state that a game reaches.\<close>

lemma initial_wf: "board_wf InitialBoardState"
proof -
  have "GetPhase InitialBoardState = FIRST_COMMITMENT"
    by (simp add: GetPhase_def InitialBoardState_def)
  then show ?thesis
    by (simp add: board_wf_def before_play_def) (simp add: InitialBoardState_def)
qed

lemma ships_step_wf:
  assumes "ships_step sha meta pb pb'" and "participants_size meta = 2" and "sha_ok sha" and "board_wf pb"
  shows "board_wf pb' \<and> rank pb < rank pb'"
  using assms(1)
proof (rule ships_stepE)
  fix mv
  let ?s = "\<lparr>GetMetadata = meta, GetState = pb\<rparr>"
  assume a: "ApplyMoveProto sha ?s mv = Inr pb'"
  have s: "two_players ?s" "board_wf (GetState ?s)"
    using assms by (simp_all add: two_players_def)
  have "GetPhase (GetState ?s) \<noteq> FINISHED"
    using finished_no_move [OF s] a by auto
  then show ?thesis
    using ApplyMoveProto_wf(2) [OF s _ assms(3) a] rank_step [OF s a] by simp
qed

lemma ships_steps_wf:
  assumes "(ships_step sha meta ^^ n) InitialBoardState pb" and "participants_size meta = 2" and "sha_ok sha"
  shows "board_wf pb \<and> n < rank pb"
  using assms(1)
proof (induction n arbitrary: pb)
  case 0
  then show ?case
    using initial_wf by (simp add: rank_def turn_number_def GetPhase_def InitialBoardState_def)
next
  case (Suc n)
  then show ?case
    using ships_step_wf [OF _ assms(2,3)] by fastforce
qed

section \<open>Properties\<close>

text \<open>
  C4: in a game of two players that starts with \<open>InitialBoardState\<close>, every state that accepted moves
  lead to is valid, has a determined turn, a turn count and a JSON form, and no further move (valid or
  not) makes the process abort unless the game is finished.
\<close>

theorem ships_reachable_safe:
  assumes "(ships_step sha meta)\<^sup>*\<^sup>* InitialBoardState pb"
    and "participants_size meta = 2" and "sha_ok sha"
  defines "s \<equiv> \<lparr>GetMetadata = meta, GetState = pb\<rparr>"
  shows "IsValid s = Some True \<and> WhoseTurn s \<noteq> None \<and> TurnCount s \<noteq> None \<and> ToJson s \<noteq> None
    \<and> (GetPhase pb = FINISHED \<or> ApplyMoveProto sha s mv \<noteq> Inl CheckFailed)"
proof -
  obtain n where "(ships_step sha meta ^^ n) InitialBoardState pb"
    using assms(1) by (meson rtranclp_imp_relpowp)
  then have "board_wf pb"
    using ships_steps_wf assms(2,3) by blast
  then have s: "two_players s" "board_wf (GetState s)"
    using assms(2) by (simp_all add: s_def two_players_def)
  show ?thesis
    using IsValid_wf [OF s] WhoseTurn_wf [OF s] TurnCount_eq [OF s] ToJson_wf [OF s]
      ApplyMoveProto_wf(1) [OF s _ assms(3)] by (auto simp: s_def)
qed

text \<open>
  C33: every game ends: no sequence of accepted moves from the initial state is longer than 261.
\<close>

theorem ships_game_length:
  assumes "(ships_step sha meta ^^ n) InitialBoardState pb"
    and "participants_size meta = 2" and "sha_ok sha"
  shows "n \<le> 261"
  using ships_steps_wf [OF assms] rank_le [of pb] by simp

text \<open>
  An accepted move of a well-formed state increases the turn count by exactly one, except that
  revealing a position whose lower 32 bits are zero leaves it as it was (the loop of \<open>TurnCount\<close> reads
  the 64-bit positions into an \<open>int\<close>); the count never exceeds 262, so it does not wrap around.
\<close>

lemma turn_count_step:
  assumes "two_players s" and "board_wf (GetState s)" and "ApplyMoveProto sha s mv = Inr pb'" and "sha_ok sha"
  shows "\<exists>n. TurnCount s = Some (of_nat n) \<and> n \<le> 262
    \<and> TurnCount (s\<lparr>GetState := pb'\<rparr>) = Some (of_nat (if low_bits_zero mv then n else n + 1))"
proof -
  have "GetPhase (GetState s) \<noteq> FINISHED"
    using finished_no_move [OF assms(1,2)] assms(3) by auto
  then have "board_wf pb'"
    using ApplyMoveProto_wf(2) [OF assms(1,2) _ assms(4,3)] by simp
  then have "TurnCount (s\<lparr>GetState := pb'\<rparr>) = Some (of_nat (turn_number pb'))"
    using assms(1) TurnCount_eq [of "s\<lparr>GetState := pb'\<rparr>"] by (simp add: two_players_def)
  then show ?thesis
    using TurnCount_eq [OF assms(1,2)] turn_number_step [OF assms(1-3)] turn_number_le [OF assms(2)] by auto
qed

text \<open>
  A well-formed state accepts the reveal of a position exactly when it is a phase for it, the salt
  is at most 32 bytes long and position and salt open the commitment; the player loses if the
  position is no legal fleet or contradicts the answers given, and otherwise wins if he is the second
  to reveal or has hit all ship cells of the other player.
\<close>

lemma position_reveal_outcome:
  assumes "board_wf pb" and "turn pb = Some t" and "position m = Some g"
  shows "ApplyPositionReveal sha m (GetPhase pb) pb =
    (if reveal_phase (GetPhase pb) \<and> length (get_or [] (salt m)) \<le> NUM_BYTES
        \<and> CheckHashValue (sha (the (Blob g) @ get_or [] (salt m))) (position_hashes pb ! unat t)
     then Inr (after_reveal g t (reveal_verdict (GetPhase pb) g t pb) pb)
     else Inl Rejected)"
  by (simp add: ApplyPositionReveal_eq [OF assms(1,2)] assms(3))

end
