(* ===== verification/ShipsGame.thy ===== *)
theory ShipsGame
  imports BoardInv
begin

text \<open>
  Whole games of ships: what an honest player is guaranteed, and states outside of the reach of any
  game that the validity check of the code lets through.
\<close>

section \<open>Honest players\<close>

text \<open>
  A player \<open>p\<close> with the fleet \<open>g\<close> is honest if he answers every shot according to \<open>g\<close>, reveals only
  \<open>g\<close>, does so instead of answering never and as the first player only when he has hit all ships.
\<close>

definition honest_move :: "u64 \<Rightarrow> u32 \<Rightarrow> BoardState \<Rightarrow> BoardMove \<Rightarrow> bool" where
  "honest_move g p pb mv \<longleftrightarrow> (turn pb = Some p \<longrightarrow> (case mv of
     kReply m \<Rightarrow> reply m = Some (if bit g (unat (get_or 0 (current_shot pb))) then HIT else MISS)
   | kPositionReveal m \<Rightarrow> position m = Some g \<and> GetPhase pb \<noteq> ANSWER
       \<and> (GetPhase pb = SHOOT \<longrightarrow>
            CountOnes (get_or 0 (hits (known_ships pb ! unat (1 - p)))) \<ge> TotalShipCells)
   | _ \<Rightarrow> True))"

inductive honest_step ::
  "(byte list \<Rightarrow> uint256) \<Rightarrow> ChannelMetadata \<Rightarrow> u64 \<Rightarrow> u32 \<Rightarrow> BoardState \<Rightarrow> BoardState \<Rightarrow> bool"
  for sha meta g p where
  move: "ApplyMoveProto sha \<lparr>GetMetadata = meta, GetState = pb\<rparr> mv = Inr pb' \<Longrightarrow> honest_move g p pb mv
     \<Longrightarrow> honest_step sha meta g p pb pb'"

inductive_cases honest_stepE: "honest_step sha meta g p pb pb'"

definition pending :: "u32 \<Rightarrow> BoardState \<Rightarrow> nat \<Rightarrow> bool" where
  "pending p pb i \<longleftrightarrow> GetPhase pb = ANSWER \<and> turn pb = Some p \<and> map_option unat (current_shot pb) = Some i"

definition hits_of :: "u32 \<Rightarrow> BoardState \<Rightarrow> u64" where
  "hits_of p pb = get_or 0 (hits (known_ships pb ! unat p))"

definition guessed_of :: "u32 \<Rightarrow> BoardState \<Rightarrow> u64" where
  "guessed_of p pb = get_or 0 (guessed (known_ships pb ! unat p))"

definition truthful :: "u64 \<Rightarrow> u32 \<Rightarrow> BoardState \<Rightarrow> bool" where
  "truthful g p pb \<longleftrightarrow> (length (known_ships pb) = 2 \<longrightarrow>
     (\<forall>i. bit (hits_of p pb) i \<longleftrightarrow> bit g i \<and> bit (guessed_of p pb) i \<and> \<not> pending p pb i))"

definition fair :: "u64 \<Rightarrow> u32 \<Rightarrow> BoardState \<Rightarrow> bool" where
  "fair g p pb \<longleftrightarrow> (GetPhase pb = SECOND_REVEAL_POSITION \<longrightarrow> turn pb = Some p)
     \<and> (\<forall>w. winner pb = Some w \<longrightarrow> w = p \<or> hits_of p pb = g)"

lemma fair_playing: "GetPhase pb \<noteq> SECOND_REVEAL_POSITION \<Longrightarrow> GetPhase pb \<noteq> FINISHED \<Longrightarrow> fair g p pb"
  using phase_conv(1) [of pb] by (auto simp: fair_def)

lemma truthful_shot:
  assumes wf: "board_wf pb" and ph: "GetPhase pb = SHOOT" and t: "turn pb = Some t" and loc: "unat loc < 64"
    and free: "\<not> bit (get_or 0 (guessed (known_ships pb ! unat (1 - t)))) (unat loc)"
    and p: "p = 0 \<or> p = 1" and tr: "truthful g p pb"
  shows "truthful g p (after_shot (1 - t) loc pb)"
proof -
  have l: "length (known_ships pb) = 2" and t01: "t = 0 \<or> t = 1" and b: "list_all bits_ok (known_ships pb)"
    using wf ph t turn_set_wf [OF wf] phase_conv(7) [of pb] by (auto simp: turn_set_def board_wf_def)
  from l obtain k0 k1 where ks: "known_ships pb = [k0, k1]" by (rule list_2E)
  have ph': "GetPhase (after_shot (1 - t) loc pb) = ANSWER"
    using ph by (simp add: phase_conv after_shot_def Let_def)
  have old: "bit (hits_of p pb) i \<longleftrightarrow> bit g i \<and> bit (guessed_of p pb) i" for i
    using tr l ph by (simp add: truthful_def pending_def)
  have hb: "\<not> bit (get_or 0 (hits (known_ships pb ! unat (1 - t)))) (unat loc)"
    using t01 b free by (auto simp: ks bits_ok_iff)
  show ?thesis
    unfolding truthful_def
  proof (intro impI allI)
    fix i
    show "bit (hits_of p (after_shot (1 - t) loc pb)) i \<longleftrightarrow>
        bit g i \<and> bit (guessed_of p (after_shot (1 - t) loc pb)) i
        \<and> \<not> pending p (after_shot (1 - t) loc pb) i"
      using p t01 old [of i] hb loc free ks ph'
      by (auto simp: hits_of_def guessed_of_def pending_def after_shot_def Let_def bit_or_mask)
  qed
qed

lemma truthful_reply:
  assumes wf: "board_wf pb" and ph: "GetPhase pb = ANSWER" and a: "ApplyReply m ANSWER pb = Inr pb'"
    and h: "honest_move g p pb (kReply m)" and p: "p = 0 \<or> p = 1" and tr: "truthful g p pb"
  shows "truthful g p pb' \<and> GetPhase pb' = SHOOT"
proof -
  obtain t shot k0 k1 where t: "turn pb = Some t" "t = 0 \<or> t = 1" "current_shot pb = Some shot" "unat shot < 64"
    and k: "known_ships pb = [k0, k1]" "bits_ok k0" "bits_ok k1"
    and b: "bit (get_or 0 (guessed (known_ships pb ! unat t))) (unat shot)"
      "\<not> bit (get_or 0 (hits (known_ships pb ! unat t))) (unat shot)"
    by (rule ANSWER_wf [OF wf ph])
  have old: "bit (hits_of p pb) i \<longleftrightarrow> bit g i \<and> bit (guessed_of p pb) i \<and> \<not> (t = p \<and> unat shot = i)" for i
    using tr k(1) ph t by (auto simp: truthful_def pending_def)
  have pb': "reply m = Some HIT \<and> pb' = after_hit t shot pb \<or> reply m = Some MISS \<and> pb' = pb\<lparr>current_shot := None\<rparr>"
    using a ApplyReply_eq [OF wf ph t(1,3)] by (auto split: option.splits ReplyType.splits)
  have ph': "GetPhase pb' = SHOOT"
    using pb' ph by (auto simp: phase_conv after_hit_def Let_def)
  have hon: "t = p \<Longrightarrow> bit g (unat shot) \<longleftrightarrow> reply m = Some HIT"
    using h t by (auto simp: honest_move_def split: if_splits)
  have "bit (hits_of p pb') i \<longleftrightarrow> bit g i \<and> bit (guessed_of p pb') i" for i
    using pb' p t(2,4) old [of i] b hon k(1)
    by (auto simp: hits_of_def guessed_of_def after_hit_def Let_def bit_or_mask)
  with ph' show ?thesis by (simp add: truthful_def pending_def)
qed

lemma all_hit:
  assumes "VerifyPositionOfShips g = Some True" and "\<And>i. bit h i \<Longrightarrow> bit g i"
    and "TotalShipCells \<le> CountOnes h"
  shows "h = g"
proof -
  have sub: "{i. bit h i} \<subseteq> {i. bit g i}"
    using assms(2) by blast
  moreover have "card {i. bit g i} \<le> card {i. bit h i}"
    using position_ones [OF assms(1)] assms(3) by (simp add: CountOnes_eq_card)
  ultimately have "{i. bit h i} = {i. bit g i}"
    by (intro card_seteq) simp_all
  then show ?thesis
    by (simp add: bit_eq_iff set_eq_iff)
qed

lemma honest_reveal:
  assumes wf: "board_wf pb" and r: "reveal_phase (GetPhase pb)" and t: "turn pb = Some t"
    and h: "honest_move g p pb (kPositionReveal m)" and m: "position m = Some g'"
    and p: "p = 0 \<or> p = 1" and tr: "truthful g p pb" and fair: "fair g p pb"
    and valid: "VerifyPositionOfShips g = Some True"
  defines "pb' \<equiv> after_reveal g' t (reveal_verdict (GetPhase pb) g' t pb) pb"
  shows "truthful g p pb' \<and> fair g p pb'"
proof -
  obtain t' k0 k1 h0 h1 where x: "turn pb = Some t'" "t' = 0 \<or> t' = 1" "known_ships pb = [k0, k1]" "bits_ok k0" "bits_ok k1"
    "position_hashes pb = [h0, h1]" "winner pb = None"
    "positions pb = [] \<and> GetPhase pb \<noteq> SECOND_REVEAL_POSITION
     \<or> (\<exists>p0 p1. positions pb = [p0, p1] \<and> GetPhase pb = SECOND_REVEAL_POSITION \<and> [p0, p1] ! unat t' = 0
          \<and> [p0, p1] ! (1 - unat t') \<noteq> 0)"
    by (rule REVEAL_wf [OF wf r])
  let ?v = "reveal_verdict (GetPhase pb) g' t pb"
  have t01: "t = 0 \<or> t = 1" using t x by simp
  have no: "\<not> pending p pb i" for i
    using h t m by (auto simp: pending_def honest_move_def)
  have old: "bit (hits_of p pb) i \<longleftrightarrow> bit g i \<and> bit (guessed_of p pb) i" for i
    using tr x(3) no by (simp add: truthful_def)
  have ph': "GetPhase pb' = (if ?v = None then SECOND_REVEAL_POSITION else FINISHED)"
    unfolding pb'_def using x by (intro after_reveal_phase) auto
  have same: "hits_of p pb' = hits_of p pb" "guessed_of p pb' = guessed_of p pb"
    by (simp_all add: pb'_def hits_of_def guessed_of_def after_reveal_def Let_def split: option.split)
  have tr': "truthful g p pb'"
    using old by (simp add: truthful_def same pending_def ph')
  have mine: "?v = Some p" if "t = p"
  proof -
    have "g' = g" and "GetPhase pb \<noteq> ANSWER" and "GetPhase pb = SHOOT \<longrightarrow> TotalShipCells \<le> CountOnes (hits_of (1 - p) pb)"
      using h t m that by (simp_all add: honest_move_def hits_of_def)
    moreover have "g AND guessed_of p pb = hits_of p pb"
      using old by (auto simp: bit_eq_iff bit_and_iff)
    ultimately show ?thesis
      using valid r that by (auto simp: reveal_verdict_def Let_def hits_of_def guessed_of_def reveal_phase_def)
  qed
  have theirs: "?v = None \<or> ?v = Some p \<or> hits_of p pb = g" if "t \<noteq> p"
  proof -
    have ot: "1 - t = p" using that p t01 by auto
    have "GetPhase pb \<noteq> SECOND_REVEAL_POSITION"
      using fair that t by (auto simp: fair_def)
    then show ?thesis
      using all_hit [OF valid, of "hits_of p pb"] old ot
      by (auto simp: reveal_verdict_def Let_def hits_of_def)
  qed
  have win: "winner pb' = ?v" "?v = None \<Longrightarrow> turn pb' = Some (1 - t)"
    using x(7) by (auto simp: pb'_def after_reveal_def Let_def split: option.split)
  have "fair g p pb'"
    unfolding fair_def ph' same
    using mine theirs win p t01 by (cases "t = p") auto
  with tr' show ?thesis by simp
qed

lemma honest_step_inv:
  assumes "honest_step sha meta g p pb pb'" and two: "participants_size meta = 2" and sha: "sha_ok sha"
    and p: "p = 0 \<or> p = 1" and valid: "VerifyPositionOfShips g = Some True"
    and inv: "board_wf pb" "truthful g p pb" "fair g p pb"
  shows "board_wf pb' \<and> truthful g p pb' \<and> fair g p pb'"
  using assms(1)
proof (rule honest_stepE)
  fix mv
  let ?s = "\<lparr>GetMetadata = meta, GetState = pb\<rparr>"
  assume a: "ApplyMoveProto sha ?s mv = Inr pb'" and h: "honest_move g p pb mv"
  have s: "two_players ?s" "board_wf (GetState ?s)"
    using two inv by (simp_all add: two_players_def)
  have nf: "GetPhase (GetState ?s) \<noteq> FINISHED"
    using finished_no_move [OF s] a by auto
  have wf': "board_wf pb'"
    using ApplyMoveProto_wf(2) [OF s nf sha a] .
  obtain t where t: "turn pb = Some t"
    using turn_set_wf [OF inv(1)] nf by (auto simp: turn_set_def)
  note eq = a [unfolded ApplyMoveProto_eq [OF s nf] Let_def, simplified]
  have "truthful g p pb' \<and> fair g p pb'"
  proof (cases mv)
    case (kPositionCommitment m)
    with eq commitment_effect [OF inv(1)] have "before_play pb'"
      "GetPhase pb' = SECOND_COMMITMENT \<or> GetPhase pb' = FIRST_REVEAL_SEED" by auto
    then show ?thesis by (auto simp: truthful_def before_play_def intro: fair_playing)
  next
    case (kSeedReveal m)
    with eq seed_reveal_effect [OF inv(1)] have "GetPhase pb' = SHOOT"
      "known_ships pb' = replicate 2 \<lparr>guessed = Some 0, hits = Some 0\<rparr>" by auto
    with p show ?thesis
      by (auto simp: truthful_def hits_of_def guessed_of_def numeral_2_eq_2 intro: fair_playing)
  next
    case (kShot m)
    with eq obtain loc where l: "GetPhase pb = SHOOT" "unat loc < 64" "pb' = after_shot (1 - t) loc pb"
      "\<not> bit (get_or 0 (guessed (known_ships pb ! unat (1 - t)))) (unat loc)"
      by (auto simp: ApplyShot_eq [OF inv(1) t] split: option.splits if_splits)
    have "GetPhase pb' = ANSWER"
      using l(1) by (simp add: l(3) phase_conv after_shot_def Let_def)
    with l truthful_shot [OF inv(1) l(1) t l(2,4) p inv(2)] show ?thesis
      by (auto intro: fair_playing)
  next
    case (kReply m)
    with eq have ph: "GetPhase pb = ANSWER"
      by (auto simp: ApplyReply_def split: if_splits)
    from truthful_reply [OF inv(1) ph _ _ p inv(2)] eq h kReply ph show ?thesis
      by (auto intro: fair_playing)
  next
    case (kPositionReveal m)
    with eq obtain g' where "position m = Some g'" "reveal_phase (GetPhase pb)"
      "pb' = after_reveal g' t (reveal_verdict (GetPhase pb) g' t pb) pb"
      by (auto simp: ApplyPositionReveal_eq [OF inv(1) t] split: option.splits if_splits)
    then show ?thesis
      using honest_reveal [OF inv(1) _ t _ _ p inv(2,3) valid] h kPositionReveal by blast
  next
    case MOVE_NOT_SET
    with eq show ?thesis by simp
  qed
  with wf' show ?thesis by simp
qed

lemma honest_reachable:
  assumes "(honest_step sha meta g p)\<^sup>*\<^sup>* InitialBoardState pb" and "participants_size meta = 2" and "sha_ok sha"
    and "p = 0 \<or> p = 1" and "VerifyPositionOfShips g = Some True"
  shows "board_wf pb \<and> truthful g p pb \<and> fair g p pb"
  using assms(1)
proof induction
  case base
  have "GetPhase InitialBoardState = FIRST_COMMITMENT" "known_ships InitialBoardState = []"
    by (simp_all add: GetPhase_def InitialBoardState_def)
  then show ?case
    using initial_wf by (auto simp: truthful_def intro: fair_playing)
next
  case (step pb pb')
  then show ?case
    using honest_step_inv [OF _ assms(2-5)] by blast
qed

text \<open>
  C2: a player whose committed position is a legal fleet, who answers every shot according to it, who
  reveals only this position and (unless the other player revealed first) only after hitting all ship
  cells, never in place of an answer, wins every finished game, or all his ships have been sunk.
\<close>

theorem honest_player_wins:
  assumes "(honest_step sha meta g p)\<^sup>*\<^sup>* InitialBoardState pb"
    and "participants_size meta = 2" and "sha_ok sha" and "p = 0 \<or> p = 1"
    and "VerifyPositionOfShips g = Some True" and "GetPhase pb = FINISHED"
  shows "winner pb = Some p \<or> get_or 0 (hits (known_ships pb ! unat p)) = g"
  using honest_reachable [OF assms(1-5)] assms(6) phase_conv(1) [of pb]
  by (auto simp: fair_def hits_of_def)

section \<open>A concrete game\<close>

text \<open>
  A channel of two players and a game in which the second player reveals the empty position right
  after the seeds, with a constant in place of the hash function.
\<close>

definition demo_meta :: ChannelMetadata where
  "demo_meta =
    \<lparr>participants = [\<lparr>participant_name = Some ''foo'', participant_address = Some ''addr 1''\<rparr>,
                     \<lparr>participant_name = Some ''bar'', participant_address = Some ''addr 2''\<rparr>],
     reinit = None, custom = None\<rparr>"

definition demo_sha :: "byte list \<Rightarrow> uint256" where
  "demo_sha x = U256 (replicate 32 1)"

definition demo_commit :: "bool \<Rightarrow> BoardMove" where
  "demo_commit first = kPositionCommitment
    \<lparr>position_hash = Some (replicate 32 1), seed_hash = (if first then Some (replicate 32 1) else None),
     pc_seed = None\<rparr>"

definition demo_reveal :: BoardMove where
  "demo_reveal = kPositionReveal \<lparr>position = Some 0, salt = None\<rparr>"

definition demo_1 :: BoardState where
  "demo_1 = InitialBoardState\<lparr>turn := Some 1, position_hashes := [replicate 32 1],
     seed_hash_0 := Some (replicate 32 1)\<rparr>"

definition demo_2 :: BoardState where
  "demo_2 = demo_1\<lparr>turn := Some 0, position_hashes := [replicate 32 1, replicate 32 1], seed_1 := Some []\<rparr>"

definition demo_3 :: BoardState where
  "demo_3 = demo_2\<lparr>turn := Some 1, seed_hash_0 := None, seed_1 := None,
     known_ships := replicate 2 \<lparr>guessed = Some 0, hits = Some 0\<rparr>\<rparr>"

definition demo_4 :: BoardState where
  "demo_4 = demo_3\<lparr>turn := None, position_hashes := [[], []], positions := [0, 0], winner := Some 0\<rparr>"

lemma demo_sha_ok: "sha_ok demo_sha"
  by (simp add: sha_ok_def demo_sha_def uint256_wf_def NUM_BYTES_def IsNull_def list_all_iff)

lemma demo_moves:
  "ApplyMoveProto demo_sha \<lparr>GetMetadata = demo_meta, GetState = InitialBoardState\<rparr> (demo_commit True) = Inr demo_1"
  "ApplyMoveProto demo_sha \<lparr>GetMetadata = demo_meta, GetState = demo_1\<rparr> (demo_commit False) = Inr demo_2"
  "ApplyMoveProto demo_sha \<lparr>GetMetadata = demo_meta, GetState = demo_2\<rparr> (kSeedReveal \<lparr>sr_seed = None\<rparr>) = Inr demo_3"
  "ApplyMoveProto demo_sha \<lparr>GetMetadata = demo_meta, GetState = demo_3\<rparr> demo_reveal = Inr demo_4"
  by code_simp+

lemma demo_honest: "(honest_step demo_sha demo_meta 4223116791447603 0)\<^sup>*\<^sup>* InitialBoardState demo_4"
proof -
  let ?step = "honest_step demo_sha demo_meta 4223116791447603 0"
  have 1: "?step InitialBoardState demo_1"
    by (rule honest_step.move [OF demo_moves(1)]) (simp add: honest_move_def demo_commit_def)
  have 2: "?step demo_1 demo_2"
    by (rule honest_step.move [OF demo_moves(2)]) (simp add: honest_move_def demo_commit_def)
  have 3: "?step demo_2 demo_3"
    by (rule honest_step.move [OF demo_moves(3)]) (simp add: honest_move_def)
  have 4: "?step demo_3 demo_4"
    by (rule honest_step.move [OF demo_moves(4)]) (simp add: honest_move_def demo_3_def)
  show ?thesis
    using 1 2 3 4 by (meson r_into_rtranclp rtranclp.rtrancl_into_rtrancl)
qed

theorem honest_player_wins_witness:
  "VerifyPositionOfShips 4223116791447603 = Some True \<and> GetPhase demo_4 = FINISHED
    \<and> (winner demo_4 = Some 0 \<or> get_or 0 (hits (known_ships demo_4 ! unat (0 :: u32))) = 4223116791447603)"
proof -
  have "VerifyPositionOfShips 4223116791447603 = Some True" "GetPhase demo_4 = FINISHED"
    by code_simp+
  moreover have "participants_size demo_meta = 2"
    by (simp add: participants_size_def demo_meta_def)
  ultimately show ?thesis
    using honest_player_wins [OF demo_honest _ demo_sha_ok] by blast
qed

section \<open>Valid states that no game reaches\<close>

text \<open>
  A state with the commitment of the first player and one entry for the known ships is valid, a
  proper commitment of the second player is accepted in it, and the state that results is invalid.
\<close>

definition crafted_state :: BoardState where
  "crafted_state = demo_1\<lparr>known_ships := [\<lparr>guessed = Some 0, hits = Some 0\<rparr>]\<rparr>"

lemma crafted_successor:
  "IsValid \<lparr>GetMetadata = demo_meta, GetState = crafted_state\<rparr> = Some True
    \<and> (\<exists>pb'. ApplyMoveProto sha \<lparr>GetMetadata = demo_meta, GetState = crafted_state\<rparr> (demo_commit False) = Inr pb'
         \<and> IsValid \<lparr>GetMetadata = demo_meta, GetState = pb'\<rparr> = Some False)"
  by (simp add: crafted_state_def demo_1_def InitialBoardState_def demo_commit_def demo_meta_def
      ApplyMoveProto_def ApplyPositionCommitment_def IsValid_def IsValid_turn_def GetPhase_def WhoseTurn_def
      participants_size_def NUM_BYTES_def NO_TURN_def Let_def)

text \<open>
  There are states that the validity check accepts and on which the JSON conversion aborts the
  process: a finished game with a single revealed position.
\<close>

lemma valid_state_no_json:
  "IsValid \<lparr>GetMetadata = demo_meta, GetState = demo_4\<lparr>positions := [1]\<rparr>\<rparr> = Some True
    \<and> ToJson \<lparr>GetMetadata = demo_meta, GetState = demo_4\<lparr>positions := [1]\<rparr>\<rparr> = None"
  by code_simp

section \<open>Instances of the properties of the board rules\<close>

lemma demo_step_chain:
  "ships_step demo_sha demo_meta InitialBoardState demo_1" "ships_step demo_sha demo_meta demo_1 demo_2"
  by (rule ships_step.move [OF demo_moves(1)], rule ships_step.move [OF demo_moves(2)])

lemma demo_two: "participants_size demo_meta = 2"
  by (simp add: participants_size_def demo_meta_def)

theorem ships_reachable_safe_witness:
  "IsValid \<lparr>GetMetadata = demo_meta, GetState = demo_2\<rparr> = Some True
    \<and> WhoseTurn \<lparr>GetMetadata = demo_meta, GetState = demo_2\<rparr> \<noteq> None
    \<and> TurnCount \<lparr>GetMetadata = demo_meta, GetState = demo_2\<rparr> \<noteq> None
    \<and> ToJson \<lparr>GetMetadata = demo_meta, GetState = demo_2\<rparr> \<noteq> None
    \<and> ApplyMoveProto demo_sha \<lparr>GetMetadata = demo_meta, GetState = demo_2\<rparr> MOVE_NOT_SET \<noteq> Inl CheckFailed"
proof -
  have "(ships_step demo_sha demo_meta)\<^sup>*\<^sup>* InitialBoardState demo_2"
    using demo_step_chain by (meson r_into_rtranclp rtranclp.rtrancl_into_rtrancl)
  moreover have "GetPhase demo_2 \<noteq> FINISHED"
    by code_simp
  ultimately show ?thesis
    using ships_reachable_safe [of demo_sha demo_meta demo_2 MOVE_NOT_SET] demo_two demo_sha_ok by blast
qed

theorem ships_game_length_witness:
  "(ships_step demo_sha demo_meta ^^ 2) InitialBoardState demo_2 \<and> (2 :: nat) \<le> 261"
proof -
  have *: "(ships_step demo_sha demo_meta ^^ 2) InitialBoardState demo_2"
    using demo_step_chain by (auto simp: numeral_2_eq_2)
  from ships_game_length [OF * demo_two demo_sha_ok] * show ?thesis by simp
qed

end
