(* ===== verification/ShipsRules.thy ===== *)
theory ShipsRules
  imports ShipsGame StateProofs "HOL-Library.Countable"
begin

text \<open>
  Board rules over protocol buffers (\<open>sidechannel/protoboard.tpp\<close>) and their instance for ships
  (\<open>ShipsBoardRules\<close> of \<open>ships/board.hpp\<close>).  The protocol-buffer library is a record of functions:
  \<open>ParseFromString\<close> with the test for unknown fields, \<open>SerializeToString\<close> and the message comparison.
\<close>

section \<open>Definitions\<close>

record ('s, 'm) Codec =
  parse_state :: "byte list \<Rightarrow> ('s \<times> bool) option"
  serialise_state :: "'s \<Rightarrow> byte list option"
  parse_move :: "byte list \<Rightarrow> ('m \<times> bool) option"
  MessageDifferencer_Equals :: "'s \<Rightarrow> 's \<Rightarrow> bool"

definition ProtoBoardState_Equals :: "('s, 'm) Codec \<Rightarrow> 's \<Rightarrow> byte list \<Rightarrow> bool" where
  "ProtoBoardState_Equals codec state other = (case parse_state codec other of
     None \<Rightarrow> False
   | Some (po, unknown) \<Rightarrow> if unknown then False else MessageDifferencer_Equals codec state po)"

definition ProtoBoardState_ApplyMove ::
  "('s, 'm) Codec \<Rightarrow> ('m \<Rightarrow> 's res) \<Rightarrow> byte list \<Rightarrow> byte list res" where
  "ProtoBoardState_ApplyMove codec applyMoveProto mv = (case parse_move codec mv of
     None \<Rightarrow> Inl Rejected
   | Some (pm, unknown) \<Rightarrow>
     if unknown then Inl Rejected
     else rbind (applyMoveProto pm) (\<lambda>pn. orFatal (serialise_state codec pn)))"

definition ProtoBoardRules_ParseState ::
  "('s, 'm) Codec \<Rightarrow> ('s \<Rightarrow> 'p) \<Rightarrow> ('p \<Rightarrow> bool option) \<Rightarrow> byte list \<Rightarrow> 'p res" where
  "ProtoBoardRules_ParseState codec mk isValid s = (case parse_state codec s of
     None \<Rightarrow> Inl Rejected
   | Some (p, unknown) \<Rightarrow>
     if unknown then Inl Rejected
     else
       let res = mk p in
       rbind (orFatal (isValid res)) (\<lambda>valid. if \<not> valid then Inl Rejected else Inr res))"

definition ShipsBoardRules ::
  "(byte list \<Rightarrow> uint256) \<Rightarrow> (BoardState, BoardMove) Codec \<Rightarrow> ShipsBoardState BoardRules" where
  "ShipsBoardRules sha codec =
    \<lparr>ParseState = (\<lambda>channelId meta s.
       ProtoBoardRules_ParseState codec (\<lambda>p. \<lparr>GetMetadata = meta, GetState = p\<rparr>) IsValid s),
     GetProtoVersion = (\<lambda>meta. ORIGINAL),
     pEquals = (\<lambda>p other. ProtoBoardState_Equals codec (GetState p) other),
     pWhoseTurn = WhoseTurn,
     pTurnCount = TurnCount,
     pApplyMove = (\<lambda>p mv. ProtoBoardState_ApplyMove codec (ApplyMoveProto sha p) mv)\<rparr>"

section \<open>The laws\<close>

text \<open>
  The documented behaviour of protocol buffers that the rules rely on: a message that is serialised
  parses back without unknown fields, and the comparison is the equality of messages.
\<close>

definition codec_ok :: "('s, 'm) Codec \<Rightarrow> bool" where
  "codec_ok codec \<longleftrightarrow> (\<forall>s. \<exists>bs. serialise_state codec s = Some bs \<and> parse_state codec bs = Some (s, False))
     \<and> MessageDifferencer_Equals codec = (=)"

definition ships_good :: "uint256 \<Rightarrow> ChannelMetadata \<Rightarrow> ShipsBoardState \<Rightarrow> bool" where
  "ships_good i m p \<longleftrightarrow> GetMetadata p = m \<and> participants_size m = 2 \<and> board_wf (GetState p)"

lemma ships_goodD:
  assumes "ships_good i m p"
  shows "two_players p" "board_wf (GetState p)" "p = \<lparr>GetMetadata = m, GetState = GetState p\<rparr>"
  using assms by (auto simp: ships_good_def two_players_def)

lemma serialise_total:
  assumes "codec_ok codec"
  obtains bs where "serialise_state codec s = Some bs" "parse_state codec bs = Some (s, False)"
  using assms by (auto simp: codec_ok_def)

lemma ships_move_Inr:
  assumes "codec_ok codec" and "pApplyMove (ShipsBoardRules sha codec) p mv = Inr s"
  shows "\<exists>pm pb'. ApplyMoveProto sha p pm = Inr pb' \<and> parse_state codec s = Some (pb', False)"
proof -
  from assms(2) obtain pm pn where "ApplyMoveProto sha p pm = Inr pn" and "serialise_state codec pn = Some s"
    by (auto simp: ShipsBoardRules_def ProtoBoardState_ApplyMove_def rbind_eq_Inr_conv
        split: option.splits if_splits)
  with serialise_total [OF assms(1), of pn] show ?thesis by (metis option.inject)
qed

lemma ships_parse:
  assumes "ships_good i m p" and "parse_state codec s = Some (GetState p, False)"
  shows "ParseState (ShipsBoardRules sha codec) i m s = Inr p"
  using assms IsValid_wf [OF ships_goodD(1,2), OF assms(1) assms(1)] ships_goodD(3) [OF assms(1)]
  by (simp add: ShipsBoardRules_def ProtoBoardRules_ParseState_def)

lemma ships_board_rules:
  assumes codec: "codec_ok codec" and sha: "sha_ok sha"
  shows "board_rules (ShipsBoardRules sha codec) ships_good"
proof
  fix i m p
  assume good: "ships_good i m p"
  note g = ships_goodD [OF good]
  show "\<exists>t. pWhoseTurn (ShipsBoardRules sha codec) p = Some t
      \<and> (t = NO_TURN \<or> 0 \<le> t \<and> t < int (participants_size m))"
    using WhoseTurn_wf [OF g(1,2)] turn_set_wf [OF g(2)] good
    by (auto simp: ShipsBoardRules_def turn_set_def ships_good_def)
  show "\<exists>c. pTurnCount (ShipsBoardRules sha codec) p = Some c"
    using TurnCount_eq [OF g(1,2)] by (simp add: ShipsBoardRules_def)
  fix s
  show "pEquals (ShipsBoardRules sha codec) p s \<longleftrightarrow> ParseState (ShipsBoardRules sha codec) i m s = Inr p"
  proof
    assume "pEquals (ShipsBoardRules sha codec) p s"
    then have "parse_state codec s = Some (GetState p, False)"
      using codec by (auto simp: ShipsBoardRules_def ProtoBoardState_Equals_def codec_ok_def
          split: option.splits if_splits)
    with good show "ParseState (ShipsBoardRules sha codec) i m s = Inr p"
      by (rule ships_parse)
  next
    assume "ParseState (ShipsBoardRules sha codec) i m s = Inr p"
    then have "parse_state codec s = Some (GetState p, False)"
      by (auto simp: ShipsBoardRules_def ProtoBoardRules_ParseState_def Let_def rbind_eq_Inr_conv
          split: option.splits if_splits)
    with codec show "pEquals (ShipsBoardRules sha codec) p s"
      by (simp add: ShipsBoardRules_def ProtoBoardState_Equals_def codec_ok_def)
  qed
next
  fix i m p t mv
  assume good: "ships_good i m p" and t: "pWhoseTurn (ShipsBoardRules sha codec) p = Some t" "t \<noteq> NO_TURN"
  note g = ships_goodD [OF good]
  have nf: "GetPhase (GetState p) \<noteq> FINISHED"
    using t WhoseTurn_wf [OF g(1,2)] by (auto simp: ShipsBoardRules_def)
  have ser: "serialise_state codec pn \<noteq> None" for pn
    using serialise_total [OF codec, of pn] by auto
  have "rbind (ApplyMoveProto sha p pm) (\<lambda>pn. orFatal (serialise_state codec pn)) \<noteq> Inl CheckFailed" for pm
    using ApplyMoveProto_wf(1) [OF g(1,2) nf sha, of pm] ser
    by (cases "ApplyMoveProto sha p pm") (auto simp: orFatal_def split: option.split)
  then show "pApplyMove (ShipsBoardRules sha codec) p mv \<noteq> Inl CheckFailed"
    by (simp add: ShipsBoardRules_def ProtoBoardState_ApplyMove_def split: option.split)
next
  fix i m p mv s
  assume good: "ships_good i m p" and mv: "pApplyMove (ShipsBoardRules sha codec) p mv = Inr s"
  note g = ships_goodD [OF good]
  obtain pm pb' where a: "ApplyMoveProto sha p pm = Inr pb'" and s: "parse_state codec s = Some (pb', False)"
    using ships_move_Inr [OF codec mv] by blast
  have nf: "GetPhase (GetState p) \<noteq> FINISHED"
    using finished_no_move [OF g(1,2)] a by auto
  let ?p' = "\<lparr>GetMetadata = m, GetState = pb'\<rparr>"
  have "ships_good i m ?p'"
    using ApplyMoveProto_wf(2) [OF g(1,2) nf sha a] good by (simp add: ships_good_def)
  moreover from this have "ParseState (ShipsBoardRules sha codec) i m s = Inr ?p'"
    using s by (intro ships_parse) simp_all
  ultimately show "\<exists>p'. ParseState (ShipsBoardRules sha codec) i m s = Inr p' \<and> ships_good i m p'"
    by blast
qed

section \<open>An instance\<close>

text \<open>
  A concrete codec, to instantiate the laws: the number of a state in an enumeration of all states, in
  unary, and a move that is always the first commitment of the concrete game.
\<close>

definition state_code :: "BoardState \<Rightarrow> nat" where
  "state_code s = to_nat (turn s, position_hashes s, seed_hash_0 s, seed_1 s,
     map (\<lambda>k. (guessed k, hits k)) (known_ships s), current_shot s, positions s, winner s)"

definition code_state :: "nat \<Rightarrow> BoardState" where
  "code_state n = (case from_nat n of (t, ph, sh, s1, ks, cs, ps, w) \<Rightarrow>
     \<lparr>turn = t, position_hashes = ph, seed_hash_0 = sh, seed_1 = s1,
      known_ships = map (\<lambda>(g, h). \<lparr>guessed = g, hits = h\<rparr>) ks, current_shot = cs, positions = ps, winner = w\<rparr>)"

lemma code_state_code: "code_state (state_code s) = s"
proof -
  have "\<lparr>guessed = guessed x, hits = hits x\<rparr> = x" for x :: KnownShips
    by simp
  then have "map (\<lambda>x. \<lparr>guessed = guessed x, hits = hits x\<rparr>) ks = ks" for ks
    by (intro map_idI) simp
  then show ?thesis
    by (simp add: code_state_def state_code_def comp_def)
qed

definition demo_codec :: "(BoardState, BoardMove) Codec" where
  "demo_codec =
    \<lparr>parse_state = (\<lambda>bs. Some (code_state (length bs), False)),
     serialise_state = (\<lambda>s. Some (replicate (state_code s) 0)),
     parse_move = (\<lambda>bs. Some (demo_commit (bs = []), False)),
     MessageDifferencer_Equals = (=)\<rparr>"

lemma demo_codec_ok: "codec_ok demo_codec"
  by (simp add: codec_ok_def demo_codec_def code_state_code)

interpretation ships: board_rules "ShipsBoardRules demo_sha demo_codec" ships_good
  by (rule ships_board_rules [OF demo_codec_ok demo_sha_ok])

definition demo_env :: "ShipsBoardState ChannelEnv" where
  "demo_env =
    \<lparr>rules = ShipsBoardRules demo_sha demo_codec, verifier = (\<lambda>msg sig. ''addr 1''), gameId = ''ships'',
     env_sha = demo_sha, EncodeBase64 = (\<lambda>bs. []), HasAnyUnknownFields = (\<lambda>pf. False)\<rparr>"

definition demo_signer :: SignatureSigner where
  "demo_signer = \<lparr>GetAddress = ''addr 1'', SignMessage = (\<lambda>msg. [])\<rparr>"

definition demo_bytes :: "BoardState \<Rightarrow> byte list" where
  "demo_bytes s = replicate (state_code s) 0"

definition demo_proof :: StateProof where
  "demo_proof = \<lparr>initial_state = Some (default_SignedData\<lparr>sd_data := Some (demo_bytes InitialBoardState)\<rparr>),
     transitions = []\<rparr>"

lemma demo_proof_data: "get_data (get_initial_state demo_proof) = demo_bytes InitialBoardState"
  by (simp add: demo_proof_def get_initial_state_def get_data_def)

lemma demo_parse: "parse_state demo_codec (demo_bytes s) = Some (s, False)"
  by (simp add: demo_codec_def demo_bytes_def code_state_code)

lemma demo_initial_good: "ships_good i demo_meta \<lparr>GetMetadata = demo_meta, GetState = InitialBoardState\<rparr>"
  by (simp add: ships_good_def demo_two initial_wf)

lemma demo_initial_parse:
  "ParseState (ShipsBoardRules demo_sha demo_codec) i demo_meta (demo_bytes InitialBoardState)
     = Inr \<lparr>GetMetadata = demo_meta, GetState = InitialBoardState\<rparr>"
  by (rule ships_parse [OF demo_initial_good]) (simp add: demo_parse)

section \<open>Properties\<close>

text \<open>
  C9: a state proof is valid exactly when its initial state parses, every transition is a valid move
  of the player whose turn it is with the resulting state signed by that player, and either the initial
  state is the reinitialisation state of the channel or every participant has signed at least one of
  the states; the state it proves is that of its last transition.
\<close>

theorem state_proof_valid_iff:
  "VerifyStateProof env channelId meta reinitState pf = Inr s \<longleftrightarrow>
    s = UnverifiedProofEndState pf \<and>
    (\<exists>p q. ParseState (rules env) channelId meta (get_data (get_initial_state pf)) = Inr p
       \<and> signed_run env channelId meta p (transitions pf) q
       \<and> agreed env channelId meta reinitState p pf)"
  by (rule VerifyStateProof_iff)

text \<open>
  For the ships game, checking a state proof whose initial state is a well-formed board state of
  a channel with two participants never aborts the process, whatever its transitions contain.
\<close>

lemma ships_state_proof_no_abort:
  assumes "codec_ok codec" and "sha_ok sha" and "rules env = ShipsBoardRules sha codec"
    and "participants_size meta = 2"
    and "parse_state codec (get_data (get_initial_state pf)) = Some (pb, False)" and "board_wf pb"
  shows "VerifyStateProof env channelId meta reinitState pf \<noteq> Inl CheckFailed"
proof -
  let ?p = "\<lparr>GetMetadata = meta, GetState = pb\<rparr>"
  have good: "ships_good channelId meta ?p"
    using assms(4,6) by (simp add: ships_good_def)
  have "ParseState (ShipsBoardRules sha codec) channelId meta (get_data (get_initial_state pf)) = Inr ?p"
    by (rule ships_parse [OF good]) (simp add: assms(5))
  from board_rules.proof_no_abort [OF ships_board_rules [OF assms(1,2)] this good assms(3)] show ?thesis .
qed

text \<open>
  C6: a valid state proof of a ships channel with two participants that starts in a well-formed state can be
  extended by every valid move of the player whose turn it is, with that player's signer, when the
  verifier accepts its signatures: \<open>ExtendStateProof\<close> succeeds, and
  the possibly shortened proof it returns is valid and proves the state after the move.
\<close>

theorem ships_extend_proof:
  assumes "codec_ok codec" and "sha_ok sha" and "rules env = ShipsBoardRules sha codec"
    and "participants_size meta = 2"
    and "parse_state codec (get_data (get_initial_state pf)) = Some (pb, False)" and "board_wf pb"
    and "VerifyStateProof env channelId meta reinitState pf = Inr e"
    and "ParseState (rules env) channelId meta e = Inr q"
    and "WhoseTurn q = Some t" and "t \<noteq> NO_TURN" and "pApplyMove (rules env) q mv = Inr s"
    and "get_address (participants meta ! nat t) = GetAddress signer"
    and "\<And>msg. verifier env msg (SignMessage signer msg) = GetAddress signer"
  shows "\<exists>pf'. ExtendStateProof env signer channelId meta pf mv = Inr pf'
    \<and> VerifyStateProof env channelId meta reinitState pf' = Inr s"
proof -
  let ?p = "\<lparr>GetMetadata = meta, GetState = pb\<rparr>"
  have good: "ships_good channelId meta ?p"
    using assms(4,6) by (simp add: ships_good_def)
  have parse: "ParseState (ShipsBoardRules sha codec) channelId meta (get_data (get_initial_state pf)) = Inr ?p"
    by (rule ships_parse [OF good]) (simp add: assms(5))
  have t: "pWhoseTurn (ShipsBoardRules sha codec) q = Some t"
    using assms(9) by (simp add: ShipsBoardRules_def)
  show ?thesis
    using board_rules.extend_valid [OF ships_board_rules [OF assms(1,2)] parse good assms(3,7)
          assms(8) [unfolded assms(3)] t assms(10) assms(11) [unfolded assms(3)] assms(12,13)] by blast
qed

theorem ships_extend_proof_witness:
  "\<exists>pf'. ExtendStateProof demo_env demo_signer SetNull demo_meta demo_proof [] = Inr pf'
    \<and> VerifyStateProof demo_env SetNull demo_meta (demo_bytes InitialBoardState) pf' = Inr (demo_bytes demo_1)"
proof (rule ships_extend_proof [OF demo_codec_ok demo_sha_ok _ demo_two])
  let ?p = "\<lparr>GetMetadata = demo_meta, GetState = InitialBoardState\<rparr>"
  show r: "rules demo_env = ShipsBoardRules demo_sha demo_codec"
    by (simp add: demo_env_def)
  show "parse_state demo_codec (get_data (get_initial_state demo_proof)) = Some (InitialBoardState, False)"
    by (simp add: demo_proof_data demo_parse)
  show p: "ParseState (rules demo_env) SetNull demo_meta (demo_bytes InitialBoardState) = Inr ?p"
    by (simp add: r demo_initial_parse)
  have "pEquals (rules demo_env) ?p (demo_bytes InitialBoardState)"
    using ships.equals_iff [OF demo_initial_good] demo_initial_parse by (simp add: r)
  with p show "VerifyStateProof demo_env SetNull demo_meta (demo_bytes InitialBoardState) demo_proof
      = Inr (demo_bytes InitialBoardState)"
    by (auto simp: VerifyStateProof_iff UnverifiedProofEndState_def demo_proof_data agreed_def)
      (auto simp: demo_proof_def)
  show "WhoseTurn ?p = Some 0"
    by (simp add: WhoseTurn_def demo_two InitialBoardState_def)
  show "pApplyMove (rules demo_env) ?p [] = Inr (demo_bytes demo_1)"
    using demo_moves(1)
    by (simp add: r ShipsBoardRules_def ProtoBoardState_ApplyMove_def demo_codec_def demo_bytes_def)
qed (simp_all add: initial_wf NO_TURN_def demo_meta_def demo_signer_def demo_env_def get_address_def)

text \<open>
  C38: there are state proofs, without any signature, whose check aborts the process of every daemon
  that processes them: the initial state is the valid state above with one entry for the known ships,
  followed by a commitment of the second player.
\<close>

theorem crafted_proof_aborts:
  assumes "codec_ok codec" and "rules env = ShipsBoardRules sha codec"
    and "serialise_state codec crafted_state = Some bs" and "parse_move codec mv = Some (demo_commit False, False)"
  shows "VerifyStateProof env channelId demo_meta reinitState
    \<lparr>initial_state = Some (default_SignedData\<lparr>sd_data := Some bs\<rparr>),
     transitions = [\<lparr>tr_move = Some mv, new_state = None\<rparr>]\<rparr> = Inl CheckFailed"
proof -
  let ?c = "\<lparr>GetMetadata = demo_meta, GetState = crafted_state\<rparr>"
  obtain pb' where pb': "ApplyMoveProto sha ?c (demo_commit False) = Inr pb'"
    and inv: "IsValid \<lparr>GetMetadata = demo_meta, GetState = pb'\<rparr> = Some False"
    and val: "IsValid ?c = Some True"
    using crafted_successor by blast
  obtain bs' where bs': "serialise_state codec pb' = Some bs'" "parse_state codec bs' = Some (pb', False)"
    using serialise_total [OF assms(1)] .
  have p: "parse_state codec bs = Some (crafted_state, False)"
    using serialise_total [OF assms(1), of crafted_state] assms(3) by auto
  have parse: "ParseState (rules env) channelId demo_meta bs = Inr ?c"
    using p val by (simp add: assms(2) ShipsBoardRules_def ProtoBoardRules_ParseState_def)
  have rej: "ParseState (rules env) channelId demo_meta bs' = Inl Rejected"
    using bs'(2) inv by (simp add: assms(2) ShipsBoardRules_def ProtoBoardRules_ParseState_def)
  have move: "pApplyMove (rules env) ?c mv = Inr bs'"
    using pb' bs'(1) assms(4) by (simp add: assms(2) ShipsBoardRules_def ProtoBoardState_ApplyMove_def)
  have turn: "pWhoseTurn (rules env) ?c = Some 1"
    by (simp add: assms(2) ShipsBoardRules_def WhoseTurn_def demo_two crafted_state_def demo_1_def)
  have "ExtraVerifyStateTransition env channelId demo_meta ?c \<lparr>tr_move = Some mv, new_state = None\<rparr> = Inl CheckFailed"
    using turn move rej by (simp add: ExtraVerifyStateTransition_def NO_TURN_def)
  then show ?thesis
    using parse by (simp add: VerifyStateProof_def VerifyParticipantSignatures_state get_initial_state_def
        get_data_def Let_def)
qed

theorem crafted_proof_aborts_witness:
  "VerifyStateProof demo_env SetNull demo_meta []
    \<lparr>initial_state = Some (default_SignedData\<lparr>sd_data := Some (demo_bytes crafted_state)\<rparr>),
     transitions = [\<lparr>tr_move = Some [1], new_state = None\<rparr>]\<rparr> = Inl CheckFailed"
  by (rule crafted_proof_aborts [OF demo_codec_ok])
    (simp_all add: demo_env_def demo_codec_def demo_bytes_def)

end
