(* ===== verification/ChannelGame.thy ===== *)
theory ChannelGame
  imports StateProofs Tables
begin

text \<open>
  Channels on chain: the channel data and its database row (\<open>sidechannel/database.cpp\<close>) and the
  processing of disputes, resolutions and pending state proofs (\<open>sidechannel/channelgame.cpp\<close>).

  The table is a table of rows by channel ID, as the primary key of the schema makes it; metadata and
  proofs stand in a row as messages, their serialised form being that of the protocol-buffer library.
\<close>

section \<open>Channel data\<close>

record ChannelData =
  cd_id :: uint256
  cd_metadata :: ChannelMetadata
  cd_reinit :: "byte list"
  cd_proof :: StateProof
  initialised :: bool
  disputeHeight :: u32
  dirty :: bool

record ChannelRow =
  row_metadata :: ChannelMetadata
  row_reinit :: "byte list"
  row_stateproof :: "StateProof option"
  row_disputeHeight :: "u32 option"

type_synonym ChannelsTable = "(uint256 \<times> ChannelRow) list"

definition StateProofFromReinit :: "byte list \<Rightarrow> StateProof" where
  "StateProofFromReinit re =
    \<lparr>initial_state = Some (default_SignedData\<lparr>sd_data := Some re\<rparr>), transitions = []\<rparr>"

text \<open>The two constructors; the fields that the first leaves unset have their default value.\<close>

definition new_ChannelData :: "uint256 \<Rightarrow> ChannelData" where
  "new_ChannelData i =
    \<lparr>cd_id = i, cd_metadata = \<lparr>participants = [], reinit = None, custom = None\<rparr>, cd_reinit = [],
     cd_proof = \<lparr>initial_state = None, transitions = []\<rparr>, initialised = False, disputeHeight = 0, dirty = True\<rparr>"

definition load_ChannelData :: "uint256 \<Rightarrow> ChannelRow \<Rightarrow> ChannelData" where
  "load_ChannelData i r =
    \<lparr>cd_id = i, cd_metadata = row_metadata r, cd_reinit = row_reinit r,
     cd_proof = (case row_stateproof r of None \<Rightarrow> StateProofFromReinit (row_reinit r) | Some p \<Rightarrow> p),
     initialised = True,
     disputeHeight = (case row_disputeHeight r of None \<Rightarrow> 0 | Some h \<Rightarrow> h),
     dirty = False\<rparr>"

definition GetLatestState :: "ChannelData \<Rightarrow> byte list option" where
  "GetLatestState ch = do { check (initialised ch); Some (UnverifiedProofEndState (cd_proof ch)) }"

definition HasDispute :: "ChannelData \<Rightarrow> bool" where
  "HasDispute ch \<longleftrightarrow> disputeHeight ch > 0"

definition GetDisputeHeight :: "ChannelData \<Rightarrow> u32 option" where
  "GetDisputeHeight ch = do { check (disputeHeight ch > 0); Some (disputeHeight ch) }"

definition ClearDispute :: "ChannelData \<Rightarrow> ChannelData" where
  "ClearDispute ch = ch\<lparr>dirty := True, disputeHeight := 0\<rparr>"

definition SetDisputeHeight :: "u32 \<Rightarrow> ChannelData \<Rightarrow> ChannelData option" where
  "SetDisputeHeight h ch = do { check (h > 0); Some (ch\<lparr>dirty := True, disputeHeight := h\<rparr>) }"

definition SetStateProof :: "StateProof \<Rightarrow> ChannelData \<Rightarrow> ChannelData option" where
  "SetStateProof p ch = do { check (initialised ch); Some (ch\<lparr>dirty := True, cd_proof := p\<rparr>) }"

definition Reinitialise :: "ChannelMetadata \<Rightarrow> byte list \<Rightarrow> ChannelData \<Rightarrow> ChannelData option" where
  "Reinitialise m initialisedState ch = do {
     check (initialised ch \<longrightarrow> get_or [] (reinit (cd_metadata ch)) \<noteq> get_or [] (reinit m));
     Some (ch\<lparr>cd_metadata := m, cd_reinit := initialisedState,
              cd_proof := StateProofFromReinit initialisedState, initialised := True, dirty := True\<rparr>)
   }"

text \<open>The destructor, which writes a modified instance back.\<close>

definition destroy_ChannelData :: "ChannelData \<Rightarrow> ChannelsTable \<Rightarrow> ChannelsTable option" where
  "destroy_ChannelData ch tbl = do {
     check (initialised ch);
     if \<not> dirty ch then Some tbl
     else do {
       latest \<leftarrow> GetLatestState ch;
       Some (member_set (cd_id ch)
         \<lparr>row_metadata = cd_metadata ch, row_reinit = cd_reinit ch,
          row_stateproof = (if latest = cd_reinit ch then None else Some (cd_proof ch)),
          row_disputeHeight = (if disputeHeight ch = 0 then None else Some (disputeHeight ch))\<rparr> tbl)
     }
   }"

definition GetById :: "uint256 \<Rightarrow> ChannelsTable \<Rightarrow> ChannelData option" where
  "GetById i tbl = map_option (load_ChannelData i) (map_of tbl i)"

definition DeleteById :: "uint256 \<Rightarrow> ChannelsTable \<Rightarrow> ChannelsTable" where
  "DeleteById i tbl = member_del i tbl"

text \<open>The rows in the order of the IDs; a missing dispute height is \<open>NULL\<close> and matches no comparison.\<close>

definition QueryAll :: "ChannelsTable \<Rightarrow> (uint256 \<times> ChannelRow) list" where
  "QueryAll tbl = tbl"

definition QueryForDisputeHeight :: "u32 \<Rightarrow> ChannelsTable \<Rightarrow> (uint256 \<times> ChannelRow) list" where
  "QueryForDisputeHeight height tbl =
    filter (\<lambda>r. case row_disputeHeight (snd r) of None \<Rightarrow> False | Some h \<Rightarrow> h \<le> height) tbl"

definition GetFromResult :: "uint256 \<times> ChannelRow \<Rightarrow> ChannelData" where
  "GetFromResult r = load_ChannelData (fst r) (snd r)"

section \<open>Disputes and resolutions\<close>

text \<open>
  The operations return whether they accepted the proof, and the channel; \<open>None\<close> is an abort.  A
  refusal of the state proof check is the value \<open>False\<close> here.
\<close>

definition proven_state ::
  "'p ChannelEnv \<Rightarrow> ChannelData \<Rightarrow> StateProof \<Rightarrow> byte list option option" where
  "proven_state env ch pf =
    (case VerifyStateProof env (cd_id ch) (cd_metadata ch) (cd_reinit ch) pf of
       Inl CheckFailed \<Rightarrow> None
     | Inl Rejected \<Rightarrow> Some None
     | Inr s \<Rightarrow> Some (Some s))"

definition parse_checked :: "'p ChannelEnv \<Rightarrow> ChannelData \<Rightarrow> byte list \<Rightarrow> 'p option" where
  "parse_checked env ch s =
    (case ParseState (rules env) (cd_id ch) (cd_metadata ch) s of Inl _ \<Rightarrow> None | Inr p \<Rightarrow> Some p)"

definition ProcessDispute ::
  "'p ChannelEnv \<Rightarrow> ChannelData \<Rightarrow> u32 \<Rightarrow> StateProof \<Rightarrow> (bool \<times> ChannelData) option" where
  "ProcessDispute env ch height pf = do {
     (if HasDispute ch then do { h \<leftarrow> GetDisputeHeight ch; check (height \<ge> h) } else Some ());
     check (initialised ch);
     if \<not> CheckVersionedProto env (cd_metadata ch) pf then Some (False, ch)
     else do {
       proven \<leftarrow> proven_state env ch pf;
       (case proven of
          None \<Rightarrow> Some (False, ch)
        | Some provenState \<Rightarrow> do {
            onChainState \<leftarrow> GetLatestState ch;
            onChainParsed \<leftarrow> parse_checked env ch onChainState;
            provenParsed \<leftarrow> parse_checked env ch provenState;
            turn \<leftarrow> pWhoseTurn (rules env) provenParsed;
            if turn = NO_TURN then Some (False, ch)
            else do {
              onChainCnt \<leftarrow> pTurnCount (rules env) onChainParsed;
              provenCnt \<leftarrow> pTurnCount (rules env) provenParsed;
              if provenCnt > onChainCnt then do {
                ch \<leftarrow> SetStateProof pf ch;
                ch \<leftarrow> SetDisputeHeight height ch;
                Some (True, ch) }
              else if provenCnt < onChainCnt then Some (False, ch)
              else if HasDispute ch then Some (False, ch)
              else if \<not> pEquals (rules env) provenParsed onChainState then Some (False, ch)
              else do {
                ch \<leftarrow> SetDisputeHeight height ch;
                Some (True, ch) } } })
     }
   }"

definition ProcessResolution ::
  "'p ChannelEnv \<Rightarrow> ChannelData \<Rightarrow> StateProof \<Rightarrow> (bool \<times> ChannelData) option" where
  "ProcessResolution env ch pf = do {
     check (initialised ch);
     if \<not> CheckVersionedProto env (cd_metadata ch) pf then Some (False, ch)
     else do {
       proven \<leftarrow> proven_state env ch pf;
       (case proven of
          None \<Rightarrow> Some (False, ch)
        | Some provenState \<Rightarrow> do {
            onChainState \<leftarrow> GetLatestState ch;
            onChainParsed \<leftarrow> parse_checked env ch onChainState;
            provenParsed \<leftarrow> parse_checked env ch provenState;
            onChainCnt \<leftarrow> pTurnCount (rules env) onChainParsed;
            provenCnt \<leftarrow> pTurnCount (rules env) provenParsed;
            if provenCnt \<le> onChainCnt then Some (False, ch)
            else do {
              ch \<leftarrow> SetStateProof pf ch;
              Some (True, ClearDispute ch) } })
     }
   }"

section \<open>Pending state proofs\<close>

record PendingChannelData =
  pend_proof :: StateProof
  pend_turnCount :: u32

type_synonym PendingChannels = "(uint256 \<times> PendingChannelData) list"

definition PendingMoves_Clear :: PendingChannels where
  "PendingMoves_Clear = []"

definition AddPendingStateProof ::
  "'p ChannelEnv \<Rightarrow> ChannelData \<Rightarrow> StateProof \<Rightarrow> PendingChannels \<Rightarrow> PendingChannels option" where
  "AddPendingStateProof env ch pf channels = do {
     check (initialised ch);
     if \<not> CheckVersionedProto env (cd_metadata ch) pf then Some channels
     else do {
       proven \<leftarrow> proven_state env ch pf;
       (case proven of
          None \<Rightarrow> Some channels
        | Some provenState \<Rightarrow> do {
            provenParsed \<leftarrow> parse_checked env ch provenState;
            provenCnt \<leftarrow> pTurnCount (rules env) provenParsed;
            (case map_of channels (cd_id ch) of
               None \<Rightarrow> do {
                 onChainState \<leftarrow> GetLatestState ch;
                 onChainParsed \<leftarrow> parse_checked env ch onChainState;
                 onChainCnt \<leftarrow> pTurnCount (rules env) onChainParsed;
                 if provenCnt > onChainCnt
                 then Some (member_set (cd_id ch) \<lparr>pend_proof = pf, pend_turnCount = provenCnt\<rparr> channels)
                 else Some channels }
             | Some pending \<Rightarrow>
                 if provenCnt > pend_turnCount pending
                 then Some (member_set (cd_id ch) \<lparr>pend_proof = pf, pend_turnCount = provenCnt\<rparr> channels)
                 else Some channels) })
     }
   }"

definition UpdateMetadataReinit :: "(byte list \<Rightarrow> uint256) \<Rightarrow> uint256 \<Rightarrow> ChannelMetadata \<Rightarrow> ChannelMetadata" where
  "UpdateMetadataReinit sha mvid meta =
    meta\<lparr>reinit := Some (GetBinaryString (sha (get_or [] (reinit meta) @ GetBinaryString mvid)))\<rparr>"

section \<open>Facts\<close>

lemma UnverifiedProofEndState_reinit [simp]: "UnverifiedProofEndState (StateProofFromReinit re) = re"
  by (simp add: UnverifiedProofEndState_def StateProofFromReinit_def get_initial_state_def get_data_def)

lemma GetLatestState_eq [simp]:
  "initialised ch \<Longrightarrow> GetLatestState ch = Some (UnverifiedProofEndState (cd_proof ch))"
  by (simp add: GetLatestState_def)

text \<open>
  The turn count of the state that a channel stores, and the validity of what it stores: the proof is
  valid for the reinitialisation of the channel.
\<close>

definition channel_turn :: "'p ChannelEnv \<Rightarrow> ChannelData \<Rightarrow> u32 option" where
  "channel_turn env ch = do {
     s \<leftarrow> GetLatestState ch;
     p \<leftarrow> parse_checked env ch s;
     pTurnCount (rules env) p
   }"

definition channel_ok :: "'p ChannelEnv \<Rightarrow> ChannelData \<Rightarrow> bool" where
  "channel_ok env ch \<longleftrightarrow> initialised ch \<and> channel_turn env ch \<noteq> None
     \<and> VerifyStateProof env (cd_id ch) (cd_metadata ch) (cd_reinit ch) (cd_proof ch)
         = Inr (UnverifiedProofEndState (cd_proof ch))"

lemma proven_state_Some:
  "proven_state env ch pf = Some (Some s) \<longleftrightarrow>
     VerifyStateProof env (cd_id ch) (cd_metadata ch) (cd_reinit ch) pf = Inr s"
  by (auto simp: proven_state_def split: sum.split fail.split)

lemma proven_end: "VerifyStateProof env i m r pf = Inr s \<Longrightarrow> s = UnverifiedProofEndState pf"
  by (simp add: VerifyStateProof_iff)

lemma dispute_cases:
  assumes "ProcessDispute env ch height pf = Some (ok, ch')"
  shows "\<not> ok \<and> ch' = ch \<or>
    ok \<and> height > 0 \<and> VerifyStateProof env (cd_id ch) (cd_metadata ch) (cd_reinit ch) pf
          = Inr (UnverifiedProofEndState pf)
      \<and> (\<exists>old new. channel_turn env ch = Some old \<and> channel_turn env (ch\<lparr>cd_proof := pf\<rparr>) = Some new
          \<and> (ch' = ch\<lparr>dirty := True, cd_proof := pf, disputeHeight := height\<rparr> \<and> old < new
             \<or> ch' = ch\<lparr>dirty := True, disputeHeight := height\<rparr> \<and> old = new \<and> \<not> HasDispute ch))"
proof -
  from assms have init: "initialised ch"
    by (auto simp: ProcessDispute_def split: if_splits bind_splits)
  note a = assms [unfolded ProcessDispute_def, simplified]
  show ?thesis
  proof (cases "\<exists>s. proven_state env ch pf = Some (Some s)")
    case True
    then obtain s where s: "proven_state env ch pf = Some (Some s)" by blast
    then have v: "VerifyStateProof env (cd_id ch) (cd_metadata ch) (cd_reinit ch) pf
        = Inr (UnverifiedProofEndState pf)" and se: "s = UnverifiedProofEndState pf"
      using proven_end by (auto simp: proven_state_Some)
    have pc: "parse_checked env (ch\<lparr>cd_proof := pf\<rparr>) x = parse_checked env ch x" for x
      by (simp add: parse_checked_def)
    show ?thesis
      using a init s v
      by (auto simp: se channel_turn_def pc SetStateProof_def SetDisputeHeight_def
          split: if_splits bind_splits)
  next
    case False
    then show ?thesis
      using a by (auto split: if_splits bind_splits option.splits)
  qed
qed

lemma resolution_cases:
  assumes "ProcessResolution env ch pf = Some (ok, ch')"
  shows "\<not> ok \<and> ch' = ch \<or>
    ok \<and> VerifyStateProof env (cd_id ch) (cd_metadata ch) (cd_reinit ch) pf = Inr (UnverifiedProofEndState pf)
      \<and> ch' = ch\<lparr>cd_proof := pf, dirty := True, disputeHeight := 0\<rparr>
      \<and> (\<exists>old new. channel_turn env ch = Some old \<and> channel_turn env (ch\<lparr>cd_proof := pf\<rparr>) = Some new \<and> old < new)"
proof -
  from assms have init: "initialised ch"
    by (auto simp: ProcessResolution_def split: if_splits bind_splits)
  note a = assms [unfolded ProcessResolution_def, simplified]
  show ?thesis
  proof (cases "\<exists>s. proven_state env ch pf = Some (Some s)")
    case True
    then obtain s where s: "proven_state env ch pf = Some (Some s)" by blast
    then have v: "VerifyStateProof env (cd_id ch) (cd_metadata ch) (cd_reinit ch) pf
        = Inr (UnverifiedProofEndState pf)" and se: "s = UnverifiedProofEndState pf"
      using proven_end by (auto simp: proven_state_Some)
    have pc: "parse_checked env (ch\<lparr>cd_proof := pf\<rparr>) x = parse_checked env ch x" for x
      by (simp add: parse_checked_def)
    show ?thesis
      using a init s v
      by (auto simp: se channel_turn_def pc SetStateProof_def ClearDispute_def not_le
          split: if_splits bind_splits)
  next
    case False
    then show ?thesis
      using a by (auto split: if_splits bind_splits option.splits)
  qed
qed

lemma channel_turn_frame [simp]:
  "channel_turn env (ch\<lparr>dirty := d\<rparr>) = channel_turn env ch"
  "channel_turn env (ch\<lparr>disputeHeight := h\<rparr>) = channel_turn env ch"
  by (simp_all add: channel_turn_def GetLatestState_def parse_checked_def)

lemma channel_ok_frame [simp]:
  "channel_ok env (ch\<lparr>dirty := d\<rparr>) = channel_ok env ch"
  "channel_ok env (ch\<lparr>disputeHeight := h\<rparr>) = channel_ok env ch"
  by (simp_all add: channel_ok_def)

lemma channel_ok_proof:
  assumes "channel_ok env ch" and "channel_turn env (ch\<lparr>cd_proof := pf\<rparr>) = Some c"
    and "VerifyStateProof env (cd_id ch) (cd_metadata ch) (cd_reinit ch) pf = Inr (UnverifiedProofEndState pf)"
  shows "channel_ok env (ch\<lparr>cd_proof := pf\<rparr>)"
  using assms by (simp add: channel_ok_def)

section \<open>Properties\<close>

text \<open>When a dispute is accepted: at \<open>old\<close> is the state on chain, at \<open>new\<close> the proven one.\<close>

definition dispute_accepted :: "'p ChannelEnv \<Rightarrow> ChannelData \<Rightarrow> StateProof \<Rightarrow> u32 \<Rightarrow> u32 \<Rightarrow> bool" where
  "dispute_accepted env ch pf old new \<longleftrightarrow> CheckVersionedProto env (cd_metadata ch) pf
     \<and> VerifyStateProof env (cd_id ch) (cd_metadata ch) (cd_reinit ch) pf = Inr (UnverifiedProofEndState pf)
     \<and> channel_turn env ch = Some old
     \<and> (\<exists>p t. parse_checked env ch (UnverifiedProofEndState pf) = Some p \<and> pTurnCount (rules env) p = Some new
          \<and> pWhoseTurn (rules env) p = Some t \<and> t \<noteq> NO_TURN
          \<and> (old < new \<or> old = new \<and> \<not> HasDispute ch \<and> pEquals (rules env) p (UnverifiedProofEndState (cd_proof ch))))"

lemma dispute_accepted_ok:
  assumes "ProcessDispute env ch height pf = Some (True, ch')"
  shows "\<exists>old new. dispute_accepted env ch pf old new \<and> 0 < height \<and> (HasDispute ch \<longrightarrow> disputeHeight ch \<le> height)
    \<and> ch' = (if old < new then ch\<lparr>dirty := True, cd_proof := pf, disputeHeight := height\<rparr>
             else ch\<lparr>dirty := True, disputeHeight := height\<rparr>)"
proof -
  note a = assms [unfolded ProcessDispute_def, simplified]
  from a have init: "initialised ch" by (auto split: if_splits bind_splits)
  from a obtain s where s: "proven_state env ch pf = Some (Some s)"
    by (auto split: if_splits bind_splits option.splits)
  then have "s = UnverifiedProofEndState pf"
    "VerifyStateProof env (cd_id ch) (cd_metadata ch) (cd_reinit ch) pf = Inr (UnverifiedProofEndState pf)"
    using proven_end by (auto simp: proven_state_Some)
  with a init s show ?thesis
    by (auto simp: dispute_accepted_def channel_turn_def SetStateProof_def SetDisputeHeight_def GetDisputeHeight_def
        split: if_splits bind_splits)
qed

lemma dispute_rejected:
  assumes "ProcessDispute env ch height pf = Some (False, ch')"
  shows "ch' = ch \<and> \<not> dispute_accepted env ch pf old new"
proof -
  from assms have init: "initialised ch" by (auto simp: ProcessDispute_def split: if_splits bind_splits)
  have "ch' = ch" using dispute_cases [OF assms] by simp
  moreover have False if acc: "dispute_accepted env ch pf old new"
  proof -
    obtain p t where "proven_state env ch pf = Some (Some (UnverifiedProofEndState pf))"
      "CheckVersionedProto env (cd_metadata ch) pf" "channel_turn env ch = Some old"
      "parse_checked env ch (UnverifiedProofEndState pf) = Some p" "pTurnCount (rules env) p = Some new"
      "pWhoseTurn (rules env) p = Some t" "t \<noteq> NO_TURN"
      "old < new \<or> old = new \<and> \<not> HasDispute ch \<and> pEquals (rules env) p (UnverifiedProofEndState (cd_proof ch))"
      using acc unfolding dispute_accepted_def proven_state_Some by blast
    with assms init show False
      by (auto simp: ProcessDispute_def channel_turn_def split: if_splits bind_splits)
  qed
  ultimately show ?thesis by blast
qed

text \<open>
  C23: processing a dispute, when it returns, accepts exactly the proofs that have the right version, are
  valid, prove a state in which it is somebody's turn, and are about a later state than the one on chain or,
  in a channel without a dispute, about the same one.  A later state is stored with its proof; the dispute is
  recorded at the given height, and nothing else changes; a rejected dispute changes nothing.  The channel
  stays valid: it stores a valid proof of a state that parses, and never goes back to an earlier turn.
\<close>

theorem dispute_correct:
  assumes "ProcessDispute env ch height pf = Some (ok, ch')" and "channel_ok env ch"
  shows "channel_ok env ch'
    \<and> (if ok then \<exists>old new. dispute_accepted env ch pf old new \<and> 0 < height \<and> (HasDispute ch \<longrightarrow> disputeHeight ch \<le> height)
           \<and> ch' = (if old < new then ch\<lparr>dirty := True, cd_proof := pf, disputeHeight := height\<rparr>
                    else ch\<lparr>dirty := True, disputeHeight := height\<rparr>)
           \<and> HasDispute ch' \<and> channel_turn env ch' = Some new \<and> old \<le> new
       else ch' = ch \<and> (\<forall>old new. \<not> dispute_accepted env ch pf old new))"
proof (cases ok)
  case True
  then have "ProcessDispute env ch height pf = Some (True, ch')" using assms(1) by simp
  then obtain old new where d: "dispute_accepted env ch pf old new" "0 < height" "HasDispute ch \<longrightarrow> disputeHeight ch \<le> height"
    "ch' = (if old < new then ch\<lparr>dirty := True, cd_proof := pf, disputeHeight := height\<rparr>
            else ch\<lparr>dirty := True, disputeHeight := height\<rparr>)"
    using dispute_accepted_ok by blast
  have eq: "ch\<lparr>dirty := True, cd_proof := pf, disputeHeight := height\<rparr> = ch\<lparr>cd_proof := pf, dirty := True, disputeHeight := height\<rparr>"
    by simp
  have "initialised ch" using assms(2) by (simp add: channel_ok_def)
  then have "channel_turn env (ch\<lparr>cd_proof := pf\<rparr>) = Some new" "channel_turn env ch = Some old" "old \<le> new"
    using d(1) by (auto simp: dispute_accepted_def channel_turn_def parse_checked_def)
  moreover from this(1) d(1) have "channel_ok env (ch\<lparr>cd_proof := pf\<rparr>)"
    unfolding dispute_accepted_def by (intro channel_ok_proof [OF assms(2)]) blast+
  moreover have "\<not> old < new \<Longrightarrow> old = new" using \<open>old \<le> new\<close> by simp
  ultimately have "channel_ok env ch' \<and> HasDispute ch' \<and> channel_turn env ch' = Some new \<and> old \<le> new"
    using d(2) assms(2) unfolding d(4) by (simp add: eq HasDispute_def)
  with d(1-4) True show ?thesis by (simp only: if_True simp_thms) blast
next
  case False
  then have "ProcessDispute env ch height pf = Some (False, ch')" using assms(1) by simp
  from dispute_rejected [OF this] False assms(2) show ?thesis by simp
qed

text \<open>
  C24: an accepted resolution replaces the state by one with a strictly greater turn count and ends the
  dispute; the channel stays valid, and a rejected resolution leaves it unchanged.
\<close>

theorem resolution_correct:
  assumes "ProcessResolution env ch pf = Some (ok, ch')" and "channel_ok env ch"
  shows "channel_ok env ch'
    \<and> (if ok then \<not> HasDispute ch'
          \<and> (\<exists>old new. channel_turn env ch = Some old \<and> channel_turn env ch' = Some new \<and> old < new)
       else ch' = ch)"
  using resolution_cases [OF assms(1)]
proof (elim disjE conjE exE)
  fix old new
  assume ok: "ok" and turns: "channel_turn env ch = Some old" "channel_turn env (ch\<lparr>cd_proof := pf\<rparr>) = Some new"
    and v: "VerifyStateProof env (cd_id ch) (cd_metadata ch) (cd_reinit ch) pf = Inr (UnverifiedProofEndState pf)"
    and ch': "ch' = ch\<lparr>cd_proof := pf, dirty := True, disputeHeight := 0\<rparr>" and less: "old < new"
  have "channel_ok env ch'" "channel_turn env ch' = Some new"
    using channel_ok_proof [OF assms(2) turns(2) v] turns(2) unfolding ch' by simp_all
  then show ?thesis
    using ok turns less by (auto simp: ch' HasDispute_def)
qed (use assms(2) in auto)

text \<open>
  A channel written to the database by the destructor and loaded again has the same metadata,
  reinitialisation state, latest state and dispute height; the other channels stay as they were.
\<close>

lemma channel_store_load:
  assumes "initialised ch" and "dirty ch" and "tbl_ok tbl"
  shows "\<exists>tbl' ch'. destroy_ChannelData ch tbl = Some tbl' \<and> tbl_ok tbl' \<and> GetById (cd_id ch) tbl' = Some ch'
    \<and> cd_metadata ch' = cd_metadata ch \<and> cd_reinit ch' = cd_reinit ch
    \<and> GetLatestState ch' = GetLatestState ch \<and> disputeHeight ch' = disputeHeight ch
    \<and> map_of tbl' |` (- {cd_id ch}) = map_of tbl |` (- {cd_id ch})"
  using assms by (simp add: destroy_ChannelData_def GetById_def load_ChannelData_def)

end
