(* ===== verification/ShipsChannel.thy ===== *)
theory ShipsChannel
  imports ShipsRules ChannelGame RollingState
begin

text \<open>
  The channel layer with the ships rules: a dispute on a channel with well-formed states is processed
  without aborting, and instances of the properties of disputes and resolutions.
\<close>

section \<open>Disputes without aborts\<close>

context board_rules
begin

lemma proven_good:
  assumes "ParseState br i m (get_data (get_initial_state pf)) = Inr p" and "good i m p" and "rules env = br"
    and "VerifyStateProof env i m r pf = Inr s"
  shows "\<exists>q. ParseState br i m s = Inr q \<and> good i m q"
proof -
  obtain q where run: "signed_run env i m p (transitions pf) q"
    and s: "s = run_end (get_data (get_initial_state pf)) (transitions pf)"
    using assms by (auto simp: VerifyStateProof_iff UnverifiedProofEndState_def run_end_def)
  from signed_run_good [OF assms(2,3) run] assms(1) s show ?thesis by blast
qed

lemma dispute_no_abort:
  assumes parse: "ParseState br (cd_id ch) (cd_metadata ch) (get_data (get_initial_state pf)) = Inr p"
    and good: "good (cd_id ch) (cd_metadata ch) p" and br: "rules env = br"
    and ok: "channel_ok env ch" and height: "0 < height" "disputeHeight ch \<le> height"
  shows "ProcessDispute env ch height pf \<noteq> None"
proof -
  have init: "initialised ch" using ok by (simp add: channel_ok_def)
  obtain op oc where on_chain: "parse_checked env ch (UnverifiedProofEndState (cd_proof ch)) = Some op"
    "pTurnCount br op = Some oc"
    using ok init br by (auto simp: channel_ok_def channel_turn_def split: bind_splits)
  have head: "(if HasDispute ch then do { h \<leftarrow> GetDisputeHeight ch; check (height \<ge> h) } else Some ()) = Some ()"
    using height(2) by (simp add: HasDispute_def GetDisputeHeight_def check_def)
  consider (rej) "proven_state env ch pf = Some None"
    | (acc) s where "proven_state env ch pf = Some (Some s)"
        "VerifyStateProof env (cd_id ch) (cd_metadata ch) (cd_reinit ch) pf = Inr s"
    using proof_no_abort [OF parse good br, of "cd_reinit ch"]
    by (cases "VerifyStateProof env (cd_id ch) (cd_metadata ch) (cd_reinit ch) pf")
      (auto simp: proven_state_def split: fail.splits)
  then show ?thesis
  proof cases
    case rej
    then show ?thesis unfolding ProcessDispute_def head using init by auto
  next
    case acc
    obtain q where q: "ParseState br (cd_id ch) (cd_metadata ch) s = Inr q" "good (cd_id ch) (cd_metadata ch) q"
      using proven_good [OF parse good br acc(2)] by blast
    obtain t where t: "pWhoseTurn br q = Some t" using turn_defined [OF q(2)] by blast
    obtain c where c: "pTurnCount br q = Some c" using count_defined [OF q(2)] by blast
    have pq: "parse_checked env ch s = Some q"
      using q(1) br by (simp add: parse_checked_def)
    show ?thesis
      unfolding ProcessDispute_def head using init acc(1) on_chain pq t c br height(1)
      by (auto simp: SetStateProof_def SetDisputeHeight_def)
  qed
qed

end

text \<open>
  A dispute on a ships channel whose proof starts in a well-formed board state is processed without
  aborting, if the channel stores a valid proof and its block is not before an existing dispute.
\<close>

lemma ships_dispute_no_abort:
  assumes "codec_ok codec" and "sha_ok sha" and "rules env = ShipsBoardRules sha codec"
    and "participants_size (cd_metadata ch) = 2"
    and "parse_state codec (get_data (get_initial_state pf)) = Some (pb, False)" and "board_wf pb"
    and "channel_ok env ch" and "0 < height" and "disputeHeight ch \<le> height"
  shows "ProcessDispute env ch height pf \<noteq> None"
proof -
  let ?p = "\<lparr>GetMetadata = cd_metadata ch, GetState = pb\<rparr>"
  have good: "ships_good (cd_id ch) (cd_metadata ch) ?p"
    using assms(4,6) by (simp add: ships_good_def)
  have "ParseState (ShipsBoardRules sha codec) (cd_id ch) (cd_metadata ch) (get_data (get_initial_state pf)) = Inr ?p"
    by (rule ships_parse [OF good]) (simp add: assms(5))
  from board_rules.dispute_no_abort [OF ships_board_rules [OF assms(1,2)] this good assms(3,7-9)] show ?thesis .
qed

section \<open>A concrete channel\<close>

definition demo_channel :: ChannelData where
  "demo_channel =
    \<lparr>cd_id = SetNull, cd_metadata = demo_meta, cd_reinit = demo_bytes InitialBoardState, cd_proof = demo_proof,
     initialised = True, disputeHeight = 0, dirty = False\<rparr>"

definition demo_transition :: StateTransition where
  "demo_transition = \<lparr>tr_move = Some [],
     new_state = Some (default_SignedData\<lparr>sd_data := Some (demo_bytes demo_1), signatures := [[]]\<rparr>)\<rparr>"

definition demo_proof_1 :: StateProof where
  "demo_proof_1 = demo_proof\<lparr>transitions := [demo_transition]\<rparr>"

lemma demo_rules: "rules demo_env = ShipsBoardRules demo_sha demo_codec"
  by (simp add: demo_env_def)

abbreviation demo_parsed :: "BoardState \<Rightarrow> ShipsBoardState" where
  "demo_parsed pb \<equiv> \<lparr>GetMetadata = demo_meta, GetState = pb\<rparr>"

lemma demo_1_wf: "board_wf demo_1"
  by code_simp

lemma demo_good: "board_wf pb \<Longrightarrow> ships_good i demo_meta (demo_parsed pb)"
  by (simp add: ships_good_def demo_two)

lemma demo_parses: "board_wf pb \<Longrightarrow> ParseState (rules demo_env) i demo_meta (demo_bytes pb) = Inr (demo_parsed pb)"
  unfolding demo_rules by (rule ships_parse [OF demo_good]) (simp_all add: demo_parse)

lemma demo_equals: "board_wf pb \<Longrightarrow> pEquals (rules demo_env) (demo_parsed pb) (demo_bytes pb)"
  using ships.equals_iff [OF demo_good [of pb]] demo_parses [of pb] by (simp add: demo_rules)

lemma demo_verify:
  "VerifyStateProof demo_env SetNull demo_meta (demo_bytes InitialBoardState) demo_proof = Inr (demo_bytes InitialBoardState)"
proof -
  have "transitions demo_proof = []" by (simp add: demo_proof_def)
  then show ?thesis
    using demo_equals [OF initial_wf] demo_parses [OF initial_wf, of SetNull]
    by (auto simp: VerifyStateProof_iff UnverifiedProofEndState_def demo_proof_data agreed_def)
qed

lemma demo_counts:
  "pTurnCount (rules demo_env) (demo_parsed InitialBoardState) = Some 1"
  "pTurnCount (rules demo_env) (demo_parsed demo_1) = Some 2"
  "pWhoseTurn (rules demo_env) (demo_parsed InitialBoardState) = Some 0"
  by (simp_all add: demo_rules ShipsBoardRules_def TurnCount_def WhoseTurn_def demo_two InitialBoardState_def
      GetPhase_def demo_1_def Let_def)

lemma demo_verify_1:
  "VerifyStateProof demo_env SetNull demo_meta (demo_bytes InitialBoardState) demo_proof_1 = Inr (demo_bytes demo_1)"
proof -
  have d: "get_data (get_new_state demo_transition) = demo_bytes demo_1"
    "get_data (get_initial_state demo_proof_1) = demo_bytes InitialBoardState"
    "transitions demo_proof_1 = [demo_transition]"
    by (simp_all add: demo_transition_def demo_proof_1_def demo_proof_def get_new_state_def get_data_def
        get_initial_state_def)
  have "0 \<in> signers demo_env SetNull demo_meta (get_new_state demo_transition)"
    by (auto simp: signers_def demo_two demo_transition_def get_new_state_def demo_env_def demo_meta_def get_address_def
        participants_size_def)
  moreover have "pApplyMove (rules demo_env) (demo_parsed InitialBoardState) [] = Inr (demo_bytes demo_1)"
    using demo_moves(1)
    by (simp add: demo_rules ShipsBoardRules_def ProtoBoardState_ApplyMove_def demo_codec_def demo_bytes_def)
  ultimately have "signed_step demo_env SetNull demo_meta (demo_parsed InitialBoardState) demo_transition (demo_parsed demo_1)"
    using demo_counts(3) demo_parses [OF demo_1_wf] demo_equals [OF demo_1_wf] d(1)
    by (auto simp: signed_step_def NO_TURN_def) (simp add: demo_transition_def)
  then show ?thesis
    using demo_equals [OF initial_wf] demo_parses [OF initial_wf, of SetNull] d
    by (auto simp: VerifyStateProof_iff UnverifiedProofEndState_def agreed_def)
qed

lemma demo_channel_ok: "channel_ok demo_env demo_channel" "channel_turn demo_env demo_channel = Some 1"
proof -
  have e: "UnverifiedProofEndState demo_proof = demo_bytes InitialBoardState"
    using demo_verify by (simp add: VerifyStateProof_iff)
  show t: "channel_turn demo_env demo_channel = Some 1"
    using demo_parses [OF initial_wf, of SetNull] demo_counts(1)
    by (simp add: channel_turn_def demo_channel_def e parse_checked_def)
  show "channel_ok demo_env demo_channel"
    using t demo_verify by (simp add: channel_ok_def e) (simp add: demo_channel_def e)
qed

lemma demo_versions:
  "CheckVersionedProto demo_env demo_meta demo_proof" "CheckVersionedProto demo_env demo_meta demo_proof_1"
  by (simp_all add: CheckVersionedProto_def CheckProtoVersion_def CheckProtoVersion_SignedData_def demo_env_def
      ShipsBoardRules_def demo_proof_def demo_proof_1_def demo_transition_def get_initial_state_def
      get_new_state_def default_SignedData_def)

theorem dispute_correct_witness:
  "dispute_accepted demo_env demo_channel demo_proof_1 1 2
    \<and> (\<exists>ch'. ProcessDispute demo_env demo_channel 5 demo_proof_1 = Some (True, ch') \<and> cd_proof ch' = demo_proof_1
         \<and> disputeHeight ch' = 5 \<and> channel_turn demo_env ch' = Some 2)"
proof -
  have e: "UnverifiedProofEndState demo_proof = demo_bytes InitialBoardState"
    using demo_verify by (simp add: VerifyStateProof_iff)
  have e1: "UnverifiedProofEndState demo_proof_1 = demo_bytes demo_1"
    using demo_verify_1 by (simp add: VerifyStateProof_iff)
  have w: "pWhoseTurn (rules demo_env) (demo_parsed demo_1) = Some 1"
    by (simp add: demo_rules ShipsBoardRules_def WhoseTurn_def demo_two InitialBoardState_def GetPhase_def demo_1_def Let_def)
  have p: "ProcessDispute demo_env demo_channel 5 demo_proof_1
      = Some (True, demo_channel\<lparr>dirty := True, cd_proof := demo_proof_1, disputeHeight := 5\<rparr>)"
    using demo_versions(2) demo_verify_1 demo_parses [OF initial_wf, of SetNull] demo_parses [OF demo_1_wf, of SetNull]
      demo_counts w e
    by (simp add: ProcessDispute_def HasDispute_def demo_channel_def proven_state_def parse_checked_def NO_TURN_def
        SetDisputeHeight_def SetStateProof_def word_less_nat_alt)
  from dispute_correct [OF p demo_channel_ok(1)] obtain old new where d: "dispute_accepted demo_env demo_channel demo_proof_1 old new"
    "channel_turn demo_env (demo_channel\<lparr>dirty := True, cd_proof := demo_proof_1, disputeHeight := 5\<rparr>) = Some new"
    by auto
  have "old = 1" "new = 2"
    using d(1) demo_parses [OF initial_wf, of SetNull] demo_parses [OF demo_1_wf, of SetNull] demo_counts e e1
    by (auto simp: dispute_accepted_def channel_turn_def demo_channel_def parse_checked_def)
  with d p show ?thesis by simp
qed

theorem resolution_correct_witness:
  "\<exists>ch'. ProcessResolution demo_env demo_channel demo_proof_1 = Some (True, ch') \<and> channel_ok demo_env ch'
    \<and> (if True then \<not> HasDispute ch'
          \<and> (\<exists>old new. channel_turn demo_env demo_channel = Some old \<and> channel_turn demo_env ch' = Some new \<and> old < new)
       else ch' = demo_channel)"
proof -
  have e: "UnverifiedProofEndState demo_proof = demo_bytes InitialBoardState"
    using demo_verify by (simp add: VerifyStateProof_iff)
  have "ProcessResolution demo_env demo_channel demo_proof_1
      = Some (True, ClearDispute (demo_channel\<lparr>dirty := True, cd_proof := demo_proof_1\<rparr>))"
    using demo_versions(2) demo_verify_1 demo_parses [OF initial_wf, of SetNull] demo_parses [OF demo_1_wf, of SetNull]
      demo_counts e
    by (simp add: ProcessResolution_def demo_channel_def proven_state_def parse_checked_def SetStateProof_def
        word_le_nat_alt)
  with resolution_correct [OF this demo_channel_ok(1)] show ?thesis by blast
qed

end
