(* ===== verification/Chains.thy ===== *)
theory Chains
  imports Tables "HOL-Library.List_Lexorder" "HOL-Library.Char_ord"
begin

text \<open>
  The chains a game can run on and their names (\<open>spacexpansegame/gamelogic.cpp\<close>).
\<close>

datatype Chain = UNKNOWN | MAIN | TEST | REGTEST | POLYGON | MUMBAI | GANACHE

definition CHAIN_NAMES :: "(Chain \<times> string) list" where
  "CHAIN_NAMES =
    [(UNKNOWN, ''unknown''), (MAIN, ''main''), (TEST, ''test''), (REGTEST, ''regtest''),
     (POLYGON, ''polygon''), (MUMBAI, ''mumbai''), (GANACHE, ''ganache'')]"

definition ChainToString :: "Chain \<Rightarrow> string option" where
  "ChainToString c = map_of CHAIN_NAMES c"

text \<open>The reversed table; \<open>emplace\<close> does not replace an entry that is there already.\<close>

definition reverse_names :: "(string \<times> Chain) list" where
  "reverse_names = fold (\<lambda>entry table. if map_of table (snd entry) = None
      then member_set (snd entry) (fst entry) table else table) CHAIN_NAMES []"

definition ChainFromString :: "string \<Rightarrow> Chain" where
  "ChainFromString name = (case map_of reverse_names name of None \<Rightarrow> UNKNOWN | Some c \<Rightarrow> c)"

text \<open>Every chain has a name, which determines the chain.\<close>

lemma reverse_names_eq: "reverse_names =
    [(''ganache'', GANACHE), (''main'', MAIN), (''mumbai'', MUMBAI), (''polygon'', POLYGON),
     (''regtest'', REGTEST), (''test'', TEST), (''unknown'', UNKNOWN)]"
  by code_simp

lemma ChainFromString_ToString:
  "\<exists>s. ChainToString c = Some s \<and> ChainFromString s = c"
  by (cases c) (simp_all add: ChainToString_def CHAIN_NAMES_def ChainFromString_def reverse_names_eq)

end
