(* ===== verification/ShipsGsp.thy ===== *)
theory ShipsGsp
  imports ShipsChannel Base64 Json Chains
begin

text \<open>
  The game-state processor of ships (\<open>ships/logic.cpp\<close>): moves that create, join and abort channels,
  declare a loss, file disputes and resolutions; the expiry of disputes; the statistics; the time-out
  of open channels.

  The database has the table of channels of the channel library and the two tables of
  \<open>ships/schema.sql\<close>.  A channel handle writes its data back when it is destroyed; where the code
  keeps a handle across an update, the model keeps the \<open>ChannelData\<close> and writes it at the place of
  the destructor.  \<open>None\<close> is an abort of the process.
\<close>

section \<open>State and environment\<close>

record ships_db =
  db_channels :: ChannelsTable
  channel_extradata :: "(uint256 \<times> (int \<times> int)) list"
  game_stats :: "(string \<times> (int \<times> int)) list"

text \<open>
  What the processor uses from outside: the channel environment (with signature recovery), the
  protocol-buffer codecs and the base64 decoder of OpenSSL.
\<close>

record gsp_env =
  cenv :: "ShipsBoardState ChannelEnv"
  gcodec :: "(BoardState, BoardMove) Codec"
  parse_StateProof :: "byte list \<Rightarrow> StateProof option"
  evp_decode :: "string \<Rightarrow> byte list option"

definition DISPUTE_BLOCKS :: u32 where
  "DISPUTE_BLOCKS = 10"

definition CHANNEL_TIMEOUT_BLOCKS :: u32 where
  "CHANNEL_TIMEOUT_BLOCKS = 12"

definition ships_GetInitialStateBlock :: "Chain \<Rightarrow> (nat \<times> string) option" where
  "ships_GetInitialStateBlock ch = (case ch of
     MAIN \<Rightarrow> Some (2960000, ''81c60638621eec528667941d954e044577f0125465ca2ba26347385d5e3aecdd'')
   | TEST \<Rightarrow> Some (112307, ''4a2497b5ce649747f9dffeab6fafd57aa928901f3b15537287359adf5ed6fb1a'')
   | REGTEST \<Rightarrow> Some (0, ''6f750b36d22f1dc3d0a6e483af45301022646dfc3b3ba2187865f5a7d6d83ab1'')
   | GANACHE \<Rightarrow> Some (0, [])
   | _ \<Rightarrow> None)"

definition ships_InitialiseState :: ships_db where
  "ships_InitialiseState = \<lparr>db_channels = [], channel_extradata = [], game_stats = []\<rparr>"

section \<open>Creating, joining and aborting channels\<close>

definition ParseCreateChannelMove :: "json \<Rightarrow> string option" where
  "ParseCreateChannelMove obj =
    (if \<not> isObject obj then None
     else case member obj ''addr'' of
       JString addr \<Rightarrow> (if json_size obj \<noteq> 1 then None else Some addr)
     | _ \<Rightarrow> None)"

definition participant :: "string \<Rightarrow> string \<Rightarrow> ChannelParticipant" where
  "participant name addr = \<lparr>participant_name = Some name, participant_address = Some addr\<rparr>"

definition HandleCreateChannel ::
    "json \<Rightarrow> u32 \<Rightarrow> string \<Rightarrow> uint256 \<Rightarrow> ships_db \<Rightarrow> ships_db option" where
  "HandleCreateChannel obj height name ident db =
    (case ParseCreateChannelMove obj of
       None \<Rightarrow> Some db
     | Some addr \<Rightarrow> do {
         check (GetById ident (db_channels db) = None);
         let meta = \<lparr>participants = [participant name addr], reinit = None, custom = None\<rparr>;
         h \<leftarrow> Reinitialise meta [] (new_ChannelData ident);
         check (map_of (channel_extradata db) ident = None);
         let db = db\<lparr>channel_extradata := member_set ident (uint height, 1) (channel_extradata db)\<rparr>;
         tbl \<leftarrow> destroy_ChannelData h (db_channels db);
         Some (db\<lparr>db_channels := tbl\<rparr>)
       })"

text \<open>The channel of a move; the inner option is the null handle.\<close>

definition RetrieveChannelFromMove :: "json \<Rightarrow> ChannelsTable \<Rightarrow> ChannelData option option" where
  "RetrieveChannelFromMove obj tbl = do {
     check (isObject obj);
     case member obj ''id'' of
       JString i \<Rightarrow> (case FromHex i SetNull of
           (ok, channelId) \<Rightarrow> Some (if ok then GetById channelId tbl else None))
     | _ \<Rightarrow> Some None
   }"

definition part_name :: "ChannelParticipant \<Rightarrow> string" where
  "part_name p = get_or [] (participant_name p)"

definition ParseJoinChannelMove ::
    "json \<Rightarrow> string \<Rightarrow> ChannelsTable \<Rightarrow> (ChannelData \<times> string) option option" where
  "ParseJoinChannelMove obj name tbl =
    (if \<not> isObject obj then Some None
     else case member obj ''addr'' of
       JString addr \<Rightarrow>
        (if json_size obj \<noteq> 2 then Some None
         else do {
           r \<leftarrow> RetrieveChannelFromMove obj tbl;
           case r of
             None \<Rightarrow> Some None
           | Some h \<Rightarrow>
              (if participants_size (cd_metadata h) \<noteq> 1 then Some None
               else if part_name (participants (cd_metadata h) ! 0) = name then Some None
               else Some (Some (h, addr)))
         })
     | _ \<Rightarrow> Some None)"

definition set_participants :: "uint256 \<Rightarrow> int \<Rightarrow> ships_db \<Rightarrow> ships_db" where
  "set_participants ident n db = db\<lparr>channel_extradata :=
     member_upd ident (\<lambda>(created, parts). (created, n)) (channel_extradata db)\<rparr>"

definition HandleJoinChannel ::
    "gsp_env \<Rightarrow> json \<Rightarrow> string \<Rightarrow> uint256 \<Rightarrow> ships_db \<Rightarrow> ships_db option" where
  "HandleJoinChannel E obj name ident db = do {
     r \<leftarrow> ParseJoinChannelMove obj name (db_channels db);
     case r of
       None \<Rightarrow> Some db
     | Some (h, addr) \<Rightarrow> do {
         let newMeta = UpdateMetadataReinit (env_sha (cenv E)) ident (cd_metadata h);
         let newMeta = newMeta\<lparr>participants := participants newMeta @ [participant name addr]\<rparr>;
         check (participants_size newMeta = 2);
         state \<leftarrow> serialise_state (gcodec E) InitialBoardState;
         h \<leftarrow> Reinitialise newMeta state h;
         let db = set_participants (cd_id h) (int (participants_size newMeta)) db;
         tbl \<leftarrow> destroy_ChannelData h (db_channels db);
         Some (db\<lparr>db_channels := tbl\<rparr>)
       }
   }"

definition ParseAbortChannelMove :: "json \<Rightarrow> string \<Rightarrow> ChannelsTable \<Rightarrow> uint256 option option" where
  "ParseAbortChannelMove obj name tbl =
    (if \<not> isObject obj then Some None
     else if json_size obj \<noteq> 1 then Some None
     else do {
       r \<leftarrow> RetrieveChannelFromMove obj tbl;
       case r of
         None \<Rightarrow> Some None
       | Some h \<Rightarrow>
          (if participants_size (cd_metadata h) \<noteq> 1 then Some None
           else if part_name (participants (cd_metadata h) ! 0) \<noteq> name then Some None
           else Some (Some (cd_id h)))
     })"

definition DeleteChannelById :: "uint256 \<Rightarrow> ships_db \<Rightarrow> ships_db" where
  "DeleteChannelById ident db =
    db\<lparr>db_channels := DeleteById ident (db_channels db),
       channel_extradata := member_del ident (channel_extradata db)\<rparr>"

definition HandleAbortChannel :: "json \<Rightarrow> string \<Rightarrow> ships_db \<Rightarrow> ships_db option" where
  "HandleAbortChannel obj name db = do {
     r \<leftarrow> ParseAbortChannelMove obj name (db_channels db);
     Some (case r of None \<Rightarrow> db | Some ident \<Rightarrow> DeleteChannelById ident db)
   }"

section \<open>Statistics\<close>

definition insert_or_ignore :: "string \<Rightarrow> (string \<times> (int \<times> int)) list \<Rightarrow> (string \<times> (int \<times> int)) list" where
  "insert_or_ignore name t = (if map_of t name = None then member_set name (0, 0) t else t)"

definition UpdateStats :: "ChannelMetadata \<Rightarrow> int \<Rightarrow> ships_db \<Rightarrow> ships_db option" where
  "UpdateStats meta win db = do {
     check (win \<ge> 0);
     check (win \<le> 1);
     check (participants_size meta = 2);
     let lose = 1 - win;
     let winnerName = part_name (participants meta ! nat win);
     let loserName = part_name (participants meta ! nat lose);
     let t = insert_or_ignore loserName (insert_or_ignore winnerName (game_stats db));
     let t = member_upd winnerName (\<lambda>(won, lost). (won + 1, lost)) t;
     let t = member_upd loserName (\<lambda>(won, lost). (won, lost + 1)) t;
     Some (db\<lparr>game_stats := t\<rparr>)
   }"

section \<open>Declared losses\<close>

text \<open>
  The search for the sender among the participants: the outer option is the check that the name
  occurs once, the inner one the index -1.
\<close>

definition find_loser :: "ChannelMetadata \<Rightarrow> string \<Rightarrow> nat option option" where
  "find_loser meta name =
    (case filter (\<lambda>i. part_name (participants meta ! i) = name) [0..<participants_size meta] of
       [] \<Rightarrow> Some None
     | [i] \<Rightarrow> Some (Some i)
     | _ \<Rightarrow> None)"

definition HandleDeclareLoss :: "gsp_env \<Rightarrow> json \<Rightarrow> string \<Rightarrow> ships_db \<Rightarrow> ships_db option" where
  "HandleDeclareLoss E obj name db =
    (if \<not> isObject obj then Some db
     else if json_size obj \<noteq> 2 then Some db
     else do {
       r \<leftarrow> RetrieveChannelFromMove obj (db_channels db);
       case r of
         None \<Rightarrow> Some db
       | Some h \<Rightarrow>
          let ident = cd_id h; meta = cd_metadata h in
          if participants_size meta \<noteq> 2 then Some db
          else case member obj ''r'' of
            JString rv \<Rightarrow>
             (case DecodeBase64 (evp_decode E) rv of
                Inl CheckFailed \<Rightarrow> None
              | Inl Rejected \<Rightarrow> Some db
              | Inr re \<Rightarrow>
                 if re \<noteq> get_or [] (reinit meta) then Some db
                 else do {
                   l \<leftarrow> find_loser meta name;
                   case l of
                     None \<Rightarrow> Some db
                   | Some loser \<Rightarrow> do {
                       check (loser \<le> 1);
                       db' \<leftarrow> UpdateStats meta (1 - int loser) db;
                       Some (DeleteChannelById ident db')
                     }
                 })
          | _ \<Rightarrow> Some db
     })"

section \<open>Disputes and resolutions\<close>

definition ProtoFromBase64 :: "gsp_env \<Rightarrow> string \<Rightarrow> StateProof res" where
  "ProtoFromBase64 E str =
    rbind (DecodeBase64 (evp_decode E) str) (\<lambda>bytes.
    case parse_StateProof E bytes of None \<Rightarrow> Inl Rejected | Some msg \<Rightarrow> Inr msg)"

definition ExtractProto :: "gsp_env \<Rightarrow> json \<Rightarrow> StateProof res" where
  "ExtractProto E val = (case val of
     JString str \<Rightarrow> ProtoFromBase64 E str
   | _ \<Rightarrow> Inl Rejected)"

definition ParseDisputeResolutionMove ::
    "gsp_env \<Rightarrow> json \<Rightarrow> ChannelsTable \<Rightarrow> (ChannelData \<times> StateProof) option option" where
  "ParseDisputeResolutionMove E obj tbl =
    (if \<not> isObject obj then Some None
     else if json_size obj \<noteq> 2 then Some None
     else case ExtractProto E (member obj ''state'') of
       Inl CheckFailed \<Rightarrow> None
     | Inl Rejected \<Rightarrow> Some None
     | Inr proof \<Rightarrow> do {
         r \<leftarrow> RetrieveChannelFromMove obj tbl;
         Some (map_option (\<lambda>h. (h, proof)) r)
       })"

definition process_move :: "gsp_env \<Rightarrow> bool \<Rightarrow> u32 \<Rightarrow> ChannelData \<Rightarrow> StateProof \<Rightarrow> (bool \<times> ChannelData) option" where
  "process_move E isDispute height h pf =
    (if isDispute then ProcessDispute (cenv E) h height pf else ProcessResolution (cenv E) h pf)"

text \<open>The end of the handler: the channel is closed when its on-chain state has a winner.\<close>

definition settle :: "gsp_env \<Rightarrow> uint256 \<Rightarrow> ChannelMetadata \<Rightarrow> ChannelData \<Rightarrow> ships_db \<Rightarrow> ships_db option" where
  "settle E ident meta h db = do {
     latest \<leftarrow> GetLatestState h;
     state \<leftarrow> parse_checked (cenv E) h latest;
     case winner (GetState state) of
       None \<Rightarrow> do {
         tbl \<leftarrow> destroy_ChannelData h (db_channels db);
         Some (db\<lparr>db_channels := tbl\<rparr>)
       }
     | Some w \<Rightarrow> do {
         check (w \<le> 1);
         db \<leftarrow> UpdateStats meta (uint w) db;
         tbl \<leftarrow> destroy_ChannelData h (db_channels db);
         Some (DeleteChannelById ident (db\<lparr>db_channels := tbl\<rparr>))
       }
   }"

definition HandleDisputeResolution ::
    "gsp_env \<Rightarrow> json \<Rightarrow> u32 \<Rightarrow> bool \<Rightarrow> ships_db \<Rightarrow> ships_db option" where
  "HandleDisputeResolution E obj height isDispute db = do {
     r \<leftarrow> ParseDisputeResolutionMove E obj (db_channels db);
     case r of
       None \<Rightarrow> Some db
     | Some (h, proof) \<Rightarrow>
        let ident = cd_id h; meta = cd_metadata h in
        if participants_size meta \<noteq> 2 then Some db
        else do {
          (res, h) \<leftarrow> process_move E isDispute height h proof;
          if \<not> res then do {
            tbl \<leftarrow> destroy_ChannelData h (db_channels db);
            Some (db\<lparr>db_channels := tbl\<rparr>)
          }
          else settle E ident meta h db
        }
   }"

section \<open>Expired disputes and timed-out channels\<close>

definition expire_dispute :: "gsp_env \<Rightarrow> uint256 \<times> ChannelRow \<Rightarrow> ships_db \<Rightarrow> ships_db option" where
  "expire_dispute E rw db = do {
     let h = GetFromResult rw;
     let ident = cd_id h;
     let meta = cd_metadata h;
     check (participants_size meta = 2);
     latest \<leftarrow> GetLatestState h;
     state \<leftarrow> parse_checked (cenv E) h latest;
     loser \<leftarrow> pWhoseTurn (rules (cenv E)) state;
     check (loser \<noteq> NO_TURN);
     check (0 \<le> loser);
     check (loser \<le> 1);
     db' \<leftarrow> UpdateStats meta (1 - loser) db;
     Some (DeleteChannelById ident db')
   }"

fun expire_disputes :: "gsp_env \<Rightarrow> (uint256 \<times> ChannelRow) list \<Rightarrow> ships_db \<Rightarrow> ships_db option" where
  "expire_disputes E [] db = Some db"
| "expire_disputes E (rw # rows) db = Option.bind (expire_dispute E rw db) (expire_disputes E rows)"

definition ProcessExpiredDisputes :: "gsp_env \<Rightarrow> u32 \<Rightarrow> ships_db \<Rightarrow> ships_db option" where
  "ProcessExpiredDisputes E height db =
    expire_disputes E (QueryForDisputeHeight (height - DISPUTE_BLOCKS) (db_channels db)) db"

text \<open>\<open>Get<int>\<close> of a column, with its range check.\<close>

definition Get_int :: "int \<Rightarrow> int option" where
  "Get_int v = (if - (2 ^ 31) \<le> v \<and> v < 2 ^ 31 then Some v else None)"

fun time_out_channels :: "u32 \<Rightarrow> (uint256 \<times> (int \<times> int)) list \<Rightarrow> ships_db \<Rightarrow> ships_db option" where
  "time_out_channels height [] db = Some db"
| "time_out_channels height ((ident, (created, parts)) # rows) db = do {
     c \<leftarrow> Get_int created;
     check ((of_int c :: u32) = height - CHANNEL_TIMEOUT_BLOCKS);
     p \<leftarrow> Get_int parts;
     check (p = 1);
     time_out_channels height rows (DeleteChannelById ident db)
   }"

definition TimeOutChannels :: "u32 \<Rightarrow> ships_db \<Rightarrow> ships_db option" where
  "TimeOutChannels height db =
    (if height < CHANNEL_TIMEOUT_BLOCKS then Some db
     else time_out_channels height
       (filter (\<lambda>r. snd (snd r) < 2 \<and> fst (snd r) \<le> uint (height - CHANNEL_TIMEOUT_BLOCKS))
         (channel_extradata db)) db)"

section \<open>Processing a block\<close>

definition GetIdFromMove :: "json \<Rightarrow> uint256 option" where
  "GetIdFromMove mv = do {
     check (isObject mv);
     let field = (if isMember mv ''mvid'' then member mv ''mvid'' else member mv ''txid'');
     check (isString field);
     str \<leftarrow> asString field;
     let (ok, ident) = FromHex str SetNull;
     check ok;
     Some ident
   }"

text \<open>The body of the loop over the moves.\<close>

definition ships_move :: "gsp_env \<Rightarrow> u32 \<Rightarrow> json \<Rightarrow> ships_db \<Rightarrow> ships_db option" where
  "ships_move E height mv db = do {
     check (isObject mv);
     check (isString (member mv ''name''));
     name \<leftarrow> asString (member mv ''name'');
     ident \<leftarrow> GetIdFromMove mv;
     let dat = member mv ''move'';
     if \<not> isObject dat then Some db
     else if json_size dat > 1 then Some db
     else do {
       db \<leftarrow> HandleCreateChannel (member dat ''c'') height name ident db;
       db \<leftarrow> HandleJoinChannel E (member dat ''j'') name ident db;
       db \<leftarrow> HandleAbortChannel (member dat ''a'') name db;
       db \<leftarrow> HandleDeclareLoss E (member dat ''l'') name db;
       db \<leftarrow> HandleDisputeResolution E (member dat ''d'') height True db;
       HandleDisputeResolution E (member dat ''r'') height False db
     }
   }"

fun ships_moves :: "gsp_env \<Rightarrow> u32 \<Rightarrow> json list \<Rightarrow> ships_db \<Rightarrow> ships_db option" where
  "ships_moves E height [] db = Some db"
| "ships_moves E height (mv # mvs) db = Option.bind (ships_move E height mv db) (ships_moves E height mvs)"

definition ships_UpdateState :: "gsp_env \<Rightarrow> json \<Rightarrow> ships_db \<Rightarrow> ships_db option" where
  "ships_UpdateState E blockData db = do {
     blk \<leftarrow> json_at blockData ''block'';
     check (isObject blk);
     h \<leftarrow> asUInt (member blk ''height'');
     let height = (of_nat h :: u32);
     moves \<leftarrow> json_at blockData ''moves'';
     case moves of
       JArray mvs \<Rightarrow> do {
         db \<leftarrow> ships_moves E height mvs db;
         db \<leftarrow> ProcessExpiredDisputes E height db;
         TimeOutChannels height db
       }
     | _ \<Rightarrow> None
   }"

end
