(* ===== verification/ShipsGspInv.thy ===== *)
theory ShipsGspInv
  imports ShipsGsp
begin

text \<open>
  The invariant of the database of the ships processor, and that every handler keeps it and fails
  none of its checks.  A block is processed at height \<open>n\<close>; the invariant at \<open>n\<close> holds before and
  during that block, and the expiry of disputes and channels at the end establishes it at \<open>n + 1\<close>.
\<close>

section \<open>Disputes and resolutions on good states\<close>

context board_rules
begin

lemma verify_fine:
  assumes br: "rules env = br"
    and fine: "ParseState br i m (get_data (get_initial_state pf)) \<noteq> Inl CheckFailed"
      "\<And>p. ParseState br i m (get_data (get_initial_state pf)) = Inr p \<Longrightarrow> good i m p"
  shows "VerifyStateProof env i m r pf \<noteq> Inl CheckFailed"
    and "VerifyStateProof env i m r pf = Inr s \<Longrightarrow> \<exists>q. ParseState br i m s = Inr q \<and> good i m q"
proof -
  show "VerifyStateProof env i m r pf \<noteq> Inl CheckFailed"
  proof (cases "ParseState br i m (get_data (get_initial_state pf))")
    case (Inl e)
    then show ?thesis
      using fine(1) br by (cases e) (simp_all add: VerifyStateProof_def VerifyParticipantSignatures_state)
  next
    case (Inr p)
    show ?thesis by (rule proof_no_abort [OF Inr fine(2) [OF Inr] br])
  qed
  assume v: "VerifyStateProof env i m r pf = Inr s"
  then obtain p where p: "ParseState br i m (get_data (get_initial_state pf)) = Inr p"
    using br by (auto simp: VerifyStateProof_iff)
  show "\<exists>q. ParseState br i m s = Inr q \<and> good i m q"
    by (rule proven_good [OF p fine(2) [OF p] br v])
qed

lemma proven_cases:
  assumes br: "rules env = br"
    and fine: "ParseState br (cd_id ch) (cd_metadata ch) (get_data (get_initial_state pf)) \<noteq> Inl CheckFailed"
      "\<And>p. ParseState br (cd_id ch) (cd_metadata ch) (get_data (get_initial_state pf)) = Inr p
        \<Longrightarrow> good (cd_id ch) (cd_metadata ch) p"
  obtains (rej) "proven_state env ch pf = Some None"
    | (acc) s q where "proven_state env ch pf = Some (Some s)" "parse_checked env ch s = Some q"
        "good (cd_id ch) (cd_metadata ch) q"
proof (cases "VerifyStateProof env (cd_id ch) (cd_metadata ch) (cd_reinit ch) pf")
  case (Inl e)
  then show ?thesis
    using verify_fine(1) [OF br fine] rej by (cases e) (auto simp: proven_state_def)
next
  case (Inr s)
  then obtain q where "ParseState br (cd_id ch) (cd_metadata ch) s = Inr q" "good (cd_id ch) (cd_metadata ch) q"
    using verify_fine(2) [OF br fine] by blast
  then show ?thesis
    using Inr br by (intro acc) (auto simp: proven_state_def parse_checked_def)
qed

text \<open>Both operations return on a channel whose latest state is good.\<close>

lemma process_returns:
  assumes br: "rules env = br" and init: "initialised ch"
    and latest: "parse_checked env ch (UnverifiedProofEndState (cd_proof ch)) = Some o1"
      "good (cd_id ch) (cd_metadata ch) o1"
    and fine: "ParseState br (cd_id ch) (cd_metadata ch) (get_data (get_initial_state pf)) \<noteq> Inl CheckFailed"
      "\<And>p. ParseState br (cd_id ch) (cd_metadata ch) (get_data (get_initial_state pf)) = Inr p
        \<Longrightarrow> good (cd_id ch) (cd_metadata ch) p"
  shows "\<lbrakk>0 < height; disputeHeight ch \<le> height\<rbrakk> \<Longrightarrow> \<exists>ok ch'. ProcessDispute env ch height pf = Some (ok, ch')"
    and "\<exists>ok ch'. ProcessResolution env ch pf = Some (ok, ch')"
proof -
  obtain oc where oc: "pTurnCount br o1 = Some oc" using count_defined [OF latest(2)] by blast
  have counts: "\<exists>t c. pWhoseTurn br q = Some t \<and> pTurnCount br q = Some c"
    if "good (cd_id ch) (cd_metadata ch) q" for q
    using turn_defined [OF that] count_defined [OF that] by blast
  consider (rej) "proven_state env ch pf = Some None"
    | (acc) s q where "proven_state env ch pf = Some (Some s)" "parse_checked env ch s = Some q"
        "good (cd_id ch) (cd_metadata ch) q"
    using proven_cases [OF br fine] by blast
  note cs = this
  from cs show "\<exists>ok ch'. ProcessResolution env ch pf = Some (ok, ch')"
  proof cases
    case rej
    then show ?thesis using init by (auto simp: ProcessResolution_def)
  next
    case (acc s q)
    then show ?thesis
      using counts [OF acc(3)] init latest(1) oc br
      by (auto simp: ProcessResolution_def SetStateProof_def)
  qed
  assume h: "0 < height" "disputeHeight ch \<le> height"
  have head: "(if HasDispute ch then do { h \<leftarrow> GetDisputeHeight ch; check (height \<ge> h) } else Some ()) = Some ()"
    using h by (simp add: HasDispute_def GetDisputeHeight_def check_def)
  from cs show "\<exists>ok ch'. ProcessDispute env ch height pf = Some (ok, ch')"
  proof cases
    case rej
    then show ?thesis unfolding ProcessDispute_def head using init by auto
  next
    case (acc s q)
    then show ?thesis
      unfolding ProcessDispute_def head using counts [OF acc(3)] init latest(1) oc br h
      by (auto simp: SetStateProof_def SetDisputeHeight_def)
  qed
qed

end

text \<open>After an accepted dispute it is the turn of some player in the stored state.\<close>

lemma dispute_turn:
  assumes "ProcessDispute env ch height pf = Some (True, ch')"
  shows "\<exists>p t. parse_checked env ch (UnverifiedProofEndState pf) = Some p \<and> pWhoseTurn (rules env) p = Some t
    \<and> t \<noteq> NO_TURN \<and> (cd_proof ch' = pf \<or> cd_proof ch' = cd_proof ch
        \<and> pEquals (rules env) p (UnverifiedProofEndState (cd_proof ch)))"
proof -
  from assms have init: "initialised ch"
    by (auto simp: ProcessDispute_def split: if_splits bind_splits)
  from assms obtain s where s: "proven_state env ch pf = Some (Some s)"
    by (auto simp: ProcessDispute_def split: if_splits bind_splits option.splits)
  then have se: "s = UnverifiedProofEndState pf"
    using proven_end by (auto simp: proven_state_Some)
  show ?thesis
    using assms init s
    by (auto simp: ProcessDispute_def se SetStateProof_def SetDisputeHeight_def split: if_splits bind_splits)
qed

section \<open>The invariant\<close>

definition gsp_env_ok :: "gsp_env \<Rightarrow> bool" where
  "gsp_env_ok E \<longleftrightarrow> codec_ok (gcodec E) \<and> sha_ok (env_sha (cenv E))
    \<and> rules (cenv E) = ShipsBoardRules (env_sha (cenv E)) (gcodec E)"

definition state_good :: "gsp_env \<Rightarrow> uint256 \<Rightarrow> ChannelMetadata \<Rightarrow> byte list \<Rightarrow> bool" where
  "state_good E i m s \<longleftrightarrow> (\<exists>p. ParseState (rules (cenv E)) i m s = Inr p \<and> ships_good i m p)"

text \<open>A channel with both participants: it stores a valid proof, and a dispute is recent and about a turn.\<close>

definition chan_good :: "gsp_env \<Rightarrow> int \<Rightarrow> ChannelData \<Rightarrow> bool" where
  "chan_good E n ch \<longleftrightarrow> initialised ch \<and> participants_size (cd_metadata ch) = 2
    \<and> part_name (participants (cd_metadata ch) ! 0) \<noteq> part_name (participants (cd_metadata ch) ! 1)
    \<and> state_good E (cd_id ch) (cd_metadata ch) (cd_reinit ch)
    \<and> state_good E (cd_id ch) (cd_metadata ch) (UnverifiedProofEndState (cd_proof ch))
    \<and> VerifyStateProof (cenv E) (cd_id ch) (cd_metadata ch) (cd_reinit ch) (cd_proof ch)
        = Inr (UnverifiedProofEndState (cd_proof ch))
    \<and> (disputeHeight ch \<noteq> 0 \<longrightarrow> uint (disputeHeight ch) \<le> n \<and> n \<le> uint (disputeHeight ch) + 10
        \<and> (\<forall>p. ParseState (rules (cenv E)) (cd_id ch) (cd_metadata ch)
                  (UnverifiedProofEndState (cd_proof ch)) = Inr p
               \<longrightarrow> pWhoseTurn (rules (cenv E)) p \<noteq> Some NO_TURN))"

text \<open>A channel that waits for its second participant.\<close>

definition chan_open :: "ChannelRow \<Rightarrow> bool" where
  "chan_open r \<longleftrightarrow> participants_size (row_metadata r) = 1 \<and> reinit (row_metadata r) = None
    \<and> row_reinit r = [] \<and> row_stateproof r = None \<and> row_disputeHeight r = None"

definition entry_ok ::
    "gsp_env \<Rightarrow> int \<Rightarrow> uint256 \<Rightarrow> ChannelRow option \<Rightarrow> (int \<times> int) option \<Rightarrow> bool" where
  "entry_ok E n i rw extra = (case (rw, extra) of
     (None, None) \<Rightarrow> True
   | (Some r, Some (created, parts)) \<Rightarrow>
       0 \<le> created \<and> created \<le> n \<and> parts = int (participants_size (row_metadata r))
       \<and> (chan_open r \<and> n \<le> created + 12 \<or> chan_good E n (load_ChannelData i r) \<and> row_disputeHeight r \<noteq> Some 0)
   | _ \<Rightarrow> False)"

definition stats_ok :: "(string \<times> (int \<times> int)) list \<Rightarrow> bool" where
  "stats_ok t \<longleftrightarrow> tbl_ok t \<and> sum_list (map (fst \<circ> snd) t) = sum_list (map (snd \<circ> snd) t)
    \<and> list_all (\<lambda>r. 0 \<le> fst (snd r) \<and> 0 \<le> snd (snd r)) t"

definition gsp_inv :: "gsp_env \<Rightarrow> int \<Rightarrow> ships_db \<Rightarrow> bool" where
  "gsp_inv E n db \<longleftrightarrow> tbl_ok (db_channels db) \<and> tbl_ok (channel_extradata db) \<and> stats_ok (game_stats db)
    \<and> (\<forall>i. entry_ok E n i (map_of (db_channels db) i) (map_of (channel_extradata db) i))"

lemma gsp_invD:
  assumes "gsp_inv E n db"
  shows "tbl_ok (db_channels db)" "tbl_ok (channel_extradata db)" "stats_ok (game_stats db)"
    "entry_ok E n i (map_of (db_channels db) i) (map_of (channel_extradata db) i)"
  using assms by (auto simp: gsp_inv_def)

lemma entry_ok_None [simp]: "entry_ok E n i None x \<longleftrightarrow> x = None" "entry_ok E n i r None \<longleftrightarrow> r = None"
  by (auto simp: entry_ok_def split: option.splits)

lemma entry_ok_Some [simp]:
  "entry_ok E n i (Some r) (Some (c, k)) \<longleftrightarrow>
     0 \<le> c \<and> c \<le> n \<and> k = int (participants_size (row_metadata r))
       \<and> (chan_open r \<and> n \<le> c + 12 \<or> chan_good E n (load_ChannelData i r) \<and> row_disputeHeight r \<noteq> Some 0)"
  by (simp add: entry_ok_def)

lemma row_entry:
  assumes "gsp_inv E n db" and "map_of (db_channels db) i = Some r"
  obtains c k where "map_of (channel_extradata db) i = Some (c, k)" "entry_ok E n i (Some r) (Some (c, k))"
proof -
  have "entry_ok E n i (Some r) (map_of (channel_extradata db) i)"
    using gsp_invD(4) [OF assms(1), of i] assms(2) by simp
  then show ?thesis
    by (cases "map_of (channel_extradata db) i") (auto intro: that)
qed

lemma initial_inv: "gsp_inv E n ships_InitialiseState"
  by (simp add: gsp_inv_def ships_InitialiseState_def stats_ok_def)

text \<open>Changes of the database.\<close>

lemma inv_delete [inv_intros]: "gsp_inv E n db \<Longrightarrow> gsp_inv E n (DeleteChannelById i db)"
  by (simp add: gsp_inv_def DeleteChannelById_def DeleteById_def)

lemma inv_put:
  assumes "gsp_inv E n db" and "tbl_ok ch" "tbl_ok ex"
    and "map_of ch = (map_of (db_channels db))(i \<mapsto> r)" "map_of ex = (map_of (channel_extradata db))(i \<mapsto> x)"
    and "entry_ok E n i (Some r) (Some x)"
  shows "gsp_inv E n (db\<lparr>db_channels := ch, channel_extradata := ex\<rparr>)"
  using assms by (simp add: gsp_inv_def)

section \<open>Statistics\<close>

lemma sum_member_set:
  "map_of t k = None \<Longrightarrow> sum_list (map f (member_set k v t)) = f (k, v) + (sum_list (map f t) :: int)"
  by (induction k v t rule: member_set.induct) (auto split: if_splits)

lemma stats_insert: "stats_ok t \<Longrightarrow> stats_ok (insert_or_ignore nm t)"
  using set_member_set_subset [of nm "(0, 0)" t]
  by (auto simp: stats_ok_def insert_or_ignore_def sum_member_set list_all_iff)

lemma insert_or_ignore_present: "tbl_ok t \<Longrightarrow> map_of (insert_or_ignore nm t) nm \<noteq> None"
  by (simp add: insert_or_ignore_def)

lemma insert_or_ignore_other: "\<lbrakk>tbl_ok t; map_of t x \<noteq> None\<rbrakk> \<Longrightarrow> map_of (insert_or_ignore nm t) x \<noteq> None"
  by (simp add: insert_or_ignore_def)

lemma sum_member_upd:
  assumes "distinct (map fst t)" and "map_of t k \<noteq> None" and "\<And>v. g (f v) = g v + (d :: int)"
  shows "sum_list (map (g \<circ> snd) (member_upd k f t)) = sum_list (map (g \<circ> snd) t) + d"
  using assms(1,2)
proof (induction t)
  case (Cons r t)
  show ?case
  proof (cases "fst r = k")
    case True
    then have "\<forall>x \<in> set t. fst x \<noteq> k" using Cons.prems(1) by (force simp: image_iff)
    then have "member_upd k f t = t"
      by (simp add: member_upd_def map_idI)
    then show ?thesis using True assms(3) by (simp add: member_upd_def)
  next
    case False
    then show ?thesis using Cons by (cases r) (simp add: member_upd_def)
  qed
qed simp

lemma list_all_member_upd:
  "\<lbrakk>list_all (P \<circ> snd) t; \<And>v. P v \<Longrightarrow> P (f v)\<rbrakk> \<Longrightarrow> list_all (P \<circ> snd) (member_upd k f t)"
  by (auto simp: member_upd_def list_all_iff)

lemma UpdateStats_stats:
  assumes s0: "stats_ok (game_stats db)" and two: "participants_size meta = 2"
    and ne: "part_name (participants meta ! 0) \<noteq> part_name (participants meta ! 1)"
    and w: "0 \<le> w" "w \<le> 1"
  shows "\<exists>t. UpdateStats meta w db = Some (db\<lparr>game_stats := t\<rparr>) \<and> stats_ok t"
proof -
  let ?wn = "part_name (participants meta ! nat w)" and ?ln = "part_name (participants meta ! nat (1 - w))"
  let ?t1 = "insert_or_ignore ?ln (insert_or_ignore ?wn (game_stats db))"
  let ?nn = "\<lambda>v :: int \<times> int. 0 \<le> fst v \<and> 0 \<le> snd v"
  let ?won = "\<lambda>(won, lost). (won + 1, lost)" and ?lost = "\<lambda>(won, lost). (won, lost + 1)"
  let ?t2 = "member_upd ?wn ?won ?t1"
  let ?t3 = "member_upd ?ln ?lost ?t2"
  have s1: "stats_ok ?t1" using s0 by (intro stats_insert)
  then have t1: "tbl_ok ?t1" by (simp add: stats_ok_def)
  have tb: "tbl_ok (insert_or_ignore ?wn (game_stats db))" using stats_insert [OF s0] by (simp add: stats_ok_def)
  have p1: "map_of ?t1 ?wn \<noteq> None" "map_of ?t1 ?ln \<noteq> None"
    using tb insert_or_ignore_other [OF tb] insert_or_ignore_present s0 by (auto simp: stats_ok_def)
  have p2: "map_of ?t2 ?ln \<noteq> None" using p1(2) unfolding member_upd_None .
  have d: "distinct (map fst ?t1)" "distinct (map fst ?t2)" using tbl_ok_distinct [OF t1] by simp_all
  have "sum_list (map (fst \<circ> snd) ?t3) = sum_list (map (fst \<circ> snd) ?t2) + 0"
    by (rule sum_member_upd [OF d(2) p2]) auto
  also have "sum_list (map (fst \<circ> snd) ?t2) = sum_list (map (fst \<circ> snd) ?t1) + 1"
    by (rule sum_member_upd [OF d(1) p1(1)]) auto
  also have "sum_list (map (fst \<circ> snd) ?t1) = sum_list (map (snd \<circ> snd) ?t1)"
    using s1 by (simp add: stats_ok_def)
  also have "sum_list (map (snd \<circ> snd) ?t1) + 1 + 0 = sum_list (map (snd \<circ> snd) ?t2) + 1"
    using sum_member_upd [OF d(1) p1(1), of snd ?won 0] by auto
  also have "\<dots> = sum_list (map (snd \<circ> snd) ?t3)"
    by (rule sum_member_upd [OF d(2) p2, symmetric]) auto
  finally have eq: "sum_list (map (fst \<circ> snd) ?t3) = sum_list (map (snd \<circ> snd) ?t3)" .
  have "list_all (?nn \<circ> snd) ?t3"
    by (rule list_all_member_upd, rule list_all_member_upd) (use s1 in \<open>auto simp: stats_ok_def comp_def\<close>)
  with eq t1 have "stats_ok ?t3"
    by (simp add: stats_ok_def comp_def)
  moreover have "UpdateStats meta w db = Some (db\<lparr>game_stats := ?t3\<rparr>)"
    using w two by (simp add: UpdateStats_def Let_def)
  ultimately show ?thesis by blast
qed

lemmas UpdateStats_inv = UpdateStats_stats [OF gsp_invD(3)]

end
