(* ===== verification/ShipsGspBlock.thy ===== *)
theory ShipsGspBlock
  imports ShipsGspInv
begin

text \<open>
  The handlers of the ships processor on a database with the invariant: each of them returns, keeps the
  invariant, and adds no channel but the one of its move.
\<close>

section \<open>Writing a channel back\<close>

definition channel_ids :: "ships_db \<Rightarrow> uint256 set" where
  "channel_ids db = dom (map_of (db_channels db))"

definition keeps :: "gsp_env \<Rightarrow> int \<Rightarrow> uint256 set \<Rightarrow> ships_db option \<Rightarrow> bool" where
  "keeps E n D r \<longleftrightarrow> (\<exists>db. r = Some db \<and> gsp_inv E n db \<and> channel_ids db \<subseteq> D)"

lemma keepsI [intro]: "\<lbrakk>gsp_inv E n db; channel_ids db \<subseteq> D\<rbrakk> \<Longrightarrow> keeps E n D (Some db)"
  by (auto simp: keeps_def)

lemma keeps_bind:
  "\<lbrakk>keeps E n D r; \<And>db. \<lbrakk>gsp_inv E n db; channel_ids db \<subseteq> D\<rbrakk> \<Longrightarrow> keeps E n D' (f db)\<rbrakk> \<Longrightarrow> keeps E n D' (Option.bind r f)"
  by (auto simp: keeps_def)

lemma keeps_delete: "\<lbrakk>gsp_inv E n db; channel_ids db \<subseteq> D\<rbrakk> \<Longrightarrow> keeps E n D (Some (DeleteChannelById i db))"
  by (intro keepsI inv_delete) (auto simp: channel_ids_def DeleteChannelById_def DeleteById_def)

lemma inv_stats: "\<lbrakk>gsp_inv E n db; stats_ok t\<rbrakk> \<Longrightarrow> gsp_inv E n (db\<lparr>game_stats := t\<rparr>)"
  by (simp add: gsp_inv_def)

text \<open>Closing a channel with a winner.\<close>

lemma keeps_close:
  assumes inv: "gsp_inv E n db" "channel_ids db \<subseteq> D" and two: "participants_size meta = 2"
    and ne: "part_name (participants meta ! 0) \<noteq> part_name (participants meta ! 1)"
    and w: "0 \<le> w" "w \<le> 1"
  shows "keeps E n D (Option.bind (UpdateStats meta w db) (\<lambda>db. Some (DeleteChannelById i db)))"
proof -
  obtain t where t: "UpdateStats meta w db = Some (db\<lparr>game_stats := t\<rparr>)" "stats_ok t"
    using UpdateStats_inv [OF inv(1) two ne w] by blast
  have "channel_ids (db\<lparr>game_stats := t\<rparr>) \<subseteq> D" using inv(2) by (simp add: channel_ids_def)
  from keeps_delete [OF inv_stats [OF inv(1) t(2)] this] t(1) show ?thesis by simp
qed

text \<open>The fields that a channel handle has apart from its modification flag.\<close>

lemma chan_good_dirty [simp]: "chan_good E n (ch\<lparr>dirty := b\<rparr>) = chan_good E n ch"
  by (simp add: chan_good_def)

definition stored_row :: "ChannelData \<Rightarrow> ChannelRow" where
  "stored_row ch = \<lparr>row_metadata = cd_metadata ch, row_reinit = cd_reinit ch,
     row_stateproof = (if UnverifiedProofEndState (cd_proof ch) = cd_reinit ch then None else Some (cd_proof ch)),
     row_disputeHeight = (if disputeHeight ch = 0 then None else Some (disputeHeight ch))\<rparr>"

lemma destroy_dirty:
  "\<lbrakk>initialised ch; dirty ch\<rbrakk> \<Longrightarrow> destroy_ChannelData ch tbl = Some (member_set (cd_id ch) (stored_row ch) tbl)"
  by (simp add: destroy_ChannelData_def stored_row_def)

lemma destroy_clean: "\<lbrakk>initialised ch; \<not> dirty ch\<rbrakk> \<Longrightarrow> destroy_ChannelData ch tbl = Some tbl"
  by (simp add: destroy_ChannelData_def)

lemma gsp_rules:
  "gsp_env_ok E \<Longrightarrow> board_rules (rules (cenv E)) ships_good"
  using ships_board_rules by (simp add: gsp_env_ok_def)

text \<open>The proof from the reinitialisation state is valid.\<close>

lemma reinit_verifies:
  assumes env: "gsp_env_ok E" and good: "state_good E i m r"
  shows "VerifyStateProof (cenv E) i m r (StateProofFromReinit r) = Inr r"
proof -
  obtain p where p: "ParseState (rules (cenv E)) i m r = Inr p" "ships_good i m p"
    using good by (auto simp: state_good_def)
  have "pEquals (rules (cenv E)) p r"
    using board_rules.equals_iff [OF gsp_rules [OF env] p(2)] p(1) by simp
  moreover have "get_data (get_initial_state (StateProofFromReinit r)) = r"
    "transitions (StateProofFromReinit r) = []"
    by (simp_all add: StateProofFromReinit_def get_data_def get_initial_state_def)
  ultimately show ?thesis
    using p(1) by (simp add: VerifyStateProof_iff agreed_def)
qed

lemma reload_good:
  assumes env: "gsp_env_ok E" and good: "chan_good E n ch"
  shows "chan_good E n (load_ChannelData (cd_id ch) (stored_row ch))"
proof (cases "UnverifiedProofEndState (cd_proof ch) = cd_reinit ch")
  case True
  have "VerifyStateProof (cenv E) (cd_id ch) (cd_metadata ch) (cd_reinit ch) (StateProofFromReinit (cd_reinit ch))
      = Inr (cd_reinit ch)"
    using good by (intro reinit_verifies [OF env]) (simp add: chan_good_def)
  with good True show ?thesis
    by (auto simp: chan_good_def load_ChannelData_def stored_row_def)
next
  case False
  with good show ?thesis
    by (auto simp: chan_good_def load_ChannelData_def stored_row_def)
qed

text \<open>The invariant for all channels but one, and writing that one.\<close>

definition inv_except :: "gsp_env \<Rightarrow> int \<Rightarrow> uint256 \<Rightarrow> ships_db \<Rightarrow> bool" where
  "inv_except E n i db \<longleftrightarrow> tbl_ok (db_channels db) \<and> tbl_ok (channel_extradata db) \<and> stats_ok (game_stats db)
    \<and> (\<forall>j. j \<noteq> i \<longrightarrow> entry_ok E n j (map_of (db_channels db) j) (map_of (channel_extradata db) j))"

lemma inv_exceptI: "gsp_inv E n db \<Longrightarrow> inv_except E n i db"
  by (simp add: gsp_inv_def inv_except_def)

lemma keeps_store:
  assumes ex: "inv_except E n (cd_id ch) db" and ids: "insert (cd_id ch) (channel_ids db) \<subseteq> D"
    and ch: "initialised ch" "dirty ch"
    and entry: "entry_ok E n (cd_id ch) (Some (stored_row ch)) (map_of (channel_extradata db) (cd_id ch))"
  shows "keeps E n D (Option.bind (destroy_ChannelData ch (db_channels db)) (\<lambda>tbl. Some (db\<lparr>db_channels := tbl\<rparr>)))"
  using assms by (auto simp: destroy_dirty keeps_def gsp_inv_def inv_except_def channel_ids_def)

lemma retrieve_cases:
  assumes "isObject obj"
  obtains (none) "RetrieveChannelFromMove obj tbl = Some None"
    | (some) i r where "RetrieveChannelFromMove obj tbl = Some (Some (load_ChannelData i r))" "map_of tbl i = Some r"
proof (cases "\<exists>h. RetrieveChannelFromMove obj tbl = Some (Some h)")
  case True
  then show ?thesis
    using assms by (auto simp: RetrieveChannelFromMove_def GetById_def split: json.splits prod.splits if_splits intro: some)
next
  case False
  then show ?thesis
    using assms by (intro none) (auto simp: RetrieveChannelFromMove_def split: json.splits prod.splits if_splits)
qed

lemma load_simps [simp]:
  "cd_id (load_ChannelData i r) = i" "cd_metadata (load_ChannelData i r) = row_metadata r"
  "initialised (load_ChannelData i r)" "\<not> dirty (load_ChannelData i r)"
  by (simp_all add: load_ChannelData_def)

lemma entry_two:
  assumes "entry_ok E n i (Some r) (Some (c, k))" and "participants_size (row_metadata r) = 2"
  shows "chan_good E n (load_ChannelData i r)" "k = 2"
  using assms by (auto simp: chan_open_def)

lemma entry_one:
  assumes "entry_ok E n i (Some r) (Some (c, k))" and "participants_size (row_metadata r) = 1"
  shows "chan_open r" "k = 1"
  using assms by (auto simp: chan_good_def)

section \<open>Creating, joining and aborting\<close>

lemma create_keeps:
  assumes inv: "gsp_inv E n db" "channel_ids db \<subseteq> D" and n: "uint height = n"
    and fresh: "i \<notin> channel_ids db" "i \<in> D"
  shows "keeps E n D (HandleCreateChannel obj height name i db)"
proof (cases "ParseCreateChannelMove obj")
  case None
  then show ?thesis using inv by (simp add: HandleCreateChannel_def keepsI)
next
  case (Some addr)
  have none: "map_of (db_channels db) i = None" using fresh by (auto simp: channel_ids_def domIff)
  then have none': "map_of (channel_extradata db) i = None"
    using gsp_invD(4) [OF inv(1), of i] by simp
  let ?meta = "\<lparr>participants = [participant name addr], reinit = None, custom = None\<rparr>"
  let ?h = "new_ChannelData i\<lparr>cd_metadata := ?meta, cd_reinit := [], cd_proof := StateProofFromReinit [],
    initialised := True, dirty := True\<rparr>"
  let ?db = "db\<lparr>channel_extradata := member_set i (uint height, 1) (channel_extradata db)\<rparr>"
  have re: "Reinitialise ?meta [] (new_ChannelData i) = Some ?h"
    by (simp add: Reinitialise_def new_ChannelData_def)
  have row: "chan_open (stored_row ?h)" "participants_size (row_metadata (stored_row ?h)) = 1"
    by (simp_all add: chan_open_def stored_row_def participants_size_def new_ChannelData_def)
  have eq: "HandleCreateChannel obj height name i db = Option.bind (destroy_ChannelData ?h (db_channels ?db))
      (\<lambda>tbl. Some (?db\<lparr>db_channels := tbl\<rparr>))"
    using Some none none' re by (simp add: HandleCreateChannel_def GetById_def Let_def)
  have i: "cd_id ?h = i" by (simp add: new_ChannelData_def)
  show ?thesis
    unfolding eq
  proof (rule keeps_store)
    show "inv_except E n (cd_id ?h) ?db"
      using inv(1) gsp_invD [OF inv(1)] unfolding i by (simp add: inv_except_def)
    show "insert (cd_id ?h) (channel_ids ?db) \<subseteq> D"
      using inv(2) fresh unfolding i by (simp add: channel_ids_def)
    show "entry_ok E n (cd_id ?h) (Some (stored_row ?h)) (map_of (channel_extradata ?db) (cd_id ?h))"
      using row n gsp_invD(2) [OF inv(1)] unfolding i by auto
  qed simp_all
qed

lemma initial_state_good:
  assumes env: "gsp_env_ok E" and s: "serialise_state (gcodec E) InitialBoardState = Some s"
    and two: "participants_size m = 2"
  shows "state_good E i m s"
proof -
  obtain bs where "serialise_state (gcodec E) InitialBoardState = Some bs"
    "parse_state (gcodec E) bs = Some (InitialBoardState, False)"
    using env serialise_total [of "gcodec E"] by (auto simp: gsp_env_ok_def)
  with s have p: "parse_state (gcodec E) s = Some (InitialBoardState, False)" by simp
  let ?p = "\<lparr>GetMetadata = m, GetState = InitialBoardState\<rparr>"
  have g: "ships_good i m ?p" using two initial_wf by (simp add: ships_good_def)
  then have "ParseState (rules (cenv E)) i m s = Inr ?p"
    using env p by (auto simp: gsp_env_ok_def intro: ships_parse)
  with g show ?thesis by (auto simp: state_good_def)
qed

lemma reinit_nonempty:
  assumes "sha_ok sha"
  shows "get_or [] (reinit (UpdateMetadataReinit sha i m)) \<noteq> []"
proof -
  have "length (GetBinaryString (sha x)) = 32" for x
    using assms by (simp add: sha_ok_def uint256_wf_def GetBinaryString_def NUM_BYTES_def)
  then have "GetBinaryString (sha x) \<noteq> []" for x
    by (metis list.size(3) zero_neq_numeral)
  then show ?thesis by (simp add: UpdateMetadataReinit_def)
qed

lemma join_cases:
  obtains (none) "ParseJoinChannelMove obj name tbl = Some None"
    | (some) i r addr where "ParseJoinChannelMove obj name tbl = Some (Some (load_ChannelData i r, addr))"
        "map_of tbl i = Some r" "participants_size (row_metadata r) = 1"
        "part_name (participants (row_metadata r) ! 0) \<noteq> name"
proof (cases "isObject obj \<and> json_size obj = 2 \<and> (\<exists>a. member obj ''addr'' = JString a)")
  case False
  then show ?thesis by (intro none) (auto simp: ParseJoinChannelMove_def split: json.split)
next
  case True
  then obtain addr where a: "isObject obj" "json_size obj = 2" "member obj ''addr'' = JString addr" by blast
  show ?thesis
  proof (cases rule: retrieve_cases [OF a(1), of tbl])
    case 1
    then show ?thesis using a by (intro none) (simp add: ParseJoinChannelMove_def)
  next
    case (2 i r)
    show ?thesis
    proof (cases "participants_size (row_metadata r) = 1 \<and> part_name (participants (row_metadata r) ! 0) \<noteq> name")
      case True
      with 2 a show ?thesis by (intro some [of i r addr]) (simp_all add: ParseJoinChannelMove_def)
    next
      case False
      with 2 a show ?thesis by (intro none) (auto simp: ParseJoinChannelMove_def)
    qed
  qed
qed

text \<open>A channel right after a join.\<close>

lemma joined_good:
  assumes env: "gsp_env_ok E" and s: "serialise_state (gcodec E) InitialBoardState = Some s"
    and m: "participants m = [p0, p1]" "part_name p0 \<noteq> part_name p1"
  shows "chan_good E n \<lparr>cd_id = i, cd_metadata = m, cd_reinit = s, cd_proof = StateProofFromReinit s,
    initialised = True, disputeHeight = 0, dirty = d\<rparr>"
proof -
  have two: "participants_size m = 2" using m by (simp add: participants_size_def)
  note g = initial_state_good [OF env s two, of i]
  show ?thesis
    using two m g reinit_verifies [OF env g] by (simp add: chan_good_def)
qed

lemma join_keeps:
  assumes env: "gsp_env_ok E" and inv: "gsp_inv E n db" "channel_ids db \<subseteq> D"
  shows "keeps E n D (HandleJoinChannel E obj name ident db)"
proof (cases rule: join_cases [of obj name "db_channels db"])
  case none
  then show ?thesis using inv by (simp add: HandleJoinChannel_def keepsI)
next
  case (some i r addr)
  note 2 = this
  obtain c k where ck: "map_of (channel_extradata db) i = Some (c, k)" "entry_ok E n i (Some r) (Some (c, k))"
    using row_entry [OF inv(1) 2(2)] by blast
  note one = entry_one [OF ck(2) 2(3)]
  obtain p0 where p0: "participants (row_metadata r) = [p0]"
    using 2(3) by (auto simp: participants_size_def length_Suc_conv)
  obtain s where s: "serialise_state (gcodec E) InitialBoardState = Some s"
    using env serialise_total [of "gcodec E"] by (auto simp: gsp_env_ok_def)
  have sha: "sha_ok (env_sha (cenv E))" using env by (simp add: gsp_env_ok_def)
  let ?m0 = "UpdateMetadataReinit (env_sha (cenv E)) ident (row_metadata r)"
  let ?m = "?m0\<lparr>participants := participants ?m0 @ [participant name addr]\<rparr>"
  let ?h = "\<lparr>cd_id = i, cd_metadata = ?m, cd_reinit = s, cd_proof = StateProofFromReinit s,
    initialised = True, disputeHeight = 0, dirty = True\<rparr>"
  let ?db = "set_participants i 2 db"
  have m: "participants ?m = [p0, participant name addr]" using p0 by (simp add: UpdateMetadataReinit_def)
  then have two: "participants_size ?m = 2" by (simp add: participants_size_def)
  have "get_or [] (reinit (row_metadata r)) = []" using one(1) by (simp add: chan_open_def)
  then have re: "Reinitialise ?m s (load_ChannelData i r) = Some ?h"
    using reinit_nonempty [OF sha, of ident "row_metadata r"] one(1)
    by (simp add: Reinitialise_def load_ChannelData_def chan_open_def)
  have eq: "HandleJoinChannel E obj name ident db = Option.bind (destroy_ChannelData ?h (db_channels ?db))
      (\<lambda>tbl. Some (?db\<lparr>db_channels := tbl\<rparr>))"
    using 2(1) two s re by (simp add: HandleJoinChannel_def Let_def)
  have good: "chan_good E n ?h"
    using joined_good [OF env s m] 2(4) p0 by (simp add: part_name_def participant_def)
  from reload_good [OF env this] have good': "chan_good E n (load_ChannelData i (stored_row ?h))" by simp
  show ?thesis
    unfolding eq
  proof (rule keeps_store)
    show "inv_except E n (cd_id ?h) ?db"
      using gsp_invD [OF inv(1)] by (simp add: inv_except_def set_participants_def lookup_member_upd)
    show "insert (cd_id ?h) (channel_ids ?db) \<subseteq> D"
      using inv(2) 2(2) by (auto simp: channel_ids_def set_participants_def)
    show "entry_ok E n (cd_id ?h) (Some (stored_row ?h)) (map_of (channel_extradata ?db) (cd_id ?h))"
      using good' ck two by (simp add: set_participants_def lookup_member_upd) (simp add: stored_row_def)
  qed simp_all
qed

lemma abort_parse: "\<exists>x. ParseAbortChannelMove obj name tbl = Some x"
proof (cases "isObject obj")
  case True
  show ?thesis
    by (cases rule: retrieve_cases [OF True, of tbl]) (auto simp: ParseAbortChannelMove_def)
qed (simp add: ParseAbortChannelMove_def)

lemma abort_keeps:
  assumes inv: "gsp_inv E n db" "channel_ids db \<subseteq> D"
  shows "keeps E n D (HandleAbortChannel obj name db)"
proof -
  obtain x where "ParseAbortChannelMove obj name (db_channels db) = Some x" using abort_parse by blast
  then show ?thesis
    using inv keeps_delete [OF inv] by (cases x) (auto simp: HandleAbortChannel_def)
qed

section \<open>Declared losses\<close>

lemma find_loser_cases:
  assumes "participants_size meta = 2" and "part_name (participants meta ! 0) \<noteq> part_name (participants meta ! 1)"
  shows "find_loser meta name = Some None \<or> find_loser meta name = Some (Some 0) \<or> find_loser meta name = Some (Some 1)"
  using assms by (auto simp: find_loser_def upt_rec numeral_2_eq_2)

lemma loss_keeps:
  assumes inv: "gsp_inv E n db" "channel_ids db \<subseteq> D"
    and fine: "\<And>s. member obj ''r'' = JString s \<Longrightarrow> DecodeBase64 (evp_decode E) s \<noteq> Inl CheckFailed"
  shows "keeps E n D (HandleDeclareLoss E obj name db)"
proof (cases "isObject obj \<and> json_size obj = 2")
  case False
  then show ?thesis using inv by (auto simp: HandleDeclareLoss_def)
next
  case True
  then have obj: "isObject obj" by simp
  show ?thesis
  proof (cases rule: retrieve_cases [OF obj, of "db_channels db"])
    case 1
    then show ?thesis using inv True by (auto simp: HandleDeclareLoss_def)
  next
    case (2 i r)
    show ?thesis
    proof (cases "participants_size (row_metadata r) = 2 \<and> (\<exists>s. member obj ''r'' = JString s
        \<and> DecodeBase64 (evp_decode E) s = Inr (get_or [] (reinit (row_metadata r))))")
      case False
      then show ?thesis
        using 2 True inv fine
        by (auto simp: HandleDeclareLoss_def Let_def split: json.split sum.split fail.split)
    next
      case valid: True
      obtain c k where ck: "map_of (channel_extradata db) i = Some (c, k)" "entry_ok E n i (Some r) (Some (c, k))"
        using row_entry [OF inv(1) 2(2)] by blast
      from valid have two: "participants_size (row_metadata r) = 2" by blast
      have "chan_good E n (load_ChannelData i r)" using entry_two [OF ck(2) two] by blast
      then have ne: "part_name (participants (row_metadata r) ! 0) \<noteq> part_name (participants (row_metadata r) ! 1)"
        by (simp add: chan_good_def)
      have head: "HandleDeclareLoss E obj name db = Option.bind (find_loser (row_metadata r) name)
          (case_option (Some db) (\<lambda>loser. if loser \<le> Suc 0
            then Option.bind (UpdateStats (row_metadata r) (1 - int loser) db) (\<lambda>db. Some (DeleteChannelById i db))
            else None))"
        using valid 2 True by (auto simp: HandleDeclareLoss_def Let_def)
      show ?thesis
        unfolding head using find_loser_cases [OF two ne, of name] inv keeps_close [OF inv two ne, of 1 i]
          keeps_close [OF inv two ne, of 0 i]
        by (elim disjE) (auto simp: keepsI)
    qed
  qed
qed

section \<open>Disputes and resolutions\<close>

lemma IsValid_total: "participants_size (GetMetadata p) = 2 \<Longrightarrow> IsValid p \<noteq> None"
  by (auto simp: IsValid_def IsValid_turn_def Let_def phase_conv split: Phase.split)

lemma parse_no_abort:
  assumes "gsp_env_ok E" and "participants_size m = 2"
  shows "ParseState (rules (cenv E)) i m s \<noteq> Inl CheckFailed"
proof (cases "parse_state (gcodec E) s")
  case (Some x)
  obtain v where "IsValid \<lparr>GetMetadata = m, GetState = fst x\<rparr> = Some v"
    using IsValid_total [of "\<lparr>GetMetadata = m, GetState = fst x\<rparr>"] assms(2) by auto
  then show ?thesis
    using assms(1) Some by (cases x) (simp add: gsp_env_ok_def ShipsBoardRules_def ProtoBoardRules_ParseState_def)
qed (use assms(1) in \<open>simp add: gsp_env_ok_def ShipsBoardRules_def ProtoBoardRules_ParseState_def\<close>)

text \<open>
  The hypothesis about state proofs: if the initial state of the proof is accepted by the parser of a
  channel with two participants, then it is well-formed.  Only signed states are affected, a proof that
  starts in the initial state of the game has it.
\<close>

definition proof_fine :: "gsp_env \<Rightarrow> StateProof \<Rightarrow> bool" where
  "proof_fine E pf \<longleftrightarrow> (\<forall>i m p. participants_size m = 2
     \<longrightarrow> ParseState (rules (cenv E)) i m (get_data (get_initial_state pf)) = Inr p \<longrightarrow> ships_good i m p)"

lemma chan_goodD:
  assumes "chan_good E n ch"
  shows "initialised ch" "participants_size (cd_metadata ch) = 2"
    "part_name (participants (cd_metadata ch) ! 0) \<noteq> part_name (participants (cd_metadata ch) ! 1)"
    "state_good E (cd_id ch) (cd_metadata ch) (UnverifiedProofEndState (cd_proof ch))"
    "disputeHeight ch \<noteq> 0 \<Longrightarrow> uint (disputeHeight ch) \<le> n"
  using assms by (auto simp: chan_good_def)

lemma new_proof_good:
  assumes env: "gsp_env_ok E" and good: "chan_good E n ch" and fine: "proof_fine E pf"
    and v: "VerifyStateProof (cenv E) (cd_id ch) (cd_metadata ch) (cd_reinit ch) pf = Inr (UnverifiedProofEndState pf)"
  shows "state_good E (cd_id ch) (cd_metadata ch) (UnverifiedProofEndState pf)"
  using board_rules.verify_fine(2) [OF gsp_rules [OF env] refl parse_no_abort [OF env chan_goodD(2) [OF good]] _ v]
    fine chan_goodD(2) [OF good]
  by (auto simp: proof_fine_def state_good_def)

lemma chan_good_resolved:
  assumes "chan_good E n ch" and "state_good E (cd_id ch) (cd_metadata ch) (UnverifiedProofEndState pf)"
    and "VerifyStateProof (cenv E) (cd_id ch) (cd_metadata ch) (cd_reinit ch) pf = Inr (UnverifiedProofEndState pf)"
  shows "chan_good E n (ch\<lparr>cd_proof := pf, dirty := True, disputeHeight := 0\<rparr>)"
  using assms by (simp add: chan_good_def)

lemma chan_good_disputed:
  assumes "chan_good E n ch" and "state_good E (cd_id ch) (cd_metadata ch) (UnverifiedProofEndState pf)"
    and "VerifyStateProof (cenv E) (cd_id ch) (cd_metadata ch) (cd_reinit ch) pf = Inr (UnverifiedProofEndState pf)"
    and "ParseState (rules (cenv E)) (cd_id ch) (cd_metadata ch) (UnverifiedProofEndState pf) = Inr p"
    and "pWhoseTurn (rules (cenv E)) p = Some t" "t \<noteq> NO_TURN" and "uint h = n"
  shows "chan_good E n (ch\<lparr>dirty := True, cd_proof := pf, disputeHeight := h\<rparr>)"
  using assms by (simp add: chan_good_def)

lemma dispute_good:
  assumes env: "gsp_env_ok E" and good: "chan_good E n ch" and fine: "proof_fine E pf"
    and d: "ProcessDispute (cenv E) ch h pf = Some (True, ch')" and n: "uint h = n"
  shows "chan_good E n ch' \<and> dirty ch' \<and> cd_id ch' = cd_id ch \<and> cd_metadata ch' = cd_metadata ch"
proof -
  let ?P = "ParseState (rules (cenv E)) (cd_id ch) (cd_metadata ch)"
  from dispute_turn [OF d] obtain p t where p: "?P (UnverifiedProofEndState pf) = Inr p"
    "pWhoseTurn (rules (cenv E)) p = Some t" "t \<noteq> NO_TURN"
    and eq: "cd_proof ch' = pf \<or> cd_proof ch' = cd_proof ch
      \<and> pEquals (rules (cenv E)) p (UnverifiedProofEndState (cd_proof ch))"
    by (auto simp: parse_checked_def split: sum.splits)
  from dispute_cases [OF d] have v: "VerifyStateProof (cenv E) (cd_id ch) (cd_metadata ch) (cd_reinit ch) pf
        = Inr (UnverifiedProofEndState pf)"
    and ch': "ch' = ch\<lparr>dirty := True, cd_proof := cd_proof ch', disputeHeight := h\<rparr>"
    by auto
  note new = new_proof_good [OF env good fine v]
  have "chan_good E n (ch\<lparr>dirty := True, cd_proof := cd_proof ch', disputeHeight := h\<rparr>)"
    using eq
  proof (elim disjE conjE)
    assume "cd_proof ch' = pf"
    with chan_good_disputed [OF good new v p n] show ?thesis by simp
  next
    assume old: "cd_proof ch' = cd_proof ch" "pEquals (rules (cenv E)) p (UnverifiedProofEndState (cd_proof ch))"
    have "ships_good (cd_id ch) (cd_metadata ch) p"
      using new p(1) by (auto simp: state_good_def)
    with old(2) have "?P (UnverifiedProofEndState (cd_proof ch)) = Inr p"
      using board_rules.equals_iff [OF gsp_rules [OF env]] by blast
    from chan_good_disputed [OF good chan_goodD(4) [OF good] _ this p(2,3) n] good old(1) show ?thesis
      by (simp add: chan_good_def)
  qed
  then have "chan_good E n ch'" using ch' by simp
  moreover have "dirty ch'" "cd_id ch' = cd_id ch" "cd_metadata ch' = cd_metadata ch"
    by (subst ch', simp)+
  ultimately show ?thesis by blast
qed

lemma resolution_good:
  assumes env: "gsp_env_ok E" and good: "chan_good E n ch" and fine: "proof_fine E pf"
    and r: "ProcessResolution (cenv E) ch pf = Some (True, ch')"
  shows "chan_good E n ch' \<and> dirty ch' \<and> cd_id ch' = cd_id ch \<and> cd_metadata ch' = cd_metadata ch"
proof -
  from resolution_cases [OF r] have v: "VerifyStateProof (cenv E) (cd_id ch) (cd_metadata ch) (cd_reinit ch) pf
        = Inr (UnverifiedProofEndState pf)"
    and ch': "ch' = ch\<lparr>cd_proof := pf, dirty := True, disputeHeight := 0\<rparr>" by auto
  show ?thesis
    using chan_good_resolved [OF good new_proof_good [OF env good fine v] v] unfolding ch' by simp
qed

lemma process_move_cases:
  assumes env: "gsp_env_ok E" and good: "chan_good E n ch" and fine: "proof_fine E pf"
    and n: "uint h = n" "0 < n"
  obtains (refused) "process_move E isDispute h ch pf = Some (False, ch)"
    | (accepted) ch' where "process_move E isDispute h ch pf = Some (True, ch')"
        "chan_good E n ch'" "dirty ch'" "cd_id ch' = cd_id ch" "cd_metadata ch' = cd_metadata ch"
proof -
  note two = chan_goodD(2) [OF good]
  obtain o1 where o1: "parse_checked (cenv E) ch (UnverifiedProofEndState (cd_proof ch)) = Some o1"
    "ships_good (cd_id ch) (cd_metadata ch) o1"
    using chan_goodD(4) [OF good] by (auto simp: state_good_def parse_checked_def)
  have "\<And>p. ParseState (rules (cenv E)) (cd_id ch) (cd_metadata ch) (get_data (get_initial_state pf)) = Inr p
      \<Longrightarrow> ships_good (cd_id ch) (cd_metadata ch) p"
    using fine two by (auto simp: proof_fine_def)
  note ret = board_rules.process_returns [where pf = pf, OF gsp_rules [OF env] refl chan_goodD(1) [OF good] o1
      parse_no_abort [OF env two] this]
  have "0 < h" using n by (simp add: word_less_def)
  moreover have "disputeHeight ch \<le> h"
    using chan_goodD(5) [OF good] n by (cases "disputeHeight ch = 0") (auto simp: word_le_def)
  ultimately obtain ok ch' where r: "process_move E isDispute h ch pf = Some (ok, ch')"
    using ret(1) [of h] ret(2) by (cases isDispute) (simp add: process_move_def, blast)+
  show ?thesis
  proof (cases ok)
    case True
    have "chan_good E n ch' \<and> dirty ch' \<and> cd_id ch' = cd_id ch \<and> cd_metadata ch' = cd_metadata ch"
    proof (cases isDispute)
      case True
      with r \<open>ok\<close> show ?thesis by (intro dispute_good [OF env good fine _ n(1)]) (simp add: process_move_def)
    next
      case False
      with r \<open>ok\<close> show ?thesis by (intro resolution_good [OF env good fine]) (simp add: process_move_def)
    qed
    with r True show ?thesis by (intro accepted [of ch']) simp_all
  next
    case False
    have "ch' = ch"
    proof (cases isDispute)
      case True
      with r have "ProcessDispute (cenv E) ch h pf = Some (ok, ch')" by (simp add: process_move_def)
      from dispute_cases [OF this] False show ?thesis by simp
    next
      case nd: False
      with r have "ProcessResolution (cenv E) ch pf = Some (ok, ch')" by (simp add: process_move_def)
      from resolution_cases [OF this] False show ?thesis by simp
    qed
    with r False show ?thesis by (intro refused) simp
  qed
qed

lemma board_wf_winner: "\<lbrakk>board_wf pb; winner pb = Some w\<rbrakk> \<Longrightarrow> w \<le> 1"
  by (auto simp: board_wf_def GetPhase_def)

lemma inv_delete_stored:
  assumes inv: "gsp_inv E n db" "channel_ids db \<subseteq> D"
  shows "keeps E n D (Some (DeleteChannelById i (db\<lparr>db_channels := member_set i r (db_channels db)\<rparr>)))"
proof -
  have "channel_ids (DeleteChannelById i (db\<lparr>db_channels := member_set i r (db_channels db)\<rparr>)) \<subseteq> D"
    using inv(2) gsp_invD(1) [OF inv(1)] by (auto simp: channel_ids_def DeleteChannelById_def DeleteById_def)
  moreover have "gsp_inv E n (DeleteChannelById i (db\<lparr>db_channels := member_set i r (db_channels db)\<rparr>))"
    using gsp_invD [OF inv(1)] by (simp add: gsp_inv_def DeleteChannelById_def DeleteById_def)
  ultimately show ?thesis by (rule keepsI [rotated])
qed

lemma settle_keeps:
  assumes env: "gsp_env_ok E" and inv: "gsp_inv E n db" "channel_ids db \<subseteq> D"
    and h: "chan_good E n h" "dirty h" and here: "map_of (db_channels db) (cd_id h) \<noteq> None"
    and extra: "map_of (channel_extradata db) (cd_id h) = Some (c, 2)" "0 \<le> c" "c \<le> n"
  shows "keeps E n D (settle E (cd_id h) (cd_metadata h) h db)"
proof -
  note g = chan_goodD [OF h(1)]
  obtain p where p: "parse_checked (cenv E) h (UnverifiedProofEndState (cd_proof h)) = Some p"
    "ships_good (cd_id h) (cd_metadata h) p"
    using g(4) by (auto simp: state_good_def parse_checked_def)
  show ?thesis
  proof (cases "winner (GetState p)")
    case None
    have "keeps E n D (Option.bind (destroy_ChannelData h (db_channels db)) (\<lambda>tbl. Some (db\<lparr>db_channels := tbl\<rparr>)))"
    proof (rule keeps_store [OF inv_exceptI [OF inv(1)] _ g(1) h(2)])
      show "insert (cd_id h) (channel_ids db) \<subseteq> D"
        using inv(2) here by (auto simp: channel_ids_def)
      show "entry_ok E n (cd_id h) (Some (stored_row h)) (map_of (channel_extradata db) (cd_id h))"
        using reload_good [OF env h(1)] extra g(2) by simp (simp add: stored_row_def)
    qed
    with None p(1) g(1) show ?thesis by (simp add: settle_def)
  next
    case (Some w)
    have "w \<le> 1" using board_wf_winner [OF ships_goodD(2) [OF p(2)] Some] .
    then have w: "0 \<le> uint w" "uint w \<le> 1" by (simp_all add: word_le_def)
    obtain t where t: "UpdateStats (cd_metadata h) (uint w) db = Some (db\<lparr>game_stats := t\<rparr>)" "stats_ok t"
      using UpdateStats_inv [OF inv(1) g(2,3) w] by blast
    have "channel_ids (db\<lparr>game_stats := t\<rparr>) \<subseteq> D" using inv(2) by (simp add: channel_ids_def)
    from inv_delete_stored [OF inv_stats [OF inv(1) t(2)] this] show ?thesis
      using Some p(1) g(1) t(1) \<open>w \<le> 1\<close> h(2) by (simp add: settle_def destroy_dirty)
  qed
qed

text \<open>The hypothesis on a text in a move: it decodes without an abort, and a proof in it is fine.\<close>

definition text_fine :: "gsp_env \<Rightarrow> string \<Rightarrow> bool" where
  "text_fine E s \<longleftrightarrow> DecodeBase64 (evp_decode E) s \<noteq> Inl CheckFailed
    \<and> (\<forall>pf. ProtoFromBase64 E s = Inr pf \<longrightarrow> proof_fine E pf)"

lemma extract_fine:
  assumes "\<And>s. val = JString s \<Longrightarrow> text_fine E s"
  shows "ExtractProto E val \<noteq> Inl CheckFailed" "ExtractProto E val = Inr pf \<Longrightarrow> proof_fine E pf"
proof -
  show "ExtractProto E val \<noteq> Inl CheckFailed"
  proof (cases val)
    case (JString s)
    with assms have "DecodeBase64 (evp_decode E) s \<noteq> Inl CheckFailed" by (simp add: text_fine_def)
    with JString show ?thesis
      by (cases "DecodeBase64 (evp_decode E) s") (auto simp: ExtractProto_def ProtoFromBase64_def split: option.split)
  qed (simp_all add: ExtractProto_def)
  show "ExtractProto E val = Inr pf \<Longrightarrow> proof_fine E pf"
    using assms by (cases val) (auto simp: ExtractProto_def text_fine_def)
qed

lemma parse_dispute_cases:
  assumes fine: "\<And>s. member obj ''state'' = JString s \<Longrightarrow> text_fine E s"
  obtains (none) "ParseDisputeResolutionMove E obj tbl = Some None"
    | (some) i r pf where "ParseDisputeResolutionMove E obj tbl = Some (Some (load_ChannelData i r, pf))"
        "map_of tbl i = Some r" "proof_fine E pf"
proof (cases "isObject obj \<and> json_size obj = 2")
  case False
  then show ?thesis by (intro none) (auto simp: ParseDisputeResolutionMove_def)
next
  case True
  then have obj: "isObject obj" by simp
  show ?thesis
  proof (cases "ExtractProto E (member obj ''state'')")
    case (Inl e)
    then show ?thesis
      using extract_fine(1) [OF fine] True by (intro none, cases e) (auto simp: ParseDisputeResolutionMove_def)
  next
    case (Inr pf)
    note f = extract_fine(2) [OF fine Inr]
    show ?thesis
    proof (cases rule: retrieve_cases [OF obj, of tbl])
      case 1
      with True Inr show ?thesis by (intro none) (simp add: ParseDisputeResolutionMove_def)
    next
      case (2 i r)
      with True Inr f show ?thesis by (intro some [of i r pf]) (simp_all add: ParseDisputeResolutionMove_def)
    qed
  qed
qed

lemma handle_dispute_eq:
  assumes "ParseDisputeResolutionMove E obj (db_channels db) = Some (Some (h, pf))"
    and "participants_size (cd_metadata h) = 2"
  shows "HandleDisputeResolution E obj height isDispute db =
    Option.bind (process_move E isDispute height h pf) (\<lambda>(res, h'). if \<not> res
      then Option.bind (destroy_ChannelData h' (db_channels db)) (\<lambda>tbl. Some (db\<lparr>db_channels := tbl\<rparr>))
      else settle E (cd_id h) (cd_metadata h) h' db)"
  using assms by (simp add: HandleDisputeResolution_def Let_def)

lemma dispute_keeps:
  assumes env: "gsp_env_ok E" and inv: "gsp_inv E n db" "channel_ids db \<subseteq> D" and n: "uint height = n" "0 < n"
    and fine: "\<And>s. member obj ''state'' = JString s \<Longrightarrow> text_fine E s"
  shows "keeps E n D (HandleDisputeResolution E obj height isDispute db)"
proof -
  consider (none) "ParseDisputeResolutionMove E obj (db_channels db) = Some None"
    | (some) i r pf where "ParseDisputeResolutionMove E obj (db_channels db) = Some (Some (load_ChannelData i r, pf))"
        "map_of (db_channels db) i = Some r" "proof_fine E pf"
    using parse_dispute_cases [of obj E] fine by blast
  then show ?thesis
  proof cases
    case none
    then show ?thesis using inv by (auto simp: HandleDisputeResolution_def)
  next
    case (some i r pf)
    obtain c k where ck: "map_of (channel_extradata db) i = Some (c, k)" "entry_ok E n i (Some r) (Some (c, k))"
      using row_entry [OF inv(1) some(2)] by blast
    show ?thesis
    proof (cases "participants_size (row_metadata r) = 2")
      case False
      with some inv show ?thesis by (auto simp: HandleDisputeResolution_def)
    next
      case two: True
      note good = entry_two [OF ck(2) two]
      note eq = handle_dispute_eq [OF some(1)]
      show ?thesis
      proof (cases rule: process_move_cases [OF env good(1) some(3) n, of isDispute])
        case 1
        with two eq inv show ?thesis by (auto simp: destroy_clean)
      next
        case (2 h')
        have "keeps E n D (settle E (cd_id h') (cd_metadata h') h' db)"
          using 2 ck good some(2) by (intro settle_keeps [OF env inv 2(2,3)]) auto
        with two eq 2 show ?thesis by simp
      qed
    qed
  qed
qed

section \<open>Expiry\<close>

lemma restrict_le: "m |` A \<subseteq>\<^sub>m m"
  by (auto simp: map_le_def restrict_map_def split: if_splits)

lemma delete_maps:
  "map_of (db_channels (DeleteChannelById i db)) = map_of (db_channels db) |` (- {i})"
  "map_of (channel_extradata (DeleteChannelById i db)) = map_of (channel_extradata db) |` (- {i})"
  "game_stats (DeleteChannelById i db) = game_stats db"
  by (auto simp: DeleteChannelById_def DeleteById_def restrict_map_def fun_eq_iff)

text \<open>Closing one disputed channel.\<close>

lemma expire_one:
  assumes env: "gsp_env_ok E" and inv: "gsp_inv E n db"
    and r: "map_of (db_channels db) i = Some r" "row_disputeHeight r = Some d"
  shows "\<exists>db'. expire_dispute E (i, r) db = Some db' \<and> gsp_inv E n db'
    \<and> map_of (db_channels db') = map_of (db_channels db) |` (- {i})
    \<and> map_of (channel_extradata db') = map_of (channel_extradata db) |` (- {i})"
proof -
  obtain c k where ck: "map_of (channel_extradata db) i = Some (c, k)" "entry_ok E n i (Some r) (Some (c, k))"
    using row_entry [OF inv r(1)] by blast
  then have good: "chan_good E n (load_ChannelData i r)" and d0: "d \<noteq> 0"
    using r(2) by (auto simp: chan_open_def)
  have g: "participants_size (row_metadata r) = 2"
    "part_name (participants (row_metadata r) ! 0) \<noteq> part_name (participants (row_metadata r) ! 1)"
    "state_good E i (row_metadata r) (UnverifiedProofEndState (cd_proof (load_ChannelData i r)))"
    using chan_goodD(2,3,4) [OF good] by simp_all
  obtain p where p: "ParseState (rules (cenv E)) i (row_metadata r) (UnverifiedProofEndState (cd_proof (load_ChannelData i r))) = Inr p"
    "ships_good i (row_metadata r) p"
    using g(3) by (auto simp: state_good_def)
  have "pWhoseTurn (rules (cenv E)) p \<noteq> Some NO_TURN"
    using good p(1) r(2) d0 by (simp add: chan_good_def) (simp add: load_ChannelData_def)
  then obtain t where t: "pWhoseTurn (rules (cenv E)) p = Some t" "t \<noteq> NO_TURN" "0 \<le> t" "t \<le> 1"
    using board_rules.turn_defined [OF gsp_rules [OF env] p(2)] g(1) by auto
  obtain st where st: "UpdateStats (row_metadata r) (1 - t) db = Some (db\<lparr>game_stats := st\<rparr>)" "stats_ok st"
    using UpdateStats_inv [OF inv g(1,2), of "1 - t"] t by auto
  let ?db' = "DeleteChannelById i (db\<lparr>game_stats := st\<rparr>)"
  have "expire_dispute E (i, r) db = Some ?db'"
    using g(1) p(1) t st(1) by (simp add: expire_dispute_def GetFromResult_def parse_checked_def Let_def)
  moreover have "gsp_inv E n ?db'" using inv st(2) by (intro inv_delete inv_stats)
  ultimately show ?thesis by (simp add: delete_maps)
qed

lemma expire_all:
  assumes env: "gsp_env_ok E" and inv: "gsp_inv E n db" and "distinct (map fst rows)"
    and "\<forall>x \<in> set rows. map_of (db_channels db) (fst x) = Some (snd x) \<and> row_disputeHeight (snd x) \<noteq> None"
  shows "\<exists>db'. expire_disputes E rows db = Some db' \<and> gsp_inv E n db'
    \<and> map_of (db_channels db') = map_of (db_channels db) |` (- fst ` set rows)"
  using assms(2-)
proof (induction rows arbitrary: db)
  case (Cons x rows)
  obtain i r where x: "x = (i, r)" by (cases x)
  obtain d where d: "map_of (db_channels db) i = Some r" "row_disputeHeight r = Some d"
    using Cons.prems(3) x by auto
  obtain db1 where db1: "expire_dispute E (i, r) db = Some db1" "gsp_inv E n db1"
    "map_of (db_channels db1) = map_of (db_channels db) |` (- {i})"
    using expire_one [OF env Cons.prems(1) d] by blast
  have "\<forall>y \<in> set rows. map_of (db_channels db1) (fst y) = Some (snd y) \<and> row_disputeHeight (snd y) \<noteq> None"
    using Cons.prems(2,3) unfolding db1(3) x by (force simp: restrict_map_def)
  from Cons.IH [OF db1(2) _ this] Cons.prems(2) obtain db' where "expire_disputes E rows db1 = Some db'"
    "gsp_inv E n db'" "map_of (db_channels db') = map_of (db_channels db1) |` (- fst ` set rows)" by auto
  moreover have "- {i} \<inter> - fst ` set rows = - fst ` set (x # rows)" using x by auto
  ultimately show ?case using db1 x by simp
qed (simp add: restrict_map_def)

text \<open>Which disputes expire at a height: those of the last ten blocks stay, but before block ten none does.\<close>

definition expired :: "u32 \<Rightarrow> ChannelRow \<Rightarrow> bool" where
  "expired height r \<longleftrightarrow> (\<exists>d. row_disputeHeight r = Some d \<and> (uint d + 10 \<le> uint height \<or> uint height < 10))"

lemma uint_minus:
  assumes "0 \<le> k" "k < 2 ^ 32"
  shows "uint (h - word_of_int k :: u32) = (if k \<le> uint h then uint h - k else uint h - k + 2 ^ 32)"
proof -
  have eq: "uint (h - word_of_int k :: u32) = (uint h - k) mod 2 ^ 32"
    by (simp add: uint_word_ariths uint_word_of_int take_bit_eq_mod mod_diff_right_eq)
  have range: "0 \<le> uint h" "uint h < 2 ^ 32" using uint_lt2p [of h] by simp_all
  show ?thesis
  proof (cases "k \<le> uint h")
    case True
    then show ?thesis using eq range assms by (simp add: mod_pos_pos_trivial)
  next
    case False
    have "(uint h - k) mod 2 ^ 32 = (uint h - k + 2 ^ 32) mod 2 ^ 32" by simp
    also have "\<dots> = uint h - k + 2 ^ 32"
      using False range assms by (intro mod_pos_pos_trivial) linarith+
    finally show ?thesis using False eq by simp
  qed
qed

lemma query_expired:
  assumes "0 \<le> n" and good: "\<forall>d. row_disputeHeight r = Some d \<longrightarrow> uint d \<le> uint height"
  shows "(case row_disputeHeight r of None \<Rightarrow> False | Some d \<Rightarrow> d \<le> height - DISPUTE_BLOCKS) \<longleftrightarrow> expired height r"
  using good uint_minus [of 10 height] uint_ge_0 [of height]
  by (auto simp: DISPUTE_BLOCKS_def expired_def word_le_def split: option.split if_splits)

lemma dispute_past:
  assumes inv: "gsp_inv E n db" and r: "map_of (db_channels db) i = Some r" "row_disputeHeight r = Some d"
  shows "uint d \<le> n" "n \<le> uint d + 10"
proof -
  obtain c k where "entry_ok E n i (Some r) (Some (c, k))" using row_entry [OF inv r(1)] by blast
  with r(2) have "chan_good E n (load_ChannelData i r)" "d \<noteq> 0" by (auto simp: chan_open_def)
  with r(2) show "uint d \<le> n" "n \<le> uint d + 10"
    by (auto simp: chan_good_def load_ChannelData_def)
qed

text \<open>The disputes that expire are closed, and no other channel.\<close>

lemma expired_disputes:
  assumes env: "gsp_env_ok E" and inv: "gsp_inv E n db" and n: "uint height = n"
  shows "\<exists>db'. ProcessExpiredDisputes E height db = Some db' \<and> gsp_inv E n db'
    \<and> map_of (db_channels db') = map_of (filter (\<lambda>x. \<not> expired height (snd x)) (db_channels db))"
proof -
  let ?rows = "filter (\<lambda>x. expired height (snd x)) (db_channels db)"
  note tbl = gsp_invD(1) [OF inv]
  have q: "QueryForDisputeHeight (height - DISPUTE_BLOCKS) (db_channels db) = ?rows"
    unfolding QueryForDisputeHeight_def
  proof (rule filter_cong [OF refl])
    fix x assume "x \<in> set (db_channels db)"
    then have "map_of (db_channels db) (fst x) = Some (snd x)"
      by (rule tbl_ok_mem [OF tbl])
    with dispute_past [OF inv this] n show "(case row_disputeHeight (snd x) of None \<Rightarrow> False | Some d \<Rightarrow> d \<le> height - DISPUTE_BLOCKS)
        = expired height (snd x)"
      by (intro query_expired [of n]) auto
  qed
  have d: "distinct (map fst ?rows)" using tbl_ok_distinct [OF tbl_ok_filter [OF tbl]] .
  have rows: "\<forall>x \<in> set ?rows. map_of (db_channels db) (fst x) = Some (snd x) \<and> row_disputeHeight (snd x) \<noteq> None"
    using tbl_ok_mem [OF tbl] by (auto simp: expired_def)
  note map_of_filter_part [OF tbl, of "expired height"]
  with expire_all [OF env inv d rows] show ?thesis
    unfolding ProcessExpiredDisputes_def q by simp
qed

text \<open>Timing out the open channels of one height.\<close>

lemma time_out_all:
  assumes inv: "gsp_inv E n db" and n: "uint height = n" "12 \<le> n" "n < 2 ^ 31"
    and "\<forall>x \<in> set rows. snd x = (n - 12, 1)"
  shows "\<exists>db'. time_out_channels height rows db = Some db' \<and> gsp_inv E n db'
    \<and> map_of (db_channels db') = map_of (db_channels db) |` (- fst ` set rows)
    \<and> map_of (channel_extradata db') = map_of (channel_extradata db) |` (- fst ` set rows)"
  using inv assms(5)
proof (induction rows arbitrary: db)
  case Nil
  then show ?case by (simp add: restrict_map_def)
next
  case (Cons x rows)
  obtain i where x: "x = (i, (n - 12, 1))" using Cons.prems(2) by (cases x) auto
  have "(of_int (n - 12) :: u32) = height - CHANNEL_TIMEOUT_BLOCKS"
    by (simp add: n(1) [symmetric] CHANNEL_TIMEOUT_BLOCKS_def)
  then have step: "time_out_channels height (x # rows) db = time_out_channels height rows (DeleteChannelById i db)"
    using n by (simp add: x Get_int_def)
  from Cons.IH [OF inv_delete [OF Cons.prems(1)]] Cons.prems(2) obtain db' where
    "time_out_channels height rows (DeleteChannelById i db) = Some db'" "gsp_inv E n db'"
    "map_of (db_channels db') = map_of (db_channels db) |` (- {i}) |` (- fst ` set rows)"
    "map_of (channel_extradata db') = map_of (channel_extradata db) |` (- {i}) |` (- fst ` set rows)"
    unfolding delete_maps by auto
  moreover have "- {i} \<inter> - fst ` set rows = - fst ` set (x # rows)" using x by auto
  ultimately show ?case unfolding step by simp
qed

definition timed_out :: "int \<Rightarrow> int \<times> int \<Rightarrow> bool" where
  "timed_out n e \<longleftrightarrow> snd e < 2 \<and> fst e \<le> n - 12"

lemma timed_out_channels:
  assumes inv: "gsp_inv E n db" and n: "uint height = n" "n < 2 ^ 31"
  shows "\<exists>db'. TimeOutChannels height db = Some db' \<and> gsp_inv E n db'
    \<and> map_of (channel_extradata db') = map_of (filter (\<lambda>x. \<not> timed_out n (snd x)) (channel_extradata db))
    \<and> map_of (db_channels db') \<subseteq>\<^sub>m map_of (db_channels db)"
proof (cases "12 \<le> n")
  case False
  have "\<not> timed_out n (snd x)" if "x \<in> set (channel_extradata db)" for x
  proof -
    have x: "map_of (channel_extradata db) (fst x) = Some (snd x)"
      by (rule tbl_ok_mem [OF gsp_invD(2) [OF inv] that])
    have "0 \<le> fst (snd x)"
      using gsp_invD(4) [OF inv, of "fst x"] x
      by (cases "map_of (db_channels db) (fst x)"; cases "snd x") auto
    with False show ?thesis by (simp add: timed_out_def)
  qed
  then have "filter (\<lambda>x. \<not> timed_out n (snd x)) (channel_extradata db) = channel_extradata db"
    by (simp add: filter_id_conv)
  moreover have "height < CHANNEL_TIMEOUT_BLOCKS"
    using False n by (simp add: CHANNEL_TIMEOUT_BLOCKS_def word_less_def)
  ultimately show ?thesis using inv by (simp add: TimeOutChannels_def)
next
  case True
  let ?rows = "filter (\<lambda>x. timed_out n (snd x)) (channel_extradata db)"
  have "\<not> height < CHANNEL_TIMEOUT_BLOCKS"
    using True n by (simp add: CHANNEL_TIMEOUT_BLOCKS_def word_less_def)
  moreover have "uint (height - CHANNEL_TIMEOUT_BLOCKS) = n - 12"
    using uint_minus [of 12 height] True n by (simp add: CHANNEL_TIMEOUT_BLOCKS_def)
  ultimately have eq: "TimeOutChannels height db = time_out_channels height ?rows db"
    by (simp add: TimeOutChannels_def timed_out_def)
  have "snd x = (n - 12, 1)" if "x \<in> set ?rows" for x
  proof -
    have x: "map_of (channel_extradata db) (fst x) = Some (snd x)" "timed_out n (snd x)"
      using that tbl_ok_mem [OF gsp_invD(2) [OF inv]] by auto
    then show ?thesis
      using gsp_invD(4) [OF inv, of "fst x"]
      by (cases "map_of (db_channels db) (fst x)"; cases "snd x")
        (auto simp: timed_out_def chan_open_def chan_good_def)
  qed
  then have "\<forall>x \<in> set ?rows. snd x = (n - 12, 1)" by blast
  note all = time_out_all [OF inv n(1) True n(2) this]
  show ?thesis
    unfolding eq map_of_filter_part [OF gsp_invD(2) [OF inv], symmetric]
    using all restrict_le by (elim exE conjE) (intro exI conjI, assumption+, simp_all only:)
qed

text \<open>The invariant of the next height.\<close>

lemma inv_next:
  assumes inv: "gsp_inv E n db"
    and disp: "\<And>i r d. \<lbrakk>map_of (db_channels db) i = Some r; row_disputeHeight r = Some d\<rbrakk> \<Longrightarrow> n + 1 \<le> uint d + 10"
    and opn: "\<And>i e. map_of (channel_extradata db) i = Some e \<Longrightarrow> \<not> timed_out n e"
  shows "gsp_inv E (n + 1) db"
proof -
  have "entry_ok E (n + 1) i (map_of (db_channels db) i) (map_of (channel_extradata db) i)" for i
  proof (cases "map_of (db_channels db) i")
    case None
    then show ?thesis using gsp_invD(4) [OF inv, of i] by simp
  next
    case (Some r)
    then obtain c k where ck: "map_of (channel_extradata db) i = Some (c, k)" "entry_ok E n i (Some r) (Some (c, k))"
      using row_entry [OF inv] by blast
    have "chan_open r \<Longrightarrow> n + 1 \<le> c + 12"
      using opn [OF ck(1)] ck(2) by (auto simp: timed_out_def chan_open_def)
    moreover have "chan_good E (n + 1) (load_ChannelData i r)" if "chan_good E n (load_ChannelData i r)"
      using that disp [OF Some] by (auto simp: chan_good_def load_ChannelData_def split: option.splits)
    ultimately show ?thesis using Some ck by auto
  qed
  with gsp_invD(1-3) [OF inv] show ?thesis by (simp add: gsp_inv_def)
qed

lemma expiry_next:
  assumes env: "gsp_env_ok E" and inv: "gsp_inv E n db" and n: "uint height = n" "n < 2 ^ 31"
  shows "\<exists>db'. Option.bind (ProcessExpiredDisputes E height db) (TimeOutChannels height) = Some db' \<and> gsp_inv E (n + 1) db'
    \<and> map_of (db_channels db') \<subseteq>\<^sub>m map_of (db_channels db)"
proof -
  obtain db1 where db1: "ProcessExpiredDisputes E height db = Some db1" "gsp_inv E n db1"
    "map_of (db_channels db1) = map_of (filter (\<lambda>x. \<not> expired height (snd x)) (db_channels db))"
    using expired_disputes [OF env inv n(1)] by blast
  obtain db2 where db2: "TimeOutChannels height db1 = Some db2" "gsp_inv E n db2"
    "map_of (channel_extradata db2) = map_of (filter (\<lambda>x. \<not> timed_out n (snd x)) (channel_extradata db1))"
    "map_of (db_channels db2) \<subseteq>\<^sub>m map_of (db_channels db1)"
    using timed_out_channels [OF db1(2) n] by blast
  note f1 = map_of_filter [OF gsp_invD(1) [OF inv], of "\<lambda>r. \<not> expired height r"]
  note f2 = map_of_filter [OF gsp_invD(2) [OF db1(2)], of "\<lambda>e. \<not> timed_out n e"]
  have le: "map_of (db_channels db1) \<subseteq>\<^sub>m map_of (db_channels db)"
    unfolding db1(3) by (auto simp: map_le_def f1 split: option.splits if_splits)
  have "gsp_inv E (n + 1) db2"
  proof (rule inv_next [OF db2(2)])
    fix i r d
    assume "map_of (db_channels db2) i = Some r" and d: "row_disputeHeight r = Some d"
    with db2(4) have "map_of (db_channels db1) i = Some r" by (auto simp: map_le_def dom_def)
    then have "\<not> expired height r"
      unfolding db1(3) f1 by (auto split: option.splits if_splits)
    with d n show "n + 1 \<le> uint d + 10" by (auto simp: expired_def)
  next
    fix i e
    assume "map_of (channel_extradata db2) i = Some e"
    then show "\<not> timed_out n e" unfolding db2(3) f2 by (auto split: option.splits if_splits)
  qed
  with db1(1) db2(1) map_le_trans [OF db2(4) le] show ?thesis by simp
qed

end
