(* ===== verification/ShipsGspProps.thy ===== *)
theory ShipsGspProps
  imports ShipsGspBlock
begin

text \<open>
  Blocks of the ships processor: the moves of a block and the whole block keep the invariant of the
  database and fail no check; which disputes expire; what a decided game does to the statistics.
\<close>

section \<open>Blocks\<close>

text \<open>The texts in a move that the processor decodes.\<close>

definition move_texts :: "json \<Rightarrow> json list" where
  "move_texts mv = (let dat = member mv ''move'' in
     [member (member dat ''l'') ''r'', member (member dat ''d'') ''state'', member (member dat ''r'') ''state''])"

text \<open>What the processor relies on for a move: the shape that the daemon gives it, and fine texts.\<close>

definition move_fine :: "gsp_env \<Rightarrow> json \<Rightarrow> bool" where
  "move_fine E mv \<longleftrightarrow> isObject mv \<and> isString (member mv ''name'') \<and> GetIdFromMove mv \<noteq> None
    \<and> list_all (\<lambda>v. case v of JString s \<Rightarrow> text_fine E s | _ \<Rightarrow> True) (move_texts mv)"

lemma move_keeps:
  assumes env: "gsp_env_ok E" and inv: "gsp_inv E n db" "channel_ids db \<subseteq> D"
    and mv: "move_fine E mv" "GetIdFromMove mv = Some i" and i: "i \<notin> D" and n: "uint height = n" "0 < n"
  shows "keeps E n (insert i D) (ships_move E height mv db)"
proof -
  obtain name where name: "member mv ''name'' = JString name"
    using mv(1) by (cases "member mv ''name''") (auto simp: move_fine_def isString_def)
  let ?dat = "member mv ''move''" and ?D = "insert i D"
  have fine: "\<And>s. member (member ?dat ''l'') ''r'' = JString s \<Longrightarrow> text_fine E s"
    "\<And>s. member (member ?dat ''d'') ''state'' = JString s \<Longrightarrow> text_fine E s"
    "\<And>s. member (member ?dat ''r'') ''state'' = JString s \<Longrightarrow> text_fine E s"
    using mv(1) by (auto simp: move_fine_def move_texts_def Let_def split: json.splits)
  have i': "i \<notin> channel_ids db" and sub: "channel_ids db \<subseteq> ?D" using i inv(2) by auto
  have head: "ships_move E height mv db = (if \<not> isObject ?dat \<or> json_size ?dat > 1 then Some db else do {
       db \<leftarrow> HandleCreateChannel (member ?dat ''c'') height name i db;
       db \<leftarrow> HandleJoinChannel E (member ?dat ''j'') name i db;
       db \<leftarrow> HandleAbortChannel (member ?dat ''a'') name db;
       db \<leftarrow> HandleDeclareLoss E (member ?dat ''l'') name db;
       db \<leftarrow> HandleDisputeResolution E (member ?dat ''d'') height True db;
       HandleDisputeResolution E (member ?dat ''r'') height False db })"
    using mv name by (simp add: ships_move_def move_fine_def isString_def asString_def Let_def)
  have loss: "member (member ?dat ''l'') ''r'' = JString s \<Longrightarrow> DecodeBase64 (evp_decode E) s \<noteq> Inl CheckFailed" for s
    using fine(1) by (simp add: text_fine_def)
  have "keeps E n ?D (do {
       db \<leftarrow> HandleCreateChannel (member ?dat ''c'') height name i db;
       db \<leftarrow> HandleJoinChannel E (member ?dat ''j'') name i db;
       db \<leftarrow> HandleAbortChannel (member ?dat ''a'') name db;
       db \<leftarrow> HandleDeclareLoss E (member ?dat ''l'') name db;
       db \<leftarrow> HandleDisputeResolution E (member ?dat ''d'') height True db;
       HandleDisputeResolution E (member ?dat ''r'') height False db })"
    by (rule keeps_bind [OF create_keeps [OF inv(1) sub n(1) i' insertI1]], rule keeps_bind [OF join_keeps [OF env]],
        assumption+, rule keeps_bind [OF abort_keeps], assumption+, rule keeps_bind [OF loss_keeps [OF _ _ loss]],
        assumption+, rule keeps_bind [OF dispute_keeps [OF env _ _ n fine(2)]], assumption+,
        rule dispute_keeps [OF env _ _ n fine(3)], assumption+)
  with inv(1) sub show ?thesis unfolding head by (simp add: keepsI)
qed

lemma moves_keep:
  assumes env: "gsp_env_ok E" and n: "uint height = n" "0 < n" and "gsp_inv E n db"
    and "list_all (move_fine E) mvs" and "map GetIdFromMove mvs = map Some ids" "distinct ids"
    and "channel_ids db \<inter> set ids = {}"
  shows "\<exists>db'. ships_moves E height mvs db = Some db' \<and> gsp_inv E n db' \<and> channel_ids db' \<subseteq> channel_ids db \<union> set ids"
  using assms(4-)
proof (induction mvs arbitrary: db ids)
  case (Cons mv mvs)
  from Cons.prems obtain i js where ids: "ids = i # js" "GetIdFromMove mv = Some i" "map GetIdFromMove mvs = map Some js"
    by auto
  have "keeps E n (insert i (channel_ids db)) (ships_move E height mv db)"
    using Cons.prems ids by (intro move_keeps [OF env Cons.prems(1) _ _ ids(2) _ n]) auto
  then obtain db1 where db1: "ships_move E height mv db = Some db1" "gsp_inv E n db1"
    "channel_ids db1 \<subseteq> insert i (channel_ids db)"
    by (auto simp: keeps_def)
  from Cons.prems ids db1(3) have "list_all (move_fine E) mvs" "distinct js" "channel_ids db1 \<inter> set js = {}" by auto
  from Cons.IH [OF db1(2) this(1) ids(3) this(2,3)] db1(1,3) ids(1) show ?case by fastforce
qed simp

text \<open>A block keeps the invariant, and the channels are old ones or have the ID of a move.\<close>

lemma block_keeps:
  assumes "gsp_env_ok E" and "gsp_inv E (int n) db" and "0 < n" "n < 2 ^ 31"
    and "json_at blockData ''block'' = Some blk" "isObject blk" "asUInt (member blk ''height'') = Some n"
    and "json_at blockData ''moves'' = Some (JArray mvs)" "list_all (move_fine E) mvs"
    and "map GetIdFromMove mvs = map Some ids" "distinct ids" "channel_ids db \<inter> set ids = {}"
  shows "\<exists>db'. ships_UpdateState E blockData db = Some db' \<and> gsp_inv E (int n + 1) db'
    \<and> channel_ids db' \<subseteq> channel_ids db \<union> set ids"
proof -
  have h: "uint (of_nat n :: u32) = int n"
    using assms(4) by (simp add: unsigned_of_nat take_bit_nat_eq_self)
  obtain db1 where db1: "ships_moves E (of_nat n) mvs db = Some db1" "gsp_inv E (int n) db1"
    "channel_ids db1 \<subseteq> channel_ids db \<union> set ids"
    using moves_keep [OF assms(1) h _ assms(2,9-12)] assms(3) by auto
  have "int n < 2 ^ 31" using assms(4) by simp
  from expiry_next [OF assms(1) db1(2) h this] obtain db' where
    "Option.bind (ProcessExpiredDisputes E (of_nat n) db1) (TimeOutChannels (of_nat n)) = Some db'"
    "gsp_inv E (int n + 1) db'" "map_of (db_channels db') \<subseteq>\<^sub>m map_of (db_channels db1)" by blast
  moreover from this(3) have "channel_ids db' \<subseteq> channel_ids db1" by (simp add: channel_ids_def map_le_implies_dom_le)
  ultimately show ?thesis
    using db1(1,3) assms(5-8) by (auto simp: ships_UpdateState_def Let_def)
qed

text \<open>
  C5: A block of the ships game at the next height, whose moves have distinct transaction IDs that are no
  old channels and carry only texts and state proofs that are harmless (\<open>move_fine\<close>: they decode without a
  failed check, and a proof starts in a well-formed state or one that does not parse), is processed without failing any check of
  the code, and the database satisfies the invariant of the next height afterwards.  Moves that are not
  harmless can stop the process (\<open>ShipsRules\<close> has such a proof).  The invariant: the channel table and the extra data have the
  same channels; every channel either waits for its second player, since at most twelve blocks, or has
  two different players, a well-formed state, a valid state proof and, if disputed, a player to move and
  a dispute of the last ten blocks; won and lost games balance.
\<close>

theorem ships_block_invariant:
  assumes "gsp_env_ok E" and "gsp_inv E (int n) db" and "0 < n" "n < 2 ^ 31"
    and "json_at blockData ''block'' = Some blk" "isObject blk" "asUInt (member blk ''height'') = Some n"
    and "json_at blockData ''moves'' = Some (JArray mvs)" "list_all (move_fine E) mvs"
    and "map GetIdFromMove mvs = map Some ids" "distinct ids" "channel_ids db \<inter> set ids = {}"
  shows "\<exists>db'. ships_UpdateState E blockData db = Some db' \<and> gsp_inv E (int n + 1) db'"
  using block_keeps [OF assms] by blast

section \<open>A concrete processor\<close>

definition demo_gsp :: gsp_env where
  "demo_gsp = \<lparr>cenv = demo_env, gcodec = demo_codec,
     parse_StateProof = (\<lambda>bs. if bs = [] then Some demo_proof else None), evp_decode = b64_decode\<rparr>"

definition demo_row :: "u32 option \<Rightarrow> ChannelRow" where
  "demo_row dispute = \<lparr>row_metadata = demo_meta, row_reinit = demo_bytes InitialBoardState, row_stateproof = None,
     row_disputeHeight = dispute\<rparr>"

definition demo_db :: "u32 option \<Rightarrow> ships_db" where
  "demo_db dispute = \<lparr>db_channels = [(SetNull, demo_row dispute)], channel_extradata = [(SetNull, (3, 2))],
     game_stats = []\<rparr>"

lemma demo_gsp_ok: "gsp_env_ok demo_gsp"
  using demo_codec_ok demo_sha_ok demo_rules by (simp add: gsp_env_ok_def demo_gsp_def) (simp add: demo_env_def)

lemma demo_state_good: "board_wf pb \<Longrightarrow> state_good demo_gsp i demo_meta (demo_bytes pb)"
  using demo_parses demo_good by (fastforce simp: state_good_def demo_gsp_def)

lemma demo_row_good:
  assumes "\<And>d. dispute = Some d \<Longrightarrow> d \<noteq> 0 \<and> uint d \<le> n \<and> n \<le> uint d + 10"
  shows "chan_good demo_gsp n (load_ChannelData SetNull (demo_row dispute))"
proof -
  note g = demo_state_good [OF initial_wf, of SetNull]
  have "VerifyStateProof demo_env SetNull demo_meta (demo_bytes InitialBoardState)
      (StateProofFromReinit (demo_bytes InitialBoardState)) = Inr (demo_bytes InitialBoardState)"
    using reinit_verifies [OF demo_gsp_ok g] by (simp add: demo_gsp_def)
  moreover have "pWhoseTurn (rules demo_env) p \<noteq> Some NO_TURN"
    if "ParseState (rules demo_env) SetNull demo_meta (demo_bytes InitialBoardState) = Inr p" for p
    using that demo_parses [OF initial_wf] demo_counts(3) by (simp add: NO_TURN_def)
  moreover have "part_name (participants demo_meta ! 0) \<noteq> part_name (participants demo_meta ! 1)"
    by (simp add: demo_meta_def part_name_def)
  ultimately show ?thesis
    using g assms demo_two unfolding chan_good_def
    by (cases dispute) (simp_all add: load_ChannelData_def demo_row_def demo_gsp_def)
qed

lemma demo_db_inv:
  assumes "3 \<le> n" and "\<And>d. dispute = Some d \<Longrightarrow> d \<noteq> 0 \<and> uint d \<le> n \<and> n \<le> uint d + 10"
  shows "gsp_inv demo_gsp n (demo_db dispute)"
proof -
  have "row_disputeHeight (demo_row dispute) \<noteq> Some 0" using assms(2) by (auto simp: demo_row_def)
  moreover have "int (participants_size (row_metadata (demo_row dispute))) = 2" by (simp add: demo_row_def demo_two)
  ultimately have "entry_ok demo_gsp n SetNull (Some (demo_row dispute)) (Some (3, 2))"
    using assms demo_row_good [OF assms(2)] by simp
  then show ?thesis
    by (simp add: gsp_inv_def demo_db_def tbl_ok_def stats_ok_def del: entry_ok_Some)
qed

text \<open>A block with a dispute and with the creation of a channel.\<close>

definition demo_id :: "char \<Rightarrow> string" where
  "demo_id c = replicate 64 c"

definition demo_mv :: "char \<Rightarrow> (string \<times> json) list \<Rightarrow> json" where
  "demo_mv c act = JObject [(''move'', JObject act), (''name'', JString ''foo''), (''txid'', JString (demo_id c))]"

definition demo_moves_list :: "json list" where
  "demo_moves_list =
    [demo_mv (CHR ''1'') [(''d'', JObject [(''id'', JString (demo_id (CHR ''0''))), (''state'', JString [])])],
     demo_mv (CHR ''2'') [(''c'', JObject [(''addr'', JString ''addr 3'')])]]"

definition demo_block :: json where
  "demo_block = JObject [(''block'', JObject [(''height'', JInt 5)]), (''moves'', JArray demo_moves_list)]"

lemma demo_proof_fine: "proof_fine demo_gsp demo_proof"
  unfolding proof_fine_def
proof (intro allI impI)
  fix i :: uint256 and m and p
  assume two: "participants_size m = 2"
    and p: "ParseState (rules (cenv demo_gsp)) i m (get_data (get_initial_state demo_proof)) = Inr p"
  let ?p = "\<lparr>GetMetadata = m, GetState = InitialBoardState\<rparr>"
  have g: "ships_good i m ?p" using two initial_wf by (simp add: ships_good_def)
  have "ParseState (rules (cenv demo_gsp)) i m (get_data (get_initial_state demo_proof)) = Inr ?p"
    using ships_parse [OF g, of demo_codec "demo_bytes InitialBoardState" demo_sha]
    by (simp add: demo_proof_data demo_parse demo_gsp_def demo_rules)
  with p g show "ships_good i m p" by simp
qed

lemma demo_text_fine: "text_fine demo_gsp []"
proof -
  have "DecodeBase64 b64_decode [] = Inr []" by code_simp
  then show ?thesis
    using demo_proof_fine by (auto simp: text_fine_def ProtoFromBase64_def demo_gsp_def)
qed

lemma demo_ids: "map GetIdFromMove demo_moves_list = map Some [U256 (replicate 32 0x11), U256 (replicate 32 0x22)]"
  by code_simp

lemma demo_moves_fine: "list_all (move_fine demo_gsp) demo_moves_list"
proof -
  have "GetIdFromMove mv \<noteq> None" if "mv \<in> set demo_moves_list" for mv
    using that arg_cong [OF demo_ids, of "\<lambda>l. list_all (\<lambda>x. x \<noteq> None) l"] by (auto simp: list_all_iff)
  then show ?thesis
    using demo_text_fine
    by (simp add: demo_moves_list_def demo_mv_def move_fine_def move_texts_def isObject_def isString_def member_def)
qed

theorem ships_block_invariant_witness:
  "\<exists>db'. ships_UpdateState demo_gsp demo_block (demo_db None) = Some db' \<and> gsp_inv demo_gsp (int 5 + 1) db'"
proof (rule ships_block_invariant [OF demo_gsp_ok _ _ _ _ _ _ _ demo_moves_fine demo_ids])
  show "gsp_inv demo_gsp (int 5) (demo_db None)" by (rule demo_db_inv) simp_all
  show "json_at demo_block ''block'' = Some (JObject [(''height'', JInt 5)])"
    "json_at demo_block ''moves'' = Some (JArray demo_moves_list)"
    by (simp_all add: demo_block_def json_at_def member_def)
  show "isObject (JObject [(''height'', JInt 5)])" by (simp add: isObject_def)
  show "asUInt (member (JObject [(''height'', JInt 5)]) ''height'') = Some 5" by (simp add: member_def asUInt_def)
  show "distinct [U256 (replicate 32 0x11), U256 (replicate 32 0x22)]" by code_simp
  show "channel_ids (demo_db None) \<inter> set [U256 (replicate 32 0x11), U256 (replicate 32 0x22)] = {}"
    by (simp add: channel_ids_def demo_db_def SetNull_def NUM_BYTES_def)
qed simp_all

section \<open>Statistics and expiry\<close>

definition stats_of :: "ships_db \<Rightarrow> string \<Rightarrow> int \<times> int" where
  "stats_of db name = get_or (0, 0) (map_of (game_stats db) name)"

text \<open>
  Recording a decided game adds one won game to the winner and one lost game to the loser, who need
  not have been in the table, and changes no other row and no channel; won and lost games stay balanced.
\<close>

lemma update_stats_correct:
  assumes "stats_ok (game_stats db)" and "participants meta = [p0, p1]" and "part_name p0 \<noteq> part_name p1"
    and "w = 0 \<and> win = p0 \<and> lose = p1 \<or> w = 1 \<and> win = p1 \<and> lose = p0"
  shows "\<exists>db'. UpdateStats meta w db = Some db' \<and> stats_ok (game_stats db')
    \<and> stats_of db' (part_name win) = (fst (stats_of db (part_name win)) + 1, snd (stats_of db (part_name win)))
    \<and> stats_of db' (part_name lose) = (fst (stats_of db (part_name lose)), snd (stats_of db (part_name lose)) + 1)
    \<and> (\<forall>x. x \<noteq> part_name win \<longrightarrow> x \<noteq> part_name lose \<longrightarrow> stats_of db' x = stats_of db x)
    \<and> db_channels db' = db_channels db \<and> channel_extradata db' = channel_extradata db"
proof -
  have t: "tbl_ok (game_stats db)" using assms(1) by (simp add: stats_ok_def)
  have names: "part_name win \<noteq> part_name lose" using assms(3,4) by auto
  have two: "participants_size meta = 2" using assms(2) by (simp add: participants_size_def)
  have w: "0 \<le> w" "w \<le> 1" using assms(4) by auto
  have at: "part_name (participants meta ! nat w) = part_name win"
    "part_name (participants meta ! nat (1 - w)) = part_name lose"
    using assms(2,4) by auto
  let ?t = "member_upd (part_name lose) (\<lambda>(won, lost). (won, lost + 1))
     (member_upd (part_name win) (\<lambda>(won, lost). (won + 1, lost))
       (insert_or_ignore (part_name lose) (insert_or_ignore (part_name win) (game_stats db))))"
  have eq: "UpdateStats meta w db = Some (db\<lparr>game_stats := ?t\<rparr>)"
    using two w by (simp add: UpdateStats_def Let_def at)
  have "part_name (participants meta ! 0) \<noteq> part_name (participants meta ! 1)" using assms(2,3) by simp
  then obtain t' where t': "UpdateStats meta w db = Some (db\<lparr>game_stats := t'\<rparr>)" "stats_ok t'"
    using UpdateStats_stats [OF assms(1) two _ w] by blast
  have "game_stats (db\<lparr>game_stats := t'\<rparr>) = game_stats (db\<lparr>game_stats := ?t\<rparr>)"
    using t'(1) unfolding eq by (simp only: option.inject)
  with t'(2) have ok: "stats_ok ?t" by simp
  have ins: "map_of (insert_or_ignore nm t) x = (if x = nm \<and> map_of t nm = None then Some (0, 0) else map_of t x)"
    "tbl_ok (insert_or_ignore nm t)" if "tbl_ok t" for nm x and t :: "(string \<times> (int \<times> int)) list"
    using that by (simp_all add: insert_or_ignore_def)
  have m: "map_of ?t x = (if x = part_name lose then Some (fst (stats_of db x), snd (stats_of db x) + 1)
      else if x = part_name win then Some (fst (stats_of db x) + 1, snd (stats_of db x)) else map_of (game_stats db) x)" for x
    using names t ins
    by (cases "map_of (game_stats db) x") (auto simp: lookup_member_upd stats_of_def split: if_splits)
  show ?thesis
    using ok names by (intro exI [of _ "db\<lparr>game_stats := ?t\<rparr>"]) (simp add: eq stats_of_def m)
qed

text \<open>
  The expiry of disputes returns, keeps the invariant, and closes exactly the channels with an
  expired dispute: at block height ten and above those whose dispute is at least ten blocks old, and
  below height ten every disputed channel, since the subtraction of the code wraps around there.
\<close>

lemma dispute_expiry:
  assumes "gsp_env_ok E" and "gsp_inv E (uint height) db"
  shows "\<exists>db'. ProcessExpiredDisputes E height db = Some db' \<and> gsp_inv E (uint height) db'
    \<and> map_of (db_channels db') = map_of (filter (\<lambda>x. \<not> expired height (snd x)) (db_channels db))"
  using expired_disputes [OF assms refl] .

text \<open>
  A dispute that is filed before block ten is closed in the block that it is filed in, against the
  player whose turn it is, without the ten blocks for a resolution.
\<close>

lemma early_dispute_closed:
  assumes "gsp_env_ok E" and "gsp_inv E (uint height) db" and "uint height < 10"
    and "map_of (db_channels db) i = Some r" and "row_disputeHeight r = Some height"
  shows "\<exists>db'. ProcessExpiredDisputes E height db = Some db' \<and> map_of (db_channels db') i = None"
proof -
  have "expired height r" using assms(3,5) by (simp add: expired_def)
  then have "map_of (filter (\<lambda>x. \<not> expired height (snd x)) (db_channels db)) i = None"
    using map_of_filter [OF gsp_invD(1) [OF assms(2)], of "\<lambda>r. \<not> expired height r" i] assms(4) by simp
  with expired_disputes [OF assms(1,2) refl] show ?thesis by auto
qed

text \<open>
  The parser accepts a finished state with any winner, but the processor aborts when a channel with such
  a state is to be closed.
\<close>

lemma bad_winner_parses:
  assumes "rules (cenv E) = ShipsBoardRules sha (gcodec E)" and "participants_size m = 2"
    and "parse_state (gcodec E) s = Some (pb, False)" and "turn pb = None" and "winner pb = Some w"
  shows "ParseState (rules (cenv E)) i m s = Inr \<lparr>GetMetadata = m, GetState = pb\<rparr>"
  using assms by (simp add: ShipsBoardRules_def ProtoBoardRules_ParseState_def IsValid_def GetPhase_def Let_def)

lemma bad_winner_aborts:
  assumes "initialised h" and "parse_checked (cenv E) h (UnverifiedProofEndState (cd_proof h)) = Some st"
    and "winner (GetState st) = Some w" and "w > 1"
  shows "settle E ident meta h db = None"
  using assms by (simp add: settle_def not_le [symmetric])

end
