(* ===== verification/ShipsPending.thy ===== *)
theory ShipsPending
  imports ShipsGspProps
begin

text \<open>
  Pending moves of ships (\<open>ShipsPending\<close> of \<open>ships/logic.cpp\<close>) and their JSON form.  The processor reads
  the confirmed database and does not change it: no handle that it loads is modified.
\<close>

section \<open>Definitions\<close>

record ShipsPendingState =
  pend_channels :: PendingChannels
  pend_create :: "json list"
  pend_join :: "json list"
  pend_abort :: "(uint256 \<times> unit) list"

definition ClearShips :: "ShipsPendingState \<Rightarrow> ShipsPendingState" where
  "ClearShips st = st\<lparr>pend_create := [], pend_join := [], pend_abort := []\<rparr>"

definition ships_pending_Clear :: "ShipsPendingState \<Rightarrow> ShipsPendingState" where
  "ships_pending_Clear st = ClearShips (st\<lparr>pend_channels := PendingMoves_Clear\<rparr>)"

definition new_ShipsPending :: ShipsPendingState where
  "new_ShipsPending = \<lparr>pend_channels = [], pend_create = [], pend_join = [], pend_abort = []\<rparr>"

definition entry_json :: "string \<Rightarrow> string \<Rightarrow> uint256 \<Rightarrow> json" where
  "entry_json name addr i =
    JObject (member_set ''id'' (JString (ToHex i)) (member_set ''address'' (JString addr)
      (member_set ''name'' (JString name) [])))"

definition pending_HandleCreateChannel ::
    "json \<Rightarrow> string \<Rightarrow> uint256 \<Rightarrow> ShipsPendingState \<Rightarrow> ShipsPendingState" where
  "pending_HandleCreateChannel obj name i st = (case ParseCreateChannelMove obj of
     None \<Rightarrow> st
   | Some addr \<Rightarrow> st\<lparr>pend_create := pend_create st @ [entry_json name addr i]\<rparr>)"

definition pending_HandleJoinChannel ::
    "ships_db \<Rightarrow> json \<Rightarrow> string \<Rightarrow> ShipsPendingState \<Rightarrow> ShipsPendingState option" where
  "pending_HandleJoinChannel db obj name st = do {
     r \<leftarrow> ParseJoinChannelMove obj name (db_channels db);
     Some (case r of
       None \<Rightarrow> st
     | Some (h, addr) \<Rightarrow> st\<lparr>pend_join := pend_join st @ [entry_json name addr (cd_id h)]\<rparr>)
   }"

definition pending_HandleAbortChannel ::
    "ships_db \<Rightarrow> json \<Rightarrow> string \<Rightarrow> ShipsPendingState \<Rightarrow> ShipsPendingState option" where
  "pending_HandleAbortChannel db obj name st = do {
     r \<leftarrow> ParseAbortChannelMove obj name (db_channels db);
     Some (case r of
       None \<Rightarrow> st
     | Some i \<Rightarrow> st\<lparr>pend_abort := member_set i () (pend_abort st)\<rparr>)
   }"

definition pending_HandleDisputeResolution ::
    "gsp_env \<Rightarrow> ships_db \<Rightarrow> json \<Rightarrow> ShipsPendingState \<Rightarrow> ShipsPendingState option" where
  "pending_HandleDisputeResolution E db obj st = do {
     r \<leftarrow> ParseDisputeResolutionMove E obj (db_channels db);
     case r of
       None \<Rightarrow> Some st
     | Some (h, proof) \<Rightarrow> do {
         chans \<leftarrow> AddPendingStateProof (cenv E) h proof (pend_channels st);
         Some (st\<lparr>pend_channels := chans\<rparr>)
       }
   }"

definition AddPendingMoveUnsafe ::
    "gsp_env \<Rightarrow> ships_db \<Rightarrow> json \<Rightarrow> ShipsPendingState \<Rightarrow> ShipsPendingState option" where
  "AddPendingMoveUnsafe E db mv st = do {
     check (isObject mv);
     check (isString (member mv ''name''));
     name \<leftarrow> asString (member mv ''name'');
     ident \<leftarrow> GetIdFromMove mv;
     let dat = member mv ''move'';
     if \<not> isObject dat then Some st
     else if json_size dat > 1 then Some st
     else do {
       let st = pending_HandleCreateChannel (member dat ''c'') name ident st;
       st \<leftarrow> pending_HandleJoinChannel db (member dat ''j'') name st;
       st \<leftarrow> pending_HandleAbortChannel db (member dat ''a'') name st;
       st \<leftarrow> pending_HandleDisputeResolution E db (member dat ''d'') st;
       pending_HandleDisputeResolution E db (member dat ''r'') st
     }
   }"

fun pending_moves :: "gsp_env \<Rightarrow> ships_db \<Rightarrow> json list \<Rightarrow> ShipsPendingState \<Rightarrow> ShipsPendingState option" where
  "pending_moves E db [] st = Some st"
| "pending_moves E db (mv # mvs) st = Option.bind (AddPendingMoveUnsafe E db mv st) (pending_moves E db mvs)"

section \<open>Channels with one participant\<close>

definition ships_any :: "uint256 \<Rightarrow> ChannelMetadata \<Rightarrow> ShipsBoardState \<Rightarrow> bool" where
  "ships_any i m p \<longleftrightarrow> ships_good i m p \<or> GetMetadata p = m \<and> participants_size m = 1"

lemma single_board:
  assumes "participants_size (GetMetadata p) = 1"
  shows "pWhoseTurn (ShipsBoardRules sha codec) p = Some NO_TURN" "pTurnCount (ShipsBoardRules sha codec) p = Some 0"
    "pApplyMove (ShipsBoardRules sha codec) p mv \<noteq> Inr s"
  using assms by (auto simp: ShipsBoardRules_def WhoseTurn_def TurnCount_def ProtoBoardState_ApplyMove_def
      ApplyMoveProto_def rbind_eq_Inr_conv split: option.splits if_splits)

lemma single_parse:
  "participants_size m = 1 \<Longrightarrow> ParseState (ShipsBoardRules sha codec) i m s =
    (case parse_state codec s of Some (pb, False) \<Rightarrow> Inr \<lparr>GetMetadata = m, GetState = pb\<rparr> | _ \<Rightarrow> Inl Rejected)"
  by (auto simp: ShipsBoardRules_def ProtoBoardRules_ParseState_def IsValid_def Let_def split: option.split)

lemma any_board_rules:
  assumes codec: "codec_ok codec" and sha: "sha_ok sha"
  shows "board_rules (ShipsBoardRules sha codec) ships_any"
proof -
  note rules = ships_board_rules [OF assms]
  have one: "participants_size (GetMetadata p) = 1" if "ships_any i m p" "\<not> ships_good i m p" for i m p
    using that by (auto simp: ships_any_def)
  show ?thesis
  proof
    fix i m p assume p: "ships_any i m p"
    show "\<exists>t. pWhoseTurn (ShipsBoardRules sha codec) p = Some t
        \<and> (t = NO_TURN \<or> 0 \<le> t \<and> t < int (participants_size m))"
      using board_rules.turn_defined [OF rules] single_board(1) one [OF p] by (cases "ships_good i m p") auto
    show "\<exists>c. pTurnCount (ShipsBoardRules sha codec) p = Some c"
      using board_rules.count_defined [OF rules] single_board(2) one [OF p] by (cases "ships_good i m p") auto
    fix s
    show "pEquals (ShipsBoardRules sha codec) p s \<longleftrightarrow> ParseState (ShipsBoardRules sha codec) i m s = Inr p"
    proof (cases "ships_good i m p")
      case True
      then show ?thesis by (rule board_rules.equals_iff [OF rules])
    next
      case False
      then have m: "GetMetadata p = m" "participants_size m = 1" using p by (auto simp: ships_any_def)
      have "pEquals (ShipsBoardRules sha codec) p s \<longleftrightarrow> parse_state codec s = Some (GetState p, False)"
        using codec by (auto simp: ShipsBoardRules_def ProtoBoardState_Equals_def codec_ok_def split: option.splits)
      moreover have "p = \<lparr>GetMetadata = m, GetState = GetState p\<rparr>" using m(1) by simp
      ultimately show ?thesis
        unfolding single_parse [OF m(2)] by (auto split: option.splits bool.splits)
    qed
  next
    fix i m p t mv
    assume "ships_any i m p" "pWhoseTurn (ShipsBoardRules sha codec) p = Some t" "t \<noteq> NO_TURN"
    with one [of i m p] single_board(1) [of p sha codec] board_rules.move_no_abort [OF rules, of i m p t mv]
    show "pApplyMove (ShipsBoardRules sha codec) p mv \<noteq> Inl CheckFailed" by fastforce
  next
    fix i m p mv s
    assume "ships_any i m p" "pApplyMove (ShipsBoardRules sha codec) p mv = Inr s"
    with one [of i m p] single_board(3) [of p sha codec mv s] board_rules.move_parses [OF rules, of i m p mv s]
    show "\<exists>p'. ParseState (ShipsBoardRules sha codec) i m s = Inr p' \<and> ships_any i m p'"
      unfolding ships_any_def by fastforce
  qed
qed

section \<open>Pending state proofs\<close>

context board_rules
begin

lemma pending_returns:
  assumes br: "rules env = br" and init: "initialised ch"
    and latest: "parse_checked env ch (UnverifiedProofEndState (cd_proof ch)) = Some o1"
      "good (cd_id ch) (cd_metadata ch) o1"
    and fine: "ParseState br (cd_id ch) (cd_metadata ch) (get_data (get_initial_state pf)) \<noteq> Inl CheckFailed"
      "\<And>p. ParseState br (cd_id ch) (cd_metadata ch) (get_data (get_initial_state pf)) = Inr p
        \<Longrightarrow> good (cd_id ch) (cd_metadata ch) p"
  shows "\<exists>chans'. AddPendingStateProof env ch pf chans = Some chans'"
proof -
  obtain oc where oc: "pTurnCount br o1 = Some oc" using count_defined [OF latest(2)] by blast
  consider (rej) "proven_state env ch pf = Some None"
    | (acc) s q where "proven_state env ch pf = Some (Some s)" "parse_checked env ch s = Some q"
        "good (cd_id ch) (cd_metadata ch) q"
    using proven_cases [OF br fine] by blast
  then show ?thesis
  proof cases
    case rej
    then show ?thesis using init by (simp add: AddPendingStateProof_def)
  next
    case (acc s q)
    obtain c where "pTurnCount br q = Some c" using count_defined [OF acc(3)] by blast
    with acc(1,2) init latest(1) oc br show ?thesis
      by (cases "map_of chans (cd_id ch)") (auto simp: AddPendingStateProof_def)
  qed
qed

end

lemma pending_cases:
  assumes "AddPendingStateProof env ch pf chans = Some chans'"
  shows "chans' = chans \<or> (\<exists>c. chans' = member_set (cd_id ch) \<lparr>pend_proof = pf, pend_turnCount = c\<rparr> chans
    \<and> VerifyStateProof env (cd_id ch) (cd_metadata ch) (cd_reinit ch) pf = Inr (UnverifiedProofEndState pf)
    \<and> channel_turn env (ch\<lparr>cd_proof := pf\<rparr>) = Some c
    \<and> (case map_of chans (cd_id ch) of
         None \<Rightarrow> (\<exists>old. channel_turn env ch = Some old \<and> old < c)
       | Some pd \<Rightarrow> pend_turnCount pd < c))"
proof -
  from assms have init: "initialised ch" by (auto simp: AddPendingStateProof_def split: if_splits)
  note a = assms [unfolded AddPendingStateProof_def, simplified]
  show ?thesis
  proof (cases "\<exists>s. proven_state env ch pf = Some (Some s)")
    case True
    then obtain s where s: "proven_state env ch pf = Some (Some s)" by blast
    then have v: "VerifyStateProof env (cd_id ch) (cd_metadata ch) (cd_reinit ch) pf
        = Inr (UnverifiedProofEndState pf)" and se: "s = UnverifiedProofEndState pf"
      using proven_end by (auto simp: proven_state_Some)
    have pc: "parse_checked env (ch\<lparr>cd_proof := pf\<rparr>) x = parse_checked env ch x" for x
      by (simp add: parse_checked_def)
    show ?thesis
      using a init s v
      by (auto simp: se channel_turn_def pc split: if_splits bind_splits option.splits)
  next
    case False
    then show ?thesis using a by (auto split: if_splits bind_splits option.splits)
  qed
qed

text \<open>A pending proof is valid for its channel and ahead of the confirmed state.\<close>

definition pending_entry :: "gsp_env \<Rightarrow> ChannelData \<Rightarrow> PendingChannelData \<Rightarrow> bool" where
  "pending_entry E ch pd \<longleftrightarrow>
     VerifyStateProof (cenv E) (cd_id ch) (cd_metadata ch) (cd_reinit ch) (pend_proof pd)
       = Inr (UnverifiedProofEndState (pend_proof pd))
     \<and> channel_turn (cenv E) (ch\<lparr>cd_proof := pend_proof pd\<rparr>) = Some (pend_turnCount pd)
     \<and> (\<exists>old. channel_turn (cenv E) ch = Some old \<and> old < pend_turnCount pd)"

definition pending_ok :: "gsp_env \<Rightarrow> ships_db \<Rightarrow> PendingChannels \<Rightarrow> bool" where
  "pending_ok E db chans \<longleftrightarrow> tbl_ok chans
     \<and> (\<forall>i pd. map_of chans i = Some pd \<longrightarrow> (\<exists>ch. GetById i (db_channels db) = Some ch \<and> pending_entry E ch pd))"

definition pending_grow :: "PendingChannels \<Rightarrow> PendingChannels \<Rightarrow> bool" where
  "pending_grow chans chans' \<longleftrightarrow> (\<forall>i pd. map_of chans i = Some pd \<longrightarrow>
     (\<exists>pd'. map_of chans' i = Some pd' \<and> pend_turnCount pd \<le> pend_turnCount pd'))"

lemma pending_grow_refl [simp]: "pending_grow c c"
  by (simp add: pending_grow_def)

lemma pending_grow_trans: "\<lbrakk>pending_grow a b; pending_grow b c\<rbrakk> \<Longrightarrow> pending_grow a c"
  unfolding pending_grow_def by (meson order_trans)

lemma pending_step:
  assumes ok: "pending_ok E db chans" and ch: "GetById (cd_id ch) (db_channels db) = Some ch"
    and add: "AddPendingStateProof (cenv E) ch pf chans = Some chans'"
  shows "pending_ok E db chans' \<and> pending_grow chans chans'"
  using pending_cases [OF add]
proof (elim disjE exE conjE)
  fix c
  assume chans': "chans' = member_set (cd_id ch) \<lparr>pend_proof = pf, pend_turnCount = c\<rparr> chans"
    and v: "VerifyStateProof (cenv E) (cd_id ch) (cd_metadata ch) (cd_reinit ch) pf = Inr (UnverifiedProofEndState pf)"
    and turn: "channel_turn (cenv E) (ch\<lparr>cd_proof := pf\<rparr>) = Some c"
    and less: "case map_of chans (cd_id ch) of None \<Rightarrow> \<exists>old. channel_turn (cenv E) ch = Some old \<and> old < c
       | Some pd \<Rightarrow> pend_turnCount pd < c"
  have t: "tbl_ok chans" using ok by (simp add: pending_ok_def)
  have "\<exists>old. channel_turn (cenv E) ch = Some old \<and> old < c"
  proof (cases "map_of chans (cd_id ch)")
    case None
    with less show ?thesis by simp
  next
    case (Some pd)
    with ok ch have "pending_entry E ch pd" by (fastforce simp: pending_ok_def)
    with less Some show ?thesis by (auto simp: pending_entry_def)
  qed
  with v turn have "pending_entry E ch \<lparr>pend_proof = pf, pend_turnCount = c\<rparr>" by (simp add: pending_entry_def)
  with ok ch t have "pending_ok E db chans'" by (auto simp: pending_ok_def chans')
  moreover have "pending_grow chans chans'"
    using t less by (auto simp: pending_grow_def chans' split: option.splits)
  ultimately show ?thesis ..
qed (use ok in simp)

section \<open>Pending moves on a database with the invariant\<close>

text \<open>Protocol buffers parse the empty string, as the message with no field set.\<close>

definition empty_parses :: "('s, 'm) Codec \<Rightarrow> bool" where
  "empty_parses codec \<longleftrightarrow> (\<exists>s. parse_state codec [] = Some (s, False))"

lemma any_rules: "gsp_env_ok E \<Longrightarrow> board_rules (rules (cenv E)) ships_any"
  using any_board_rules by (simp add: gsp_env_ok_def)

lemma stored_state_any:
  assumes env: "gsp_env_ok E" "empty_parses (gcodec E)" and inv: "gsp_inv E n db"
    and r: "map_of (db_channels db) i = Some r"
  shows "participants_size (row_metadata r) \<in> {1, 2}"
    and "\<exists>p. ParseState (rules (cenv E)) i (row_metadata r) (row_reinit r) = Inr p \<and> ships_any i (row_metadata r) p"
    and "\<exists>p. ParseState (rules (cenv E)) i (row_metadata r) (UnverifiedProofEndState (cd_proof (load_ChannelData i r)))
        = Inr p \<and> ships_any i (row_metadata r) p"
proof -
  obtain c k where ck: "entry_ok E n i (Some r) (Some (c, k))" using row_entry [OF inv r] by blast
  let ?P = "ParseState (rules (cenv E)) i (row_metadata r)"
  have "participants_size (row_metadata r) \<in> {1, 2}
      \<and> (\<exists>p. ?P (row_reinit r) = Inr p \<and> ships_any i (row_metadata r) p)
      \<and> (\<exists>p. ?P (UnverifiedProofEndState (cd_proof (load_ChannelData i r))) = Inr p \<and> ships_any i (row_metadata r) p)"
  proof (cases "chan_open r")
    case True
    obtain pb where pb: "parse_state (gcodec E) [] = Some (pb, False)" using env(2) by (auto simp: empty_parses_def)
    have one: "participants_size (row_metadata r) = 1" and re: "row_reinit r = []" "row_stateproof r = None"
      using True by (simp_all add: chan_open_def)
    have "?P [] = Inr \<lparr>GetMetadata = row_metadata r, GetState = pb\<rparr>"
      using env(1) single_parse [OF one] pb by (simp add: gsp_env_ok_def)
    then show ?thesis using one re by (auto simp: ships_any_def load_ChannelData_def)
  next
    case False
    with ck have "chan_good E n (load_ChannelData i r)" by simp
    then show ?thesis
      by (auto simp: chan_good_def state_good_def ships_any_def) (auto simp: load_ChannelData_def)
  qed
  then show "participants_size (row_metadata r) \<in> {1, 2}"
    "\<exists>p. ?P (row_reinit r) = Inr p \<and> ships_any i (row_metadata r) p"
    "\<exists>p. ?P (UnverifiedProofEndState (cd_proof (load_ChannelData i r))) = Inr p \<and> ships_any i (row_metadata r) p"
    by blast+
qed

lemma pending_dispute:
  assumes env: "gsp_env_ok E" "empty_parses (gcodec E)" and inv: "gsp_inv E n db"
    and ok: "pending_ok E db (pend_channels st)"
    and fine: "\<And>s. member obj ''state'' = JString s \<Longrightarrow> text_fine E s"
  shows "\<exists>st'. pending_HandleDisputeResolution E db obj st = Some st' \<and> pending_ok E db (pend_channels st')
    \<and> pending_grow (pend_channels st) (pend_channels st')"
proof -
  consider (none) "ParseDisputeResolutionMove E obj (db_channels db) = Some None"
    | (some) i r pf where "ParseDisputeResolutionMove E obj (db_channels db) = Some (Some (load_ChannelData i r, pf))"
        "map_of (db_channels db) i = Some r" "proof_fine E pf"
    using parse_dispute_cases [of obj E] fine by blast
  then show ?thesis
  proof cases
    case none
    then show ?thesis using ok by (simp add: pending_HandleDisputeResolution_def)
  next
    case (some i r pf)
    let ?ch = "load_ChannelData i r" and ?P = "ParseState (rules (cenv E)) i (row_metadata r)"
    note st = stored_state_any [OF env inv some(2)]
    obtain o1 where o1: "parse_checked (cenv E) ?ch (UnverifiedProofEndState (cd_proof ?ch)) = Some o1"
      "ships_any i (row_metadata r) o1"
      using st(3) by (auto simp: parse_checked_def)
    have nocheck: "?P s \<noteq> Inl CheckFailed" for s
      using st(1) parse_no_abort [OF env(1)] env(1) single_parse [of "row_metadata r"]
      by (auto simp: gsp_env_ok_def split: option.splits bool.splits)
    have good: "ships_any i (row_metadata r) p" if "?P (get_data (get_initial_state pf)) = Inr p" for p
    proof (cases "participants_size (row_metadata r) = 2")
      case True
      with some(3) that show ?thesis by (auto simp: proof_fine_def ships_any_def)
    next
      case False
      with st(1) have one: "participants_size (row_metadata r) = 1" by simp
      with that env(1) show ?thesis
        by (auto simp: gsp_env_ok_def single_parse ships_any_def split: option.splits bool.splits)
    qed
    have "\<exists>chans'. AddPendingStateProof (cenv E) ?ch pf (pend_channels st) = Some chans'"
      by (rule board_rules.pending_returns [OF any_rules [OF env(1)] refl, of ?ch o1 pf])
        (use o1 nocheck good in simp_all)
    then obtain chans' where add: "AddPendingStateProof (cenv E) ?ch pf (pend_channels st) = Some chans'" by blast
    have "GetById (cd_id ?ch) (db_channels db) = Some ?ch" using some(2) by (simp add: GetById_def)
    from pending_step [OF ok this add] add some(1) show ?thesis
      by (simp add: pending_HandleDisputeResolution_def)
  qed
qed

text \<open>
  C25: Adding a pending move that carries only harmless texts and state proofs (\<open>move_fine\<close>, as in blocks) to
  the pending state of ships does not abort, on a confirmed database with its invariant.  It keeps the pending state proofs valid: each belongs to a channel of the confirmed database, verifies for
  it, and has a greater turn count than the confirmed state; and no pending turn count ever decreases.
\<close>

theorem pending_move_correct:
  assumes "gsp_env_ok E" and "empty_parses (gcodec E)" and "gsp_inv E n db" and "move_fine E mv"
    and "pending_ok E db (pend_channels st)"
  shows "\<exists>st'. AddPendingMoveUnsafe E db mv st = Some st' \<and> pending_ok E db (pend_channels st')
    \<and> pending_grow (pend_channels st) (pend_channels st')"
proof -
  obtain name where name: "member mv ''name'' = JString name"
    using assms(4) by (cases "member mv ''name''") (auto simp: move_fine_def isString_def)
  obtain i where i: "GetIdFromMove mv = Some i" using assms(4) by (auto simp: move_fine_def)
  let ?dat = "member mv ''move''"
  have fine: "\<And>s. member (member ?dat ''d'') ''state'' = JString s \<Longrightarrow> text_fine E s"
    "\<And>s. member (member ?dat ''r'') ''state'' = JString s \<Longrightarrow> text_fine E s"
    using assms(4) by (auto simp: move_fine_def move_texts_def Let_def split: json.splits)
  let ?st1 = "pending_HandleCreateChannel (member ?dat ''c'') name i st"
  have c1: "pend_channels ?st1 = pend_channels st"
    by (simp add: pending_HandleCreateChannel_def split: option.split)
  obtain st2 where st2: "pending_HandleJoinChannel db (member ?dat ''j'') name ?st1 = Some st2"
    "pend_channels st2 = pend_channels st"
    by (cases rule: join_cases [of "member ?dat ''j''" name "db_channels db"])
      (auto simp: pending_HandleJoinChannel_def c1)
  obtain st3 where st3: "pending_HandleAbortChannel db (member ?dat ''a'') name st2 = Some st3"
    "pend_channels st3 = pend_channels st"
    using abort_parse [of "member ?dat ''a''" name "db_channels db"] st2(2)
    by (auto simp: pending_HandleAbortChannel_def split: option.split)
  obtain st4 where st4: "pending_HandleDisputeResolution E db (member ?dat ''d'') st3 = Some st4"
    "pending_ok E db (pend_channels st4)" "pending_grow (pend_channels st) (pend_channels st4)"
    using pending_dispute [OF assms(1-3) _ fine(1), of st3] assms(5) st3(2) by auto
  obtain st5 where st5: "pending_HandleDisputeResolution E db (member ?dat ''r'') st4 = Some st5"
    "pending_ok E db (pend_channels st5)" "pending_grow (pend_channels st4) (pend_channels st5)"
    using pending_dispute [OF assms(1-3) st4(2) fine(2)] by auto
  have head: "AddPendingMoveUnsafe E db mv st = (if \<not> isObject ?dat \<or> json_size ?dat > 1 then Some st else Some st5)"
    using assms(4) name i st2(1) st3(1) st4(1) st5(1)
    by (simp add: AddPendingMoveUnsafe_def move_fine_def asString_def isString_def Let_def)
  show ?thesis
    unfolding head using assms(5) st5(2) pending_grow_trans [OF st4(3) st5(3)] by simp
qed

theorem pending_move_correct_witness:
  "\<exists>st'. AddPendingMoveUnsafe demo_gsp (demo_db None) (hd demo_moves_list) new_ShipsPending = Some st'
    \<and> pending_ok demo_gsp (demo_db None) (pend_channels st')
    \<and> pending_grow (pend_channels new_ShipsPending) (pend_channels st')"
proof (rule pending_move_correct [OF demo_gsp_ok])
  show "empty_parses (gcodec demo_gsp)" by (simp add: empty_parses_def demo_gsp_def demo_codec_def)
  show "gsp_inv demo_gsp 5 (demo_db None)" by (rule demo_db_inv) simp_all
  show "move_fine demo_gsp (hd demo_moves_list)"
    using demo_moves_fine by (simp add: demo_moves_list_def)
  show "pending_ok demo_gsp (demo_db None) (pend_channels new_ShipsPending)"
    by (simp add: pending_ok_def new_ShipsPending_def)
qed

end
