(* ===== verification/ShipsJson.thy ===== *)
theory ShipsJson
  imports ShipsPending
begin

text \<open>
  JSON views of channels: metadata and board states (\<open>sidechannel/channelstatejson.cpp\<close>), channels of the
  game state (\<open>sidechannel/gamestatejson.cpp\<close>), the full state of ships (\<open>ships/gamestatejson.cpp\<close>) and
  the pending moves (\<open>ToJson\<close> of \<open>sidechannel/channelgame.cpp\<close> and \<open>ships/logic.cpp\<close>).
\<close>

section \<open>Definitions\<close>

text \<open>The serialisation of messages and the encoder of OpenSSL, and the virtual \<open>ToJson\<close> of a board state.\<close>

record 'p json_env =
  ser_proof :: "StateProof \<Rightarrow> byte list option"
  ser_metadata :: "ChannelMetadata \<Rightarrow> byte list option"
  evp_enc :: "byte list \<Rightarrow> string"
  parsed_json :: "'p \<Rightarrow> json option"

definition ProtoToBase64 :: "(byte list \<Rightarrow> string) \<Rightarrow> ('m \<Rightarrow> byte list option) \<Rightarrow> 'm \<Rightarrow> string option" where
  "ProtoToBase64 enc ser msg = do { serialised \<leftarrow> ser msg; Base64.EncodeBase64 enc serialised }"

definition ChannelMetadataToJson :: "'p json_env \<Rightarrow> ChannelMetadata \<Rightarrow> json option" where
  "ChannelMetadataToJson J meta = do {
     let parts = map (\<lambda>p. json_obj [(''name'', JString (get_or [] (participant_name p))),
                                     (''address'', JString (get_or [] (participant_address p)))])
                   (participants meta);
     re \<leftarrow> Base64.EncodeBase64 (evp_enc J) (get_or [] (reinit meta));
     proto \<leftarrow> ProtoToBase64 (evp_enc J) (ser_metadata J) meta;
     Some (json_obj [(''participants'', JArray parts), (''reinit'', JString re), (''proto'', JString proto)])
   }"

definition BoardStateToJson ::
    "'p json_env \<Rightarrow> 'p BoardRules \<Rightarrow> uint256 \<Rightarrow> ChannelMetadata \<Rightarrow> byte list \<Rightarrow> json option" where
  "BoardStateToJson J r channelId meta state = do {
     base64 \<leftarrow> Base64.EncodeBase64 (evp_enc J) state;
     parsed \<leftarrow> (case ParseState r channelId meta state of Inl _ \<Rightarrow> None | Inr p \<Rightarrow> Some p);
     parsedJson \<leftarrow> parsed_json J parsed;
     turn \<leftarrow> pWhoseTurn r parsed;
     cnt \<leftarrow> pTurnCount r parsed;
     Some (json_obj ([(''base64'', JString base64)]
       @ (if parsedJson = JNull then [] else [(''parsed'', parsedJson)])
       @ [(''whoseturn'', JNull)]
       @ (if turn = NO_TURN then [] else [(''whoseturn'', JInt turn)])
       @ [(''turncount'', JInt (sint cnt))]))
   }"

definition ChannelToGameStateJson :: "'p json_env \<Rightarrow> 'p BoardRules \<Rightarrow> ChannelData \<Rightarrow> json option" where
  "ChannelToGameStateJson J r ch = do {
     let ident = cd_id ch;
     let meta = cd_metadata ch;
     disp \<leftarrow> (if HasDispute ch then do { h \<leftarrow> GetDisputeHeight ch; Some [(''disputeheight'', JInt (sint h))] }
             else Some []);
     metaJson \<leftarrow> ChannelMetadataToJson J meta;
     latest \<leftarrow> GetLatestState ch;
     st \<leftarrow> BoardStateToJson J r ident meta latest;
     proof \<leftarrow> ProtoToBase64 (evp_enc J) (ser_proof J) (cd_proof ch);
     st \<leftarrow> json_set ''proof'' (JString proof) st;
     re \<leftarrow> BoardStateToJson J r ident meta (cd_reinit ch);
     Some (json_obj ([(''id'', JString (ToHex ident))] @ disp @ [(''meta'', metaJson), (''state'', st), (''reinit'', re)]))
   }"

definition AllChannelsGameStateJson :: "'p json_env \<Rightarrow> 'p BoardRules \<Rightarrow> ChannelsTable \<Rightarrow> json option" where
  "AllChannelsGameStateJson J r tbl = do {
     kvs \<leftarrow> those (map (\<lambda>rw. let h = GetFromResult rw in
               map_option (Pair (ToHex (cd_id h))) (ChannelToGameStateJson J r h)) (QueryAll tbl));
     Some (json_obj kvs)
   }"

definition GetFullJson :: "ShipsBoardState json_env \<Rightarrow> gsp_env \<Rightarrow> ships_db \<Rightarrow> json option" where
  "GetFullJson J E db = do {
     let stats = json_obj (map (\<lambda>(name, (won, lost)).
           (name, json_obj [(''won'', JInt won), (''lost'', JInt lost)])) (game_stats db));
     channels \<leftarrow> AllChannelsGameStateJson J (rules (cenv E)) (db_channels db);
     Some (json_obj [(''gamestats'', stats), (''channels'', channels)])
   }"

definition ships_GetStateAsJson :: "ShipsBoardState json_env \<Rightarrow> gsp_env \<Rightarrow> ships_db \<Rightarrow> json option" where
  "ships_GetStateAsJson J E db = GetFullJson J E db"

definition PendingMoves_ToJson :: "'p json_env \<Rightarrow> PendingChannels \<Rightarrow> json option" where
  "PendingMoves_ToJson J channels = do {
     kvs \<leftarrow> those (map (\<lambda>(i, pd). do {
       proof \<leftarrow> ProtoToBase64 (evp_enc J) (ser_proof J) (pend_proof pd);
       Some (ToHex i, json_obj [(''id'', JString (ToHex i)), (''proof'', JString proof),
                                (''turncount'', JUInt (uint (pend_turnCount pd)))]) }) channels);
     Some (json_obj [(''channels'', json_obj kvs)])
   }"

definition ShipsPending_ToJson :: "'p json_env \<Rightarrow> ShipsPendingState \<Rightarrow> json option" where
  "ShipsPending_ToJson J st = do {
     res \<leftarrow> PendingMoves_ToJson J (pend_channels st);
     res \<leftarrow> json_set ''create'' (JArray (pend_create st)) res;
     res \<leftarrow> json_set ''join'' (JArray (pend_join st)) res;
     json_set ''abort'' (JArray (map (\<lambda>e. JString (ToHex (fst e))) (pend_abort st))) res
   }"

section \<open>The views are defined\<close>

text \<open>What the views rely on: messages serialise, OpenSSL encodes base64 text as documented.\<close>

definition json_env_ok :: "ShipsBoardState json_env \<Rightarrow> bool" where
  "json_env_ok J \<longleftrightarrow> (\<forall>p. ser_proof J p \<noteq> None) \<and> (\<forall>m. ser_metadata J m \<noteq> None)
    \<and> (\<exists>dec. evp_ok (evp_enc J) dec) \<and> parsed_json J = ToJson"

lemma encode_defined: "json_env_ok J \<Longrightarrow> Base64.EncodeBase64 (evp_enc J) d = Some (b64_encode d)"
  using EncodeBase64_eq by (auto simp: json_env_ok_def)

lemma proto_defined:
  assumes "json_env_ok J"
  shows "\<exists>s. ProtoToBase64 (evp_enc J) (ser_proof J) p = Some s"
    and "\<exists>s. ProtoToBase64 (evp_enc J) (ser_metadata J) m = Some s"
proof -
  have "ser_proof J p \<noteq> None" "ser_metadata J m \<noteq> None" using assms by (simp_all add: json_env_ok_def)
  then show "\<exists>s. ProtoToBase64 (evp_enc J) (ser_proof J) p = Some s"
    and "\<exists>s. ProtoToBase64 (evp_enc J) (ser_metadata J) m = Some s"
    using encode_defined [OF assms] by (auto simp: ProtoToBase64_def)
qed

lemma metadata_defined: "json_env_ok J \<Longrightarrow> \<exists>j. ChannelMetadataToJson J m = Some j"
  using proto_defined(2) [of J m] encode_defined [of J] by (auto simp: ChannelMetadataToJson_def)

lemma board_json_defined:
  assumes J: "json_env_ok J" and env: "gsp_env_ok E"
    and p: "ParseState (rules (cenv E)) i m s = Inr p" "ships_any i m p"
  shows "\<exists>kvs. BoardStateToJson J (rules (cenv E)) i m s = Some (json_obj kvs)"
proof -
  have "\<exists>j. ToJson p = Some j"
  proof (cases "ships_good i m p")
    case True
    then show ?thesis using ToJson_wf ships_goodD by blast
  next
    case False
    then show ?thesis using p(2) by (auto simp: ships_any_def ToJson_def)
  qed
  then obtain j where j: "parsed_json J p = Some j" using J by (auto simp: json_env_ok_def)
  obtain t where t: "pWhoseTurn (rules (cenv E)) p = Some t"
    using board_rules.turn_defined [OF any_rules [OF env] p(2)] by blast
  obtain c where c: "pTurnCount (rules (cenv E)) p = Some c"
    using board_rules.count_defined [OF any_rules [OF env] p(2)] by blast
  show ?thesis
    using p(1) j t c encode_defined [OF J] by (auto simp: BoardStateToJson_def)
qed

lemma json_set_obj [simp]: "json_set k v (json_obj kvs) = Some (JObject (member_set k v (assign_members kvs [])))"
  by (simp add: json_obj_def)

lemma channel_json_defined:
  assumes J: "json_env_ok J" and env: "gsp_env_ok E" "empty_parses (gcodec E)" and inv: "gsp_inv E n db"
    and r: "map_of (db_channels db) i = Some r"
  shows "\<exists>j. ChannelToGameStateJson J (rules (cenv E)) (load_ChannelData i r) = Some j"
proof -
  let ?ch = "load_ChannelData i r"
  note st = stored_state_any [OF env inv r]
  obtain k1 where k1: "BoardStateToJson J (rules (cenv E)) i (row_metadata r) (UnverifiedProofEndState (cd_proof ?ch))
      = Some (json_obj k1)"
    using st(3) board_json_defined [OF J env(1)] by blast
  obtain k2 where k2: "BoardStateToJson J (rules (cenv E)) i (row_metadata r) (row_reinit r) = Some (json_obj k2)"
    using st(2) board_json_defined [OF J env(1)] by blast
  obtain d where d: "(if HasDispute ?ch then do { h \<leftarrow> GetDisputeHeight ?ch; Some [(''disputeheight'', JInt (sint h))] }
      else Some []) = Some d"
    by (cases "HasDispute ?ch") (simp_all add: HasDispute_def GetDisputeHeight_def)
  have re: "cd_reinit ?ch = row_reinit r" by (simp add: load_ChannelData_def)
  obtain mj where mj: "ChannelMetadataToJson J (row_metadata r) = Some mj" using metadata_defined [OF J] by blast
  obtain pr where pr: "ProtoToBase64 (evp_enc J) (ser_proof J) (cd_proof ?ch) = Some pr"
    using proto_defined(1) [OF J] by blast
  show ?thesis
    unfolding ChannelToGameStateJson_def Let_def d by (simp add: mj k1 k2 pr re)
qed

lemma those_keys:
  assumes "those (map (\<lambda>x. map_option (Pair (g x)) (f x)) xs) = Some kvs"
  shows "map fst kvs = map g xs"
  using assms by (induction xs arbitrary: kvs) (auto split: option.splits)

text \<open>
  C35: The JSON form of the game state of ships is defined for every database with the invariant: no
  board state, proof or metadata in it fails a check.  It has the statistics of every player with a
  decided game, and exactly the open channels under the hexadecimal form of their ID.
\<close>

theorem ships_state_json:
  assumes "json_env_ok J" and "gsp_env_ok E" and "empty_parses (gcodec E)" and "gsp_inv E n db"
  shows "\<exists>j. ships_GetStateAsJson J E db = Some j
    \<and> (\<forall>k. isMember (member j ''channels'') k \<longleftrightarrow> k \<in> ToHex ` channel_ids db)
    \<and> (\<forall>name won lost. map_of (game_stats db) name = Some (won, lost) \<longrightarrow>
         member (member (member j ''gamestats'') name) ''won'' = JInt won
         \<and> member (member (member j ''gamestats'') name) ''lost'' = JInt lost)"
proof -
  let ?f = "\<lambda>rw. ChannelToGameStateJson J (rules (cenv E)) (GetFromResult rw)"
  let ?g = "\<lambda>rw. map_option (Pair (ToHex (cd_id (GetFromResult rw)))) (?f rw)"
  have "\<forall>rw \<in> set (db_channels db). ?g rw \<noteq> None"
  proof
    fix rw assume "rw \<in> set (db_channels db)"
    then have "map_of (db_channels db) (fst rw) = Some (snd rw)"
      by (rule tbl_ok_mem [OF gsp_invD(1) [OF assms(4)]])
    from channel_json_defined [OF assms this] show "?g rw \<noteq> None" by (auto simp: GetFromResult_def)
  qed
  from those_map_Some [OF this] obtain kvs where kvs: "those (map ?g (db_channels db)) = Some kvs" ..
  have "map fst kvs = map (\<lambda>rw. ToHex (fst rw)) (db_channels db)"
    using those_keys [OF kvs] by (simp add: GetFromResult_def)
  then have "set (map fst kvs) = set (map (\<lambda>rw. ToHex (fst rw)) (db_channels db))" by (rule arg_cong)
  then have keys: "fst ` set kvs = ToHex ` channel_ids db"
    unfolding list.set_map channel_ids_def dom_map_of_conv_image_fst image_image .
  let ?stats = "map (\<lambda>(name, (won, lost)). (name, json_obj [(''won'', JInt won), (''lost'', JInt lost)])) (game_stats db)"
  have st: "map_of (rev ?stats) name = Some (json_obj [(''won'', JInt won), (''lost'', JInt lost)])"
    if "map_of (game_stats db) name = Some (won, lost)" for name won lost
  proof -
    have d: "distinct (map fst (game_stats db))"
      using gsp_invD(3) [OF assms(4)] tbl_ok_distinct by (auto simp: stats_ok_def)
    have "map fst ?stats = map fst (game_stats db)" by (simp add: comp_def case_prod_unfold)
    with d have "distinct (map fst (rev ?stats))" by (simp only: rev_map [symmetric] distinct_rev)
    moreover have "(name, json_obj [(''won'', JInt won), (''lost'', JInt lost)]) \<in> set (rev ?stats)"
      using that d by force
    ultimately show ?thesis by (rule map_of_is_SomeI)
  qed
  let ?j = "json_obj [(''gamestats'', json_obj ?stats), (''channels'', json_obj kvs)]"
  have "ships_GetStateAsJson J E db = Some ?j"
    using kvs by (simp add: ships_GetStateAsJson_def GetFullJson_def AllChannelsGameStateJson_def QueryAll_def Let_def)
  moreover have "member ?j ''channels'' = json_obj kvs" "member ?j ''gamestats'' = json_obj ?stats"
    by (simp_all add: member_json_obj)
  ultimately show ?thesis
    using keys st by (intro exI [of _ ?j]) (simp add: isMember_json_obj member_json_obj)
qed

text \<open>A concrete view.\<close>

definition demo_json_env :: "ShipsBoardState json_env" where
  "demo_json_env = \<lparr>ser_proof = (\<lambda>p. Some []), ser_metadata = (\<lambda>m. Some []), evp_enc = b64_encode, parsed_json = ToJson\<rparr>"

theorem ships_state_json_witness:
  "\<exists>j. ships_GetStateAsJson demo_json_env demo_gsp (demo_db (Some 5)) = Some j
    \<and> isMember (member j ''channels'') (ToHex SetNull)"
proof -
  have J: "json_env_ok demo_json_env"
    using evp_ok_reference by (auto simp: json_env_ok_def demo_json_env_def)
  have c: "empty_parses (gcodec demo_gsp)" by (simp add: empty_parses_def demo_gsp_def demo_codec_def)
  have inv: "gsp_inv demo_gsp 7 (demo_db (Some 5))" by (rule demo_db_inv) auto
  have "SetNull \<in> channel_ids (demo_db (Some 5))" by (simp add: channel_ids_def demo_db_def)
  with ships_state_json [OF J demo_gsp_ok c inv] show ?thesis by blast
qed

text \<open>The pending state has a JSON form too, with the pending channels under their IDs.\<close>

lemma ships_pending_json:
  assumes J: "json_env_ok J"
  shows "\<exists>j. ShipsPending_ToJson J st = Some j
    \<and> member j ''create'' = JArray (pend_create st) \<and> member j ''join'' = JArray (pend_join st)
    \<and> member j ''abort'' = JArray (map (\<lambda>e. JString (ToHex (fst e))) (pend_abort st))"
proof -
  let ?f = "\<lambda>(i, pd). do {
       proof \<leftarrow> ProtoToBase64 (evp_enc J) (ser_proof J) (pend_proof pd);
       Some (ToHex i, json_obj [(''id'', JString (ToHex i)), (''proof'', JString proof),
                                (''turncount'', JUInt (uint (pend_turnCount pd)))]) }"
  have "\<forall>x \<in> set (pend_channels st). ?f x \<noteq> None"
  proof
    fix x assume "x \<in> set (pend_channels st)"
    obtain i pd where x: "x = (i, pd)" by (cases x)
    obtain s where "ProtoToBase64 (evp_enc J) (ser_proof J) (pend_proof pd) = Some s"
      using proto_defined(1) [OF J] by blast
    then show "?f x \<noteq> None" by (simp add: x)
  qed
  from those_map_Some [OF this] obtain kvs where kvs: "those (map ?f (pend_channels st)) = Some kvs" ..
  then show ?thesis
    by (simp add: ShipsPending_ToJson_def PendingMoves_ToJson_def json_obj_def assign_members_def member_def)
qed

end
