(* ===== verification/ChannelManager.thy ===== *)
theory ChannelManager
  imports Broadcast ShipsJson
begin

text \<open>
  The channel manager of a channel daemon (\<open>sidechannel/channelmanager.cpp\<close>): it follows the channel on the
  blockchain, applies the moves of the other participants and of its own player, makes automatic moves
  and resolves and files disputes.

  The game's part (the class \<open>OpenChannel\<close>) is a record of its virtual functions over a state of type
  \<open>'g\<close>, which is part of the state of the manager here, as are the broadcaster and the sender of moves
  that the C++ class has pointers to.  \<open>None\<close> is a failed check or, for the loop over automatic moves,
  that it does not return.
\<close>

section \<open>State\<close>

record ('p, 'g, 't) OpenChannel =
  ResolutionMove :: "uint256 \<Rightarrow> StateProof \<Rightarrow> 'g \<Rightarrow> json option"
  DisputeMove :: "uint256 \<Rightarrow> StateProof \<Rightarrow> 'g \<Rightarrow> json option"
  MaybeAutoMove :: "'p \<Rightarrow> 'g \<Rightarrow> (byte list option \<times> 'g) option"
  MaybeOnChainMove :: "'p \<Rightarrow> 'g \<Rightarrow> 't MoveSender \<Rightarrow> ('g \<times> 't MoveSender) option"

text \<open>The functions that a game inherits if it does not override them.\<close>

definition OpenChannel_MaybeAutoMove :: "'p \<Rightarrow> 'g \<Rightarrow> (byte list option \<times> 'g) option" where
  "OpenChannel_MaybeAutoMove state g = Some (None, g)"

definition OpenChannel_MaybeOnChainMove :: "'p \<Rightarrow> 'g \<Rightarrow> 't MoveSender \<Rightarrow> ('g \<times> 't MoveSender) option" where
  "OpenChannel_MaybeOnChainMove state g ms = Some (g, ms)"

record DisputeData =
  dd_height :: u32
  dd_turn :: int
  dd_count :: u32
  pendingResolution :: uint256

text \<open>What the manager is constructed with, and the functions of the objects that it refers to.\<close>

record ('p, 'g, 't) ManagerEnv =
  me_env :: "'p ChannelEnv"
  me_signer :: SignatureSigner
  me_game :: "('p, 'g, 't) OpenChannel"
  me_send :: "'t SenderEnv"
  me_codec :: BroadcastCodec
  me_channelId :: uint256
  me_playerName :: string

text \<open>
  \<open>onChainHeight\<close> has no value before the first update.  The registered callbacks are identified by
  numbers, and the set that was notified is kept for every notification.
\<close>

record ('p, 'g, 't) ChannelManager =
  cm_game :: 'g
  boardStates :: "'p RollingState"
  offChainSender :: "OffChainBroadcast option"
  onChainSender :: "'t MoveSender option"
  stateVersion :: int
  cm_exists :: bool
  cm_blockHash :: uint256
  onChainHeight :: "u32 option"
  dispute :: "DisputeData option"
  pendingPutStateOnChain :: uint256
  pendingDispute :: uint256
  callbacks :: "nat set"
  notifications :: "nat set list"

definition new_ChannelManager :: "'g \<Rightarrow> ('p, 'g, 't) ChannelManager" where
  "new_ChannelManager g =
    \<lparr>cm_game = g, boardStates = new_RollingState, offChainSender = None, onChainSender = None,
     stateVersion = 1, cm_exists = False, cm_blockHash = SetNull, onChainHeight = None, dispute = None,
     pendingPutStateOnChain = SetNull, pendingDispute = SetNull, callbacks = {}, notifications = []\<rparr>"

definition SetOffChainBroadcast ::
    "OffChainBroadcast \<Rightarrow> ('p, 'g, 't) ChannelManager \<Rightarrow> ('p, 'g, 't) ChannelManager option" where
  "SetOffChainBroadcast s cm = do { check (offChainSender cm = None); Some (cm\<lparr>offChainSender := Some s\<rparr>) }"

definition SetMoveSender ::
    "'t MoveSender \<Rightarrow> ('p, 'g, 't) ChannelManager \<Rightarrow> ('p, 'g, 't) ChannelManager option" where
  "SetMoveSender s cm = do { check (onChainSender cm = None); Some (cm\<lparr>onChainSender := Some s\<rparr>) }"

definition RegisterCallback :: "nat \<Rightarrow> ('p, 'g, 't) ChannelManager \<Rightarrow> ('p, 'g, 't) ChannelManager" where
  "RegisterCallback cb cm = cm\<lparr>callbacks := insert cb (callbacks cm)\<rparr>"

definition UnregisterCallback :: "nat \<Rightarrow> ('p, 'g, 't) ChannelManager \<Rightarrow> ('p, 'g, 't) ChannelManager" where
  "UnregisterCallback cb cm = cm\<lparr>callbacks := callbacks cm - {cb}\<rparr>"

section \<open>Operations\<close>

text \<open>Incrementing the greatest \<open>int\<close> is undefined; it counts as a failure.\<close>

definition NotifyStateChange :: "('p, 'g, 't) ChannelManager \<Rightarrow> ('p, 'g, 't) ChannelManager option" where
  "NotifyStateChange cm = do {
     check (stateVersion cm > 0);
     check (stateVersion cm < 2 ^ 31 - 1);
     Some (cm\<lparr>stateVersion := stateVersion cm + 1, notifications := notifications cm @ [callbacks cm]\<rparr>)
   }"

definition SendDispute ::
    "('p, 'g, 't) ManagerEnv \<Rightarrow> StateProof \<Rightarrow> 'g \<Rightarrow> 't MoveSender \<Rightarrow> (uint256 \<times> 't MoveSender) option" where
  "SendDispute E pf g ms = do {
     mv \<leftarrow> DisputeMove (me_game E) (ms_channelId ms) pf g;
     SendMove (me_send E) mv ms }"

definition SendResolution ::
    "('p, 'g, 't) ManagerEnv \<Rightarrow> StateProof \<Rightarrow> 'g \<Rightarrow> 't MoveSender \<Rightarrow> (uint256 \<times> 't MoveSender) option" where
  "SendResolution E pf g ms = do {
     mv \<leftarrow> ResolutionMove (me_game E) (ms_channelId ms) pf g;
     SendMove (me_send E) mv ms }"

definition LatestTurnCount :: "('p, 'g, 't) ManagerEnv \<Rightarrow> ('p, 'g, 't) ChannelManager \<Rightarrow> u32 option" where
  "LatestTurnCount E cm = do {
     state \<leftarrow> rs_GetLatestState (boardStates cm);
     pTurnCount (rules (me_env E)) state }"

definition TryResolveDispute ::
    "('p, 'g, 't) ManagerEnv \<Rightarrow> ('p, 'g, 't) ChannelManager \<Rightarrow> ('p, 'g, 't) ChannelManager option" where
  "TryResolveDispute E cm =
    (if \<not> cm_exists cm then Some cm
     else case dispute cm of
       None \<Rightarrow> Some cm
     | Some d \<Rightarrow>
       if \<not> IsNull (pendingResolution d) then Some cm
       else do {
         check (dd_turn d \<noteq> NO_TURN);
         meta \<leftarrow> rs_GetMetadata (boardStates cm);
         check (dd_turn d \<ge> 0);
         check (dd_turn d < int (participants_size meta));
         let disputedPlayer = get_or [] (participant_name (participants meta ! nat (dd_turn d)));
         if disputedPlayer \<noteq> me_playerName E then Some cm
         else do {
           latestCnt \<leftarrow> LatestTurnCount E cm;
           if latestCnt \<le> dd_count d then Some cm
           else do {
             ms \<leftarrow> onChainSender cm;
             pf \<leftarrow> rs_GetStateProof (boardStates cm);
             (txid, ms) \<leftarrow> SendResolution E pf (cm_game cm) ms;
             Some (cm\<lparr>onChainSender := Some ms, dispute := Some (d\<lparr>pendingResolution := txid\<rparr>)\<rparr>)
           } } })"

text \<open>The result tells whether the move was applied.\<close>

definition ApplyLocalMove ::
    "('p, 'g, 't) ManagerEnv \<Rightarrow> byte list \<Rightarrow> ('p, 'g, 't) ChannelManager
       \<Rightarrow> (bool \<times> ('p, 'g, 't) ChannelManager) option" where
  "ApplyLocalMove E mv cm = do {
     check (cm_exists cm);
     meta \<leftarrow> rs_GetMetadata (boardStates cm);
     pf \<leftarrow> rs_GetStateProof (boardStates cm);
     (case ExtendStateProof (me_env E) (me_signer E) (me_channelId E) meta pf mv of
        Inl CheckFailed \<Rightarrow> None
      | Inl Rejected \<Rightarrow> Some (False, cm)
      | Inr newProof \<Rightarrow> do {
          re \<leftarrow> GetReinitId (boardStates cm);
          (changed, rs) \<leftarrow> UpdateWithMove (me_env E) (me_channelId E) re newProof (boardStates cm);
          check changed;
          Some (True, cm\<lparr>boardStates := rs\<rparr>) })
   }"

partial_function (option) ProcessAutoMoves_loop ::
    "('p, 'g, 't) ManagerEnv \<Rightarrow> bool \<Rightarrow> ('p, 'g, 't) ChannelManager
       \<Rightarrow> (bool \<times> ('p, 'g, 't) ChannelManager) option" where
  "ProcessAutoMoves_loop E found cm = do {
     state \<leftarrow> rs_GetLatestState (boardStates cm);
     meta \<leftarrow> rs_GetMetadata (boardStates cm);
     turn \<leftarrow> pWhoseTurn (rules (me_env E)) state;
     if turn = NO_TURN then Some (found, cm)
     else do {
       check (turn \<ge> 0);
       check (turn < int (participants_size meta));
       if get_or [] (participant_name (participants meta ! nat turn)) \<noteq> me_playerName E then Some (found, cm)
       else do {
         (maybe, g) \<leftarrow> MaybeAutoMove (me_game E) state (cm_game cm);
         (case maybe of
            None \<Rightarrow> Some (found, cm\<lparr>cm_game := g\<rparr>)
          | Some mv \<Rightarrow> do {
              (applied, cm) \<leftarrow> ApplyLocalMove E mv (cm\<lparr>cm_game := g\<rparr>);
              check applied;
              ProcessAutoMoves_loop E True cm }) } }
   }"

definition ProcessAutoMoves ::
    "('p, 'g, 't) ManagerEnv \<Rightarrow> ('p, 'g, 't) ChannelManager \<Rightarrow> (bool \<times> ('p, 'g, 't) ChannelManager) option" where
  "ProcessAutoMoves E cm = ProcessAutoMoves_loop E False cm"

definition BroadcastState ::
    "('p, 'g, 't) ManagerEnv \<Rightarrow> ('p, 'g, 't) ChannelManager \<Rightarrow> ('p, 'g, 't) ChannelManager option" where
  "BroadcastState E cm = do {
     bc \<leftarrow> offChainSender cm;
     re \<leftarrow> GetReinitId (boardStates cm);
     pf \<leftarrow> rs_GetStateProof (boardStates cm);
     bc \<leftarrow> SendNewState (me_codec E) re pf bc;
     Some (cm\<lparr>offChainSender := Some bc\<rparr>)
   }"

definition TryOnChainMove ::
    "('p, 'g, 't) ManagerEnv \<Rightarrow> ('p, 'g, 't) ChannelManager \<Rightarrow> ('p, 'g, 't) ChannelManager option" where
  "TryOnChainMove E cm = (case onChainSender cm of
     None \<Rightarrow> Some cm
   | Some ms \<Rightarrow> do {
       state \<leftarrow> rs_GetLatestState (boardStates cm);
       (g, ms) \<leftarrow> MaybeOnChainMove (me_game E) state (cm_game cm) ms;
       Some (cm\<lparr>cm_game := g, onChainSender := Some ms\<rparr>) })"

definition ProcessStateUpdate ::
    "('p, 'g, 't) ManagerEnv \<Rightarrow> bool \<Rightarrow> ('p, 'g, 't) ChannelManager \<Rightarrow> ('p, 'g, 't) ChannelManager option" where
  "ProcessStateUpdate E broadcast cm = do {
     (found, cm) \<leftarrow> ProcessAutoMoves E cm;
     let broadcast = (if found then True else broadcast);
     cm \<leftarrow> (if broadcast then BroadcastState E cm else Some cm);
     cm \<leftarrow> TryResolveDispute E cm;
     cm \<leftarrow> TryOnChainMove E cm;
     NotifyStateChange cm
   }"

definition ProcessOffChain ::
    "('p, 'g, 't) ManagerEnv \<Rightarrow> byte list \<Rightarrow> StateProof \<Rightarrow> ('p, 'g, 't) ChannelManager
       \<Rightarrow> ('p, 'g, 't) ChannelManager option" where
  "ProcessOffChain E re pf cm = do {
     (changed, rs) \<leftarrow> UpdateWithMove (me_env E) (me_channelId E) re pf (boardStates cm);
     let cm = cm\<lparr>boardStates := rs\<rparr>;
     if \<not> changed then Some cm else ProcessStateUpdate E False cm
   }"

definition no_participants :: ChannelMetadata where
  "no_participants = \<lparr>participants = [], reinit = None, custom = None\<rparr>"

definition ProcessOnChainNonExistant ::
    "uint256 \<Rightarrow> u32 \<Rightarrow> ('p, 'g, 't) ChannelManager \<Rightarrow> ('p, 'g, 't) ChannelManager option" where
  "ProcessOnChainNonExistant blk h cm = (
     let cm = cm\<lparr>cm_blockHash := blk, onChainHeight := Some h, cm_exists := False\<rparr>;
         cm = cm\<lparr>offChainSender := map_option (SetParticipants no_participants) (offChainSender cm)\<rparr>
     in NotifyStateChange cm)"

definition ResetMinedTxid ::
    "('p, 'g, 't) ManagerEnv \<Rightarrow> 't MoveSender option \<Rightarrow> uint256 \<Rightarrow> uint256 option" where
  "ResetMinedTxid E sender txid =
    (if IsNull txid then Some txid
     else do {
       ms \<leftarrow> sender;
       pending \<leftarrow> ms_IsPending (me_send E) txid ms;
       if pending then Some txid else Some SetNull })"

definition UpdateDispute ::
    "('p, 'g, 't) ManagerEnv \<Rightarrow> ChannelMetadata \<Rightarrow> StateProof \<Rightarrow> u32 \<Rightarrow> ('p, 'g, 't) ChannelManager
       \<Rightarrow> ('p, 'g, 't) ChannelManager option" where
  "UpdateDispute E meta pf dispHeight cm =
    (if dispHeight = 0 then Some (cm\<lparr>dispute := None\<rparr>)
     else do {
       let pending = (case dispute cm of None \<Rightarrow> SetNull | Some d \<Rightarrow> pendingResolution d);
       pending \<leftarrow> ResetMinedTxid E (onChainSender cm) pending;
       (case ParseState (rules (me_env E)) (me_channelId E) meta (UnverifiedProofEndState pf) of
          Inl _ \<Rightarrow> None
        | Inr p \<Rightarrow> do {
            turn \<leftarrow> pWhoseTurn (rules (me_env E)) p;
            cnt \<leftarrow> pTurnCount (rules (me_env E)) p;
            Some (cm\<lparr>dispute := Some \<lparr>dd_height = dispHeight, dd_turn = turn, dd_count = cnt,
                                      pendingResolution = pending\<rparr>\<rparr>) }) })"

definition ProcessOnChain ::
    "('p, 'g, 't) ManagerEnv \<Rightarrow> uint256 \<Rightarrow> u32 \<Rightarrow> ChannelMetadata \<Rightarrow> byte list \<Rightarrow> StateProof \<Rightarrow> u32
       \<Rightarrow> ('p, 'g, 't) ChannelManager \<Rightarrow> ('p, 'g, 't) ChannelManager option" where
  "ProcessOnChain E blk h meta rstate pf dispHeight cm = do {
     let cm = cm\<lparr>cm_blockHash := blk, onChainHeight := Some h\<rparr>;
     put \<leftarrow> ResetMinedTxid E (onChainSender cm) (pendingPutStateOnChain cm);
     disp \<leftarrow> ResetMinedTxid E (onChainSender cm) (pendingDispute cm);
     let cm = cm\<lparr>pendingPutStateOnChain := put, pendingDispute := disp, cm_exists := True\<rparr>;
     (_, rs) \<leftarrow> UpdateOnChain (me_env E) (me_channelId E) meta rstate pf (boardStates cm);
     cm \<leftarrow> UpdateDispute E meta pf dispHeight (cm\<lparr>boardStates := rs\<rparr>);
     let cm = cm\<lparr>offChainSender := map_option (SetParticipants meta) (offChainSender cm)\<rparr>;
     ProcessStateUpdate E False cm
   }"

definition ProcessLocalMove ::
    "('p, 'g, 't) ManagerEnv \<Rightarrow> byte list \<Rightarrow> ('p, 'g, 't) ChannelManager \<Rightarrow> ('p, 'g, 't) ChannelManager option" where
  "ProcessLocalMove E mv cm =
    (if \<not> cm_exists cm then Some cm
     else do {
       (applied, cm) \<leftarrow> ApplyLocalMove E mv cm;
       if \<not> applied then Some cm else ProcessStateUpdate E True cm })"

definition TriggerAutoMoves ::
    "('p, 'g, 't) ManagerEnv \<Rightarrow> ('p, 'g, 't) ChannelManager \<Rightarrow> ('p, 'g, 't) ChannelManager option" where
  "TriggerAutoMoves E cm =
    (if \<not> cm_exists cm then Some cm
     else do {
       (found, cm) \<leftarrow> ProcessAutoMoves E cm;
       if \<not> found then Some cm else ProcessStateUpdate E True cm })"

definition PutStateOnChain ::
    "('p, 'g, 't) ManagerEnv \<Rightarrow> ('p, 'g, 't) ChannelManager \<Rightarrow> (uint256 \<times> ('p, 'g, 't) ChannelManager) option" where
  "PutStateOnChain E cm =
    (if \<not> cm_exists cm then Some (SetNull, cm)
     else do {
       latestCnt \<leftarrow> LatestTurnCount E cm;
       onChainCnt \<leftarrow> GetOnChainTurnCount (boardStates cm);
       if latestCnt \<le> onChainCnt then do {
         check (latestCnt = onChainCnt);
         Some (SetNull, cm) }
       else do {
         ms \<leftarrow> onChainSender cm;
         pf \<leftarrow> rs_GetStateProof (boardStates cm);
         (txid, ms) \<leftarrow> SendResolution E pf (cm_game cm) ms;
         Some (txid, cm\<lparr>onChainSender := Some ms, pendingPutStateOnChain := txid\<rparr>) } })"

definition FileDispute ::
    "('p, 'g, 't) ManagerEnv \<Rightarrow> ('p, 'g, 't) ChannelManager \<Rightarrow> (uint256 \<times> ('p, 'g, 't) ChannelManager) option" where
  "FileDispute E cm =
    (if \<not> cm_exists cm then Some (SetNull, cm)
     else if dispute cm \<noteq> None then Some (SetNull, cm)
     else if \<not> IsNull (pendingDispute cm) then Some (SetNull, cm)
     else do {
       ms \<leftarrow> onChainSender cm;
       pf \<leftarrow> rs_GetStateProof (boardStates cm);
       (txid, ms) \<leftarrow> SendDispute E pf (cm_game cm) ms;
       Some (txid, cm\<lparr>onChainSender := Some ms, pendingDispute := txid\<rparr>) })"

definition GetBoardState :: "('p, 'g, 't) ChannelManager \<Rightarrow> 'p option option" where
  "GetBoardState cm =
    (if \<not> cm_exists cm then Some None
     else do { state \<leftarrow> rs_GetLatestState (boardStates cm); Some (Some state) })"

definition cm_ToJson ::
    "'p json_env \<Rightarrow> ('p, 'g, 't) ManagerEnv \<Rightarrow> ('p, 'g, 't) ChannelManager \<Rightarrow> json option" where
  "cm_ToJson J E cm = do {
     let res = [(''id'', JString (ToHex (me_channelId E))), (''playername'', JString (me_playerName E)),
                (''existsonchain'', JBool (cm_exists cm)), (''version'', JInt (stateVersion cm))];
     res \<leftarrow> (if IsNull (cm_blockHash cm) then Some res
             else do {
               h \<leftarrow> onChainHeight cm;
               Some (res @ [(''blockhash'', JString (ToHex (cm_blockHash cm))), (''height'', JInt (sint h))]) });
     if \<not> cm_exists cm then Some (json_obj res)
     else do {
       meta \<leftarrow> rs_GetMetadata (boardStates cm);
       pf \<leftarrow> rs_GetStateProof (boardStates cm);
       metaJson \<leftarrow> ChannelMetadataToJson J meta;
       state \<leftarrow> BoardStateToJson J (rules (me_env E)) (me_channelId E) meta (UnverifiedProofEndState pf);
       let res = res @ [(''current'', json_obj [(''meta'', metaJson), (''state'', state)])];
       disp \<leftarrow> (case dispute cm of
           None \<Rightarrow> Some []
         | Some d \<Rightarrow> do {
             knownCount \<leftarrow> LatestTurnCount E cm;
             Some [(''dispute'', json_obj [(''height'', JInt (sint (dd_height d))), (''whoseturn'', JInt (dd_turn d)),
                      (''canresolve'', JBool (knownCount > dd_count d))])] });
       let pending =
         (if IsNull (pendingPutStateOnChain cm) then []
          else [(''putstateonchain'', JString (ToHex (pendingPutStateOnChain cm)))])
         @ (if IsNull (pendingDispute cm) then [] else [(''dispute'', JString (ToHex (pendingDispute cm)))])
         @ (case dispute cm of
              None \<Rightarrow> []
            | Some d \<Rightarrow> if IsNull (pendingResolution d) then []
                else [(''resolution'', JString (ToHex (pendingResolution d)))]);
       Some (json_obj (res @ disp @ [(''pending'', json_obj pending)]))
     }
   }"

definition ProcessIncoming ::
    "('p, 'g, 't) ManagerEnv \<Rightarrow> OffChainBroadcast \<Rightarrow> byte list \<Rightarrow> ('p, 'g, 't) ChannelManager
       \<Rightarrow> ('p, 'g, 't) ChannelManager option" where
  "ProcessIncoming E bc msg cm =
    (if length msg > MAX_MESSAGE_SIZE then Some cm
     else do {
       check (me_channelId E = bc_id bc);
       (case parse_broadcast (me_codec E) msg of
          None \<Rightarrow> Some cm
        | Some pb \<Rightarrow> ProcessOffChain E (get_or [] (bm_reinit pb)) (get_proof pb) cm) })"

end
