(* ===== verification/ManagerInv.thy ===== *)
theory ManagerInv
  imports ChannelManager
begin

text \<open>
  Invariants of the channel manager over all sequences of its operations: the known states have valid
  proofs and do not get older, and the state on chain is never ahead of the best known one.
\<close>

section \<open>The rolling state\<close>

text \<open>
  For every known reinitialisation: the proof passed the version check, and the turn count of the best
  state is not behind the one on chain.
\<close>

definition entry_known :: "'p ChannelEnv \<Rightarrow> 'p ReinitData \<Rightarrow> bool" where
  "entry_known env e \<longleftrightarrow> CheckVersionedProto env (rd_meta e) (rd_proof e)
     \<and> (\<exists>c. pTurnCount (rules env) (latestState e) = Some c \<and> onChainTurn e \<le> c)"

definition rs_known :: "'p ChannelEnv \<Rightarrow> uint256 \<Rightarrow> 'p RollingState \<Rightarrow> bool" where
  "rs_known env i rs \<longleftrightarrow> rs_inv env i rs \<and> (\<forall>re e. map_of (reinits rs) re = Some e \<longrightarrow> entry_known env e)"

lemma rs_knownD:
  assumes "rs_known env i rs" and "map_of (reinits rs) re = Some e"
  shows "rs_inv env i rs" "CheckVersionedProto env (rd_meta e) (rd_proof e)"
    "pTurnCount (rules env) (latestState e) = Some c \<Longrightarrow> onChainTurn e \<le> c"
    "\<exists>c. pTurnCount (rules env) (latestState e) = Some c"
  using assms by (fastforce simp: rs_known_def entry_known_def)+

text \<open>Updates by moves: for every reinitialisation only the proof and the state change.\<close>

definition rs_frame :: "'p RollingState \<Rightarrow> 'p RollingState \<Rightarrow> bool" where
  "rs_frame rs rs' \<longleftrightarrow> reinitId rs' = reinitId rs
     \<and> (\<forall>re e. map_of (reinits rs) re = Some e \<longrightarrow>
          (\<exists>e'. map_of (reinits rs') re = Some e' \<and> rd_meta e' = rd_meta e \<and> reinitState e' = reinitState e
             \<and> onChainTurn e' = onChainTurn e))"

lemma rs_frame_refl: "rs_frame rs rs"
  by (simp add: rs_frame_def)

lemma rs_frame_trans: "rs_frame rs rs' \<Longrightarrow> rs_frame rs' rs'' \<Longrightarrow> rs_frame rs rs''"
  unfolding rs_frame_def by fastforce

lemma UpdateWithMove_version:
  assumes "UpdateWithMove env i re pf rs = Some (changed, rs')" and "map_of (reinits rs) re = Some e"
  shows "rs' = rs \<or> CheckVersionedProto env (rd_meta e) pf"
  using assms by (auto simp: UpdateWithMove_def split: if_splits)

lemma UpdateWithMove_known:
  assumes u: "UpdateWithMove env i re pf rs = Some (changed, rs')" and inv: "rs_known env i rs"
  shows "rs_known env i rs' \<and> not_older env rs rs' \<and> rs_frame rs rs'"
proof -
  have base: "rs_inv env i rs'" "not_older env rs rs'"
    using UpdateWithMove_inv [OF u] inv by (auto simp: rs_known_def)
  from UpdateWithMove_cases [OF u] show ?thesis
  proof (elim disjE exE conjE)
    fix e p s old new
    assume e: "map_of (reinits rs) re = Some e" and c: "pTurnCount (rules env) (latestState e) = Some old"
      "pTurnCount (rules env) p = Some new" "old < new"
      and rs': "rs' = set_entry re (e\<lparr>rd_proof := pf, latestState := p\<rparr>) rs"
    from inv e c(1) have o: "onChainTurn e \<le> old" by (rule rs_knownD(3))
    have "rs' \<noteq> rs"
    proof
      assume "rs' = rs"
      with e rs' have "e\<lparr>rd_proof := pf, latestState := p\<rparr> = e"
        by (metis fun_upd_same map_of_set_entry option.inject)
      with c show False by (cases e) auto
    qed
    with UpdateWithMove_version [OF u e] have "CheckVersionedProto env (rd_meta e) pf" by blast
    with o c have "entry_known env (e\<lparr>rd_proof := pf, latestState := p\<rparr>)"
      by (auto simp: entry_known_def)
    with inv base(1) e have "rs_known env i rs'" "rs_frame rs rs'"
      by (auto simp: rs_known_def rs_frame_def rs' map_of_set_entry)
    with base(2) show ?thesis by simp
  next
    fix q
    assume "rs' = rs\<lparr>unknownReinitMoves := q\<rparr>"
    with inv base show ?thesis by (auto simp: rs_known_def rs_frame_def)
  qed (use inv base in \<open>auto simp: rs_frame_refl\<close>)
qed

lemma apply_updates_known:
  "apply_updates env i re sps rs = Some rs' \<Longrightarrow> rs_known env i rs \<Longrightarrow>
     rs_known env i rs' \<and> not_older env rs rs' \<and> rs_frame rs rs'"
proof (induction sps arbitrary: rs)
  case (Cons sp sps)
  then obtain c rs1 where u: "UpdateWithMove env i re sp rs = Some (c, rs1)" "apply_updates env i re sps rs1 = Some rs'"
    by (auto split: bind_splits)
  note 1 = UpdateWithMove_known [OF u(1) Cons.prems(2)]
  with Cons.IH [OF u(2)] show ?case
    using not_older_trans rs_frame_trans by blast
qed (simp add: not_older_refl rs_frame_refl)

text \<open>
  An on-chain update: the state that the proof claims becomes the state on chain of the current
  reinitialisation, or an earlier, later state stays it.
\<close>

lemma UpdateOnChain_known:
  assumes u: "UpdateOnChain env i meta rstate pf rs = Some (changed, rs')" and inv: "rs_known env i rs"
  shows "rs_known env i rs' \<and> not_older env rs rs' \<and> reinitId rs' = get_or [] (reinit meta)
    \<and> (\<exists>e p cnt. map_of (reinits rs') (reinitId rs') = Some e \<and> rd_meta e = meta \<and> reinitState e = rstate
         \<and> ParseState (rules env) i meta (UnverifiedProofEndState pf) = Inr p
         \<and> pTurnCount (rules env) p = Some cnt \<and> cnt \<le> onChainTurn e)"
proof -
  let ?re = "get_or [] (reinit meta)"
  have v: "CheckVersionedProto env meta pf"
    using u by (simp add: UpdateOnChain_def split: if_splits)
  have base: "rs_inv env i rs'" "not_older env rs rs'" "reinitId rs' = ?re"
    using UpdateOnChain_inv [OF u] inv by (auto simp: rs_known_def)
  obtain s p cnt where s: "VerifyStateProof env i meta rstate pf = Inr s"
    and p: "ParseState (rules env) i meta s = Inr p" "pTurnCount (rules env) p = Some cnt"
    and cs: "(\<exists>ups q. map_of (reinits rs) ?re = None \<and> changed
          \<and> ExtractQueue ?re (unknownReinitMoves rs) = Some (ups, q)
          \<and> apply_updates env i ?re ups
              ((set_entry ?re \<lparr>rd_meta = meta, reinitState = rstate, onChainTurn = cnt, rd_proof = pf,
                  latestState = p\<rparr> (rs\<lparr>reinitId := ?re\<rparr>))\<lparr>unknownReinitMoves := q\<rparr>) = Some rs')
      \<or> (\<exists>e old oct. map_of (reinits rs) ?re = Some e \<and> rd_meta e = meta \<and> reinitState e = rstate
          \<and> pTurnCount (rules env) (latestState e) = Some old
          \<and> oct = max cnt (onChainTurn e)
          \<and> (cnt \<le> old \<and> changed = (reinitId rs \<noteq> ?re)
               \<and> rs' = set_entry ?re (e\<lparr>onChainTurn := oct\<rparr>) (rs\<lparr>reinitId := ?re\<rparr>)
             \<or> old < cnt \<and> changed
               \<and> rs' = set_entry ?re (e\<lparr>onChainTurn := oct, rd_proof := pf, latestState := p\<rparr>) (rs\<lparr>reinitId := ?re\<rparr>)))"
    using UpdateOnChain_cases [OF u] by blast
  have "s = UnverifiedProofEndState pf" using s by (simp add: VerifyStateProof_iff)
  note p = p [unfolded this]
  from cs show ?thesis
  proof (elim disjE exE conjE)
    fix ups q
    assume q: "ExtractQueue ?re (unknownReinitMoves rs) = Some (ups, q)"
    let ?e = "\<lparr>rd_meta = meta, reinitState = rstate, onChainTurn = cnt, rd_proof = pf, latestState = p\<rparr>"
    let ?rs = "(set_entry ?re ?e (rs\<lparr>reinitId := ?re\<rparr>))\<lparr>unknownReinitMoves := q\<rparr>"
    assume a: "apply_updates env i ?re ups ?rs = Some rs'"
    have "queue_inv q" "maxSize q = STATE_UPDATE_QUEUE_SIZE"
      using ExtractQueue_spec [of "unknownReinitMoves rs" ?re] q inv by (auto simp: rs_known_def rs_inv_def)
    moreover have "RollingState.entry_ok env i ?e" using s p \<open>s = _\<close> by (auto simp: RollingState.entry_ok_def)
    then have "rs_inv env i (set_entry ?re ?e (rs\<lparr>reinitId := ?re\<rparr>))"
      using inv by (intro rs_inv_set_entry) (auto simp: rs_inv_frame rs_known_def)
    ultimately have "rs_inv env i ?rs" by (auto simp: rs_inv_def)
    moreover have "entry_known env ?e" using v p by (auto simp: entry_known_def)
    ultimately have "rs_known env i ?rs"
      using inv by (auto simp: rs_known_def map_of_set_entry)
    note k = apply_updates_known [OF a this]
    moreover have "map_of (reinits ?rs) ?re = Some ?e" by (simp add: map_of_set_entry)
    ultimately obtain e' where "rs_known env i rs'"
      and e': "map_of (reinits rs') ?re = Some e'" "rd_meta e' = meta" "reinitState e' = rstate" "onChainTurn e' = cnt"
      unfolding rs_frame_def by fastforce
    with base p show ?thesis by (intro conjI exI [of _ e'] exI [of _ p] exI [of _ cnt]) simp_all
  next
    fix e old oct
    assume e: "map_of (reinits rs) ?re = Some e" "rd_meta e = meta" "reinitState e = rstate"
      and c: "pTurnCount (rules env) (latestState e) = Some old" "cnt \<le> old" "oct = max cnt (onChainTurn e)"
      and rs': "rs' = set_entry ?re (e\<lparr>onChainTurn := oct\<rparr>) (rs\<lparr>reinitId := ?re\<rparr>)"
    have "entry_known env (e\<lparr>onChainTurn := oct\<rparr>)"
      using rs_knownD(2,3) [OF inv e(1)] c by (auto simp: entry_known_def)
    with inv base(1) have "rs_known env i rs'"
      by (auto simp: rs_known_def rs' map_of_set_entry)
    with base p e c show ?thesis
      by (intro conjI exI [of _ "e\<lparr>onChainTurn := oct\<rparr>"] exI [of _ p] exI [of _ cnt])
        (simp_all add: rs' map_of_set_entry)
  next
    fix e old oct
    assume e: "map_of (reinits rs) ?re = Some e" "rd_meta e = meta" "reinitState e = rstate"
      and c: "pTurnCount (rules env) (latestState e) = Some old" "old < cnt" "oct = max cnt (onChainTurn e)"
      and rs': "rs' = set_entry ?re (e\<lparr>onChainTurn := oct, rd_proof := pf, latestState := p\<rparr>) (rs\<lparr>reinitId := ?re\<rparr>)"
    have "entry_known env (e\<lparr>onChainTurn := oct, rd_proof := pf, latestState := p\<rparr>)"
      using rs_knownD(3) [OF inv e(1) c(1)] e c v p by (auto simp: entry_known_def)
    with inv base(1) have "rs_known env i rs'"
      by (auto simp: rs_known_def rs' map_of_set_entry)
    with base p e c show ?thesis
      by (intro conjI exI [of _ "e\<lparr>onChainTurn := oct, rd_proof := pf, latestState := p\<rparr>"] exI [of _ p] exI [of _ cnt])
        (simp_all add: rs' map_of_set_entry)
  qed
qed

section \<open>The manager\<close>

text \<open>
  The invariant: the rolling state is as above; while the channel exists on chain, a state of it is
  known; a known dispute of an existing channel is about a state that is not ahead of the one on chain.
\<close>

definition cm_inv :: "('p, 'g, 't) ManagerEnv \<Rightarrow> ('p, 'g, 't) ChannelManager \<Rightarrow> bool" where
  "cm_inv E cm \<longleftrightarrow> rs_known (me_env E) (me_channelId E) (boardStates cm) \<and> 0 < stateVersion cm
     \<and> (cm_exists cm \<longrightarrow> (\<exists>e. current_entry (boardStates cm) = Some e
          \<and> (\<forall>d. dispute cm = Some d \<longrightarrow> dd_count d \<le> onChainTurn e)))"

text \<open>A sender that is connected stays connected, to the same channel.\<close>

definition senders_kept :: "('p, 'g, 't) ChannelManager \<Rightarrow> ('p, 'g, 't) ChannelManager \<Rightarrow> bool" where
  "senders_kept cm cm' \<longleftrightarrow> (onChainSender cm \<noteq> None \<longrightarrow> onChainSender cm' \<noteq> None)
     \<and> (\<forall>i. map_option bc_id (offChainSender cm) = Some i \<longrightarrow> map_option bc_id (offChainSender cm') = Some i)"

lemma senders_kept_same [simp]:
  "offChainSender cm' = offChainSender cm \<Longrightarrow> onChainSender cm' = onChainSender cm \<Longrightarrow> senders_kept cm cm'"
  by (simp add: senders_kept_def)

lemma senders_kept_trans: "senders_kept cm cm' \<Longrightarrow> senders_kept cm' cm'' \<Longrightarrow> senders_kept cm cm''"
  unfolding senders_kept_def by simp

lemma senders_kept_update:
  "senders_kept cm (cm\<lparr>cm_game := g, onChainSender := Some ms\<rparr>)"
  "senders_kept cm (cm\<lparr>onChainSender := Some ms, dispute := d\<rparr>)"
  "senders_kept cm (cm\<lparr>onChainSender := Some ms, pendingPutStateOnChain := txid\<rparr>)"
  "senders_kept cm (cm\<lparr>onChainSender := Some ms, pendingDispute := txid\<rparr>)"
  "map_option bc_id bc = map_option bc_id (offChainSender cm) \<Longrightarrow> senders_kept cm (cm\<lparr>offChainSender := bc\<rparr>)"
  by (simp_all add: senders_kept_def)

text \<open>Progress: no state gets older, the version does not decrease, and connections are kept.\<close>

definition cm_progress :: "('p, 'g, 't) ManagerEnv \<Rightarrow> ('p, 'g, 't) ChannelManager \<Rightarrow> ('p, 'g, 't) ChannelManager \<Rightarrow> bool" where
  "cm_progress E cm cm' \<longleftrightarrow> not_older (me_env E) (boardStates cm) (boardStates cm') \<and> stateVersion cm \<le> stateVersion cm'
     \<and> senders_kept cm cm'"

lemma cm_progress_refl: "cm_progress E cm cm"
  by (simp add: cm_progress_def not_older_refl)

lemma cm_progress_trans: "cm_progress E cm cm' \<Longrightarrow> cm_progress E cm' cm'' \<Longrightarrow> cm_progress E cm cm''"
  using not_older_trans [of "me_env E" "boardStates cm" "boardStates cm'" "boardStates cm''"] senders_kept_trans [of cm cm' cm'']
  by (auto simp: cm_progress_def)

lemma current_entry_eq: "current_entry rs = Some e \<longleftrightarrow> map_of (reinits rs) (reinitId rs) = Some e"
  by (auto simp: current_entry_def)

lemma rs_frame_current:
  "rs_frame rs rs' \<Longrightarrow> current_entry rs = Some e \<Longrightarrow>
     \<exists>e'. current_entry rs' = Some e' \<and> rd_meta e' = rd_meta e \<and> reinitState e' = reinitState e
       \<and> onChainTurn e' = onChainTurn e"
  by (auto simp: current_entry_eq rs_frame_def)

text \<open>The steps that only touch the game's state, the senders and the rolling state by moves.\<close>

definition cm_moves :: "('p, 'g, 't) ManagerEnv \<Rightarrow> ('p, 'g, 't) ChannelManager \<Rightarrow> ('p, 'g, 't) ChannelManager \<Rightarrow> bool" where
  "cm_moves E cm cm' \<longleftrightarrow>
    (rs_known (me_env E) (me_channelId E) (boardStates cm) \<longrightarrow>
       rs_known (me_env E) (me_channelId E) (boardStates cm')
       \<and> not_older (me_env E) (boardStates cm) (boardStates cm') \<and> rs_frame (boardStates cm) (boardStates cm'))
    \<and> stateVersion cm' = stateVersion cm \<and> cm_exists cm' = cm_exists cm \<and> senders_kept cm cm'
    \<and> map_option (\<lambda>d. d\<lparr>pendingResolution := SetNull\<rparr>) (dispute cm')
      = map_option (\<lambda>d. d\<lparr>pendingResolution := SetNull\<rparr>) (dispute cm)"

lemma cm_moves_refl: "cm_moves E cm cm"
  by (simp add: cm_moves_def not_older_refl rs_frame_refl)

lemma cm_moves_trans: "cm_moves E cm cm' \<Longrightarrow> cm_moves E cm' cm'' \<Longrightarrow> cm_moves E cm cm''"
  using not_older_trans [of "me_env E" "boardStates cm" "boardStates cm'" "boardStates cm''"] senders_kept_trans [of cm cm' cm'']
    rs_frame_trans [of "boardStates cm" "boardStates cm'" "boardStates cm''"]
  by (auto simp: cm_moves_def)

lemma same_dispute:
  "map_option (\<lambda>d. d\<lparr>pendingResolution := SetNull\<rparr>) x = map_option (\<lambda>d. d\<lparr>pendingResolution := SetNull\<rparr>) y
     \<Longrightarrow> x = Some d \<Longrightarrow> \<exists>d'. y = Some d' \<and> dd_count d' = dd_count d"
  by (cases y) (auto dest!: arg_cong [where f = dd_count])

lemma cm_moves_inv: "cm_moves E cm cm' \<Longrightarrow> cm_inv E cm \<Longrightarrow> cm_inv E cm' \<and> cm_progress E cm cm'"
  using rs_frame_current same_dispute
  unfolding cm_moves_def cm_inv_def cm_progress_def by (metis order_refl)

lemma ApplyLocalMove_moves:
  assumes "ApplyLocalMove E mv cm = Some (applied, cm')"
  shows "cm_moves E cm cm' \<and> cm_exists cm \<and> (\<not> applied \<longrightarrow> cm' = cm)"
proof -
  from assms obtain re pf c rs where "cm_exists cm"
    and *: "\<not> applied \<and> cm' = cm
      \<or> UpdateWithMove (me_env E) (me_channelId E) re pf (boardStates cm) = Some (c, rs)
         \<and> cm' = cm\<lparr>boardStates := rs\<rparr> \<and> applied"
    by (fastforce simp: ApplyLocalMove_def split: if_splits sum.splits fail.splits bind_splits)
  from * show ?thesis
  proof (elim disjE conjE)
    assume "UpdateWithMove (me_env E) (me_channelId E) re pf (boardStates cm) = Some (c, rs)"
      "cm' = cm\<lparr>boardStates := rs\<rparr>" applied
    then show ?thesis
      using UpdateWithMove_known \<open>cm_exists cm\<close> by (fastforce simp: cm_moves_def)
  qed (use \<open>cm_exists cm\<close> cm_moves_refl in auto)
qed

lemma auto_loop_moves:
  assumes "ProcessAutoMoves_loop E found cm = Some r"
  shows "cm_moves E cm (snd r)"
proof (rule ProcessAutoMoves_loop.raw_induct [where P = "\<lambda>E found cm r. cm_moves E cm (snd r)", OF _ assms])
  fix loop :: "('a, 'b, 'c) ManagerEnv \<Rightarrow> bool \<Rightarrow> ('a, 'b, 'c) ChannelManager \<Rightarrow> (bool \<times> ('a, 'b, 'c) ChannelManager) option"
  fix E :: "('a, 'b, 'c) ManagerEnv" and found cm r
  assume IH: "\<And>E found cm r. loop E found cm = Some r \<Longrightarrow> cm_moves E cm (snd r)"
  assume step: "do {
     state \<leftarrow> rs_GetLatestState (boardStates cm);
     meta \<leftarrow> rs_GetMetadata (boardStates cm);
     turn \<leftarrow> pWhoseTurn (rules (me_env E)) state;
     if turn = NO_TURN then Some (found, cm)
     else do {
       check (turn \<ge> 0);
       check (turn < int (participants_size meta));
       if get_or [] (participant_name (participants meta ! nat turn)) \<noteq> me_playerName E then Some (found, cm)
       else do {
         (maybe, g) \<leftarrow> MaybeAutoMove (me_game E) state (cm_game cm);
         (case maybe of
            None \<Rightarrow> Some (found, cm\<lparr>cm_game := g\<rparr>)
          | Some mv \<Rightarrow> do {
              (applied, cm) \<leftarrow> ApplyLocalMove E mv (cm\<lparr>cm_game := g\<rparr>);
              check applied;
              loop E True cm }) } }
   } = Some r"
  have game: "cm_moves E cm (cm\<lparr>cm_game := g\<rparr>)" for g
    by (simp add: cm_moves_def not_older_refl rs_frame_refl)
  from step consider "r = (found, cm)" | g where "r = (found, cm\<lparr>cm_game := g\<rparr>)"
    | g mv cm' where "ApplyLocalMove E mv (cm\<lparr>cm_game := g\<rparr>) = Some (True, cm')" "loop E True cm' = Some r"
    by (auto simp: Option.bind_eq_Some_conv split: if_splits option.splits)
  then show "cm_moves E cm (snd r)"
  proof cases
    case (3 g mv cm')
    from IH [OF 3(2)] ApplyLocalMove_moves [OF 3(1)] have "cm_moves E (cm\<lparr>cm_game := g\<rparr>) (snd r)"
      using cm_moves_trans by blast
    with game show ?thesis by (rule cm_moves_trans)
  qed (simp_all add: cm_moves_refl game)
qed

lemma ProcessAutoMoves_moves: "ProcessAutoMoves E cm = Some (found, cm') \<Longrightarrow> cm_moves E cm cm'"
  using auto_loop_moves [of E False cm] by (fastforce simp: ProcessAutoMoves_def)

lemma BroadcastState_moves: "BroadcastState E cm = Some cm' \<Longrightarrow> cm_moves E cm cm'"
  by (auto simp: BroadcastState_def SendNewState_def cm_moves_def not_older_refl rs_frame_refl Option.bind_eq_Some_conv
      intro: senders_kept_update)

text \<open>What the manager does about a dispute.\<close>

lemma TryResolveDispute_cases:
  assumes "TryResolveDispute E cm = Some cm'"
  shows "cm' = cm \<or> (\<exists>d ms pf txid ms'. cm_exists cm \<and> dispute cm = Some d \<and> IsNull (pendingResolution d)
    \<and> onChainSender cm = Some ms \<and> rs_GetStateProof (boardStates cm) = Some pf
    \<and> SendResolution E pf (cm_game cm) ms = Some (txid, ms')
    \<and> (\<exists>n. LatestTurnCount E cm = Some n \<and> dd_count d < n)
    \<and> cm' = cm\<lparr>onChainSender := Some ms', dispute := Some (d\<lparr>pendingResolution := txid\<rparr>)\<rparr>)"
  using assms
  by (auto simp: TryResolveDispute_def Option.bind_eq_Some_conv not_le Let_def split: if_splits option.splits)

lemma TryResolveDispute_moves: "TryResolveDispute E cm = Some cm' \<Longrightarrow> cm_moves E cm cm'"
  using TryResolveDispute_cases [of E cm cm']
  by (auto simp: cm_moves_def not_older_refl rs_frame_refl senders_kept_update)

lemma TryOnChainMove_moves: "TryOnChainMove E cm = Some cm' \<Longrightarrow> cm_moves E cm cm'"
  by (auto simp: TryOnChainMove_def cm_moves_def not_older_refl rs_frame_refl Option.bind_eq_Some_conv senders_kept_update
      split: option.splits)

lemma NotifyStateChange_inv:
  "NotifyStateChange cm = Some cm' \<Longrightarrow> cm_inv E cm \<Longrightarrow>
     cm_inv E cm' \<and> cm_progress E cm cm' \<and> stateVersion cm' = stateVersion cm + 1
     \<and> notifications cm' = notifications cm @ [callbacks cm]"
  by (auto simp: NotifyStateChange_def cm_inv_def cm_progress_def not_older_refl split: if_splits)

lemma ProcessStateUpdate_inv:
  assumes "ProcessStateUpdate E b cm = Some cm'" and inv: "cm_inv E cm"
  shows "cm_inv E cm' \<and> cm_progress E cm cm' \<and> stateVersion cm < stateVersion cm'"
proof -
  from assms(1) obtain found cm1 cm2 cm3 cm4 where s: "ProcessAutoMoves E cm = Some (found, cm1)"
    "(if (if found then True else b) then BroadcastState E cm1 else Some cm1) = Some cm2"
    "TryResolveDispute E cm2 = Some cm3" "TryOnChainMove E cm3 = Some cm4" "NotifyStateChange cm4 = Some cm'"
    by (auto simp: ProcessStateUpdate_def Option.bind_eq_Some_conv Let_def simp del: if_True)
  have "cm_moves E cm cm1" using s(1) by (rule ProcessAutoMoves_moves)
  moreover have "cm_moves E cm1 cm2" using s(2) BroadcastState_moves cm_moves_refl by (auto split: if_splits)
  moreover have "cm_moves E cm2 cm3" using s(3) by (rule TryResolveDispute_moves)
  moreover have "cm_moves E cm3 cm4" using s(4) by (rule TryOnChainMove_moves)
  ultimately have m: "cm_moves E cm cm4" using cm_moves_trans by blast
  note 4 = cm_moves_inv [OF m inv]
  have "stateVersion cm4 = stateVersion cm" using m by (simp add: cm_moves_def)
  with 4 NotifyStateChange_inv [OF s(5), of E] show ?thesis
    using cm_progress_trans by auto
qed

lemma ProcessOffChain_inv:
  assumes "ProcessOffChain E re pf cm = Some cm'" and inv: "cm_inv E cm"
  shows "cm_inv E cm' \<and> cm_progress E cm cm'"
proof -
  from assms(1) obtain changed rs where u: "UpdateWithMove (me_env E) (me_channelId E) re pf (boardStates cm) = Some (changed, rs)"
    and c: "if changed then ProcessStateUpdate E False (cm\<lparr>boardStates := rs\<rparr>) = Some cm' else cm' = cm\<lparr>boardStates := rs\<rparr>"
    by (auto simp: ProcessOffChain_def Option.bind_eq_Some_conv Let_def split: if_splits)
  have "cm_moves E cm (cm\<lparr>boardStates := rs\<rparr>)"
    using UpdateWithMove_known [OF u] by (auto simp: cm_moves_def)
  from cm_moves_inv [OF this inv] c show ?thesis
    using ProcessStateUpdate_inv cm_progress_trans by (metis (full_types))
qed

lemma ProcessOnChainNonExistant_inv:
  assumes "ProcessOnChainNonExistant blk h cm = Some cm'" and "cm_inv E cm"
  shows "cm_inv E cm' \<and> cm_progress E cm cm'"
proof -
  let ?cm = "cm\<lparr>cm_blockHash := blk, onChainHeight := Some h, cm_exists := False,
    offChainSender := map_option (SetParticipants no_participants) (offChainSender cm)\<rparr>"
  have n: "NotifyStateChange ?cm = Some cm'"
    using assms(1) by (simp add: ProcessOnChainNonExistant_def)
  have "cm_inv E ?cm" "cm_progress E cm ?cm"
    using assms(2)
    by (simp_all add: cm_inv_def cm_progress_def not_older_refl senders_kept_def SetParticipants_def option.map_comp comp_def)
  with NotifyStateChange_inv [OF n] show ?thesis using cm_progress_trans by blast
qed

lemma UpdateDispute_cases:
  assumes "UpdateDispute E meta pf h cm = Some cm'"
  shows "\<exists>disp. cm' = cm\<lparr>dispute := disp\<rparr> \<and> (h = 0 \<longrightarrow> disp = None) \<and> (h \<noteq> 0 \<longrightarrow>
    (\<exists>p pending. ParseState (rules (me_env E)) (me_channelId E) meta (UnverifiedProofEndState pf) = Inr p
      \<and> pWhoseTurn (rules (me_env E)) p = Some (dd_turn (the disp))
      \<and> pTurnCount (rules (me_env E)) p = Some (dd_count (the disp))
      \<and> ResetMinedTxid E (onChainSender cm) (case dispute cm of None \<Rightarrow> SetNull | Some d \<Rightarrow> pendingResolution d) = Some pending
      \<and> disp = Some \<lparr>dd_height = h, dd_turn = dd_turn (the disp), dd_count = dd_count (the disp),
          pendingResolution = pending\<rparr>))"
proof (cases "h = 0")
  case False
  with assms obtain p where "ParseState (rules (me_env E)) (me_channelId E) meta (UnverifiedProofEndState pf) = Inr p"
    by (cases "ParseState (rules (me_env E)) (me_channelId E) meta (UnverifiedProofEndState pf)")
      (auto simp: UpdateDispute_def Option.bind_eq_Some_conv)
  with assms False obtain pending t c where "ParseState (rules (me_env E)) (me_channelId E) meta (UnverifiedProofEndState pf) = Inr p"
    "ResetMinedTxid E (onChainSender cm) (case dispute cm of None \<Rightarrow> SetNull | Some d \<Rightarrow> pendingResolution d) = Some pending"
    "pWhoseTurn (rules (me_env E)) p = Some t" "pTurnCount (rules (me_env E)) p = Some c"
    "cm' = cm\<lparr>dispute := Some \<lparr>dd_height = h, dd_turn = t, dd_count = c, pendingResolution = pending\<rparr>\<rparr>"
    by (auto simp: UpdateDispute_def Option.bind_eq_Some_conv)
  with False show ?thesis
    by (intro exI [of _ "Some \<lparr>dd_height = h, dd_turn = t, dd_count = c, pendingResolution = pending\<rparr>"]) auto
qed (use assms in \<open>simp add: UpdateDispute_def\<close>)

lemma ProcessOnChain_inv:
  assumes "ProcessOnChain E blk h meta rstate pf dh cm = Some cm'" and inv: "cm_inv E cm"
  shows "cm_inv E cm' \<and> cm_progress E cm cm'"
proof -
  from assms(1) obtain put disp c rs cm2 where
    u: "UpdateOnChain (me_env E) (me_channelId E) meta rstate pf (boardStates cm) = Some (c, rs)"
    and d: "UpdateDispute E meta pf dh (cm\<lparr>cm_blockHash := blk, onChainHeight := Some h, pendingPutStateOnChain := put,
        pendingDispute := disp, cm_exists := True, boardStates := rs\<rparr>) = Some cm2"
    and s: "ProcessStateUpdate E False (cm2\<lparr>offChainSender := map_option (SetParticipants meta) (offChainSender cm2)\<rparr>) = Some cm'"
    by (auto simp: ProcessOnChain_def Option.bind_eq_Some_conv Let_def)
  obtain dis where cm2: "cm2 = cm\<lparr>cm_blockHash := blk, onChainHeight := Some h, pendingPutStateOnChain := put,
        pendingDispute := disp, cm_exists := True, boardStates := rs, dispute := dis\<rparr>"
    and dis: "dis = None \<or> (\<exists>p. ParseState (rules (me_env E)) (me_channelId E) meta (UnverifiedProofEndState pf) = Inr p
      \<and> pTurnCount (rules (me_env E)) p = Some (dd_count (the dis)))"
    using UpdateDispute_cases [OF d] by (cases "dh = 0") auto
  have inv': "rs_known (me_env E) (me_channelId E) (boardStates cm)" using inv by (simp add: cm_inv_def)
  note k = UpdateOnChain_known [OF u inv']
  let ?cm = "cm2\<lparr>offChainSender := map_option (SetParticipants meta) (offChainSender cm2)\<rparr>"
  have "cm_inv E ?cm" "cm_progress E cm ?cm"
    using k dis inv
    by (auto simp: cm_inv_def cm_progress_def cm2 current_entry_eq senders_kept_def SetParticipants_def)
  with ProcessStateUpdate_inv [OF s] show ?thesis using cm_progress_trans by blast
qed

lemma ProcessLocalMove_inv:
  assumes "ProcessLocalMove E mv cm = Some cm'" and inv: "cm_inv E cm"
  shows "cm_inv E cm' \<and> cm_progress E cm cm'"
proof (cases "cm_exists cm")
  case True
  with assms(1) obtain applied cm1 where a: "ApplyLocalMove E mv cm = Some (applied, cm1)"
    and c: "if applied then ProcessStateUpdate E True cm1 = Some cm' else cm' = cm1"
    by (auto simp: ProcessLocalMove_def Option.bind_eq_Some_conv split: if_splits)
  from ApplyLocalMove_moves [OF a] have "cm_moves E cm cm1" by simp
  from cm_moves_inv [OF this inv] c show ?thesis
    using ProcessStateUpdate_inv cm_progress_trans by (metis (full_types))
qed (use assms in \<open>simp add: ProcessLocalMove_def cm_progress_refl\<close>)

lemma TriggerAutoMoves_inv:
  assumes "TriggerAutoMoves E cm = Some cm'" and inv: "cm_inv E cm"
  shows "cm_inv E cm' \<and> cm_progress E cm cm'"
proof (cases "cm_exists cm")
  case True
  with assms(1) obtain found cm1 where a: "ProcessAutoMoves E cm = Some (found, cm1)"
    and c: "if found then ProcessStateUpdate E True cm1 = Some cm' else cm' = cm1"
    by (auto simp: TriggerAutoMoves_def Option.bind_eq_Some_conv split: if_splits)
  from cm_moves_inv [OF ProcessAutoMoves_moves [OF a] inv] c show ?thesis
    using ProcessStateUpdate_inv cm_progress_trans by (metis (full_types))
qed (use assms in \<open>simp add: TriggerAutoMoves_def cm_progress_refl\<close>)

lemma PutStateOnChain_inv:
  assumes "PutStateOnChain E cm = Some (txid, cm')" and "cm_inv E cm"
  shows "cm_inv E cm' \<and> cm_progress E cm cm'"
  using assms
  by (auto simp: PutStateOnChain_def Option.bind_eq_Some_conv cm_inv_def cm_progress_def not_older_refl senders_kept_update
      split: if_splits)

lemma FileDispute_inv:
  assumes "FileDispute E cm = Some (txid, cm')" and "cm_inv E cm"
  shows "cm_inv E cm' \<and> cm_progress E cm cm'"
  using assms
  by (auto simp: FileDispute_def Option.bind_eq_Some_conv cm_inv_def cm_progress_def not_older_refl senders_kept_update
      split: if_splits)

section \<open>Sequences of operations\<close>

text \<open>
  The operations of the manager in any order.  In between, the daemon's setup may connect senders and
  callbacks, the user may change the state of the game's part, and the state of the wallet may change.
\<close>

inductive cm_step :: "('p, 'g, 't) ManagerEnv \<Rightarrow> ('p, 'g, 't) ChannelManager \<Rightarrow> ('p, 'g, 't) ChannelManager \<Rightarrow> bool"
  for E where
  off_chain: "ProcessOffChain E re pf cm = Some cm' \<Longrightarrow> cm_step E cm cm'"
| non_existant: "ProcessOnChainNonExistant blk h cm = Some cm' \<Longrightarrow> cm_step E cm cm'"
| on_chain: "ProcessOnChain E blk h meta rstate pf dh cm = Some cm' \<Longrightarrow> cm_step E cm cm'"
| local_move: "ProcessLocalMove E mv cm = Some cm' \<Longrightarrow> cm_step E cm cm'"
| trigger: "TriggerAutoMoves E cm = Some cm' \<Longrightarrow> cm_step E cm cm'"
| put_state: "PutStateOnChain E cm = Some (txid, cm') \<Longrightarrow> cm_step E cm cm'"
| file_dispute: "FileDispute E cm = Some (txid, cm') \<Longrightarrow> cm_step E cm cm'"
| set_broadcast: "SetOffChainBroadcast bc cm = Some cm' \<Longrightarrow> cm_step E cm cm'"
| set_sender: "SetMoveSender ms cm = Some cm' \<Longrightarrow> cm_step E cm cm'"
| register: "cm_step E cm (RegisterCallback cb cm)"
| unregister: "cm_step E cm (UnregisterCallback cb cm)"
| game: "cm_step E cm (cm\<lparr>cm_game := g\<rparr>)"
| wallet: "onChainSender cm = Some ms \<Longrightarrow> cm_step E cm (cm\<lparr>onChainSender := Some (ms\<lparr>ms_sender := t\<rparr>)\<rparr>)"

lemma new_ChannelManager_inv: "cm_inv E (new_ChannelManager g)"
  using new_RollingState_inv [of "me_env E" "me_channelId E"]
  by (simp add: cm_inv_def new_ChannelManager_def rs_known_def) (simp add: new_RollingState_def)

lemma cm_step_inv:
  assumes "cm_step E cm cm'" and "cm_inv E cm"
  shows "cm_inv E cm' \<and> cm_progress E cm cm'"
  using assms
proof cases
  case (set_broadcast bc)
  with assms(2) show ?thesis
    by (auto simp: SetOffChainBroadcast_def cm_inv_def cm_progress_def not_older_refl senders_kept_def split: if_splits)
next
  case (set_sender ms)
  with assms(2) show ?thesis
    by (auto simp: SetMoveSender_def cm_inv_def cm_progress_def not_older_refl senders_kept_def split: if_splits)
next
  case (register cb)
  with assms(2) show ?thesis by (simp add: RegisterCallback_def cm_inv_def cm_progress_def not_older_refl)
next
  case (unregister cb)
  with assms(2) show ?thesis by (simp add: UnregisterCallback_def cm_inv_def cm_progress_def not_older_refl)
next
  case (game g)
  with assms(2) show ?thesis by (simp add: cm_inv_def cm_progress_def not_older_refl)
next
  case (wallet ms t)
  with assms(2) show ?thesis by (simp add: cm_inv_def cm_progress_def not_older_refl senders_kept_def)
next
  case (off_chain re pf)
  then show ?thesis using assms(2) by (rule ProcessOffChain_inv)
next
  case (non_existant blk h)
  then show ?thesis using assms(2) by (rule ProcessOnChainNonExistant_inv)
next
  case (on_chain blk h meta rstate pf dh)
  then show ?thesis using assms(2) by (rule ProcessOnChain_inv)
next
  case (local_move mv)
  then show ?thesis using assms(2) by (rule ProcessLocalMove_inv)
next
  case trigger
  then show ?thesis using assms(2) by (rule TriggerAutoMoves_inv)
next
  case (put_state txid)
  then show ?thesis using assms(2) by (rule PutStateOnChain_inv)
next
  case (file_dispute txid)
  then show ?thesis using assms(2) by (rule FileDispute_inv)
qed

lemma cm_steps_inv:
  assumes "(cm_step E)\<^sup>*\<^sup>* cm cm'" and "cm_inv E cm"
  shows "cm_inv E cm' \<and> cm_progress E cm cm'"
  using assms
proof induction
  case base
  then show ?case by (simp add: cm_progress_refl)
next
  case (step cm1 cm2)
  then show ?case using cm_step_inv [of E cm1 cm2] cm_progress_trans by blast
qed

end
