(* ===== verification/ManagerProps.thy ===== *)
theory ManagerProps
  imports ManagerInv
begin

text \<open>
  What a channel manager knows and sends is what the chain accepts: the proof of its best state as a
  resolution or as a dispute.
\<close>

section \<open>Accepted on chain\<close>

text \<open>A channel on chain that a proof of the manager is for.\<close>

definition channel_for :: "uint256 \<Rightarrow> 'p ReinitData \<Rightarrow> ChannelData \<Rightarrow> bool" where
  "channel_for i e ch \<longleftrightarrow> initialised ch \<and> cd_id ch = i \<and> cd_metadata ch = rd_meta e \<and> cd_reinit ch = reinitState e"

lemma entry_proof:
  assumes "rs_known env i rs" and "map_of (reinits rs) re = Some e" and "pTurnCount (rules env) (latestState e) = Some n"
    and "channel_for i e ch"
  shows "proven_state env ch (rd_proof e) = Some (Some (UnverifiedProofEndState (rd_proof e)))"
    "parse_checked env ch (UnverifiedProofEndState (rd_proof e)) = Some (latestState e)"
    "CheckVersionedProto env (cd_metadata ch) (rd_proof e)"
    "channel_turn env (ch\<lparr>cd_proof := rd_proof e\<rparr>) = Some n"
proof -
  obtain s where s: "VerifyStateProof env i (rd_meta e) (reinitState e) (rd_proof e) = Inr s"
    "ParseState (rules env) i (rd_meta e) s = Inr (latestState e)"
    using rs_knownD(1) [OF assms(1,2)] assms(2) by (fastforce simp: rs_inv_def RollingState.entry_ok_def)
  then have "s = UnverifiedProofEndState (rd_proof e)" by (simp add: VerifyStateProof_iff)
  with s assms(4) show "proven_state env ch (rd_proof e) = Some (Some (UnverifiedProofEndState (rd_proof e)))"
    and p: "parse_checked env ch (UnverifiedProofEndState (rd_proof e)) = Some (latestState e)"
    by (auto simp: proven_state_Some channel_for_def parse_checked_def)
  show "CheckVersionedProto env (cd_metadata ch) (rd_proof e)"
    using rs_knownD(2) [OF assms(1,2)] assms(4) by (simp add: channel_for_def)
  show "channel_turn env (ch\<lparr>cd_proof := rd_proof e\<rparr>) = Some n"
    using p assms(3,4) by (simp add: channel_turn_def GetLatestState_def channel_for_def parse_checked_def)
qed

lemma channel_turn_parts:
  assumes "channel_turn env ch = Some c"
  obtains s p where "GetLatestState ch = Some s" "parse_checked env ch s = Some p" "pTurnCount (rules env) p = Some c"
  using assms by (auto simp: channel_turn_def Option.bind_eq_Some_conv)

lemma resolution_ok:
  assumes k: "rs_known env i rs" "map_of (reinits rs) re = Some e" "pTurnCount (rules env) (latestState e) = Some n"
    and ch: "channel_for i e ch" and c: "channel_turn env ch = Some c" "c < n"
  shows "ProcessResolution env ch (rd_proof e) = Some (True, ch\<lparr>cd_proof := rd_proof e, dirty := True, disputeHeight := 0\<rparr>)"
proof -
  note p = entry_proof [OF k ch]
  obtain s q where "GetLatestState ch = Some s" "parse_checked env ch s = Some q" "pTurnCount (rules env) q = Some c"
    using c(1) by (rule channel_turn_parts)
  then show ?thesis
    using p k(3) c(2) ch
    by (simp add: ProcessResolution_def SetStateProof_def ClearDispute_def channel_for_def not_le [symmetric])
qed

lemma dispute_ok:
  assumes k: "rs_known env i rs" "map_of (reinits rs) re = Some e" "pTurnCount (rules env) (latestState e) = Some n"
    and ch: "channel_for i e ch" and c: "channel_turn env ch = Some c" "c < n"
    and t: "pWhoseTurn (rules env) (latestState e) = Some t" "t \<noteq> NO_TURN"
    and h: "0 < height" "disputeHeight ch \<le> height"
  shows "ProcessDispute env ch height (rd_proof e)
    = Some (True, ch\<lparr>cd_proof := rd_proof e, dirty := True, disputeHeight := height\<rparr>)"
proof -
  note p = entry_proof [OF k ch]
  obtain s q where "GetLatestState ch = Some s" "parse_checked env ch s = Some q" "pTurnCount (rules env) q = Some c"
    using c(1) by (rule channel_turn_parts)
  moreover have "(if HasDispute ch then do { h \<leftarrow> GetDisputeHeight ch; check (height \<ge> h) } else Some ()) = Some ()"
    using h(2) by (simp add: HasDispute_def GetDisputeHeight_def check_def)
  ultimately show ?thesis
    using p k(3) c(2) ch t h(1)
    by (simp add: ProcessDispute_def SetStateProof_def SetDisputeHeight_def channel_for_def)
qed

text \<open>What is known in a state that satisfies the invariant.\<close>

lemma known_current:
  assumes inv: "cm_inv E cm" and "cm_exists cm"
  shows "\<exists>e n. current_entry (boardStates cm) = Some e
         \<and> VerifyStateProof (me_env E) (me_channelId E) (rd_meta e) (reinitState e) (rd_proof e)
             = Inr (UnverifiedProofEndState (rd_proof e))
         \<and> ParseState (rules (me_env E)) (me_channelId E) (rd_meta e) (UnverifiedProofEndState (rd_proof e))
             = Inr (latestState e)
         \<and> CheckVersionedProto (me_env E) (rd_meta e) (rd_proof e)
         \<and> LatestTurnCount E cm = Some n \<and> onChainTurn e \<le> n
         \<and> (\<forall>d. dispute cm = Some d \<longrightarrow> dd_count d \<le> n)"
proof -
  obtain e where e: "current_entry (boardStates cm) = Some e"
    and d: "\<forall>d. dispute cm = Some d \<longrightarrow> dd_count d \<le> onChainTurn e"
    using assms by (auto simp: cm_inv_def)
  have rs: "rs_known (me_env E) (me_channelId E) (boardStates cm)" using inv by (simp add: cm_inv_def)
  note m = e [unfolded current_entry_eq]
  obtain n where n: "pTurnCount (rules (me_env E)) (latestState e) = Some n" using rs_knownD(4) [OF rs m] ..
  have "RollingState.entry_ok (me_env E) (me_channelId E) e"
    using rs_knownD(1) [OF rs m] m by (auto simp: rs_inv_def)
  then have "VerifyStateProof (me_env E) (me_channelId E) (rd_meta e) (reinitState e) (rd_proof e)
           = Inr (UnverifiedProofEndState (rd_proof e))
       \<and> ParseState (rules (me_env E)) (me_channelId E) (rd_meta e) (UnverifiedProofEndState (rd_proof e))
           = Inr (latestState e)"
    by (auto simp: RollingState.entry_ok_def VerifyStateProof_iff)
  moreover have "LatestTurnCount E cm = Some n"
    using e n by (simp add: LatestTurnCount_def rs_GetLatestState_def)
  ultimately show ?thesis
    using e d rs_knownD(2) [OF rs m] rs_knownD(3) [OF rs m n] by fastforce
qed

text \<open>Putting the state on chain never fails its check that the chain is not ahead.\<close>

lemma put_state_not_ahead:
  assumes "cm_inv E cm" and "cm_exists cm"
  shows "\<exists>n m. LatestTurnCount E cm = Some n \<and> GetOnChainTurnCount (boardStates cm) = Some m \<and> m \<le> n"
  using known_current [OF assms] by (auto simp: GetOnChainTurnCount_def)

end
