(* ===== verification/ShipsClient.thy ===== *)
theory ShipsClient
  imports Broadcast ShipsJson
begin

text \<open>
  The ships-specific part of a channel daemon (\<open>ships/channel.cpp\<close>): the player's position, the secrets of
  the commitments, and the automatic moves.  The random generator, the hash function and the
  serialisation of messages are parameters.
\<close>

section \<open>State\<close>

record 'r ShipsChannel =
  sc_rnd :: 'r
  sc_position :: u64
  sc_positionSalt :: uint256
  sc_seed0 :: uint256
  sc_txidClose :: uint256

record ('r, 't) ShipsEnv =
  se_sha :: "byte list \<Rightarrow> uint256"
  se_random :: "'r \<Rightarrow> uint256 \<times> 'r"
  se_ser_move :: "BoardMove \<Rightarrow> byte list option"
  se_ser_proof :: "StateProof \<Rightarrow> byte list option"
  se_evp_enc :: "byte list \<Rightarrow> string"
  se_send :: "'t SenderEnv"
  se_channelId :: uint256
  se_playerName :: string

text \<open>The salt and the seed have no defined value at first; they are arguments.\<close>

definition new_ShipsChannel :: "'r \<Rightarrow> uint256 \<Rightarrow> uint256 \<Rightarrow> 'r ShipsChannel" where
  "new_ShipsChannel r undefinedSalt undefinedSeed =
    \<lparr>sc_rnd = r, sc_position = 0, sc_positionSalt = undefinedSalt, sc_seed0 = undefinedSeed,
     sc_txidClose = SetNull\<rparr>"

section \<open>The position\<close>

definition IsPositionSet :: "'r ShipsChannel \<Rightarrow> bool" where
  "IsPositionSet sc \<longleftrightarrow> sc_position sc \<noteq> 0"

definition GetPosition :: "'r ShipsChannel \<Rightarrow> u64 option" where
  "GetPosition sc = do { check (IsPositionSet sc); Some (sc_position sc) }"

definition SetPosition :: "('r, 't) ShipsEnv \<Rightarrow> u64 \<Rightarrow> 'r ShipsChannel \<Rightarrow> 'r ShipsChannel option" where
  "SetPosition E g sc = do {
     check (\<not> IsPositionSet sc);
     ok \<leftarrow> VerifyPositionOfShips g;
     if \<not> ok then Some sc
     else do {
       let sc = sc\<lparr>sc_position := g\<rparr>;
       let (salt, r) = se_random E (sc_rnd sc);
       let sc = sc\<lparr>sc_positionSalt := salt, sc_rnd := r\<rparr>;
       check (IsPositionSet sc);
       Some sc }
   }"

section \<open>Moves\<close>

definition GetShotMove :: "coord \<Rightarrow> BoardMove option" where
  "GetShotMove c = do {
     check (IsOnBoard c);
     ind \<leftarrow> GetIndex c;
     Some (kShot \<lparr>location = Some (of_int ind)\<rparr>)
   }"

definition GetPositionRevealMove :: "'r ShipsChannel \<Rightarrow> BoardMove option" where
  "GetPositionRevealMove sc = do {
     check (IsPositionSet sc);
     Some (kPositionReveal \<lparr>position = Some (sc_position sc), salt = Some (GetBinaryString (sc_positionSalt sc))\<rparr>)
   }"

fun index_of_player :: "string \<Rightarrow> nat \<Rightarrow> ChannelParticipant list \<Rightarrow> int \<Rightarrow> int option" where
  "index_of_player name i [] res = Some res"
| "index_of_player name i (p # ps) res =
    (if get_or [] (participant_name p) = name then do {
       check (res = - 1);
       index_of_player name (i + 1) ps (int i) }
     else index_of_player name (i + 1) ps res)"

definition GetPlayerIndex :: "('r, 't) ShipsEnv \<Rightarrow> ShipsBoardState \<Rightarrow> int option" where
  "GetPlayerIndex E state = do {
     res \<leftarrow> index_of_player (se_playerName E) 0 (participants (GetMetadata state)) (- 1);
     check (res \<ge> 0);
     check (res \<le> 1);
     Some res
   }"

text \<open>The commitment to the position, if there is one, with no seed or seed hash yet.\<close>

definition AutoPositionCommitment ::
    "('r, 't) ShipsEnv \<Rightarrow> 'r ShipsChannel \<Rightarrow> PositionCommitmentMove option option" where
  "AutoPositionCommitment E sc =
    (if \<not> IsPositionSet sc then Some None
     else do {
       blob \<leftarrow> Blob (sc_position sc);
       let hashStr = GetBinaryString (se_sha E (blob @ GetBinaryString (sc_positionSalt sc)));
       Some (Some \<lparr>position_hash = Some hashStr, seed_hash = None, pc_seed = None\<rparr>) })"

definition InternalAutoMove ::
    "('r, 't) ShipsEnv \<Rightarrow> ShipsBoardState \<Rightarrow> 'r ShipsChannel \<Rightarrow> (BoardMove option \<times> 'r ShipsChannel) option" where
  "InternalAutoMove E state sc = do {
     let pb = GetState state;
     index \<leftarrow> GetPlayerIndex E state;
     check (index = sint (get_or 0 (turn pb)));
     (case GetPhase pb of
        FIRST_COMMITMENT \<Rightarrow> do {
          check (index = 0);
          mv \<leftarrow> AutoPositionCommitment E sc;
          (case mv of
             None \<Rightarrow> Some (None, sc)
           | Some mv \<Rightarrow> do {
               let (seed, r) = se_random E (sc_rnd sc);
               let sc = sc\<lparr>sc_seed0 := seed, sc_rnd := r\<rparr>;
               let seedHash = GetBinaryString (se_sha E (GetBinaryString (sc_seed0 sc)));
               Some (Some (kPositionCommitment (mv\<lparr>seed_hash := Some seedHash\<rparr>)), sc) }) }
      | SECOND_COMMITMENT \<Rightarrow> do {
          check (index = 1);
          mv \<leftarrow> AutoPositionCommitment E sc;
          (case mv of
             None \<Rightarrow> Some (None, sc)
           | Some mv \<Rightarrow> do {
               let (seed1, r) = se_random E (sc_rnd sc);
               Some (Some (kPositionCommitment (mv\<lparr>pc_seed := Some (GetBinaryString seed1)\<rparr>)), sc\<lparr>sc_rnd := r\<rparr>) }) }
      | FIRST_REVEAL_SEED \<Rightarrow> do {
          check (index = 0);
          Some (Some (kSeedReveal \<lparr>sr_seed = Some (GetBinaryString (sc_seed0 sc))\<rparr>), sc) }
      | SHOOT \<Rightarrow> do {
          let other = 1 - index;
          check (other \<ge> 0);
          check (other \<le> 1);
          ks \<leftarrow> nth_opt (known_ships pb) (nat other);
          if CountOnes (get_or 0 (hits ks)) \<ge> TotalShipCells then do {
            mv \<leftarrow> GetPositionRevealMove sc;
            Some (Some mv, sc) }
          else Some (None, sc) }
      | ANSWER \<Rightarrow> do {
          check (IsPositionSet sc);
          let target = coord_of_index (sint (get_or 0 (current_shot pb)));
          check (IsOnBoard target);
          hit \<leftarrow> Get (sc_position sc) target;
          Some (Some (kReply \<lparr>reply = Some (if hit then HIT else MISS)\<rparr>), sc) }
      | SECOND_REVEAL_POSITION \<Rightarrow> do {
          mv \<leftarrow> GetPositionRevealMove sc;
          Some (Some mv, sc) }
      | FINISHED \<Rightarrow> None
      | INVALID \<Rightarrow> None)
   }"

definition ships_MaybeAutoMove ::
    "('r, 't) ShipsEnv \<Rightarrow> ShipsBoardState \<Rightarrow> 'r ShipsChannel \<Rightarrow> (byte list option \<times> 'r ShipsChannel) option" where
  "ships_MaybeAutoMove E state sc = do {
     (mv, sc) \<leftarrow> InternalAutoMove E state sc;
     (case mv of
        None \<Rightarrow> Some (None, sc)
      | Some mvPb \<Rightarrow> do { serialised \<leftarrow> se_ser_move E mvPb; Some (Some serialised, sc) })
   }"

section \<open>Moves on chain\<close>

definition DisputeResolutionMove ::
    "('r, 't) ShipsEnv \<Rightarrow> string \<Rightarrow> uint256 \<Rightarrow> StateProof \<Rightarrow> json option" where
  "DisputeResolutionMove E type channelId p = do {
     state \<leftarrow> ProtoToBase64 (se_evp_enc E) (se_ser_proof E) p;
     let dat = json_obj [(''id'', JString (ToHex channelId)), (''state'', JString state)];
     Some (json_obj [(type, dat)])
   }"

definition ships_ResolutionMove :: "('r, 't) ShipsEnv \<Rightarrow> uint256 \<Rightarrow> StateProof \<Rightarrow> 'r ShipsChannel \<Rightarrow> json option" where
  "ships_ResolutionMove E channelId p sc = DisputeResolutionMove E ''r'' channelId p"

definition ships_DisputeMove :: "('r, 't) ShipsEnv \<Rightarrow> uint256 \<Rightarrow> StateProof \<Rightarrow> 'r ShipsChannel \<Rightarrow> json option" where
  "ships_DisputeMove E channelId p sc = DisputeResolutionMove E ''d'' channelId p"

definition ships_MaybeOnChainMove ::
    "('r, 't) ShipsEnv \<Rightarrow> ShipsBoardState \<Rightarrow> 'r ShipsChannel \<Rightarrow> 't MoveSender
       \<Rightarrow> ('r ShipsChannel \<times> 't MoveSender) option" where
  "ships_MaybeOnChainMove E state sc ms =
    (let meta = GetMetadata state; statePb = GetState state in
     if GetPhase statePb \<noteq> FINISHED then Some (sc, ms)
     else do {
       w \<leftarrow> winner statePb;
       let loser = sint (1 - w);
       check (loser \<ge> 0);
       check (loser < int (participants_size meta));
       if get_or [] (participant_name (participants meta ! nat loser)) \<noteq> se_playerName E then Some (sc, ms)
       else do {
         pending \<leftarrow> (if IsNull (sc_txidClose sc) then Some False else ms_IsPending (se_send E) (sc_txidClose sc) ms);
         if pending then Some (sc, ms)
         else do {
           re \<leftarrow> Base64.EncodeBase64 (se_evp_enc E) (get_or [] (reinit meta));
           let dat = json_obj [(''id'', JString (ToHex (se_channelId E))), (''r'', JString re)];
           let mv = json_obj [(''l'', dat)];
           (txid, ms) \<leftarrow> SendMove (se_send E) mv ms;
           Some (sc\<lparr>sc_txidClose := txid\<rparr>, ms) } } })"

section \<open>An instance\<close>

text \<open>
  A codec for moves as for states (the number of a move, in unary), and the daemon of the first player of
  the concrete game, whose random generator always returns the same value.
\<close>

type_synonym move_tuple =
  "nat \<times> byte list option \<times> byte list option \<times> byte list option \<times> u32 option \<times> nat option \<times> u64 option"

fun move_tuple :: "BoardMove \<Rightarrow> move_tuple" where
  "move_tuple (kPositionCommitment m) = (0, position_hash m, seed_hash m, pc_seed m, None, None, None)"
| "move_tuple (kSeedReveal m) = (1, sr_seed m, None, None, None, None, None)"
| "move_tuple (kShot m) = (2, None, None, None, location m, None, None)"
| "move_tuple (kReply m) = (3, None, None, None, None,
     map_option (\<lambda>r. case r of REPLY_INVALID \<Rightarrow> 0 | HIT \<Rightarrow> 1 | MISS \<Rightarrow> 2) (reply m), None)"
| "move_tuple (kPositionReveal m) = (4, salt m, None, None, None, None, position m)"
| "move_tuple MOVE_NOT_SET = (5, None, None, None, None, None, None)"

definition tuple_move :: "move_tuple \<Rightarrow> BoardMove" where
  "tuple_move = (\<lambda>(n, a, b, c, l, r, g).
     if n = 0 then kPositionCommitment \<lparr>position_hash = a, seed_hash = b, pc_seed = c\<rparr>
     else if n = 1 then kSeedReveal \<lparr>sr_seed = a\<rparr>
     else if n = 2 then kShot \<lparr>location = l\<rparr>
     else if n = 3 then kReply \<lparr>reply = map_option (\<lambda>k. if k = 0 then REPLY_INVALID else if k = 1 then HIT else MISS) r\<rparr>
     else if n = 4 then kPositionReveal \<lparr>position = g, salt = a\<rparr>
     else MOVE_NOT_SET)"

lemma tuple_move_tuple: "tuple_move (move_tuple mv) = mv"
proof (cases mv rule: move_tuple.cases)
  case (4 m)
  obtain r where m: "m = \<lparr>reply = r\<rparr>" by (cases m)
  show ?thesis
  proof (cases r)
    case (Some x)
    then show ?thesis by (cases x) (simp_all add: 4 m tuple_move_def)
  qed (simp add: 4 m tuple_move_def)
qed (simp_all add: tuple_move_def)

definition demo_ser_move :: "BoardMove \<Rightarrow> byte list option" where
  "demo_ser_move mv = Some (replicate (to_nat (move_tuple mv)) 0)"

definition move_codec :: "(BoardState, BoardMove) Codec" where
  "move_codec = demo_codec\<lparr>parse_move := (\<lambda>bs. Some (tuple_move (from_nat (length bs)), False))\<rparr>"

lemma move_codec_ok: "codec_ok move_codec"
  using demo_codec_ok by (simp add: codec_ok_def move_codec_def)

lemma demo_ser_move: "\<exists>bs. demo_ser_move mv = Some bs \<and> parse_move move_codec bs = Some (mv, False)"
  by (simp add: demo_ser_move_def move_codec_def tuple_move_tuple)

definition demo_sender_env :: "unit SenderEnv" where
  "demo_sender_env =
    \<lparr>tx = \<lparr>SendRawMove = (\<lambda>name val t. Some (Some SetNull, t)), tx_IsPending = (\<lambda>txid t. Some False)\<rparr>,
     writeString = (\<lambda>j. [])\<rparr>"

definition demo_ships_env :: "(unit, unit) ShipsEnv" where
  "demo_ships_env =
    \<lparr>se_sha = demo_sha, se_random = (\<lambda>r. (demo_sha [], r)), se_ser_move = demo_ser_move, se_ser_proof = (\<lambda>p. Some []),
     se_evp_enc = b64_encode, se_send = demo_sender_env, se_channelId = SetNull, se_playerName = ''foo''\<rparr>"

definition demo_ships :: "unit ShipsChannel" where
  "demo_ships = (new_ShipsChannel () SetNull SetNull)
    \<lparr>sc_position := 4223116791447603, sc_positionSalt := demo_sha [], sc_seed0 := SetNull\<rparr>"

definition demo_committed :: "unit ShipsChannel" where
  "demo_committed = demo_ships\<lparr>sc_seed0 := demo_sha []\<rparr>"

lemma demo_set_position: "SetPosition demo_ships_env 4223116791447603 (new_ShipsChannel () SetNull SetNull) = Some demo_ships"
proof -
  have "VerifyPositionOfShips 4223116791447603 = Some True" by code_simp
  then show ?thesis
    by (simp add: SetPosition_def demo_ships_def new_ShipsChannel_def IsPositionSet_def demo_ships_env_def)
qed

end
