(* ===== verification/ShipsPlay.thy ===== *)
theory ShipsPlay
  imports ShipsClient
begin

text \<open>
  Games that a player plays with the ships channel daemon against any opponent: the automatic moves are
  always valid, and they are the moves of an honest player.
\<close>

section \<open>The player's state and the board\<close>

text \<open>The player with index \<open>p\<close> is ours and the other one is not; the random values have 32 bytes.\<close>

definition plays :: "('r, 't) ShipsEnv \<Rightarrow> ChannelMetadata \<Rightarrow> u32 \<Rightarrow> bool" where
  "plays E meta p \<longleftrightarrow> (p = 0 \<or> p = 1) \<and> participants_size meta = 2 \<and> sha_ok (se_sha E)
     \<and> (\<forall>r. uint256_wf (fst (se_random E r)))
     \<and> get_or [] (participant_name (participants meta ! unat p)) = se_playerName E
     \<and> get_or [] (participant_name (participants meta ! unat (1 - p))) \<noteq> se_playerName E"

lemma playsD:
  assumes "plays E meta p"
  shows "p = 0 \<or> p = 1" "participants_size meta = 2" "sha_ok (se_sha E)" "uint256_wf (fst (se_random E r))"
  using assms by (simp_all add: plays_def)

lemma our_index:
  assumes "plays E meta p"
  shows "GetPlayerIndex E \<lparr>GetMetadata = meta, GetState = pb\<rparr> = Some (int (unat p))"
proof -
  have "length (participants meta) = 2" using assms by (simp add: plays_def participants_size_def)
  then obtain p0 p1 where "participants meta = [p0, p1]" by (rule list_2E)
  with assms show ?thesis
    by (auto simp: GetPlayerIndex_def plays_def)
qed

definition our_hash :: "('r, 't) ShipsEnv \<Rightarrow> 'r ShipsChannel \<Rightarrow> byte list" where
  "our_hash E sc = GetBinaryString (se_sha E (the (Blob (sc_position sc)) @ GetBinaryString (sc_positionSalt sc)))"

definition secrets_ok :: "('r, 't) ShipsEnv \<Rightarrow> u32 \<Rightarrow> 'r ShipsChannel \<Rightarrow> BoardState \<Rightarrow> bool" where
  "secrets_ok E p sc pb \<longleftrightarrow>
     (unat p < length (position_hashes pb) \<longrightarrow>
        IsPositionSet sc \<and> position_hashes pb ! unat p = our_hash E sc)
     \<and> (p = 0 \<and> (GetPhase pb = SECOND_COMMITMENT \<or> GetPhase pb = FIRST_REVEAL_SEED) \<longrightarrow>
          uint256_wf (sc_seed0 sc)
          \<and> seed_hash_0 pb = Some (GetBinaryString (se_sha E (GetBinaryString (sc_seed0 sc)))))"

definition client_inv :: "('r, 't) ShipsEnv \<Rightarrow> u32 \<Rightarrow> 'r ShipsChannel \<Rightarrow> BoardState \<Rightarrow> bool" where
  "client_inv E p sc pb \<longleftrightarrow> board_wf pb
     \<and> (IsPositionSet sc \<longrightarrow> VerifyPositionOfShips (sc_position sc) = Some True
          \<and> uint256_wf (sc_positionSalt sc) \<and> truthful (sc_position sc) p pb \<and> fair (sc_position sc) p pb)
     \<and> (if GetPhase pb = FINISHED then IsPositionSet sc else secrets_ok E p sc pb)"

lemma client_initial: "client_inv E p (new_ShipsChannel r s0 s1) InitialBoardState"
proof -
  have "GetPhase InitialBoardState = FIRST_COMMITMENT" "position_hashes InitialBoardState = []"
    by (simp_all add: GetPhase_def InitialBoardState_def)
  then show ?thesis
    using initial_wf by (simp add: client_inv_def secrets_ok_def new_ShipsChannel_def IsPositionSet_def)
qed

text \<open>Before both players have committed, the position is compatible with the board.\<close>

lemma uncommitted_fair:
  assumes "board_wf pb" and "GetPhase pb = FIRST_COMMITMENT \<or> GetPhase pb = SECOND_COMMITMENT \<or> GetPhase pb = FIRST_REVEAL_SEED"
  shows "truthful g p pb \<and> fair g p pb"
  using before_play_wf [OF assms] assms(2)
  by (auto simp: truthful_def before_play_def intro: fair_playing)

lemma position_unset:
  assumes "client_inv E p sc pb" and "\<not> IsPositionSet sc" and "p = 0 \<or> p = 1"
  shows "GetPhase pb = FIRST_COMMITMENT \<or> GetPhase pb = SECOND_COMMITMENT \<and> p = 1"
proof -
  have wf: "board_wf pb" and nf: "GetPhase pb \<noteq> FINISHED" and l: "\<not> unat p < length (position_hashes pb)"
    using assms by (auto simp: client_inv_def secrets_ok_def split: if_splits)
  from assms(3) l have "length (position_hashes pb) \<le> 1" by auto
  moreover have "length (position_hashes pb) = 0 \<Longrightarrow> GetPhase pb = FIRST_COMMITMENT"
    "length (position_hashes pb) = 1 \<Longrightarrow> GetPhase pb = SECOND_COMMITMENT"
    using nf phase_conv(1-3) [of pb] by auto
  ultimately show ?thesis using l assms(3) by (auto simp: le_Suc_eq)
qed

lemma SetPosition_inv:
  assumes pl: "plays E meta p" and "client_inv E p sc pb" and "SetPosition E g sc = Some sc'"
  shows "client_inv E p sc' pb"
proof (cases "VerifyPositionOfShips g = Some True")
  case True
  obtain salt r where r: "se_random E (sc_rnd sc) = (salt, r)" by (cases "se_random E (sc_rnd sc)")
  then have "uint256_wf salt" using playsD(4) [OF pl, of "sc_rnd sc"] by simp
  moreover have s: "\<not> IsPositionSet sc" "sc' = sc\<lparr>sc_position := g, sc_positionSalt := salt, sc_rnd := r\<rparr>" "IsPositionSet sc'"
    using assms(3) True r by (auto simp: SetPosition_def Let_def IsPositionSet_def split: if_splits)
  moreover note ph = position_unset [OF assms(2) s(1) playsD(1) [OF pl]]
  moreover have "board_wf pb" using assms(2) by (simp add: client_inv_def)
  moreover from this ph have "truthful g p pb \<and> fair g p pb" by (intro uncommitted_fair) auto
  ultimately show ?thesis
    using assms(2) True by (auto simp: client_inv_def secrets_ok_def)
next
  case False
  with assms show ?thesis
    by (auto simp: SetPosition_def VerifyPositionOfShips_eq split: if_splits)
qed

section \<open>Accepted moves and the secrets\<close>

text \<open>A move of the other player, or a move that is no commitment and no reveal, keeps the commitment.\<close>

definition keeps_hash :: "u32 \<Rightarrow> BoardState \<Rightarrow> BoardState \<Rightarrow> bool" where
  "keeps_hash p pb pb' \<longleftrightarrow>
     (unat p < length (position_hashes pb') \<longrightarrow> unat p < length (position_hashes pb)
        \<and> position_hashes pb' ! unat p = position_hashes pb ! unat p)
     \<and> (p = 0 \<and> (GetPhase pb' = SECOND_COMMITMENT \<or> GetPhase pb' = FIRST_REVEAL_SEED) \<longrightarrow>
          seed_hash_0 pb' = seed_hash_0 pb \<and> (GetPhase pb = SECOND_COMMITMENT \<or> GetPhase pb = FIRST_REVEAL_SEED))"

lemma reveal_keeps_hash:
  assumes wf: "board_wf pb" and r: "reveal_phase (GetPhase pb)" and t: "turn pb = Some t" "t \<noteq> p"
    and p: "p = 0 \<or> p = 1" and nf: "GetPhase (after_reveal g t v pb) \<noteq> FINISHED"
  shows "keeps_hash p pb (after_reveal g t v pb)"
proof -
  obtain t' k0 k1 h0 h1 where x: "turn pb = Some t'" "t' = 0 \<or> t' = 1" "known_ships pb = [k0, k1]"
    "position_hashes pb = [h0, h1]" "winner pb = None"
    "positions pb = [] \<and> GetPhase pb \<noteq> SECOND_REVEAL_POSITION
     \<or> (\<exists>p0 p1. positions pb = [p0, p1] \<and> GetPhase pb = SECOND_REVEAL_POSITION \<and> [p0, p1] ! unat t' = 0
          \<and> [p0, p1] ! (1 - unat t') \<noteq> 0)"
    by (rule REVEAL_wf [OF wf r])
  have ph: "GetPhase (after_reveal g t v pb) = (if v = None then SECOND_REVEAL_POSITION else FINISHED)"
    using x by (intro after_reveal_phase) auto
  with nf have "v = None" by (auto split: if_splits)
  with ph x t p show ?thesis
    by (auto simp: keeps_hash_def after_reveal_def Let_def)
qed

lemma move_keeps_hash:
  assumes two: "participants_size meta = 2" and wf: "board_wf pb" and p: "p = 0 \<or> p = 1"
    and a: "ApplyMoveProto sha \<lparr>GetMetadata = meta, GetState = pb\<rparr> mv = Inr pb'"
    and o: "turn pb \<noteq> Some p \<or> (\<exists>m. mv = kShot m) \<or> (\<exists>m. mv = kReply m) \<or> (\<exists>m. mv = kSeedReveal m)"
    and nf: "GetPhase pb' \<noteq> FINISHED"
  shows "keeps_hash p pb pb'"
proof -
  let ?s = "\<lparr>GetMetadata = meta, GetState = pb\<rparr>"
  have s: "two_players ?s" "board_wf (GetState ?s)" using two wf by (simp_all add: two_players_def)
  have nf0: "GetPhase (GetState ?s) \<noteq> FINISHED" using finished_no_move [OF s] a by auto
  obtain t where t: "turn pb = Some t" "t = 0 \<or> t = 1"
    using turn_set_wf [OF s(2) nf0] by (auto simp: turn_set_def)
  note eq = a [unfolded ApplyMoveProto_eq [OF s nf0] Let_def, simplified]
  show ?thesis
  proof (cases mv)
    case (kPositionCommitment m)
    with eq have c: "ApplyPositionCommitment m (GetPhase pb) pb = Inr pb'" by simp
    have tp: "t \<noteq> p" using o t kPositionCommitment by auto
    from commitment_effect [OF wf c] consider
      (first) "GetPhase pb = FIRST_COMMITMENT" "GetPhase pb' = SECOND_COMMITMENT"
      | (second) "GetPhase pb = SECOND_COMMITMENT" "GetPhase pb' = FIRST_REVEAL_SEED" by auto
    then show ?thesis
    proof cases
      case first
      then have "t = 0" using wf t by (simp add: board_wf_def)
      with tp p have "p = 1" by auto
      with first show ?thesis using phase_conv(3) [of pb'] by (simp add: keeps_hash_def)
    next
      case second
      then have "t = 1" using wf t by (simp add: board_wf_def)
      with tp p have "p = 0" by auto
      moreover have "length (position_hashes pb) = 1" using second(1) by (simp add: phase_conv)
      ultimately show ?thesis
        using second c by (auto simp: keeps_hash_def ApplyPositionCommitment_def Let_def nth_append split: if_splits)
    qed
  next
    case (kSeedReveal m)
    with eq have c: "ApplySeedReveal sha m (GetPhase pb) pb = Inr pb'" by simp
    with seed_reveal_effect [OF wf c] show ?thesis
      by (auto simp: keeps_hash_def ApplySeedReveal_def Let_def rbind_eq_Inr_conv split: if_splits)
  next
    case (kShot m)
    with eq obtain loc where "GetPhase pb = SHOOT" "pb' = after_shot (1 - t) loc pb"
      by (auto simp: ApplyShot_eq [OF wf t(1)] split: option.splits if_splits)
    moreover from this have "GetPhase pb' = ANSWER" by (simp add: phase_conv after_shot_def Let_def)
    ultimately show ?thesis by (simp add: keeps_hash_def after_shot_def Let_def)
  next
    case (kReply m)
    moreover from this eq have ph: "GetPhase pb = ANSWER" by (auto simp: ApplyReply_def split: if_splits)
    moreover obtain shot where "current_shot pb = Some shot" using ph by (auto simp: phase_conv)
    ultimately have "pb' = after_hit t shot pb \<or> pb' = pb\<lparr>current_shot := None\<rparr>"
      using eq ApplyReply_eq [OF wf ph t(1)] by (auto split: option.splits ReplyType.splits)
    moreover from this ph have "GetPhase pb' = SHOOT"
      by (auto simp: phase_conv after_hit_def Let_def)
    ultimately show ?thesis by (auto simp: keeps_hash_def after_hit_def Let_def)
  next
    case (kPositionReveal m)
    with eq obtain g v where "reveal_phase (GetPhase pb)" "pb' = after_reveal g t v pb"
      by (auto simp: ApplyPositionReveal_eq [OF wf t(1)] split: option.splits if_splits)
    moreover have "t \<noteq> p" using o t kPositionReveal by auto
    ultimately show ?thesis using reveal_keeps_hash [OF wf _ t(1) _ p] nf by simp
  next
    case MOVE_NOT_SET
    with eq show ?thesis by simp
  qed
qed

text \<open>An honest move keeps the invariant if it keeps the secrets.\<close>

lemma honest_move_inv:
  assumes pl: "plays E meta p" and inv: "client_inv E p sc pb" and "IsPositionSet sc"
    and a: "ApplyMoveProto (se_sha E) \<lparr>GetMetadata = meta, GetState = pb\<rparr> mv = Inr pb'"
    and h: "honest_move (sc_position sc) p pb mv"
    and same: "sc_position sc' = sc_position sc" "sc_positionSalt sc' = sc_positionSalt sc"
    and sec: "GetPhase pb' \<noteq> FINISHED \<Longrightarrow> secrets_ok E p sc' pb'"
  shows "client_inv E p sc' pb'"
proof -
  have i: "board_wf pb" "VerifyPositionOfShips (sc_position sc) = Some True" "uint256_wf (sc_positionSalt sc)"
    "truthful (sc_position sc) p pb" "fair (sc_position sc) p pb"
    using inv \<open>IsPositionSet sc\<close> by (simp_all add: client_inv_def)
  from honest_step_inv [OF honest_step.move [OF a h] playsD(2,3,1) [OF pl] i(2,1,4,5)] show ?thesis
    using i sec same \<open>IsPositionSet sc\<close> by (auto simp: client_inv_def IsPositionSet_def)
qed

text \<open>In the first phases only commitments are accepted.\<close>

lemma early_moves:
  assumes two: "participants_size meta = 2" and wf: "board_wf pb"
    and ph: "GetPhase pb = FIRST_COMMITMENT \<or> GetPhase pb = SECOND_COMMITMENT"
    and a: "ApplyMoveProto sha \<lparr>GetMetadata = meta, GetState = pb\<rparr> mv = Inr pb'"
  shows "GetPhase pb' = SECOND_COMMITMENT \<or> GetPhase pb' = FIRST_REVEAL_SEED"
proof -
  let ?s = "\<lparr>GetMetadata = meta, GetState = pb\<rparr>"
  have s: "two_players ?s" "board_wf (GetState ?s)" using two wf by (simp_all add: two_players_def)
  have nf0: "GetPhase (GetState ?s) \<noteq> FINISHED" using ph by auto
  note eq = a [unfolded ApplyMoveProto_eq [OF s nf0] Let_def, simplified]
  show ?thesis
  proof (cases mv)
    case (kPositionCommitment m)
    with eq commitment_effect [OF wf, of m pb'] show ?thesis by auto
  qed (use eq ph in \<open>auto simp: ApplySeedReveal_def ApplyShot_def ApplyReply_def ApplyPositionReveal_def Let_def\<close>)
qed

text \<open>A move of the opponent and a shot of the player keep the invariant.\<close>

lemma other_move_inv:
  assumes pl: "plays E meta p" and inv: "client_inv E p sc pb"
    and a: "ApplyMoveProto (se_sha E) \<lparr>GetMetadata = meta, GetState = pb\<rparr> mv = Inr pb'"
    and o: "turn pb \<noteq> Some p \<or> (\<exists>m. mv = kShot m)"
  shows "client_inv E p sc pb'"
proof -
  have wf: "board_wf pb" using inv by (simp add: client_inv_def)
  have s: "two_players \<lparr>GetMetadata = meta, GetState = pb\<rparr>" "board_wf (GetState \<lparr>GetMetadata = meta, GetState = pb\<rparr>)"
    using playsD(2) [OF pl] wf by (simp_all add: two_players_def)
  have nf: "GetPhase pb \<noteq> FINISHED" using finished_no_move [OF s] a by auto
  have sec0: "secrets_ok E p sc pb" using inv nf by (simp add: client_inv_def)
  have sec: "secrets_ok E p sc pb'" if "GetPhase pb' \<noteq> FINISHED"
    using move_keeps_hash [OF playsD(2) [OF pl] wf playsD(1) [OF pl] a _ that] o sec0
    by (auto simp: secrets_ok_def keeps_hash_def)
  show ?thesis
  proof (cases "IsPositionSet sc")
    case True
    have "honest_move (sc_position sc) p pb mv"
      using o by (auto simp: honest_move_def)
    from honest_move_inv [OF pl inv True a this _ _ sec] show ?thesis by simp
  next
    case False
    from position_unset [OF inv False playsD(1) [OF pl]]
    have "GetPhase pb' \<noteq> FINISHED"
      using early_moves [OF playsD(2) [OF pl] wf _ a] by auto
    moreover have "board_wf pb'"
      using ApplyMoveProto_wf(2) [OF s _ playsD(3) [OF pl] a] nf by simp
    ultimately show ?thesis using False sec by (simp add: client_inv_def)
  qed
qed

section \<open>The automatic moves\<close>

text \<open>What a search for an automatic move may return.\<close>

definition auto_ok ::
    "('r, 't) ShipsEnv \<Rightarrow> ChannelMetadata \<Rightarrow> u32 \<Rightarrow> 'r ShipsChannel \<Rightarrow> BoardState
       \<Rightarrow> BoardMove option \<Rightarrow> 'r ShipsChannel \<Rightarrow> bool" where
  "auto_ok E meta p sc pb mo sc' \<longleftrightarrow> (case mo of
     None \<Rightarrow> sc' = sc \<and> (\<not> IsPositionSet sc \<or> GetPhase pb = SHOOT)
   | Some mv \<Rightarrow> \<exists>pb'. ApplyMoveProto (se_sha E) \<lparr>GetMetadata = meta, GetState = pb\<rparr> mv = Inr pb'
       \<and> IsPositionSet sc \<and> honest_move (sc_position sc) p pb mv \<and> client_inv E p sc' pb'
       \<and> sc_position sc' = sc_position sc \<and> sc_positionSalt sc' = sc_positionSalt sc)"

lemma auto_okI:
  assumes pl: "plays E meta p" and inv: "client_inv E p sc pb" and pos: "IsPositionSet sc"
    and nf: "GetPhase pb \<noteq> FINISHED"
    and a: "(case mv of
      kPositionCommitment m \<Rightarrow> ApplyPositionCommitment m (GetPhase pb) pb
    | kSeedReveal m \<Rightarrow> ApplySeedReveal (se_sha E) m (GetPhase pb) pb
    | kShot m \<Rightarrow> ApplyShot m (GetPhase pb) pb
    | kReply m \<Rightarrow> ApplyReply m (GetPhase pb) pb
    | kPositionReveal m \<Rightarrow> ApplyPositionReveal (se_sha E) m (GetPhase pb) pb
    | MOVE_NOT_SET \<Rightarrow> Inl Rejected) = Inr pb'"
    and h: "honest_move (sc_position sc) p pb mv"
    and same: "sc_position sc' = sc_position sc" "sc_positionSalt sc' = sc_positionSalt sc"
    and sec: "GetPhase pb' \<noteq> FINISHED \<Longrightarrow> secrets_ok E p sc' pb'"
  shows "auto_ok E meta p sc pb (Some mv) sc'"
proof -
  have s: "two_players \<lparr>GetMetadata = meta, GetState = pb\<rparr>" "board_wf (GetState \<lparr>GetMetadata = meta, GetState = pb\<rparr>)"
    using playsD(2) [OF pl] inv by (simp_all add: two_players_def client_inv_def)
  have a': "ApplyMoveProto (se_sha E) \<lparr>GetMetadata = meta, GetState = pb\<rparr> mv = Inr pb'"
    using a nf by (subst ApplyMoveProto_eq [OF s]) (simp_all add: Let_def)
  from honest_move_inv [OF pl inv pos a' h same sec] a' pos h same show ?thesis
    by (auto simp: auto_ok_def)
qed

lemma sha_length: "sha_ok sha \<Longrightarrow> length (GetBinaryString (sha x)) = NUM_BYTES"
  by (simp add: sha_ok_def uint256_wf_def GetBinaryString_def)

lemma uint256_length: "uint256_wf u \<Longrightarrow> length (GetBinaryString u) = NUM_BYTES"
  by (simp add: uint256_wf_def GetBinaryString_def)

lemma auto_commitment:
  assumes "IsPositionSet sc"
  shows "AutoPositionCommitment E sc = Some (Some \<lparr>position_hash = Some (our_hash E sc), seed_hash = None, pc_seed = None\<rparr>)"
  using assms by (simp add: AutoPositionCommitment_def our_hash_def Blob_eq)

lemma auto_first_commitment:
  assumes pl: "plays E meta p" and inv: "client_inv E p sc pb" and pos: "IsPositionSet sc"
    and ph: "GetPhase pb = FIRST_COMMITMENT" and p: "p = 0" and r: "se_random E (sc_rnd sc) = (sd, r)"
  shows "auto_ok E meta p sc pb
    (Some (kPositionCommitment \<lparr>position_hash = Some (our_hash E sc),
       seed_hash = Some (GetBinaryString (se_sha E (GetBinaryString sd))), pc_seed = None\<rparr>))
    (sc\<lparr>sc_seed0 := sd, sc_rnd := r\<rparr>)"
proof (rule auto_okI [OF pl inv pos])
  let ?sh = "GetBinaryString (se_sha E (GetBinaryString sd))"
  let ?pb = "pb\<lparr>turn := Some 1, position_hashes := [our_hash E sc], seed_hash_0 := Some ?sh\<rparr>"
  have e: "position_hashes pb = []" "winner pb = None" using ph by (simp_all add: phase_conv)
  have len: "length (our_hash E sc) = NUM_BYTES" "length ?sh = NUM_BYTES"
    using playsD(3) [OF pl] by (simp_all add: our_hash_def sha_length)
  show "(case kPositionCommitment \<lparr>position_hash = Some (our_hash E sc), seed_hash = Some ?sh, pc_seed = None\<rparr> of
      kPositionCommitment m \<Rightarrow> ApplyPositionCommitment m (GetPhase pb) pb
    | kSeedReveal m \<Rightarrow> ApplySeedReveal (se_sha E) m (GetPhase pb) pb
    | kShot m \<Rightarrow> ApplyShot m (GetPhase pb) pb
    | kReply m \<Rightarrow> ApplyReply m (GetPhase pb) pb
    | kPositionReveal m \<Rightarrow> ApplyPositionReveal (se_sha E) m (GetPhase pb) pb
    | MOVE_NOT_SET \<Rightarrow> Inl Rejected) = Inr ?pb"
    using ph e len by (simp add: ApplyPositionCommitment_def)
  have "GetPhase ?pb = SECOND_COMMITMENT" using e by (simp add: phase_conv)
  moreover have "uint256_wf sd" using playsD(4) [OF pl, of "sc_rnd sc"] r by simp
  ultimately show "secrets_ok E p (sc\<lparr>sc_seed0 := sd, sc_rnd := r\<rparr>) ?pb"
    using p pos by (simp add: secrets_ok_def our_hash_def IsPositionSet_def)
qed (use ph in \<open>simp_all add: honest_move_def\<close>)

lemma auto_second_commitment:
  assumes pl: "plays E meta p" and inv: "client_inv E p sc pb" and pos: "IsPositionSet sc"
    and ph: "GetPhase pb = SECOND_COMMITMENT" and p: "p = 1" and r: "se_random E (sc_rnd sc) = (sd, r)"
  shows "auto_ok E meta p sc pb
    (Some (kPositionCommitment \<lparr>position_hash = Some (our_hash E sc), seed_hash = None,
       pc_seed = Some (GetBinaryString sd)\<rparr>))
    (sc\<lparr>sc_rnd := r\<rparr>)"
proof (rule auto_okI [OF pl inv pos])
  let ?pb = "pb\<lparr>turn := Some 0, position_hashes := position_hashes pb @ [our_hash E sc],
    seed_1 := Some (GetBinaryString sd)\<rparr>"
  have e: "length (position_hashes pb) = 1" using ph by (simp add: phase_conv)
  have len: "length (our_hash E sc) = NUM_BYTES" "length (GetBinaryString sd) = NUM_BYTES"
    using playsD(3) [OF pl] playsD(4) [OF pl, of "sc_rnd sc"] r by (simp_all add: our_hash_def sha_length uint256_length)
  show "(case kPositionCommitment \<lparr>position_hash = Some (our_hash E sc), seed_hash = None, pc_seed = Some (GetBinaryString sd)\<rparr> of
      kPositionCommitment m \<Rightarrow> ApplyPositionCommitment m (GetPhase pb) pb
    | kSeedReveal m \<Rightarrow> ApplySeedReveal (se_sha E) m (GetPhase pb) pb
    | kShot m \<Rightarrow> ApplyShot m (GetPhase pb) pb
    | kReply m \<Rightarrow> ApplyReply m (GetPhase pb) pb
    | kPositionReveal m \<Rightarrow> ApplyPositionReveal (se_sha E) m (GetPhase pb) pb
    | MOVE_NOT_SET \<Rightarrow> Inl Rejected) = Inr ?pb"
    using ph e len by (simp add: ApplyPositionCommitment_def)
  show "secrets_ok E p (sc\<lparr>sc_rnd := r\<rparr>) ?pb"
    using p pos e by (simp add: secrets_ok_def our_hash_def IsPositionSet_def nth_append)
qed (use ph in \<open>simp_all add: honest_move_def\<close>)

text \<open>The answers to a shot and the revealed seed.\<close>

lemma auto_okI_keep:
  assumes pl: "plays E meta p" and inv: "client_inv E p sc pb" and pos: "IsPositionSet sc"
    and nf: "GetPhase pb \<noteq> FINISHED"
    and a: "ApplyMoveProto (se_sha E) \<lparr>GetMetadata = meta, GetState = pb\<rparr> mv = Inr pb'"
    and h: "honest_move (sc_position sc) p pb mv" and mv: "(\<exists>m. mv = kReply m) \<or> (\<exists>m. mv = kSeedReveal m)"
  shows "auto_ok E meta p sc pb (Some mv) sc"
proof -
  have wf: "board_wf pb" and sec: "secrets_ok E p sc pb" using inv nf by (simp_all add: client_inv_def)
  have sec': "secrets_ok E p sc pb'" if "GetPhase pb' \<noteq> FINISHED"
    using move_keeps_hash [OF playsD(2) [OF pl] wf playsD(1) [OF pl] a _ that] mv sec
    by (auto simp: secrets_ok_def keeps_hash_def)
  from honest_move_inv [OF pl inv pos a h _ _ sec'] a pos h show ?thesis
    by (auto simp: auto_ok_def)
qed

lemma apply_in_phase:
  assumes pl: "plays E meta p" and inv: "client_inv E p sc pb" and nf: "GetPhase pb \<noteq> FINISHED"
  shows "ApplyMoveProto (se_sha E) \<lparr>GetMetadata = meta, GetState = pb\<rparr> (kSeedReveal m1) = ApplySeedReveal (se_sha E) m1 (GetPhase pb) pb"
    and "ApplyMoveProto (se_sha E) \<lparr>GetMetadata = meta, GetState = pb\<rparr> (kReply m2) = ApplyReply m2 (GetPhase pb) pb"
    and "ApplyMoveProto (se_sha E) \<lparr>GetMetadata = meta, GetState = pb\<rparr> (kPositionReveal m3)
      = ApplyPositionReveal (se_sha E) m3 (GetPhase pb) pb"
proof -
  have s: "two_players \<lparr>GetMetadata = meta, GetState = pb\<rparr>" "board_wf (GetState \<lparr>GetMetadata = meta, GetState = pb\<rparr>)"
    using playsD(2) [OF pl] inv by (simp_all add: two_players_def client_inv_def)
  note eq = ApplyMoveProto_eq [OF s, of "se_sha E", simplified, OF nf]
  show "ApplyMoveProto (se_sha E) \<lparr>GetMetadata = meta, GetState = pb\<rparr> (kSeedReveal m1) = ApplySeedReveal (se_sha E) m1 (GetPhase pb) pb"
    "ApplyMoveProto (se_sha E) \<lparr>GetMetadata = meta, GetState = pb\<rparr> (kReply m2) = ApplyReply m2 (GetPhase pb) pb"
    "ApplyMoveProto (se_sha E) \<lparr>GetMetadata = meta, GetState = pb\<rparr> (kPositionReveal m3)
      = ApplyPositionReveal (se_sha E) m3 (GetPhase pb) pb"
    by (simp_all add: eq Let_def)
qed

lemma auto_seed_reveal:
  assumes pl: "plays E meta p" and inv: "client_inv E p sc pb" and pos: "IsPositionSet sc"
    and ph: "GetPhase pb = FIRST_REVEAL_SEED" and p: "p = 0"
  shows "auto_ok E meta p sc pb (Some (kSeedReveal \<lparr>sr_seed = Some (GetBinaryString (sc_seed0 sc))\<rparr>)) sc"
proof -
  let ?s = "GetBinaryString (sc_seed0 sc)"
  have nf: "GetPhase pb \<noteq> FINISHED" using ph by simp
  have sec: "uint256_wf (sc_seed0 sc)" "seed_hash_0 pb = Some (GetBinaryString (se_sha E ?s))"
    using inv ph p by (simp_all add: client_inv_def secrets_ok_def)
  obtain b rnd where n: "Next_bool (se_sha E) (Seed (se_sha E (?s @ get_or [] (seed_1 pb)))) = Some (b, rnd)"
    using Next_bool_Seed [OF playsD(3) [OF pl]] .
  obtain pb' where "ApplySeedReveal (se_sha E) \<lparr>sr_seed = Some ?s\<rparr> (GetPhase pb) pb = Inr pb'"
    using ph sec n uint256_length [OF sec(1)] sha_length [OF playsD(3) [OF pl], of ?s]
    by (simp add: ApplySeedReveal_def CheckHashValue_def)
  then have "ApplyMoveProto (se_sha E) \<lparr>GetMetadata = meta, GetState = pb\<rparr> (kSeedReveal \<lparr>sr_seed = Some ?s\<rparr>) = Inr pb'"
    by (simp add: apply_in_phase [OF pl inv nf])
  from auto_okI_keep [OF pl inv pos nf this] show ?thesis by (auto simp: honest_move_def)
qed

lemma auto_answer:
  assumes pl: "plays E meta p" and inv: "client_inv E p sc pb" and pos: "IsPositionSet sc"
    and ph: "GetPhase pb = ANSWER" and t: "turn pb = Some p" and s: "current_shot pb = Some shot"
  shows "auto_ok E meta p sc pb
    (Some (kReply \<lparr>reply = Some (if bit (sc_position sc) (unat shot) then HIT else MISS)\<rparr>)) sc"
proof -
  let ?m = "\<lparr>reply = Some (if bit (sc_position sc) (unat shot) then HIT else MISS)\<rparr>"
  have nf: "GetPhase pb \<noteq> FINISHED" using ph by simp
  have wf: "board_wf pb" using inv by (simp add: client_inv_def)
  obtain pb' where "ApplyReply ?m (GetPhase pb) pb = Inr pb'"
    using ApplyReply_eq [OF wf ph t s] ph by (cases "bit (sc_position sc) (unat shot)") simp_all
  then have "ApplyMoveProto (se_sha E) \<lparr>GetMetadata = meta, GetState = pb\<rparr> (kReply ?m) = Inr pb'"
    by (simp add: apply_in_phase [OF pl inv nf])
  from auto_okI_keep [OF pl inv pos nf this] show ?thesis by (auto simp: honest_move_def s)
qed

text \<open>The reveal of the position, which ends the game.\<close>

lemma honest_reveal_ends:
  assumes wf: "board_wf pb" and r: "reveal_phase (GetPhase pb)" and t: "turn pb = Some p" and p: "p = 0 \<or> p = 1"
    and fair: "fair g p (after_reveal g' p v pb)"
  shows "GetPhase (after_reveal g' p v pb) = FINISHED"
proof -
  obtain t' k0 k1 h0 h1 where x: "turn pb = Some t'" "known_ships pb = [k0, k1]" "position_hashes pb = [h0, h1]"
    "winner pb = None" "positions pb = [] \<and> GetPhase pb \<noteq> SECOND_REVEAL_POSITION
     \<or> (\<exists>p0 p1. positions pb = [p0, p1] \<and> GetPhase pb = SECOND_REVEAL_POSITION \<and> [p0, p1] ! unat t' = 0
          \<and> [p0, p1] ! (1 - unat t') \<noteq> 0)"
    by (rule REVEAL_wf [OF wf r])
  have ph: "GetPhase (after_reveal g' p v pb) = (if v = None then SECOND_REVEAL_POSITION else FINISHED)"
    using x by (intro after_reveal_phase) auto
  show ?thesis
  proof (cases v)
    case None
    with ph fair have "turn (after_reveal g' p v pb) = Some p" by (simp add: fair_def)
    with None p show ?thesis by (auto simp: after_reveal_def Let_def)
  qed (use ph in simp)
qed

lemma auto_reveal:
  assumes pl: "plays E meta p" and inv: "client_inv E p sc pb" and pos: "IsPositionSet sc"
    and t: "turn pb = Some p"
    and ph: "GetPhase pb = SECOND_REVEAL_POSITION \<or> GetPhase pb = SHOOT
      \<and> TotalShipCells \<le> CountOnes (get_or 0 (hits (known_ships pb ! unat (1 - p))))"
  shows "auto_ok E meta p sc pb
    (Some (kPositionReveal \<lparr>position = Some (sc_position sc), salt = Some (GetBinaryString (sc_positionSalt sc))\<rparr>)) sc"
proof -
  let ?m = "\<lparr>position = Some (sc_position sc), salt = Some (GetBinaryString (sc_positionSalt sc))\<rparr>"
  let ?mv = "kPositionReveal ?m"
  let ?g = "sc_position sc"
  let ?pb = "after_reveal ?g p (reveal_verdict (GetPhase pb) ?g p pb) pb"
  have r: "reveal_phase (GetPhase pb)" and nf: "GetPhase pb \<noteq> FINISHED" using ph by (auto simp: reveal_phase_def)
  have i: "board_wf pb" "VerifyPositionOfShips ?g = Some True" "uint256_wf (sc_positionSalt sc)"
    "truthful ?g p pb" "fair ?g p pb" "secrets_ok E p sc pb"
    using inv pos nf by (simp_all add: client_inv_def)
  have p01: "p = 0 \<or> p = 1" by (rule playsD(1) [OF pl])
  have "length (position_hashes pb) = 2"
    using r phase_conv(5-7) [of pb] by (auto simp: reveal_phase_def)
  then have hash: "position_hashes pb ! unat p = our_hash E sc"
    using i(6) p01 by (auto simp: secrets_ok_def)
  have "ApplyPositionReveal (se_sha E) ?m (GetPhase pb) pb = Inr ?pb"
    using r uint256_length [OF i(3)] sha_length [OF playsD(3) [OF pl]]
    by (simp add: ApplyPositionReveal_eq [OF i(1) t] hash CheckHashValue_def our_hash_def)
  then have a: "ApplyMoveProto (se_sha E) \<lparr>GetMetadata = meta, GetState = pb\<rparr> ?mv = Inr ?pb"
    by (simp add: apply_in_phase [OF pl inv nf])
  have h: "honest_move ?g p pb ?mv"
    using ph by (auto simp: honest_move_def)
  have "fair ?g p ?pb"
    using honest_step_inv [OF honest_step.move [OF a h] playsD(2,3,1) [OF pl] i(2,1,4,5)] by simp
  then have "GetPhase ?pb = FINISHED" by (rule honest_reveal_ends [OF i(1) r t p01])
  then have "client_inv E p sc ?pb"
    using honest_move_inv [OF pl inv pos a h] by simp
  then show ?thesis using a pos h by (auto simp: auto_ok_def)
qed

text \<open>
  In every state of the game in which it is the player's turn, the search for an automatic move returns,
  and what it finds is an accepted move of an honest player.
\<close>

lemma InternalAutoMove_ok:
  assumes pl: "plays E meta p" and inv: "client_inv E p sc pb" and t: "turn pb = Some p"
    and nf: "GetPhase pb \<noteq> FINISHED"
  shows "\<exists>mo sc'. InternalAutoMove E \<lparr>GetMetadata = meta, GetState = pb\<rparr> sc = Some (mo, sc') \<and> auto_ok E meta p sc pb mo sc'"
proof -
  let ?s = "\<lparr>GetMetadata = meta, GetState = pb\<rparr>"
  have p: "p = 0 \<or> p = 1" by (rule playsD(1) [OF pl])
  have wf: "board_wf pb" and sec: "secrets_ok E p sc pb" using inv nf by (simp_all add: client_inv_def)
  have idx: "int (unat p) = sint (get_or 0 (turn pb))" using p t by auto
  note def = InternalAutoMove_def Let_def our_index [OF pl] idx [symmetric]
  have committed: "IsPositionSet sc" if "GetPhase pb \<noteq> FIRST_COMMITMENT" "\<not> (GetPhase pb = SECOND_COMMITMENT \<and> p = 1)"
    using position_unset [OF inv _ p] that by blast
  show ?thesis
  proof (cases "GetPhase pb")
    case FIRST_COMMITMENT
    then have p0: "p = 0" using wf t by (simp add: board_wf_def)
    obtain sd r where r: "se_random E (sc_rnd sc) = (sd, r)" by (cases "se_random E (sc_rnd sc)")
    show ?thesis
    proof (cases "IsPositionSet sc")
      case True
      with auto_first_commitment [OF pl inv True FIRST_COMMITMENT p0 r] show ?thesis
        using FIRST_COMMITMENT p0 r by (simp add: def auto_commitment)
    qed (use FIRST_COMMITMENT p0 in \<open>simp add: def AutoPositionCommitment_def auto_ok_def\<close>)
  next
    case SECOND_COMMITMENT
    then have p1: "p = 1" using wf t by (simp add: board_wf_def)
    obtain sd r where r: "se_random E (sc_rnd sc) = (sd, r)" by (cases "se_random E (sc_rnd sc)")
    show ?thesis
    proof (cases "IsPositionSet sc")
      case True
      with auto_second_commitment [OF pl inv True SECOND_COMMITMENT p1 r] show ?thesis
        using SECOND_COMMITMENT p1 r by (simp add: def auto_commitment)
    qed (use SECOND_COMMITMENT p1 in \<open>simp add: def AutoPositionCommitment_def auto_ok_def\<close>)
  next
    case FIRST_REVEAL_SEED
    then have p0: "p = 0" using wf t by (simp add: board_wf_def)
    from auto_seed_reveal [OF pl inv committed FIRST_REVEAL_SEED p0] FIRST_REVEAL_SEED p0 show ?thesis
      by (simp add: def)
  next
    case SHOOT
    have l: "length (known_ships pb) = 2" using SHOOT by (simp add: phase_conv)
    have o: "nat (1 - int (unat p)) = unat (1 - p)" "unat (1 - p) < length (known_ships pb)"
      "0 \<le> 1 - int (unat p)" "1 - int (unat p) \<le> 1"
      using p l by auto
    have pos: "IsPositionSet sc" using committed SHOOT by simp
    show ?thesis
    proof (cases "TotalShipCells \<le> CountOnes (get_or 0 (hits (known_ships pb ! unat (1 - p))))")
      case True
      with auto_reveal [OF pl inv pos t] SHOOT show ?thesis
        using o by (simp add: def GetPositionRevealMove_def pos)
    next
      case False
      with SHOOT o show ?thesis by (simp add: def auto_ok_def)
    qed
  next
    case ANSWER
    obtain t' shot k0 k1 where "turn pb = Some t'" and s: "current_shot pb = Some shot" "unat shot < 64"
      by (rule ANSWER_wf [OF wf ANSWER])
    have pos: "IsPositionSet sc" using committed ANSWER by simp
    from auto_answer [OF pl inv pos ANSWER t s(1)] show ?thesis
      using ANSWER s pos by (simp add: def target_on_board target_ops)
  next
    case SECOND_REVEAL_POSITION
    have pos: "IsPositionSet sc" using committed SECOND_REVEAL_POSITION by simp
    from auto_reveal [OF pl inv pos t] SECOND_REVEAL_POSITION show ?thesis
      by (simp add: def GetPositionRevealMove_def pos)
  next
    case INVALID
    then show ?thesis using wf by (simp add: board_wf_def)
  qed (use nf in simp)
qed

section \<open>Whole games\<close>

text \<open>
  A game on one channel as the daemon of the player \<open>p\<close> sees it: the user sets the position and shoots, the
  daemon makes automatic moves, and the opponent makes any accepted move.
\<close>

inductive client_step ::
    "('r, 't) ShipsEnv \<Rightarrow> ChannelMetadata \<Rightarrow> u32 \<Rightarrow> 'r ShipsChannel \<times> BoardState \<Rightarrow> 'r ShipsChannel \<times> BoardState \<Rightarrow> bool"
  for E meta p where
  set_position: "SetPosition E g sc = Some sc' \<Longrightarrow> client_step E meta p (sc, pb) (sc', pb)"
| auto_move: "\<lbrakk>turn pb = Some p; InternalAutoMove E \<lparr>GetMetadata = meta, GetState = pb\<rparr> sc = Some (Some mv, sc');
     ApplyMoveProto (se_sha E) \<lparr>GetMetadata = meta, GetState = pb\<rparr> mv = Inr pb'\<rbrakk>
     \<Longrightarrow> client_step E meta p (sc, pb) (sc', pb')"
| shoot: "\<lbrakk>turn pb = Some p; GetShotMove c = Some mv;
     ApplyMoveProto (se_sha E) \<lparr>GetMetadata = meta, GetState = pb\<rparr> mv = Inr pb'\<rbrakk>
     \<Longrightarrow> client_step E meta p (sc, pb) (sc, pb')"
| opponent: "\<lbrakk>turn pb \<noteq> Some p; ApplyMoveProto (se_sha E) \<lparr>GetMetadata = meta, GetState = pb\<rparr> mv = Inr pb'\<rbrakk>
     \<Longrightarrow> client_step E meta p (sc, pb) (sc, pb')"

lemma client_step_inv:
  assumes "client_step E meta p s s'" and pl: "plays E meta p" and "client_inv E p (fst s) (snd s)"
  shows "client_inv E p (fst s') (snd s')"
  using assms(1)
proof cases
  case (set_position g sc sc' pb)
  with SetPosition_inv [OF pl] assms(3) show ?thesis by simp
next
  case (auto_move pb sc mv sc' pb')
  have inv: "client_inv E p sc pb" using assms(3) auto_move by simp
  have s: "two_players \<lparr>GetMetadata = meta, GetState = pb\<rparr>" "board_wf (GetState \<lparr>GetMetadata = meta, GetState = pb\<rparr>)"
    using playsD(2) [OF pl] inv by (simp_all add: two_players_def client_inv_def)
  have "GetPhase pb \<noteq> FINISHED" using finished_no_move [OF s] auto_move(5) by auto
  from InternalAutoMove_ok [OF pl inv auto_move(3) this] auto_move show ?thesis
    by (auto simp: auto_ok_def)
next
  case (shoot pb c mv pb' sc)
  then have "\<exists>m. mv = kShot m" by (auto simp: GetShotMove_def Option.bind_eq_Some_conv split: if_splits)
  with shoot other_move_inv [OF pl] assms(3) show ?thesis by fastforce
next
  case (opponent pb mv pb' sc)
  with other_move_inv [OF pl] assms(3) show ?thesis by fastforce
qed

lemma client_steps_inv:
  assumes "(client_step E meta p)\<^sup>*\<^sup>* (new_ShipsChannel r s0 s1, InitialBoardState) s" and "plays E meta p"
  shows "client_inv E p (fst s) (snd s)"
  using assms(1)
proof induction
  case base
  then show ?case by (simp add: client_initial)
next
  case (step s1 s2)
  then show ?case using client_step_inv assms(2) by blast
qed

text \<open>The concrete game: our player commits, both reveal, and the opponent reveals the empty position.\<close>

definition demo_seed_reveal :: BoardMove where
  "demo_seed_reveal = kSeedReveal \<lparr>sr_seed = Some (GetBinaryString (demo_sha []))\<rparr>"

lemma demo_plays: "plays demo_ships_env demo_meta 0"
  using demo_sha_ok by (simp add: plays_def demo_ships_env_def participants_size_def demo_meta_def)
    (simp add: demo_sha_def uint256_wf_def NUM_BYTES_def)

lemma demo_auto_moves:
  "InternalAutoMove demo_ships_env \<lparr>GetMetadata = demo_meta, GetState = InitialBoardState\<rparr> demo_ships
     = Some (Some (demo_commit True), demo_committed)"
  "InternalAutoMove demo_ships_env \<lparr>GetMetadata = demo_meta, GetState = demo_2\<rparr> demo_committed
     = Some (Some demo_seed_reveal, demo_committed)"
  "ApplyMoveProto demo_sha \<lparr>GetMetadata = demo_meta, GetState = demo_2\<rparr> demo_seed_reveal = Inr demo_3"
  by code_simp+

lemma demo_client_game:
  "(client_step demo_ships_env demo_meta 0)\<^sup>*\<^sup>* (new_ShipsChannel () SetNull SetNull, InitialBoardState) (demo_committed, demo_2)"
  "(client_step demo_ships_env demo_meta 0)\<^sup>*\<^sup>* (new_ShipsChannel () SetNull SetNull, InitialBoardState) (demo_committed, demo_4)"
proof -
  let ?step = "client_step demo_ships_env demo_meta 0"
  have sha: "se_sha demo_ships_env = demo_sha" by (simp add: demo_ships_env_def)
  note moves = demo_moves [folded sha] demo_auto_moves(3) [folded sha]
  have t: "turn InitialBoardState = Some 0" "turn demo_1 \<noteq> Some 0" "turn demo_2 = Some 0" "turn demo_3 \<noteq> Some 0"
    by (simp_all add: InitialBoardState_def demo_1_def demo_2_def demo_3_def)
  have 0: "?step (new_ShipsChannel () SetNull SetNull, InitialBoardState) (demo_ships, InitialBoardState)"
    by (rule client_step.set_position [OF demo_set_position])
  have 1: "?step (demo_ships, InitialBoardState) (demo_committed, demo_1)"
    by (rule client_step.auto_move [OF t(1) demo_auto_moves(1) moves(1)])
  have 2: "?step (demo_committed, demo_1) (demo_committed, demo_2)"
    by (rule client_step.opponent [OF t(2) moves(2)])
  have 3: "?step (demo_committed, demo_2) (demo_committed, demo_3)"
    by (rule client_step.auto_move [OF t(3) demo_auto_moves(2) moves(5)])
  have 4: "?step (demo_committed, demo_3) (demo_committed, demo_4)"
    by (rule client_step.opponent [OF t(4) moves(4)])
  show "?step\<^sup>*\<^sup>* (new_ShipsChannel () SetNull SetNull, InitialBoardState) (demo_committed, demo_2)"
    using 0 1 2 by (meson r_into_rtranclp rtranclp.rtrancl_into_rtrancl)
  then show "?step\<^sup>*\<^sup>* (new_ShipsChannel () SetNull SetNull, InitialBoardState) (demo_committed, demo_4)"
    using 3 4 by (meson rtranclp.rtrancl_into_rtrancl)
qed

text \<open>
  C8: however the opponent plays, whenever it is the turn of the daemon's player, the search for an
  automatic move fails no check; a move that it finds is accepted by the board rules and is a move of an
  honest player; and it finds one whenever the position is set and the player need not choose a target.
\<close>

theorem client_auto_moves_valid:
  assumes "(client_step E meta p)\<^sup>*\<^sup>* (new_ShipsChannel r s0 s1, InitialBoardState) (sc, pb)" and "plays E meta p"
    and "turn pb = Some p" and "GetPhase pb \<noteq> FINISHED"
  shows "\<exists>mo sc'. InternalAutoMove E \<lparr>GetMetadata = meta, GetState = pb\<rparr> sc = Some (mo, sc')
    \<and> (case mo of
         None \<Rightarrow> \<not> IsPositionSet sc \<or> GetPhase pb = SHOOT
       | Some mv \<Rightarrow> honest_move (sc_position sc) p pb mv
           \<and> (\<exists>pb'. ApplyMoveProto (se_sha E) \<lparr>GetMetadata = meta, GetState = pb\<rparr> mv = Inr pb'))"
  using InternalAutoMove_ok [OF assms(2) _ assms(3,4), of sc] client_steps_inv [OF assms(1,2)]
  by (fastforce simp: auto_ok_def split: option.splits)

theorem client_auto_moves_valid_witness:
  "\<exists>mo sc'. InternalAutoMove demo_ships_env \<lparr>GetMetadata = demo_meta, GetState = demo_2\<rparr> demo_committed = Some (mo, sc')
    \<and> (case mo of
         None \<Rightarrow> \<not> IsPositionSet demo_committed \<or> GetPhase demo_2 = SHOOT
       | Some mv \<Rightarrow> honest_move (sc_position demo_committed) 0 demo_2 mv
           \<and> (\<exists>pb'. ApplyMoveProto (se_sha demo_ships_env) \<lparr>GetMetadata = demo_meta, GetState = demo_2\<rparr> mv = Inr pb'))"
  by (rule client_auto_moves_valid [OF demo_client_game(1) demo_plays]) code_simp+



end
