(* ===== verification/ShipsTurns.thy ===== *)
theory ShipsTurns
  imports ShipsPlay
begin

text \<open>
  Every automatic move increases the turn count, which the channel manager checks: the turn count looks at
  the lower 32 bits of a revealed position only, and a legal fleet always has a cell among them.
\<close>

section \<open>A legal fleet does not fit in one half of the board\<close>

definition square :: "int \<Rightarrow> int \<Rightarrow> coord set" where
  "square i j = {c. (row c = 2 * i \<or> row c = 2 * i + 1) \<and> (column c = 2 * j \<or> column c = 2 * j + 1)}"

lemma square_eq:
  "square i j = {\<lparr>row = 2 * i, column = 2 * j\<rparr>, \<lparr>row = 2 * i, column = 2 * j + 1\<rparr>,
     \<lparr>row = 2 * i + 1, column = 2 * j\<rparr>, \<lparr>row = 2 * i + 1, column = 2 * j + 1\<rparr>}"
proof (intro set_eqI)
  fix c :: coord
  show "c \<in> square i j \<longleftrightarrow> c \<in> {\<lparr>row = 2 * i, column = 2 * j\<rparr>, \<lparr>row = 2 * i, column = 2 * j + 1\<rparr>,
     \<lparr>row = 2 * i + 1, column = 2 * j\<rparr>, \<lparr>row = 2 * i + 1, column = 2 * j + 1\<rparr>}"
    by (cases c) (auto simp: square_def)
qed

text \<open>Of a square of four cells, the cells of ships lie on one line.\<close>

lemma square_cells:
  assumes "all_ok g"
  shows "card (cells g \<inter> square i j) \<le> 2"
proof (cases "cells g \<inter> square i j = {}")
  case False
  then obtain a where a: "ship_at g a" "a \<in> square i j" by (auto simp: cells_def)
  obtain s where s: "s \<in> found_fleet g" "a \<in> body s" using cell_in_found [OF assms a(1)] by blast
  then obtain c d n where cdn: "s = (c, d, n)" "d = head_dir g c" "ship_ok g c n" by (auto simp: found_fleet_def)
  have d: "d = RIGHT \<or> d = DOWN" using head_dir_cases cdn(2) by simp
  have iso: "isolated g c d (other_dir d) n" using cdn by (simp add: ship_ok_def)
  have "b \<in> body (c, d, n)" if "b \<in> cells g \<inter> square i j" for b
  proof (rule isolated_touch [OF iso d])
    show "a \<in> body (c, d, n)" using s cdn by simp
    show "ship_at g b" using that by (simp add: cells_def)
    show "touch a b" using that a(2) by (auto simp: touch_def square_def)
  qed
  then have sub: "cells g \<inter> square i j \<subseteq> body (c, d, n) \<inter> square i j" by blast
  have line: "body (c, d, n) \<inter> square i j \<subseteq>
      (if d = RIGHT then {\<lparr>row = row c, column = 2 * j\<rparr>, \<lparr>row = row c, column = 2 * j + 1\<rparr>}
       else {\<lparr>row = 2 * i, column = column c\<rparr>, \<lparr>row = 2 * i + 1, column = column c\<rparr>})"
    using d by (auto simp: mem_body square_def shift_def)
  have fin: "finite (if d = RIGHT then {\<lparr>row = row c, column = 2 * j\<rparr>, \<lparr>row = row c, column = 2 * j + 1\<rparr>}
       else {\<lparr>row = 2 * i, column = column c\<rparr>, \<lparr>row = 2 * i + 1, column = column c\<rparr>})"
    and two: "card (if d = RIGHT then {\<lparr>row = row c, column = 2 * j\<rparr>, \<lparr>row = row c, column = 2 * j + 1\<rparr>}
       else {\<lparr>row = 2 * i, column = column c\<rparr>, \<lparr>row = 2 * i + 1, column = column c\<rparr>}) \<le> 2"
    by (auto simp: card_insert_if)
  from card_mono [OF fin order_trans [OF sub line]] two show ?thesis by simp
qed simp

lemma lower_half_squares:
  assumes "\<And>i. i < 32 \<Longrightarrow> \<not> bit g i"
  shows "cells g \<subseteq> (\<Union>ij \<in> {2, 3} \<times> {0, 1, 2, 3}. square (fst ij) (snd ij))"
proof
  fix c assume "c \<in> cells g"
  then have c: "0 \<le> row c" "row c < 8" "0 \<le> column c" "column c < 8" "bit g (nat (row c * 8 + column c))"
    by (auto simp: cells_def ship_at_def IsOnBoard_iff)
  then have "\<not> nat (row c * 8 + column c) < 32" using assms by blast
  with c have "4 \<le> row c" by linarith
  moreover have "r = 4 \<or> r = 5 \<or> r = 6 \<or> r = 7" if "4 \<le> r" "r < 8" for r :: int using that by presburger
  moreover have "k = 0 \<or> k = 1 \<or> k = 2 \<or> k = 3 \<or> k = 4 \<or> k = 5 \<or> k = 6 \<or> k = 7" if "0 \<le> k" "k < 8" for k :: int
    using that by presburger
  ultimately show "c \<in> (\<Union>ij \<in> {2, 3} \<times> {0, 1, 2, 3}. square (fst ij) (snd ij))"
    using c by (auto simp: square_def)
qed

lemma legal_low_bits:
  assumes "VerifyPositionOfShips g = Some True"
  shows "(ucast g :: u32) \<noteq> 0"
proof
  assume "(ucast g :: u32) = 0"
  then have "\<not> bit (ucast g :: u32) i" for i by simp
  then have "\<not> bit g i" if "i < 32" for i using that by (auto simp: bit_ucast_iff)
  note sub = lower_half_squares [OF this]
  let ?I = "{2, 3 :: int} \<times> {0, 1, 2, 3 :: int}"
  have ok: "all_ok g" using assms by (simp add: VerifyPositionOfShips_eq)
  have "cells g = (\<Union>ij \<in> ?I. cells g \<inter> square (fst ij) (snd ij))" using sub by blast
  then have "card (cells g) \<le> (\<Sum>ij \<in> ?I. card (cells g \<inter> square (fst ij) (snd ij)))"
    using card_UN_le [of ?I "\<lambda>ij. cells g \<inter> square (fst ij) (snd ij)"] by simp
  also have "\<dots> \<le> (\<Sum>ij \<in> ?I. 2)"
    using square_cells [OF ok] by (intro sum_mono) simp
  also have "\<dots> = 16" by simp
  finally have "card (cells g) \<le> 16" .
  moreover have "CountOnes g = 18"
    using position_ones [OF assms] by (simp add: TotalShipCells_def AVAILABLE_SHIPS_def)
  then have "card (cells g) = 18" by (simp add: CountOnes_eq_card_cells)
  ultimately show False by simp
qed

end
