(* ===== verification/AutoMoves.thy ===== *)
theory AutoMoves
  imports ManagerProps ShipsTurns
begin

text \<open>
  The interface between the channel manager and the game's part: under the contract of \<open>open_channel\<close> the
  moves that the game asks for are applied, and the loop over automatic moves returns.  The ships
  channel satisfies the contract.
\<close>

section \<open>The contract\<close>

text \<open>
  Besides the laws of board rules: messages have no unknown fields, the signer signs for the seat of our
  player, and an automatic move is accepted, increases the turn count and brings the game nearer to its end.
\<close>

locale open_channel = board_rules br good
  for br :: "'p BoardRules" and good :: "uint256 \<Rightarrow> ChannelMetadata \<Rightarrow> 'p \<Rightarrow> bool" +
  fixes E :: "('p, 'g, 't) ManagerEnv" and m :: ChannelMetadata
    and game_inv :: "'g \<Rightarrow> 'p \<Rightarrow> bool" and done_so_far :: "'p \<Rightarrow> nat" and bound :: nat
  assumes rules_br: "rules (me_env E) = br"
    and no_unknown: "\<not> HasAnyUnknownFields (me_env E) pf"
    and signer_seat: "0 \<le> t \<Longrightarrow> t < int (participants_size m) \<Longrightarrow>
      get_or [] (participant_name (participants m ! nat t)) = me_playerName E \<Longrightarrow>
      get_address (participants m ! nat t) = GetAddress (me_signer E)"
    and signing: "verifier (me_env E) msg (SignMessage (me_signer E) msg) = GetAddress (me_signer E)"
    and bounded: "good (me_channelId E) m p \<Longrightarrow> done_so_far p \<le> bound"
    and auto_move: "\<lbrakk>good (me_channelId E) m p; game_inv g p; pWhoseTurn br p = Some t; t \<noteq> NO_TURN;
        get_or [] (participant_name (participants m ! nat t)) = me_playerName E\<rbrakk> \<Longrightarrow>
      \<exists>mo g'. MaybeAutoMove (me_game E) p g = Some (mo, g') \<and>
        (case mo of
           None \<Rightarrow> game_inv g' p
         | Some mv \<Rightarrow> \<exists>s p' c c'. pApplyMove br p mv = Inr s \<and> ParseState br (me_channelId E) m s = Inr p'
             \<and> game_inv g' p' \<and> done_so_far p < done_so_far p'
             \<and> pTurnCount br p = Some c \<and> pTurnCount br p' = Some c' \<and> c < c')"
begin

text \<open>A manager whose best state is the good state \<open>p\<close>, with a proof that starts in a good state.\<close>

definition ready :: "('p, 'g, 't) ChannelManager \<Rightarrow> 'p \<Rightarrow> bool" where
  "ready cm p \<longleftrightarrow> cm_inv E cm \<and> cm_exists cm
     \<and> (\<exists>e p0. current_entry (boardStates cm) = Some e \<and> rd_meta e = m \<and> latestState e = p
          \<and> good (me_channelId E) m p
          \<and> ParseState br (me_channelId E) m (get_data (get_initial_state (rd_proof e))) = Inr p0
          \<and> good (me_channelId E) m p0)"

lemma ready_game: "ready (cm\<lparr>cm_game := g\<rparr>) p \<longleftrightarrow> ready cm p"
  by (simp add: ready_def cm_inv_def)

text \<open>A valid move of our player is applied, and the new state is known.\<close>

lemma apply_local_move:
  assumes r: "ready cm p" and t: "pWhoseTurn br p = Some t" "t \<noteq> NO_TURN"
    and ours: "get_or [] (participant_name (participants m ! nat t)) = me_playerName E"
    and mv: "pApplyMove br p mv = Inr s" "ParseState br (me_channelId E) m s = Inr p'"
    and c: "pTurnCount br p = Some c" "pTurnCount br p' = Some c'" "c < c'"
  shows "\<exists>rs. ApplyLocalMove E mv cm = Some (True, cm\<lparr>boardStates := rs\<rparr>) \<and> ready (cm\<lparr>boardStates := rs\<rparr>) p'"
proof -
  let ?i = "me_channelId E" and ?env = "me_env E"
  from r obtain e p0 where inv: "cm_inv E cm" "cm_exists cm" and e: "current_entry (boardStates cm) = Some e"
    and me: "rd_meta e = m" "latestState e = p" "good ?i m p"
    and p0: "ParseState br ?i m (get_data (get_initial_state (rd_proof e))) = Inr p0" "good ?i m p0"
    by (auto simp: ready_def)
  have kn: "rs_known ?env ?i (boardStates cm)" using inv(1) by (simp add: cm_inv_def)
  have v: "VerifyStateProof ?env ?i m (reinitState e) (rd_proof e) = Inr (UnverifiedProofEndState (rd_proof e))"
    and q: "ParseState br ?i m (UnverifiedProofEndState (rd_proof e)) = Inr p"
    and cv: "CheckVersionedProto ?env m (rd_proof e)"
    using known_current [OF inv] e me rules_br by auto
  have range: "0 \<le> t" "t < int (participants_size m)"
    using turn_defined [OF me(3)] t by auto
  obtain pf' p1 where pf': "ExtendStateProof ?env (me_signer E) ?i m (rd_proof e) mv = Inr pf'"
    "VerifyStateProof ?env ?i m (reinitState e) pf' = Inr s"
    "ParseState br ?i m (get_data (get_initial_state pf')) = Inr p1" "good ?i m p1"
    "CheckProtoVersion (GetProtoVersion br m) (rd_proof e) \<longrightarrow> CheckProtoVersion (GetProtoVersion br m) pf'"
    using extend_valid [OF p0 rules_br v q t mv(1) signer_seat [OF range ours] signing] by blast
  have cv': "CheckVersionedProto ?env m pf'"
    using pf'(5) cv by (simp add: CheckVersionedProto_def no_unknown rules_br split: if_splits)
  note cur = e [unfolded current_entry_eq]
  let ?e = "e\<lparr>rd_proof := pf', latestState := p'\<rparr>"
  let ?rs = "set_entry (reinitId (boardStates cm)) ?e (boardStates cm)"
  have u: "UpdateWithMove ?env ?i (reinitId (boardStates cm)) pf' (boardStates cm) = Some (True, ?rs)"
    using cur cv' pf'(2) mv(2) c me by (simp add: UpdateWithMove_def rules_br not_le [symmetric])
  have ne: "reinits (boardStates cm) \<noteq> []" using cur by auto
  have ap: "ApplyLocalMove E mv cm = Some (True, cm\<lparr>boardStates := ?rs\<rparr>)"
    using inv(2) e me pf'(1) u ne
    by (simp add: ApplyLocalMove_def rs_GetMetadata_def rs_GetStateProof_def GetReinitId_def)
  have "cm_inv E (cm\<lparr>boardStates := ?rs\<rparr>)"
    using ApplyLocalMove_moves [OF ap] cm_moves_inv inv(1) by blast
  moreover have "good ?i m p'" using move_parses [OF me(3) mv(1)] mv(2) by auto
  moreover have "current_entry ?rs = Some ?e" by (simp add: current_entry_eq map_of_set_entry)
  ultimately have "ready (cm\<lparr>boardStates := ?rs\<rparr>) p'"
    using inv(2) me(1) pf'(3,4) by (auto simp: ready_def)
  with ap show ?thesis by blast
qed

text \<open>
  The loop over automatic moves returns; afterwards it is not our player's turn or the game has no
  automatic move.
\<close>

definition settled :: "('p, 'g, 't) ChannelManager \<Rightarrow> 'p \<Rightarrow> bool" where
  "settled cm p \<longleftrightarrow> (\<exists>t. pWhoseTurn br p = Some t
     \<and> (t = NO_TURN \<or> get_or [] (participant_name (participants m ! nat t)) \<noteq> me_playerName E
        \<or> (\<exists>g g'. game_inv g p \<and> MaybeAutoMove (me_game E) p g = Some (None, g') \<and> cm_game cm = g')))"

lemma auto_loop_returns:
  assumes "ready cm p" and "game_inv (cm_game cm) p"
  shows "\<exists>found' cm' p'. ProcessAutoMoves_loop E found cm = Some (found', cm') \<and> ready cm' p'
    \<and> game_inv (cm_game cm') p' \<and> settled cm' p' \<and> done_so_far p \<le> done_so_far p'
    \<and> (\<exists>rs g. cm' = cm\<lparr>cm_game := g, boardStates := rs\<rparr>)"
  using assms
proof (induction "bound - done_so_far p" arbitrary: cm p found rule: less_induct)
  case less
  obtain e where e: "current_entry (boardStates cm) = Some e" "rd_meta e = m" "latestState e = p"
    and g: "good (me_channelId E) m p"
    using less.prems(1) by (auto simp: ready_def)
  obtain t where t: "pWhoseTurn br p = Some t" "t = NO_TURN \<or> 0 \<le> t \<and> t < int (participants_size m)"
    using turn_defined [OF g] by blast
  have st: "rs_GetLatestState (boardStates cm) = Some p" "rs_GetMetadata (boardStates cm) = Some m"
    using e by (simp_all add: rs_GetLatestState_def rs_GetMetadata_def)
  note unfold = ProcessAutoMoves_loop.simps [of E found cm]
  show ?case
  proof (cases "t = NO_TURN \<or> get_or [] (participant_name (participants m ! nat t)) \<noteq> me_playerName E")
    case True
    then have "ProcessAutoMoves_loop E found cm = Some (found, cm)"
      using st t by (subst unfold) (auto simp: rules_br)
    moreover have "settled cm p" using True t(1) by (auto simp: settled_def)
    moreover have "cm = cm\<lparr>cm_game := cm_game cm, boardStates := boardStates cm\<rparr>" by simp
    ultimately show ?thesis using less.prems by blast
  next
    case False
    then obtain mo g' where mo: "MaybeAutoMove (me_game E) p (cm_game cm) = Some (mo, g')"
      and r: "case mo of None \<Rightarrow> game_inv g' p
         | Some mv \<Rightarrow> \<exists>s p' c c'. pApplyMove br p mv = Inr s \<and> ParseState br (me_channelId E) m s = Inr p'
             \<and> game_inv g' p' \<and> done_so_far p < done_so_far p'
             \<and> pTurnCount br p = Some c \<and> pTurnCount br p' = Some c' \<and> c < c'"
      using auto_move [OF g less.prems(2) t(1)] by blast
    show ?thesis
    proof (cases mo)
      case None
      then have "ProcessAutoMoves_loop E found cm = Some (found, cm\<lparr>cm_game := g'\<rparr>)"
        using st t False mo by (subst unfold) (auto simp: rules_br)
      moreover have "settled (cm\<lparr>cm_game := g'\<rparr>) p" using mo None t(1) less.prems(2) by (auto simp: settled_def)
      moreover have "ready (cm\<lparr>cm_game := g'\<rparr>) p" using less.prems(1) by (simp add: ready_game)
      moreover have "game_inv (cm_game (cm\<lparr>cm_game := g'\<rparr>)) p" using r None by simp
      moreover have "cm\<lparr>cm_game := g'\<rparr> = cm\<lparr>cm_game := g', boardStates := boardStates cm\<rparr>" by simp
      ultimately show ?thesis by blast
    next
      case (Some mv)
      with r obtain s p' c c' where p': "pApplyMove br p mv = Inr s" "ParseState br (me_channelId E) m s = Inr p'"
        "game_inv g' p'" "done_so_far p < done_so_far p'"
        "pTurnCount br p = Some c" "pTurnCount br p' = Some c'" "c < c'" by auto
      have "ready (cm\<lparr>cm_game := g'\<rparr>) p" using less.prems(1) by (simp add: ready_game)
      from apply_local_move [OF this t(1) _ _ p'(1,2,5-7)] False obtain rs where
        a: "ApplyLocalMove E mv (cm\<lparr>cm_game := g'\<rparr>) = Some (True, cm\<lparr>cm_game := g', boardStates := rs\<rparr>)"
        and ready': "ready (cm\<lparr>cm_game := g', boardStates := rs\<rparr>) p'" by auto
      let ?cm = "cm\<lparr>cm_game := g', boardStates := rs\<rparr>"
      have loop: "ProcessAutoMoves_loop E found cm = ProcessAutoMoves_loop E True ?cm"
        using st t False mo Some a by (subst unfold) (simp add: rules_br)
      have "good (me_channelId E) m p'" using ready' by (auto simp: ready_def)
      then have "bound - done_so_far p' < bound - done_so_far p"
        using p'(4) bounded [of p'] by linarith
      note IH = less.hyps [OF this ready', of True]
      have "game_inv (cm_game ?cm) p'" using p'(3) by simp
      from IH [OF this] obtain found' cm' q rs' g where i: "ProcessAutoMoves_loop E True ?cm = Some (found', cm')"
        "ready cm' q" "game_inv (cm_game cm') q" "settled cm' q" "done_so_far p' \<le> done_so_far q"
        and cm': "cm' = ?cm\<lparr>cm_game := g, boardStates := rs'\<rparr>" by blast
      have "cm' = cm\<lparr>cm_game := g, boardStates := rs'\<rparr>" using cm' by simp
      moreover have "done_so_far p \<le> done_so_far q" using p'(4) i(5) by simp
      ultimately show ?thesis unfolding loop using i(1-4) by blast
    qed
  qed
qed

end

end
