(* ===== verification/GameLogic.thy ===== *)
theory GameLogic
  imports Rng Json Chains
begin

text \<open>
  The interface of the rules of a game (\<open>spacexpansegame/gamelogic.cpp\<close>): the chain and game ID that a
  processor is given, the context with the random numbers of a block, the calls of the rules in such a
  context, and the games that use the old state as undo data.

  The virtual functions get the context as an argument; the code sets a pointer to it around each of
  them and checks that they are not nested.  \<open>None\<close> is an abort of the process.
\<close>

section \<open>Processors with a context\<close>

record GameProcessorWithContext =
  gp_chain :: Chain
  gp_gameId :: string
  gp_rpc :: bool

definition new_GameProcessor :: GameProcessorWithContext where
  "new_GameProcessor = \<lparr>gp_chain = UNKNOWN, gp_gameId = [], gp_rpc = False\<rparr>"

definition GameProcessor_GetChain :: "GameProcessorWithContext \<Rightarrow> Chain option" where
  "GameProcessor_GetChain p = do { check (gp_chain p \<noteq> UNKNOWN); Some (gp_chain p) }"

definition GetGameId :: "GameProcessorWithContext \<Rightarrow> string option" where
  "GetGameId p = do { check (gp_chain p \<noteq> UNKNOWN); Some (gp_gameId p) }"

definition InitialiseGameContext ::
    "Chain \<Rightarrow> string \<Rightarrow> bool \<Rightarrow> GameProcessorWithContext \<Rightarrow> GameProcessorWithContext option" where
  "InitialiseGameContext c ident rpc p = do {
     check (c \<noteq> UNKNOWN);
     check (ident \<noteq> []);
     check (gp_chain p = UNKNOWN);
     Some \<lparr>gp_chain = c, gp_gameId = ident, gp_rpc = rpc\<rparr>
   }"

section \<open>The context of a call\<close>

record Context =
  ctx_logic :: GameProcessorWithContext
  rnd :: Random

definition new_Context :: "GameProcessorWithContext \<Rightarrow> uint256 \<Rightarrow> Context" where
  "new_Context p rndSeed = \<lparr>ctx_logic = p, rnd = Seed rndSeed\<rparr>"

definition Context_GetChain :: "Context \<Rightarrow> Chain option" where
  "Context_GetChain ctx = GameProcessor_GetChain (ctx_logic ctx)"

definition Context_GetGameId :: "Context \<Rightarrow> string option" where
  "Context_GetGameId ctx = GetGameId (ctx_logic ctx)"

section \<open>The rules\<close>

text \<open>The virtual functions of \<open>GameLogic\<close>; an initial state comes with its height and block hash in hex.\<close>

record GameLogic =
  GetInitialStateInternal :: "Context \<Rightarrow> (u32 \<times> string \<times> byte list) option"
  ProcessForwardInternal :: "Context \<Rightarrow> byte list \<Rightarrow> json \<Rightarrow> (byte list \<times> byte list) option"
  ProcessBackwardsInternal :: "Context \<Rightarrow> byte list \<Rightarrow> json \<Rightarrow> byte list \<Rightarrow> byte list option"

definition string_bytes :: "string \<Rightarrow> byte list" where
  "string_bytes s = map of_char s"

definition GetInitialState ::
    "(byte list \<Rightarrow> uint256) \<Rightarrow> GameProcessorWithContext \<Rightarrow> GameLogic \<Rightarrow> (u32 \<times> string \<times> byte list) option" where
  "GetInitialState sha p rules = do {
     gameId \<leftarrow> GetGameId p;
     let rndSeed = sha (string_bytes ''initial state'' @ string_bytes gameId);
     GetInitialStateInternal rules (new_Context p rndSeed)
   }"

definition BlockRngSeed :: "(byte list \<Rightarrow> uint256) \<Rightarrow> string \<Rightarrow> json \<Rightarrow> uint256 option" where
  "BlockRngSeed sha gameId blockData = do {
     check (gameId \<noteq> []);
     blk \<leftarrow> json_at blockData ''block'';
     check (isObject blk);
     let coreSeedVal = member blk ''rngseed'';
     check (isString coreSeedVal);
     hex \<leftarrow> asString coreSeedVal;
     let r = FromHex hex SetNull;
     check (fst r);
     Some (sha (string_bytes ''block'' @ string_bytes gameId @ GetBinaryString (snd r)))
   }"

definition ProcessForward ::
    "(byte list \<Rightarrow> uint256) \<Rightarrow> GameProcessorWithContext \<Rightarrow> GameLogic \<Rightarrow> byte list \<Rightarrow> json
      \<Rightarrow> (byte list \<times> byte list) option" where
  "ProcessForward sha p rules oldState blockData = do {
     gameId \<leftarrow> GetGameId p;
     rndSeed \<leftarrow> BlockRngSeed sha gameId blockData;
     ProcessForwardInternal rules (new_Context p rndSeed) oldState blockData
   }"

definition ProcessBackwards ::
    "(byte list \<Rightarrow> uint256) \<Rightarrow> GameProcessorWithContext \<Rightarrow> GameLogic \<Rightarrow> byte list \<Rightarrow> json \<Rightarrow> byte list
      \<Rightarrow> byte list option" where
  "ProcessBackwards sha p rules newState blockData undoData = do {
     gameId \<leftarrow> GetGameId p;
     rndSeed \<leftarrow> BlockRngSeed sha gameId blockData;
     ProcessBackwardsInternal rules (new_Context p rndSeed) newState blockData undoData
   }"

text \<open>The JSON form of a state is the state itself as a string, unless a game overrides it.\<close>

definition GameLogic_GameStateToJson :: "byte list \<Rightarrow> json" where
  "GameLogic_GameStateToJson d = JString (map (\<lambda>b. char_of (unat b)) d)"

section \<open>Games with the old state as undo data\<close>

record CachingGame =
  caching_initial :: "Context \<Rightarrow> (u32 \<times> string \<times> byte list) option"
  UpdateState :: "Context \<Rightarrow> byte list \<Rightarrow> json \<Rightarrow> byte list option"

definition CachingGame_ProcessForwardInternal ::
    "CachingGame \<Rightarrow> Context \<Rightarrow> byte list \<Rightarrow> json \<Rightarrow> (byte list \<times> byte list) option" where
  "CachingGame_ProcessForwardInternal g ctx oldState blockData = do {
     newState \<leftarrow> UpdateState g ctx oldState blockData;
     Some (newState, oldState)
   }"

definition CachingGame_ProcessBackwardsInternal ::
    "CachingGame \<Rightarrow> Context \<Rightarrow> byte list \<Rightarrow> json \<Rightarrow> byte list \<Rightarrow> byte list option" where
  "CachingGame_ProcessBackwardsInternal g ctx newState blockData undoData = Some undoData"

definition CachingGame_rules :: "CachingGame \<Rightarrow> GameLogic" where
  "CachingGame_rules g = \<lparr>GetInitialStateInternal = caching_initial g,
     ProcessForwardInternal = CachingGame_ProcessForwardInternal g,
     ProcessBackwardsInternal = CachingGame_ProcessBackwardsInternal g\<rparr>"

section \<open>Undoing\<close>

text \<open>What the framework relies on: going backwards with the undo data of a block restores the old state.\<close>

locale undoable_rules =
  fixes rules :: GameLogic
  assumes undo_internal: "ProcessForwardInternal rules ctx oldState blockData = Some (newState, undo)
    \<Longrightarrow> ProcessBackwardsInternal rules ctx newState blockData undo = Some oldState"
begin

lemma undo_block:
  "ProcessForward sha p rules oldState blockData = Some (newState, undo)
    \<Longrightarrow> ProcessBackwards sha p rules newState blockData undo = Some oldState"
  by (auto simp: ProcessForward_def ProcessBackwards_def undo_internal split: Option.bind_splits)

end

interpretation caching: undoable_rules "CachingGame_rules g" for g
  by unfold_locales
    (auto simp: CachingGame_rules_def CachingGame_ProcessForwardInternal_def CachingGame_ProcessBackwardsInternal_def
      split: Option.bind_splits)

end
