(* ===== verification/PendingMoves.thy ===== *)
theory PendingMoves
  imports Uint256 Json
begin

text \<open>
  The tracking of pending moves (\<open>spacexpansegame/pendingmoves.cpp\<close>).  The virtual functions of a concrete
  processor work on its own part \<open>'u\<close> of the state; the context that the code sets around them is an
  argument.  The mempool that SpaceXpanse Core returns is an argument too, \<open>None\<close> when the RPC call throws.
  A malformed notification, on which JsonCpp throws or a check fails, is an abort.
\<close>

section \<open>Definitions\<close>

definition BLOCK_QUEUE_SIZE :: nat where
  "BLOCK_QUEUE_SIZE = 100"

record 'u pending_rules =
  pend_Clear :: "'u \<Rightarrow> 'u"
  pend_AddPendingMove :: "byte list \<Rightarrow> json \<Rightarrow> json \<Rightarrow> 'u \<Rightarrow> 'u option"
  pend_ToJson :: "'u \<Rightarrow> json option"

record 'u PendingMoveProcessor =
  known_moves :: "(uint256 \<times> json) list"
  blockQueue :: "json list"
  pend_state :: 'u

definition isArray :: "json \<Rightarrow> bool" where
  "isArray j = (case j of JArray _ \<Rightarrow> True | _ \<Rightarrow> False)"

fun GetMoveTxid :: "json \<Rightarrow> uint256 option" where
  "GetMoveTxid (JArray []) = None"
| "GetMoveTxid (JArray (mv # mvs)) = GetMoveTxid mv"
| "GetMoveTxid (JObject ms) = do {
     let txidVal = member (JObject ms) ''txid'';
     check (isString txidVal);
     hex \<leftarrow> asString txidVal;
     let r = FromHex hex SetNull;
     check (fst r);
     Some (snd r)
   }"
| "GetMoveTxid _ = None"

fun add_moves ::
    "'u pending_rules \<Rightarrow> byte list \<Rightarrow> json \<Rightarrow> uint256 option \<Rightarrow> json list \<Rightarrow> 'u \<Rightarrow> 'u option" where
  "add_moves rules st blk lastTxid [] u = Some u"
| "add_moves rules st blk lastTxid (mv # mvs) u = do {
     curTxid \<leftarrow> GetMoveTxid mv;
     check (lastTxid = None \<or> lastTxid = Some curTxid);
     check (isObject mv);
     u' \<leftarrow> pend_AddPendingMove rules st blk mv u;
     add_moves rules st blk (Some curTxid) mvs u'
   }"

definition AddMoveOrMoves :: "'u pending_rules \<Rightarrow> byte list \<Rightarrow> json \<Rightarrow> json \<Rightarrow> 'u \<Rightarrow> 'u option" where
  "AddMoveOrMoves rules st blk moves u =
    (if isObject moves then pend_AddPendingMove rules st blk moves u
     else do { check (isArray moves); add_moves rules st blk None (json_elems moves) u })"

text \<open>The loop over the mempool: known transactions are kept, and added when there is a context.\<close>

definition emplace :: "'k :: linorder \<Rightarrow> 'a \<Rightarrow> ('k \<times> 'a) list \<Rightarrow> ('k \<times> 'a) list" where
  "emplace k v ms = (if map_of ms k = None then member_set k v ms else ms)"

definition parse_txid :: "json \<Rightarrow> uint256 option" where
  "parse_txid txidStr = do {
     check (isString txidStr);
     hex \<leftarrow> asString txidStr;
     let r = FromHex hex SetNull;
     check (fst r);
     Some (snd r)
   }"

fun reset_loop ::
    "'u pending_rules \<Rightarrow> (byte list \<times> json) option \<Rightarrow> (uint256 \<times> json) list \<Rightarrow> json list
      \<Rightarrow> (uint256 \<times> json) list \<Rightarrow> 'u \<Rightarrow> ((uint256 \<times> json) list \<times> 'u) option" where
  "reset_loop rules ctx known [] newPending u = Some (newPending, u)"
| "reset_loop rules ctx known (t # ts) newPending u = do {
     txid \<leftarrow> parse_txid t;
     case map_of known txid of
       None \<Rightarrow> reset_loop rules ctx known ts newPending u
     | Some mv \<Rightarrow> do {
         u' \<leftarrow> (case ctx of None \<Rightarrow> Some u | Some c \<Rightarrow> AddMoveOrMoves rules (fst c) (snd c) mv u);
         reset_loop rules ctx known ts (emplace txid mv newPending) u'
       }
   }"

definition pending_Reset ::
    "'u pending_rules \<Rightarrow> json option \<Rightarrow> byte list \<Rightarrow> 'u PendingMoveProcessor \<Rightarrow> 'u PendingMoveProcessor outcome" where
  "pending_Reset rules rawmempool st p =
    (case rawmempool of
       None \<Rightarrow> Thrown p
     | Some mempool \<Rightarrow>
         let u = pend_Clear rules (pend_state p) in
         obind (ocheck (blockQueue p = [] \<or> isObject (last (blockQueue p))) p) (\<lambda>p.
         let ctx = (if blockQueue p = [] then None else Some (st, last (blockQueue p))) in
         case reset_loop rules ctx (known_moves p) (json_elems mempool) [] u of
           None \<Rightarrow> Aborted
         | Some (newPending, u') \<Rightarrow> Done (p\<lparr>known_moves := newPending, pend_state := u'\<rparr>)))"

text \<open>A block in the queue has a member \<open>hash\<close>, so that reading it does not insert one.\<close>

definition attach_queue :: "json \<Rightarrow> json list \<Rightarrow> json list" where
  "attach_queue blk q =
    (let q' = (if q \<noteq> [] \<and> member (last q) ''hash'' \<noteq> member blk ''parent'' then [] else q) @ [blk] in
     drop (length q' - BLOCK_QUEUE_SIZE) q')"

definition ProcessAttachedBlock ::
    "'u pending_rules \<Rightarrow> json option \<Rightarrow> byte list \<Rightarrow> json \<Rightarrow> 'u PendingMoveProcessor \<Rightarrow> 'u PendingMoveProcessor outcome" where
  "ProcessAttachedBlock rules rawmempool st blockData p =
    (case json_at blockData ''block'' of
       None \<Rightarrow> Aborted
     | Some blk \<Rightarrow> obind (ocheck (isObject blk) p)
         (\<lambda>p. pending_Reset rules rawmempool st (p\<lparr>blockQueue := attach_queue blk (blockQueue p)\<rparr>)))"

definition detach_queue :: "json \<Rightarrow> json list \<Rightarrow> json list" where
  "detach_queue blk q = (if q = [] then [] else if last q = blk then butlast q else [])"

fun add_unconfirmed :: "json list \<Rightarrow> (uint256 \<times> json) list \<Rightarrow> (uint256 \<times> json) list option" where
  "add_unconfirmed [] known = Some known"
| "add_unconfirmed (mv # mvs) known = do { txid \<leftarrow> GetMoveTxid mv; add_unconfirmed mvs (emplace txid mv known) }"

definition ProcessDetachedBlock ::
    "'u pending_rules \<Rightarrow> json option \<Rightarrow> byte list \<Rightarrow> json \<Rightarrow> 'u PendingMoveProcessor \<Rightarrow> 'u PendingMoveProcessor outcome" where
  "ProcessDetachedBlock rules rawmempool st blockData p =
    (case do {
       mvArray \<leftarrow> json_at blockData ''moves'';
       check (isArray mvArray);
       known \<leftarrow> add_unconfirmed (json_elems mvArray) (known_moves p);
       Some (p\<lparr>known_moves := known, blockQueue := detach_queue (member blockData ''block'') (blockQueue p)\<rparr>)
     } of
       None \<Rightarrow> Aborted
     | Some p' \<Rightarrow> pending_Reset rules rawmempool st p')"

definition ProcessTx ::
    "'u pending_rules \<Rightarrow> json option \<Rightarrow> byte list \<Rightarrow> json \<Rightarrow> 'u PendingMoveProcessor \<Rightarrow> 'u PendingMoveProcessor outcome" where
  "ProcessTx rules rawmempool st moves p =
    obind (ocheck (isObject moves \<or> isArray moves) p) (\<lambda>p.
    if isArray moves \<and> json_size moves = 0 then Done p
    else obind (ocheck (isArray moves \<longrightarrow> list_all isObject (json_elems moves)) p) (\<lambda>p.
    case GetMoveTxid moves of
      None \<Rightarrow> Aborted
    | Some txid \<Rightarrow>
        (case map_of (known_moves p) txid of
           Some mv \<Rightarrow>
             if mv = moves then Done p
             else pending_Reset rules rawmempool st (p\<lparr>known_moves := member_set txid moves (known_moves p)\<rparr>)
         | None \<Rightarrow>
             let p' = p\<lparr>known_moves := member_set txid moves (known_moves p)\<rparr> in
             if blockQueue p = [] then Done p'
             else obind (ocheck (isObject (last (blockQueue p))) p') (\<lambda>p'.
               case AddMoveOrMoves rules st (last (blockQueue p)) moves (pend_state p') of
                 None \<Rightarrow> Aborted
               | Some u \<Rightarrow> Done (p'\<lparr>pend_state := u\<rparr>)))))"

section \<open>What the pending state is\<close>

text \<open>
  The specification: the pending state is what adding all known transactions to an empty state gives, each
  of them once, on the last confirmed state and block.  Without a block there are no pending moves.
\<close>

fun replay :: "'u pending_rules \<Rightarrow> byte list \<Rightarrow> json \<Rightarrow> json list \<Rightarrow> 'u \<Rightarrow> 'u option" where
  "replay rules st blk [] u = Some u"
| "replay rules st blk (mv # mvs) u = do { u' \<leftarrow> AddMoveOrMoves rules st blk mv u; replay rules st blk mvs u' }"

lemma replay_append:
  "replay rules st blk (xs @ ys) u = do { u' \<leftarrow> replay rules st blk xs u; replay rules st blk ys u' }"
  by (induction xs arbitrary: u) (auto split: Option.bind_splits)

definition queue_ok :: "json list \<Rightarrow> bool" where
  "queue_ok q \<longleftrightarrow> length q \<le> BLOCK_QUEUE_SIZE \<and> list_all isObject q
     \<and> successively (\<lambda>a b. member a ''hash'' = member b ''parent'') q"

definition move_of :: "(uint256 \<times> json) list \<Rightarrow> uint256 \<Rightarrow> json" where
  "move_of known t = the (map_of known t)"

definition pending_inv :: "'u pending_rules \<Rightarrow> 'u \<Rightarrow> byte list \<Rightarrow> 'u PendingMoveProcessor \<Rightarrow> bool" where
  "pending_inv rules blank st p \<longleftrightarrow> tbl_ok (known_moves p) \<and> queue_ok (blockQueue p)
     \<and> (\<exists>txs. distinct txs \<and> set txs = dom (map_of (known_moves p))
       \<and> pend_state p = (if blockQueue p = [] then blank
           else the (replay rules st (last (blockQueue p)) (map (move_of (known_moves p)) txs) blank))
       \<and> (blockQueue p \<noteq> [] \<longrightarrow> replay rules st (last (blockQueue p)) (map (move_of (known_moves p)) txs) blank \<noteq> None))"

lemma tbl_ok_emplace [simp]: "tbl_ok ms \<Longrightarrow> tbl_ok (emplace k v ms)"
  by (simp add: emplace_def)

lemma lookup_emplace: "tbl_ok ms \<Longrightarrow> map_of (emplace k v ms) = (if map_of ms k = None then (map_of ms)(k \<mapsto> v) else map_of ms)"
  by (simp add: emplace_def)

text \<open>The loop over the mempool, without and with a context.\<close>

lemma reset_loop_known:
  assumes "reset_loop rules ctx known ts np u = Some (np', u')" and "tbl_ok np" and "map_of np \<subseteq>\<^sub>m map_of known"
  shows "tbl_ok np' \<and> map_of np' \<subseteq>\<^sub>m map_of known
    \<and> dom (map_of np') = dom (map_of np) \<union> {t \<in> dom (map_of known). Some t \<in> parse_txid ` set ts}"
  using assms
proof (induction ts arbitrary: np u)
  case (Cons t ts)
  obtain x where x: "parse_txid t = Some x" using Cons.prems(1) by (auto split: Option.bind_splits)
  show ?case
  proof (cases "map_of known x")
    case None
    with Cons.IH [of np u] Cons.prems x show ?thesis by auto
  next
    case (Some mv)
    with Cons.prems(1) x obtain u1 where "reset_loop rules ctx known ts (emplace x mv np) u1 = Some (np', u')"
      by (auto split: Option.bind_splits)
    moreover have "map_of (emplace x mv np) \<subseteq>\<^sub>m map_of known" "tbl_ok (emplace x mv np)"
      using Cons.prems Some by (auto simp: lookup_emplace map_le_def)
    moreover have "dom (map_of (emplace x mv np)) = insert x (dom (map_of np))"
      using Cons.prems(2) by (auto simp: lookup_emplace)
    ultimately show ?thesis using Cons.IH x Some by auto
  qed
qed simp

lemma reset_loop_none: "reset_loop rules None known ts np u = Some (np', u') \<Longrightarrow> u' = u"
  by (induction ts arbitrary: np) (auto split: Option.bind_splits option.splits)

lemma move_of_le: "\<lbrakk>map_of np \<subseteq>\<^sub>m map_of known; set txs \<subseteq> dom (map_of np)\<rbrakk> \<Longrightarrow> map (move_of np) txs = map (move_of known) txs"
  by (rule map_cong [OF refl]) (auto simp: move_of_def map_le_def Ball_def subset_iff)

lemma reset_loop_replay:
  assumes "reset_loop rules (Some (st, blk)) known ts np u = Some (np', u')" and "tbl_ok np"
    and "map_of np \<subseteq>\<^sub>m map_of known" and "distinct (map parse_txid ts)"
    and "distinct txs" "set txs = dom (map_of np)" "Some ` set txs \<inter> parse_txid ` set ts = {}"
    and "replay rules st blk (map (move_of known) txs) u0 = Some u"
  shows "\<exists>txs'. distinct txs' \<and> set txs' = dom (map_of np') \<and> replay rules st blk (map (move_of known) txs') u0 = Some u'"
  using assms
proof (induction ts arbitrary: np u txs)
  case (Cons t ts)
  obtain x where x: "parse_txid t = Some x" using Cons.prems(1) by (auto split: Option.bind_splits)
  show ?case
  proof (cases "map_of known x")
    case None
    with Cons.IH [of np u txs] Cons.prems x show ?thesis by auto
  next
    case (Some mv)
    with Cons.prems(1) x obtain u1 where u1: "AddMoveOrMoves rules st blk mv u = Some u1"
      "reset_loop rules (Some (st, blk)) known ts (emplace x mv np) u1 = Some (np', u')"
      by (auto split: Option.bind_splits)
    have mv: "move_of known x = mv" by (simp add: move_of_def Some)
    have new: "x \<notin> set txs" using Cons.prems(7) x by auto
    then have "map_of np x = None" using Cons.prems(6) by auto
    then have np: "map_of (emplace x mv np) = (map_of np)(x \<mapsto> mv)" using Cons.prems(2) by (simp add: lookup_emplace)
    show ?thesis
    proof (rule Cons.IH [OF u1(2), of "txs @ [x]"])
      show "tbl_ok (emplace x mv np)" using Cons.prems(2) by simp
      show "map_of (emplace x mv np) \<subseteq>\<^sub>m map_of known" using Cons.prems(3) Some by (auto simp: np map_le_def)
      show "distinct (map parse_txid ts)" using Cons.prems(4) by simp
      show "distinct (txs @ [x])" using Cons.prems(5) new by simp
      show "set (txs @ [x]) = dom (map_of (emplace x mv np))" using Cons.prems(6) np by auto
      show "Some ` set (txs @ [x]) \<inter> parse_txid ` set ts = {}" using Cons.prems(4,7) x by force
      show "replay rules st blk (map (move_of known) (txs @ [x])) u0 = Some u1"
        using Cons.prems(8) u1(1) mv by (simp add: replay_append)
    qed
  qed
qed auto

lemma reset_inv:
  assumes "pending_Reset rules (Some mempool) st p = Done p'" and "\<And>u. pend_Clear rules u = blank"
    and "tbl_ok (known_moves p)" "queue_ok (blockQueue p)" "distinct (map parse_txid (json_elems mempool))"
  shows "pending_inv rules blank st p' \<and> blockQueue p' = blockQueue p
    \<and> Some ` dom (map_of (known_moves p')) \<subseteq> parse_txid ` set (json_elems mempool)
    \<and> dom (map_of (known_moves p')) \<subseteq> dom (map_of (known_moves p))"
proof -
  let ?ctx = "if blockQueue p = [] then None else Some (st, last (blockQueue p))"
  obtain np u' where loop: "reset_loop rules ?ctx (known_moves p) (json_elems mempool) [] blank = Some (np, u')"
    and p': "p' = p\<lparr>known_moves := np, pend_state := u'\<rparr>"
    using assms(1,2) by (cases "blockQueue p = [] \<or> isObject (last (blockQueue p))")
      (auto simp: pending_Reset_def Let_def split: option.splits)
  note known = reset_loop_known [OF loop tbl_ok_Nil, simplified]
  have "\<exists>txs. distinct txs \<and> set txs = dom (map_of np)
    \<and> u' = (if blockQueue p = [] then blank else the (replay rules st (last (blockQueue p)) (map (move_of np) txs) blank))
    \<and> (blockQueue p \<noteq> [] \<longrightarrow> replay rules st (last (blockQueue p)) (map (move_of np) txs) blank \<noteq> None)"
  proof (cases "blockQueue p = []")
    case True
    have "finite (dom (map_of np))" by (simp add: finite_dom_map_of)
    from finite_distinct_list [OF this] obtain txs where "set txs = dom (map_of np)" "distinct txs" by blast
    with True loop reset_loop_none show ?thesis by fastforce
  next
    case False
    with loop have l: "reset_loop rules (Some (st, last (blockQueue p))) (known_moves p) (json_elems mempool) [] blank = Some (np, u')"
      by simp
    obtain txs where txs: "distinct txs" "set txs = dom (map_of np)"
      "replay rules st (last (blockQueue p)) (map (move_of (known_moves p)) txs) blank = Some u'"
      using reset_loop_replay [OF l tbl_ok_Nil _ assms(5), of "[]"] by auto
    moreover have eq: "map (move_of np) txs = map (move_of (known_moves p)) txs"
      using known txs(2) by (intro move_of_le) auto
    ultimately show ?thesis using False by (intro exI [of _ txs]) (simp only: eq option.sel, simp)
  qed
  with known assms(4) show ?thesis by (auto simp: p' pending_inv_def)
qed

text \<open>The queue of blocks.\<close>

lemma successively_drop: "successively P xs \<Longrightarrow> successively P (drop n xs)"
  by (metis append_take_drop_id successively_append_iff)

lemma attach_queue_ok: "\<lbrakk>queue_ok q; isObject blk\<rbrakk> \<Longrightarrow> queue_ok (attach_queue blk q) \<and> attach_queue blk q \<noteq> []
    \<and> last (attach_queue blk q) = blk"
proof -
  assume q: "queue_ok q" and blk: "isObject blk"
  define q' where "q' = (if q \<noteq> [] \<and> member (last q) ''hash'' \<noteq> member blk ''parent'' then [] else q) @ [blk]"
  have eq: "attach_queue blk q = drop (length q' - BLOCK_QUEUE_SIZE) q'" by (simp add: attach_queue_def q'_def Let_def)
  have "successively (\<lambda>a b. member a ''hash'' = member b ''parent'') q'"
    using q by (auto simp: q'_def queue_ok_def successively_append_iff)
  moreover have "list_all isObject q'" using q blk by (simp add: q'_def queue_ok_def)
  moreover have "length q' - BLOCK_QUEUE_SIZE < length q'" "last q' = blk" by (simp_all add: q'_def BLOCK_QUEUE_SIZE_def)
  ultimately show ?thesis
    unfolding eq by (auto simp: queue_ok_def successively_drop list_all_iff dest: in_set_dropD)
qed

lemma detach_queue_ok: "queue_ok q \<Longrightarrow> queue_ok (detach_queue blk q)"
  by (cases q rule: rev_cases) (auto simp: detach_queue_def queue_ok_def successively_append_iff)

lemma add_unconfirmed_ok:
  "\<lbrakk>add_unconfirmed mvs known = Some known'; tbl_ok known\<rbrakk> \<Longrightarrow> tbl_ok known' \<and> map_of known \<subseteq>\<^sub>m map_of known'"
proof (induction mvs arbitrary: known)
  case (Cons mv mvs)
  then obtain x where x: "add_unconfirmed mvs (emplace x mv known) = Some known'" by (auto split: Option.bind_splits)
  from Cons.IH [OF this] Cons.prems(2) have "tbl_ok known'" "map_of (emplace x mv known) \<subseteq>\<^sub>m map_of known'" by simp_all
  moreover have "map_of known \<subseteq>\<^sub>m map_of (emplace x mv known)"
    using Cons.prems(2) by (auto simp: lookup_emplace map_le_def)
  ultimately show ?case using map_le_trans by blast
qed simp

section \<open>Sequences of notifications\<close>

datatype pending_event =
    Attached (ev_mempool: "json option") (ev_state: "byte list") (ev_data: json)
  | Unattached (ev_mempool: "json option") (ev_state: "byte list") (ev_data: json)
  | NewTx (ev_mempool: "json option") (ev_state: "byte list") (ev_data: json)

fun pending_step ::
    "'u pending_rules \<Rightarrow> pending_event \<Rightarrow> 'u PendingMoveProcessor \<Rightarrow> 'u PendingMoveProcessor outcome" where
  "pending_step rules (Attached m st d) = ProcessAttachedBlock rules m st d"
| "pending_step rules (Unattached m st d) = ProcessDetachedBlock rules m st d"
| "pending_step rules (NewTx m st d) = ProcessTx rules m st d"

definition mempool_ok :: "json option \<Rightarrow> bool" where
  "mempool_ok m = (case m of None \<Rightarrow> True | Some j \<Rightarrow> distinct (map parse_txid (json_elems j)))"

text \<open>
  \<open>fresh\<close>: no RPC call has failed since the last block was processed.  A transaction comes with the state of
  the last block, and a mempool does not list a transaction twice.
\<close>

inductive pending_run ::
    "'u pending_rules \<Rightarrow> 'u \<Rightarrow> byte list \<Rightarrow> 'u PendingMoveProcessor \<Rightarrow> bool \<Rightarrow> bool" for rules blank where
  new: "pending_run rules blank st \<lparr>known_moves = [], blockQueue = [], pend_state = blank\<rparr> True"
| block: "\<lbrakk>pending_run rules blank st p fresh; pending_step rules ev p = Done p'; mempool_ok (ev_mempool ev);
      \<And>m d. ev \<noteq> NewTx m (ev_state ev) d\<rbrakk> \<Longrightarrow> pending_run rules blank (ev_state ev) p' True"
| tx: "\<lbrakk>pending_run rules blank st p fresh; ProcessTx rules m st d p = Done p'; mempool_ok m\<rbrakk>
    \<Longrightarrow> pending_run rules blank st p' fresh"
| thrown: "\<lbrakk>pending_run rules blank st p fresh; pending_step rules ev p = Thrown p'\<rbrakk>
    \<Longrightarrow> pending_run rules blank (ev_state ev) p' False"

definition pending_wf :: "'u PendingMoveProcessor \<Rightarrow> bool" where
  "pending_wf p \<longleftrightarrow> tbl_ok (known_moves p) \<and> queue_ok (blockQueue p)"

lemma inv_wf: "pending_inv rules blank st p \<Longrightarrow> pending_wf p"
  by (simp add: pending_inv_def pending_wf_def)

lemma reset_done_inv:
  assumes "pending_wf p" "\<And>u. pend_Clear rules u = blank" "mempool_ok m"
    and done_reset: "pending_Reset rules m st p = Done p'"
  shows "pending_inv rules blank st p'"
proof (cases m)
  case None
  with done_reset show ?thesis by (simp add: pending_Reset_def)
next
  case (Some j)
  with reset_inv [of rules j st p p' blank] done_reset assms(1-3) show ?thesis
    by (simp add: pending_wf_def mempool_ok_def)
qed

lemma thrown_wf: "\<lbrakk>Thrown p' = pending_Reset rules m st p; pending_wf p\<rbrakk> \<Longrightarrow> pending_wf p'"
  by (cases "blockQueue p = [] \<or> isObject (last (blockQueue p))")
    (auto simp: pending_Reset_def Let_def split: option.splits if_splits)

lemma attached_cases:
  assumes "ProcessAttachedBlock rules m st dat p = r" "r \<noteq> Aborted" "pending_wf p"
  obtains p1 where "r = pending_Reset rules m st p1" "pending_wf p1"
proof -
  obtain blk where blk: "json_at dat ''block'' = Some blk" "isObject blk"
    using assms(1,2) by (cases "json_at dat ''block''"; cases "isObject (the (json_at dat ''block''))")
      (auto simp: ProcessAttachedBlock_def)
  show thesis
  proof (rule that)
    show "r = pending_Reset rules m st (p\<lparr>blockQueue := attach_queue blk (blockQueue p)\<rparr>)"
      using assms(1) blk by (simp add: ProcessAttachedBlock_def)
    show "pending_wf (p\<lparr>blockQueue := attach_queue blk (blockQueue p)\<rparr>)"
      using assms(3) attach_queue_ok blk(2) by (auto simp: pending_wf_def)
  qed
qed

lemma detached_cases:
  assumes "ProcessDetachedBlock rules m st dat p = r" "r \<noteq> Aborted" "pending_wf p"
  obtains p1 where "r = pending_Reset rules m st p1" "pending_wf p1"
proof -
  obtain mvs known where k: "json_at dat ''moves'' = Some mvs" "isArray mvs"
    "add_unconfirmed (json_elems mvs) (known_moves p) = Some known"
    using assms(1,2) by (auto simp: ProcessDetachedBlock_def split: option.splits Option.bind_splits if_splits)
  let ?p = "p\<lparr>known_moves := known, blockQueue := detach_queue (member dat ''block'') (blockQueue p)\<rparr>"
  show thesis
  proof (rule that)
    show "r = pending_Reset rules m st ?p" using assms(1) k by (simp add: ProcessDetachedBlock_def)
    show "pending_wf ?p"
      using assms(3) add_unconfirmed_ok [OF k(3)] detach_queue_ok by (auto simp: pending_wf_def)
  qed
qed

lemma block_cases:
  assumes "pending_step rules ev p = r" "r \<noteq> Aborted" "pending_wf p" "\<And>m d. ev \<noteq> NewTx m (ev_state ev) d"
  obtains p1 where "r = pending_Reset rules (ev_mempool ev) (ev_state ev) p1" "pending_wf p1"
proof (cases ev)
  case (Attached m st d)
  then obtain p1 where "r = pending_Reset rules m st p1" "pending_wf p1"
    using attached_cases [OF _ assms(2,3), of rules m st d] assms(1) by auto
  with that Attached show ?thesis by simp
next
  case (Unattached m st d)
  then obtain p1 where "r = pending_Reset rules m st p1" "pending_wf p1"
    using detached_cases [OF _ assms(2,3), of rules m st d] assms(1) by auto
  with that Unattached show ?thesis by simp
qed (use assms(4) in auto)

text \<open>A new transaction is known, waits for a block, makes the state be rebuilt, or is added to it.\<close>

lemma tx_cases:
  assumes "ProcessTx rules m st moves p = r" "r \<noteq> Aborted" "pending_wf p"
  obtains (same) "r = Done p"
    | (reset) p1 where "r = pending_Reset rules m st p1" "pending_wf p1"
    | (wait) t where "map_of (known_moves p) t = None" "blockQueue p = []"
        "r = Done (p\<lparr>known_moves := member_set t moves (known_moves p)\<rparr>)"
    | (add) t u where "map_of (known_moves p) t = None" "blockQueue p \<noteq> []"
        "AddMoveOrMoves rules st (last (blockQueue p)) moves (pend_state p) = Some u"
        "r = Done (p\<lparr>known_moves := member_set t moves (known_moves p), pend_state := u\<rparr>)"
proof -
  have chk: "isObject moves \<or> isArray moves"
    using assms(1,2) by (cases "isObject moves \<or> isArray moves") (auto simp: ProcessTx_def)
  show thesis
  proof (cases "isArray moves \<and> json_size moves = 0")
    case True
    with chk assms(1) show thesis by (intro same) (auto simp: ProcessTx_def)
  next
    case nonempty: False
    obtain t where t: "GetMoveTxid moves = Some t" and objs: "isArray moves \<longrightarrow> list_all isObject (json_elems moves)"
      using assms(1,2) chk nonempty
      by (cases "isArray moves \<longrightarrow> list_all isObject (json_elems moves)"; cases "GetMoveTxid moves")
        (auto simp: ProcessTx_def)
    have wf: "pending_wf (p\<lparr>known_moves := member_set t moves (known_moves p)\<rparr>)"
      using assms(3) by (simp add: pending_wf_def)
    have eq: "r = (case map_of (known_moves p) t of
        Some mv \<Rightarrow> if mv = moves then Done p
          else pending_Reset rules m st (p\<lparr>known_moves := member_set t moves (known_moves p)\<rparr>)
      | None \<Rightarrow> if blockQueue p = [] then Done (p\<lparr>known_moves := member_set t moves (known_moves p)\<rparr>)
          else obind (ocheck (isObject (last (blockQueue p))) (p\<lparr>known_moves := member_set t moves (known_moves p)\<rparr>)) (\<lambda>p'.
            case AddMoveOrMoves rules st (last (blockQueue p)) moves (pend_state p') of
              None \<Rightarrow> Aborted | Some u \<Rightarrow> Done (p'\<lparr>pend_state := u\<rparr>)))"
      using assms(1) chk nonempty objs
      by (cases "map_of (known_moves p) t"; cases "blockQueue p = []") (simp_all add: ProcessTx_def t Let_def)
    show thesis
    proof (cases "map_of (known_moves p) t")
      case (Some mv)
      with eq wf same reset show thesis by (cases "mv = moves") auto
    next
      case None
      have "isObject (last (blockQueue p))" if "blockQueue p \<noteq> []"
        using that assms(3) by (simp add: pending_wf_def queue_ok_def list_all_iff)
      with None eq wait [OF None] add [OF None] assms(2) show thesis
        by (cases "blockQueue p = []") (auto split: option.splits)
    qed
  qed
qed

lemma add_inv:
  assumes "pending_inv rules blank st p" "map_of (known_moves p) t = None" "blockQueue p \<noteq> []"
    and "AddMoveOrMoves rules st (last (blockQueue p)) moves (pend_state p) = Some u"
  shows "pending_inv rules blank st (p\<lparr>known_moves := member_set t moves (known_moves p), pend_state := u\<rparr>)"
proof -
  let ?k = "member_set t moves (known_moves p)" and ?blk = "last (blockQueue p)"
  obtain txs where txs: "distinct txs" "set txs = dom (map_of (known_moves p))"
    "replay rules st ?blk (map (move_of (known_moves p)) txs) blank = Some (pend_state p)"
    using assms(1,3) by (auto simp: pending_inv_def)
  have tbl: "tbl_ok (known_moves p)" using assms(1) by (simp add: pending_inv_def)
  have new: "t \<notin> set txs" using txs(2) assms(2) by auto
  have eq: "map (move_of (known_moves p)) txs = map (move_of ?k) txs"
    by (rule move_of_le) (use tbl assms(2) txs(2) in \<open>auto simp: map_le_def\<close>)
  have mv: "move_of ?k t = moves" using tbl by (simp add: move_of_def)
  have "replay rules st ?blk (map (move_of ?k) (txs @ [t])) blank = Some u"
    using txs(3) assms(4) unfolding eq by (simp add: replay_append mv)
  moreover have "distinct (txs @ [t])" "set (txs @ [t]) = dom (map_of ?k)" using new txs tbl by auto
  ultimately show ?thesis
    using assms(1,3) tbl by (intro pending_inv_def [THEN iffD2] conjI exI [of _ "txs @ [t]"])
      (simp_all add: pending_inv_def)
qed

lemma wait_inv:
  assumes "pending_inv rules blank st p" "blockQueue p = []"
  shows "pending_inv rules blank st (p\<lparr>known_moves := member_set t moves (known_moves p)\<rparr>)"
proof -
  have "finite (dom (map_of (member_set t moves (known_moves p))))" by (simp add: finite_dom_map_of)
  from finite_distinct_list [OF this] obtain txs where
    "set txs = dom (map_of (member_set t moves (known_moves p)))" "distinct txs" by blast
  with assms show ?thesis by (auto simp: pending_inv_def)
qed

lemma pending_run_inv:
  assumes "\<And>u. pend_Clear rules u = blank" and "pending_run rules blank st p fresh"
  shows "pending_wf p \<and> (fresh \<longrightarrow> pending_inv rules blank st p)"
  using assms(2)
proof induction
  case (new st)
  then show ?case by (auto simp: pending_wf_def pending_inv_def queue_ok_def intro: exI [of _ "[]"])
next
  case (block st p fresh ev p')
  obtain p1 where p1: "Done p' = pending_Reset rules (ev_mempool ev) (ev_state ev) p1" "pending_wf p1"
    using block_cases [OF block.hyps(2) _ _ block.hyps(4)] block.IH by auto
  have "pending_inv rules blank (ev_state ev) p'"
    using reset_done_inv [OF p1(2) assms(1) block.hyps(3) p1(1) [symmetric]] .
  then show ?case by (simp add: inv_wf)
next
  case (tx st p fresh m d p')
  have wf: "pending_wf p" using tx.IH by simp
  show ?case
  proof (cases rule: tx_cases [OF tx.hyps(2) outcome.distinct(3) wf, case_names same reset wait add])
    case (reset p1)
    have "pending_inv rules blank st p'"
      using reset_done_inv [OF reset(2) assms(1) tx.hyps(3) reset(1) [symmetric]] .
    then show ?thesis by (simp add: inv_wf)
  next
    case (wait t)
    with tx.IH wait_inv [of rules blank st p t d] wf show ?thesis by (auto simp: pending_wf_def)
  next
    case (add t u)
    with tx.IH add_inv [of rules blank st p t d u] wf show ?thesis by (auto simp: pending_wf_def)
  qed (use tx.IH in auto)
next
  case (thrown st p fresh ev p')
  have wf: "pending_wf p" using thrown.IH by simp
  show ?case
  proof (cases "\<exists>m d. ev = NewTx m (ev_state ev) d")
    case True
    then obtain m d where "ProcessTx rules m (ev_state ev) d p = Thrown p'"
      using thrown.hyps(2) by (metis pending_step.simps(3))
    then show ?thesis
      by (rule tx_cases [OF _ outcome.distinct(5) wf]) (auto dest: thrown_wf)
  next
    case False
    obtain p1 where "Thrown p' = pending_Reset rules (ev_mempool ev) (ev_state ev) p1" "pending_wf p1"
      using block_cases [OF thrown.hyps(2) _ wf] False by auto
    then show ?thesis by (auto dest: thrown_wf)
  qed
qed

section \<open>Properties\<close>

text \<open>
  C21: Whatever blocks are attached and detached and whatever transactions arrive, in any order, and also
  when calls for the mempool have failed in between: unless the last of them did, the pending state is that
  of adding every known transaction exactly once to an empty state, on the last confirmed state and block;
  the queue of blocks is a chain of at most 100 blocks.
\<close>

theorem pending_state_replays:
  assumes "\<And>u. pend_Clear rules u = blank" and "pending_run rules blank st p True"
  shows "queue_ok (blockQueue p) \<and> (\<exists>txs. distinct txs \<and> set txs = dom (map_of (known_moves p))
    \<and> (if blockQueue p = [] then pend_state p = blank
       else replay rules st (last (blockQueue p)) (map (move_of (known_moves p)) txs) blank = Some (pend_state p)))"
proof -
  have "pending_inv rules blank st p" using pending_run_inv [OF assms] by simp
  then show ?thesis by (cases "blockQueue p = []") (auto simp: pending_inv_def)
qed

definition log_rules :: "json list pending_rules" where
  "log_rules = \<lparr>pend_Clear = (\<lambda>u. []), pend_AddPendingMove = (\<lambda>st blk mv u. Some (u @ [mv])),
     pend_ToJson = (\<lambda>u. Some (JArray u))\<rparr>"

definition demo_tx :: json where
  "demo_tx = JObject [(''txid'', JString (ToHex SetNull))]"

definition demo_attached :: json where
  "demo_attached = JObject [(''block'', JObject [(''hash'', JString ''aa''), (''parent'', JString ''99'')])]"

theorem pending_state_replays_witness:
  "\<exists>txs. distinct txs \<and> set txs = {SetNull} \<and> replay log_rules [1] (JObject [(''hash'', JString ''aa''), (''parent'', JString ''99'')])
    (map (move_of [(SetNull, demo_tx)]) txs) [] = Some [demo_tx]"
proof -
  let ?blk = "JObject [(''hash'', JString ''aa''), (''parent'', JString ''99'')]"
  let ?p1 = "\<lparr>known_moves = [], blockQueue = [?blk], pend_state = []\<rparr> :: json list PendingMoveProcessor"
  let ?p2 = "\<lparr>known_moves = [(SetNull, demo_tx)], blockQueue = [?blk], pend_state = [demo_tx]\<rparr>"
  have null: "FromHex (ToHex SetNull) SetNull = (True, SetNull)"
    by (rule hex_roundtrip) (simp add: uint256_wf_def SetNull_def)
  have "pending_run log_rules [] [] \<lparr>known_moves = [], blockQueue = [], pend_state = []\<rparr> True"
    by (rule pending_run.new)
  then have "pending_run log_rules [] (ev_state (Attached (Some (JArray [])) [1] demo_attached)) ?p1 True"
    by (rule pending_run.block)
      (simp_all add: ProcessAttachedBlock_def demo_attached_def json_at_def member_def isObject_def attach_queue_def
        BLOCK_QUEUE_SIZE_def pending_Reset_def json_elems_def log_rules_def mempool_ok_def)
  then have "pending_run log_rules [] [1] ?p1 True" by simp
  then have run: "pending_run log_rules [] [1] ?p2 True"
    by (rule pending_run.tx [where m = "Some (JArray [])" and d = demo_tx])
      (simp_all add: ProcessTx_def demo_tx_def isObject_def isArray_def json_size_def member_def isString_def asString_def
        null AddMoveOrMoves_def log_rules_def mempool_ok_def json_elems_def Let_def)
  have clear: "\<And>u. pend_Clear log_rules u = []" by (simp add: log_rules_def)
  show ?thesis
    using pending_state_replays [OF clear run] by auto
qed

end
