(* ===== verification/Storage.thy ===== *)
theory Storage
  imports Uint256 Tables
begin

text \<open>
  The storage of a game (\<open>spacexpansegame/storage.cpp\<close>): the operations of \<open>StorageInterface\<close> as a record
  of functions, what its users rely on as a locale, and \<open>MemoryStorage\<close>.
\<close>

section \<open>The interface\<close>

record 's storage_ops =
  op_Clear :: "'s \<Rightarrow> 's outcome"
  op_GetCurrentBlockHash :: "'s \<Rightarrow> uint256 option"
  op_GetCurrentGameState :: "'s \<Rightarrow> byte list option"
  op_SetCurrentGameState :: "uint256 \<Rightarrow> byte list \<Rightarrow> 's \<Rightarrow> 's outcome"
  op_GetUndoData :: "uint256 \<Rightarrow> 's \<Rightarrow> byte list option"
  op_AddUndoData :: "uint256 \<Rightarrow> u32 \<Rightarrow> byte list \<Rightarrow> 's \<Rightarrow> 's outcome"
  op_ReleaseUndoData :: "uint256 \<Rightarrow> 's \<Rightarrow> 's outcome"
  op_PruneUndoData :: "u32 \<Rightarrow> 's \<Rightarrow> 's outcome"
  op_BeginTransaction :: "'s \<Rightarrow> 's outcome"
  op_CommitTransaction :: "'s \<Rightarrow> 's outcome"
  op_RollbackTransaction :: "'s \<Rightarrow> 's outcome"

text \<open>The contents of a storage: the current state with its block, and the undo data with heights.\<close>

record contents =
  cur_state :: "(uint256 \<times> byte list) option"
  cur_undo :: "uint256 \<Rightarrow> (u32 \<times> byte list) option"

definition release_undo :: "uint256 \<Rightarrow> contents \<Rightarrow> contents" where
  "release_undo h c = c\<lparr>cur_undo := (cur_undo c)(h := None)\<rparr>"

definition prune_undo :: "u32 \<Rightarrow> contents \<Rightarrow> contents" where
  "prune_undo height c = c\<lparr>cur_undo := (\<lambda>h. case cur_undo c h of
     None \<Rightarrow> None
   | Some e \<Rightarrow> if fst e \<le> height then None else Some e)\<rparr>"

definition no_contents :: contents where
  "no_contents = \<lparr>cur_state = None, cur_undo = (\<lambda>h. None)\<rparr>"

text \<open>
  The contract.  \<open>in_txn\<close>: a transaction is open; \<open>rollable\<close>: it can be rolled back, which holds also after
  a commit that has thrown.  Undo data for a block that has some already may be kept or replaced.
\<close>

locale undo_storage =
  fixes ops :: "'s storage_ops" and ok :: "'s \<Rightarrow> bool" and in_txn :: "'s \<Rightarrow> bool" and rollable :: "'s \<Rightarrow> bool"
    and contents_of :: "'s \<Rightarrow> contents"
  assumes in_txn_rollable: "\<lbrakk>ok s; in_txn s\<rbrakk> \<Longrightarrow> rollable s"
    and get_hash: "ok s \<Longrightarrow> op_GetCurrentBlockHash ops s = map_option fst (cur_state (contents_of s))"
    and get_state: "ok s \<Longrightarrow> op_GetCurrentGameState ops s = map_option snd (cur_state (contents_of s))"
    and get_undo: "ok s \<Longrightarrow> op_GetUndoData ops h s = map_option snd (cur_undo (contents_of s) h)"
    and add_undo: "\<lbrakk>ok s; in_txn s\<rbrakk> \<Longrightarrow> outcome_ok
        (\<lambda>s'. ok s' \<and> in_txn s' \<and> (\<exists>e \<in> insert (height, d) (set_option (cur_undo (contents_of s) h)).
            contents_of s' = (contents_of s)\<lparr>cur_undo := (cur_undo (contents_of s))(h := Some e)\<rparr>))
        (\<lambda>s'. ok s' \<and> in_txn s') (op_AddUndoData ops h height d s)"
    and release: "\<lbrakk>ok s; in_txn s\<rbrakk> \<Longrightarrow> outcome_ok
        (\<lambda>s'. ok s' \<and> in_txn s' \<and> contents_of s' = release_undo h (contents_of s))
        (\<lambda>s'. ok s' \<and> in_txn s') (op_ReleaseUndoData ops h s)"
    and prune: "\<lbrakk>ok s; in_txn s\<rbrakk> \<Longrightarrow> outcome_ok
        (\<lambda>s'. ok s' \<and> in_txn s' \<and> contents_of s' = prune_undo height (contents_of s))
        (\<lambda>s'. ok s' \<and> in_txn s') (op_PruneUndoData ops height s)"
    and begin_txn: "\<lbrakk>ok s; \<not> in_txn s\<rbrakk> \<Longrightarrow> \<exists>s'. op_BeginTransaction ops s = Done s'
        \<and> ok s' \<and> in_txn s' \<and> contents_of s' = contents_of s"
    and commit: "\<lbrakk>ok s; in_txn s\<rbrakk> \<Longrightarrow> outcome_ok
        (\<lambda>s'. ok s' \<and> \<not> in_txn s' \<and> contents_of s' = contents_of s) (\<lambda>s'. ok s' \<and> rollable s')
        (op_CommitTransaction ops s)"
    and rollback: "\<lbrakk>ok s; rollable s\<rbrakk> \<Longrightarrow> \<exists>s'. op_RollbackTransaction ops s = Done s' \<and> ok s' \<and> \<not> in_txn s'"
    and clear: "\<lbrakk>ok s; \<not> in_txn s\<rbrakk> \<Longrightarrow> \<exists>s'. op_Clear ops s = Done s' \<and> ok s' \<and> \<not> in_txn s'
        \<and> contents_of s' = no_contents"

text \<open>With the operation that sets the current state.\<close>

locale storage = undo_storage ops ok in_txn rollable contents_of
  for ops :: "'s storage_ops" and ok in_txn rollable contents_of +
  assumes set_state: "\<lbrakk>ok s; in_txn s; uint256_wf h\<rbrakk> \<Longrightarrow> outcome_ok
        (\<lambda>s'. ok s' \<and> in_txn s' \<and> contents_of s' = (contents_of s)\<lparr>cur_state := Some (h, d)\<rparr>)
        (\<lambda>s'. ok s' \<and> in_txn s') (op_SetCurrentGameState ops h d s)"

text \<open>A storage that rolls back to the contents at the start of the transaction.\<close>

locale undo_rollback = undo_storage ops ok in_txn rollable contents_of
  for ops :: "'s storage_ops" and ok in_txn rollable contents_of +
  fixes base :: "'s \<Rightarrow> contents"
  assumes base_begin: "\<lbrakk>ok s; \<not> in_txn s; op_BeginTransaction ops s = Done s'\<rbrakk> \<Longrightarrow> base s' = contents_of s"
    and base_add: "\<lbrakk>ok s; in_txn s\<rbrakk> \<Longrightarrow> outcome_ok (\<lambda>s'. base s' = base s) (\<lambda>s'. base s' = base s)
        (op_AddUndoData ops h height d s)"
    and base_release: "\<lbrakk>ok s; in_txn s\<rbrakk> \<Longrightarrow> outcome_ok (\<lambda>s'. base s' = base s) (\<lambda>s'. base s' = base s)
        (op_ReleaseUndoData ops h s)"
    and base_prune: "\<lbrakk>ok s; in_txn s\<rbrakk> \<Longrightarrow> outcome_ok (\<lambda>s'. base s' = base s) (\<lambda>s'. base s' = base s)
        (op_PruneUndoData ops height s)"
    and base_commit: "\<lbrakk>ok s; in_txn s\<rbrakk> \<Longrightarrow> outcome_ok (\<lambda>s'. True) (\<lambda>s'. base s' = base s) (op_CommitTransaction ops s)"
    and base_rollback: "\<lbrakk>ok s; rollable s; op_RollbackTransaction ops s = Done s'\<rbrakk> \<Longrightarrow> contents_of s' = base s"

locale rollback_storage = storage ops ok in_txn rollable contents_of + undo_rollback ops ok in_txn rollable contents_of base
  for ops :: "'s storage_ops" and ok in_txn rollable contents_of base +
  assumes base_set: "\<lbrakk>ok s; in_txn s; uint256_wf h\<rbrakk> \<Longrightarrow> outcome_ok (\<lambda>s'. base s' = base s) (\<lambda>s'. base s' = base s)
        (op_SetCurrentGameState ops h d s)"

section \<open>The storage in memory\<close>

record MemoryStorage =
  hasState :: bool
  currentBlock :: uint256
  currentState :: "byte list"
  undoData :: "(uint256 \<times> (u32 \<times> byte list)) list"
  startedTxn :: bool

definition new_MemoryStorage :: MemoryStorage where
  "new_MemoryStorage = \<lparr>hasState = False, currentBlock = SetNull, currentState = [], undoData = [], startedTxn = False\<rparr>"

definition Memory_Clear :: "MemoryStorage \<Rightarrow> MemoryStorage outcome" where
  "Memory_Clear s = obind (ocheck (\<not> startedTxn s) s) (\<lambda>s. Done (s\<lparr>hasState := False, undoData := []\<rparr>))"

definition Memory_GetCurrentBlockHash :: "MemoryStorage \<Rightarrow> uint256 option" where
  "Memory_GetCurrentBlockHash s = (if \<not> hasState s then None else Some (currentBlock s))"

definition Memory_GetCurrentGameState :: "MemoryStorage \<Rightarrow> byte list option" where
  "Memory_GetCurrentGameState s = do { check (hasState s); Some (currentState s) }"

definition Memory_SetCurrentGameState :: "uint256 \<Rightarrow> byte list \<Rightarrow> MemoryStorage \<Rightarrow> MemoryStorage outcome" where
  "Memory_SetCurrentGameState h d s = obind (ocheck (startedTxn s) s)
     (\<lambda>s. Done (s\<lparr>hasState := True, currentBlock := h, currentState := d\<rparr>))"

definition Memory_GetUndoData :: "uint256 \<Rightarrow> MemoryStorage \<Rightarrow> byte list option" where
  "Memory_GetUndoData h s = map_option snd (map_of (undoData s) h)"

text \<open>\<open>emplace\<close> keeps an entry that is there already.\<close>

definition Memory_AddUndoData :: "uint256 \<Rightarrow> u32 \<Rightarrow> byte list \<Rightarrow> MemoryStorage \<Rightarrow> MemoryStorage outcome" where
  "Memory_AddUndoData h height d s = obind (ocheck (startedTxn s) s)
     (\<lambda>s. Done (s\<lparr>undoData := (if map_of (undoData s) h = None then member_set h (height, d) (undoData s)
                                else undoData s)\<rparr>))"

definition Memory_ReleaseUndoData :: "uint256 \<Rightarrow> MemoryStorage \<Rightarrow> MemoryStorage outcome" where
  "Memory_ReleaseUndoData h s = obind (ocheck (startedTxn s) s) (\<lambda>s. Done (s\<lparr>undoData := member_del h (undoData s)\<rparr>))"

definition Memory_PruneUndoData :: "u32 \<Rightarrow> MemoryStorage \<Rightarrow> MemoryStorage outcome" where
  "Memory_PruneUndoData height s = obind (ocheck (startedTxn s) s)
     (\<lambda>s. Done (s\<lparr>undoData := filter (\<lambda>e. \<not> fst (snd e) \<le> height) (undoData s)\<rparr>))"

definition Memory_BeginTransaction :: "MemoryStorage \<Rightarrow> MemoryStorage outcome" where
  "Memory_BeginTransaction s = obind (ocheck (\<not> startedTxn s) s) (\<lambda>s. Done (s\<lparr>startedTxn := True\<rparr>))"

definition Memory_CommitTransaction :: "MemoryStorage \<Rightarrow> MemoryStorage outcome" where
  "Memory_CommitTransaction s = obind (ocheck (startedTxn s) s) (\<lambda>s. Done (s\<lparr>startedTxn := False\<rparr>))"

definition Memory_RollbackTransaction :: "MemoryStorage \<Rightarrow> MemoryStorage outcome" where
  "Memory_RollbackTransaction s = obind (ocheck (startedTxn s) s) (\<lambda>s. Done (s\<lparr>startedTxn := False\<rparr>))"

definition MemoryStorage_ops :: "MemoryStorage storage_ops" where
  "MemoryStorage_ops =
    \<lparr>op_Clear = Memory_Clear, op_GetCurrentBlockHash = Memory_GetCurrentBlockHash,
     op_GetCurrentGameState = Memory_GetCurrentGameState, op_SetCurrentGameState = Memory_SetCurrentGameState,
     op_GetUndoData = Memory_GetUndoData, op_AddUndoData = Memory_AddUndoData,
     op_ReleaseUndoData = Memory_ReleaseUndoData, op_PruneUndoData = Memory_PruneUndoData,
     op_BeginTransaction = Memory_BeginTransaction, op_CommitTransaction = Memory_CommitTransaction,
     op_RollbackTransaction = Memory_RollbackTransaction\<rparr>"

definition memory_contents :: "MemoryStorage \<Rightarrow> contents" where
  "memory_contents s = \<lparr>cur_state = (if hasState s then Some (currentBlock s, currentState s) else None),
     cur_undo = map_of (undoData s)\<rparr>"

definition memory_ok :: "MemoryStorage \<Rightarrow> bool" where
  "memory_ok s \<longleftrightarrow> tbl_ok (undoData s)"

lemmas memory_defs = MemoryStorage_ops_def Memory_Clear_def Memory_GetCurrentBlockHash_def
  Memory_GetCurrentGameState_def Memory_SetCurrentGameState_def Memory_GetUndoData_def Memory_AddUndoData_def
  Memory_ReleaseUndoData_def Memory_PruneUndoData_def Memory_BeginTransaction_def Memory_CommitTransaction_def
  Memory_RollbackTransaction_def

lemma map_of_prune:
  "tbl_ok ms \<Longrightarrow> map_of (filter (\<lambda>e. \<not> fst (snd e) \<le> height) ms)
    = (\<lambda>h. case map_of ms h of None \<Rightarrow> None | Some e \<Rightarrow> if fst e \<le> (height :: u32) then None else Some e)"
  by (rule ext) (simp add: map_of_filter [of ms "\<lambda>e. \<not> fst e \<le> height"] split: option.split)

interpretation memory: storage MemoryStorage_ops memory_ok startedTxn startedTxn memory_contents
proof
  fix s h height d
  assume ok: "memory_ok s" and txn: "startedTxn s"
  have t: "tbl_ok (undoData s)" using ok by (simp add: memory_ok_def)
  show "outcome_ok (\<lambda>s'. memory_ok s' \<and> startedTxn s' \<and> (\<exists>e \<in> insert (height, d) (set_option (cur_undo (memory_contents s) h)).
            memory_contents s' = (memory_contents s)\<lparr>cur_undo := (cur_undo (memory_contents s))(h := Some e)\<rparr>))
        (\<lambda>s'. memory_ok s' \<and> startedTxn s') (op_AddUndoData MemoryStorage_ops h height d s)"
  proof (cases "map_of (undoData s) h")
    case None
    then show ?thesis using t txn by (simp add: memory_defs memory_ok_def memory_contents_def)
  next
    case (Some e)
    then have "(map_of (undoData s))(h \<mapsto> e) = map_of (undoData s)" by auto
    with Some show ?thesis using t txn by (simp add: memory_defs memory_ok_def memory_contents_def)
  qed
next
  fix s h
  assume "memory_ok s"
  then show "op_GetUndoData MemoryStorage_ops h s = map_option snd (cur_undo (memory_contents s) h)"
    by (simp add: memory_defs memory_contents_def)
qed (simp_all add: memory_defs memory_ok_def memory_contents_def no_contents_def release_undo_def prune_undo_def map_of_prune
      tbl_ok_filter)

section \<open>Sequences of calls\<close>

datatype storage_call =
    CallSet uint256 "byte list"
  | CallAdd uint256 u32 "byte list"
  | CallRelease uint256
  | CallPrune u32
  | CallBegin
  | CallCommit
  | CallRollback

fun run_call :: "'s storage_ops \<Rightarrow> storage_call \<Rightarrow> 's \<Rightarrow> 's outcome" where
  "run_call ops (CallSet h d) = op_SetCurrentGameState ops h d"
| "run_call ops (CallAdd h n d) = op_AddUndoData ops h n d"
| "run_call ops (CallRelease h) = op_ReleaseUndoData ops h"
| "run_call ops (CallPrune n) = op_PruneUndoData ops n"
| "run_call ops CallBegin = op_BeginTransaction ops"
| "run_call ops CallCommit = op_CommitTransaction ops"
| "run_call ops CallRollback = op_RollbackTransaction ops"

fun run_calls :: "'s storage_ops \<Rightarrow> storage_call list \<Rightarrow> 's \<Rightarrow> 's outcome" where
  "run_calls ops [] s = Done s"
| "run_calls ops (c # cs) s = obind (run_call ops c s) (run_calls ops cs)"

text \<open>The calls that change the contents, with well-formed hashes.\<close>

definition is_write :: "storage_call \<Rightarrow> bool" where
  "is_write c = (case c of CallSet h d \<Rightarrow> uint256_wf h | CallAdd h n d \<Rightarrow> True | CallRelease h \<Rightarrow> True
     | CallPrune n \<Rightarrow> True | _ \<Rightarrow> False)"

lemma is_write_simps [simp]:
  "is_write (CallSet h d) = uint256_wf h" "is_write (CallAdd h n d)" "is_write (CallRelease h)" "is_write (CallPrune n)"
  "\<not> is_write CallBegin" "\<not> is_write CallCommit" "\<not> is_write CallRollback"
  by (simp_all add: is_write_def)

context storage
begin

lemma write_ok:
  assumes "ok s" "in_txn s" "is_write c"
  shows "outcome_ok (\<lambda>s'. ok s' \<and> in_txn s') (\<lambda>s'. ok s' \<and> in_txn s') (run_call ops c s)"
  using assms
  by (cases c) (auto intro: outcome_ok_mono [OF set_state] outcome_ok_mono [OF add_undo] outcome_ok_mono [OF release]
      outcome_ok_mono [OF prune])

end

context rollback_storage
begin

lemma write_base:
  assumes "ok s" "in_txn s" "is_write c"
  shows "outcome_ok (\<lambda>s'. base s' = base s) (\<lambda>s'. base s' = base s) (run_call ops c s)"
  using assms by (cases c) (simp_all add: base_set base_add base_release base_prune)

end

end
