(* ===== verification/Transactions.thy ===== *)
theory Transactions
  imports Storage
begin

text \<open>
  The batching of transactions (\<open>spacexpansegame/transactionmanager.cpp\<close>).  The manager holds the state
  of the storage that it refers to.
\<close>

section \<open>Definitions\<close>

record 's TransactionManager =
  tm_storage :: "'s option"
  batchSize :: u32
  batchedCommits :: u32
  inTransaction :: bool
  commitFailed :: bool

definition new_TransactionManager :: "'s TransactionManager" where
  "new_TransactionManager =
    \<lparr>tm_storage = None, batchSize = 1, batchedCommits = 0, inTransaction = False, commitFailed = False\<rparr>"

text \<open>An operation of the storage, called through the manager's reference.\<close>

definition on_storage ::
    "('s \<Rightarrow> 's outcome) \<Rightarrow> 's TransactionManager \<Rightarrow> 's TransactionManager outcome" where
  "on_storage f tm = (case tm_storage tm of
     None \<Rightarrow> Aborted
   | Some s \<Rightarrow> (case f s of
       Done s' \<Rightarrow> Done (tm\<lparr>tm_storage := Some s'\<rparr>)
     | Thrown s' \<Rightarrow> Thrown (tm\<lparr>tm_storage := Some s'\<rparr>)
     | Aborted \<Rightarrow> Aborted))"

definition Flush :: "'s storage_ops \<Rightarrow> 's TransactionManager \<Rightarrow> 's TransactionManager outcome" where
  "Flush ops tm = obind (ocheck (\<not> inTransaction tm) tm) (\<lambda>tm.
     obind (ocheck (\<not> commitFailed tm) tm) (\<lambda>tm.
     if batchedCommits tm > 0 then
       obind (if tm_storage tm \<noteq> None then
                (case on_storage (op_CommitTransaction ops) tm of
                   Thrown tm' \<Rightarrow> Thrown (tm'\<lparr>commitFailed := True\<rparr>)
                 | r \<Rightarrow> r)
              else Done tm)
         (\<lambda>tm. Done (tm\<lparr>batchedCommits := 0\<rparr>))
     else Done tm))"

definition destroy_TransactionManager ::
    "'s storage_ops \<Rightarrow> 's TransactionManager \<Rightarrow> 's TransactionManager outcome" where
  "destroy_TransactionManager ops tm = obind (ocheck (\<not> inTransaction tm) tm) (Flush ops)"

definition SetStorage :: "'s storage_ops \<Rightarrow> 's \<Rightarrow> 's TransactionManager \<Rightarrow> 's TransactionManager outcome" where
  "SetStorage ops s tm = obind (Flush ops tm) (\<lambda>tm. Done (tm\<lparr>tm_storage := Some s\<rparr>))"

definition SetBatchSize :: "'s storage_ops \<Rightarrow> u32 \<Rightarrow> 's TransactionManager \<Rightarrow> 's TransactionManager outcome" where
  "SetBatchSize ops sz tm = obind (ocheck (sz \<ge> 1) tm) (\<lambda>tm.
     let tm = tm\<lparr>batchSize := sz\<rparr> in
     if batchedCommits tm \<ge> batchSize tm then
       (if inTransaction tm then Done tm else Flush ops tm)
     else Done tm)"

definition TM_BeginTransaction :: "'s storage_ops \<Rightarrow> 's TransactionManager \<Rightarrow> 's TransactionManager outcome" where
  "TM_BeginTransaction ops tm = obind (ocheck (tm_storage tm \<noteq> None) tm) (\<lambda>tm.
     obind (ocheck (\<not> commitFailed tm) tm) (\<lambda>tm.
     obind (ocheck (\<not> inTransaction tm) tm) (\<lambda>tm.
     let tm = tm\<lparr>inTransaction := True\<rparr> in
     if batchedCommits tm = 0 then on_storage (op_BeginTransaction ops) tm else Done tm)))"

definition TM_CommitTransaction :: "'s storage_ops \<Rightarrow> 's TransactionManager \<Rightarrow> 's TransactionManager outcome" where
  "TM_CommitTransaction ops tm = obind (ocheck (tm_storage tm \<noteq> None) tm) (\<lambda>tm.
     obind (ocheck (\<not> commitFailed tm) tm) (\<lambda>tm.
     obind (ocheck (inTransaction tm) tm) (\<lambda>tm.
     let tm = tm\<lparr>inTransaction := False, batchedCommits := batchedCommits tm + 1\<rparr> in
     if batchedCommits tm \<ge> batchSize tm then Flush ops tm else Done tm)))"

definition TM_RollbackTransaction :: "'s storage_ops \<Rightarrow> 's TransactionManager \<Rightarrow> 's TransactionManager outcome" where
  "TM_RollbackTransaction ops tm = obind (ocheck (tm_storage tm \<noteq> None) tm) (\<lambda>tm.
     obind (ocheck (inTransaction tm \<or> commitFailed tm) tm) (\<lambda>tm.
     let tm = tm\<lparr>inTransaction := False, commitFailed := False\<rparr> in
     obind (on_storage (op_RollbackTransaction ops) tm) (\<lambda>tm. Done (tm\<lparr>batchedCommits := 0\<rparr>))))"

definition TryAbortTransaction :: "'s storage_ops \<Rightarrow> 's TransactionManager \<Rightarrow> 's TransactionManager outcome" where
  "TryAbortTransaction ops tm = obind (ocheck (tm_storage tm \<noteq> None) tm) (\<lambda>tm.
     obind (if inTransaction tm \<or> commitFailed tm \<or> batchedCommits tm > 0
            then on_storage (op_RollbackTransaction ops) tm else Done tm)
       (\<lambda>tm. Done (tm\<lparr>inTransaction := False, commitFailed := False, batchedCommits := 0\<rparr>)))"

text \<open>
  A block with an \<open>ActiveTransaction\<close> that is committed at its end, in an object with a state of its own
  next to the manager.  When the body or the commit throws, the destructor rolls back; when the
  constructor throws, no destructor runs.
\<close>

definition on_manager ::
    "('s TransactionManager \<Rightarrow> 's TransactionManager outcome) \<Rightarrow> 'q \<times> 's TransactionManager
      \<Rightarrow> ('q \<times> 's TransactionManager) outcome" where
  "on_manager f x = (case f (snd x) of
     Done tm \<Rightarrow> Done (fst x, tm)
   | Thrown tm \<Rightarrow> Thrown (fst x, tm)
   | Aborted \<Rightarrow> Aborted)"

definition in_transaction ::
    "'s storage_ops \<Rightarrow> ('q \<times> 's TransactionManager \<Rightarrow> ('q \<times> 's TransactionManager) outcome)
      \<Rightarrow> 'q \<times> 's TransactionManager \<Rightarrow> ('q \<times> 's TransactionManager) outcome" where
  "in_transaction ops body x = obind (on_manager (TM_BeginTransaction ops) x) (\<lambda>x.
     on_throw (obind (body x) (on_manager (TM_CommitTransaction ops))) (on_manager (TM_RollbackTransaction ops)))"

lemma outcome_ok_on_manager:
  "outcome_ok (\<lambda>tm. P (q, tm)) (\<lambda>tm. Q (q, tm)) (f tm) \<Longrightarrow> outcome_ok P Q (on_manager f (q, tm))"
  by (cases "f tm") (simp_all add: on_manager_def)

section \<open>The manager on a storage\<close>

text \<open>
  The invariant: the transaction of the storage is open exactly while the manager has a transaction or
  batched commits; after a failed commit it can be rolled back.
\<close>

definition manager_ok ::
    "('s \<Rightarrow> bool) \<Rightarrow> ('s \<Rightarrow> bool) \<Rightarrow> ('s \<Rightarrow> bool) \<Rightarrow> 's TransactionManager \<Rightarrow> bool" where
  "manager_ok ok in_txn rollable tm \<longleftrightarrow> batchSize tm \<ge> 1 \<and> (\<not> commitFailed tm \<longrightarrow> batchedCommits tm \<noteq> - 1)
     \<and> (\<not> inTransaction tm \<longrightarrow> \<not> commitFailed tm \<longrightarrow> batchedCommits tm < batchSize tm)
     \<and> (\<exists>s. tm_storage tm = Some s \<and> ok s
         \<and> (if commitFailed tm then rollable s \<and> \<not> inTransaction tm
            else in_txn s = (inTransaction tm \<or> batchedCommits tm > 0)))"

definition tm_contents :: "('s \<Rightarrow> contents) \<Rightarrow> 's TransactionManager \<Rightarrow> contents" where
  "tm_contents contents_of tm = contents_of (the (tm_storage tm))"

lemma word_inc_less:
  fixes a b :: u32
  shows "a < b \<Longrightarrow> a + 1 \<noteq> 0" "a \<noteq> - 1 \<Longrightarrow> a + 1 > 0" "\<lbrakk>\<not> b \<le> a + 1; b \<ge> 1\<rbrakk> \<Longrightarrow> a + 1 \<noteq> - 1"
proof -
  show "a \<noteq> - 1 \<Longrightarrow> a + 1 > 0"
    by (metis add.inverse_inverse add_eq_0_iff2 word_gt_0 add.commute)
  show "a < b \<Longrightarrow> a + 1 \<noteq> 0"
    by (metis add_eq_0_iff2 word_order.extremum_strict word_order.extremum leD max_word_max)
  show "\<lbrakk>\<not> b \<le> a + 1; b \<ge> 1\<rbrakk> \<Longrightarrow> a + 1 \<noteq> - 1"
    by (metis word_order.extremum)
qed

lemma word_pos: "1 \<le> (b :: u32) \<Longrightarrow> 0 < b"
  by (simp add: word_le_nat_alt word_less_nat_alt)

context undo_storage
begin

abbreviation "tm_ok \<equiv> manager_ok ok in_txn rollable"
abbreviation "tm_cont \<equiv> tm_contents contents_of"

lemma manager_begin:
  assumes "tm_ok tm" "\<not> inTransaction tm" "\<not> commitFailed tm"
  shows "\<exists>tm'. TM_BeginTransaction ops tm = Done tm' \<and> tm_ok tm' \<and> inTransaction tm' \<and> \<not> commitFailed tm'
    \<and> tm_cont tm' = tm_cont tm \<and> batchedCommits tm' = batchedCommits tm \<and> batchSize tm' = batchSize tm"
proof -
  obtain s where s: "tm_storage tm = Some s" "ok s" "in_txn s = (batchedCommits tm > 0)"
    using assms by (auto simp: manager_ok_def)
  show ?thesis
  proof (cases "batchedCommits tm = 0")
    case True
    then obtain s' where "op_BeginTransaction ops s = Done s'" "ok s'" "in_txn s'" "contents_of s' = contents_of s"
      using begin_txn [OF s(2)] s(3) by auto
    with assms s True show ?thesis
      by (simp add: TM_BeginTransaction_def on_storage_def manager_ok_def tm_contents_def)
  next
    case False
    with assms s show ?thesis
      by (auto simp: TM_BeginTransaction_def manager_ok_def tm_contents_def word_gt_0)
  qed
qed

lemma manager_on_storage:
  assumes s: "tm_storage tm = Some s" and f: "outcome_ok P Q (f s)"
  shows "outcome_ok (\<lambda>tm'. \<exists>s'. tm' = tm\<lparr>tm_storage := Some s'\<rparr> \<and> P s') (\<lambda>tm'. \<exists>s'. tm' = tm\<lparr>tm_storage := Some s'\<rparr> \<and> Q s')
    (on_storage f tm)"
  using s by (rule_tac outcome_ok_cases [OF f]) (auto simp: on_storage_def)

lemma manager_flush:
  assumes "batchSize tm \<ge> 1" "\<not> inTransaction tm" "\<not> commitFailed tm" "batchedCommits tm > 0"
    and s: "tm_storage tm = Some s" "ok s" "in_txn s"
  shows "outcome_ok (\<lambda>tm'. tm_ok tm' \<and> \<not> inTransaction tm' \<and> \<not> commitFailed tm' \<and> batchedCommits tm' = 0
        \<and> batchSize tm' = batchSize tm \<and> tm_cont tm' = contents_of s)
    (\<lambda>tm'. tm_ok tm' \<and> commitFailed tm' \<and> \<not> inTransaction tm') (Flush ops tm)"
proof (rule outcome_ok_cases [OF commit [OF s(2,3)]])
  fix s' assume "op_CommitTransaction ops s = Done s'" "ok s' \<and> \<not> in_txn s' \<and> contents_of s' = contents_of s"
  with assms show ?thesis
    by (simp add: Flush_def on_storage_def manager_ok_def tm_contents_def word_pos)
next
  fix s' assume "op_CommitTransaction ops s = Thrown s'" "ok s' \<and> rollable s'"
  with assms show ?thesis by (simp add: Flush_def on_storage_def manager_ok_def)
qed

lemma manager_commit:
  assumes "tm_ok tm" "inTransaction tm"
  shows "outcome_ok (\<lambda>tm'. tm_ok tm' \<and> \<not> inTransaction tm' \<and> \<not> commitFailed tm' \<and> batchSize tm' = batchSize tm
        \<and> tm_cont tm' = tm_cont tm
        \<and> batchedCommits tm' = (if batchedCommits tm + 1 \<ge> batchSize tm then 0 else batchedCommits tm + 1))
    (\<lambda>tm'. tm_ok tm' \<and> commitFailed tm' \<and> \<not> inTransaction tm') (TM_CommitTransaction ops tm)"
proof -
  obtain s where s: "tm_storage tm = Some s" "ok s" "in_txn s" and nf: "\<not> commitFailed tm"
    using assms by (auto simp: manager_ok_def split: if_splits)
  have pos: "batchSize tm \<ge> 1" and nm: "batchedCommits tm \<noteq> - 1" using assms nf by (simp_all add: manager_ok_def)
  let ?tm = "tm\<lparr>inTransaction := False, batchedCommits := batchedCommits tm + 1\<rparr>"
  have inc: "batchedCommits tm + 1 > 0" using nm by (rule word_inc_less)
  have eq: "TM_CommitTransaction ops tm = (if batchedCommits tm + 1 \<ge> batchSize tm then Flush ops ?tm else Done ?tm)"
    using assms nf s(1) by (simp add: TM_CommitTransaction_def)
  show ?thesis
  proof (cases "batchedCommits tm + 1 \<ge> batchSize tm")
    case False
    with word_inc_less(3) [OF this pos] assms s nf pos inc show ?thesis
      by (simp add: eq manager_ok_def tm_contents_def)
  next
    case True
    have "outcome_ok (\<lambda>tm'. tm_ok tm' \<and> \<not> inTransaction tm' \<and> \<not> commitFailed tm' \<and> batchedCommits tm' = 0
        \<and> batchSize tm' = batchSize ?tm \<and> tm_cont tm' = contents_of s)
      (\<lambda>tm'. tm_ok tm' \<and> commitFailed tm' \<and> \<not> inTransaction tm') (Flush ops ?tm)"
      by (rule manager_flush) (use pos nf inc s in simp_all)
    with True s(1) show ?thesis
      unfolding eq by (auto elim!: outcome_ok_mono simp: tm_contents_def)
  qed
qed

lemma manager_rollback:
  assumes "tm_ok tm" "inTransaction tm \<or> commitFailed tm"
  shows "\<exists>tm' s s'. TM_RollbackTransaction ops tm = Done tm' \<and> tm_ok tm' \<and> \<not> inTransaction tm'
    \<and> \<not> commitFailed tm' \<and> batchedCommits tm' = 0 \<and> batchSize tm' = batchSize tm
    \<and> tm_storage tm = Some s \<and> op_RollbackTransaction ops s = Done s' \<and> rollable s \<and> ok s \<and> tm_storage tm' = Some s'"
proof -
  obtain s where s: "tm_storage tm = Some s" "ok s" "rollable s"
    using assms in_txn_rollable by (auto simp: manager_ok_def split: if_splits)
  obtain s' where s': "op_RollbackTransaction ops s = Done s'" "ok s'" "\<not> in_txn s'"
    using rollback [OF s(2,3)] by blast
  have "0 < batchSize tm" using assms(1) word_pos by (simp add: manager_ok_def)
  with assms s s' show ?thesis
    by (simp add: TM_RollbackTransaction_def on_storage_def manager_ok_def)
qed

lemma manager_abort:
  assumes "tm_ok tm"
  shows "\<exists>tm'. TryAbortTransaction ops tm = Done tm' \<and> tm_ok tm' \<and> \<not> inTransaction tm'
    \<and> \<not> commitFailed tm' \<and> batchedCommits tm' = 0 \<and> batchSize tm' = batchSize tm"
proof -
  obtain s where s: "tm_storage tm = Some s" "ok s"
    using assms by (auto simp: manager_ok_def)
  have pos: "0 < batchSize tm" using assms(1) word_pos by (simp add: manager_ok_def)
  show ?thesis
  proof (cases "inTransaction tm \<or> commitFailed tm \<or> batchedCommits tm > 0")
    case True
    then have "rollable s" using assms s in_txn_rollable [OF s(2)] by (auto simp: manager_ok_def split: if_splits)
    then obtain s' where "op_RollbackTransaction ops s = Done s'" "ok s'" "\<not> in_txn s'"
      using rollback [OF s(2)] by blast
    with assms s pos True show ?thesis
      by (simp add: TryAbortTransaction_def on_storage_def manager_ok_def)
  next
    case False
    with assms s pos show ?thesis by (simp add: TryAbortTransaction_def manager_ok_def)
  qed
qed

lemma manager_batch:
  assumes "tm_ok tm" "\<not> commitFailed tm" "sz \<ge> 1"
  shows "outcome_ok (\<lambda>tm'. tm_ok tm' \<and> inTransaction tm' = inTransaction tm \<and> \<not> commitFailed tm'
        \<and> tm_cont tm' = tm_cont tm \<and> batchSize tm' = sz)
    (\<lambda>tm'. tm_ok tm' \<and> commitFailed tm' \<and> \<not> inTransaction tm \<and> \<not> inTransaction tm') (SetBatchSize ops sz tm)"
proof -
  obtain s where s: "tm_storage tm = Some s" "ok s" "in_txn s = (inTransaction tm \<or> batchedCommits tm > 0)"
    using assms by (auto simp: manager_ok_def)
  let ?tm = "tm\<lparr>batchSize := sz\<rparr>"
  show ?thesis
  proof (cases "batchedCommits tm \<ge> sz \<and> \<not> inTransaction tm")
    case True
    then have pos: "batchedCommits tm > 0" using assms(3) word_pos [of "batchedCommits tm"] by fastforce
    have "outcome_ok (\<lambda>tm'. tm_ok tm' \<and> \<not> inTransaction tm' \<and> \<not> commitFailed tm' \<and> batchedCommits tm' = 0
        \<and> batchSize tm' = batchSize ?tm \<and> tm_cont tm' = contents_of s)
      (\<lambda>tm'. tm_ok tm' \<and> commitFailed tm' \<and> \<not> inTransaction tm') (Flush ops ?tm)"
      by (rule manager_flush) (use assms True pos s in simp_all)
    with True assms s show ?thesis
      by (auto elim!: outcome_ok_mono simp: SetBatchSize_def tm_contents_def)
  next
    case False
    then have eq: "SetBatchSize ops sz tm = Done ?tm"
      using assms(3) by (auto simp: SetBatchSize_def Let_def)
    have "tm_ok ?tm" using False assms s by (auto simp: manager_ok_def not_le)
    then show ?thesis using assms(2) by (simp add: eq tm_contents_def)
  qed
qed

text \<open>A block of writes in an \<open>ActiveTransaction\<close>.\<close>

lemma manager_block:
  assumes "tm_ok tm" "\<not> inTransaction tm" "\<not> commitFailed tm"
    and body: "\<And>tm'. \<lbrakk>tm_ok tm'; inTransaction tm'; tm_cont tm' = tm_cont tm\<rbrakk> \<Longrightarrow> outcome_ok
      (\<lambda>(q', tm'). tm_ok tm' \<and> inTransaction tm' \<and> R q' (tm_cont tm'))
      (\<lambda>(q', tm'). tm_ok tm' \<and> inTransaction tm') (body (q, tm'))"
  shows "outcome_ok (\<lambda>(q', tm'). tm_ok tm' \<and> \<not> inTransaction tm' \<and> \<not> commitFailed tm' \<and> R q' (tm_cont tm'))
    (\<lambda>(q', tm'). tm_ok tm' \<and> \<not> inTransaction tm' \<and> \<not> commitFailed tm') (in_transaction ops body (q, tm))"
proof -
  obtain tm1 where tm1: "TM_BeginTransaction ops tm = Done tm1" "tm_ok tm1" "inTransaction tm1"
    "tm_cont tm1 = tm_cont tm"
    using manager_begin [OF assms(1-3)] by blast
  let ?mid = "\<lambda>(q', tm'). tm_ok tm' \<and> (inTransaction tm' \<or> commitFailed tm')"
  have "outcome_ok (\<lambda>(q', tm'). tm_ok tm' \<and> \<not> inTransaction tm' \<and> \<not> commitFailed tm' \<and> R q' (tm_cont tm'))
      ?mid (obind (body (q, tm1)) (on_manager (TM_CommitTransaction ops)))"
  proof (rule outcome_ok_bind [OF body [OF tm1(2-4)]])
    fix x assume "case x of (q', tm') \<Rightarrow> tm_ok tm' \<and> inTransaction tm' \<and> R q' (tm_cont tm')"
    then obtain q' tm2 where x: "x = (q', tm2)" "tm_ok tm2" "inTransaction tm2" "R q' (tm_cont tm2)" by auto
    show "outcome_ok (\<lambda>(q', tm'). tm_ok tm' \<and> \<not> inTransaction tm' \<and> \<not> commitFailed tm' \<and> R q' (tm_cont tm'))
        ?mid (on_manager (TM_CommitTransaction ops) x)"
      unfolding x(1)
      by (rule outcome_ok_on_manager, rule outcome_ok_mono [OF manager_commit [OF x(2,3)]]) (use x(4) in auto)
  qed auto
  then have "outcome_ok (\<lambda>(q', tm'). tm_ok tm' \<and> \<not> inTransaction tm' \<and> \<not> commitFailed tm' \<and> R q' (tm_cont tm'))
    (\<lambda>(q', tm'). tm_ok tm' \<and> \<not> inTransaction tm' \<and> \<not> commitFailed tm')
    (on_throw (obind (body (q, tm1)) (on_manager (TM_CommitTransaction ops))) (on_manager (TM_RollbackTransaction ops)))"
  proof (rule outcome_ok_on_throw)
    fix x assume "?mid x"
    then obtain q' tm' where x: "x = (q', tm')" "tm_ok tm'" "inTransaction tm' \<or> commitFailed tm'" by auto
    obtain tm'' where "TM_RollbackTransaction ops tm' = Done tm''" "tm_ok tm''" "\<not> inTransaction tm''" "\<not> commitFailed tm''"
      using manager_rollback [OF x(2,3)] by blast
    then show "\<exists>x'. on_manager (TM_RollbackTransaction ops) x = Done x'
        \<and> (case x' of (q', tm') \<Rightarrow> tm_ok tm' \<and> \<not> inTransaction tm' \<and> \<not> commitFailed tm')"
      by (intro exI [of _ "(q', tm'')"]) (simp add: x(1) on_manager_def)
  qed
  then show ?thesis by (simp add: in_transaction_def on_manager_def tm1(1))
qed

end

context storage
begin

lemma manager_write:
  assumes "tm_ok tm" "inTransaction tm" "is_write c"
  shows "outcome_ok (\<lambda>tm'. tm_ok tm' \<and> tm' = tm\<lparr>tm_storage := tm_storage tm'\<rparr>)
    (\<lambda>tm'. tm_ok tm' \<and> tm' = tm\<lparr>tm_storage := tm_storage tm'\<rparr>) (on_storage (run_call ops c) tm)"
proof -
  obtain s where s: "tm_storage tm = Some s" "ok s" "in_txn s" and nf: "\<not> commitFailed tm"
    using assms by (auto simp: manager_ok_def split: if_splits)
  show ?thesis
    by (rule outcome_ok_mono [OF manager_on_storage [where f = "run_call ops c", OF s(1) write_ok [OF s(2,3) assms(3)]]])
      (use assms nf in \<open>auto simp: manager_ok_def\<close>)
qed

end

section \<open>Runs of the manager\<close>

text \<open>
  The calls that users of the manager make, with the contents of the storage at the start of each
  transaction that is batched or running: what a rollback reverts.
\<close>

inductive manager_run ::
    "'s storage_ops \<Rightarrow> ('s \<Rightarrow> contents) \<Rightarrow> ('s \<Rightarrow> bool) \<Rightarrow> 's TransactionManager \<Rightarrow> contents list \<Rightarrow> bool"
  for ops cont idle where
  start: "\<lbrakk>idle s; 1 \<le> sz\<rbrakk> \<Longrightarrow> manager_run ops cont idle
      \<lparr>tm_storage = Some s, batchSize = sz, batchedCommits = 0, inTransaction = False, commitFailed = False\<rparr> []"
| start_txn: "\<lbrakk>manager_run ops cont idle tm log; \<not> inTransaction tm; \<not> commitFailed tm; TM_BeginTransaction ops tm = Done tm'\<rbrakk>
    \<Longrightarrow> manager_run ops cont idle tm' (log @ [tm_contents cont tm])"
| write_call: "\<lbrakk>manager_run ops cont idle tm log; inTransaction tm; is_write c;
      on_storage (run_call ops c) tm = Done tm' \<or> on_storage (run_call ops c) tm = Thrown tm'\<rbrakk>
    \<Longrightarrow> manager_run ops cont idle tm' log"
| commit: "\<lbrakk>manager_run ops cont idle tm log; inTransaction tm; TM_CommitTransaction ops tm = Done tm'\<rbrakk>
    \<Longrightarrow> manager_run ops cont idle tm' (if batchedCommits tm' = 0 then [] else log)"
| commit_failed: "\<lbrakk>manager_run ops cont idle tm log; inTransaction tm; TM_CommitTransaction ops tm = Thrown tm'\<rbrakk>
    \<Longrightarrow> manager_run ops cont idle tm' log"
| rollback: "\<lbrakk>manager_run ops cont idle tm log; inTransaction tm \<or> commitFailed tm; TM_RollbackTransaction ops tm = Done tm'\<rbrakk>
    \<Longrightarrow> manager_run ops cont idle tm' []"

inductive_cases manager_run_cases: "manager_run ops cont idle tm log"

text \<open>What a commit does to the storage.\<close>

lemma commit_done:
  assumes "TM_CommitTransaction ops tm = Done tm'" and "batchedCommits tm' \<noteq> 0"
  shows "tm' = tm\<lparr>inTransaction := False, batchedCommits := batchedCommits tm + 1\<rparr>"
  using assms
  by (cases "batchSize tm \<le> batchedCommits tm + 1"; cases "tm_storage tm";
      cases "inTransaction tm"; cases "commitFailed tm")
    (auto simp: TM_CommitTransaction_def Flush_def on_storage_def Let_def split: if_splits outcome.splits)

lemma commit_thrown:
  assumes "TM_CommitTransaction ops tm = Thrown tm'"
  obtains s s' where "tm_storage tm = Some s" "op_CommitTransaction ops s = Thrown s'"
    "tm_storage tm' = Some s'" "commitFailed tm'" "\<not> inTransaction tm'"
  using assms
  by (cases "batchSize tm \<le> batchedCommits tm + 1"; cases "tm_storage tm";
      cases "inTransaction tm"; cases "commitFailed tm")
    (auto simp: TM_CommitTransaction_def Flush_def on_storage_def Let_def split: if_splits outcome.splits)

context rollback_storage
begin

definition log_ok :: "'s TransactionManager \<Rightarrow> contents list \<Rightarrow> bool" where
  "log_ok tm log \<longleftrightarrow> tm_ok tm \<and> (log \<noteq> [] \<longrightarrow> base (the (tm_storage tm)) = hd log)
    \<and> (commitFailed tm \<longrightarrow> log \<noteq> [])
    \<and> (\<not> commitFailed tm \<longrightarrow> length log = unat (batchedCommits tm) + (if inTransaction tm then 1 else 0))"

lemma run_log_ok:
  assumes "manager_run ops contents_of (\<lambda>s. ok s \<and> \<not> in_txn s) tm log"
  shows "log_ok tm log"
  using assms
proof induction
  case (start s sz)
  then show ?case using word_pos [of sz] by (simp add: log_ok_def manager_ok_def)
next
  case (start_txn tm log tm')
  have ok: "tm_ok tm" and len: "length log = unat (batchedCommits tm)"
    and base: "log \<noteq> [] \<longrightarrow> base (the (tm_storage tm)) = hd log"
    using start_txn by (simp_all add: log_ok_def)
  obtain s where s: "tm_storage tm = Some s" "ok s" "in_txn s = (batchedCommits tm > 0)"
    using ok start_txn(2,3) by (auto simp: manager_ok_def)
  have res: "tm_ok tm'" "inTransaction tm'" "\<not> commitFailed tm'" "batchedCommits tm' = batchedCommits tm"
    using manager_begin [OF ok start_txn(2,3)] start_txn(4) by auto
  have "base (the (tm_storage tm')) = hd (log @ [tm_cont tm])"
  proof (cases "batchedCommits tm = 0")
    case True
    with start_txn(2-4) s obtain s' where "op_BeginTransaction ops s = Done s'" "tm_storage tm' = Some s'"
      by (auto simp: TM_BeginTransaction_def on_storage_def Let_def split: outcome.splits)
    with base_begin [OF s(2) _ this(1)] s True len show ?thesis by (simp add: tm_contents_def)
  next
    case False
    then have "log \<noteq> []" using len by (auto simp: unat_eq_0)
    with False start_txn(2-4) s base show ?thesis by (auto simp: TM_BeginTransaction_def)
  qed
  with res len show ?case by (simp add: log_ok_def)
next
  case (write_call tm log c tm')
  have ok: "tm_ok tm" using write_call by (simp add: log_ok_def)
  obtain s where s: "tm_storage tm = Some s" "ok s" "in_txn s" and nf: "\<not> commitFailed tm"
    using ok write_call(2) by (auto simp: manager_ok_def split: if_splits)
  obtain s' where s': "tm' = tm\<lparr>tm_storage := Some s'\<rparr>"
    "run_call ops c s = Done s' \<or> run_call ops c s = Thrown s'"
    using write_call(4) s(1) by (auto simp: on_storage_def split: outcome.splits)
  have "base s' = base s"
    using write_base [OF s(2,3) write_call(3)] s'(2) by auto
  moreover have "tm_ok tm'" using manager_write [OF ok write_call(2,3)] write_call(4) by auto
  ultimately show ?case using write_call s s' nf by (simp add: log_ok_def)
next
  case (commit tm log tm')
  have ok: "tm_ok tm" and nf: "\<not> commitFailed tm" using commit by (auto simp: log_ok_def manager_ok_def)
  have res: "tm_ok tm'" "\<not> inTransaction tm'" "\<not> commitFailed tm'"
    using manager_commit [OF ok commit(2)] commit(3) by auto
  show ?case
  proof (cases "batchedCommits tm' = 0")
    case True
    with res show ?thesis by (simp add: log_ok_def)
  next
    case False
    note eq = commit_done [OF commit(3) False]
    have "unat (batchedCommits tm + 1) = unat (batchedCommits tm) + 1"
      using False eq unatSuc [of "batchedCommits tm"] by (simp add: add.commute)
    with res commit eq nf False show ?thesis by (auto simp: log_ok_def)
  qed
next
  case (commit_failed tm log tm')
  have ok: "tm_ok tm" using commit_failed by (simp add: log_ok_def)
  obtain s where s: "tm_storage tm = Some s" "ok s" "in_txn s" and nf: "\<not> commitFailed tm"
    using ok commit_failed(2) by (auto simp: manager_ok_def split: if_splits)
  have log: "log \<noteq> []" "base s = hd log" using commit_failed nf s by (auto simp: log_ok_def)
  from commit_thrown [OF commit_failed(3)] s(1) obtain s' where s': "op_CommitTransaction ops s = Thrown s'"
    "tm_storage tm' = Some s'" "commitFailed tm'" by auto
  have "base s' = base s" using base_commit [OF s(2,3)] s'(1) by simp
  moreover have "tm_ok tm'" using manager_commit [OF ok commit_failed(2)] commit_failed(3) by simp
  ultimately show ?case using log s' by (simp add: log_ok_def)
next
  case (rollback tm log tm')
  have ok: "tm_ok tm" using rollback by (simp add: log_ok_def)
  from manager_rollback [OF ok rollback(2)] rollback(3) show ?case by (auto simp: log_ok_def)
qed

text \<open>A rollback reverts all batched transactions and the running one.\<close>

lemma run_rollback:
  assumes "manager_run ops contents_of (\<lambda>s. ok s \<and> \<not> in_txn s) tm log" and "inTransaction tm \<or> commitFailed tm"
  shows "\<exists>tm'. TM_RollbackTransaction ops tm = Done tm' \<and> log \<noteq> [] \<and> tm_cont tm' = hd log
    \<and> (inTransaction tm \<longrightarrow> length log = unat (batchedCommits tm) + 1)"
proof -
  have log: "log_ok tm log" by (rule run_log_ok [OF assms(1)])
  then have ok: "tm_ok tm" by (simp add: log_ok_def)
  have nf: "inTransaction tm \<Longrightarrow> \<not> commitFailed tm" using ok by (auto simp: manager_ok_def)
  have ne: "log \<noteq> []" using log assms(2) nf by (auto simp: log_ok_def)
  obtain tm' s s' where r: "TM_RollbackTransaction ops tm = Done tm'" "tm_storage tm = Some s"
    "op_RollbackTransaction ops s = Done s'" "rollable s" "ok s" "tm_storage tm' = Some s'"
    using manager_rollback [OF ok assms(2)] by blast
  have "contents_of s' = base s" using base_rollback [OF r(5,4,3)] .
  with r log ne nf show ?thesis by (auto simp: log_ok_def tm_contents_def)
qed

end

end
