(* ===== verification/PruningQueue.thy ===== *)
theory PruningQueue
  imports Transactions
begin

text \<open>
  The queue of the latest blocks that decides which undo data is pruned
  (\<open>spacexpansegame/pruningqueue.cpp\<close>).  Its operations work on the queue and on the transaction manager,
  whose storage they change.
\<close>

section \<open>Definitions\<close>

record PruningQueue =
  nBlocks :: u32
  pq_hashes :: "uint256 list"
  initialPruningDone :: bool

definition new_PruningQueue :: "u32 \<Rightarrow> PruningQueue" where
  "new_PruningQueue n = \<lparr>nBlocks = n, pq_hashes = [], initialPruningDone = False\<rparr>"

type_synonym 's pq_state = "PruningQueue \<times> 's TransactionManager"

text \<open>The loop that releases the oldest blocks.\<close>

fun release_front ::
    "'s storage_ops \<Rightarrow> u32 \<Rightarrow> uint256 list \<Rightarrow> 's pq_state \<Rightarrow> 's pq_state outcome" where
  "release_front ops n [] x = Done (fst x\<lparr>pq_hashes := []\<rparr>, snd x)"
| "release_front ops n (h # hs) x =
    (if length (h # hs) > unat n then
       obind (on_manager (on_storage (op_ReleaseUndoData ops h)) (fst x\<lparr>pq_hashes := h # hs\<rparr>, snd x))
         (release_front ops n hs)
     else Done (fst x\<lparr>pq_hashes := h # hs\<rparr>, snd x))"

definition PruneIfTooLong :: "'s storage_ops \<Rightarrow> 's pq_state \<Rightarrow> 's pq_state outcome" where
  "PruneIfTooLong ops x =
    (if length (pq_hashes (fst x)) \<le> unat (nBlocks (fst x)) then Done x
     else in_transaction ops (\<lambda>x. release_front ops (nBlocks (fst x)) (pq_hashes (fst x)) x) x)"

definition SetDesiredSize :: "'s storage_ops \<Rightarrow> u32 \<Rightarrow> 's pq_state \<Rightarrow> 's pq_state outcome" where
  "SetDesiredSize ops n x = PruneIfTooLong ops (fst x\<lparr>nBlocks := n\<rparr>, snd x)"

definition Reset :: "'s pq_state \<Rightarrow> 's pq_state" where
  "Reset x = (fst x\<lparr>pq_hashes := [], initialPruningDone := False\<rparr>, snd x)"

definition AttachBlock :: "'s storage_ops \<Rightarrow> uint256 \<Rightarrow> u32 \<Rightarrow> 's pq_state \<Rightarrow> 's pq_state outcome" where
  "AttachBlock ops h height x =
    (let q = (fst x)\<lparr>pq_hashes := pq_hashes (fst x) @ [h]\<rparr>; x = (q, snd x) in
     obind
       (if \<not> initialPruningDone q \<and> length (pq_hashes q) \<ge> unat (nBlocks q) then
          obind (ocheck (unat (height + 1) \<ge> length (pq_hashes q)) x) (\<lambda>x.
          let frontHeight = height + 1 - of_nat (length (pq_hashes q)) in
          obind (if frontHeight > 0
                 then in_transaction ops (on_manager (on_storage (op_PruneUndoData ops (frontHeight - 1)))) x
                 else Done x)
            (\<lambda>x. Done (fst x\<lparr>initialPruningDone := True\<rparr>, snd x)))
        else Done x)
       (PruneIfTooLong ops))"

definition DetachBlock :: "'s pq_state \<Rightarrow> 's pq_state" where
  "DetachBlock x = (if pq_hashes (fst x) = [] then x else (fst x\<lparr>pq_hashes := butlast (pq_hashes (fst x))\<rparr>, snd x))"

section \<open>What is kept\<close>

text \<open>
  The undo data of a storage against the chain of blocks up to the current one: it belongs to blocks of
  the chain, under their heights.  Releasing a list of blocks.
\<close>

definition undo_on_chain :: "uint256 list \<Rightarrow> contents \<Rightarrow> bool" where
  "undo_on_chain chain c \<longleftrightarrow> (\<forall>h n d. cur_undo c h = Some (n, d) \<longrightarrow>
     (\<exists>i < length chain. chain ! i = h \<and> unat n = i))"

definition release_all :: "uint256 list \<Rightarrow> contents \<Rightarrow> contents" where
  "release_all hs c = fold release_undo hs c"

lemma release_all_undo:
  "cur_undo (release_all hs c) h = (if h \<in> set hs then None else cur_undo c h)"
  "cur_state (release_all hs c) = cur_state c"
proof -
  have "cur_undo (release_all hs c) h = (if h \<in> set hs then None else cur_undo c h)
    \<and> cur_state (release_all hs c) = cur_state c"
    unfolding release_all_def by (induction hs arbitrary: c) (auto simp: release_undo_def)
  then show "cur_undo (release_all hs c) h = (if h \<in> set hs then None else cur_undo c h)"
    "cur_state (release_all hs c) = cur_state c" by blast+
qed

text \<open>A list that keeps its last \<open>n\<close> elements.\<close>

definition last_of :: "nat \<Rightarrow> 'a list \<Rightarrow> 'a list" where
  "last_of n xs = drop (length xs - n) xs"

lemma length_last_of [simp]: "length (last_of n xs) = min n (length xs)"
  by (simp add: last_of_def)

lemma last_of_last_of: "m \<le> length xs \<Longrightarrow> last_of n (last_of m xs) = last_of (min n m) xs"
  by (cases "n \<le> m") (simp_all add: last_of_def drop_drop)

context undo_storage
begin

abbreviation "idle tm \<equiv> tm_ok tm \<and> \<not> inTransaction tm \<and> \<not> commitFailed tm"

lemma release_front_ok:
  assumes "tm_ok tm" "inTransaction tm"
  shows "outcome_ok (\<lambda>(q', tm'). tm_ok tm' \<and> inTransaction tm' \<and> q' = q\<lparr>pq_hashes := last_of (unat n) hs\<rparr>
      \<and> tm_cont tm' = release_all (take (length hs - unat n) hs) (tm_cont tm))
    (\<lambda>(q', tm'). tm_ok tm' \<and> inTransaction tm') (release_front ops n hs (q, tm))"
  using assms
proof (induction hs arbitrary: q tm)
  case Nil
  then show ?case by (simp add: last_of_def release_all_def)
next
  case (Cons h hs)
  show ?case
  proof (cases "length (h # hs) > unat n")
    case False
    with Cons.prems show ?thesis by (simp add: last_of_def release_all_def)
  next
    case True
    let ?q = "q\<lparr>pq_hashes := h # hs\<rparr>"
    obtain s where s: "tm_storage tm = Some s" "ok s" "in_txn s" and nf: "\<not> commitFailed tm"
      using Cons.prems by (auto simp: manager_ok_def split: if_splits)
    have "outcome_ok (\<lambda>x. fst x = ?q \<and> tm_ok (snd x) \<and> inTransaction (snd x)
          \<and> tm_cont (snd x) = release_undo h (tm_cont tm))
        (\<lambda>(q', tm'). tm_ok tm' \<and> inTransaction tm')
        (on_manager (on_storage (op_ReleaseUndoData ops h)) (?q, tm))"
      by (rule outcome_ok_on_manager,
          rule outcome_ok_mono [OF manager_on_storage [where f = "op_ReleaseUndoData ops h", OF s(1) release [OF s(2,3)]]])
        (use Cons.prems nf s in \<open>auto simp: manager_ok_def tm_contents_def\<close>)
    then have "outcome_ok (\<lambda>(q', tm'). tm_ok tm' \<and> inTransaction tm' \<and> q' = q\<lparr>pq_hashes := last_of (unat n) hs\<rparr>
        \<and> tm_cont tm' = release_all (take (length hs - unat n) hs) (release_undo h (tm_cont tm)))
      (\<lambda>(q', tm'). tm_ok tm' \<and> inTransaction tm')
      (obind (on_manager (on_storage (op_ReleaseUndoData ops h)) (?q, tm)) (release_front ops n hs))"
    proof (rule outcome_ok_bind)
      fix x :: "'s pq_state"
      assume x: "fst x = ?q \<and> tm_ok (snd x) \<and> inTransaction (snd x) \<and> tm_cont (snd x) = release_undo h (tm_cont tm)"
      show "outcome_ok (\<lambda>(q', tm'). tm_ok tm' \<and> inTransaction tm' \<and> q' = q\<lparr>pq_hashes := last_of (unat n) hs\<rparr>
          \<and> tm_cont tm' = release_all (take (length hs - unat n) hs) (release_undo h (tm_cont tm)))
        (\<lambda>(q', tm'). tm_ok tm' \<and> inTransaction tm') (release_front ops n hs x)"
        using Cons.IH [where q = "?q" and tm = "snd x"] x by (cases x) simp
    qed simp
    moreover have "last_of (unat n) (h # hs) = last_of (unat n) hs"
      using True by (simp add: last_of_def Suc_diff_le)
    moreover have "release_all (take (length (h # hs) - unat n) (h # hs)) c
        = release_all (take (length hs - unat n) hs) (release_undo h c)" for c
      using True by (simp add: release_all_def Suc_diff_le)
    ultimately show ?thesis using True by simp
  qed
qed

lemma prune_if_too_long_ok:
  assumes "idle tm"
  shows "outcome_ok (\<lambda>(q', tm'). idle tm' \<and> q' = q\<lparr>pq_hashes := last_of (unat (nBlocks q)) (pq_hashes q)\<rparr>
      \<and> tm_cont tm' = release_all (take (length (pq_hashes q) - unat (nBlocks q)) (pq_hashes q)) (tm_cont tm))
    (\<lambda>(q', tm'). idle tm') (PruneIfTooLong ops (q, tm))"
proof (cases "length (pq_hashes q) \<le> unat (nBlocks q)")
  case True
  then show ?thesis using assms by (simp add: PruneIfTooLong_def last_of_def release_all_def)
next
  case False
  let ?body = "\<lambda>x :: 's pq_state. release_front ops (nBlocks (fst x)) (pq_hashes (fst x)) x"
  have "outcome_ok (\<lambda>(q', tm'). tm_ok tm' \<and> \<not> inTransaction tm' \<and> \<not> commitFailed tm'
      \<and> (q' = q\<lparr>pq_hashes := last_of (unat (nBlocks q)) (pq_hashes q)\<rparr>
      \<and> tm_cont tm' = release_all (take (length (pq_hashes q) - unat (nBlocks q)) (pq_hashes q)) (tm_cont tm)))
    (\<lambda>(q', tm'). tm_ok tm' \<and> \<not> inTransaction tm' \<and> \<not> commitFailed tm') (in_transaction ops ?body (q, tm))"
  proof (rule manager_block)
    fix tm' assume "tm_ok tm'" "inTransaction tm'" "tm_cont tm' = tm_cont tm"
    then show "outcome_ok (\<lambda>(q', tm''). tm_ok tm'' \<and> inTransaction tm''
        \<and> (q' = q\<lparr>pq_hashes := last_of (unat (nBlocks q)) (pq_hashes q)\<rparr>
        \<and> tm_cont tm'' = release_all (take (length (pq_hashes q) - unat (nBlocks q)) (pq_hashes q)) (tm_cont tm)))
      (\<lambda>(q', tm''). tm_ok tm'' \<and> inTransaction tm'') (?body (q, tm'))"
      using release_front_ok [where tm = tm' and q = q and n = "nBlocks q" and hs = "pq_hashes q"] by simp
  qed (use assms in simp_all)
  with False show ?thesis by (auto simp: PruneIfTooLong_def elim!: outcome_ok_mono)
qed

lemma initial_prune_ok:
  assumes "idle tm"
  shows "outcome_ok (\<lambda>(q', tm'). idle tm' \<and> q' = q \<and> tm_cont tm' = prune_undo n (tm_cont tm)) (\<lambda>(q', tm'). idle tm')
    (in_transaction ops (on_manager (on_storage (op_PruneUndoData ops n))) (q, tm))"
proof -
  have "outcome_ok (\<lambda>(q', tm'). tm_ok tm' \<and> \<not> inTransaction tm' \<and> \<not> commitFailed tm'
      \<and> (q' = q \<and> tm_cont tm' = prune_undo n (tm_cont tm)))
    (\<lambda>(q', tm'). tm_ok tm' \<and> \<not> inTransaction tm' \<and> \<not> commitFailed tm')
    (in_transaction ops (on_manager (on_storage (op_PruneUndoData ops n))) (q, tm))"
  proof (rule manager_block)
    fix tm' assume tm': "tm_ok tm'" "inTransaction tm'" "tm_cont tm' = tm_cont tm"
    obtain s where s: "tm_storage tm' = Some s" "ok s" "in_txn s" and nf: "\<not> commitFailed tm'"
      using tm' by (auto simp: manager_ok_def split: if_splits)
    show "outcome_ok (\<lambda>(q', tm''). tm_ok tm'' \<and> inTransaction tm''
        \<and> (q' = q \<and> tm_cont tm'' = prune_undo n (tm_cont tm)))
      (\<lambda>(q', tm''). tm_ok tm'' \<and> inTransaction tm'') (on_manager (on_storage (op_PruneUndoData ops n)) (q, tm'))"
      by (rule outcome_ok_on_manager,
          rule outcome_ok_mono [OF manager_on_storage [where f = "op_PruneUndoData ops n", OF s(1) prune [OF s(2,3)]]])
        (use tm' nf s in \<open>auto simp: manager_ok_def tm_contents_def\<close>)
  qed (use assms in simp_all)
  then show ?thesis by (auto elim!: outcome_ok_mono)
qed

end

section \<open>Attaching a block\<close>

text \<open>The end of a chain that the queue holds, and the height of its front.\<close>

lemma front_height:
  assumes "unat (height :: u32) + 1 = L" "L < 2 ^ 32" "m \<le> L"
  shows "unat (height + 1) = L" "unat (height + 1 - of_nat m) = L - m"
proof -
  show a: "unat (height + 1) = L"
    using assms by (simp add: unat_word_ariths)
  have "unat (of_nat m :: u32) = m"
    using assms by (simp add: unsigned_of_nat take_bit_nat_eq_self)
  then have "(of_nat m :: u32) \<le> height + 1" using a assms(3) by (simp add: word_le_nat_alt)
  with a \<open>unat (of_nat m :: u32) = m\<close> show "unat (height + 1 - of_nat m) = L - m"
    by (simp add: unat_sub)
qed

lemma pos_pred: "(w :: u32) > 0 \<Longrightarrow> unat (w - 1) = unat w - 1"
  by (simp add: unat_minus_one word_gt_0)

lemma last_of_append: "k \<le> length chain \<Longrightarrow> last_of k chain @ [h] = last_of (Suc k) (chain @ [h])"
  by (simp add: last_of_def)

text \<open>The blocks of the queue that are released, and those that stay.\<close>

lemma queue_parts:
  assumes "distinct chain" "m \<le> length chain" "hs = drop (length chain - m) chain"
  shows "set (take (length hs - n) hs) \<inter> set (last_of n chain) = {}"
    and "set hs - set (take (length hs - n) hs) \<subseteq> set (last_of n hs)"
proof -
  have len: "length hs = m" using assms by simp
  have split: "hs = take (length hs - n) hs @ last_of n hs" by (simp add: last_of_def)
  show "set hs - set (take (length hs - n) hs) \<subseteq> set (last_of n hs)"
    by (subst (1) split) auto
  show "set (take (length hs - n) hs) \<inter> set (last_of n chain) = {}"
  proof (cases "n \<le> m")
    case True
    have "last_of n chain = drop (m - n) hs"
      using True assms(2,3) by (simp add: last_of_def drop_drop)
    moreover have "distinct hs" using assms by simp
    ultimately show ?thesis
      using set_take_disj_set_drop_if_distinct [of hs "length hs - n" "m - n"] len by simp
  qed (simp add: len)
qed

text \<open>Pruning by height keeps the blocks from the front height on, and nothing older.\<close>

lemma prune_keeps:
  assumes chain: "distinct chain" and undo: "undo_on_chain chain c" and n: "unat n < front"
    and x: "x \<in> set (drop front chain)"
  shows "cur_undo (prune_undo n c) x = cur_undo c x"
proof (cases "cur_undo c x")
  case (Some e)
  obtain nn d where e: "e = (nn, d)" by (cases e)
  obtain i where i: "i < length chain" "chain ! i = x" "unat nn = i"
    using undo Some e unfolding undo_on_chain_def by blast
  obtain j where j: "j < length chain" "front \<le> j" "chain ! j = x"
    using x by (auto simp: in_set_conv_nth) (metis add.commute le_add1 less_diff_conv)
  have "i = j" using nth_eq_iff_index_eq [OF chain i(1) j(1)] i(2) j(3) by simp
  then have "\<not> nn \<le> n" using i(3) j(2) n by (simp add: word_le_nat_alt)
  with Some e show ?thesis by (simp add: prune_undo_def)
qed (simp add: prune_undo_def)

lemma prune_removes:
  assumes undo: "undo_on_chain chain c" and n: "unat n + 1 = front" and x: "cur_undo (prune_undo n c) x \<noteq> None"
  shows "x \<in> set (drop front chain)"
proof -
  obtain nn d where e: "cur_undo c x = Some (nn, d)" "\<not> nn \<le> n"
    using x by (auto simp: prune_undo_def split: option.splits if_splits)
  obtain i where i: "i < length chain" "chain ! i = x" "unat nn = i"
    using undo e(1) unfolding undo_on_chain_def by blast
  have "front \<le> i" using e(2) i(3) n by (simp add: word_le_nat_alt)
  with i(1,2) show ?thesis
    by (auto simp: in_set_conv_nth intro!: exI [of _ "i - front"])
qed

definition attach_post ::
    "uint256 list \<Rightarrow> PruningQueue \<Rightarrow> contents \<Rightarrow> PruningQueue \<Rightarrow> contents \<Rightarrow> bool" where
  "attach_post chain q c q' c' \<longleftrightarrow> nBlocks q' = nBlocks q
     \<and> pq_hashes q' = last_of (min (unat (nBlocks q)) (length (pq_hashes q) + 1)) chain
     \<and> (initialPruningDone q' \<longleftrightarrow> initialPruningDone q \<or> length (pq_hashes q) + 1 \<ge> unat (nBlocks q))
     \<and> cur_state c' = cur_state c
     \<and> (\<forall>x \<in> set (last_of (unat (nBlocks q)) chain). cur_undo c' x = cur_undo c x)
     \<and> (initialPruningDone q' \<longrightarrow> (\<forall>x. cur_undo c' x \<noteq> None \<longrightarrow> x \<in> set (pq_hashes q')))"

text \<open>The contents after the two steps of attaching.\<close>

lemma attach_contents:
  assumes chain: "distinct chain" and undo: "undo_on_chain chain c" and m: "m \<le> length chain"
    and hs: "hs = last_of m chain" and n: "unat height + 1 = length chain" "length chain < 2 ^ 32"
    and first: "mid = (if p \<and> m < length chain then prune_undo (height + 1 - of_nat m - 1) c else c)"
    and pn: "p \<Longrightarrow> n \<le> m" and old: "d \<Longrightarrow> \<forall>x. cur_undo c x \<noteq> None \<longrightarrow> x \<in> set hs"
  shows "\<forall>x \<in> set (last_of n chain). cur_undo (release_all (take (length hs - n) hs) mid) x = cur_undo c x"
    and "d \<or> p \<Longrightarrow> \<forall>x. cur_undo (release_all (take (length hs - n) hs) mid) x \<noteq> None \<longrightarrow> x \<in> set (last_of n hs)"
proof -
  note fh = front_height [OF n m]
  have hs': "hs = drop (length chain - m) chain" using hs by (simp add: last_of_def)
  note parts = queue_parts [OF chain m hs', of n]
  have pred: "unat (height + 1 - of_nat m - 1) = length chain - m - 1" if "m < length chain"
  proof -
    have "height + 1 - of_nat m > 0" using fh(2) that by (simp add: word_less_nat_alt)
    from pos_pred [OF this] show ?thesis unfolding fh(2) .
  qed
  have mid: "cur_undo mid x = cur_undo c x" if x: "x \<in> set (last_of n chain)" for x
  proof (cases "p \<and> m < length chain")
    case True
    then have "x \<in> set (drop (length chain - m) chain)"
      using x pn set_drop_subset_set_drop [OF diff_le_mono2, of n m "length chain" chain] by (auto simp: last_of_def)
    moreover have "unat (height + 1 - of_nat m - 1) < length chain - m"
      using pred [OF conjunct2 [OF True]] conjunct2 [OF True] by linarith
    ultimately show ?thesis using True prune_keeps [OF chain undo] by (simp add: first)
  next
    case False
    then show ?thesis unfolding first by (simp only: if_False)
  qed
  show "\<forall>x \<in> set (last_of n chain). cur_undo (release_all (take (length hs - n) hs) mid) x = cur_undo c x"
    using mid parts(1) by (auto simp: release_all_undo)
  assume dp: "d \<or> p"
  have "x \<in> set hs" if "cur_undo mid x \<noteq> None" for x
  proof (cases d)
    case True
    have "cur_undo c x \<noteq> None"
      using that by (auto simp: first prune_undo_def split: if_splits option.splits)
    with old [OF True] show ?thesis by blast
  next
    case False
    with dp have p by simp
    show ?thesis
    proof (cases "m < length chain")
      case True
      with \<open>p\<close> that have "cur_undo (prune_undo (height + 1 - of_nat m - 1) c) x \<noteq> None" by (simp add: first)
      from prune_removes [OF undo _ this, of "length chain - m"] pred [OF True] True show ?thesis
        by (simp add: hs')
    next
      case False
      with m have "hs = chain" by (simp add: hs')
      moreover have "cur_undo c x \<noteq> None" using that False by (simp add: first)
      ultimately show ?thesis using undo by (fastforce simp: undo_on_chain_def in_set_conv_nth)
    qed
  qed
  with parts(2) show "\<forall>x. cur_undo (release_all (take (length hs - n) hs) mid) x \<noteq> None \<longrightarrow> x \<in> set (last_of n hs)"
    by (auto simp: release_all_undo split: if_splits)
qed

context undo_storage
begin

lemma attach_ok:
  assumes tm: "idle tm" and chain: "distinct (chain @ [h])" "length chain + 1 < 2 ^ 32" "unat height = length chain"
    and q: "pq_hashes q = last_of k chain" and undo: "undo_on_chain (chain @ [h]) (tm_cont tm)"
    and old: "initialPruningDone q \<Longrightarrow> \<forall>x. cur_undo (tm_cont tm) x \<noteq> None \<longrightarrow> x \<in> set (h # pq_hashes q)"
  shows "outcome_ok (\<lambda>(q', tm'). idle tm' \<and> attach_post (chain @ [h]) q (tm_cont tm) q' (tm_cont tm'))
    (\<lambda>(q', tm'). idle tm') (AttachBlock ops h height (q, tm))"
proof -
  let ?c = "chain @ [h]" and ?hs = "pq_hashes q @ [h]" and ?q = "q\<lparr>pq_hashes := pq_hashes q @ [h]\<rparr>"
  let ?m = "length ?hs" and ?n = "unat (nBlocks q)"
  let ?p = "\<not> initialPruningDone q \<and> ?m \<ge> ?n"
  let ?q1 = "if ?p then ?q\<lparr>initialPruningDone := True\<rparr> else ?q"
  let ?first = "(if ?p then obind (ocheck (unat (height + 1) \<ge> ?m) (?q, tm)) (\<lambda>x.
              let frontHeight = height + 1 - of_nat ?m in
              obind (if frontHeight > 0
                     then in_transaction ops (on_manager (on_storage (op_PruneUndoData ops (frontHeight - 1)))) x
                     else Done x)
                (\<lambda>x. Done (fst x\<lparr>initialPruningDone := True\<rparr>, snd x)))
            else Done (?q, tm))"
  define c1 where "c1 = (if ?p \<and> ?m < length ?c then prune_undo (height + 1 - of_nat ?m - 1) (tm_cont tm) else tm_cont tm)"
  have m: "?m \<le> length ?c" and hs: "?hs = last_of ?m ?c"
    using q by (simp_all add: last_of_def)
  have n: "unat height + 1 = length ?c" "length ?c < 2 ^ 32" using chain by simp_all
  note fh = front_height [OF n m]
  have front: "height + 1 - of_nat ?m > 0 \<longleftrightarrow> ?m < length ?c" using fh(2) by (simp add: word_less_nat_alt)
  have old': "initialPruningDone q \<Longrightarrow> \<forall>x. cur_undo (tm_cont tm) x \<noteq> None \<longrightarrow> x \<in> set ?hs" using old by auto
  note cont = attach_contents [where mid = c1 and p = ?p and d = "initialPruningDone q", OF chain(1) undo m hs n c1_def _ old', of ?n]
  have step1: "outcome_ok (\<lambda>(q', tm'). idle tm' \<and> q' = ?q1 \<and> tm_cont tm' = c1) (\<lambda>(q', tm'). idle tm')
     ?first"
  proof (cases ?p)
    case False
    then show ?thesis using tm unfolding c1_def by (simp only: if_False simp_thms outcome_ok.simps split_conv)
  next
    case p: True
    have chk: "unat (height + 1) \<ge> ?m" using fh(1) m by simp
    show ?thesis
    proof (cases "?m < length ?c")
      case True
      have "outcome_ok (\<lambda>(q', tm'). idle tm' \<and> q' = ?q1 \<and> tm_cont tm' = c1) (\<lambda>(q', tm'). idle tm')
        (obind (in_transaction ops (on_manager (on_storage (op_PruneUndoData ops (height + 1 - of_nat ?m - 1)))) (?q, tm))
          (\<lambda>x. Done (fst x\<lparr>initialPruningDone := True\<rparr>, snd x)))"
        by (rule outcome_ok_bind [OF initial_prune_ok [OF tm]]) (use p True in \<open>auto simp: c1_def\<close>)
      then show ?thesis
        unfolding if_P [OF p] Let_def using chk front True by (simp only: ocheck_simps obind.simps if_True)
    next
      case False
      with tm p chk front show ?thesis by (simp add: c1_def)
    qed
  qed
  have step2: "outcome_ok (\<lambda>(q', tm'). idle tm' \<and> attach_post ?c q (tm_cont tm) q' (tm_cont tm'))
      (\<lambda>(q', tm'). idle tm') (PruneIfTooLong ops x)"
    if x: "case x of (q', tm') \<Rightarrow> idle tm' \<and> q' = ?q1 \<and> tm_cont tm' = c1" for x
  proof -
    obtain tm1 where x1: "x = (?q1, tm1)" "idle tm1" "tm_cont tm1 = c1" using x by (cases x) auto
    have q1: "pq_hashes ?q1 = ?hs" "nBlocks ?q1 = nBlocks q" by auto
    have cs: "cur_state (release_all (take (?m - ?n) ?hs) c1) = cur_state (tm_cont tm)"
      by (simp add: release_all_undo c1_def prune_undo_def)
    have lo: "last_of ?n ?hs = last_of (min ?n (length (pq_hashes q) + 1)) ?c"
      using last_of_last_of [where n = ?n, OF m] unfolding hs [symmetric] by (simp add: min.commute)
    have "attach_post ?c q (tm_cont tm) (?q1\<lparr>pq_hashes := last_of ?n ?hs\<rparr>) (release_all (take (?m - ?n) ?hs) c1)"
      unfolding attach_post_def using cont cs lo by auto
    then show ?thesis
      unfolding x1(1)
      by (intro outcome_ok_mono [OF prune_if_too_long_ok [OF x1(2)]]) (auto simp: q1 x1(3))
  qed
  have eq: "AttachBlock ops h height (q, tm) = obind ?first (PruneIfTooLong ops)"
    by (simp add: AttachBlock_def Let_def)
  show ?thesis
    unfolding eq by (rule outcome_ok_bind [OF step1 step2]) simp_all
qed

end

section \<open>Properties\<close>

text \<open>
  C31: Attaching the next block of the chain to the pruning queue, when the queue holds the latest blocks of
  the chain and, if the initial pruning is done, only these have undo data, on any storage that keeps the
  contract: no check fails; unless the storage throws, the current state is unchanged, the queue holds the latest blocks of the chain up to
  the desired size, no undo data of the latest \<open>nBlocks\<close> blocks is lost, and from the first time that the
  queue is full exactly the blocks in it can have undo data, also when there was older data before.  When the
  storage throws, the manager has been rolled back.
\<close>

theorem attach_block_prunes:
  assumes "undo_storage ops ok in_txn rollable contents_of"
    and "manager_ok ok in_txn rollable tm" "\<not> inTransaction tm" "\<not> commitFailed tm"
    and "distinct (chain @ [h])" "length chain + 1 < 2 ^ 32" "unat height = length chain"
    and "pq_hashes q = last_of k chain"
    and "undo_on_chain (chain @ [h]) (tm_contents contents_of tm)"
    and "initialPruningDone q \<Longrightarrow>
        \<forall>x. cur_undo (tm_contents contents_of tm) x \<noteq> None \<longrightarrow> x \<in> set (h # pq_hashes q)"
  shows "outcome_ok
    (\<lambda>(q', tm'). manager_ok ok in_txn rollable tm' \<and> \<not> inTransaction tm' \<and> \<not> commitFailed tm'
      \<and> attach_post (chain @ [h]) q (tm_contents contents_of tm) q' (tm_contents contents_of tm'))
    (\<lambda>(q', tm'). manager_ok ok in_txn rollable tm' \<and> \<not> inTransaction tm' \<and> \<not> commitFailed tm')
    (AttachBlock ops h height (q, tm))"
  using undo_storage.attach_ok [OF assms(1), of tm chain h height q k] assms(2-) by (simp add: conj_assoc)

text \<open>A chain of three blocks with undo data for all of them, and a queue of size one.\<close>

definition demo_block :: "nat \<Rightarrow> uint256" where
  "demo_block n = U256 (of_nat n # replicate 31 0)"

definition demo_pruned_storage :: MemoryStorage where
  "demo_pruned_storage = \<lparr>hasState = True, currentBlock = demo_block 2, currentState = [],
     undoData = [(demo_block 0, (0, [])), (demo_block 1, (1, [])), (demo_block 2, (2, []))], startedTxn = False\<rparr>"

definition demo_pruned_manager :: "MemoryStorage TransactionManager" where
  "demo_pruned_manager = \<lparr>tm_storage = Some demo_pruned_storage, batchSize = 1, batchedCommits = 0,
     inTransaction = False, commitFailed = False\<rparr>"

lemma demo_block_less: "demo_block 0 < demo_block 1" "demo_block 0 < demo_block 2" "demo_block 1 < demo_block 2"
  by (simp_all add: demo_block_def less_uint256_def uint256_lt_def)

lemmas demo_block_neq = less_imp_neq [OF demo_block_less(1)] less_imp_neq [OF demo_block_less(2)]
  less_imp_neq [OF demo_block_less(3)]

theorem attach_block_prunes_witness:
  "outcome_ok
    (\<lambda>(q', tm'). attach_post [demo_block 0, demo_block 1, demo_block 2] (new_PruningQueue 1)
        (memory_contents demo_pruned_storage) q' (tm_contents memory_contents tm'))
    (\<lambda>x. True) (AttachBlock MemoryStorage_ops (demo_block 2) 2 (new_PruningQueue 1, demo_pruned_manager))"
proof -
  have ok: "manager_ok memory_ok startedTxn startedTxn demo_pruned_manager"
    using demo_block_less by (simp add: manager_ok_def demo_pruned_manager_def demo_pruned_storage_def memory_ok_def tbl_ok_def)
  have undo: "undo_on_chain ([demo_block 0, demo_block 1] @ [demo_block 2])
      (tm_contents memory_contents demo_pruned_manager)"
    by (auto simp: undo_on_chain_def tm_contents_def demo_pruned_manager_def memory_contents_def
        demo_pruned_storage_def less_Suc_eq ex_disj_distrib conj_disj_distribR split: if_splits)
  have cont: "tm_contents memory_contents demo_pruned_manager = memory_contents demo_pruned_storage"
    by (simp add: tm_contents_def demo_pruned_manager_def)
  have post: "outcome_ok
    (\<lambda>(q', tm'). manager_ok memory_ok startedTxn startedTxn tm' \<and> \<not> inTransaction tm' \<and> \<not> commitFailed tm'
      \<and> attach_post ([demo_block 0, demo_block 1] @ [demo_block 2]) (new_PruningQueue 1)
          (tm_contents memory_contents demo_pruned_manager) q' (tm_contents memory_contents tm'))
    (\<lambda>(q', tm'). manager_ok memory_ok startedTxn startedTxn tm' \<and> \<not> inTransaction tm' \<and> \<not> commitFailed tm')
    (AttachBlock MemoryStorage_ops (demo_block 2) 2 (new_PruningQueue 1, demo_pruned_manager))"
    by (rule attach_block_prunes [where k = 0, OF memory.undo_storage_axioms ok _ _ _ _ _ _ undo])
      (use demo_block_neq in \<open>simp_all add: demo_pruned_manager_def new_PruningQueue_def last_of_def\<close>)
  show ?thesis
    by (rule outcome_ok_mono [OF post]) (auto simp: cont)
qed

end
