(* ===== verification/HeightCache.thy ===== *)
theory HeightCache
  imports Storage
begin

text \<open>
  The storage that caches the height of its current block (\<open>spacexpansegame/heightcache.cpp\<close>).  The
  callback that asks SpaceXpanse Core for the height of a block is an argument of the operation that uses
  it; it throws (\<open>None\<close>) when the RPC call fails.
\<close>

section \<open>Definitions\<close>

record 's StorageWithCachedHeight =
  hc_storage :: 's
  crossCheck :: bool
  cachedHeight :: u32
  hasHeight :: bool

type_synonym height_callback = "uint256 \<Rightarrow> u32 option"

definition EnableCrossChecks :: "'s StorageWithCachedHeight \<Rightarrow> 's StorageWithCachedHeight" where
  "EnableCrossChecks x = x\<lparr>crossCheck := True\<rparr>"

text \<open>A call through to the wrapped storage.\<close>

definition on_cached ::
    "('s \<Rightarrow> 's outcome) \<Rightarrow> 's StorageWithCachedHeight \<Rightarrow> 's StorageWithCachedHeight outcome" where
  "on_cached f x = (case f (hc_storage x) of
     Done s \<Rightarrow> Done (x\<lparr>hc_storage := s\<rparr>)
   | Thrown s \<Rightarrow> Thrown (x\<lparr>hc_storage := s\<rparr>)
   | Aborted \<Rightarrow> Aborted)"

definition SetCurrentGameStateWithHeight ::
    "'s storage_ops \<Rightarrow> uint256 \<Rightarrow> u32 \<Rightarrow> byte list \<Rightarrow> 's StorageWithCachedHeight
      \<Rightarrow> 's StorageWithCachedHeight outcome" where
  "SetCurrentGameStateWithHeight ops h height d x =
    obind (on_cached (op_SetCurrentGameState ops h d) x) (\<lambda>x. Done (x\<lparr>hasHeight := True, cachedHeight := height\<rparr>))"

text \<open>The result is the hash and the height, if there is a current state.\<close>

definition GetCurrentBlockHashWithHeight ::
    "'s storage_ops \<Rightarrow> height_callback \<Rightarrow> 's StorageWithCachedHeight
      \<Rightarrow> ('s StorageWithCachedHeight \<times> (uint256 \<times> u32) option) outcome" where
  "GetCurrentBlockHashWithHeight ops hashToHeight x =
    (case op_GetCurrentBlockHash ops (hc_storage x) of
       None \<Rightarrow> Done (x, None)
     | Some h \<Rightarrow>
         let retrievedHeight = \<not> hasHeight x in
         obind (if \<not> hasHeight x
                then (case hashToHeight h of
                        None \<Rightarrow> Thrown (x, None)
                      | Some n \<Rightarrow> Done (x\<lparr>cachedHeight := n, hasHeight := True\<rparr>, None))
                else Done (x, None)) (\<lambda>r.
         obind (ocheck (hasHeight (fst r)) r) (\<lambda>r.
         let x = fst r; height = cachedHeight x in
         if crossCheck x \<and> \<not> retrievedHeight
         then (case hashToHeight h of
                 None \<Rightarrow> Thrown (x, None)
               | Some n \<Rightarrow> ocheck (cachedHeight x = n) (x, Some (h, height)))
         else Done (x, Some (h, height)))))"

definition HeightCache_Clear :: "'s storage_ops \<Rightarrow> 's StorageWithCachedHeight \<Rightarrow> 's StorageWithCachedHeight outcome" where
  "HeightCache_Clear ops x = on_cached (op_Clear ops) (x\<lparr>hasHeight := False\<rparr>)"

definition HeightCache_RollbackTransaction ::
    "'s storage_ops \<Rightarrow> 's StorageWithCachedHeight \<Rightarrow> 's StorageWithCachedHeight outcome" where
  "HeightCache_RollbackTransaction ops x = on_cached (op_RollbackTransaction ops) (x\<lparr>hasHeight := False\<rparr>)"

definition HeightCache_ops :: "'s storage_ops \<Rightarrow> 's StorageWithCachedHeight storage_ops" where
  "HeightCache_ops ops =
    \<lparr>op_Clear = HeightCache_Clear ops,
     op_GetCurrentBlockHash = (\<lambda>x. op_GetCurrentBlockHash ops (hc_storage x)),
     op_GetCurrentGameState = (\<lambda>x. op_GetCurrentGameState ops (hc_storage x)),
     op_SetCurrentGameState = (\<lambda>h d x. Aborted),
     op_GetUndoData = (\<lambda>h x. op_GetUndoData ops h (hc_storage x)),
     op_AddUndoData = (\<lambda>h height d. on_cached (op_AddUndoData ops h height d)),
     op_ReleaseUndoData = (\<lambda>h. on_cached (op_ReleaseUndoData ops h)),
     op_PruneUndoData = (\<lambda>height. on_cached (op_PruneUndoData ops height)),
     op_BeginTransaction = on_cached (op_BeginTransaction ops),
     op_CommitTransaction = on_cached (op_CommitTransaction ops),
     op_RollbackTransaction = HeightCache_RollbackTransaction ops\<rparr>"

section \<open>The contract\<close>

lemma on_cached_eq:
  "f (hc_storage x) = Done s \<Longrightarrow> on_cached f x = Done (x\<lparr>hc_storage := s\<rparr>)"
  by (simp add: on_cached_def)

text \<open>Apart from setting the state, the cache keeps the contract of the storage that it wraps.\<close>

sublocale storage \<subseteq> cached: undo_storage "HeightCache_ops ops" "\<lambda>x. ok (hc_storage x)" "\<lambda>x. in_txn (hc_storage x)"
    "\<lambda>x. rollable (hc_storage x)" "\<lambda>x. contents_of (hc_storage x)"
proof
  fix x :: "'s StorageWithCachedHeight" and h height d
  assume ok: "ok (hc_storage x)"
  show "op_GetCurrentBlockHash (HeightCache_ops ops) x = map_option fst (cur_state (contents_of (hc_storage x)))"
    "op_GetCurrentGameState (HeightCache_ops ops) x = map_option snd (cur_state (contents_of (hc_storage x)))"
    "op_GetUndoData (HeightCache_ops ops) h x = map_option snd (cur_undo (contents_of (hc_storage x)) h)"
    using get_hash [OF ok] get_state [OF ok] get_undo [OF ok] by (simp_all add: HeightCache_ops_def)
  {
    assume txn: "in_txn (hc_storage x)"
    then show "rollable (hc_storage x)" using in_txn_rollable ok by blast
    show "outcome_ok
        (\<lambda>x'. ok (hc_storage x') \<and> in_txn (hc_storage x') \<and> (\<exists>e \<in> insert (height, d) (set_option (cur_undo (contents_of (hc_storage x)) h)).
            contents_of (hc_storage x') = (contents_of (hc_storage x))\<lparr>cur_undo := (cur_undo (contents_of (hc_storage x)))(h := Some e)\<rparr>))
        (\<lambda>x'. ok (hc_storage x') \<and> in_txn (hc_storage x')) (op_AddUndoData (HeightCache_ops ops) h height d x)"
      using add_undo [OF ok txn, of height d h]
      by (cases "op_AddUndoData ops h height d (hc_storage x)") (simp_all add: HeightCache_ops_def on_cached_def)
    show "outcome_ok
        (\<lambda>x'. ok (hc_storage x') \<and> in_txn (hc_storage x') \<and> contents_of (hc_storage x') = release_undo h (contents_of (hc_storage x)))
        (\<lambda>x'. ok (hc_storage x') \<and> in_txn (hc_storage x')) (op_ReleaseUndoData (HeightCache_ops ops) h x)"
      using release [OF ok txn, of h]
      by (cases "op_ReleaseUndoData ops h (hc_storage x)") (simp_all add: HeightCache_ops_def on_cached_def)
    show "outcome_ok
        (\<lambda>x'. ok (hc_storage x') \<and> in_txn (hc_storage x') \<and> contents_of (hc_storage x') = prune_undo height (contents_of (hc_storage x)))
        (\<lambda>x'. ok (hc_storage x') \<and> in_txn (hc_storage x')) (op_PruneUndoData (HeightCache_ops ops) height x)"
      using prune [OF ok txn, of height]
      by (cases "op_PruneUndoData ops height (hc_storage x)") (simp_all add: HeightCache_ops_def on_cached_def)
    show "outcome_ok
        (\<lambda>x'. ok (hc_storage x') \<and> \<not> in_txn (hc_storage x') \<and> contents_of (hc_storage x') = contents_of (hc_storage x))
        (\<lambda>x'. ok (hc_storage x') \<and> rollable (hc_storage x')) (op_CommitTransaction (HeightCache_ops ops) x)"
      using commit [OF ok txn]
      by (cases "op_CommitTransaction ops (hc_storage x)") (simp_all add: HeightCache_ops_def on_cached_def)
  next
    assume txn: "\<not> in_txn (hc_storage x)"
    obtain s where "op_BeginTransaction ops (hc_storage x) = Done s" "ok s" "in_txn s" "contents_of s = contents_of (hc_storage x)"
      using begin_txn [OF ok txn] by blast
    then show "\<exists>x'. op_BeginTransaction (HeightCache_ops ops) x = Done x' \<and> ok (hc_storage x') \<and> in_txn (hc_storage x')
        \<and> contents_of (hc_storage x') = contents_of (hc_storage x)"
      by (simp add: HeightCache_ops_def on_cached_eq)
    obtain s where "op_Clear ops (hc_storage x) = Done s" "ok s" "\<not> in_txn s" "contents_of s = no_contents"
      using clear [OF ok txn] by blast
    then show "\<exists>x'. op_Clear (HeightCache_ops ops) x = Done x' \<and> ok (hc_storage x') \<and> \<not> in_txn (hc_storage x')
        \<and> contents_of (hc_storage x') = no_contents"
      by (simp add: HeightCache_ops_def HeightCache_Clear_def on_cached_eq)
  next
    assume "rollable (hc_storage x)"
    then obtain s where "op_RollbackTransaction ops (hc_storage x) = Done s" "ok s" "\<not> in_txn s"
      using rollback [OF ok] by blast
    then show "\<exists>x'. op_RollbackTransaction (HeightCache_ops ops) x = Done x' \<and> ok (hc_storage x') \<and> \<not> in_txn (hc_storage x')"
      by (simp add: HeightCache_ops_def HeightCache_RollbackTransaction_def on_cached_eq)
  }
qed

sublocale rollback_storage \<subseteq> cached: undo_rollback "HeightCache_ops ops" "\<lambda>x. ok (hc_storage x)"
    "\<lambda>x. in_txn (hc_storage x)" "\<lambda>x. rollable (hc_storage x)" "\<lambda>x. contents_of (hc_storage x)" "\<lambda>x. base (hc_storage x)"
proof
  fix x x' :: "'s StorageWithCachedHeight" and h height d
  assume ok: "ok (hc_storage x)"
  {
    assume txn: "in_txn (hc_storage x)"
    show "outcome_ok (\<lambda>x'. base (hc_storage x') = base (hc_storage x)) (\<lambda>x'. base (hc_storage x') = base (hc_storage x))
        (op_AddUndoData (HeightCache_ops ops) h height d x)"
      using base_add [OF ok txn, of h height d]
      by (cases "op_AddUndoData ops h height d (hc_storage x)") (simp_all add: HeightCache_ops_def on_cached_def)
    show "outcome_ok (\<lambda>x'. base (hc_storage x') = base (hc_storage x)) (\<lambda>x'. base (hc_storage x') = base (hc_storage x))
        (op_ReleaseUndoData (HeightCache_ops ops) h x)"
      using base_release [OF ok txn, of h]
      by (cases "op_ReleaseUndoData ops h (hc_storage x)") (simp_all add: HeightCache_ops_def on_cached_def)
    show "outcome_ok (\<lambda>x'. base (hc_storage x') = base (hc_storage x)) (\<lambda>x'. base (hc_storage x') = base (hc_storage x))
        (op_PruneUndoData (HeightCache_ops ops) height x)"
      using base_prune [OF ok txn, of height]
      by (cases "op_PruneUndoData ops height (hc_storage x)") (simp_all add: HeightCache_ops_def on_cached_def)
    show "outcome_ok (\<lambda>x'. True) (\<lambda>x'. base (hc_storage x') = base (hc_storage x)) (op_CommitTransaction (HeightCache_ops ops) x)"
      using base_commit [OF ok txn]
      by (cases "op_CommitTransaction ops (hc_storage x)") (simp_all add: HeightCache_ops_def on_cached_def)
  next
    assume txn: "\<not> in_txn (hc_storage x)" and run: "op_BeginTransaction (HeightCache_ops ops) x = Done x'"
    show "base (hc_storage x') = contents_of (hc_storage x)"
      using base_begin [OF ok txn] run
      by (cases "op_BeginTransaction ops (hc_storage x)") (auto simp: HeightCache_ops_def on_cached_def)
  next
    assume txn: "rollable (hc_storage x)" and run: "op_RollbackTransaction (HeightCache_ops ops) x = Done x'"
    show "contents_of (hc_storage x') = base (hc_storage x)"
      using base_rollback [OF ok txn] run
      by (cases "op_RollbackTransaction ops (hc_storage x)")
        (auto simp: HeightCache_ops_def HeightCache_RollbackTransaction_def on_cached_def)
  }
qed

section \<open>Runs\<close>

text \<open>
  The use of the cache by a game: writes in a transaction, with the true height \<open>ht h\<close> of each new current
  block; after a call that has thrown, the transaction is rolled back.  \<open>txn\<close>: a transaction is open;
  \<open>failed\<close>: a call in it has thrown.
\<close>

definition callback_true :: "(uint256 \<Rightarrow> u32) \<Rightarrow> height_callback \<Rightarrow> bool" where
  "callback_true ht cb \<longleftrightarrow> (\<forall>h n. cb h = Some n \<longrightarrow> n = ht h)"

inductive cache_run ::
    "'s storage_ops \<Rightarrow> (uint256 \<Rightarrow> u32) \<Rightarrow> ('s \<Rightarrow> bool) \<Rightarrow> 's StorageWithCachedHeight \<Rightarrow> bool \<Rightarrow> bool \<Rightarrow> bool"
  for ops ht idle where
  fresh: "idle s \<Longrightarrow> cache_run ops ht idle \<lparr>hc_storage = s, crossCheck = cc, cachedHeight = n, hasHeight = False\<rparr> False False"
| cross_checks: "cache_run ops ht idle x txn failed \<Longrightarrow> cache_run ops ht idle (EnableCrossChecks x) txn failed"
| clear: "\<lbrakk>cache_run ops ht idle x False False; op_Clear (HeightCache_ops ops) x = Done x'; idle (hc_storage x')\<rbrakk>
    \<Longrightarrow> cache_run ops ht idle x' False False"
| start_txn: "\<lbrakk>cache_run ops ht idle x False False; op_BeginTransaction (HeightCache_ops ops) x = Done x'\<rbrakk>
    \<Longrightarrow> cache_run ops ht idle x' True False"
| set: "\<lbrakk>cache_run ops ht idle x True False; uint256_wf h; SetCurrentGameStateWithHeight ops h (ht h) d x = Done x'\<rbrakk>
    \<Longrightarrow> cache_run ops ht idle x' True False"
| set_thrown: "\<lbrakk>cache_run ops ht idle x True False; uint256_wf h; SetCurrentGameStateWithHeight ops h (ht h) d x = Thrown x'\<rbrakk>
    \<Longrightarrow> cache_run ops ht idle x' True True"
| undo: "\<lbrakk>cache_run ops ht idle x True False; is_write c; run_call (HeightCache_ops ops) c x = Done x'\<rbrakk>
    \<Longrightarrow> cache_run ops ht idle x' True False"
| undo_thrown: "\<lbrakk>cache_run ops ht idle x True False; is_write c; run_call (HeightCache_ops ops) c x = Thrown x'\<rbrakk>
    \<Longrightarrow> cache_run ops ht idle x' True True"
| committed: "\<lbrakk>cache_run ops ht idle x True False; op_CommitTransaction (HeightCache_ops ops) x = Done x'\<rbrakk>
    \<Longrightarrow> cache_run ops ht idle x' False False"
| commit_thrown: "\<lbrakk>cache_run ops ht idle x True False; op_CommitTransaction (HeightCache_ops ops) x = Thrown x'\<rbrakk>
    \<Longrightarrow> cache_run ops ht idle x' True True"
| rolled_back: "\<lbrakk>cache_run ops ht idle x True failed; op_RollbackTransaction (HeightCache_ops ops) x = Done x'\<rbrakk>
    \<Longrightarrow> cache_run ops ht idle x' False False"
| get: "\<lbrakk>cache_run ops ht idle x txn False; callback_true ht cb; GetCurrentBlockHashWithHeight ops cb x = Done (x', r)\<rbrakk>
    \<Longrightarrow> cache_run ops ht idle x' txn False"

section \<open>Coherence\<close>

definition coherent :: "(uint256 \<Rightarrow> u32) \<Rightarrow> ('s \<Rightarrow> contents) \<Rightarrow> 's StorageWithCachedHeight \<Rightarrow> bool" where
  "coherent ht cont x \<longleftrightarrow> (hasHeight x \<longrightarrow>
     (\<forall>h d. cur_state (cont (hc_storage x)) = Some (h, d) \<longrightarrow> cachedHeight x = ht h))"

lemma on_cached_Done:
  "on_cached f x = Done x' \<longleftrightarrow> (\<exists>s. f (hc_storage x) = Done s \<and> x' = x\<lparr>hc_storage := s\<rparr>)"
  "on_cached f x = Thrown x' \<longleftrightarrow> (\<exists>s. f (hc_storage x) = Thrown s \<and> x' = x\<lparr>hc_storage := s\<rparr>)"
  by (auto simp: on_cached_def split: outcome.splits)

lemma obind_eq:
  "obind r f = Done s \<longleftrightarrow> (\<exists>s'. r = Done s' \<and> f s' = Done s)"
  "obind r f = Thrown s \<longleftrightarrow> r = Thrown s \<or> (\<exists>s'. r = Done s' \<and> f s' = Thrown s)"
  by (cases r; auto)+

lemma get_storage:
  assumes "GetCurrentBlockHashWithHeight ops cb x = Done (x', r)"
  shows "hc_storage x' = hc_storage x"
  using assms by (auto simp: GetCurrentBlockHashWithHeight_def Let_def obind_eq ocheck_def split: option.splits if_splits)

lemma get_cached:
  assumes "callback_true ht cb" "op_GetCurrentBlockHash ops (hc_storage x) = Some h"
    and "hasHeight x \<Longrightarrow> cachedHeight x = ht h"
  shows "outcome_ok (\<lambda>(x', r). hc_storage x' = hc_storage x \<and> hasHeight x' \<and> cachedHeight x' = ht h \<and> r = Some (h, ht h))
    (\<lambda>(x', r). x' = x) (GetCurrentBlockHashWithHeight ops cb x)"
  using assms by (auto simp: GetCurrentBlockHashWithHeight_def callback_true_def Let_def split: option.splits)

context storage
begin

definition cache_inv :: "(uint256 \<Rightarrow> u32) \<Rightarrow> 's StorageWithCachedHeight \<Rightarrow> bool \<Rightarrow> bool \<Rightarrow> bool" where
  "cache_inv ht x txn failed \<longleftrightarrow> ok (hc_storage x)
     \<and> (if failed then rollable (hc_storage x) else in_txn (hc_storage x) = txn \<and> coherent ht contents_of x)"

lemma get_height:
  assumes "cache_inv ht x txn False" "callback_true ht cb"
  shows "outcome_ok (\<lambda>(x', r). hc_storage x' = hc_storage x \<and> coherent ht contents_of x'
        \<and> r = map_option (\<lambda>(h, d). (h, ht h)) (cur_state (contents_of (hc_storage x))))
    (\<lambda>(x', r). x' = x) (GetCurrentBlockHashWithHeight ops cb x)"
proof (cases "cur_state (contents_of (hc_storage x))")
  case None
  with assms get_hash show ?thesis
    by (simp add: cache_inv_def GetCurrentBlockHashWithHeight_def)
next
  case (Some e)
  obtain h d where e: "e = (h, d)" by (cases e)
  have "op_GetCurrentBlockHash ops (hc_storage x) = Some h"
    using assms get_hash Some e by (simp add: cache_inv_def)
  from get_cached [OF assms(2) this] assms(1) Some e show ?thesis
    by (auto simp: cache_inv_def coherent_def elim!: outcome_ok_mono)
qed

lemma undo_keeps:
  assumes "ok s" "in_txn s" "is_write c" "\<And>h d. c \<noteq> CallSet h d"
  shows "outcome_ok (\<lambda>s'. ok s' \<and> in_txn s' \<and> cur_state (contents_of s') = cur_state (contents_of s))
    (\<lambda>s'. ok s' \<and> in_txn s') (run_call ops c s)"
  using assms
  by (cases c) (auto intro: outcome_ok_mono [OF add_undo] outcome_ok_mono [OF release] outcome_ok_mono [OF prune]
      simp: release_undo_def prune_undo_def)

lemma run_call_cached:
  assumes "is_write c" "run_call (HeightCache_ops ops) c x \<noteq> Aborted"
  shows "run_call (HeightCache_ops ops) c x = on_cached (run_call ops c) x \<and> (\<forall>h d. c \<noteq> CallSet h d)"
  using assms by (cases c) (simp_all add: HeightCache_ops_def)

lemma cache_run_inv:
  assumes "cache_run ops ht (\<lambda>s. ok s \<and> \<not> in_txn s) x txn failed"
  shows "cache_inv ht x txn failed"
  using assms
proof induction
  case (fresh s cc n)
  then show ?case by (simp add: cache_inv_def coherent_def)
next
  case (cross_checks x txn failed)
  then show ?case by (auto simp: cache_inv_def coherent_def EnableCrossChecks_def)
next
  case (clear x x')
  then show ?case
    by (auto simp: cache_inv_def coherent_def HeightCache_ops_def HeightCache_Clear_def on_cached_Done)
next
  case (start_txn x x')
  then show ?case
    using begin_txn [of "hc_storage x"]
    by (auto simp: cache_inv_def coherent_def HeightCache_ops_def on_cached_Done)
next
  case (set x h d x')
  then show ?case
    using set_state [of "hc_storage x" h d]
    by (auto simp: cache_inv_def coherent_def SetCurrentGameStateWithHeight_def on_cached_Done obind_eq)
next
  case (set_thrown x h d x')
  then show ?case
    using set_state [of "hc_storage x" h d] in_txn_rollable
    by (auto simp: cache_inv_def SetCurrentGameStateWithHeight_def on_cached_Done obind_eq)
next
  case (undo x c x')
  have "on_cached (run_call ops c) x = Done x'" and ns: "\<forall>h d. c \<noteq> CallSet h d"
    using run_call_cached [OF undo.hyps(2), of x] undo.hyps(3) by auto
  moreover have inv: "ok (hc_storage x)" "in_txn (hc_storage x)" using undo.IH by (simp_all add: cache_inv_def)
  ultimately show ?case
    using undo_keeps [OF inv undo.hyps(2)] undo.IH by (auto simp: cache_inv_def coherent_def on_cached_Done)
next
  case (undo_thrown x c x')
  have "on_cached (run_call ops c) x = Thrown x'" and ns: "\<forall>h d. c \<noteq> CallSet h d"
    using run_call_cached [OF undo_thrown.hyps(2), of x] undo_thrown.hyps(3) by auto
  moreover have inv: "ok (hc_storage x)" "in_txn (hc_storage x)" using undo_thrown.IH by (simp_all add: cache_inv_def)
  ultimately show ?case
    using undo_keeps [OF inv undo_thrown.hyps(2)] in_txn_rollable by (auto simp: cache_inv_def on_cached_Done)
next
  case (committed x x')
  then show ?case
    using commit [of "hc_storage x"]
    by (auto simp: cache_inv_def coherent_def HeightCache_ops_def on_cached_Done)
next
  case (commit_thrown x x')
  then show ?case
    using commit [of "hc_storage x"]
    by (auto simp: cache_inv_def HeightCache_ops_def on_cached_Done)
next
  case (rolled_back x failed x')
  then have "rollable (hc_storage x)" "ok (hc_storage x)"
    using in_txn_rollable by (auto simp: cache_inv_def split: if_splits)
  from rolled_back(2) rollback [OF this(2,1)] show ?case
    by (auto simp: cache_inv_def coherent_def HeightCache_ops_def HeightCache_RollbackTransaction_def on_cached_Done)
next
  case (get x txn cb x' r)
  then show ?case using get_height [OF get.IH get.hyps(2)] by (auto simp: cache_inv_def)
qed

end

section \<open>Properties\<close>

text \<open>
  The cached height is always right: in every run that sets the state with the true height of its
  block and rolls back after a call that has thrown, on any storage that keeps the contract, asking for the
  current block gives its hash and its true height, or nothing when there is no state; the cross check of
  the cached height never fails, and the storage is untouched.  A callback that throws leaves all as it is.
\<close>

lemma cached_height_correct:
  assumes "storage ops ok in_txn rollable contents_of"
    and "cache_run ops ht (\<lambda>s. ok s \<and> \<not> in_txn s) x txn False"
    and "callback_true ht cb"
  shows "outcome_ok
    (\<lambda>(x', r). hc_storage x' = hc_storage x
      \<and> r = map_option (\<lambda>(h, d). (h, ht h)) (cur_state (contents_of (hc_storage x))))
    (\<lambda>(x', r). x' = x) (GetCurrentBlockHashWithHeight ops cb x)"
  by (rule outcome_ok_mono [OF storage.get_height [OF assms(1) storage.cache_run_inv [OF assms(1,2)] assms(3)]]) auto

text \<open>A cache with cross checks on a storage in memory, whose state has been set and committed.\<close>

definition demo_cached :: "MemoryStorage StorageWithCachedHeight" where
  "demo_cached = \<lparr>hc_storage = \<lparr>hasState = True, currentBlock = SetNull, currentState = [1], undoData = [],
     startedTxn = False\<rparr>, crossCheck = True, cachedHeight = 7, hasHeight = True\<rparr>"

lemma demo_cached_run:
  "cache_run MemoryStorage_ops (\<lambda>h. 7) (\<lambda>s. memory_ok s \<and> \<not> startedTxn s) demo_cached False False"
proof -
  let ?run = "cache_run MemoryStorage_ops (\<lambda>h. 7) (\<lambda>s. memory_ok s \<and> \<not> startedTxn s)"
  let ?x = "\<lambda>s b. \<lparr>hc_storage = s, crossCheck = True, cachedHeight = (if b then 7 else 0), hasHeight = b\<rparr>"
  let ?s1 = "new_MemoryStorage\<lparr>startedTxn := True\<rparr>"
  let ?s2 = "?s1\<lparr>hasState := True, currentBlock := SetNull, currentState := [1]\<rparr>"
  have "?run (?x new_MemoryStorage False) False False"
    by (simp, rule cache_run.fresh) (simp add: memory_ok_def new_MemoryStorage_def)
  then have "?run (?x ?s1 False) True False"
    by (rule cache_run.start_txn) (simp add: HeightCache_ops_def on_cached_def memory_defs new_MemoryStorage_def)
  then have "?run (?x ?s2 True) True False"
    by (rule cache_run.set [where h = SetNull and d = "[1]"])
      (simp_all add: SetCurrentGameStateWithHeight_def on_cached_def memory_defs uint256_wf_def SetNull_def)
  then have "?run (?x (?s2\<lparr>startedTxn := False\<rparr>) True) False False"
    by (rule cache_run.committed) (simp add: HeightCache_ops_def on_cached_def memory_defs)
  then show ?thesis by (simp add: demo_cached_def new_MemoryStorage_def)
qed

end
