(* ===== verification/Game.thy ===== *)
theory Game
  imports GameLogic PendingMoves PruningQueue HeightCache "HOL-Library.While_Combinator"
begin

text \<open>
  The synchronisation of a game with the chain (\<open>spacexpansegame/game.cpp\<close>): the state machine of \<open>Game\<close>, the
  handling of attached and detached blocks and of pending moves, and the reinitialisation.

  A handler is a function of the object and of the replies that SpaceXpanse Core gives to its RPC calls;
  \<open>None\<close> as a reply is an RPC error, which throws.  \<open>Thrown\<close> is an exception that leaves the handler,
  \<open>Aborted\<close> a failed check (also a malformed notification or reply, on which JsonCpp throws).  Loops that
  may run forever give an option.  The storage with the cached height is the one that the transaction
  manager holds.  The notification of waiting threads and the hook \<open>GameStateUpdated\<close> change no state.
\<close>

section \<open>State\<close>

datatype State = UNKNOWN | PREGENESIS | OUT_OF_SYNC | CATRODNG_UP | AT_TARGET | UP_TO_DATE | DISCONNECTED

definition StateToString :: "State \<Rightarrow> string" where
  "StateToString s = (case s of
     State.UNKNOWN \<Rightarrow> ''unknown''
   | PREGENESIS \<Rightarrow> ''pregenesis''
   | OUT_OF_SYNC \<Rightarrow> ''out-of-sync''
   | CATRODNG_UP \<Rightarrow> ''catching-up''
   | AT_TARGET \<Rightarrow> ''at-target''
   | UP_TO_DATE \<Rightarrow> ''up-to-date''
   | DISCONNECTED \<Rightarrow> ''disconnected'')"

record ('s, 'u) Game =
  gameId :: string
  gm_chain :: Chain
  targetBlock :: uint256
  gm_state :: State
  genesisHeight :: int
  genesisHash :: uint256
  catchingUpTarget :: uint256
  reqToken :: string
  pendingStateVersion :: int
  transactionBatchSize :: u32
  transactionManager :: "'s StorageWithCachedHeight TransactionManager"
  pruningQueue :: "PruningQueue option"
  gm_pending :: "'u PendingMoveProcessor option"

record rpc_replies =
  rpc_getblockchaininfo :: "json option"
  rpc_getblockhash :: "int \<Rightarrow> string option"
  rpc_game_sendupdates :: "string \<Rightarrow> json option"
  rpc_getrawmempool :: "json option"

text \<open>What a game is set up with: its storage, the rules and their processor, and the pending moves.\<close>

record ('s, 'u) game_env =
  env_ops :: "'s storage_ops"
  env_sha :: "byte list \<Rightarrow> uint256"
  env_processor :: GameProcessorWithContext
  env_rules :: GameLogic
  env_pending :: "'u pending_rules"

definition new_Game :: "string \<Rightarrow> ('s, 'u) Game" where
  "new_Game ident = \<lparr>gameId = ident, gm_chain = Chain.UNKNOWN, targetBlock = SetNull, gm_state = DISCONNECTED,
     genesisHeight = -1, genesisHash = SetNull, catchingUpTarget = SetNull, reqToken = [],
     pendingStateVersion = 1, transactionBatchSize = 1000, transactionManager = new_TransactionManager,
     pruningQueue = None, gm_pending = None\<rparr>"

definition game_storage :: "('s, 'u) Game \<Rightarrow> 's StorageWithCachedHeight option" where
  "game_storage g = tm_storage (transactionManager g)"

definition on_game_manager ::
    "('s StorageWithCachedHeight TransactionManager \<Rightarrow> 's StorageWithCachedHeight TransactionManager outcome)
      \<Rightarrow> ('s, 'u) Game \<Rightarrow> ('s, 'u) Game outcome" where
  "on_game_manager f g = omap (\<lambda>tm. g\<lparr>transactionManager := tm\<rparr>) (f (transactionManager g))"

section \<open>Notifications\<close>

text \<open>\<open>asUInt\<close> of JsonCpp: null is zero; a number with a fraction is not modelled.\<close>

definition as_unsigned :: "json \<Rightarrow> nat option" where
  "as_unsigned j = (case j of JNull \<Rightarrow> Some 0 | JBool b \<Rightarrow> Some (if b then 1 else 0) | _ \<Rightarrow> asUInt j)"

definition parse_hash :: "json \<Rightarrow> uint256 option" where
  "parse_hash j = do { hex \<leftarrow> asString j; let r = FromHex hex SetNull; check (fst r); Some (snd r) }"

text \<open>The parent and the hash of the block in a notification, and its height.\<close>

definition notification_block :: "json \<Rightarrow> (uint256 \<times> uint256) option" where
  "notification_block blockData = do {
     blk \<leftarrow> json_at blockData ''block'';
     p \<leftarrow> json_at blk ''parent'';
     parent \<leftarrow> parse_hash p;
     h \<leftarrow> json_at blk ''hash'';
     hash \<leftarrow> parse_hash h;
     Some (parent, hash)
   }"

definition notification_height :: "json \<Rightarrow> nat option" where
  "notification_height blockData = do {
     blk \<leftarrow> json_at blockData ''block'';
     v \<leftarrow> json_at blk ''height'';
     as_unsigned v
   }"

definition IsReqtokenRelevant :: "json \<Rightarrow> ('s, 'u) Game \<Rightarrow> bool option" where
  "IsReqtokenRelevant blockData g = do {
     msgReqToken \<leftarrow> (if isMember blockData ''reqtoken'' then asString (member blockData ''reqtoken'') else Some []);
     Some (if gm_state g = CATRODNG_UP then msgReqToken = reqToken g else msgReqToken = [])
   }"

section \<open>Updating the state\<close>

definition attach_update ::
    "('s, 'u) game_env \<Rightarrow> uint256 \<Rightarrow> u32 \<Rightarrow> byte list \<Rightarrow> json
      \<Rightarrow> unit \<times> 's StorageWithCachedHeight TransactionManager
      \<Rightarrow> (unit \<times> 's StorageWithCachedHeight TransactionManager) outcome" where
  "attach_update env hash height oldState blockData x =
    (case ProcessForward (env_sha env) (env_processor env) (env_rules env) oldState blockData of
       None \<Rightarrow> Aborted
     | Some (newState, undo) \<Rightarrow>
         obind (on_manager (on_storage (op_AddUndoData (HeightCache_ops (env_ops env)) hash height undo)) x)
           (on_manager (on_storage (SetCurrentGameStateWithHeight (env_ops env) hash height newState))))"

definition UpdateStateForAttach ::
    "('s, 'u) game_env \<Rightarrow> uint256 \<Rightarrow> uint256 \<Rightarrow> json \<Rightarrow> ('s, 'u) Game \<Rightarrow> (bool \<times> ('s, 'u) Game) outcome" where
  "UpdateStateForAttach env parent hash blockData g =
    (let ops = HeightCache_ops (env_ops env) in
     case Option.bind (game_storage g) (op_GetCurrentBlockHash ops) of
       None \<Rightarrow> Aborted
     | Some currentHash \<Rightarrow>
         if currentHash \<noteq> parent then Done (False, g)
         else case do {
             oldState \<leftarrow> Option.bind (game_storage g) (op_GetCurrentGameState ops);
             check (isObject blockData);
             let blockHeader = member blockData ''block'';
             check (isObject blockHeader);
             height \<leftarrow> as_unsigned (member blockHeader ''height'');
             Some (oldState, height)
           } of
             None \<Rightarrow> Aborted
           | Some (oldState, height) \<Rightarrow>
               omap (\<lambda>x. (True, g\<lparr>transactionManager := snd x\<rparr>))
                 (in_transaction ops (attach_update env hash (of_nat height) oldState blockData)
                   ((), transactionManager g)))"

definition detach_update ::
    "('s, 'u) game_env \<Rightarrow> uint256 \<Rightarrow> uint256 \<Rightarrow> byte list \<Rightarrow> byte list \<Rightarrow> json
      \<Rightarrow> unit \<times> 's StorageWithCachedHeight TransactionManager
      \<Rightarrow> (unit \<times> 's StorageWithCachedHeight TransactionManager) outcome" where
  "detach_update env parent hash newState undo blockData x =
    (case do {
       oldState \<leftarrow> ProcessBackwards (env_sha env) (env_processor env) (env_rules env) newState blockData undo;
       check (isObject blockData);
       let blockHeader = member blockData ''block'';
       check (isObject blockHeader);
       height \<leftarrow> as_unsigned (member blockHeader ''height'');
       check (height > 0);
       Some (oldState, height)
     } of
       None \<Rightarrow> Aborted
     | Some (oldState, height) \<Rightarrow>
         obind (on_manager (on_storage (SetCurrentGameStateWithHeight (env_ops env) parent (of_nat (height - 1)) oldState)) x)
           (on_manager (on_storage (op_ReleaseUndoData (HeightCache_ops (env_ops env)) hash))))"

definition clear_storage ::
    "('s, 'u) game_env \<Rightarrow> ('s, 'u) Game \<Rightarrow> ('s, 'u) Game outcome" where
  "clear_storage env g = (let ops = HeightCache_ops (env_ops env) in
     obind (on_game_manager (TryAbortTransaction ops) g) (on_game_manager (on_storage (op_Clear ops))))"

definition UpdateStateForDetach ::
    "('s, 'u) game_env \<Rightarrow> uint256 \<Rightarrow> uint256 \<Rightarrow> json \<Rightarrow> ('s, 'u) Game \<Rightarrow> (bool \<times> ('s, 'u) Game) outcome" where
  "UpdateStateForDetach env parent hash blockData g =
    (let ops = HeightCache_ops (env_ops env) in
     case Option.bind (game_storage g) (op_GetCurrentBlockHash ops) of
       None \<Rightarrow> Aborted
     | Some currentHash \<Rightarrow>
         if currentHash \<noteq> hash then Done (False, g)
         else case Option.bind (game_storage g) (op_GetUndoData ops hash) of
             None \<Rightarrow> omap (Pair False) (clear_storage env g)
           | Some undo \<Rightarrow>
               (case Option.bind (game_storage g) (op_GetCurrentGameState ops) of
                  None \<Rightarrow> Aborted
                | Some newState \<Rightarrow>
                    omap (\<lambda>x. (True, g\<lparr>transactionManager := snd x\<rparr>))
                      (in_transaction ops (detach_update env parent hash newState undo blockData)
                        ((), transactionManager g))))"

section \<open>Synchronising\<close>

definition SyncFromCurrentState ::
    "('s, 'u) game_env \<Rightarrow> rpc_replies \<Rightarrow> json \<Rightarrow> uint256 \<Rightarrow> ('s, 'u) Game \<Rightarrow> ('s, 'u) Game outcome" where
  "SyncFromCurrentState env rpc blockchainInfo currentHash g =
    (let ops = HeightCache_ops (env_ops env) in
     obind (ocheck (gm_state g = OUT_OF_SYNC) g) (\<lambda>g.
     if currentHash = targetBlock g then Done (g\<lparr>gm_state := AT_TARGET\<rparr>)
     else case Option.bind (json_at blockchainInfo ''bestblockhash'') parse_hash of
         None \<Rightarrow> Aborted
       | Some daemonBestHash \<Rightarrow>
           if daemonBestHash = currentHash
           then on_game_manager (SetBatchSize ops 1) (g\<lparr>gm_state := UP_TO_DATE\<rparr>)
           else case rpc_game_sendupdates rpc (ToHex currentHash) of
               None \<Rightarrow> Thrown g
             | Some upd \<Rightarrow>
                 obind (on_game_manager (SetBatchSize ops (transactionBatchSize g)) (g\<lparr>gm_state := CATRODNG_UP\<rparr>)) (\<lambda>g.
                   case do {
                     t \<leftarrow> json_at upd ''toblock'';
                     toblock \<leftarrow> parse_hash t;
                     v \<leftarrow> json_at upd ''reqtoken'';
                     token \<leftarrow> asString v;
                     Some (toblock, token)
                   } of
                     None \<Rightarrow> Aborted
                   | Some (toblock, token) \<Rightarrow> Done (g\<lparr>catchingUpTarget := toblock, reqToken := token\<rparr>))))"

text \<open>The loop that stores the initial state until the storage takes it.\<close>

definition store_once ::
    "'s storage_ops \<Rightarrow> uint256 \<Rightarrow> u32 \<Rightarrow> byte list \<Rightarrow> unit \<times> 's StorageWithCachedHeight TransactionManager
      \<Rightarrow> (unit \<times> 's StorageWithCachedHeight TransactionManager) outcome" where
  "store_once ops h height d =
    in_transaction (HeightCache_ops ops) (on_manager (on_storage (SetCurrentGameStateWithHeight ops h height d)))"

definition retry :: "('a \<Rightarrow> 'a outcome) \<Rightarrow> 'a \<Rightarrow> 'a outcome option" where
  "retry f x = while_option (\<lambda>r. case r of Thrown x \<Rightarrow> True | _ \<Rightarrow> False) (\<lambda>r. case r of Thrown x \<Rightarrow> f x | _ \<Rightarrow> r) (f x)"

definition store_genesis ::
    "'s storage_ops \<Rightarrow> uint256 \<Rightarrow> u32 \<Rightarrow> byte list \<Rightarrow> unit \<times> 's StorageWithCachedHeight TransactionManager
      \<Rightarrow> (unit \<times> 's StorageWithCachedHeight TransactionManager) outcome option" where
  "store_genesis ops h height d = retry (store_once ops h height d)"

text \<open>The genesis height, which is asked for once.\<close>

definition find_genesis :: "('s, 'u) game_env \<Rightarrow> ('s, 'u) Game \<Rightarrow> ('s, 'u) Game option" where
  "find_genesis env g =
    (if genesisHeight g < 0 then do {
       check (genesisHeight g = -1);
       (n, hashHex, d) \<leftarrow> GetInitialState (env_sha env) (env_processor env) (env_rules env);
       check (sint n \<ge> 0);
       Some (g\<lparr>genesisHeight := sint n\<rparr>)
     } else Some g)"

text \<open>The genesis block: the one at the height, which has to be the one that the game asks for, if any.\<close>

definition find_genesis_hash :: "string \<Rightarrow> string \<Rightarrow> uint256 option" where
  "find_genesis_hash genesisHashHex blockHashHex = do {
     let b = FromHex blockHashHex SetNull;
     check (fst b);
     if genesisHashHex = [] then Some (snd b)
     else do {
       let r = FromHex genesisHashHex SetNull;
       check (fst r);
       check (snd b = snd r);
       Some (snd r)
     }
   }"

definition store_initial ::
    "('s, 'u) game_env \<Rightarrow> rpc_replies \<Rightarrow> json \<Rightarrow> ('s, 'u) Game \<Rightarrow> ('s, 'u) Game outcome option" where
  "store_initial env rpc info g =
    (case clear_storage env g of
       Thrown g \<Rightarrow> Some (Thrown g)
     | Aborted \<Rightarrow> Some Aborted
     | Done g \<Rightarrow>
         (case GetInitialState (env_sha env) (env_processor env) (env_rules env) of
            None \<Rightarrow> Some Aborted
          | Some (n, genesisHashHex, genesisData) \<Rightarrow>
              if genesisHeight g \<noteq> uint n then Some Aborted
              else case rpc_getblockhash rpc (genesisHeight g) of
                  None \<Rightarrow> Some (Thrown g)
                | Some blockHashHex \<Rightarrow>
                    (case find_genesis_hash genesisHashHex blockHashHex of
                       None \<Rightarrow> Some Aborted
                     | Some h \<Rightarrow>
                         map_option (\<lambda>r. obind (omap (\<lambda>x. g\<lparr>genesisHash := h, transactionManager := snd x\<rparr>) r)
                             (\<lambda>g. SyncFromCurrentState env rpc info (genesisHash g) (g\<lparr>gm_state := OUT_OF_SYNC\<rparr>)))
                           (store_genesis (env_ops env) h (of_int (genesisHeight g)) genesisData ((), transactionManager g)))))"

definition ReinitialiseState ::
    "('s, 'u) game_env \<Rightarrow> rpc_replies \<Rightarrow> ('s, 'u) Game \<Rightarrow> ('s, 'u) Game outcome option" where
  "ReinitialiseState env rpc g =
    (let g = g\<lparr>gm_state := State.UNKNOWN\<rparr> in
     case rpc_getblockchaininfo rpc of
       None \<Rightarrow> Some (Thrown g)
     | Some info \<Rightarrow>
         (case game_storage g of
            None \<Rightarrow> Some Aborted
          | Some s \<Rightarrow>
              (case op_GetCurrentBlockHash (HeightCache_ops (env_ops env)) s of
                 Some currentHash \<Rightarrow> Some (SyncFromCurrentState env rpc info currentHash (g\<lparr>gm_state := OUT_OF_SYNC\<rparr>))
               | None \<Rightarrow>
                   (case find_genesis env g of
                      None \<Rightarrow> Some Aborted
                    | Some g \<Rightarrow>
                        (case Option.bind (json_at info ''blocks'') as_unsigned of
                           None \<Rightarrow> Some Aborted
                         | Some blocks \<Rightarrow>
                             if int blocks < genesisHeight g then Some (Done (g\<lparr>gm_state := PREGENESIS\<rparr>))
                             else store_initial env rpc info g)))))"

section \<open>Handlers of notifications\<close>

text \<open>The part of a handler in which \<open>RetryWithNewTransaction\<close> is caught; the flag is \<open>needReinit\<close>.\<close>

fun catch_retry :: "(bool \<times> ('s, 'u) Game) outcome \<Rightarrow> (bool \<times> ('s, 'u) Game) outcome" where
  "catch_retry (Done x) = Done x"
| "catch_retry (Thrown x) = Done (True, snd x)"
| "catch_retry Aborted = Aborted"

definition attach_in_state ::
    "('s, 'u) game_env \<Rightarrow> uint256 \<Rightarrow> uint256 \<Rightarrow> nat \<Rightarrow> json \<Rightarrow> ('s, 'u) Game \<Rightarrow> (bool \<times> ('s, 'u) Game) outcome" where
  "attach_in_state env parent hash height blockData g =
    (case gm_state g of
       PREGENESIS \<Rightarrow> ocheck (genesisHeight g \<ge> 0) (int height \<ge> genesisHeight g, g)
     | CATRODNG_UP \<Rightarrow> omap (\<lambda>x. (\<not> fst x \<or> hash = catchingUpTarget (snd x), snd x))
         (UpdateStateForAttach env parent hash blockData g)
     | UP_TO_DATE \<Rightarrow> omap (\<lambda>x. (\<not> fst x, snd x)) (UpdateStateForAttach env parent hash blockData g)
     | _ \<Rightarrow> Aborted)"

definition queue_attach ::
    "('s, 'u) game_env \<Rightarrow> uint256 \<Rightarrow> u32 \<Rightarrow> bool \<times> ('s, 'u) Game \<Rightarrow> (bool \<times> ('s, 'u) Game) outcome" where
  "queue_attach env hash height x =
    (case pruningQueue (snd x) of
       None \<Rightarrow> Done x
     | Some q \<Rightarrow>
         omap (\<lambda>y. (fst x, (snd x)\<lparr>pruningQueue := Some (fst y), transactionManager := snd y\<rparr>))
           (AttachBlock (HeightCache_ops (env_ops env)) hash height (q, transactionManager (snd x))))"

definition queue_reset :: "('s, 'u) Game \<Rightarrow> ('s, 'u) Game" where
  "queue_reset g = g\<lparr>pruningQueue := map_option (\<lambda>q. fst (Reset (q, transactionManager g))) (pruningQueue g)\<rparr>"

definition detach_in_state ::
    "('s, 'u) game_env \<Rightarrow> uint256 \<Rightarrow> uint256 \<Rightarrow> json \<Rightarrow> ('s, 'u) Game \<Rightarrow> (bool \<times> ('s, 'u) Game) outcome" where
  "detach_in_state env parent hash blockData g =
    (case gm_state g of
       PREGENESIS \<Rightarrow> Done (False, g)
     | CATRODNG_UP \<Rightarrow> omap (\<lambda>x. (\<not> fst x \<or> parent = catchingUpTarget (snd x), snd x))
         (UpdateStateForDetach env parent hash blockData g)
     | UP_TO_DATE \<Rightarrow> omap (\<lambda>x. (\<not> fst x, snd x)) (UpdateStateForDetach env parent hash blockData g)
     | _ \<Rightarrow> Aborted)"

definition queue_detach :: "bool \<times> ('s, 'u) Game \<Rightarrow> bool \<times> ('s, 'u) Game" where
  "queue_detach x = (fst x, (snd x)\<lparr>pruningQueue :=
     map_option (\<lambda>q. fst (DetachBlock (q, transactionManager (snd x)))) (pruningQueue (snd x))\<rparr>)"

text \<open>What both handlers do after the update: stop at the target, and reinitialise when needed.\<close>

definition finish_update ::
    "('s, 'u) game_env \<Rightarrow> rpc_replies \<Rightarrow> uint256 \<Rightarrow> bool \<times> ('s, 'u) Game \<Rightarrow> ('s, 'u) Game outcome option" where
  "finish_update env rpc reached x =
    (let g = (if reached = targetBlock (snd x) then (snd x)\<lparr>gm_state := AT_TARGET\<rparr> else snd x) in
     if fst x then ReinitialiseState env rpc g else Some (Done g))"

definition WAITFORCHANGE_ALWAYS_BLOCK :: int where
  "WAITFORCHANGE_ALWAYS_BLOCK = 0"

definition NotifyPendingStateChange :: "('s, 'u) Game \<Rightarrow> ('s, 'u) Game outcome" where
  "NotifyPendingStateChange g = obind (ocheck (pendingStateVersion g > WAITFORCHANGE_ALWAYS_BLOCK) g) (\<lambda>g.
     obind (ocheck (pendingStateVersion g + 1 < 2 ^ 31) g) (\<lambda>g. Done (g\<lparr>pendingStateVersion := pendingStateVersion g + 1\<rparr>)))"

definition on_pending ::
    "('u PendingMoveProcessor \<Rightarrow> 'u PendingMoveProcessor outcome) \<Rightarrow> ('s, 'u) Game \<Rightarrow> ('s, 'u) Game outcome" where
  "on_pending f g = (case gm_pending g of
     None \<Rightarrow> Aborted
   | Some p \<Rightarrow> obind (omap (\<lambda>p. g\<lparr>gm_pending := Some p\<rparr>) (f p)) NotifyPendingStateChange)"

definition current_game_state :: "('s, 'u) game_env \<Rightarrow> ('s, 'u) Game \<Rightarrow> byte list option" where
  "current_game_state env g = Option.bind (game_storage g) (op_GetCurrentGameState (HeightCache_ops (env_ops env)))"

definition pending_attach ::
    "('s, 'u) game_env \<Rightarrow> rpc_replies \<Rightarrow> json \<Rightarrow> ('s, 'u) Game \<Rightarrow> ('s, 'u) Game outcome" where
  "pending_attach env rpc blockData g =
    (if gm_state g = UP_TO_DATE \<and> gm_pending g \<noteq> None then
       (case current_game_state env g of
          None \<Rightarrow> Aborted
        | Some st \<Rightarrow> on_pending (ProcessAttachedBlock (env_pending env) (rpc_getrawmempool rpc) st blockData) g)
     else Done g)"

definition pending_detach ::
    "('s, 'u) game_env \<Rightarrow> rpc_replies \<Rightarrow> json \<Rightarrow> ('s, 'u) Game \<Rightarrow> ('s, 'u) Game outcome" where
  "pending_detach env rpc blockData g =
    (if gm_state g = UP_TO_DATE \<and> gm_pending g \<noteq> None then
       (case do { height \<leftarrow> notification_height blockData; check (height > 0); current_game_state env g } of
          None \<Rightarrow> Aborted
        | Some st \<Rightarrow> on_pending (ProcessDetachedBlock (env_pending env) (rpc_getrawmempool rpc) st blockData) g)
     else Done g)"

definition BlockAttach ::
    "('s, 'u) game_env \<Rightarrow> rpc_replies \<Rightarrow> string \<Rightarrow> json \<Rightarrow> bool \<Rightarrow> ('s, 'u) Game \<Rightarrow> ('s, 'u) Game outcome option" where
  "BlockAttach env rpc ident blockData seqMismatch g =
    (case do { check (ident = gameId g); notification_block blockData } of
       None \<Rightarrow> Some Aborted
     | Some (parent, hash) \<Rightarrow>
         if gm_state g = AT_TARGET then Some (Done g)
         else if seqMismatch then map_option (\<lambda>r. obind r (\<lambda>g. Done (queue_reset g))) (ReinitialiseState env rpc g)
         else case IsReqtokenRelevant blockData g of
             None \<Rightarrow> Some Aborted
           | Some False \<Rightarrow> Some (Done g)
           | Some True \<Rightarrow>
               (case notification_height blockData of
                  None \<Rightarrow> Some Aborted
                | Some height \<Rightarrow>
                    (case catch_retry (obind (attach_in_state env parent hash height blockData g)
                        (queue_attach env hash (of_nat height))) of
                       Done x \<Rightarrow> map_option (\<lambda>r. obind r (pending_attach env rpc blockData)) (finish_update env rpc hash x)
                     | Thrown x \<Rightarrow> Some (Thrown (snd x))
                     | Aborted \<Rightarrow> Some Aborted)))"

definition BlockDetach ::
    "('s, 'u) game_env \<Rightarrow> rpc_replies \<Rightarrow> string \<Rightarrow> json \<Rightarrow> bool \<Rightarrow> ('s, 'u) Game \<Rightarrow> ('s, 'u) Game outcome option" where
  "BlockDetach env rpc ident blockData seqMismatch g =
    (case do { check (ident = gameId g); notification_block blockData } of
       None \<Rightarrow> Some Aborted
     | Some (parent, hash) \<Rightarrow>
         if gm_state g = AT_TARGET then Some (Done g)
         else if seqMismatch then map_option (\<lambda>r. obind r (\<lambda>g. Done (queue_reset g))) (ReinitialiseState env rpc g)
         else case IsReqtokenRelevant blockData g of
             None \<Rightarrow> Some Aborted
           | Some False \<Rightarrow> Some (Done g)
           | Some True \<Rightarrow>
               (case catch_retry (omap queue_detach (detach_in_state env parent hash blockData g)) of
                  Done x \<Rightarrow> map_option (\<lambda>r. obind r (pending_detach env rpc blockData)) (finish_update env rpc parent x)
                | Thrown x \<Rightarrow> Some (Thrown (snd x))
                | Aborted \<Rightarrow> Some Aborted))"

definition PendingMove ::
    "('s, 'u) game_env \<Rightarrow> rpc_replies \<Rightarrow> string \<Rightarrow> json \<Rightarrow> ('s, 'u) Game \<Rightarrow> ('s, 'u) Game outcome" where
  "PendingMove env rpc ident moves g =
    obind (ocheck (ident = gameId g) g) (\<lambda>g.
    if gm_state g = UP_TO_DATE then
      obind (ocheck (Option.bind (game_storage g) (op_GetCurrentBlockHash (HeightCache_ops (env_ops env))) \<noteq> None) g) (\<lambda>g.
      case current_game_state env g of
        None \<Rightarrow> Aborted
      | Some st \<Rightarrow> on_pending (ProcessTx (env_pending env) (rpc_getrawmempool rpc) st moves) g)
    else Done g)"

definition HasStopped :: "('s, 'u) Game \<Rightarrow> ('s, 'u) Game" where
  "HasStopped g = g\<lparr>gm_state := DISCONNECTED\<rparr>"

section \<open>Set-up and queries\<close>

text \<open>Connecting to SpaceXpanse Core, which says what chain it is on.\<close>

definition ConnectRpcClient :: "rpc_replies \<Rightarrow> ('s, 'u) Game \<Rightarrow> ('s, 'u) Game outcome" where
  "ConnectRpcClient rpc g = obind (ocheck (gm_chain g = Chain.UNKNOWN) g) (\<lambda>g.
     case rpc_getblockchaininfo rpc of
       None \<Rightarrow> Thrown g
     | Some info \<Rightarrow>
         (case do { v \<leftarrow> json_at info ''chain''; asString v } of
            None \<Rightarrow> Aborted
          | Some s \<Rightarrow> obind (ocheck (ChainFromString s \<noteq> Chain.UNKNOWN) g) (\<lambda>g. Done (g\<lparr>gm_chain := ChainFromString s\<rparr>))))"

definition Game_GetChain :: "('s, 'u) Game \<Rightarrow> Chain option" where
  "Game_GetChain g = do { check (gm_chain g \<noteq> Chain.UNKNOWN); Some (gm_chain g) }"

text \<open>Setting the storage, which is opened already; the cache starts without a height.\<close>

definition Game_SetStorage :: "('s, 'u) game_env \<Rightarrow> 's \<Rightarrow> u32 \<Rightarrow> ('s, 'u) Game \<Rightarrow> ('s, 'u) Game outcome" where
  "Game_SetStorage env s uninitialised g = obind (ocheck (pruningQueue g = None) g) (\<lambda>g.
     let x = \<lparr>hc_storage = s, crossCheck = False, cachedHeight = uninitialised, hasHeight = False\<rparr>;
         x = (if gm_chain g = REGTEST then EnableCrossChecks x else x) in
     on_game_manager (SetStorage (HeightCache_ops (env_ops env)) x) g)"

definition EnablePruning :: "('s, 'u) game_env \<Rightarrow> u32 \<Rightarrow> ('s, 'u) Game \<Rightarrow> ('s, 'u) Game outcome" where
  "EnablePruning env n g = obind (ocheck (game_storage g \<noteq> None) g) (\<lambda>g.
     case pruningQueue g of
       None \<Rightarrow> Done (g\<lparr>pruningQueue := Some (new_PruningQueue n)\<rparr>)
     | Some q \<Rightarrow> omap (\<lambda>y. g\<lparr>pruningQueue := Some (fst y), transactionManager := snd y\<rparr>)
         (SetDesiredSize (HeightCache_ops (env_ops env)) n (q, transactionManager g)))"

definition SetTargetBlock ::
    "('s, 'u) game_env \<Rightarrow> rpc_replies \<Rightarrow> uint256 \<Rightarrow> ('s, 'u) Game \<Rightarrow> ('s, 'u) Game outcome option" where
  "SetTargetBlock env rpc blk g =
    (let g = g\<lparr>targetBlock := blk\<rparr> in
     if gm_state g \<noteq> DISCONNECTED then ReinitialiseState env rpc g else Some (Done g))"

definition IsHealthy :: "('s, 'u) Game \<Rightarrow> bool" where
  "IsHealthy g \<longleftrightarrow> gm_state g = UP_TO_DATE"

text \<open>
  Waiting for a change: \<open>g'\<close> is the game when the thread is woken up or has waited long enough.
\<close>

definition WaitForChange :: "('s, 'u) game_env \<Rightarrow> bool \<Rightarrow> uint256 \<Rightarrow> ('s, 'u) Game \<Rightarrow> ('s, 'u) Game \<Rightarrow> uint256" where
  "WaitForChange env zmqRunning oldBlock g g' =
    (let current = (\<lambda>g. Option.bind (game_storage g) (op_GetCurrentBlockHash (HeightCache_ops (env_ops env)))) in
     case (if IsNull oldBlock then None else current g) of
       Some newBlock \<Rightarrow> if newBlock \<noteq> oldBlock then newBlock
         else (case current (if zmqRunning then g' else g) of None \<Rightarrow> SetNull | Some b \<Rightarrow> b)
     | None \<Rightarrow> (case current (if zmqRunning then g' else g) of None \<Rightarrow> SetNull | Some b \<Rightarrow> b))"

text \<open>
  The JSON form of the state with data that a callback extracts; an exception while the height is looked
  up leaves these data out.  Looking up the height may cache it.
\<close>

definition store_cached :: "'s StorageWithCachedHeight \<Rightarrow> ('s, 'u) Game \<Rightarrow> ('s, 'u) Game" where
  "store_cached x g = g\<lparr>transactionManager := (transactionManager g)\<lparr>tm_storage := Some x\<rparr>\<rparr>"

definition GetCustomStateData ::
    "('s, 'u) game_env \<Rightarrow> height_callback \<Rightarrow> string \<Rightarrow> (byte list \<Rightarrow> uint256 \<Rightarrow> u32 \<Rightarrow> json option) \<Rightarrow> ('s, 'u) Game
      \<Rightarrow> (json \<times> ('s, 'u) Game) option" where
  "GetCustomStateData env hashToHeight jsonField cb g =
    (case (ChainToString (gm_chain g), game_storage g) of
       (Some chainStr, Some x) \<Rightarrow>
         let res = [(''gameid'', JString (gameId g)), (''chain'', JString chainStr),
                    (''state'', JString (StateToString (gm_state g)))] in
         (case GetCurrentBlockHashWithHeight (env_ops env) hashToHeight x of
            Aborted \<Rightarrow> None
          | Thrown y \<Rightarrow> Some (json_obj res, store_cached (fst y) g)
          | Done y \<Rightarrow>
              let g' = store_cached (fst y) g in
              (case snd y of
                 None \<Rightarrow> Some (json_obj res, g')
               | Some (h, height) \<Rightarrow> do {
                   st \<leftarrow> current_game_state env g';
                   j \<leftarrow> cb st h height;
                   Some (json_obj (res @ [(''blockhash'', JString (ToHex h)), (''height'', JUInt (uint height)), (jsonField, j)]), g')
                 }))
     | _ \<Rightarrow> None)"

definition GetNullJsonState ::
    "('s, 'u) game_env \<Rightarrow> height_callback \<Rightarrow> ('s, 'u) Game \<Rightarrow> (json \<times> ('s, 'u) Game) option" where
  "GetNullJsonState env hashToHeight g = map_option
     (\<lambda>(j, g). (case j of JObject ms \<Rightarrow> JObject (member_del ''data'' ms) | _ \<Rightarrow> j, g))
     (GetCustomStateData env hashToHeight ''data'' (\<lambda>st h height. Some JNull) g)"

text \<open>The JSON form of the pending state, of a subscriber that tracks pending moves.\<close>

definition UnlockedPendingJsonState ::
    "('s, 'u) game_env \<Rightarrow> height_callback \<Rightarrow> bool \<Rightarrow> ('s, 'u) Game \<Rightarrow> (json option \<times> ('s, 'u) Game) outcome" where
  "UnlockedPendingJsonState env hashToHeight pendingEnabled g =
    (if \<not> pendingEnabled then Thrown (None, g)
     else case (gm_pending g, game_storage g, ChainToString (gm_chain g)) of
         (Some p, Some x, Some chainStr) \<Rightarrow>
           (case GetCurrentBlockHashWithHeight (env_ops env) hashToHeight x of
              Aborted \<Rightarrow> Aborted
            | Thrown y \<Rightarrow> Thrown (None, store_cached (fst y) g)
            | Done y \<Rightarrow>
                (case pend_ToJson (env_pending env) (pend_state p) of
                   None \<Rightarrow> Aborted
                 | Some pend \<Rightarrow> Done (Some (json_obj ([(''version'', JInt (pendingStateVersion g)), (''gameid'', JString (gameId g)),
                       (''chain'', JString chainStr), (''state'', JString (StateToString (gm_state g)))]
                     @ (case snd y of None \<Rightarrow> []
                        | Some (h, height) \<Rightarrow> [(''blockhash'', JString (ToHex h)), (''height'', JUInt (uint height))])
                     @ [(''pending'', pend)])), store_cached (fst y) g)))
       | _ \<Rightarrow> Aborted)"

definition WaitForPendingChange ::
    "('s, 'u) game_env \<Rightarrow> height_callback \<Rightarrow> bool \<Rightarrow> bool \<Rightarrow> int \<Rightarrow> ('s, 'u) Game \<Rightarrow> ('s, 'u) Game
      \<Rightarrow> (json option \<times> ('s, 'u) Game) outcome" where
  "WaitForPendingChange env hashToHeight zmqRunning pendingEnabled oldVersion g g' =
    (if oldVersion \<noteq> WAITFORCHANGE_ALWAYS_BLOCK \<and> oldVersion \<noteq> pendingStateVersion g
     then UnlockedPendingJsonState env hashToHeight pendingEnabled g
     else UnlockedPendingJsonState env hashToHeight pendingEnabled (if zmqRunning \<and> pendingEnabled then g' else g))"

end
