(* ===== verification/SqliteStorage.thy ===== *)
theory SqliteStorage
  imports Transactions "HOL-Library.List_Lexorder" "HOL-Library.Char_ord"
begin

text \<open>
  The storage in an SQLite database (\<open>SQLiteStorage\<close> of \<open>spacexpansegame/sqlitestorage.cpp\<close>).

  The connection of the SQLite library is a parameter: opening it, the savepoint statements, the tables
  that a connection reads and writes, and the tables that are durable, which other connections and a
  later start of the process see.  The documented behaviour of savepoints is the reference machine
  below, and \<open>sqlite_ok\<close> says that a connection behaves like it.
\<close>

section \<open>The connection\<close>

record sql_tables =
  spacexpansegame_current :: "(string \<times> byte list) list"
  spacexpansegame_undo :: "(uint256 \<times> (byte list \<times> int)) list"

record ('c, 't) sqlite_api =
  sq_open :: "'c \<Rightarrow> 'c"
  sq_remove :: "'c \<Rightarrow> 'c"
  sq_savepoint :: "string \<Rightarrow> 'c \<Rightarrow> 'c option"
  sq_release :: "string \<Rightarrow> 'c \<Rightarrow> 'c option"
  sq_rollback_to :: "string \<Rightarrow> 'c \<Rightarrow> 'c option"
  sq_execute :: "('t sql_tables_scheme \<Rightarrow> 't sql_tables_scheme) \<Rightarrow> 'c \<Rightarrow> 'c"
  sq_tables :: "'c \<Rightarrow> 't sql_tables_scheme"
  sq_durable :: "'c \<Rightarrow> 't sql_tables_scheme"

text \<open>
  The reference machine: the durable tables, the tables of the connection, and the savepoints with the
  tables at the time of each, the latest first.  Without a savepoint every statement is durable at once.
  Releasing the outermost savepoint commits.  Rolling back to a savepoint keeps it on the stack.
\<close>

record 't savepoints =
  sp_durable :: "'t sql_tables_scheme"
  sp_now :: "'t sql_tables_scheme"
  sp_stack :: "(string \<times> 't sql_tables_scheme) list"

definition sp_savepoint :: "string \<Rightarrow> 't savepoints \<Rightarrow> 't savepoints option" where
  "sp_savepoint n c = Some (c\<lparr>sp_stack := (n, sp_now c) # sp_stack c\<rparr>)"

definition sp_release :: "string \<Rightarrow> 't savepoints \<Rightarrow> 't savepoints option" where
  "sp_release n c = (case dropWhile (\<lambda>e. fst e \<noteq> n) (sp_stack c) of
     [] \<Rightarrow> None
   | e # rest \<Rightarrow> Some (c\<lparr>sp_stack := rest, sp_durable := (if rest = [] then sp_now c else sp_durable c)\<rparr>))"

definition sp_rollback_to :: "string \<Rightarrow> 't savepoints \<Rightarrow> 't savepoints option" where
  "sp_rollback_to n c = (case dropWhile (\<lambda>e. fst e \<noteq> n) (sp_stack c) of
     [] \<Rightarrow> None
   | e # rest \<Rightarrow> Some (c\<lparr>sp_stack := e # rest, sp_now := snd e\<rparr>))"

definition sp_execute :: "('t sql_tables_scheme \<Rightarrow> 't sql_tables_scheme) \<Rightarrow> 't savepoints \<Rightarrow> 't savepoints" where
  "sp_execute f c = (let t = f (sp_now c) in
     c\<lparr>sp_now := t, sp_durable := (if sp_stack c = [] then t else sp_durable c)\<rparr>)"

definition new_tables :: sql_tables where
  "new_tables = \<lparr>spacexpansegame_current = [], spacexpansegame_undo = []\<rparr>"

definition new_savepoints :: "unit savepoints" where
  "new_savepoints = \<lparr>sp_durable = new_tables, sp_now = new_tables, sp_stack = []\<rparr>"

text \<open>A new file: its own tables are empty; \<open>m\<close> is the rest of the database, for subclasses with more tables.\<close>

definition empty_savepoints :: "'t \<Rightarrow> 't savepoints" where
  "empty_savepoints m = (let t = sql_tables.extend new_tables m in \<lparr>sp_durable = t, sp_now = t, sp_stack = []\<rparr>)"

lemma new_empty: "new_savepoints = empty_savepoints ()"
  by (simp add: new_savepoints_def empty_savepoints_def Let_def sql_tables.defs)

definition sqlite_ok :: "('c, 't) sqlite_api \<Rightarrow> ('c \<Rightarrow> 't savepoints) \<Rightarrow> bool" where
  "sqlite_ok api rep \<longleftrightarrow>
     (\<forall>n c. map_option rep (sq_savepoint api n c) = sp_savepoint n (rep c)
        \<and> map_option rep (sq_release api n c) = sp_release n (rep c)
        \<and> map_option rep (sq_rollback_to api n c) = sp_rollback_to n (rep c))
     \<and> (\<forall>f c. rep (sq_execute api f c) = sp_execute f (rep c))
     \<and> (\<forall>c. sq_tables api c = sp_now (rep c) \<and> sq_durable api c = sp_durable (rep c)
        \<and> (\<exists>m. rep (sq_open api (sq_remove api c)) = empty_savepoints m))"

section \<open>The storage\<close>

record 'c SQLiteStorage =
  sql_db :: "'c option"
  startedTransaction :: bool

definition sp_name :: string where
  "sp_name = ''spacexpansegame-sqlitegame''"

definition sp_set_name :: string where
  "sp_set_name = ''spacexpansegame-setcurrentstate''"

text \<open>A statement on the open database; a failed statement aborts.\<close>

definition on_db :: "('c \<Rightarrow> 'c option) \<Rightarrow> 'c SQLiteStorage \<Rightarrow> 'c SQLiteStorage outcome" where
  "on_db f s = (case sql_db s of
     None \<Rightarrow> Aborted
   | Some c \<Rightarrow> (case f c of None \<Rightarrow> Aborted | Some c' \<Rightarrow> Done (s\<lparr>sql_db := Some c'\<rparr>)))"

definition insert_current :: "string \<Rightarrow> byte list \<Rightarrow> 't sql_tables_scheme \<Rightarrow> 't sql_tables_scheme" where
  "insert_current k v t = t\<lparr>spacexpansegame_current := member_set k v (spacexpansegame_current t)\<rparr>"

definition read_current :: "('c, 't) sqlite_api \<Rightarrow> string \<Rightarrow> 'c SQLiteStorage \<Rightarrow> byte list option" where
  "read_current api k s = Option.bind (sql_db s) (\<lambda>c. map_of (spacexpansegame_current (sq_tables api c)) k)"

definition SQLite_GetCurrentBlockHash :: "('c, 't) sqlite_api \<Rightarrow> 'c SQLiteStorage \<Rightarrow> uint256 option" where
  "SQLite_GetCurrentBlockHash api s = map_option FromBlob (read_current api ''blockhash'' s)"

definition SQLite_GetCurrentGameState :: "('c, 't) sqlite_api \<Rightarrow> 'c SQLiteStorage \<Rightarrow> byte list option" where
  "SQLite_GetCurrentGameState api s = read_current api ''gamestate'' s"

definition SQLite_SetCurrentGameState ::
    "('c, 't) sqlite_api \<Rightarrow> uint256 \<Rightarrow> byte list \<Rightarrow> 'c SQLiteStorage \<Rightarrow> 'c SQLiteStorage outcome" where
  "SQLite_SetCurrentGameState api h d s = obind (ocheck (startedTransaction s) s) (\<lambda>s.
     obind (on_db (sq_savepoint api sp_set_name) s) (\<lambda>s.
     obind (on_db (\<lambda>c. Some (sq_execute api (insert_current ''blockhash'' (GetBinaryString h)) c)) s) (\<lambda>s.
     obind (on_db (\<lambda>c. Some (sq_execute api (insert_current ''gamestate'' d) c)) s) (\<lambda>s.
     on_db (sq_release api sp_set_name) s))))"

definition SQLite_GetUndoData :: "('c, 't) sqlite_api \<Rightarrow> uint256 \<Rightarrow> 'c SQLiteStorage \<Rightarrow> byte list option" where
  "SQLite_GetUndoData api h s = Option.bind (sql_db s) (\<lambda>c.
     map_option fst (map_of (spacexpansegame_undo (sq_tables api c)) h))"

definition SQLite_AddUndoData ::
    "('c, 't) sqlite_api \<Rightarrow> uint256 \<Rightarrow> u32 \<Rightarrow> byte list \<Rightarrow> 'c SQLiteStorage \<Rightarrow> 'c SQLiteStorage outcome" where
  "SQLite_AddUndoData api h height d s = obind (ocheck (startedTransaction s) s)
     (on_db (\<lambda>c. Some (sq_execute api
       (\<lambda>t. t\<lparr>spacexpansegame_undo := member_set h (d, uint height) (spacexpansegame_undo t)\<rparr>) c)))"

definition SQLite_ReleaseUndoData ::
    "('c, 't) sqlite_api \<Rightarrow> uint256 \<Rightarrow> 'c SQLiteStorage \<Rightarrow> 'c SQLiteStorage outcome" where
  "SQLite_ReleaseUndoData api h s = obind (ocheck (startedTransaction s) s)
     (on_db (\<lambda>c. Some (sq_execute api
       (\<lambda>t. t\<lparr>spacexpansegame_undo := member_del h (spacexpansegame_undo t)\<rparr>) c)))"

definition SQLite_PruneUndoData ::
    "('c, 't) sqlite_api \<Rightarrow> u32 \<Rightarrow> 'c SQLiteStorage \<Rightarrow> 'c SQLiteStorage outcome" where
  "SQLite_PruneUndoData api height s = obind (ocheck (startedTransaction s) s)
     (on_db (\<lambda>c. Some (sq_execute api
       (\<lambda>t. t\<lparr>spacexpansegame_undo := filter (\<lambda>e. \<not> snd (snd e) \<le> uint height) (spacexpansegame_undo t)\<rparr>) c)))"

definition SQLite_BeginTransaction :: "('c, 't) sqlite_api \<Rightarrow> 'c SQLiteStorage \<Rightarrow> 'c SQLiteStorage outcome" where
  "SQLite_BeginTransaction api s = obind (ocheck (\<not> startedTransaction s) s) (\<lambda>s.
     on_db (sq_savepoint api sp_name) (s\<lparr>startedTransaction := True\<rparr>))"

text \<open>The checkpoint of the write-ahead log after a commit has no effect on the tables.\<close>

definition SQLite_CommitTransaction :: "('c, 't) sqlite_api \<Rightarrow> 'c SQLiteStorage \<Rightarrow> 'c SQLiteStorage outcome" where
  "SQLite_CommitTransaction api s = obind (on_db (sq_release api sp_name) s) (\<lambda>s.
     obind (ocheck (startedTransaction s) s) (\<lambda>s. Done (s\<lparr>startedTransaction := False\<rparr>)))"

definition SQLite_RollbackTransaction :: "('c, 't) sqlite_api \<Rightarrow> 'c SQLiteStorage \<Rightarrow> 'c SQLiteStorage outcome" where
  "SQLite_RollbackTransaction api s = obind (on_db (sq_rollback_to api sp_name) s) (\<lambda>s.
     obind (ocheck (startedTransaction s) s) (\<lambda>s. Done (s\<lparr>startedTransaction := False\<rparr>)))"

text \<open>Clearing closes the database, removes its file and opens it again.\<close>

definition SQLite_Clear :: "('c, 't) sqlite_api \<Rightarrow> 'c SQLiteStorage \<Rightarrow> 'c SQLiteStorage outcome" where
  "SQLite_Clear api s = on_db (\<lambda>c. Some (sq_open api (sq_remove api c))) s"

definition SQLiteStorage_ops :: "('c, 't) sqlite_api \<Rightarrow> 'c SQLiteStorage storage_ops" where
  "SQLiteStorage_ops api =
    \<lparr>op_Clear = SQLite_Clear api, op_GetCurrentBlockHash = SQLite_GetCurrentBlockHash api,
     op_GetCurrentGameState = SQLite_GetCurrentGameState api, op_SetCurrentGameState = SQLite_SetCurrentGameState api,
     op_GetUndoData = SQLite_GetUndoData api, op_AddUndoData = SQLite_AddUndoData api,
     op_ReleaseUndoData = SQLite_ReleaseUndoData api, op_PruneUndoData = SQLite_PruneUndoData api,
     op_BeginTransaction = SQLite_BeginTransaction api, op_CommitTransaction = SQLite_CommitTransaction api,
     op_RollbackTransaction = SQLite_RollbackTransaction api\<rparr>"

section \<open>The contract\<close>

definition tables_ok :: "'t sql_tables_scheme \<Rightarrow> bool" where
  "tables_ok t \<longleftrightarrow> tbl_ok (spacexpansegame_current t) \<and> tbl_ok (spacexpansegame_undo t)
     \<and> (map_of (spacexpansegame_current t) ''blockhash'' = None
         \<longleftrightarrow> map_of (spacexpansegame_current t) ''gamestate'' = None)
     \<and> (\<forall>h d n. map_of (spacexpansegame_undo t) h = Some (d, n) \<longrightarrow> 0 \<le> n \<and> n < 2 ^ 32)"

definition tables_contents :: "'t sql_tables_scheme \<Rightarrow> contents" where
  "tables_contents t = \<lparr>cur_state = (case map_of (spacexpansegame_current t) ''blockhash'' of
       None \<Rightarrow> None
     | Some b \<Rightarrow> map_option (Pair (FromBlob b)) (map_of (spacexpansegame_current t) ''gamestate'')),
     cur_undo = (\<lambda>h. map_option (\<lambda>(d, n). (of_int n, d)) (map_of (spacexpansegame_undo t) h))\<rparr>"

text \<open>The connection of an open storage, and the savepoints of the storage on it.\<close>

definition sqlite_state :: "('c \<Rightarrow> 't savepoints) \<Rightarrow> 'c SQLiteStorage \<Rightarrow> 't savepoints" where
  "sqlite_state rep s = rep (the (sql_db s))"

definition sqlite_inv :: "('c \<Rightarrow> 't savepoints) \<Rightarrow> 'c SQLiteStorage \<Rightarrow> bool" where
  "sqlite_inv rep s \<longleftrightarrow> sql_db s \<noteq> None \<and> tables_ok (sp_now (sqlite_state rep s))
     \<and> list_all (\<lambda>e. fst e = sp_name \<and> tables_ok (snd e)) (sp_stack (sqlite_state rep s))
     \<and> (startedTransaction s \<longrightarrow> sp_stack (sqlite_state rep s) \<noteq> [])"

definition sqlite_contents :: "('c \<Rightarrow> 't savepoints) \<Rightarrow> 'c SQLiteStorage \<Rightarrow> contents" where
  "sqlite_contents rep s = tables_contents (sp_now (sqlite_state rep s))"

definition sqlite_base :: "('c \<Rightarrow> 't savepoints) \<Rightarrow> 'c SQLiteStorage \<Rightarrow> contents" where
  "sqlite_base rep s = tables_contents (snd (hd (sp_stack (sqlite_state rep s))))"

lemma on_db_simps:
  "sql_db s = Some c \<Longrightarrow> on_db f s = (case f c of None \<Rightarrow> Aborted | Some c' \<Rightarrow> Done (s\<lparr>sql_db := Some c'\<rparr>))"
  by (simp add: on_db_def)

text \<open>The statements in terms of the reference machine.\<close>

lemma api_rep:
  assumes "sqlite_ok api rep"
  shows "\<exists>c'. sq_savepoint api n c = Some c' \<and> rep c' = (rep c)\<lparr>sp_stack := (n, sp_now (rep c)) # sp_stack (rep c)\<rparr>"
    and "sp_stack (rep c) = (n, t) # rest \<Longrightarrow> \<exists>c'. sq_release api n c = Some c'
      \<and> rep c' = (rep c)\<lparr>sp_stack := rest, sp_durable := (if rest = [] then sp_now (rep c) else sp_durable (rep c))\<rparr>"
    and "sp_stack (rep c) = (n, t) # rest \<Longrightarrow> \<exists>c'. sq_rollback_to api n c = Some c' \<and> rep c' = (rep c)\<lparr>sp_now := t\<rparr>"
    and "rep (sq_execute api f c) = sp_execute f (rep c)" "sq_tables api c = sp_now (rep c)" "sq_durable api c = sp_durable (rep c)"
proof -
  have "map_option rep (sq_savepoint api n c) = sp_savepoint n (rep c)"
    "map_option rep (sq_release api n c) = sp_release n (rep c)"
    "map_option rep (sq_rollback_to api n c) = sp_rollback_to n (rep c)"
    using assms by (simp_all add: sqlite_ok_def)
  then show "\<exists>c'. sq_savepoint api n c = Some c' \<and> rep c' = (rep c)\<lparr>sp_stack := (n, sp_now (rep c)) # sp_stack (rep c)\<rparr>"
    and "sp_stack (rep c) = (n, t) # rest \<Longrightarrow> \<exists>c'. sq_release api n c = Some c'
      \<and> rep c' = (rep c)\<lparr>sp_stack := rest, sp_durable := (if rest = [] then sp_now (rep c) else sp_durable (rep c))\<rparr>"
    and "sp_stack (rep c) = (n, t) # rest \<Longrightarrow> \<exists>c'. sq_rollback_to api n c = Some c' \<and> rep c' = (rep c)\<lparr>sp_now := t\<rparr>"
    by (auto simp: sp_savepoint_def sp_release_def sp_rollback_to_def)
qed (use assms in \<open>simp_all add: sqlite_ok_def\<close>)

lemma open_new: "sqlite_ok api rep \<Longrightarrow> \<exists>m. rep (sq_open api (sq_remove api c)) = empty_savepoints m"
  by (simp add: sqlite_ok_def)

text \<open>One statement that changes the tables.\<close>

lemma execute_state:
  assumes "sqlite_ok api rep" and "sqlite_inv rep s" "startedTransaction s" and "tables_ok (f (sp_now (sqlite_state rep s)))"
  shows "\<exists>s'. on_db (\<lambda>c. Some (sq_execute api f c)) s = Done s' \<and> sqlite_inv rep s' \<and> startedTransaction s'
    \<and> sqlite_state rep s' = (sqlite_state rep s)\<lparr>sp_now := f (sp_now (sqlite_state rep s))\<rparr>"
proof -
  obtain c where c: "sql_db s = Some c" using assms(2) by (auto simp: sqlite_inv_def)
  have st: "sqlite_state rep s = rep c" by (simp add: sqlite_state_def c)
  have ne: "sp_stack (rep c) \<noteq> []" using assms(2,3) st by (simp add: sqlite_inv_def)
  let ?s' = "s\<lparr>sql_db := Some (sq_execute api f c)\<rparr>"
  have "sqlite_state rep ?s' = (rep c)\<lparr>sp_now := f (sp_now (rep c))\<rparr>"
    using ne by (simp add: sqlite_state_def api_rep [OF assms(1)] sp_execute_def Let_def)
  then show ?thesis
    using assms st c by (intro exI [of _ ?s']) (simp add: on_db_def sqlite_inv_def)
qed

lemma set_state:
  assumes api: "sqlite_ok api rep" and inv: "sqlite_inv rep s" "startedTransaction s" and wf: "uint256_wf h"
  shows "\<exists>s'. SQLite_SetCurrentGameState api h d s = Done s' \<and> sqlite_inv rep s' \<and> startedTransaction s'
    \<and> sqlite_state rep s' = (sqlite_state rep s)\<lparr>sp_now := insert_current ''gamestate'' d
        (insert_current ''blockhash'' (GetBinaryString h) (sp_now (sqlite_state rep s)))\<rparr>"
proof -
  obtain c where c: "sql_db s = Some c" using inv by (auto simp: sqlite_inv_def)
  have st: "sqlite_state rep s = rep c" by (simp add: sqlite_state_def c)
  obtain e rest where stack: "sp_stack (rep c) = e # rest"
    using inv st by (cases "sp_stack (rep c)") (auto simp: sqlite_inv_def)
  obtain c1 where c1: "sq_savepoint api sp_set_name c = Some c1"
    "rep c1 = (rep c)\<lparr>sp_stack := (sp_set_name, sp_now (rep c)) # sp_stack (rep c)\<rparr>"
    using api_rep(1) [OF api] by blast
  let ?f = "insert_current ''blockhash'' (GetBinaryString h)" and ?g = "insert_current ''gamestate'' d"
  define c3 where "c3 = sq_execute api ?g (sq_execute api ?f c1)"
  have c3: "rep c3 = (rep c1)\<lparr>sp_now := ?g (?f (sp_now (rep c)))\<rparr>"
    by (simp add: c3_def api_rep [OF api] sp_execute_def Let_def c1(2))
  then have "sp_stack (rep c3) = (sp_set_name, sp_now (rep c)) # e # rest" by (simp add: c1(2) stack)
  from api_rep(2) [OF api this] obtain c4 where c4: "sq_release api sp_set_name c3 = Some c4"
    "rep c4 = (rep c)\<lparr>sp_now := ?g (?f (sp_now (rep c)))\<rparr>"
    by (auto simp: c3 c1(2) stack)
  have ok: "tables_ok (?g (?f (sp_now (rep c))))"
    using inv(1) st by (simp add: sqlite_inv_def tables_ok_def insert_current_def)
  let ?s' = "s\<lparr>sql_db := Some c4\<rparr>"
  have "SQLite_SetCurrentGameState api h d s = Done ?s'"
    using inv(2) c c1(1) c4(1) by (simp add: SQLite_SetCurrentGameState_def on_db_def c3_def)
  moreover have "sqlite_state rep ?s' = (rep c)\<lparr>sp_now := ?g (?f (sp_now (rep c)))\<rparr>" by (simp add: sqlite_state_def c4)
  ultimately show ?thesis
    using ok inv st by (intro exI [of _ ?s']) (simp add: sqlite_inv_def)
qed

text \<open>Beginning, committing and rolling back.\<close>

lemma begin_state:
  assumes api: "sqlite_ok api rep" and inv: "sqlite_inv rep s" "\<not> startedTransaction s"
  shows "\<exists>s'. SQLite_BeginTransaction api s = Done s' \<and> sqlite_inv rep s' \<and> startedTransaction s'
    \<and> sqlite_state rep s' = (sqlite_state rep s)\<lparr>sp_stack := (sp_name, sp_now (sqlite_state rep s)) # sp_stack (sqlite_state rep s)\<rparr>"
proof -
  obtain c where c: "sql_db s = Some c" using inv by (auto simp: sqlite_inv_def)
  have st: "sqlite_state rep s = rep c" by (simp add: sqlite_state_def c)
  obtain c1 where c1: "sq_savepoint api sp_name c = Some c1"
    "rep c1 = (rep c)\<lparr>sp_stack := (sp_name, sp_now (rep c)) # sp_stack (rep c)\<rparr>"
    using api_rep(1) [OF api] by blast
  let ?s' = "s\<lparr>startedTransaction := True, sql_db := Some c1\<rparr>"
  have "SQLite_BeginTransaction api s = Done ?s'" using inv c c1(1) by (simp add: SQLite_BeginTransaction_def on_db_def)
  moreover have "sqlite_state rep ?s' = rep c1" by (simp add: sqlite_state_def)
  ultimately show ?thesis using inv st c1(2) by (intro exI [of _ ?s']) (simp add: sqlite_inv_def)
qed

lemma end_state:
  assumes api: "sqlite_ok api rep" and inv: "sqlite_inv rep s" "startedTransaction s"
  obtains t rest where "sp_stack (sqlite_state rep s) = (sp_name, t) # rest"
    "\<exists>s'. SQLite_CommitTransaction api s = Done s' \<and> sqlite_inv rep s' \<and> \<not> startedTransaction s'
      \<and> sqlite_state rep s' = (sqlite_state rep s)\<lparr>sp_stack := rest,
          sp_durable := (if rest = [] then sp_now (sqlite_state rep s) else sp_durable (sqlite_state rep s))\<rparr>"
    "\<exists>s'. SQLite_RollbackTransaction api s = Done s' \<and> sqlite_inv rep s' \<and> \<not> startedTransaction s'
      \<and> sqlite_state rep s' = (sqlite_state rep s)\<lparr>sp_now := t\<rparr>"
proof -
  obtain c where c: "sql_db s = Some c" using inv by (auto simp: sqlite_inv_def)
  have st: "sqlite_state rep s = rep c" by (simp add: sqlite_state_def c)
  obtain t rest where stack: "sp_stack (rep c) = (sp_name, t) # rest"
    using inv st by (cases "sp_stack (rep c)") (auto simp: sqlite_inv_def)
  obtain c1 where c1: "sq_release api sp_name c = Some c1"
    "rep c1 = (rep c)\<lparr>sp_stack := rest, sp_durable := (if rest = [] then sp_now (rep c) else sp_durable (rep c))\<rparr>"
    using api_rep(2) [OF api stack] by blast
  obtain c2 where c2: "sq_rollback_to api sp_name c = Some c2" "rep c2 = (rep c)\<lparr>sp_now := t\<rparr>"
    using api_rep(3) [OF api stack] by blast
  let ?s1 = "s\<lparr>sql_db := Some c1, startedTransaction := False\<rparr>" and ?s2 = "s\<lparr>sql_db := Some c2, startedTransaction := False\<rparr>"
  have run: "SQLite_CommitTransaction api s = Done ?s1" "SQLite_RollbackTransaction api s = Done ?s2"
    using inv c c1(1) c2(1)
    by (simp_all add: SQLite_CommitTransaction_def SQLite_RollbackTransaction_def on_db_def)
  have rep: "sqlite_state rep ?s1 = rep c1" "sqlite_state rep ?s2 = rep c2" by (simp_all add: sqlite_state_def)
  have ok: "sqlite_inv rep ?s1" "sqlite_inv rep ?s2"
    using inv st stack by (auto simp: sqlite_inv_def sqlite_state_def c1(2) c2(2))
  show thesis
  proof (rule that)
    show "sp_stack (sqlite_state rep s) = (sp_name, t) # rest" using stack st by simp
    show "\<exists>s'. SQLite_CommitTransaction api s = Done s' \<and> sqlite_inv rep s' \<and> \<not> startedTransaction s'
      \<and> sqlite_state rep s' = (sqlite_state rep s)\<lparr>sp_stack := rest,
          sp_durable := (if rest = [] then sp_now (sqlite_state rep s) else sp_durable (sqlite_state rep s))\<rparr>"
      using run(1) rep(1) ok(1) c1(2) st by (intro exI [of _ ?s1]) simp
    show "\<exists>s'. SQLite_RollbackTransaction api s = Done s' \<and> sqlite_inv rep s' \<and> \<not> startedTransaction s'
      \<and> sqlite_state rep s' = (sqlite_state rep s)\<lparr>sp_now := t\<rparr>"
      using run(2) rep(2) ok(2) c2(2) st by (intro exI [of _ ?s2]) simp
  qed
qed

text \<open>The single changes of the tables as changes of the contents.\<close>

lemma FromBlob_data: "uint256_wf h \<Longrightarrow> FromBlob (GetBinaryString h) = h"
  by (rule FromBlob_GetBinaryString)

lemma contents_set:
  assumes "tables_ok t" and "uint256_wf h"
  shows "tables_contents (insert_current ''gamestate'' d (insert_current ''blockhash'' (GetBinaryString h) t))
    = (tables_contents t)\<lparr>cur_state := Some (h, d)\<rparr>"
  using assms by (simp add: tables_ok_def tables_contents_def insert_current_def FromBlob_data)

lemma contents_add:
  assumes "tables_ok t"
  shows "tables_contents (t\<lparr>spacexpansegame_undo := member_set h (d, uint height) (spacexpansegame_undo t)\<rparr>)
    = (tables_contents t)\<lparr>cur_undo := (cur_undo (tables_contents t))(h := Some (height, d))\<rparr>"
  using assms by (auto simp: tables_ok_def tables_contents_def fun_eq_iff)

lemma contents_release:
  "tables_contents (t\<lparr>spacexpansegame_undo := member_del h (spacexpansegame_undo t)\<rparr>) = release_undo h (tables_contents t)"
  by (auto simp: tables_contents_def release_undo_def fun_eq_iff split: option.split)

lemma contents_prune:
  assumes "tables_ok t"
  shows "tables_contents (t\<lparr>spacexpansegame_undo := filter (\<lambda>e. \<not> snd (snd e) \<le> uint height) (spacexpansegame_undo t)\<rparr>)
    = prune_undo height (tables_contents t)"
proof -
  have t: "tbl_ok (spacexpansegame_undo t)" using assms by (simp add: tables_ok_def)
  have le: "(of_int n :: u32) \<le> height \<longleftrightarrow> n \<le> uint height"
    if "map_of (spacexpansegame_undo t) x = Some (d, n)" for x d n
  proof -
    have "0 \<le> n" "n < 2 ^ 32" using assms that by (auto simp: tables_ok_def)
    then have "uint (of_int n :: u32) = n" by (simp add: uint_word_of_int_eq take_bit_int_eq_self)
    then show ?thesis by (simp add: word_le_def)
  qed
  show ?thesis
    using map_of_filter [OF t, of "\<lambda>e. \<not> snd e \<le> uint height"] le
    by (auto simp: tables_contents_def prune_undo_def fun_eq_iff split: option.split)
qed

lemma ok_add: "tables_ok t \<Longrightarrow> tables_ok (t\<lparr>spacexpansegame_undo := member_set h (d, uint (height :: u32)) (spacexpansegame_undo t)\<rparr>)"
  using uint_lt2p [of height] by (auto simp: tables_ok_def)

lemma ok_release: "tables_ok t \<Longrightarrow> tables_ok (t\<lparr>spacexpansegame_undo := member_del h (spacexpansegame_undo t)\<rparr>)"
  by (auto simp: tables_ok_def split: if_splits)

lemma ok_filter:
  "tables_ok t \<Longrightarrow> tables_ok (t\<lparr>spacexpansegame_undo := filter (\<lambda>e. P (snd e)) (spacexpansegame_undo t)\<rparr>)"
  by (auto simp: tables_ok_def tbl_ok_filter map_of_filter split: option.splits if_splits)

text \<open>The storage meets the contract: it keeps the data, and a rollback restores it.\<close>

lemma sqlite_storage:
  assumes api: "sqlite_ok api rep"
  shows "rollback_storage (SQLiteStorage_ops api) (sqlite_inv rep) startedTransaction startedTransaction
    (sqlite_contents rep) (sqlite_base rep)"
proof
  fix s :: "'a SQLiteStorage" and h :: uint256 and d and height :: u32
  assume inv: "sqlite_inv rep s"
  then obtain c where c: "sql_db s = Some c" and t: "tables_ok (sp_now (rep c))"
    by (auto simp: sqlite_inv_def sqlite_state_def)
  have st: "sqlite_state rep s = rep c" and q: "sq_tables api c = sp_now (rep c)"
    using api_rep(5) [OF api] by (simp_all add: sqlite_state_def c)
  show "op_GetCurrentBlockHash (SQLiteStorage_ops api) s = map_option fst (cur_state (sqlite_contents rep s))"
    "op_GetCurrentGameState (SQLiteStorage_ops api) s = map_option snd (cur_state (sqlite_contents rep s))"
    using t by (auto simp: SQLiteStorage_ops_def SQLite_GetCurrentBlockHash_def SQLite_GetCurrentGameState_def
        read_current_def sqlite_contents_def st c q tables_contents_def tables_ok_def split: option.split)
  show "op_GetUndoData (SQLiteStorage_ops api) h s = map_option snd (cur_undo (sqlite_contents rep s) h)"
    by (cases "map_of (spacexpansegame_undo (sp_now (rep c))) h")
      (auto simp: SQLiteStorage_ops_def SQLite_GetUndoData_def sqlite_contents_def st c q tables_contents_def)
  {
    assume txn: "startedTransaction s"
    let ?add = "\<lambda>t. t\<lparr>spacexpansegame_undo := member_set h (d, uint height) (spacexpansegame_undo t)\<rparr>"
    let ?release = "\<lambda>t. t\<lparr>spacexpansegame_undo := member_del h (spacexpansegame_undo t)\<rparr>"
    let ?prune = "\<lambda>t. t\<lparr>spacexpansegame_undo := filter (\<lambda>e. \<not> snd (snd e) \<le> uint height) (spacexpansegame_undo t)\<rparr>"
    note ex = execute_state [OF api inv txn]
    have ops: "op_AddUndoData (SQLiteStorage_ops api) h height d s = on_db (\<lambda>c. Some (sq_execute api
        (\<lambda>t. t\<lparr>spacexpansegame_undo := member_set h (d, uint height) (spacexpansegame_undo t)\<rparr>) c)) s"
      "op_ReleaseUndoData (SQLiteStorage_ops api) h s = on_db (\<lambda>c. Some (sq_execute api
        (\<lambda>t. t\<lparr>spacexpansegame_undo := member_del h (spacexpansegame_undo t)\<rparr>) c)) s"
      "op_PruneUndoData (SQLiteStorage_ops api) height s = on_db (\<lambda>c. Some (sq_execute api
        (\<lambda>t. t\<lparr>spacexpansegame_undo := filter (\<lambda>e. \<not> snd (snd e) \<le> uint height) (spacexpansegame_undo t)\<rparr>) c)) s"
      using txn by (simp_all add: SQLiteStorage_ops_def SQLite_AddUndoData_def SQLite_ReleaseUndoData_def
          SQLite_PruneUndoData_def)
    have t': "tables_ok (sp_now (sqlite_state rep s))" using t st by simp
    show "outcome_ok (\<lambda>s'. sqlite_inv rep s' \<and> startedTransaction s' \<and> (\<exists>e \<in> insert (height, d) (set_option (cur_undo (sqlite_contents rep s) h)).
            sqlite_contents rep s' = (sqlite_contents rep s)\<lparr>cur_undo := (cur_undo (sqlite_contents rep s))(h := Some e)\<rparr>))
        (\<lambda>s'. sqlite_inv rep s' \<and> startedTransaction s') (op_AddUndoData (SQLiteStorage_ops api) h height d s)"
      "outcome_ok (\<lambda>s'. sqlite_base rep s' = sqlite_base rep s) (\<lambda>s'. sqlite_base rep s' = sqlite_base rep s)
        (op_AddUndoData (SQLiteStorage_ops api) h height d s)"
      using ex [of ?add, OF ok_add [OF t']] contents_add [OF t'] unfolding ops
      by (auto simp: sqlite_contents_def sqlite_base_def)
    show "outcome_ok (\<lambda>s'. sqlite_inv rep s' \<and> startedTransaction s' \<and> sqlite_contents rep s' = release_undo h (sqlite_contents rep s))
        (\<lambda>s'. sqlite_inv rep s' \<and> startedTransaction s') (op_ReleaseUndoData (SQLiteStorage_ops api) h s)"
      "outcome_ok (\<lambda>s'. sqlite_base rep s' = sqlite_base rep s) (\<lambda>s'. sqlite_base rep s' = sqlite_base rep s)
        (op_ReleaseUndoData (SQLiteStorage_ops api) h s)"
      using ex [of ?release, OF ok_release [OF t']] unfolding ops
      by (auto simp: sqlite_contents_def sqlite_base_def contents_release)
    show "outcome_ok (\<lambda>s'. sqlite_inv rep s' \<and> startedTransaction s' \<and> sqlite_contents rep s' = prune_undo height (sqlite_contents rep s))
        (\<lambda>s'. sqlite_inv rep s' \<and> startedTransaction s') (op_PruneUndoData (SQLiteStorage_ops api) height s)"
      "outcome_ok (\<lambda>s'. sqlite_base rep s' = sqlite_base rep s) (\<lambda>s'. sqlite_base rep s' = sqlite_base rep s)
        (op_PruneUndoData (SQLiteStorage_ops api) height s)"
      using ex [of ?prune, OF ok_filter [OF t', of "\<lambda>e. \<not> snd e \<le> uint height"]] contents_prune [OF t', of height] unfolding ops
      by (auto simp: sqlite_contents_def sqlite_base_def)
    show "outcome_ok (\<lambda>s'. sqlite_inv rep s' \<and> \<not> startedTransaction s' \<and> sqlite_contents rep s' = sqlite_contents rep s)
        (\<lambda>s'. sqlite_inv rep s' \<and> startedTransaction s') (op_CommitTransaction (SQLiteStorage_ops api) s)"
      "outcome_ok (\<lambda>s'. True) (\<lambda>s'. sqlite_base rep s' = sqlite_base rep s) (op_CommitTransaction (SQLiteStorage_ops api) s)"
      "\<exists>s'. op_RollbackTransaction (SQLiteStorage_ops api) s = Done s' \<and> sqlite_inv rep s' \<and> \<not> startedTransaction s'"
      by (rule end_state [OF api inv txn], auto simp: SQLiteStorage_ops_def sqlite_contents_def)+
    fix s' assume "op_RollbackTransaction (SQLiteStorage_ops api) s = Done s'"
    then show "sqlite_contents rep s' = sqlite_base rep s"
      by (rule_tac end_state [OF api inv txn]) (auto simp: SQLiteStorage_ops_def sqlite_contents_def sqlite_base_def)
  next
    assume txn: "startedTransaction s" and wf: "uint256_wf h"
    have t': "tables_ok (sp_now (sqlite_state rep s))" using t st by simp
    show "outcome_ok (\<lambda>s'. sqlite_inv rep s' \<and> startedTransaction s'
          \<and> sqlite_contents rep s' = (sqlite_contents rep s)\<lparr>cur_state := Some (h, d)\<rparr>)
        (\<lambda>s'. sqlite_inv rep s' \<and> startedTransaction s') (op_SetCurrentGameState (SQLiteStorage_ops api) h d s)"
      "outcome_ok (\<lambda>s'. sqlite_base rep s' = sqlite_base rep s) (\<lambda>s'. sqlite_base rep s' = sqlite_base rep s)
        (op_SetCurrentGameState (SQLiteStorage_ops api) h d s)"
      using set_state [OF api inv txn wf, of d] contents_set [OF t' wf, of d]
      by (auto simp: SQLiteStorage_ops_def sqlite_contents_def sqlite_base_def)
  next
    assume txn: "\<not> startedTransaction s"
    show "\<exists>s'. op_BeginTransaction (SQLiteStorage_ops api) s = Done s' \<and> sqlite_inv rep s' \<and> startedTransaction s'
        \<and> sqlite_contents rep s' = sqlite_contents rep s"
      using begin_state [OF api inv txn] by (auto simp: SQLiteStorage_ops_def sqlite_contents_def)
    show "\<exists>s'. op_Clear (SQLiteStorage_ops api) s = Done s' \<and> sqlite_inv rep s' \<and> \<not> startedTransaction s'
        \<and> sqlite_contents rep s' = no_contents"
      using open_new [OF api, of c] txn
      by (auto simp: SQLiteStorage_ops_def SQLite_Clear_def on_db_def c sqlite_inv_def sqlite_contents_def sqlite_state_def
          empty_savepoints_def Let_def new_tables_def tables_ok_def tables_contents_def no_contents_def sql_tables.defs)
    fix s' assume "op_BeginTransaction (SQLiteStorage_ops api) s = Done s'"
    then show "sqlite_base rep s' = sqlite_contents rep s"
      using begin_state [OF api inv txn] by (auto simp: SQLiteStorage_ops_def sqlite_contents_def sqlite_base_def)
  }
qed

text \<open>The reference machine as a connection.\<close>

definition ref_api :: "(unit savepoints, unit) sqlite_api" where
  "ref_api = \<lparr>sq_open = (\<lambda>c. c), sq_remove = (\<lambda>c. new_savepoints), sq_savepoint = sp_savepoint, sq_release = sp_release,
     sq_rollback_to = sp_rollback_to, sq_execute = sp_execute, sq_tables = sp_now, sq_durable = sp_durable\<rparr>"

lemma ref_api_ok: "sqlite_ok ref_api (\<lambda>c. c)"
  by (auto simp: sqlite_ok_def ref_api_def option.map_ident new_empty)

interpretation sqlite: rollback_storage "SQLiteStorage_ops ref_api" "sqlite_inv (\<lambda>c. c)" startedTransaction
  startedTransaction "sqlite_contents (\<lambda>c. c)" "sqlite_base (\<lambda>c. c)"
  by (rule sqlite_storage [OF ref_api_ok])

definition new_SQLiteStorage :: "unit savepoints SQLiteStorage" where
  "new_SQLiteStorage = \<lparr>sql_db = Some new_savepoints, startedTransaction = False\<rparr>"

lemma new_sqlite_inv: "sqlite_inv (\<lambda>c. c) new_SQLiteStorage"
  by (simp add: sqlite_inv_def sqlite_state_def new_SQLiteStorage_def new_savepoints_def new_tables_def tables_ok_def)

section \<open>Properties\<close>

text \<open>
  C30: The transaction manager on the SQLite storage: rolling back never aborts, and it restores the
  contents of the storage at the start of the first transaction of the batch, so it reverts the running
  transaction and exactly the transactions that are batched.
\<close>

theorem manager_rollback_point:
  assumes "sqlite_ok api rep"
    and "manager_run (SQLiteStorage_ops api) (sqlite_contents rep) (\<lambda>s. sqlite_inv rep s \<and> \<not> startedTransaction s) tm log"
    and "inTransaction tm \<or> commitFailed tm"
  shows "\<exists>tm'. TM_RollbackTransaction (SQLiteStorage_ops api) tm = Done tm' \<and> log \<noteq> []
    \<and> tm_contents (sqlite_contents rep) tm' = hd log
    \<and> (inTransaction tm \<longrightarrow> length log = unat (batchedCommits tm) + 1)"
  by (rule rollback_storage.run_rollback [OF sqlite_storage [OF assms(1)] assms(2,3)])

definition demo_manager :: "unit savepoints SQLiteStorage TransactionManager" where
  "demo_manager = \<lparr>tm_storage = Some new_SQLiteStorage, batchSize = 3, batchedCommits = 0, inTransaction = False,
     commitFailed = False\<rparr>"

definition demo_batched :: "unit savepoints SQLiteStorage TransactionManager" where
  "demo_batched = \<lparr>tm_storage = Some \<lparr>sql_db = Some \<lparr>sp_durable = new_tables,
       sp_now = insert_current ''gamestate'' [1] (insert_current ''blockhash'' (GetBinaryString SetNull) new_tables),
       sp_stack = [(sp_name, new_tables)]\<rparr>, startedTransaction = True\<rparr>,
     batchSize = 3, batchedCommits = 1, inTransaction = True, commitFailed = False\<rparr>"

lemma demo_batched_run:
  "manager_run (SQLiteStorage_ops ref_api) (sqlite_contents (\<lambda>c. c))
    (\<lambda>s. sqlite_inv (\<lambda>c. c) s \<and> \<not> startedTransaction s) demo_batched
    [sqlite_contents (\<lambda>c. c) new_SQLiteStorage, tables_contents (insert_current ''gamestate'' [1]
      (insert_current ''blockhash'' (GetBinaryString SetNull) new_tables))]"
proof -
  let ?run = "manager_run (SQLiteStorage_ops ref_api) (sqlite_contents (\<lambda>c. c))
    (\<lambda>s. sqlite_inv (\<lambda>c. c) s \<and> \<not> startedTransaction s)"
  let ?t = "insert_current ''gamestate'' [1] (insert_current ''blockhash'' (GetBinaryString SetNull) new_tables)"
  let ?s1 = "\<lparr>sql_db = Some \<lparr>sp_durable = new_tables, sp_now = new_tables, sp_stack = [(sp_name, new_tables)]\<rparr>,
    startedTransaction = True\<rparr>"
  let ?s2 = "\<lparr>sql_db = Some \<lparr>sp_durable = new_tables, sp_now = ?t, sp_stack = [(sp_name, new_tables)]\<rparr>,
    startedTransaction = True\<rparr>"
  let ?tm = "\<lambda>s n b. \<lparr>tm_storage = Some s, batchSize = 3, batchedCommits = n, inTransaction = b, commitFailed = False\<rparr>"
  have names: "sp_name \<noteq> sp_set_name" by (simp add: sp_name_def sp_set_name_def)
  have "?run (?tm new_SQLiteStorage 0 False) []"
    using new_sqlite_inv by (intro manager_run.start) (simp_all add: new_SQLiteStorage_def)
  then have "?run (?tm ?s1 0 True) ([] @ [tm_contents (sqlite_contents (\<lambda>c. c)) (?tm new_SQLiteStorage 0 False)])"
    by (rule manager_run.start_txn)
      (simp_all add: TM_BeginTransaction_def on_storage_def SQLiteStorage_ops_def SQLite_BeginTransaction_def
        new_SQLiteStorage_def on_db_def ref_api_def sp_savepoint_def new_savepoints_def)
  then have "?run (?tm ?s2 0 True) ([] @ [tm_contents (sqlite_contents (\<lambda>c. c)) (?tm new_SQLiteStorage 0 False)])"
    by (rule manager_run.write_call [where c = "CallSet SetNull [1]"])
      (simp_all add: on_storage_def SQLiteStorage_ops_def SQLite_SetCurrentGameState_def on_db_def ref_api_def
        sp_savepoint_def sp_release_def sp_execute_def Let_def names SetNull_def uint256_wf_def)
  then have "?run (?tm ?s2 1 False) (if batchedCommits (?tm ?s2 1 False) = 0 then []
      else [] @ [tm_contents (sqlite_contents (\<lambda>c. c)) (?tm new_SQLiteStorage 0 False)])"
    by (rule manager_run.commit) (simp_all add: TM_CommitTransaction_def Let_def word_le_nat_alt)
  then have "?run (?tm ?s2 1 False) [sqlite_contents (\<lambda>c. c) new_SQLiteStorage]" by (simp add: tm_contents_def)
  then have "?run demo_batched ([sqlite_contents (\<lambda>c. c) new_SQLiteStorage]
      @ [tm_contents (sqlite_contents (\<lambda>c. c)) (?tm ?s2 1 False)])"
    by (rule manager_run.start_txn) (simp_all add: TM_BeginTransaction_def demo_batched_def)
  then show ?thesis by (simp add: tm_contents_def sqlite_contents_def sqlite_state_def)
qed

theorem manager_rollback_point_witness:
  "\<exists>tm'. TM_RollbackTransaction (SQLiteStorage_ops ref_api) demo_batched = Done tm'
    \<and> tm_contents (sqlite_contents (\<lambda>c. c)) tm' = sqlite_contents (\<lambda>c. c) new_SQLiteStorage"
  using manager_rollback_point [OF ref_api_ok demo_batched_run] by (auto simp: demo_batched_def)

text \<open>Savepoints that are left over from a rollback.\<close>

definition left_over :: "('c \<Rightarrow> 't savepoints) \<Rightarrow> 't sql_tables_scheme \<Rightarrow> 'c SQLiteStorage \<Rightarrow> bool" where
  "left_over rep t s \<longleftrightarrow> sqlite_inv rep s \<and> sp_durable (sqlite_state rep s) = t
     \<and> length (sp_stack (sqlite_state rep s)) > (if startedTransaction s then 1 else 0)"

definition call_wf :: "storage_call \<Rightarrow> bool" where
  "call_wf c \<longleftrightarrow> is_write c \<or> c \<in> {CallBegin, CallCommit, CallRollback}"

lemma call_left_over:
  assumes api: "sqlite_ok api rep" and left: "left_over rep t s" and wf: "call_wf c"
    and run: "run_call (SQLiteStorage_ops api) c s = Done s'"
  shows "left_over rep t s'"
proof -
  have inv: "sqlite_inv rep s" using left by (simp add: left_over_def)
  obtain x where x: "sql_db s = Some x" using inv by (auto simp: sqlite_inv_def)
  show ?thesis
  proof (cases "startedTransaction s")
    case False
    have "c = CallBegin"
      using run False x wf
      by (cases c) (auto simp: SQLiteStorage_ops_def SQLite_SetCurrentGameState_def SQLite_AddUndoData_def
          SQLite_ReleaseUndoData_def SQLite_PruneUndoData_def SQLite_CommitTransaction_def SQLite_RollbackTransaction_def
          on_db_def split: option.splits)
    with begin_state [OF api inv False] left run False show ?thesis
      by (auto simp: left_over_def SQLiteStorage_ops_def)
  next
    case True
    have t: "tables_ok (sp_now (sqlite_state rep s))" using inv by (simp add: sqlite_inv_def)
    show ?thesis
    proof (cases "is_write c")
      case w: True
      have same: "\<exists>f. sqlite_state rep s' = (sqlite_state rep s)\<lparr>sp_now := f\<rparr> \<and> sqlite_inv rep s' \<and> startedTransaction s'"
      proof (cases c)
        case (CallSet h d)
        with set_state [OF api inv True, of h d] w run show ?thesis by (auto simp: SQLiteStorage_ops_def)
      next
        case (CallAdd h n d)
        with execute_state [where f = "\<lambda>t. t\<lparr>spacexpansegame_undo := member_set h (d, uint n) (spacexpansegame_undo t)\<rparr>",
            OF api inv True ok_add [OF t, of h d n]] run True show ?thesis
          by (auto simp: SQLiteStorage_ops_def SQLite_AddUndoData_def)
      next
        case (CallRelease h)
        with execute_state [where f = "\<lambda>t. t\<lparr>spacexpansegame_undo := member_del h (spacexpansegame_undo t)\<rparr>",
            OF api inv True ok_release [OF t, of h]] run True show ?thesis
          by (auto simp: SQLiteStorage_ops_def SQLite_ReleaseUndoData_def)
      next
        case (CallPrune n)
        with execute_state [where f = "\<lambda>t. t\<lparr>spacexpansegame_undo := filter (\<lambda>e. \<not> snd (snd e) \<le> uint n) (spacexpansegame_undo t)\<rparr>",
            OF api inv True ok_filter [OF t, of "\<lambda>e. \<not> snd e \<le> uint n"]] run True show ?thesis
          by (auto simp: SQLiteStorage_ops_def SQLite_PruneUndoData_def)
      qed (use w in simp_all)
      with left True show ?thesis by (auto simp: left_over_def)
    next
      case nw: False
      obtain t0 rest where e: "sp_stack (sqlite_state rep s) = (sp_name, t0) # rest"
        "\<exists>s'. SQLite_CommitTransaction api s = Done s' \<and> sqlite_inv rep s' \<and> \<not> startedTransaction s'
          \<and> sqlite_state rep s' = (sqlite_state rep s)\<lparr>sp_stack := rest,
              sp_durable := (if rest = [] then sp_now (sqlite_state rep s) else sp_durable (sqlite_state rep s))\<rparr>"
        "\<exists>s'. SQLite_RollbackTransaction api s = Done s' \<and> sqlite_inv rep s' \<and> \<not> startedTransaction s'
          \<and> sqlite_state rep s' = (sqlite_state rep s)\<lparr>sp_now := t0\<rparr>"
        by (rule end_state [OF api inv True])
      have rest: "rest \<noteq> []" using left True e(1) by (auto simp: left_over_def)
      have "c = CallCommit \<or> c = CallRollback"
        using nw wf run True by (auto simp: call_wf_def SQLiteStorage_ops_def SQLite_BeginTransaction_def)
      then show ?thesis
        using e rest left run by (auto simp: left_over_def SQLiteStorage_ops_def)
    qed
  qed
qed

lemma calls_left_over:
  assumes "sqlite_ok api rep"
  shows "\<lbrakk>left_over rep t s; list_all call_wf cs; run_calls (SQLiteStorage_ops api) cs s = Done s'\<rbrakk> \<Longrightarrow> left_over rep t s'"
proof (induction cs arbitrary: s)
  case (Cons c cs)
  then obtain s1 where s1: "run_call (SQLiteStorage_ops api) c s = Done s1" "run_calls (SQLiteStorage_ops api) cs s1 = Done s'"
    by (cases "run_call (SQLiteStorage_ops api) c s") auto
  have "left_over rep t s1" using Cons.prems by (intro call_left_over [OF assms _ _ s1(1)]) simp_all
  from Cons.IH [OF this _ s1(2)] Cons.prems(2) show ?case by simp
qed simp

text \<open>
  C40: After a transaction has been rolled back, nothing that the storage commits becomes durable any more:
  \<open>ROLLBACK TO\<close> keeps the savepoint of the storage open, every later savepoint is nested in it, and
  releasing a nested savepoint commits nothing.
\<close>

theorem sqlite_rollback_blocks_commits:
  assumes "sqlite_ok api rep" and "sqlite_inv rep s" and "startedTransaction s"
    and "SQLite_RollbackTransaction api s = Done s0"
    and "list_all call_wf calls" and "run_calls (SQLiteStorage_ops api) calls s0 = Done s1"
  shows "sq_durable api (the (sql_db s1)) = sq_durable api (the (sql_db s))"
proof -
  obtain t rest where e: "sp_stack (sqlite_state rep s) = (sp_name, t) # rest"
    "\<exists>s'. SQLite_RollbackTransaction api s = Done s' \<and> sqlite_inv rep s' \<and> \<not> startedTransaction s'
      \<and> sqlite_state rep s' = (sqlite_state rep s)\<lparr>sp_now := t\<rparr>"
    by (rule end_state [OF assms(1-3)])
  then have "left_over rep (sp_durable (sqlite_state rep s)) s0"
    using assms(4) by (auto simp: left_over_def)
  from calls_left_over [OF assms(1) this assms(5,6)] show ?thesis
    by (simp add: left_over_def sqlite_state_def api_rep(6) [OF assms(1)])
qed

theorem sqlite_rollback_blocks_commits_witness:
  "\<exists>s1. run_calls (SQLiteStorage_ops ref_api) [CallBegin, CallRollback, CallBegin, CallSet SetNull [1], CallCommit]
      new_SQLiteStorage = Done s1
    \<and> sqlite_contents (\<lambda>c. c) s1 \<noteq> sqlite_contents (\<lambda>c. c) new_SQLiteStorage
    \<and> sq_durable ref_api (the (sql_db s1)) = new_tables"
proof -
  let ?sa = "\<lparr>sql_db = Some \<lparr>sp_durable = new_tables, sp_now = new_tables, sp_stack = [(sp_name, new_tables)]\<rparr>,
    startedTransaction = True\<rparr>"
  let ?sb = "\<lparr>sql_db = Some \<lparr>sp_durable = new_tables, sp_now = new_tables, sp_stack = [(sp_name, new_tables)]\<rparr>,
    startedTransaction = False\<rparr>"
  let ?t = "insert_current ''gamestate'' [1] (insert_current ''blockhash'' (GetBinaryString SetNull) new_tables)"
  let ?sc = "\<lparr>sql_db = Some \<lparr>sp_durable = new_tables, sp_now = ?t, sp_stack = [(sp_name, new_tables)]\<rparr>,
    startedTransaction = False\<rparr>"
  have names: "sp_name \<noteq> sp_set_name" by (simp add: sp_name_def sp_set_name_def)
  have b: "SQLite_BeginTransaction ref_api new_SQLiteStorage = Done ?sa"
    by (simp add: SQLite_BeginTransaction_def new_SQLiteStorage_def on_db_def ref_api_def sp_savepoint_def new_savepoints_def)
  have r: "SQLite_RollbackTransaction ref_api ?sa = Done ?sb"
    by (simp add: SQLite_RollbackTransaction_def on_db_def ref_api_def sp_rollback_to_def)
  have cs: "run_calls (SQLiteStorage_ops ref_api) [CallBegin, CallSet SetNull [1], CallCommit] ?sb = Done ?sc"
    by (simp add: SQLiteStorage_ops_def SQLite_BeginTransaction_def SQLite_SetCurrentGameState_def
        SQLite_CommitTransaction_def on_db_def ref_api_def sp_savepoint_def sp_release_def sp_execute_def Let_def names)
  have inv: "sqlite_inv (\<lambda>c. c) ?sa" by (simp add: sqlite_inv_def sqlite_state_def tables_ok_def new_tables_def)
  have wf: "list_all call_wf [CallBegin, CallSet SetNull [1], CallCommit]"
    by (simp add: call_wf_def SetNull_def uint256_wf_def)
  have "sq_durable ref_api (the (sql_db ?sc)) = new_tables"
    using sqlite_rollback_blocks_commits [OF ref_api_ok inv _ r wf cs] by (simp add: ref_api_def)
  moreover have "run_calls (SQLiteStorage_ops ref_api) [CallBegin, CallRollback, CallBegin, CallSet SetNull [1], CallCommit]
      new_SQLiteStorage = Done ?sc"
    using b r cs by (simp add: SQLiteStorage_ops_def)
  moreover have "sqlite_contents (\<lambda>c. c) ?sc \<noteq> sqlite_contents (\<lambda>c. c) new_SQLiteStorage"
    by (simp add: sqlite_contents_def sqlite_state_def new_SQLiteStorage_def new_savepoints_def tables_contents_def
        new_tables_def insert_current_def)
  ultimately show ?thesis by blast
qed

end
