(* ===== verification/GameSync.thy ===== *)
theory GameSync
  imports Game SqliteStorage
begin

text \<open>
  Correctness of the synchronisation: whatever the order of notifications, replies and storage errors, the
  storage holds the true state of its current block, which is the result of processing all blocks from
  the genesis block to it, and undo data that leads back to true states.
\<close>

section \<open>The chain\<close>

text \<open>
  What the blocks of the chain are: their parents and heights and what processing each of them does.  The
  blocks that exist form a tree; a block's hash determines its data.
\<close>

record chain_view =
  cv_genesis :: uint256
  cv_initial :: "byte list"
  cv_parent :: "uint256 \<Rightarrow> uint256"
  cv_height :: "uint256 \<Rightarrow> u32"
  cv_forward :: "uint256 \<Rightarrow> byte list \<Rightarrow> byte list \<times> byte list"

inductive true_state :: "chain_view \<Rightarrow> uint256 \<Rightarrow> byte list \<Rightarrow> bool" for cv where
  genesis: "true_state cv (cv_genesis cv) (cv_initial cv)"
| block: "\<lbrakk>true_state cv (cv_parent cv h) d; h \<noteq> cv_genesis cv\<rbrakk> \<Longrightarrow> true_state cv h (fst (cv_forward cv h d))"

inductive_cases true_stateE: "true_state cv h d"

lemma true_state_unique: "\<lbrakk>true_state cv h d; true_state cv h d'\<rbrakk> \<Longrightarrow> d = d'"
proof (induction arbitrary: d' rule: true_state.induct)
  case genesis
  then show ?case by (auto elim: true_stateE)
next
  case (block h d)
  from block.prems block.hyps(2) obtain d1 where "d' = fst (cv_forward cv h d1)" "true_state cv (cv_parent cv h) d1"
    by (auto elim: true_stateE)
  with block.IH show ?case by blast
qed

text \<open>The genesis block is the first block with a state.\<close>

definition chain_ok :: "chain_view \<Rightarrow> bool" where
  "chain_ok cv \<longleftrightarrow> uint256_wf (cv_genesis cv) \<and> (\<forall>d. \<not> true_state cv (cv_parent cv (cv_genesis cv)) d)
     \<and> cv_height cv (cv_genesis cv) < 2 ^ 31"

text \<open>A notification about a block of the chain, and rules that can undo the block.\<close>

definition true_notification :: "('s, 'u) game_env \<Rightarrow> chain_view \<Rightarrow> json \<Rightarrow> uint256 \<Rightarrow> bool" where
  "true_notification env cv blockData h \<longleftrightarrow>
     notification_block blockData = Some (cv_parent cv h, h)
   \<and> notification_height blockData = Some (unat (cv_height cv h))
   \<and> isObject blockData \<and> isObject (member blockData ''block'') \<and> uint256_wf h \<and> uint256_wf (cv_parent cv h)
   \<and> IsReqtokenRelevant blockData (new_Game [] :: (unit, unit) Game) \<noteq> None
   \<and> (h \<noteq> cv_genesis cv \<longrightarrow> unat (cv_height cv h) = unat (cv_height cv (cv_parent cv h)) + 1)
   \<and> (\<forall>d. true_state cv (cv_parent cv h) d \<longrightarrow>
        ProcessForward (env_sha env) (env_processor env) (env_rules env) d blockData = Some (cv_forward cv h d)
      \<and> ProcessBackwards (env_sha env) (env_processor env) (env_rules env) (fst (cv_forward cv h d)) blockData
          (snd (cv_forward cv h d)) = Some d)"

section \<open>Good contents of a storage\<close>

definition true_undo :: "chain_view \<Rightarrow> uint256 \<Rightarrow> byte list \<Rightarrow> bool" where
  "true_undo cv h u \<longleftrightarrow> h \<noteq> cv_genesis cv \<and> (\<exists>d. true_state cv (cv_parent cv h) d \<and> u = snd (cv_forward cv h d))"

definition good :: "chain_view \<Rightarrow> contents \<Rightarrow> bool" where
  "good cv c \<longleftrightarrow> (\<forall>h d. cur_state c = Some (h, d) \<longrightarrow> true_state cv h d \<and> uint256_wf h)
     \<and> (\<forall>h n u. cur_undo c h = Some (n, u) \<longrightarrow> true_undo cv h u)"

lemma good_no_contents [simp]: "good cv no_contents"
  by (simp add: good_def no_contents_def)

lemma good_release: "good cv c \<Longrightarrow> good cv (release_undo h c)"
  by (auto simp: good_def release_undo_def)

lemma good_prune: "good cv c \<Longrightarrow> good cv (prune_undo n c)"
  by (auto simp: good_def prune_undo_def split: option.splits if_splits)

lemma good_set: "\<lbrakk>good cv c; true_state cv h d; uint256_wf h\<rbrakk> \<Longrightarrow> good cv (c\<lparr>cur_state := Some (h, d)\<rparr>)"
  by (auto simp: good_def)

lemma good_add:
  "\<lbrakk>good cv c; true_undo cv h u; e \<in> insert (n, u) (set_option (cur_undo c h))\<rbrakk>
    \<Longrightarrow> good cv (c\<lparr>cur_undo := (cur_undo c)(h := Some e)\<rparr>)"
  by (cases "cur_undo c h") (auto simp: good_def)

section \<open>Transactions that keep the contents good\<close>

lemma begin_cases:
  assumes "TM_BeginTransaction ops tm = Done tm'" "tm_storage tm = Some s"
  obtains s' where "batchedCommits tm = 0" "op_BeginTransaction ops s = Done s'" "tm_storage tm' = Some s'"
    | "batchedCommits tm \<noteq> 0" "tm_storage tm' = Some s"
  using assms
  by (cases "batchedCommits tm = 0"; cases "commitFailed tm"; cases "inTransaction tm")
    (auto simp: TM_BeginTransaction_def on_storage_def Let_def split: outcome.splits)

lemma commit_cases:
  assumes "TM_CommitTransaction ops tm = Done tm'" "tm_storage tm = Some s"
  obtains s' where "op_CommitTransaction ops s = Done s'" "tm_storage tm' = Some s'" "batchedCommits tm' = 0"
    | "tm_storage tm' = Some s" "batchedCommits tm' = batchedCommits tm + 1"
  using assms
  by (cases "batchSize tm \<le> batchedCommits tm + 1"; cases "batchedCommits tm + 1 > 0"; cases "inTransaction tm"; cases "commitFailed tm")
    (auto simp: TM_CommitTransaction_def Flush_def on_storage_def Let_def split: if_splits outcome.splits)

lemma rollback_cases:
  assumes "TM_RollbackTransaction ops tm = Done tm'" "tm_storage tm = Some s"
  obtains s' where "op_RollbackTransaction ops s = Done s'" "tm_storage tm' = Some s'"
  using assms
  by (cases "inTransaction tm \<or> commitFailed tm")
    (auto simp: TM_RollbackTransaction_def on_storage_def Let_def split: outcome.splits)

definition idle_good ::
    "chain_view \<Rightarrow> ('s \<Rightarrow> bool) \<Rightarrow> ('s \<Rightarrow> contents) \<Rightarrow> ('s \<Rightarrow> contents) \<Rightarrow> 's StorageWithCachedHeight \<Rightarrow> bool" where
  "idle_good cv in_txn cont base x \<longleftrightarrow> good cv (cont (hc_storage x)) \<and> coherent (cv_height cv) cont x
     \<and> (in_txn (hc_storage x) \<longrightarrow> good cv (base (hc_storage x)))"

definition sync_inv ::
    "chain_view \<Rightarrow> ('s \<Rightarrow> bool) \<Rightarrow> ('s \<Rightarrow> bool) \<Rightarrow> ('s \<Rightarrow> bool) \<Rightarrow> ('s \<Rightarrow> contents) \<Rightarrow> ('s \<Rightarrow> contents)
      \<Rightarrow> 's StorageWithCachedHeight TransactionManager \<Rightarrow> bool" where
  "sync_inv cv ok in_txn rollable cont base tm \<longleftrightarrow>
     manager_ok (\<lambda>x. ok (hc_storage x)) (\<lambda>x. in_txn (hc_storage x)) (\<lambda>x. rollable (hc_storage x)) tm
   \<and> \<not> inTransaction tm \<and> \<not> commitFailed tm \<and> idle_good cv in_txn cont base (the (tm_storage tm))"

context rollback_storage
begin

abbreviation "cops \<equiv> HeightCache_ops ops"
abbreviation "gd cv x \<equiv> idle_good cv in_txn contents_of base x"
abbreviation "sync cv tm \<equiv> sync_inv cv ok in_txn rollable contents_of base tm"

lemma manager_storage:
  assumes "cached.tm_ok tm"
  obtains x where "tm_storage tm = Some x" "ok (hc_storage x)"
    "commitFailed tm \<Longrightarrow> rollable (hc_storage x)" "\<not> commitFailed tm \<Longrightarrow> in_txn (hc_storage x) = (inTransaction tm \<or> batchedCommits tm > 0)"
  using assms by (auto simp: manager_ok_def)

lemma begin_good:
  assumes "sync cv tm" "TM_BeginTransaction cops tm = Done tm1"
  shows "gd cv (the (tm_storage tm1))"
proof -
  have ok: "cached.tm_ok tm" and idle: "\<not> inTransaction tm" "\<not> commitFailed tm" and g: "gd cv (the (tm_storage tm))"
    using assms(1) by (simp_all add: sync_inv_def)
  obtain x where x: "tm_storage tm = Some x" "ok (hc_storage x)" "in_txn (hc_storage x) = (batchedCommits tm > 0)"
    using manager_storage [OF ok] idle by metis
  from assms(2) x(1) show ?thesis
  proof (cases rule: begin_cases)
    case (1 x1)
    then obtain s1 where s1: "op_BeginTransaction ops (hc_storage x) = Done s1" "x1 = x\<lparr>hc_storage := s1\<rparr>"
      by (auto simp: HeightCache_ops_def on_cached_Done)
    have "\<not> in_txn (hc_storage x)" using x(3) 1(1) by simp
    from begin_txn [OF x(2) this] base_begin [OF x(2) this s1(1)] s1 g 1(3) x(1) show ?thesis
      by (simp add: idle_good_def coherent_def)
  qed (use g x in simp)
qed

lemma commit_good:
  assumes "cached.tm_ok tm" "inTransaction tm" "gd cv (the (tm_storage tm))" "TM_CommitTransaction cops tm = Done tm'"
  shows "gd cv (the (tm_storage tm'))"
proof -
  have nf: "\<not> commitFailed tm" using assms by (auto simp: manager_ok_def)
  obtain x where x: "tm_storage tm = Some x" "ok (hc_storage x)" "in_txn (hc_storage x)"
    using manager_storage [OF assms(1)] nf assms(2) by metis
  from assms(4) x(1) show ?thesis
  proof (cases rule: commit_cases)
    case (1 x1)
    then obtain s1 where s1: "op_CommitTransaction ops (hc_storage x) = Done s1" "x1 = x\<lparr>hc_storage := s1\<rparr>"
      by (auto simp: HeightCache_ops_def on_cached_Done)
    from commit [OF x(2,3)] s1 1 assms(3) x(1) show ?thesis by (simp add: idle_good_def coherent_def)
  qed (use assms(3) x in simp)
qed

lemma commit_thrown_base:
  assumes "cached.tm_ok tm" "inTransaction tm" "gd cv (the (tm_storage tm))" "TM_CommitTransaction cops tm = Thrown tm'"
  shows "good cv (base (hc_storage (the (tm_storage tm'))))"
proof -
  have nf: "\<not> commitFailed tm" using assms by (auto simp: manager_ok_def)
  obtain x where x: "tm_storage tm = Some x" "ok (hc_storage x)" "in_txn (hc_storage x)"
    using manager_storage [OF assms(1)] nf assms(2) by metis
  from Transactions.commit_thrown [OF assms(4)] x(1) obtain x1 where x1: "op_CommitTransaction cops x = Thrown x1" "tm_storage tm' = Some x1"
    by auto
  then obtain s1 where s1: "op_CommitTransaction ops (hc_storage x) = Thrown s1" "x1 = x\<lparr>hc_storage := s1\<rparr>"
    by (auto simp: HeightCache_ops_def on_cached_Done)
  from base_commit [OF x(2,3)] s1 x1(2) assms(3) x show ?thesis by (simp add: idle_good_def)
qed

lemma rollback_good:
  assumes "cached.tm_ok tm" "inTransaction tm \<or> commitFailed tm" "good cv (base (hc_storage (the (tm_storage tm))))"
  shows "\<exists>tm'. TM_RollbackTransaction cops tm = Done tm' \<and> sync cv tm' \<and> batchedCommits tm' = 0"
proof -
  obtain tm' x x' where r: "TM_RollbackTransaction cops tm = Done tm'" "cached.tm_ok tm'" "\<not> inTransaction tm'"
    "\<not> commitFailed tm'" "batchedCommits tm' = 0" "tm_storage tm = Some x" "op_RollbackTransaction cops x = Done x'"
    "rollable (hc_storage x)" "ok (hc_storage x)" "tm_storage tm' = Some x'"
    using cached.manager_rollback [OF assms(1,2)] by blast
  then obtain s1 where s1: "op_RollbackTransaction ops (hc_storage x) = Done s1" "x' = x\<lparr>hasHeight := False, hc_storage := s1\<rparr>"
    by (auto simp: HeightCache_ops_def HeightCache_RollbackTransaction_def on_cached_Done)
  have "contents_of s1 = base (hc_storage x)" "\<not> in_txn s1"
    using base_rollback [OF r(9,8) s1(1)] rollback [OF r(9,8)] s1(1) by auto
  with s1 r assms(3) have "gd cv (the (tm_storage tm'))" by (simp add: idle_good_def coherent_def)
  with r show ?thesis by (simp add: sync_inv_def)
qed

text \<open>A block with an active transaction.\<close>

lemma game_txn:
  assumes tm: "sync cv tm"
    and body: "\<And>tm'. \<lbrakk>cached.tm_ok tm'; inTransaction tm'; cached.tm_cont tm' = cached.tm_cont tm; gd cv (the (tm_storage tm'))\<rbrakk>
      \<Longrightarrow> outcome_ok (\<lambda>(q', tm''). cached.tm_ok tm'' \<and> inTransaction tm'' \<and> gd cv (the (tm_storage tm'')) \<and> R q' (cached.tm_cont tm''))
        (\<lambda>(q', tm''). cached.tm_ok tm'' \<and> inTransaction tm'' \<and> good cv (base (hc_storage (the (tm_storage tm'')))))
        (body (q, tm'))"
  shows "outcome_ok (\<lambda>(q', tm'). sync cv tm' \<and> R q' (cached.tm_cont tm')) (\<lambda>(q', tm'). sync cv tm')
    (in_transaction cops body (q, tm))"
proof -
  have idle: "cached.tm_ok tm" "\<not> inTransaction tm" "\<not> commitFailed tm" using tm by (simp_all add: sync_inv_def)
  obtain tm1 where tm1: "TM_BeginTransaction cops tm = Done tm1" "cached.tm_ok tm1" "inTransaction tm1"
    "cached.tm_cont tm1 = cached.tm_cont tm"
    using cached.manager_begin [OF idle] by blast
  let ?mid = "\<lambda>(q', tm'). cached.tm_ok tm' \<and> (inTransaction tm' \<or> commitFailed tm') \<and> good cv (base (hc_storage (the (tm_storage tm'))))"
  have "outcome_ok (\<lambda>(q', tm'). sync cv tm' \<and> R q' (cached.tm_cont tm')) ?mid
      (obind (body (q, tm1)) (on_manager (TM_CommitTransaction cops)))"
  proof (rule outcome_ok_bind [OF body [OF tm1(2-4) begin_good [OF tm tm1(1)]]])
    fix x assume "case x of (q', tm') \<Rightarrow> cached.tm_ok tm' \<and> inTransaction tm' \<and> gd cv (the (tm_storage tm')) \<and> R q' (cached.tm_cont tm')"
    then obtain q' tm2 where x: "x = (q', tm2)" "cached.tm_ok tm2" "inTransaction tm2" "gd cv (the (tm_storage tm2))"
      "R q' (cached.tm_cont tm2)" by auto
    note com = cached.manager_commit [OF x(2,3)]
    show "outcome_ok (\<lambda>(q', tm'). sync cv tm' \<and> R q' (cached.tm_cont tm')) ?mid (on_manager (TM_CommitTransaction cops) x)"
    proof (cases "TM_CommitTransaction cops tm2")
      case (Done tm3)
      with com x commit_good [OF x(2-4) Done] show ?thesis by (simp add: on_manager_def sync_inv_def)
    next
      case (Thrown tm3)
      with com x commit_thrown_base [OF x(2-4) Thrown] show ?thesis by (simp add: on_manager_def)
    qed (use com in simp)
  qed auto
  then have "outcome_ok (\<lambda>(q', tm'). sync cv tm' \<and> R q' (cached.tm_cont tm')) (\<lambda>(q', tm'). sync cv tm')
    (on_throw (obind (body (q, tm1)) (on_manager (TM_CommitTransaction cops))) (on_manager (TM_RollbackTransaction cops)))"
  proof (rule outcome_ok_on_throw)
    fix x assume "?mid x"
    then obtain q' tm' where x: "x = (q', tm')" "cached.tm_ok tm'" "inTransaction tm' \<or> commitFailed tm'"
      "good cv (base (hc_storage (the (tm_storage tm'))))" by auto
    from rollback_good [OF x(2-4)] show "\<exists>x'. on_manager (TM_RollbackTransaction cops) x = Done x' \<and> (case x' of (q', tm') \<Rightarrow> sync cv tm')"
      by (auto simp: x(1) on_manager_def)
  qed
  then show ?thesis by (simp add: in_transaction_def on_manager_def tm1(1))
qed

text \<open>The single operations in a transaction.\<close>

abbreviation "txn cv tm \<equiv> cached.tm_ok tm \<and> inTransaction tm \<and> gd cv (the (tm_storage tm))"
abbreviation "txn_thrown cv tm \<equiv> cached.tm_ok tm \<and> inTransaction tm \<and> good cv (base (hc_storage (the (tm_storage tm))))"

lemma txn_storage:
  assumes "txn cv tm"
  obtains x where "tm_storage tm = Some x" "ok (hc_storage x)" "in_txn (hc_storage x)" "gd cv x" "\<not> commitFailed tm"
    "good cv (base (hc_storage x))"
proof -
  have nf: "\<not> commitFailed tm" using assms by (auto simp: manager_ok_def)
  obtain x where "tm_storage tm = Some x" "ok (hc_storage x)" "in_txn (hc_storage x)"
    using manager_storage assms nf by metis
  with assms nf that show thesis by (simp add: idle_good_def)
qed

lemma op_in_txn:
  assumes tm: "txn cv tm" and x: "tm_storage tm = Some x"
    and f: "outcome_ok (\<lambda>x'. ok (hc_storage x') \<and> in_txn (hc_storage x') \<and> base (hc_storage x') = base (hc_storage x)
        \<and> good cv (contents_of (hc_storage x')) \<and> coherent (cv_height cv) contents_of x' \<and> P (contents_of (hc_storage x')))
      (\<lambda>x'. ok (hc_storage x') \<and> in_txn (hc_storage x') \<and> base (hc_storage x') = base (hc_storage x)) (f x)"
  shows "outcome_ok (\<lambda>tm'. txn cv tm' \<and> P (cached.tm_cont tm')) (\<lambda>tm'. txn_thrown cv tm') (on_storage f tm)"
proof -
  have nf: "\<not> commitFailed tm" and g: "good cv (base (hc_storage x))"
    using txn_storage [OF tm] x by auto
  show ?thesis
    using f nf g tm x
    by (cases "f x") (auto simp: on_storage_def manager_ok_def idle_good_def tm_contents_def)
qed

lemma outcome_ok_conj: "\<lbrakk>outcome_ok P Q r; outcome_ok P' Q' r\<rbrakk> \<Longrightarrow> outcome_ok (\<lambda>s. P s \<and> P' s) (\<lambda>s. Q s \<and> Q' s) r"
  by (cases r) auto

lemma add_in_txn:
  assumes tm: "txn cv tm" and u: "true_undo cv h u"
  shows "outcome_ok (\<lambda>tm'. txn cv tm' \<and> cur_state (cached.tm_cont tm') = cur_state (cached.tm_cont tm))
    (\<lambda>tm'. txn_thrown cv tm') (on_storage (op_AddUndoData cops h n u) tm)"
proof -
  obtain x where x: "tm_storage tm = Some x" "ok (hc_storage x)" "in_txn (hc_storage x)" "gd cv x"
    using txn_storage [OF tm] by metis
  have "outcome_ok (\<lambda>x'. ok (hc_storage x') \<and> in_txn (hc_storage x') \<and> base (hc_storage x') = base (hc_storage x)
        \<and> good cv (contents_of (hc_storage x')) \<and> coherent (cv_height cv) contents_of x'
        \<and> cur_state (contents_of (hc_storage x')) = cur_state (contents_of (hc_storage x)))
      (\<lambda>x'. ok (hc_storage x') \<and> in_txn (hc_storage x') \<and> base (hc_storage x') = base (hc_storage x)) (op_AddUndoData cops h n u x)"
    using outcome_ok_conj [OF add_undo [OF x(2,3), of n u h] base_add [OF x(2,3), of h n u]] x(4)
      good_add [of cv "contents_of (hc_storage x)" h u _ n] u
    by (cases "op_AddUndoData ops h n u (hc_storage x)")
      (auto simp: HeightCache_ops_def on_cached_def idle_good_def coherent_def)
  from op_in_txn [where f = "op_AddUndoData cops h n u" and P = "\<lambda>c. cur_state c = cur_state (contents_of (hc_storage x))", OF tm x(1) this] x(1) show ?thesis by (simp add: tm_contents_def)
qed

lemma release_in_txn:
  assumes tm: "txn cv tm"
  shows "outcome_ok (\<lambda>tm'. txn cv tm' \<and> cur_state (cached.tm_cont tm') = cur_state (cached.tm_cont tm))
    (\<lambda>tm'. txn_thrown cv tm') (on_storage (op_ReleaseUndoData cops h) tm)"
proof -
  obtain x where x: "tm_storage tm = Some x" "ok (hc_storage x)" "in_txn (hc_storage x)" "gd cv x"
    using txn_storage [OF tm] by metis
  have "outcome_ok (\<lambda>x'. ok (hc_storage x') \<and> in_txn (hc_storage x') \<and> base (hc_storage x') = base (hc_storage x)
        \<and> good cv (contents_of (hc_storage x')) \<and> coherent (cv_height cv) contents_of x'
        \<and> cur_state (contents_of (hc_storage x')) = cur_state (contents_of (hc_storage x)))
      (\<lambda>x'. ok (hc_storage x') \<and> in_txn (hc_storage x') \<and> base (hc_storage x') = base (hc_storage x)) (op_ReleaseUndoData cops h x)"
    using outcome_ok_conj [OF release [OF x(2,3), of h] base_release [OF x(2,3), of h]] x(4)
      good_release [of cv "contents_of (hc_storage x)" h]
    by (cases "op_ReleaseUndoData ops h (hc_storage x)")
      (auto simp: HeightCache_ops_def on_cached_def idle_good_def coherent_def release_undo_def)
  from op_in_txn [where f = "op_ReleaseUndoData cops h" and P = "\<lambda>c. cur_state c = cur_state (contents_of (hc_storage x))", OF tm x(1) this] x(1) show ?thesis by (simp add: tm_contents_def)
qed

lemma prune_in_txn:
  assumes tm: "txn cv tm"
  shows "outcome_ok (\<lambda>tm'. txn cv tm' \<and> cur_state (cached.tm_cont tm') = cur_state (cached.tm_cont tm))
    (\<lambda>tm'. txn_thrown cv tm') (on_storage (op_PruneUndoData cops n) tm)"
proof -
  obtain x where x: "tm_storage tm = Some x" "ok (hc_storage x)" "in_txn (hc_storage x)" "gd cv x"
    using txn_storage [OF tm] by metis
  have "outcome_ok (\<lambda>x'. ok (hc_storage x') \<and> in_txn (hc_storage x') \<and> base (hc_storage x') = base (hc_storage x)
        \<and> good cv (contents_of (hc_storage x')) \<and> coherent (cv_height cv) contents_of x'
        \<and> cur_state (contents_of (hc_storage x')) = cur_state (contents_of (hc_storage x)))
      (\<lambda>x'. ok (hc_storage x') \<and> in_txn (hc_storage x') \<and> base (hc_storage x') = base (hc_storage x)) (op_PruneUndoData cops n x)"
    using outcome_ok_conj [OF prune [OF x(2,3), of n] base_prune [OF x(2,3), of n]] x(4)
      good_prune [of cv "contents_of (hc_storage x)" n]
    by (cases "op_PruneUndoData ops n (hc_storage x)")
      (auto simp: HeightCache_ops_def on_cached_def idle_good_def coherent_def prune_undo_def)
  from op_in_txn [where f = "op_PruneUndoData cops n" and P = "\<lambda>c. cur_state c = cur_state (contents_of (hc_storage x))", OF tm x(1) this] x(1) show ?thesis by (simp add: tm_contents_def)
qed

lemma set_in_txn:
  assumes tm: "txn cv tm" and d: "true_state cv h d" "uint256_wf h" "n = cv_height cv h"
  shows "outcome_ok (\<lambda>tm'. txn cv tm' \<and> cur_state (cached.tm_cont tm') = Some (h, d))
    (\<lambda>tm'. txn_thrown cv tm') (on_storage (SetCurrentGameStateWithHeight ops h n d) tm)"
proof -
  obtain x where x: "tm_storage tm = Some x" "ok (hc_storage x)" "in_txn (hc_storage x)" "gd cv x"
    using txn_storage [OF tm] by metis
  have "outcome_ok (\<lambda>x'. ok (hc_storage x') \<and> in_txn (hc_storage x') \<and> base (hc_storage x') = base (hc_storage x)
        \<and> good cv (contents_of (hc_storage x')) \<and> coherent (cv_height cv) contents_of x'
        \<and> cur_state (contents_of (hc_storage x')) = Some (h, d))
      (\<lambda>x'. ok (hc_storage x') \<and> in_txn (hc_storage x') \<and> base (hc_storage x') = base (hc_storage x))
      (SetCurrentGameStateWithHeight ops h n d x)"
    using outcome_ok_conj [OF set_state [OF x(2,3) d(2), of d] base_set [OF x(2,3) d(2), of d]] x(4)
      good_set [of cv "contents_of (hc_storage x)" h d] d
    by (cases "op_SetCurrentGameState ops h d (hc_storage x)")
      (auto simp: SetCurrentGameStateWithHeight_def on_cached_def idle_good_def coherent_def)
  from op_in_txn [where f = "SetCurrentGameStateWithHeight ops h n d" and P = "\<lambda>c. cur_state c = Some (h, d)", OF tm x(1) this] show ?thesis .
qed

end

section \<open>Updating the state\<close>

lemma header_height:
  assumes "true_notification env cv blockData h"
  shows "as_unsigned (member (member blockData ''block'') ''height'') = Some (unat (cv_height cv h))"
    "isObject blockData" "isObject (member blockData ''block'')"
  using assms
  by (auto simp: true_notification_def notification_height_def json_at_def isObject_def split: json.splits Option.bind_splits)

definition same_but_manager :: "('s, 'u) Game \<Rightarrow> ('s, 'u) Game \<Rightarrow> bool" where
  "same_but_manager g g' \<longleftrightarrow> g' = g\<lparr>transactionManager := transactionManager g'\<rparr>"

lemma same_but_manager_simps [simp]:
  "same_but_manager g g" "same_but_manager g (g\<lparr>transactionManager := tm\<rparr>)"
  by (simp_all add: same_but_manager_def)

lemma same_but_manager_trans: "\<lbrakk>same_but_manager g g1; same_but_manager g1 g2\<rbrakk> \<Longrightarrow> same_but_manager g g2"
  by (cases g; cases g1; cases g2) (simp add: same_but_manager_def)

context rollback_storage
begin

abbreviation "gcont g \<equiv> cached.tm_cont (transactionManager g)"
abbreviation "gsync cv g \<equiv> sync cv (transactionManager g)"

lemma game_reads:
  assumes "gsync cv g"
  shows "Option.bind (game_storage g) (op_GetCurrentBlockHash cops) = map_option fst (cur_state (gcont g))"
    "Option.bind (game_storage g) (op_GetCurrentGameState cops) = map_option snd (cur_state (gcont g))"
    "Option.bind (game_storage g) (op_GetUndoData cops h) = map_option snd (cur_undo (gcont g) h)"
    "good cv (gcont g)" "game_storage g \<noteq> None"
proof -
  have "cached.tm_ok (transactionManager g)" and g: "gd cv (the (tm_storage (transactionManager g)))"
    using assms by (simp_all add: sync_inv_def)
  from this(1) obtain x where x: "tm_storage (transactionManager g) = Some x" "ok (hc_storage x)"
    by (rule manager_storage)
  from cached.get_hash [OF x(2)] cached.get_state [OF x(2)] cached.get_undo [OF x(2)] x(1) g
  show "Option.bind (game_storage g) (op_GetCurrentBlockHash cops) = map_option fst (cur_state (gcont g))"
    "Option.bind (game_storage g) (op_GetCurrentGameState cops) = map_option snd (cur_state (gcont g))"
    "Option.bind (game_storage g) (op_GetUndoData cops h) = map_option snd (cur_undo (gcont g) h)"
    "good cv (gcont g)" "game_storage g \<noteq> None"
    by (simp_all add: game_storage_def tm_contents_def idle_good_def)
qed

lemma attach_update_ok:
  assumes tm: "txn cv tm" and env: "env_ops env = ops" and blk: "true_notification env cv blockData h"
    and d: "true_state cv (cv_parent cv h) d" and h: "h \<noteq> cv_genesis cv"
  shows "outcome_ok (\<lambda>(q, tm'). txn cv tm' \<and> cur_state (cached.tm_cont tm') = Some (h, fst (cv_forward cv h d)))
    (\<lambda>(q, tm'). txn_thrown cv tm') (attach_update env h (cv_height cv h) d blockData (q, tm))"
proof -
  have fwd: "ProcessForward (env_sha env) (env_processor env) (env_rules env) d blockData = Some (cv_forward cv h d)"
    and wf: "uint256_wf h" using blk d by (simp_all add: true_notification_def)
  have u: "true_undo cv h (snd (cv_forward cv h d))" using d h by (auto simp: true_undo_def)
  have st: "true_state cv h (fst (cv_forward cv h d))" using d h by (rule true_state.block)
  have "outcome_ok (\<lambda>(q, tm'). txn cv tm' \<and> cur_state (cached.tm_cont tm') = Some (h, fst (cv_forward cv h d)))
    (\<lambda>(q, tm'). txn_thrown cv tm')
    (obind (on_manager (on_storage (op_AddUndoData cops h (cv_height cv h) (snd (cv_forward cv h d)))) (q, tm))
      (on_manager (on_storage (SetCurrentGameStateWithHeight ops h (cv_height cv h) (fst (cv_forward cv h d))))))"
  proof (rule outcome_ok_bind)
    show "outcome_ok (\<lambda>(q, tm'). txn cv tm') (\<lambda>(q, tm'). txn_thrown cv tm')
      (on_manager (on_storage (op_AddUndoData cops h (cv_height cv h) (snd (cv_forward cv h d)))) (q, tm))"
      by (rule outcome_ok_on_manager, rule outcome_ok_mono [OF add_in_txn [OF tm u]]) auto
    fix x :: "'b \<times> 's StorageWithCachedHeight TransactionManager"
    assume x: "case x of (q, tm') \<Rightarrow> txn cv tm'"
    show "outcome_ok (\<lambda>(q, tm'). txn cv tm' \<and> cur_state (cached.tm_cont tm') = Some (h, fst (cv_forward cv h d)))
      (\<lambda>(q, tm'). txn_thrown cv tm')
      (on_manager (on_storage (SetCurrentGameStateWithHeight ops h (cv_height cv h) (fst (cv_forward cv h d)))) x)"
      using x by (cases x) (auto intro!: outcome_ok_on_manager intro: outcome_ok_mono [OF set_in_txn [OF _ st wf refl]])
  qed auto
  then show ?thesis by (simp add: attach_update_def fwd env case_prod_beta)
qed

lemma update_attach_ok:
  assumes g: "gsync cv g" and env: "env_ops env = ops" and blk: "true_notification env cv blockData h"
    and chain: "chain_ok cv" and cur: "cur_state (gcont g) \<noteq> None"
  shows "outcome_ok (\<lambda>(b, g'). same_but_manager g g' \<and> gsync cv g'
        \<and> (if b then \<exists>d. cur_state (gcont g') = Some (h, d) else g' = g))
      (\<lambda>(b, g'). same_but_manager g g' \<and> gsync cv g')
      (UpdateStateForAttach env (cv_parent cv h) h blockData g)"
proof -
  obtain c d where c: "cur_state (gcont g) = Some (c, d)" using cur by auto
  show ?thesis
  proof (cases "c = cv_parent cv h")
    case False
    then show ?thesis using g c env by (simp add: UpdateStateForAttach_def Let_def env game_reads [OF g])
  next
    case True
    have d: "true_state cv (cv_parent cv h) d" using game_reads(4) [OF g] c True by (auto simp: good_def)
    then have h: "h \<noteq> cv_genesis cv" using chain by (auto simp: chain_ok_def)
    let ?tm = "transactionManager g"
    have "outcome_ok (\<lambda>(q, tm'). sync cv tm' \<and> cur_state (cached.tm_cont tm') = Some (h, fst (cv_forward cv h d)))
      (\<lambda>(q, tm'). sync cv tm') (in_transaction cops (attach_update env h (cv_height cv h) d blockData) ((), ?tm))"
      using game_txn [where R = "\<lambda>q c. cur_state c = Some (h, fst (cv_forward cv h d))" and q = "()"
          and body = "attach_update env h (cv_height cv h) d blockData", OF g] attach_update_ok [OF _ env blk d h]
      by (simp add: conj_assoc)
    then have "outcome_ok (\<lambda>(b, g'). same_but_manager g g' \<and> gsync cv g'
          \<and> (if b then \<exists>d. cur_state (gcont g') = Some (h, d) else g' = g)) (\<lambda>(b, g'). same_but_manager g g' \<and> gsync cv g')
        (omap (\<lambda>x. (True, g\<lparr>transactionManager := snd x\<rparr>))
          (in_transaction cops (attach_update env h (cv_height cv h) d blockData) ((), ?tm)))"
      unfolding outcome_ok_omap by (rule outcome_ok_mono) (auto simp: case_prod_beta)
    then show ?thesis
      using True c env by (simp add: UpdateStateForAttach_def Let_def env game_reads [OF g] header_height [OF blk])
  qed
qed

end

end
