(* ===== verification/GameSafe.thy ===== *)
theory GameSafe
  imports GameSync
begin

text \<open>
  The handlers of \<open>Game\<close> on true notifications: detaching, clearing, reinitialising, and the runs of a game.
\<close>

section \<open>Detaching\<close>

context rollback_storage
begin

lemma clear_ok:
  assumes "cached.tm_ok (transactionManager g)" and env: "env_ops env = ops"
  obtains g' where "clear_storage env g = Done g'" "same_but_manager g g'" "gsync cv g'" "gcont g' = no_contents"
proof -
  obtain tm1 where tm1: "TryAbortTransaction cops (transactionManager g) = Done tm1" "cached.tm_ok tm1"
    "\<not> inTransaction tm1" "\<not> commitFailed tm1" "batchedCommits tm1 = 0"
    using cached.manager_abort [OF assms(1)] by auto
  obtain x where x: "tm_storage tm1 = Some x" "ok (hc_storage x)" "\<not> in_txn (hc_storage x)"
    using manager_storage [OF tm1(2)] tm1(3-5) by (metis less_irrefl)
  obtain x' where x': "op_Clear cops x = Done x'" "ok (hc_storage x')" "\<not> in_txn (hc_storage x')"
    "contents_of (hc_storage x') = no_contents"
    using cached.clear [OF x(2,3)] by blast
  let ?g = "g\<lparr>transactionManager := tm1\<lparr>tm_storage := Some x'\<rparr>\<rparr>"
  have "clear_storage env g = Done ?g"
    using tm1 x x' by (simp add: clear_storage_def env on_game_manager_def on_storage_def)
  moreover have "gsync cv ?g"
    using tm1 x' by (simp add: sync_inv_def idle_good_def coherent_def no_contents_def manager_ok_def)
      (simp add: good_def)
  ultimately show thesis using x'(4) by (intro that [of ?g]) (simp_all add: tm_contents_def)
qed

lemma detach_update_ok:
  assumes tm: "txn cv tm" and env: "env_ops env = ops" and blk: "true_notification env cv blockData h"
    and h: "h \<noteq> cv_genesis cv" and d: "true_state cv (cv_parent cv h) d"
  shows "outcome_ok (\<lambda>(q, tm'). txn cv tm' \<and> cur_state (cached.tm_cont tm') = Some (cv_parent cv h, d))
    (\<lambda>(q, tm'). txn_thrown cv tm')
    (detach_update env (cv_parent cv h) h (fst (cv_forward cv h d)) (snd (cv_forward cv h d)) blockData (q, tm))"
proof -
  let ?p = "cv_parent cv h"
  have bwd: "ProcessBackwards (env_sha env) (env_processor env) (env_rules env) (fst (cv_forward cv h d)) blockData
      (snd (cv_forward cv h d)) = Some d" and wf: "uint256_wf ?p"
    and ht: "unat (cv_height cv h) = unat (cv_height cv ?p) + 1"
    using blk d h by (simp_all add: true_notification_def)
  have "outcome_ok (\<lambda>(q, tm'). txn cv tm' \<and> cur_state (cached.tm_cont tm') = Some (?p, d)) (\<lambda>(q, tm'). txn_thrown cv tm')
    (obind (on_manager (on_storage (SetCurrentGameStateWithHeight ops ?p (cv_height cv ?p) d)) (q, tm))
      (on_manager (on_storage (op_ReleaseUndoData cops h))))"
  proof (rule outcome_ok_bind)
    show "outcome_ok (\<lambda>(q, tm'). txn cv tm' \<and> cur_state (cached.tm_cont tm') = Some (?p, d)) (\<lambda>(q, tm'). txn_thrown cv tm')
      (on_manager (on_storage (SetCurrentGameStateWithHeight ops ?p (cv_height cv ?p) d)) (q, tm))"
      by (rule outcome_ok_on_manager, rule outcome_ok_mono [OF set_in_txn [OF tm d wf refl]]) auto
    fix x :: "'b \<times> 's StorageWithCachedHeight TransactionManager"
    assume x: "case x of (q, tm') \<Rightarrow> txn cv tm' \<and> cur_state (cached.tm_cont tm') = Some (?p, d)"
    show "outcome_ok (\<lambda>(q, tm'). txn cv tm' \<and> cur_state (cached.tm_cont tm') = Some (?p, d)) (\<lambda>(q, tm'). txn_thrown cv tm')
      (on_manager (on_storage (op_ReleaseUndoData cops h)) x)"
      using x by (cases x) (auto intro!: outcome_ok_on_manager intro: outcome_ok_mono [OF release_in_txn])
  qed auto
  then show ?thesis by (simp add: detach_update_def bwd env header_height [OF blk] ht)
qed

lemma update_detach_ok:
  assumes g: "gsync cv g" and env: "env_ops env = ops" and blk: "true_notification env cv blockData h"
    and cur: "cur_state (gcont g) \<noteq> None"
  shows "outcome_ok (\<lambda>(b, g'). same_but_manager g g' \<and> gsync cv g'
        \<and> (b \<longrightarrow> (\<exists>d. cur_state (gcont g') = Some (cv_parent cv h, d))))
      (\<lambda>(b, g'). same_but_manager g g' \<and> gsync cv g')
      (UpdateStateForDetach env (cv_parent cv h) h blockData g)"
proof -
  obtain c s where c: "cur_state (gcont g) = Some (c, s)" using cur by auto
  consider (other) "c \<noteq> h" | (lost) "c = h" "cur_undo (gcont g) h = None" | (undo) n u where "c = h" "cur_undo (gcont g) h = Some (n, u)"
    by fastforce
  then show ?thesis
  proof cases
    case other
    then show ?thesis using g c env by (simp add: UpdateStateForDetach_def Let_def game_reads [OF g])
  next
    case lost
    have "cached.tm_ok (transactionManager g)" using g by (simp add: sync_inv_def)
    from clear_ok [OF this env] obtain g' where "clear_storage env g = Done g'" "same_but_manager g g'" "gsync cv g'" .
    then show ?thesis using lost c env by (simp add: UpdateStateForDetach_def Let_def game_reads [OF g])
  next
    case undo
    have gd: "good cv (gcont g)" by (rule game_reads(4) [OF g])
    have "true_undo cv h u" using gd undo(2) unfolding good_def by blast
    then obtain d where d: "h \<noteq> cv_genesis cv" "true_state cv (cv_parent cv h) d" "u = snd (cv_forward cv h d)"
      unfolding true_undo_def by blast
    have "true_state cv h s" using gd c undo by (auto simp: good_def)
    then have s: "s = fst (cv_forward cv h d)" using true_state_unique true_state.block [OF d(2,1)] by blast
    let ?body = "detach_update env (cv_parent cv h) h s u blockData"
    have "outcome_ok (\<lambda>(q, tm'). sync cv tm' \<and> cur_state (cached.tm_cont tm') = Some (cv_parent cv h, d))
      (\<lambda>(q, tm'). sync cv tm') (in_transaction cops ?body ((), transactionManager g))"
      using game_txn [where R = "\<lambda>q c. cur_state c = Some (cv_parent cv h, d)" and q = "()" and body = ?body, OF g]
        detach_update_ok [OF _ env blk d(1,2)] by (simp add: conj_assoc s d(3))
    then have "outcome_ok (\<lambda>(b, g'). same_but_manager g g' \<and> gsync cv g' \<and> (b \<longrightarrow> (\<exists>d. cur_state (gcont g') = Some (cv_parent cv h, d))))
        (\<lambda>(b, g'). same_but_manager g g' \<and> gsync cv g')
        (omap (\<lambda>x. (True, g\<lparr>transactionManager := snd x\<rparr>)) (in_transaction cops ?body ((), transactionManager g)))"
      unfolding outcome_ok_omap by (rule outcome_ok_mono) (auto simp: case_prod_beta)
    then show ?thesis
      using undo c env by (simp add: UpdateStateForDetach_def Let_def game_reads [OF g])
  qed
qed

end

section \<open>The batch size\<close>

lemma flush_done_cases:
  assumes "Flush ops tm = Done tm'" "tm_storage tm = Some s"
  obtains s' where "op_CommitTransaction ops s = Done s'" "tm_storage tm' = Some s'" | "tm' = tm"
  using assms
  by (cases "batchedCommits tm > 0"; cases "inTransaction tm"; cases "commitFailed tm")
    (auto simp: Flush_def on_storage_def split: outcome.splits)

lemma batch_done_cases:
  assumes "SetBatchSize ops sz tm = Done tm'" "tm_storage tm = Some s" "\<not> inTransaction tm"
  obtains s' where "op_CommitTransaction ops s = Done s'" "tm_storage tm' = Some s'" "batchedCommits tm > 0"
    | "tm_storage tm' = Some s"
proof (cases "sz \<ge> 1 \<and> batchedCommits tm \<ge> sz")
  case True
  then have f: "Flush ops (tm\<lparr>batchSize := sz\<rparr>) = Done tm'" and pos: "batchedCommits tm > 0"
    using assms word_pos [of "batchedCommits tm"] by (auto simp: SetBatchSize_def)
  from f show thesis by (rule flush_done_cases [where s = s]) (use assms(2) that pos in auto)
next
  case False
  with assms that(2) show thesis by (cases "sz \<ge> 1") (auto simp: SetBatchSize_def Let_def)
qed

context rollback_storage
begin

lemma batch_ok:
  assumes tm: "sync cv tm" and sz: "sz \<ge> 1"
  shows "outcome_ok (\<lambda>tm'. sync cv tm' \<and> cached.tm_cont tm' = cached.tm_cont tm) (\<lambda>tm'. commitFailed tm') (SetBatchSize cops sz tm)"
proof -
  have ok: "cached.tm_ok tm" "\<not> commitFailed tm" and nt: "\<not> inTransaction tm" and g: "gd cv (the (tm_storage tm))"
    using tm by (simp_all add: sync_inv_def)
  obtain x where x: "tm_storage tm = Some x" "ok (hc_storage x)" "in_txn (hc_storage x) = (batchedCommits tm > 0)"
    using manager_storage [OF ok(1)] ok(2) nt by metis
  note res = cached.manager_batch [OF ok sz]
  show ?thesis
  proof (cases "SetBatchSize cops sz tm")
    case (Done tm')
    from Done x(1) nt have "gd cv (the (tm_storage tm'))"
    proof (cases rule: batch_done_cases)
      case (1 x1)
      then obtain s1 where s1: "op_CommitTransaction ops (hc_storage x) = Done s1" "x1 = x\<lparr>hc_storage := s1\<rparr>"
        by (auto simp: HeightCache_ops_def on_cached_Done)
      have "in_txn (hc_storage x)" using x(3) 1 by simp
      from commit [OF x(2) this] s1 1 g x(1) show ?thesis by (simp add: idle_good_def coherent_def)
    qed (use g x(1) in simp)
    with Done res nt show ?thesis by (simp add: sync_inv_def)
  qed (use res in simp_all)
qed

end

section \<open>Synchronising\<close>

text \<open>Replies of SpaceXpanse Core that have the documented form, with the true genesis block.\<close>

definition parse_updates :: "json \<Rightarrow> (uint256 \<times> string) option" where
  "parse_updates upd = do {
     t \<leftarrow> json_at upd ''toblock'';
     toblock \<leftarrow> parse_hash t;
     v \<leftarrow> json_at upd ''reqtoken'';
     token \<leftarrow> asString v;
     Some (toblock, token)
   }"

definition rpc_ok :: "chain_view \<Rightarrow> rpc_replies \<Rightarrow> bool" where
  "rpc_ok cv rpc \<longleftrightarrow>
     (\<forall>info. rpc_getblockchaininfo rpc = Some info \<longrightarrow> Option.bind (json_at info ''bestblockhash'') parse_hash \<noteq> None
        \<and> Option.bind (json_at info ''blocks'') as_unsigned \<noteq> None)
   \<and> (\<forall>s upd. rpc_game_sendupdates rpc s = Some upd \<longrightarrow> parse_updates upd \<noteq> None)
   \<and> (\<forall>hex. rpc_getblockhash rpc (uint (cv_height cv (cv_genesis cv))) = Some hex \<longrightarrow> FromHex hex SetNull = (True, cv_genesis cv))"

text \<open>Rules whose initial state belongs to the genesis block.\<close>

definition initial_ok :: "('s, 'u) game_env \<Rightarrow> chain_view \<Rightarrow> bool" where
  "initial_ok env cv \<longleftrightarrow> chain_ok cv \<and> (\<exists>hex. GetInitialState (env_sha env) (env_processor env) (env_rules env)
     = Some (cv_height cv (cv_genesis cv), hex, cv_initial cv) \<and> (hex = [] \<or> FromHex hex SetNull = (True, cv_genesis cv)))"

definition has_state :: "State \<Rightarrow> bool" where
  "has_state s \<longleftrightarrow> s \<in> {CATRODNG_UP, UP_TO_DATE, AT_TARGET}"

lemma has_state_simps [simp]:
  "has_state CATRODNG_UP" "has_state UP_TO_DATE" "has_state AT_TARGET" "\<not> has_state State.UNKNOWN" "\<not> has_state PREGENESIS"
  "\<not> has_state OUT_OF_SYNC" "\<not> has_state DISCONNECTED"
  by (simp_all add: has_state_def)

text \<open>The parts of a game that synchronising leaves as they are.\<close>

definition genesis_ok :: "chain_view \<Rightarrow> ('s, 'u) Game \<Rightarrow> bool" where
  "genesis_ok cv g \<longleftrightarrow> (genesisHeight g = -1 \<or> genesisHeight g = uint (cv_height cv (cv_genesis cv)))
     \<and> transactionBatchSize g \<ge> 1"

text \<open>\<open>settled\<close>: a state in which notifications are handled, \<open>h\<close> being the hash of the current block.\<close>

definition settled :: "rpc_replies \<Rightarrow> ('s, 'u) Game \<Rightarrow> uint256 \<Rightarrow> bool" where
  "settled rpc g h \<longleftrightarrow> (gm_state g = AT_TARGET \<and> h = targetBlock g)
     \<or> (gm_state g = UP_TO_DATE \<and> (\<exists>info. rpc_getblockchaininfo rpc = Some info
          \<and> Option.bind (json_at info ''bestblockhash'') parse_hash = Some h))
     \<or> (gm_state g = CATRODNG_UP \<and> (\<exists>upd. rpc_game_sendupdates rpc (ToHex h) = Some upd
          \<and> parse_updates upd = Some (catchingUpTarget g, reqToken g)))"

definition rest_same :: "('s, 'u) Game \<Rightarrow> ('s, 'u) Game \<Rightarrow> bool" where
  "rest_same g g' \<longleftrightarrow> gameId g' = gameId g \<and> gm_chain g' = gm_chain g \<and> targetBlock g' = targetBlock g
     \<and> transactionBatchSize g' = transactionBatchSize g \<and> pruningQueue g' = pruningQueue g \<and> gm_pending g' = gm_pending g
     \<and> pendingStateVersion g' = pendingStateVersion g"

lemma rest_same_refl [simp]: "rest_same g g"
  by (simp add: rest_same_def)

lemma rest_same_manager: "same_but_manager g g' \<Longrightarrow> rest_same g g' \<and> gm_state g' = gm_state g \<and> genesisHeight g' = genesisHeight g"
  by (cases g; cases g') (simp add: same_but_manager_def rest_same_def)

context rollback_storage
begin

lemma batch_game:
  assumes "gsync cv g" "sz \<ge> 1"
  shows "outcome_ok (\<lambda>g'. same_but_manager g g' \<and> gsync cv g' \<and> gcont g' = gcont g)
    (\<lambda>g'. same_but_manager g g' \<and> commitFailed (transactionManager g')) (on_game_manager (SetBatchSize cops sz) g)"
  using batch_ok [OF assms] by (auto simp: on_game_manager_def elim!: outcome_ok_mono)

lemma sync_ok:
  assumes g: "gsync cv g" and env: "env_ops env = ops" and rpc: "rpc_ok cv rpc"
    and info: "rpc_getblockchaininfo rpc = Some info" and st: "gm_state g = OUT_OF_SYNC"
    and gen: "genesis_ok cv g"
  shows "outcome_ok (\<lambda>g'. gsync cv g' \<and> gcont g' = gcont g \<and> genesis_ok cv g' \<and> rest_same g g' \<and> settled rpc g' h)
    (\<lambda>g'. rest_same g g' \<and> (commitFailed (transactionManager g') \<or> gsync cv g' \<and> genesis_ok cv g' \<and> \<not> has_state (gm_state g')))
    (SyncFromCurrentState env rpc info h g)"
proof -
  obtain best where best: "Option.bind (json_at info ''bestblockhash'') parse_hash = Some best"
    using rpc info by (auto simp: rpc_ok_def)
  consider (target) "h = targetBlock g" | (tip) "h \<noteq> targetBlock g" "best = h" | (behind) "h \<noteq> targetBlock g" "best \<noteq> h" by blast
  then show ?thesis
  proof cases
    case target
    then show ?thesis using g gen st by (simp add: SyncFromCurrentState_def genesis_ok_def rest_same_def settled_def)
  next
    case tip
    let ?g = "g\<lparr>gm_state := UP_TO_DATE\<rparr>"
    have "SyncFromCurrentState env rpc info h g = on_game_manager (SetBatchSize cops 1) ?g"
      using tip best st by (simp add: SyncFromCurrentState_def env)
    moreover have "outcome_ok (\<lambda>g'. same_but_manager ?g g' \<and> gsync cv g' \<and> gcont g' = gcont ?g)
      (\<lambda>g'. same_but_manager ?g g' \<and> commitFailed (transactionManager g')) (on_game_manager (SetBatchSize cops 1) ?g)"
      by (rule batch_game) (use g in simp_all)
    ultimately show ?thesis
      using gen tip best info
      by (auto elim!: outcome_ok_mono dest!: rest_same_manager simp: genesis_ok_def rest_same_def settled_def)
  next
    case behind
    show ?thesis
    proof (cases "rpc_game_sendupdates rpc (ToHex h)")
      case None
      then show ?thesis using behind best st g gen by (simp add: SyncFromCurrentState_def)
    next
      case (Some upd)
      then obtain t tok where upd: "parse_updates upd = Some (t, tok)" using rpc by (fastforce simp: rpc_ok_def)
      let ?g = "g\<lparr>gm_state := CATRODNG_UP\<rparr>"
      have eq: "SyncFromCurrentState env rpc info h g = obind (on_game_manager (SetBatchSize cops (transactionBatchSize g)) ?g)
          (\<lambda>g. Done (g\<lparr>catchingUpTarget := t, reqToken := tok\<rparr>))"
        using behind best st Some upd [unfolded parse_updates_def] by (simp add: SyncFromCurrentState_def env)
      have "outcome_ok (\<lambda>g'. same_but_manager ?g g' \<and> gsync cv g' \<and> gcont g' = gcont ?g)
        (\<lambda>g'. same_but_manager ?g g' \<and> commitFailed (transactionManager g'))
        (on_game_manager (SetBatchSize cops (transactionBatchSize g)) ?g)"
        by (rule batch_game) (use g gen in \<open>simp_all add: genesis_ok_def\<close>)
      then show ?thesis
        unfolding eq
        by (rule outcome_ok_bind)
          (use gen Some upd in \<open>auto dest!: rest_same_manager simp: genesis_ok_def rest_same_def settled_def\<close>)
    qed
  qed
qed

end

end
