(* ===== verification/GameReinit.thy ===== *)
theory GameReinit
  imports GameSafe
begin

text \<open>
  The reinitialisation of a game, the handlers on true notifications and the runs of a game: the storage
  holds true states only, whatever the order of the notifications and whatever fails in between.
\<close>

section \<open>Storing the initial state\<close>

text \<open>The loop may run forever; when it returns, its last run has not thrown.\<close>

lemma retry_ok:
  assumes "retry f x = Some r" and "I x" and step: "\<And>x. I x \<Longrightarrow> outcome_ok P I (f x)"
  shows "outcome_ok P (\<lambda>x. False) r"
proof -
  have "outcome_ok P I r"
    using assms(1) unfolding retry_def
    by (rule while_option_rule [where P = "outcome_ok P I", rotated]) (use assms(2) step in \<open>auto split: outcome.splits\<close>)
  moreover have "\<not> (case r of Thrown x \<Rightarrow> True | _ \<Rightarrow> False)"
    using while_option_stop [OF assms(1) [unfolded retry_def]] by simp
  ultimately show ?thesis by (cases r) auto
qed

text \<open>It returns when the storage throws only finitely often.\<close>

lemma retry_returns:
  fixes m :: "'a \<Rightarrow> nat"
  assumes "I x" and step: "\<And>x x'. \<lbrakk>I x; f x = Thrown x'\<rbrakk> \<Longrightarrow> I x' \<and> m x' < m x"
  shows "retry f x \<noteq> None"
  using assms(1)
proof (induction "m x" arbitrary: x rule: less_induct)
  case less
  show ?case
  proof (cases "f x")
    case (Thrown x')
    with less step have "retry f x' \<noteq> None" by blast
    with Thrown show ?thesis unfolding retry_def by (subst while_option_unfold) simp
  qed (simp_all add: retry_def while_option_unfold)
qed

context rollback_storage
begin

lemma store_genesis_ok:
  assumes "store_genesis ops h n d x = Some r" and "sync cv (snd x)"
    and d: "true_state cv h d" "uint256_wf h" "n = cv_height cv h"
  shows "outcome_ok (\<lambda>(q, tm). sync cv tm \<and> cur_state (cached.tm_cont tm) = Some (h, d)) (\<lambda>y. False) r"
  using assms(1) unfolding store_genesis_def
proof (rule retry_ok [where I = "\<lambda>x. sync cv (snd x)"])
  fix x :: "unit \<times> 's StorageWithCachedHeight TransactionManager"
  assume "sync cv (snd x)"
  then obtain q tm where x: "x = (q, tm)" "sync cv tm" by (cases x) auto
  let ?body = "on_manager (on_storage (SetCurrentGameStateWithHeight ops h n d))
    :: unit \<times> 's StorageWithCachedHeight TransactionManager \<Rightarrow> (unit \<times> 's StorageWithCachedHeight TransactionManager) outcome"
  have "outcome_ok (\<lambda>(q', tm'). sync cv tm' \<and> cur_state (cached.tm_cont tm') = Some (h, d)) (\<lambda>(q', tm'). sync cv tm')
      (in_transaction cops ?body (q, tm))"
  proof (rule game_txn [where R = "\<lambda>q c. cur_state c = Some (h, d)", OF x(2)])
    fix tm' assume "cached.tm_ok tm'" "inTransaction tm'" "gd cv (the (tm_storage tm'))"
    then have "txn cv tm'" by blast
    from set_in_txn [OF this d] show "outcome_ok
      (\<lambda>(q', tm''). cached.tm_ok tm'' \<and> inTransaction tm'' \<and> gd cv (the (tm_storage tm'')) \<and> cur_state (cached.tm_cont tm'') = Some (h, d))
      (\<lambda>(q', tm''). txn_thrown cv tm'') (?body (q, tm'))"
      by (intro outcome_ok_on_manager) (auto elim: outcome_ok_mono)
  qed
  then show "outcome_ok (\<lambda>(q, tm). sync cv tm \<and> cur_state (cached.tm_cont tm) = Some (h, d)) (\<lambda>x. sync cv (snd x)) (store_once ops h n d x)"
    unfolding store_once_def x(1) by (rule outcome_ok_mono) auto
qed (use assms(2) in simp)

end

section \<open>Reinitialising\<close>

text \<open>What holds after a reinitialisation that returns, and after one that an exception ends.\<close>

lemma rest_same_trans: "\<lbrakk>rest_same g1 g2; rest_same g2 g3\<rbrakk> \<Longrightarrow> rest_same g1 g3"
  by (simp add: rest_same_def)

definition reinit_post ::
    "chain_view \<Rightarrow> rpc_replies \<Rightarrow> ('s StorageWithCachedHeight \<Rightarrow> contents) \<Rightarrow> ('s, 'u) Game \<Rightarrow> bool" where
  "reinit_post cv rpc cont g \<longleftrightarrow> genesis_ok cv g \<and>
     (case cur_state (tm_contents cont (transactionManager g)) of
        None \<Rightarrow> gm_state g = PREGENESIS \<and> genesisHeight g \<ge> 0
      | Some (h, d) \<Rightarrow> settled rpc g h)"

lemma uint_height:
  assumes "chain_ok cv"
  shows "sint (cv_height cv (cv_genesis cv)) = uint (cv_height cv (cv_genesis cv))"
proof -
  have "uint (cv_height cv (cv_genesis cv)) < 2 ^ 31"
    using assms by (simp add: chain_ok_def word_less_def)
  moreover have "- (2 ^ 31) \<le> uint (cv_height cv (cv_genesis cv))"
    by (rule order_trans [OF _ uint_ge_0]) simp
  ultimately show ?thesis by (simp add: sint_uint signed_take_bit_int_eq_self)
qed

lemma find_genesis_ok:
  assumes "initial_ok env cv" "genesis_ok cv g"
  shows "find_genesis env g = Some (g\<lparr>genesisHeight := uint (cv_height cv (cv_genesis cv))\<rparr>)"
proof -
  have chain: "chain_ok cv" using assms(1) by (simp add: initial_ok_def)
  obtain hex where "GetInitialState (env_sha env) (env_processor env) (env_rules env)
      = Some (cv_height cv (cv_genesis cv), hex, cv_initial cv)"
    using assms(1) by (auto simp: initial_ok_def)
  moreover have "genesisHeight g \<noteq> -1 \<Longrightarrow> genesisHeight g = uint (cv_height cv (cv_genesis cv))"
    using assms(2) by (auto simp: genesis_ok_def)
  ultimately show ?thesis
    using uint_height [OF chain] by (cases "genesisHeight g = -1") (simp_all add: find_genesis_def)
qed

context rollback_storage
begin

lemma store_initial_ok:
  fixes g :: "('s, 'u) Game"
  assumes g: "gsync cv g" and env: "env_ops env = ops" and rpc: "rpc_ok cv rpc" and init: "initial_ok env cv"
    and gen: "genesis_ok cv g" "genesisHeight g = uint (cv_height cv (cv_genesis cv))"
    and info: "rpc_getblockchaininfo rpc = Some info" and st: "\<not> has_state (gm_state g)"
    and r: "store_initial env rpc info g = Some r"
  shows "outcome_ok (\<lambda>g'. gsync cv g' \<and> reinit_post cv rpc (\<lambda>x. contents_of (hc_storage x)) g' \<and> rest_same g g')
    (\<lambda>g'. rest_same g g' \<and> (commitFailed (transactionManager g') \<or> gsync cv g' \<and> genesis_ok cv g' \<and> \<not> has_state (gm_state g'))) r"
proof -
  have chain: "chain_ok cv" using init by (simp add: initial_ok_def)
  obtain hex where ini: "GetInitialState (env_sha env) (env_processor env) (env_rules env)
      = Some (cv_height cv (cv_genesis cv), hex, cv_initial cv)" and hex: "hex = [] \<or> FromHex hex SetNull = (True, cv_genesis cv)"
    using init by (auto simp: initial_ok_def)
  have "cached.tm_ok (transactionManager g)" using g by (simp add: sync_inv_def)
  from clear_ok [OF this env, of cv] obtain g1 where g1: "clear_storage env g = Done g1" "same_but_manager g g1" "gsync cv g1" .
  note rest1 = rest_same_manager [OF g1(2)]
  show ?thesis
  proof (cases "rpc_getblockhash rpc (genesisHeight g1)")
    case None
    then have "r = Thrown g1" using r g1 ini rest1 gen by (simp add: store_initial_def)
    with g1 rest1 gen st show ?thesis by (simp add: genesis_ok_def rest_same_def)
  next
    case (Some blk)
    have "genesisHeight g1 = uint (cv_height cv (cv_genesis cv))" using rest1 gen by simp
    with Some have b: "FromHex blk SetNull = (True, cv_genesis cv)" using rpc unfolding rpc_ok_def by metis
    have fh: "find_genesis_hash hex blk = Some (cv_genesis cv)"
      using hex by (elim disjE) (simp_all add: find_genesis_hash_def b Let_def)
    obtain r1 where r1: "store_genesis ops (cv_genesis cv) (cv_height cv (cv_genesis cv)) (cv_initial cv) ((), transactionManager g1) = Some r1"
      "r = obind (omap (\<lambda>x. g1\<lparr>genesisHash := cv_genesis cv, transactionManager := snd x\<rparr>) r1)
        (\<lambda>g. SyncFromCurrentState env rpc info (genesisHash g) (g\<lparr>gm_state := OUT_OF_SYNC\<rparr>))"
      using r g1 ini rest1 gen Some fh by (auto simp: store_initial_def env)
    have wf: "uint256_wf (cv_genesis cv)" using chain by (simp add: chain_ok_def)
    have "outcome_ok (\<lambda>(q, tm). sync cv tm \<and> cur_state (cached.tm_cont tm) = Some (cv_genesis cv, cv_initial cv)) (\<lambda>y. False) r1"
      by (rule store_genesis_ok [OF r1(1) _ true_state.genesis wf refl]) (use g1 in simp)
    then obtain q tm where tm: "r1 = Done (q, tm)" "sync cv tm" "cur_state (cached.tm_cont tm) = Some (cv_genesis cv, cv_initial cv)"
      by (cases r1) auto
    let ?g = "g1\<lparr>genesisHash := cv_genesis cv, transactionManager := tm, gm_state := OUT_OF_SYNC\<rparr>"
    have "r = SyncFromCurrentState env rpc info (cv_genesis cv) ?g" using r1(2) tm(1) by simp
    moreover have "outcome_ok (\<lambda>g'. gsync cv g' \<and> gcont g' = gcont ?g \<and> genesis_ok cv g' \<and> rest_same ?g g' \<and> settled rpc g' (cv_genesis cv))
      (\<lambda>g'. rest_same ?g g' \<and> (commitFailed (transactionManager g') \<or> gsync cv g' \<and> genesis_ok cv g' \<and> \<not> has_state (gm_state g')))
      (SyncFromCurrentState env rpc info (cv_genesis cv) ?g)"
      by (rule sync_ok) (use tm env rpc info gen rest1 in \<open>simp_all add: genesis_ok_def rest_same_def\<close>)
    ultimately have s1: "outcome_ok (\<lambda>g'. gsync cv g' \<and> gcont g' = gcont ?g \<and> genesis_ok cv g' \<and> rest_same ?g g' \<and> settled rpc g' (cv_genesis cv))
      (\<lambda>g'. rest_same ?g g' \<and> (commitFailed (transactionManager g') \<or> gsync cv g' \<and> genesis_ok cv g' \<and> \<not> has_state (gm_state g'))) r" by simp
    have "rest_same g ?g" using rest1 by (simp add: rest_same_def)
    then have same: "rest_same ?g g' \<Longrightarrow> rest_same g g'" for g' :: "('s, 'u) Game" by (auto elim: rest_same_trans)
    have "gcont ?g = cached.tm_cont tm" by simp
    then have post: "gcont g' = gcont ?g \<Longrightarrow> genesis_ok cv g' \<Longrightarrow> settled rpc g' (cv_genesis cv)
        \<Longrightarrow> reinit_post cv rpc (\<lambda>x. contents_of (hc_storage x)) g'" for g' :: "('s, 'u) Game"
      using tm(3) by (simp add: reinit_post_def)
    show ?thesis by (rule outcome_ok_mono [OF s1]) (use same post in blast)+
  qed
qed

lemma reinit_ok:
  fixes g :: "('s, 'u) Game"
  assumes g: "gsync cv g" and env: "env_ops env = ops" and rpc: "rpc_ok cv rpc" and init: "initial_ok env cv"
    and gen: "genesis_ok cv g" and r: "ReinitialiseState env rpc g = Some r"
  shows "outcome_ok (\<lambda>g'. gsync cv g' \<and> reinit_post cv rpc (\<lambda>x. contents_of (hc_storage x)) g' \<and> rest_same g g')
    (\<lambda>g'. rest_same g g' \<and> (commitFailed (transactionManager g') \<or> gsync cv g' \<and> genesis_ok cv g' \<and> \<not> has_state (gm_state g'))) r"
proof (cases "rpc_getblockchaininfo rpc")
  case None
  with r g gen show ?thesis by (auto simp: ReinitialiseState_def genesis_ok_def rest_same_def)
next
  case info: (Some info)
  obtain s where s: "game_storage g = Some s" using game_reads(5) [OF g] by blast
  have hash: "op_GetCurrentBlockHash cops s = map_option fst (cur_state (gcont g))"
    using game_reads(1) [OF g] s by simp
  have s': "game_storage (g\<lparr>gm_state := State.UNKNOWN\<rparr>) = Some s" using s by (simp add: game_storage_def)
  show ?thesis
  proof (cases "cur_state (gcont g)")
    case (Some e)
    let ?g = "g\<lparr>gm_state := OUT_OF_SYNC\<rparr>"
    have "r = SyncFromCurrentState env rpc info (fst e) ?g"
      using r info s' hash Some by (simp add: ReinitialiseState_def env)
    moreover have "outcome_ok (\<lambda>g'. gsync cv g' \<and> gcont g' = gcont ?g \<and> genesis_ok cv g' \<and> rest_same ?g g' \<and> settled rpc g' (fst e))
      (\<lambda>g'. rest_same ?g g' \<and> (commitFailed (transactionManager g') \<or> gsync cv g' \<and> genesis_ok cv g' \<and> \<not> has_state (gm_state g')))
      (SyncFromCurrentState env rpc info (fst e) ?g)"
      by (rule sync_ok) (use g env rpc info gen in \<open>simp_all add: genesis_ok_def\<close>)
    ultimately have s1: "outcome_ok (\<lambda>g'. gsync cv g' \<and> gcont g' = gcont ?g \<and> genesis_ok cv g' \<and> rest_same ?g g' \<and> settled rpc g' (fst e))
      (\<lambda>g'. rest_same ?g g' \<and> (commitFailed (transactionManager g') \<or> gsync cv g' \<and> genesis_ok cv g' \<and> \<not> has_state (gm_state g'))) r" by simp
    have same: "rest_same ?g g' \<Longrightarrow> rest_same g g'" for g' :: "('s, 'u) Game" by (simp add: rest_same_def)
    have post: "gcont g' = gcont ?g \<Longrightarrow> genesis_ok cv g' \<Longrightarrow> settled rpc g' (fst e)
        \<Longrightarrow> reinit_post cv rpc (\<lambda>x. contents_of (hc_storage x)) g'" for g' :: "('s, 'u) Game"
      using Some by (cases e) (simp add: reinit_post_def)
    show ?thesis by (rule outcome_ok_mono [OF s1]) (use same post in blast)+
  next
    case None
    let ?g = "g\<lparr>gm_state := State.UNKNOWN, genesisHeight := uint (cv_height cv (cv_genesis cv))\<rparr>"
    have fg: "find_genesis env (g\<lparr>gm_state := State.UNKNOWN\<rparr>) = Some ?g"
      using find_genesis_ok [OF init, of "g\<lparr>gm_state := State.UNKNOWN\<rparr>"] gen by (simp add: genesis_ok_def)
    obtain blocks where blocks: "Option.bind (json_at info ''blocks'') as_unsigned = Some blocks"
      using rpc info by (auto simp: rpc_ok_def)
    show ?thesis
    proof (cases "int blocks < genesisHeight ?g")
      case True
      then have "r = Done (?g\<lparr>gm_state := PREGENESIS\<rparr>)"
        using r info s' hash None fg blocks by (simp add: ReinitialiseState_def env)
      then show ?thesis using g gen None by (simp add: reinit_post_def genesis_ok_def rest_same_def)
    next
      case False
      then have "store_initial env rpc info ?g = Some r"
        using r info s' hash None fg blocks by (simp add: ReinitialiseState_def env)
      then have s1: "outcome_ok (\<lambda>g'. gsync cv g' \<and> reinit_post cv rpc (\<lambda>x. contents_of (hc_storage x)) g' \<and> rest_same ?g g')
        (\<lambda>g'. rest_same ?g g' \<and> (commitFailed (transactionManager g') \<or> gsync cv g' \<and> genesis_ok cv g' \<and> \<not> has_state (gm_state g'))) r"
        using store_initial_ok [OF _ env rpc init _ _ info, of ?g r] g gen by (simp add: genesis_ok_def)
      have same: "rest_same ?g g' \<Longrightarrow> rest_same g g'" for g' :: "('s, 'u) Game" by (simp add: rest_same_def)
      show ?thesis by (rule outcome_ok_mono [OF s1]) (use same in blast)+
    qed
  qed
qed

end

end
