(* ===== verification/GameRun.thy ===== *)
theory GameRun
  imports GameReinit
begin

text \<open>
  The handlers of \<open>Game\<close> keep the storage true, and the runs of a game: every stored state on a run is the
  state of its block, whatever the order of the notifications and whatever throws in between.
\<close>

section \<open>Steps that may abort\<close>

fun outcome_safe :: "('s \<Rightarrow> bool) \<Rightarrow> ('s \<Rightarrow> bool) \<Rightarrow> 's outcome \<Rightarrow> bool" where
  "outcome_safe P Q (Done s) = P s"
| "outcome_safe P Q (Thrown s) = Q s"
| "outcome_safe P Q Aborted = True"

lemma outcome_ok_safe: "outcome_ok P Q r \<Longrightarrow> outcome_safe P Q r"
  by (cases r) auto

lemma outcome_safe_mono: "\<lbrakk>outcome_safe P Q r; \<And>s. P s \<Longrightarrow> P' s; \<And>s. Q s \<Longrightarrow> Q' s\<rbrakk> \<Longrightarrow> outcome_safe P' Q' r"
  by (cases r) auto

lemma outcome_safe_bind:
  "\<lbrakk>outcome_safe P Q r; \<And>s. P s \<Longrightarrow> outcome_safe P' Q' (f s); \<And>s. Q s \<Longrightarrow> Q' s\<rbrakk> \<Longrightarrow> outcome_safe P' Q' (obind r f)"
  by (cases r) auto

lemma outcome_safe_omap [simp]: "outcome_safe P Q (omap f r) = outcome_safe (\<lambda>s. P (f s)) (\<lambda>s. Q (f s)) r"
  by (cases r) simp_all

lemma outcome_safe_check: "(b \<Longrightarrow> P s) \<Longrightarrow> outcome_safe P Q (ocheck b s)"
  by (simp add: ocheck_def)

section \<open>The pruning queue\<close>

context rollback_storage
begin

lemma keeping_txn:
  assumes tm: "sync cv tm"
    and body: "\<And>tm'. txn cv tm' \<Longrightarrow> outcome_ok (\<lambda>(q', tm''). txn cv tm'' \<and> cur_state (cached.tm_cont tm'') = cur_state (cached.tm_cont tm'))
      (\<lambda>(q', tm''). txn_thrown cv tm'') (body (q, tm'))"
  shows "outcome_safe (\<lambda>(q', tm'). sync cv tm' \<and> cur_state (cached.tm_cont tm') = cur_state (cached.tm_cont tm))
    (\<lambda>(q', tm'). sync cv tm') (in_transaction cops body (q, tm))"
proof (rule outcome_ok_safe, rule game_txn [where R = "\<lambda>q c. cur_state c = cur_state (cached.tm_cont tm)", OF tm])
  fix tm' assume tm': "cached.tm_ok tm'" "inTransaction tm'" "cached.tm_cont tm' = cached.tm_cont tm" "gd cv (the (tm_storage tm'))"
  then show "outcome_ok (\<lambda>(q', tm''). cached.tm_ok tm'' \<and> inTransaction tm'' \<and> gd cv (the (tm_storage tm''))
      \<and> cur_state (cached.tm_cont tm'') = cur_state (cached.tm_cont tm))
    (\<lambda>(q', tm''). txn_thrown cv tm'') (body (q, tm'))"
    using body [of tm'] by (simp add: conj_assoc)
qed

lemma release_front_keeps:
  assumes "txn cv tm"
  shows "outcome_ok (\<lambda>(q', tm'). txn cv tm' \<and> cur_state (cached.tm_cont tm') = cur_state (cached.tm_cont tm))
    (\<lambda>(q', tm'). txn_thrown cv tm') (release_front cops n hs (q, tm))"
  using assms
proof (induction hs arbitrary: q tm)
  case Nil
  then show ?case by simp
next
  case (Cons h hs)
  show ?case
  proof (cases "length (h # hs) > unat n")
    case True
    let ?P = "\<lambda>(q' :: PruningQueue, tm'). txn cv tm' \<and> cur_state (cached.tm_cont tm') = cur_state (cached.tm_cont tm)"
    have "outcome_ok ?P (\<lambda>(q', tm'). txn_thrown cv tm')
      (obind (on_manager (on_storage (op_ReleaseUndoData cops h)) (q\<lparr>pq_hashes := h # hs\<rparr>, tm)) (release_front cops n hs))"
    proof (rule outcome_ok_bind)
      show "outcome_ok ?P (\<lambda>(q', tm'). txn_thrown cv tm')
        (on_manager (on_storage (op_ReleaseUndoData cops h)) (q\<lparr>pq_hashes := h # hs\<rparr>, tm))"
        by (rule outcome_ok_on_manager, rule outcome_ok_mono [OF release_in_txn [OF Cons.prems]]) auto
      fix x :: "PruningQueue \<times> 's StorageWithCachedHeight TransactionManager"
      assume "?P x"
      then obtain q' tm' where x: "x = (q', tm')" "txn cv tm'" "cur_state (cached.tm_cont tm') = cur_state (cached.tm_cont tm)"
        by (cases x) auto
      show "outcome_ok ?P (\<lambda>(q', tm'). txn_thrown cv tm') (release_front cops n hs x)"
        using Cons.IH [OF x(2), of q'] x(3) unfolding x(1) by simp
    qed auto
    with True show ?thesis by simp
  qed (use Cons.prems in simp)
qed

lemma too_long_keeps:
  assumes "sync cv tm"
  shows "outcome_safe (\<lambda>(q', tm'). sync cv tm' \<and> cur_state (cached.tm_cont tm') = cur_state (cached.tm_cont tm))
    (\<lambda>(q', tm'). sync cv tm') (PruneIfTooLong cops (q, tm))"
proof (cases "length (pq_hashes q) \<le> unat (nBlocks q)")
  case False
  have "outcome_safe (\<lambda>(q', tm'). sync cv tm' \<and> cur_state (cached.tm_cont tm') = cur_state (cached.tm_cont tm))
    (\<lambda>(q', tm'). sync cv tm')
    (in_transaction cops (\<lambda>x. release_front cops (nBlocks (fst x)) (pq_hashes (fst x)) x) (q, tm))"
    by (rule keeping_txn [OF assms]) (use release_front_keeps in simp)
  with False show ?thesis by (simp add: PruneIfTooLong_def)
qed (use assms in \<open>simp add: PruneIfTooLong_def\<close>)

lemma prune_attach_keeps:
  assumes tm: "sync cv tm"
  shows "outcome_safe (\<lambda>(q', tm'). sync cv tm' \<and> cur_state (cached.tm_cont tm') = cur_state (cached.tm_cont tm))
    (\<lambda>(q', tm'). sync cv tm') (AttachBlock cops h height (q, tm))"
proof -
  let ?P = "\<lambda>(q' :: PruningQueue, tm'). sync cv tm' \<and> cur_state (cached.tm_cont tm') = cur_state (cached.tm_cont tm)"
  have prune: "outcome_safe ?P (\<lambda>(q', tm'). sync cv tm')
      (in_transaction cops (on_manager (on_storage (op_PruneUndoData cops n))) (q', tm))" for n and q' :: PruningQueue
    by (rule keeping_txn [OF tm]) (rule outcome_ok_on_manager, rule outcome_ok_mono [OF prune_in_txn], auto)
  have too_long: "outcome_safe ?P (\<lambda>(q', tm'). sync cv tm') (PruneIfTooLong cops x)" if x: "?P x" for x
  proof -
    obtain q' tm' where "x = (q', tm')" by (cases x)
    with too_long_keeps [of cv tm' q'] x show ?thesis by simp
  qed
  show ?thesis
    unfolding AttachBlock_def Let_def
    by (rule outcome_safe_bind [where P = ?P and Q = "\<lambda>(q', tm'). sync cv tm'"], split if_split, intro conjI impI,
        rule outcome_safe_bind [where P = "\<lambda>x. snd x = tm" and Q = "\<lambda>x. False"], rule outcome_safe_check, simp,
        rule outcome_safe_bind [where P = ?P and Q = "\<lambda>(q', tm'). sync cv tm'"])
      (use prune tm too_long in \<open>auto simp: case_prod_beta\<close>)
qed

end

section \<open>The handlers\<close>

text \<open>A game whose storage is true, with a current state whenever notifications about blocks are applied to it.\<close>

definition follows_chain :: "State \<Rightarrow> bool" where
  "follows_chain s \<longleftrightarrow> s \<in> {CATRODNG_UP, UP_TO_DATE}"

lemma follows_chain_simps [simp]:
  "follows_chain CATRODNG_UP" "follows_chain UP_TO_DATE" "\<not> follows_chain AT_TARGET" "\<not> follows_chain State.UNKNOWN"
  "\<not> follows_chain PREGENESIS" "\<not> follows_chain OUT_OF_SYNC" "\<not> follows_chain DISCONNECTED"
  by (simp_all add: follows_chain_def)

lemma follows_chain_has_state: "follows_chain s \<Longrightarrow> has_state s"
  by (auto simp: follows_chain_def)

context rollback_storage
begin

abbreviation "safe cv g \<equiv> gsync cv g \<and> genesis_ok cv g \<and> (follows_chain (gm_state g) \<longrightarrow> cur_state (gcont g) \<noteq> None)"
abbreviation "left cv g \<equiv> commitFailed (transactionManager g) \<or> safe cv g"
abbreviation "updated cv x \<equiv> gsync cv (snd x) \<and> genesis_ok cv (snd x)
  \<and> (\<not> fst x \<longrightarrow> follows_chain (gm_state (snd x)) \<longrightarrow> cur_state (gcont (snd x)) \<noteq> None)"

lemma reinit_safe:
  assumes "gsync cv g" "genesis_ok cv g" "env_ops env = ops" "rpc_ok cv rpc" "initial_ok env cv"
    and r: "ReinitialiseState env rpc g = Some r"
  shows "outcome_safe (safe cv) (left cv) r"
  by (rule outcome_ok_safe, rule outcome_ok_mono [OF reinit_ok [OF assms(1,3-5,2) r]])
    (auto simp: reinit_post_def settled_def dest: follows_chain_has_state split: option.splits)

lemma same_manager_genesis: "\<lbrakk>same_but_manager g g'; genesis_ok cv g\<rbrakk> \<Longrightarrow> genesis_ok cv g'"
  by (cases g; cases g') (simp add: same_but_manager_def genesis_ok_def)

lemma attach_in_state_safe:
  assumes "safe cv g" "env_ops env = ops" "chain_ok cv" and blk: "true_notification env cv blockData h"
  shows "outcome_safe (updated cv) (\<lambda>x. gsync cv (snd x) \<and> genesis_ok cv (snd x))
    (attach_in_state env (cv_parent cv h) h height blockData g)"
proof (cases "follows_chain (gm_state g)")
  case True
  have "outcome_safe (\<lambda>x. updated cv (\<not> fst x \<or> P x, snd x)) (\<lambda>x. gsync cv (snd x) \<and> genesis_ok cv (snd x))
    (UpdateStateForAttach env (cv_parent cv h) h blockData g)" for P
    by (rule outcome_ok_safe, rule outcome_ok_mono [OF update_attach_ok [OF _ assms(2) blk assms(3)]])
      (use assms(1) True in \<open>auto dest: same_manager_genesis\<close>)
  from this [of "\<lambda>x. False"] this [of "\<lambda>x. h = catchingUpTarget (snd x)"] True show ?thesis
    by (auto simp: follows_chain_def attach_in_state_def)
next
  case False
  then show ?thesis
    using assms(1) by (cases "gm_state g") (auto simp: attach_in_state_def intro!: outcome_safe_check)
qed

lemma detach_in_state_safe:
  assumes "safe cv g" "env_ops env = ops" and blk: "true_notification env cv blockData h"
  shows "outcome_safe (updated cv) (\<lambda>x. gsync cv (snd x) \<and> genesis_ok cv (snd x))
    (detach_in_state env (cv_parent cv h) h blockData g)"
proof (cases "follows_chain (gm_state g)")
  case True
  have "outcome_safe (\<lambda>x. updated cv (\<not> fst x \<or> P x, snd x)) (\<lambda>x. gsync cv (snd x) \<and> genesis_ok cv (snd x))
    (UpdateStateForDetach env (cv_parent cv h) h blockData g)" for P
    by (rule outcome_ok_safe, rule outcome_ok_mono [OF update_detach_ok [OF _ assms(2) blk]])
      (use assms(1) True in \<open>auto dest: same_manager_genesis\<close>)
  from this [of "\<lambda>x. False"] this [of "\<lambda>x. cv_parent cv h = catchingUpTarget (snd x)"] True show ?thesis
    by (auto simp: follows_chain_def detach_in_state_def)
next
  case False
  then show ?thesis
    using assms(1) by (cases "gm_state g") (auto simp: detach_in_state_def)
qed

lemma queue_attach_safe:
  assumes "updated cv x" "env_ops env = ops"
  shows "outcome_safe (updated cv) (\<lambda>x. gsync cv (snd x) \<and> genesis_ok cv (snd x)) (queue_attach env h height x)"
proof (cases "pruningQueue (snd x)")
  case (Some q)
  have "outcome_safe (\<lambda>(q', tm'). sync cv tm' \<and> cur_state (cached.tm_cont tm') = cur_state (gcont (snd x)))
    (\<lambda>(q', tm'). sync cv tm') (AttachBlock cops h height (q, transactionManager (snd x)))"
    by (rule prune_attach_keeps) (use assms in simp)
  then show ?thesis
    using Some assms by (auto simp: queue_attach_def genesis_ok_def case_prod_beta elim!: outcome_safe_mono)
qed (use assms in \<open>simp add: queue_attach_def\<close>)

lemma finish_safe:
  assumes "updated cv x" "env_ops env = ops" "rpc_ok cv rpc" "initial_ok env cv"
    and r: "finish_update env rpc reached x = Some r"
  shows "outcome_safe (safe cv) (left cv) r"
proof -
  let ?g = "if reached = targetBlock (snd x) then (snd x)\<lparr>gm_state := AT_TARGET\<rparr> else snd x"
  have g: "gsync cv ?g" "genesis_ok cv ?g" using assms(1) by (simp_all add: genesis_ok_def)
  show ?thesis
  proof (cases "fst x")
    case True
    with r have "ReinitialiseState env rpc ?g = Some r" by (simp add: finish_update_def Let_def)
    then show ?thesis by (rule reinit_safe [OF g assms(2-4)])
  next
    case False
    then have "r = Done ?g" using r by (simp add: finish_update_def Let_def)
    with False assms(1) show ?thesis by (simp add: genesis_ok_def)
  qed
qed

lemma queue_reset_safe: "safe cv g \<Longrightarrow> safe cv (queue_reset g)"
  by (simp add: queue_reset_def genesis_ok_def)

lemma queue_detach_safe: "updated cv x \<Longrightarrow> updated cv (queue_detach x)"
  by (simp add: queue_detach_def genesis_ok_def)

lemma catch_retry_safe:
  "outcome_safe (updated cv) (\<lambda>x. gsync cv (snd x) \<and> genesis_ok cv (snd x)) r
    \<Longrightarrow> outcome_safe (updated cv) (\<lambda>x. False) (catch_retry r)"
  by (cases r) auto

lemma on_pending_safe:
  fixes g :: "('s, 'u) Game"
  assumes "safe cv g"
  shows "outcome_safe (safe cv) (left cv) (on_pending f g)"
proof (cases "gm_pending g")
  case (Some p)
  have "outcome_safe (safe cv) (safe cv) (omap (\<lambda>p. g\<lparr>gm_pending := Some p\<rparr>) (f p))"
    using assms by (cases "f p") (simp_all add: genesis_ok_def)
  moreover have "outcome_safe (safe cv) (left cv) (NotifyPendingStateChange g')" if "safe cv g'"
    for g' :: "('s, 'u) Game"
    using that by (simp add: NotifyPendingStateChange_def ocheck_def genesis_ok_def)
  ultimately have "outcome_safe (safe cv) (left cv) (obind (omap (\<lambda>p. g\<lparr>gm_pending := Some p\<rparr>) (f p)) NotifyPendingStateChange)"
    by (rule outcome_safe_bind [where P = "safe cv" and Q = "safe cv"]) blast+
  with Some show ?thesis by (simp add: on_pending_def)
qed (simp add: on_pending_def)

lemma pending_attach_safe:
  assumes "safe cv g"
  shows "outcome_safe (safe cv) (left cv) (pending_attach env rpc blockData g)"
  using on_pending_safe [OF assms] assms by (cases "current_game_state env g") (simp_all add: pending_attach_def)

lemma pending_detach_safe:
  assumes "safe cv g"
  shows "outcome_safe (safe cv) (left cv) (pending_detach env rpc blockData g)"
  using on_pending_safe [OF assms] assms
  by (cases "do { height \<leftarrow> notification_height blockData; check (height > 0); current_game_state env g }")
    (simp_all add: pending_detach_def)

lemma map_reinit_safe:
  assumes "gsync cv g" "genesis_ok cv g" "env_ops env = ops" "rpc_ok cv rpc" "initial_ok env cv"
    and "map_option (\<lambda>r. obind r f) (ReinitialiseState env rpc g) = Some r"
    and "\<And>g. safe cv g \<Longrightarrow> outcome_safe (safe cv) (left cv) (f g)"
  shows "outcome_safe (safe cv) (left cv) r"
proof -
  obtain r1 where r1: "ReinitialiseState env rpc g = Some r1" "r = obind r1 f" using assms(6) by auto
  show ?thesis unfolding r1(2)
    by (rule outcome_safe_bind [OF reinit_safe [OF assms(1-5) r1(1)] assms(7)]) auto
qed

lemma finish_with_pending_safe:
  assumes "outcome_safe (updated cv) (\<lambda>x. False) r" "env_ops env = ops" "rpc_ok cv rpc" "initial_ok env cv"
    and "(case r of Done x \<Rightarrow> map_option (\<lambda>r. obind r f) (finish_update env rpc reached x)
           | Thrown x \<Rightarrow> Some (Thrown (snd x)) | Aborted \<Rightarrow> Some Aborted) = Some r'"
    and f: "\<And>g. safe cv g \<Longrightarrow> outcome_safe (safe cv) (left cv) (f g)"
  shows "outcome_safe (safe cv) (left cv) r'"
proof (cases r)
  case (Done x)
  then obtain r1 where r1: "finish_update env rpc reached x = Some r1" "r' = obind r1 f" using assms(5) by auto
  have "updated cv x" using Done assms(1) by simp
  from finish_safe [OF this assms(2-4) r1(1)] show ?thesis
    unfolding r1(2) by (rule outcome_safe_bind) (use f in auto)
qed (use assms in auto)

lemma block_attach_safe:
  assumes g: "safe cv g" and env: "env_ops env = ops" "rpc_ok cv rpc" "initial_ok env cv"
    and blk: "true_notification env cv blockData h"
    and r: "BlockAttach env rpc ident blockData seqMismatch g = Some r"
  shows "outcome_safe (safe cv) (left cv) r"
proof (cases "ident = gameId g \<and> gm_state g \<noteq> AT_TARGET")
  case False
  have "notification_block blockData = Some (cv_parent cv h, h)" using blk by (simp add: true_notification_def)
  with False r have "r = Aborted \<or> r = Done g" by (cases "ident = gameId g") (simp_all add: BlockAttach_def)
  with g show ?thesis by (elim disjE) simp_all
next
  case True
  have chain: "chain_ok cv" using env(3) by (simp add: initial_ok_def)
  have nb: "notification_block blockData = Some (cv_parent cv h, h)"
    "notification_height blockData = Some (unat (cv_height cv h))" using blk by (simp_all add: true_notification_def)
  show ?thesis
  proof (cases seqMismatch)
    case seq: True
    have "map_option (\<lambda>r. obind r (\<lambda>g. Done (queue_reset g))) (ReinitialiseState env rpc g) = Some r"
      using r True seq nb by (simp add: BlockAttach_def)
    then show ?thesis by (rule map_reinit_safe [rotated 5]) (use g env queue_reset_safe in auto)
  next
    case False
    have upd: "outcome_safe (updated cv) (\<lambda>x. False) (catch_retry (obind (attach_in_state env (cv_parent cv h) h (unat (cv_height cv h)) blockData g)
        (queue_attach env h (of_nat (unat (cv_height cv h))))))"
      by (rule catch_retry_safe, rule outcome_safe_bind [OF attach_in_state_safe [OF g env(1) chain blk]])
        (rule queue_attach_safe [OF _ env(1)])
    consider "IsReqtokenRelevant blockData g = None" | "IsReqtokenRelevant blockData g = Some False" | "IsReqtokenRelevant blockData g = Some True"
      by (cases "IsReqtokenRelevant blockData g") auto
    then show ?thesis
    proof cases
      case 3
      have "(case catch_retry (obind (attach_in_state env (cv_parent cv h) h (unat (cv_height cv h)) blockData g)
          (queue_attach env h (of_nat (unat (cv_height cv h))))) of
          Done x \<Rightarrow> map_option (\<lambda>r. obind r (pending_attach env rpc blockData)) (finish_update env rpc h x)
        | Thrown x \<Rightarrow> Some (Thrown (snd x)) | Aborted \<Rightarrow> Some Aborted) = Some r"
        using r True False nb 3 by (simp add: BlockAttach_def)
      from finish_with_pending_safe [OF upd env this pending_attach_safe] show ?thesis .
    qed (use r True False nb g in \<open>auto simp: BlockAttach_def\<close>)
  qed
qed

lemma block_detach_safe:
  assumes g: "safe cv g" and env: "env_ops env = ops" "rpc_ok cv rpc" "initial_ok env cv"
    and blk: "true_notification env cv blockData h"
    and r: "BlockDetach env rpc ident blockData seqMismatch g = Some r"
  shows "outcome_safe (safe cv) (left cv) r"
proof (cases "ident = gameId g \<and> gm_state g \<noteq> AT_TARGET")
  case False
  have "notification_block blockData = Some (cv_parent cv h, h)" using blk by (simp add: true_notification_def)
  with False r have "r = Aborted \<or> r = Done g" by (cases "ident = gameId g") (simp_all add: BlockDetach_def)
  with g show ?thesis by (elim disjE) simp_all
next
  case True
  have nb: "notification_block blockData = Some (cv_parent cv h, h)" using blk by (simp add: true_notification_def)
  show ?thesis
  proof (cases seqMismatch)
    case seq: True
    have "map_option (\<lambda>r. obind r (\<lambda>g. Done (queue_reset g))) (ReinitialiseState env rpc g) = Some r"
      using r True seq nb by (simp add: BlockDetach_def)
    then show ?thesis by (rule map_reinit_safe [rotated 5]) (use g env queue_reset_safe in auto)
  next
    case False
    have upd: "outcome_safe (updated cv) (\<lambda>x. False) (catch_retry (omap queue_detach (detach_in_state env (cv_parent cv h) h blockData g)))"
      by (rule catch_retry_safe, unfold outcome_safe_omap, rule outcome_safe_mono [OF detach_in_state_safe [OF g env(1) blk]])
        (auto simp: queue_detach_def genesis_ok_def)
    consider "IsReqtokenRelevant blockData g = None" | "IsReqtokenRelevant blockData g = Some False" | "IsReqtokenRelevant blockData g = Some True"
      by (cases "IsReqtokenRelevant blockData g") auto
    then show ?thesis
    proof cases
      case 3
      have "(case catch_retry (omap queue_detach (detach_in_state env (cv_parent cv h) h blockData g)) of
          Done x \<Rightarrow> map_option (\<lambda>r. obind r (pending_detach env rpc blockData)) (finish_update env rpc (cv_parent cv h) x)
        | Thrown x \<Rightarrow> Some (Thrown (snd x)) | Aborted \<Rightarrow> Some Aborted) = Some r"
        using r True False nb 3 by (simp add: BlockDetach_def)
      from finish_with_pending_safe [OF upd env this pending_detach_safe] show ?thesis .
    qed (use r True False nb g in \<open>auto simp: BlockDetach_def\<close>)
  qed
qed

lemma pending_move_safe:
  assumes "safe cv g"
  shows "outcome_safe (safe cv) (left cv) (PendingMove env rpc ident moves g)"
  using on_pending_safe [OF assms] assms
  by (cases "current_game_state env g") (simp_all add: PendingMove_def ocheck_def)

lemma set_target_safe:
  assumes "safe cv g" "env_ops env = ops" "rpc_ok cv rpc" "initial_ok env cv"
    and r: "SetTargetBlock env rpc blk g = Some r"
  shows "outcome_safe (safe cv) (left cv) r"
proof (cases "gm_state g = DISCONNECTED")
  case False
  with r have "ReinitialiseState env rpc (g\<lparr>targetBlock := blk\<rparr>) = Some r" by (simp add: SetTargetBlock_def)
  then show ?thesis by (rule reinit_safe [rotated 5]) (use assms in \<open>auto simp: genesis_ok_def\<close>)
qed (use r assms in \<open>auto simp: SetTargetBlock_def genesis_ok_def\<close>)

lemma enable_pruning_safe:
  assumes "safe cv g" "env_ops env = ops"
  shows "outcome_safe (safe cv) (\<lambda>g. gsync cv g \<and> genesis_ok cv g) (EnablePruning env n g)"
proof -
  have "outcome_safe (\<lambda>(q', tm'). sync cv tm' \<and> cur_state (cached.tm_cont tm') = cur_state (gcont g)) (\<lambda>(q', tm'). sync cv tm')
      (PruneIfTooLong cops (q\<lparr>nBlocks := n\<rparr>, transactionManager g))" for q
    by (rule too_long_keeps) (use assms in simp)
  then have "outcome_safe (safe cv) (\<lambda>g. gsync cv g \<and> genesis_ok cv g) (omap (\<lambda>y. g\<lparr>pruningQueue := Some (fst y), transactionManager := snd y\<rparr>)
      (SetDesiredSize cops n (q, transactionManager g)))" for q
    unfolding outcome_safe_omap SetDesiredSize_def fst_conv snd_conv
    by (rule outcome_safe_mono) (use assms(1) in \<open>auto simp: genesis_ok_def\<close>)
  then show ?thesis
    using assms by (auto simp: EnablePruning_def ocheck_def genesis_ok_def split: option.splits)
qed

end

section \<open>Runs of a game\<close>

text \<open>
  Where a handler leaves the game: it returns, or an exception ends it, which the subscriber catches.  After
  a failed commit of a batch outside of a transaction the manager takes no further call.
\<close>

definition leaves :: "('s, 'u) Game outcome \<Rightarrow> ('s, 'u) Game \<Rightarrow> bool" where
  "leaves r g \<longleftrightarrow> r = Done g \<or> (r = Thrown g \<and> \<not> commitFailed (transactionManager g))"

inductive game_step :: "('s, 'u) game_env \<Rightarrow> chain_view \<Rightarrow> ('s, 'u) Game \<Rightarrow> ('s, 'u) Game \<Rightarrow> bool" for env cv where
  connected: "\<lbrakk>rpc_ok cv rpc; ReinitialiseState env rpc g = Some r; leaves r g'\<rbrakk> \<Longrightarrow> game_step env cv g g'"
| attached: "\<lbrakk>rpc_ok cv rpc; true_notification env cv blockData h;
      BlockAttach env rpc ident blockData seqMismatch g = Some r; leaves r g'\<rbrakk> \<Longrightarrow> game_step env cv g g'"
| detached: "\<lbrakk>rpc_ok cv rpc; true_notification env cv blockData h;
      BlockDetach env rpc ident blockData seqMismatch g = Some r; leaves r g'\<rbrakk> \<Longrightarrow> game_step env cv g g'"
| moved: "leaves (PendingMove env rpc ident moves g) g' \<Longrightarrow> game_step env cv g g'"
| retargeted: "\<lbrakk>rpc_ok cv rpc; SetTargetBlock env rpc blk g = Some r; leaves r g'\<rbrakk> \<Longrightarrow> game_step env cv g g'"
| pruned: "EnablePruning env n g = Done g' \<Longrightarrow> game_step env cv g g'"
| queried: "\<lbrakk>callback_true (cv_height cv) cb; GetCustomStateData env cb f ex g = Some (j, g')\<rbrakk> \<Longrightarrow> game_step env cv g g'"
| stopped: "game_step env cv g (HasStopped g)"

definition game_run :: "('s, 'u) game_env \<Rightarrow> chain_view \<Rightarrow> ('s, 'u) Game \<Rightarrow> ('s, 'u) Game \<Rightarrow> bool" where
  "game_run env cv = (game_step env cv)\<^sup>*\<^sup>*"

lemma outcome_safe_leaves:
  "\<lbrakk>outcome_safe P Q r; leaves r g; \<And>g. \<lbrakk>Q g; \<not> commitFailed (transactionManager g)\<rbrakk> \<Longrightarrow> P g\<rbrakk> \<Longrightarrow> P g"
  by (auto simp: leaves_def)

text \<open>What a query returns: the members of every query, and those that a current block adds.\<close>

definition query_result ::
    "('s, 'u) Game \<Rightarrow> string \<Rightarrow> string \<Rightarrow> (byte list \<Rightarrow> uint256 \<Rightarrow> u32 \<Rightarrow> json option)
      \<Rightarrow> (uint256 \<times> u32 \<times> byte list) option \<Rightarrow> json option" where
  "query_result g chainStr f ex cur = (let res = [(''gameid'', JString (gameId g)), (''chain'', JString chainStr),
       (''state'', JString (StateToString (gm_state g)))] in
     case cur of
       None \<Rightarrow> Some (json_obj res)
     | Some (h, n, d) \<Rightarrow> map_option (\<lambda>j. json_obj (res @ [(''blockhash'', JString (ToHex h)), (''height'', JUInt (uint n)), (f, j)]))
         (ex d h n))"

context rollback_storage
begin

lemma query_ok:
  assumes g: "gsync cv g" and env: "env_ops env = ops" and cb: "callback_true (cv_height cv) cb"
    and q: "GetCustomStateData env cb f ex g = Some (j, g')"
  shows "gsync cv g'" "gcont g' = gcont g" "rest_same g g' \<and> gm_state g' = gm_state g \<and> genesisHeight g' = genesisHeight g"
    and "\<exists>chainStr. ChainToString (gm_chain g) = Some chainStr
      \<and> (query_result g chainStr f ex (map_option (\<lambda>(h, d). (h, cv_height cv h, d)) (cur_state (gcont g))) = Some j
         \<or> query_result g chainStr f ex None = Some j)"
proof -
  have ok: "cached.tm_ok (transactionManager g)" and idle: "\<not> inTransaction (transactionManager g)"
    "\<not> commitFailed (transactionManager g)" and gd: "gd cv (the (tm_storage (transactionManager g)))"
    using g by (simp_all add: sync_inv_def)
  obtain x where x: "tm_storage (transactionManager g) = Some x" "ok (hc_storage x)"
    using manager_storage [OF ok] by metis
  have inv: "cache_inv (cv_height cv) x (in_txn (hc_storage x)) False"
    using x gd by (simp add: cache_inv_def idle_good_def)
  obtain chainStr where chain: "ChainToString (gm_chain g) = Some chainStr"
    using q by (auto simp: GetCustomStateData_def split: option.splits)
  let ?r = "GetCurrentBlockHashWithHeight ops cb x"
  obtain y where y: "?r = Done y \<or> ?r = Thrown y" "g' = store_cached (fst y) g"
    using q x(1) chain
    by (cases ?r) (auto simp: GetCustomStateData_def game_storage_def env Let_def split: option.splits Option.bind_splits)
  have y1: "hc_storage (fst y) = hc_storage x" "coherent (cv_height cv) contents_of (fst y)"
    using get_height [OF inv cb] y(1) gd x(1) by (auto simp: idle_good_def case_prod_beta)
  have g': "gsync cv g'"
    using ok idle gd x y1 by (simp add: y(2) sync_inv_def store_cached_def manager_ok_def idle_good_def)
  then show "gsync cv g'" .
  show "gcont g' = gcont g" using x y1 by (simp add: y(2) store_cached_def tm_contents_def)
  then have cont: "gcont (store_cached (fst y) g) = gcont g" by (simp add: y(2))
  show "rest_same g g' \<and> gm_state g' = gm_state g \<and> genesisHeight g' = genesisHeight g"
    by (simp add: y(2) store_cached_def rest_same_def)
  have st: "current_game_state env g' = map_option snd (cur_state (gcont g'))"
    using game_reads(2) [OF g'] by (simp add: current_game_state_def env)
  have cx: "cached.tm_cont (transactionManager g) = contents_of (hc_storage x)" using x(1) by (simp add: tm_contents_def)
  show "\<exists>chainStr. ChainToString (gm_chain g) = Some chainStr
      \<and> (query_result g chainStr f ex (map_option (\<lambda>(h, d). (h, cv_height cv h, d)) (cur_state (gcont g))) = Some j
         \<or> query_result g chainStr f ex None = Some j)"
  proof (cases ?r)
    case (Thrown z)
    then show ?thesis using q x(1) chain
      by (simp add: GetCustomStateData_def game_storage_def env Let_def query_result_def)
  next
    case (Done z)
    have z: "snd z = map_option (\<lambda>(h, d). (h, cv_height cv h)) (cur_state (gcont g))" "y = z"
      using get_height [OF inv cb] Done y(1) by (auto simp: cx case_prod_beta)
    show ?thesis
    proof (cases "cur_state (gcont g)")
      case None
      then show ?thesis using q x(1) chain Done z
        by (simp add: GetCustomStateData_def game_storage_def env Let_def query_result_def)
    next
      case (Some e)
      have "current_game_state env (store_cached (fst z) g) = Some (snd e)"
        using st cont Some by (simp add: y(2) z(2))
      then show ?thesis using q x(1) chain Done z Some
        by (cases "ex (snd e) (fst e) (cv_height cv (fst e))")
          (simp_all add: GetCustomStateData_def game_storage_def env Let_def query_result_def case_prod_beta)
    qed
  qed (use q x(1) chain in \<open>simp add: GetCustomStateData_def game_storage_def env Let_def\<close>)
qed

lemma step_safe:
  assumes env: "env_ops env = ops" "initial_ok env cv" and step: "game_step env cv g g'" and g: "safe cv g"
  shows "safe cv g'"
  using step
proof cases
  case (connected rpc r)
  from g have "gsync cv g" "genesis_ok cv g" by blast+
  from reinit_safe [OF this env(1) connected(1) env(2) connected(2)] connected(3) show ?thesis
    by (rule outcome_safe_leaves) blast
next
  case (attached rpc blockData h ident seqMismatch r)
  from block_attach_safe [OF g env(1) attached(1) env(2) attached(2,3)] attached(4) show ?thesis
    by (rule outcome_safe_leaves) blast
next
  case (detached rpc blockData h ident seqMismatch r)
  from block_detach_safe [OF g env(1) detached(1) env(2) detached(2,3)] detached(4) show ?thesis
    by (rule outcome_safe_leaves) blast
next
  case (moved rpc ident moves)
  show ?thesis by (rule outcome_safe_leaves [OF pending_move_safe [OF g] moved]) blast
next
  case (retargeted rpc blk r)
  from set_target_safe [OF g env(1) retargeted(1) env(2) retargeted(2)] retargeted(3) show ?thesis
    by (rule outcome_safe_leaves) blast
next
  case (pruned n)
  with enable_pruning_safe [OF g env(1), of n] show ?thesis by simp
next
  case (queried cb f ex j)
  from query_ok [OF conjunct1 [OF g] env(1) this] g show ?thesis
    by (auto simp: genesis_ok_def rest_same_def)
next
  case stopped
  with g show ?thesis by (simp add: HasStopped_def genesis_ok_def)
qed

lemma run_safe:
  assumes "env_ops env = ops" "initial_ok env cv" "safe cv g" "game_run env cv g g'"
  shows "safe cv g'"
  using assms(4) unfolding game_run_def
  by (induction rule: rtranclp_induct) (use assms step_safe in blast)+

lemma start_safe:
  assumes "ok s" "\<not> in_txn s" "good cv (contents_of s)" "env_ops env = ops"
    and "Game_SetStorage env s n ((new_Game ident)\<lparr>gm_chain := c\<rparr>) = Done g"
  shows "safe cv g"
  using assms(5) assms(1-4)
  by (cases "c = REGTEST") (auto simp: Game_SetStorage_def on_game_manager_def SetStorage_def Flush_def new_Game_def new_TransactionManager_def
      EnableCrossChecks_def Let_def sync_inv_def manager_ok_def idle_good_def coherent_def genesis_ok_def)

end

end
