(* ===== verification/GameProps.thy ===== *)
theory GameProps
  imports GameRun
begin

text \<open>
  The properties of the synchronisation, and a small game on the SQLite storage as their instance: its state
  is a list of bytes to which every block adds one, on a chain of two blocks.
\<close>

section \<open>An instance\<close>

definition demo_caching :: CachingGame where
  "demo_caching = \<lparr>caching_initial = (\<lambda>ctx. Some (0, [], [0])), UpdateState = (\<lambda>ctx st blk. Some (st @ [1]))\<rparr>"

definition sync_env :: "(unit savepoints SQLiteStorage, unit) game_env" where
  "sync_env = \<lparr>env_ops = SQLiteStorage_ops ref_api, env_sha = (\<lambda>bs. SetNull),
     env_processor = \<lparr>gp_chain = REGTEST, gp_gameId = ''demo'', gp_rpc = True\<rparr>, env_rules = CachingGame_rules demo_caching,
     env_pending = \<lparr>pend_Clear = (\<lambda>u. u), pend_AddPendingMove = (\<lambda>st blk mv u. Some u), pend_ToJson = (\<lambda>u. Some JNull)\<rparr>\<rparr>"

definition demo_chain :: chain_view where
  "demo_chain = \<lparr>cv_genesis = demo_block 1, cv_initial = [0],
     cv_parent = (\<lambda>h. if h = demo_block 2 then demo_block 1 else demo_block 0),
     cv_height = (\<lambda>h. if h = demo_block 2 then 1 else 0), cv_forward = (\<lambda>h d. (d @ [1], d))\<rparr>"

definition demo_rpc :: "nat \<Rightarrow> rpc_replies" where
  "demo_rpc n = \<lparr>rpc_getblockchaininfo = Some (JObject [(''bestblockhash'', JString (ToHex (demo_block n))), (''blocks'', JInt 0)]),
     rpc_getblockhash = (\<lambda>k. Some (ToHex (demo_block 1))), rpc_game_sendupdates = (\<lambda>s. None), rpc_getrawmempool = None\<rparr>"

definition demo_notification :: json where
  "demo_notification = JObject [(''block'', JObject [(''hash'', JString (ToHex (demo_block 2))), (''height'', JInt 1),
     (''parent'', JString (ToHex (demo_block 1))), (''rngseed'', JString (ToHex SetNull))])]"

lemma demo_wf: "n < 256 \<Longrightarrow> uint256_wf (demo_block n)" "uint256_wf SetNull"
  by (simp_all add: demo_block_def uint256_wf_def SetNull_def NUM_BYTES_def)

lemma demo_hex: "FromHex (ToHex (demo_block 1)) v = (True, demo_block 1)" "FromHex (ToHex (demo_block 2)) v = (True, demo_block 2)"
  "FromHex (ToHex SetNull) v = (True, SetNull)"
  by (simp_all add: hex_roundtrip demo_wf)

lemmas demo_hex_simps = demo_hex demo_hex(1) [unfolded One_nat_def]

lemma demo_before: "true_state demo_chain h d \<Longrightarrow> h \<noteq> demo_block 0"
  by (induction rule: true_state.induct) (use demo_block_neq in \<open>auto simp: demo_chain_def split: if_splits\<close>)

lemma demo_chain_ok: "chain_ok demo_chain"
  using demo_before demo_block_neq by (auto simp: chain_ok_def demo_wf demo_chain_def)

lemma demo_initial: "initial_ok sync_env demo_chain"
  using demo_chain_ok demo_block_neq
  by (auto simp: initial_ok_def GetInitialState_def GetGameId_def sync_env_def demo_chain_def demo_caching_def
      CachingGame_rules_def)

lemma demo_rpc_ok: "rpc_ok demo_chain (demo_rpc 1)" "rpc_ok demo_chain (demo_rpc 2)"
  using demo_block_neq
  by (auto simp: rpc_ok_def demo_rpc_def demo_chain_def json_at_def member_def parse_hash_def asString_def as_unsigned_def
      asUInt_def demo_hex_simps Let_def)

lemma demo_rng: "BlockRngSeed sha ''demo'' demo_notification = Some (sha (string_bytes ''block'' @ string_bytes ''demo'' @ GetBinaryString SetNull))"
  by (simp add: BlockRngSeed_def demo_notification_def json_at_def member_def isObject_def isString_def asString_def demo_hex_simps Let_def)

lemma demo_true: "true_notification sync_env demo_chain demo_notification (demo_block 2)"
  using demo_block_neq
  by (simp add: true_notification_def notification_block_def notification_height_def demo_wf ProcessForward_def ProcessBackwards_def
      GetGameId_def demo_rng sync_env_def demo_caching_def CachingGame_rules_def CachingGame_ProcessForwardInternal_def
      CachingGame_ProcessBackwardsInternal_def demo_chain_def IsReqtokenRelevant_def isMember_def)
    (simp add: demo_notification_def json_at_def member_def isObject_def parse_hash_def asString_def as_unsigned_def asUInt_def
      demo_hex_simps Let_def)

definition demo_start :: "(unit savepoints SQLiteStorage, unit) Game" where
  "demo_start = (case Game_SetStorage sync_env new_SQLiteStorage 0 ((new_Game ''demo'')\<lparr>gm_chain := MAIN\<rparr>) of
     Done g \<Rightarrow> g | _ \<Rightarrow> new_Game [])"

lemma demo_start: "Game_SetStorage sync_env new_SQLiteStorage 0 ((new_Game ''demo'')\<lparr>gm_chain := MAIN\<rparr>) = Done demo_start"
  by (simp add: demo_start_def Game_SetStorage_def on_game_manager_def SetStorage_def Flush_def new_Game_def new_TransactionManager_def)

text \<open>The game with tables in its database, in a state.\<close>

definition demo_tables :: "nat \<Rightarrow> byte list \<Rightarrow> (uint256 \<times> (byte list \<times> int)) list \<Rightarrow> sql_tables" where
  "demo_tables n d u = \<lparr>spacexpansegame_current = [(''blockhash'', GetBinaryString (demo_block n)), (''gamestate'', d)],
     spacexpansegame_undo = u\<rparr>"

definition demo_game :: "sql_tables \<Rightarrow> u32 \<Rightarrow> (unit savepoints SQLiteStorage, unit) Game" where
  "demo_game t n = demo_start\<lparr>gm_state := UP_TO_DATE, genesisHeight := 0, genesisHash := demo_block 1,
     transactionManager := \<lparr>tm_storage = Some \<lparr>hc_storage = \<lparr>sql_db = Some \<lparr>sp_durable = t, sp_now = t, sp_stack = []\<rparr>,
         startedTransaction = False\<rparr>, crossCheck = False, cachedHeight = n, hasHeight = True\<rparr>,
       batchSize = 1, batchedCommits = 0, inTransaction = False, commitFailed = False\<rparr>\<rparr>"

lemma demo_names: "sp_name \<noteq> sp_set_name" by (simp add: sp_name_def sp_set_name_def)

lemmas demo_simps = sync_env_def Let_def on_game_manager_def on_storage_def on_manager_def SQLiteStorage_ops_def HeightCache_ops_def
  HeightCache_Clear_def on_cached_def on_db_def ref_api_def SQLite_Clear_def SQLite_BeginTransaction_def SQLite_CommitTransaction_def
  SQLite_SetCurrentGameState_def SetCurrentGameStateWithHeight_def sp_savepoint_def sp_release_def sp_execute_def demo_names
  in_transaction_def TM_BeginTransaction_def TM_CommitTransaction_def Flush_def SetBatchSize_def new_savepoints_def new_tables_def
  insert_current_def game_storage_def new_Game_def new_TransactionManager_def

lemma demo_stored:
  assumes "sql_db s = Some c" "sp_stack c = []" "sp_now c = new_tables" "\<not> startedTransaction s"
  shows "store_once (env_ops sync_env) (demo_block 1) 0 [0] ((), \<lparr>tm_storage = Some \<lparr>hc_storage = s, crossCheck = False, cachedHeight = n, hasHeight = b\<rparr>,
      batchSize = 1, batchedCommits = 0, inTransaction = False, commitFailed = False\<rparr>)
    = Done ((), transactionManager (demo_game (demo_tables 1 [0] []) 0))"
  using assms by (simp add: store_once_def demo_simps demo_game_def demo_tables_def)

lemma demo_target: "demo_block (Suc 0) \<noteq> SetNull"
  by (simp add: demo_block_def SetNull_def NUM_BYTES_def numeral_eq_Suc)

lemma demo_target2: "demo_block 2 \<noteq> SetNull"
  by (simp add: demo_block_def SetNull_def NUM_BYTES_def numeral_eq_Suc)

lemma demo_retry: "f x = Done y \<Longrightarrow> retry f x = Some (Done y)"
  by (simp add: retry_def while_option_unfold)

lemma demo_reinit: "ReinitialiseState sync_env (demo_rpc 1) demo_start = Some (Done (demo_game (demo_tables 1 [0] []) 0))"
proof -
  let ?tm = "\<lambda>c. \<lparr>tm_storage = Some \<lparr>hc_storage = \<lparr>sql_db = Some c, startedTransaction = False\<rparr>, crossCheck = False, cachedHeight = 0, hasHeight = False\<rparr>,
      batchSize = 1, batchedCommits = 0, inTransaction = False, commitFailed = False\<rparr>"
  let ?g = "demo_start\<lparr>gm_state := State.UNKNOWN, genesisHeight := 0\<rparr>"
  have start: "transactionManager demo_start = ?tm new_savepoints" "genesisHeight demo_start = -1"
    "transactionBatchSize demo_start = 1000" "targetBlock demo_start = SetNull"
    by (simp_all add: demo_start_def Game_SetStorage_def on_game_manager_def SetStorage_def Flush_def new_Game_def
      new_TransactionManager_def new_SQLiteStorage_def)
  have init: "GetInitialState (env_sha sync_env) (env_processor sync_env) (env_rules sync_env) = Some (0, [], [0])"
    by (simp add: GetInitialState_def GetGameId_def sync_env_def demo_caching_def CachingGame_rules_def)
  have clear: "clear_storage sync_env ?g = Done ?g"
    by (simp add: clear_storage_def TryAbortTransaction_def demo_simps start)
  have st: "store_genesis (env_ops sync_env) (demo_block 1) 0 [0] ((), transactionManager ?g)
      = Some (Done ((), transactionManager (demo_game (demo_tables 1 [0] []) 0)))"
    unfolding store_genesis_def
    by (rule demo_retry) (simp add: start new_savepoints_def demo_stored [unfolded One_nat_def])
  have sync: "SyncFromCurrentState sync_env (demo_rpc 1) (the (rpc_getblockchaininfo (demo_rpc 1))) (demo_block 1)
      (?g\<lparr>genesisHash := demo_block 1, transactionManager := transactionManager (demo_game (demo_tables 1 [0] []) 0), gm_state := OUT_OF_SYNC\<rparr>)
    = Done (demo_game (demo_tables 1 [0] []) 0)"
    by (simp add: SyncFromCurrentState_def start demo_rpc_def json_at_def member_def parse_hash_def asString_def demo_hex_simps
      demo_target demo_simps demo_game_def)
  have empty: "Option.bind (game_storage (demo_start\<lparr>gm_state := State.UNKNOWN\<rparr>)) (op_GetCurrentBlockHash (HeightCache_ops (env_ops sync_env))) = None"
    by (simp add: game_storage_def start HeightCache_ops_def sync_env_def SQLiteStorage_ops_def SQLite_GetCurrentBlockHash_def
      read_current_def ref_api_def new_savepoints_def new_tables_def)
  have "find_genesis sync_env (demo_start\<lparr>gm_state := State.UNKNOWN\<rparr>) = Some ?g"
    by (simp add: find_genesis_def start init)
  moreover have "store_initial sync_env (demo_rpc 1) (the (rpc_getblockchaininfo (demo_rpc 1))) ?g
      = Some (Done (demo_game (demo_tables 1 [0] []) 0))"
    using clear init st sync
    by (simp add: store_initial_def start demo_rpc_def find_genesis_hash_def demo_hex_simps Let_def)
  ultimately show ?thesis using empty
    by (simp add: ReinitialiseState_def game_storage_def start demo_rpc_def json_at_def member_def as_unsigned_def asUInt_def)
qed

lemma demo_attach:
  "BlockAttach sync_env (demo_rpc 2) ''demo'' demo_notification False (demo_game (demo_tables 1 [0] []) 0)
    = Some (Done (demo_game (demo_tables 2 [0, 1] [(demo_block 2, ([0], 1))]) 1))"
proof -
  let ?g = "demo_game (demo_tables 1 [0] []) 0" and ?g' = "demo_game (demo_tables 2 [0, 1] [(demo_block 2, ([0], 1))]) 1"
  have fields: "gm_state ?g = UP_TO_DATE" "pruningQueue ?g' = None" "gm_pending ?g' = None" "gameId ?g = ''demo''" "targetBlock ?g' = SetNull"
    by (simp_all add: demo_game_def demo_start_def Game_SetStorage_def on_game_manager_def SetStorage_def Flush_def new_Game_def
      new_TransactionManager_def)
  have note1: "notification_block demo_notification = Some (demo_block 1, demo_block 2)" "notification_height demo_notification = Some 1"
    "isObject demo_notification" "isObject (member demo_notification ''block'')"
    "as_unsigned (member (member demo_notification ''block'') ''height'') = Some 1"
    using demo_true header_height [OF demo_true] demo_block_neq by (simp_all add: true_notification_def demo_chain_def)
  have reads: "Option.bind (game_storage ?g) (op_GetCurrentBlockHash (HeightCache_ops (env_ops sync_env))) = Some (demo_block 1)"
    "Option.bind (game_storage ?g) (op_GetCurrentGameState (HeightCache_ops (env_ops sync_env))) = Some [0]"
    by (simp_all add: game_storage_def demo_game_def HeightCache_ops_def sync_env_def SQLiteStorage_ops_def SQLite_GetCurrentBlockHash_def
      SQLite_GetCurrentGameState_def read_current_def ref_api_def demo_tables_def FromBlob_data demo_wf)
  have demo_relevant: "IsReqtokenRelevant demo_notification ?g = Some True"
    by (simp add: IsReqtokenRelevant_def fields del: One_nat_def) (simp add: isMember_def demo_notification_def)
  have upd: "UpdateStateForAttach sync_env (demo_block 1) (demo_block 2) demo_notification ?g = Done (True, ?g')"
  proof -
    have fwd: "ProcessForward (env_sha sync_env) (env_processor sync_env) (env_rules sync_env) [0] demo_notification = Some ([0, 1], [0])"
      by (simp add: ProcessForward_def GetGameId_def demo_rng sync_env_def demo_caching_def CachingGame_rules_def
        CachingGame_ProcessForwardInternal_def)
    have "in_transaction (HeightCache_ops (env_ops sync_env)) (attach_update sync_env (demo_block 2) 1 [0] demo_notification)
        ((), transactionManager ?g) = Done ((), transactionManager ?g')"
      unfolding attach_update_def fwd option.case prod.case
      by (simp add: demo_simps SQLite_AddUndoData_def demo_game_def demo_tables_def)
    then show ?thesis
      by (simp add: UpdateStateForAttach_def reads [unfolded One_nat_def] note1 [unfolded One_nat_def])
        (simp add: demo_game_def)
  qed
  show ?thesis
    using fields note1 upd demo_target demo_target2
    by (simp add: BlockAttach_def demo_relevant [unfolded One_nat_def] attach_in_state_def queue_attach_def finish_update_def pending_attach_def)
qed

text \<open>The run that connects, stores the initial state and attaches a block.\<close>

lemma demo_run: "game_run sync_env demo_chain demo_start (demo_game (demo_tables 1 [0] []) 0)"
  "game_run sync_env demo_chain demo_start (demo_game (demo_tables 2 [0, 1] [(demo_block 2, ([0], 1))]) 1)"
proof -
  have c: "game_step sync_env demo_chain demo_start (demo_game (demo_tables 1 [0] []) 0)"
    by (rule game_step.connected [OF demo_rpc_ok(1) demo_reinit]) (simp add: leaves_def)
  then show "game_run sync_env demo_chain demo_start (demo_game (demo_tables 1 [0] []) 0)"
    by (simp add: game_run_def)
  moreover have "game_step sync_env demo_chain (demo_game (demo_tables 1 [0] []) 0)
      (demo_game (demo_tables 2 [0, 1] [(demo_block 2, ([0], 1))]) 1)"
    by (rule game_step.attached [OF demo_rpc_ok(2) demo_true demo_attach]) (simp add: leaves_def)
  ultimately show "game_run sync_env demo_chain demo_start (demo_game (demo_tables 2 [0, 1] [(demo_block 2, ([0], 1))]) 1)"
    by (simp add: game_run_def)
qed

lemma sync_demo_good: "good demo_chain (sqlite_contents (\<lambda>c. c) new_SQLiteStorage)"
  by (simp add: good_def sqlite_contents_def sqlite_state_def new_SQLiteStorage_def new_savepoints_def new_tables_def
      tables_contents_def)

lemma demo_opened: "\<not> startedTransaction new_SQLiteStorage" "env_ops sync_env = SQLiteStorage_ops ref_api"
  by (simp_all add: new_SQLiteStorage_def sync_env_def)

lemmas demo_args = sqlite.rollback_storage_axioms demo_opened(2) demo_initial new_sqlite_inv demo_opened(1) sync_demo_good demo_start

lemma demo_reads:
  "Option.bind (game_storage (demo_game (demo_tables k d u) n)) (op_GetCurrentBlockHash (HeightCache_ops (SQLiteStorage_ops ref_api)))
    = Some (FromBlob (GetBinaryString (demo_block k)))"
  "current_game_state sync_env (demo_game (demo_tables k d u) n) = Some d"
  "FromBlob (GetBinaryString (demo_block 1)) = demo_block 1" "FromBlob (GetBinaryString (demo_block (Suc 0))) = demo_block (Suc 0)"
  "FromBlob (GetBinaryString (demo_block 2)) = demo_block 2"
  by (simp_all add: game_storage_def demo_game_def HeightCache_ops_def sync_env_def SQLiteStorage_ops_def SQLite_GetCurrentBlockHash_def
      SQLite_GetCurrentGameState_def read_current_def ref_api_def demo_tables_def FromBlob_data demo_wf current_game_state_def)

lemma demo_chain_name: "ChainToString (gm_chain (demo_game t n)) = Some ''main''"
  by (simp add: demo_game_def demo_start_def Game_SetStorage_def on_game_manager_def SetStorage_def Flush_def new_Game_def
      new_TransactionManager_def ChainToString_def CHAIN_NAMES_def)

lemma demo_storage: "game_storage (demo_game t n) = Some \<lparr>hc_storage = \<lparr>sql_db = Some \<lparr>sp_durable = t, sp_now = t, sp_stack = []\<rparr>,
         startedTransaction = False\<rparr>, crossCheck = False, cachedHeight = n, hasHeight = True\<rparr>"
  by (simp add: game_storage_def demo_game_def)

section \<open>What holds on every run\<close>

text \<open>A commit that fails outside of a transaction.\<close>

lemma on_storage_fields:
  "on_storage f tm = Thrown tm' \<Longrightarrow> batchedCommits tm' = batchedCommits tm \<and> inTransaction tm' = inTransaction tm"
  by (auto simp: on_storage_def split: option.splits outcome.splits)

lemma batch_thrown:
  assumes "SetBatchSize ops sz tm = Thrown tm'"
  shows "commitFailed tm'" "batchedCommits tm' > 0" "\<not> inTransaction tm'"
proof -
  have "Flush ops (tm\<lparr>batchSize := sz\<rparr>) = Thrown tm'"
    using assms by (cases "sz \<ge> 1") (auto simp: SetBatchSize_def Let_def split: if_splits)
  then have "\<not> inTransaction tm" "batchedCommits tm > 0"
    and "\<exists>t. on_storage (op_CommitTransaction ops) (tm\<lparr>batchSize := sz\<rparr>) = Thrown t \<and> tm' = t\<lparr>commitFailed := True\<rparr>"
    by (cases "inTransaction tm"; cases "commitFailed tm";
        auto simp: Flush_def split: if_splits outcome.splits; cases "on_storage (op_CommitTransaction ops) (tm\<lparr>batchSize := sz\<rparr>)"; simp)+
  then show "commitFailed tm'" "batchedCommits tm' > 0" "\<not> inTransaction tm'"
    by (auto dest: on_storage_fields)
qed

lemma omap_Done: "omap f r = Done y \<longleftrightarrow> (\<exists>x. r = Done x \<and> y = f x)"
  by (cases r) auto

lemma attach_result:
  assumes "UpdateStateForAttach env p h blockData g = Done (b, g')"
    and "Option.bind (game_storage g) (op_GetCurrentBlockHash (HeightCache_ops (env_ops env))) = Some p"
  shows "b"
  using assms unfolding UpdateStateForAttach_def Let_def
  by (auto simp: omap_Done split: option.splits prod.splits)

lemma detach_result:
  assumes "UpdateStateForDetach env p h blockData g = Done (b, g')"
    and "Option.bind (game_storage g) (op_GetCurrentBlockHash (HeightCache_ops (env_ops env))) = Some h"
    and "Option.bind (game_storage g) (op_GetUndoData (HeightCache_ops (env_ops env)) h) = Some u"
  shows "b"
  using assms unfolding UpdateStateForDetach_def Let_def
  by (auto simp: omap_Done split: option.splits)

context rollback_storage
begin

lemma run_reads:
  assumes "env_ops env = ops" and "initial_ok env cv" and "ok s" and "\<not> in_txn s" and "good cv (contents_of s)"
    and "Game_SetStorage env s n ((new_Game ident)\<lparr>gm_chain := c\<rparr>) = Done g0" and "game_run env cv g0 g"
  shows "gsync cv g" "genesis_ok cv g" "follows_chain (gm_state g) \<longrightarrow> cur_state (gcont g) \<noteq> None" "good cv (gcont g)"
    "Option.bind (game_storage g) (op_GetCurrentBlockHash cops) = map_option fst (cur_state (gcont g))"
    "Option.bind (game_storage g) (op_GetUndoData cops h) = map_option snd (cur_undo (gcont g) h)"
    "current_game_state env g = map_option snd (cur_state (gcont g))"
proof -
  have s: "safe cv g" using run_safe [OF assms(1,2) start_safe [OF assms(3-5,1,6)] assms(7)] .
  then show "gsync cv g" "genesis_ok cv g" "follows_chain (gm_state g) \<longrightarrow> cur_state (gcont g) \<noteq> None" by blast+
  from game_reads [OF this(1)] assms(1)
  show "good cv (gcont g)" "Option.bind (game_storage g) (op_GetCurrentBlockHash cops) = map_option fst (cur_state (gcont g))"
    "Option.bind (game_storage g) (op_GetUndoData cops h) = map_option snd (cur_undo (gcont g) h)"
    "current_game_state env g = map_option snd (cur_state (gcont g))"
    by (simp_all add: current_game_state_def)
qed

lemma good_current: "\<lbrakk>good cv c; cur_state c = Some (h, d)\<rbrakk> \<Longrightarrow> true_state cv h d \<and> uint256_wf h"
  by (simp add: good_def)

lemma run_true:
  assumes "env_ops env = ops" and "initial_ok env cv" and "ok s" and "\<not> in_txn s" and "good cv (contents_of s)"
    and "Game_SetStorage env s n ((new_Game ident)\<lparr>gm_chain := c\<rparr>) = Done g0" and "game_run env cv g0 g"
  shows "(case Option.bind (game_storage g) (op_GetCurrentBlockHash cops) of
      None \<Rightarrow> \<not> follows_chain (gm_state g)
    | Some h \<Rightarrow> \<exists>d. current_game_state env g = Some d \<and> true_state cv h d)
    \<and> (\<forall>h u. Option.bind (game_storage g) (op_GetUndoData cops h) = Some u \<longrightarrow> true_undo cv h u)"
proof -
  note reads = run_reads [OF assms]
  have undo: "\<forall>h u. Option.bind (game_storage g) (op_GetUndoData cops h) = Some u \<longrightarrow> true_undo cv h u"
    using reads(4) by (auto simp: reads(6) good_def)
  show ?thesis
  proof (cases "cur_state (gcont g)")
    case None
    then show ?thesis using reads(3) undo by (auto simp: reads(5))
  next
    case (Some e)
    then show ?thesis using good_current [OF reads(4), of "fst e" "snd e"] undo by (simp add: reads(5,7))
  qed
qed

lemma run_settles:
  assumes "env_ops env = ops" and "initial_ok env cv" and "ok s" and "\<not> in_txn s" and "good cv (contents_of s)"
    and "Game_SetStorage env s n ((new_Game ident)\<lparr>gm_chain := c\<rparr>) = Done g0" and "game_run env cv g0 g"
    and "rpc_ok cv rpc" and "ReinitialiseState env rpc g = Some r"
  shows "outcome_ok (\<lambda>g'. case Option.bind (game_storage g') (op_GetCurrentBlockHash cops) of
      None \<Rightarrow> gm_state g' = PREGENESIS
    | Some h \<Rightarrow> settled rpc g' h) (\<lambda>g'. True) r"
proof (rule outcome_ok_mono [OF reinit_ok [OF run_reads(1) [OF assms(1-7)] assms(1,8,2) run_reads(2) [OF assms(1-7)] assms(9)]])
  fix g' assume g': "gsync cv g' \<and> reinit_post cv rpc (\<lambda>x. contents_of (hc_storage x)) g' \<and> rest_same g g'"
  then have "Option.bind (game_storage g') (op_GetCurrentBlockHash cops) = map_option fst (cur_state (gcont g'))"
    by (intro game_reads(1)) blast
  with g' show "case Option.bind (game_storage g') (op_GetCurrentBlockHash cops) of
      None \<Rightarrow> gm_state g' = PREGENESIS | Some h \<Rightarrow> settled rpc g' h"
    by (cases "cur_state (gcont g')") (auto simp: reinit_post_def)
qed simp

lemma run_query:
  assumes "env_ops env = ops" and "initial_ok env cv" and "ok s" and "\<not> in_txn s" and "good cv (contents_of s)"
    and "Game_SetStorage env s n ((new_Game ident)\<lparr>gm_chain := c\<rparr>) = Done g0" and "game_run env cv g0 g"
    and "callback_true (cv_height cv) cb" and "GetCustomStateData env cb f ex g = Some (j, g')"
  shows "\<exists>chainStr cur. query_result g chainStr f ex cur = Some j
    \<and> (\<forall>h m d. cur = Some (h, m, d) \<longrightarrow> m = cv_height cv h \<and> true_state cv h d \<and> uint256_wf h
        \<and> Option.bind (game_storage g) (op_GetCurrentBlockHash cops) = Some h)"
proof -
  note reads = run_reads [OF assms(1-7)]
  let ?cur = "map_option (\<lambda>(h, d). (h, cv_height cv h, d)) (cur_state (gcont g))"
  obtain chainStr where "query_result g chainStr f ex ?cur = Some j \<or> query_result g chainStr f ex None = Some j"
    using query_ok(4) [OF reads(1) assms(1,8,9)] by blast
  then obtain cur where cur: "query_result g chainStr f ex cur = Some j" "cur = ?cur \<or> cur = None" by blast
  have "m = cv_height cv h \<and> true_state cv h d \<and> uint256_wf h \<and> Option.bind (game_storage g) (op_GetCurrentBlockHash cops) = Some h"
    if c: "?cur = Some (h, m, d)" for h m d
  proof -
    obtain d' where "cur_state (gcont g) = Some (h, d')" "m = cv_height cv h" "d = d'" using c by auto
    with good_current [OF reads(4)] show ?thesis by (simp add: reads(5))
  qed
  then have "\<forall>h m d. cur = Some (h, m, d) \<longrightarrow> m = cv_height cv h \<and> true_state cv h d \<and> uint256_wf h
      \<and> Option.bind (game_storage g) (op_GetCurrentBlockHash cops) = Some h"
    using cur(2) by (elim disjE) simp_all
  with cur(1) show ?thesis by blast
qed

lemma run_attach:
  assumes "env_ops env = ops" and "initial_ok env cv" and "ok s" and "\<not> in_txn s" and "good cv (contents_of s)"
    and "Game_SetStorage env s n ((new_Game ident)\<lparr>gm_chain := c\<rparr>) = Done g0" and "game_run env cv g0 g"
    and "Option.bind (game_storage g) (op_GetCurrentBlockHash cops) = Some k" and "true_notification env cv blockData h"
  shows "outcome_ok (\<lambda>(b, g'). (b \<longleftrightarrow> cv_parent cv h = k) \<and> (if b then
        Option.bind (game_storage g') (op_GetCurrentBlockHash cops) = Some h
        \<and> (\<exists>d. current_game_state env g' = Some d \<and> true_state cv h d) else g' = g))
    (\<lambda>(b, g'). True) (UpdateStateForAttach env (cv_parent cv h) h blockData g)"
proof (cases "cv_parent cv h = k")
  case False
  then show ?thesis using assms(1,8) by (simp add: UpdateStateForAttach_def)
next
  case True
  note reads = run_reads [OF assms(1-7)]
  have "chain_ok cv" using assms(2) by (simp add: initial_ok_def)
  have cur: "cur_state (gcont g) \<noteq> None" using assms(8) by (auto simp: reads(5))
  have ok: "outcome_ok (\<lambda>(b, g'). same_but_manager g g' \<and> gsync cv g' \<and> (if b then \<exists>d. cur_state (gcont g') = Some (h, d) else g' = g))
      (\<lambda>(b, g'). same_but_manager g g' \<and> gsync cv g') (UpdateStateForAttach env (cv_parent cv h) h blockData g)"
    by (rule update_attach_ok [OF reads(1) assms(1,9) \<open>chain_ok cv\<close> cur])
  have b: "b" if "UpdateStateForAttach env (cv_parent cv h) h blockData g = Done (b, g')" for b g'
    by (rule attach_result [OF that]) (use True assms(1,8) in simp)
  show ?thesis
  proof (cases "UpdateStateForAttach env (cv_parent cv h) h blockData g")
    case (Done x)
    then obtain b g' where x: "x = (b, g')" by (cases x)
    have "b" by (rule b) (use Done x in simp)
    then obtain d where g': "gsync cv g'" "cur_state (gcont g') = Some (h, d)" using ok Done x by auto
    with game_reads [OF g'(1)] good_current [OF _ g'(2), of cv] \<open>b\<close> show ?thesis
      using Done x True assms(1) by (simp add: current_game_state_def)
  qed (use ok in simp_all)
qed

lemma run_detach:
  assumes "env_ops env = ops" and "initial_ok env cv" and "ok s" and "\<not> in_txn s" and "good cv (contents_of s)"
    and "Game_SetStorage env s n ((new_Game ident)\<lparr>gm_chain := c\<rparr>) = Done g0" and "game_run env cv g0 g"
    and "Option.bind (game_storage g) (op_GetCurrentBlockHash cops) = Some k" and "true_notification env cv blockData h"
  shows "outcome_ok (\<lambda>(b, g'). if b then h = k
        \<and> Option.bind (game_storage g') (op_GetCurrentBlockHash cops) = Some (cv_parent cv h)
        \<and> (\<exists>d. current_game_state env g' = Some d \<and> true_state cv (cv_parent cv h) d)
      else if h \<noteq> k then g' = g
      else Option.bind (game_storage g) (op_GetUndoData cops h) = None
        \<and> Option.bind (game_storage g') (op_GetCurrentBlockHash cops) = None)
    (\<lambda>(b, g'). True) (UpdateStateForDetach env (cv_parent cv h) h blockData g)"
proof (cases "h = k")
  case False
  then show ?thesis using assms(1,8) by (simp add: UpdateStateForDetach_def)
next
  case True
  note reads = run_reads [OF assms(1-7)]
  have cur: "cur_state (gcont g) \<noteq> None" using assms(8) by (auto simp: reads(5))
  show ?thesis
  proof (cases "Option.bind (game_storage g) (op_GetUndoData cops h)")
    case None
    have "cached.tm_ok (transactionManager g)" using reads(1) by (simp add: sync_inv_def)
    from clear_ok [OF this assms(1), of cv] obtain g' where
      g': "clear_storage env g = Done g'" "gsync cv g'" "gcont g' = no_contents" .
    then show ?thesis
      using None True assms(1,8) game_reads(1) [OF g'(2)] by (simp add: UpdateStateForDetach_def no_contents_def)
  next
    case (Some u)
    have ok: "outcome_ok (\<lambda>(b, g'). same_but_manager g g' \<and> gsync cv g' \<and> (b \<longrightarrow> (\<exists>d. cur_state (gcont g') = Some (cv_parent cv h, d))))
        (\<lambda>(b, g'). same_but_manager g g' \<and> gsync cv g') (UpdateStateForDetach env (cv_parent cv h) h blockData g)"
      by (rule update_detach_ok [OF reads(1) assms(1,9) cur])
    have b: "b" if "UpdateStateForDetach env (cv_parent cv h) h blockData g = Done (b, g')" for b g'
      by (rule detach_result [OF that]) (use True assms(1,8) Some in simp_all)
    show ?thesis
    proof (cases "UpdateStateForDetach env (cv_parent cv h) h blockData g")
      case (Done x)
      then obtain b g' where x: "x = (b, g')" by (cases x)
      have "b" by (rule b) (use Done x in simp)
      then obtain d where g': "gsync cv g'" "cur_state (gcont g') = Some (cv_parent cv h, d)" using ok Done x by auto
      with game_reads [OF g'(1)] good_current [OF _ g'(2), of cv] \<open>b\<close> show ?thesis
        using Done x True assms(1) by (simp add: current_game_state_def)
    qed (use ok in simp_all)
  qed
qed

end

section \<open>Properties\<close>

text \<open>
  C1: The state of a game is always a true one.  On any storage that keeps the contract, and whatever the
  order of connections, notifications about blocks of the chain (also missed, repeated or irrelevant ones),
  pending moves, target blocks, pruning, queries and exceptions: the current state in the storage is the
  result of processing all blocks from the genesis block to the current one, all undo data belongs to such
  a step, and there is a current state whenever notifications are applied to it.
\<close>

theorem stored_state_true:
  assumes "rollback_storage ops ok in_txn rollable contents_of base" and "env_ops env = ops" and "initial_ok env cv"
    and "ok s" and "\<not> in_txn s" and "good cv (contents_of s)"
    and "Game_SetStorage env s n ((new_Game ident)\<lparr>gm_chain := c\<rparr>) = Done g0" and "game_run env cv g0 g"
  shows "(case Option.bind (game_storage g) (op_GetCurrentBlockHash (HeightCache_ops ops)) of
      None \<Rightarrow> \<not> follows_chain (gm_state g)
    | Some h \<Rightarrow> \<exists>d. current_game_state env g = Some d \<and> true_state cv h d)
    \<and> (\<forall>h u. Option.bind (game_storage g) (op_GetUndoData (HeightCache_ops ops) h) = Some u \<longrightarrow> true_undo cv h u)"
  by (rule rollback_storage.run_true [OF assms])

theorem stored_state_true_witness:
  "\<exists>d. current_game_state sync_env (demo_game (demo_tables 2 [0, 1] [(demo_block 2, ([0], 1))]) 1) = Some d
    \<and> true_state demo_chain (demo_block 2) d"
  using stored_state_true [OF demo_args demo_run(2)]
  by (simp add: demo_reads)

text \<open>
  Reinitialising a game that has seen no failed flush, when the loop that stores the initial state
  ends, does not abort, and when it does not throw either then the game is settled: it is before its
  genesis block and has no state; or the current block is the target block; or it is up to date and the
  current block is the best block of SpaceXpanse Core; or it catches up, and Core has been asked for
  the updates from the current block.
\<close>

lemma reinitialise_settles:
  assumes "rollback_storage ops ok in_txn rollable contents_of base" and "env_ops env = ops" and "initial_ok env cv"
    and "ok s" and "\<not> in_txn s" and "good cv (contents_of s)"
    and "Game_SetStorage env s n ((new_Game ident)\<lparr>gm_chain := c\<rparr>) = Done g0" and "game_run env cv g0 g"
    and "rpc_ok cv rpc" and "ReinitialiseState env rpc g = Some r"
  shows "outcome_ok (\<lambda>g'. case Option.bind (game_storage g') (op_GetCurrentBlockHash (HeightCache_ops ops)) of
      None \<Rightarrow> gm_state g' = PREGENESIS
    | Some h \<Rightarrow> settled rpc g' h) (\<lambda>g'. True) r"
  by (rule rollback_storage.run_settles [OF assms])

text \<open>
  C32: What is reported about a game: a query returns, next to the name of the game and its state, either no
  block at all, or the hash and the true height of the current block and the data extracted from its
  true state.
\<close>

theorem queries_report_true_state:
  assumes "rollback_storage ops ok in_txn rollable contents_of base" and "env_ops env = ops" and "initial_ok env cv"
    and "ok s" and "\<not> in_txn s" and "good cv (contents_of s)"
    and "Game_SetStorage env s n ((new_Game ident)\<lparr>gm_chain := c\<rparr>) = Done g0" and "game_run env cv g0 g"
    and "callback_true (cv_height cv) cb" and "GetCustomStateData env cb f ex g = Some (j, g')"
  shows "\<exists>chainStr cur. query_result g chainStr f ex cur = Some j
    \<and> (\<forall>h m d. cur = Some (h, m, d) \<longrightarrow> m = cv_height cv h \<and> true_state cv h d \<and> uint256_wf h
        \<and> Option.bind (game_storage g) (op_GetCurrentBlockHash (HeightCache_ops ops)) = Some h)"
  by (rule rollback_storage.run_query [OF assms])

theorem queries_report_true_state_witness:
  "\<exists>j g' chainStr cur. GetCustomStateData sync_env (\<lambda>h. None) ''data'' (\<lambda>d h n. Some (JString (ToHex h)))
      (demo_game (demo_tables 2 [0, 1] [(demo_block 2, ([0], 1))]) 1) = Some (j, g')
    \<and> query_result (demo_game (demo_tables 2 [0, 1] [(demo_block 2, ([0], 1))]) 1) chainStr ''data'' (\<lambda>d h n. Some (JString (ToHex h))) cur = Some j
    \<and> (\<forall>h m d. cur = Some (h, m, d) \<longrightarrow> true_state demo_chain h d)"
proof -
  let ?g = "demo_game (demo_tables 2 [0, 1] [(demo_block 2, ([0], 1))]) 1" and ?ex = "\<lambda>d h n. Some (JString (ToHex h))"
  have cb: "callback_true (cv_height demo_chain) (\<lambda>h. None)" by (simp add: callback_true_def)
  have "GetCustomStateData sync_env (\<lambda>h. None) ''data'' ?ex ?g \<noteq> None"
    by (simp add: GetCustomStateData_def demo_chain_name demo_storage GetCurrentBlockHashWithHeight_def sync_env_def SQLiteStorage_ops_def
      SQLite_GetCurrentBlockHash_def read_current_def ref_api_def demo_tables_def demo_reads(5) Let_def store_cached_def)
      (simp add: current_game_state_def game_storage_def HeightCache_ops_def SQLite_GetCurrentGameState_def read_current_def)
  then obtain j g' where q: "GetCustomStateData sync_env (\<lambda>h. None) ''data'' ?ex ?g = Some (j, g')" by fastforce
  from queries_report_true_state [OF demo_args demo_run(2) cb q] q show ?thesis by blast
qed

text \<open>
  Attaching a block of the chain to a game with a current state never aborts, and unless the storage
  throws: it succeeds exactly for a block whose parent is the current block, the new state is the true
  state of that block, and otherwise nothing changes.
\<close>

lemma attach_applies_block:
  assumes "rollback_storage ops ok in_txn rollable contents_of base" and "env_ops env = ops" and "initial_ok env cv"
    and "ok s" and "\<not> in_txn s" and "good cv (contents_of s)"
    and "Game_SetStorage env s n ((new_Game ident)\<lparr>gm_chain := c\<rparr>) = Done g0" and "game_run env cv g0 g"
    and "Option.bind (game_storage g) (op_GetCurrentBlockHash (HeightCache_ops ops)) = Some k"
    and "true_notification env cv blockData h"
  shows "outcome_ok (\<lambda>(b, g'). (b \<longleftrightarrow> cv_parent cv h = k) \<and> (if b then
        Option.bind (game_storage g') (op_GetCurrentBlockHash (HeightCache_ops ops)) = Some h
        \<and> (\<exists>d. current_game_state env g' = Some d \<and> true_state cv h d) else g' = g))
    (\<lambda>(b, g'). True) (UpdateStateForAttach env (cv_parent cv h) h blockData g)"
  by (rule rollback_storage.run_attach [OF assms])

text \<open>
  Detaching a block of the chain never aborts, and unless the storage throws: when it succeeds, the
  parent is the current block, with its true state; when it fails, either the block is not the current one
  and nothing changes, or its undo data is gone, and the storage is cleared.
\<close>

lemma detach_restores_parent:
  assumes "rollback_storage ops ok in_txn rollable contents_of base" and "env_ops env = ops" and "initial_ok env cv"
    and "ok s" and "\<not> in_txn s" and "good cv (contents_of s)"
    and "Game_SetStorage env s n ((new_Game ident)\<lparr>gm_chain := c\<rparr>) = Done g0" and "game_run env cv g0 g"
    and "Option.bind (game_storage g) (op_GetCurrentBlockHash (HeightCache_ops ops)) = Some k"
    and "true_notification env cv blockData h"
  shows "outcome_ok (\<lambda>(b, g'). if b then h = k
        \<and> Option.bind (game_storage g') (op_GetCurrentBlockHash (HeightCache_ops ops)) = Some (cv_parent cv h)
        \<and> (\<exists>d. current_game_state env g' = Some d \<and> true_state cv (cv_parent cv h) d)
      else if h \<noteq> k then g' = g
      else Option.bind (game_storage g) (op_GetUndoData (HeightCache_ops ops) h) = None
        \<and> Option.bind (game_storage g') (op_GetCurrentBlockHash (HeightCache_ops ops)) = None)
    (\<lambda>(b, g'). True) (UpdateStateForDetach env (cv_parent cv h) h blockData g)"
  by (rule rollback_storage.run_detach [OF assms])

text \<open>
  C36: A batch whose commit fails when the batch size is changed, as a reinitialisation does it, stops the
  process instead of being retried: afterwards the game applies no block any more, and when it reconnects
  and its current block is the best block of SpaceXpanse Core, the reinitialisation aborts.
\<close>

theorem failed_flush_is_fatal:
  assumes "on_game_manager (SetBatchSize (HeightCache_ops (env_ops env)) sz) g = Thrown g1" and "g2 = HasStopped g1"
    and "rpc_getblockchaininfo rpc = Some info" and "Option.bind (json_at info ''bestblockhash'') parse_hash = Some h"
    and "Option.bind (game_storage g2) (op_GetCurrentBlockHash (HeightCache_ops (env_ops env))) = Some h" and "h \<noteq> targetBlock g2"
  shows "ReinitialiseState env rpc g2 = Some Aborted \<and> UpdateStateForAttach env p k blockData g2 \<in> {Done (False, g2), Aborted}"
proof -
  obtain tm1 where tm1: "SetBatchSize (HeightCache_ops (env_ops env)) sz (transactionManager g) = Thrown tm1"
    "g1 = g\<lparr>transactionManager := tm1\<rparr>"
    using assms(1) by (cases "SetBatchSize (HeightCache_ops (env_ops env)) sz (transactionManager g)") (auto simp: on_game_manager_def)
  have bad: "commitFailed (transactionManager g2)" "batchedCommits (transactionManager g2) > 0" "\<not> inTransaction (transactionManager g2)"
    using tm1 assms(2) batch_thrown [OF tm1(1)] by (simp_all add: HasStopped_def)
  have set1: "on_game_manager (SetBatchSize (HeightCache_ops (env_ops env)) 1) (g2\<lparr>gm_state := UP_TO_DATE\<rparr>) = Aborted"
    using bad by (simp add: on_game_manager_def SetBatchSize_def Flush_def ocheck_def word_le_nat_alt word_less_nat_alt Let_def)
  obtain x where x: "game_storage g2 = Some x" "op_GetCurrentBlockHash (HeightCache_ops (env_ops env)) x = Some h"
    using assms(5) by (auto split: Option.bind_splits)
  have "game_storage (g2\<lparr>gm_state := State.UNKNOWN\<rparr>) = Some x" using x(1) by (simp add: game_storage_def)
  then have "ReinitialiseState env rpc g2 = Some Aborted"
    using assms(3,4,6) x(2) set1 by (simp add: ReinitialiseState_def SyncFromCurrentState_def)
  moreover have "TM_BeginTransaction ops tm = Aborted" if "commitFailed tm" for ops :: "'a StorageWithCachedHeight storage_ops" and tm
    using that by (simp add: TM_BeginTransaction_def ocheck_def)
  then have "UpdateStateForAttach env p k blockData g2 \<in> {Done (False, g2), Aborted}"
    using bad(1) assms(5)
    by (simp add: UpdateStateForAttach_def Let_def in_transaction_def on_manager_def split: option.splits)
  ultimately show ?thesis by blast
qed

text \<open>An LMDB database that is full: a commit throws.  One transaction has been batched.\<close>

definition full_ops :: "MemoryStorage storage_ops" where
  "full_ops = MemoryStorage_ops\<lparr>op_CommitTransaction := Thrown\<rparr>"

definition full_env :: "(MemoryStorage, unit) game_env" where
  "full_env = \<lparr>env_ops = full_ops, env_sha = (\<lambda>bs. SetNull),
     env_processor = \<lparr>gp_chain = REGTEST, gp_gameId = ''demo'', gp_rpc = True\<rparr>, env_rules = CachingGame_rules demo_caching,
     env_pending = \<lparr>pend_Clear = (\<lambda>u. u), pend_AddPendingMove = (\<lambda>st blk mv u. Some u), pend_ToJson = (\<lambda>u. Some JNull)\<rparr>\<rparr>"

definition full_game :: "(MemoryStorage, unit) Game" where
  "full_game = (new_Game ''demo'')\<lparr>gm_state := CATRODNG_UP, transactionManager := \<lparr>tm_storage = Some \<lparr>
       hc_storage = \<lparr>hasState = True, currentBlock = demo_block 1, currentState = [0], undoData = [], startedTxn = True\<rparr>,
       crossCheck = False, cachedHeight = 0, hasHeight = True\<rparr>,
     batchSize = 1000, batchedCommits = 1, inTransaction = False, commitFailed = False\<rparr>\<rparr>"

theorem failed_flush_is_fatal_witness:
  "\<exists>g1. on_game_manager (SetBatchSize (HeightCache_ops full_ops) 1) full_game = Thrown g1
    \<and> ReinitialiseState full_env (demo_rpc 1) (HasStopped g1) = Some Aborted"
proof -
  let ?g1 = "full_game\<lparr>transactionManager := (transactionManager full_game)\<lparr>batchSize := 1, commitFailed := True\<rparr>\<rparr>"
  have th: "on_game_manager (SetBatchSize (HeightCache_ops (env_ops full_env)) 1) full_game = Thrown ?g1"
    by (simp add: on_game_manager_def SetBatchSize_def Flush_def full_game_def full_env_def full_ops_def on_storage_def
      HeightCache_ops_def on_cached_def Let_def)
  have hash: "Option.bind (game_storage (HasStopped ?g1)) (op_GetCurrentBlockHash (HeightCache_ops (env_ops full_env))) = Some (demo_block 1)"
    by (simp add: game_storage_def HasStopped_def full_game_def full_env_def full_ops_def HeightCache_ops_def MemoryStorage_ops_def
      Memory_GetCurrentBlockHash_def)
  have info: "rpc_getblockchaininfo (demo_rpc 1)
      = Some (JObject [(''bestblockhash'', JString (ToHex (demo_block 1))), (''blocks'', JInt 0)])" by (simp add: demo_rpc_def)
  have best: "Option.bind (json_at (JObject [(''bestblockhash'', JString (ToHex (demo_block 1))), (''blocks'', JInt 0)]) ''bestblockhash'')
      parse_hash = Some (demo_block 1)"
    by (simp add: json_at_def member_def parse_hash_def asString_def demo_hex_simps Let_def)
  have "demo_block 1 \<noteq> targetBlock (HasStopped ?g1)"
    using demo_target by (simp add: HasStopped_def full_game_def new_Game_def)
  from failed_flush_is_fatal [OF th refl info best hash this] th show ?thesis by (auto simp: full_env_def)
qed

end
