(* ===== verification/ChainFeed.thy ===== *)
theory ChainFeed
  imports ChannelManager GameProps
begin

text \<open>
  How a channel manager follows the chain: the GSP returns a channel as JSON (\<open>sidechannel/gsprpc.cpp\<close>), and
  the feeder of the channel daemon decodes it and updates the manager (\<open>sidechannel/chaintochannel.cpp\<close>).
  What the feeder tells the manager is exactly what is stored on chain.
\<close>

section \<open>The GSP's side\<close>

text \<open>
  The channel with an ID, from the database that belongs to the current state of the game; a call with
  a malformed ID is answered with an error.
\<close>

definition channel_json :: "'p json_env \<Rightarrow> 'p BoardRules \<Rightarrow> ChannelsTable \<Rightarrow> uint256 \<Rightarrow> json option" where
  "channel_json J r tbl i = (case GetById i tbl of
     None \<Rightarrow> Some JNull
   | Some h \<Rightarrow> ChannelToGameStateJson J r h)"

definition DefaultGetChannel ::
    "('s, 'u) game_env \<Rightarrow> height_callback \<Rightarrow> 'p json_env \<Rightarrow> 'p BoardRules \<Rightarrow> (byte list \<Rightarrow> ChannelsTable)
       \<Rightarrow> string \<Rightarrow> ('s, 'u) Game \<Rightarrow> (json option \<times> ('s, 'u) Game) option" where
  "DefaultGetChannel env hashToHeight J r channels channelId g =
    (let (ok, i) = FromHex channelId SetNull in
     if \<not> ok then Some (None, g)
     else do {
       (j, g) \<leftarrow> GetCustomStateData env hashToHeight ''channel'' (\<lambda>st h height. channel_json J r (channels st) i) g;
       Some (Some j, g) })"

section \<open>The feeder\<close>

record ChainToChannelFeeder =
  channelIdHex :: string
  lastBlock :: uint256

definition new_ChainToChannelFeeder :: "('p, 'g, 't) ManagerEnv \<Rightarrow> ChainToChannelFeeder" where
  "new_ChainToChannelFeeder E = \<lparr>channelIdHex = ToHex (me_channelId E), lastBlock = SetNull\<rparr>"

text \<open>The decoders of base64 and of messages; \<open>None\<close> is a failed check.\<close>

record FeedCodec =
  fc_evp_dec :: "string \<Rightarrow> byte list option"
  parse_metadata :: "byte list \<Rightarrow> ChannelMetadata option"
  parse_proof :: "byte list \<Rightarrow> StateProof option"

definition DecodeProto :: "(string \<Rightarrow> byte list option) \<Rightarrow> (byte list \<Rightarrow> 'm option) \<Rightarrow> json \<Rightarrow> 'm option" where
  "DecodeProto dec parse val = do {
     check (isString val);
     str \<leftarrow> asString val;
     (case DecodeBase64 dec str of
        Inl _ \<Rightarrow> None
      | Inr bytes \<Rightarrow> parse bytes)
   }"

text \<open>The dispute height of a channel, zero if it has none.\<close>

definition feed_dispute :: "json \<Rightarrow> nat option" where
  "feed_dispute channel = do {
     disputeVal \<leftarrow> json_at channel ''disputeheight'';
     if disputeVal = JNull then Some 0 else asUInt disputeVal
   }"

definition feed_channel ::
    "FeedCodec \<Rightarrow> ('p, 'g, 't) ManagerEnv \<Rightarrow> uint256 \<Rightarrow> u32 \<Rightarrow> json \<Rightarrow> ChainToChannelFeeder
       \<Rightarrow> ('p, 'g, 't) ChannelManager \<Rightarrow> ('p, 'g, 't) ChannelManager option" where
  "feed_channel C E blk height channel f cm = do {
     check (isObject channel);
     idVal \<leftarrow> asString (member channel ''id'');
     check (idVal = channelIdHex f);
     metaVal \<leftarrow> json_at (member channel ''meta'') ''proto'';
     meta \<leftarrow> DecodeProto (fc_evp_dec C) (parse_metadata C) metaVal;
     proofVal \<leftarrow> json_at (member channel ''state'') ''proof'';
     proof \<leftarrow> DecodeProto (fc_evp_dec C) (parse_proof C) proofVal;
     reinitVal \<leftarrow> json_at (member channel ''reinit'') ''base64'';
     reinitStr \<leftarrow> asString reinitVal;
     reinitState \<leftarrow> (case DecodeBase64 (fc_evp_dec C) reinitStr of Inl _ \<Rightarrow> None | Inr d \<Rightarrow> Some d);
     disputeHeight \<leftarrow> feed_dispute channel;
     ProcessOnChain E blk height meta reinitState proof (of_nat disputeHeight) cm
   }"

text \<open>\<open>UpdateOnce\<close>, given the answer of the call to \<open>getchannel\<close>; an error of the call ends the process.\<close>

definition UpdateOnce ::
    "FeedCodec \<Rightarrow> ('p, 'g, 't) ManagerEnv \<Rightarrow> json option \<Rightarrow> ChainToChannelFeeder \<Rightarrow> ('p, 'g, 't) ChannelManager
       \<Rightarrow> (ChainToChannelFeeder \<times> ('p, 'g, 't) ChannelManager) option" where
  "UpdateOnce C E answer f cm = do {
     data \<leftarrow> answer;
     state \<leftarrow> json_at data ''state'';
     if state \<noteq> JString ''up-to-date'' then Some (f, cm)
     else do {
       let newBlockVal = member data ''blockhash'';
       if newBlockVal = JNull then Some (f, cm)
       else do {
         check (isString newBlockVal);
         newBlock \<leftarrow> asString newBlockVal;
         let (ok, blk) = FromHex newBlock (lastBlock f);
         check ok;
         let f = f\<lparr>lastBlock := blk\<rparr>;
         height \<leftarrow> asUInt (member data ''height'');
         let channel = member data ''channel'';
         cm \<leftarrow> (if channel = JNull then ProcessOnChainNonExistant blk (of_nat height) cm
                else feed_channel C E blk (of_nat height) channel f cm);
         Some (f, cm) } }
   }"

text \<open>
  One iteration of the loop: the answer of \<open>waitforchange\<close> is the code of an error or the hash of a block,
  followed by the answer of \<open>getchannel\<close> if there is a new block.
\<close>

definition ERROR_CLIENT_CONNECTOR :: int where
  "ERROR_CLIENT_CONNECTOR = - 32003"

definition RunLoop_iteration ::
    "FeedCodec \<Rightarrow> ('p, 'g, 't) ManagerEnv \<Rightarrow> int + string \<Rightarrow> json option \<Rightarrow> ChainToChannelFeeder
       \<Rightarrow> ('p, 'g, 't) ChannelManager \<Rightarrow> (ChainToChannelFeeder \<times> ('p, 'g, 't) ChannelManager) option" where
  "RunLoop_iteration C E change answer f cm = (case change of
     Inl code \<Rightarrow> do { check (code = ERROR_CLIENT_CONNECTOR); Some (f, cm) }
   | Inr newBlockHex \<Rightarrow>
       if newBlockHex = [] then Some (f, cm)
       else if newBlockHex = ToHex (lastBlock f) then Some (f, cm)
       else UpdateOnce C E answer f cm)"

section \<open>The feeder and the GSP\<close>

text \<open>The documented behaviour of protocol buffers and base64: what the GSP encodes, the feeder decodes.\<close>

definition feed_ok :: "FeedCodec \<Rightarrow> 'p json_env \<Rightarrow> bool" where
  "feed_ok C J \<longleftrightarrow> evp_ok (evp_enc J) (fc_evp_dec C)
     \<and> (\<forall>m bs. ser_metadata J m = Some bs \<longrightarrow> parse_metadata C bs = Some m)
     \<and> (\<forall>p bs. ser_proof J p = Some bs \<longrightarrow> parse_proof C bs = Some p)"

lemma decode_encoded:
  assumes "evp_ok enc dec" and "ProtoToBase64 enc ser x = Some s" and "\<And>bs. ser x = Some bs \<Longrightarrow> parse bs = Some x"
  shows "DecodeProto dec parse (JString s) = Some x"
proof -
  obtain bs where "ser x = Some bs" "Base64.EncodeBase64 enc bs = Some s"
    using assms(2) by (auto simp: ProtoToBase64_def Option.bind_eq_Some_conv)
  moreover from this(2) have "DecodeBase64 dec s = Inr bs"
    using EncodeBase64_eq [OF assms(1), of bs] DecodeBase64_encode [OF assms(1), of bs] by simp
  ultimately show ?thesis
    using assms(3) by (simp add: DecodeProto_def isString_def asString_def)
qed

lemma isObject_json_obj [simp]: "isObject (json_obj kvs)"
  by (simp add: json_obj_def isObject_def)

lemma json_at_json_obj: "json_at (json_obj kvs) k = Some (member (json_obj kvs) k)"
  by (simp add: json_obj_def json_at_def)

text \<open>What the feeder reads from the JSON form of a channel.\<close>

lemma decode_metadata:
  assumes ok: "feed_ok C J" and m: "ChannelMetadataToJson J meta = Some j"
  shows "\<exists>v. json_at j ''proto'' = Some v \<and> DecodeProto (fc_evp_dec C) (parse_metadata C) v = Some meta"
proof -
  have evp: "evp_ok (evp_enc J) (fc_evp_dec C)"
    and dm: "\<And>bs. ser_metadata J meta = Some bs \<Longrightarrow> parse_metadata C bs = Some meta"
    using ok by (simp_all add: feed_ok_def)
  obtain parts re proto where p: "ProtoToBase64 (evp_enc J) (ser_metadata J) meta = Some proto"
    and j: "j = json_obj [(''participants'', JArray parts), (''reinit'', JString re), (''proto'', JString proto)]"
    using m by (auto simp: ChannelMetadataToJson_def Let_def Option.bind_eq_Some_conv)
  have "DecodeProto (fc_evp_dec C) (parse_metadata C) (JString proto) = Some meta"
    by (rule decode_encoded [OF evp p dm])
  then show ?thesis by (simp add: j json_at_json_obj member_json_obj)
qed

lemma decode_reinit:
  assumes ok: "feed_ok C J" and r: "BoardStateToJson J r i meta s = Some j"
  shows "\<exists>str. json_at j ''base64'' = Some (JString str) \<and> DecodeBase64 (fc_evp_dec C) str = Inr s"
proof -
  have evp: "evp_ok (evp_enc J) (fc_evp_dec C)" using ok by (simp add: feed_ok_def)
  obtain str kvs where b: "Base64.EncodeBase64 (evp_enc J) s = Some str" and j: "j = json_obj ((''base64'', JString str) # kvs)"
    and k: "''base64'' \<notin> fst ` set kvs"
    using r by (auto simp: BoardStateToJson_def Let_def Option.bind_eq_Some_conv split: if_splits)
  have "map_of (rev kvs) ''base64'' = None" using k by (simp add: map_of_eq_None_iff)
  then have "json_at j ''base64'' = Some (JString str)"
    by (simp add: j json_at_json_obj member_json_obj map_add_def)
  moreover have "DecodeBase64 (fc_evp_dec C) str = Inr s"
    using b EncodeBase64_eq [OF evp, of s] DecodeBase64_encode [OF evp, of s] by simp
  ultimately show ?thesis by blast
qed

lemma decode_state_proof:
  assumes ok: "feed_ok C J" and p: "ProtoToBase64 (evp_enc J) (ser_proof J) pf = Some str"
    and r: "BoardStateToJson J r i meta s = Some st" and j: "json_set ''proof'' (JString str) st = Some j"
  shows "\<exists>v. json_at j ''proof'' = Some v \<and> DecodeProto (fc_evp_dec C) (parse_proof C) v = Some pf"
proof -
  have evp: "evp_ok (evp_enc J) (fc_evp_dec C)"
    and dp: "\<And>bs. ser_proof J pf = Some bs \<Longrightarrow> parse_proof C bs = Some pf"
    using ok by (simp_all add: feed_ok_def)
  obtain kvs where "st = json_obj kvs"
    using r by (auto simp: BoardStateToJson_def Let_def Option.bind_eq_Some_conv split: if_splits)
  then have "j = JObject (member_set ''proof'' (JString str) (assign_members kvs []))" using j by simp
  moreover have "map_of (member_set ''proof'' (JString str) (assign_members kvs [])) ''proof'' = Some (JString str)"
    using assign_members_ok [OF tbl_ok_Nil, of kvs "''proof''"] by simp
  ultimately have "json_at j ''proof'' = Some (JString str)" by (simp add: json_at_def member_def)
  moreover have "DecodeProto (fc_evp_dec C) (parse_proof C) (JString str) = Some pf"
    by (rule decode_encoded [OF evp p dp])
  ultimately show ?thesis by blast
qed

lemma feed_channel_json:
  assumes ok: "feed_ok C J" and j: "ChannelToGameStateJson J r ch = Some j" and h: "uint (disputeHeight ch) < 2 ^ 31"
  shows "feed_channel C E blk height j f cm =
    (if ToHex (cd_id ch) = channelIdHex f
     then ProcessOnChain E blk height (cd_metadata ch) (cd_reinit ch) (cd_proof ch) (disputeHeight ch) cm else None)"
proof -
  obtain metaJson latest st pfs re st' where
    m: "ChannelMetadataToJson J (cd_metadata ch) = Some metaJson"
    and st: "BoardStateToJson J r (cd_id ch) (cd_metadata ch) latest = Some st"
    and p: "ProtoToBase64 (evp_enc J) (ser_proof J) (cd_proof ch) = Some pfs"
    and st': "json_set ''proof'' (JString pfs) st = Some st'"
    and re: "BoardStateToJson J r (cd_id ch) (cd_metadata ch) (cd_reinit ch) = Some re"
    and j': "j = json_obj ([(''id'', JString (ToHex (cd_id ch)))]
      @ (if HasDispute ch then [(''disputeheight'', JInt (sint (disputeHeight ch)))] else [])
      @ [(''meta'', metaJson), (''state'', st'), (''reinit'', re)])"
    using j by (cases "HasDispute ch")
      (auto simp: ChannelToGameStateJson_def Let_def Option.bind_eq_Some_conv GetDisputeHeight_def HasDispute_def
        split: if_splits)
  have fields: "member j ''id'' = JString (ToHex (cd_id ch))" "member j ''meta'' = metaJson" "member j ''state'' = st'"
    "member j ''reinit'' = re" "isObject j"
    and dh: "json_at j ''disputeheight'' = Some (if HasDispute ch then JInt (sint (disputeHeight ch)) else JNull)"
    by (auto simp: j' member_json_obj json_at_json_obj)
  have "sint (disputeHeight ch) = uint (disputeHeight ch)"
    using h order_trans [OF _ uint_ge_0, of "- (2 ^ 31)" "disputeHeight ch"]
    by (simp add: sint_uint signed_take_bit_int_eq_self)
  then have "feed_dispute j = Some (unat (disputeHeight ch))"
    using h by (auto simp: feed_dispute_def dh HasDispute_def asUInt_def word_gt_0)
  with decode_metadata [OF ok m] decode_reinit [OF ok re] decode_state_proof [OF ok p st st'] fields
  show ?thesis
    by (auto simp: feed_channel_def asString_def)
qed

text \<open>What the chain has for the channel, as an update of the manager.\<close>

definition on_chain_update ::
    "('p, 'g, 't) ManagerEnv \<Rightarrow> uint256 \<Rightarrow> u32 \<Rightarrow> ChannelsTable \<Rightarrow> ('p, 'g, 't) ChannelManager \<Rightarrow> ('p, 'g, 't) ChannelManager option" where
  "on_chain_update E h height tbl cm = (case GetById (me_channelId E) tbl of
     None \<Rightarrow> ProcessOnChainNonExistant h height cm
   | Some ch \<Rightarrow> ProcessOnChain E h height (cd_metadata ch) (cd_reinit ch) (cd_proof ch) (disputeHeight ch) cm)"

lemma up_to_date_string: "StateToString s = ''up-to-date'' \<longleftrightarrow> s = UP_TO_DATE"
  by (cases s) (simp_all add: StateToString_def)

lemma channel_id_kept: "GetById i tbl = Some ch \<Longrightarrow> cd_id ch = i"
  by (auto simp: GetById_def load_ChannelData_def)

lemma update_once_query:
  assumes ok: "feed_ok C J" and f: "channelIdHex f = ToHex (me_channelId E)"
    and q: "query_result g chainStr ''channel'' (\<lambda>st h height. channel_json J r (channels st) (me_channelId E)) cur = Some j"
    and wf: "\<And>h n d. cur = Some (h, n, d) \<Longrightarrow> uint256_wf h"
    and h: "\<And>d ch. GetById (me_channelId E) (channels d) = Some ch \<Longrightarrow> uint (disputeHeight ch) < 2 ^ 31"
  shows "UpdateOnce C E (Some j) f cm = (case cur of
      None \<Rightarrow> Some (f, cm)
    | Some (h, n, d) \<Rightarrow> if gm_state g \<noteq> UP_TO_DATE then Some (f, cm)
        else map_option (Pair (f\<lparr>lastBlock := h\<rparr>)) (on_chain_update E h n (channels d) cm))"
proof (cases cur)
  case None
  then show ?thesis using q by (auto simp: query_result_def Let_def UpdateOnce_def json_at_json_obj member_json_obj)
next
  case (Some x)
  obtain h n d where x: "x = (h, n, d)" by (cases x)
  obtain c where c: "channel_json J r (channels d) (me_channelId E) = Some c"
    and j: "j = json_obj [(''gameid'', JString (gameId g)), (''chain'', JString chainStr),
       (''state'', JString (StateToString (gm_state g))), (''blockhash'', JString (ToHex h)),
       (''height'', JUInt (uint n)), (''channel'', c)]"
    using q by (auto simp: query_result_def Let_def Some x)
  have fields: "json_at j ''state'' = Some (JString (StateToString (gm_state g)))" "member j ''blockhash'' = JString (ToHex h)"
    "member j ''height'' = JUInt (uint n)" "member j ''channel'' = c"
    by (simp_all add: j json_at_json_obj member_json_obj)
  have hex: "FromHex (ToHex h) v = (True, h)" for v
    by (rule hex_roundtrip) (use wf Some x in blast)
  have u: "UpdateOnce C E (Some j) f cm = (if gm_state g \<noteq> UP_TO_DATE then Some (f, cm)
    else map_option (Pair (f\<lparr>lastBlock := h\<rparr>))
      (if c = JNull then ProcessOnChainNonExistant h n cm else feed_channel C E h n c (f\<lparr>lastBlock := h\<rparr>) cm))"
    using fields uint_bounded [of n]
    by (simp add: UpdateOnce_def up_to_date_string isString_def asString_def hex asUInt_def map_option_case)
      (simp split: option.splits)
  have "on_chain_update E h n (channels d) cm
      = (if c = JNull then ProcessOnChainNonExistant h n cm else feed_channel C E h n c (f\<lparr>lastBlock := h\<rparr>) cm)"
  proof (cases "GetById (me_channelId E) (channels d)")
    case None
    then show ?thesis using c by (simp add: channel_json_def on_chain_update_def)
  next
    case (Some ch)
    then have cj: "ChannelToGameStateJson J r ch = Some c" using c by (simp add: channel_json_def)
    then have "c \<noteq> JNull"
      by (auto simp: ChannelToGameStateJson_def Let_def Option.bind_eq_Some_conv json_obj_def)
    then show ?thesis
      using feed_channel_json [OF ok cj h [OF Some], of E] Some channel_id_kept [OF Some] f
      by (simp add: on_chain_update_def)
  qed
  with u show ?thesis by (simp add: Some x)
qed

text \<open>
  C11: the channel daemon follows the chain: at any time of a run of the game (with any notifications,
  replies and exceptions), the answer to the daemon's request for its channel makes the feeder do
  nothing, if the game is not up to date or has no state, or it updates the manager with exactly what the true state of
  the current block has for the channel: that there is none, or its metadata, reinitialisation
  state, state proof and dispute height.
\<close>

theorem daemon_follows_chain:
  assumes "rollback_storage ops ok in_txn rollable contents_of base" and "env_ops env = ops" and "initial_ok env cv"
    and "ok s" and "\<not> in_txn s" and "good cv (contents_of s)"
    and "Game_SetStorage env s n ((new_Game ident)\<lparr>gm_chain := c\<rparr>) = Done g0" and "game_run env cv g0 g"
    and "callback_true (cv_height cv) cb"
    and "feed_ok C J" and "uint256_wf (me_channelId E)" and "channelIdHex f = ToHex (me_channelId E)"
    and "\<And>d ch. GetById (me_channelId E) (channels d) = Some ch \<Longrightarrow> uint (disputeHeight ch) < 2 ^ 31"
    and "DefaultGetChannel env cb J r channels (ToHex (me_channelId E)) g = Some (answer, g')"
  shows "UpdateOnce C E answer f cm = Some (f, cm)
    \<or> gm_state g = UP_TO_DATE \<and> (\<exists>h d. Option.bind (game_storage g) (op_GetCurrentBlockHash (HeightCache_ops ops)) = Some h
        \<and> true_state cv h d
        \<and> UpdateOnce C E answer f cm
          = map_option (Pair (f\<lparr>lastBlock := h\<rparr>)) (on_chain_update E h (cv_height cv h) (channels d) cm))"
proof -
  obtain j where j: "answer = Some j" and q: "GetCustomStateData env cb ''channel''
      (\<lambda>st h height. channel_json J r (channels st) (me_channelId E)) g = Some (j, g')"
    using assms(14) by (auto simp: DefaultGetChannel_def hex_roundtrip [OF assms(11)] Option.bind_eq_Some_conv)
  obtain chainStr cur where
    cur: "query_result g chainStr ''channel'' (\<lambda>st h height. channel_json J r (channels st) (me_channelId E)) cur = Some j"
    and ok: "\<forall>h m d. cur = Some (h, m, d) \<longrightarrow> m = cv_height cv h \<and> true_state cv h d \<and> uint256_wf h
        \<and> Option.bind (game_storage g) (op_GetCurrentBlockHash (HeightCache_ops ops)) = Some h"
    using rollback_storage.run_query [OF assms(1-9) q] by blast
  have wf: "uint256_wf h" if "cur = Some (h, m, d)" for h m d using ok that by blast
  note u = update_once_query [OF assms(10,12) cur wf assms(13)]
  show ?thesis
  proof (cases cur)
    case None
    then show ?thesis using u j by simp
  next
    case (Some x)
    obtain h m d where "x = (h, m, d)" by (cases x)
    with ok Some u j show ?thesis by auto
  qed
qed

end
