(* ===== verification/DaemonCodec.thy ===== *)
theory DaemonCodec
  imports ChainFeed ShipsClient
begin

text \<open>
  Concrete codecs for the messages between game-state processors and channel daemons, which satisfy what is
  assumed of protocol buffers.
\<close>

section \<open>Codecs\<close>

text \<open>Messages as tuples; the bytes are the number of the tuple in an enumeration, in unary.\<close>

type_synonym data_tuple = "byte list option \<times> byte list list \<times> string option"

definition data_tuple :: "SignedData \<Rightarrow> data_tuple" where
  "data_tuple d = (sd_data d, signatures d, for_testing_version d)"

definition tuple_data :: "data_tuple \<Rightarrow> SignedData" where
  "tuple_data = (\<lambda>(d, s, v). \<lparr>sd_data = d, signatures = s, for_testing_version = v\<rparr>)"

lemma tuple_data_tuple [simp]: "tuple_data (data_tuple d) = d" "tuple_data \<circ> data_tuple = id"
  by (simp_all add: tuple_data_def data_tuple_def fun_eq_iff)

definition proof_tuple ::
    "StateProof \<Rightarrow> data_tuple option \<times> (byte list option \<times> data_tuple option) list" where
  "proof_tuple p = (map_option data_tuple (initial_state p),
     map (\<lambda>t. (tr_move t, map_option data_tuple (new_state t))) (transitions p))"

definition tuple_proof ::
    "data_tuple option \<times> (byte list option \<times> data_tuple option) list \<Rightarrow> StateProof" where
  "tuple_proof = (\<lambda>(i, ts). \<lparr>initial_state = map_option tuple_data i,
     transitions = map (\<lambda>(m, s). \<lparr>tr_move = m, new_state = map_option tuple_data s\<rparr>) ts\<rparr>)"

lemma tuple_proof_tuple [simp]: "tuple_proof (proof_tuple p) = p"
  by (simp add: tuple_proof_def proof_tuple_def option.map_comp comp_def option.map_ident map_idI)

definition meta_tuple ::
    "ChannelMetadata \<Rightarrow> (string option \<times> string option) list \<times> byte list option \<times> byte list option" where
  "meta_tuple m = (map (\<lambda>p. (participant_name p, participant_address p)) (participants m), reinit m, custom m)"

definition tuple_meta ::
    "(string option \<times> string option) list \<times> byte list option \<times> byte list option \<Rightarrow> ChannelMetadata" where
  "tuple_meta = (\<lambda>(ps, r, c). \<lparr>participants = map (\<lambda>(n, a). \<lparr>participant_name = n, participant_address = a\<rparr>) ps,
     reinit = r, custom = c\<rparr>)"

lemma tuple_meta_tuple [simp]: "tuple_meta (meta_tuple m) = m"
  by (simp add: tuple_meta_def meta_tuple_def comp_def map_idI)

definition unary :: "nat \<Rightarrow> byte list" where
  "unary n = replicate n 0"

definition demo_views :: "ShipsBoardState json_env" where
  "demo_views = demo_json_env\<lparr>ser_proof := (\<lambda>p. Some (unary (to_nat (proof_tuple p)))),
     ser_metadata := (\<lambda>m. Some (unary (to_nat (meta_tuple m))))\<rparr>"

definition demo_feed :: FeedCodec where
  "demo_feed = \<lparr>fc_evp_dec = b64_decode, parse_metadata = (\<lambda>bs. Some (tuple_meta (from_nat (length bs)))),
     parse_proof = (\<lambda>bs. Some (tuple_proof (from_nat (length bs))))\<rparr>"

lemma demo_feed_ok: "feed_ok demo_feed demo_views"
  by (simp add: feed_ok_def demo_feed_def demo_views_def demo_json_env_def unary_def evp_ok_reference)

lemma demo_views_ok: "json_env_ok demo_views"
  using evp_ok_reference by (auto simp: json_env_ok_def demo_views_def demo_json_env_def)

text \<open>A proof of the state after the first move of the concrete game.\<close>

definition demo_daemon_proof :: StateProof where
  "demo_daemon_proof = demo_proof\<lparr>transitions :=
    [\<lparr>tr_move = demo_ser_move (demo_commit True),
      new_state = Some (default_SignedData\<lparr>sd_data := Some (demo_bytes demo_1), signatures := [[]]\<rparr>)\<rparr>]\<rparr>"

text \<open>
  Broadcasts; the one message that is sent below has the shortest code, because a unary number would be
  longer than a message may be.
\<close>

definition demo_broadcast :: BroadcastMessage where
  "demo_broadcast = \<lparr>bm_reinit = Some [], bm_proof = Some demo_daemon_proof\<rparr>"

definition demo_broadcasts :: BroadcastCodec where
  "demo_broadcasts =
    \<lparr>ser_broadcast = (\<lambda>pb. Some (if pb = demo_broadcast then []
       else unary (Suc (to_nat (bm_reinit pb, map_option proof_tuple (bm_proof pb)))))),
     parse_broadcast = (\<lambda>bs. Some (if bs = [] then demo_broadcast
       else (case from_nat (length bs - 1) of (r, p) \<Rightarrow> \<lparr>bm_reinit = r, bm_proof = map_option tuple_proof p\<rparr>)))\<rparr>"

lemma demo_broadcasts_ok: "broadcast_codec_ok demo_broadcasts"
proof -
  have "(case from_nat (to_nat (bm_reinit pb, map_option proof_tuple (bm_proof pb))) of
      (r, p) \<Rightarrow> \<lparr>bm_reinit = r, bm_proof = map_option tuple_proof p\<rparr>) = pb" for pb
    by (simp add: option.map_comp comp_def option.map_ident)
  then show ?thesis
    by (auto simp: broadcast_codec_ok_def demo_broadcasts_def unary_def)
qed

end
