(* ===== verification/ShipsDaemon.thy ===== *)
theory ShipsDaemon
  imports AutoMoves DaemonCodec
begin

text \<open>
  The ships channel as the game's part of a channel manager, and the RPC interface of the ships channel
  daemon (\<open>ships/channelrpc.cpp\<close>).  The ships channel satisfies the contract of \<open>open_channel\<close>, so that
  the loop over automatic moves returns.
\<close>

section \<open>The virtual functions of the ships channel\<close>

definition ships_OpenChannel :: "('r, 't) ShipsEnv \<Rightarrow> (ShipsBoardState, 'r ShipsChannel, 't) OpenChannel" where
  "ships_OpenChannel SE =
    \<lparr>ResolutionMove = ships_ResolutionMove SE, DisputeMove = ships_DisputeMove SE,
     MaybeAutoMove = ships_MaybeAutoMove SE, MaybeOnChainMove = ships_MaybeOnChainMove SE\<rparr>"

section \<open>The RPC server\<close>

type_synonym ('r, 't) ShipsManager = "(ShipsBoardState, 'r ShipsChannel, 't) ChannelManager"
type_synonym ('r, 't) ShipsManagerEnv = "(ShipsBoardState, 'r ShipsChannel, 't) ManagerEnv"

definition ParseAndValidatePosition :: "string \<Rightarrow> (bool \<times> u64) option" where
  "ParseAndValidatePosition str = do {
     (ok, grid) \<leftarrow> FromString str;
     if \<not> ok then Some (False, grid)
     else do {
       valid \<leftarrow> VerifyPositionOfShips grid;
       Some (valid, grid) }
   }"

text \<open>
  \<open>setposition\<close> checks that no position is set before it takes the lock on the channel manager; the part
  with the lock is an operation of its own, because other operations can come between.  The result of
  the first part is the position, if the second part is to be run.
\<close>

definition setposition_check :: "string \<Rightarrow> ('r, 't) ShipsManager \<Rightarrow> u64 option option" where
  "setposition_check str cm =
    (if IsPositionSet (cm_game cm) then Some None
     else do {
       (ok, pos) \<leftarrow> ParseAndValidatePosition str;
       Some (if ok then Some pos else None) })"

definition setposition_locked ::
    "('r, 't) ShipsEnv \<Rightarrow> ('r, 't) ShipsManagerEnv \<Rightarrow> u64 \<Rightarrow> ('r, 't) ShipsManager \<Rightarrow> ('r, 't) ShipsManager option" where
  "setposition_locked SE E pos cm = do {
     sc \<leftarrow> SetPosition SE pos (cm_game cm);
     TriggerAutoMoves E (cm\<lparr>cm_game := sc\<rparr>)
   }"

definition validateposition :: "string \<Rightarrow> bool option" where
  "validateposition str = map_option fst (ParseAndValidatePosition str)"

definition rpc_ProcessLocalMove ::
    "('r, 't) ShipsEnv \<Rightarrow> ('r, 't) ShipsManagerEnv \<Rightarrow> BoardMove \<Rightarrow> ('r, 't) ShipsManager \<Rightarrow> ('r, 't) ShipsManager option" where
  "rpc_ProcessLocalMove SE E mv cm = do {
     serialised \<leftarrow> se_ser_move SE mv;
     ProcessLocalMove E serialised cm
   }"

definition rpc_shoot ::
    "('r, 't) ShipsEnv \<Rightarrow> ('r, 't) ShipsManagerEnv \<Rightarrow> int \<Rightarrow> int \<Rightarrow> ('r, 't) ShipsManager \<Rightarrow> ('r, 't) ShipsManager option" where
  "rpc_shoot SE E c r cm =
    (let target = \<lparr>row = r, column = c\<rparr> in
     if IsOnBoard target then do { mv \<leftarrow> GetShotMove target; rpc_ProcessLocalMove SE E mv cm }
     else Some cm)"

definition rpc_revealposition ::
    "('r, 't) ShipsEnv \<Rightarrow> ('r, 't) ShipsManagerEnv \<Rightarrow> ('r, 't) ShipsManager \<Rightarrow> ('r, 't) ShipsManager option" where
  "rpc_revealposition SE E cm =
    (if IsPositionSet (cm_game cm) then do { mv \<leftarrow> GetPositionRevealMove (cm_game cm); rpc_ProcessLocalMove SE E mv cm }
     else Some cm)"

definition rpc_filedispute ::
    "('r, 't) ShipsManagerEnv \<Rightarrow> ('r, 't) ShipsManager \<Rightarrow> (string \<times> ('r, 't) ShipsManager) option" where
  "rpc_filedispute E cm = do {
     state \<leftarrow> GetBoardState cm;
     let hasWinner = (case state of None \<Rightarrow> False | Some s \<Rightarrow> winner (GetState s) \<noteq> None);
     (txid, cm) \<leftarrow> (if hasWinner then PutStateOnChain E cm else FileDispute E cm);
     Some (if IsNull txid then [] else ToHex txid, cm)
   }"

definition ExtendStateJson :: "('r, 't) ShipsManager \<Rightarrow> json \<Rightarrow> json option" where
  "ExtendStateJson cm state =
    (if IsPositionSet (cm_game cm) then do {
       pos \<leftarrow> GetPosition (cm_game cm);
       str \<leftarrow> ToString pos;
       json_set ''myships'' (JString str) state }
     else Some state)"

definition rpc_getcurrentstate ::
    "ShipsBoardState json_env \<Rightarrow> ('r, 't) ShipsManagerEnv \<Rightarrow> ('r, 't) ShipsManager \<Rightarrow> json option" where
  "rpc_getcurrentstate J E cm = do { state \<leftarrow> cm_ToJson J E cm; ExtendStateJson cm state }"

section \<open>The contract\<close>

text \<open>
  A daemon of the player with index \<open>p\<close> on a channel with metadata \<open>m\<close>: the hypotheses about protocol
  buffers, the hash function and the random generator as before, and that the wallet signs with the
  address of our player.
\<close>

definition daemon_ok ::
    "('r, 't) ShipsEnv \<Rightarrow> ('r, 't) ShipsManagerEnv \<Rightarrow> (BoardState, BoardMove) Codec \<Rightarrow> ChannelMetadata \<Rightarrow> u32 \<Rightarrow> bool" where
  "daemon_ok SE E codec m p \<longleftrightarrow> plays SE m p \<and> me_playerName E = se_playerName SE
     \<and> codec_ok codec \<and> rules (me_env E) = ShipsBoardRules (se_sha SE) codec
     \<and> me_game E = ships_OpenChannel SE
     \<and> (\<forall>mv. \<exists>bs. se_ser_move SE mv = Some bs \<and> parse_move codec bs = Some (mv, False))
     \<and> (\<forall>pf. \<not> HasAnyUnknownFields (me_env E) pf)
     \<and> get_address (participants m ! unat p) = GetAddress (me_signer E)
     \<and> (\<forall>msg. verifier (me_env E) msg (SignMessage (me_signer E) msg) = GetAddress (me_signer E))"

lemma our_turn:
  assumes "plays SE m p" and "0 \<le> t" and "t < int (participants_size m)"
    and "get_or [] (participant_name (participants m ! nat t)) = se_playerName SE"
  shows "t = int (unat p)"
proof -
  have "t = 0 \<or> t = 1" using assms(1-3) by (auto simp: plays_def)
  then show ?thesis using assms(1,4) by (auto simp: plays_def)
qed

lemma honest_counts:
  assumes "honest_move g p pb mv" and "turn pb = Some p" and "VerifyPositionOfShips g = Some True"
  shows "\<not> low_bits_zero mv"
  using assms legal_low_bits [OF assms(3)] by (cases mv) (auto simp: honest_move_def low_bits_zero_def)

lemma small_less: "a < b \<Longrightarrow> b \<le> 262 \<Longrightarrow> (of_nat a :: u32) < of_nat b"
  by (simp add: word_less_nat_alt unat_of_nat)

lemma turn_count_less:
  assumes s: "two_players s" "board_wf (GetState s)" and a: "ApplyMoveProto sha s mv = Inr pb'" and sha: "sha_ok sha"
    and mv: "\<not> low_bits_zero mv"
  shows "\<exists>c c'. TurnCount s = Some c \<and> TurnCount (s\<lparr>GetState := pb'\<rparr>) = Some c' \<and> c < c'"
proof -
  have "GetPhase (GetState s) \<noteq> FINISHED" using finished_no_move [OF s] a by auto
  then have wf': "board_wf pb'" using ApplyMoveProto_wf(2) [OF s _ sha a] by simp
  have "TurnCount (s\<lparr>GetState := pb'\<rparr>) = Some (of_nat (turn_number pb'))"
    using s(1) wf' TurnCount_eq [of "s\<lparr>GetState := pb'\<rparr>"] by (simp add: two_players_def)
  moreover have "turn_number pb' = turn_number (GetState s) + 1"
    using turn_number_step [OF s a] mv by simp
  moreover have "turn_number pb' \<le> 262" by (rule turn_number_le [OF wf'])
  ultimately show ?thesis
    using TurnCount_eq [OF s] small_less [of "turn_number (GetState s)" "turn_number pb'"] by simp
qed

lemma ships_open_channel:
  assumes ok: "daemon_ok SE E codec m p"
  shows "open_channel (ShipsBoardRules (se_sha SE) codec) ships_good E m
    (\<lambda>sc s. client_inv SE p sc (GetState s)) (\<lambda>s. rank (GetState s)) 262"
proof -
  let ?br = "ShipsBoardRules (se_sha SE) codec" and ?i = "me_channelId E"
  have pl: "plays SE m p" and codec: "codec_ok codec" and name: "me_playerName E = se_playerName SE"
    and game: "me_game E = ships_OpenChannel SE"
    and ser: "\<And>mv. \<exists>bs. se_ser_move SE mv = Some bs \<and> parse_move codec bs = Some (mv, False)"
    using ok by (simp_all add: daemon_ok_def)
  note sha = playsD(3) [OF pl]
  show ?thesis
  proof (intro open_channel.intro ships_board_rules [OF codec sha] open_channel_axioms.intro)
    show "rules (me_env E) = ?br" "\<And>pf. \<not> HasAnyUnknownFields (me_env E) pf"
      "\<And>msg. verifier (me_env E) msg (SignMessage (me_signer E) msg) = GetAddress (me_signer E)"
      using ok by (simp_all add: daemon_ok_def)
    show "get_address (participants m ! nat t) = GetAddress (me_signer E)"
      if "0 \<le> t" "t < int (participants_size m)"
        "get_or [] (participant_name (participants m ! nat t)) = me_playerName E" for t
      using our_turn [OF pl that(1,2)] that(3) name ok by (simp add: daemon_ok_def)
    show "rank (GetState s) \<le> 262" if "ships_good ?i m s" for s
      using that rank_le by (simp add: ships_good_def)
    fix s :: ShipsBoardState and sc :: "'a ShipsChannel" and t
    assume good: "ships_good ?i m s" and inv: "client_inv SE p sc (GetState s)"
      and t: "pWhoseTurn ?br s = Some t" "t \<noteq> NO_TURN"
      and ours: "get_or [] (participant_name (participants m ! nat t)) = me_playerName E"
    note g = ships_goodD [OF good]
    let ?pb = "GetState s"
    have s: "s = \<lparr>GetMetadata = m, GetState = ?pb\<rparr>" by (rule g(3))
    have nf: "GetPhase ?pb \<noteq> FINISHED" and ts: "t = sint (get_or 0 (turn ?pb))"
      using WhoseTurn_wf [OF g(1,2)] t by (auto simp: ShipsBoardRules_def split: if_splits)
    obtain tt where tt: "turn ?pb = Some tt" "tt = 0 \<or> tt = 1"
      using turn_set_wf [OF g(2) nf] by (auto simp: turn_set_def)
    have t01: "t = int (unat tt)" using tt ts by auto
    then have "t = int (unat p)"
      using our_turn [OF pl, of t] ours name tt(2) playsD(2) [OF pl] by auto
    then have "unat tt = unat p" using t01 by (simp only: of_nat_eq_iff)
    then have tp: "turn ?pb = Some p" using tt(1) word_unat_eq_iff [of tt p] by simp
    obtain mo sc' where mo: "InternalAutoMove SE \<lparr>GetMetadata = m, GetState = ?pb\<rparr> sc = Some (mo, sc')"
      and a: "auto_ok SE m p sc ?pb mo sc'"
      using InternalAutoMove_ok [OF pl inv tp nf] by blast
    show "\<exists>mo sc'. MaybeAutoMove (me_game E) s sc = Some (mo, sc') \<and>
        (case mo of
           None \<Rightarrow> client_inv SE p sc' (GetState s)
         | Some mv \<Rightarrow> \<exists>b s' c c'. pApplyMove ?br s mv = Inr b \<and> ParseState ?br ?i m b = Inr s'
             \<and> client_inv SE p sc' (GetState s') \<and> rank (GetState s) < rank (GetState s')
             \<and> pTurnCount ?br s = Some c \<and> pTurnCount ?br s' = Some c' \<and> c < c')"
    proof (cases mo)
      case None
      with mo a inv s show ?thesis
        by (simp add: game ships_OpenChannel_def ships_MaybeAutoMove_def auto_ok_def)
    next
      case (Some mv)
      with a obtain pb' where pb': "ApplyMoveProto (se_sha SE) \<lparr>GetMetadata = m, GetState = ?pb\<rparr> mv = Inr pb'"
        and h: "IsPositionSet sc" "honest_move (sc_position sc) p ?pb mv" "client_inv SE p sc' pb'"
        by (auto simp: auto_ok_def)
      obtain bs where bs: "se_ser_move SE mv = Some bs" "parse_move codec bs = Some (mv, False)" using ser by blast
      obtain b where b: "serialise_state codec pb' = Some b" "parse_state codec b = Some (pb', False)"
        using serialise_total [OF codec] .
      let ?s' = "\<lparr>GetMetadata = m, GetState = pb'\<rparr>"
      have good': "ships_good ?i m ?s'"
        using ApplyMoveProto_wf(2) [OF g(1,2) nf sha] pb' s good by (simp add: ships_good_def)
      have "pApplyMove ?br s bs = Inr b"
        using bs(2) b(1) pb' s by (simp add: ShipsBoardRules_def ProtoBoardState_ApplyMove_def)
      moreover have "ParseState ?br ?i m b = Inr ?s'" by (rule ships_parse [OF good']) (simp add: b(2))
      moreover have "rank ?pb < rank pb'" using rank_step [OF g(1,2)] pb' s by simp
      moreover have "VerifyPositionOfShips (sc_position sc) = Some True"
        using inv h(1) by (simp add: client_inv_def)
      from turn_count_less [OF g(1,2) _ sha honest_counts [OF h(2) tp this]] pb' s
      obtain c c' where "TurnCount s = Some c" "TurnCount ?s' = Some c'" "c < c'"
        by (metis ShipsBoardState.update_convs(2))
      ultimately show ?thesis
        using mo Some bs(1) h(3) s
        by (auto simp: game ships_OpenChannel_def ships_MaybeAutoMove_def ShipsBoardRules_def)
    qed
  qed
qed

section \<open>Automatic moves\<close>

lemma ships_settled:
  assumes ok: "daemon_ok SE E codec m p" and good: "ships_good (me_channelId E) m s"
    and st: "open_channel.settled (ShipsBoardRules (se_sha SE) codec) E m (\<lambda>sc s. client_inv SE p sc (GetState s)) cm s"
  shows "turn (GetState s) \<noteq> Some p \<or> GetPhase (GetState s) = SHOOT \<or> \<not> IsPositionSet (cm_game cm)"
proof (rule ccontr)
  let ?pb = "GetState s"
  have pl: "plays SE m p" and name: "me_playerName E = se_playerName SE" and game: "me_game E = ships_OpenChannel SE"
    using ok by (simp_all add: daemon_ok_def)
  note g = ships_goodD [OF good]
  assume "\<not> ?thesis"
  then have tp: "turn ?pb = Some p" and ns: "GetPhase ?pb \<noteq> SHOOT" and set: "IsPositionSet (cm_game cm)" by auto
  have nf: "GetPhase ?pb \<noteq> FINISHED" using tp g(2) by (auto simp: board_wf_def)
  have t: "pWhoseTurn (ShipsBoardRules (se_sha SE) codec) s = Some (int (unat p))"
    using WhoseTurn_wf [OF g(1,2)] nf tp playsD(1) [OF pl] by (auto simp: ShipsBoardRules_def)
  have ours: "get_or [] (participant_name (participants m ! nat (int (unat p)))) = me_playerName E"
    using pl name by (simp add: plays_def)
  have "int (unat p) \<noteq> - 1" using playsD(1) [OF pl] by auto
  with st t ours obtain sc where inv: "client_inv SE p sc ?pb"
    and none: "MaybeAutoMove (me_game E) s sc = Some (None, cm_game cm)"
    by (auto simp: open_channel.settled_def [OF ships_open_channel [OF ok]] NO_TURN_def)
  obtain mo sc' where "InternalAutoMove SE \<lparr>GetMetadata = m, GetState = ?pb\<rparr> sc = Some (mo, sc')" "auto_ok SE m p sc ?pb mo sc'"
    using InternalAutoMove_ok [OF pl inv tp nf] by blast
  with none g(3) have "auto_ok SE m p sc ?pb None (cm_game cm)"
    by (auto simp: game ships_OpenChannel_def ships_MaybeAutoMove_def Option.bind_eq_Some_conv split: option.splits)
  with ns set show False by (auto simp: auto_ok_def)
qed

section \<open>A concrete daemon\<close>

definition demo_daemon_rules :: "ShipsBoardState ChannelEnv" where
  "demo_daemon_rules = demo_env\<lparr>rules := ShipsBoardRules demo_sha move_codec,
     verifier := (\<lambda>msg sig. if sig = [] then ''addr 1'' else ''addr 2'')\<rparr>"

definition demo_daemon :: "(unit, unit) ShipsManagerEnv" where
  "demo_daemon =
    \<lparr>me_env = demo_daemon_rules, me_signer = demo_signer,
     me_game = ships_OpenChannel demo_ships_env, me_send = demo_sender_env,
     me_codec = demo_broadcasts,
     me_channelId = SetNull, me_playerName = ''foo''\<rparr>"

lemma demo_daemon_ok: "daemon_ok demo_ships_env demo_daemon move_codec demo_meta 0"
  using demo_plays demo_ser_move move_codec_ok
  by (simp add: daemon_ok_def demo_daemon_def demo_daemon_rules_def demo_env_def demo_signer_def demo_ships_env_def
      demo_meta_def get_address_def)

interpretation ships_daemon: open_channel "ShipsBoardRules (se_sha demo_ships_env) move_codec" ships_good demo_daemon demo_meta
  "\<lambda>sc s. client_inv demo_ships_env 0 sc (GetState s)" "\<lambda>s. rank (GetState s)" 262
  by (rule ships_open_channel [OF demo_daemon_ok])

end
