(* ===== verification/DaemonProps.thy ===== *)
theory DaemonProps
  imports ShipsDaemon ShipsChannel
begin

text \<open>
  Properties of the channel manager and of the ships channel daemon, and a concrete channel for them.
\<close>

section \<open>A concrete channel\<close>

text \<open>
  On chain is first the state after the first move of the concrete game, and later a dispute about the initial state,
  in which it is our player's turn.
\<close>

definition demo_closed_proof :: StateProof where
  "demo_closed_proof = demo_proof\<lparr>transitions :=
    [\<lparr>tr_move = demo_ser_move (demo_commit True),
      new_state = Some (default_SignedData\<lparr>sd_data := Some (demo_bytes demo_1), signatures := [[]]\<rparr>)\<rparr>,
     \<lparr>tr_move = demo_ser_move (demo_commit False),
      new_state = Some (default_SignedData\<lparr>sd_data := Some (demo_bytes demo_2), signatures := [[1]]\<rparr>)\<rparr>]\<rparr>"

lemma demo_daemon_simps:
  "me_env demo_daemon = demo_daemon_rules" "me_channelId demo_daemon = SetNull" "me_playerName demo_daemon = ''foo''"
  "me_game demo_daemon = ships_OpenChannel demo_ships_env" "me_send demo_daemon = demo_sender_env"
  "me_codec demo_daemon = demo_broadcasts"
  by (simp_all add: demo_daemon_def)

lemma demo_rules_daemon: "rules demo_daemon_rules = ShipsBoardRules demo_sha move_codec"
  by (simp add: demo_daemon_rules_def)

lemma demo_parses_daemon:
  "board_wf pb \<Longrightarrow> ParseState (rules demo_daemon_rules) i demo_meta (demo_bytes pb) = Inr (demo_parsed pb)"
  unfolding demo_rules_daemon
  by (rule ships_parse [OF demo_good]) (simp_all add: demo_parse move_codec_def)

lemma demo_equals_daemon: "board_wf pb \<Longrightarrow> pEquals (rules demo_daemon_rules) (demo_parsed pb) (demo_bytes pb)"
  using ships_daemon.equals_iff [OF demo_good, of pb "demo_bytes pb"] demo_parses_daemon [of pb SetNull]
  by (simp add: demo_rules_daemon demo_daemon_simps demo_ships_env_def)

lemma demo_counts_daemon:
  "pTurnCount (rules demo_daemon_rules) (demo_parsed InitialBoardState) = Some 1"
  "pTurnCount (rules demo_daemon_rules) (demo_parsed demo_1) = Some 2"
  "pWhoseTurn (rules demo_daemon_rules) (demo_parsed InitialBoardState) = Some 0"
  "pWhoseTurn (rules demo_daemon_rules) (demo_parsed demo_1) = Some 1"
  by (simp_all add: demo_rules_daemon ShipsBoardRules_def TurnCount_def WhoseTurn_def demo_two InitialBoardState_def
      GetPhase_def demo_1_def Let_def)

lemma demo_wfs: "board_wf demo_1" "board_wf demo_2"
  by code_simp+

lemma demo_step_daemon:
  assumes wf: "board_wf pb'" and mv: "ApplyMoveProto demo_sha (demo_parsed pb) mv = Inr pb'"
    and t: "pWhoseTurn (rules demo_daemon_rules) (demo_parsed pb) = Some (int k)" "k < 2"
  shows "signed_step demo_daemon_rules SetNull demo_meta (demo_parsed pb)
    \<lparr>tr_move = demo_ser_move mv, new_state = Some (default_SignedData
       \<lparr>sd_data := Some (demo_bytes pb'), signatures := [if k = 0 then [] else [1]]\<rparr>)\<rparr> (demo_parsed pb')"
proof -
  obtain bs where bs: "demo_ser_move mv = Some bs" "parse_move move_codec bs = Some (mv, False)"
    using demo_ser_move by blast
  let ?tr = "\<lparr>tr_move = Some bs, new_state = Some (default_SignedData
       \<lparr>sd_data := Some (demo_bytes pb'), signatures := [if k = 0 then [] else [1]]\<rparr>)\<rparr>"
  have d: "get_data (get_new_state ?tr) = demo_bytes pb'"
    by (simp add: get_new_state_def get_data_def)
  have "k = 0 \<or> k = 1" using t(2) by auto
  then have "int k \<in> signers demo_daemon_rules SetNull demo_meta (get_new_state ?tr)"
    by (auto simp: signers_def demo_two get_new_state_def demo_daemon_rules_def demo_env_def demo_meta_def get_address_def
        participants_size_def)
  moreover have "serialise_state move_codec pb' = Some (demo_bytes pb')"
    by (simp add: move_codec_def demo_codec_def demo_bytes_def)
  then have "pApplyMove (rules demo_daemon_rules) (demo_parsed pb) bs = Inr (demo_bytes pb')"
    using mv bs(2) by (simp add: demo_rules_daemon ShipsBoardRules_def ProtoBoardState_ApplyMove_def)
  ultimately show ?thesis
    using t demo_parses_daemon [OF wf] demo_equals_daemon [OF wf] d
    by (auto simp: signed_step_def NO_TURN_def bs(1))
qed

lemma demo_starts_daemon:
  "transitions demo_proof = []" "get_data (get_initial_state demo_daemon_proof) = demo_bytes InitialBoardState"
  "get_data (get_initial_state demo_closed_proof) = demo_bytes InitialBoardState"
  by (simp_all add: demo_proof_def demo_daemon_proof_def demo_closed_proof_def get_data_def get_initial_state_def)

lemma demo_ends_daemon:
  "UnverifiedProofEndState demo_proof = demo_bytes InitialBoardState"
  "UnverifiedProofEndState demo_daemon_proof = demo_bytes demo_1"
  "UnverifiedProofEndState demo_closed_proof = demo_bytes demo_2"
  using demo_starts_daemon(1)
  by (simp_all add: UnverifiedProofEndState_def demo_proof_data)
    (simp_all add: demo_daemon_proof_def demo_closed_proof_def get_data_def get_new_state_def)

lemma demo_verifies:
  assumes "get_data (get_initial_state pf) = demo_bytes InitialBoardState" and "UnverifiedProofEndState pf = s"
    and "signed_run demo_daemon_rules SetNull demo_meta (demo_parsed InitialBoardState) (transitions pf) q"
  shows "VerifyStateProof demo_daemon_rules SetNull demo_meta (demo_bytes InitialBoardState) pf = Inr s"
  using assms demo_equals_daemon [OF initial_wf] demo_parses_daemon [OF initial_wf, of SetNull]
  by (auto simp: VerifyStateProof_iff agreed_def)

lemma demo_verify_daemon:
  "VerifyStateProof demo_daemon_rules SetNull demo_meta (demo_bytes InitialBoardState) demo_proof
    = Inr (demo_bytes InitialBoardState)"
  "VerifyStateProof demo_daemon_rules SetNull demo_meta (demo_bytes InitialBoardState) demo_daemon_proof
    = Inr (demo_bytes demo_1)"
  "VerifyStateProof demo_daemon_rules SetNull demo_meta (demo_bytes InitialBoardState) demo_closed_proof
    = Inr (demo_bytes demo_2)"
proof -
  note 1 = demo_step_daemon [OF demo_wfs(1) demo_moves(1), of 0] and 2 = demo_step_daemon [OF demo_wfs(2) demo_moves(2), of 1]
  show "VerifyStateProof demo_daemon_rules SetNull demo_meta (demo_bytes InitialBoardState) demo_proof
    = Inr (demo_bytes InitialBoardState)"
    by (rule demo_verifies [OF demo_proof_data demo_ends_daemon(1)]) (simp add: demo_starts_daemon(1))
  show "VerifyStateProof demo_daemon_rules SetNull demo_meta (demo_bytes InitialBoardState) demo_daemon_proof
    = Inr (demo_bytes demo_1)"
    using 1 demo_counts_daemon(3)
    by (intro demo_verifies [OF demo_starts_daemon(2) demo_ends_daemon(2)]) (simp add: demo_daemon_proof_def)
  show "VerifyStateProof demo_daemon_rules SetNull demo_meta (demo_bytes InitialBoardState) demo_closed_proof
    = Inr (demo_bytes demo_2)"
    using 1 2 demo_counts_daemon(3,4)
    by (intro demo_verifies [OF demo_starts_daemon(3) demo_ends_daemon(3)]) (auto simp: demo_closed_proof_def)
qed

lemma demo_versions_daemon:
  "CheckVersionedProto demo_daemon_rules demo_meta demo_proof" "CheckVersionedProto demo_daemon_rules demo_meta demo_daemon_proof"
  by (simp_all add: CheckVersionedProto_def CheckProtoVersion_def CheckProtoVersion_SignedData_def demo_daemon_rules_def
      demo_env_def ShipsBoardRules_def demo_proof_def demo_daemon_proof_def get_initial_state_def
      get_new_state_def default_SignedData_def)

definition demo_move_sender :: "unit MoveSender" where
  "demo_move_sender = \<lparr>ms_channelId = SetNull, ms_playerName = ''foo'', ms_gameId = ''ships'', ms_sender = ()\<rparr>"

text \<open>Three states: after the first update with the initial state, after one with the first move, and after the dispute.\<close>

definition demo_entry :: "StateProof \<Rightarrow> BoardState \<Rightarrow> u32 \<Rightarrow> ShipsBoardState ReinitData" where
  "demo_entry pf pb c = \<lparr>rd_meta = demo_meta, reinitState = demo_bytes InitialBoardState, onChainTurn = c, rd_proof = pf,
     latestState = demo_parsed pb\<rparr>"

definition demo_cm :: "unit ShipsChannel \<Rightarrow> int \<Rightarrow> DisputeData option \<Rightarrow> ShipsBoardState ReinitData \<Rightarrow> (unit, unit) ShipsManager" where
  "demo_cm sc v d e = (new_ChannelManager sc)\<lparr>boardStates := new_RollingState\<lparr>reinits := [([], e)]\<rparr>,
     onChainSender := Some demo_move_sender, stateVersion := v, cm_exists := True, onChainHeight := Some 10, dispute := d,
     notifications := replicate (nat v - 1) {}\<rparr>"

definition demo_sc :: "unit ShipsChannel" where
  "demo_sc = new_ShipsChannel () SetNull SetNull"

abbreviation demo_cm0 :: "(unit, unit) ShipsManager" where
  "demo_cm0 \<equiv> (new_ChannelManager demo_sc)\<lparr>onChainSender := Some demo_move_sender\<rparr>"

lemma demo_first_update:
  assumes "CheckVersionedProto demo_daemon_rules demo_meta pf"
    and "VerifyStateProof demo_daemon_rules SetNull demo_meta (demo_bytes InitialBoardState) pf = Inr (demo_bytes pb)"
    and "board_wf pb" and "pTurnCount (rules demo_daemon_rules) (demo_parsed pb) = Some c"
  shows "UpdateOnChain demo_daemon_rules SetNull demo_meta (demo_bytes InitialBoardState) pf new_RollingState
    = Some (True, new_RollingState\<lparr>reinits := [([], demo_entry pf pb c)]\<rparr>)"
  using assms(1,2,4) demo_parses_daemon [OF assms(3), of SetNull]
  by (simp add: UpdateOnChain_def new_RollingState_def set_entry_def ExtractQueue_def demo_entry_def)
    (simp add: demo_meta_def)

lemma demo_auto_none: "InternalAutoMove demo_ships_env (demo_parsed InitialBoardState) demo_sc = Some (None, demo_sc)"
  by code_simp

lemma demo_loop:
  assumes "cm_game cm = demo_sc" and "current_entry (boardStates cm) = Some (demo_entry pf pb c)"
    and "pb = InitialBoardState \<or> pb = demo_1"
  shows "ProcessAutoMoves demo_daemon cm = Some (False, cm)"
proof -
  have st: "rs_GetLatestState (boardStates cm) = Some (demo_parsed pb)" "rs_GetMetadata (boardStates cm) = Some demo_meta"
    using assms(2) by (simp_all add: rs_GetLatestState_def rs_GetMetadata_def demo_entry_def)
  have n: "get_or [] (participant_name (participants demo_meta ! nat 0)) = ''foo''"
    "get_or [] (participant_name (participants demo_meta ! nat 1)) \<noteq> ''foo''"
    by (simp_all add: demo_meta_def)
  have "MaybeAutoMove (me_game demo_daemon) (demo_parsed InitialBoardState) demo_sc = Some (None, demo_sc)"
    by (simp add: demo_daemon_simps ships_OpenChannel_def ships_MaybeAutoMove_def demo_auto_none)
  moreover have "cm\<lparr>cm_game := demo_sc\<rparr> = cm" using assms(1) by simp
  ultimately show ?thesis
    unfolding ProcessAutoMoves_def using assms(3) st n assms(1)
    by (subst ProcessAutoMoves_loop.simps) (auto simp: demo_daemon_simps(1,3) demo_counts_daemon NO_TURN_def demo_two)
qed

lemma demo_quiet:
  assumes "cm_game cm = demo_sc" and "current_entry (boardStates cm) = Some (demo_entry pf pb c)"
    and "pb = InitialBoardState \<or> pb = demo_1" and "dispute cm = None" and "cm_exists cm"
  shows "ProcessStateUpdate demo_daemon False cm = NotifyStateChange cm"
proof -
  have "GetPhase pb \<noteq> FINISHED" using assms(3) by (auto simp: InitialBoardState_def GetPhase_def demo_1_def)
  then have "TryOnChainMove demo_daemon cm = Some cm"
    using assms(1,2)
    by (simp add: TryOnChainMove_def rs_GetLatestState_def demo_entry_def demo_daemon_simps ships_OpenChannel_def
        ships_MaybeOnChainMove_def split: option.split)
  then show ?thesis
    using assms demo_loop [OF assms(1-3)] by (simp add: ProcessStateUpdate_def TryResolveDispute_def)
qed

lemma demo_on_chain:
  "ProcessOnChain demo_daemon SetNull 10 demo_meta (demo_bytes InitialBoardState) demo_proof 0 demo_cm0
    = Some (demo_cm demo_sc 2 None (demo_entry demo_proof InitialBoardState 1))"
  "ProcessOnChain demo_daemon SetNull 10 demo_meta (demo_bytes InitialBoardState) demo_daemon_proof 0 demo_cm0
    = Some (demo_cm demo_sc 2 None (demo_entry demo_daemon_proof demo_1 2))"
  using demo_first_update [OF demo_versions_daemon(1) demo_verify_daemon(1) initial_wf demo_counts_daemon(1)]
    demo_first_update [OF demo_versions_daemon(2) demo_verify_daemon(2) demo_1_wf demo_counts_daemon(2)]
  by (simp_all add: ProcessOnChain_def demo_daemon_simps new_ChannelManager_def ResetMinedTxid_def UpdateDispute_def
      demo_quiet current_entry_def NotifyStateChange_def demo_cm_def new_RollingState_def)

definition demo_dispute :: DisputeData where
  "demo_dispute = \<lparr>dd_height = 5, dd_turn = 0, dd_count = 1, pendingResolution = SetNull\<rparr>"

lemma demo_second_update:
  "UpdateOnChain demo_daemon_rules SetNull demo_meta (demo_bytes InitialBoardState) demo_proof
      (new_RollingState\<lparr>reinits := [([], demo_entry demo_daemon_proof demo_1 2)]\<rparr>)
    = Some (False, new_RollingState\<lparr>reinits := [([], demo_entry demo_daemon_proof demo_1 2)]\<rparr>)"
proof -
  have "get_or [] (reinit demo_meta) = []" by (simp add: demo_meta_def)
  then show ?thesis
    using demo_versions_daemon(1) demo_verify_daemon(1) demo_parses_daemon [OF initial_wf, of SetNull] demo_counts_daemon
    by (simp add: UpdateOnChain_def new_RollingState_def set_entry_def demo_entry_def)
qed

lemma demo_resolves:
  assumes "cm_game cm = demo_sc" and "current_entry (boardStates cm) = Some (demo_entry demo_daemon_proof demo_1 2)"
    and "dispute cm = Some demo_dispute" and "cm_exists cm" and "onChainSender cm = Some demo_move_sender"
  shows "ProcessStateUpdate demo_daemon False cm = NotifyStateChange cm"
proof -
  have "ProtoToBase64 b64_encode (\<lambda>p. Some []) pf = Some []" for pf :: StateProof
    using EncodeBase64_eq [OF evp_ok_reference] by (simp add: ProtoToBase64_def)
  then have j: "\<exists>j. ships_ResolutionMove demo_ships_env i pf sc = Some j" for i pf sc
    by (simp add: ships_ResolutionMove_def DisputeResolutionMove_def demo_ships_env_def)
  have "SendMove demo_sender_env j demo_move_sender = Some (SetNull, demo_move_sender)" for j
    by (simp add: SendMove_def demo_sender_env_def)
  with j have send: "SendResolution demo_daemon pf sc demo_move_sender = Some (SetNull, demo_move_sender)" for pf sc
    by (auto simp: SendResolution_def demo_daemon_simps ships_OpenChannel_def Option.bind_eq_Some_conv)
  have "get_or [] (participant_name (participants demo_meta ! nat 0)) = ''foo''"
    by (simp add: demo_meta_def)
  then have "TryResolveDispute demo_daemon cm = Some cm"
    using assms send
    by (simp add: TryResolveDispute_def demo_dispute_def rs_GetMetadata_def rs_GetStateProof_def demo_entry_def NO_TURN_def
        demo_two LatestTurnCount_def rs_GetLatestState_def demo_daemon_simps(1-3) demo_counts_daemon)
  moreover have "GetPhase demo_1 \<noteq> FINISHED" by (simp add: InitialBoardState_def GetPhase_def demo_1_def)
  then have "TryOnChainMove demo_daemon cm = Some cm"
    using assms(1,2,5)
    by (simp add: TryOnChainMove_def rs_GetLatestState_def demo_entry_def demo_daemon_simps ships_OpenChannel_def
        ships_MaybeOnChainMove_def)
  ultimately show ?thesis
    using demo_loop [OF assms(1,2)] by (simp add: ProcessStateUpdate_def)
qed

lemma demo_disputed:
  "ProcessOnChain demo_daemon SetNull 10 demo_meta (demo_bytes InitialBoardState) demo_proof 5
      (demo_cm demo_sc 2 None (demo_entry demo_daemon_proof demo_1 2))
    = Some (demo_cm demo_sc 3 (Some demo_dispute) (demo_entry demo_daemon_proof demo_1 2))"
  using demo_second_update demo_parses_daemon [OF initial_wf, of SetNull]
  by (simp add: ProcessOnChain_def demo_daemon_simps demo_cm_def new_ChannelManager_def ResetMinedTxid_def UpdateDispute_def
      demo_ends_daemon demo_counts_daemon demo_dispute_def [symmetric] new_RollingState_def
      demo_resolves current_entry_def NotifyStateChange_def)
    (simp add: numeral_2_eq_2)

lemma demo_managers:
  "(cm_step demo_daemon)\<^sup>*\<^sup>* (new_ChannelManager demo_sc) (demo_cm demo_sc 2 None (demo_entry demo_proof InitialBoardState 1))"
  "(cm_step demo_daemon)\<^sup>*\<^sup>* (new_ChannelManager demo_sc) (demo_cm demo_sc 2 None (demo_entry demo_daemon_proof demo_1 2))"
  "cm_step demo_daemon (demo_cm demo_sc 2 None (demo_entry demo_daemon_proof demo_1 2))
     (demo_cm demo_sc 3 (Some demo_dispute) (demo_entry demo_daemon_proof demo_1 2))"
proof -
  have "SetMoveSender demo_move_sender (new_ChannelManager demo_sc :: (unit, unit) ShipsManager) = Some demo_cm0"
    by (simp add: SetMoveSender_def new_ChannelManager_def)
  then have 0: "cm_step demo_daemon (new_ChannelManager demo_sc) demo_cm0" by (rule set_sender)
  note 1 = on_chain [OF demo_on_chain(1)] and 2 = on_chain [OF demo_on_chain(2)] and 3 = on_chain [OF demo_disputed]
  show "(cm_step demo_daemon)\<^sup>*\<^sup>* (new_ChannelManager demo_sc) (demo_cm demo_sc 2 None (demo_entry demo_proof InitialBoardState 1))"
    using 0 1 by (meson r_into_rtranclp rtranclp.rtrancl_into_rtrancl)
  show "(cm_step demo_daemon)\<^sup>*\<^sup>* (new_ChannelManager demo_sc) (demo_cm demo_sc 2 None (demo_entry demo_daemon_proof demo_1 2))"
    using 0 2 by (meson r_into_rtranclp rtranclp.rtrancl_into_rtrancl)
qed (rule on_chain [OF demo_disputed])

section \<open>Properties\<close>

text \<open>
  C3: after any sequence of operations of a channel manager (updates from the chain and from the other
  participants, local and automatic moves, disputes, in any order), while the channel exists there is a
  current state; it has a valid state proof of the right version, it is not behind the state on chain,
  and neither is it behind the state of a known dispute; later operations never go back to an older state of any
  reinitialisation, and the state version never decreases.
\<close>

theorem manager_keeps_best_state:
  assumes "(cm_step E)\<^sup>*\<^sup>* (new_ChannelManager g) cm" and "(cm_step E)\<^sup>*\<^sup>* cm cm'"
  shows "not_older (me_env E) (boardStates cm) (boardStates cm') \<and> stateVersion cm \<le> stateVersion cm'
    \<and> (cm_exists cm' \<longrightarrow> (\<exists>e n. current_entry (boardStates cm') = Some e
         \<and> VerifyStateProof (me_env E) (me_channelId E) (rd_meta e) (reinitState e) (rd_proof e)
             = Inr (UnverifiedProofEndState (rd_proof e))
         \<and> ParseState (rules (me_env E)) (me_channelId E) (rd_meta e) (UnverifiedProofEndState (rd_proof e))
             = Inr (latestState e)
         \<and> CheckVersionedProto (me_env E) (rd_meta e) (rd_proof e)
         \<and> LatestTurnCount E cm' = Some n \<and> onChainTurn e \<le> n
         \<and> (\<forall>d. dispute cm' = Some d \<longrightarrow> dd_count d \<le> n)))"
proof -
  have inv: "cm_inv E cm'" and p: "cm_progress E cm cm'"
    using cm_steps_inv [OF assms(1) new_ChannelManager_inv] cm_steps_inv [OF assms(2)] by blast+
  note known_current [OF inv]
  with p show ?thesis by (simp add: cm_progress_def)
qed

theorem manager_keeps_best_state_witness:
  "\<exists>cm cm'. (cm_step demo_daemon)\<^sup>*\<^sup>* (new_ChannelManager demo_sc) cm \<and> cm_step demo_daemon cm cm'
    \<and> cm_exists cm' \<and> stateVersion cm \<le> stateVersion cm'
    \<and> (\<exists>e n. current_entry (boardStates cm') = Some e \<and> LatestTurnCount demo_daemon cm' = Some n \<and> onChainTurn e \<le> n)"
proof -
  have "cm_exists (demo_cm demo_sc 3 (Some demo_dispute) (demo_entry demo_daemon_proof demo_1 2))"
    by (simp add: demo_cm_def)
  with manager_keeps_best_state [OF demo_managers(2) r_into_rtranclp [where r = "cm_step demo_daemon", OF demo_managers(3)]]
    demo_managers(2,3)
  show ?thesis by blast
qed

text \<open>
  C7: when our player is disputed and the manager knows a later state than the disputed one, it sends the
  proof of its best state as a resolution, unless one is pending; on chain, the channel with the
  disputed state accepts this proof as a resolution, which ends the dispute.
\<close>

theorem manager_resolves_dispute:
  assumes "(cm_step E)\<^sup>*\<^sup>* (new_ChannelManager g) cm" and "cm_exists cm"
    and "dispute cm = Some d" and "IsNull (pendingResolution d)"
    and "rs_GetMetadata (boardStates cm) = Some meta"
    and "dd_turn d = int k" and "k < participants_size meta"
    and "get_or [] (participant_name (participants meta ! k)) = me_playerName E"
    and "LatestTurnCount E cm = Some n" and "dd_count d < n" and "onChainSender cm = Some ms"
  shows "\<exists>e. current_entry (boardStates cm) = Some e
    \<and> TryResolveDispute E cm = do {
        (txid, ms') \<leftarrow> SendResolution E (rd_proof e) (cm_game cm) ms;
        Some (cm\<lparr>onChainSender := Some ms', dispute := Some (d\<lparr>pendingResolution := txid\<rparr>)\<rparr>) }
    \<and> (\<forall>ch. channel_for (me_channelId E) e ch \<and> channel_turn (me_env E) ch = Some (dd_count d) \<longrightarrow>
         (\<exists>ch'. ProcessResolution (me_env E) ch (rd_proof e) = Some (True, ch') \<and> \<not> HasDispute ch'
            \<and> cd_proof ch' = rd_proof e \<and> channel_turn (me_env E) ch' = Some n))"
proof -
  have inv: "cm_inv E cm" using cm_steps_inv [OF assms(1) new_ChannelManager_inv] by blast
  have rs: "rs_known (me_env E) (me_channelId E) (boardStates cm)" using inv by (simp add: cm_inv_def)
  obtain e where e: "current_entry (boardStates cm) = Some e"
    using assms(5) by (auto simp: rs_GetMetadata_def)
  have n: "pTurnCount (rules (me_env E)) (latestState e) = Some n"
    using assms(9) e by (simp add: LatestTurnCount_def rs_GetLatestState_def)
  have "TryResolveDispute E cm = do {
        (txid, ms') \<leftarrow> SendResolution E (rd_proof e) (cm_game cm) ms;
        Some (cm\<lparr>onChainSender := Some ms', dispute := Some (d\<lparr>pendingResolution := txid\<rparr>)\<rparr>) }"
    using assms(2-11) e
    by (simp add: TryResolveDispute_def rs_GetStateProof_def NO_TURN_def not_le [symmetric])
  moreover {
    fix ch assume ch: "channel_for (me_channelId E) e ch" and c: "channel_turn (me_env E) ch = Some (dd_count d)"
    let ?ch = "ch\<lparr>cd_proof := rd_proof e, dirty := True, disputeHeight := 0\<rparr>"
    have "channel_turn (me_env E) ?ch = channel_turn (me_env E) (ch\<lparr>cd_proof := rd_proof e\<rparr>)"
      by (simp add: channel_turn_def GetLatestState_def parse_checked_def)
    with resolution_ok [OF rs e [unfolded current_entry_eq] n ch c assms(10)]
      entry_proof(4) [OF rs e [unfolded current_entry_eq] n ch]
    have "\<exists>ch'. ProcessResolution (me_env E) ch (rd_proof e) = Some (True, ch') \<and> \<not> HasDispute ch'
            \<and> cd_proof ch' = rd_proof e \<and> channel_turn (me_env E) ch' = Some n"
      by (intro exI [of _ ?ch]) (simp add: HasDispute_def) }
  ultimately show ?thesis using e by blast
qed

theorem manager_resolves_dispute_witness:
  "\<exists>e. current_entry (boardStates (demo_cm demo_sc 3 (Some demo_dispute) (demo_entry demo_daemon_proof demo_1 2))) = Some e
    \<and> (\<forall>ch. channel_for SetNull e ch \<and> channel_turn (me_env demo_daemon) ch = Some 1 \<longrightarrow>
         (\<exists>ch'. ProcessResolution (me_env demo_daemon) ch (rd_proof e) = Some (True, ch') \<and> \<not> HasDispute ch'
            \<and> cd_proof ch' = rd_proof e \<and> channel_turn (me_env demo_daemon) ch' = Some 2))"
proof -
  let ?cm = "demo_cm demo_sc 3 (Some demo_dispute) (demo_entry demo_daemon_proof demo_1 2)"
  have c: "cm_exists ?cm" "dispute ?cm = Some demo_dispute" "onChainSender ?cm = Some demo_move_sender"
    "rs_GetMetadata (boardStates ?cm) = Some demo_meta" "LatestTurnCount demo_daemon ?cm = Some 2"
    by (simp_all add: demo_cm_def rs_GetMetadata_def current_entry_def new_RollingState_def demo_entry_def LatestTurnCount_def
        rs_GetLatestState_def demo_daemon_simps(1) demo_counts_daemon)
  have d: "IsNull (pendingResolution demo_dispute)" "dd_turn demo_dispute = int 0" "dd_count demo_dispute < 2"
    "dd_count demo_dispute = 1"
    by (simp_all add: demo_dispute_def)
  have n: "get_or [] (participant_name (participants demo_meta ! 0)) = me_playerName demo_daemon" "0 < participants_size demo_meta"
    by (simp_all add: demo_daemon_simps) (simp_all add: demo_meta_def participants_size_def)
  have "(cm_step demo_daemon)\<^sup>*\<^sup>* (new_ChannelManager demo_sc) ?cm"
    using demo_managers(2,3) by (rule rtranclp.rtrancl_into_rtrancl)
  from manager_resolves_dispute [OF this c(1,2) d(1) c(4) d(2)
      n(2,1) c(5) d(3) c(3)]
  show ?thesis unfolding d(4) demo_daemon_simps(2) by blast
qed

text \<open>
  C15: a dispute that the manager files, when the channel exists and has no known or pending dispute,
  carries the proof of its best state.  The chain accepts this proof for the channel, when the state is
  later than the one on chain, it is somebody's turn in it, and the block has a positive height that is
  not below that of an earlier dispute; the dispute is then recorded at that height, with the proof.
\<close>

theorem manager_files_dispute:
  assumes "(cm_step E)\<^sup>*\<^sup>* (new_ChannelManager g) cm" and "cm_exists cm"
    and "dispute cm = None" and "IsNull (pendingDispute cm)" and "onChainSender cm = Some ms"
  shows "\<exists>e. current_entry (boardStates cm) = Some e
    \<and> FileDispute E cm = do {
        (txid, ms') \<leftarrow> SendDispute E (rd_proof e) (cm_game cm) ms;
        Some (txid, cm\<lparr>onChainSender := Some ms', pendingDispute := txid\<rparr>) }
    \<and> (\<forall>ch c n t height. channel_for (me_channelId E) e ch \<and> channel_turn (me_env E) ch = Some c
         \<and> LatestTurnCount E cm = Some n \<and> c < n
         \<and> pWhoseTurn (rules (me_env E)) (latestState e) = Some t \<and> t \<noteq> NO_TURN
         \<and> 0 < height \<and> disputeHeight ch \<le> height \<longrightarrow>
         (\<exists>ch'. ProcessDispute (me_env E) ch height (rd_proof e) = Some (True, ch')
            \<and> disputeHeight ch' = height \<and> cd_proof ch' = rd_proof e))"
proof -
  have inv: "cm_inv E cm" using cm_steps_inv [OF assms(1) new_ChannelManager_inv] by blast
  have rs: "rs_known (me_env E) (me_channelId E) (boardStates cm)" using inv by (simp add: cm_inv_def)
  obtain e where e: "current_entry (boardStates cm) = Some e"
    using inv assms(2) by (auto simp: cm_inv_def)
  have "FileDispute E cm = do {
        (txid, ms') \<leftarrow> SendDispute E (rd_proof e) (cm_game cm) ms;
        Some (txid, cm\<lparr>onChainSender := Some ms', pendingDispute := txid\<rparr>) }"
    using assms(2-5) e by (simp add: FileDispute_def rs_GetStateProof_def)
  moreover {
    fix ch c n t height
    assume ch: "channel_for (me_channelId E) e ch" "channel_turn (me_env E) ch = Some c"
      "LatestTurnCount E cm = Some n" "c < n"
      and t: "pWhoseTurn (rules (me_env E)) (latestState e) = Some t" "t \<noteq> NO_TURN"
      and h: "0 < height" "disputeHeight ch \<le> height"
    have n: "pTurnCount (rules (me_env E)) (latestState e) = Some n"
      using ch(3) e by (simp add: LatestTurnCount_def rs_GetLatestState_def)
    from dispute_ok [OF rs e [unfolded current_entry_eq] n ch(1,2,4) t h]
    have "\<exists>ch'. ProcessDispute (me_env E) ch height (rd_proof e) = Some (True, ch')
            \<and> disputeHeight ch' = height \<and> cd_proof ch' = rd_proof e" by simp }
  ultimately show ?thesis using e by blast
qed

theorem manager_files_dispute_witness:
  "\<exists>e. current_entry (boardStates (demo_cm demo_sc 2 None (demo_entry demo_daemon_proof demo_1 2))) = Some e
    \<and> FileDispute demo_daemon (demo_cm demo_sc 2 None (demo_entry demo_daemon_proof demo_1 2)) = do {
        (txid, ms') \<leftarrow> SendDispute demo_daemon (rd_proof e)
          (cm_game (demo_cm demo_sc 2 None (demo_entry demo_daemon_proof demo_1 2))) demo_move_sender;
        Some (txid, (demo_cm demo_sc 2 None (demo_entry demo_daemon_proof demo_1 2))
          \<lparr>onChainSender := Some ms', pendingDispute := txid\<rparr>) }
    \<and> (\<exists>ch'. ProcessDispute (me_env demo_daemon) demo_channel 5 (rd_proof e) = Some (True, ch')
         \<and> disputeHeight ch' = 5 \<and> cd_proof ch' = rd_proof e)"
proof -
  let ?cm = "demo_cm demo_sc 2 None (demo_entry demo_daemon_proof demo_1 2)" and ?e = "demo_entry demo_daemon_proof demo_1 2"
  have cm: "cm_exists ?cm" "dispute ?cm = None" "onChainSender ?cm = Some demo_move_sender" "IsNull (pendingDispute ?cm)"
    "current_entry (boardStates ?cm) = Some ?e"
    by (simp_all add: demo_cm_def new_ChannelManager_def new_RollingState_def current_entry_def)
  have ch: "channel_for (me_channelId demo_daemon) ?e demo_channel" "disputeHeight demo_channel \<le> 5"
    by (simp_all add: channel_for_def demo_channel_def demo_entry_def demo_daemon_simps(2))
  have "channel_turn (me_env demo_daemon) demo_channel = Some 1"
    using demo_parses_daemon [OF initial_wf, of SetNull] demo_counts_daemon(1) demo_ends_daemon(1)
    by (simp add: channel_turn_def demo_channel_def parse_checked_def demo_daemon_simps(1))
  moreover have "LatestTurnCount demo_daemon ?cm = Some 2" "pWhoseTurn (rules (me_env demo_daemon)) (latestState ?e) = Some 1"
    using cm(5) demo_counts_daemon by (simp_all add: LatestTurnCount_def rs_GetLatestState_def demo_daemon_simps(1))
      (simp_all add: demo_entry_def)
  moreover have "(1 :: u32) < 2" "(1 :: int) \<noteq> NO_TURN" "(0 :: u32) < 5" by (simp_all add: NO_TURN_def)
  moreover obtain e where e: "current_entry (boardStates ?cm) = Some e"
    "FileDispute demo_daemon ?cm = do {
        (txid, ms') \<leftarrow> SendDispute demo_daemon (rd_proof e) (cm_game ?cm) demo_move_sender;
        Some (txid, ?cm\<lparr>onChainSender := Some ms', pendingDispute := txid\<rparr>) }"
    "\<forall>ch c n t height. channel_for (me_channelId demo_daemon) e ch \<and> channel_turn (me_env demo_daemon) ch = Some c
         \<and> LatestTurnCount demo_daemon ?cm = Some n \<and> c < n
         \<and> pWhoseTurn (rules (me_env demo_daemon)) (latestState e) = Some t \<and> t \<noteq> NO_TURN
         \<and> 0 < height \<and> disputeHeight ch \<le> height \<longrightarrow>
         (\<exists>ch'. ProcessDispute (me_env demo_daemon) ch height (rd_proof e) = Some (True, ch')
            \<and> disputeHeight ch' = height \<and> cd_proof ch' = rd_proof e)"
    using manager_files_dispute [OF demo_managers(2) cm(1,2,4,3)] by blast
  moreover from this(1) cm(5) have "e = ?e" by simp
  ultimately show ?thesis using ch by blast
qed

text \<open>
  C13: in a daemon whose channel exists and whose best state is a well-formed state of a game in which our
  player's commitments match the board, the loop over automatic moves returns, and all moves that it
  finds are applied; afterwards it is not our turn, or the user has to set the position or to choose a
  target.  The manager's invariant and the match of the secrets with the board are kept.
\<close>

theorem ships_auto_moves_return:
  assumes "daemon_ok SE E codec m p" and "cm_inv E cm" and "cm_exists cm"
    and "current_entry (boardStates cm) = Some e" and "rd_meta e = m" and "ships_good (me_channelId E) m (latestState e)"
    and "parse_state codec (get_data (get_initial_state (rd_proof e))) = Some (pb0, False)" and "board_wf pb0"
    and "client_inv SE p (cm_game cm) (GetState (latestState e))"
  shows "\<exists>found cm' e'. ProcessAutoMoves E cm = Some (found, cm') \<and> cm_inv E cm' \<and> cm_exists cm'
    \<and> current_entry (boardStates cm') = Some e' \<and> client_inv SE p (cm_game cm') (GetState (latestState e'))
    \<and> (turn (GetState (latestState e')) \<noteq> Some p \<or> GetPhase (GetState (latestState e')) = SHOOT
       \<or> \<not> IsPositionSet (cm_game cm'))"
proof -
  let ?i = "me_channelId E" and ?s0 = "\<lparr>GetMetadata = m, GetState = pb0\<rparr>"
  note oc = ships_open_channel [OF assms(1)]
  have good0: "ships_good ?i m ?s0" using assms(6,8) by (simp add: ships_good_def)
  have "ParseState (ShipsBoardRules (se_sha SE) codec) ?i m (get_data (get_initial_state (rd_proof e))) = Inr ?s0"
    by (rule ships_parse [OF good0]) (simp add: assms(7))
  then have "open_channel.ready (ShipsBoardRules (se_sha SE) codec) ships_good E m cm (latestState e)"
    using assms(2-6) good0 by (auto simp: open_channel.ready_def [OF oc])
  from open_channel.auto_loop_returns [OF oc this assms(9), of False] obtain found cm' s where
    l: "ProcessAutoMoves_loop E False cm = Some (found, cm')"
    and r: "open_channel.ready (ShipsBoardRules (se_sha SE) codec) ships_good E m cm' s"
    and inv: "client_inv SE p (cm_game cm') (GetState s)"
    and st: "open_channel.settled (ShipsBoardRules (se_sha SE) codec) E m (\<lambda>sc s. client_inv SE p sc (GetState s)) cm' s"
    by blast
  from r obtain e' where e': "cm_inv E cm'" "cm_exists cm'" "current_entry (boardStates cm') = Some e'"
    "latestState e' = s" "ships_good ?i m s"
    by (auto simp: open_channel.ready_def [OF oc])
  from ships_settled [OF assms(1) e'(5) st] l e' inv show ?thesis
    by (auto simp: ProcessAutoMoves_def)
qed

theorem ships_auto_moves_return_witness:
  "\<exists>found cm'. ProcessAutoMoves demo_daemon (demo_cm demo_ships 2 None (demo_entry demo_proof InitialBoardState 1))
     = Some (found, cm') \<and> cm_exists cm'"
proof -
  let ?cm = "demo_cm demo_ships 2 None (demo_entry demo_proof InitialBoardState 1)"
  let ?e = "demo_entry demo_proof InitialBoardState 1"
  have "?cm = (demo_cm demo_sc 2 None ?e)\<lparr>cm_game := demo_ships\<rparr>"
    by (simp add: demo_cm_def new_ChannelManager_def)
  moreover have "(cm_step demo_daemon)\<^sup>*\<^sup>* (new_ChannelManager demo_sc) ((demo_cm demo_sc 2 None ?e)\<lparr>cm_game := demo_ships\<rparr>)"
    using demo_managers(1) cm_step.game by (rule rtranclp.rtrancl_into_rtrancl)
  ultimately have inv: "cm_inv demo_daemon ?cm"
    using cm_steps_inv [OF _ new_ChannelManager_inv] by fastforce
  have e: "cm_exists ?cm" "current_entry (boardStates ?cm) = Some ?e" "rd_meta ?e = demo_meta" "cm_game ?cm = demo_ships"
    "latestState ?e = demo_parsed InitialBoardState" "rd_proof ?e = demo_proof"
    by (simp_all add: demo_cm_def current_entry_def new_RollingState_def demo_entry_def new_ChannelManager_def)
  have "client_inv demo_ships_env 0 demo_ships InitialBoardState"
    by (rule SetPosition_inv [OF demo_plays client_initial demo_set_position])
  then have c: "client_inv demo_ships_env 0 (cm_game ?cm) (GetState (latestState ?e))" by (simp add: e)
  have p: "parse_state move_codec (get_data (get_initial_state (rd_proof ?e))) = Some (InitialBoardState, False)"
    using demo_parse by (simp add: e demo_proof_data move_codec_def)
  have g: "ships_good (me_channelId demo_daemon) demo_meta (latestState ?e)"
    by (simp add: e demo_initial_good)
  from ships_auto_moves_return [OF demo_daemon_ok inv e(1-3) g p initial_wf c] show ?thesis by blast
qed

end
