(* ===== verification/Daemon.thy ===== *)
theory Daemon
  imports ChainFeed ManagerProps
begin

text \<open>
  The channel daemon (\<open>sidechannel/daemon.cpp\<close>): the channel manager behind its lock
  (\<open>sidechannel/syncmanager.cpp\<close>), the feeder, and the loop that receives messages
  (\<open>sidechannel/recvbroadcast.cpp\<close>).  The threads are a step relation: an operation that holds the lock is
  one step, and the steps of the threads come in any order.
\<close>

section \<open>The manager behind its lock\<close>

record ('p, 'g, 't) SynchronisedChannelManager =
  scm_cm :: "('p, 'g, 't) ChannelManager"
  scm_stopped :: bool
  waiting :: nat

text \<open>The callback that the lock wrapper registers has the number zero.\<close>

definition new_SynchronisedChannelManager ::
    "('p, 'g, 't) ChannelManager \<Rightarrow> ('p, 'g, 't) SynchronisedChannelManager" where
  "new_SynchronisedChannelManager cm = \<lparr>scm_cm = RegisterCallback 0 cm, scm_stopped = False, waiting = 0\<rparr>"

definition StopUpdates :: "('p, 'g, 't) SynchronisedChannelManager \<Rightarrow> ('p, 'g, 't) SynchronisedChannelManager" where
  "StopUpdates s = s\<lparr>scm_stopped := True\<rparr>"

definition scm_ALWAYS_BLOCK :: int where
  "scm_ALWAYS_BLOCK = 0"

text \<open>
  \<open>WaitForChange\<close> up to the wait for the condition variable, with no result if it blocks, and after the
  wait.
\<close>

definition WaitForChange_enter ::
    "'p json_env \<Rightarrow> ('p, 'g, 't) ManagerEnv \<Rightarrow> int \<Rightarrow> ('p, 'g, 't) SynchronisedChannelManager
       \<Rightarrow> (json option \<times> ('p, 'g, 't) SynchronisedChannelManager) option" where
  "WaitForChange_enter J E knownVersion s =
    (if knownVersion \<noteq> scm_ALWAYS_BLOCK \<and> knownVersion \<noteq> stateVersion (scm_cm s) \<or> scm_stopped s
     then do { j \<leftarrow> cm_ToJson J E (scm_cm s); Some (Some j, s) }
     else Some (None, s\<lparr>waiting := waiting s + 1\<rparr>))"

definition WaitForChange_leave ::
    "'p json_env \<Rightarrow> ('p, 'g, 't) ManagerEnv \<Rightarrow> ('p, 'g, 't) SynchronisedChannelManager
       \<Rightarrow> (json \<times> ('p, 'g, 't) SynchronisedChannelManager) option" where
  "WaitForChange_leave J E s = do {
     check (waiting s > 0);
     j \<leftarrow> cm_ToJson J E (scm_cm s);
     Some (j, s\<lparr>waiting := waiting s - 1\<rparr>)
   }"

section \<open>Messages from the other participants\<close>

definition new_ReceivingOffChainBroadcast :: "('p, 'g, 't) ManagerEnv \<Rightarrow> OffChainBroadcast" where
  "new_ReceivingOffChainBroadcast E = \<lparr>bc_id = me_channelId E, bc_participants = {}, bc_sent = []\<rparr>"

definition FeedMessage ::
    "('p, 'g, 't) ManagerEnv \<Rightarrow> byte list \<Rightarrow> ('p, 'g, 't) ChannelManager \<Rightarrow> ('p, 'g, 't) ChannelManager option" where
  "FeedMessage E msg cm = do { bc \<leftarrow> offChainSender cm; ProcessIncoming E bc msg cm }"

section \<open>The daemon\<close>

record ('p, 'g, 't) ChannelDaemon =
  walletBased :: "('p, 'g, 't) SynchronisedChannelManager option"
  feeder :: "ChainToChannelFeeder option"
  offChain :: bool
  startedOnce :: bool
  feederRunning :: bool
  offChainRunning :: bool
  to_feed :: "byte list list"

definition new_ChannelDaemon :: "('p, 'g, 't) ChannelDaemon" where
  "new_ChannelDaemon = \<lparr>walletBased = None, feeder = None, offChain = False, startedOnce = False,
     feederRunning = False, offChainRunning = False, to_feed = []\<rparr>"

definition new_MoveSender :: "('p, 'g, 't) ManagerEnv \<Rightarrow> 't \<Rightarrow> 't MoveSender" where
  "new_MoveSender E t = \<lparr>ms_channelId = me_channelId E, ms_playerName = me_playerName E,
     ms_gameId = ChannelEnv.gameId (me_env E), ms_sender = t\<rparr>"

definition WalletBasedInstances ::
    "('p, 'g, 't) ManagerEnv \<Rightarrow> 'g \<Rightarrow> 't \<Rightarrow> ('p, 'g, 't) SynchronisedChannelManager option" where
  "WalletBasedInstances E g t = do {
     let s = new_SynchronisedChannelManager (new_ChannelManager g);
     cm \<leftarrow> SetMoveSender (new_MoveSender E t) (scm_cm s);
     Some (s\<lparr>scm_cm := cm\<rparr>)
   }"

definition ConnectWallet ::
    "('p, 'g, 't) ManagerEnv \<Rightarrow> 'g \<Rightarrow> 't \<Rightarrow> ('p, 'g, 't) ChannelDaemon \<Rightarrow> ('p, 'g, 't) ChannelDaemon option" where
  "ConnectWallet E g t d = do {
     check (walletBased d = None);
     s \<leftarrow> WalletBasedInstances E g t;
     Some (d\<lparr>walletBased := Some s\<rparr>)
   }"

definition ConnectGspRpc ::
    "('p, 'g, 't) ManagerEnv \<Rightarrow> ('p, 'g, 't) ChannelDaemon \<Rightarrow> ('p, 'g, 't) ChannelDaemon option" where
  "ConnectGspRpc E d = do {
     check (walletBased d \<noteq> None);
     check (feeder d = None);
     Some (d\<lparr>feeder := Some (new_ChainToChannelFeeder E)\<rparr>)
   }"

definition Daemon_SetOffChainBroadcast ::
    "OffChainBroadcast \<Rightarrow> ('p, 'g, 't) ChannelDaemon \<Rightarrow> ('p, 'g, 't) ChannelDaemon option" where
  "Daemon_SetOffChainBroadcast b d = do {
     s \<leftarrow> walletBased d;
     check (\<not> offChain d);
     cm \<leftarrow> SetOffChainBroadcast b (scm_cm s);
     Some (d\<lparr>offChain := True, walletBased := Some (s\<lparr>scm_cm := cm\<rparr>)\<rparr>)
   }"

definition Daemon_Start :: "('p, 'g, 't) ChannelDaemon \<Rightarrow> ('p, 'g, 't) ChannelDaemon option" where
  "Daemon_Start d = do {
     check (walletBased d \<noteq> None);
     check (feeder d \<noteq> None);
     check (offChain d);
     check (\<not> startedOnce d);
     let d = d\<lparr>startedOnce := True\<rparr>;
     check (\<not> feederRunning d);
     let d = d\<lparr>feederRunning := True\<rparr>;
     check (\<not> offChainRunning d);
     Some (d\<lparr>offChainRunning := True\<rparr>)
   }"

definition Daemon_Stop :: "('p, 'g, 't) ChannelDaemon \<Rightarrow> ('p, 'g, 't) ChannelDaemon option" where
  "Daemon_Stop d = do {
     s \<leftarrow> walletBased d;
     check (feeder d \<noteq> None);
     check (offChain d);
     check (startedOnce d);
     Some (d\<lparr>feederRunning := False, offChainRunning := False, walletBased := Some (StopUpdates s)\<rparr>)
   }"

text \<open>The first update and the later iterations of the feeder, with the answers of the GSP.\<close>

definition update_feeder ::
    "FeedCodec \<Rightarrow> ('p, 'g, 't) ManagerEnv \<Rightarrow> (int + string) option \<Rightarrow> json option \<Rightarrow> ('p, 'g, 't) ChannelDaemon
       \<Rightarrow> ('p, 'g, 't) ChannelDaemon option" where
  "update_feeder C E change answer d = do {
     f \<leftarrow> feeder d;
     s \<leftarrow> walletBased d;
     (f, cm) \<leftarrow> (case change of
         None \<Rightarrow> UpdateOnce C E answer f (scm_cm s)
       | Some ch \<Rightarrow> RunLoop_iteration C E ch answer f (scm_cm s));
     Some (d\<lparr>feeder := Some f, walletBased := Some (s\<lparr>scm_cm := cm\<rparr>)\<rparr>)
   }"

text \<open>The loop over messages: what \<open>GetMessages\<close> returns is fed to the manager one by one.\<close>

definition receive_messages :: "byte list list \<Rightarrow> ('p, 'g, 't) ChannelDaemon \<Rightarrow> ('p, 'g, 't) ChannelDaemon" where
  "receive_messages msgs d = d\<lparr>to_feed := msgs\<rparr>"

definition feed_next ::
    "('p, 'g, 't) ManagerEnv \<Rightarrow> ('p, 'g, 't) ChannelDaemon \<Rightarrow> ('p, 'g, 't) ChannelDaemon option" where
  "feed_next E d = (case to_feed d of
     [] \<Rightarrow> Some d
   | msg # msgs \<Rightarrow> do {
       s \<leftarrow> walletBased d;
       cm \<leftarrow> FeedMessage E msg (scm_cm s);
       Some (d\<lparr>to_feed := msgs, walletBased := Some (s\<lparr>scm_cm := cm\<rparr>)\<rparr>) })"

section \<open>Steps\<close>

text \<open>What the RPC server and the user do with the manager.\<close>

inductive rpc_step :: "('p, 'g, 't) ManagerEnv \<Rightarrow> ('p, 'g, 't) ChannelManager \<Rightarrow> ('p, 'g, 't) ChannelManager \<Rightarrow> bool"
  for E where
  rpc_move: "ProcessLocalMove E mv cm = Some cm' \<Longrightarrow> rpc_step E cm cm'"
| rpc_trigger: "TriggerAutoMoves E cm = Some cm' \<Longrightarrow> rpc_step E cm cm'"
| rpc_put_state: "PutStateOnChain E cm = Some (txid, cm') \<Longrightarrow> rpc_step E cm cm'"
| rpc_dispute: "FileDispute E cm = Some (txid, cm') \<Longrightarrow> rpc_step E cm cm'"
| rpc_game: "rpc_step E cm (cm\<lparr>cm_game := g\<rparr>)"
| rpc_wallet: "onChainSender cm = Some ms \<Longrightarrow> rpc_step E cm (cm\<lparr>onChainSender := Some (ms\<lparr>ms_sender := t\<rparr>)\<rparr>)"

inductive daemon_step ::
    "FeedCodec \<Rightarrow> 'p json_env \<Rightarrow> ('p, 'g, 't) ManagerEnv \<Rightarrow> ('p, 'g, 't) ChannelDaemon \<Rightarrow> ('p, 'g, 't) ChannelDaemon \<Rightarrow> bool"
  for C J E where
  connect_wallet: "ConnectWallet E g t d = Some d' \<Longrightarrow> daemon_step C J E d d'"
| connect_gsp: "ConnectGspRpc E d = Some d' \<Longrightarrow> daemon_step C J E d d'"
| connect_broadcast: "Daemon_SetOffChainBroadcast (new_ReceivingOffChainBroadcast E) d = Some d' \<Longrightarrow> daemon_step C J E d d'"
| start: "Daemon_Start d = Some d' \<Longrightarrow> daemon_step C J E d d'"
| stop: "Daemon_Stop d = Some d' \<Longrightarrow> daemon_step C J E d d'"
| feed_chain: "\<lbrakk>feederRunning d; update_feeder C E change answer d = Some d'\<rbrakk> \<Longrightarrow> daemon_step C J E d d'"
| receive: "\<lbrakk>offChainRunning d; to_feed d = []\<rbrakk> \<Longrightarrow> daemon_step C J E d (receive_messages msgs d)"
| feed_message: "\<lbrakk>offChainRunning d; feed_next E d = Some d'\<rbrakk> \<Longrightarrow> daemon_step C J E d d'"
| rpc: "\<lbrakk>walletBased d = Some s; rpc_step E (scm_cm s) cm\<rbrakk>
    \<Longrightarrow> daemon_step C J E d (d\<lparr>walletBased := Some (s\<lparr>scm_cm := cm\<rparr>)\<rparr>)"
| wait_enter: "\<lbrakk>walletBased d = Some s; WaitForChange_enter J E known s = Some (res, s')\<rbrakk>
    \<Longrightarrow> daemon_step C J E d (d\<lparr>walletBased := Some s'\<rparr>)"
| wait_leave: "\<lbrakk>walletBased d = Some s; 0 < waiting s; WaitForChange_leave J E s = Some (res, s')\<rbrakk>
    \<Longrightarrow> daemon_step C J E d (d\<lparr>walletBased := Some s'\<rparr>)"

section \<open>Invariant\<close>

text \<open>
  The manager of the daemon is one that the operations of a manager lead to; the sender of moves is
  connected from the beginning, the broadcaster is connected when the daemon starts, and the channel is
  not known to exist before.
\<close>

definition manager_of_daemon ::
    "('p, 'g, 't) ManagerEnv \<Rightarrow> ('p, 'g, 't) ChannelDaemon \<Rightarrow> ('p, 'g, 't) ChannelManager \<Rightarrow> bool" where
  "manager_of_daemon E d cm \<longleftrightarrow> (\<exists>g. (cm_step E)\<^sup>*\<^sup>* (new_ChannelManager g) cm) \<and> onChainSender cm \<noteq> None
     \<and> (offChain d \<longrightarrow> map_option bc_id (offChainSender cm) = Some (me_channelId E))
     \<and> (cm_exists cm \<longrightarrow> startedOnce d)"

definition daemon_inv :: "('p, 'g, 't) ManagerEnv \<Rightarrow> ('p, 'g, 't) ChannelDaemon \<Rightarrow> bool" where
  "daemon_inv E d \<longleftrightarrow> (\<forall>s. walletBased d = Some s \<longrightarrow> manager_of_daemon E d (scm_cm s))
     \<and> (walletBased d = None \<longrightarrow> feeder d = None \<and> \<not> offChain d)
     \<and> (startedOnce d \<longrightarrow> feeder d \<noteq> None \<and> offChain d)
     \<and> (feederRunning d \<or> offChainRunning d \<longrightarrow> startedOnce d)
     \<and> (\<forall>f. feeder d = Some f \<longrightarrow> channelIdHex f = ToHex (me_channelId E))"

lemma new_ChannelDaemon_inv: "daemon_inv E new_ChannelDaemon"
  by (simp add: daemon_inv_def new_ChannelDaemon_def)

text \<open>Operations of the manager keep what the daemon needs of it.\<close>

lemma manager_step:
  assumes "manager_of_daemon E d cm" and st: "(cm_step E)\<^sup>*\<^sup>* cm cm'" and "cm_exists cm' \<longrightarrow> startedOnce d"
  shows "manager_of_daemon E d cm'"
proof -
  obtain g where g: "(cm_step E)\<^sup>*\<^sup>* (new_ChannelManager g) cm"
    using assms(1) by (auto simp: manager_of_daemon_def)
  have "cm_inv E cm" using cm_steps_inv [OF g new_ChannelManager_inv] by blast
  then have "senders_kept cm cm'" using cm_steps_inv [OF st] by (simp add: cm_progress_def)
  then show ?thesis
    using assms(1,3) rtranclp_trans [OF g st] by (auto simp: manager_of_daemon_def senders_kept_def)
qed

lemma daemon_manager:
  assumes "daemon_inv E d" and "walletBased d = Some s" and "(cm_step E)\<^sup>*\<^sup>* (scm_cm s) cm'" and "cm_exists cm' \<longrightarrow> startedOnce d"
  shows "daemon_inv E (d\<lparr>walletBased := Some (s\<lparr>scm_cm := cm'\<rparr>)\<rparr>)"
proof -
  have "manager_of_daemon E d cm'"
    using manager_step [OF _ assms(3,4)] assms(1,2) by (simp add: daemon_inv_def)
  then show ?thesis using assms(1,2) by (simp add: daemon_inv_def manager_of_daemon_def)
qed

lemma rpc_step_manager:
  assumes "rpc_step E cm cm'"
  shows "cm_step E cm cm' \<and> (cm_exists cm' \<longrightarrow> cm_exists cm)"
  using assms
proof cases
  case (rpc_move mv)
  then show ?thesis by (cases "cm_exists cm") (auto simp: ProcessLocalMove_def intro: local_move)
next
  case rpc_trigger
  then show ?thesis by (cases "cm_exists cm") (auto simp: TriggerAutoMoves_def intro: trigger)
next
  case (rpc_put_state txid)
  then show ?thesis by (cases "cm_exists cm") (auto simp: PutStateOnChain_def intro: put_state)
next
  case (rpc_dispute txid)
  then show ?thesis by (cases "cm_exists cm") (auto simp: FileDispute_def intro: file_dispute)
qed (auto intro: game wallet)

lemma feed_channel_step:
  assumes "feed_channel C E blk h channel f cm = Some cm'"
  shows "cm_step E cm cm'"
proof -
  from assms obtain meta rstate pf dh where "ProcessOnChain E blk h meta rstate pf dh cm = Some cm'"
    unfolding feed_channel_def Option.bind_eq_Some_conv by blast
  then show ?thesis by (rule on_chain)
qed

lemma UpdateOnce_steps:
  assumes "UpdateOnce C E answer f cm = Some (f', cm')"
  shows "(cm_step E)\<^sup>*\<^sup>* cm cm' \<and> channelIdHex f' = channelIdHex f"
proof -
  obtain data state where d: "answer = Some data" "json_at data ''state'' = Some state"
    using assms by (auto simp: UpdateOnce_def Option.bind_eq_Some_conv)
  show ?thesis
  proof (cases "state = JString ''up-to-date'' \<and> member data ''blockhash'' \<noteq> JNull")
    case True
    then obtain blk h where f: "f' = f\<lparr>lastBlock := blk\<rparr>"
      and c: "ProcessOnChainNonExistant blk h cm = Some cm'
        \<or> feed_channel C E blk h (member data ''channel'') (f\<lparr>lastBlock := blk\<rparr>) cm = Some cm'"
      using assms d by (auto simp: UpdateOnce_def Let_def Option.bind_eq_Some_conv case_prod_beta split: if_split_asm)
    then have "cm_step E cm cm'" using non_existant feed_channel_step by blast
    then show ?thesis using f by auto
  next
    case False
    then show ?thesis using assms d by (auto simp: UpdateOnce_def Let_def split: if_split_asm)
  qed
qed

lemma RunLoop_iteration_cases:
  "RunLoop_iteration C E change answer f cm = Some (f', cm') \<Longrightarrow>
     f' = f \<and> cm' = cm \<or> UpdateOnce C E answer f cm = Some (f', cm')"
  by (auto simp: RunLoop_iteration_def split: sum.splits if_splits)

lemma update_feeder_steps:
  assumes "update_feeder C E change answer d = Some d'"
  obtains f f' s cm' where "feeder d = Some f" "walletBased d = Some s" "(cm_step E)\<^sup>*\<^sup>* (scm_cm s) cm'"
    "channelIdHex f' = channelIdHex f" "d' = d\<lparr>feeder := Some f', walletBased := Some (s\<lparr>scm_cm := cm'\<rparr>)\<rparr>"
proof -
  obtain f f' s cm' where u: "feeder d = Some f" "walletBased d = Some s"
    "(case change of
         None \<Rightarrow> UpdateOnce C E answer f (scm_cm s)
       | Some ch \<Rightarrow> RunLoop_iteration C E ch answer f (scm_cm s)) = Some (f', cm')"
    "d' = d\<lparr>feeder := Some f', walletBased := Some (s\<lparr>scm_cm := cm'\<rparr>)\<rparr>"
    using assms by (auto simp: update_feeder_def Option.bind_eq_Some_conv)
  have "f' = f \<and> cm' = scm_cm s \<or> UpdateOnce C E answer f (scm_cm s) = Some (f', cm')"
    using u(3) RunLoop_iteration_cases [of C E _ answer f "scm_cm s" f' cm'] by (cases change) auto
  then have "(cm_step E)\<^sup>*\<^sup>* (scm_cm s) cm' \<and> channelIdHex f' = channelIdHex f" using UpdateOnce_steps by blast
  with u(1,2,4) that show thesis by blast
qed

lemma FeedMessage_steps: "FeedMessage E msg cm = Some cm' \<Longrightarrow> (cm_step E)\<^sup>*\<^sup>* cm cm'"
  by (auto simp: FeedMessage_def ProcessIncoming_def Option.bind_eq_Some_conv intro: off_chain split: if_splits option.splits)

lemma daemon_step_inv:
  assumes "daemon_step C J E d d'" and inv: "daemon_inv E d"
  shows "daemon_inv E d'"
  using assms(1)
proof cases
  case (connect_wallet g t)
  let ?cm = "RegisterCallback 0 (new_ChannelManager g) :: ('a, 'b, 'c) ChannelManager"
  obtain cm where cm: "SetMoveSender (new_MoveSender E t) ?cm = Some cm" "walletBased d = None"
    "d' = d\<lparr>walletBased := Some \<lparr>scm_cm = cm, scm_stopped = False, waiting = 0\<rparr>\<rparr>"
    using connect_wallet by (auto simp: ConnectWallet_def WalletBasedInstances_def new_SynchronisedChannelManager_def Let_def Option.bind_eq_Some_conv split: if_splits)
  have "(cm_step E)\<^sup>*\<^sup>* (new_ChannelManager g) cm"
    using register [of E "new_ChannelManager g" 0] set_sender [OF cm(1), of E] by (meson r_into_rtranclp rtranclp.rtrancl_into_rtrancl)
  moreover have "onChainSender cm \<noteq> None" "\<not> cm_exists cm"
    using cm(1) by (auto simp: SetMoveSender_def RegisterCallback_def new_ChannelManager_def split: if_splits)
  ultimately show ?thesis
    using cm(2,3) inv by (auto simp: daemon_inv_def manager_of_daemon_def)
next
  case connect_gsp
  then have "d' = d\<lparr>feeder := Some (new_ChainToChannelFeeder E)\<rparr>" "walletBased d \<noteq> None" "feeder d = None"
    by (auto simp: ConnectGspRpc_def split: if_splits)
  then show ?thesis
    using inv by (simp add: daemon_inv_def manager_of_daemon_def new_ChainToChannelFeeder_def) blast
next
  case connect_broadcast
  then obtain s cm where b: "walletBased d = Some s" "SetOffChainBroadcast (new_ReceivingOffChainBroadcast E) (scm_cm s) = Some cm"
    "d' = d\<lparr>offChain := True, walletBased := Some (s\<lparr>scm_cm := cm\<rparr>)\<rparr>"
    by (auto simp: Daemon_SetOffChainBroadcast_def Option.bind_eq_Some_conv split: if_splits)
  have st: "(cm_step E)\<^sup>*\<^sup>* (scm_cm s) cm" using set_broadcast [OF b(2), of E] by (rule r_into_rtranclp)
  have e: "cm_exists cm = cm_exists (scm_cm s)" "map_option bc_id (offChainSender cm) = Some (me_channelId E)"
    using b(2) by (auto simp: SetOffChainBroadcast_def new_ReceivingOffChainBroadcast_def split: if_splits)
  have m: "manager_of_daemon E d (scm_cm s)" using inv b(1) by (simp add: daemon_inv_def)
  then have "cm_exists cm \<longrightarrow> startedOnce d" using e(1) by (simp add: manager_of_daemon_def)
  with manager_step [OF m st] have "manager_of_daemon E d cm" by blast
  with e b inv show ?thesis by (simp add: daemon_inv_def manager_of_daemon_def)
next
  case start
  then have "d' = d\<lparr>startedOnce := True, feederRunning := True, offChainRunning := True\<rparr>" "feeder d \<noteq> None" "offChain d"
    by (auto simp: Daemon_Start_def Let_def split: if_splits)
  then show ?thesis using inv by (simp add: daemon_inv_def manager_of_daemon_def)
next
  case stop
  then obtain s where "walletBased d = Some s"
    "d' = d\<lparr>feederRunning := False, offChainRunning := False, walletBased := Some (StopUpdates s)\<rparr>"
    by (auto simp: Daemon_Stop_def Option.bind_eq_Some_conv split: if_splits)
  then show ?thesis using inv by (simp add: daemon_inv_def manager_of_daemon_def StopUpdates_def)
next
  case (feed_chain change answer)
  obtain f f' s cm' where f: "feeder d = Some f" "walletBased d = Some s" "(cm_step E)\<^sup>*\<^sup>* (scm_cm s) cm'"
    "channelIdHex f' = channelIdHex f" "d' = d\<lparr>feeder := Some f', walletBased := Some (s\<lparr>scm_cm := cm'\<rparr>)\<rparr>"
    using feed_chain(2) by (rule update_feeder_steps)
  have "startedOnce d" using inv feed_chain(1) by (simp add: daemon_inv_def)
  with daemon_manager [OF inv f(2,3)] f show ?thesis using inv by (auto simp: daemon_inv_def manager_of_daemon_def)
next
  case (receive msgs)
  then show ?thesis using inv by (auto simp: receive_messages_def daemon_inv_def manager_of_daemon_def)
next
  case feed_message
  have "startedOnce d" using inv feed_message(1) by (simp add: daemon_inv_def)
  show ?thesis
  proof (cases "to_feed d")
    case (Cons msg msgs)
    obtain s cm where m: "walletBased d = Some s" "FeedMessage E msg (scm_cm s) = Some cm"
      "d' = d\<lparr>to_feed := msgs, walletBased := Some (s\<lparr>scm_cm := cm\<rparr>)\<rparr>"
      using feed_message(2) Cons by (auto simp: feed_next_def Option.bind_eq_Some_conv)
    from daemon_manager [OF inv m(1) FeedMessage_steps [OF m(2)]] \<open>startedOnce d\<close> m(3) show ?thesis
      by (auto simp: daemon_inv_def manager_of_daemon_def)
  qed (use feed_message inv in \<open>simp add: feed_next_def\<close>)
next
  case (rpc s cm)
  have "manager_of_daemon E d (scm_cm s)" using inv rpc(2) by (simp add: daemon_inv_def)
  with rpc_step_manager [OF rpc(3)] daemon_manager [OF inv rpc(2), of cm] rpc(1) show ?thesis
    by (auto simp: manager_of_daemon_def)
next
  case (wait_enter s known res s')
  then have "scm_cm s' = scm_cm s" by (auto simp: WaitForChange_enter_def Option.bind_eq_Some_conv split: if_splits)
  with wait_enter inv show ?thesis by (auto simp: daemon_inv_def manager_of_daemon_def)
next
  case (wait_leave s res s')
  then have "scm_cm s' = scm_cm s" by (auto simp: WaitForChange_leave_def Option.bind_eq_Some_conv split: if_splits)
  with wait_leave inv show ?thesis by (auto simp: daemon_inv_def manager_of_daemon_def)
qed

lemma daemon_steps_inv: "(daemon_step C J E)\<^sup>*\<^sup>* d d' \<Longrightarrow> daemon_inv E d \<Longrightarrow> daemon_inv E d'"
  by (induction rule: rtranclp_induct) (auto intro: daemon_step_inv)

section \<open>Properties\<close>

text \<open>
  C14: in every state that the threads of a channel daemon can reach, the manager is one that operations of
  a manager lead to, and it can send moves; while its channel exists it can also broadcast states; and
  while the loop over messages runs, a message is ignored or it is processed as the update that it
  contains, without failing the checks of the connections.
\<close>

theorem daemon_connected:
  assumes "(daemon_step C J E)\<^sup>*\<^sup>* new_ChannelDaemon d" and "walletBased d = Some s"
  shows "(\<exists>g. (cm_step E)\<^sup>*\<^sup>* (new_ChannelManager g) (scm_cm s)) \<and> onChainSender (scm_cm s) \<noteq> None
    \<and> (cm_exists (scm_cm s) \<longrightarrow> map_option bc_id (offChainSender (scm_cm s)) = Some (me_channelId E))
    \<and> (offChainRunning d \<longrightarrow> FeedMessage E msg (scm_cm s) =
        (case ProcessIncoming_decode (me_codec E) msg of
           None \<Rightarrow> Some (scm_cm s)
         | Some (re, pf) \<Rightarrow> ProcessOffChain E re pf (scm_cm s)))"
proof -
  have inv: "daemon_inv E d" by (rule daemon_steps_inv [OF assms(1) new_ChannelDaemon_inv])
  then have m: "manager_of_daemon E d (scm_cm s)" using assms(2) by (simp add: daemon_inv_def)
  have sent: "map_option bc_id (offChainSender (scm_cm s)) = Some (me_channelId E)" if "startedOnce d"
    using inv m that by (simp add: daemon_inv_def manager_of_daemon_def)
  have run: "offChainRunning d \<longrightarrow> startedOnce d" using inv by (simp add: daemon_inv_def)
  have "FeedMessage E msg (scm_cm s) = (case ProcessIncoming_decode (me_codec E) msg of
      None \<Rightarrow> Some (scm_cm s) | Some (re, pf) \<Rightarrow> ProcessOffChain E re pf (scm_cm s))" if "offChainRunning d"
    using sent run that
    by (auto simp: FeedMessage_def ProcessIncoming_def ProcessIncoming_decode_def split: option.splits)
  with m sent show ?thesis by (auto simp: manager_of_daemon_def)
qed

text \<open>What a manager does with a message: the update of the rolling state, and then the update of the rest.\<close>

lemma ProcessIncoming_decoded:
  assumes "ProcessIncoming_decode (me_codec E) msg = Some (re, pf)" and "bc_id bc = me_channelId E"
  shows "ProcessIncoming E bc msg cm = ProcessOffChain E re pf cm"
  using assms by (auto simp: ProcessIncoming_def ProcessIncoming_decode_def split: if_splits option.splits)

lemma off_chain_not_older:
  assumes "ProcessOffChain E re pf cm = Some cm2" and "cm_inv E cm"
    and "UpdateWithMove (me_env E) (me_channelId E) re pf (boardStates cm) = Some (changed, rs)"
  shows "not_older (me_env E) rs (boardStates cm2)"
proof -
  have "cm_moves E cm (cm\<lparr>boardStates := rs\<rparr>)" using UpdateWithMove_known [OF assms(3)] by (auto simp: cm_moves_def)
  with assms(2) have inv: "cm_inv E (cm\<lparr>boardStates := rs\<rparr>)" using cm_moves_inv by blast
  show ?thesis
  proof (cases changed)
    case True
    then show ?thesis
      using assms(1,3) ProcessStateUpdate_inv [OF _ inv, of False cm2] by (simp add: ProcessOffChain_def cm_progress_def)
  next
    case False
    then show ?thesis using assms(1,3) by (auto simp: ProcessOffChain_def not_older_refl)
  qed
qed

text \<open>
  C12: the state that a manager broadcasts in a message that fits the size limit arrives: the manager of
  another participant that knows the same reinitialisation, with the same metadata and initial state,
  accepts the message.  If the state is later than the one that it knows, it takes it over with its
  proof, and, if the reinitialisation is its current one, goes on as after every change of state, with
  automatic moves and so on; else it changes nothing.  Unless these later steps stop the process (as an automatic move
  in a channel that is gone does), it then knows a state that is at least as late as both.
\<close>

theorem broadcast_updates_peer:
  assumes "(cm_step E)\<^sup>*\<^sup>* (new_ChannelManager g) cm" and "(cm_step E')\<^sup>*\<^sup>* (new_ChannelManager g') cm'"
    and "me_env E' = me_env E" and "me_channelId E' = me_channelId E" and "me_codec E' = me_codec E"
    and "broadcast_codec_ok (me_codec E)"
    and "current_entry (boardStates cm) = Some e"
    and "map_of (reinits (boardStates cm')) (reinitId (boardStates cm)) = Some e'"
    and "rd_meta e' = rd_meta e" and "reinitState e' = reinitState e"
    and "BroadcastState E cm = Some cm1" and "offChainSender cm1 = Some bc" and "length (last (bc_sent bc)) \<le> MAX_MESSAGE_SIZE"
    and "offChainSender cm' = Some bc'" and "bc_id bc' = me_channelId E'"
  shows "\<exists>n n' changed rs e''. pTurnCount (rules (me_env E)) (latestState e) = Some n
    \<and> pTurnCount (rules (me_env E)) (latestState e') = Some n'
    \<and> UpdateWithMove (me_env E') (me_channelId E') (reinitId (boardStates cm)) (rd_proof e) (boardStates cm') = Some (changed, rs)
    \<and> changed = (n' < n \<and> reinitId (boardStates cm) = reinitId (boardStates cm'))
    \<and> e'' = (if n' < n then e'\<lparr>rd_proof := rd_proof e, latestState := latestState e\<rparr> else e')
    \<and> reinitId rs = reinitId (boardStates cm')
    \<and> map_of (reinits rs) = (map_of (reinits (boardStates cm')))(reinitId (boardStates cm) \<mapsto> e'')
    \<and> FeedMessage E' (last (bc_sent bc)) cm' = (if changed then ProcessStateUpdate E' False (cm'\<lparr>boardStates := rs\<rparr>)
        else Some (cm'\<lparr>boardStates := rs\<rparr>))
    \<and> (\<forall>cm2. FeedMessage E' (last (bc_sent bc)) cm' = Some cm2 \<longrightarrow>
        (\<exists>c. turn_of (me_env E') (boardStates cm2) (reinitId (boardStates cm)) = Some c \<and> max n n' \<le> c))"
proof -
  let ?env = "me_env E" and ?i = "me_channelId E" and ?re = "reinitId (boardStates cm)" and ?msg = "last (bc_sent bc)"
  have inv': "cm_inv E' cm'" using cm_steps_inv [OF assms(2)] new_ChannelManager_inv [of E' g'] by simp
  have kn: "rs_known ?env ?i (boardStates cm)" "rs_known ?env ?i (boardStates cm')"
    using cm_steps_inv [OF assms(1) new_ChannelManager_inv] inv' assms(3,4) by (simp_all add: cm_inv_def)
  note cur = assms(7) [unfolded current_entry_eq]
  obtain n n' where n: "pTurnCount (rules ?env) (latestState e) = Some n" "pTurnCount (rules ?env) (latestState e') = Some n'"
    using rs_knownD(4) [OF kn(1) cur] rs_knownD(4) [OF kn(2) assms(8)] by blast
  have "RollingState.entry_ok ?env ?i e" using rs_knownD(1) [OF kn(1) cur] cur by (auto simp: rs_inv_def)
  then obtain st where st: "VerifyStateProof ?env ?i (rd_meta e') (reinitState e') (rd_proof e) = Inr st"
    "ParseState (rules ?env) ?i (rd_meta e') st = Inr (latestState e)"
    using assms(9,10) by (auto simp: RollingState.entry_ok_def)
  have v: "CheckVersionedProto ?env (rd_meta e') (rd_proof e)" using rs_knownD(2) [OF kn(1) cur] assms(9) by simp
  obtain bc0 where b: "SendNewState (me_codec E) ?re (rd_proof e) bc0 = Some bc"
    using assms(7,11,12)
    by (auto simp: BroadcastState_def GetReinitId_def rs_GetStateProof_def Option.bind_eq_Some_conv split: if_splits)
  have "ProcessIncoming_decode (me_codec E) ?msg = Some (?re, rd_proof e)"
    using SendNewState_decodes [OF assms(6), of ?re "rd_proof e" bc0] b assms(13)
    by (metis OffChainBroadcast.select_convs(3) OffChainBroadcast.surjective OffChainBroadcast.update_convs(3)
        last_snoc option.inject)
  then have feed: "FeedMessage E' ?msg cm' = ProcessOffChain E' ?re (rd_proof e) cm'"
    using ProcessIncoming_decoded [of E' ?msg] assms(5,14,15) by (simp add: FeedMessage_def)
  define e'' where "e'' = (if n' < n then e'\<lparr>rd_proof := rd_proof e, latestState := latestState e\<rparr> else e')"
  have "\<exists>changed rs. UpdateWithMove ?env ?i ?re (rd_proof e) (boardStates cm') = Some (changed, rs)
      \<and> changed = (n' < n \<and> ?re = reinitId (boardStates cm')) \<and> reinitId rs = reinitId (boardStates cm')
      \<and> map_of (reinits rs) = (map_of (reinits (boardStates cm')))(?re \<mapsto> e'')"
    using assms(8) v st n
    by (auto simp: UpdateWithMove_def e''_def set_entry_def update_conv' fun_upd_idem not_le split: if_splits)
  then obtain changed rs where u: "UpdateWithMove (me_env E') (me_channelId E') ?re (rd_proof e) (boardStates cm') = Some (changed, rs)"
    and c: "changed = (n' < n \<and> ?re = reinitId (boardStates cm'))" "reinitId rs = reinitId (boardStates cm')"
      "map_of (reinits rs) = (map_of (reinits (boardStates cm')))(?re \<mapsto> e'')"
    using assms(3,4) by auto
  have t: "turn_of (me_env E') rs ?re = Some (max n n')"
    using n assms(3) by (auto simp: turn_of_def c(3) e''_def max_def)
  have later: "\<exists>c. turn_of (me_env E') (boardStates cm2) ?re = Some c \<and> max n n' \<le> c" if "FeedMessage E' ?msg cm' = Some cm2" for cm2
    using off_chain_not_older [OF _ inv' u] that t unfolding feed not_older_def by blast
  show ?thesis
    unfolding feed using n u c e''_def later [unfolded feed]
    by (intro exI [of _ n] exI [of _ n'] exI [of _ changed] exI [of _ rs] exI [of _ e'']) (simp add: ProcessOffChain_def)
qed

text \<open>
  C39: a manager whose channel is gone from the chain still takes over newer states from the other
  participants; if one makes it our turn and the game has an automatic move, the process aborts.
\<close>

theorem closed_channel_update_aborts:
  assumes "\<not> cm_exists cm"
    and "UpdateWithMove (me_env E) (me_channelId E) re pf (boardStates cm) = Some (True, rs)"
    and "rs_GetLatestState rs = Some p" and "rs_GetMetadata rs = Some meta"
    and "pWhoseTurn (rules (me_env E)) p = Some t" and "0 \<le> t" and "t < int (participants_size meta)"
    and "get_or [] (participant_name (participants meta ! nat t)) = me_playerName E"
    and "MaybeAutoMove (me_game E) p (cm_game cm) = Some (Some mv, g)"
  shows "ProcessOffChain E re pf cm = None"
proof -
  have "ApplyLocalMove E mv (cm\<lparr>boardStates := rs, cm_game := g\<rparr>) = None"
    using assms(1) by (simp add: ApplyLocalMove_def)
  then have "ProcessAutoMoves E (cm\<lparr>boardStates := rs\<rparr>) = None"
    unfolding ProcessAutoMoves_def using assms(3-9)
    by (subst ProcessAutoMoves_loop.simps) (simp add: NO_TURN_def)
  then show ?thesis
    using assms(2) by (simp add: ProcessOffChain_def ProcessStateUpdate_def)
qed

end
