(* ===== verification/DaemonDemo.thy ===== *)
theory DaemonDemo
  imports DaemonProps Daemon
begin

text \<open>
  The properties of channel daemons on a concrete daemon, with a concrete game-state processor and with other
  daemons.
\<close>

section \<open>The chain\<close>

theorem daemon_follows_chain_witness:
  "\<exists>answer g'. DefaultGetChannel sync_env (\<lambda>h. None) demo_views (rules (cenv demo_gsp)) (\<lambda>d. db_channels (demo_db (Some 5)))
      (ToHex (me_channelId demo_daemon)) (demo_game (demo_tables 2 [0, 1] [(PruningQueue.demo_block 2, ([0], 1))]) 1) = Some (answer, g')
    \<and> (let f = new_ChainToChannelFeeder demo_daemon in
        UpdateOnce demo_feed demo_daemon answer f (new_ChannelManager demo_sc) = Some (f, new_ChannelManager demo_sc)
        \<or> (\<exists>h. UpdateOnce demo_feed demo_daemon answer f (new_ChannelManager demo_sc)
             = map_option (Pair (f\<lparr>lastBlock := h\<rparr>))
                 (on_chain_update demo_daemon h (cv_height demo_chain h) (db_channels (demo_db (Some 5))) (new_ChannelManager demo_sc))))"
proof -
  let ?g = "demo_game (demo_tables 2 [0, 1] [(PruningQueue.demo_block 2, ([0], 1))]) 1"
    and ?ch = "\<lambda>d :: byte list. db_channels (demo_db (Some 5))" and ?f = "new_ChainToChannelFeeder demo_daemon"
  let ?ex = "\<lambda>st (h :: uint256) (height :: u32). channel_json demo_views (rules (cenv demo_gsp)) (?ch st) SetNull"
  have cb: "callback_true (cv_height demo_chain) (\<lambda>h. None)" by (simp add: callback_true_def)
  have c: "empty_parses (gcodec demo_gsp)" by (simp add: empty_parses_def demo_gsp_def demo_codec_def)
  have inv: "gsp_inv demo_gsp 7 (demo_db (Some 5))" by (rule demo_db_inv) auto
  have row: "map_of (db_channels (demo_db (Some 5))) SetNull = Some (demo_row (Some 5))" by (simp add: demo_db_def)
  obtain jc where jc: "?ex st h height = Some jc" for st h height
    using channel_json_defined [OF demo_views_ok demo_gsp_ok c inv row] row by (auto simp: channel_json_def GetById_def)
  have "GetCustomStateData sync_env (\<lambda>h. None) ''channel'' ?ex ?g \<noteq> None"
    by (simp add: GetCustomStateData_def demo_chain_name demo_storage GetCurrentBlockHashWithHeight_def sync_env_def SQLiteStorage_ops_def
      SQLite_GetCurrentBlockHash_def read_current_def ref_api_def demo_tables_def demo_reads(5) Let_def store_cached_def jc)
      (simp add: current_game_state_def game_storage_def HeightCache_ops_def SQLite_GetCurrentGameState_def read_current_def)
  then obtain j g' where "GetCustomStateData sync_env (\<lambda>h. None) ''channel'' ?ex ?g = Some (j, g')" by fastforce
  then have q: "DefaultGetChannel sync_env (\<lambda>h. None) demo_views (rules (cenv demo_gsp)) ?ch (ToHex (me_channelId demo_daemon)) ?g = Some (Some j, g')"
    by (simp add: DefaultGetChannel_def hex_roundtrip demo_wf(2) demo_daemon_simps)
  have f: "channelIdHex ?f = ToHex (me_channelId demo_daemon)" by (simp add: new_ChainToChannelFeeder_def)
  have d: "uint (disputeHeight ch) < 2 ^ 31" if "GetById (me_channelId demo_daemon) (?ch d) = Some ch" for d ch
    using that by (auto simp: GetById_def demo_daemon_simps demo_db_def load_ChannelData_def demo_row_def)
  have wf: "uint256_wf (me_channelId demo_daemon)" by (simp add: demo_daemon_simps demo_wf(2))
  from daemon_follows_chain [OF demo_args demo_run(2) cb demo_feed_ok wf f d q] q show ?thesis
    unfolding Let_def by blast
qed

section \<open>A running daemon\<close>

definition demo_manager_started :: "(unit, unit) ShipsManager" where
  "demo_manager_started = (RegisterCallback 0 (new_ChannelManager demo_sc))\<lparr>onChainSender := Some (new_MoveSender demo_daemon ()),
     offChainSender := Some (new_ReceivingOffChainBroadcast demo_daemon)\<rparr>"

definition demo_started :: "(ShipsBoardState, unit ShipsChannel, unit) ChannelDaemon" where
  "demo_started = \<lparr>walletBased = Some \<lparr>scm_cm = demo_manager_started, scm_stopped = False, waiting = 0\<rparr>,
     feeder = Some (new_ChainToChannelFeeder demo_daemon), offChain = True, startedOnce = True, feederRunning = True,
     offChainRunning = True, to_feed = []\<rparr>"

lemma demo_daemon_start: "(daemon_step demo_feed demo_views demo_daemon)\<^sup>*\<^sup>* new_ChannelDaemon demo_started"
proof -
  let ?step = "daemon_step demo_feed demo_views demo_daemon"
  let ?cm = "(RegisterCallback 0 (new_ChannelManager demo_sc))\<lparr>onChainSender := Some (new_MoveSender demo_daemon ())\<rparr>"
  let ?d1 = "new_ChannelDaemon\<lparr>walletBased := Some \<lparr>scm_cm = ?cm, scm_stopped = False, waiting = 0\<rparr>\<rparr>"
  let ?d2 = "?d1\<lparr>feeder := Some (new_ChainToChannelFeeder demo_daemon)\<rparr>"
  let ?d3 = "?d2\<lparr>offChain := True, walletBased := Some \<lparr>scm_cm = demo_manager_started, scm_stopped = False, waiting = 0\<rparr>\<rparr>"
  have "ConnectWallet demo_daemon demo_sc () new_ChannelDaemon = Some ?d1"
    by (simp add: ConnectWallet_def WalletBasedInstances_def new_ChannelDaemon_def new_SynchronisedChannelManager_def SetMoveSender_def RegisterCallback_def
        new_ChannelManager_def)
  then have 1: "?step new_ChannelDaemon ?d1" by (rule connect_wallet)
  have "ConnectGspRpc demo_daemon ?d1 = Some ?d2"
    by (simp add: ConnectGspRpc_def new_ChannelDaemon_def)
  then have 2: "?step ?d1 ?d2" by (rule connect_gsp)
  have "Daemon_SetOffChainBroadcast (new_ReceivingOffChainBroadcast demo_daemon) ?d2 = Some ?d3"
    by (simp add: Daemon_SetOffChainBroadcast_def new_ChannelDaemon_def SetOffChainBroadcast_def RegisterCallback_def
        new_ChannelManager_def demo_manager_started_def)
  then have 3: "?step ?d2 ?d3" by (rule connect_broadcast)
  have "Daemon_Start ?d3 = Some demo_started"
    by (simp add: Daemon_Start_def new_ChannelDaemon_def demo_started_def)
  then have 4: "?step ?d3 demo_started" by (rule start)
  from 1 2 3 4 show ?thesis by (meson r_into_rtranclp rtranclp.rtrancl_into_rtrancl)
qed

theorem daemon_connected_witness:
  "(\<exists>g. (cm_step demo_daemon)\<^sup>*\<^sup>* (new_ChannelManager g) demo_manager_started)
    \<and> FeedMessage demo_daemon [] demo_manager_started
      = (case ProcessIncoming_decode (me_codec demo_daemon) [] of
           None \<Rightarrow> Some demo_manager_started
         | Some (re, pf) \<Rightarrow> ProcessOffChain demo_daemon re pf demo_manager_started)"
proof -
  have "walletBased demo_started = Some \<lparr>scm_cm = demo_manager_started, scm_stopped = False, waiting = 0\<rparr>"
    "offChainRunning demo_started" by (simp_all add: demo_started_def)
  with daemon_connected [OF demo_daemon_start this(1), of "[]", unfolded SynchronisedChannelManager.select_convs]
  show ?thesis by blast
qed

section \<open>Messages between daemons\<close>

text \<open>
  The first player's manager knows the state after its move and sends it; a manager that knows the initial
  state takes it over.
\<close>

definition demo_peer :: "(unit, unit) ShipsManager" where
  "demo_peer = (demo_cm demo_sc 2 None (demo_entry demo_proof InitialBoardState 1))
     \<lparr>offChainSender := Some (new_ReceivingOffChainBroadcast demo_daemon)\<rparr>"

definition demo_speaker :: "(unit, unit) ShipsManager" where
  "demo_speaker = (demo_cm demo_sc 2 None (demo_entry demo_daemon_proof demo_1 2))
     \<lparr>offChainSender := Some (new_ReceivingOffChainBroadcast demo_daemon)\<rparr>"

lemma demo_connected:
  "(cm_step demo_daemon)\<^sup>*\<^sup>* (new_ChannelManager demo_sc) demo_speaker"
  "(cm_step demo_daemon)\<^sup>*\<^sup>* (new_ChannelManager demo_sc) demo_peer"
proof -
  let ?bc = "new_ReceivingOffChainBroadcast demo_daemon"
  have set: "SetOffChainBroadcast ?bc (demo_cm demo_sc 2 None e) = Some ((demo_cm demo_sc 2 None e)\<lparr>offChainSender := Some ?bc\<rparr>)" for e
    by (simp add: SetOffChainBroadcast_def demo_cm_def new_ChannelManager_def)
  show "(cm_step demo_daemon)\<^sup>*\<^sup>* (new_ChannelManager demo_sc) demo_speaker"
    unfolding demo_speaker_def using demo_managers(2) set_broadcast [OF set] by (rule rtranclp.rtrancl_into_rtrancl)
  show "(cm_step demo_daemon)\<^sup>*\<^sup>* (new_ChannelManager demo_sc) demo_peer"
    unfolding demo_peer_def using demo_managers(1) set_broadcast [OF set] by (rule rtranclp.rtrancl_into_rtrancl)
qed

lemma demo_heard:
  assumes "current_entry rs = Some (demo_entry demo_daemon_proof demo_1 1)"
  shows "\<exists>cm2. ProcessStateUpdate demo_daemon False (demo_peer\<lparr>boardStates := rs\<rparr>) = Some cm2 \<and> boardStates cm2 = rs"
proof -
  have "ProcessStateUpdate demo_daemon False (demo_peer\<lparr>boardStates := rs\<rparr>) = NotifyStateChange (demo_peer\<lparr>boardStates := rs\<rparr>)"
    using assms by (intro demo_quiet [of _ demo_daemon_proof demo_1 1]) (simp_all add: demo_peer_def demo_cm_def new_ChannelManager_def)
  then show ?thesis by (simp add: NotifyStateChange_def demo_peer_def demo_cm_def new_ChannelManager_def)
qed

theorem broadcast_updates_peer_witness:
  "\<exists>cm1 bc cm2 e2. BroadcastState demo_daemon demo_speaker = Some cm1 \<and> offChainSender cm1 = Some bc
    \<and> FeedMessage demo_daemon (last (bc_sent bc)) demo_peer = Some cm2
    \<and> current_entry (boardStates cm2) = Some e2 \<and> latestState e2 = demo_parsed demo_1 \<and> rd_proof e2 = demo_daemon_proof"
proof -
  let ?bc = "new_ReceivingOffChainBroadcast demo_daemon"
  let ?e = "demo_entry demo_daemon_proof demo_1 2" and ?e' = "demo_entry demo_proof InitialBoardState 1"
  have re: "reinitId (boardStates demo_speaker) = []" "reinitId (boardStates demo_peer) = []"
    and e: "current_entry (boardStates demo_speaker) = Some ?e"
    and e': "map_of (reinits (boardStates demo_peer)) (reinitId (boardStates demo_speaker)) = Some ?e'"
    and m: "rd_meta ?e' = rd_meta ?e" "reinitState ?e' = reinitState ?e"
    and p: "offChainSender demo_peer = Some ?bc" "bc_id ?bc = me_channelId demo_daemon"
    by (simp_all add: demo_speaker_def demo_peer_def demo_cm_def new_RollingState_def current_entry_def demo_entry_def
        new_ReceivingOffChainBroadcast_def)
  have b: "BroadcastState demo_daemon demo_speaker = Some (demo_speaker\<lparr>offChainSender := Some (?bc\<lparr>bc_sent := [[]]\<rparr>)\<rparr>)"
    by (simp add: demo_speaker_def BroadcastState_def demo_cm_def GetReinitId_def rs_GetStateProof_def new_RollingState_def
        current_entry_def demo_entry_def SendNewState_def demo_daemon_simps demo_broadcasts_def demo_broadcast_def
        new_ReceivingOffChainBroadcast_def)
  have c: "broadcast_codec_ok (me_codec demo_daemon)" by (simp add: demo_daemon_simps demo_broadcasts_ok)
  have s: "offChainSender (demo_speaker\<lparr>offChainSender := Some (?bc\<lparr>bc_sent := [[]]\<rparr>)\<rparr>) = Some (?bc\<lparr>bc_sent := [[]]\<rparr>)"
    "length (last (bc_sent (?bc\<lparr>bc_sent := [[]]\<rparr>))) \<le> MAX_MESSAGE_SIZE" by simp_all
  have n: "pTurnCount (rules (me_env demo_daemon)) (latestState ?e) = Some 2"
    "pTurnCount (rules (me_env demo_daemon)) (latestState ?e') = Some 1" "(1 :: u32) < 2"
    by (simp_all add: demo_entry_def demo_daemon_simps(1) demo_counts_daemon)
  obtain rs where rs: "reinitId rs = []" "map_of (reinits rs) [] = Some (?e'\<lparr>rd_proof := rd_proof ?e, latestState := latestState ?e\<rparr>)"
    "FeedMessage demo_daemon (last (bc_sent (?bc\<lparr>bc_sent := [[]]\<rparr>))) demo_peer
      = ProcessStateUpdate demo_daemon False (demo_peer\<lparr>boardStates := rs\<rparr>)"
    using broadcast_updates_peer [OF demo_connected refl refl refl c e e' m b s p] unfolding n re by auto
  have cur: "current_entry rs = Some (demo_entry demo_daemon_proof demo_1 1)"
    using rs(1,2) by (simp add: current_entry_eq demo_entry_def)
  from demo_heard [OF this] obtain cm2 where "FeedMessage demo_daemon (last (bc_sent (?bc\<lparr>bc_sent := [[]]\<rparr>))) demo_peer = Some cm2"
    "boardStates cm2 = rs" using rs(3) by auto
  with b s(1) cur show ?thesis
    by (intro exI [of _ "demo_speaker\<lparr>offChainSender := Some (?bc\<lparr>bc_sent := [[]]\<rparr>)\<rparr>"] exI [of _ "?bc\<lparr>bc_sent := [[]]\<rparr>"]
        exI [of _ cm2] exI [of _ "demo_entry demo_daemon_proof demo_1 1"]) (simp add: demo_entry_def)
qed

section \<open>A channel that is gone\<close>

text \<open>
  The first player's manager after its move, when the chain no longer has the channel: the second player's
  commitment arrives, and the automatic reveal of the seed aborts the process.
\<close>

definition demo_closed :: "(unit, unit) ShipsManager" where
  "demo_closed = (demo_cm demo_sc 3 None (demo_entry demo_daemon_proof demo_1 2))\<lparr>cm_exists := False, onChainHeight := Some 11\<rparr>"

lemma demo_closed_reached: "(cm_step demo_daemon)\<^sup>*\<^sup>* (new_ChannelManager demo_sc) demo_closed"
proof -
  have "ProcessOnChainNonExistant SetNull 11 (demo_cm demo_sc 2 None (demo_entry demo_daemon_proof demo_1 2)) = Some demo_closed"
    by (simp add: ProcessOnChainNonExistant_def demo_cm_def new_ChannelManager_def NotifyStateChange_def demo_closed_def)
      (simp add: numeral_2_eq_2)
  then show ?thesis
    using demo_managers(2) non_existant by (meson rtranclp.rtrancl_into_rtrancl)
qed

theorem closed_channel_update_aborts_witness:
  "(cm_step demo_daemon)\<^sup>*\<^sup>* (new_ChannelManager demo_sc) demo_closed
    \<and> ProcessOffChain demo_daemon [] demo_closed_proof demo_closed = None"
proof -
  let ?e = "demo_entry demo_daemon_proof demo_1 2"
  let ?rs = "set_entry [] (?e\<lparr>rd_proof := demo_closed_proof, latestState := demo_parsed demo_2\<rparr>) (boardStates demo_closed)"
  have c: "pTurnCount (rules demo_daemon_rules) (demo_parsed demo_2) = Some 3"
    "pWhoseTurn (rules demo_daemon_rules) (demo_parsed demo_2) = Some 0"
    by (simp_all add: demo_rules_daemon ShipsBoardRules_def TurnCount_def WhoseTurn_def demo_two InitialBoardState_def
        GetPhase_def demo_1_def demo_2_def Let_def)
  have v: "CheckVersionedProto demo_daemon_rules demo_meta demo_closed_proof"
    by (simp add: CheckVersionedProto_def CheckProtoVersion_def CheckProtoVersion_SignedData_def demo_daemon_rules_def
        demo_env_def ShipsBoardRules_def demo_proof_def demo_closed_proof_def get_initial_state_def
        get_new_state_def default_SignedData_def)
  have e: "map_of (reinits (boardStates demo_closed)) [] = Some ?e" "reinitId (boardStates demo_closed) = []"
    by (simp_all add: demo_closed_def demo_cm_def new_RollingState_def)
  have "UpdateWithMove (me_env demo_daemon) (me_channelId demo_daemon) [] demo_closed_proof (boardStates demo_closed) = Some (True, ?rs)"
    using e v c(1) demo_verify_daemon(3) demo_parses_daemon [OF demo_wfs(2), of SetNull] demo_counts_daemon(2)
    by (simp add: UpdateWithMove_def demo_daemon_simps(1,2) demo_entry_def not_le [symmetric])
  moreover have "rs_GetLatestState ?rs = Some (demo_parsed demo_2)" "rs_GetMetadata ?rs = Some demo_meta"
    using e(2) current_entry_eq [of ?rs "?e\<lparr>rd_proof := demo_closed_proof, latestState := demo_parsed demo_2\<rparr>"]
    by (simp_all add: rs_GetLatestState_def rs_GetMetadata_def map_of_set_entry) (simp add: demo_entry_def)
  moreover have "InternalAutoMove demo_ships_env (demo_parsed demo_2) demo_sc
      = Some (Some (kSeedReveal \<lparr>sr_seed = Some (GetBinaryString SetNull)\<rparr>), demo_sc)"
    by code_simp
  then obtain bs where "MaybeAutoMove (me_game demo_daemon) (demo_parsed demo_2) (cm_game demo_closed) = Some (Some bs, demo_sc)"
    using demo_ser_move
    by (auto simp: demo_daemon_simps ships_OpenChannel_def ships_MaybeAutoMove_def demo_closed_def demo_cm_def new_ChannelManager_def
        demo_ships_env_def demo_ser_move_def)
  moreover have "\<not> cm_exists demo_closed" by (simp add: demo_closed_def)
  moreover have "get_or [] (participant_name (participants demo_meta ! nat 0)) = me_playerName demo_daemon"
    "(0 :: int) < int (participants_size demo_meta)"
    by (simp add: demo_meta_def demo_daemon_simps) (simp add: demo_two)
  ultimately show ?thesis
    using closed_channel_update_aborts [of demo_closed demo_daemon "[]" demo_closed_proof ?rs "demo_parsed demo_2" demo_meta 0 bs demo_sc]
      c(2) demo_closed_reached by (simp add: demo_daemon_simps(1))
qed

end
