(* ===== verification/SqliteGame.thy ===== *)
theory SqliteGame
  imports SqliteStorage GameLogic
begin

text \<open>
  Games with their state in an SQLite database (\<open>SQLiteGame\<close> of \<open>spacexpansegame/sqlitegame.cpp\<close>, and the
  processors of \<open>sqliteproc.cpp\<close>).

  The database is the one of the storage, with more tables: those of the framework and those of the game,
  whose rows are of a type \<open>'g\<close> that is left open.  The virtual functions that a game implements are given
  as game code: a tree of the statements that it executes and of the automatic IDs that it asks for.
  Game code must not write tables of the framework (\<open>sqlitegame.hpp\<close>: names starting with
  \<open>spacexpansegame_\<close> are reserved), except through the functions for the schema version and the IDs.
\<close>

section \<open>The database\<close>

record gamevars =
  has_schema_version :: bool
  gv_rows :: "(int \<times> int \<times> string) list"

record 'g game_part =
  vars_table :: "gamevars option"
  autoids :: "(string \<times> int) list"
  game_rows :: 'g

record 'g gsp_tables = sql_tables +
  statehashes :: "(uint256 \<times> uint256) list"
  game_part :: "'g game_part"

type_synonym ('c, 'g) game_api = "('c, ('g, unit) gsp_tables_ext) sqlite_api"

text \<open>The marker for the initialised state; a column \<open>schema_version\<close> may be missing in an old file.\<close>

definition IsGameInitialised :: "'g game_part \<Rightarrow> bool option" where
  "IsGameInitialised p = (case vars_table p of
     None \<Rightarrow> None
   | Some v \<Rightarrow> (case gv_rows v of
       [(k, n, ver)] \<Rightarrow> if n = 0 then Some False else if n = 1 then Some True else None
     | _ \<Rightarrow> None))"

definition set_initialised :: "'g game_part \<Rightarrow> 'g game_part" where
  "set_initialised p = p\<lparr>vars_table := map_option
     (\<lambda>v. v\<lparr>gv_rows := map (\<lambda>(k, n, ver). (k, 1, ver)) (gv_rows v)\<rparr>) (vars_table p)\<rparr>"

definition GetSchemaVersion :: "'g game_part \<Rightarrow> string option" where
  "GetSchemaVersion p = (case vars_table p of
     None \<Rightarrow> None
   | Some v \<Rightarrow> if \<not> has_schema_version v then None
       else (case gv_rows v of [(k, n, ver)] \<Rightarrow> Some ver | _ \<Rightarrow> None))"

definition SetSchemaVersion :: "string \<Rightarrow> 'g game_part \<Rightarrow> 'g game_part option" where
  "SetSchemaVersion version p = (case vars_table p of
     None \<Rightarrow> None
   | Some v \<Rightarrow> if \<not> has_schema_version v then None
       else Some (p\<lparr>vars_table := Some (v\<lparr>gv_rows := map (\<lambda>(k, n, ver). (k, n, version)) (gv_rows v)\<rparr>)\<rparr>))"

text \<open>The tables of the framework, with the column that old files do not have.\<close>

definition create_gamevars :: "gamevars option \<Rightarrow> gamevars" where
  "create_gamevars vars =
    (let v = (case vars of None \<Rightarrow> \<lparr>has_schema_version = False, gv_rows = []\<rparr> | Some v \<Rightarrow> v);
         v = (if map_of (gv_rows v) 1 = None then v\<lparr>gv_rows := member_set 1 (0, []) (gv_rows v)\<rparr> else v)
     in if has_schema_version v then v
        else v\<lparr>has_schema_version := True, gv_rows := map (\<lambda>(k, n, ver). (k, n, [])) (gv_rows v)\<rparr>)"

section \<open>Automatic IDs\<close>

record AutoId =
  nextValue :: u64
  dbValue :: u64

definition EMPTY_ID :: u64 where
  "EMPTY_ID = 0"

definition new_AutoId :: "string \<Rightarrow> 'g game_part \<Rightarrow> AutoId option" where
  "new_AutoId key p = (case map_of (autoids p) key of
     Some v \<Rightarrow> do {
       check ((of_int v :: u64) \<noteq> EMPTY_ID);
       Some \<lparr>nextValue = of_int v, dbValue = of_int v\<rparr>
     }
   | None \<Rightarrow> Some \<lparr>nextValue = 1, dbValue = EMPTY_ID\<rparr>)"

definition GetNext :: "AutoId \<Rightarrow> u64 \<times> AutoId" where
  "GetNext a = (nextValue a, a\<lparr>nextValue := nextValue a + 1\<rparr>)"

definition ReserveUpTo :: "u64 \<Rightarrow> AutoId \<Rightarrow> AutoId" where
  "ReserveUpTo e a = a\<lparr>nextValue := max (nextValue a) (e + 1)\<rparr>"

text \<open>An unsigned value is bound as a signed one, and the process aborts when it does not fit.\<close>

definition AutoId_Sync :: "string \<Rightarrow> AutoId \<Rightarrow> 'g game_part \<Rightarrow> (AutoId \<times> 'g game_part) option" where
  "AutoId_Sync key a p =
    (if nextValue a = dbValue a then Some (a, p)
     else do {
       check (uint (nextValue a) \<le> 2 ^ 63 - 1);
       Some (a\<lparr>dbValue := nextValue a\<rparr>, p\<lparr>autoids := member_set key (uint (nextValue a)) (autoids p)\<rparr>)
     })"

type_synonym active_ids = "(string \<times> AutoId) list"

definition active_Get :: "string \<Rightarrow> active_ids \<Rightarrow> 'g game_part \<Rightarrow> (AutoId \<times> active_ids) option" where
  "active_Get key ids p = (case map_of ids key of
     Some a \<Rightarrow> Some (a, ids)
   | None \<Rightarrow> do { a \<leftarrow> new_AutoId key p; Some (a, member_set key a ids) })"

text \<open>The destructor of the active IDs writes each of them back; the one of an ID checks that it was.\<close>

fun sync_ids :: "active_ids \<Rightarrow> 'g game_part \<Rightarrow> 'g game_part option" where
  "sync_ids [] p = Some p"
| "sync_ids ((key, a) # ids) p = do {
     (a', p') \<leftarrow> AutoId_Sync key a p;
     check (dbValue a' = nextValue a');
     sync_ids ids p'
   }"

section \<open>Game code\<close>

datatype 'g game_code =
    Finish
  | Throw
  | Crash
  | Execute "'g \<Rightarrow> 'g" "'g game_code"
  | Query "'g \<Rightarrow> 'g game_code"
  | NextId string "u64 \<Rightarrow> 'g game_code"
  | ReserveIds string u64 "'g game_code"
  | ReadVersion "string \<Rightarrow> 'g game_code"
  | WriteVersion string "'g game_code"

text \<open>
  Game code runs with a set of active IDs, which starts empty in each call; calls are not nested.
\<close>

primrec run_code :: "'g game_code \<Rightarrow> active_ids \<times> 'g game_part \<Rightarrow> (active_ids \<times> 'g game_part) outcome" where
  "run_code Finish x = Done x"
| "run_code Throw x = Thrown x"
| "run_code Crash x = Aborted"
| "run_code (Execute f k) x = run_code k (fst x, (snd x)\<lparr>game_rows := f (game_rows (snd x))\<rparr>)"
| "run_code (Query f) x = run_code (f (game_rows (snd x))) x"
| "run_code (NextId key k) x = (case active_Get key (fst x) (snd x) of
     None \<Rightarrow> Aborted
   | Some (a, ids) \<Rightarrow> run_code (k (fst (GetNext a))) (member_set key (snd (GetNext a)) ids, snd x))"
| "run_code (ReserveIds key e k) x = (case active_Get key (fst x) (snd x) of
     None \<Rightarrow> Aborted
   | Some (a, ids) \<Rightarrow> run_code k (member_set key (ReserveUpTo e a) ids, snd x))"
| "run_code (ReadVersion f) x = (case GetSchemaVersion (snd x) of
     None \<Rightarrow> Aborted
   | Some version \<Rightarrow> run_code (f version) x)"
| "run_code (WriteVersion version k) x = (case SetSchemaVersion version (snd x) of
     None \<Rightarrow> Aborted
   | Some p \<Rightarrow> run_code k (fst x, p))"

definition finish_ids :: "active_ids \<times> 'g game_part \<Rightarrow> 'g game_part outcome" where
  "finish_ids x = (case sync_ids (fst x) (snd x) of None \<Rightarrow> Aborted | Some p \<Rightarrow> Done p)"

text \<open>A call of game code in a scope with active IDs, which are written back also when it throws.\<close>

fun close_scope :: "(active_ids \<times> 'g game_part) outcome \<Rightarrow> 'g game_part outcome" where
  "close_scope (Done x) = finish_ids x"
| "close_scope (Thrown x) = (case finish_ids x of Done p \<Rightarrow> Thrown p | _ \<Rightarrow> Aborted)"
| "close_scope Aborted = Aborted"

definition scoped :: "'g game_code \<Rightarrow> 'g game_part \<Rightarrow> 'g game_part outcome" where
  "scoped code p = close_scope (run_code code ([], p))"

section \<open>Processors\<close>

record ('g, 'r) SQLiteProcessor =
  blockInterval :: u64
  blockModulo :: u64
  pr_SetupSchema :: "'g gsp_tables \<Rightarrow> 'g gsp_tables"
  pr_Compute :: "json \<Rightarrow> 'g gsp_tables \<Rightarrow> 'r option"
  pr_Store :: "'r \<Rightarrow> 'g gsp_tables \<Rightarrow> 'g gsp_tables option"

text \<open>The value of \<open>asUInt64\<close> where \<open>isUInt64\<close> holds; integers of JSON have 64 bits.\<close>

definition real_as_uint64 :: "u64 \<Rightarrow> nat option" where
  "real_as_uint64 b =
    (let e = unat (drop_bit 52 b AND 0x7FF); m = unat (b AND mask 52); full = 2 ^ 52 + m in
     if e = 0 \<and> m = 0 then Some 0
     else if bit b 63 \<or> e < 1023 \<or> e > 1023 + 63 then None
     else if e \<ge> 1023 + 52 then Some (full * 2 ^ (e - 1023 - 52))
     else if full mod 2 ^ (52 - (e - 1023)) = 0 then Some (full div 2 ^ (52 - (e - 1023)))
     else None)"

definition asUInt64 :: "json \<Rightarrow> u64 option" where
  "asUInt64 j = (case j of
     JInt n \<Rightarrow> if 0 \<le> n then Some (of_int n) else None
   | JUInt n \<Rightarrow> Some (of_int n)
   | JReal b \<Rightarrow> map_option of_nat (real_as_uint64 b)
   | _ \<Rightarrow> None)"

definition ShouldRun :: "('g, 'r) SQLiteProcessor \<Rightarrow> json \<Rightarrow> bool option" where
  "ShouldRun pr blockData =
    (if blockInterval pr = 0 then Some False
     else do {
       check (isObject blockData);
       height \<leftarrow> asUInt64 (member blockData ''height'');
       Some (height mod blockInterval pr = blockModulo pr)
     })"

definition SetInterval :: "u64 \<Rightarrow> u64 \<Rightarrow> ('g, 'r) SQLiteProcessor \<Rightarrow> ('g, 'r) SQLiteProcessor" where
  "SetInterval intv m pr = pr\<lparr>blockInterval := intv, blockModulo := m\<rparr>"

definition sp_processor :: string where
  "sp_processor = ''spacexpansegame-processor''"

definition processor_Process ::
    "('c, 'g) game_api \<Rightarrow> ('g, 'r) SQLiteProcessor \<Rightarrow> json \<Rightarrow> 'c \<Rightarrow> 'c option" where
  "processor_Process api pr blockData c = do {
     run \<leftarrow> ShouldRun pr blockData;
     if \<not> run then Some c
     else do {
       r \<leftarrow> pr_Compute pr blockData (sq_tables api c);
       c \<leftarrow> sq_savepoint api sp_processor c;
       t \<leftarrow> pr_Store pr r (sq_tables api c);
       sq_release api sp_processor (sq_execute api (\<lambda>t'. t) c)
     }
   }"

text \<open>The processor that stores a hash of the tables of the game; \<open>hash_rows\<close> is the hash of these tables.\<close>

definition hasher_Compute ::
    "('g \<Rightarrow> uint256 option) \<Rightarrow> json \<Rightarrow> 'g gsp_tables \<Rightarrow> (uint256 \<times> uint256) option" where
  "hasher_Compute hash_rows blockData t = do {
     check (isString (member blockData ''hash''));
     hex \<leftarrow> asString (member blockData ''hash'');
     let r = FromHex hex SetNull;
     check (fst r);
     h \<leftarrow> hash_rows (game_rows (game_part t));
     Some (snd r, h)
   }"

definition GetHash :: "'g gsp_tables \<Rightarrow> uint256 \<Rightarrow> uint256 option" where
  "GetHash t block = map_of (statehashes t) block"

definition hasher_Store :: "uint256 \<times> uint256 \<Rightarrow> 'g gsp_tables \<Rightarrow> 'g gsp_tables option" where
  "hasher_Store r t = do {
     check (case GetHash t (fst r) of None \<Rightarrow> True | Some existing \<Rightarrow> existing = snd r);
     Some (if GetHash t (fst r) = None
       then t\<lparr>statehashes := member_set (fst r) (snd r) (statehashes t)\<rparr> else t)
   }"

definition SQLiteHasher :: "('g \<Rightarrow> uint256 option) \<Rightarrow> ('g, uint256 \<times> uint256) SQLiteProcessor" where
  "SQLiteHasher hash_rows = \<lparr>blockInterval = 0, blockModulo = 0, pr_SetupSchema = (\<lambda>t. t),
     pr_Compute = hasher_Compute hash_rows, pr_Store = hasher_Store\<rparr>"

section \<open>The game\<close>

text \<open>
  The session extension of SQLite: the changeset that a session records between two contents of the tables,
  its inverse, and applying one, which fails when it meets a conflict.  For tables with a primary key it
  is documented that the inverse of a changeset, applied to the later contents, gives the earlier one.
\<close>

record 'g session_api =
  ss_changeset :: "'g game_part \<Rightarrow> 'g game_part \<Rightarrow> byte list"
  ss_invert :: "byte list \<Rightarrow> byte list option"
  ss_apply :: "byte list \<Rightarrow> 'g game_part \<Rightarrow> 'g game_part option"

definition session_ok :: "'g session_api \<Rightarrow> bool" where
  "session_ok ses \<longleftrightarrow> (\<forall>p p'. \<exists>i. ss_invert ses (ss_changeset ses p p') = Some i \<and> ss_apply ses i p' = Some p)"

text \<open>
  A game with its virtual functions.  The state of the object is the storage; the game has been initialised
  with it.  \<open>sg_block\<close> is the result of \<open>GetInitialStateBlock\<close> on the chain of the process.
\<close>

record ('c, 'g, 'r) SQLiteGame =
  sg_api :: "('c, 'g) game_api"
  sg_session :: "'g session_api"
  sg_block :: "u32 \<times> string"
  sg_SetupSchema :: "'g game_code"
  sg_InitialiseState :: "Context \<Rightarrow> 'g game_code"
  sg_UpdateState :: "Context \<Rightarrow> json \<Rightarrow> 'g game_code"
  sg_GetStateAsJson :: "'g gsp_tables \<Rightarrow> json"
  sg_processors :: "('g, 'r) SQLiteProcessor list"

definition AddProcessor ::
    "'c SQLiteStorage option \<Rightarrow> ('g, 'r) SQLiteProcessor \<Rightarrow> ('c, 'g, 'r) SQLiteGame \<Rightarrow> ('c, 'g, 'r) SQLiteGame option" where
  "AddProcessor database pr G = do {
     check (database = None);
     Some (G\<lparr>sg_processors := pr # sg_processors G\<rparr>)
   }"

definition part_execute ::
    "('c, 'g) game_api \<Rightarrow> ('g game_part \<Rightarrow> 'g game_part) \<Rightarrow> 'c \<Rightarrow> 'c" where
  "part_execute api f = sq_execute api (\<lambda>t. t\<lparr>game_part := f (game_part t)\<rparr>)"

definition write_part :: "('c, 'g) game_api \<Rightarrow> 'g game_part \<Rightarrow> 'c SQLiteStorage \<Rightarrow> 'c SQLiteStorage outcome" where
  "write_part api p = on_db (\<lambda>c. Some (part_execute api (\<lambda>p'. p) c))"

definition open_tables :: "('c, 'g) game_api \<Rightarrow> 'c SQLiteStorage \<Rightarrow> 'g gsp_tables option" where
  "open_tables api s = map_option (sq_tables api) (sql_db s)"

text \<open>Opening the database; an exception of the schema code ends the process.\<close>

definition Storage_SetupSchema :: "('c, 'g, 'r) SQLiteGame \<Rightarrow> 'c \<Rightarrow> 'c option" where
  "Storage_SetupSchema G c =
    (let api = sg_api G;
         c = part_execute api (\<lambda>p. p\<lparr>vars_table := Some (create_gamevars (vars_table p))\<rparr>) c;
         c = fold (\<lambda>pr. sq_execute api (pr_SetupSchema pr)) (sg_processors G) c
     in case scoped (sg_SetupSchema G) (game_part (sq_tables api c)) of
          Done p \<Rightarrow> Some (part_execute api (\<lambda>p'. p) c)
        | _ \<Rightarrow> None)"

definition Storage_Initialise ::
    "('c, 'g, 'r) SQLiteGame \<Rightarrow> 'c \<Rightarrow> 'c SQLiteStorage \<Rightarrow> 'c SQLiteStorage outcome" where
  "Storage_Initialise G file s = (case sql_db s of
     Some c \<Rightarrow> Done s
   | None \<Rightarrow> (case Storage_SetupSchema G (sq_open (sg_api G) file) of
       None \<Rightarrow> Aborted
     | Some c \<Rightarrow> Done (s\<lparr>sql_db := Some c\<rparr>)))"

definition Storage_Clear :: "('c, 'g, 'r) SQLiteGame \<Rightarrow> 'c SQLiteStorage \<Rightarrow> 'c SQLiteStorage outcome" where
  "Storage_Clear G = on_db (\<lambda>c. Storage_SetupSchema G (sq_open (sg_api G) (sq_remove (sg_api G) c)))"

definition GetStorage :: "('c, 'g, 'r) SQLiteGame \<Rightarrow> 'c SQLiteStorage storage_ops" where
  "GetStorage G = (SQLiteStorage_ops (sg_api G))\<lparr>op_Clear := Storage_Clear G\<rparr>"

section \<open>The current state\<close>

definition INITIAL_STATE :: string where
  "INITIAL_STATE = ''initial''"

definition BLOCKHASH_STATE :: string where
  "BLOCKHASH_STATE = ''block ''"

definition CheckCurrentState :: "('c, 'g, 'r) SQLiteGame \<Rightarrow> 'g gsp_tables \<Rightarrow> byte list \<Rightarrow> bool option" where
  "CheckCurrentState G t state = (case map_of (spacexpansegame_current t) ''blockhash'' of
     None \<Rightarrow> Some False
   | Some b \<Rightarrow>
       (let hashHex = string_bytes (ToHex (FromBlob b)); prefixLen = length BLOCKHASH_STATE in
        if take prefixLen state = string_bytes BLOCKHASH_STATE then
          if hashHex \<noteq> drop prefixLen state then Some False
          else do { i \<leftarrow> IsGameInitialised (game_part t); check i; Some True }
        else do {
          check (state = string_bytes INITIAL_STATE);
          let initialHashHex = string_bytes (snd (sg_block G));
          if initialHashHex \<noteq> [] \<and> hashHex \<noteq> initialHashHex then Some False
          else do { i \<leftarrow> IsGameInitialised (game_part t); check i; Some True }
        }))"

definition EnsureCurrentState :: "('c, 'g, 'r) SQLiteGame \<Rightarrow> byte list \<Rightarrow> 'c SQLiteStorage \<Rightarrow> 'g gsp_tables option" where
  "EnsureCurrentState G state s = do {
     t \<leftarrow> open_tables (sg_api G) s;
     b \<leftarrow> CheckCurrentState G t state;
     check b;
     Some t
   }"

section \<open>The initial state\<close>

definition sp_stateinit :: string where
  "sp_stateinit = ''spacexpansegame-stateinit''"

text \<open>After the game code: the marker is set and the savepoint released, before the IDs are written back.\<close>

definition commit_init :: "('c, 'g) game_api \<Rightarrow> 'g game_part \<Rightarrow> 'c SQLiteStorage \<Rightarrow> 'c SQLiteStorage outcome" where
  "commit_init api p s =
     obind (write_part api p s) (\<lambda>s.
     obind (on_db (\<lambda>c. Some (part_execute api set_initialised c)) s) (\<lambda>s.
     on_db (sq_release api sp_stateinit) s))"

definition sync_storage :: "('c, 'g) game_api \<Rightarrow> active_ids \<Rightarrow> 'c SQLiteStorage \<Rightarrow> 'c SQLiteStorage outcome" where
  "sync_storage api ids s = (case open_tables api s of
     None \<Rightarrow> Aborted
   | Some t \<Rightarrow> (case sync_ids ids (game_part t) of None \<Rightarrow> Aborted | Some p \<Rightarrow> write_part api p s))"

definition InitialiseGame ::
    "('c, 'g, 'r) SQLiteGame \<Rightarrow> Context \<Rightarrow> 'c SQLiteStorage \<Rightarrow> 'c SQLiteStorage outcome" where
  "InitialiseGame G ctx s =
    (let api = sg_api G in
     case open_tables api s of
       None \<Rightarrow> Aborted
     | Some t \<Rightarrow> (case IsGameInitialised (game_part t) of
         None \<Rightarrow> Aborted
       | Some True \<Rightarrow> Done s
       | Some False \<Rightarrow> obind (on_db (sq_savepoint api sp_stateinit) s) (\<lambda>s.
           case run_code (sg_InitialiseState G ctx) ([], game_part t) of
             Aborted \<Rightarrow> Aborted
           | Done x \<Rightarrow> obind (commit_init api (snd x) s) (sync_storage api (fst x))
           | Thrown x \<Rightarrow>
               obind (write_part api (snd x) s) (\<lambda>s.
               obind (sync_storage api (fst x) s) (\<lambda>s.
               obind (on_db (sq_rollback_to api sp_stateinit) s) Thrown)))))"

definition SQLite_GetInitialStateInternal ::
    "('c, 'g, 'r) SQLiteGame \<Rightarrow> Context \<Rightarrow> 'c SQLiteStorage \<Rightarrow> ((u32 \<times> string \<times> byte list) \<times> 'c SQLiteStorage) outcome" where
  "SQLite_GetInitialStateInternal G ctx s =
     omap (Pair (fst (sg_block G), snd (sg_block G), string_bytes INITIAL_STATE)) (InitialiseGame G ctx s)"

section \<open>Blocks\<close>

definition block_string :: "json \<Rightarrow> string \<Rightarrow> string option" where
  "block_string blockData k = do { b \<leftarrow> json_at blockData ''block''; v \<leftarrow> json_at b k; asString v }"

definition block_state :: "string \<Rightarrow> byte list" where
  "block_state hex = string_bytes (BLOCKHASH_STATE @ hex)"

text \<open>The result is the new state and the undo data; an exception of the game code passes the changes so far.\<close>

definition SQLite_ProcessForwardInternal ::
    "('c, 'g, 'r) SQLiteGame \<Rightarrow> Context \<Rightarrow> byte list \<Rightarrow> json \<Rightarrow> 'c SQLiteStorage
      \<Rightarrow> ((byte list \<times> byte list) \<times> 'c SQLiteStorage) outcome" where
  "SQLite_ProcessForwardInternal G ctx oldState blockData s =
    (case EnsureCurrentState G oldState s of
       None \<Rightarrow> Aborted
     | Some t \<Rightarrow> (case scoped (sg_UpdateState G ctx blockData) (game_part t) of
         Aborted \<Rightarrow> Aborted
       | Thrown p \<Rightarrow> obind (omap (Pair (oldState, [])) (write_part (sg_api G) p s)) Thrown
       | Done p \<Rightarrow> (case block_string blockData ''hash'' of
           None \<Rightarrow> Aborted
         | Some hex \<Rightarrow> omap (Pair (block_state hex, ss_changeset (sg_session G) (game_part t) p))
             (write_part (sg_api G) p s))))"

definition SQLite_ProcessBackwardsInternal ::
    "('c, 'g, 'r) SQLiteGame \<Rightarrow> byte list \<Rightarrow> json \<Rightarrow> byte list \<Rightarrow> 'c SQLiteStorage
      \<Rightarrow> (byte list \<times> 'c SQLiteStorage) outcome" where
  "SQLite_ProcessBackwardsInternal G newState blockData undo s =
    (case do {
       t \<leftarrow> EnsureCurrentState G newState s;
       i \<leftarrow> ss_invert (sg_session G) undo;
       p \<leftarrow> ss_apply (sg_session G) i (game_part t);
       hex \<leftarrow> block_string blockData ''parent'';
       Some (p, hex)
     } of
       None \<Rightarrow> Aborted
     | Some (p, hex) \<Rightarrow> omap (Pair (block_state hex)) (write_part (sg_api G) p s))"

section \<open>After an update, and queries\<close>

fun run_processors ::
    "('c, 'g) game_api \<Rightarrow> ('g, 'r) SQLiteProcessor list \<Rightarrow> json \<Rightarrow> 'c \<Rightarrow> 'c option" where
  "run_processors api [] blockData c = Some c"
| "run_processors api (pr # prs) blockData c = do {
     c \<leftarrow> processor_Process api pr blockData c;
     run_processors api prs blockData c
   }"

definition SQLite_GameStateUpdated ::
    "('c, 'g, 'r) SQLiteGame \<Rightarrow> byte list \<Rightarrow> json \<Rightarrow> 'c SQLiteStorage \<Rightarrow> 'c SQLiteStorage outcome" where
  "SQLite_GameStateUpdated G state blockData s = (case EnsureCurrentState G state s of
     None \<Rightarrow> Aborted
   | Some t \<Rightarrow> on_db (run_processors (sg_api G) (sg_processors G) blockData) s)"

definition SQLite_GameStateToJson :: "('c, 'g, 'r) SQLiteGame \<Rightarrow> byte list \<Rightarrow> 'c SQLiteStorage \<Rightarrow> json option" where
  "SQLite_GameStateToJson G state s = map_option (sg_GetStateAsJson G) (EnsureCurrentState G state s)"

text \<open>
  The callback of \<open>GetCustomStateData\<close>: it reads a snapshot when there is one and it is of the current
  state, and the main connection otherwise.
\<close>

definition extract_custom ::
    "('c, 'g, 'r) SQLiteGame \<Rightarrow> 'g gsp_tables option \<Rightarrow> ('g gsp_tables \<Rightarrow> uint256 \<Rightarrow> u32 \<Rightarrow> json)
      \<Rightarrow> 'c SQLiteStorage \<Rightarrow> byte list \<Rightarrow> uint256 \<Rightarrow> u32 \<Rightarrow> json option" where
  "extract_custom G snapshot cb s state h height = do {
     use \<leftarrow> (case snapshot of None \<Rightarrow> Some False | Some t \<Rightarrow> CheckCurrentState G t state);
     if use then map_option (\<lambda>t. cb t h height) snapshot
     else do { t \<leftarrow> EnsureCurrentState G state s; Some (cb t h height) }
   }"

text \<open>The database for pending moves.\<close>

definition AccessConfirmedState ::
    "('c, 'g, 'r) SQLiteGame \<Rightarrow> byte list \<Rightarrow> 'c SQLiteStorage \<Rightarrow> 'g gsp_tables option" where
  "AccessConfirmedState G confirmed s = EnsureCurrentState G confirmed s"

end
