(* ===== verification/SqliteIds.thy ===== *)
theory SqliteIds
  imports SqliteGame
begin

text \<open>
  The automatic IDs of \<open>SqliteGame\<close>: the IDs that game code is given, how they relate to the table of next
  IDs, and that a key gives no ID twice along a chain of blocks.
\<close>

section \<open>One call of game code\<close>

text \<open>The IDs that a run of game code is given, in order.\<close>

primrec ids_given :: "'g game_code \<Rightarrow> active_ids \<times> 'g game_part \<Rightarrow> (string \<times> u64) list" where
  "ids_given Finish x = []"
| "ids_given Throw x = []"
| "ids_given Crash x = []"
| "ids_given (Execute f k) x = ids_given k (fst x, (snd x)\<lparr>game_rows := f (game_rows (snd x))\<rparr>)"
| "ids_given (Query f) x = ids_given (f (game_rows (snd x))) x"
| "ids_given (NextId key k) x = (case active_Get key (fst x) (snd x) of
     None \<Rightarrow> []
   | Some (a, ids) \<Rightarrow> (key, fst (GetNext a))
       # ids_given (k (fst (GetNext a))) (member_set key (snd (GetNext a)) ids, snd x))"
| "ids_given (ReserveIds key e k) x = (case active_Get key (fst x) (snd x) of
     None \<Rightarrow> []
   | Some (a, ids) \<Rightarrow> ids_given k (member_set key (ReserveUpTo e a) ids, snd x))"
| "ids_given (ReadVersion f) x = (case GetSchemaVersion (snd x) of
     None \<Rightarrow> []
   | Some version \<Rightarrow> ids_given (f version) x)"
| "ids_given (WriteVersion version k) x = (case SetSchemaVersion version (snd x) of
     None \<Rightarrow> []
   | Some p \<Rightarrow> ids_given k (fst x, p))"

text \<open>The next ID of a key, as stored and with the active IDs.\<close>

definition stored_next :: "(string \<times> int) list \<Rightarrow> string \<Rightarrow> int" where
  "stored_next tbl key = (case map_of tbl key of None \<Rightarrow> 1 | Some v \<Rightarrow> v)"

definition next_id :: "active_ids \<Rightarrow> (string \<times> int) list \<Rightarrow> string \<Rightarrow> int" where
  "next_id ids tbl key = (case map_of ids key of None \<Rightarrow> stored_next tbl key | Some a \<Rightarrow> uint (nextValue a))"

definition autoids_ok :: "(string \<times> int) list \<Rightarrow> bool" where
  "autoids_ok tbl \<longleftrightarrow> tbl_ok tbl \<and> (\<forall>k v. map_of tbl k = Some v \<longrightarrow> 1 \<le> v \<and> v < 2 ^ 63)"

definition active_ok :: "active_ids \<Rightarrow> (string \<times> int) list \<Rightarrow> bool" where
  "active_ok ids tbl \<longleftrightarrow> tbl_ok ids \<and> (\<forall>k a. map_of ids k = Some a \<longrightarrow> 1 \<le> uint (nextValue a)
     \<and> dbValue a = (case map_of tbl k of None \<Rightarrow> EMPTY_ID | Some v \<Rightarrow> of_int v))"

definition of_key :: "string \<Rightarrow> (string \<times> u64) list \<Rightarrow> int list" where
  "of_key key log = map (uint \<circ> snd) (filter (\<lambda>e. fst e = key) log)"

lemma of_key_simps [simp]:
  "of_key key [] = []"
  "of_key key ((k, v) # log) = (if k = key then uint v # of_key key log else of_key key log)"
  "of_key key (log @ log') = of_key key log @ of_key key log'"
  by (simp_all add: of_key_def)

text \<open>IDs that increase within bounds.\<close>

definition ascending :: "int \<Rightarrow> int list \<Rightarrow> int \<Rightarrow> bool" where
  "ascending lo vs hi \<longleftrightarrow> lo \<le> hi \<and> sorted_wrt (<) vs \<and> (\<forall>v \<in> set vs. lo \<le> v \<and> v < hi)"

lemma ascending_Nil [simp]: "ascending lo [] hi \<longleftrightarrow> lo \<le> hi"
  by (simp add: ascending_def)

lemma ascending_Cons: "ascending (v + 1) vs hi \<Longrightarrow> ascending v (v # vs) hi"
  by (fastforce simp: ascending_def)

lemma ascending_append: "\<lbrakk>ascending lo vs m; ascending m vs' hi\<rbrakk> \<Longrightarrow> ascending lo (vs @ vs') hi"
  by (fastforce simp: ascending_def sorted_wrt_append)

lemma ascending_lower: "\<lbrakk>ascending m vs hi; lo \<le> m\<rbrakk> \<Longrightarrow> ascending lo vs hi"
  by (fastforce simp: ascending_def)

lemma uint_of_int_u64: "\<lbrakk>0 \<le> v; v < 2 ^ 63\<rbrakk> \<Longrightarrow> uint (of_int v :: u64) = v"
  by (simp add: uint_word_of_int_eq take_bit_int_eq_self)

lemma active_get:
  assumes ids: "active_ok ids (autoids p)" and tbl: "autoids_ok (autoids p)"
  shows "\<exists>a ids'. active_Get key ids p = Some (a, ids') \<and> active_ok ids' (autoids p) \<and> map_of ids' key = Some a
    \<and> (\<forall>k. next_id ids' (autoids p) k = next_id ids (autoids p) k)"
proof (cases "map_of ids key")
  case (Some a)
  then show ?thesis using ids by (simp add: active_Get_def)
next
  case None
  note none = None
  obtain a where a: "new_AutoId key p = Some a" "uint (nextValue a) = stored_next (autoids p) key"
    "dbValue a = (case map_of (autoids p) key of None \<Rightarrow> EMPTY_ID | Some v \<Rightarrow> of_int v)"
  proof (cases "map_of (autoids p) key")
    case None
    then show thesis
      by (intro that [of "\<lparr>nextValue = 1, dbValue = EMPTY_ID\<rparr>"]) (simp_all add: new_AutoId_def stored_next_def)
  next
    case (Some v)
    then have range: "1 \<le> v" "v < 2 ^ 63" using tbl by (auto simp: autoids_ok_def)
    then have "uint (of_int v :: u64) = v" by (intro uint_of_int_u64) simp_all
    with range have "(of_int v :: u64) \<noteq> 0" by (metis uint_0_eq not_one_le_zero)
    with Some \<open>uint (of_int v :: u64) = v\<close> show thesis
      by (intro that [of "\<lparr>nextValue = of_int v, dbValue = of_int v\<rparr>"])
        (simp_all add: new_AutoId_def stored_next_def EMPTY_ID_def)
  qed
  have "1 \<le> stored_next (autoids p) key"
    using tbl by (auto simp: stored_next_def autoids_ok_def split: option.split)
  with none a ids show ?thesis
    by (auto simp: active_Get_def active_ok_def next_id_def)
qed

lemma active_set:
  assumes "active_ok ids tbl" and "map_of ids key = Some a" and "1 \<le> uint n"
  shows "active_ok (member_set key (a\<lparr>nextValue := n\<rparr>) ids) tbl"
    and "next_id (member_set key (a\<lparr>nextValue := n\<rparr>) ids) tbl k = (if k = key then uint n else next_id ids tbl k)"
  using assms by (auto simp: active_ok_def next_id_def)

lemma uint_Suc_u64: "(v :: u64) \<noteq> - 1 \<Longrightarrow> uint (v + 1) = uint v + 1"
proof -
  assume "v \<noteq> - 1"
  then have "1 + v \<noteq> 0" by (metis add.commute add_eq_0_iff)
  then have "unat (1 + v) = Suc (unat v)" by (rule unatSuc)
  then show "uint (v + 1) = uint v + 1" by (metis add.commute int_ops(4) uint_nat)
qed

lemma version_autoids [simp]: "SetSchemaVersion v p = Some p' \<Longrightarrow> autoids p' = autoids p"
  by (auto simp: SetSchemaVersion_def split: option.splits if_splits)

text \<open>The result of a run, returned or thrown, in which the IDs do not reach the end of their type.\<close>

fun run_result :: "'a outcome \<Rightarrow> 'a option" where
  "run_result (Done x) = Some x"
| "run_result (Thrown x) = Some x"
| "run_result Aborted = None"

definition ids_advance ::
    "(string \<times> u64) list \<Rightarrow> active_ids \<Rightarrow> (string \<times> int) list \<Rightarrow> active_ids \<Rightarrow> (string \<times> int) list \<Rightarrow> bool" where
  "ids_advance log ids tbl ids' tbl' \<longleftrightarrow> tbl' = tbl \<and> active_ok ids' tbl'
     \<and> (\<forall>key. ascending (next_id ids tbl key) (of_key key log) (next_id ids' tbl' key))"

lemma run_ids:
  assumes "run_result (run_code code x) = Some (ids', p')" and "active_ok (fst x) (autoids (snd x))"
    and "autoids_ok (autoids (snd x))" and "\<forall>e \<in> set (ids_given code x). snd e \<noteq> - 1"
  shows "ids_advance (ids_given code x) (fst x) (autoids (snd x)) ids' (autoids p')"
  using assms
proof (induction code arbitrary: x)
  case (NextId key k)
  obtain a ids1 where a: "active_Get key (fst x) (snd x) = Some (a, ids1)" "active_ok ids1 (autoids (snd x))"
    "map_of ids1 key = Some a" "\<And>k. next_id ids1 (autoids (snd x)) k = next_id (fst x) (autoids (snd x)) k"
    using active_get [OF NextId.prems(2,3)] by metis
  let ?ids = "member_set key (a\<lparr>nextValue := nextValue a + 1\<rparr>) ids1"
  have ne: "nextValue a \<noteq> - 1" using NextId.prems(4) a(1) by (simp add: GetNext_def)
  then have Suc: "uint (nextValue a + 1) = uint (nextValue a) + 1" by (rule uint_Suc_u64)
  then have ge: "1 \<le> uint (nextValue a + 1)" by simp
  have cur: "next_id (fst x) (autoids (snd x)) key = uint (nextValue a)" using a(3,4) by (metis next_id_def option.simps(5))
  have ok: "active_ok ?ids (autoids (snd x))" using active_set(1) [OF a(2,3) ge] .
  have nx: "next_id ?ids (autoids (snd x)) k' = (if k' = key then uint (nextValue a) + 1 else next_id (fst x) (autoids (snd x)) k')" for k'
    using active_set(2) [OF a(2,3) ge, of k'] a(4) Suc by simp
  have IH: "ids_advance (ids_given (k (nextValue a)) (?ids, snd x)) ?ids (autoids (snd x)) ids' (autoids p')"
    using NextId.IH [OF rangeI, of "nextValue a" "(?ids, snd x)"] NextId.prems ok a(1) by (simp add: GetNext_def)
  have log: "ids_given (NextId key k) x = (key, nextValue a) # ids_given (k (nextValue a)) (?ids, snd x)"
    using a(1) by (simp add: GetNext_def)
  have "ascending (next_id (fst x) (autoids (snd x)) k') (of_key k' ((key, nextValue a) # ids_given (k (nextValue a)) (?ids, snd x)))
    (next_id ids' (autoids p') k')" for k'
  proof -
    have "ascending (next_id ?ids (autoids (snd x)) k') (of_key k' (ids_given (k (nextValue a)) (?ids, snd x)))
        (next_id ids' (autoids p') k')"
      using IH unfolding ids_advance_def by blast
    then show ?thesis using cur nx [of k'] by (cases "k' = key") (auto intro: ascending_Cons)
  qed
  then show ?case using IH unfolding log ids_advance_def by blast
next
  case (ReserveIds key e k)
  obtain a ids1 where a: "active_Get key (fst x) (snd x) = Some (a, ids1)" "active_ok ids1 (autoids (snd x))"
    "map_of ids1 key = Some a" "\<And>k. next_id ids1 (autoids (snd x)) k = next_id (fst x) (autoids (snd x)) k"
    using active_get [OF ReserveIds.prems(2,3)] by metis
  let ?n = "max (nextValue a) (e + 1)"
  let ?ids = "member_set key (a\<lparr>nextValue := ?n\<rparr>) ids1"
  have "1 \<le> uint (nextValue a)" using a(2,3) by (simp add: active_ok_def)
  moreover have le: "uint (nextValue a) \<le> uint ?n" by (simp add: max_def word_le_def)
  ultimately have ge: "1 \<le> uint ?n" by linarith
  have cur: "next_id (fst x) (autoids (snd x)) key = uint (nextValue a)" using a(3,4) by (metis next_id_def option.simps(5))
  have ok: "active_ok ?ids (autoids (snd x))" using active_set(1) [OF a(2,3) ge] .
  have nx: "next_id (fst x) (autoids (snd x)) k' \<le> next_id ?ids (autoids (snd x)) k'" for k'
    using active_set(2) [OF a(2,3) ge, of k'] a(4) le cur by simp
  have log: "ids_given (ReserveIds key e k) x = ids_given k (?ids, snd x)" using a(1) by (simp add: ReserveUpTo_def)
  have "ids_advance (ids_given k (?ids, snd x)) ?ids (autoids (snd x)) ids' (autoids p')"
    using ReserveIds.IH [of "(?ids, snd x)"] ReserveIds.prems ok a(1) by (simp add: ReserveUpTo_def)
  then show ?case using nx unfolding log ids_advance_def by (blast intro: ascending_lower)
next
  case (Execute f k)
  then show ?case using Execute.IH [of "(fst x, (snd x)\<lparr>game_rows := f (game_rows (snd x))\<rparr>)"] by simp
next
  case (Query f)
  then show ?case using Query.IH [OF rangeI, of "game_rows (snd x)" x] by simp
next
  case (ReadVersion f)
  then show ?case
    using ReadVersion.IH [OF rangeI, of "the (GetSchemaVersion (snd x))" x] by (cases "GetSchemaVersion (snd x)") simp_all
next
  case (WriteVersion version k)
  then show ?case
    using WriteVersion.IH [of "(fst x, the (SetSchemaVersion version (snd x)))"]
    by (cases "SetSchemaVersion version (snd x)") simp_all
qed (simp_all add: ids_advance_def)

lemma sync_state:
  assumes "sync_ids ids p = Some p'" and "distinct (map fst ids)" and "tbl_ok (autoids p)"
  shows "p' = p\<lparr>autoids := autoids p'\<rparr> \<and> tbl_ok (autoids p')
    \<and> (\<forall>k. map_of (autoids p') k = (case map_of ids k of
         None \<Rightarrow> map_of (autoids p) k
       | Some a \<Rightarrow> if nextValue a = dbValue a then map_of (autoids p) k else Some (uint (nextValue a))))
    \<and> (\<forall>k a. map_of ids k = Some a \<and> nextValue a \<noteq> dbValue a \<longrightarrow> uint (nextValue a) < 2 ^ 63)"
  using assms
proof (induction ids p rule: sync_ids.induct)
  case (2 key a ids p)
  let ?w = "nextValue a \<noteq> dbValue a"
  define p1 where "p1 = (if ?w then p\<lparr>autoids := member_set key (uint (nextValue a)) (autoids p)\<rparr> else p)"
  have s: "sync_ids ids p1 = Some p'" "?w \<longrightarrow> uint (nextValue a) < 2 ^ 63"
    using "2.prems"(1) by (auto simp: AutoId_Sync_def p1_def split: if_splits)
  obtain a1 where a1: "AutoId_Sync key a p = Some (a1, p1)"
    using "2.prems"(1) by (auto simp: AutoId_Sync_def p1_def split: if_splits)
  have t: "tbl_ok (autoids p1)" using "2.prems"(3) by (simp add: p1_def)
  have d: "distinct (map fst ids)" "map_of ids key = None" using "2.prems"(2) by (auto simp: map_of_eq_None_iff image_iff)
  have IH: "p' = p1\<lparr>autoids := autoids p'\<rparr> \<and> tbl_ok (autoids p')
    \<and> (\<forall>k. map_of (autoids p') k = (case map_of ids k of
         None \<Rightarrow> map_of (autoids p1) k
       | Some a \<Rightarrow> if nextValue a = dbValue a then map_of (autoids p1) k else Some (uint (nextValue a))))
    \<and> (\<forall>k a. map_of ids k = Some a \<and> nextValue a \<noteq> dbValue a \<longrightarrow> uint (nextValue a) < 2 ^ 63)"
    using "2.IH" [OF a1 refl _ s(1) d(1) t] a1 "2.prems"(1) by (cases "dbValue a1 = nextValue a1") auto
  have "p1\<lparr>autoids := x\<rparr> = p\<lparr>autoids := x\<rparr>" for x by (simp add: p1_def)
  moreover have "map_of (autoids p1) k = (if k = key \<and> ?w then Some (uint (nextValue a)) else map_of (autoids p) k)" for k
    using "2.prems"(3) by (simp add: p1_def)
  ultimately show ?case using IH s(2) d(2) by (auto split: option.splits if_splits)
qed simp

text \<open>A call of game code in its scope.\<close>

lemma scoped_ids:
  assumes run: "run_result (scoped code p) = Some p'" and tbl: "autoids_ok (autoids p)"
    and log: "\<forall>e \<in> set (ids_given code ([], p)). snd e \<noteq> - 1"
  shows "autoids_ok (autoids p') \<and> (\<forall>key. ascending (stored_next (autoids p) key) (of_key key (ids_given code ([], p)))
    (stored_next (autoids p') key))"
proof -
  obtain ids q where q: "run_result (run_code code ([], p)) = Some (ids, q)" "sync_ids ids q = Some p'"
    using run by (cases "run_code code ([], p)") (auto simp: scoped_def finish_ids_def split: option.splits)
  have *: "autoids q = autoids p" "active_ok ids (autoids q)"
    "\<And>key. ascending (stored_next (autoids p) key) (of_key key (ids_given code ([], p))) (next_id ids (autoids q) key)"
  proof -
    note r = run_ids [OF q(1) _ _ log]
    show "autoids q = autoids p" "active_ok ids (autoids q)" using r tbl by (simp_all add: active_ok_def ids_advance_def)
    show "ascending (stored_next (autoids p) key) (of_key key (ids_given code ([], p))) (next_id ids (autoids q) key)" for key
      using r tbl by (fastforce simp: ids_advance_def active_ok_def next_id_def [of "[]"])
  qed
  have dist: "distinct (map fst ids)" using *(2) by (simp add: active_ok_def tbl_ok_distinct)
  have t: "tbl_ok (autoids q)" using tbl *(1) by (simp add: autoids_ok_def)
  note s = sync_state [OF q(2) dist t]
  have next_eq: "stored_next (autoids p') key = next_id ids (autoids q) key" for key
  proof (cases "map_of ids key")
    case None
    then show ?thesis using s by (simp add: stored_next_def next_id_def)
  next
    case (Some a)
    have ge: "1 \<le> uint (nextValue a)" and db: "dbValue a = (case map_of (autoids q) key of None \<Rightarrow> EMPTY_ID | Some v \<Rightarrow> of_int v)"
      using *(2) Some by (auto simp: active_ok_def)
    have "uint (of_int v :: u64) = v" if "map_of (autoids q) key = Some v" for v
    proof -
      have "1 \<le> v" "v < 2 ^ 63" using tbl *(1) that by (auto simp: autoids_ok_def)
      then show ?thesis by (intro uint_of_int_u64) simp_all
    qed
    with Some s ge db show ?thesis by (auto simp: stored_next_def next_id_def EMPTY_ID_def split: option.splits if_splits)
  qed
  have "autoids_ok (autoids p')"
    unfolding autoids_ok_def
  proof (intro conjI allI impI)
    fix k v assume v: "map_of (autoids p') k = Some v"
    have "1 \<le> v \<and> v < 2 ^ 63"
    proof (cases "map_of ids k")
      case None
      then show ?thesis using s v tbl *(1) by (auto simp: autoids_ok_def)
    next
      case (Some a)
      then have "1 \<le> uint (nextValue a)" using *(2) by (auto simp: active_ok_def)
      then show ?thesis using Some s v tbl *(1) by (auto simp: autoids_ok_def split: if_splits)
    qed
    then show "1 \<le> v" "v < 2 ^ 63" by simp_all
  qed (use s in simp)
  then show ?thesis using *(3) next_eq by simp
qed

end
