(* ===== verification/SqliteChain.thy ===== *)
theory SqliteChain
  imports SqliteIds
begin

text \<open>
  A game of \<open>SqliteGame\<close> on a block chain: the tables that each block of the chain defines, the calls in
  which the framework drives the game and its storage, and that the tables are always those of the
  current block, in the connection, in every savepoint and on disk.
\<close>

section \<open>The tables of a block\<close>

text \<open>
  A game in its setting: the rows of a new file, the hash of the rows that processors store, the chain as
  the list of blocks from each block hash back to the initial block, and the initial block.
\<close>

record ('c, 'g) sqlite_setting =
  st_game :: "('c, 'g, uint256 \<times> uint256) SQLiteGame"
  st_sha :: "byte list \<Rightarrow> uint256"
  st_processor :: GameProcessorWithContext
  st_rows :: 'g
  st_hash :: "'g \<Rightarrow> uint256 option"
  st_path :: "uint256 \<Rightarrow> json list"
  st_genesis :: uint256

definition init_context :: "('c, 'g) sqlite_setting \<Rightarrow> Context option" where
  "init_context E = do {
     gameId \<leftarrow> GetGameId (st_processor E);
     Some (new_Context (st_processor E) (st_sha E (string_bytes ''initial state'' @ string_bytes gameId)))
   }"

definition block_context :: "('c, 'g) sqlite_setting \<Rightarrow> json \<Rightarrow> Context option" where
  "block_context E b = do {
     gameId \<leftarrow> GetGameId (st_processor E);
     rndSeed \<leftarrow> BlockRngSeed (st_sha E) gameId b;
     Some (new_Context (st_processor E) rndSeed)
   }"

definition no_part :: "'g \<Rightarrow> 'g game_part" where
  "no_part g = \<lparr>vars_table = None, autoids = [], game_rows = g\<rparr>"

definition finished :: "'a outcome \<Rightarrow> 'a option" where
  "finished r = (case r of Done x \<Rightarrow> Some x | _ \<Rightarrow> None)"

lemma finished_simps [simp]: "finished (Done x) = Some x" "finished (Thrown x) = None" "finished Aborted = None"
  by (simp_all add: finished_def)

definition setup_part :: "('c, 'g, 'r) SQLiteGame \<Rightarrow> 'g game_part \<Rightarrow> 'g game_part option" where
  "setup_part G p = finished (scoped (sg_SetupSchema G) (p\<lparr>vars_table := Some (create_gamevars (vars_table p))\<rparr>))"

definition init_part :: "('c, 'g, 'r) SQLiteGame \<Rightarrow> Context \<Rightarrow> 'g game_part \<Rightarrow> 'g game_part option" where
  "init_part G ctx p = do {
     x \<leftarrow> finished (run_code (sg_InitialiseState G ctx) ([], p));
     sync_ids (fst x) (set_initialised (snd x))
   }"

definition genesis_part :: "('c, 'g) sqlite_setting \<Rightarrow> 'g game_part option" where
  "genesis_part E = do {
     p \<leftarrow> setup_part (st_game E) (no_part (st_rows E));
     ctx \<leftarrow> init_context E;
     init_part (st_game E) ctx p
   }"

definition apply_block :: "('c, 'g) sqlite_setting \<Rightarrow> json \<Rightarrow> 'g game_part \<Rightarrow> 'g game_part option" where
  "apply_block E b p = do {
     ctx \<leftarrow> block_context E b;
     finished (scoped (sg_UpdateState (st_game E) ctx b) p)
   }"

primrec part_at :: "('c, 'g) sqlite_setting \<Rightarrow> json list \<Rightarrow> 'g game_part option" where
  "part_at E [] = genesis_part E"
| "part_at E (b # bs) = Option.bind (part_at E bs) (apply_block E b)"

section \<open>Game code keeps the marker\<close>

definition marked :: "int \<Rightarrow> 'g game_part \<Rightarrow> bool" where
  "marked n p \<longleftrightarrow> (\<exists>ver. vars_table p = Some \<lparr>has_schema_version = True, gv_rows = [(1, n, ver)]\<rparr>)"

lemma marked_simps [simp]:
  "marked n (p\<lparr>autoids := x\<rparr>) = marked n p" "marked n (p\<lparr>game_rows := y\<rparr>) = marked n p"
  by (simp_all add: marked_def)

lemma marked_initialised [simp]: "marked 1 p \<Longrightarrow> IsGameInitialised p = Some True" "marked 0 p \<Longrightarrow> IsGameInitialised p = Some False"
  by (auto simp: marked_def IsGameInitialised_def)

lemma marked_set: "marked n p \<Longrightarrow> marked 1 (set_initialised p)"
  by (auto simp: marked_def set_initialised_def)

lemma marked_version: "\<lbrakk>SetSchemaVersion v p = Some p'; marked n p\<rbrakk> \<Longrightarrow> marked n p'"
  by (auto simp: marked_def SetSchemaVersion_def)

lemma marked_run: "\<lbrakk>run_result (run_code code x) = Some x'; marked n (snd x)\<rbrakk> \<Longrightarrow> marked n (snd x')"
proof (induction code arbitrary: x)
  case (Query f)
  then show ?case using Query.IH [OF rangeI, of "game_rows (snd x)" x] by simp
next
  case (NextId key k)
  then show ?case
    using NextId.IH [OF rangeI] by (auto split: option.splits)
next
  case (ReadVersion f)
  then show ?case
    using ReadVersion.IH [OF rangeI, of "the (GetSchemaVersion (snd x))" x] by (cases "GetSchemaVersion (snd x)") simp_all
qed (auto split: option.splits dest: marked_version)

lemma marked_sync: "\<lbrakk>sync_ids ids p = Some p'; marked n p\<rbrakk> \<Longrightarrow> marked n p'"
  by (induction ids p rule: sync_ids.induct) (auto simp: AutoId_Sync_def split: if_splits)

lemma marked_scoped: "\<lbrakk>run_result (scoped code p) = Some p'; marked n p\<rbrakk> \<Longrightarrow> marked n p'"
  using marked_run [of code "([], p)"] marked_sync
  by (cases "run_code code ([], p)") (fastforce simp: scoped_def finish_ids_def split: option.splits)+

lemma finished_result: "finished r = Some x \<Longrightarrow> run_result r = Some x"
  by (cases r) simp_all

lemma marked_setup: "setup_part G (no_part g) = Some p \<Longrightarrow> marked 0 p"
  unfolding setup_part_def
  by (erule marked_scoped [OF finished_result]) (simp add: marked_def create_gamevars_def no_part_def)

lemma marked_genesis: "genesis_part E = Some p \<Longrightarrow> marked 1 p"
  by (auto simp: genesis_part_def init_part_def dest!: marked_setup finished_result
      intro: marked_sync marked_set marked_run [of _ "([], _)", simplified] split: Option.bind_splits)

lemma marked_part: "part_at E bs = Some p \<Longrightarrow> marked 1 p"
proof (induction bs arbitrary: p)
  case (Cons b bs)
  then show ?case by (auto simp: apply_block_def dest: finished_result intro: marked_scoped split: Option.bind_splits)
qed (simp add: marked_genesis)

section \<open>The tables of the current block\<close>

definition undo_good :: "('c, 'g) sqlite_setting \<Rightarrow> (uint256 \<Rightarrow> (u32 \<times> byte list) option) \<Rightarrow> bool" where
  "undo_good E u \<longleftrightarrow> (\<forall>h n d. u h = Some (n, d) \<longrightarrow> (\<exists>b bs p p'. st_path E h = b # bs \<and> part_at E bs = Some p
     \<and> apply_block E b p = Some p' \<and> d = ss_changeset (sg_session (st_game E)) p p'))"

definition hashes_good :: "('c, 'g) sqlite_setting \<Rightarrow> (uint256 \<times> uint256) list \<Rightarrow> bool" where
  "hashes_good E hs \<longleftrightarrow> tbl_ok hs \<and> (\<forall>h x. map_of hs h = Some x \<longrightarrow>
     (\<exists>p. part_at E (st_path E h) = Some p \<and> st_hash E (game_rows p) = Some x))"

definition current_good ::
    "('c, 'g) sqlite_setting \<Rightarrow> (uint256 \<times> byte list) option \<Rightarrow> 'g game_part \<Rightarrow> bool" where
  "current_good E cur p \<longleftrightarrow> (case cur of
     None \<Rightarrow> setup_part (st_game E) (no_part (st_rows E)) = Some p \<or> genesis_part E = Some p
   | Some (h, d) \<Rightarrow> uint256_wf h \<and> part_at E (st_path E h) = Some p
       \<and> (d = block_state (ToHex h) \<or> h = st_genesis E \<and> d = string_bytes INITIAL_STATE))"

definition tables_good :: "('c, 'g) sqlite_setting \<Rightarrow> 'g gsp_tables \<Rightarrow> bool" where
  "tables_good E t \<longleftrightarrow> tables_ok t \<and> undo_good E (cur_undo (tables_contents t)) \<and> hashes_good E (statehashes t)
     \<and> current_good E (cur_state (tables_contents t)) (game_part t)"

definition all_good :: "('c, 'g) sqlite_setting \<Rightarrow> ('g, unit) gsp_tables_ext savepoints \<Rightarrow> bool" where
  "all_good E c \<longleftrightarrow> tables_good E (sp_now c) \<and> tables_good E (sp_durable c)
     \<and> list_all (\<lambda>e. tables_good E (snd e)) (sp_stack c)"

definition game_inv ::
    "('c, 'g) sqlite_setting \<Rightarrow> ('c \<Rightarrow> ('g, unit) gsp_tables_ext savepoints) \<Rightarrow> 'c SQLiteStorage \<Rightarrow> bool" where
  "game_inv E rep s \<longleftrightarrow> sqlite_inv rep s \<and> all_good E (sqlite_state rep s)"

text \<open>
  What the game, SQLite and the chain provide: opening a file gives its durable tables, and a new file has
  none; the session extension undoes the changes of the blocks of the chain; schema code does nothing on a file that is set up; the
  processors store the hash of the rows; the initial block is the one that the game has configured.
\<close>

definition session_undoes :: "('c, 'g) sqlite_setting \<Rightarrow> bool" where
  "session_undoes E \<longleftrightarrow> (let ses = sg_session (st_game E) in
     \<forall>h b bs p p'. st_path E h = b # bs \<and> part_at E bs = Some p \<and> apply_block E b p = Some p' \<longrightarrow>
       (\<exists>i. ss_invert ses (ss_changeset ses p p') = Some i \<and> ss_apply ses i p' = Some p))"

lemma session_ok_undoes: "session_ok (sg_session (st_game E)) \<Longrightarrow> session_undoes E"
  by (simp add: session_ok_def session_undoes_def Let_def)

definition setting_ok :: "('c, 'g) sqlite_setting \<Rightarrow> ('c \<Rightarrow> ('g, unit) gsp_tables_ext savepoints) \<Rightarrow> bool" where
  "setting_ok E rep \<longleftrightarrow> sqlite_ok (sg_api (st_game E)) rep
     \<and> (\<forall>c. rep (sq_open (sg_api (st_game E)) c)
          = \<lparr>sp_durable = sp_durable (rep c), sp_now = sp_durable (rep c), sp_stack = []\<rparr>)
     \<and> (\<forall>c. sp_durable (rep (sq_remove (sg_api (st_game E)) c))
          = sql_tables.extend new_tables (gsp_tables.fields [] (no_part (st_rows E))))
     \<and> session_undoes E
     \<and> (\<forall>p. setup_part (st_game E) (no_part (st_rows E)) = Some p \<longrightarrow> setup_part (st_game E) p = Some p)
     \<and> (\<forall>bs p. part_at E bs = Some p \<longrightarrow> setup_part (st_game E) p = Some p)
     \<and> (\<forall>pr \<in> set (sg_processors (st_game E)). \<exists>i m. pr = SetInterval i m (SQLiteHasher (st_hash E)))
     \<and> uint256_wf (st_genesis E) \<and> st_path E (st_genesis E) = []
     \<and> (snd (sg_block (st_game E)) = [] \<or> snd (sg_block (st_game E)) = ToHex (st_genesis E))"

lemma tables_contents_game [simp]:
  "tables_contents (t\<lparr>game_part := p\<rparr>) = tables_contents t"
  "tables_contents (t\<lparr>statehashes := hs\<rparr>) = tables_contents t"
  "tables_ok (t\<lparr>game_part := p\<rparr>) = tables_ok t" "tables_ok (t\<lparr>statehashes := hs\<rparr>) = tables_ok t"
  by (simp_all add: tables_contents_def tables_ok_def split: option.split)

lemma insert_current_game [simp]:
  "game_part (insert_current k v t) = game_part t" "statehashes (insert_current k v t) = statehashes t"
  by (simp_all add: insert_current_def)

subsection \<open>The check of the current state\<close>

lemma string_bytes_eq [simp]: "string_bytes s = string_bytes s' \<longleftrightarrow> s = s'"
proof -
  have "inj (of_char :: char \<Rightarrow> 8 word)"
  proof (rule injI)
    fix x y :: char assume "(of_char x :: 8 word) = of_char y"
    then have "(of_nat (of_char x) :: 8 word) = of_nat (of_char y)" by (simp add: of_nat_of_char)
    then have "(of_char x :: nat) = of_char y"
      using nat_of_char_less_256 [of x] nat_of_char_less_256 [of y] by (simp add: word_of_nat_eq_iff take_bit_nat_eq_self)
    then show "x = y" by simp
  qed
  then show ?thesis by (simp add: string_bytes_def inj_map_eq_map)
qed

lemma block_state_prefix:
  "take (length BLOCKHASH_STATE) (block_state hex) = string_bytes BLOCKHASH_STATE"
  "drop (length BLOCKHASH_STATE) (block_state hex) = string_bytes hex"
  "take (length BLOCKHASH_STATE) (string_bytes INITIAL_STATE) \<noteq> string_bytes BLOCKHASH_STATE"
  by (simp_all add: block_state_def string_bytes_def BLOCKHASH_STATE_def INITIAL_STATE_def)

lemma contents_current:
  assumes "tables_ok t" and "cur_state (tables_contents t) = Some (h, d)"
  shows "\<exists>b. map_of (spacexpansegame_current t) ''blockhash'' = Some b \<and> FromBlob b = h"
  using assms by (auto simp: tables_contents_def split: option.splits)

lemma check_current:
  assumes E: "setting_ok E rep" and t: "tables_good E t" and cur: "cur_state (tables_contents t) = Some (h, d)"
  shows "CheckCurrentState (st_game E) t d = Some True"
proof -
  obtain b where b: "map_of (spacexpansegame_current t) ''blockhash'' = Some b" "FromBlob b = h"
    using contents_current t cur by (metis tables_good_def)
  have "IsGameInitialised (game_part t) = Some True"
    using t cur by (auto simp: tables_good_def current_good_def intro: marked_initialised(1) marked_part)
  moreover have "d = block_state (ToHex h) \<or> h = st_genesis E \<and> d = string_bytes INITIAL_STATE"
    using t cur by (auto simp: tables_good_def current_good_def)
  moreover have "snd (sg_block (st_game E)) = [] \<or> snd (sg_block (st_game E)) = ToHex (st_genesis E)"
    using E by (simp add: setting_ok_def)
  moreover have "string_bytes [] = []" by (simp add: string_bytes_def)
  ultimately show ?thesis
    unfolding CheckCurrentState_def Let_def b option.case
    by (elim disjE conjE) (simp_all only: block_state_prefix simp_thms if_True if_False, simp_all)
qed

lemma open_state:
  assumes "setting_ok E rep" and "sql_db s \<noteq> None"
  shows "open_tables (sg_api (st_game E)) s = Some (sp_now (sqlite_state rep s))"
  using assms by (auto simp: setting_ok_def open_tables_def sqlite_state_def api_rep(5))

lemma ensure_current:
  assumes E: "setting_ok E rep" and s: "game_inv E rep s" and cur: "cur_state (sqlite_contents rep s) = Some (h, d)"
  shows "EnsureCurrentState (st_game E) d s = Some (sp_now (sqlite_state rep s))"
  using check_current [OF E, of "sp_now (sqlite_state rep s)"] open_state [OF E, of s] s cur
  by (simp add: EnsureCurrentState_def game_inv_def all_good_def sqlite_inv_def sqlite_contents_def)

section \<open>Game code from a function on the rows\<close>

text \<open>Game code that changes the rows by a function, and aborts where the function does.\<close>

definition db_code :: "('g \<Rightarrow> 'g option) \<Rightarrow> 'g game_code" where
  "db_code f = Query (\<lambda>g. case f g of None \<Rightarrow> Crash | Some g' \<Rightarrow> Execute (\<lambda>_. g') Finish)"

lemma scoped_db_code:
  "scoped (db_code f) p = (case f (game_rows p) of None \<Rightarrow> Aborted | Some g' \<Rightarrow> Done (p\<lparr>game_rows := g'\<rparr>))"
  by (simp add: scoped_def db_code_def finish_ids_def split: option.split)

end
