(* ===== verification/SqliteRun.thy ===== *)
theory SqliteRun
  imports SqliteChain
begin

text \<open>
  The calls in which the framework drives a game of \<open>SqliteGame\<close> and its storage, as \<open>game.cpp\<close> makes them,
  and that every sequence of them keeps the tables of the game those of the current block.
\<close>

section \<open>The calls\<close>

text \<open>
  The part of \<open>UpdateStateForAttach\<close> inside the transaction.  When the game code throws, the transaction
  is rolled back, with all others in its batch.
\<close>

definition attach_block ::
    "('c, 'g) sqlite_setting \<Rightarrow> uint256 \<Rightarrow> u32 \<Rightarrow> json \<Rightarrow> 'c SQLiteStorage \<Rightarrow> 'c SQLiteStorage outcome" where
  "attach_block E hash height b s =
    (let G = st_game E; ops = GetStorage G in
     case (op_GetCurrentGameState ops s, block_context E b) of
       (Some oldState, Some ctx) \<Rightarrow> (case SQLite_ProcessForwardInternal G ctx oldState b s of
           Aborted \<Rightarrow> Aborted
         | Thrown x \<Rightarrow> Thrown (snd x)
         | Done x \<Rightarrow> obind (op_AddUndoData ops hash height (snd (fst x)) (snd x))
             (op_SetCurrentGameState ops hash (fst (fst x))))
     | _ \<Rightarrow> Aborted)"

definition attach_or_rollback ::
    "('c, 'g) sqlite_setting \<Rightarrow> uint256 \<Rightarrow> u32 \<Rightarrow> json \<Rightarrow> 'c SQLiteStorage \<Rightarrow> 'c SQLiteStorage outcome" where
  "attach_or_rollback E hash height b s = (case attach_block E hash height b s of
     Thrown s \<Rightarrow> op_RollbackTransaction (GetStorage (st_game E)) s
   | r \<Rightarrow> r)"

text \<open>The part of \<open>UpdateStateForDetach\<close> inside the transaction.\<close>

definition detach_block ::
    "('c, 'g) sqlite_setting \<Rightarrow> uint256 \<Rightarrow> uint256 \<Rightarrow> json \<Rightarrow> 'c SQLiteStorage \<Rightarrow> 'c SQLiteStorage outcome" where
  "detach_block E parent hash b s =
    (let G = st_game E; ops = GetStorage G in
     case (op_GetUndoData ops hash s, op_GetCurrentGameState ops s, block_context E b) of
       (Some undo, Some newState, Some ctx) \<Rightarrow>
         (case SQLite_ProcessBackwardsInternal G newState b undo s of
            Aborted \<Rightarrow> Aborted
          | Thrown x \<Rightarrow> Thrown (snd x)
          | Done x \<Rightarrow> obind (op_SetCurrentGameState ops parent (fst x) (snd x)) (op_ReleaseUndoData ops hash))
     | _ \<Rightarrow> Aborted)"

text \<open>A block of the chain, as the notification of Core describes it.\<close>

definition true_block :: "('c, 'g) sqlite_setting \<Rightarrow> json \<Rightarrow> uint256 \<Rightarrow> uint256 \<Rightarrow> bool" where
  "true_block E b parent h \<longleftrightarrow> st_path E h = b # st_path E parent \<and> uint256_wf h \<and> uint256_wf parent
     \<and> block_string b ''hash'' = Some (ToHex h) \<and> block_string b ''parent'' = Some (ToHex parent)
     \<and> block_context E b \<noteq> None"

definition true_header :: "json \<Rightarrow> uint256 \<Rightarrow> bool" where
  "true_header header h \<longleftrightarrow> isObject header \<and> member header ''hash'' = JString (ToHex h)
     \<and> asUInt64 (member header ''height'') \<noteq> None"

definition closed_storage :: "'c SQLiteStorage" where
  "closed_storage = \<lparr>sql_db = None, startedTransaction = False\<rparr>"

definition stored_current ::
    "('c, 'g) sqlite_setting \<Rightarrow> ('c \<Rightarrow> ('g, unit) gsp_tables_ext savepoints) \<Rightarrow> 'c SQLiteStorage
      \<Rightarrow> (uint256 \<times> byte list) option" where
  "stored_current E rep s = cur_state (sqlite_contents rep s)"

inductive sgame_step ::
    "('c, 'g) sqlite_setting \<Rightarrow> ('c \<Rightarrow> ('g, unit) gsp_tables_ext savepoints) \<Rightarrow> 'c SQLiteStorage \<Rightarrow> 'c SQLiteStorage \<Rightarrow> bool"
  for E rep where
  begin_txn: "\<lbrakk>\<not> startedTransaction s; op_BeginTransaction (GetStorage (st_game E)) s = Done s'\<rbrakk> \<Longrightarrow> sgame_step E rep s s'"
| commit_txn: "\<lbrakk>startedTransaction s; op_CommitTransaction (GetStorage (st_game E)) s = Done s'\<rbrakk> \<Longrightarrow> sgame_step E rep s s'"
| rollback_txn: "\<lbrakk>startedTransaction s; op_RollbackTransaction (GetStorage (st_game E)) s = Done s'\<rbrakk> \<Longrightarrow> sgame_step E rep s s'"
| initialise: "\<lbrakk>\<not> startedTransaction s; stored_current E rep s = None; init_context E = Some ctx;
    InitialiseGame (st_game E) ctx s = Done s'\<rbrakk> \<Longrightarrow> sgame_step E rep s s'"
| set_genesis: "\<lbrakk>startedTransaction s; stored_current E rep s = None;
    IsGameInitialised (game_part (sp_now (sqlite_state rep s))) = Some True;
    op_SetCurrentGameState (GetStorage (st_game E)) (st_genesis E) (string_bytes INITIAL_STATE) s = Done s'\<rbrakk>
    \<Longrightarrow> sgame_step E rep s s'"
| attach: "\<lbrakk>startedTransaction s; stored_current E rep s = Some (parent, d); true_block E b parent h;
    attach_or_rollback E h n b s = Done s'\<rbrakk> \<Longrightarrow> sgame_step E rep s s'"
| detach: "\<lbrakk>startedTransaction s; stored_current E rep s = Some (h, d); true_block E b parent h;
    detach_block E parent h b s = Done s'\<rbrakk> \<Longrightarrow> sgame_step E rep s s'"
| updated: "\<lbrakk>stored_current E rep s = Some (h, d); true_header header h;
    SQLite_GameStateUpdated (st_game E) d header s = Done s'\<rbrakk> \<Longrightarrow> sgame_step E rep s s'"
| prune: "\<lbrakk>startedTransaction s; op_PruneUndoData (GetStorage (st_game E)) n s = Done s'\<rbrakk> \<Longrightarrow> sgame_step E rep s s'"
| clear: "\<lbrakk>\<not> startedTransaction s; op_Clear (GetStorage (st_game E)) s = Done s'\<rbrakk> \<Longrightarrow> sgame_step E rep s s'"
| restart: "\<lbrakk>sql_db s = Some c; Storage_Initialise (st_game E) c closed_storage = Done s'\<rbrakk> \<Longrightarrow> sgame_step E rep s s'"

inductive sgame_run ::
    "('c, 'g) sqlite_setting \<Rightarrow> ('c \<Rightarrow> ('g, unit) gsp_tables_ext savepoints) \<Rightarrow> 'c SQLiteStorage \<Rightarrow> bool"
  for E rep where
  start: "Storage_Initialise (st_game E) (sq_remove (sg_api (st_game E)) c) closed_storage = Done s \<Longrightarrow> sgame_run E rep s"
| step: "\<lbrakk>sgame_run E rep s; sgame_step E rep s s'\<rbrakk> \<Longrightarrow> sgame_run E rep s'"

section \<open>Statements\<close>

lemma obind_eq_Done: "obind r f = Done y \<longleftrightarrow> (\<exists>x. r = Done x \<and> f x = Done y)"
  by (cases r) simp_all

lemma setting_api: "setting_ok E rep \<Longrightarrow> sqlite_ok (sg_api (st_game E)) rep"
  by (simp add: setting_ok_def)

lemma all_good_now: "\<lbrakk>all_good E c; tables_good E t\<rbrakk> \<Longrightarrow> all_good E (c\<lparr>sp_now := t\<rparr>)"
  by (simp add: all_good_def)

lemma all_good_execute: "\<lbrakk>all_good E c; tables_good E (f (sp_now c))\<rbrakk> \<Longrightarrow> all_good E (sp_execute f c)"
  by (simp add: all_good_def sp_execute_def Let_def)

lemma tables_good_ok: "tables_good E t \<Longrightarrow> tables_ok t"
  by (simp add: tables_good_def)

text \<open>A statement, in a transaction or not.\<close>

lemma execute_any:
  assumes api: "sqlite_ok api rep" and inv: "sqlite_inv rep s" and t: "tables_ok (f (sp_now (sqlite_state rep s)))"
  shows "\<exists>s'. on_db (\<lambda>c. Some (sq_execute api f c)) s = Done s' \<and> sqlite_inv rep s'
    \<and> startedTransaction s' = startedTransaction s \<and> sqlite_state rep s' = sp_execute f (sqlite_state rep s)"
proof -
  obtain c where c: "sql_db s = Some c" using inv by (auto simp: sqlite_inv_def)
  let ?s' = "s\<lparr>sql_db := Some (sq_execute api f c)\<rparr>"
  have "sqlite_state rep ?s' = sp_execute f (sqlite_state rep s)"
    by (simp add: sqlite_state_def api_rep(4) [OF api] c)
  moreover from this have "sqlite_inv rep ?s'"
    using inv t by (simp add: sqlite_inv_def sp_execute_def Let_def)
  ultimately show ?thesis by (intro exI [of _ ?s']) (simp add: on_db_def c)
qed

text \<open>A statement in a savepoint of its own is the same as the statement.\<close>

lemma nested_execute:
  assumes api: "sqlite_ok api rep"
  shows "\<exists>c1. sq_savepoint api n c = Some c1 \<and> sp_now (rep c1) = sp_now (rep c)
    \<and> (\<exists>c2. sq_release api n (sq_execute api f c1) = Some c2 \<and> rep c2 = sp_execute f (rep c))"
proof -
  obtain c1 where c1: "sq_savepoint api n c = Some c1" "rep c1 = (rep c)\<lparr>sp_stack := (n, sp_now (rep c)) # sp_stack (rep c)\<rparr>"
    using api_rep(1) [OF api] by blast
  have stack: "sp_stack (rep (sq_execute api f c1)) = (n, sp_now (rep c)) # sp_stack (rep c)"
    by (simp add: api_rep(4) [OF api] sp_execute_def Let_def c1(2))
  obtain c2 where "sq_release api n (sq_execute api f c1) = Some c2" "rep c2 = (rep (sq_execute api f c1))\<lparr>sp_stack := sp_stack (rep c),
      sp_durable := (if sp_stack (rep c) = [] then sp_now (rep (sq_execute api f c1)) else sp_durable (rep (sq_execute api f c1)))\<rparr>"
    using api_rep(2) [OF api stack] by blast
  then show ?thesis
    using c1 by (auto simp: api_rep(4) [OF api] sp_execute_def Let_def)
qed

lemma write_state:
  assumes api: "sqlite_ok api rep" and inv: "sqlite_inv rep s" "startedTransaction s"
  shows "\<exists>s'. write_part api p s = Done s' \<and> sqlite_inv rep s' \<and> startedTransaction s'
    \<and> sqlite_state rep s' = (sqlite_state rep s)\<lparr>sp_now := (sp_now (sqlite_state rep s))\<lparr>game_part := p\<rparr>\<rparr>"
  using execute_state [OF api inv, of "\<lambda>t. t\<lparr>game_part := p\<rparr>"] inv
  by (simp add: write_part_def part_execute_def sqlite_inv_def)

lemmas sgame_storage_ops = GetStorage_def SQLiteStorage_ops_def

lemma game_state:
  assumes E: "setting_ok E rep" and inv: "sqlite_inv rep s" and cur: "cur_state (sqlite_contents rep s) = Some (h, d)"
  shows "op_GetCurrentGameState (GetStorage (st_game E)) s = Some d"
  using undo_storage.get_state [OF storage.axioms(1) [OF rollback_storage.axioms(1) [OF sqlite_storage [OF setting_api [OF E]]]] inv] cur
  by (simp add: sgame_storage_ops)

lemma game_undo:
  assumes E: "setting_ok E rep" and inv: "sqlite_inv rep s"
  shows "op_GetUndoData (GetStorage (st_game E)) h s = map_option snd (cur_undo (sqlite_contents rep s) h)"
  using undo_storage.get_undo [OF storage.axioms(1) [OF rollback_storage.axioms(1) [OF sqlite_storage [OF setting_api [OF E]]]] inv]
  by (simp add: sgame_storage_ops)

section \<open>Attaching\<close>

lemma attach_state:
  assumes E: "setting_ok E rep" and s: "game_inv E rep s" "startedTransaction s"
    and cur: "stored_current E rep s = Some (parent, d)" and b: "true_block E b parent h"
    and p: "p = game_part (sp_now (sqlite_state rep s))" and ctx: "block_context E b = Some ctx"
    and run: "scoped (sg_UpdateState (st_game E) ctx b) p = Done p'"
  shows "\<exists>s'. attach_block E h n b s = Done s' \<and> game_inv E rep s' \<and> startedTransaction s'
    \<and> stored_current E rep s' = Some (h, block_state (ToHex h)) \<and> game_part (sp_now (sqlite_state rep s')) = p'"
proof -
  let ?G = "st_game E" and ?t = "sp_now (sqlite_state rep s)"
  let ?u = "ss_changeset (sg_session ?G) p p'"
  note api = setting_api [OF E]
  have inv: "sqlite_inv rep s" and good: "all_good E (sqlite_state rep s)" "tables_good E ?t"
    using s by (simp_all add: game_inv_def all_good_def)
  have here: "part_at E (st_path E parent) = Some p" "apply_block E b p = Some p'"
    using good(2) cur p ctx run
    by (auto simp: tables_good_def current_good_def stored_current_def sqlite_contents_def apply_block_def)
  have ens: "EnsureCurrentState ?G d s = Some ?t"
    using ensure_current [OF E s(1)] cur by (simp add: stored_current_def)
  obtain s1 where s1: "write_part (sg_api ?G) p' s = Done s1" "sqlite_inv rep s1" "startedTransaction s1"
    "sqlite_state rep s1 = (sqlite_state rep s)\<lparr>sp_now := ?t\<lparr>game_part := p'\<rparr>\<rparr>"
    using write_state [OF api inv s(2)] by blast
  have fwd: "SQLite_ProcessForwardInternal ?G ctx d b s = Done ((block_state (ToHex h), ?u), s1)"
    using ens run s1(1) b p by (simp add: SQLite_ProcessForwardInternal_def true_block_def)
  let ?add = "\<lambda>t. t\<lparr>spacexpansegame_undo := member_set h (?u, uint n) (spacexpansegame_undo t)\<rparr>"
  have "tables_ok (?t\<lparr>game_part := p'\<rparr>)" using good(2) by (simp add: tables_good_def)
  from ok_add [OF this, of h ?u n] obtain s2 where s2: "op_AddUndoData (GetStorage ?G) h n ?u s1 = Done s2"
      "sqlite_inv rep s2" "startedTransaction s2" "sqlite_state rep s2 = (sqlite_state rep s)\<lparr>sp_now := ?add (?t\<lparr>game_part := p'\<rparr>)\<rparr>"
    using execute_state [where f = ?add, OF api s1(2,3)] s1(3,4)
    by (auto simp: sgame_storage_ops SQLite_AddUndoData_def)
  have wf: "uint256_wf h" using b by (simp add: true_block_def)
  obtain s3 where s3: "op_SetCurrentGameState (GetStorage ?G) h (block_state (ToHex h)) s2 = Done s3"
      "sqlite_inv rep s3" "startedTransaction s3" "sqlite_state rep s3 = (sqlite_state rep s)\<lparr>sp_now :=
        insert_current ''gamestate'' (block_state (ToHex h)) (insert_current ''blockhash'' (GetBinaryString h) (?add (?t\<lparr>game_part := p'\<rparr>)))\<rparr>"
    using set_state [OF api s2(2,3) wf, of "block_state (ToHex h)"] s2(4) by (auto simp: sgame_storage_ops)
  let ?t3 = "sp_now (sqlite_state rep s3)"
  have ok: "tables_ok (?t\<lparr>game_part := p'\<rparr>)" "tables_ok (?add (?t\<lparr>game_part := p'\<rparr>))"
    using ok_add [of "?t\<lparr>game_part := p'\<rparr>" h ?u n] good(2) by (simp_all add: tables_good_def)
  have contents: "tables_contents ?t3 = (tables_contents ?t)\<lparr>cur_undo := (cur_undo (tables_contents ?t))(h := Some (n, ?u)),
      cur_state := Some (h, block_state (ToHex h))\<rparr>"
    using contents_set [OF ok(2) wf] contents_add [OF ok(1)] by (simp add: s3(4))
  have parts: "game_part ?t3 = p'" "statehashes ?t3 = statehashes ?t" by (simp_all add: s3(4))
  have "tables_good E ?t3"
    unfolding tables_good_def
  proof (intro conjI)
    show "tables_ok ?t3" using s3(2) by (simp add: sqlite_inv_def)
    show "undo_good E (cur_undo (tables_contents ?t3))"
      using good(2) here b by (auto simp: contents undo_good_def tables_good_def true_block_def)
    show "hashes_good E (statehashes ?t3)" using good(2) by (simp add: parts tables_good_def)
    show "current_good E (cur_state (tables_contents ?t3)) (game_part ?t3)"
      using here b by (simp add: contents parts current_good_def true_block_def)
  qed
  then have "game_inv E rep s3"
    using good(1) s3(2,4) by (simp add: game_inv_def all_good_def)
  moreover have "attach_block E h n b s = Done s3"
    using game_state [OF E inv] cur ctx fwd s2(1) s3(1)
    by (simp add: attach_block_def Let_def stored_current_def)
  ultimately show ?thesis
    using s3(3) contents parts by (intro exI [of _ s3]) (simp add: stored_current_def sqlite_contents_def)
qed

text \<open>A transaction that is rolled back gives the tables at its start.\<close>

lemma sgame_rollback_good:
  assumes E: "setting_ok E rep" and inv: "sqlite_inv rep s" "startedTransaction s"
    and good: "list_all (\<lambda>e. tables_good E (snd e)) (sp_stack (sqlite_state rep s))" "tables_good E (sp_durable (sqlite_state rep s))"
  shows "\<exists>s'. op_RollbackTransaction (GetStorage (st_game E)) s = Done s' \<and> game_inv E rep s' \<and> \<not> startedTransaction s'"
  using good by (rule_tac end_state [OF setting_api [OF E] inv]) (auto simp: sgame_storage_ops game_inv_def all_good_def)

lemma attach_thrown:
  assumes E: "setting_ok E rep" and s: "game_inv E rep s" "startedTransaction s"
    and cur: "stored_current E rep s = Some (parent, d)" and ctx: "block_context E b = Some ctx"
    and run: "scoped (sg_UpdateState (st_game E) ctx b) (game_part (sp_now (sqlite_state rep s))) = Thrown p'"
  shows "\<exists>s'. attach_or_rollback E h n b s = Done s' \<and> game_inv E rep s' \<and> \<not> startedTransaction s'"
proof -
  let ?G = "st_game E" and ?t = "sp_now (sqlite_state rep s)"
  note api = setting_api [OF E]
  have inv: "sqlite_inv rep s" and good: "all_good E (sqlite_state rep s)" "tables_good E ?t"
    using s by (simp_all add: game_inv_def all_good_def)
  have ens: "EnsureCurrentState ?G d s = Some ?t"
    using ensure_current [OF E s(1)] cur by (simp add: stored_current_def)
  obtain s1 where s1: "write_part (sg_api ?G) p' s = Done s1" "sqlite_inv rep s1" "startedTransaction s1"
    "sqlite_state rep s1 = (sqlite_state rep s)\<lparr>sp_now := ?t\<lparr>game_part := p'\<rparr>\<rparr>"
    using write_state [OF api inv s(2)] by blast
  have "attach_block E h n b s = Thrown s1"
    using game_state [OF E inv] cur ctx ens run s1(1)
    by (simp add: attach_block_def Let_def stored_current_def SQLite_ProcessForwardInternal_def)
  moreover obtain s2 where "op_RollbackTransaction (GetStorage ?G) s1 = Done s2" "game_inv E rep s2" "\<not> startedTransaction s2"
    using sgame_rollback_good [OF E s1(2,3)] good(1) by (auto simp: s1(4) all_good_def)
  ultimately show ?thesis by (simp add: attach_or_rollback_def)
qed

section \<open>Detaching\<close>

lemma detach_state:
  assumes E: "setting_ok E rep" and s: "game_inv E rep s" "startedTransaction s"
    and cur: "stored_current E rep s = Some (h, d)" and b: "true_block E b parent h"
    and undo: "cur_undo (sqlite_contents rep s) h \<noteq> None"
  shows "\<exists>s'. detach_block E parent h b s = Done s' \<and> game_inv E rep s' \<and> startedTransaction s'
    \<and> stored_current E rep s' = Some (parent, block_state (ToHex parent))"
proof -
  let ?G = "st_game E" and ?t = "sp_now (sqlite_state rep s)"
  note api = setting_api [OF E]
  have inv: "sqlite_inv rep s" and good: "all_good E (sqlite_state rep s)" "tables_good E ?t"
    using s by (simp_all add: game_inv_def all_good_def)
  obtain n u where u: "cur_undo (tables_contents ?t) h = Some (n, u)" using undo by (auto simp: sqlite_contents_def)
  have path: "st_path E h = b # st_path E parent" using b by (simp add: true_block_def)
  have "undo_good E (cur_undo (tables_contents ?t))" using good(2) by (simp add: tables_good_def)
  then obtain p p' where p: "part_at E (st_path E parent) = Some p" "apply_block E b p = Some p'"
      "u = ss_changeset (sg_session ?G) p p'"
    using u path by (fastforce simp: undo_good_def)
  have here: "game_part ?t = p'"
    using good(2) cur path p by (auto simp: tables_good_def current_good_def stored_current_def sqlite_contents_def)
  obtain i where i: "ss_invert (sg_session ?G) u = Some i" "ss_apply (sg_session ?G) i p' = Some p"
    using E p path unfolding setting_ok_def session_undoes_def Let_def by metis
  have ens: "EnsureCurrentState ?G d s = Some ?t"
    using ensure_current [OF E s(1)] cur by (simp add: stored_current_def)
  obtain s1 where s1: "write_part (sg_api ?G) p s = Done s1" "sqlite_inv rep s1" "startedTransaction s1"
    "sqlite_state rep s1 = (sqlite_state rep s)\<lparr>sp_now := ?t\<lparr>game_part := p\<rparr>\<rparr>"
    using write_state [OF api inv s(2)] by blast
  have bwd: "SQLite_ProcessBackwardsInternal ?G d b u s = Done (block_state (ToHex parent), s1)"
    using ens i here s1(1) b by (simp add: SQLite_ProcessBackwardsInternal_def true_block_def)
  have wf: "uint256_wf parent" using b by (simp add: true_block_def)
  let ?set = "\<lambda>t. insert_current ''gamestate'' (block_state (ToHex parent)) (insert_current ''blockhash'' (GetBinaryString parent) t)"
  obtain s2 where s2: "op_SetCurrentGameState (GetStorage ?G) parent (block_state (ToHex parent)) s1 = Done s2"
      "sqlite_inv rep s2" "startedTransaction s2" "sqlite_state rep s2 = (sqlite_state rep s)\<lparr>sp_now := ?set (?t\<lparr>game_part := p\<rparr>)\<rparr>"
    using set_state [OF api s1(2,3) wf, of "block_state (ToHex parent)"] s1(4) by (auto simp: sgame_storage_ops)
  let ?rel = "\<lambda>t. t\<lparr>spacexpansegame_undo := member_del h (spacexpansegame_undo t)\<rparr>"
  have "tables_ok (sp_now (sqlite_state rep s2))" using s2(2) by (simp add: sqlite_inv_def)
  from ok_release [OF this, of h] obtain s3 where s3: "op_ReleaseUndoData (GetStorage ?G) h s2 = Done s3"
      "sqlite_inv rep s3" "startedTransaction s3"
      "sqlite_state rep s3 = (sqlite_state rep s)\<lparr>sp_now := ?rel (?set (?t\<lparr>game_part := p\<rparr>))\<rparr>"
    using execute_state [where f = ?rel, OF api s2(2,3)] s2(3,4) by (auto simp: sgame_storage_ops SQLite_ReleaseUndoData_def)
  let ?t3 = "sp_now (sqlite_state rep s3)"
  have ok: "tables_ok (?t\<lparr>game_part := p\<rparr>)" using good(2) by (simp add: tables_good_def)
  have contents: "tables_contents ?t3 = release_undo h ((tables_contents ?t)\<lparr>cur_state := Some (parent, block_state (ToHex parent))\<rparr>)"
  proof -
    have "?t3 = ?rel (?set (?t\<lparr>game_part := p\<rparr>))" by (simp add: s3(4))
    then show ?thesis by (simp only: contents_release contents_set [OF ok wf] tables_contents_game)
  qed
  have parts: "game_part ?t3 = p" "statehashes ?t3 = statehashes ?t" by (simp_all add: s3(4))
  have "tables_good E ?t3"
    unfolding tables_good_def
  proof (intro conjI)
    show "tables_ok ?t3" using s3(2) by (simp add: sqlite_inv_def)
    show "undo_good E (cur_undo (tables_contents ?t3))"
      using good(2) by (auto simp: contents undo_good_def tables_good_def release_undo_def)
    show "hashes_good E (statehashes ?t3)" using good(2) by (simp add: parts tables_good_def)
    show "current_good E (cur_state (tables_contents ?t3)) (game_part ?t3)"
      using p wf by (simp add: contents parts current_good_def release_undo_def)
  qed
  then have "game_inv E rep s3" using good(1) s3(2,4) by (simp add: game_inv_def all_good_def)
  moreover obtain ctx where "block_context E b = Some ctx" using b by (auto simp: true_block_def)
  then have "detach_block E parent h b s = Done s3"
    using game_state [OF E inv] game_undo [OF E inv] cur u bwd s2(1) s3(1)
    by (simp add: detach_block_def Let_def stored_current_def sqlite_contents_def)
  ultimately show ?thesis
    using s3(3) contents by (intro exI [of _ s3]) (simp add: stored_current_def sqlite_contents_def release_undo_def)
qed

section \<open>The initial state\<close>

lemma set_genesis_good:
  assumes E: "setting_ok E rep" and s: "game_inv E rep s" "startedTransaction s"
    and cur: "stored_current E rep s = None"
    and init: "IsGameInitialised (game_part (sp_now (sqlite_state rep s))) = Some True"
  shows "\<exists>s'. op_SetCurrentGameState (GetStorage (st_game E)) (st_genesis E) (string_bytes INITIAL_STATE) s = Done s'
    \<and> game_inv E rep s' \<and> startedTransaction s' \<and> stored_current E rep s' = Some (st_genesis E, string_bytes INITIAL_STATE)"
proof -
  let ?G = "st_game E" and ?t = "sp_now (sqlite_state rep s)"
  note api = setting_api [OF E]
  have inv: "sqlite_inv rep s" and good: "all_good E (sqlite_state rep s)" "tables_good E ?t"
    using s by (simp_all add: game_inv_def all_good_def)
  have wf: "uint256_wf (st_genesis E)" and path: "st_path E (st_genesis E) = []" using E by (simp_all add: setting_ok_def)
  have "setup_part ?G (no_part (st_rows E)) = Some (game_part ?t) \<or> genesis_part E = Some (game_part ?t)"
    using good(2) cur by (simp add: tables_good_def current_good_def stored_current_def sqlite_contents_def)
  then have p: "genesis_part E = Some (game_part ?t)" using init marked_initialised(2) [OF marked_setup] by fastforce
  obtain s1 where s1: "op_SetCurrentGameState (GetStorage ?G) (st_genesis E) (string_bytes INITIAL_STATE) s = Done s1"
      "sqlite_inv rep s1" "startedTransaction s1" "sqlite_state rep s1 = (sqlite_state rep s)\<lparr>sp_now :=
        insert_current ''gamestate'' (string_bytes INITIAL_STATE) (insert_current ''blockhash'' (GetBinaryString (st_genesis E)) ?t)\<rparr>"
    using set_state [OF api inv s(2) wf, of "string_bytes INITIAL_STATE"] by (auto simp: sgame_storage_ops)
  have "tables_ok ?t" using good(2) by (rule tables_good_ok)
  note contents = contents_set [OF this wf]
  have "tables_good E (sp_now (sqlite_state rep s1))"
    using good(2) s1(2) p wf path contents by (simp add: s1(4) tables_good_def sqlite_inv_def current_good_def)
  then show ?thesis
    using good(1) s1 contents
    by (intro exI [of _ s1]) (simp add: game_inv_def all_good_def stored_current_def sqlite_contents_def)
qed

lemma game_open:
  assumes "game_inv E rep s"
  obtains c where "sql_db s = Some c" "sqlite_state rep s = rep c"
  using assms by (auto simp: game_inv_def sqlite_inv_def sqlite_state_def)

text \<open>Two statements in a savepoint, and a third after it.\<close>

lemma initialise_state:
  assumes E: "setting_ok E rep" and c: "sql_db s = Some c" and p: "p = game_part (sp_now (rep c))" "marked 0 p"
  shows "InitialiseGame (st_game E) ctx s = Done s' \<Longrightarrow> \<exists>p' c'. init_part (st_game E) ctx p = Some p'
      \<and> s' = s\<lparr>sql_db := Some c'\<rparr> \<and> rep c' = sp_execute (\<lambda>t. t\<lparr>game_part := p'\<rparr>) (rep c)"
    and "init_part (st_game E) ctx p = Some p' \<Longrightarrow> \<exists>c'. InitialiseGame (st_game E) ctx s = Done (s\<lparr>sql_db := Some c'\<rparr>)
      \<and> rep c' = sp_execute (\<lambda>t. t\<lparr>game_part := p'\<rparr>) (rep c)"
proof -
  let ?G = "st_game E" and ?api = "sg_api (st_game E)" and ?t = "sp_now (rep c)"
  note api = setting_api [OF E]
  have open_t: "open_tables ?api s = Some ?t" using open_state [OF E, of s] c by (simp add: sqlite_state_def)
  obtain c1 where c1: "sq_savepoint ?api sp_stateinit c = Some c1"
    "rep c1 = (rep c)\<lparr>sp_stack := (sp_stateinit, ?t) # sp_stack (rep c)\<rparr>"
    using api_rep(1) [OF api] by blast
  let ?s1 = "s\<lparr>sql_db := Some c1\<rparr>"
  have call: "InitialiseGame ?G ctx s = (case run_code (sg_InitialiseState ?G ctx) ([], p) of
      Aborted \<Rightarrow> Aborted
    | Done x \<Rightarrow> obind (commit_init ?api (snd x) ?s1) (sync_storage ?api (fst x))
    | Thrown x \<Rightarrow> obind (write_part ?api (snd x) ?s1) (\<lambda>s. obind (sync_storage ?api (fst x) s)
        (\<lambda>s. obind (on_db (sq_rollback_to ?api sp_stateinit) s) Thrown)))"
    using p by (simp add: InitialiseGame_def Let_def open_t on_db_def c c1(1))
  have commit: "\<exists>c3. commit_init ?api q ?s1 = Done (s\<lparr>sql_db := Some c3\<rparr>)
      \<and> rep c3 = sp_execute (\<lambda>t. t\<lparr>game_part := set_initialised q\<rparr>) (rep c)" for q
  proof -
    let ?f = "\<lambda>t. t\<lparr>game_part := set_initialised q\<rparr>"
    let ?c2 = "part_execute ?api set_initialised (part_execute ?api (\<lambda>p'. q) c1)"
    have rep2: "rep ?c2 = (rep c)\<lparr>sp_now := ?f ?t, sp_stack := (sp_stateinit, ?t) # sp_stack (rep c)\<rparr>"
      by (simp add: part_execute_def api_rep(4) [OF api] sp_execute_def Let_def c1(2))
    then have "sp_stack (rep ?c2) = (sp_stateinit, ?t) # sp_stack (rep c)" by simp
    from api_rep(2) [OF api this] obtain c3 where c3: "sq_release ?api sp_stateinit ?c2 = Some c3" "rep c3 = sp_execute ?f (rep c)"
      by (auto simp: rep2 sp_execute_def Let_def)
    then show ?thesis by (intro exI [of _ c3]) (simp add: commit_init_def write_part_def on_db_def)
  qed
  have sync: "sync_storage ?api ids (s\<lparr>sql_db := Some c3\<rparr>) = (case sync_ids ids (set_initialised q) of
      None \<Rightarrow> Aborted | Some p' \<Rightarrow> Done (s\<lparr>sql_db := Some (part_execute ?api (\<lambda>p. p') c3)\<rparr>))"
    if "rep c3 = sp_execute (\<lambda>t. t\<lparr>game_part := set_initialised q\<rparr>) (rep c)" for ids q c3
    using that by (simp add: sync_storage_def open_tables_def api_rep(5) [OF api] sp_execute_def Let_def write_part_def on_db_def
        split: option.split)
  have rep4: "rep (part_execute ?api (\<lambda>p. p') c3) = sp_execute (\<lambda>t. t\<lparr>game_part := p'\<rparr>) (rep c)"
    if "rep c3 = sp_execute (\<lambda>t. t\<lparr>game_part := q\<rparr>) (rep c)" for p' q c3
    using that by (simp add: part_execute_def api_rep(4) [OF api] sp_execute_def Let_def)
  have ex: "\<exists>c'. InitialiseGame ?G ctx s = Done (s\<lparr>sql_db := Some c'\<rparr>) \<and> rep c' = sp_execute (\<lambda>t. t\<lparr>game_part := p'\<rparr>) (rep c)"
    if i: "init_part ?G ctx p = Some p'" for p'
  proof -
    obtain x where x: "run_code (sg_InitialiseState ?G ctx) ([], p) = Done x" "sync_ids (fst x) (set_initialised (snd x)) = Some p'"
      using i by (auto simp: init_part_def finished_def split: Option.bind_splits outcome.splits)
    obtain c3 where c3: "commit_init ?api (snd x) ?s1 = Done (s\<lparr>sql_db := Some c3\<rparr>)"
      "rep c3 = sp_execute (\<lambda>t. t\<lparr>game_part := set_initialised (snd x)\<rparr>) (rep c)" using commit by blast
    show ?thesis using x c3 sync [OF c3(2)] rep4 [OF c3(2)] by (intro exI [of _ "part_execute ?api (\<lambda>p. p') c3"]) (simp add: call)
  qed
  then show "init_part (st_game E) ctx p = Some p' \<Longrightarrow> \<exists>c'. InitialiseGame (st_game E) ctx s = Done (s\<lparr>sql_db := Some c'\<rparr>)
      \<and> rep c' = sp_execute (\<lambda>t. t\<lparr>game_part := p'\<rparr>) (rep c)" by blast
  assume L: "InitialiseGame (st_game E) ctx s = Done s'"
  then obtain x where x: "run_code (sg_InitialiseState ?G ctx) ([], p) = Done x"
    unfolding call by (cases "run_code (sg_InitialiseState ?G ctx) ([], p)") (auto simp: obind_eq_Done)
  obtain c3 where c3: "commit_init ?api (snd x) ?s1 = Done (s\<lparr>sql_db := Some c3\<rparr>)"
    "rep c3 = sp_execute (\<lambda>t. t\<lparr>game_part := set_initialised (snd x)\<rparr>) (rep c)" using commit by blast
  obtain p' where "sync_ids (fst x) (set_initialised (snd x)) = Some p'"
    using L x c3 sync [OF c3(2)] by (auto simp: call split: option.splits)
  then have i: "init_part ?G ctx p = Some p'" using x by (simp add: init_part_def)
  from ex [OF this] L show "\<exists>p' c'. init_part (st_game E) ctx p = Some p'
      \<and> s' = s\<lparr>sql_db := Some c'\<rparr> \<and> rep c' = sp_execute (\<lambda>t. t\<lparr>game_part := p'\<rparr>) (rep c)"
    using i by auto
qed

lemma initialise_good:
  assumes E: "setting_ok E rep" and s: "game_inv E rep s" and ctx: "init_context E = Some ctx"
    and cur: "stored_current E rep s = None" and run: "InitialiseGame (st_game E) ctx s = Done s'"
  shows "game_inv E rep s' \<and> startedTransaction s' = startedTransaction s \<and> stored_current E rep s' = None
    \<and> IsGameInitialised (game_part (sp_now (sqlite_state rep s'))) = Some True"
proof (cases "IsGameInitialised (game_part (sp_now (sqlite_state rep s))) = Some True")
  case True
  then have "s' = s"
    using run open_state [OF E, of s] s by (simp add: InitialiseGame_def Let_def game_inv_def sqlite_inv_def)
  with s True cur show ?thesis by simp
next
  case False
  obtain c where c: "sql_db s = Some c" "sqlite_state rep s = rep c" using game_open [OF s] by blast
  let ?t = "sp_now (rep c)"
  have good: "all_good E (rep c)" "tables_good E ?t" using s c by (simp_all add: game_inv_def all_good_def)
  have fresh: "setup_part (st_game E) (no_part (st_rows E)) = Some (game_part ?t)"
    using good(2) cur c False marked_initialised(1) [OF marked_genesis]
    by (auto simp: tables_good_def current_good_def stored_current_def sqlite_contents_def)
  obtain p' c' where p': "init_part (st_game E) ctx (game_part ?t) = Some p'" "s' = s\<lparr>sql_db := Some c'\<rparr>"
      "rep c' = sp_execute (\<lambda>t. t\<lparr>game_part := p'\<rparr>) (rep c)"
    using run initialise_state(1) [OF E c(1) refl marked_setup [OF fresh]] by blast
  have genesis: "genesis_part E = Some p'" using fresh ctx p'(1) by (simp add: genesis_part_def)
  have "tables_good E (?t\<lparr>game_part := p'\<rparr>)"
    using good(2) cur c genesis by (simp add: tables_good_def current_good_def stored_current_def sqlite_contents_def)
  then have good': "all_good E (rep c')" unfolding p'(3) by (intro all_good_execute [OF good(1)])
  have "sqlite_inv rep s'"
    using s good' tables_good_ok c by (auto simp: p' sqlite_inv_def game_inv_def sqlite_state_def all_good_def sp_execute_def Let_def)
  moreover have "game_part (sp_now (rep c')) = p'" by (simp add: p'(3) sp_execute_def Let_def)
  moreover have "stored_current E rep s' = None"
    using cur c by (simp add: p'(2,3) stored_current_def sqlite_contents_def sqlite_state_def sp_execute_def Let_def)
  ultimately show ?thesis
    using good' marked_initialised(1) [OF marked_genesis [OF genesis]] by (simp add: game_inv_def p'(2) sqlite_state_def)
qed

section \<open>After an update\<close>

lemma processor_good:
  assumes E: "setting_ok E rep" and good: "all_good E (rep c)"
    and cur: "cur_state (tables_contents (sp_now (rep c))) = Some (h, d)" and header: "true_header header h"
    and total: "st_hash E (game_rows (game_part (sp_now (rep c)))) \<noteq> None"
    and pr: "pr \<in> set (sg_processors (st_game E))"
  shows "\<exists>c'. processor_Process (sg_api (st_game E)) pr header c = Some c' \<and> all_good E (rep c')
    \<and> (\<exists>hs. rep c' = rep c \<or> rep c' = sp_execute (\<lambda>t. (sp_now (rep c))\<lparr>statehashes := hs\<rparr>) (rep c))"
proof -
  let ?api = "sg_api (st_game E)" and ?t = "sp_now (rep c)"
  note api = setting_api [OF E]
  obtain i m where pr: "pr = SetInterval i m (SQLiteHasher (st_hash E))" using E pr by (auto simp: setting_ok_def)
  obtain n where n: "asUInt64 (member header ''height'') = Some n" "isObject header" "member header ''hash'' = JString (ToHex h)"
    using header by (auto simp: true_header_def)
  show ?thesis
  proof (cases "i \<noteq> 0 \<and> n mod i = m")
    case False
    then show ?thesis
      using n good by (intro exI [of _ c]) (auto simp: processor_Process_def ShouldRun_def pr SetInterval_def)
  next
    case True
    have t: "tables_good E ?t" using good by (simp add: all_good_def)
    then have h: "uint256_wf h" "part_at E (st_path E h) = Some (game_part ?t)" "hashes_good E (statehashes ?t)"
      using cur by (auto simp: tables_good_def current_good_def)
    obtain x where x: "st_hash E (game_rows (game_part ?t)) = Some x" using total by blast
    have compute: "pr_Compute pr header ?t = Some (h, x)"
      using n x h(1) by (simp add: pr SetInterval_def SQLiteHasher_def hasher_Compute_def isString_def asString_def hex_roundtrip Let_def)
    define hs where "hs = (if map_of (statehashes ?t) h = None then member_set h x (statehashes ?t) else statehashes ?t)"
    have same: "map_of (statehashes ?t) h = None \<or> map_of (statehashes ?t) h = Some x"
      using h(2,3) x unfolding hashes_good_def by (metis option.exhaust option.inject)
    have store: "hasher_Store (h, x) ?t = Some (?t\<lparr>statehashes := hs\<rparr>)"
      using same by (auto simp: hasher_Store_def GetHash_def hs_def)
    let ?f = "\<lambda>t'. ?t\<lparr>statehashes := hs\<rparr>"
    obtain c1 c2 where c1: "sq_savepoint ?api sp_processor c = Some c1" "sp_now (rep c1) = ?t"
      "sq_release ?api sp_processor (sq_execute ?api ?f c1) = Some c2" "rep c2 = sp_execute ?f (rep c)"
      using nested_execute [OF api, of sp_processor c ?f] by blast
    have "processor_Process ?api pr header c = Some c2"
      using n True compute store c1(1-3)
      by (simp add: processor_Process_def ShouldRun_def pr SetInterval_def SQLiteHasher_def api_rep(5) [OF api])
    moreover have "hashes_good E hs" using h(2,3) x by (auto simp: hs_def hashes_good_def)
    then have "tables_good E (?t\<lparr>statehashes := hs\<rparr>)" using t by (simp add: tables_good_def)
    then have "all_good E (rep c2)" unfolding c1(4) by (intro all_good_execute [OF good])
    ultimately show ?thesis using c1(4) by blast
  qed
qed

lemma processors_good:
  assumes E: "setting_ok E rep" and header: "true_header header h"
  shows "\<lbrakk>all_good E (rep c); cur_state (tables_contents (sp_now (rep c))) = Some (h, d);
      st_hash E (game_rows (game_part (sp_now (rep c)))) \<noteq> None; set prs \<subseteq> set (sg_processors (st_game E))\<rbrakk>
    \<Longrightarrow> \<exists>c'. run_processors (sg_api (st_game E)) prs header c = Some c' \<and> all_good E (rep c')
      \<and> sp_stack (rep c') = sp_stack (rep c)
      \<and> tables_contents (sp_now (rep c')) = tables_contents (sp_now (rep c)) \<and> game_part (sp_now (rep c')) = game_part (sp_now (rep c))"
proof (induction prs arbitrary: c)
  case (Cons pr prs)
  from Cons.prems(4) have "pr \<in> set (sg_processors (st_game E))" by simp
  from processor_good [OF E Cons.prems(1,2) header Cons.prems(3) this] obtain c1 hs
    where c1: "processor_Process (sg_api (st_game E)) pr header c = Some c1" "all_good E (rep c1)"
      "rep c1 = rep c \<or> rep c1 = sp_execute (\<lambda>t. (sp_now (rep c))\<lparr>statehashes := hs\<rparr>) (rep c)" by blast
  have same: "tables_contents (sp_now (rep c1)) = tables_contents (sp_now (rep c))" "sp_stack (rep c1) = sp_stack (rep c)"
    "game_part (sp_now (rep c1)) = game_part (sp_now (rep c))"
    using c1(3) by (auto simp: sp_execute_def Let_def)
  show ?case using Cons.IH [OF c1(2)] Cons.prems c1(1) same by simp
qed simp

lemma updated_good:
  assumes E: "setting_ok E rep" and s: "game_inv E rep s" and cur: "stored_current E rep s = Some (h, d)"
    and header: "true_header header h" and total: "st_hash E (game_rows (game_part (sp_now (sqlite_state rep s)))) \<noteq> None"
  shows "\<exists>s'. SQLite_GameStateUpdated (st_game E) d header s = Done s' \<and> game_inv E rep s'
    \<and> startedTransaction s' = startedTransaction s \<and> sqlite_contents rep s' = sqlite_contents rep s
    \<and> game_part (sp_now (sqlite_state rep s')) = game_part (sp_now (sqlite_state rep s))"
proof -
  obtain c where c: "sql_db s = Some c" "sqlite_state rep s = rep c" using game_open [OF s] by blast
  have good: "all_good E (rep c)" using s c by (simp add: game_inv_def)
  have "cur_state (tables_contents (sp_now (rep c))) = Some (h, d)" using cur c by (simp add: stored_current_def sqlite_contents_def)
  from processors_good [OF E header good this] total c(2) obtain c'
    where c': "run_processors (sg_api (st_game E)) (sg_processors (st_game E)) header c = Some c'" "all_good E (rep c')"
      "sp_stack (rep c') = sp_stack (rep c)" "tables_contents (sp_now (rep c')) = tables_contents (sp_now (rep c))"
      "game_part (sp_now (rep c')) = game_part (sp_now (rep c))"
    by auto
  let ?s' = "s\<lparr>sql_db := Some c'\<rparr>"
  have "EnsureCurrentState (st_game E) d s \<noteq> None" using ensure_current [OF E s] cur by (simp add: stored_current_def)
  then have "SQLite_GameStateUpdated (st_game E) d header s = Done ?s'"
    using c(1) c'(1) by (auto simp: SQLite_GameStateUpdated_def on_db_def)
  moreover have "game_inv E rep ?s'"
    using s c c'(2,3) tables_good_ok by (auto simp: game_inv_def sqlite_inv_def sqlite_state_def all_good_def)
  ultimately show ?thesis using c c'(4,5) by (intro exI [of _ ?s']) (simp add: sqlite_state_def sqlite_contents_def)
qed

section \<open>Opening the file\<close>

lemma setup_state:
  assumes E: "setting_ok E rep" and c: "rep c = \<lparr>sp_durable = t, sp_now = t, sp_stack = []\<rparr>"
    and p: "setup_part (st_game E) (game_part t) = Some p"
  shows "\<exists>c'. Storage_SetupSchema (st_game E) c = Some c'
    \<and> rep c' = \<lparr>sp_durable = t\<lparr>game_part := p\<rparr>, sp_now = t\<lparr>game_part := p\<rparr>, sp_stack = []\<rparr>"
proof -
  let ?api = "sg_api (st_game E)" and ?p1 = "(game_part t)\<lparr>vars_table := Some (create_gamevars (vars_table (game_part t)))\<rparr>"
  let ?t1 = "t\<lparr>game_part := ?p1\<rparr>"
  note api = setting_api [OF E]
  define c1 where "c1 = part_execute ?api (\<lambda>p. p\<lparr>vars_table := Some (create_gamevars (vars_table p))\<rparr>) c"
  have c1: "rep c1 = \<lparr>sp_durable = ?t1, sp_now = ?t1, sp_stack = []\<rparr>"
    by (simp add: c1_def part_execute_def api_rep(4) [OF api] c sp_execute_def Let_def)
  have procs: "pr_SetupSchema pr = (\<lambda>t. t)" if "pr \<in> set (sg_processors (st_game E))" for pr
    using E that by (auto simp: setting_ok_def SetInterval_def SQLiteHasher_def)
  have fold_id: "rep (fold (\<lambda>pr. sq_execute ?api (pr_SetupSchema pr)) prs x) = rep x"
    if "set prs \<subseteq> set (sg_processors (st_game E))" "sp_stack (rep x) = []" "sp_durable (rep x) = sp_now (rep x)" for prs x
    using that
  proof (induction prs arbitrary: x)
    case (Cons pr prs)
    then have "rep (sq_execute ?api (pr_SetupSchema pr) x) = rep x"
      by (simp add: procs api_rep(4) [OF api] sp_execute_def Let_def)
    with Cons show ?case by simp
  qed simp
  define c2 where "c2 = fold (\<lambda>pr. sq_execute ?api (pr_SetupSchema pr)) (sg_processors (st_game E)) c1"
  have c2: "rep c2 = rep c1" unfolding c2_def by (rule fold_id) (simp_all add: c1)
  have "scoped (sg_SetupSchema (st_game E)) ?p1 = Done p"
    using p by (auto simp: setup_part_def finished_def split: outcome.splits)
  moreover have "game_part (sq_tables ?api c2) = ?p1" by (simp add: api_rep(5) [OF api] c2 c1)
  ultimately have "Storage_SetupSchema (st_game E) c = Some (part_execute ?api (\<lambda>p'. p) c2)"
    unfolding Storage_SetupSchema_def Let_def c1_def [symmetric] c2_def [symmetric] by simp
  moreover have "rep (part_execute ?api (\<lambda>p'. p) c2) = \<lparr>sp_durable = t\<lparr>game_part := p\<rparr>, sp_now = t\<lparr>game_part := p\<rparr>, sp_stack = []\<rparr>"
    by (simp add: part_execute_def api_rep(4) [OF api] c2 c1 sp_execute_def Let_def)
  ultimately show ?thesis by blast
qed

text \<open>On good tables the schema code does nothing; on a new file it gives good tables.\<close>

lemma setup_idle:
  assumes E: "setting_ok E rep" and t: "tables_good E t"
  shows "setup_part (st_game E) (game_part t) = Some (game_part t)"
proof -
  have idle: "setup_part (st_game E) p = Some p" if "part_at E bs = Some p" for bs p using E that by (simp add: setting_ok_def)
  have fresh: "setup_part (st_game E) (no_part (st_rows E)) = Some p \<Longrightarrow> setup_part (st_game E) p = Some p" for p
    using E by (simp add: setting_ok_def)
  show ?thesis
    using t idle [of "[]"] idle fresh by (auto simp: tables_good_def current_good_def split: option.splits)
qed

definition new_game_tables :: "'g \<Rightarrow> 'g gsp_tables" where
  "new_game_tables g = sql_tables.extend new_tables (gsp_tables.fields [] (no_part g))"

lemma new_game_good:
  assumes "setup_part (st_game E) (no_part (st_rows E)) = Some p"
  shows "tables_good E ((new_game_tables (st_rows E))\<lparr>game_part := p\<rparr>)"
  using assms by (simp add: new_game_tables_def tables_good_def tables_ok_def tables_contents_def undo_good_def hashes_good_def
      current_good_def new_tables_def sql_tables.defs gsp_tables.defs)

lemma opened_good:
  assumes E: "setting_ok E rep" and t: "sp_durable (rep c) = t"
    and p: "setup_part (st_game E) (game_part t) = Some p" and good: "tables_good E (t\<lparr>game_part := p\<rparr>)"
  shows "\<exists>c'. Storage_SetupSchema (st_game E) (sq_open (sg_api (st_game E)) c) = Some c'
    \<and> (\<forall>s. sql_db s = Some c' \<and> \<not> startedTransaction s \<longrightarrow> game_inv E rep s)"
proof -
  have "rep (sq_open (sg_api (st_game E)) c) = \<lparr>sp_durable = t, sp_now = t, sp_stack = []\<rparr>"
    using E t by (simp add: setting_ok_def)
  from setup_state [OF E this p] good tables_good_ok [OF good] show ?thesis
    by (auto simp: game_inv_def sqlite_inv_def all_good_def sqlite_state_def)
qed

lemma restart_good:
  assumes E: "setting_ok E rep" and s: "game_inv E rep s" and c: "sql_db s = Some c"
  shows "\<exists>s'. Storage_Initialise (st_game E) c closed_storage = Done s' \<and> game_inv E rep s'"
proof -
  have good: "tables_good E (sp_durable (rep c))" using s c by (simp add: game_inv_def all_good_def sqlite_state_def)
  then have "tables_good E ((sp_durable (rep c))\<lparr>game_part := game_part (sp_durable (rep c))\<rparr>)" by simp
  from opened_good [OF E refl setup_idle [OF E good] this] show ?thesis
    by (auto simp: Storage_Initialise_def closed_storage_def)
qed

lemma new_file_good:
  assumes E: "setting_ok E rep" and run: "Storage_SetupSchema (st_game E) (sq_open (sg_api (st_game E)) (sq_remove (sg_api (st_game E)) c)) = Some c'"
    and s: "sql_db s = Some c'" "\<not> startedTransaction s"
  shows "game_inv E rep s"
proof -
  let ?c = "sq_open (sg_api (st_game E)) (sq_remove (sg_api (st_game E)) c)"
  let ?t = "new_game_tables (st_rows E)"
  have t: "sp_durable (rep (sq_remove (sg_api (st_game E)) c)) = ?t" using E by (simp add: setting_ok_def new_game_tables_def)
  have part: "game_part ?t = no_part (st_rows E)" by (simp add: new_game_tables_def sql_tables.defs gsp_tables.defs)
  show ?thesis
  proof (cases "setup_part (st_game E) (no_part (st_rows E))")
    case (Some p)
    from opened_good [OF E t _ new_game_good [OF Some]] Some part run s show ?thesis by auto
  next
    case None
    note api = setting_api [OF E]
    have procs: "pr_SetupSchema pr = (\<lambda>t. t)" if "pr \<in> set (sg_processors (st_game E))" for pr
      using E that by (auto simp: setting_ok_def SetInterval_def SQLiteHasher_def)
    have fold_id: "sp_now (rep (fold (\<lambda>pr. sq_execute (sg_api (st_game E)) (pr_SetupSchema pr)) prs x)) = sp_now (rep x)"
      if "set prs \<subseteq> set (sg_processors (st_game E))" for prs x
      using that by (induction prs arbitrary: x) (simp_all add: procs api_rep(4) [OF api] sp_execute_def Let_def)
    have "sp_now (rep ?c) = ?t" using E t by (simp add: setting_ok_def)
    then have False
      using run None part
      by (auto simp: Storage_SetupSchema_def Let_def api_rep(4,5) [OF api] fold_id part_execute_def sp_execute_def setup_part_def
          finished_def split: outcome.splits)
    then show ?thesis ..
  qed
qed

section \<open>All calls\<close>

lemma prune_good:
  assumes E: "setting_ok E rep" and s: "game_inv E rep s" "startedTransaction s"
  shows "\<exists>s'. op_PruneUndoData (GetStorage (st_game E)) n s = Done s' \<and> game_inv E rep s'"
proof -
  let ?t = "sp_now (sqlite_state rep s)"
  let ?f = "\<lambda>t. t\<lparr>spacexpansegame_undo := filter (\<lambda>e. \<not> snd (snd e) \<le> uint n) (spacexpansegame_undo t)\<rparr>"
  have inv: "sqlite_inv rep s" and good: "all_good E (sqlite_state rep s)" "tables_good E ?t"
    using s by (simp_all add: game_inv_def all_good_def)
  have ok: "tables_ok ?t" using good(2) by (rule tables_good_ok)
  have f: "tables_ok (?f ?t)" using ok_filter [OF ok, of "\<lambda>e. \<not> snd e \<le> uint n"] by simp
  obtain s' where s': "op_PruneUndoData (GetStorage (st_game E)) n s = Done s'" "sqlite_inv rep s'"
    "sqlite_state rep s' = (sqlite_state rep s)\<lparr>sp_now := ?f ?t\<rparr>"
    using execute_state [where f = ?f, OF setting_api [OF E] inv s(2) f] s(2) by (auto simp: sgame_storage_ops SQLite_PruneUndoData_def)
  have "undo_good E (cur_undo (prune_undo n (tables_contents ?t)))"
    using good(2) by (auto simp: tables_good_def undo_good_def prune_undo_def split: option.splits if_splits)
  then have "tables_good E (?f ?t)"
    using good(2) f contents_prune [OF ok, of n] by (simp add: tables_good_def prune_undo_def)
  then show ?thesis using good(1) s' by (intro exI [of _ s']) (simp add: game_inv_def all_good_def)
qed

lemma sgame_begin_good:
  assumes E: "setting_ok E rep" and s: "game_inv E rep s" "\<not> startedTransaction s"
  shows "\<exists>s'. op_BeginTransaction (GetStorage (st_game E)) s = Done s' \<and> game_inv E rep s'
    \<and> startedTransaction s' \<and> sp_now (sqlite_state rep s') = sp_now (sqlite_state rep s)"
  using begin_state [OF setting_api [OF E] _ s(2)] s(1) by (auto simp: sgame_storage_ops game_inv_def all_good_def)

lemma sgame_commit_good:
  assumes E: "setting_ok E rep" and s: "game_inv E rep s" "startedTransaction s"
  shows "\<exists>s'. op_CommitTransaction (GetStorage (st_game E)) s = Done s' \<and> game_inv E rep s'"
proof -
  have inv: "sqlite_inv rep s" using s(1) by (simp add: game_inv_def)
  show ?thesis
    using s(1) by (rule_tac end_state [OF setting_api [OF E] inv s(2)]) (auto simp: sgame_storage_ops game_inv_def all_good_def)
qed

text \<open>The processors can hash the rows of every block.\<close>

definition hash_total :: "('c, 'g) sqlite_setting \<Rightarrow> bool" where
  "hash_total E \<longleftrightarrow> (\<forall>g. st_hash E g \<noteq> None)"

lemma sgame_step_good:
  assumes E: "setting_ok E rep" "hash_total E" and s: "game_inv E rep s" and step: "sgame_step E rep s s'"
  shows "game_inv E rep s'"
  using step
proof cases
  case begin_txn
  then show ?thesis using sgame_begin_good [OF E(1) s] by auto
next
  case commit_txn
  then show ?thesis using sgame_commit_good [OF E(1) s] by auto
next
  case rollback_txn
  then show ?thesis using sgame_rollback_good [OF E(1), of s] s by (auto simp: game_inv_def all_good_def)
next
  case (initialise ctx)
  then show ?thesis using initialise_good [OF E(1) s] by blast
next
  case set_genesis
  then show ?thesis using set_genesis_good [OF E(1) s] by auto
next
  case (attach parent d b h n)
  obtain ctx where ctx: "block_context E b = Some ctx" using attach(3) by (auto simp: true_block_def)
  show ?thesis
  proof (cases "scoped (sg_UpdateState (st_game E) ctx b) (game_part (sp_now (sqlite_state rep s)))")
    case (Done p')
    from attach_state [OF E(1) s attach(1-3) refl ctx this, of n] attach(4) show ?thesis
      by (auto simp: attach_or_rollback_def)
  next
    case (Thrown p')
    from attach_thrown [OF E(1) s attach(1,2) ctx this, of h n] attach(4) show ?thesis by auto
  next
    case Aborted
    have "EnsureCurrentState (st_game E) d s = Some (sp_now (sqlite_state rep s))"
      using ensure_current [OF E(1) s] attach(2) by (simp add: stored_current_def)
    then have "attach_or_rollback E h n b s = Aborted"
      using game_state [OF E(1), of s] s attach(2) ctx Aborted
      by (simp add: attach_or_rollback_def attach_block_def Let_def stored_current_def game_inv_def SQLite_ProcessForwardInternal_def)
    with attach(4) show ?thesis by simp
  qed
next
  case (detach h d b parent)
  have "cur_undo (sqlite_contents rep s) h \<noteq> None"
    using detach(4) game_undo [OF E(1), of s h] s by (auto simp: detach_block_def Let_def game_inv_def split: option.splits)
  from detach_state [OF E(1) s detach(1-3) this] detach(4) show ?thesis by auto
next
  case (updated h d header)
  then show ?thesis using updated_good [OF E(1) s updated(1,2)] E(2) by (auto simp: hash_total_def)
next
  case (prune n)
  show ?thesis using prune_good [OF E(1) s prune(1), of n] prune(2) by auto
next
  case clear
  obtain c where c: "sql_db s = Some c" using game_open [OF s] by blast
  from clear(2) c obtain c' where c': "Storage_SetupSchema (st_game E) (sq_open (sg_api (st_game E)) (sq_remove (sg_api (st_game E)) c)) = Some c'"
    "s' = s\<lparr>sql_db := Some c'\<rparr>"
    by (auto simp: sgame_storage_ops Storage_Clear_def on_db_def split: option.splits)
  show ?thesis by (rule new_file_good [OF E(1) c'(1)]) (use c'(2) clear(1) in simp_all)
next
  case (restart c)
  then show ?thesis using restart_good [OF E(1) s] by auto
qed

lemma sgame_run_good:
  assumes E: "setting_ok E rep" "hash_total E" and run: "sgame_run E rep s"
  shows "game_inv E rep s"
  using run
proof induction
  case (start c s)
  then obtain c' where "Storage_SetupSchema (st_game E) (sq_open (sg_api (st_game E)) (sq_remove (sg_api (st_game E)) c)) = Some c'"
    "s = closed_storage\<lparr>sql_db := Some c'\<rparr>"
    by (auto simp: Storage_Initialise_def closed_storage_def split: option.splits)
  then show ?case by (intro new_file_good [OF E(1)]) (simp_all add: closed_storage_def)
qed (rule sgame_step_good [OF E])

section \<open>Every block is reached\<close>

inductive on_chain :: "('c, 'g) sqlite_setting \<Rightarrow> uint256 \<Rightarrow> bool" for E where
  genesis: "on_chain E (st_genesis E)"
| block: "\<lbrakk>on_chain E parent; true_block E b parent h\<rbrakk> \<Longrightarrow> on_chain E h"

lemma run_genesis:
  fixes rep :: "'c \<Rightarrow> ('g, unit) gsp_tables_ext savepoints"
  assumes E: "setting_ok E rep" "hash_total E" and p: "genesis_part E = Some p"
  shows "\<exists>s. sgame_run E rep s \<and> startedTransaction s \<and> stored_current E rep s = Some (st_genesis E, string_bytes INITIAL_STATE)"
proof -
  let ?G = "st_game E" and ?t = "new_game_tables (st_rows E)"
  obtain p0 ctx where p0: "setup_part ?G (no_part (st_rows E)) = Some p0" "init_context E = Some ctx" "init_part ?G ctx p0 = Some p"
    using p by (auto simp: genesis_part_def split: Option.bind_splits)
  define c where "c = sq_remove (sg_api ?G) (undefined :: 'c)"
  have "sp_durable (rep c) = ?t" using E(1) by (simp add: setting_ok_def new_game_tables_def c_def)
  then have opened: "rep (sq_open (sg_api ?G) c) = \<lparr>sp_durable = ?t, sp_now = ?t, sp_stack = []\<rparr>"
    using E(1) by (simp add: setting_ok_def)
  have part: "game_part ?t = no_part (st_rows E)" by (simp add: new_game_tables_def sql_tables.defs gsp_tables.defs)
  obtain c0 where c0: "Storage_SetupSchema ?G (sq_open (sg_api ?G) c) = Some c0" "sp_now (rep c0) = ?t\<lparr>game_part := p0\<rparr>"
    using setup_state [OF E(1) opened] p0(1) part by auto
  let ?s0 = "closed_storage\<lparr>sql_db := Some c0\<rparr>"
  have run0: "sgame_run E rep ?s0"
    using c0(1) by (intro sgame_run.start [where c = undefined]) (simp add: c_def Storage_Initialise_def closed_storage_def)
  have fresh: "stored_current E rep ?s0 = None" "\<not> startedTransaction ?s0"
    by (simp_all add: stored_current_def sqlite_contents_def sqlite_state_def c0(2) new_game_tables_def new_tables_def
        tables_contents_def sql_tables.defs closed_storage_def)
  have "p0 = game_part (sp_now (rep c0))" by (simp add: c0(2))
  from initialise_state(2) [OF E(1) _ this marked_setup [OF p0(1)] p0(3), of ?s0]
  obtain c1 where "InitialiseGame ?G ctx ?s0 = Done (?s0\<lparr>sql_db := Some c1\<rparr>)" by auto
  then obtain s1 where s1: "InitialiseGame ?G ctx ?s0 = Done s1" by blast
  have run1: "sgame_run E rep s1" by (rule sgame_run.step [OF run0 sgame_step.initialise [OF fresh(2,1) p0(2) s1]])
  note i1 = initialise_good [OF E(1) sgame_run_good [OF E run0] p0(2) fresh(1) s1]
  obtain s2 where s2: "op_BeginTransaction (GetStorage ?G) s1 = Done s2" "startedTransaction s2"
      "sp_now (sqlite_state rep s2) = sp_now (sqlite_state rep s1)"
    using sgame_begin_good [OF E(1), of s1] i1 fresh(2) by auto
  have run2: "sgame_run E rep s2" using i1 fresh(2) s2(1) by (intro sgame_run.step [OF run1 sgame_step.begin_txn]) simp_all
  have cur2: "stored_current E rep s2 = None" and init2: "IsGameInitialised (game_part (sp_now (sqlite_state rep s2))) = Some True"
    using i1 s2(3) by (simp_all add: stored_current_def sqlite_contents_def)
  from set_genesis_good [OF E(1) sgame_run_good [OF E run2] s2(2) cur2 init2] sgame_run.step [OF run2 sgame_step.set_genesis [OF s2(2) cur2 init2]]
  show ?thesis by blast
qed

lemma sgame_run_attach:
  assumes E: "setting_ok E rep" "hash_total E" and s: "sgame_run E rep s" "startedTransaction s" "stored_current E rep s = Some (parent, d)"
    and b: "true_block E b parent h" and p: "part_at E (st_path E h) = Some p"
  shows "\<exists>s'. sgame_run E rep s' \<and> startedTransaction s' \<and> stored_current E rep s' = Some (h, block_state (ToHex h))"
proof -
  have inv: "game_inv E rep s" by (rule sgame_run_good [OF E s(1)])
  let ?t = "sp_now (sqlite_state rep s)"
  have here: "part_at E (st_path E parent) = Some (game_part ?t)"
    using inv s(3) by (simp add: game_inv_def all_good_def tables_good_def current_good_def stored_current_def sqlite_contents_def)
  obtain ctx where ctx: "block_context E b = Some ctx" using b by (auto simp: true_block_def)
  have "apply_block E b (game_part ?t) = Some p" using p b here by (simp add: true_block_def)
  then have "scoped (sg_UpdateState (st_game E) ctx b) (game_part ?t) = Done p"
    using ctx by (auto simp: apply_block_def finished_def split: outcome.splits)
  from attach_state [OF E(1) inv s(2,3) b refl ctx this, of 0] obtain s' where s': "attach_block E h 0 b s = Done s'"
    "startedTransaction s'" "stored_current E rep s' = Some (h, block_state (ToHex h))" by blast
  have "sgame_run E rep s'"
    using s'(1) by (intro sgame_run.step [OF s(1) sgame_step.attach [OF s(2,3) b, of 0]]) (simp add: attach_or_rollback_def)
  with s' show ?thesis by blast
qed

lemma run_reaches:
  assumes E: "setting_ok E rep" "hash_total E" and h: "on_chain E h" and p: "part_at E (st_path E h) \<noteq> None"
  shows "\<exists>s d. sgame_run E rep s \<and> startedTransaction s \<and> stored_current E rep s = Some (h, d)"
  using h p
proof induction
  case genesis
  have "st_path E (st_genesis E) = []" using E(1) by (simp add: setting_ok_def)
  then obtain p where "genesis_part E = Some p" using genesis by auto
  from run_genesis [OF E this] show ?case by blast
next
  case (block parent b h)
  have "part_at E (st_path E parent) \<noteq> None" using block.hyps(2) block.prems
    by (cases "part_at E (st_path E parent)") (auto simp: true_block_def)
  then show ?case using block.IH sgame_run_attach [OF E _ _ _ block.hyps(2)] block.prems by blast
qed

text \<open>What the main connection reads in such a state.\<close>

lemma current_read:
  assumes E: "setting_ok E rep" and s: "game_inv E rep s" and cur: "stored_current E rep s = Some (h, d)"
  shows "\<exists>c b. sql_db s = Some c \<and> map_of (spacexpansegame_current (sq_tables (sg_api (st_game E)) c)) ''blockhash'' = Some b
    \<and> FromBlob b = h"
proof -
  obtain c where c: "sql_db s = Some c" "sqlite_state rep s = rep c" using game_open [OF s] by blast
  have "tables_ok (sp_now (rep c))" using s c by (simp add: game_inv_def all_good_def tables_good_def)
  moreover have "cur_state (tables_contents (sp_now (rep c))) = Some (h, d)"
    using cur c by (simp add: stored_current_def sqlite_contents_def)
  ultimately obtain b where "map_of (spacexpansegame_current (sp_now (rep c))) ''blockhash'' = Some b" "FromBlob b = h"
    using contents_current by blast
  then show ?thesis using c(1) api_rep(5) [OF setting_api [OF E]] by auto
qed

end
