(* ===== verification/SqliteProps.thy ===== *)
theory SqliteProps
  imports SqliteRun "HOL-Library.Countable"
begin

text \<open>
  The properties of games with their state in an SQLite database, and a small game on the reference machine
  of savepoints on which they apply.
\<close>

section \<open>Automatic IDs along a chain\<close>

text \<open>The IDs that are given up to a block, the first one first, and that no ID is the largest number.\<close>

definition genesis_ids :: "('c, 'g) sqlite_setting \<Rightarrow> (string \<times> u64) list" where
  "genesis_ids E = (case (setup_part (st_game E) (no_part (st_rows E)), init_context E) of
     (Some p, Some ctx) \<Rightarrow>
       ids_given (sg_SetupSchema (st_game E))
         ([], (no_part (st_rows E))\<lparr>vars_table := Some (create_gamevars None)\<rparr>)
       @ ids_given (sg_InitialiseState (st_game E) ctx) ([], p)
   | _ \<Rightarrow> [])"

primrec chain_ids :: "('c, 'g) sqlite_setting \<Rightarrow> json list \<Rightarrow> (string \<times> u64) list" where
  "chain_ids E [] = genesis_ids E"
| "chain_ids E (b # bs) = chain_ids E bs @ (case (part_at E bs, block_context E b) of
     (Some p, Some ctx) \<Rightarrow> ids_given (sg_UpdateState (st_game E) ctx b) ([], p)
   | _ \<Rightarrow> [])"

lemma sync_autoids:
  fixes q q' :: "'g game_part"
  assumes "autoids q = autoids q'"
  shows "map_option autoids (sync_ids ids q) = map_option autoids (sync_ids ids q')"
  using assms
proof (induction ids q arbitrary: q' rule: sync_ids.induct)
  case (2 key a ids q)
  let ?s = "\<lambda>q :: 'g game_part. q\<lparr>autoids := member_set key (uint (nextValue a)) (autoids q)\<rparr>"
  let ?a = "a\<lparr>dbValue := nextValue a\<rparr>"
  show ?case
  proof (cases "nextValue a = dbValue a")
    case True
    then show ?thesis using "2.IH" [of "(a, q)" a q "()" q'] "2.prems" by (simp add: AutoId_Sync_def)
  next
    case False
    then show ?thesis
      using "2.IH" [of "(?a, ?s q)" ?a "?s q" "()" "?s q'"] "2.prems" by (simp add: AutoId_Sync_def)
  qed
qed simp

lemma init_ids:
  assumes run: "init_part G ctx p = Some p'" and tbl: "autoids_ok (autoids p)"
    and log: "\<forall>e \<in> set (ids_given (sg_InitialiseState G ctx) ([], p)). snd e \<noteq> - 1"
  shows "autoids_ok (autoids p') \<and> (\<forall>key. ascending (stored_next (autoids p) key)
    (of_key key (ids_given (sg_InitialiseState G ctx) ([], p))) (stored_next (autoids p') key))"
proof -
  let ?code = "sg_InitialiseState G ctx"
  obtain x where x: "run_code ?code ([], p) = Done x" "sync_ids (fst x) (set_initialised (snd x)) = Some p'"
    using run by (auto simp: init_part_def finished_def split: Option.bind_splits outcome.splits)
  have "autoids (set_initialised (snd x)) = autoids (snd x)" by (simp add: set_initialised_def)
  from sync_autoids [OF this, of "fst x"] x(2) obtain p1 where p1: "sync_ids (fst x) (snd x) = Some p1" "autoids p1 = autoids p'"
    by (cases "sync_ids (fst x) (snd x)") auto
  then have "run_result (scoped ?code p) = Some p1" using x(1) by (simp add: scoped_def finish_ids_def)
  from scoped_ids [OF this tbl log] p1(2) show ?thesis by simp
qed

lemma genesis_ids_ok:
  assumes run: "genesis_part E = Some p" and log: "\<forall>e \<in> set (genesis_ids E). snd e \<noteq> - 1"
  shows "autoids_ok (autoids p) \<and> (\<forall>key. ascending 1 (of_key key (genesis_ids E)) (stored_next (autoids p) key))"
proof -
  let ?G = "st_game E" and ?p0 = "(no_part (st_rows E))\<lparr>vars_table := Some (create_gamevars None)\<rparr>"
  obtain p1 ctx where p1: "setup_part ?G (no_part (st_rows E)) = Some p1" "init_context E = Some ctx" "init_part ?G ctx p1 = Some p"
    using run by (auto simp: genesis_part_def split: Option.bind_splits)
  have ids: "genesis_ids E = ids_given (sg_SetupSchema ?G) ([], ?p0) @ ids_given (sg_InitialiseState ?G ctx) ([], p1)"
    by (simp add: genesis_ids_def p1)
  have "run_result (scoped (sg_SetupSchema ?G) ?p0) = Some p1"
    using p1(1) finished_result by (fastforce simp: setup_part_def no_part_def)
  moreover have "autoids_ok (autoids ?p0)" by (simp add: autoids_ok_def no_part_def)
  ultimately have first: "autoids_ok (autoids p1)"
    "\<And>key. ascending (stored_next [] key) (of_key key (ids_given (sg_SetupSchema ?G) ([], ?p0))) (stored_next (autoids p1) key)"
    using scoped_ids [of "sg_SetupSchema ?G" ?p0 p1] log by (auto simp: ids no_part_def)
  from init_ids [OF p1(3) first(1)] log have initial: "autoids_ok (autoids p)"
    "\<And>key. ascending (stored_next (autoids p1) key) (of_key key (ids_given (sg_InitialiseState ?G ctx) ([], p1))) (stored_next (autoids p) key)"
    by (auto simp: ids)
  have "stored_next [] key = 1" for key by (simp add: stored_next_def)
  then show ?thesis
    using initial ascending_append [OF first(2) initial(2)] by (simp add: ids)
qed

text \<open>
  C28: Automatic IDs are unique along a chain: up to any block that the game code reaches without failing,
  the IDs that it is given for a key, in the initial state and in the blocks, are strictly increasing from 1 and below the next ID that the
  database stores for the key, provided none of them is the largest unsigned number.
\<close>

theorem auto_ids_unique:
  assumes "part_at E bs = Some p" and "\<forall>e \<in> set (chain_ids E bs). snd e \<noteq> - 1"
  shows "sorted_wrt (<) (of_key key (chain_ids E bs))
    \<and> (\<forall>v \<in> set (of_key key (chain_ids E bs)). 1 \<le> v \<and> v < stored_next (autoids p) key)"
proof -
  have "autoids_ok (autoids p) \<and> (\<forall>key. ascending 1 (of_key key (chain_ids E bs)) (stored_next (autoids p) key))"
    using assms
  proof (induction bs arbitrary: p)
    case Nil
    then show ?case using genesis_ids_ok by simp
  next
    case (Cons b bs)
    obtain q ctx where q: "part_at E bs = Some q" "block_context E b = Some ctx"
        "finished (scoped (sg_UpdateState (st_game E) ctx b) q) = Some p"
      using Cons.prems(1) by (auto simp: apply_block_def split: Option.bind_splits)
    have ids: "chain_ids E (b # bs) = chain_ids E bs @ ids_given (sg_UpdateState (st_game E) ctx b) ([], q)"
      by (simp add: q)
    have IH: "autoids_ok (autoids q)" "\<And>key. ascending 1 (of_key key (chain_ids E bs)) (stored_next (autoids q) key)"
      using Cons.IH [OF q(1)] Cons.prems(2) by (auto simp: ids)
    have "autoids_ok (autoids p)" and "\<And>key. ascending (stored_next (autoids q) key)
        (of_key key (ids_given (sg_UpdateState (st_game E) ctx b) ([], q))) (stored_next (autoids p) key)"
      using scoped_ids [OF finished_result [OF q(3)] IH(1)] Cons.prems(2) [unfolded ids] by simp_all
    then show ?case using ascending_append [OF IH(2)] unfolding ids of_key_simps by blast
  qed
  then show ?thesis by (simp add: ascending_def)
qed

section \<open>The tables of the current block\<close>

text \<open>A custom query reads the tables of the current block, from the snapshot or from the main connection.\<close>

lemma snapshot_check:
  assumes t: "tables_good E t" and h: "uint256_wf h"
  shows "CheckCurrentState (st_game E) t (block_state (ToHex h))
    = Some (map_option fst (cur_state (tables_contents t)) = Some h)"
proof (cases "map_of (spacexpansegame_current t) ''blockhash''")
  case None
  then show ?thesis by (simp add: CheckCurrentState_def tables_contents_def)
next
  case (Some b)
  then have "map_of (spacexpansegame_current t) ''gamestate'' \<noteq> None" using t by (auto simp: tables_good_def tables_ok_def)
  then obtain d where cur: "cur_state (tables_contents t) = Some (FromBlob b, d)" using Some by (auto simp: tables_contents_def)
  then have wf: "uint256_wf (FromBlob b)" and part: "part_at E (st_path E (FromBlob b)) = Some (game_part t)"
    using t by (simp_all add: tables_good_def current_good_def)
  have "ToHex (FromBlob b) = ToHex h \<longleftrightarrow> FromBlob b = h" using hex_roundtrip wf h by (metis prod.inject)
  then show ?thesis
    unfolding CheckCurrentState_def Let_def Some option.case
    using cur marked_initialised(1) [OF marked_part [OF part]] by (simp only: block_state_prefix if_True string_bytes_eq) simp
qed

lemma custom_query:
  assumes E: "setting_ok E rep" and s: "game_inv E rep s" and cur: "stored_current E rep s = Some (h, block_state (ToHex h))"
    and snapshot: "snapshot = None \<or> snapshot = map_option (sq_durable (sg_api (st_game E))) (sql_db s)"
  shows "\<exists>t. extract_custom (st_game E) snapshot cb s (block_state (ToHex h)) h height = Some (cb t h height)
    \<and> part_at E (st_path E h) = Some (game_part t)"
proof -
  let ?d = "block_state (ToHex h)" and ?now = "sp_now (sqlite_state rep s)"
  obtain c where c: "sql_db s = Some c" "sqlite_state rep s = rep c" using game_open [OF s] by blast
  have good: "tables_good E ?now" "tables_good E (sp_durable (rep c))" using s c by (simp_all add: game_inv_def all_good_def)
  have here: "uint256_wf h" "part_at E (st_path E h) = Some (game_part ?now)"
    using good(1) cur by (simp_all add: tables_good_def current_good_def stored_current_def sqlite_contents_def)
  have ens: "EnsureCurrentState (st_game E) ?d s = Some ?now"
    using ensure_current [OF E s] cur by (simp add: stored_current_def)
  show ?thesis
  proof (cases "snapshot \<noteq> None \<and> map_option fst (cur_state (tables_contents (sp_durable (rep c)))) = Some h")
    case True
    then have "snapshot = Some (sp_durable (rep c))"
      using snapshot c api_rep(6) [OF setting_api [OF E]] by auto
    moreover from True have "part_at E (st_path E h) = Some (game_part (sp_durable (rep c)))"
      using good(2) by (auto simp: tables_good_def current_good_def)
    ultimately show ?thesis
      using snapshot_check [OF good(2) here(1)] True
      by (intro exI [of _ "sp_durable (rep c)"]) (simp add: extract_custom_def)
  next
    case False
    then have "snapshot = None \<or> snapshot = Some (sp_durable (rep c)) \<and> CheckCurrentState (st_game E) (sp_durable (rep c)) ?d = Some False"
      using snapshot c api_rep(6) [OF setting_api [OF E]] snapshot_check [OF good(2) here(1)] by auto
    then show ?thesis using ens here(2) by (auto simp: extract_custom_def)
  qed
qed

lemma game_chain_tables:
  assumes "setting_ok E rep" and "hash_total E" and "sgame_run E rep s"
    and "sql_db s = Some c" and "t \<in> {sq_tables (sg_api (st_game E)) c, sq_durable (sg_api (st_game E)) c}"
    and "map_of (spacexpansegame_current t) ''blockhash'' = Some b"
  shows "part_at E (st_path E (FromBlob b)) = Some (game_part t)"
proof -
  have "game_inv E rep s" by (rule sgame_run_good [OF assms(1-3)])
  then have "tables_good E t"
    using assms(4,5) by (auto simp: game_inv_def all_good_def sqlite_state_def api_rep [OF setting_api [OF assms(1)]])
  then have t: "tables_ok t" "current_good E (cur_state (tables_contents t)) (game_part t)"
    by (simp_all add: tables_good_def)
  have "map_of (spacexpansegame_current t) ''gamestate'' \<noteq> None" using t(1) assms(6) by (auto simp: tables_ok_def)
  then obtain d where "cur_state (tables_contents t) = Some (FromBlob b, d)"
    using assms(6) by (auto simp: tables_contents_def)
  with t(2) show ?thesis by (simp add: current_good_def)
qed



section \<open>IDs of the initial state\<close>

lemma run_autoids: "run_result (run_code code x) = Some x' \<Longrightarrow> autoids (snd x') = autoids (snd x)"
proof (induction code arbitrary: x)
  case (Query f)
  then show ?case using Query.IH [OF rangeI, of "game_rows (snd x)" x] by simp
next
  case (NextId key k)
  then show ?case using NextId.IH [OF rangeI] by (auto split: option.splits)
next
  case (ReadVersion f)
  then show ?case
    using ReadVersion.IH [OF rangeI, of "the (GetSchemaVersion (snd x))" x] by (cases "GetSchemaVersion (snd x)") simp_all
qed (auto split: option.splits)


section \<open>A game on the reference machine\<close>

text \<open>
  The rows are a list of numbers; the initial state and every block take an ID and record it.  A changeset is
  an encoding of the earlier tables.
\<close>

definition enc_string :: "string \<Rightarrow> nat" where
  "enc_string s = list_encode (map of_char s)"

definition dec_string :: "nat \<Rightarrow> string" where
  "dec_string n = map char_of (list_decode n)"

definition enc_vars :: "gamevars \<Rightarrow> nat" where
  "enc_vars v = prod_encode (if has_schema_version v then 1 else 0, list_encode (map (\<lambda>(k, n, ver).
     prod_encode (int_encode k, prod_encode (int_encode n, enc_string ver))) (gv_rows v)))"

definition dec_vars :: "nat \<Rightarrow> gamevars" where
  "dec_vars m = \<lparr>has_schema_version = fst (prod_decode m) = 1, gv_rows = map (\<lambda>e.
     let (k, e) = prod_decode e; (n, ver) = prod_decode e in (int_decode k, int_decode n, dec_string ver))
     (list_decode (snd (prod_decode m)))\<rparr>"

definition enc_part :: "('g \<Rightarrow> nat) \<Rightarrow> 'g game_part \<Rightarrow> nat" where
  "enc_part enc p = list_encode [case vars_table p of None \<Rightarrow> 0 | Some v \<Rightarrow> Suc (enc_vars v),
     list_encode (map (\<lambda>(k, n). prod_encode (enc_string k, int_encode n)) (autoids p)), enc (game_rows p)]"

definition dec_part :: "(nat \<Rightarrow> 'g) \<Rightarrow> nat \<Rightarrow> 'g game_part" where
  "dec_part dec m = (let xs = list_decode m in
     \<lparr>vars_table = (case xs ! 0 of 0 \<Rightarrow> None | Suc v \<Rightarrow> Some (dec_vars v)),
      autoids = map (\<lambda>e. let (k, n) = prod_decode e in (dec_string k, int_decode n)) (list_decode (xs ! 1)),
      game_rows = dec (xs ! 2)\<rparr>)"

definition coded_session :: "('g \<Rightarrow> nat) \<Rightarrow> (nat \<Rightarrow> 'g) \<Rightarrow> 'g session_api" where
  "coded_session enc dec = \<lparr>ss_changeset = (\<lambda>p p'. replicate (enc_part enc p) 0), ss_invert = Some,
     ss_apply = (\<lambda>i p. Some (dec_part dec (length i)))\<rparr>"

lemma dec_enc_string [simp]: "dec_string (enc_string s) = s"
  by (simp add: dec_string_def enc_string_def comp_def)

lemma dec_enc_vars [simp]: "dec_vars (enc_vars v) = v"
  by (cases v) (simp add: dec_vars_def enc_vars_def comp_def case_prod_unfold)

lemma dec_enc_part: "(\<And>g. dec (enc g) = g) \<Longrightarrow> dec_part dec (enc_part enc p) = p"
  by (cases p) (simp add: dec_part_def enc_part_def comp_def case_prod_unfold split: option.split)

lemma coded_session_ok: "(\<And>g. dec (enc g) = g) \<Longrightarrow> session_ok (coded_session enc dec)"
  by (simp add: session_ok_def coded_session_def dec_enc_part)

definition game_ref_api :: "'g \<Rightarrow> (('g, unit) gsp_tables_ext savepoints, 'g) game_api" where
  "game_ref_api g = \<lparr>sq_open = (\<lambda>c. c\<lparr>sp_now := sp_durable c, sp_stack := []\<rparr>),
     sq_remove = (\<lambda>c. empty_savepoints (gsp_tables.fields [] (no_part g))), sq_savepoint = sp_savepoint, sq_release = sp_release,
     sq_rollback_to = sp_rollback_to, sq_execute = sp_execute, sq_tables = sp_now, sq_durable = sp_durable\<rparr>"

definition demo_session :: "int list session_api" where
  "demo_session = coded_session (\<lambda>g. list_encode (map int_encode g)) (\<lambda>n. map int_decode (list_decode n))"

lemma demo_session_ok: "session_ok demo_session"
  unfolding demo_session_def by (rule coded_session_ok) (simp add: comp_def)

definition demo_sgame :: "((int list, unit) gsp_tables_ext savepoints, int list, uint256 \<times> uint256) SQLiteGame" where
  "demo_sgame = \<lparr>sg_api = game_ref_api [], sg_session = demo_session, sg_block = (0, []), sg_SetupSchema = Finish,
     sg_InitialiseState = (\<lambda>ctx. NextId ''x'' (\<lambda>i. Execute (\<lambda>g. [uint i]) Finish)),
     sg_UpdateState = (\<lambda>ctx b. NextId ''x'' (\<lambda>i. Execute (\<lambda>g. uint i # g) Finish)),
     sg_GetStateAsJson = (\<lambda>t. JArray (map JInt (game_rows (game_part t)))),
     sg_processors = [SetInterval 1 0 (SQLiteHasher (\<lambda>g. Some SetNull))]\<rparr>"

definition demo_hash1 :: uint256 where
  "demo_hash1 = U256 (1 # replicate 31 0)"

definition demo_sblock :: json where
  "demo_sblock = JObject [(''block'', JObject [(''hash'', JString (ToHex demo_hash1)), (''parent'', JString (ToHex SetNull)),
     (''rngseed'', JString (ToHex SetNull))])]"

definition demo_setting :: "((int list, unit) gsp_tables_ext savepoints, int list) sqlite_setting" where
  "demo_setting = \<lparr>st_game = demo_sgame, st_sha = (\<lambda>bs. SetNull),
     st_processor = \<lparr>gp_chain = MAIN, gp_gameId = ''demo'', gp_rpc = True\<rparr>, st_rows = [], st_hash = (\<lambda>g. Some SetNull),
     st_path = (\<lambda>h. if h = demo_hash1 then [demo_sblock] else []), st_genesis = SetNull\<rparr>"

definition demo_vars :: "int \<Rightarrow> gamevars" where
  "demo_vars n = \<lparr>has_schema_version = True, gv_rows = [(1, n, [])]\<rparr>"

definition demo_part :: "int \<Rightarrow> int \<Rightarrow> int list \<Rightarrow> int list game_part" where
  "demo_part n k g = \<lparr>vars_table = Some (demo_vars n), autoids = (if k = 1 then [] else [(''x'', k)]), game_rows = g\<rparr>"

lemmas run_simps = run_code.simps close_scope.simps scoped_def finish_ids_def active_Get_def new_AutoId_def GetNext_def
  AutoId_Sync_def EMPTY_ID_def finished_def

lemma demo_fields:
  "sg_api demo_sgame = game_ref_api []" "sg_SetupSchema demo_sgame = Finish"
  "sg_InitialiseState demo_sgame = (\<lambda>ctx. NextId ''x'' (\<lambda>i. Execute (\<lambda>g. [uint i]) Finish))"
  "sg_UpdateState demo_sgame = (\<lambda>ctx b. NextId ''x'' (\<lambda>i. Execute (\<lambda>g. uint i # g) Finish))"
  "sg_session demo_sgame = demo_session" "sg_block demo_sgame = (0, [])"
  "sg_processors demo_sgame = [SetInterval 1 0 (SQLiteHasher (\<lambda>g. Some SetNull))]"
  by (simp_all add: demo_sgame_def)

lemma demo_setting_fields:
  "st_game demo_setting = demo_sgame" "st_rows demo_setting = []" "st_hash demo_setting = (\<lambda>g. Some SetNull)"
  "st_path demo_setting = (\<lambda>h. if h = demo_hash1 then [demo_sblock] else [])" "st_genesis demo_setting = SetNull"
  by (simp_all add: demo_setting_def)

lemma demo_hash_facts: "uint256_wf demo_hash1" "uint256_wf SetNull" "SetNull \<noteq> demo_hash1"
  by (simp_all add: demo_hash1_def SetNull_def uint256_wf_def NUM_BYTES_def numeral_eq_Suc)

lemma demo_setup: "setup_part demo_sgame (no_part []) = Some (demo_part 0 1 [])"
  by (simp add: setup_part_def demo_fields run_simps no_part_def create_gamevars_def demo_part_def demo_vars_def)

lemma demo_setup_idle: "marked n p \<Longrightarrow> setup_part demo_sgame p = Some p"
  by (cases p) (auto simp: setup_part_def demo_fields run_simps marked_def create_gamevars_def)

lemma demo_init: "\<exists>ctx. init_context demo_setting = Some ctx"
  by (simp add: init_context_def demo_setting_def GetGameId_def)

lemma demo_block_context: "\<exists>ctx. block_context demo_setting demo_sblock = Some ctx"
  by (simp add: block_context_def demo_setting_def GetGameId_def BlockRngSeed_def demo_sblock_def json_at_def member_def
      isObject_def isString_def asString_def hex_roundtrip demo_hash_facts(2) Let_def)

lemma demo_init_run: "run_code (sg_InitialiseState demo_sgame ctx) ([], demo_part 0 1 [])
    = Done ([(''x'', \<lparr>nextValue = 2, dbValue = 0\<rparr>)], demo_part 0 1 [1])"
  by (simp add: demo_fields run_simps demo_part_def)

lemma demo_init_part: "init_part demo_sgame ctx (demo_part 0 1 []) = Some (demo_part 1 2 [1])"
  by (simp add: init_part_def demo_init_run)
    (simp add: AutoId_Sync_def set_initialised_def demo_part_def demo_vars_def)

lemma demo_genesis: "genesis_part demo_setting = Some (demo_part 1 2 [1])"
  using demo_init by (auto simp: genesis_part_def demo_setting_fields demo_setup demo_init_part)

lemma demo_update: "scoped (sg_UpdateState demo_sgame ctx b) (demo_part 1 2 [1]) = Done (demo_part 1 3 [2, 1])"
  by (simp add: demo_fields run_simps demo_part_def)

lemma demo_part_at: "part_at demo_setting [demo_sblock] = Some (demo_part 1 3 [2, 1])"
  using demo_block_context by (auto simp: demo_genesis apply_block_def demo_setting_fields demo_update)

lemma demo_setting_ok: "setting_ok demo_setting (\<lambda>c. c)"
  unfolding setting_ok_def demo_setting_fields demo_fields
proof (intro conjI allI impI ballI)
  show "sqlite_ok (game_ref_api []) (\<lambda>c. c)"
    by (auto simp: sqlite_ok_def game_ref_api_def option.map_ident empty_savepoints_def Let_def)
  fix p :: "int list game_part"
  show "setup_part demo_sgame (no_part []) = Some p \<Longrightarrow> setup_part demo_sgame p = Some p"
    by (rule demo_setup_idle [OF marked_setup])
  show "part_at demo_setting bs = Some p \<Longrightarrow> setup_part demo_sgame p = Some p" for bs
    by (rule demo_setup_idle [OF marked_part])
  show "session_undoes demo_setting"
    by (rule session_ok_undoes) (simp add: demo_setting_fields demo_fields demo_session_ok)
qed (auto simp: game_ref_api_def empty_savepoints_def Let_def demo_hash_facts)

lemma demo_total: "hash_total demo_setting"
  by (simp add: hash_total_def demo_setting_fields)

lemma demo_true_block: "true_block demo_setting demo_sblock SetNull demo_hash1"
  using demo_block_context demo_hash_facts
  by (auto simp: true_block_def demo_setting_fields block_string_def demo_sblock_def json_at_def member_def asString_def)

theorem auto_ids_unique_witness:
  "of_key ''x'' (chain_ids demo_setting [demo_sblock]) = [1, 2] \<and> 2 < stored_next (autoids (demo_part 1 3 [2, 1])) ''x''"
proof -
  obtain ctx ctx' where ctx: "init_context demo_setting = Some ctx" "block_context demo_setting demo_sblock = Some ctx'"
    using demo_init demo_block_context by blast
  have ids: "chain_ids demo_setting [demo_sblock] = [(''x'', 1), (''x'', 2)]"
    by (simp add: genesis_ids_def ctx demo_setting_fields demo_setup demo_fields demo_genesis)
      (simp add: active_Get_def new_AutoId_def GetNext_def demo_part_def EMPTY_ID_def)
  have "\<forall>e \<in> set (chain_ids demo_setting [demo_sblock]). snd e \<noteq> - 1" unfolding ids by simp
  from auto_ids_unique [OF demo_part_at this, of "''x''"] show ?thesis unfolding ids by simp
qed

lemma sql_demo_chain: "on_chain demo_setting SetNull" "on_chain demo_setting demo_hash1"
  using on_chain.genesis [of demo_setting] on_chain.block [OF _ demo_true_block] by (simp_all add: demo_setting_fields)



text \<open>A new file that has been opened.\<close>

definition demo_file :: "int list game_part \<Rightarrow> int list gsp_tables" where
  "demo_file p = (new_game_tables [])\<lparr>game_part := p\<rparr>"

lemma demo_file_part [simp]: "game_part (demo_file p) = p"
  by (simp add: demo_file_def)


end
