(* ===== verification/Assets.thy ===== *)
theory Assets
  imports Json
begin

text \<open>
  The assets and amounts of the non-fungible application (\<open>nonfungible/assets.cpp\<close>): identity and
  order of assets, their JSON form, and the range of amounts.  Amounts are \<open>int64_t\<close> values; signed
  overflow is undefined behaviour in C++, so the addition of amounts is partial.
\<close>

section \<open>Amounts\<close>

definition MAX_AMOUNT :: int where
  "MAX_AMOUNT = 2 ^ 60"

definition i64_add :: "int \<Rightarrow> int \<Rightarrow> int option" where
  "i64_add a b = (if - (2 ^ 63) \<le> a + b \<and> a + b < 2 ^ 63 then Some (a + b) else None)"

definition AmountToJson :: "int \<Rightarrow> json" where
  "AmountToJson n = JInt n"

definition isInt64 :: "json \<Rightarrow> int option" where
  "isInt64 val = (case val of
     JInt n \<Rightarrow> (if - (2 ^ 63) \<le> n \<and> n < 2 ^ 63 then Some n else None)
   | JUInt n \<Rightarrow> (if 0 \<le> n \<and> n < 2 ^ 63 then Some n else None)
   | _ \<Rightarrow> None)"

text \<open>The test \<open>isInt64\<close> and the value that \<open>asInt64\<close> gives then, for integer values.\<close>

definition AmountFromJson :: "json \<Rightarrow> int option" where
  "AmountFromJson val =
    (if \<not> IsIntegerValue val then None
     else case isInt64 val of
       None \<Rightarrow> None
     | Some n \<Rightarrow> (if 0 \<le> n \<and> n \<le> MAX_AMOUNT then Some n else None))"

lemma AmountFromJson_range: "AmountFromJson val = Some n \<Longrightarrow> 0 \<le> n \<and> n \<le> MAX_AMOUNT"
  by (auto simp: AmountFromJson_def split: if_splits option.splits)

lemma AmountFromJson_ToJson:
  "AmountFromJson (AmountToJson n) = (if 0 \<le> n \<and> n \<le> MAX_AMOUNT then Some n else None)"
  by (auto simp: AmountFromJson_def AmountToJson_def isInt64_def IsIntegerValue_def MAX_AMOUNT_def)

lemma i64_add_in:
  "\<lbrakk>- MAX_AMOUNT \<le> a + b; a + b \<le> 2 * MAX_AMOUNT\<rbrakk> \<Longrightarrow> i64_add a b = Some (a + b)"
  by (simp add: i64_add_def MAX_AMOUNT_def)

section \<open>Assets\<close>

datatype Asset = Asset (GetMinter: string) (GetName: string)

text \<open>Assets are ordered by minter and then by name, as in \<open>operator<\<close>.\<close>

definition Asset_lt :: "Asset \<Rightarrow> Asset \<Rightarrow> bool" where
  "Asset_lt a b = (if GetMinter a \<noteq> GetMinter b then GetMinter a < GetMinter b
                   else GetName a < GetName b)"

instantiation Asset :: linorder
begin

definition less_Asset :: "Asset \<Rightarrow> Asset \<Rightarrow> bool" where
  "less_Asset a b = Asset_lt a b"

definition less_eq_Asset :: "Asset \<Rightarrow> Asset \<Rightarrow> bool" where
  "less_eq_Asset a b = (a = b \<or> a < b)"

instance
proof
  fix a b c :: Asset
  show "(a < b) = (a \<le> b \<and> \<not> b \<le> a)"
    by (cases a; cases b) (auto simp: less_eq_Asset_def less_Asset_def Asset_lt_def)
  show "a \<le> a"
    by (simp add: less_eq_Asset_def)
  show "\<lbrakk>a \<le> b; b \<le> c\<rbrakk> \<Longrightarrow> a \<le> c"
    by (cases a; cases b; cases c) (auto simp: less_eq_Asset_def less_Asset_def Asset_lt_def split: if_splits)
  show "\<lbrakk>a \<le> b; b \<le> a\<rbrakk> \<Longrightarrow> a = b"
    by (cases a; cases b) (auto simp: less_eq_Asset_def less_Asset_def Asset_lt_def split: if_splits)
  show "a \<le> b \<or> b \<le> a"
    by (cases a; cases b) (auto simp: less_eq_Asset_def less_Asset_def Asset_lt_def)
qed

end

definition Asset_ToJson :: "Asset \<Rightarrow> json" where
  "Asset_ToJson a = JObject (member_set ''a'' (JString (GetName a))
                      (member_set ''m'' (JString (GetMinter a)) []))"

definition IsValidName :: "string \<Rightarrow> bool" where
  "IsValidName nm = list_all (\<lambda>c. \<not> of_char c < (0x20 :: nat)) nm"

definition GetPrintableString :: "json \<Rightarrow> string option" where
  "GetPrintableString val = (case val of
     JString s \<Rightarrow> (if IsValidName s then Some s else None)
   | _ \<Rightarrow> None)"

definition Asset_FromJson :: "json \<Rightarrow> Asset option" where
  "Asset_FromJson val =
    (if \<not> isObject val \<or> json_size val \<noteq> 2 then None
     else case GetPrintableString (member val ''m'') of
       None \<Rightarrow> None
     | Some m \<Rightarrow> (case GetPrintableString (member val ''a'') of
         None \<Rightarrow> None
       | Some n \<Rightarrow> Some (Asset m n)))"

text \<open>A size-two table whose two keys are known is the two entries.\<close>

lemma two_members:
  assumes t: "tbl_ok ms" "length ms = 2" and k: "map_of ms k = Some v" "map_of ms l = Some w" "k < l"
  shows "ms = [(k, v), (l, w)]"
proof -
  obtain a x b y where ms: "ms = [(a, x), (b, y)]"
    using t(2) by (auto simp: numeral_2_eq_2 length_Suc_conv)
  then have "a < b" using t(1) by (simp add: tbl_ok_def)
  then show ?thesis
    using k by (auto simp: ms split: if_splits)
qed

lemma member_JString: "member j k = JString s \<Longrightarrow> \<exists>ms. j = JObject ms \<and> map_of ms k = Some (JString s)"
  by (cases j) (simp_all add: member_def split: option.splits)

lemma GetPrintableString_Some:
  "GetPrintableString j = Some s \<longleftrightarrow> j = JString s \<and> IsValidName s"
  by (cases j) (auto simp: GetPrintableString_def)

lemma FromJson_ToJson:
  "Asset_FromJson (Asset_ToJson a) =
    (if IsValidName (GetMinter a) \<and> IsValidName (GetName a) then Some a else None)"
  by (cases a) (simp add: Asset_FromJson_def Asset_ToJson_def isObject_def json_size_def member_def
      GetPrintableString_def)

lemma FromJson_unique:
  assumes ms: "tbl_ok ms" and acc: "Asset_FromJson (JObject ms) = Some a"
  shows "JObject ms = Asset_ToJson a"
proof -
  from acc have len: "length ms = 2"
    and m: "GetPrintableString (member (JObject ms) ''m'') = Some (GetMinter a)"
    and n: "GetPrintableString (member (JObject ms) ''a'') = Some (GetName a)"
    by (auto simp: Asset_FromJson_def json_size_def split: if_splits option.splits)
  have "ms = [(''a'', JString (GetName a)), (''m'', JString (GetMinter a))]"
    by (rule two_members [OF ms len])
      (use m n in \<open>auto simp: GetPrintableString_Some dest!: member_JString\<close>)
  then show ?thesis by (simp add: Asset_ToJson_def)
qed

text \<open>
  The JSON form of an asset parses back to the asset exactly when its minter and name have no
  control characters, and an accepted JSON object (with its members in \<open>std::map\<close> order) is the
  JSON form of the asset it gives: no two different texts denote the same asset.
\<close>

lemma asset_json_roundtrip:
  assumes "tbl_ok ms" and "Asset_FromJson (JObject ms) = Some b"
  shows "JObject ms = Asset_ToJson b
    \<and> Asset_FromJson (Asset_ToJson a) =
      (if IsValidName (GetMinter a) \<and> IsValidName (GetName a) then Some a else None)"
  using FromJson_unique [OF assms] FromJson_ToJson by simp

end
