(* ===== verification/Ledger.thy ===== *)
theory Ledger
  imports Assets "HOL-Library.Product_Lexorder"
begin

text \<open>
  The abstract ledger of the non-fungible application: what the minted assets are and who owns how
  much of each.  The operations on it are the specification that both the processing of confirmed
  moves and the tracking of pending moves implement.
\<close>

record ledger =
  lassets :: "Asset \<Rightarrow> string option option"
  lbal :: "Asset \<Rightarrow> string \<Rightarrow> int"

definition empty_ledger :: ledger where
  "empty_ledger = \<lparr>lassets = (\<lambda>_. None), lbal = (\<lambda>_ _. 0)\<rparr>"

datatype operation =
    Mint Asset int "string option"
  | Transfer Asset int string string
  | Burn Asset int string

definition credit :: "Asset \<Rightarrow> string \<Rightarrow> int \<Rightarrow> ledger \<Rightarrow> ledger" where
  "credit a nm n L = L\<lparr>lbal := (lbal L)(a := (lbal L a)(nm := lbal L a nm + n))\<rparr>"

definition add_asset :: "Asset \<Rightarrow> string option \<Rightarrow> ledger \<Rightarrow> ledger" where
  "add_asset a d L = L\<lparr>lassets := (lassets L)(a \<mapsto> d)\<rparr>"

fun apply_op :: "operation \<Rightarrow> ledger \<Rightarrow> ledger" where
  "apply_op (Mint a n d) L =
    (if lassets L a \<noteq> None then L else credit a (GetMinter a) n (add_asset a d L))"
| "apply_op (Transfer a n s r) L =
    (if lbal L a s < n then L else credit a r n (credit a s (- n) L))"
| "apply_op (Burn a n s) L =
    (if lbal L a s < n then L else credit a s (- n) L)"

fun op_ok :: "operation \<Rightarrow> bool" where
  "op_ok (Mint a n d) = (0 \<le> n \<and> n \<le> MAX_AMOUNT)"
| "op_ok (Transfer a n s r) = (0 < n \<and> n \<le> MAX_AMOUNT)"
| "op_ok (Burn a n s) = (0 < n \<and> n \<le> MAX_AMOUNT)"

definition holders :: "ledger \<Rightarrow> Asset \<Rightarrow> string set" where
  "holders L a = {nm. lbal L a nm \<noteq> 0}"

definition total_supply :: "ledger \<Rightarrow> Asset \<Rightarrow> int" where
  "total_supply L a = (\<Sum>nm \<in> holders L a. lbal L a nm)"

definition ledger_ok :: "ledger \<Rightarrow> bool" where
  "ledger_ok L \<longleftrightarrow> (\<forall>a. finite (holders L a) \<and> (\<forall>nm. 0 \<le> lbal L a nm) \<and> total_supply L a \<le> MAX_AMOUNT
     \<and> (lassets L a = None \<longrightarrow> holders L a = {}))"

section \<open>The supply\<close>

lemma lbal_credit:
  "lbal (credit a nm n L) b m = lbal L b m + (if b = a \<and> m = nm then n else 0)"
  by (simp add: credit_def)

lemma lassets_credit [simp]: "lassets (credit a nm n L) = lassets L"
  by (simp add: credit_def)

lemma add_asset_simps [simp]:
  "lassets (add_asset a d L) = (lassets L)(a \<mapsto> d)"
  "lbal (add_asset a d L) = lbal L"
  "total_supply (add_asset a d L) = total_supply L"
  "holders (add_asset a d L) = holders L"
  by (simp_all add: add_asset_def total_supply_def holders_def fun_eq_iff)

lemma holders_credit_subset: "holders (credit a nm n L) b \<subseteq> insert nm (holders L b)"
  by (auto simp: holders_def lbal_credit)

lemma finite_holders_credit: "finite (holders L b) \<Longrightarrow> finite (holders (credit a nm n L) b)"
  by (meson finite.insertI finite_subset holders_credit_subset)

lemma total_supply_over:
  assumes "finite A" and "holders L a \<subseteq> A"
  shows "total_supply L a = (\<Sum>nm \<in> A. lbal L a nm)"
  unfolding total_supply_def by (rule sum.mono_neutral_left) (use assms in \<open>auto simp: holders_def\<close>)

lemma total_supply_credit:
  assumes "finite (holders L b)"
  shows "total_supply (credit a nm n L) b = total_supply L b + (if b = a then n else 0)"
proof -
  let ?A = "insert nm (holders L b)"
  have fin: "finite ?A" using assms by simp
  have "total_supply (credit a nm n L) b = (\<Sum>m \<in> ?A. lbal L b m + (if b = a \<and> m = nm then n else 0))"
    by (simp add: total_supply_over [OF fin holders_credit_subset] lbal_credit)
  also have "\<dots> = total_supply L b + (\<Sum>m \<in> ?A. if b = a \<and> m = nm then n else 0)"
    by (simp add: sum.distrib total_supply_over [OF fin, of L b] subset_insertI)
  also have "(\<Sum>m \<in> ?A. if b = a \<and> m = nm then n else 0) = (if b = a then n else 0)"
    using sum.delta [OF fin, of nm "\<lambda>_. n"] by (cases "b = a") simp_all
  finally show ?thesis .
qed

lemma ledger_okD:
  assumes "ledger_ok L"
  shows "finite (holders L a)" "0 \<le> lbal L a nm" "total_supply L a \<le> MAX_AMOUNT"
    "lassets L a = None \<Longrightarrow> lbal L a nm = 0" "lassets L a = None \<Longrightarrow> total_supply L a = 0"
proof -
  show "finite (holders L a)" "0 \<le> lbal L a nm" "total_supply L a \<le> MAX_AMOUNT"
    using assms by (auto simp: ledger_ok_def)
  assume "lassets L a = None"
  then have h: "holders L a = {}" using assms by (auto simp: ledger_ok_def)
  then show "lbal L a nm = 0" by (auto simp: holders_def)
  show "total_supply L a = 0" using h by (simp add: total_supply_def)
qed

text \<open>A balance, or the balances of two users, are at most the supply.\<close>

lemma balance_le_supply:
  assumes "ledger_ok L"
  shows "lbal L a nm \<le> total_supply L a"
proof -
  let ?A = "insert nm (holders L a)"
  have fin: "finite ?A" using ledger_okD(1) [OF assms] by simp
  have "lbal L a nm \<le> (\<Sum>m \<in> ?A. lbal L a m)"
    using fin ledger_okD(2) [OF assms] by (intro member_le_sum) auto
  then show ?thesis by (simp add: total_supply_over [OF fin subset_insertI])
qed

lemma two_balances_le_supply:
  assumes ok: "ledger_ok L" and ne: "s \<noteq> r"
  shows "lbal L a s + lbal L a r \<le> total_supply L a"
proof -
  let ?A = "insert s (insert r (holders L a))"
  have fin: "finite ?A" using ledger_okD(1) [OF ok] by simp
  have "(\<Sum>m \<in> {s, r}. lbal L a m) \<le> (\<Sum>m \<in> ?A. lbal L a m)"
    using fin ledger_okD(2) [OF ok] by (intro sum_mono2) auto
  also have "\<dots> = total_supply L a" by (subst total_supply_over [OF fin]) auto
  finally show ?thesis using ne by simp
qed

section \<open>Operations keep the ledger well-formed\<close>

lemma ledger_ok_credit:
  assumes L: "ledger_ok L" and a: "lassets L a \<noteq> None"
    and nn: "0 \<le> lbal L a nm + n" and le: "total_supply L a + n \<le> MAX_AMOUNT"
  shows "ledger_ok (credit a nm n L)"
  unfolding ledger_ok_def
proof (intro allI conjI impI)
  fix b m
  show "finite (holders (credit a nm n L) b)"
    by (rule finite_holders_credit [OF ledger_okD(1) [OF L]])
  show "0 \<le> lbal (credit a nm n L) b m"
    using nn ledger_okD(2) [OF L] by (simp add: lbal_credit)
  show "total_supply (credit a nm n L) b \<le> MAX_AMOUNT"
    using le ledger_okD(3) [OF L] by (simp add: total_supply_credit [OF ledger_okD(1) [OF L]])
  assume "lassets (credit a nm n L) b = None"
  then have "b \<noteq> a" and "lassets L b = None" using a by auto
  then show "holders (credit a nm n L) b = {}"
    using ledger_okD(4) [OF L] by (simp add: holders_def lbal_credit)
qed

lemma ledger_ok_add_asset: "ledger_ok L \<Longrightarrow> ledger_ok (add_asset a d L)"
  by (simp add: ledger_ok_def)

lemma owned_asset_exists: "\<lbrakk>ledger_ok L; 0 < lbal L a nm\<rbrakk> \<Longrightarrow> lassets L a \<noteq> None"
  using ledger_okD(4) [of L a nm] by auto

text \<open>The state in the middle of a transfer, when the sender has been debited.\<close>

lemma ledger_ok_debit:
  assumes L: "ledger_ok L" and n: "0 < n" "n \<le> lbal L a s"
  shows "ledger_ok (credit a s (- n) L)" and "lassets L a \<noteq> None"
proof -
  show a: "lassets L a \<noteq> None" using owned_asset_exists [OF L, of a s] n by simp
  show "ledger_ok (credit a s (- n) L)"
    by (rule ledger_ok_credit [OF L a]) (use n ledger_okD(3) [OF L, of a] in simp_all)
qed

lemma total_supply_apply_op:
  assumes "ledger_ok L"
  shows "total_supply (apply_op c L) b = total_supply L b +
    (case c of
       Mint a n d \<Rightarrow> (if b = a \<and> lassets L a = None then n else 0)
     | Transfer a n s r \<Rightarrow> 0
     | Burn a n s \<Rightarrow> (if b = a \<and> n \<le> lbal L a s then - n else 0))"
  using ledger_okD(1) [OF assms]
  by (cases c) (auto simp: total_supply_credit finite_holders_credit)

lemma ledger_ok_apply_op [inv_intros]:
  assumes L: "ledger_ok L" and c: "op_ok c"
  shows "ledger_ok (apply_op c L)"
proof (cases c)
  case (Mint a n d)
  show ?thesis
  proof (cases "lassets L a")
    case None
    have "ledger_ok (credit a (GetMinter a) n (add_asset a d L))"
      by (rule ledger_ok_credit [OF ledger_ok_add_asset [OF L]])
        (use c ledger_okD(4,5) [OF L None] in \<open>simp_all add: Mint\<close>)
    then show ?thesis using None by (simp add: Mint)
  qed (use L in \<open>simp add: Mint\<close>)
next
  case (Transfer a n s r)
  show ?thesis
  proof (cases "lbal L a s < n")
    case False
    then have D: "ledger_ok (credit a s (- n) L)" "lassets L a \<noteq> None"
      using ledger_ok_debit [OF L, of n a s] c by (simp_all add: Transfer)
    have "ledger_ok (credit a r n (credit a s (- n) L))"
      by (rule ledger_ok_credit [OF D(1)])
        (use D c ledger_okD(2) [OF D(1), of a r] ledger_okD(1,3) [OF L, of a] in
          \<open>simp_all add: Transfer total_supply_credit\<close>)
    then show ?thesis using False by (simp add: Transfer)
  qed (use L in \<open>simp add: Transfer\<close>)
next
  case (Burn a n s)
  then show ?thesis
    using L c ledger_ok_debit [OF L, of n a s] by (cases "lbal L a s < n") simp_all
qed

lemma ledger_ok_apply_ops:
  "\<lbrakk>ledger_ok L; list_all op_ok cs\<rbrakk> \<Longrightarrow> ledger_ok (fold apply_op cs L)"
  by (induction cs arbitrary: L) (auto intro: inv_intros)

lemma empty_ledger_ok [simp]: "ledger_ok empty_ledger"
  by (simp add: empty_ledger_def ledger_ok_def holders_def total_supply_def MAX_AMOUNT_def)

section \<open>What operations cannot do\<close>

fun operator_of :: "operation \<Rightarrow> string" where
  "operator_of (Mint a n d) = GetMinter a"
| "operator_of (Transfer a n s r) = s"
| "operator_of (Burn a n s) = s"

lemma asset_frozen_op: "lassets L a = Some d \<Longrightarrow> lassets (apply_op c L) a = Some d"
  by (cases c) auto

lemma asset_frozen: "lassets L a = Some d \<Longrightarrow> lassets (fold apply_op cs L) a = Some d"
  by (induction cs arbitrary: L) (simp_all add: asset_frozen_op)

lemma supply_shrinks_op:
  "\<lbrakk>ledger_ok L; op_ok c; lassets L a \<noteq> None\<rbrakk> \<Longrightarrow> total_supply (apply_op c L) a \<le> total_supply L a"
  by (simp add: total_supply_apply_op split: operation.split) auto

lemma supply_shrinks:
  "\<lbrakk>ledger_ok L; list_all op_ok cs; lassets L a \<noteq> None\<rbrakk>
    \<Longrightarrow> total_supply (fold apply_op cs L) a \<le> total_supply L a"
proof (induction cs arbitrary: L)
  case (Cons c cs)
  have "lassets (apply_op c L) a \<noteq> None"
    using Cons.prems(3) asset_frozen_op by fastforce
  then have "total_supply (fold apply_op cs (apply_op c L)) a \<le> total_supply (apply_op c L) a"
    using Cons.prems by (intro Cons.IH) (auto intro: inv_intros)
  also have "\<dots> \<le> total_supply L a"
    using Cons.prems by (intro supply_shrinks_op) auto
  finally show ?case by simp
qed simp

text \<open>Only the owner's own operations reduce a balance.\<close>

lemma balance_protected_op:
  "\<lbrakk>op_ok c; operator_of c \<noteq> nm\<rbrakk> \<Longrightarrow> lbal L a nm \<le> lbal (apply_op c L) a nm"
  by (cases c) (auto simp: lbal_credit)

lemma balance_protected:
  "\<lbrakk>list_all (\<lambda>c. op_ok c \<and> operator_of c \<noteq> nm) cs\<rbrakk>
    \<Longrightarrow> lbal L a nm \<le> lbal (fold apply_op cs L) a nm"
proof (induction cs arbitrary: L)
  case (Cons c cs)
  then have "lbal L a nm \<le> lbal (apply_op c L) a nm"
    by (intro balance_protected_op) auto
  also have "\<dots> \<le> lbal (fold apply_op cs (apply_op c L)) a nm"
    using Cons by auto
  finally show ?case by simp
qed simp

end
