(* ===== verification/MoveParser.thy ===== *)
theory MoveParser
  imports Ledger
begin

text \<open>
  The parsing and validation of moves (\<open>nonfungible/moveparser.cpp\<close>).  The class \<open>MoveParser\<close> is
  abstract: its virtual methods are the fields of a \<open>parser_ops\<close> record, and the handlers take that
  record and the state of the subclass.  A rejected operation (a \<open>LOG (WARNING)\<close> and \<open>return\<close>)
  leaves the state as it is.

  The locale \<open>ledger_parser\<close> is the contract between the parser and its subclasses: the methods
  simulate the operations of the abstract ledger.  Under it, \<open>ProcessOne\<close> applies exactly the
  operations that the pure parser \<open>ops_of\<close> reads from the move.
\<close>

section \<open>The virtual methods\<close>

record 's parser_ops =
  ProcessMint :: "Asset \<Rightarrow> int \<Rightarrow> string option \<Rightarrow> 's \<Rightarrow> 's option"
  ProcessTransfer :: "Asset \<Rightarrow> int \<Rightarrow> string \<Rightarrow> string \<Rightarrow> 's \<Rightarrow> 's option"
  ProcessBurn :: "Asset \<Rightarrow> int \<Rightarrow> string \<Rightarrow> 's \<Rightarrow> 's option"
  AssetExists :: "'s \<Rightarrow> Asset \<Rightarrow> bool option"
  GetBalance :: "'s \<Rightarrow> Asset \<Rightarrow> string \<Rightarrow> int option"

section \<open>The handlers\<close>

definition HandleMint :: "'s parser_ops \<Rightarrow> string \<Rightarrow> json \<Rightarrow> 's \<Rightarrow> 's option" where
  "HandleMint P name op s =
    (if \<not> isObject op then Some s
     else let hasData = isMember op ''d'' in
     if hasData \<and> json_size op \<noteq> 3 \<or> \<not> hasData \<and> json_size op \<noteq> 2 then Some s
     else case member op ''a'' of
       JString assetName \<Rightarrow>
        (if \<not> IsValidName assetName then Some s
         else let a = Asset name assetName in
         case AmountFromJson (member op ''n'') of
           None \<Rightarrow> Some s
         | Some supply0 \<Rightarrow>
            (if hasData \<and> \<not> isString (member op ''d'') then Some s
             else do {
               data \<leftarrow> (if hasData then map_option Some (asString (member op ''d'')) else Some None);
               ex \<leftarrow> AssetExists P s a;
               if ex then Some s
               else ProcessMint P a supply0 data s
             }))
     | _ \<Rightarrow> Some s)"

definition HandleTransfer :: "'s parser_ops \<Rightarrow> string \<Rightarrow> json \<Rightarrow> 's \<Rightarrow> 's option" where
  "HandleTransfer P name op s =
    (if \<not> isObject op \<or> json_size op \<noteq> 3 then Some s
     else case Asset_FromJson (member op ''a'') of
       None \<Rightarrow> Some s
     | Some a \<Rightarrow> (case AmountFromJson (member op ''n'') of
         None \<Rightarrow> Some s
       | Some n \<Rightarrow>
          (if n \<le> 0 then Some s
           else case member op ''r'' of
             JString recv \<Rightarrow> do {
               balance \<leftarrow> GetBalance P s a name;
               if n > balance then Some s
               else ProcessTransfer P a n name recv s
             }
           | _ \<Rightarrow> Some s)))"

definition HandleBurn :: "'s parser_ops \<Rightarrow> string \<Rightarrow> json \<Rightarrow> 's \<Rightarrow> 's option" where
  "HandleBurn P name op s =
    (if \<not> isObject op \<or> json_size op \<noteq> 2 then Some s
     else case Asset_FromJson (member op ''a'') of
       None \<Rightarrow> Some s
     | Some a \<Rightarrow> (case AmountFromJson (member op ''n'') of
         None \<Rightarrow> Some s
       | Some n \<Rightarrow>
          (if n \<le> 0 then Some s
           else do {
             balance \<leftarrow> GetBalance P s a name;
             if n > balance then Some s
             else ProcessBurn P a n name s
           })))"

definition HandleOperation :: "'s parser_ops \<Rightarrow> string \<Rightarrow> json \<Rightarrow> 's \<Rightarrow> 's option" where
  "HandleOperation P name mv s = do {
     check (isObject mv);
     if json_size mv \<noteq> 1 then Some s
     else if isMember mv ''m'' then HandleMint P name (member mv ''m'') s
     else if isMember mv ''t'' then HandleTransfer P name (member mv ''t'') s
     else if isMember mv ''b'' then HandleBurn P name (member mv ''b'') s
     else Some s
   }"

text \<open>The loop over an array move.\<close>

fun HandleOperations :: "'s parser_ops \<Rightarrow> string \<Rightarrow> json list \<Rightarrow> 's \<Rightarrow> 's option" where
  "HandleOperations P name [] s = Some s"
| "HandleOperations P name (op # ops) s = do {
     s' \<leftarrow> (if isObject op then HandleOperation P name op s else Some s);
     HandleOperations P name ops s'
   }"

definition ProcessOne :: "'s parser_ops \<Rightarrow> json \<Rightarrow> 's \<Rightarrow> 's option" where
  "ProcessOne P obj s = do {
     check (isObject obj);
     let nameVal = member obj ''name'';
     check (isString nameVal);
     name \<leftarrow> asString nameVal;
     case member obj ''move'' of
       JObject ms \<Rightarrow> HandleOperation P name (JObject ms) s
     | JArray ops \<Rightarrow> HandleOperations P name ops s
     | _ \<Rightarrow> Some s
   }"

section \<open>What a move means\<close>

text \<open>
  The operations a move asks for, independently of any state: the format checks of the handlers
  without the checks of existence and balance.
\<close>

definition parse_mint :: "string \<Rightarrow> json \<Rightarrow> operation option" where
  "parse_mint name op =
    (case (op, member op ''a'', AmountFromJson (member op ''n'')) of
       (JObject ms, JString nm, Some n) \<Rightarrow>
         if IsValidName nm then
           (case map_of ms ''d'' of
              None \<Rightarrow> if length ms = 2 then Some (Mint (Asset name nm) n None) else None
            | Some (JString d) \<Rightarrow> if length ms = 3 then Some (Mint (Asset name nm) n (Some d)) else None
            | Some _ \<Rightarrow> None)
         else None
     | _ \<Rightarrow> None)"

definition parse_transfer :: "string \<Rightarrow> json \<Rightarrow> operation option" where
  "parse_transfer name op =
    (case (op, Asset_FromJson (member op ''a''), AmountFromJson (member op ''n''), member op ''r'') of
       (JObject ms, Some a, Some n, JString r) \<Rightarrow>
         if length ms = 3 \<and> 0 < n then Some (Transfer a n name r) else None
     | _ \<Rightarrow> None)"

definition parse_burn :: "string \<Rightarrow> json \<Rightarrow> operation option" where
  "parse_burn name op =
    (case (op, Asset_FromJson (member op ''a''), AmountFromJson (member op ''n'')) of
       (JObject ms, Some a, Some n) \<Rightarrow>
         if length ms = 2 \<and> 0 < n then Some (Burn a n name) else None
     | _ \<Rightarrow> None)"

definition parse_op :: "string \<Rightarrow> json \<Rightarrow> operation option" where
  "parse_op name mv = (case mv of
     JObject [(k, op)] \<Rightarrow>
       if k = ''m'' then parse_mint name op
       else if k = ''t'' then parse_transfer name op
       else if k = ''b'' then parse_burn name op
       else None
   | _ \<Rightarrow> None)"

definition ops_of :: "json \<Rightarrow> operation list" where
  "ops_of obj = (case member obj ''name'' of
     JString name \<Rightarrow> (case member obj ''move'' of
         JObject ms \<Rightarrow> List.map_filter (parse_op name) [JObject ms]
       | JArray ops \<Rightarrow> List.map_filter (parse_op name) ops
       | _ \<Rightarrow> [])
   | _ \<Rightarrow> [])"

definition move_ok :: "json \<Rightarrow> bool" where
  "move_ok obj = (isObject obj \<and> isString (member obj ''name''))"

fun exec :: "'s parser_ops \<Rightarrow> operation \<Rightarrow> 's \<Rightarrow> 's option" where
  "exec P (Mint a n d) s = do {
     ex \<leftarrow> AssetExists P s a;
     if ex then Some s else ProcessMint P a n d s }"
| "exec P (Transfer a n x r) s = do {
     balance \<leftarrow> GetBalance P s a x;
     if n > balance then Some s else ProcessTransfer P a n x r s }"
| "exec P (Burn a n x) s = do {
     balance \<leftarrow> GetBalance P s a x;
     if n > balance then Some s else ProcessBurn P a n x s }"

fun exec_all :: "'s parser_ops \<Rightarrow> operation list \<Rightarrow> 's \<Rightarrow> 's option" where
  "exec_all P [] s = Some s"
| "exec_all P (c # cs) s = Option.bind (exec P c s) (exec_all P cs)"

definition exec_opt :: "'s parser_ops \<Rightarrow> operation option \<Rightarrow> 's \<Rightarrow> 's option" where
  "exec_opt P c s = (case c of None \<Rightarrow> Some s | Some c \<Rightarrow> exec P c s)"

lemma exec_opt_simps [simp]: "exec_opt P None s = Some s" "exec_opt P (Some c) s = exec P c s"
  by (simp_all add: exec_opt_def)

section \<open>The handlers execute the parsed operations\<close>

lemmas json_test_defs = isObject_def isString_def asString_def isMember_def json_size_def

lemma HandleMint_exec: "HandleMint P name op s = exec_opt P (parse_mint name op) s"
proof (cases op)
  case (JObject ms)
  show ?thesis
  proof (cases "member op ''a''")
    case (JString nm)
    show ?thesis
    proof (cases "map_of ms ''d''")
      case None
      then show ?thesis
        by (simp add: HandleMint_def parse_mint_def JObject JString [unfolded JObject] json_test_defs
            Let_def split: option.split)
    next
      case (Some d)
      then have "member op ''d'' = d" by (simp add: JObject member_def)
      then show ?thesis
        using Some
        by (cases d) (simp_all add: HandleMint_def parse_mint_def JObject JString [unfolded JObject]
            json_test_defs Let_def split: option.split)
    qed
  qed (simp_all add: HandleMint_def parse_mint_def JObject Let_def)
qed (simp_all add: HandleMint_def parse_mint_def isObject_def)

lemma HandleTransfer_exec: "HandleTransfer P name op s = exec_opt P (parse_transfer name op) s"
  by (cases op) (simp_all add: HandleTransfer_def parse_transfer_def isObject_def json_size_def
      split: option.split json.split)

lemma HandleBurn_exec: "HandleBurn P name op s = exec_opt P (parse_burn name op) s"
  by (cases op) (simp_all add: HandleBurn_def parse_burn_def isObject_def json_size_def
      split: option.split)

lemma HandleOperation_exec:
  "HandleOperation P name (JObject ms) s = exec_opt P (parse_op name (JObject ms)) s"
proof (cases "\<exists>k op. ms = [(k, op)]")
  case True
  then obtain k op where "ms = [(k, op)]" by blast
  then show ?thesis
    by (simp add: HandleOperation_def parse_op_def isObject_def isMember_def json_size_def member_def
        HandleMint_exec HandleTransfer_exec HandleBurn_exec)
next
  case False
  then have "length ms \<noteq> 1" by (auto simp: length_Suc_conv)
  moreover have "parse_op name (JObject ms) = None"
    using False by (auto simp: parse_op_def split: list.split)
  ultimately show ?thesis
    by (simp add: HandleOperation_def isObject_def json_size_def)
qed

lemma parse_op_not_object: "\<not> isObject j \<Longrightarrow> parse_op name j = None"
  by (cases j) (simp_all add: parse_op_def isObject_def)

lemma HandleOperations_exec:
  "HandleOperations P name ops s = exec_all P (List.map_filter (parse_op name) ops) s"
proof (induction ops arbitrary: s)
  case (Cons op ops)
  have eq: "HandleOperations P name ops = exec_all P (List.map_filter (parse_op name) ops)"
    by (rule ext) (rule Cons.IH)
  show ?case
  proof (cases "isObject op")
    case True
    then obtain ms where "op = JObject ms" by (cases op) (auto simp: isObject_def)
    then show ?thesis
      using True eq by (cases "parse_op name op") (simp_all add: HandleOperation_exec map_filter_simps)
  next
    case False
    then show ?thesis
      using eq by (simp add: parse_op_not_object map_filter_simps)
  qed
qed (simp add: map_filter_simps)

lemma ProcessOne_exec:
  "ProcessOne P obj s = (if move_ok obj then exec_all P (ops_of obj) s else None)"
proof (cases "move_ok obj")
  case True
  then obtain nm where nm: "member obj ''name'' = JString nm" and o: "isObject obj"
    by (cases "member obj ''name''") (auto simp: move_ok_def isString_def)
  show ?thesis
  proof (cases "member obj ''move''")
    case (JObject ms)
    have "HandleOperations P nm [JObject ms] s = HandleOperation P nm (JObject ms) s"
      by (simp add: isObject_def split: Option.bind_split)
    then show ?thesis
      using True by (simp add: ProcessOne_def nm o ops_of_def isString_def asString_def JObject
          HandleOperations_exec)
  qed (use True in \<open>simp_all add: ProcessOne_def nm o ops_of_def isString_def asString_def
        HandleOperations_exec\<close>)
qed (auto simp: ProcessOne_def move_ok_def)

text \<open>Parsed operations have amounts in range and act for the sender of the move.\<close>

lemma parse_mint_ok: "parse_mint name op = Some c \<Longrightarrow> op_ok c \<and> operator_of c = name"
  by (auto simp: parse_mint_def dest!: AmountFromJson_range
      split: json.splits option.splits if_splits)

lemma parse_transfer_ok: "parse_transfer name op = Some c \<Longrightarrow> op_ok c \<and> operator_of c = name"
  by (auto simp: parse_transfer_def dest!: AmountFromJson_range
      split: json.splits option.splits if_splits)

lemma parse_burn_ok: "parse_burn name op = Some c \<Longrightarrow> op_ok c \<and> operator_of c = name"
  by (auto simp: parse_burn_def dest!: AmountFromJson_range
      split: json.splits option.splits if_splits)

lemma parse_op_ok: "parse_op name mv = Some c \<Longrightarrow> op_ok c \<and> operator_of c = name"
  by (auto simp: parse_op_def dest: parse_mint_ok parse_transfer_ok parse_burn_ok
      split: json.splits list.splits if_splits)

lemma map_filter_parse_op:
  "list_all (\<lambda>c. op_ok c \<and> operator_of c = name) (List.map_filter (parse_op name) ops)"
  by (auto simp: list_all_iff List.map_filter_def dest: parse_op_ok)

lemma ops_of_operator:
  assumes "member obj ''name'' = JString name"
  shows "list_all (\<lambda>c. op_ok c \<and> operator_of c = name) (ops_of obj)"
  by (cases "member obj ''move''")
    (simp_all add: ops_of_def assms map_filter_parse_op del: map_filter_simps)

lemma ops_of_ok: "list_all op_ok (ops_of obj)"
proof (cases "member obj ''name''")
  case (JString name)
  then show ?thesis using ops_of_operator by (auto simp: list_all_iff)
qed (simp_all add: ops_of_def)

section \<open>The contract of the subclasses\<close>

locale ledger_parser =
  fixes P :: "'s parser_ops" and abs :: "'s \<Rightarrow> ledger" and inv :: "'s \<Rightarrow> bool"
  assumes ledger: "inv s \<Longrightarrow> ledger_ok (abs s)"
    and AssetExists: "inv s \<Longrightarrow> AssetExists P s a = Some (lassets (abs s) a \<noteq> None)"
    and GetBalance: "inv s \<Longrightarrow> GetBalance P s a nm = Some (lbal (abs s) a nm)"
    and ProcessMint: "\<lbrakk>inv s; op_ok (Mint a n d); lassets (abs s) a = None\<rbrakk>
      \<Longrightarrow> \<exists>s'. ProcessMint P a n d s = Some s' \<and> inv s' \<and> abs s' = apply_op (Mint a n d) (abs s)"
    and ProcessTransfer: "\<lbrakk>inv s; op_ok (Transfer a n x y); n \<le> lbal (abs s) a x\<rbrakk>
      \<Longrightarrow> \<exists>s'. ProcessTransfer P a n x y s = Some s' \<and> inv s' \<and> abs s' = apply_op (Transfer a n x y) (abs s)"
    and ProcessBurn: "\<lbrakk>inv s; op_ok (Burn a n x); n \<le> lbal (abs s) a x\<rbrakk>
      \<Longrightarrow> \<exists>s'. ProcessBurn P a n x s = Some s' \<and> inv s' \<and> abs s' = apply_op (Burn a n x) (abs s)"
begin

lemma exec_simulates:
  assumes s: "inv s" and c: "op_ok c"
  shows "\<exists>s'. exec P c s = Some s' \<and> inv s' \<and> abs s' = apply_op c (abs s)"
proof (cases c)
  case (Mint a n d)
  then show ?thesis
    using s c ProcessMint [OF s, of a n d] by (cases "lassets (abs s) a") (auto simp: AssetExists)
next
  case (Transfer a n x y)
  then show ?thesis
    using s c ProcessTransfer [OF s, of a n x y] by (auto simp: GetBalance)
next
  case (Burn a n x)
  then show ?thesis
    using s c ProcessBurn [OF s, of a n x] by (auto simp: GetBalance)
qed

lemma exec_all_simulates:
  "\<lbrakk>inv s; list_all op_ok cs\<rbrakk>
    \<Longrightarrow> \<exists>s'. exec_all P cs s = Some s' \<and> inv s' \<and> abs s' = fold apply_op cs (abs s)"
proof (induction cs arbitrary: s)
  case (Cons c cs)
  then obtain s' where s': "exec P c s = Some s'" "inv s'" "abs s' = apply_op c (abs s)"
    using exec_simulates [of s c] by auto
  then show ?case
    using Cons.IH [OF s'(2)] Cons.prems by auto
qed simp

lemma ProcessOne_simulates:
  assumes "inv s" and "move_ok obj"
  shows "\<exists>s'. ProcessOne P obj s = Some s' \<and> inv s' \<and> abs s' = fold apply_op (ops_of obj) (abs s)"
  using exec_all_simulates [OF assms(1) ops_of_ok] assms(2) by (simp add: ProcessOne_exec)

end

text \<open>
  Both subclasses build their operations from two steps: adding an asset and updating a balance.
  The contract \<open>ledger_store\<close> of these steps gives the laws of the three operations.
\<close>

locale ledger_store =
  fixes add :: "Asset \<Rightarrow> string option \<Rightarrow> 's \<Rightarrow> 's option"
    and upd :: "Asset \<Rightarrow> string \<Rightarrow> int \<Rightarrow> 's \<Rightarrow> 's option"
    and abs :: "'s \<Rightarrow> ledger" and inv :: "'s \<Rightarrow> bool"
  assumes store_ledger: "inv s \<Longrightarrow> ledger_ok (abs s)"
    and add: "\<lbrakk>inv s; lassets (abs s) a = None\<rbrakk>
      \<Longrightarrow> \<exists>s'. add a d s = Some s' \<and> inv s' \<and> abs s' = add_asset a d (abs s)"
    and upd: "\<lbrakk>inv s; 0 \<le> lbal (abs s) a nm + n; lbal (abs s) a nm + n \<le> MAX_AMOUNT;
        ledger_ok (credit a nm n (abs s))\<rbrakk>
      \<Longrightarrow> \<exists>s'. upd a nm n s = Some s' \<and> inv s' \<and> abs s' = credit a nm n (abs s)"
begin

lemma upd_to:
  assumes "inv s" and L: "ledger_ok (credit a nm n (abs s))"
  shows "\<exists>s'. upd a nm n s = Some s' \<and> inv s' \<and> abs s' = credit a nm n (abs s)"
proof (rule upd [OF assms(1) _ _ L])
  show "0 \<le> lbal (abs s) a nm + n"
    using ledger_okD(2) [OF L, of a nm] by (simp add: lbal_credit)
  show "lbal (abs s) a nm + n \<le> MAX_AMOUNT"
    using balance_le_supply [OF L, of a nm] ledger_okD(3) [OF L, of a] by (simp add: lbal_credit)
qed

lemma mint:
  assumes s: "inv s" and c: "op_ok (Mint a n d)" and new: "lassets (abs s) a = None"
  shows "\<exists>s'. Option.bind (add a d s) (\<lambda>s'. if 0 < n then upd a (GetMinter a) n s' else Some s') = Some s'
    \<and> inv s' \<and> abs s' = apply_op (Mint a n d) (abs s)"
proof -
  obtain s1 where s1: "add a d s = Some s1" "inv s1" "abs s1 = add_asset a d (abs s)"
    using add [OF s new] by blast
  show ?thesis
  proof (cases "0 < n")
    case True
    have "ledger_ok (credit a (GetMinter a) n (abs s1))"
      using ledger_ok_apply_op [OF store_ledger [OF s] c] new by (simp add: s1)
    from upd_to [OF s1(2) this] show ?thesis using True new by (auto simp: s1)
  next
    case False
    then have "n = 0" using c by simp
    moreover have "credit a (GetMinter a) 0 L = L" for L by (simp add: credit_def)
    ultimately show ?thesis using new by (simp add: s1)
  qed
qed

lemma burn:
  assumes s: "inv s" and c: "op_ok (Burn a n x)" and b: "n \<le> lbal (abs s) a x"
  shows "\<exists>s'. upd a x (- n) s = Some s' \<and> inv s' \<and> abs s' = apply_op (Burn a n x) (abs s)"
  using upd_to [OF s, of a x "- n"] ledger_ok_apply_op [OF store_ledger [OF s] c] b by simp

lemma transfer:
  assumes s: "inv s" and c: "op_ok (Transfer a n x y)" and b: "n \<le> lbal (abs s) a x"
  shows "\<exists>s'. Option.bind (upd a x (- n) s) (upd a y n) = Some s' \<and> inv s'
    \<and> abs s' = apply_op (Transfer a n x y) (abs s)"
proof -
  obtain s1 where s1: "upd a x (- n) s = Some s1" "inv s1" "abs s1 = credit a x (- n) (abs s)"
    using burn [OF s, of a n x] b c by auto
  have "ledger_ok (credit a y n (abs s1))"
    using ledger_ok_apply_op [OF store_ledger [OF s] c] b by (simp add: s1)
  from upd_to [OF s1(2) this] show ?thesis using b by (auto simp: s1)
qed

end

end
