(* ===== verification/MoveProcessor.thy ===== *)
theory MoveProcessor
  imports MoveParser
begin

text \<open>
  The processing of confirmed moves (\<open>nonfungible/moveprocessor.cpp\<close>) on the game-state database
  (\<open>nonfungible/schema.sql\<close>): a table of assets with primary key \<open>(minter, asset)\<close> and a table of
  balances with primary key \<open>(name, minter, asset)\<close>.  The interpretation \<open>confirmed\<close> shows that the
  processor keeps its contract as a subclass of \<open>MoveParser\<close>: none of its checks can fail.
\<close>

record nf_db =
  assets :: "(Asset \<times> string option) list"
  balances :: "((string \<times> Asset) \<times> int) list"

definition GetDbBalance :: "nf_db \<Rightarrow> Asset \<Rightarrow> string \<Rightarrow> int option" where
  "GetDbBalance db a name =
    (case filter (\<lambda>row. fst row = (name, a)) (balances db) of
       [] \<Rightarrow> Some 0
     | [row] \<Rightarrow> Some (snd row)
     | _ \<Rightarrow> None)"

definition MoveParser_AssetExists :: "nf_db \<Rightarrow> Asset \<Rightarrow> bool option" where
  "MoveParser_AssetExists db a = do {
     let count = length (filter (\<lambda>row. fst row = a) (assets db));
     check (count \<le> 1);
     Some (count > 0)
   }"

definition MoveProcessor_UpdateBalance :: "Asset \<Rightarrow> string \<Rightarrow> int \<Rightarrow> nf_db \<Rightarrow> nf_db option" where
  "MoveProcessor_UpdateBalance a name num db = do {
     oldBalance \<leftarrow> GetDbBalance db a name;
     newBalance \<leftarrow> i64_add oldBalance num;
     check (newBalance \<ge> 0);
     check (newBalance \<le> MAX_AMOUNT);
     Some (if newBalance = 0
           then db\<lparr>balances := member_del (name, a) (balances db)\<rparr>
           else db\<lparr>balances := member_set (name, a) newBalance (balances db)\<rparr>)
   }"

text \<open>The plain \<open>INSERT\<close> fails on an existing key, which is a fatal error of \<open>Step\<close>.\<close>

definition MoveProcessor_ProcessMint ::
    "Asset \<Rightarrow> int \<Rightarrow> string option \<Rightarrow> nf_db \<Rightarrow> nf_db option" where
  "MoveProcessor_ProcessMint a supply0 data db = do {
     check (map_of (assets db) a = None);
     let db' = db\<lparr>assets := member_set a data (assets db)\<rparr>;
     if supply0 > 0 then MoveProcessor_UpdateBalance a (GetMinter a) supply0 db'
     else Some db'
   }"

definition MoveProcessor_ProcessTransfer ::
    "Asset \<Rightarrow> int \<Rightarrow> string \<Rightarrow> string \<Rightarrow> nf_db \<Rightarrow> nf_db option" where
  "MoveProcessor_ProcessTransfer a num sender recipient db = do {
     db' \<leftarrow> MoveProcessor_UpdateBalance a sender (- num) db;
     MoveProcessor_UpdateBalance a recipient num db'
   }"

definition MoveProcessor_ProcessBurn :: "Asset \<Rightarrow> int \<Rightarrow> string \<Rightarrow> nf_db \<Rightarrow> nf_db option" where
  "MoveProcessor_ProcessBurn a num sender db = MoveProcessor_UpdateBalance a sender (- num) db"

definition MoveProcessor :: "nf_db parser_ops" where
  "MoveProcessor =
    \<lparr>ProcessMint = MoveProcessor_ProcessMint,
     ProcessTransfer = MoveProcessor_ProcessTransfer,
     ProcessBurn = MoveProcessor_ProcessBurn,
     AssetExists = MoveParser_AssetExists,
     GetBalance = GetDbBalance\<rparr>"

fun ProcessAll_loop :: "json list \<Rightarrow> nf_db \<Rightarrow> nf_db option" where
  "ProcessAll_loop [] db = Some db"
| "ProcessAll_loop (mv # mvs) db = do {
     db' \<leftarrow> ProcessOne MoveProcessor mv db;
     ProcessAll_loop mvs db'
   }"

definition ProcessAll :: "json \<Rightarrow> nf_db \<Rightarrow> nf_db option" where
  "ProcessAll moves db = (case moves of
     JArray mvs \<Rightarrow> ProcessAll_loop mvs db
   | _ \<Rightarrow> None)"

section \<open>The ledger of a database\<close>

definition db_ledger :: "nf_db \<Rightarrow> ledger" where
  "db_ledger db =
    \<lparr>lassets = map_of (assets db),
     lbal = (\<lambda>a nm. case map_of (balances db) (nm, a) of None \<Rightarrow> 0 | Some n \<Rightarrow> n)\<rparr>"

definition db_ok :: "nf_db \<Rightarrow> bool" where
  "db_ok db \<longleftrightarrow> tbl_ok (assets db) \<and> tbl_ok (balances db)
    \<and> (\<forall>row \<in> set (balances db). 0 < snd row) \<and> ledger_ok (db_ledger db)"

lemma db_okD:
  assumes "db_ok db"
  shows "tbl_ok (assets db)" "tbl_ok (balances db)" "ledger_ok (db_ledger db)"
  using assms by (simp_all add: db_ok_def)

lemma GetDbBalance_ledger:
  "tbl_ok (balances db) \<Longrightarrow> GetDbBalance db a nm = Some (lbal (db_ledger db) a nm)"
  by (simp add: GetDbBalance_def db_ledger_def select_key split: option.split)

lemma AssetExists_ledger:
  "tbl_ok (assets db) \<Longrightarrow> MoveParser_AssetExists db a = Some (lassets (db_ledger db) a \<noteq> None)"
  by (simp add: MoveParser_AssetExists_def db_ledger_def select_key split: option.split)

lemma positive_rows:
  "\<lbrakk>\<forall>row \<in> set t. 0 < snd row; 0 < (n :: int)\<rbrakk> \<Longrightarrow> \<forall>row \<in> set (member_set k n t). 0 < snd row"
  using set_member_set_subset [of k n t] by auto

lemma positive_rows_del: "\<forall>row \<in> set t. 0 < snd row \<Longrightarrow> \<forall>row \<in> set (member_del k t). 0 < (snd row :: int)"
  by (simp add: member_del_def)

lemma UpdateBalance_ledger:
  assumes db: "db_ok db"
    and nn: "0 \<le> lbal (db_ledger db) a nm + n" and le: "lbal (db_ledger db) a nm + n \<le> MAX_AMOUNT"
    and ok: "ledger_ok (credit a nm n (db_ledger db))"
  shows "\<exists>db'. MoveProcessor_UpdateBalance a nm n db = Some db' \<and> db_ok db'
    \<and> db_ledger db' = credit a nm n (db_ledger db)"
proof -
  let ?b = "lbal (db_ledger db) a nm"
  have t: "tbl_ok (assets db)" "tbl_ok (balances db)" "\<forall>row \<in> set (balances db). 0 < snd row"
    using db by (auto simp: db_ok_def)
  define db' where "db' = (if ?b + n = 0
           then db\<lparr>balances := member_del (nm, a) (balances db)\<rparr>
           else db\<lparr>balances := member_set (nm, a) (?b + n) (balances db)\<rparr>)"
  have "i64_add ?b n = Some (?b + n)"
    by (rule i64_add_in) (use nn le in \<open>auto simp: MAX_AMOUNT_def\<close>)
  then have "MoveProcessor_UpdateBalance a nm n db = Some db'"
    using nn le by (simp add: MoveProcessor_UpdateBalance_def GetDbBalance_ledger [OF t(2)] db'_def)
  moreover have L: "db_ledger db' = credit a nm n (db_ledger db)"
    using t(2) by (auto simp: db'_def db_ledger_def credit_def fun_eq_iff)
  moreover have "tbl_ok (assets db')" "tbl_ok (balances db')"
    using t by (simp_all add: db'_def)
  moreover have "\<forall>row \<in> set (balances db'). 0 < snd row"
    using nn positive_rows [OF t(3), of "?b + n"] positive_rows_del [OF t(3)] by (simp add: db'_def)
  ultimately show ?thesis using ok by (auto simp: db_ok_def)
qed

definition insert_asset :: "Asset \<Rightarrow> string option \<Rightarrow> nf_db \<Rightarrow> nf_db option" where
  "insert_asset a data db = do {
     check (map_of (assets db) a = None);
     Some (db\<lparr>assets := member_set a data (assets db)\<rparr>)
   }"

lemma insert_asset_ledger:
  assumes db: "db_ok db" and new: "lassets (db_ledger db) a = None"
  shows "\<exists>db'. insert_asset a d db = Some db' \<and> db_ok db' \<and> db_ledger db' = add_asset a d (db_ledger db)"
proof -
  let ?db = "db\<lparr>assets := member_set a d (assets db)\<rparr>"
  have l: "db_ledger ?db = add_asset a d (db_ledger db)"
    using db_okD(1) [OF db] by (simp add: db_ledger_def add_asset_def)
  have "db_ok ?db"
    using db by (simp add: db_ok_def l ledger_ok_add_asset)
  then show ?thesis
    using new l by (simp add: insert_asset_def) (simp add: db_ledger_def)
qed

interpretation db_store: ledger_store insert_asset MoveProcessor_UpdateBalance db_ledger db_ok
  by unfold_locales (simp_all only: db_okD insert_asset_ledger UpdateBalance_ledger)

lemma ProcessMint_store:
  "MoveProcessor_ProcessMint a n d db = Option.bind (insert_asset a d db)
    (\<lambda>db'. if 0 < n then MoveProcessor_UpdateBalance a (GetMinter a) n db' else Some db')"
  by (simp add: MoveProcessor_ProcessMint_def insert_asset_def)

interpretation confirmed: ledger_parser MoveProcessor db_ledger db_ok
  by unfold_locales
    (simp_all only: MoveProcessor_def parser_ops.simps ProcessMint_store
      MoveProcessor_ProcessTransfer_def MoveProcessor_ProcessBurn_def
      db_store.mint db_store.transfer db_store.burn AssetExists_ledger GetDbBalance_ledger db_okD)

lemma ProcessAll_loop_simulates:
  "\<lbrakk>db_ok db; list_all move_ok mvs\<rbrakk>
    \<Longrightarrow> \<exists>db'. ProcessAll_loop mvs db = Some db' \<and> db_ok db'
      \<and> db_ledger db' = fold apply_op (concat (map ops_of mvs)) (db_ledger db)"
proof (induction mvs arbitrary: db)
  case (Cons mv mvs)
  then obtain db' where db': "ProcessOne MoveProcessor mv db = Some db'" "db_ok db'"
      "db_ledger db' = fold apply_op (ops_of mv) (db_ledger db)"
    using confirmed.ProcessOne_simulates [of db mv] by auto
  then show ?case using Cons.IH [OF db'(2)] Cons.prems by auto
qed simp

end
