(* ===== verification/NfPending.thy ===== *)
theory NfPending
  imports MoveProcessor
begin

text \<open>
  The tracking of pending moves (\<open>nonfungible/pending.cpp\<close>): a \<open>PendingState\<close> holds the assets minted
  and the balances changed by pending moves, on top of the confirmed database.  The interpretation
  \<open>pending\<close> shows that \<open>PendingStateUpdater\<close> keeps the same contract as the processor of confirmed
  moves, so that the pending state predicts what the moves do once they are confirmed.
\<close>

record PendingState =
  pend_assets :: "(Asset \<times> string option) list"
  pend_balances :: "((string \<times> Asset) \<times> int) list"

definition new_PendingState :: PendingState where
  "new_PendingState = \<lparr>pend_assets = [], pend_balances = []\<rparr>"

definition IsNewAsset :: "PendingState \<Rightarrow> Asset \<Rightarrow> bool" where
  "IsNewAsset ps a = (map_of (pend_assets ps) a \<noteq> None)"

definition AddAsset :: "Asset \<Rightarrow> string option \<Rightarrow> PendingState \<Rightarrow> PendingState option" where
  "AddAsset a data ps = do {
     check (map_of (pend_assets ps) a = None);
     Some (ps\<lparr>pend_assets := member_set a data (pend_assets ps)\<rparr>)
   }"

definition PendingState_GetBalance :: "PendingState \<Rightarrow> Asset \<Rightarrow> string \<Rightarrow> int option" where
  "PendingState_GetBalance ps a name = map_of (pend_balances ps) (name, a)"

definition SetBalance :: "Asset \<Rightarrow> string \<Rightarrow> int \<Rightarrow> PendingState \<Rightarrow> PendingState" where
  "SetBalance a name balance ps =
    ps\<lparr>pend_balances := member_set (name, a) balance (pend_balances ps)\<rparr>"

section \<open>The JSON form\<close>

definition pend_asset_json :: "Asset \<times> string option \<Rightarrow> json" where
  "pend_asset_json entry = JObject (member_set ''data''
     (case snd entry of None \<Rightarrow> JNull | Some d \<Rightarrow> JString d)
     (member_set ''asset'' (Asset_ToJson (fst entry)) []))"

definition pend_balance_json :: "Asset \<Rightarrow> int \<Rightarrow> json" where
  "pend_balance_json a n = JObject (member_set ''balance'' (AmountToJson n)
     (member_set ''asset'' (Asset_ToJson a) []))"

text \<open>The loop over the balances, which collects the entries of each user in an array.\<close>

fun pend_balances_json ::
    "((string \<times> Asset) \<times> int) list \<Rightarrow> (string \<times> json) list \<Rightarrow> (string \<times> json) list option" where
  "pend_balances_json [] ms = Some ms"
| "pend_balances_json (((name, a), n) # entries) ms =
    (let cur = pend_balance_json a n;
         ms' = (if map_of ms name = None then member_set name (JArray []) ms else ms)
     in case map_of ms' name of
          Some (JArray xs) \<Rightarrow> pend_balances_json entries (member_set name (JArray (xs @ [cur])) ms')
        | _ \<Rightarrow> None)"

definition PendingState_ToJson :: "PendingState \<Rightarrow> json option" where
  "PendingState_ToJson ps = do {
     let assetsJson = JArray (map pend_asset_json (pend_assets ps));
     ms \<leftarrow> pend_balances_json (pend_balances ps) [];
     Some (JObject (member_set ''balances'' (JObject ms) (member_set ''assets'' assetsJson [])))
   }"

section \<open>The updater and the tracker\<close>

definition Pending_AssetExists :: "nf_db \<Rightarrow> PendingState \<Rightarrow> Asset \<Rightarrow> bool option" where
  "Pending_AssetExists db ps a =
    (if IsNewAsset ps a then Some True else MoveParser_AssetExists db a)"

definition Pending_GetBalance :: "nf_db \<Rightarrow> PendingState \<Rightarrow> Asset \<Rightarrow> string \<Rightarrow> int option" where
  "Pending_GetBalance db ps a name =
    (case PendingState_GetBalance ps a name of
       Some res \<Rightarrow> Some res
     | None \<Rightarrow> GetDbBalance db a name)"

definition Pending_UpdateBalance ::
    "nf_db \<Rightarrow> Asset \<Rightarrow> string \<Rightarrow> int \<Rightarrow> PendingState \<Rightarrow> PendingState option" where
  "Pending_UpdateBalance db a name num ps = do {
     old \<leftarrow> Pending_GetBalance db ps a name;
     new \<leftarrow> i64_add old num;
     Some (SetBalance a name new ps)
   }"

definition Pending_ProcessMint ::
    "nf_db \<Rightarrow> Asset \<Rightarrow> int \<Rightarrow> string option \<Rightarrow> PendingState \<Rightarrow> PendingState option" where
  "Pending_ProcessMint db a supply0 data ps = do {
     ps' \<leftarrow> AddAsset a data ps;
     if supply0 > 0 then Pending_UpdateBalance db a (GetMinter a) supply0 ps'
     else Some ps'
   }"

definition Pending_ProcessTransfer ::
    "nf_db \<Rightarrow> Asset \<Rightarrow> int \<Rightarrow> string \<Rightarrow> string \<Rightarrow> PendingState \<Rightarrow> PendingState option" where
  "Pending_ProcessTransfer db a num sender recipient ps = do {
     ps' \<leftarrow> Pending_UpdateBalance db a sender (- num) ps;
     Pending_UpdateBalance db a recipient num ps'
   }"

definition Pending_ProcessBurn ::
    "nf_db \<Rightarrow> Asset \<Rightarrow> int \<Rightarrow> string \<Rightarrow> PendingState \<Rightarrow> PendingState option" where
  "Pending_ProcessBurn db a num sender ps = Pending_UpdateBalance db a sender (- num) ps"

definition PendingStateUpdater :: "nf_db \<Rightarrow> PendingState parser_ops" where
  "PendingStateUpdater db =
    \<lparr>ProcessMint = Pending_ProcessMint db,
     ProcessTransfer = Pending_ProcessTransfer db,
     ProcessBurn = Pending_ProcessBurn db,
     AssetExists = Pending_AssetExists db,
     GetBalance = Pending_GetBalance db\<rparr>"

definition nf_PendingMoves_Clear :: "PendingState \<Rightarrow> PendingState" where
  "nf_PendingMoves_Clear ps = new_PendingState"

definition AddPendingMove :: "nf_db \<Rightarrow> json \<Rightarrow> PendingState \<Rightarrow> PendingState option" where
  "AddPendingMove db mv ps = ProcessOne (PendingStateUpdater db) mv ps"

fun AddPendingMoves :: "nf_db \<Rightarrow> json list \<Rightarrow> PendingState \<Rightarrow> PendingState option" where
  "AddPendingMoves db [] ps = Some ps"
| "AddPendingMoves db (mv # mvs) ps = do {
     ps' \<leftarrow> AddPendingMove db mv ps;
     AddPendingMoves db mvs ps'
   }"

section \<open>The ledger a pending state stands for\<close>

definition pending_ledger :: "nf_db \<Rightarrow> PendingState \<Rightarrow> ledger" where
  "pending_ledger db ps =
    \<lparr>lassets = lassets (db_ledger db) ++ map_of (pend_assets ps),
     lbal = (\<lambda>a nm. case map_of (pend_balances ps) (nm, a) of
                       Some n \<Rightarrow> n | None \<Rightarrow> lbal (db_ledger db) a nm)\<rparr>"

definition pend_ok :: "nf_db \<Rightarrow> PendingState \<Rightarrow> bool" where
  "pend_ok db ps \<longleftrightarrow> db_ok db \<and> tbl_ok (pend_assets ps) \<and> tbl_ok (pend_balances ps)
    \<and> ledger_ok (pending_ledger db ps)"

lemma pend_okD:
  assumes "pend_ok db ps"
  shows "db_ok db" "tbl_ok (pend_assets ps)" "tbl_ok (pend_balances ps)"
    "ledger_ok (pending_ledger db ps)"
  using assms by (simp_all add: pend_ok_def)

lemma new_pending_ledger [simp]: "pending_ledger db new_PendingState = db_ledger db"
  by (simp add: pending_ledger_def new_PendingState_def)

lemma new_PendingState_ok: "db_ok db \<Longrightarrow> pend_ok db new_PendingState"
  by (simp add: pend_ok_def db_okD) (simp add: new_PendingState_def)

lemma Pending_AssetExists_ledger:
  "pend_ok db ps \<Longrightarrow> Pending_AssetExists db ps a = Some (lassets (pending_ledger db ps) a \<noteq> None)"
  by (simp add: Pending_AssetExists_def pending_ledger_def IsNewAsset_def map_add_def
      AssetExists_ledger [OF db_okD(1) [OF pend_okD(1)]] split: option.split)

lemma Pending_GetBalance_ledger:
  "pend_ok db ps \<Longrightarrow> Pending_GetBalance db ps a nm = Some (lbal (pending_ledger db ps) a nm)"
  by (simp add: Pending_GetBalance_def pending_ledger_def PendingState_GetBalance_def
      GetDbBalance_ledger [OF db_okD(2) [OF pend_okD(1)]] split: option.split)

lemma Pending_UpdateBalance_ledger:
  assumes ps: "pend_ok db ps"
    and nn: "0 \<le> lbal (pending_ledger db ps) a nm + n"
    and le: "lbal (pending_ledger db ps) a nm + n \<le> MAX_AMOUNT"
    and ok: "ledger_ok (credit a nm n (pending_ledger db ps))"
  shows "\<exists>ps'. Pending_UpdateBalance db a nm n ps = Some ps' \<and> pend_ok db ps'
    \<and> pending_ledger db ps' = credit a nm n (pending_ledger db ps)"
proof -
  let ?b = "lbal (pending_ledger db ps) a nm"
  let ?ps = "SetBalance a nm (?b + n) ps"
  have "i64_add ?b n = Some (?b + n)"
    by (rule i64_add_in) (use nn le in \<open>auto simp: MAX_AMOUNT_def\<close>)
  then have "Pending_UpdateBalance db a nm n ps = Some ?ps"
    by (simp add: Pending_UpdateBalance_def Pending_GetBalance_ledger [OF ps])
  moreover have L: "pending_ledger db ?ps = credit a nm n (pending_ledger db ps)"
    using pend_okD(3) [OF ps]
    by (auto simp: SetBalance_def pending_ledger_def credit_def fun_eq_iff)
  moreover have "pend_ok db ?ps"
    using pend_okD [OF ps] ok unfolding pend_ok_def L by (simp add: SetBalance_def)
  ultimately show ?thesis by blast
qed

lemma AddAsset_ledger:
  assumes ps: "pend_ok db ps" and new: "lassets (pending_ledger db ps) a = None"
  shows "\<exists>ps'. AddAsset a d ps = Some ps' \<and> pend_ok db ps'
    \<and> pending_ledger db ps' = add_asset a d (pending_ledger db ps)"
proof -
  let ?ps = "ps\<lparr>pend_assets := member_set a d (pend_assets ps)\<rparr>"
  have l: "pending_ledger db ?ps = add_asset a d (pending_ledger db ps)"
    using pend_okD(2) [OF ps] by (simp add: pending_ledger_def add_asset_def)
  have "pend_ok db ?ps"
    using pend_okD [OF ps] unfolding pend_ok_def l by (simp add: ledger_ok_add_asset)
  moreover have "map_of (pend_assets ps) a = None"
    using new by (simp add: pending_ledger_def)
  ultimately show ?thesis
    using l by (simp add: AddAsset_def)
qed

interpretation pending_store:
  ledger_store AddAsset "Pending_UpdateBalance db" "pending_ledger db" "pend_ok db" for db
  by unfold_locales (simp_all only: pend_okD AddAsset_ledger Pending_UpdateBalance_ledger)

interpretation pending: ledger_parser "PendingStateUpdater db" "pending_ledger db" "pend_ok db" for db
  by unfold_locales
    (simp_all only: PendingStateUpdater_def parser_ops.simps Pending_ProcessMint_def
      Pending_ProcessTransfer_def Pending_ProcessBurn_def
      pending_store.mint pending_store.transfer pending_store.burn
      Pending_AssetExists_ledger Pending_GetBalance_ledger pend_okD)

lemma AddPendingMoves_simulates:
  "\<lbrakk>pend_ok db ps; list_all move_ok mvs\<rbrakk>
    \<Longrightarrow> \<exists>ps'. AddPendingMoves db mvs ps = Some ps' \<and> pend_ok db ps'
      \<and> pending_ledger db ps' = fold apply_op (concat (map ops_of mvs)) (pending_ledger db ps)"
proof (induction mvs arbitrary: ps)
  case (Cons mv mvs)
  then obtain ps' where ps': "AddPendingMove db mv ps = Some ps'" "pend_ok db ps'"
      "pending_ledger db ps' = fold apply_op (ops_of mv) (pending_ledger db ps)"
    using pending.ProcessOne_simulates [of db ps mv] by (auto simp: AddPendingMove_def)
  then show ?case using Cons.IH [OF ps'(2)] Cons.prems by auto
qed simp

section \<open>The JSON form of the pending state\<close>

definition user_entries :: "string \<Rightarrow> ((string \<times> Asset) \<times> int) list \<Rightarrow> json list" where
  "user_entries nm es = map (\<lambda>e. pend_balance_json (snd (fst e)) (snd e)) (filter (\<lambda>e. fst (fst e) = nm) es)"

definition user_arrays :: "(string \<Rightarrow> json list) \<Rightarrow> (string \<times> json) list \<Rightarrow> bool" where
  "user_arrays f ms \<longleftrightarrow> (\<forall>nm. map_of ms nm = (if f nm = [] then None else Some (JArray (f nm))))"

lemma user_arrays_step:
  assumes t: "tbl_ok ms" and f: "user_arrays f ms"
  shows "\<exists>ms'. pend_balances_json (((name, a), n) # es) ms = pend_balances_json es ms' \<and> tbl_ok ms'
    \<and> user_arrays (f(name := f name @ [pend_balance_json a n])) ms'"
proof (cases "f name = []")
  case True
  then show ?thesis
    using t f
    by (intro exI [of _ "member_set name (JArray [pend_balance_json a n]) (member_set name (JArray []) ms)"])
      (simp add: user_arrays_def Let_def)
next
  case False
  then show ?thesis
    using t f
    by (intro exI [of _ "member_set name (JArray (f name @ [pend_balance_json a n])) ms"])
      (simp add: user_arrays_def Let_def)
qed

lemma pend_balances_json_Some:
  "\<lbrakk>tbl_ok ms; user_arrays f ms\<rbrakk>
    \<Longrightarrow> \<exists>ms'. pend_balances_json es ms = Some ms' \<and> tbl_ok ms'
      \<and> user_arrays (\<lambda>nm. f nm @ user_entries nm es) ms'"
proof (induction es arbitrary: ms f)
  case (Cons e es)
  obtain name a n where e: "e = ((name, a), n)" by (metis surj_pair)
  let ?f = "f(name := f name @ [pend_balance_json a n])"
  obtain ms1 where ms1: "pend_balances_json (e # es) ms = pend_balances_json es ms1" "tbl_ok ms1"
      "user_arrays ?f ms1"
    unfolding e using user_arrays_step [OF Cons.prems] by blast
  have "(\<lambda>nm. ?f nm @ user_entries nm es) = (\<lambda>nm. f nm @ user_entries nm (e # es))"
    by (auto simp: user_entries_def e)
  then show ?case using Cons.IH [OF ms1(2,3)] by (simp only: ms1(1))
qed (simp add: user_entries_def)

lemma PendingState_ToJson_Some:
  "\<exists>ms. PendingState_ToJson ps = Some (JObject
      [(''assets'', JArray (map pend_asset_json (pend_assets ps))), (''balances'', JObject ms)])
    \<and> tbl_ok ms \<and> user_arrays (\<lambda>nm. user_entries nm (pend_balances ps)) ms"
  using pend_balances_json_Some [of "[]" "\<lambda>_. []" "pend_balances ps"]
  by (auto simp: PendingState_ToJson_def user_arrays_def)

text \<open>
  The JSON form of a pending state never fails: it lists the newly minted assets in order, and
  under each user with a pending balance the array of exactly his entries, in the order of the
  assets.
\<close>

lemma nf_pending_json:
  "\<exists>ms. PendingState_ToJson ps = Some (JObject
      [(''assets'', JArray (map pend_asset_json (pend_assets ps))), (''balances'', JObject ms)])
    \<and> (\<forall>nm. map_of ms nm =
         (if user_entries nm (pend_balances ps) = [] then None
          else Some (JArray (user_entries nm (pend_balances ps)))))"
  using PendingState_ToJson_Some [of ps] by (auto simp: user_arrays_def)

end
