(* ===== verification/NfState.thy ===== *)
theory NfState
  imports NfPending Chains
begin

text \<open>
  The JSON views of the game state (\<open>nonfungible/statejson.cpp\<close>) and the game logic
  (\<open>nonfungible/logic.cpp\<close>) of the non-fungible application, with the properties of the whole
  component: processing refines the abstract ledger, the pending state predicts the confirmed one,
  nobody loses tokens by the moves of others, and the JSON state shows the ledger.
\<close>

section \<open>JSON views\<close>

definition ListAssets :: "nf_db \<Rightarrow> json" where
  "ListAssets db = JArray (map (\<lambda>row. Asset_ToJson (fst row)) (assets db))"

text \<open>The loop over the balances of an asset, with its checks and the running total.\<close>

fun details_loop ::
    "((string \<times> Asset) \<times> int) list \<Rightarrow> (string \<times> json) list \<Rightarrow> int \<Rightarrow> ((string \<times> json) list \<times> int) option" where
  "details_loop [] bals tot = Some (bals, tot)"
| "details_loop (((name, a), val) # rows) bals tot = do {
     check (val > 0);
     check (map_of bals name = None);
     tot' \<leftarrow> i64_add tot val;
     details_loop rows (member_set name (JInt val) bals) tot'
   }"

definition GetAssetDetails :: "nf_db \<Rightarrow> Asset \<Rightarrow> json option" where
  "GetAssetDetails db a = (case filter (\<lambda>row. fst row = a) (assets db) of
     [] \<Rightarrow> Some JNull
   | [row] \<Rightarrow> do {
       let data = (case snd row of None \<Rightarrow> JNull | Some d \<Rightarrow> JString d);
       (bals, tot) \<leftarrow> details_loop (filter (\<lambda>r. snd (fst r) = a) (balances db)) [] 0;
       Some (JObject (member_set ''balances'' (JObject bals)
         (member_set ''supply'' (AmountToJson tot)
         (member_set ''data'' data
         (member_set ''asset'' (Asset_ToJson a) [])))))
     }
   | _ \<Rightarrow> None)"

definition StateJson_GetBalance :: "nf_db \<Rightarrow> Asset \<Rightarrow> string \<Rightarrow> json option" where
  "StateJson_GetBalance db a name = map_option AmountToJson (GetDbBalance db a name)"

definition GetUserBalances :: "nf_db \<Rightarrow> string \<Rightarrow> json" where
  "GetUserBalances db name = JArray (map
     (\<lambda>row. JObject (member_set ''balance'' (AmountToJson (snd row))
               (member_set ''asset'' (Asset_ToJson (snd (fst row))) [])))
     (filter (\<lambda>row. fst (fst row) = name) (balances db)))"

definition FullState :: "nf_db \<Rightarrow> json option" where
  "FullState db = map_option JArray (those (map (\<lambda>row. GetAssetDetails db (fst row)) (assets db)))"

section \<open>The game logic\<close>

definition nf_GetInitialStateBlock :: "Chain \<Rightarrow> (nat \<times> string) option" where
  "nf_GetInitialStateBlock chain = (case chain of
     MAIN \<Rightarrow> Some (2199000, ''321ee13b84b0e5b9f07d43bcd3924c2a03006b043f687044807c4d66b4ac217f'')
   | TEST \<Rightarrow> Some (1, ''15d3d57c15dd8dcfdcc03e69c4c0647416789083a17fd1c88902112399855a48'')
   | REGTEST \<Rightarrow> Some (0, ''6f750b36d22f1dc3d0a6e483af45301022646dfc3b3ba2187865f5a7d6d83ab1'')
   | _ \<Rightarrow> None)"

definition nf_InitialiseState :: nf_db where
  "nf_InitialiseState = \<lparr>assets = [], balances = []\<rparr>"

definition nf_UpdateState :: "json \<Rightarrow> nf_db \<Rightarrow> nf_db option" where
  "nf_UpdateState blockData db = ProcessAll (member blockData ''moves'') db"

definition nf_GetStateAsJson :: "nf_db \<Rightarrow> json option" where
  "nf_GetStateAsJson db = FullState db"

text \<open>The states that processing well-formed blocks reaches.\<close>

definition block_moves :: "json \<Rightarrow> json list" where
  "block_moves blockData = (case member blockData ''moves'' of JArray mvs \<Rightarrow> mvs | _ \<Rightarrow> [])"

definition block_ok :: "json \<Rightarrow> bool" where
  "block_ok blockData = (case member blockData ''moves'' of
     JArray mvs \<Rightarrow> list_all move_ok mvs | _ \<Rightarrow> False)"

lemma UpdateState_simulates:
  assumes "db_ok db" and "block_ok blk"
  shows "\<exists>db'. nf_UpdateState blk db = Some db' \<and> db_ok db'
    \<and> db_ledger db' = fold apply_op (concat (map ops_of (block_moves blk))) (db_ledger db)"
  using assms ProcessAll_loop_simulates [OF assms(1), of "block_moves blk"]
  by (cases "member blk ''moves''")
    (simp_all add: nf_UpdateState_def ProcessAll_def block_ok_def block_moves_def)

inductive nf_reach :: "nf_db \<Rightarrow> bool" where
  nf_init: "nf_reach nf_InitialiseState"
| nf_block: "\<lbrakk>nf_reach db; block_ok blk; nf_UpdateState blk db = Some db'\<rbrakk> \<Longrightarrow> nf_reach db'"

lemma nf_init_ledger: "db_ledger nf_InitialiseState = empty_ledger"
  by (simp add: db_ledger_def nf_InitialiseState_def empty_ledger_def)

lemma nf_reach_ok: "nf_reach db \<Longrightarrow> db_ok db"
proof (induction rule: nf_reach.induct)
  case nf_init
  show ?case
    by (simp add: db_ok_def nf_init_ledger) (simp add: nf_InitialiseState_def)
next
  case (nf_block db blk db')
  then show ?case using UpdateState_simulates [of db blk] by auto
qed

lemma block_ops_ok: "list_all op_ok (concat (map ops_of mvs))"
  using ops_of_ok by (induction mvs) auto

section \<open>The JSON state shows the ledger\<close>

lemma details_loop_Some:
  assumes "\<forall>r \<in> set rows. 0 < snd r" and "distinct (map (fst \<circ> fst) rows)"
    and "\<forall>r \<in> set rows. map_of bals (fst (fst r)) = None" and "tbl_ok bals"
    and "0 \<le> tot" and "tot + sum_list (map snd rows) \<le> MAX_AMOUNT"
  shows "\<exists>bals'. details_loop rows bals tot = Some (bals', tot + sum_list (map snd rows))
    \<and> tbl_ok bals'
    \<and> map_of bals' = map_of bals ++ map_of (map (\<lambda>r. (fst (fst r), JInt (snd r))) rows)"
  using assms
proof (induction rows arbitrary: bals tot)
  case (Cons r rows)
  obtain name a val where r: "r = ((name, a), val)" by (metis surj_pair)
  let ?bals = "member_set name (JInt val) bals"
  have nn: "0 \<le> sum_list (map snd rows)"
    using Cons.prems(1) by (intro sum_list_nonneg) auto
  have add: "i64_add tot val = Some (tot + val)"
    by (rule i64_add_in) (use Cons.prems nn in \<open>auto simp: r MAX_AMOUNT_def\<close>)
  let ?new = "map_of (map (\<lambda>r. (fst (fst r), JInt (snd r))) rows)"
  have "\<exists>bals'. details_loop rows ?bals (tot + val) = Some (bals', tot + val + sum_list (map snd rows))
    \<and> tbl_ok bals' \<and> map_of bals' = map_of ?bals ++ ?new"
    by (rule Cons.IH) (use Cons.prems in \<open>auto simp: r\<close>)
  then obtain bals' where
      loop: "details_loop rows ?bals (tot + val) = Some (bals', tot + val + sum_list (map snd rows))"
      and t: "tbl_ok bals'" and m: "map_of bals' = map_of ?bals ++ ?new"
    by blast
  have "name \<notin> dom ?new"
    unfolding dom_map_of_conv_image_fst using Cons.prems(2) by (auto simp: r image_iff)
  then have "map_of bals' = map_of bals ++ ?new(name \<mapsto> JInt val)"
    unfolding m using Cons.prems(4) by (simp add: map_add_upd_left)
  moreover have "?new(name \<mapsto> JInt val) = map_of (map (\<lambda>r. (fst (fst r), JInt (snd r))) (r # rows))"
    by (auto simp: r fun_eq_iff)
  ultimately have "map_of bals' = map_of bals ++ map_of (map (\<lambda>r. (fst (fst r), JInt (snd r))) (r # rows))"
    by (simp only:)
  moreover have "details_loop (r # rows) bals tot = Some (bals', tot + sum_list (map snd (r # rows)))"
    using Cons.prems loop by (simp add: r add add.assoc)
  ultimately show ?case using t by blast
qed simp

text \<open>The rows of an asset: the key of each is its user.\<close>

definition asset_rows :: "nf_db \<Rightarrow> Asset \<Rightarrow> ((string \<times> Asset) \<times> int) list" where
  "asset_rows db a = filter (\<lambda>r. snd (fst r) = a) (balances db)"

lemma asset_rows_lookup:
  assumes db: "db_ok db"
  shows "((nm, b), n) \<in> set (asset_rows db a) \<longleftrightarrow> b = a \<and> n = lbal (db_ledger db) a nm \<and> n \<noteq> 0"
proof -
  have pos: "\<forall>row \<in> set (balances db). 0 < snd row" using db by (simp add: db_ok_def)
  have lk: "((nm, a), n) \<in> set (balances db) \<longleftrightarrow> map_of (balances db) (nm, a) = Some n" for n
    by (rule tbl_ok_lookup [OF db_okD(2) [OF db]])
  show ?thesis
  proof (cases "map_of (balances db) (nm, a)")
    case None
    then show ?thesis by (cases "b = a") (simp_all add: asset_rows_def db_ledger_def lk)
  next
    case (Some m)
    then have "((nm, a), m) \<in> set (balances db)" using lk by simp
    then have "m \<noteq> 0" using pos by fastforce
    then show ?thesis using Some by (cases "b = a") (auto simp: asset_rows_def db_ledger_def lk)
  qed
qed

lemma asset_rows_distinct:
  assumes db: "db_ok db"
  shows "distinct (map (fst \<circ> fst) (asset_rows db a))"
proof -
  have "distinct (map fst (asset_rows db a))"
    using tbl_ok_distinct [OF tbl_ok_filter [OF db_okD(2) [OF db]]] by (simp add: asset_rows_def)
  moreover have "inj_on fst (fst ` set (asset_rows db a))"
    by (auto simp: inj_on_def asset_rows_def)
  ultimately show ?thesis
    by (simp add: distinct_map comp_inj_on)
qed

lemma asset_rows_users:
  assumes db: "db_ok db"
  shows "(fst \<circ> fst) ` set (asset_rows db a) = holders (db_ledger db) a"
proof (rule set_eqI)
  fix nm
  have "nm \<in> (fst \<circ> fst) ` set (asset_rows db a) \<longleftrightarrow> (\<exists>b n. ((nm, b), n) \<in> set (asset_rows db a))"
    by force
  then show "nm \<in> (fst \<circ> fst) ` set (asset_rows db a) \<longleftrightarrow> nm \<in> holders (db_ledger db) a"
    by (simp add: asset_rows_lookup [OF db] holders_def)
qed

lemma asset_rows_sum:
  assumes db: "db_ok db"
  shows "sum_list (map snd (asset_rows db a)) = total_supply (db_ledger db) a"
proof -
  let ?rows = "asset_rows db a"
  have "map snd ?rows = map (lbal (db_ledger db) a) (map (fst \<circ> fst) ?rows)"
    using asset_rows_lookup [OF db] by auto
  then have "sum_list (map snd ?rows) = sum (lbal (db_ledger db) a) (set (map (fst \<circ> fst) ?rows))"
    using asset_rows_distinct [OF db] by (simp only: sum_list_distinct_conv_sum_set)
  then show ?thesis
    by (simp only: set_map asset_rows_users [OF db] total_supply_def)
qed

lemma GetAssetDetails_ledger:
  assumes db: "db_ok db" and a: "lassets (db_ledger db) a = Some d"
  shows "\<exists>bals. GetAssetDetails db a = Some (JObject
      [(''asset'', Asset_ToJson a), (''balances'', JObject bals),
       (''data'', case d of None \<Rightarrow> JNull | Some t \<Rightarrow> JString t),
       (''supply'', JInt (total_supply (db_ledger db) a))])
    \<and> tbl_ok bals
    \<and> (\<forall>nm. map_of bals nm =
         (if lbal (db_ledger db) a nm = 0 then None else Some (JInt (lbal (db_ledger db) a nm))))"
proof -
  let ?rows = "asset_rows db a"
  have pos: "\<forall>r \<in> set ?rows. 0 < snd r" using db by (simp add: db_ok_def asset_rows_def)
  obtain bals where loop: "details_loop ?rows [] 0 = Some (bals, total_supply (db_ledger db) a)"
      and t: "tbl_ok bals"
      and m: "map_of bals = map_of (map (\<lambda>r. (fst (fst r), JInt (snd r))) ?rows)"
    using details_loop_Some [OF pos asset_rows_distinct [OF db], of "[]" 0]
      ledger_okD(3) [OF db_okD(3) [OF db]]
    by (auto simp: asset_rows_sum [OF db])
  have "distinct (map fst (map (\<lambda>r. (fst (fst r), JInt (snd r))) ?rows))"
    using asset_rows_distinct [OF db] by (simp add: comp_def)
  then have "map_of bals nm = Some v \<longleftrightarrow>
      (nm, v) \<in> (\<lambda>r. (fst (fst r), JInt (snd r))) ` set ?rows" for nm v
    by (simp only: m map_of_eq_Some_iff set_map)
  moreover have "(nm, v) \<in> (\<lambda>r. (fst (fst r), JInt (snd r))) ` set ?rows \<longleftrightarrow>
      (\<exists>b n. ((nm, b), n) \<in> set ?rows \<and> v = JInt n)" for nm v
    by force
  ultimately have "map_of bals nm = Some v \<longleftrightarrow>
      lbal (db_ledger db) a nm \<noteq> 0 \<and> v = JInt (lbal (db_ledger db) a nm)" for nm v
    by (auto simp: asset_rows_lookup [OF db])
  then have "map_of bals nm =
      (if lbal (db_ledger db) a nm = 0 then None else Some (JInt (lbal (db_ledger db) a nm)))" for nm
    by (metis (mono_tags, lifting) not_Some_eq)
  moreover have "filter (\<lambda>row. fst row = a) (assets db) = [(a, d)]"
    using a by (simp add: select_key [OF db_okD(1) [OF db]]) (simp add: db_ledger_def)
  ultimately show ?thesis
    using t loop by (simp add: GetAssetDetails_def asset_rows_def AmountToJson_def)
qed

lemma FullState_Some:
  assumes db: "db_ok db"
  shows "\<exists>j. FullState db = Some j"
proof -
  have "GetAssetDetails db (fst row) \<noteq> None" if "row \<in> set (assets db)" for row
  proof -
    have "map_of (assets db) (fst row) = Some (snd row)"
      using that tbl_ok_lookup [OF db_okD(1) [OF db], of "fst row" "snd row"] by simp
    then have "lassets (db_ledger db) (fst row) = Some (snd row)" by (simp add: db_ledger_def)
    from GetAssetDetails_ledger [OF db this] show ?thesis by auto
  qed
  then show ?thesis
    using those_map_Some [of "assets db" "\<lambda>row. GetAssetDetails db (fst row)"]
    by (auto simp: FullState_def)
qed

section \<open>Demonstration data\<close>

definition nf_mint_move :: json where
  "nf_mint_move = JObject [(''move'', JObject [(''m'', JObject [(''a'', JString ''gold''), (''n'', JInt 100)])]),
     (''name'', JString ''domob'')]"

definition nf_send_move :: json where
  "nf_send_move = JObject [(''move'', JArray
     [JObject [(''t'', JObject [(''a'', Asset_ToJson (Asset ''domob'' ''gold'')), (''n'', JInt 30), (''r'', JString ''andy'')])],
      JObject [(''b'', JObject [(''a'', Asset_ToJson (Asset ''domob'' ''gold'')), (''n'', JInt 5)])],
      JObject [(''b'', JObject [(''a'', Asset_ToJson (Asset ''domob'' ''gold'')), (''n'', JInt 66)])]]),
     (''name'', JString ''domob'')]"

definition nf_mint_block :: json where
  "nf_mint_block = JObject [(''moves'', JArray [nf_mint_move])]"

definition nf_send_block :: json where
  "nf_send_block = JObject [(''moves'', JArray [nf_send_move])]"

definition nf_db1 :: nf_db where
  "nf_db1 = \<lparr>assets = [(Asset ''domob'' ''gold'', None)],
     balances = [((''domob'', Asset ''domob'' ''gold''), 100)]\<rparr>"

definition nf_db2 :: nf_db where
  "nf_db2 = \<lparr>assets = [(Asset ''domob'' ''gold'', None)],
     balances = [((''andy'', Asset ''domob'' ''gold''), 30), ((''domob'', Asset ''domob'' ''gold''), 65)]\<rparr>"

lemma nf_demo_steps:
  "block_ok nf_mint_block" "block_ok nf_send_block"
  "nf_UpdateState nf_mint_block nf_InitialiseState = Some nf_db1"
  "nf_UpdateState nf_send_block nf_db1 = Some nf_db2"
  by code_simp+

lemma nf_demo_ok: "db_ok nf_db1" "nf_reach nf_db1" "nf_reach nf_db2"
proof -
  show 1: "nf_reach nf_db1"
    by (rule nf_reach.nf_block [OF nf_init nf_demo_steps(1,3)])
  show "db_ok nf_db1" by (rule nf_reach_ok [OF 1])
  show "nf_reach nf_db2" by (rule nf_reach.nf_block [OF 1 nf_demo_steps(2,4)])
qed

section \<open>Properties of the non-fungible application\<close>

text \<open>
  C26: Processing a block refines the abstract ledger: on a well-formed database, a block whose moves
  are objects with a name is processed without any failed check and without an overflow, and the
  balances and assets afterwards are those that the parsed operations of the block give on the
  ledger, in order.  Malformed and unaffordable operations are the ones that leave it alone.
\<close>

theorem nf_processing_refines:
  assumes "db_ok db" and "block_ok blk"
  shows "\<exists>db'. nf_UpdateState blk db = Some db' \<and> db_ok db'
    \<and> db_ledger db' = fold apply_op (concat (map ops_of (block_moves blk))) (db_ledger db)"
  by (rule UpdateState_simulates [OF assms])

theorem nf_processing_refines_witness:
  "db_ok nf_db1 \<and> block_ok nf_send_block \<and>
   (\<exists>db'. nf_UpdateState nf_send_block nf_db1 = Some db' \<and> db_ok db'
    \<and> db_ledger db' = fold apply_op (concat (map ops_of (block_moves nf_send_block))) (db_ledger nf_db1))"
  using nf_processing_refines [OF nf_demo_ok(1) nf_demo_steps(2)] nf_demo_ok(1) nf_demo_steps(2) by blast

text \<open>
  Every database reached from the initial one by well-formed blocks is well-formed: both tables
  are keyed, every stored balance is positive, the balances of an asset add up to at most
  \<open>MAX_AMOUNT\<close> and belong to minted assets; and its JSON state can be computed, so the checks of
  the extractor hold.
\<close>

lemma nf_reachable_ok:
  assumes "nf_reach db"
  shows "db_ok db \<and> (\<exists>j. nf_GetStateAsJson db = Some j)"
  using FullState_Some [OF nf_reach_ok [OF assms]] nf_reach_ok [OF assms]
  by (simp add: nf_GetStateAsJson_def)

text \<open>
  C27: The pending state predicts the confirmed state: when the moves of a block are first tracked as
  pending moves, in the same order, on top of a well-formed database, then the assets and balances
  that the pending state shows are exactly those of the database after the block.
\<close>

theorem nf_pending_predicts:
  assumes "db_ok db" and "block_ok blk"
  shows "\<exists>ps db'. AddPendingMoves db (block_moves blk) new_PendingState = Some ps
    \<and> nf_UpdateState blk db = Some db' \<and> pending_ledger db ps = db_ledger db'"
proof -
  have "list_all move_ok (block_moves blk)"
    using assms(2) by (cases "member blk ''moves''") (simp_all add: block_ok_def block_moves_def)
  from AddPendingMoves_simulates [OF new_PendingState_ok [OF assms(1)] this]
    UpdateState_simulates [OF assms] show ?thesis by auto
qed

theorem nf_pending_predicts_witness:
  "db_ok nf_db1 \<and> block_ok nf_send_block \<and>
   (\<exists>ps db'. AddPendingMoves nf_db1 (block_moves nf_send_block) new_PendingState = Some ps
    \<and> nf_UpdateState nf_send_block nf_db1 = Some db' \<and> pending_ledger nf_db1 ps = db_ledger db')"
  using nf_pending_predicts [OF nf_demo_ok(1) nf_demo_steps(2)] nf_demo_ok(1) nf_demo_steps(2) by blast

text \<open>
  Nobody loses tokens by a move of somebody else: whatever the move of a player contains, it
  does not abort, and the balance of every other user in every asset is at least what it was.
\<close>

lemma nf_no_theft:
  assumes db: "db_ok db" and obj: "isObject obj" "member obj ''name'' = JString name"
    and other: "other \<noteq> name" and b: "GetDbBalance db a other = Some b"
  shows "\<exists>db' b'. ProcessOne MoveProcessor obj db = Some db' \<and> GetDbBalance db' a other = Some b' \<and> b \<le> b'"
proof -
  have "move_ok obj" using obj by (simp add: move_ok_def isString_def)
  then obtain db' where db': "ProcessOne MoveProcessor obj db = Some db'" "db_ok db'"
      "db_ledger db' = fold apply_op (ops_of obj) (db_ledger db)"
    using confirmed.ProcessOne_simulates [OF db] by blast
  have "list_all (\<lambda>c. op_ok c \<and> operator_of c \<noteq> other) (ops_of obj)"
    using ops_of_operator [OF obj(2)] other by (auto simp: list_all_iff)
  from balance_protected [OF this] show ?thesis
    using b db' db by (auto simp: GetDbBalance_ledger db_okD)
qed

text \<open>
  An asset is minted once and for all: after a block, an asset that existed before still exists
  with the same data, and the sum of its balances has not grown.
\<close>

lemma nf_supply_fixed:
  assumes db: "db_ok db" and blk: "block_ok blk" and upd: "nf_UpdateState blk db = Some db'"
    and a: "map_of (assets db) a = Some d"
  shows "map_of (assets db') a = Some d
    \<and> total_supply (db_ledger db') a \<le> total_supply (db_ledger db) a"
proof -
  let ?cs = "concat (map ops_of (block_moves blk))"
  have l: "db_ledger db' = fold apply_op ?cs (db_ledger db)"
    using UpdateState_simulates [OF db blk] upd by auto
  have ex: "lassets (db_ledger db) a = Some d" using a by (simp add: db_ledger_def)
  have "lassets (db_ledger db') a = Some d"
    unfolding l by (rule asset_frozen [OF ex])
  then have "map_of (assets db') a = Some d" by (simp add: db_ledger_def)
  moreover have "total_supply (db_ledger db') a \<le> total_supply (db_ledger db) a"
    unfolding l using supply_shrinks [OF db_okD(3) [OF db] block_ops_ok] ex by simp
  ultimately show ?thesis ..
qed

text \<open>
  The JSON details of a minted asset show the ledger: the extractor's checks hold, the reported
  supply is the sum of all balances, and the reported balances are exactly the non-zero ones.
\<close>

lemma nf_asset_details:
  assumes "db_ok db" and "map_of (assets db) a = Some d"
  shows "\<exists>bals. GetAssetDetails db a = Some (JObject
      [(''asset'', Asset_ToJson a), (''balances'', JObject bals),
       (''data'', case d of None \<Rightarrow> JNull | Some t \<Rightarrow> JString t),
       (''supply'', JInt (total_supply (db_ledger db) a))])
    \<and> (\<forall>nm. map_of bals nm =
         (if GetDbBalance db a nm = Some 0 then None else map_option JInt (GetDbBalance db a nm)))"
proof -
  have "lassets (db_ledger db) a = Some d" using assms(2) by (simp add: db_ledger_def)
  from GetAssetDetails_ledger [OF assms(1) this] show ?thesis
    by (auto simp: GetDbBalance_ledger db_okD [OF assms(1)])
qed

end
