(* ===== verification/NfSqlite.thy ===== *)
theory NfSqlite
  imports SqliteProps NfState
begin

text \<open>
  The nonfungible game as a game of \<open>SqliteGame\<close>: the database of the process is the abstract ledger of
  the chain up to the current block.
\<close>

text \<open>The virtual functions of \<open>NonFungibleLogic\<close> (\<open>nonfungible/logic.cpp\<close>).\<close>

definition nf_logic ::
    "('c, nf_db) game_api \<Rightarrow> nf_db session_api \<Rightarrow> Chain \<Rightarrow> ('c, nf_db, uint256 \<times> uint256) SQLiteGame option" where
  "nf_logic api ses ch = map_option (\<lambda>blk. \<lparr>sg_api = api, sg_session = ses, sg_block = (of_nat (fst blk), snd blk),
     sg_SetupSchema = Finish, sg_InitialiseState = (\<lambda>ctx. Finish), sg_UpdateState = (\<lambda>ctx blockData. db_code (nf_UpdateState blockData)),
     sg_GetStateAsJson = (\<lambda>t. the (nf_GetStateAsJson (game_rows (game_part t)))), sg_processors = []\<rparr>)
     (nf_GetInitialStateBlock ch)"

definition nf_setting :: "('c, nf_db) sqlite_setting \<Rightarrow> bool" where
  "nf_setting E \<longleftrightarrow> st_rows E = nf_InitialiseState
     \<and> (\<exists>api ses ch. nf_logic api ses ch = Some (st_game E))"

lemma nf_setting_game:
  assumes "nf_setting E"
  shows "sg_SetupSchema (st_game E) = Finish" "sg_InitialiseState (st_game E) = (\<lambda>ctx. Finish)"
    "sg_UpdateState (st_game E) = (\<lambda>ctx blockData. db_code (nf_UpdateState blockData))" "st_rows E = nf_InitialiseState"
  using assms by (auto simp: nf_setting_def nf_logic_def dest!: sym [of _ "st_game E"])

text \<open>The ledger after the moves of some blocks, the first one first.\<close>

definition ledger_after :: "json list \<Rightarrow> ledger" where
  "ledger_after blks = fold apply_op (concat (map ops_of (concat (map block_moves blks)))) empty_ledger"

lemma nf_part:
  assumes E: "nf_setting E"
  shows "\<lbrakk>part_at E bs = Some p; list_all block_ok bs\<rbrakk>
    \<Longrightarrow> db_ok (game_rows p) \<and> db_ledger (game_rows p) = ledger_after (rev bs)"
proof (induction bs arbitrary: p)
  case Nil
  then have "game_rows p = nf_InitialiseState"
    by (auto simp: genesis_part_def init_part_def setup_part_def nf_setting_game [OF E] scoped_def finish_ids_def no_part_def
        set_initialised_def split: Option.bind_splits)
  then show ?case using nf_reach_ok [OF nf_init] nf_init_ledger by (simp add: ledger_after_def)
next
  case (Cons b bs)
  obtain q where q: "part_at E bs = Some q" "apply_block E b q = Some p"
    using Cons.prems(1) by (auto split: Option.bind_splits)
  then have "nf_UpdateState b (game_rows q) = Some (game_rows p)"
    by (auto simp: apply_block_def nf_setting_game [OF E] scoped_db_code split: Option.bind_splits option.splits)
  moreover have "db_ok (game_rows q) \<and> db_ledger (game_rows q) = ledger_after (rev bs)"
    using Cons.IH [OF q(1)] Cons.prems(2) by simp
  ultimately show ?case
    using UpdateState_simulates [of "game_rows q" b] Cons.prems(2) by (auto simp: ledger_after_def)
qed

text \<open>
  C20: The nonfungible game as the framework runs it on its SQLite database: at every point of a run, with
  attached and detached blocks, rollbacks and restarts, if the blocks up to the current one have the form that
  Core sends (\<open>block_ok\<close>), its tables hold the ledger that the operations in
  the moves of the blocks of the chain up to the current block define, in the process and on disk.
\<close>

theorem nf_sqlite_ledger:
  assumes "nf_setting E" and "setting_ok E rep" and "hash_total E" and "sgame_run E rep s"
    and "sql_db s = Some c" and "t \<in> {sq_tables (sg_api (st_game E)) c, sq_durable (sg_api (st_game E)) c}"
    and "map_of (spacexpansegame_current t) ''blockhash'' = Some b" and "list_all block_ok (st_path E (FromBlob b))"
  shows "db_ok (game_rows (game_part t)) \<and> db_ledger (game_rows (game_part t)) = ledger_after (rev (st_path E (FromBlob b)))"
  by (rule nf_part [OF assms(1) game_chain_tables [OF assms(2-7)] assms(8)])

text \<open>A chain with one block, which mints an asset.\<close>

definition enc_asset :: "Asset \<Rightarrow> nat" where
  "enc_asset a = (case a of Asset m n \<Rightarrow> prod_encode (enc_string m, enc_string n))"

definition dec_asset :: "nat \<Rightarrow> Asset" where
  "dec_asset k = (let (m, n) = prod_decode k in Asset (dec_string m) (dec_string n))"

definition enc_nf :: "nf_db \<Rightarrow> nat" where
  "enc_nf db = prod_encode (
     list_encode (map (\<lambda>(a, d). prod_encode (enc_asset a, case d of None \<Rightarrow> 0 | Some s \<Rightarrow> Suc (enc_string s))) (assets db)),
     list_encode (map (\<lambda>((n, a), k). prod_encode (enc_string n, prod_encode (enc_asset a, int_encode k))) (balances db)))"

definition dec_nf :: "nat \<Rightarrow> nf_db" where
  "dec_nf k = (let (as, bs) = prod_decode k in
     \<lparr>assets = map (\<lambda>e. let (a, d) = prod_decode e in (dec_asset a, case d of 0 \<Rightarrow> None | Suc s \<Rightarrow> Some (dec_string s))) (list_decode as),
      balances = map (\<lambda>e. let (n, e) = prod_decode e; (a, k) = prod_decode e in ((dec_string n, dec_asset a), int_decode k))
        (list_decode bs)\<rparr>)"

lemma dec_enc_asset [simp]: "dec_asset (enc_asset a) = a"
  by (cases a) (simp add: enc_asset_def dec_asset_def)

lemma dec_enc_nf: "dec_nf (enc_nf db) = db"
proof -
  have opt: "(case (case d of None \<Rightarrow> 0 | Some s \<Rightarrow> Suc (enc_string s)) of 0 \<Rightarrow> None | Suc s \<Rightarrow> Some (dec_string s)) = d" for d
    by (cases d) simp_all
  show ?thesis by (cases db) (simp add: enc_nf_def dec_nf_def comp_def case_prod_unfold opt)
qed

definition nf_chain_block :: json where
  "nf_chain_block = JObject [(''block'', JObject [(''hash'', JString (ToHex demo_hash1)),
      (''parent'', JString ''6f750b36d22f1dc3d0a6e483af45301022646dfc3b3ba2187865f5a7d6d83ab1''), (''rngseed'', JString (ToHex SetNull))]),
     (''moves'', JArray [nf_mint_move])]"

definition nf_genesis :: uint256 where
  "nf_genesis = snd (FromHex ''6f750b36d22f1dc3d0a6e483af45301022646dfc3b3ba2187865f5a7d6d83ab1'' SetNull)"

definition nf_demo_setting :: "((nf_db, unit) gsp_tables_ext savepoints, nf_db) sqlite_setting" where
  "nf_demo_setting = \<lparr>st_game = the (nf_logic (game_ref_api nf_InitialiseState) (coded_session enc_nf dec_nf) REGTEST),
     st_sha = (\<lambda>bs. SetNull), st_processor = \<lparr>gp_chain = REGTEST, gp_gameId = ''nf'', gp_rpc = True\<rparr>, st_rows = nf_InitialiseState,
     st_hash = (\<lambda>g. Some SetNull), st_path = (\<lambda>h. if h = demo_hash1 then [nf_chain_block] else []), st_genesis = nf_genesis\<rparr>"

lemma nf_genesis_hex:
  "uint256_wf nf_genesis \<and> ToHex nf_genesis = ''6f750b36d22f1dc3d0a6e483af45301022646dfc3b3ba2187865f5a7d6d83ab1''"
proof -
  let ?hex = "''6f750b36d22f1dc3d0a6e483af45301022646dfc3b3ba2187865f5a7d6d83ab1''"
  have "length ?hex = 64 \<and> set ?hex \<subseteq> {c. ParseHexDigit c \<noteq> None}" by (simp add: ParseHexDigit_def)
  then obtain u where "FromHex ?hex SetNull = (True, u)" "uint256_wf u" "ToHex u = map hex_lower ?hex"
    using FromHex_spec [of ?hex SetNull] by auto
  then show ?thesis by (simp add: nf_genesis_def hex_lower_def ParseHexDigit_def DIGITS_def)
qed

definition nf_demo_game :: "((nf_db, unit) gsp_tables_ext savepoints, nf_db, uint256 \<times> uint256) SQLiteGame" where
  "nf_demo_game = \<lparr>sg_api = game_ref_api nf_InitialiseState, sg_session = coded_session enc_nf dec_nf,
     sg_block = (0, ''6f750b36d22f1dc3d0a6e483af45301022646dfc3b3ba2187865f5a7d6d83ab1''),
     sg_SetupSchema = Finish, sg_InitialiseState = (\<lambda>ctx. Finish), sg_UpdateState = (\<lambda>ctx blockData. db_code (nf_UpdateState blockData)),
     sg_GetStateAsJson = (\<lambda>t. the (nf_GetStateAsJson (game_rows (game_part t)))), sg_processors = []\<rparr>"

lemma nf_demo_logic: "nf_logic (game_ref_api nf_InitialiseState) (coded_session enc_nf dec_nf) REGTEST = Some nf_demo_game"
  by (simp add: nf_logic_def nf_GetInitialStateBlock_def nf_demo_game_def)

lemma nf_demo_fields:
  "st_game nf_demo_setting = nf_demo_game" "st_rows nf_demo_setting = nf_InitialiseState" "st_genesis nf_demo_setting = nf_genesis"
  "st_path nf_demo_setting = (\<lambda>h. if h = demo_hash1 then [nf_chain_block] else [])"
  "st_hash nf_demo_setting = (\<lambda>g. Some SetNull)"
  by (simp_all add: nf_demo_setting_def nf_demo_logic)

lemma nf_demo_is_setting: "nf_setting nf_demo_setting"
  using nf_demo_logic by (auto simp: nf_setting_def nf_demo_fields)

lemma nf_genesis_other: "nf_genesis \<noteq> demo_hash1"
proof
  assume "nf_genesis = demo_hash1"
  then have "ToHex demo_hash1 = ''6f750b36d22f1dc3d0a6e483af45301022646dfc3b3ba2187865f5a7d6d83ab1''" using nf_genesis_hex by simp
  then show False by (simp add: demo_hash1_def ToHex_def DIGITS_def)
qed

lemma nf_demo_setup_idle: "marked n p \<Longrightarrow> setup_part nf_demo_game p = Some p"
  by (cases p) (auto simp: setup_part_def nf_demo_game_def run_simps marked_def create_gamevars_def)

lemma nf_demo_ok_setting: "setting_ok nf_demo_setting (\<lambda>c. c)"
  unfolding setting_ok_def nf_demo_fields
proof (intro conjI allI impI ballI)
  show "sqlite_ok (sg_api nf_demo_game) (\<lambda>c. c)"
    by (auto simp: nf_demo_game_def sqlite_ok_def game_ref_api_def option.map_ident empty_savepoints_def Let_def)
  show "session_undoes nf_demo_setting"
    by (rule session_ok_undoes) (simp add: nf_demo_fields nf_demo_game_def coded_session_ok dec_enc_nf)
  fix p :: "nf_db game_part"
  show "setup_part nf_demo_game (no_part nf_InitialiseState) = Some p \<Longrightarrow> setup_part nf_demo_game p = Some p"
    by (rule nf_demo_setup_idle [OF marked_setup])
  show "part_at nf_demo_setting bs = Some p \<Longrightarrow> setup_part nf_demo_game p = Some p" for bs
    by (rule nf_demo_setup_idle [OF marked_part])
  show "snd (sg_block nf_demo_game) = [] \<or> snd (sg_block nf_demo_game) = ToHex nf_genesis"
    using nf_genesis_hex by (simp add: nf_demo_game_def)
qed (auto simp: nf_demo_game_def game_ref_api_def empty_savepoints_def Let_def nf_genesis_hex nf_genesis_other)

lemma nf_demo_total: "hash_total nf_demo_setting"
  by (simp add: hash_total_def nf_demo_fields)

lemma nf_demo_true_block: "true_block nf_demo_setting nf_chain_block nf_genesis demo_hash1"
  using nf_genesis_hex demo_hash_facts nf_genesis_other
  by (simp add: true_block_def nf_demo_fields block_string_def nf_chain_block_def json_at_def member_def asString_def block_context_def
      nf_demo_setting_def GetGameId_def BlockRngSeed_def isObject_def isString_def hex_roundtrip Let_def)

lemma nf_demo_path_at: "\<exists>p. part_at nf_demo_setting [nf_chain_block] = Some p \<and> game_rows p = nf_db1"
proof -
  obtain ctx ctx' where ctx: "init_context nf_demo_setting = Some ctx" "block_context nf_demo_setting nf_chain_block = Some ctx'"
    using nf_demo_true_block by (auto simp: true_block_def init_context_def nf_demo_setting_def GetGameId_def)
  have genesis: "\<exists>p. genesis_part nf_demo_setting = Some p \<and> game_rows p = nf_InitialiseState"
    by (simp add: genesis_part_def ctx nf_demo_fields setup_part_def nf_demo_game_def run_simps init_part_def set_initialised_def no_part_def)
  have "nf_UpdateState nf_chain_block nf_InitialiseState = nf_UpdateState nf_mint_block nf_InitialiseState"
    by (simp add: nf_UpdateState_def nf_chain_block_def nf_mint_block_def member_def)
  then have "nf_UpdateState nf_chain_block nf_InitialiseState = Some nf_db1" by (simp add: nf_demo_steps)
  with genesis ctx show ?thesis
    by (auto simp: apply_block_def nf_setting_game [OF nf_demo_is_setting] scoped_db_code)
qed

theorem nf_sqlite_ledger_witness:
  "\<exists>s c. sgame_run nf_demo_setting (\<lambda>c. c) s \<and> sql_db s = Some c
    \<and> db_ledger (game_rows (game_part (sq_tables (game_ref_api nf_InitialiseState) c))) = ledger_after [nf_chain_block]"
proof -
  have path: "st_path nf_demo_setting demo_hash1 = [nf_chain_block]" by (simp add: nf_demo_fields)
  have chain: "on_chain nf_demo_setting demo_hash1"
    using on_chain.block [OF _ nf_demo_true_block] on_chain.genesis [of nf_demo_setting] by (simp add: nf_demo_fields)
  obtain s d where s: "sgame_run nf_demo_setting (\<lambda>c. c) s" "stored_current nf_demo_setting (\<lambda>c. c) s = Some (demo_hash1, d)"
    using run_reaches [OF nf_demo_ok_setting nf_demo_total chain] path nf_demo_path_at by auto
  obtain c b where c: "sql_db s = Some c" "FromBlob b = demo_hash1"
    "map_of (spacexpansegame_current (sq_tables (sg_api (st_game nf_demo_setting)) c)) ''blockhash'' = Some b"
    using current_read [OF nf_demo_ok_setting sgame_run_good [OF nf_demo_ok_setting nf_demo_total s(1)] s(2)] by blast
  have "block_ok nf_chain_block" using nf_demo_steps(1) by (simp add: block_ok_def nf_chain_block_def nf_mint_block_def member_def)
  then have ok: "list_all block_ok (st_path nf_demo_setting (FromBlob b))" using c(2) path by simp
  from nf_sqlite_ledger [OF nf_demo_is_setting nf_demo_ok_setting nf_demo_total s(1) c(1) _ c(3) ok] s(1) c(1,2) path
  show ?thesis by (auto simp: nf_demo_fields nf_demo_game_def)
qed

end
