(* ===== verification/ShipsSqlite.thy ===== *)
theory ShipsSqlite
  imports SqliteProps ShipsJson ShipsGspProps
begin

text \<open>
  The ships game-state processor as a game of \<open>SqliteGame\<close>: on every chain of well-formed blocks it
  processes each block, and its tables satisfy the invariant of the height of the current block.
\<close>

text \<open>The virtual functions of \<open>ShipsLogic\<close> (\<open>ships/logic.cpp\<close>).\<close>

definition ships_logic ::
    "gsp_env \<Rightarrow> ShipsBoardState json_env \<Rightarrow> ('c, ships_db) game_api \<Rightarrow> ships_db session_api \<Rightarrow> Chain
      \<Rightarrow> ('c, ships_db, uint256 \<times> uint256) SQLiteGame option" where
  "ships_logic env J api ses ch = map_option (\<lambda>blk. \<lparr>sg_api = api, sg_session = ses, sg_block = (of_nat (fst blk), snd blk),
     sg_SetupSchema = Finish, sg_InitialiseState = (\<lambda>ctx. Finish), sg_UpdateState = (\<lambda>ctx blockData. db_code (ships_UpdateState env blockData)),
     sg_GetStateAsJson = (\<lambda>t. the (ships_GetStateAsJson J env (game_rows (game_part t)))), sg_processors = []\<rparr>)
     (ships_GetInitialStateBlock ch)"

definition ships_setting :: "gsp_env \<Rightarrow> ('c, ships_db) sqlite_setting \<Rightarrow> bool" where
  "ships_setting env E \<longleftrightarrow> st_rows E = ships_InitialiseState
     \<and> (\<exists>J api ses ch. ships_logic env J api ses ch = Some (st_game E))"

lemma ships_setting_game:
  assumes "ships_setting env E"
  shows "sg_SetupSchema (st_game E) = Finish" "sg_InitialiseState (st_game E) = (\<lambda>ctx. Finish)"
    "sg_UpdateState (st_game E) = (\<lambda>ctx blockData. db_code (ships_UpdateState env blockData))" "st_rows E = ships_InitialiseState"
  using assms by (auto simp: ships_setting_def ships_logic_def dest!: sym [of _ "st_game E"])

text \<open>
  A chain of blocks on top of a block of height \<open>n\<close>: heights are consecutive, the moves are as Core sends
  them, and no two moves have the same transaction ID, which \<open>D\<close> collects.
\<close>

definition ships_block_fine :: "gsp_env \<Rightarrow> nat \<Rightarrow> uint256 list \<Rightarrow> json \<Rightarrow> bool" where
  "ships_block_fine env n ids b \<longleftrightarrow> 0 < n \<and> n < 2 ^ 31 \<and> distinct ids \<and> (\<exists>blk mvs. json_at b ''block'' = Some blk
     \<and> isObject blk \<and> asUInt (member blk ''height'') = Some n \<and> json_at b ''moves'' = Some (JArray mvs)
     \<and> list_all (move_fine env) mvs \<and> map GetIdFromMove mvs = map Some ids)"

inductive ships_chain :: "gsp_env \<Rightarrow> nat \<Rightarrow> json list \<Rightarrow> uint256 set \<Rightarrow> bool" for env n where
  initial: "ships_chain env n [] {}"
| next_block: "\<lbrakk>ships_chain env n bs D; ships_block_fine env (n + length bs + 1) ids b; D \<inter> set ids = {}\<rbrakk>
    \<Longrightarrow> ships_chain env n (b # bs) (D \<union> set ids)"

lemma ships_part:
  assumes E: "ships_setting env E" and env: "gsp_env_ok env"
  shows "\<lbrakk>ships_chain env n bs D; part_at E bs = Some p\<rbrakk>
    \<Longrightarrow> gsp_inv env (int (n + length bs + 1)) (game_rows p) \<and> channel_ids (game_rows p) \<subseteq> D"
proof (induction arbitrary: p rule: ships_chain.induct)
  case initial
  then have "game_rows p = ships_InitialiseState"
    by (auto simp: genesis_part_def init_part_def setup_part_def ships_setting_game [OF E] scoped_def finish_ids_def no_part_def
        set_initialised_def split: Option.bind_splits)
  then show ?case using initial_inv by (simp add: channel_ids_def ships_InitialiseState_def)
next
  case (next_block bs D ids b)
  obtain q where q: "part_at E bs = Some q" "apply_block E b q = Some p"
    using next_block.prems(1) by (auto split: Option.bind_splits)
  then have upd: "ships_UpdateState env b (game_rows q) = Some (game_rows p)"
    by (auto simp: apply_block_def ships_setting_game [OF E] scoped_db_code split: Option.bind_splits option.splits)
  note IH = next_block.IH [OF q(1)]
  obtain blk mvs where b: "json_at b ''block'' = Some blk" "isObject blk" "asUInt (member blk ''height'') = Some (n + length bs + 1)"
      "json_at b ''moves'' = Some (JArray mvs)" "list_all (move_fine env) mvs" "map GetIdFromMove mvs = map Some ids"
      "n + length bs + 1 < 2 ^ 31" "distinct ids"
    using next_block.hyps(2) by (auto simp: ships_block_fine_def)
  have "gsp_inv env (int (n + length bs + 1)) (game_rows q)" using IH by blast
  moreover have "channel_ids (game_rows q) \<inter> set ids = {}" using IH next_block.hyps(3) by blast
  ultimately obtain db' where "ships_UpdateState env b (game_rows q) = Some db'" "gsp_inv env (int (n + length bs + 1) + 1) db'"
      "channel_ids db' \<subseteq> channel_ids (game_rows q) \<union> set ids"
    using block_keeps [OF env, of "n + length bs + 1" "game_rows q" b blk mvs ids] b by auto
  moreover have "int (n + length bs + 1) + 1 = int (n + length (b # bs) + 1)" by simp
  ultimately show ?case using upd IH by auto
qed

text \<open>On such a chain every block is processed.\<close>

lemma ships_part_defined:
  assumes E: "ships_setting env E" and env: "gsp_env_ok env" and ctx: "init_context E \<noteq> None"
  shows "\<lbrakk>ships_chain env n bs D; \<forall>b \<in> set bs. block_context E b \<noteq> None\<rbrakk> \<Longrightarrow> part_at E bs \<noteq> None"
proof (induction rule: ships_chain.induct)
  case initial
  then show ?case
    using ctx by (auto simp: genesis_part_def init_part_def setup_part_def ships_setting_game [OF E] scoped_def finish_ids_def)
next
  case (next_block bs D ids b)
  then obtain q where q: "part_at E bs = Some q" by auto
  note inv = ships_part [OF E env next_block.hyps(1) q]
  obtain blk mvs where b: "json_at b ''block'' = Some blk" "isObject blk" "asUInt (member blk ''height'') = Some (n + length bs + 1)"
      "json_at b ''moves'' = Some (JArray mvs)" "list_all (move_fine env) mvs" "map GetIdFromMove mvs = map Some ids"
      "n + length bs + 1 < 2 ^ 31" "distinct ids"
    using next_block.hyps(2) by (auto simp: ships_block_fine_def)
  have "gsp_inv env (int (n + length bs + 1)) (game_rows q)" using inv by blast
  moreover have "channel_ids (game_rows q) \<inter> set ids = {}" using inv next_block.hyps(3) by blast
  ultimately obtain db' where "ships_UpdateState env b (game_rows q) = Some db'"
    using block_keeps [OF env, of "n + length bs + 1" "game_rows q" b blk mvs ids] b by auto
  moreover obtain c where "block_context E b = Some c" using next_block.prems by auto
  ultimately show ?case using q by (simp add: apply_block_def ships_setting_game [OF E] scoped_db_code)
qed

text \<open>
  The ships game as the framework runs it on its SQLite database: when the current block is at the
  end of a chain of well-formed blocks with distinct transaction IDs, the tables have the invariant of the
  next height, and every open channel has the ID of a move of the chain.  This holds at every point of a
  run, with attached and detached blocks, rollbacks and restarts, in the process and on disk.
\<close>

lemma ships_sqlite_invariant:
  assumes "ships_setting env E" and "gsp_env_ok env" and "setting_ok E rep" and "hash_total E" and "sgame_run E rep s"
    and "sql_db s = Some c" and "t \<in> {sq_tables (sg_api (st_game E)) c, sq_durable (sg_api (st_game E)) c}"
    and "map_of (spacexpansegame_current t) ''blockhash'' = Some b" and "ships_chain env n (st_path E (FromBlob b)) D"
  shows "gsp_inv env (int (n + length (st_path E (FromBlob b)) + 1)) (game_rows (game_part t))
    \<and> channel_ids (game_rows (game_part t)) \<subseteq> D"
  by (rule ships_part [OF assms(1,2,9) game_chain_tables [OF assms(3-8)]])


section \<open>A chain with one block\<close>

text \<open>
  A chain with one block, in which the creation of a channel and a dispute about one that does not exist are
  asked for.  The changesets of the session are empty, since there is only one block to be undone.
\<close>

definition ships_genesis :: "ships_db game_part" where
  "ships_genesis = \<lparr>vars_table = Some (demo_vars 1), autoids = [], game_rows = ships_InitialiseState\<rparr>"

definition ships_session :: "ships_db session_api" where
  "ships_session = \<lparr>ss_changeset = (\<lambda>p p'. []), ss_invert = Some, ss_apply = (\<lambda>i p. Some ships_genesis)\<rparr>"

definition ships_chain_block :: json where
  "ships_chain_block = JObject [(''block'', JObject [(''hash'', JString (ToHex demo_hash1)), (''height'', JInt 1),
      (''parent'', JString (ToHex SetNull)), (''rngseed'', JString (ToHex SetNull))]), (''moves'', JArray demo_moves_list)]"

definition ships_demo_setting :: "((ships_db, unit) gsp_tables_ext savepoints, ships_db) sqlite_setting" where
  "ships_demo_setting = \<lparr>st_game = the (ships_logic demo_gsp demo_json_env (game_ref_api ships_InitialiseState) ships_session GANACHE),
     st_sha = (\<lambda>bs. SetNull), st_processor = \<lparr>gp_chain = GANACHE, gp_gameId = ''ships'', gp_rpc = True\<rparr>,
     st_rows = ships_InitialiseState, st_hash = (\<lambda>g. Some SetNull),
     st_path = (\<lambda>h. if h = demo_hash1 then [ships_chain_block] else []), st_genesis = SetNull\<rparr>"

lemma ships_demo_logic:
  "ships_logic demo_gsp demo_json_env (game_ref_api ships_InitialiseState) ships_session GANACHE = Some (st_game ships_demo_setting)"
  by (simp add: ships_logic_def ships_GetInitialStateBlock_def ships_demo_setting_def)

lemma ships_demo_is_setting: "ships_setting demo_gsp ships_demo_setting"
  using ships_demo_logic by (auto simp: ships_setting_def ships_demo_setting_def)

lemma ships_demo_fields:
  "st_rows ships_demo_setting = ships_InitialiseState" "st_genesis ships_demo_setting = SetNull"
  "st_path ships_demo_setting = (\<lambda>h. if h = demo_hash1 then [ships_chain_block] else [])"
  "st_hash ships_demo_setting = (\<lambda>g. Some SetNull)" "sg_api (st_game ships_demo_setting) = game_ref_api ships_InitialiseState"
  "sg_session (st_game ships_demo_setting) = ships_session" "sg_processors (st_game ships_demo_setting) = []"
  "sg_block (st_game ships_demo_setting) = (0, [])"
  by (simp_all add: ships_demo_setting_def ships_logic_def ships_GetInitialStateBlock_def)

lemma ships_demo_genesis: "genesis_part ships_demo_setting = Some ships_genesis"
  by (simp add: genesis_part_def init_context_def ships_demo_setting_def GetGameId_def ships_logic_def ships_GetInitialStateBlock_def
      setup_part_def init_part_def run_simps no_part_def create_gamevars_def set_initialised_def ships_genesis_def demo_vars_def)

lemma ships_demo_idle: "marked n p \<Longrightarrow> setup_part (st_game ships_demo_setting) p = Some p"
  by (cases p) (auto simp: setup_part_def ships_setting_game [OF ships_demo_is_setting] run_simps marked_def create_gamevars_def)

lemma ships_demo_ok: "setting_ok ships_demo_setting (\<lambda>c. c)"
  unfolding setting_ok_def ships_demo_fields
proof (intro conjI allI impI ballI)
  show "sqlite_ok (game_ref_api ships_InitialiseState) (\<lambda>c. c)"
    by (auto simp: sqlite_ok_def game_ref_api_def option.map_ident empty_savepoints_def Let_def)
  show "session_undoes ships_demo_setting"
    by (auto simp: session_undoes_def ships_demo_fields ships_session_def ships_demo_genesis Let_def split: if_split_asm)
  fix p :: "ships_db game_part"
  show "setup_part (st_game ships_demo_setting) (no_part ships_InitialiseState) = Some p
      \<Longrightarrow> setup_part (st_game ships_demo_setting) p = Some p"
    by (rule ships_demo_idle [OF marked_setup])
  show "part_at ships_demo_setting bs = Some p \<Longrightarrow> setup_part (st_game ships_demo_setting) p = Some p" for bs
    by (rule ships_demo_idle [OF marked_part])
qed (auto simp: game_ref_api_def empty_savepoints_def Let_def demo_hash_facts)

lemma ships_demo_true_block: "true_block ships_demo_setting ships_chain_block SetNull demo_hash1"
  using demo_hash_facts
  by (simp add: true_block_def ships_demo_fields block_string_def ships_chain_block_def json_at_def member_def asString_def block_context_def
      ships_demo_setting_def GetGameId_def BlockRngSeed_def isObject_def isString_def hex_roundtrip Let_def)

lemma ships_demo_chain: "ships_chain demo_gsp 0 [ships_chain_block] ({} \<union> set [U256 (replicate 32 0x11), U256 (replicate 32 0x22)])"
proof (rule next_block [OF initial])
  have "distinct [U256 (replicate 32 0x11), U256 (replicate 32 0x22)]" by code_simp
  then show "ships_block_fine demo_gsp (0 + length [] + 1) [U256 (replicate 32 0x11), U256 (replicate 32 0x22)] ships_chain_block"
    using demo_moves_fine demo_ids
    by (simp add: ships_block_fine_def ships_chain_block_def json_at_def member_def isObject_def asUInt_def)
qed simp

lemma ships_sqlite_example:
  "\<exists>s c. sgame_run ships_demo_setting (\<lambda>c. c) s \<and> sql_db s = Some c
    \<and> gsp_inv demo_gsp 2 (game_rows (game_part (sq_tables (game_ref_api ships_InitialiseState) c)))"
proof -
  have path: "st_path ships_demo_setting demo_hash1 = [ships_chain_block]" by (simp add: ships_demo_fields)
  have chain: "on_chain ships_demo_setting demo_hash1"
    using on_chain.block [OF _ ships_demo_true_block] on_chain.genesis [of ships_demo_setting] by (simp add: ships_demo_fields)
  have ctx: "init_context ships_demo_setting \<noteq> None" "block_context ships_demo_setting ships_chain_block \<noteq> None"
    using ships_demo_true_block by (auto simp: true_block_def init_context_def ships_demo_setting_def GetGameId_def)
  have "part_at ships_demo_setting [ships_chain_block] \<noteq> None"
    by (rule ships_part_defined [OF ships_demo_is_setting demo_gsp_ok ctx(1) ships_demo_chain]) (simp add: ctx(2))
  moreover have total: "hash_total ships_demo_setting" by (simp add: hash_total_def ships_demo_fields)
  ultimately obtain s d where s: "sgame_run ships_demo_setting (\<lambda>c. c) s" "stored_current ships_demo_setting (\<lambda>c. c) s = Some (demo_hash1, d)"
    using run_reaches [OF ships_demo_ok total chain] path by auto
  obtain c b where c: "sql_db s = Some c" "FromBlob b = demo_hash1"
    "map_of (spacexpansegame_current (sq_tables (sg_api (st_game ships_demo_setting)) c)) ''blockhash'' = Some b"
    using current_read [OF ships_demo_ok sgame_run_good [OF ships_demo_ok total s(1)] s(2)] by blast
  have "ships_chain demo_gsp 0 (st_path ships_demo_setting (FromBlob b)) ({} \<union> set [U256 (replicate 32 0x11), U256 (replicate 32 0x22)])"
    using ships_demo_chain c(2) path by simp
  from ships_sqlite_invariant [OF ships_demo_is_setting demo_gsp_ok ships_demo_ok total s(1) c(1) _ c(3) this]
  have "gsp_inv demo_gsp (int (0 + length [ships_chain_block] + 1)) (game_rows (game_part (sq_tables (game_ref_api ships_InitialiseState) c)))"
    using c(2) path by (simp add: ships_demo_fields)
  with s(1) c(1) show ?thesis by (simp add: numeral_2_eq_2) blast
qed

end
