(* ===== verification/Mover.thy ===== *)
theory Mover
  imports Json Chains
begin

text \<open>
  The Mover game (\<open>mover/moves.cpp\<close>, \<open>mover/logic.cpp\<close>, \<open>mover/pending.cpp\<close>).  The messages of
  \<open>mover/proto/mover.proto\<close> are records; the presence of a field is kept where the code asks for it
  (the undo data), and a map field is an ordered table.  The coordinates are \<open>sint32\<close> values, whose
  overflow is undefined behaviour of the C++ additions and \<open>None\<close> here.  The serialisation of the
  two messages is the parameter \<open>codec\<close>.
\<close>

section \<open>Directions and moves\<close>

datatype mover_Direction =
  NONE | RIGHT | LEFT | UP | DOWN | RIGHT_UP | RIGHT_DOWN | LEFT_UP | LEFT_DOWN

fun GetDirectionOffset :: "mover_Direction \<Rightarrow> (int \<times> int) option" where
  "GetDirectionOffset RIGHT = Some (1, 0)"
| "GetDirectionOffset LEFT = Some (-1, 0)"
| "GetDirectionOffset UP = Some (0, 1)"
| "GetDirectionOffset DOWN = Some (0, -1)"
| "GetDirectionOffset RIGHT_UP = Some (1, 1)"
| "GetDirectionOffset RIGHT_DOWN = Some (1, -1)"
| "GetDirectionOffset LEFT_UP = Some (-1, 1)"
| "GetDirectionOffset LEFT_DOWN = Some (-1, -1)"
| "GetDirectionOffset NONE = None"

fun DirectionToString :: "mover_Direction \<Rightarrow> string" where
  "DirectionToString NONE = ''none''"
| "DirectionToString RIGHT = ''right''"
| "DirectionToString LEFT = ''left''"
| "DirectionToString UP = ''up''"
| "DirectionToString DOWN = ''down''"
| "DirectionToString RIGHT_UP = ''right-up''"
| "DirectionToString RIGHT_DOWN = ''right-down''"
| "DirectionToString LEFT_UP = ''left-up''"
| "DirectionToString LEFT_DOWN = ''left-down''"

definition ParseDirection :: "string \<Rightarrow> mover_Direction" where
  "ParseDirection str =
    (if str = ''l'' then RIGHT
     else if str = ''h'' then LEFT
     else if str = ''k'' then UP
     else if str = ''j'' then DOWN
     else if str = ''u'' then RIGHT_UP
     else if str = ''n'' then RIGHT_DOWN
     else if str = ''y'' then LEFT_UP
     else if str = ''b'' then LEFT_DOWN
     else NONE)"

definition ParseMove :: "json \<Rightarrow> (mover_Direction \<times> u32) option" where
  "ParseMove obj =
    (if \<not> isObject obj then None
     else if json_size obj \<noteq> 2 then None
     else if \<not> isMember obj ''d'' \<or> \<not> isMember obj ''n'' then None
     else case (member obj ''d'', asUInt (member obj ''n'')) of
       (JString d, Some n) \<Rightarrow>
         (let dir = ParseDirection d; steps = (of_nat n :: u32) in
          if dir = NONE then None
          else if steps \<le> 0 \<or> steps > 1000000 then None
          else Some (dir, steps))
     | _ \<Rightarrow> None)"

section \<open>The game state\<close>

record PlayerState =
  px :: int
  py :: int
  dir :: mover_Direction
  steps_left :: u32

record PlayerUndo =
  is_new :: bool
  previous_dir :: "mover_Direction option"
  previous_steps_left :: "u32 option"
  finished_dir :: "mover_Direction option"

type_synonym mover_state = "(string \<times> PlayerState) list"
type_synonym mover_undo = "(string \<times> PlayerUndo) list"

definition empty_PlayerState :: PlayerState where
  "empty_PlayerState = \<lparr>px = 0, py = 0, dir = NONE, steps_left = 0\<rparr>"

definition empty_PlayerUndo :: PlayerUndo where
  "empty_PlayerUndo =
    \<lparr>is_new = False, previous_dir = None, previous_steps_left = None, finished_dir = None\<rparr>"

text \<open>\<open>operator[]\<close> of a protobuf map: a missing entry is a default message.\<close>

definition undo_at :: "mover_undo \<Rightarrow> string \<Rightarrow> PlayerUndo" where
  "undo_at undo name = (case map_of undo name of None \<Rightarrow> empty_PlayerUndo | Some u \<Rightarrow> u)"

definition i32_add :: "int \<Rightarrow> int \<Rightarrow> int option" where
  "i32_add a b = (if - (2 ^ 31) \<le> a + b \<and> a + b < 2 ^ 31 then Some (a + b) else None)"

section \<open>Processing forward\<close>

text \<open>The body of the loop over the moves.\<close>

definition set_move ::
    "string \<Rightarrow> mover_Direction \<Rightarrow> u32 \<Rightarrow> mover_state \<times> mover_undo \<Rightarrow> mover_state \<times> mover_undo" where
  "set_move name d steps su =
    (case su of (state, undo) \<Rightarrow>
     let isNew = (map_of state name = None);
         p = (case map_of state name of None \<Rightarrow> empty_PlayerState | Some p \<Rightarrow> p);
         u = undo_at undo name;
         u' = (if isNew then u\<lparr>is_new := True\<rparr>
               else u\<lparr>previous_dir := Some (dir p), previous_steps_left := Some (steps_left p)\<rparr>);
         p' = (if isNew then p\<lparr>px := 0, py := 0\<rparr> else p)
     in (member_set name (p'\<lparr>dir := d, steps_left := steps\<rparr>) state, member_set name u' undo))"

definition forward_move :: "json \<Rightarrow> mover_state \<times> mover_undo \<Rightarrow> (mover_state \<times> mover_undo) option" where
  "forward_move m su = do {
     nameVal \<leftarrow> json_at m ''name'';
     name \<leftarrow> asString nameVal;
     obj \<leftarrow> json_at m ''move'';
     Some (case ParseMove obj of
       None \<Rightarrow> su
     | Some (d, steps) \<Rightarrow> set_move name d steps su)
   }"

fun forward_moves :: "json list \<Rightarrow> mover_state \<times> mover_undo \<Rightarrow> (mover_state \<times> mover_undo) option" where
  "forward_moves [] su = Some su"
| "forward_moves (m # ms) su = Option.bind (forward_move m su) (forward_moves ms)"

text \<open>The body of the loop over the players, and the loop.\<close>

definition step_player :: "string \<Rightarrow> PlayerState \<Rightarrow> mover_undo \<Rightarrow> (PlayerState \<times> mover_undo) option" where
  "step_player name p undo =
    (if dir p = NONE then Some (p, undo)
     else do {
       check (steps_left p > 0);
       (dx, dy) \<leftarrow> GetDirectionOffset (dir p);
       x \<leftarrow> i32_add (px p) dx;
       y \<leftarrow> i32_add (py p) dy;
       let p' = p\<lparr>px := x, py := y, steps_left := steps_left p - 1\<rparr>;
       Some (if steps_left p' = 0
             then (p'\<lparr>dir := NONE\<rparr>,
                   member_set name ((undo_at undo name)\<lparr>finished_dir := Some (dir p')\<rparr>) undo)
             else (p', undo))
     })"

fun step_players :: "mover_state \<Rightarrow> mover_undo \<Rightarrow> (mover_state \<times> mover_undo) option" where
  "step_players [] undo = Some ([], undo)"
| "step_players ((name, p) # ps) undo = do {
     (p', undo') \<leftarrow> step_player name p undo;
     (ps', undo'') \<leftarrow> step_players ps undo';
     Some ((name, p') # ps', undo'')
   }"

definition forward :: "json \<Rightarrow> mover_state \<Rightarrow> (mover_state \<times> mover_undo) option" where
  "forward blockData state = do {
     moves \<leftarrow> json_at blockData ''moves'';
     (state', undo) \<leftarrow> forward_moves (json_elems moves) (state, []);
     step_players state' undo
   }"

section \<open>Processing backwards\<close>

text \<open>The body of the loop over the players; \<open>None\<close> inside marks a player for removal.\<close>

definition restore_player :: "PlayerUndo option \<Rightarrow> PlayerState \<Rightarrow> PlayerState option option" where
  "restore_player u p =
    (if u \<noteq> None \<and> is_new (the u) then Some None
     else do {
       p1 \<leftarrow> (case Option.bind u finished_dir of
               None \<Rightarrow> Some p
             | Some fd \<Rightarrow> do {
                 check (dir p = NONE \<and> steps_left p = 0);
                 Some (p\<lparr>dir := fd\<rparr>)
               });
       p2 \<leftarrow> (if dir p1 = NONE then Some p1
             else do {
               (dx, dy) \<leftarrow> GetDirectionOffset (dir p1);
               x \<leftarrow> i32_add (px p1) (- dx);
               y \<leftarrow> i32_add (py p1) (- dy);
               Some (p1\<lparr>steps_left := steps_left p1 + 1, px := x, py := y\<rparr>)
             });
       let p3 = (case Option.bind u previous_dir of None \<Rightarrow> p2 | Some d \<Rightarrow> p2\<lparr>dir := d\<rparr>);
       let p4 = (case Option.bind u previous_steps_left of
                   None \<Rightarrow> p3 | Some s \<Rightarrow> p3\<lparr>steps_left := s\<rparr>);
       Some (Some p4)
     })"

fun restore_players :: "mover_undo \<Rightarrow> mover_state \<Rightarrow> (mover_state \<times> string list) option" where
  "restore_players undo [] = Some ([], [])"
| "restore_players undo ((name, p) # ps) = do {
     r \<leftarrow> restore_player (map_of undo name) p;
     (ps', rem) \<leftarrow> restore_players undo ps;
     Some (case r of
       None \<Rightarrow> ((name, p) # ps', name # rem)
     | Some p' \<Rightarrow> ((name, p') # ps', rem))
   }"

definition backwards :: "mover_state \<Rightarrow> mover_undo \<Rightarrow> mover_state option" where
  "backwards state undo = do {
     (state', playersToRemove) \<leftarrow> restore_players undo state;
     Some (fold member_del playersToRemove state')
   }"

section \<open>The game logic on encoded states\<close>

record mover_codec =
  ParseState :: "string \<Rightarrow> mover_state option"
  SerializeState :: "mover_state \<Rightarrow> string option"
  ParseUndo :: "string \<Rightarrow> mover_undo option"
  SerializeUndo :: "mover_undo \<Rightarrow> string option"

definition mover_GetInitialState :: "mover_codec \<Rightarrow> Chain \<Rightarrow> (nat \<times> string \<times> string) option" where
  "mover_GetInitialState cd chain = do {
     (height, hashHex) \<leftarrow> (case chain of
        MAIN \<Rightarrow> Some (125000 :: nat, ''2aed5640a3be8a2f32cdea68c3d72d7196a7efbfe2cbace34435a3eef97561f2'')
      | TEST \<Rightarrow> Some (10000, ''73d771be03c37872bc8ccd92b8acb8d7aa3ac0323195006fb3d3476784981a37'')
      | REGTEST \<Rightarrow> Some (0, ''6f750b36d22f1dc3d0a6e483af45301022646dfc3b3ba2187865f5a7d6d83ab1'')
      | _ \<Rightarrow> None);
     result \<leftarrow> SerializeState cd [];
     Some (height, hashHex, result)
   }"

definition ProcessForwardInternal :: "mover_codec \<Rightarrow> string \<Rightarrow> json \<Rightarrow> (string \<times> string) option" where
  "ProcessForwardInternal cd oldState blockData = do {
     state \<leftarrow> ParseState cd oldState;
     (state', undo) \<leftarrow> forward blockData state;
     undoData \<leftarrow> SerializeUndo cd undo;
     newState \<leftarrow> SerializeState cd state';
     Some (newState, undoData)
   }"

definition ProcessBackwardsInternal :: "mover_codec \<Rightarrow> string \<Rightarrow> json \<Rightarrow> string \<Rightarrow> string option" where
  "ProcessBackwardsInternal cd newState blockData undoData = do {
     state \<leftarrow> ParseState cd newState;
     undo \<leftarrow> ParseUndo cd undoData;
     state' \<leftarrow> backwards state undo;
     SerializeState cd state'
   }"

definition player_json :: "PlayerState \<Rightarrow> json" where
  "player_json p = JObject
    (let ms = member_set ''y'' (JInt (py p)) (member_set ''x'' (JInt (px p)) []) in
     if dir p = NONE then ms
     else member_set ''steps'' (JInt (sint (steps_left p)))
            (member_set ''dir'' (JString (DirectionToString (dir p))) ms))"

definition GameStateToJson :: "mover_codec \<Rightarrow> string \<Rightarrow> json option" where
  "GameStateToJson cd encodedState = do {
     state \<leftarrow> ParseState cd encodedState;
     let players = JObject (fold (\<lambda>e ms. member_set (fst e) (player_json (snd e)) ms) state []);
     Some (JObject [(''players'', players)])
   }"

section \<open>Pending moves\<close>

definition mover_AddPendingMoveInternal ::
    "mover_codec \<Rightarrow> string \<Rightarrow> json \<Rightarrow> (string \<times> json) list \<Rightarrow> (string \<times> json) list option" where
  "mover_AddPendingMoveInternal cd stateStr mv pending = do {
     nameVal \<leftarrow> json_at mv ''name'';
     name \<leftarrow> asString nameVal;
     obj \<leftarrow> json_at mv ''move'';
     case ParseMove obj of
       None \<Rightarrow> Some pending
     | Some (d, steps) \<Rightarrow> do {
         state \<leftarrow> ParseState cd stateStr;
         let (x, y) = (case map_of state name of None \<Rightarrow> (0, 0) | Some p \<Rightarrow> (px p, py p));
         (dx, dy) \<leftarrow> GetDirectionOffset d;
         tx \<leftarrow> i32_add x (sint steps * dx);
         ty \<leftarrow> i32_add y (sint steps * dy);
         let target = JObject [(''x'', JInt tx), (''y'', JInt ty)];
         Some (member_set name (JObject [(''dir'', JString (DirectionToString d)),
           (''steps'', JInt (sint steps)), (''target'', target)]) pending)
       }
   }"

definition mover_Clear :: "(string \<times> json) list \<Rightarrow> (string \<times> json) list" where
  "mover_Clear pending = []"

section \<open>Parsing of moves\<close>

lemma steps_range:
  fixes n :: u32
  shows "\<not> n \<le> 0 \<and> \<not> n > 1000000 \<longleftrightarrow> 1 \<le> unat n \<and> unat n \<le> 1000000"
  by (simp add: word_le_nat_alt word_less_nat_alt not_less Suc_le_eq)

lemma asUInt_less: "asUInt j = Some n \<Longrightarrow> n < 2 ^ 32"
proof (cases j)
  case (JReal b)
  assume n: "asUInt j = Some n"
  show ?thesis
  proof (cases "n = 0")
    case False
    let ?e = "unat (drop_bit 52 b AND 0x7FF)" and ?m = "unat (b AND mask 52)"
    let ?k = "52 - (?e - 1023)"
    have e: "?e \<le> 1023 + 31" and nn: "n = (2 ^ 52 + ?m) div 2 ^ ?k"
      using n False by (auto simp: JReal asUInt_def real_as_uint_def Let_def split: if_splits)
    have "?m < 2 ^ 52"
      using take_bit_nat_less_exp [of 52 "unat b"]
      by (simp add: take_bit_eq_mask [symmetric] unsigned_take_bit_eq)
    then have "2 ^ 52 + ?m < 2 ^ 53" by simp
    also have "(2 :: nat) ^ 53 \<le> 2 ^ (32 + ?k)" using e by (intro power_increasing) auto
    finally have "2 ^ 52 + ?m < 2 ^ 32 * 2 ^ ?k" by (simp add: power_add)
    then show ?thesis unfolding nn by (rule less_mult_imp_div_less)
  qed simp
qed (auto simp: asUInt_def nat_less_iff split: if_splits)

lemma ParseMove_Some:
  "ParseMove obj = Some (d, steps) \<longleftrightarrow>
    (\<exists>ms s n. obj = JObject ms \<and> length ms = 2 \<and> map_of ms ''d'' = Some (JString s)
      \<and> Option.bind (map_of ms ''n'') asUInt = Some n \<and> d = ParseDirection s \<and> d \<noteq> NONE
      \<and> steps = of_nat n \<and> 1 \<le> n \<and> n \<le> 1000000)" (is "?L \<longleftrightarrow> ?R")
proof
  assume ?L
  then obtain ms s n v where "obj = JObject ms" "length ms = 2" "map_of ms ''d'' = Some (JString s)"
      "map_of ms ''n'' = Some v" "asUInt v = Some n"
      "d = ParseDirection s" "d \<noteq> NONE" "steps = of_nat n"
      and st: "\<not> (of_nat n :: u32) \<le> 0" "\<not> (of_nat n :: u32) > 1000000"
    by (auto simp: ParseMove_def Let_def isMember_def member_def isObject_def json_size_def
        split: if_splits json.splits option.splits)
  moreover have "unat (of_nat n :: u32) = n"
    using asUInt_less [of v n] \<open>asUInt v = Some n\<close> by (simp add: unsigned_of_nat take_bit_nat_eq_self)
  ultimately show ?R
    using steps_range [of "of_nat n"] by auto
next
  assume ?R
  then obtain ms s n v where R: "obj = JObject ms" "length ms = 2" "map_of ms ''d'' = Some (JString s)"
      "map_of ms ''n'' = Some v" "asUInt v = Some n"
      "d = ParseDirection s" "d \<noteq> NONE" "steps = of_nat n" "1 \<le> n" "n \<le> 1000000"
    by (auto simp: bind_eq_Some_conv)
  have "unat (of_nat n :: u32) = n"
    using R by (simp add: unsigned_of_nat take_bit_nat_eq_self)
  then show ?L
    using R steps_range [of "of_nat n"]
    by (auto simp: ParseMove_def isMember_def member_def isObject_def json_size_def)
qed

lemma ParseMove_ok:
  "ParseMove obj = Some (d, steps) \<Longrightarrow> d \<noteq> NONE \<and> 0 < steps \<and> unat steps \<le> 1000000"
  by (auto simp: ParseMove_def Let_def word_le_nat_alt word_less_nat_alt not_less
      split: if_splits json.splits option.splits)

section \<open>The parsed moves of a block\<close>

text \<open>The name and parsed content of a move, where it is valid.\<close>

definition valid_move :: "json \<Rightarrow> (string \<times> mover_Direction \<times> u32) option" where
  "valid_move m =
    (case (asString (member m ''name''), ParseMove (member m ''move'')) of
       (Some name, Some (d, steps)) \<Rightarrow> Some (name, d, steps)
     | _ \<Rightarrow> None)"

definition valid_moves :: "json \<Rightarrow> (string \<times> mover_Direction \<times> u32) list" where
  "valid_moves blockData = List.map_filter valid_move (json_elems (member blockData ''moves''))"

definition apply_moves ::
    "(string \<times> mover_Direction \<times> u32) list \<Rightarrow> mover_state \<times> mover_undo \<Rightarrow> mover_state \<times> mover_undo" where
  "apply_moves mvs = fold (\<lambda>(name, d, steps). set_move name d steps) mvs"

definition mover_block_ok :: "json \<Rightarrow> bool" where
  "mover_block_ok blockData \<longleftrightarrow> isObject blockData
    \<and> list_all (\<lambda>m. isObject m \<and> asString (member m ''name'') \<noteq> None) (json_elems (member blockData ''moves''))"

lemma json_at_Some: "json_at j k = Some v \<Longrightarrow> v = member j k"
  by (cases j) (simp_all add: json_at_def member_def)

lemma forward_move_Some:
  assumes "forward_move m su = Some su'"
  shows "su' = (case valid_move m of None \<Rightarrow> su | Some (name, d, steps) \<Rightarrow> set_move name d steps su)"
  using assms
  by (auto simp: forward_move_def valid_move_def bind_eq_Some_conv dest!: json_at_Some
      split: option.splits)

lemma forward_moves_Some:
  "forward_moves ms su = Some su' \<Longrightarrow> su' = apply_moves (List.map_filter valid_move ms) su"
proof (induction ms arbitrary: su)
  case (Cons m ms)
  then obtain su1 where su1: "forward_move m su = Some su1" and "forward_moves ms su1 = Some su'"
    by (auto simp: bind_eq_Some_conv)
  then have "su' = apply_moves (List.map_filter valid_move ms) su1" using Cons.IH by blast
  then show ?case
    using forward_move_Some [OF su1]
    by (cases "valid_move m") (auto simp: apply_moves_def map_filter_simps)
qed (simp add: apply_moves_def map_filter_simps)

lemma forward_moves_total:
  "list_all (\<lambda>m. isObject m \<and> asString (member m ''name'') \<noteq> None) ms
    \<Longrightarrow> forward_moves ms su \<noteq> None"
proof (induction ms arbitrary: su)
  case (Cons m ms)
  then obtain ob where "m = JObject ob" by (cases m) (auto simp: isObject_def)
  then have "forward_move m su \<noteq> None"
    using Cons.prems by (auto simp: forward_move_def json_at_def bind_eq_None_conv split: option.splits)
  then show ?case using Cons by auto
qed simp

lemma forward_Some:
  "forward blk st = Some r \<Longrightarrow> (case apply_moves (valid_moves blk) (st, []) of (st1, u1) \<Rightarrow> step_players st1 u1) = Some r"
  by (auto simp: forward_def valid_moves_def bind_eq_Some_conv dest!: json_at_Some forward_moves_Some split: prod.splits)

lemma forward_eq:
  assumes "mover_block_ok blk"
  shows "forward blk st = (case apply_moves (valid_moves blk) (st, []) of (st1, u1) \<Rightarrow> step_players st1 u1)"
proof -
  obtain ob where o: "blk = JObject ob"
    using assms by (cases blk) (auto simp: mover_block_ok_def isObject_def)
  then obtain su where su: "forward_moves (json_elems (member blk ''moves'')) (st, []) = Some su"
    using assms forward_moves_total by (fastforce simp: mover_block_ok_def)
  then show ?thesis
    using forward_moves_Some [OF su] by (simp add: forward_def json_at_def o valid_moves_def)
qed

lemma valid_moves_ok:
  "(name, d, steps) \<in> set (valid_moves blk) \<Longrightarrow> d \<noteq> NONE \<and> 0 < steps \<and> unat steps \<le> 1000000"
  by (auto simp: valid_moves_def List.map_filter_def valid_move_def dest!: ParseMove_ok
      split: option.splits)

section \<open>The effect of the moves on one player\<close>

text \<open>
  The state and undo data of one player after the moves: untouched, created, or changed once.
\<close>

inductive moved :: "PlayerState option \<Rightarrow> PlayerState option \<Rightarrow> PlayerUndo option \<Rightarrow> bool" where
  moved_none: "moved p p None"
| moved_new: "\<lbrakk>is_new u; finished_dir u = None\<rbrakk> \<Longrightarrow> moved None (Some p) (Some u)"
| moved_old: "moved (Some p) (Some (p\<lparr>dir := d, steps_left := steps\<rparr>))
    (Some \<lparr>is_new = False, previous_dir = Some (dir p), previous_steps_left = Some (steps_left p),
           finished_dir = None\<rparr>)"

inductive_cases moved_someE: "moved (Some p) q u"
inductive_cases moved_noneE: "moved None q u"

lemma set_move_fst:
  "tbl_ok st \<Longrightarrow> map_of (fst (set_move name d steps (st, undo))) = (map_of st)(name \<mapsto>
     ((case map_of st name of None \<Rightarrow> empty_PlayerState | Some p \<Rightarrow> p)\<lparr>dir := d, steps_left := steps\<rparr>))"
  by (cases "map_of st name") (simp_all add: set_move_def Let_def empty_PlayerState_def)

lemma set_move_snd:
  "tbl_ok undo \<Longrightarrow> map_of (snd (set_move name d steps (st, undo))) = (map_of undo)(name \<mapsto>
     (case map_of st name of
        None \<Rightarrow> (undo_at undo name)\<lparr>is_new := True\<rparr>
      | Some p \<Rightarrow> (undo_at undo name)\<lparr>previous_dir := Some (dir p), previous_steps_left := Some (steps_left p)\<rparr>))"
  by (cases "map_of st name") (simp_all add: set_move_def Let_def)

lemma set_move_tbl:
  "\<lbrakk>tbl_ok st; tbl_ok undo\<rbrakk> \<Longrightarrow> tbl_ok (fst (set_move name d steps (st, undo)))
    \<and> tbl_ok (snd (set_move name d steps (st, undo)))"
  by (simp add: set_move_def Let_def)

definition one_move_each :: "mover_state \<Rightarrow> (string \<times> mover_Direction \<times> u32) list \<Rightarrow> bool" where
  "one_move_each st mvs = distinct (filter (\<lambda>nm. map_of st nm \<noteq> None) (map fst mvs))"

lemma apply_moves_tbl:
  assumes "tbl_ok st"
  shows "tbl_ok (fst (apply_moves mvs (st, []))) \<and> tbl_ok (snd (apply_moves mvs (st, [])))"
proof (induction mvs rule: rev_induct)
  case (snoc m mvs)
  obtain name d steps where "m = (name, d, steps)" by (metis surj_pair)
  then show ?case
    using snoc set_move_tbl [of "fst (apply_moves mvs (st, []))" "snd (apply_moves mvs (st, []))"]
    by (simp add: apply_moves_def)
qed (simp add: apply_moves_def assms)

lemma apply_moves_moved:
  assumes st: "tbl_ok st" and one: "one_move_each st mvs"
  shows "moved (map_of st nm) (map_of (fst (apply_moves mvs (st, []))) nm)
      (map_of (snd (apply_moves mvs (st, []))) nm)
    \<and> (map_of (snd (apply_moves mvs (st, []))) nm \<noteq> None \<longrightarrow> nm \<in> set (map fst mvs))"
  using one
proof (induction mvs rule: rev_induct)
  case Nil
  show ?case by (simp add: apply_moves_def moved_none)
next
  case (snoc m mvs)
  obtain name d steps where m: "m = (name, d, steps)" by (metis surj_pair)
  obtain st1 u1 where su: "apply_moves mvs (st, []) = (st1, u1)" by (metis surj_pair)
  have t: "tbl_ok st1" "tbl_ok u1" using apply_moves_tbl [OF st, of mvs] by (simp_all add: su)
  have IH: "moved (map_of st nm) (map_of st1 nm) (map_of u1 nm)"
      "map_of u1 nm \<noteq> None \<longrightarrow> nm \<in> set (map fst mvs)"
    using snoc by (simp_all add: su one_move_each_def)
  have step: "apply_moves (mvs @ [m]) (st, []) = set_move name d steps (st1, u1)"
    using su by (simp add: apply_moves_def m)
  have fresh: "map_of st name \<noteq> None \<Longrightarrow> name \<notin> set (map fst mvs)"
    using snoc.prems by (auto simp: one_move_each_def m)
  show ?case
  proof (cases "nm = name")
    case False
    then show ?thesis
      unfolding step using IH by (simp add: set_move_fst [OF t(1)] set_move_snd [OF t(2)])
  next
    case True
    show ?thesis
    proof (cases "map_of st name")
      case None
      then show ?thesis
        unfolding step using IH(1) True
        by (auto simp: m set_move_fst [OF t(1)] set_move_snd [OF t(2)] undo_at_def empty_PlayerUndo_def
            intro!: moved_new elim!: moved_noneE split: option.split)
    next
      case (Some p)
      then have "map_of u1 name = None" using fresh IH(2) True by auto
      moreover from this have "map_of st1 name = Some p"
        using IH(1) True Some by (auto elim!: moved_someE)
      ultimately show ?thesis
        unfolding step using moved_old [of p steps d] True
        by (simp add: m Some set_move_fst [OF t(1)] set_move_snd [OF t(2)] undo_at_def empty_PlayerUndo_def)
    qed
  qed
qed

section \<open>The effect of the movement on one player\<close>

definition step_pure :: "PlayerState \<Rightarrow> (PlayerState \<times> mover_Direction option) option" where
  "step_pure p =
    (if dir p = NONE then Some (p, None)
     else if steps_left p = 0 then None
     else do {
       (dx, dy) \<leftarrow> GetDirectionOffset (dir p);
       x \<leftarrow> i32_add (px p) dx;
       y \<leftarrow> i32_add (py p) dy;
       Some (if steps_left p = 1 then (p\<lparr>px := x, py := y, steps_left := 0, dir := NONE\<rparr>, Some (dir p))
             else (p\<lparr>px := x, py := y, steps_left := steps_left p - 1\<rparr>, None))
     })"

definition finish :: "mover_Direction option \<Rightarrow> PlayerUndo option \<Rightarrow> PlayerUndo option" where
  "finish fin u = (case fin of
     None \<Rightarrow> u
   | Some d \<Rightarrow> Some ((case u of None \<Rightarrow> empty_PlayerUndo | Some u \<Rightarrow> u)\<lparr>finished_dir := Some d\<rparr>))"

lemma step_player_pure:
  "step_player name p undo = map_option (\<lambda>(p', fin). (p', case fin of None \<Rightarrow> undo
     | Some d \<Rightarrow> member_set name ((undo_at undo name)\<lparr>finished_dir := Some d\<rparr>) undo)) (step_pure p)"
  by (auto simp: step_player_def step_pure_def word_neq_0_conv [symmetric] map_option_bind comp_def
      split: option.splits Option.bind_splits)

lemma step_player_Some:
  assumes "step_player name p undo = Some (p', undo')" and "tbl_ok undo"
  obtains fin where "step_pure p = Some (p', fin)" "tbl_ok undo'"
    "map_of undo' = (map_of undo)(name := finish fin (map_of undo name))"
proof -
  from assms(1) obtain fin where f: "step_pure p = Some (p', fin)"
    and u: "undo' = (case fin of None \<Rightarrow> undo
     | Some d \<Rightarrow> member_set name ((undo_at undo name)\<lparr>finished_dir := Some d\<rparr>) undo)"
    by (auto simp: step_player_pure)
  moreover have "tbl_ok undo'" using assms(2) by (simp add: u split: option.split)
  moreover have "map_of undo' = (map_of undo)(name := finish fin (map_of undo name))"
    using assms(2) by (cases fin) (simp_all add: u finish_def undo_at_def)
  ultimately show ?thesis using that by blast
qed

lemma step_players_Some:
  assumes "step_players st undo = Some (st', undo')" and "distinct (map fst st)" and "tbl_ok undo"
  shows "map fst st' = map fst st \<and> tbl_ok undo'
    \<and> (\<forall>nm. (map_of st nm = None \<longrightarrow> map_of undo' nm = map_of undo nm)
        \<and> (\<forall>p. map_of st nm = Some p \<longrightarrow> (\<exists>p' fin. step_pure p = Some (p', fin)
            \<and> map_of st' nm = Some p' \<and> map_of undo' nm = finish fin (map_of undo nm))))"
  using assms
proof (induction st undo arbitrary: st' undo' rule: step_players.induct)
  case (2 name p ps undo)
  from "2.prems"(1) obtain p' undo1 ps' where p': "step_player name p undo = Some (p', undo1)"
      and ps: "step_players ps undo1 = Some (ps', undo')" and st': "st' = (name, p') # ps'"
    by (auto simp: bind_eq_Some_conv)
  from step_player_Some [OF p' "2.prems"(3)] obtain fin where fin: "step_pure p = Some (p', fin)"
      and t: "tbl_ok undo1" and u: "map_of undo1 = (map_of undo)(name := finish fin (map_of undo name))"
    by blast
  have new: "map_of ps name = None" and d: "distinct (map fst ps)"
    using "2.prems"(2) by (simp_all add: map_of_eq_None_iff)
  note IH = "2.IH" [OF p' refl ps d t]
  have "map_of undo' name = finish fin (map_of undo name)"
    using IH new by (simp add: u)
  then have "(map_of ((name, p) # ps) nm = None \<longrightarrow> map_of undo' nm = map_of undo nm)
      \<and> (\<forall>q. map_of ((name, p) # ps) nm = Some q \<longrightarrow> (\<exists>p' fin. step_pure q = Some (p', fin)
          \<and> map_of st' nm = Some p' \<and> map_of undo' nm = finish fin (map_of undo nm)))" for nm
    using fin spec [OF conjunct2 [OF conjunct2 [OF IH]], of nm]
    by (cases "nm = name") (simp_all add: st' u)
  then show ?case using IH by (simp add: st')
qed simp

section \<open>Undoing a block\<close>

definition int32 :: "int \<Rightarrow> bool" where
  "int32 x \<longleftrightarrow> - (2 ^ 31) \<le> x \<and> x < 2 ^ 31"

text \<open>
  A well-formed state: the players are keyed by name, the coordinates are \<open>sint32\<close> values, and a
  player moves exactly if there are steps left.
\<close>

definition player_ok :: "PlayerState \<Rightarrow> bool" where
  "player_ok p \<longleftrightarrow> int32 (px p) \<and> int32 (py p) \<and> (dir p = NONE \<longleftrightarrow> steps_left p = 0)"

definition mover_ok :: "mover_state \<Rightarrow> bool" where
  "mover_ok st \<longleftrightarrow> tbl_ok st \<and> list_all (player_ok \<circ> snd) st"

lemma i32_add_back: "\<lbrakk>i32_add x d = Some y; int32 x\<rbrakk> \<Longrightarrow> i32_add y (- d) = Some x"
  by (auto simp: i32_add_def int32_def split: if_splits)

lemma step_pure_cases:
  assumes "step_pure p = Some (p', fin)"
  obtains "dir p = NONE" "p' = p" "fin = None"
  | dx dy x y where "GetDirectionOffset (dir p) = Some (dx, dy)" "dir p \<noteq> NONE"
      "i32_add (px p) dx = Some x" "i32_add (py p) dy = Some y" "steps_left p = 1"
      "p' = p\<lparr>px := x, py := y, steps_left := 0, dir := NONE\<rparr>" "fin = Some (dir p)"
  | dx dy x y where "GetDirectionOffset (dir p) = Some (dx, dy)" "dir p \<noteq> NONE"
      "i32_add (px p) dx = Some x" "i32_add (py p) dy = Some y" "steps_left p \<noteq> 0" "steps_left p \<noteq> 1"
      "p' = p\<lparr>px := x, py := y, steps_left := steps_left p - 1\<rparr>" "fin = None"
  using assms by (auto simp: step_pure_def bind_eq_Some_conv split: if_splits)

text \<open>The step of a player is undone, up to the fields that an explicit move had changed.\<close>

lemma restore_stepped:
  assumes step: "step_pure p = Some (p', fin)" and xy: "int32 (px p)" "int32 (py p)"
    and u: "u = None \<or> (\<exists>v. u = Some v \<and> \<not> is_new v \<and> finished_dir v = None)"
  shows "restore_player (finish fin u) p' = Some (Some
    (p\<lparr>dir := (case Option.bind u previous_dir of None \<Rightarrow> dir p | Some d \<Rightarrow> d),
       steps_left := (case Option.bind u previous_steps_left of None \<Rightarrow> steps_left p | Some s \<Rightarrow> s)\<rparr>))"
  using step
proof (cases rule: step_pure_cases)
  case 1
  then show ?thesis
    using u by (auto simp: finish_def restore_player_def split: option.splits)
next
  case (2 dx dy x y)
  then show ?thesis
    using u i32_add_back [OF 2(3) xy(1)] i32_add_back [OF 2(4) xy(2)]
    by (auto simp: finish_def restore_player_def empty_PlayerUndo_def split: option.splits)
next
  case (3 dx dy x y)
  then show ?thesis
    using u i32_add_back [OF 3(3) xy(1)] i32_add_back [OF 3(4) xy(2)]
    by (auto simp: finish_def restore_player_def split: option.splits)
qed

lemma restore_moved:
  assumes m: "moved p0 (Some p) u" and step: "step_pure p = Some (p', fin)"
    and ok: "\<And>q. p0 = Some q \<Longrightarrow> int32 (px q) \<and> int32 (py q)"
  shows "restore_player (finish fin u) p' = Some p0"
  using m
proof cases
  case moved_none
  then show ?thesis
    using restore_stepped [OF step, of None] ok by simp
next
  case (moved_new v)
  then show ?thesis
    by (cases fin) (simp_all add: finish_def restore_player_def)
next
  case (moved_old q steps d)
  then show ?thesis
    using restore_stepped [OF step, of u] ok by simp
qed

lemma restore_players_Some:
  assumes "\<And>nm p. map_of st nm = Some p \<Longrightarrow> restore_player (map_of undo nm) p = Some (f nm)"
    and "distinct (map fst st)"
  shows "\<exists>st' rem. restore_players undo st = Some (st', rem) \<and> map fst st' = map fst st
    \<and> set rem = {nm \<in> fst ` set st. f nm = None}
    \<and> (\<forall>nm. nm \<in> fst ` set st \<and> f nm \<noteq> None \<longrightarrow> map_of st' nm = f nm)"
  using assms
proof (induction st)
  case (Cons e st)
  obtain name p where e: "e = (name, p)" by fastforce
  have fresh: "name \<notin> fst ` set st" using Cons.prems(2) by (simp add: e)
  have "restore_player (map_of undo nm) q = Some (f nm)" if "map_of st nm = Some q" for nm q
  proof -
    have "nm \<noteq> name" using fresh map_of_SomeD [OF that] by force
    then show ?thesis using Cons.prems(1) [of nm q] that by (simp add: e)
  qed
  with Cons.IH Cons.prems(2) obtain st' rem where
    IH: "restore_players undo st = Some (st', rem)" "map fst st' = map fst st"
      "set rem = {nm \<in> fst ` set st. f nm = None}"
      "\<forall>nm. nm \<in> fst ` set st \<and> f nm \<noteq> None \<longrightarrow> map_of st' nm = f nm"
    by auto
  have r: "restore_player (map_of undo name) p = Some (f name)"
    using Cons.prems(1) by (simp add: e)
  show ?case
  proof (cases "f name")
    case None
    then show ?thesis using IH r fresh by (auto simp: e)
  next
    case (Some q)
    then show ?thesis using IH r fresh by (auto simp: e)
  qed
qed simp

lemma map_of_fold_del: "map_of (fold member_del ks t) k = (if k \<in> set ks then None else map_of t k)"
  by (induction ks arbitrary: t) auto

lemma tbl_ok_fold_del: "tbl_ok t \<Longrightarrow> tbl_ok (fold member_del ks t)"
  by (induction ks arbitrary: t) auto

lemma tbl_ext:
  assumes t: "tbl_ok a" "tbl_ok b" and eq: "map_of a = map_of b"
  shows "a = b"
proof (rule map_sorted_distinct_set_unique [of fst])
  show "set a = set b"
    using tbl_ok_lookup [OF t(1)] tbl_ok_lookup [OF t(2)] eq by auto
  show "inj_on fst (set a \<union> set b)"
    using tbl_ok_lookup [OF t(1)] tbl_ok_lookup [OF t(2)] eq by (auto simp: inj_on_def)
qed (use t in \<open>simp_all add: tbl_ok_sorted tbl_ok_distinct\<close>)

lemma mover_ok_lookup: "\<lbrakk>mover_ok st; map_of st nm = Some p\<rbrakk> \<Longrightarrow> player_ok p"
  by (auto simp: mover_ok_def list_all_iff dest!: map_of_SomeD)

lemma backwards_forward:
  assumes st: "mover_ok st" and one: "one_move_each st (valid_moves blk)"
    and fwd: "forward blk st = Some (st', undo)"
  shows "backwards st' undo = Some st"
proof -
  obtain st1 u1 where su: "apply_moves (valid_moves blk) (st, []) = (st1, u1)" by (metis surj_pair)
  have t: "tbl_ok st" using st by (simp add: mover_ok_def)
  have t1: "tbl_ok st1" "tbl_ok u1" using apply_moves_tbl [OF t, of "valid_moves blk"] by (simp_all add: su)
  have mv: "moved (map_of st nm) (map_of st1 nm) (map_of u1 nm)" for nm
    using apply_moves_moved [OF t one, of nm] by (simp add: su)
  have "step_players st1 u1 = Some (st', undo)" using forward_Some [OF fwd] by (simp add: su)
  from step_players_Some [OF this tbl_ok_distinct [OF t1(1)] t1(2)]
  have keys: "map fst st' = map fst st1"
    and stepped: "\<And>nm p. map_of st1 nm = Some p \<Longrightarrow> \<exists>p' fin. step_pure p = Some (p', fin)
        \<and> map_of st' nm = Some p' \<and> map_of undo nm = finish fin (map_of u1 nm)"
    by blast+
  have dom: "fst ` set st' = fst ` set st1" by (metis keys set_map)
  have "restore_player (map_of undo nm) p' = Some (map_of st nm)" if "map_of st' nm = Some p'" for nm p'
  proof -
    have "nm \<in> fst ` set st'" using that by (force dest: map_of_SomeD)
    then obtain p where p: "map_of st1 nm = Some p"
      unfolding dom by (metis map_of_eq_None_iff not_None_eq)
    from stepped [OF this] that obtain fin where "step_pure p = Some (p', fin)"
      and u: "map_of undo nm = finish fin (map_of u1 nm)" by auto
    then show ?thesis
      unfolding u using mv [of nm] mover_ok_lookup [OF st, of nm]
      by (intro restore_moved [of _ p]) (auto simp: p player_ok_def)
  qed
  moreover have t': "tbl_ok st'" using t1(1) keys by (simp add: tbl_ok_def)
  ultimately obtain st3 rem where r: "restore_players undo st' = Some (st3, rem)" "map fst st3 = map fst st'"
      "set rem = {nm \<in> fst ` set st'. map_of st nm = None}"
      "\<forall>nm. nm \<in> fst ` set st' \<and> map_of st nm \<noteq> None \<longrightarrow> map_of st3 nm = map_of st nm"
    using restore_players_Some [of st' undo "map_of st"] tbl_ok_distinct [OF t'] by blast
  have "map_of (fold member_del rem st3) nm = map_of st nm" for nm
  proof (cases "nm \<in> fst ` set st'")
    case True
    then show ?thesis using r(3,4) by (auto simp: map_of_fold_del)
  next
    case False
    then have "map_of st1 nm = None" by (simp add: dom map_of_eq_None_iff)
    then have "map_of st nm = None" using mv [of nm] by (auto elim: moved.cases)
    moreover have "map_of st3 nm = None" using False r(2) by (metis map_of_eq_None_iff set_map)
    ultimately show ?thesis by (simp add: map_of_fold_del)
  qed
  then have "fold member_del rem st3 = st"
    using t t' r(2) by (intro tbl_ext tbl_ok_fold_del) (auto simp: tbl_ok_def)
  then show ?thesis by (simp add: backwards_def r(1))
qed

section \<open>Blocks are processed\<close>

text \<open>All coordinates are at most \<open>B\<close> in absolute value.\<close>

definition near :: "int \<Rightarrow> PlayerState \<Rightarrow> bool" where
  "near B p \<longleftrightarrow> \<bar>px p\<bar> \<le> B \<and> \<bar>py p\<bar> \<le> B"

definition within :: "int \<Rightarrow> mover_state \<Rightarrow> bool" where
  "within B st = list_all (near B \<circ> snd) st"

lemma GetDirectionOffset_Some:
  assumes "d \<noteq> NONE"
  obtains dx dy where "GetDirectionOffset d = Some (dx, dy)" "\<bar>dx\<bar> \<le> 1" "\<bar>dy\<bar> \<le> 1"
  using assms by (cases d) auto

lemma step_pure_near:
  assumes p: "player_ok p" "near B p" and B: "B < 2 ^ 31 - 1"
  shows "\<exists>p' fin. step_pure p = Some (p', fin) \<and> player_ok p' \<and> near (B + 1) p'"
proof (cases "dir p = NONE")
  case True
  then show ?thesis using p by (auto simp: step_pure_def near_def)
next
  case False
  then obtain dx dy where d: "GetDirectionOffset (dir p) = Some (dx, dy)" "\<bar>dx\<bar> \<le> 1" "\<bar>dy\<bar> \<le> 1"
    by (rule GetDirectionOffset_Some)
  have "\<bar>px p + dx\<bar> \<le> B + 1" "\<bar>py p + dy\<bar> \<le> B + 1" using p(2) d(2,3) by (auto simp: near_def)
  then show ?thesis
    using p False d B by (auto simp: step_pure_def i32_add_def player_ok_def int32_def near_def)
qed

lemma list_all_lookup:
  assumes "tbl_ok t"
  shows "list_all (P \<circ> snd) t \<longleftrightarrow> (\<forall>nm p. map_of t nm = Some p \<longrightarrow> P p)"
  using tbl_ok_lookup [OF assms] by (force simp: list_all_iff)

lemma apply_moves_all:
  assumes t: "tbl_ok st" and P: "list_all (P \<circ> snd) st"
    and new: "\<And>nm d s. (nm, d, s) \<in> set mvs \<Longrightarrow> P (empty_PlayerState\<lparr>dir := d, steps_left := s\<rparr>)"
    and old: "\<And>nm d s p. \<lbrakk>(nm, d, s) \<in> set mvs; P p\<rbrakk> \<Longrightarrow> P (p\<lparr>dir := d, steps_left := s\<rparr>)"
  shows "list_all (P \<circ> snd) (fst (apply_moves mvs (st, [])))"
  using new old
proof (induction mvs rule: rev_induct)
  case (snoc m mvs)
  obtain name d s where m: "m = (name, d, s)" by (metis surj_pair)
  obtain st1 u1 where su: "apply_moves mvs (st, []) = (st1, u1)" by (metis surj_pair)
  have t1: "tbl_ok st1" "tbl_ok u1" using apply_moves_tbl [OF t, of mvs] by (simp_all add: su)
  have "list_all (P \<circ> snd) (fst (apply_moves mvs (st, [])))" by (rule snoc.IH) (auto intro: snoc.prems)
  then have "list_all (P \<circ> snd) st1" by (simp only: su fst_conv)
  then have IH: "P p" if "map_of st1 nm = Some p" for nm p
    using that by (simp add: list_all_lookup [OF t1(1)])
  have step: "apply_moves (mvs @ [m]) (st, []) = set_move name d s (st1, u1)"
    using su by (simp add: apply_moves_def m)
  have t2: "tbl_ok (fst (set_move name d s (st1, u1)))" using set_move_tbl [OF t1] by simp
  show ?case
    unfolding step list_all_lookup [OF t2] set_move_fst [OF t1(1)]
    using IH snoc.prems(1) [of name d s] snoc.prems(2) [of name d s]
    by (auto simp: m split: option.splits if_splits)
qed (use P in \<open>simp add: apply_moves_def\<close>)

lemma step_players_total:
  assumes "list_all (\<lambda>e. step_pure (snd e) \<noteq> None) st"
  shows "step_players st undo \<noteq> None"
  using assms
proof (induction st arbitrary: undo)
  case (Cons e st)
  obtain name p where e: "e = (name, p)" by fastforce
  obtain p' u' where "step_player name p undo = Some (p', u')"
    using Cons.prems by (auto simp: e step_player_pure)
  moreover obtain r where "step_players st u' = Some r"
    using Cons by fastforce
  ultimately show ?case by (cases r) (simp add: e)
qed simp

lemma forward_total:
  assumes st: "mover_ok st" "within B st" "0 \<le> B" and blk: "mover_block_ok blk" and B: "B < 2 ^ 31 - 1"
  shows "\<exists>st' undo. forward blk st = Some (st', undo) \<and> mover_ok st' \<and> within (B + 1) st'"
proof -
  let ?P = "\<lambda>p. player_ok p \<and> near B p"
  obtain st1 u1 where su: "apply_moves (valid_moves blk) (st, []) = (st1, u1)" by (metis surj_pair)
  have t: "tbl_ok st" using st by (simp add: mover_ok_def)
  have t1: "tbl_ok st1" "tbl_ok u1" using apply_moves_tbl [OF t, of "valid_moves blk"] by (simp_all add: su)
  have "list_all (?P \<circ> snd) st"
    using st by (simp add: mover_ok_def within_def list_all_iff)
  then have "list_all (?P \<circ> snd) (fst (apply_moves (valid_moves blk) (st, [])))"
    using st(3) by (intro apply_moves_all [OF t])
      (auto simp: player_ok_def near_def empty_PlayerState_def int32_def dest: valid_moves_ok)
  then have P1: "list_all (?P \<circ> snd) st1" by (simp add: su)
  then have "list_all (\<lambda>e. step_pure (snd e) \<noteq> None) st1"
    using step_pure_near [OF _ _ B] by (fastforce simp: list_all_iff)
  then obtain st' undo where s: "step_players st1 u1 = Some (st', undo)"
    using step_players_total by fastforce
  from step_players_Some [OF s tbl_ok_distinct [OF t1(1)] t1(2)]
  have keys: "map fst st' = map fst st1"
    and stepped: "\<And>nm p. map_of st1 nm = Some p \<Longrightarrow> \<exists>p' fin. step_pure p = Some (p', fin) \<and> map_of st' nm = Some p'"
    by blast+
  have t': "tbl_ok st'" using t1(1) keys by (simp add: tbl_ok_def)
  have "player_ok p' \<and> near (B + 1) p'" if "map_of st' nm = Some p'" for nm p'
  proof -
    have "map_of st1 nm \<noteq> None" using that keys by (metis map_of_eq_None_iff option.distinct(1) set_map)
    then obtain p where p: "map_of st1 nm = Some p" by auto
    then have "?P p" using P1 by (simp add: list_all_lookup [OF t1(1)])
    then show ?thesis using step_pure_near [OF _ _ B, of p] stepped [OF p] that by auto
  qed
  then have "mover_ok st' \<and> within (B + 1) st'"
    by (simp add: mover_ok_def within_def t' list_all_lookup [OF t'])
  then show ?thesis using s by (simp add: forward_eq [OF blk] su)
qed

section \<open>Runs of blocks\<close>

fun run :: "json list \<Rightarrow> mover_state \<Rightarrow> mover_state option" where
  "run [] st = Some st"
| "run (blk # blks) st = do { (st', undo) \<leftarrow> forward blk st; run blks st' }"

lemma run_total:
  assumes "mover_ok st" "within B st" "0 \<le> B" "list_all mover_block_ok blks"
    "B + int (length blks) < 2 ^ 31"
  shows "\<exists>st'. run blks st = Some st'"
  using assms
proof (induction blks arbitrary: st B)
  case (Cons blk blks)
  then obtain st1 u where "forward blk st = Some (st1, u)" "mover_ok st1" "within (B + 1) st1"
    using forward_total [of st B blk] by auto
  then show ?case using Cons.IH [of st1 "B + 1"] Cons.prems by auto
qed simp

text \<open>What a block does to one player: his last valid move is set, and then he moves.\<close>

lemma apply_moves_last:
  assumes t: "tbl_ok st"
  shows "map_of (fst (apply_moves mvs (st, []))) name = (case map_of (rev mvs) name of
      None \<Rightarrow> map_of st name
    | Some (d, s) \<Rightarrow> Some ((case map_of st name of None \<Rightarrow> empty_PlayerState | Some p \<Rightarrow> p)
        \<lparr>dir := d, steps_left := s\<rparr>))"
proof (induction mvs rule: rev_induct)
  case (snoc m mvs)
  obtain nm d s where m: "m = (nm, d, s)" by (metis surj_pair)
  obtain st1 u1 where su: "apply_moves mvs (st, []) = (st1, u1)" by (metis surj_pair)
  have t1: "tbl_ok st1" "tbl_ok u1" using apply_moves_tbl [OF t, of mvs] by (simp_all add: su)
  have "apply_moves (mvs @ [m]) (st, []) = set_move nm d s (st1, u1)"
    using su by (simp add: apply_moves_def m)
  then show ?case
    using snoc
    by (cases "nm = name"; cases "map_of (rev mvs) name"; cases "map_of st name")
      (auto simp: set_move_fst [OF t1(1)] su m)
qed (simp add: apply_moves_def)

lemma forward_player:
  assumes fwd: "forward blk st = Some (st', undo)" and t: "tbl_ok st"
    and p: "map_of (fst (apply_moves (valid_moves blk) (st, []))) name = Some p"
  shows "\<exists>p' fin. step_pure p = Some (p', fin) \<and> map_of st' name = Some p'" and "tbl_ok st'"
proof -
  obtain st1 u1 where su: "apply_moves (valid_moves blk) (st, []) = (st1, u1)" by (metis surj_pair)
  have t1: "tbl_ok st1" "tbl_ok u1" using apply_moves_tbl [OF t, of "valid_moves blk"] by (simp_all add: su)
  have "step_players st1 u1 = Some (st', undo)" using forward_Some [OF fwd] by (simp add: su)
  from step_players_Some [OF this tbl_ok_distinct [OF t1(1)] t1(2)]
  have *: "map fst st' = map fst st1" "\<And>q. map_of st1 name = Some q
      \<Longrightarrow> \<exists>p' fin. step_pure q = Some (p', fin) \<and> map_of st' name = Some p'" by blast+
  show "\<exists>p' fin. step_pure p = Some (p', fin) \<and> map_of st' name = Some p'"
    using p *(2) by (simp only: su fst_conv)
  show "tbl_ok st'" using t1(1) *(1) by (simp add: tbl_ok_def)
qed

text \<open>One step of a moving player.\<close>

lemma step_pure_moving:
  assumes "step_pure p = Some (p', fin)" "dir p = d" "GetDirectionOffset d = Some (dx, dy)"
    "unat (steps_left p) = Suc k"
  shows "px p' = px p + dx \<and> py p' = py p + dy \<and> unat (steps_left p') = k
    \<and> dir p' = (if k = 0 then NONE else d)"
proof -
  have "steps_left p = 1 \<longleftrightarrow> k = 0" using assms(4) by (metis One_nat_def unat_1 word_unat_eq_iff nat.inject)
  moreover have "unat (steps_left p - 1) = k" if "k \<noteq> 0"
    using assms(4) unat_sub [of 1 "steps_left p"] by (simp add: word_le_nat_alt)
  ultimately show ?thesis
    using assms by (auto simp: step_pure_def i32_add_def bind_eq_Some_conv split: if_splits)
qed

lemma run_player:
  assumes "run blks st = Some st'" "tbl_ok st"
    "list_all (\<lambda>blk. map_of (rev (valid_moves blk)) name = None) blks"
    "map_of st name = Some p" "dir p = d" "GetDirectionOffset d = Some (dx, dy)"
    "unat (steps_left p) = k + length blks" "0 < k + length blks"
  shows "\<exists>p'. map_of st' name = Some p' \<and> px p' = px p + int (length blks) * dx
    \<and> py p' = py p + int (length blks) * dy \<and> unat (steps_left p') = k \<and> dir p' = (if k = 0 then NONE else d)"
  using assms
proof (induction blks arbitrary: st p)
  case (Cons blk blks)
  then obtain st1 u where f: "forward blk st = Some (st1, u)" and r: "run blks st1 = Some st'"
    by (auto simp: bind_eq_Some_conv)
  have "map_of (fst (apply_moves (valid_moves blk) (st, []))) name = Some p"
    using Cons.prems by (simp add: apply_moves_last)
  from forward_player [OF f Cons.prems(2) this] obtain p1 fin where
    p1: "step_pure p = Some (p1, fin)" "map_of st1 name = Some p1" and t1: "tbl_ok st1" by auto
  have s: "px p1 = px p + dx \<and> py p1 = py p + dy \<and> unat (steps_left p1) = k + length blks
    \<and> dir p1 = (if k + length blks = 0 then NONE else d)"
    by (rule step_pure_moving [OF p1(1) Cons.prems(5,6)]) (use Cons.prems(7) in simp)
  show ?case
  proof (cases "k + length blks = 0")
    case True
    then show ?thesis using r p1 s by (simp add: algebra_simps)
  next
    case False
    have "\<exists>p'. map_of st' name = Some p' \<and> px p' = px p1 + int (length blks) * dx
      \<and> py p' = py p1 + int (length blks) * dy \<and> unat (steps_left p') = k \<and> dir p' = (if k = 0 then NONE else d)"
      by (rule Cons.IH [OF r t1 _ p1(2)]) (use Cons.prems s False in auto)
    then show ?thesis using s by (simp add: algebra_simps)
  qed
qed auto

end
