(* ===== verification/MoverProps.thy ===== *)
theory MoverProps
  imports Mover
begin

text \<open>
  Properties of the Mover game: parsing of moves, processing without failed checks, undoing of
  blocks, and the target that the pending state projects.  The serialisation of the messages is a
  parameter; all that is assumed of it is that a message which was serialised parses back.
\<close>

definition mover_codec_ok :: "mover_codec \<Rightarrow> bool" where
  "mover_codec_ok cd \<longleftrightarrow> (\<forall>st s. SerializeState cd st = Some s \<longrightarrow> ParseState cd s = Some st)
    \<and> (\<forall>u s. SerializeUndo cd u = Some s \<longrightarrow> ParseUndo cd s = Some u)"

lemma encoded_undo:
  assumes cd: "mover_codec_ok cd" and old: "ParseState cd old = Some st" "SerializeState cd st = Some enc"
    and st: "mover_ok st" "one_move_each st (valid_moves blk)"
    and fwd: "ProcessForwardInternal cd old blk = Some (new, undoData)"
  shows "ProcessBackwardsInternal cd new blk undoData = Some enc"
proof -
  from fwd old(1) obtain st' undo where f: "forward blk st = Some (st', undo)"
      and s: "SerializeUndo cd undo = Some undoData" "SerializeState cd st' = Some new"
    by (auto simp: ProcessForwardInternal_def bind_eq_Some_conv)
  have "ParseState cd new = Some st'" "ParseUndo cd undoData = Some undo"
    using cd s by (auto simp: mover_codec_ok_def)
  then show ?thesis
    using backwards_forward [OF st f] old(2) by (simp add: ProcessBackwardsInternal_def)
qed

lemma sint_small: "unat (n :: u32) \<le> 1000000 \<Longrightarrow> sint n = int (unat n)"
proof -
  assume n: "unat n \<le> 1000000"
  have "signed_take_bit 31 (int m) = int m" if "m \<le> 1000000" for m
    using that by (simp add: signed_take_bit_int_eq_self)
  from this [OF n] show ?thesis by (simp add: sint_uint)
qed

lemma i32_add_scaled:
  assumes "\<bar>x\<bar> \<le> B" and "\<bar>d\<bar> \<le> 1" and "0 \<le> n" and "B + n < 2 ^ 31"
  shows "i32_add x (n * d) = Some (x + n * d)"
proof -
  have "\<bar>n * d\<bar> \<le> n" using assms(2,3) mult_left_mono [of "\<bar>d\<bar>" 1 n] by (simp add: abs_mult)
  then have "\<bar>x + n * d\<bar> < 2 ^ 31" using assms(1,4) by linarith
  then show ?thesis by (auto simp: i32_add_def)
qed

lemma json_at_object: "isObject j \<Longrightarrow> json_at j k = Some (member j k)"
  by (cases j) (simp_all add: isObject_def json_at_def)

section \<open>Demonstration data\<close>

definition demo_mv :: "string \<Rightarrow> string \<Rightarrow> int \<Rightarrow> json" where
  "demo_mv name d n = JObject [(''move'', JObject [(''d'', JString d), (''n'', JInt n)]), (''name'', JString name)]"

definition demo_block :: "json list \<Rightarrow> json" where
  "demo_block mvs = JObject [(''moves'', JArray mvs)]"

definition demo_state :: mover_state where
  "demo_state = [(''andy'', \<lparr>px = 5, py = -3, dir = LEFT_UP, steps_left = 1\<rparr>),
                 (''domob'', \<lparr>px = 1, py = 2, dir = RIGHT, steps_left = 7\<rparr>)]"

definition demo_blk :: json where
  "demo_blk = demo_block [demo_mv ''domob'' ''j'' 2, demo_mv ''eve'' ''x'' 2, demo_mv ''new'' ''u'' 1]"

definition demo_blk2 :: json where
  "demo_blk2 = demo_block [demo_mv ''domob'' ''j'' 2, demo_mv ''domob'' ''k'' 3]"

definition demo_state' :: mover_state where
  "demo_state' = (case forward demo_blk demo_state of Some (st, u) \<Rightarrow> st | None \<Rightarrow> [])"

definition demo_undo :: mover_undo where
  "demo_undo = (case forward demo_blk demo_state of Some (st, u) \<Rightarrow> u | None \<Rightarrow> [])"

definition mover_demo_codec :: mover_codec where
  "mover_demo_codec =
    \<lparr>ParseState = (\<lambda>s. if s = ''A'' then Some demo_state else if s = ''B'' then Some demo_state' else None),
     SerializeState = (\<lambda>st. if st = demo_state then Some ''A'' else if st = demo_state' then Some ''B'' else None),
     ParseUndo = (\<lambda>s. if s = ''U'' then Some demo_undo else None),
     SerializeUndo = (\<lambda>u. if u = demo_undo then Some ''U'' else None)\<rparr>"

lemma mover_demo_codec_ok: "mover_codec_ok mover_demo_codec"
  by (simp add: mover_codec_ok_def mover_demo_codec_def)

lemma demo_mover_facts:
  "mover_ok demo_state" "one_move_each demo_state (valid_moves demo_blk)"
  "ProcessForwardInternal mover_demo_codec ''A'' demo_blk = Some (''B'', ''U'')"
  "ParseState mover_demo_codec ''A'' = Some demo_state" "SerializeState mover_demo_codec demo_state = Some ''A''"
  "mover_block_ok demo_blk" "within 5 demo_state"
  by code_simp+

section \<open>Properties\<close>

text \<open>
  C29: Undoing a block restores the state: when every player who was already on the map has at most
  one valid move in the block, then \<open>ProcessBackwardsInternal\<close>, called with the result and the undo
  data of \<open>ProcessForwardInternal\<close>, does not fail a check and returns the encoding of the old state
  exactly: positions, directions and steps left of old players, and none of the new players.
\<close>

theorem mover_undo_restores:
  assumes "mover_codec_ok cd" and "ParseState cd old = Some st" and "SerializeState cd st = Some enc"
    and "mover_ok st" and "one_move_each st (valid_moves blk)"
    and "ProcessForwardInternal cd old blk = Some (new, undoData)"
  shows "ProcessBackwardsInternal cd new blk undoData = Some enc"
  by (rule encoded_undo [OF assms])

theorem mover_undo_restores_witness:
  "mover_codec_ok mover_demo_codec \<and> mover_ok demo_state
    \<and> ProcessForwardInternal mover_demo_codec ''A'' demo_blk = Some (''B'', ''U'')
    \<and> ProcessBackwardsInternal mover_demo_codec ''B'' demo_blk ''U'' = Some ''A''"
  using mover_undo_restores [OF mover_demo_codec_ok demo_mover_facts(4,5,1,2,3)] mover_demo_codec_ok demo_mover_facts
  by blast

text \<open>
  Two valid moves of one player in the same block break the undo data: the second move records
  the direction and steps of the first as the previous ones, so that undoing the block does not
  give the old state back.
\<close>

lemma mover_undo_lost:
  "\<exists>st' undo st''. mover_ok demo_state \<and> forward demo_blk2 demo_state = Some (st', undo)
    \<and> backwards st' undo = Some st'' \<and> st'' \<noteq> demo_state"
proof -
  define r where "r = the (forward demo_blk2 demo_state)"
  have "forward demo_blk2 demo_state = Some (fst r, snd r)" unfolding r_def by code_simp
  moreover have "backwards (fst r) (snd r) =
      Some [(''andy'', \<lparr>px = 5, py = -3, dir = LEFT_UP, steps_left = 1\<rparr>),
            (''domob'', \<lparr>px = 1, py = 2, dir = DOWN, steps_left = 2\<rparr>)]"
    unfolding r_def by code_simp
  moreover have "[(''andy'', \<lparr>px = 5, py = -3, dir = LEFT_UP, steps_left = 1\<rparr>),
            (''domob'', \<lparr>px = 1, py = 2, dir = DOWN, steps_left = 2\<rparr>)] \<noteq> demo_state"
    by (simp add: demo_state_def)
  ultimately show ?thesis using demo_mover_facts(1) by blast
qed

text \<open>
  Processing a block never fails a check: on a well-formed state with coordinates of at most
  \<open>B < 2 ^ 31 - 1\<close>, a block of moves with names is processed, and the new state is well-formed with
  coordinates of at most \<open>B + 1\<close>; players move exactly while they have steps left.
\<close>

lemma mover_forward_ok:
  assumes "mover_ok st" and "within B st" and "0 \<le> B" and "mover_block_ok blk" and "B < 2 ^ 31 - 1"
  shows "\<exists>st' undo. forward blk st = Some (st', undo) \<and> mover_ok st' \<and> within (B + 1) st'"
  by (rule forward_total [OF assms])

text \<open>
  The pending state projects the right target.  Let a move be tracked as pending on a state,
  be the last valid move of its player in the next block, and let the player send no valid move in
  the remaining blocks until his steps have run out.  Then all these blocks are processed, the
  player stands still afterwards, and he is at the target that the pending state shows.
\<close>

lemma mover_target_reached:
  assumes cd: "ParseState cd enc = Some st" and st: "mover_ok st" "within B st" "0 \<le> B"
    and mv: "isObject mv" "valid_move mv = Some (name, d, steps)"
    and blks: "list_all mover_block_ok (blk # blks)"
    and lastmv: "map_of (rev (valid_moves blk)) name = Some (d, steps)"
    and rest: "list_all (\<lambda>b. map_of (rev (valid_moves b)) name = None) blks"
    and len: "unat steps = length (blk # blks)" and B: "B + int (unat steps) < 2 ^ 31"
  shows "\<exists>st' p. run (blk # blks) st = Some st' \<and> map_of st' name = Some p \<and> dir p = NONE
    \<and> mover_AddPendingMoveInternal cd enc mv pending = Some (member_set name
        (JObject [(''dir'', JString (DirectionToString d)), (''steps'', JInt (int (unat steps))),
          (''target'', JObject [(''x'', JInt (px p)), (''y'', JInt (py p))])]) pending)"
proof -
  have t: "tbl_ok st" using st(1) by (simp add: mover_ok_def)
  have nm: "asString (member mv ''name'') = Some name" and pm: "ParseMove (member mv ''move'') = Some (d, steps)"
    using mv(2) by (auto simp: valid_move_def split: option.splits)
  note ok = ParseMove_ok [OF pm]
  obtain dx dy where off: "GetDirectionOffset d = Some (dx, dy)" "\<bar>dx\<bar> \<le> 1" "\<bar>dy\<bar> \<le> 1"
    using ok GetDirectionOffset_Some [of d] by blast
  define p0 where "p0 = (case map_of st name of None \<Rightarrow> empty_PlayerState | Some p \<Rightarrow> p)"
  have near: "near B p0"
    using st(2,3) by (auto simp: p0_def near_def empty_PlayerState_def within_def list_all_lookup [OF t]
        split: option.split)
  obtain st' where st': "run (blk # blks) st = Some st'"
    using run_total [OF st blks] B len by auto
  then obtain st1 u where f: "forward blk st = Some (st1, u)" and r: "run blks st1 = Some st'"
    by (auto simp: bind_eq_Some_conv)
  have p1: "map_of (fst (apply_moves (valid_moves blk) (st, []))) name = Some (p0\<lparr>dir := d, steps_left := steps\<rparr>)"
    using lastmv by (simp add: apply_moves_last [OF t] p0_def)
  obtain q fin where q: "step_pure (p0\<lparr>dir := d, steps_left := steps\<rparr>) = Some (q, fin)" "map_of st1 name = Some q"
      and t1: "tbl_ok st1"
    using forward_player [OF f t p1] by auto
  have s: "px q = px p0 + dx \<and> py q = py p0 + dy \<and> unat (steps_left q) = length blks
      \<and> dir q = (if length blks = 0 then NONE else d)"
    using step_pure_moving [OF q(1) _ off(1), of "length blks"] len by simp
  have "\<exists>p. map_of st' name = Some p \<and> dir p = NONE
      \<and> px p = px p0 + int (unat steps) * dx \<and> py p = py p0 + int (unat steps) * dy"
  proof (cases "blks = []")
    case True
    then show ?thesis using r q s len by simp
  next
    case False
    have "\<exists>p. map_of st' name = Some p \<and> px p = px q + int (length blks) * dx
      \<and> py p = py q + int (length blks) * dy \<and> unat (steps_left p) = 0 \<and> dir p = (if (0 :: nat) = 0 then NONE else d)"
      by (rule run_player [OF r t1 rest q(2) _ off(1)]) (use s False in auto)
    then show ?thesis using s len by (auto simp: algebra_simps )
  qed
  then obtain p where p: "map_of st' name = Some p" "dir p = NONE"
      "px p = px p0 + int (unat steps) * dx" "py p = py p0 + int (unat steps) * dy"
    by blast
  have "i32_add (px p0) (sint steps * dx) = Some (px p)" "i32_add (py p0) (sint steps * dy) = Some (py p)"
    using near B ok i32_add_scaled [of "px p0" B dx "int (unat steps)"] i32_add_scaled [of "py p0" B dy "int (unat steps)"]
    by (simp_all add: p near_def sint_small off)
  moreover have "(case map_of st name of None \<Rightarrow> (0, 0) | Some p \<Rightarrow> (px p, py p)) = (px p0, py p0)"
    by (simp add: p0_def empty_PlayerState_def split: option.split)
  ultimately have "mover_AddPendingMoveInternal cd enc mv pending = Some (member_set name
        (JObject [(''dir'', JString (DirectionToString d)), (''steps'', JInt (int (unat steps))),
          (''target'', JObject [(''x'', JInt (px p)), (''y'', JInt (py p))])]) pending)"
    using ok by (simp add: mover_AddPendingMoveInternal_def json_at_object [OF mv(1)] nm pm cd off(1) sint_small)
  then show ?thesis using st' p by blast
qed

text \<open>
  A move is accepted exactly when it is an object with the two members \<open>d\<close> and \<open>n\<close>, where \<open>d\<close> is
  one of the eight direction letters and \<open>n\<close> a number from 1 to 1,000,000; the accepted direction is
  never \<open>NONE\<close>, so that the player moves.
\<close>

lemma mover_ParseMove_accepts:
  "ParseMove obj = Some (d, steps) \<longleftrightarrow>
    (\<exists>ms s n. obj = JObject ms \<and> length ms = 2 \<and> map_of ms ''d'' = Some (JString s)
      \<and> Option.bind (map_of ms ''n'') asUInt = Some n \<and> d = ParseDirection s \<and> d \<noteq> NONE
      \<and> steps = of_nat n \<and> 1 \<le> n \<and> n \<le> 1000000)"
  by (rule ParseMove_Some)

end
