(* ===== verification/Zmq.thy ===== *)
theory Zmq
  imports Prelude Json "HOL-Library.AList"
begin

text \<open>
  The subscription to the notifications of SpaceXpanse Core (\<open>spacexpansegame/zmqsubscriber.cpp\<close>): the
  topics, the sequence numbers and the calls of the listeners.

  The sockets of the ZMQ library are their addresses and topics, and the thread that listens is a run over
  the events that it sees, which are messages in parts and the request to stop.  Parsing JSON is a
  parameter.  The listeners work on a state \<open>'w\<close>; \<open>None\<close> as the result of a call is a call that does
  not return.
\<close>

section \<open>State\<close>

record 'w ZmqListener =
  zl_BlockAttach :: "string \<Rightarrow> json \<Rightarrow> bool \<Rightarrow> 'w \<Rightarrow> 'w outcome option"
  zl_BlockDetach :: "string \<Rightarrow> json \<Rightarrow> bool \<Rightarrow> 'w \<Rightarrow> 'w outcome option"
  zl_PendingMove :: "string \<Rightarrow> json \<Rightarrow> 'w \<Rightarrow> 'w outcome option"
  zl_HasStopped :: "'w \<Rightarrow> 'w"

record 'w ZmqSubscriber =
  addrBlocks :: string
  addrPending :: string
  sockets :: "(string \<times> string list) list"
  listeners :: "(string \<times> 'w ZmqListener) list"
  lastSeq :: "(string \<times> u32) list"
  lastBlockUpdate :: nat
  worker :: bool
  shouldStop :: bool
  running :: bool
  noListeningForTesting :: bool

definition new_ZmqSubscriber :: "'w ZmqSubscriber" where
  "new_ZmqSubscriber = \<lparr>addrBlocks = [], addrPending = [], sockets = [], listeners = [], lastSeq = [], lastBlockUpdate = 0,
     worker = False, shouldStop = False, running = False, noListeningForTesting = False\<rparr>"

definition IsPendingEnabled :: "'w ZmqSubscriber \<Rightarrow> bool" where
  "IsPendingEnabled z \<longleftrightarrow> addrPending z \<noteq> []"

definition GetBlockStaleness :: "nat \<Rightarrow> 'w ZmqSubscriber \<Rightarrow> nat" where
  "GetBlockStaleness t z = t - lastBlockUpdate z"

definition SetEndpoint :: "string \<Rightarrow> 'w ZmqSubscriber \<Rightarrow> 'w ZmqSubscriber option" where
  "SetEndpoint address z = do { check (\<not> running z); Some (z\<lparr>addrBlocks := address\<rparr>) }"

definition SetEndpointForPending :: "string \<Rightarrow> 'w ZmqSubscriber \<Rightarrow> 'w ZmqSubscriber option" where
  "SetEndpointForPending address z = do { check (\<not> running z); Some (z\<lparr>addrPending := address\<rparr>) }"

definition AddListener :: "string \<Rightarrow> 'w ZmqListener \<Rightarrow> 'w ZmqSubscriber \<Rightarrow> 'w ZmqSubscriber option" where
  "AddListener gameId l z = do { check (\<not> running z); Some (z\<lparr>listeners := listeners z @ [(gameId, l)]\<rparr>) }"

section \<open>Messages\<close>

text \<open>The sequence number in the third part, whose last byte is the most significant one.\<close>

definition decode_seq :: "byte list \<Rightarrow> u32 option" where
  "decode_seq bs = do {
     check (length bs = 4);
     Some (fold (\<lambda>i seq. or (push_bit 8 seq) (ucast (bs ! (3 - i)))) [0..<4] 0)
   }"

definition bytes_string :: "byte list \<Rightarrow> string" where
  "bytes_string bs = map (\<lambda>b. char_of (unat b)) bs"

text \<open>A message has exactly three parts.\<close>

fun receive_parts :: "byte list list \<Rightarrow> (string \<times> string \<times> u32) option" where
  "receive_parts [topic, payload, sq] = do { n \<leftarrow> decode_seq sq; Some (bytes_string topic, bytes_string payload, n) }"
| "receive_parts parts = None"

definition CheckTopicPrefix :: "string \<Rightarrow> string \<Rightarrow> string option" where
  "CheckTopicPrefix topic pre = (if take (length pre) topic = pre then Some (drop (length pre) topic) else None)"

datatype TopicType = ATTACH | DETACH | PENDING

definition topic_type :: "string \<Rightarrow> (TopicType \<times> string) option" where
  "topic_type topic =
    (case CheckTopicPrefix topic ''game-block-attach json '' of
       Some gameId \<Rightarrow> Some (ATTACH, gameId)
     | None \<Rightarrow>
         (case CheckTopicPrefix topic ''game-block-detach json '' of
            Some gameId \<Rightarrow> Some (DETACH, gameId)
          | None \<Rightarrow> map_option (Pair PENDING) (CheckTopicPrefix topic ''game-pending-move json '')))"

text \<open>Whether the number of a message is not the successor of the last one with the topic.\<close>

definition check_seq :: "string \<Rightarrow> u32 \<Rightarrow> (string \<times> u32) list \<Rightarrow> bool \<times> (string \<times> u32) list" where
  "check_seq topic sq seqs =
    (case map_of seqs topic of
       None \<Rightarrow> (True, (topic, sq) # seqs)
     | Some prev \<Rightarrow> (sq \<noteq> prev + 1, AList.update topic sq seqs))"

definition call_listener :: "TopicType \<Rightarrow> string \<Rightarrow> json \<Rightarrow> bool \<Rightarrow> 'w ZmqListener \<Rightarrow> 'w \<Rightarrow> 'w outcome option" where
  "call_listener t gameId d seqMismatch l =
    (case t of
       ATTACH \<Rightarrow> zl_BlockAttach l gameId d seqMismatch
     | DETACH \<Rightarrow> zl_BlockDetach l gameId d seqMismatch
     | PENDING \<Rightarrow> zl_PendingMove l gameId d)"

fun call_listeners :: "TopicType \<Rightarrow> string \<Rightarrow> json \<Rightarrow> bool \<Rightarrow> 'w ZmqListener list \<Rightarrow> 'w \<Rightarrow> 'w outcome option" where
  "call_listeners t gameId d seqMismatch [] w = Some (Done w)"
| "call_listeners t gameId d seqMismatch (l # ls) w =
    (case call_listener t gameId d seqMismatch l w of
       Some (Done w') \<Rightarrow> call_listeners t gameId d seqMismatch ls w'
     | r \<Rightarrow> r)"

section \<open>Listening\<close>

text \<open>The body of the loop on a message; \<open>Thrown\<close> leaves the loop.\<close>

definition listen_message ::
    "(string \<Rightarrow> json option) \<Rightarrow> nat \<Rightarrow> byte list list \<Rightarrow> 'w ZmqSubscriber \<times> 'w \<Rightarrow> ('w ZmqSubscriber \<times> 'w) outcome option" where
  "listen_message parse t parts x =
    (case do {
       (topic, payload, sq) \<leftarrow> receive_parts parts;
       (ty, gameId) \<leftarrow> topic_type topic;
       Some (topic, payload, sq, ty, gameId)
     } of
       None \<Rightarrow> Some Aborted
     | Some (topic, payload, sq, ty, gameId) \<Rightarrow>
         let r = check_seq topic sq (lastSeq (fst x));
             z = (fst x)\<lparr>lastSeq := snd r\<rparr>;
             z = (if ty \<in> {ATTACH, DETACH} then z\<lparr>lastBlockUpdate := t\<rparr> else z);
             range = map snd (filter (\<lambda>e. fst e = gameId) (listeners z)) in
         if range = [] then Some (Done (z, snd x))
         else (case parse payload of
             None \<Rightarrow> Some Aborted
           | Some d \<Rightarrow> map_option (omap (Pair z)) (call_listeners ty gameId d (fst r) range (snd x))))"

datatype zmq_event = Message nat "byte list list" | StopSeen

text \<open>
  The loop over the events; \<open>Done\<close> is a thread that waits for the next event, \<open>Thrown\<close> one that has left the loop.
\<close>

fun listen_loop ::
    "(string \<Rightarrow> json option) \<Rightarrow> zmq_event list \<Rightarrow> 'w ZmqSubscriber \<times> 'w \<Rightarrow> ('w ZmqSubscriber \<times> 'w) outcome option" where
  "listen_loop parse [] x = Some (Done x)"
| "listen_loop parse (StopSeen # es) x = Some (Thrown x)"
| "listen_loop parse (Message t parts # es) x =
    (case listen_message parse t parts x of
       Some (Done x') \<Rightarrow> listen_loop parse es x'
     | r \<Rightarrow> r)"

definition listen_end :: "'w ZmqSubscriber \<times> 'w \<Rightarrow> 'w ZmqSubscriber \<times> 'w" where
  "listen_end x = ((fst x)\<lparr>running := False\<rparr>, fold (\<lambda>e. zl_HasStopped (snd e)) (listeners (fst x)) (snd x))"

definition Listen ::
    "(string \<Rightarrow> json option) \<Rightarrow> zmq_event list \<Rightarrow> 'w ZmqSubscriber \<times> 'w \<Rightarrow> ('w ZmqSubscriber \<times> 'w) outcome option" where
  "Listen parse es x =
    (if noListeningForTesting (fst x) then Some (Done x)
     else case listen_loop parse es x of
         Some (Thrown x') \<Rightarrow> Some (Done (listen_end x'))
       | r \<Rightarrow> r)"

section \<open>Starting and stopping\<close>

definition RequestStop :: "'w ZmqSubscriber \<Rightarrow> 'w ZmqSubscriber option" where
  "RequestStop z = do { check (worker z); Some (z\<lparr>shouldStop := True\<rparr>) }"

text \<open>Stopping joins the thread, so it is called on the subscriber as the thread leaves it.\<close>

definition ZmqSubscriber_Stop :: "'w ZmqSubscriber \<Rightarrow> 'w ZmqSubscriber option" where
  "ZmqSubscriber_Stop z = do { z \<leftarrow> RequestStop z; Some (z\<lparr>worker := False, sockets := []\<rparr>) }"

definition block_topics :: "(string \<times> 'w ZmqListener) list \<Rightarrow> string list" where
  "block_topics ls = concat (map (\<lambda>e. map (\<lambda>cmd. cmd @ '' json '' @ fst e) [''game-block-attach'', ''game-block-detach'']) ls)"

definition pending_topics :: "(string \<times> 'w ZmqListener) list \<Rightarrow> string list" where
  "pending_topics ls = map (\<lambda>e. ''game-pending-move json '' @ fst e) ls"

definition start_sockets :: "'w ZmqSubscriber \<Rightarrow> (string \<times> string list) list" where
  "start_sockets z = (let blocks = block_topics (listeners z); pend = pending_topics (listeners z) in
     if addrPending z = [] then [(addrBlocks z, blocks)]
     else if addrPending z = addrBlocks z then [(addrBlocks z, blocks @ pend)]
     else [(addrBlocks z, blocks), (addrPending z, pend)])"

definition ZmqSubscriber_Start :: "nat \<Rightarrow> 'w ZmqSubscriber \<Rightarrow> 'w ZmqSubscriber option" where
  "ZmqSubscriber_Start t z = do {
     check (addrBlocks z \<noteq> []);
     check (\<not> running z);
     z \<leftarrow> (if worker z then ZmqSubscriber_Stop z else Some z);
     check (sockets z = []);
     Some (z\<lparr>sockets := start_sockets z, lastSeq := [], shouldStop := False, running := True, lastBlockUpdate := t, worker := True\<rparr>)
   }"

section \<open>Finding the endpoints\<close>

text \<open>\<open>Game::DetectZmqEndpoint\<close> on the notifications that SpaceXpanse Core reports.\<close>

definition detect_one :: "json \<Rightarrow> bool \<times> 'w ZmqSubscriber \<Rightarrow> (bool \<times> 'w ZmqSubscriber) option" where
  "detect_one val x = do {
     typeVal \<leftarrow> json_at val ''type'';
     if \<not> isString typeVal then Some x
     else do {
       addrVal \<leftarrow> json_at val ''address'';
       check (isString addrVal);
       address \<leftarrow> asString addrVal;
       check (address \<noteq> []);
       ty \<leftarrow> asString typeVal;
       if ty = ''pubgameblocks'' then do { z \<leftarrow> SetEndpoint address (snd x); Some (True, z) }
       else if ty = ''pubgamepending'' then do { z \<leftarrow> SetEndpointForPending address (snd x); Some (fst x, z) }
       else Some x
     }
   }"

fun detect_all :: "json list \<Rightarrow> bool \<times> 'w ZmqSubscriber \<Rightarrow> (bool \<times> 'w ZmqSubscriber) option" where
  "detect_all [] x = Some x"
| "detect_all (v # vs) x = do { x' \<leftarrow> detect_one v x; detect_all vs x' }"

definition DetectZmqEndpoint :: "json \<Rightarrow> 'w ZmqSubscriber \<Rightarrow> (bool \<times> 'w ZmqSubscriber) option" where
  "DetectZmqEndpoint notifications z = detect_all (json_elems notifications) (False, z)"

section \<open>Missed messages\<close>

text \<open>
  A message as it is sent: the time at which it arrives, the topic, the payload and its index among the
  messages of the topic.  The sender numbers the messages of a topic from some start.
\<close>

type_synonym sent = "nat \<times> byte list \<times> byte list \<times> nat"

definition encode_seq :: "u32 \<Rightarrow> byte list" where
  "encode_seq n = map (\<lambda>i. ucast (drop_bit (8 * i) n)) [0..<4]"

definition sent_message :: "(string \<Rightarrow> u32) \<Rightarrow> sent \<Rightarrow> zmq_event" where
  "sent_message start m = (case m of (t, topic, payload, k) \<Rightarrow>
     Message t [topic, payload, encode_seq (start (bytes_string topic) + of_nat k)])"

text \<open>What arrives of the messages: on every topic in order, and never missing more than the numbers can tell.\<close>

fun arrives :: "(string \<times> nat) list \<Rightarrow> sent list \<Rightarrow> bool" where
  "arrives earlier [] = True"
| "arrives earlier ((t, topic, payload, k) # ms) =
    ((\<forall>e \<in> set earlier. fst e = bytes_string topic \<longrightarrow> snd e < k)
     \<and> (bytes_string topic \<in> fst ` set earlier \<longrightarrow> (\<exists>e \<in> set earlier. fst e = bytes_string topic \<and> k \<le> snd e + 2 ^ 32))
     \<and> arrives ((bytes_string topic, k) # earlier) ms)"

text \<open>
  What the listeners have to be told: every message for them, in the order of arrival, with the flag unless the
  message before it on the topic has arrived as well.
\<close>

fun deliver ::
    "(string \<Rightarrow> json option) \<Rightarrow> (string \<times> 'w ZmqListener) list \<Rightarrow> (string \<times> nat) list \<Rightarrow> sent list \<Rightarrow> 'w \<Rightarrow> 'w outcome option" where
  "deliver parse ls earlier [] w = Some (Done w)"
| "deliver parse ls earlier ((t, topic, payload, k) # ms) w =
    (case topic_type (bytes_string topic) of
       None \<Rightarrow> Some Aborted
     | Some (ty, gameId) \<Rightarrow>
         let range = map snd (filter (\<lambda>e. fst e = gameId) ls); later = (bytes_string topic, k) # earlier in
         if range = [] then deliver parse ls later ms w
         else (case parse (bytes_string payload) of
             None \<Rightarrow> Some Aborted
           | Some d \<Rightarrow>
               (case call_listeners ty gameId d (k = 0 \<or> (bytes_string topic, k - 1) \<notin> set earlier) range w of
                  Some (Done w') \<Rightarrow> deliver parse ls later ms w'
                | r \<Rightarrow> r)))"

lemma bytes_of_word:
  fixes n :: u32
  shows "or (push_bit 8 (or (push_bit 8 (or (push_bit 8 (ucast (ucast (drop_bit 24 n) :: byte))) (ucast (ucast (drop_bit 16 n) :: byte))))
    (ucast (ucast (drop_bit 8 n) :: byte)))) (ucast (ucast n :: byte)) = n" (is "?w = n")
proof (rule bit_word_eqI)
  fix i assume "i < LENGTH(32)"
  then have "i < 32" by simp
  then consider "i < 8" | "8 \<le> i" "i < 16" | "16 \<le> i" "i < 24" | "24 \<le> i" "i < 32" by linarith
  then show "bit ?w i = bit n i"
    by cases (auto simp: bit_simps)
qed

lemma decode_seq_encode: "decode_seq (encode_seq n) = Some n"
  using bytes_of_word [of n] by (simp add: decode_seq_def encode_seq_def upt_rec)

definition seqs_ok :: "(string \<Rightarrow> u32) \<Rightarrow> (string \<times> u32) list \<Rightarrow> (string \<times> nat) list \<Rightarrow> bool" where
  "seqs_ok start seqs earlier \<longleftrightarrow> (\<forall>topic. case map_of seqs topic of
     None \<Rightarrow> topic \<notin> fst ` set earlier
   | Some s \<Rightarrow> \<exists>m. (topic, m) \<in> set earlier \<and> s = start topic + of_nat m \<and> (\<forall>j. (topic, j) \<in> set earlier \<longrightarrow> j \<le> m))"

lemma next_number:
  assumes "m < k" "k \<le> m + 2 ^ 32"
  shows "start + (of_nat k :: u32) = start + of_nat m + 1 \<longleftrightarrow> k = Suc m"
proof -
  have "start + (of_nat k :: u32) = start + of_nat m + 1 \<longleftrightarrow> (of_nat k :: u32) = of_nat (Suc m)" by (simp add: algebra_simps)
  also have "\<dots> \<longleftrightarrow> k mod 2 ^ 32 = Suc m mod 2 ^ 32"
    by (simp add: word_of_nat_eq_iff take_bit_eq_mod del: of_nat_Suc)
  also have "\<dots> \<longleftrightarrow> k = Suc m"
  proof
    assume "k mod 2 ^ 32 = Suc m mod 2 ^ 32"
    then have "(k - Suc m) mod 2 ^ 32 = 0" using assms(1) by (simp add: mod_eq_dvd_iff_nat)
    moreover have "k - Suc m < 2 ^ 32" using assms by linarith
    ultimately show "k = Suc m" using assms(1) by simp
  qed simp
  finally show ?thesis .
qed

lemma check_seq_ok:
  assumes ok: "seqs_ok start seqs earlier" and arr: "arrives earlier ((t, topic, payload, k) # ms)"
  shows "fst (check_seq (bytes_string topic) (start (bytes_string topic) + of_nat k) seqs)
      = (k = 0 \<or> (bytes_string topic, k - 1) \<notin> set earlier)"
    and "seqs_ok start (snd (check_seq (bytes_string topic) (start (bytes_string topic) + of_nat k) seqs)) ((bytes_string topic, k) # earlier)"
proof -
  let ?T = "bytes_string topic"
  have before: "j < k" if "(?T, j) \<in> set earlier" for j using arr that by auto
  show "fst (check_seq ?T (start ?T + of_nat k) seqs) = (k = 0 \<or> (?T, k - 1) \<notin> set earlier)"
  proof (cases "map_of seqs ?T")
    case None
    then have "?T \<notin> fst ` set earlier" using spec [OF ok [unfolded seqs_ok_def], of ?T] by simp
    with None show ?thesis by (force simp: check_seq_def)
  next
    case (Some s)
    then obtain m where m: "(?T, m) \<in> set earlier" "s = start ?T + of_nat m" "\<And>j. (?T, j) \<in> set earlier \<Longrightarrow> j \<le> m"
      using spec [OF ok [unfolded seqs_ok_def], of ?T] by auto
    obtain j where j: "(?T, j) \<in> set earlier" "k \<le> j + 2 ^ 32" using arr m(1) by force
    have "k \<le> m + 2 ^ 32" using j m(3) [OF j(1)] by linarith
    from next_number [OF before [OF m(1)] this]
    have "fst (check_seq ?T (start ?T + of_nat k) seqs) = (k \<noteq> Suc m)" using Some m(2) by (simp add: check_seq_def)
    moreover have "k \<noteq> Suc m \<longleftrightarrow> (k = 0 \<or> (?T, k - 1) \<notin> set earlier)"
      using m(1) m(3) [of "k - 1"] before [OF m(1)] by (cases k) auto
    ultimately show ?thesis by simp
  qed
  have "map_of (snd (check_seq ?T (start ?T + of_nat k) seqs)) = (map_of seqs)(?T \<mapsto> start ?T + of_nat k)"
    by (auto simp: check_seq_def update_conv' split: option.split)
  note upd = this
  have old: "case map_of seqs topic' of None \<Rightarrow> topic' \<notin> fst ` set earlier
     | Some s \<Rightarrow> \<exists>m. (topic', m) \<in> set earlier \<and> s = start topic' + of_nat m \<and> (\<forall>j. (topic', j) \<in> set earlier \<longrightarrow> j \<le> m)" for topic'
    using ok by (simp add: seqs_ok_def)
  have "case map_of (snd (check_seq ?T (start ?T + of_nat k) seqs)) topic' of None \<Rightarrow> topic' \<notin> fst ` set ((?T, k) # earlier)
     | Some s \<Rightarrow> \<exists>m. (topic', m) \<in> set ((?T, k) # earlier) \<and> s = start topic' + of_nat m
         \<and> (\<forall>j. (topic', j) \<in> set ((?T, k) # earlier) \<longrightarrow> j \<le> m)" for topic'
  proof (cases "topic' = ?T")
    case True
    then show ?thesis using before by (auto simp: upd intro: less_imp_le)
  next
    case False
    then show ?thesis using old [of topic'] by (cases "map_of seqs topic'") (auto simp: upd)
  qed
  then show "seqs_ok start (snd (check_seq ?T (start ?T + of_nat k) seqs)) ((?T, k) # earlier)"
    by (simp only: seqs_ok_def) blast
qed

lemma sent_message_eq: "sent_message start (t, topic, payload, k) = Message t [topic, payload, encode_seq (start (bytes_string topic) + of_nat k)]"
  by (simp add: sent_message_def)

lemma loop_deliver:
  assumes "seqs_ok start (lastSeq z) earlier" "arrives earlier ms"
  shows "map_option (omap snd) (listen_loop parse (map (sent_message start) ms) (z, w)) = deliver parse (listeners z) earlier ms w"
  using assms
proof (induction ms arbitrary: z earlier w)
  case Nil
  then show ?case by simp
next
  case (Cons m ms)
  obtain t topic payload k where m: "m = (t, topic, payload, k)" by (cases m)
  let ?T = "bytes_string topic"
  let ?r = "check_seq ?T (start ?T + of_nat k) (lastSeq z)"
  note chk = check_seq_ok [OF Cons.prems(1) Cons.prems(2) [unfolded m]]
  have arr: "arrives ((?T, k) # earlier) ms" using Cons.prems(2) by (simp add: m)
  have rec: "receive_parts [topic, payload, encode_seq (start ?T + of_nat k)] = Some (?T, bytes_string payload, start ?T + of_nat k)"
    by (simp add: decode_seq_encode)
  show ?case
  proof (cases "topic_type ?T")
    case None
    then show ?thesis by (simp add: m sent_message_eq listen_message_def rec)
  next
    case (Some e)
    then obtain ty gid where ty: "topic_type ?T = Some (ty, gid)" by (cases e) auto
    define z' where "z' = (if ty \<in> {ATTACH, DETACH} then z\<lparr>lastSeq := snd ?r, lastBlockUpdate := t\<rparr> else z\<lparr>lastSeq := snd ?r\<rparr>)"
    have z': "lastSeq z' = snd ?r" "listeners z' = listeners z" by (simp_all add: z'_def)
    have IH: "map_option (omap snd) (listen_loop parse (map (sent_message start) ms) (z', w'))
        = deliver parse (listeners z) ((?T, k) # earlier) ms w'" for w'
      using Cons.IH [OF _ arr, of z' w'] chk(2) by (simp add: z')
    let ?range = "map snd (filter (\<lambda>e. fst e = gid) (listeners z))"
    have msg: "listen_message parse t [topic, payload, encode_seq (start ?T + of_nat k)] (z, w) =
      (if ?range = [] then Some (Done (z', w))
       else (case parse (bytes_string payload) of None \<Rightarrow> Some Aborted
         | Some d \<Rightarrow> map_option (omap (Pair z')) (call_listeners ty gid d (fst ?r) ?range w)))"
      unfolding listen_message_def rec by (cases ty) (simp_all add: ty z'_def Let_def cong: option.case_cong)
    show ?thesis
    proof (cases "?range = []")
      case True
      then show ?thesis using IH [of w] by (simp add: m sent_message_eq msg ty Let_def)
    next
      case False
      show ?thesis
      proof (cases "parse (bytes_string payload)")
        case None
        with False show ?thesis by (simp add: m sent_message_eq msg ty Let_def)
      next
        case (Some d)
        let ?c = "call_listeners ty gid d (fst ?r) ?range w"
        have "map_option (omap snd) (case map_option (omap (Pair z')) ?c of
            Some (Done x) \<Rightarrow> listen_loop parse (map (sent_message start) ms) x | r \<Rightarrow> r)
          = (case ?c of Some (Done w') \<Rightarrow> deliver parse (listeners z) ((?T, k) # earlier) ms w' | r \<Rightarrow> r)"
          using IH by (auto split: option.splits outcome.splits)
        with False Some show ?thesis by (simp add: m sent_message_eq msg ty Let_def chk(1))
      qed
    qed
  qed
qed

section \<open>Properties\<close>

text \<open>
  C22: The listeners are called for exactly the messages that arrive for them, in this order, and with the flag
  for missed messages exactly when the message before it on the topic has not arrived since the start, also
  when the 32-bit sequence numbers wrap around.
\<close>

theorem missed_messages_flagged:
  assumes "ZmqSubscriber_Start t z0 = Some z" and "arrives [] ms"
  shows "map_option (omap snd) (listen_loop parse (map (sent_message start) ms) (z, w)) = deliver parse (listeners z0) [] ms w"
proof -
  have "lastSeq z = []" "listeners z = listeners z0"
    using assms(1) by (auto simp: ZmqSubscriber_Start_def ZmqSubscriber_Stop_def RequestStop_def split: Option.bind_splits if_splits)
  then show ?thesis using loop_deliver [of start z "[]" ms parse w] assms(2) by (simp add: seqs_ok_def)
qed

text \<open>A listener that logs its calls; the numbers wrap around, and the second message on the topic is lost.\<close>

definition log_listener :: "(string \<times> bool) list ZmqListener" where
  "log_listener = \<lparr>zl_BlockAttach = (\<lambda>g d b w. Some (Done (w @ [(''attach'', b)]))),
     zl_BlockDetach = (\<lambda>g d b w. Some (Done (w @ [(''detach'', b)]))),
     zl_PendingMove = (\<lambda>g d w. Some (Done (w @ [(''move'', False)]))), zl_HasStopped = (\<lambda>w. w)\<rparr>"

definition string_parts :: "string \<Rightarrow> byte list" where
  "string_parts s = map of_char s"

theorem missed_messages_flagged_witness:
  "\<exists>z. ZmqSubscriber_Start 0 (new_ZmqSubscriber\<lparr>addrBlocks := ''tcp'', listeners := [(''g'', log_listener)]\<rparr>) = Some z
    \<and> map_option (omap snd) (listen_loop (\<lambda>s. Some JNull) (map (sent_message (\<lambda>topic. - 1))
        [(1, string_parts ''game-block-attach json g'', [], 0), (2, string_parts ''game-block-attach json g'', [], 1),
         (3, string_parts ''game-block-attach json g'', [], 3)]) (z, []))
      = Some (Done [(''attach'', True), (''attach'', False), (''attach'', True)])"
proof -
  let ?z0 = "new_ZmqSubscriber\<lparr>addrBlocks := ''tcp'', listeners := [(''g'', log_listener)]\<rparr>"
  let ?ms = "[(1, string_parts ''game-block-attach json g'', [], 0), (2, string_parts ''game-block-attach json g'', [], 1),
         (3, string_parts ''game-block-attach json g'', [], 3)] :: sent list"
  have topic: "bytes_string (string_parts ''game-block-attach json g'') = ''game-block-attach json g''" by code_simp
  have ty: "topic_type ''game-block-attach json g'' = Some (ATTACH, ''g'')" by code_simp
  obtain z where z: "ZmqSubscriber_Start 0 ?z0 = Some z"
    by (auto simp: ZmqSubscriber_Start_def new_ZmqSubscriber_def)
  have "arrives [] ?ms" by (simp add: topic)
  from missed_messages_flagged [OF z this, of "\<lambda>s. Some JNull" "\<lambda>topic. - 1" "[]"] z show ?thesis
    by (simp add: topic ty new_ZmqSubscriber_def log_listener_def call_listener_def Let_def)
qed

end
