(* ===== verification/Spec2Isabelle.thy ===== *)
theory Spec2Isabelle
  imports DaemonDemo NfSqlite ShipsSqlite MoverProps Zmq
begin

text \<open>
  Verification of libspex, the C++ library for games on SpaceXpanse, and of the games that come with it.

  \<^bold>\<open>The program.\<close>  \<open>spacexpansegame\<close> is the framework of a game-state processor (GSP): it follows the
  block chain, keeps a game state with undo data in a storage, and tracks pending moves.
  \<open>sidechannel\<close> adds channels: two players exchange signed moves off chain (\<open>stateproof.cpp\<close>,
  \<open>rollingstate.cpp\<close>), and the chain settles disputes about them (\<open>channelgame.cpp\<close>, \<open>database.cpp\<close>).
  \<open>ships\<close> is the battleships game on such channels: its board rules (\<open>coord.cpp\<close>, \<open>grid.cpp\<close>,
  \<open>board.cpp\<close>) are the rules that state proofs are checked against, and its GSP (\<open>logic.cpp\<close>) processes
  the moves about channels.  \<open>nonfungible\<close> and \<open>mover\<close> are two GSPs without channels.
  \<open>spacexpanseutil\<close> has the utilities that all of them share.

  \<^bold>\<open>The theories\<close>, each named with the files below \<open>src/\<close> that it models:

  \<^item> \<open>Prelude\<close>, \<open>Tables\<close>: results of operations that abort, reject or throw; ordered tables for maps, JSON
    members and SQL tables with a primary key.
  \<^item> \<open>Uint256\<close> (\<open>spacexpanseutil/uint256.cpp\<close>), \<open>Rng\<close> (\<open>random.cpp\<close>, \<open>random.tpp\<close>), \<open>Base64\<close>
    (\<open>base64.cpp\<close>), \<open>Json\<close> (JsonCpp values as the code uses them, \<open>jsonutils.cpp\<close>).
  \<^item> \<open>Coord\<close>, \<open>Grid\<close> (\<open>ships/coord.cpp\<close>, \<open>ships/grid.cpp\<close>), \<open>Fleet\<close> (the specification of a fleet and that
    \<open>VerifyPositionOfShips\<close> decides it), \<open>Board\<close> (\<open>ships/board.cpp\<close>), \<open>BoardInv\<close> (the invariant of board
    states, progress and termination of games), \<open>ShipsGame\<close> (honest players, invalid corner states).
  \<^item> \<open>Messages\<close> (the protocol-buffer messages), \<open>StateProofs\<close> (\<open>sidechannel/signatures.cpp\<close>,
    \<open>protoversion.cpp\<close>, \<open>stateproof.cpp\<close>, \<open>boardrules.hpp\<close>), \<open>ShipsRules\<close> (\<open>protoboard.tpp\<close> with the
    ships rules), \<open>RollingState\<close> (\<open>rollingstate.cpp\<close>), \<open>ChannelGame\<close> (\<open>channelgame.cpp\<close>, \<open>database.cpp\<close>),
    \<open>ShipsChannel\<close> (the two together for ships).
  \<^item> \<open>ChannelManager\<close> (\<open>sidechannel/channelmanager.cpp\<close>, \<open>openchannel.cpp\<close>, \<open>movesender.cpp\<close>), \<open>ManagerInv\<close> (its operations as
    a step relation and their invariant), \<open>ManagerProps\<close> (what its proofs are worth on chain), \<open>Broadcast\<close>
    (\<open>broadcast.cpp\<close>, \<open>rpcbroadcast.cpp\<close>), \<open>ChainFeed\<close> (\<open>gsprpc.cpp\<close>, \<open>chaintochannel.cpp\<close>: what the GSP answers about a
    channel and how the daemon takes it over), \<open>Daemon\<close> (\<open>daemon.cpp\<close>, \<open>syncmanager.cpp\<close>, \<open>recvbroadcast.cpp\<close>:
    its threads as a step relation), \<open>DaemonCodec\<close> (JSON forms of moves and proofs).
  \<^item> \<open>ShipsClient\<close> (\<open>ships/channel.cpp\<close>, \<open>channelrpc.cpp\<close>), \<open>ShipsPlay\<close> (a player who uses it is not cheated),
    \<open>ShipsTurns\<close>, \<open>AutoMoves\<close> (the loop over automatic moves, with the locale \<open>open_channel\<close> as the
    contract of \<open>OpenChannel\<close>), \<open>ShipsDaemon\<close> (its interpretation for ships), \<open>DaemonProps\<close>, \<open>DaemonDemo\<close>
    (the properties of managers and daemons, and concrete ones).
  \<^item> \<open>ShipsGsp\<close> (\<open>ships/logic.cpp\<close>), \<open>ShipsGspInv\<close>, \<open>ShipsGspBlock\<close>, \<open>ShipsGspProps\<close> (the invariant of its
    database along whole blocks), \<open>ShipsPending\<close> (pending moves), \<open>ShipsJson\<close> (\<open>channelstatejson.cpp\<close>,
    \<open>gamestatejson.cpp\<close> and the JSON forms).
  \<^item> \<open>Assets\<close>, \<open>Ledger\<close>, \<open>MoveParser\<close>, \<open>MoveProcessor\<close>, \<open>NfPending\<close>, \<open>NfState\<close> (\<open>nonfungible\<close>): \<open>Ledger\<close> is
    the abstract specification, the locale \<open>ledger_parser\<close> the contract between the parser and its two
    subclasses, which are its two interpretations.
  \<^item> \<open>Chains\<close> (\<open>gamelogic.cpp\<close>), \<open>Mover\<close>, \<open>MoverProps\<close> (\<open>mover\<close>).
  \<^item> \<open>Storage\<close> (\<open>spacexpansegame/storage.cpp\<close>, with the locales \<open>undo_storage\<close>, \<open>storage\<close> and
    \<open>rollback_storage\<close> as the contract of \<open>StorageInterface\<close>), \<open>Transactions\<close> (\<open>transactionmanager.cpp\<close>),
    \<open>SqliteStorage\<close> (\<open>sqlitestorage.cpp\<close>), \<open>PruningQueue\<close> (\<open>pruningqueue.cpp\<close>), \<open>HeightCache\<close>
    (\<open>heightcache.cpp\<close>, which keeps the contract of the storage that it wraps).
  \<^item> \<open>GameLogic\<close> (\<open>gamelogic.cpp\<close>), \<open>PendingMoves\<close> (\<open>pendingmoves.cpp\<close>), \<open>Zmq\<close> (\<open>zmqsubscriber.cpp\<close>), \<open>Game\<close>
    (\<open>game.cpp\<close>), \<open>GameSync\<close>, \<open>GameSafe\<close>, \<open>GameReinit\<close>, \<open>GameRun\<close> (the chain as an abstract specification, and
    that all handlers keep the storage true to it, on every storage with the contract), \<open>GameProps\<close> (the
    properties of runs of a game).
  \<^item> \<open>SqliteGame\<close> (\<open>sqlitegame.cpp\<close>, \<open>sqliteproc.cpp\<close>: games with their state in the database of the storage),
    \<open>SqliteIds\<close> (automatic IDs), \<open>SqliteChain\<close> (the tables that each block of a chain defines, as the
    specification, and the invariant), \<open>SqliteRun\<close> (the calls of the framework as a step relation, which
    keeps the invariant), \<open>SqliteProps\<close>; \<open>NfSqlite\<close> and \<open>ShipsSqlite\<close> put the two GSPs on it.

  \<^bold>\<open>What stands for what.\<close>  A class is a record of its fields, an operation a function on it; a
  failed \<open>CHECK\<close> or \<open>LOG (FATAL)\<close> is \<open>None\<close>, \<open>Inl CheckFailed\<close> or \<open>Aborted\<close>, an orderly refusal
  \<open>Inl Rejected\<close>, an exception \<open>Thrown\<close>.  Unsigned integers are words of their width, signed ones whose
  overflow is undefined are integers with a partial addition.  SQL statements are operations on
  sorted tables.  Logging is left out.

  \<^bold>\<open>Parameters.\<close>  Code that is not in the repository is an argument of the definitions: SHA-256 (\<open>sha\<close>,
  hypothesis \<open>sha_ok\<close>: hashes have 32 bytes), signature recovery and signing, the codecs of the
  protocol-buffer library (\<open>codec_ok\<close>: what was serialised parses back), OpenSSL's base64 blocks
  (\<open>evp_ok\<close>), the SQLite connection (\<open>sqlite_ok\<close>: it behaves like the reference machine of savepoints), the
  replies of SpaceXpanse Core (\<open>rpc_ok\<close>: they have their documented form; \<open>true_notification\<close>: a notification
  is about a block of the chain, with its parent and height), the rules of a game (\<open>initial_ok\<close>,
  and in \<open>true_notification\<close>: undoing a block with its undo data restores the old state, which the locale
  \<open>undoable_rules\<close> shows for the games with the old state as undo data).
  The session extension of SQLite is a parameter as well (\<open>session_undoes\<close>: an inverted changeset undoes the
  block that it was recorded for), and so is the code of a game in SQLite: a tree of statements, queries
  and requests for IDs.  Calls of the channel manager to wallets and RPC servers are taken to succeed or to
  abort, and JSON values stand for the texts that are sent.
  Every property with such a hypothesis has a witness with a concrete function.

  \<^bold>\<open>Hypotheses on inputs.\<close>  The code fails checks on some inputs that a player can send; the properties
  exclude them by name.  \<open>move_fine\<close> is about the texts and state proofs in moves about channels: base64 on
  which the decoder fails, and proofs that start in a state that parses but is not well-formed
  (a theorem of \<open>ShipsRules\<close> shows what such a proof does).  \<open>board_wf\<close> is the invariant of board states that are reached by moves;
  \<open>client_inv\<close> that the secrets of our player match the board.  Runs of a game (\<open>game_run\<close>) end with a failed
  commit outside of a transaction, after which the process aborts (the last theorem of \<open>GameProps\<close>).  The counters of
  won and lost games are unbounded here, where SQLite has 64 bits.

  \<^bold>\<open>Bounds.\<close>  No definition has fuel.  Three loops may run forever: the rejection loop of \<open>NextInt\<close> is a
  partial function, with a property that says exactly when it returns; so is the loop over automatic moves of
  a channel manager, with a property that it returns for ships; and the loop that stores the initial
  state of a game until the storage takes it is a \<open>while_option\<close>, which returns when the storage throws
  only finitely often (lemma \<open>retry_returns\<close>).

  \<^bold>\<open>Not modelled.\<close>  The storage in LMDB; the main loop, the RPC and REST servers, sockets and command lines;
  wrappers of third-party libraries (zlib, wallets, elliptic curves); threads, locks and snapshots of
  the database, whose effects are steps in any order.  \<open>HasAnyUnknownFields\<close> is a parameter since it walks
  the reflection of the protocol-buffer library.
\<close>

end
